(* ===== verification/Kanna_Prelude.thy ===== *)
theory Kanna_Prelude
  imports Complex_Main "HOL-Library.Multiset"
begin

text \<open>
  Shared vocabulary of the development: the parts of Rust's standard library that the modelled
  code uses (\<open>Iterator::position\<close>, \<open>find_map\<close>, \<open>Vec::insert\<close>, \<open>Vec::remove\<close>, \<open>str\<close> methods,
  decimal printing and parsing), error values, and the lemmas on them that more than one component
  needs.

  Strings are HOL \<^typ>\<open>string\<close>s: sequences of 8-bit characters, read as the Unicode characters
  U+0000 to U+00FF. Rust's \<open>char\<close> predicates are written out on that range. Integers of type
  \<open>usize\<close> used as counters and indices are \<^typ>\<open>nat\<close>; \<open>f64\<close> values are exact rationals, so
  rounding, infinities and NaN are outside the model.
\<close>

named_theorems panes_simps \<open>which panes an operation of the layout keeps\<close>
named_theorems frame_simps \<open>what an operation leaves alone\<close>

subsection \<open>Searching lists\<close>

text \<open>\<open>iter().position(p)\<close>: the first index whose element satisfies the predicate.\<close>

fun position :: "('a \<Rightarrow> bool) \<Rightarrow> 'a list \<Rightarrow> nat option" where
  "position p [] = None"
| "position p (x # xs) = (if p x then Some 0 else map_option Suc (position p xs))"

text \<open>\<open>iter().find_map(f)\<close>: the first \<open>Some\<close> the function gives.\<close>

fun find_map :: "('a \<Rightarrow> 'b option) \<Rightarrow> 'a list \<Rightarrow> 'b option" where
  "find_map f [] = None"
| "find_map f (x # xs) = (case f x of Some y \<Rightarrow> Some y | None \<Rightarrow> find_map f xs)"

lemma find_map_cong [fundef_cong]:
  "xs = ys \<Longrightarrow> (\<And>x. x \<in> set ys \<Longrightarrow> f x = g x) \<Longrightarrow> find_map f xs = find_map g ys"
  by (induction ys arbitrary: xs) (auto split: option.splits)

lemma position_None_iff [simp]: "position p xs = None \<longleftrightarrow> (\<forall>x \<in> set xs. \<not> p x)"
  by (induction xs) auto

lemma position_SomeD:
  "position p xs = Some i \<Longrightarrow> i < length xs \<and> p (xs ! i) \<and> (\<forall>j < i. \<not> p (xs ! j))"
proof (induction xs arbitrary: i)
  case (Cons x xs)
  show ?case
  proof (cases "p x")
    case False
    with Cons.prems obtain k where k: "position p xs = Some k" "i = Suc k" by auto
    with Cons.IH [OF k(1)] False show ?thesis by (auto simp: less_Suc_eq_0_disj)
  qed (use Cons.prems in auto)
qed simp

lemma position_SomeI:
  "i < length xs \<Longrightarrow> p (xs ! i) \<Longrightarrow> (\<forall>j < i. \<not> p (xs ! j)) \<Longrightarrow> position p xs = Some i"
proof (induction xs arbitrary: i)
  case (Cons x xs)
  show ?case
  proof (cases i)
    case 0
    with Cons.prems show ?thesis by simp
  next
    case (Suc k)
    from Cons.prems Suc have "k < length xs" "p (xs ! k)" "\<forall>j < k. \<not> p (xs ! j)"
      by auto
    then have "position p xs = Some k" by (rule Cons.IH)
    moreover from Cons.prems(3) Suc have "\<not> p x" by auto
    ultimately show ?thesis using Suc by simp
  qed
qed simp

lemma find_map_None_iff [simp]: "find_map f xs = None \<longleftrightarrow> (\<forall>x \<in> set xs. f x = None)"
  by (induction xs) (auto split: option.splits)

lemma find_map_SomeD: "find_map f xs = Some y \<Longrightarrow> \<exists>x \<in> set xs. f x = Some y"
  by (induction xs) (auto split: option.splits)

lemma find_SomeD: "List.find p xs = Some x \<Longrightarrow> x \<in> set xs \<and> p x"
  by (auto simp: find_Some_iff)

subsection \<open>Editing lists by index\<close>

text \<open>
  \<open>Vec::insert\<close> and \<open>Vec::remove\<close>. Rust panics where the index is past the end; every use in
  the modelled code is in range, and the lemmas below carry that as a hypothesis.
\<close>

definition insert_at :: "nat \<Rightarrow> 'a \<Rightarrow> 'a list \<Rightarrow> 'a list" where
  "insert_at i x xs = take i xs @ x # drop i xs"

definition remove_at :: "nat \<Rightarrow> 'a list \<Rightarrow> 'a list" where
  "remove_at i xs = take i xs @ drop (Suc i) xs"

lemma length_insert_at [simp]: "length (insert_at i x xs) = Suc (length xs)"
  by (simp add: insert_at_def)

lemma set_insert_at [simp]: "set (insert_at i x xs) = insert x (set xs)"
  by (metis insert_at_def Un_insert_right append_take_drop_id list.simps(15) set_append)

lemma mset_insert_at [simp]: "mset (insert_at i x xs) = add_mset x (mset xs)"
proof -
  have "mset (take i xs) + mset (drop i xs) = mset xs"
    by (metis append_take_drop_id mset_append)
  then show ?thesis by (simp add: insert_at_def)
qed

lemma length_remove_at: "i < length xs \<Longrightarrow> length (remove_at i xs) = length xs - 1"
  by (simp add: remove_at_def)

lemma mset_remove_at: "i < length xs \<Longrightarrow> add_mset (xs ! i) (mset (remove_at i xs)) = mset xs"
  by (metis id_take_nth_drop mset.simps(2) mset_append remove_at_def union_mset_add_mset_right)

lemma set_remove_at_subset: "set (remove_at i xs) \<subseteq> set xs"
  using set_take_subset set_drop_subset by (fastforce simp: remove_at_def)

lemma update_take_drop: "i < length xs \<Longrightarrow> xs[i := y] = take i xs @ y # drop (Suc i) xs"
  by (rule upd_conv_take_nth_drop)

lemma set_map_filter: "set (List.map_filter f xs) = {y. \<exists>x \<in> set xs. f x = Some y}"
  by (induction xs) (auto simp: List.map_filter_simps split: option.splits)


text \<open>
  Search with a work list, which several components write out as a loop: take an entry, skip it when it is barred or
  was seen, and else note it and put what follows it on the list. The locale states what such a loop promises,
  and what it finds is proved once.
\<close>

inductive reached_by :: "('a \<Rightarrow> bool) \<Rightarrow> ('a \<Rightarrow> 'a list) \<Rightarrow> 'a set \<Rightarrow> 'a \<Rightarrow> bool" for barred follows start where
  start: "x \<in> start \<Longrightarrow> \<not> barred x \<Longrightarrow> reached_by barred follows start x"
| follow: "reached_by barred follows start x \<Longrightarrow> y \<in> set (follows x) \<Longrightarrow> \<not> barred y \<Longrightarrow> reached_by barred follows start y"

lemma reached_by_not_barred: "reached_by barred follows start x \<Longrightarrow> \<not> barred x"
  by (induction rule: reached_by.induct)

locale work_list =
  fixes barred :: "'a \<Rightarrow> bool"
    and follows :: "'a \<Rightarrow> 'a list"
    and loop :: "'a list \<Rightarrow> 'a list \<Rightarrow> 'a list"
    and order :: "(('a list \<times> 'a list) \<times> 'a list \<times> 'a list) set"
  assumes order_wf: "wf order"
    and loop_end: "loop [] seen = seen"
    and loop_skip: "barred x \<or> x \<in> set seen \<Longrightarrow> loop (x # todo) seen = loop todo seen \<and> ((todo, seen), x # todo, seen) \<in> order"
    and loop_visit: "\<not> barred x \<Longrightarrow> x \<notin> set seen \<Longrightarrow>
      \<exists>todo'. set todo' = set (follows x) \<union> set todo \<and> loop (x # todo) seen = loop todo' (seen @ [x]) \<and> ((todo', seen @ [x]), x # todo, seen) \<in> order"
begin

definition search_inv :: "'a set \<Rightarrow> 'a list \<Rightarrow> 'a list \<Rightarrow> bool" where
  "search_inv start todo seen \<longleftrightarrow> distinct seen \<and> (\<forall>x \<in> set seen. reached_by barred follows start x) \<and>
     (\<forall>x \<in> set todo. \<not> barred x \<longrightarrow> reached_by barred follows start x) \<and>
     (\<forall>x \<in> start. \<not> barred x \<longrightarrow> x \<in> set seen \<union> set todo) \<and>
     (\<forall>x \<in> set seen. \<forall>y \<in> set (follows x). \<not> barred y \<longrightarrow> y \<in> set seen \<union> set todo)"

lemma search_inv_skip: "search_inv start (x # todo) seen \<Longrightarrow> barred x \<or> x \<in> set seen \<Longrightarrow> search_inv start todo seen"
  unfolding search_inv_def by auto

lemma search_inv_visit:
  "search_inv start (x # todo) seen \<Longrightarrow> \<not> barred x \<Longrightarrow> x \<notin> set seen \<Longrightarrow> set todo' = set (follows x) \<union> set todo \<Longrightarrow> search_inv start todo' (seen @ [x])"
  unfolding search_inv_def by (auto intro: follow)

lemma search_inv_end: assumes "search_inv start [] seen" shows "distinct seen \<and> set seen = {x. reached_by barred follows start x}"
proof -
  have st: "x \<in> set seen" if "x \<in> start" "\<not> barred x" for x using assms that unfolding search_inv_def by auto
  have fo: "y \<in> set seen" if "x \<in> set seen" "y \<in> set (follows x)" "\<not> barred y" for x y using assms that unfolding search_inv_def by auto
  have "x \<in> set seen" if "reached_by barred follows start x" for x using that by induction (auto intro: st fo)
  moreover have "distinct seen" "\<forall>x \<in> set seen. reached_by barred follows start x" using assms unfolding search_inv_def by auto
  ultimately show ?thesis by blast
qed

lemma loop_search: "search_inv start todo seen \<Longrightarrow> distinct (loop todo seen) \<and> set (loop todo seen) = {x. reached_by barred follows start x}"
proof (induction "(todo, seen)" arbitrary: todo seen rule: wf_induct_rule [OF order_wf])
  case 1
  show ?case
  proof (cases todo)
    case Nil
    with 1(2) search_inv_end show ?thesis by (simp add: loop_end)
  next
    case (Cons x rest)
    show ?thesis
    proof (cases "barred x \<or> x \<in> set seen")
      case True
      with 1(1) [of rest seen] loop_skip [OF True] search_inv_skip [of start x rest seen] 1(2) Cons show ?thesis by simp
    next
      case False
      then obtain todo' where "set todo' = set (follows x) \<union> set rest" "loop (x # rest) seen = loop todo' (seen @ [x])"
        "((todo', seen @ [x]), x # rest, seen) \<in> order" using loop_visit by blast
      with 1(1) [of todo' "seen @ [x]"] search_inv_visit [of start x rest seen todo'] 1(2) False Cons show ?thesis by simp
    qed
  qed
qed

lemma loop_finds: "distinct (loop todo [])" "set (loop todo []) = {x. reached_by barred follows (set todo) x}"
proof -
  have "search_inv (set todo) todo []" by (auto simp: search_inv_def intro: start)
  from loop_search [OF this] show "distinct (loop todo [])" "set (loop todo []) = {x. reached_by barred follows (set todo) x}" by auto
qed

end

end
