(* ===== verification/Kanna_Strings.thy ===== *)
theory Kanna_Strings
  imports Kanna_Prelude
begin

text \<open>
  The string operations of Rust's standard library that the modelled code calls, on strings over
  the characters U+0000 to U+00FF. Each is written as the documentation states it: \<open>trim\<close>,
  \<open>strip_prefix\<close>, \<open>split_once\<close>, \<open>split\<close>, \<open>split_whitespace\<close>, \<open>lines\<close>, \<open>join\<close>, decimal printing
  (\<open>to_string\<close> and \<open>format!\<close> of an unsigned integer) and parsing (\<open>parse::<uN>\<close>).
\<close>

subsection \<open>Character classes\<close>

abbreviation code :: "char \<Rightarrow> nat" where
  "code c \<equiv> of_char c"

definition is_whitespace :: "char \<Rightarrow> bool" where
  "is_whitespace c \<longleftrightarrow> (9 \<le> code c \<and> code c \<le> 13) \<or> code c = 32 \<or> code c = 133 \<or> code c = 160"

definition is_control :: "char \<Rightarrow> bool" where
  "is_control c \<longleftrightarrow> code c < 32 \<or> (127 \<le> code c \<and> code c \<le> 159)"

definition is_digit :: "char \<Rightarrow> bool" where
  "is_digit c \<longleftrightarrow> 48 \<le> code c \<and> code c \<le> 57"

definition is_lower :: "char \<Rightarrow> bool" where
  "is_lower c \<longleftrightarrow> 97 \<le> code c \<and> code c \<le> 122"

abbreviation newline :: char where
  "newline \<equiv> CHR 0x0A"

abbreviation quote :: char where
  "quote \<equiv> CHR 0x22"

subsection \<open>Trimming, prefixes, splitting\<close>

definition trim_start :: "string \<Rightarrow> string" where
  "trim_start = dropWhile is_whitespace"

definition trim_end_by :: "(char \<Rightarrow> bool) \<Rightarrow> string \<Rightarrow> string" where
  "trim_end_by p s = rev (dropWhile p (rev s))"

definition trim :: "string \<Rightarrow> string" where
  "trim s = trim_end_by is_whitespace (trim_start s)"

definition starts_with :: "string \<Rightarrow> string \<Rightarrow> bool" where
  "starts_with p s \<longleftrightarrow> take (length p) s = p"

definition ends_with :: "string \<Rightarrow> string \<Rightarrow> bool" where
  "ends_with p s \<longleftrightarrow> starts_with (rev p) (rev s)"

definition strip_prefix :: "string \<Rightarrow> string \<Rightarrow> string option" where
  "strip_prefix p s = (if starts_with p s then Some (drop (length p) s) else None)"

text \<open>\<open>split_once\<close>: the text before and after the first occurrence of a (non-empty) pattern.\<close>

fun split_once :: "string \<Rightarrow> string \<Rightarrow> (string \<times> string) option" where
  "split_once p [] = (if p = [] then Some ([], []) else None)"
| "split_once p (c # s) =
     (if starts_with p (c # s) then Some ([], drop (length p) (c # s))
      else map_option (\<lambda>(a, b). (c # a, b)) (split_once p s))"

definition contains_str :: "string \<Rightarrow> string \<Rightarrow> bool" where
  "contains_str p s \<longleftrightarrow> split_once p s \<noteq> None"

text \<open>\<open>split\<close> by a character predicate: always at least one piece.\<close>

fun split_on :: "(char \<Rightarrow> bool) \<Rightarrow> string \<Rightarrow> string list" where
  "split_on p [] = [[]]"
| "split_on p (c # s) =
     (if p c then [] # split_on p s
      else (case split_on p s of [] \<Rightarrow> [[c]] | x # xs \<Rightarrow> (c # x) # xs))"

definition split_whitespace :: "string \<Rightarrow> string list" where
  "split_whitespace s = filter (\<lambda>w. w \<noteq> []) (split_on is_whitespace s)"

text \<open>
  \<open>str::lines\<close>: the pieces between line feeds, without a carriage return right before the line
  feed, and without a last empty piece.
\<close>

definition strip_cr :: "string \<Rightarrow> string" where
  "strip_cr l = (if l \<noteq> [] \<and> last l = CHR 0x0D then butlast l else l)"

definition lines_str :: "string \<Rightarrow> string list" where
  "lines_str s =
     (let ps = split_on (\<lambda>c. c = newline) s
      in map strip_cr (butlast ps) @ (if last ps = [] then [] else [last ps]))"

fun join :: "string \<Rightarrow> string list \<Rightarrow> string" where
  "join sep [] = []"
| "join sep [x] = x"
| "join sep (x # y # ys) = x @ sep @ join sep (y # ys)"

subsection \<open>Decimal numbers\<close>

definition digit :: "nat \<Rightarrow> char" where
  "digit d = char_of (48 + d)"

fun dec :: "nat \<Rightarrow> string" where
  "dec n = (if n < 10 then [digit n] else dec (n div 10) @ [digit (n mod 10)])"

declare dec.simps [simp del]

definition digits_value :: "string \<Rightarrow> nat" where
  "digits_value s = foldl (\<lambda>n c. 10 * n + (code c - 48)) 0 s"

text \<open>
  \<open>s.parse::<uN>()\<close>: an optional \<open>+\<close>, then one or more digits, in range for the width.
\<close>

definition parse_unsigned :: "nat \<Rightarrow> string \<Rightarrow> nat option" where
  "parse_unsigned w s =
     (let d = (case s of c # r \<Rightarrow> if c = CHR ''+'' then r else s | [] \<Rightarrow> [])
      in if d \<noteq> [] \<and> list_all is_digit d \<and> digits_value d < 2 ^ w
         then Some (digits_value d) else None)"

abbreviation parse_u32 :: "string \<Rightarrow> nat option" where
  "parse_u32 \<equiv> parse_unsigned 32"

abbreviation parse_u64 :: "string \<Rightarrow> nat option" where
  "parse_u64 \<equiv> parse_unsigned 64"

abbreviation parse_usize :: "string \<Rightarrow> nat option" where
  "parse_usize \<equiv> parse_unsigned 64"

subsection \<open>Lemmas\<close>

lemma starts_with_Nil [simp]: "starts_with [] s"
  by (simp add: starts_with_def)

lemma starts_with_Cons [simp]:
  "starts_with (c # p) (d # s) \<longleftrightarrow> c = d \<and> starts_with p s"
  "\<not> starts_with (c # p) []"
  by (auto simp: starts_with_def)

lemma starts_with_append [simp]: "starts_with p (p @ s)"
  by (simp add: starts_with_def)

lemma strip_prefix_append [simp]: "strip_prefix p (p @ s) = Some s"
  by (simp add: strip_prefix_def)

lemma strip_prefix_SomeD: "strip_prefix p s = Some r \<Longrightarrow> s = p @ r"
  by (auto simp: strip_prefix_def starts_with_def split: if_splits)
     (metis append_take_drop_id)

lemma split_once_SomeD: "split_once p s = Some (a, b) \<Longrightarrow> s = a @ p @ b"
proof (induction s arbitrary: a)
  case (Cons c s)
  then show ?case
    by (auto split: if_splits simp: starts_with_def)
       (metis append_take_drop_id length_Cons take_all_iff append_Cons)
qed (auto split: if_splits)

text \<open>A single-character pattern: the piece before it does not contain it.\<close>

lemma split_once_char_SomeD: "split_once [x] s = Some (a, b) \<Longrightarrow> x \<notin> set a \<and> s = a @ x # b"
  by (induction s arbitrary: a) (auto split: if_splits)

lemma split_once_char_append: "x \<notin> set a \<Longrightarrow> split_once [x] (a @ x # b) = Some (a, b)"
  by (induction a) auto

lemma split_once_char_None: "split_once [x] s = None \<longleftrightarrow> x \<notin> set s"
  by (induction s) auto

lemma split_on_not_Nil [simp]: "split_on p s \<noteq> []"
  by (induction s) (auto split: list.splits)

lemma split_on_none: "\<forall>c \<in> set s. \<not> p c \<Longrightarrow> split_on p s = [s]"
  by (induction s) auto

lemma split_on_append:
  "\<forall>c \<in> set a. \<not> p c \<Longrightarrow> p x \<Longrightarrow> split_on p (a @ x # s) = a # split_on p s"
  by (induction a) auto

lemma split_on_pieces: "w \<in> set (split_on p s) \<Longrightarrow> c \<in> set w \<Longrightarrow> \<not> p c \<and> c \<in> set s"
proof (induction s arbitrary: w)
  case (Cons d s)
  show ?case
  proof (cases "p d")
    case False
    obtain x xs where xs: "split_on p s = x # xs" by (cases "split_on p s") auto
    with False Cons.prems have "w = d # x \<or> w \<in> set xs" by simp
    then show ?thesis
      using Cons.IH [of x] Cons.IH [of w] Cons.prems(2) False xs by auto
  qed (use Cons in auto)
qed simp

subsubsection \<open>Printing and parsing a number\<close>

lemma digit_chars [simp]:
  "digit 0 = CHR ''0''" "digit 1 = CHR ''1''" "digit 2 = CHR ''2''" "digit 3 = CHR ''3''"
  "digit 4 = CHR ''4''" "digit 5 = CHR ''5''" "digit 6 = CHR ''6''" "digit 7 = CHR ''7''"
  "digit 8 = CHR ''8''" "digit 9 = CHR ''9''" "digit (Suc 0) = CHR ''1''"
  by (simp_all add: digit_def char_of_def bit_0)

lemma code_digit: "d < 10 \<Longrightarrow> code (digit d) = 48 + d"
  by (simp add: digit_def)

lemma is_digit_digit: "d < 10 \<Longrightarrow> is_digit (digit d)"
  by (simp add: is_digit_def code_digit)

lemma digits_value_snoc: "digits_value (s @ [c]) = 10 * digits_value s + (code c - 48)"
  by (simp add: digits_value_def)

lemma dec_digits: "dec n \<noteq> [] \<and> list_all is_digit (dec n)"
proof (induction n rule: dec.induct)
  case (1 n)
  then show ?case
    by (subst (1 2) dec.simps) (auto simp: is_digit_digit)
qed

lemma digits_value_dec: "digits_value (dec n) = n"
proof (induction n rule: dec.induct)
  case (1 n)
  show ?case
  proof (cases "n < 10")
    case True
    then show ?thesis by (simp add: dec.simps [of n] digits_value_def code_digit)
  next
    case False
    then show ?thesis
      using 1 by (simp add: dec.simps [of n] digits_value_snoc code_digit)
  qed
qed

lemma plus_not_digit: "list_all is_digit s \<Longrightarrow> s \<noteq> [] \<Longrightarrow> hd s \<noteq> CHR ''+''"
  by (cases s) (auto simp: is_digit_def)

lemma parse_unsigned_dec: "n < 2 ^ w \<Longrightarrow> parse_unsigned w (dec n) = Some n"
  using dec_digits [of n] plus_not_digit [of "dec n"] digits_value_dec [of n]
  by (auto simp: parse_unsigned_def Let_def split: list.splits)

lemma dec_inj: "dec m = dec n \<longleftrightarrow> m = n"
  by (metis digits_value_dec)

lemma parse_unsigned_bound: "parse_unsigned w s = Some n \<Longrightarrow> n < 2 ^ w"
  by (auto simp: parse_unsigned_def Let_def split: if_splits)

end
