(* ===== verification/Mux_Json.thy ===== *)
theory Mux_Json
  imports Kanna_Strings
begin

text \<open>
  JSON values as the mux reads and writes them (\<open>kanna-mux/src/json.rs\<close>) and its error type
  (\<open>error.rs\<close>). A number is an integer or a float, as in \<open>serde_json\<close>; an object is an
  association list in insertion order, which is what the workspace builds \<open>serde_json\<close> with
  (\<open>preserve_order\<close>). Text encoding and decoding is \<open>serde_json\<close>'s and is not modelled.
\<close>

datatype number = NInt int | NFloat rat

datatype json =
    Null
  | JBool bool
  | JNumber number
  | JString string
  | JArray "json list"
  | JObject "(string \<times> json) list"

type_synonym obj = "(string \<times> json) list"

record kmux_error =
  err_code :: string
  err_message :: string

definition kmux_err :: "string \<Rightarrow> string \<Rightarrow> kmux_error" where
  "kmux_err c m = \<lparr>err_code = c, err_message = m\<rparr>"

subsection \<open>Reading values\<close>

text \<open>\<open>Value::get\<close>, \<open>as_str\<close>, \<open>as_f64\<close>, \<open>as_u64\<close>, \<open>as_i64\<close>, \<open>as_bool\<close>, \<open>as_array\<close>.\<close>

fun as_str :: "json \<Rightarrow> string option" where
  "as_str (JString s) = Some s" | "as_str _ = None"

fun number_f64 :: "number \<Rightarrow> rat" where
  "number_f64 (NInt i) = of_int i" | "number_f64 (NFloat r) = r"

fun as_f64 :: "json \<Rightarrow> rat option" where
  "as_f64 (JNumber n) = Some (number_f64 n)" | "as_f64 _ = None"

fun as_u64 :: "json \<Rightarrow> nat option" where
  "as_u64 (JNumber (NInt i)) = (if 0 \<le> i \<and> i < 2 ^ 64 then Some (nat i) else None)"
| "as_u64 _ = None"

fun as_i64 :: "json \<Rightarrow> int option" where
  "as_i64 (JNumber (NInt i)) = (if - (2 ^ 63) \<le> i \<and> i < 2 ^ 63 then Some i else None)"
| "as_i64 _ = None"

fun as_bool :: "json \<Rightarrow> bool option" where
  "as_bool (JBool b) = Some b" | "as_bool _ = None"

fun as_array :: "json \<Rightarrow> json list option" where
  "as_array (JArray xs) = Some xs" | "as_array _ = None"

fun jget :: "json \<Rightarrow> string \<Rightarrow> json option" where
  "jget (JObject fs) k = map_of fs k" | "jget _ k = None"

definition json_string :: "json \<Rightarrow> string \<Rightarrow> string option" where
  "json_string v k = Option.bind (jget v k) as_str"

definition is_true :: "json \<Rightarrow> string \<Rightarrow> bool" where
  "is_true v k \<longleftrightarrow> jget v k = Some (JBool True)"

subsection \<open>Building values\<close>

text \<open>\<open>Map::insert\<close>: replaces the value of a key in place, or appends a new field.\<close>

fun oinsert :: "string \<Rightarrow> json \<Rightarrow> obj \<Rightarrow> obj" where
  "oinsert k v [] = [(k, v)]"
| "oinsert k v ((k', w) # fs) = (if k' = k then (k, v) # fs else (k', w) # oinsert k v fs)"

definition num :: "rat \<Rightarrow> json" where
  "num v = (if v \<in> \<int> \<and> \<bar>v\<bar> < 10 ^ 15 then JNumber (NInt \<lfloor>v\<rfloor>) else JNumber (NFloat v))"

definition num_nat :: "nat \<Rightarrow> json" where
  "num_nat n = num (of_nat n)"

fun opt_json :: "string option \<Rightarrow> json" where
  "opt_json None = Null" | "opt_json (Some s) = JString s"

fun normalized :: "json \<Rightarrow> json" where
  "normalized (JNumber n) = num (number_f64 n)"
| "normalized (JArray xs) = JArray (map normalized xs)"
| "normalized (JObject fs) = JObject (map (\<lambda>(k, v). (k, normalized v)) fs)"
| "normalized v = v"

function (sequential) same :: "json \<Rightarrow> json \<Rightarrow> bool" where
  "same (JNumber x) (JNumber y) = (number_f64 x = number_f64 y)"
| "same (JArray xs) (JArray ys) =
     (length xs = length ys \<and> (\<forall>(x, y) \<in> set (zip xs ys). same x y))"
| "same (JObject xs) (JObject ys) =
     (length xs = length ys \<and>
      (\<forall>(k, v) \<in> set xs. case map_of ys k of None \<Rightarrow> False | Some w \<Rightarrow> same v w))"
| "same a b = (a = b)"
  by pat_completeness auto
termination
proof (relation "measure (\<lambda>(a, b). size a)")
  fix xs ys :: "json list" and z x y
  assume "z \<in> set (zip xs ys)" "(x, y) = z"
  then have "x \<in> set xs" by (auto dest: set_zip_leftD)
  then show "((x, y), (JArray xs, JArray ys)) \<in> measure (\<lambda>(a, b). size a)"
    by (simp add: size_list_estimation less_Suc_eq_le size_list_estimation')
next
  fix xs ys :: obj and z k v w
  assume z: "z \<in> set xs" "(k, v) = z"
  have "size v \<le> size_list (size_prod (\<lambda>x. 0) size) xs"
    by (rule size_list_estimation' [OF z(1)]) (use z(2) in auto)
  then show "((v, w), (JObject xs, JObject ys)) \<in> measure (\<lambda>(a, b). size a)"
    by (simp add: less_Suc_eq_le)
qed simp

text \<open>\<open>json::trim\<close>: the blanks that are not line breaks (tab, space, no-break space).\<close>

definition is_blank :: "char \<Rightarrow> bool" where
  "is_blank c \<longleftrightarrow> is_whitespace c \<and> code c \<notin> {10, 11, 12, 13, 133}"

definition json_trim :: "string \<Rightarrow> string" where
  "json_trim s = trim_end_by is_blank (dropWhile is_blank s)"

subsection \<open>Objects\<close>

lemma map_of_oinsert [simp]: "map_of (oinsert k v fs) = (map_of fs)(k \<mapsto> v)"
  by (induction fs) (auto simp: fun_eq_iff)

lemma keys_oinsert: "fst ` set (oinsert k v fs) = insert k (fst ` set fs)"
  by (induction k v fs rule: oinsert.induct) auto

lemma distinct_oinsert: "distinct (map fst fs) \<Longrightarrow> distinct (map fst (oinsert k v fs))"
  by (induction k v fs rule: oinsert.induct) (auto simp: keys_oinsert)

lemma jget_oinsert [simp]: "jget (JObject (oinsert k v fs)) j = (if j = k then Some v else map_of fs j)"
  by simp

lemma as_u64_num_nat: "n < 10 ^ 15 \<Longrightarrow> as_u64 (num_nat n) = Some n"
proof -
  assume n: "n < 10 ^ 15"
  then have "(of_nat n :: rat) < of_nat (10 ^ 15)" by (simp only: of_nat_less_iff)
  then have "\<bar>of_nat n :: rat\<bar> < 10 ^ 15" by simp
  moreover from n have "int n < 2 ^ 64" by simp
  ultimately show ?thesis by (simp add: num_nat_def num_def)
qed

lemma as_f64_num: "as_f64 (num v) = Some v"
  by (auto simp: num_def elim: Ints_cases)

lemma num_not_Null [simp]: "num v \<noteq> Null"
  by (simp add: num_def)

subsection \<open>Normal forms\<close>

lemma normalized_num: "normalized (num v) = num v"
  by (auto simp: num_def elim: Ints_cases)

lemma normalized_idem: "normalized (normalized v) = normalized v"
  by (induction v rule: normalized.induct) (auto simp: normalized_num)

fun distinct_keys :: "json \<Rightarrow> bool" where
  "distinct_keys (JArray xs) = (\<forall>x \<in> set xs. distinct_keys x)"
| "distinct_keys (JObject fs) =
     (distinct (map fst fs) \<and> (\<forall>(k, v) \<in> set fs. distinct_keys v))"
| "distinct_keys _ = True"

lemma number_f64_num: "num v = JNumber n \<Longrightarrow> number_f64 n = v"
  by (auto simp: num_def split: if_splits elim!: Ints_cases)

lemma map_of_normalized:
  "map_of (map (\<lambda>(k, v). (k, normalized v)) fs) k = map_option normalized (map_of fs k)"
  by (induction fs) auto

lemma same_normalized: "distinct_keys v \<Longrightarrow> same v (normalized v)"
proof (induction v rule: normalized.induct)
  case (1 n)
  then show ?case by (cases "num (number_f64 n)") (auto simp: number_f64_num num_def split: if_splits)
next
  case (2 xs)
  then show ?case by (auto simp: set_zip)
next
  case (3 fs)
  have "same v (normalized v) \<and> map_of fs k = Some v" if "(k, v) \<in> set fs" for k v
    using 3 that by (auto simp: map_of_eq_Some_iff)
  then show ?case by (auto simp: map_of_normalized)
qed auto

end
