(* ===== verification/Mux_Panes.thy ===== *)
theory Mux_Panes
  imports Mux_Json
begin

text \<open>
  Panes and the table of panes (\<open>kanna-mux/src/pane.rs\<close>): what a pane is, the comments, tour
  stops and marks it carries with their JSON forms, how a tab is named after it, and the table
  \<open>Panes\<close> that hands out pane IDs. \<open>shlex::split\<close>, from the crate \<open>shlex\<close>, is a parameter of
  \<open>program\<close>.
\<close>

datatype pane_type = Term | Web | Ios | Md | Code | Diff | Log | Serial

datatype pane_state = Starting | Running | Exited | Failed

fun pane_type_str :: "pane_type \<Rightarrow> string" where
  "pane_type_str Term = ''term''"
| "pane_type_str Web = ''web''"
| "pane_type_str Ios = ''ios''"
| "pane_type_str Md = ''md''"
| "pane_type_str Code = ''code''"
| "pane_type_str Diff = ''diff''"
| "pane_type_str Log = ''log''"
| "pane_type_str Serial = ''serial''"

definition pane_type_parse :: "string \<Rightarrow> pane_type option" where
  "pane_type_parse name =
     List.find (\<lambda>t. pane_type_str t = name) [Term, Web, Ios, Md, Code, Diff, Log, Serial]"

fun pane_state_str :: "pane_state \<Rightarrow> string" where
  "pane_state_str Starting = ''starting''"
| "pane_state_str Running = ''running''"
| "pane_state_str Exited = ''exited''"
| "pane_state_str Failed = ''failed''"

definition pane_state_parse :: "string \<Rightarrow> pane_state option" where
  "pane_state_parse name =
     List.find (\<lambda>s. pane_state_str s = name) [Starting, Running, Exited, Failed]"

record history =
  hist_back :: "string list"
  hist_forward :: "string list"

record comment =
  cm_path :: string
  cm_first :: nat
  cm_last :: nat
  cm_text :: string

record stop =
  st_path :: string
  st_first :: nat
  st_last :: nat
  st_text :: string
  st_doc :: bool
  st_thread :: "string option"

record tour =
  tr_stops :: "stop list"
  tr_at :: nat

record stop_mark =
  sm_owner :: string
  sm_at :: nat
  sm_of :: nat
  sm_thread :: "string option"

record pane =
  pane_id :: string
  pane_name :: "string option"
  pane_kind :: pane_type
  pane_st :: pane_state
  exit_code :: "int option"
  pane_error :: "string option"
  pane_command :: "string option"
  pane_cwd :: "string option"
  opened_in :: "string option"
  pane_url :: "string option"
  pane_title :: "string option"
  pane_app :: "string option"
  pane_device :: "string option"
  pane_path :: "string option"
  pane_line :: "nat option"
  pane_comment :: "comment option"
  pane_tour :: "tour option"
  pane_stop :: "stop_mark option"
  git_args :: "string list option"
  pane_view :: "string option"
  pane_agent :: "string option"
  pane_markup :: bool
  diff_base :: "string option"
  pane_baud :: "nat option"
  line_ending :: "string option"
  pane_history :: "history option"
  pane_session :: "string option"
  pane_pid :: "int option"
  pane_status :: "string option"
  hung_up :: bool
  terminal :: "string option"

definition new_pane :: "string \<Rightarrow> string option \<Rightarrow> pane_type \<Rightarrow> pane" where
  "new_pane i name kind =
     \<lparr>pane_id = i, pane_name = name, pane_kind = kind, pane_st = Starting, exit_code = None,
      pane_error = None, pane_command = None, pane_cwd = None, opened_in = None, pane_url = None,
      pane_title = None, pane_app = None, pane_device = None, pane_path = None, pane_line = None,
      pane_comment = None, pane_tour = None, pane_stop = None, git_args = None, pane_view = None,
      pane_agent = None, pane_markup = False, diff_base = None, pane_baud = None,
      line_ending = None, pane_history = None, pane_session = None, pane_pid = None,
      pane_status = None, hung_up = False, terminal = None\<rparr>"

subsection \<open>Comments, tours and marks as JSON\<close>

abbreviation (input) insert_some :: "string \<Rightarrow> json option \<Rightarrow> obj \<Rightarrow> obj" where
  "insert_some k v out \<equiv> (case v of None \<Rightarrow> out | Some w \<Rightarrow> oinsert k w out)"

definition comment_to_json :: "comment \<Rightarrow> json" where
  "comment_to_json c =
     JObject (oinsert ''text'' (JString (cm_text c))
       (oinsert ''last'' (num_nat (cm_last c))
       (oinsert ''first'' (num_nat (cm_first c))
       (oinsert ''path'' (JString (cm_path c)) []))))"

text \<open>\<open>value.get(key).and_then(Value::as_u64).filter(|l| *l > 0)\<close>\<close>

definition line_field :: "json \<Rightarrow> string \<Rightarrow> nat option" where
  "line_field v key =
     (case Option.bind (jget v key) as_u64 of Some l \<Rightarrow> if l > 0 then Some l else None | None \<Rightarrow> None)"

definition comment_from_json :: "json \<Rightarrow> comment option" where
  "comment_from_json v =
     Option.bind (line_field v ''first'') (\<lambda>first.
     Option.bind (line_field v ''last'') (\<lambda>last.
     Option.bind (json_string v ''path'') (\<lambda>path.
     Option.bind (json_string v ''text'') (\<lambda>text.
       Some \<lparr>cm_path = path, cm_first = first, cm_last = max last first, cm_text = text\<rparr>))))"

definition stop_to_json :: "stop \<Rightarrow> json" where
  "stop_to_json s =
     (let out = oinsert ''text'' (JString (st_text s))
            (oinsert ''last'' (num_nat (st_last s))
            (oinsert ''first'' (num_nat (st_first s))
            (oinsert ''path'' (JString (st_path s)) [])));
          out = (if st_doc s then oinsert ''doc'' (JBool True) out else out);
          out = (case st_thread s of None \<Rightarrow> out | Some t \<Rightarrow> oinsert ''thread'' (JString t) out)
      in JObject out)"

definition stop_from_json :: "json \<Rightarrow> stop option" where
  "stop_from_json v =
     Option.bind (comment_from_json v) (\<lambda>c.
       Some \<lparr>st_path = cm_path c, st_first = cm_first c, st_last = cm_last c, st_text = cm_text c,
             st_doc = (case Option.bind (jget v ''doc'') as_bool of Some b \<Rightarrow> b | None \<Rightarrow> False),
             st_thread = json_string v ''thread''\<rparr>)"

definition stop_comment :: "stop \<Rightarrow> comment" where
  "stop_comment s = \<lparr>cm_path = st_path s, cm_first = st_first s, cm_last = st_last s, cm_text = st_text s\<rparr>"

definition tour_to_json :: "tour \<Rightarrow> json" where
  "tour_to_json t =
     JObject (oinsert ''at'' (num (of_nat (tr_at t) + 1))
       (oinsert ''stops'' (JArray (map stop_to_json (tr_stops t))) []))"

definition tour_from_json :: "json \<Rightarrow> tour option" where
  "tour_from_json v =
     Option.bind (jget v ''stops'') (\<lambda>a.
     Option.bind (as_array a) (\<lambda>items.
       let stops = List.map_filter stop_from_json items;
           n = (case Option.bind (jget v ''at'') as_u64 of Some n \<Rightarrow> n | None \<Rightarrow> 1);
           i = max n 1 - 1
       in if stops \<noteq> [] then Some \<lparr>tr_stops = stops, tr_at = min i (length stops - 1)\<rparr> else None))"

definition stop_mark_to_json :: "stop_mark \<Rightarrow> json" where
  "stop_mark_to_json m =
     (let out = oinsert ''of'' (num_nat (sm_of m))
            (oinsert ''at'' (num (of_nat (sm_at m) + 1))
            (oinsert ''owner'' (JString (sm_owner m)) []));
          out = (case sm_thread m of None \<Rightarrow> out | Some t \<Rightarrow> oinsert ''thread'' (JString t) out)
      in JObject out)"

definition stop_mark_from_json :: "json \<Rightarrow> stop_mark option" where
  "stop_mark_from_json v =
     Option.bind (line_field v ''at'') (\<lambda>a.
     Option.bind (Option.bind (jget v ''of'') as_u64) (\<lambda>n.
     Option.bind (json_string v ''owner'') (\<lambda>owner.
       Some \<lparr>sm_owner = owner, sm_at = a - 1, sm_of = max n (a - 1 + 1),
             sm_thread = json_string v ''thread''\<rparr>)))"

subsection \<open>What a pane is called\<close>

definition pane_status_str :: "pane \<Rightarrow> string option" where
  "pane_status_str p =
     (case pane_kind p of
        Term \<Rightarrow> (if pane_st p = Exited then Some ''exited'' else pane_status p)
      | _ \<Rightarrow> None)"

definition rsplit_slash :: "string \<Rightarrow> string" where
  "rsplit_slash s = last (split_on (\<lambda>c. c = CHR ''/'') s)"

definition program :: "(string \<Rightarrow> string list option) \<Rightarrow> pane \<Rightarrow> string option" where
  "program shlex_split p =
     Option.bind (pane_command p) (\<lambda>cmd.
     Option.bind (shlex_split cmd) (\<lambda>words.
     Option.bind
       (if length words > 1 \<and> words ! 1 = ''--codex-remote''
        then (if length words > 3 then Some (words ! 3) else None)
        else (case words of [] \<Rightarrow> None | w # _ \<Rightarrow> Some w))
       (\<lambda>first. if rsplit_slash first = [] then None else Some (rsplit_slash first))))"

definition label :: "pane \<Rightarrow> string" where
  "label p = (case pane_name p of Some name \<Rightarrow> name @ '' ('' @ pane_id p @ '')'' | None \<Rightarrow> pane_id p)"

definition file_name :: "string \<Rightarrow> string option" where
  "file_name path =
     (let n = rsplit_slash (trim_end_by (\<lambda>c. c = CHR ''/'') path) in if n = [] then None else Some n)"

definition host :: "string \<Rightarrow> string option" where
  "host url =
     (case split_once ''://'' url of
        None \<Rightarrow> file_name url
      | Some (_, rest) \<Rightarrow>
          let authority = hd (split_on (\<lambda>c. c \<in> set ''/?#'') rest);
              authority = last (split_on (\<lambda>c. c = CHR ''@'') authority);
              h = (case strip_prefix ''['' authority of
                     Some v6 \<Rightarrow> hd (split_on (\<lambda>c. c = CHR '']'') v6)
                   | None \<Rightarrow> hd (split_on (\<lambda>c. c = CHR '':'') authority))
          in if h = [] then file_name (hd (split_on (\<lambda>c. c \<in> set ''?#'') rest)) else Some h)"

definition titled :: "pane \<Rightarrow> string option" where
  "titled p = (case pane_title p of Some t \<Rightarrow> if trim t \<noteq> [] then Some t else None | None \<Rightarrow> None)"

fun trim_start_matches :: "nat \<Rightarrow> string \<Rightarrow> string \<Rightarrow> string" where
  "trim_start_matches 0 p s = s"
| "trim_start_matches (Suc n) p s =
     (case strip_prefix p s of Some r \<Rightarrow> trim_start_matches n p r | None \<Rightarrow> s)"

definition tab_name :: "pane \<Rightarrow> string option" where
  "tab_name p =
     (let name = (case pane_name p of
          Some name \<Rightarrow> Some name
        | None \<Rightarrow> (case pane_kind p of
            Md \<Rightarrow> Option.bind (pane_path p) file_name
          | Code \<Rightarrow> Option.bind (pane_path p) file_name
          | Web \<Rightarrow> (case titled p of Some t \<Rightarrow> Some t | None \<Rightarrow> Option.bind (pane_url p) host)
          | Diff \<Rightarrow> Some (join '' '' (pane_type_str Diff # (case git_args p of Some a \<Rightarrow> a | None \<Rightarrow> [])))
          | Log \<Rightarrow> Some (join '' '' (pane_type_str Log # (case git_args p of Some a \<Rightarrow> a | None \<Rightarrow> [])))
          | Serial \<Rightarrow> (case titled p of Some t \<Rightarrow> Some t
              | None \<Rightarrow> map_option (\<lambda>n. trim_start_matches (length n) ''cu.'' n)
                          (Option.bind (pane_path p) file_name))
          | Term \<Rightarrow> None
          | Ios \<Rightarrow> None))
      in case name of
           None \<Rightarrow> None
         | Some n \<Rightarrow> (let t = trim (filter (\<lambda>c. \<not> is_control c) n) in if t = [] then None else Some t))"

definition diff_args :: "string list option \<Rightarrow> json" where
  "diff_args args = JArray (map JString (case args of Some a \<Rightarrow> a | None \<Rightarrow> []))"

definition read_diff_args :: "json option \<Rightarrow> kmux_error + string list option" where
  "read_diff_args v =
     (case v of
        None \<Rightarrow> Inr None
      | Some Null \<Rightarrow> Inr None
      | Some (JArray items) \<Rightarrow>
          (if \<forall>item \<in> set items. as_str item \<noteq> None
           then Inr (Some (map (\<lambda>item. the (as_str item)) items))
           else Inl (kmux_err ''bad_request'' ''args must be a list of strings''))
      | Some _ \<Rightarrow> Inl (kmux_err ''bad_request'' ''args must be a list of strings''))"

definition read_view :: "json option \<Rightarrow> kmux_error + string option" where
  "read_view v =
     (case v of
        None \<Rightarrow> Inr None
      | Some Null \<Rightarrow> Inr None
      | Some (JString view) \<Rightarrow>
          (if view = ''unified'' \<or> view = ''split'' then Inr (Some view)
           else Inl (kmux_err ''bad_request'' ''view must be unified or split''))
      | Some _ \<Rightarrow> Inl (kmux_err ''bad_request'' ''view must be unified or split''))"

definition serial_fields :: "pane \<Rightarrow> obj \<Rightarrow> obj" where
  "serial_fields p out =
     oinsert ''lineEnding'' (JString (case line_ending p of Some e \<Rightarrow> e | None \<Rightarrow> ''lf''))
       (oinsert ''baud'' (num_nat (case pane_baud p of Some b \<Rightarrow> b | None \<Rightarrow> 115200))
       (oinsert ''title'' (opt_json (pane_title p))
       (oinsert ''device'' (opt_json (pane_device p))
       (oinsert ''path'' (opt_json (pane_path p)) out))))"

definition read_baud :: "json option \<Rightarrow> kmux_error + nat option" where
  "read_baud v =
     (case v of
        None \<Rightarrow> Inr None
      | Some Null \<Rightarrow> Inr None
      | Some w \<Rightarrow> (case as_f64 w of
          Some n \<Rightarrow> (if 50 \<le> n \<and> n \<le> 20000000 \<and> n \<in> \<int> then Inr (Some (nat \<lfloor>n\<rfloor>))
                     else Inl (kmux_err ''bad_request'' ''baud must be a whole number of bits a second, from 50 to 20000000''))
        | None \<Rightarrow> Inl (kmux_err ''bad_request'' ''baud must be a whole number of bits a second, from 50 to 20000000'')))"

definition read_line_ending :: "json option \<Rightarrow> kmux_error + string option" where
  "read_line_ending v =
     (case v of
        None \<Rightarrow> Inr None
      | Some Null \<Rightarrow> Inr None
      | Some (JString e) \<Rightarrow>
          (if e \<in> {''lf'', ''crlf'', ''cr''} then Inr (Some e)
           else Inl (kmux_err ''bad_request'' ''lineEnding must be lf, crlf or cr''))
      | Some _ \<Rightarrow> Inl (kmux_err ''bad_request'' ''lineEnding must be lf, crlf or cr''))"

definition kind_fields :: "pane \<Rightarrow> obj \<Rightarrow> obj" where
  "kind_fields p out =
     (case pane_kind p of
        Term \<Rightarrow>
          insert_some ''pid'' (map_option (\<lambda>i. num (of_int i)) (pane_pid p))
            (oinsert ''cwd'' (opt_json (pane_cwd p))
            (oinsert ''cmd'' (opt_json (pane_command p))
            (oinsert ''terminal'' (opt_json (terminal p)) out)))
      | Web \<Rightarrow>
          (let out = oinsert ''history'' (JBool (pane_history p \<noteq> None)) (oinsert ''url'' (opt_json (pane_url p)) out);
               out = (if pane_markup p then oinsert ''markup'' (JBool True) out else out)
           in insert_some ''agent'' (map_option JString (pane_agent p)) out)
      | Ios \<Rightarrow> oinsert ''device'' (opt_json (pane_device p)) (oinsert ''app'' (opt_json (pane_app p)) out)
      | Md \<Rightarrow>
          (let out = oinsert ''agent'' (opt_json (pane_agent p)) (oinsert ''path'' (opt_json (pane_path p)) out);
               out = (if pane_markup p then oinsert ''markup'' (JBool True) out else out)
           in insert_some ''diff'' (map_option JString (diff_base p)) out)
      | Code \<Rightarrow>
          (let out = oinsert ''path'' (opt_json (pane_path p)) out;
               out = insert_some ''line'' (map_option num_nat (pane_line p)) out
           in insert_some ''comment'' (map_option comment_to_json (pane_comment p)) out)
      | Diff \<Rightarrow>
          oinsert ''view'' (JString (case pane_view p of Some v \<Rightarrow> v | None \<Rightarrow> ''unified''))
            (oinsert ''args'' (diff_args (git_args p)) (oinsert ''path'' (opt_json (pane_path p)) out))
      | Log \<Rightarrow> oinsert ''args'' (diff_args (git_args p)) (oinsert ''path'' (opt_json (pane_path p)) out)
      | Serial \<Rightarrow> serial_fields p out)"

definition pane_summary :: "pane \<Rightarrow> json" where
  "pane_summary p =
     (let out = oinsert ''state'' (JString (pane_state_str (pane_st p)))
            (oinsert ''type'' (JString (pane_type_str (pane_kind p)))
            (oinsert ''name'' (opt_json (pane_name p))
            (oinsert ''id'' (JString (pane_id p)) [])));
          out = kind_fields p out;
          out = insert_some ''tour'' (map_option stop_mark_to_json (pane_stop p)) out;
          out = insert_some ''tour'' (map_option (\<lambda>t. JObject
                  [(''at'', num (of_nat (tr_at t) + 1)), (''of'', num_nat (length (tr_stops t)))]) (pane_tour p)) out;
          out = insert_some ''exitCode'' (map_option (\<lambda>c. num (of_int c)) (exit_code p)) out;
          out = insert_some ''status'' (map_option JString (pane_status_str p)) out;
          out = insert_some ''error'' (map_option JString (pane_error p)) out
      in JObject out)"

subsection \<open>The table of panes\<close>

record panes =
  pn_panes :: "string \<Rightarrow> pane option"
  pn_order :: "string list"
  pn_counter :: nat
  pn_terminals :: nat
  pn_ptys :: nat
  pn_content :: bool
  pn_numbers :: "string \<Rightarrow> nat option"

definition empty_panes :: panes where
  "empty_panes = \<lparr>pn_panes = Map.empty, pn_order = [], pn_counter = 0, pn_terminals = 0, pn_ptys = 0,
     pn_content = False, pn_numbers = Map.empty\<rparr>"

definition content_prefixes :: "string list" where
  "content_prefixes = [''term'', ''file'', ''page'', ''ios'', ''diff'', ''log'', ''serial'']"

fun content_prefix :: "pane_type \<Rightarrow> string" where
  "content_prefix Term = ''term''"
| "content_prefix Md = ''file''"
| "content_prefix Code = ''file''"
| "content_prefix Web = ''page''"
| "content_prefix Ios = ''ios''"
| "content_prefix Diff = ''diff''"
| "content_prefix Log = ''log''"
| "content_prefix Serial = ''serial''"

definition numbered :: "string \<Rightarrow> nat \<Rightarrow> string" where
  "numbered prefix n = prefix @ ''-'' @ dec n"

definition plain :: "nat \<Rightarrow> string" where
  "plain n = ''p'' @ dec n"

definition content_number :: "string \<Rightarrow> (string \<times> nat) option" where
  "content_number i =
     Option.bind (split_once ''-'' i) (\<lambda>(prefix, n).
     Option.bind (List.find (\<lambda>p. p = prefix) content_prefixes) (\<lambda>prefix.
     Option.bind (parse_usize n) (\<lambda>n.
       if n > 0 \<and> numbered prefix n = i then Some (prefix, n) else None)))"

definition terminal_number :: "string \<Rightarrow> nat option" where
  "terminal_number i =
     Option.bind (strip_prefix ''term-'' i) (\<lambda>r. Option.bind (parse_usize r) (\<lambda>n.
       if n > 0 \<and> n < 1000000000 \<and> numbered ''term'' n = i then Some n else None))"

definition pty_number :: "string \<Rightarrow> nat option" where
  "pty_number i =
     Option.bind (strip_prefix ''pty-'' i) (\<lambda>r. Option.bind (parse_usize r) (\<lambda>n.
       if n > 0 \<and> n < 1000000000 \<and> numbered ''pty'' n = i then Some n else None))"

abbreviation panes_get :: "panes \<Rightarrow> string \<Rightarrow> pane option" where
  "panes_get ps i \<equiv> pn_panes ps i"

definition panes_iter :: "panes \<Rightarrow> pane list" where
  "panes_iter ps = List.map_filter (pn_panes ps) (pn_order ps)"

definition panes_pane :: "panes \<Rightarrow> string \<Rightarrow> pane option" where
  "panes_pane ps reference =
     (case pn_panes ps reference of
        Some p \<Rightarrow> Some p
      | None \<Rightarrow> List.find (\<lambda>p. pane_name p = Some reference) (panes_iter ps))"

definition need :: "panes \<Rightarrow> string option \<Rightarrow> kmux_error + pane" where
  "need ps reference =
     (case reference of
        None \<Rightarrow> Inl (kmux_err ''bad_request'' ''missing pane'')
      | Some r \<Rightarrow> (case panes_pane ps r of
          None \<Rightarrow> Inl (kmux_err ''not_found'' (''no pane '' @ [quote] @ r @ [quote]))
        | Some p \<Rightarrow> Inr p))"

definition display :: "panes \<Rightarrow> string \<Rightarrow> string" where
  "display ps i = (case Option.bind (pn_panes ps i) pane_name of Some n \<Rightarrow> n | None \<Rightarrow> i)"

definition number_at :: "panes \<Rightarrow> string \<Rightarrow> nat" where
  "number_at ps prefix = (case pn_numbers ps prefix of Some n \<Rightarrow> n | None \<Rightarrow> 0)"

definition next_id :: "panes \<Rightarrow> pane_type \<Rightarrow> string" where
  "next_id ps kind =
     (if \<not> pn_content ps then plain (pn_counter ps + 1)
      else if kind = Term then numbered ''term'' (pn_terminals ps + 1)
      else numbered (content_prefix kind) (number_at ps (content_prefix kind) + 1))"

text \<open>
  \<open>Panes::make\<close> returns the new entry's ID; \<open>or_insert\<close> would keep a pane that already has it.
\<close>

definition panes_make :: "panes \<Rightarrow> pane_type \<Rightarrow> string option \<Rightarrow> panes \<times> string" where
  "panes_make ps kind name =
     (let i = next_id ps kind;
          ps = (if \<not> pn_content ps then ps\<lparr>pn_counter := pn_counter ps + 1\<rparr>
                else if kind = Term then ps\<lparr>pn_terminals := pn_terminals ps + 1\<rparr>
                else ps\<lparr>pn_numbers := (pn_numbers ps)(content_prefix kind \<mapsto>
                          number_at ps (content_prefix kind) + 1)\<rparr>);
          p = new_pane i name kind
      in (ps\<lparr>pn_order := pn_order ps @ [i],
             pn_panes := (case pn_panes ps i of Some _ \<Rightarrow> pn_panes ps | None \<Rightarrow> (pn_panes ps)(i \<mapsto> p))\<rparr>, i))"

definition forget :: "panes \<Rightarrow> string \<Rightarrow> panes \<times> pane option" where
  "forget ps i =
     (ps\<lparr>pn_order := filter (\<lambda>p. p \<noteq> i) (pn_order ps), pn_panes := (pn_panes ps)(i := None)\<rparr>,
      pn_panes ps i)"

definition new_terminal :: "panes \<Rightarrow> string \<Rightarrow> panes \<times> string option" where
  "new_terminal ps i =
     (case pn_panes ps i of
        Some p \<Rightarrow>
          (if pane_kind p = Term
           then (let n = pn_ptys ps + 1; t = numbered ''pty'' n
                 in (ps\<lparr>pn_ptys := n, pn_panes := (pn_panes ps)(i \<mapsto> p\<lparr>terminal := Some t\<rparr>)\<rparr>, Some t))
           else (ps, None))
      | None \<Rightarrow> (ps, None))"

definition note_numbers :: "panes \<Rightarrow> (string \<Rightarrow> nat option) \<Rightarrow> panes" where
  "note_numbers ps numbers =
     ps\<lparr>pn_numbers := (\<lambda>prefix.
        if prefix \<in> set (tl content_prefixes)
        then (case numbers prefix of
                Some n \<Rightarrow> Some (max (number_at ps prefix) n)
              | None \<Rightarrow> pn_numbers ps prefix)
        else pn_numbers ps prefix)\<rparr>"

definition note_id :: "panes \<Rightarrow> string \<times> nat \<Rightarrow> panes" where
  "note_id ps = (\<lambda>(prefix, n).
     if prefix = ''term'' then ps\<lparr>pn_terminals := max (pn_terminals ps) n\<rparr>
     else ps\<lparr>pn_numbers := (pn_numbers ps)(prefix \<mapsto> max (number_at ps prefix) n)\<rparr>)"

definition max_or_0 :: "nat list \<Rightarrow> nat" where
  "max_or_0 ns = foldr max ns 0"

definition panes_install :: "panes \<Rightarrow> pane list \<Rightarrow> nat \<Rightarrow> nat \<Rightarrow> nat \<Rightarrow> panes" where
  "panes_install ps entries counter terminals ptys =
     (let ps = foldl note_id ps (List.map_filter (\<lambda>p. content_number (pane_id p)) entries);
          used = max_or_0 (List.map_filter (\<lambda>p. Option.bind (terminal p) terminal_number) entries);
          running = max_or_0 (List.map_filter (\<lambda>p. Option.bind (terminal p) pty_number) entries)
      in ps\<lparr>pn_order := map pane_id entries,
            pn_panes := map_of (rev (map (\<lambda>p. (pane_id p, p)) entries)),
            pn_counter := max (pn_counter ps) counter,
            pn_terminals := max (max (pn_terminals ps) terminals) used,
            pn_ptys := max (max (pn_ptys ps) ptys) running\<rparr>)"

subsection \<open>Parsing what was printed\<close>

lemma pane_type_parse_str: "pane_type_parse (pane_type_str t) = Some t"
  by (cases t) (simp_all add: pane_type_parse_def)

lemma pane_state_parse_str: "pane_state_parse (pane_state_str t) = Some t"
  by (cases t) (simp_all add: pane_state_parse_def)

lemma bind_num_pos:
  "0 < n \<Longrightarrow> n < 10 ^ 15 \<Longrightarrow>
   (case as_u64 (num_nat n) of None \<Rightarrow> None | Some l \<Rightarrow> if 0 < l then Some l else None) = Some n"
  by (simp add: as_u64_num_nat)

definition comment_ok :: "comment \<Rightarrow> bool" where
  "comment_ok c \<longleftrightarrow> 0 < cm_first c \<and> cm_first c \<le> cm_last c \<and> cm_last c < 10 ^ 15"

lemma comment_roundtrip: "comment_ok c \<Longrightarrow> comment_from_json (comment_to_json c) = Some c"
  by (simp add: comment_ok_def comment_from_json_def comment_to_json_def line_field_def
      json_string_def as_u64_num_nat max_def)

lemma stop_roundtrip:
  "comment_ok (stop_comment s) \<Longrightarrow> stop_from_json (stop_to_json s) = Some s"
  by (cases "st_thread s")
     (auto simp: comment_ok_def stop_comment_def stop_from_json_def stop_to_json_def
       comment_from_json_def line_field_def json_string_def as_u64_num_nat max_def Let_def)

lemma map_filter_roundtrip:
  "(\<And>x. x \<in> set xs \<Longrightarrow> g (f x) = Some x) \<Longrightarrow> List.map_filter g (map f xs) = xs"
  by (induction xs) (auto simp: List.map_filter_simps)

lemma num_Suc: "num (of_nat n + 1) = num_nat (Suc n)"
  by (simp add: num_nat_def add.commute)

definition tour_ok :: "tour \<Rightarrow> bool" where
  "tour_ok t \<longleftrightarrow> (\<forall>s \<in> set (tr_stops t). comment_ok (stop_comment s)) \<and>
     tr_at t < length (tr_stops t) \<and> length (tr_stops t) < 10 ^ 15"

lemma tour_roundtrip: "tour_ok t \<Longrightarrow> tour_from_json (tour_to_json t) = Some t"
proof -
  assume t: "tour_ok t"
  then have "List.map_filter stop_from_json (map stop_to_json (tr_stops t)) = tr_stops t"
    by (intro map_filter_roundtrip stop_roundtrip) (simp add: tour_ok_def)
  moreover from t have "as_u64 (num_nat (Suc (tr_at t))) = Some (Suc (tr_at t))"
    by (intro as_u64_num_nat) (simp add: tour_ok_def)
  ultimately show ?thesis
    using t by (auto simp: tour_from_json_def tour_to_json_def num_Suc tour_ok_def Let_def)
qed

lemma stop_mark_roundtrip:
  "sm_at m < sm_of m \<Longrightarrow> sm_of m < 10 ^ 15 \<Longrightarrow> stop_mark_from_json (stop_mark_to_json m) = Some m"
  by (cases "sm_thread m")
     (auto simp: stop_mark_from_json_def stop_mark_to_json_def line_field_def json_string_def num_Suc
       as_u64_num_nat max_def Let_def)

subsection \<open>Pane IDs are fresh\<close>

text \<open>
  The table's invariant: its order lists each pane once, each pane is filed under its own ID, and
  every ID the table could hand out again is above the ones in use.
\<close>

definition panes_wf :: "panes \<Rightarrow> bool" where
  "panes_wf ps \<longleftrightarrow> distinct (pn_order ps) \<and> set (pn_order ps) = dom (pn_panes ps) \<and>
     (\<forall>i p. pn_panes ps i = Some p \<longrightarrow> pane_id p = i)"

definition id_below :: "panes \<Rightarrow> string \<Rightarrow> bool" where
  "id_below ps i \<longleftrightarrow>
     (\<forall>n. i = plain n \<longrightarrow> n \<le> pn_counter ps) \<and>
     (\<forall>n. i = numbered ''term'' n \<longrightarrow> n \<le> pn_terminals ps) \<and>
     (\<forall>prefix \<in> set (tl content_prefixes). \<forall>n. i = numbered prefix n \<longrightarrow> n \<le> number_at ps prefix)"

definition ids_below :: "panes \<Rightarrow> bool" where
  "ids_below ps \<longleftrightarrow> (\<forall>i \<in> dom (pn_panes ps). id_below ps i)"

lemma dash_not_prefix: "prefix \<in> set content_prefixes \<Longrightarrow> CHR ''-'' \<notin> set prefix"
  by (auto simp: content_prefixes_def)

lemma digit_not_dash: "CHR ''-'' \<notin> set (dec n)"
  using dec_digits [of n] by (auto simp: list_all_iff is_digit_def)

lemma numbered_inj:
  assumes "CHR ''-'' \<notin> set a" "CHR ''-'' \<notin> set b"
  shows "numbered a m = numbered b n \<longleftrightarrow> a = b \<and> m = n"
proof
  assume eq: "numbered a m = numbered b n"
  then have "split_once ''-'' (numbered a m) = split_once ''-'' (numbered b n)" by simp
  then show "a = b \<and> m = n"
    using assms by (simp add: numbered_def split_once_char_append dec_inj)
qed simp

lemma plain_not_numbered: "plain n \<noteq> numbered prefix m"
proof
  assume eq: "plain n = numbered prefix m"
  have "CHR ''-'' \<in> set (numbered prefix m)" by (simp add: numbered_def)
  with eq have "CHR ''-'' \<in> set (plain n)" by simp
  with digit_not_dash show False by (simp add: plain_def)
qed

lemma plain_inj: "plain m = plain n \<longleftrightarrow> m = n"
  by (simp add: plain_def dec_inj)

lemma content_prefix_tl: "kind \<noteq> Term \<Longrightarrow> content_prefix kind \<in> set (tl content_prefixes)"
  by (cases kind) (auto simp: content_prefixes_def)

lemma term_not_tl: "''term'' \<notin> set (tl content_prefixes)"
  by (simp add: content_prefixes_def)

lemma tl_prefixes: "prefix \<in> set (tl content_prefixes) \<Longrightarrow> prefix \<in> set content_prefixes"
  by (simp add: content_prefixes_def)

lemmas prefix_inj = numbered_inj [OF dash_not_prefix dash_not_prefix]

lemma term_prefix: "''term'' \<in> set content_prefixes"
  by (simp add: content_prefixes_def)

lemma id_below_mono:
  assumes "id_below ps i" "pn_counter ps \<le> pn_counter ps'" "pn_terminals ps \<le> pn_terminals ps'"
    "\<And>prefix. number_at ps prefix \<le> number_at ps' prefix"
  shows "id_below ps' i"
  unfolding id_below_def
proof (intro conjI ballI allI impI)
  fix prefix n assume "prefix \<in> set (tl content_prefixes)" "i = numbered prefix n"
  with assms(1) have "n \<le> number_at ps prefix" by (auto simp: id_below_def)
  with assms(4) show "n \<le> number_at ps' prefix" by (rule order_trans [rotated])
qed (use assms(1-3) in \<open>auto simp: id_below_def intro: order_trans\<close>)

lemma make_counters:
  fixes ps kind name
  defines "ps' \<equiv> fst (panes_make ps kind name)"
  shows "pn_counter ps \<le> pn_counter ps'" "pn_terminals ps \<le> pn_terminals ps'"
    "number_at ps prefix \<le> number_at ps' prefix"
  by (auto simp: ps'_def panes_make_def Let_def number_at_def)

lemma tl_prefixes_iff:
  "prefix \<in> set (tl content_prefixes) \<longleftrightarrow> prefix \<in> set content_prefixes \<and> prefix \<noteq> ''term''"
  by (auto simp: content_prefixes_def)

lemma id_below_plain: "id_below ps (plain n) \<longleftrightarrow> n \<le> pn_counter ps"
  by (auto simp: id_below_def plain_inj plain_not_numbered)

lemma id_below_numbered:
  assumes "prefix \<in> set content_prefixes"
  shows "id_below ps (numbered prefix n) \<longleftrightarrow>
    n \<le> (if prefix = ''term'' then pn_terminals ps else number_at ps prefix)"
  using assms by (auto simp: id_below_def prefix_inj [OF _ term_prefix] prefix_inj
      plain_not_numbered [symmetric] tl_prefixes_iff)

lemma next_id_not_below: "\<not> id_below ps (next_id ps kind)"
  using content_prefix_tl [of kind]
  by (auto simp: next_id_def id_below_plain id_below_numbered term_prefix tl_prefixes_iff)

lemma next_id_fresh: "ids_below ps \<Longrightarrow> next_id ps kind \<notin> dom (pn_panes ps)"
  using next_id_not_below by (auto simp: ids_below_def)

lemma dom_make:
  "ids_below ps \<Longrightarrow> dom (pn_panes (fst (panes_make ps kind name))) = insert (next_id ps kind) (dom (pn_panes ps))"
  using next_id_fresh [of ps kind]
  by (auto simp: panes_make_def Let_def dom_def split: option.splits if_splits)

lemma make_wf:
  "panes_wf ps \<Longrightarrow> ids_below ps \<Longrightarrow> panes_wf (fst (panes_make ps kind name))"
  using next_id_fresh [of ps kind]
  by (auto simp: panes_wf_def panes_make_def Let_def new_pane_def dom_def split: option.splits if_splits)

lemma next_id_below_made: "id_below (fst (panes_make ps kind name)) (next_id ps kind)"
proof -
  let ?q = "fst (panes_make ps kind name)"
  consider "\<not> pn_content ps" | "pn_content ps" "kind = Term" | "pn_content ps" "kind \<noteq> Term"
    by blast
  then show ?thesis
  proof cases
    case 1
    then show ?thesis by (simp add: panes_make_def next_id_def Let_def id_below_plain)
  next
    case 2
    then show ?thesis
      using term_prefix by (simp add: next_id_def panes_make_def Let_def id_below_numbered)
  next
    case 3
    then have "content_prefix kind \<in> set content_prefixes" "content_prefix kind \<noteq> ''term''"
      using content_prefix_tl [of kind] tl_prefixes term_not_tl by auto
    with 3 show ?thesis
      by (simp add: next_id_def panes_make_def Let_def id_below_numbered number_at_def)
  qed
qed

lemma make_ids_below:
  assumes "ids_below ps" shows "ids_below (fst (panes_make ps kind name))"
  unfolding ids_below_def dom_make [OF assms]
proof
  fix i assume "i \<in> insert (next_id ps kind) (dom (pn_panes ps))"
  then consider "i = next_id ps kind" | "id_below ps i" using assms by (auto simp: ids_below_def)
  then show "id_below (fst (panes_make ps kind name)) i"
    by cases (auto intro: next_id_below_made id_below_mono make_counters)
qed

lemma forget_wf: "panes_wf ps \<Longrightarrow> panes_wf (fst (forget ps i))"
  by (auto simp: panes_wf_def forget_def)

lemma forget_ids_below: "ids_below ps \<Longrightarrow> ids_below (fst (forget ps i))"
  by (auto simp: ids_below_def forget_def id_below_def number_at_def)

text \<open>Installing a saved table counts every content ID in it.\<close>

lemma content_number_numbered:
  assumes "prefix \<in> set content_prefixes" "0 < n" "n < 2 ^ 64"
  shows "content_number (numbered prefix n) = Some (prefix, n)"
proof -
  have "List.find (\<lambda>p. p = prefix) content_prefixes = Some prefix"
    using assms(1) by (auto simp: content_prefixes_def)
  then show ?thesis
    using assms dash_not_prefix [OF assms(1)]
    by (simp add: content_number_def numbered_def split_once_char_append parse_unsigned_dec)
qed

lemma content_number_SomeD:
  "content_number i = Some (prefix, n) \<Longrightarrow> prefix \<in> set content_prefixes \<and> i = numbered prefix n \<and> 0 < n"
  by (auto simp: content_number_def find_Some_iff split: Option.bind_splits if_splits)

definition noted :: "panes \<Rightarrow> string \<Rightarrow> nat" where
  "noted ps prefix = (if prefix = ''term'' then pn_terminals ps else number_at ps prefix)"

lemma noted_note_id: "noted (note_id ps (p, n)) q = (if q = p then max (noted ps q) n else noted ps q)"
  by (auto simp: noted_def note_id_def number_at_def)

lemma noted_foldl:
  "noted ps q \<le> noted (foldl note_id ps xs) q \<and> ((q, n) \<in> set xs \<longrightarrow> n \<le> noted (foldl note_id ps xs) q)"
proof (induction xs arbitrary: ps)
  case (Cons x xs)
  obtain p m where x: "x = (p, m)" by force
  have "noted ps q \<le> noted (note_id ps x) q" "(q, n) = x \<longrightarrow> n \<le> noted (note_id ps x) q"
    by (auto simp: x noted_note_id)
  with Cons [of "note_id ps x"] show ?case by (auto intro: order_trans)
qed simp

subsection \<open>Properties\<close>

text \<open>
  A new pane's ID is not in use: \<open>Panes::make\<close> on a well-formed table whose counters are above
  the IDs in it files a fresh pane under an ID no pane had, leaves every other entry alone, lists
  the new pane last, and keeps both parts of the invariant.
\<close>

lemma make_fresh:
  assumes "panes_wf ps" "ids_below ps" "panes_make ps kind name = (ps', i)"
  shows "pn_panes ps i = None \<and> pn_panes ps' = (pn_panes ps)(i \<mapsto> new_pane i name kind) \<and>
    pn_order ps' = pn_order ps @ [i] \<and> panes_wf ps' \<and> ids_below ps'"
proof -
  from assms(3) have i: "i = next_id ps kind" and ps': "ps' = fst (panes_make ps kind name)"
    by (auto simp: panes_make_def Let_def)
  have fresh: "pn_panes ps i = None" using next_id_fresh [OF assms(2), of kind] i by blast
  moreover have "pn_panes ps' = (pn_panes ps)(i \<mapsto> new_pane i name kind)" "pn_order ps' = pn_order ps @ [i]"
    using fresh by (cases "kind = Term"; simp add: ps' i panes_make_def Let_def)+
  moreover have "panes_wf ps' \<and> ids_below ps'"
    using make_wf make_ids_below assms(1,2) by (simp add: ps')
  ultimately show ?thesis by blast
qed

theorem make_fresh_witness:
  "pn_panes (fst (panes_make (empty_panes\<lparr>pn_content := True\<rparr>) Web None)) ''page-1'' = Some (new_pane ''page-1'' None Web)"
proof -
  let ?ps = "empty_panes\<lparr>pn_content := True\<rparr>"
  have "panes_wf ?ps" "ids_below ?ps" by (auto simp: panes_wf_def ids_below_def empty_panes_def)
  moreover have "panes_make ?ps Web None = (fst (panes_make ?ps Web None), ''page-1'')"
    by (simp add: panes_make_def next_id_def number_at_def empty_panes_def Let_def numbered_def dec.simps)
  ultimately show ?thesis using make_fresh [of ?ps Web None] by (metis fun_upd_same)
qed

text \<open>
  After \<open>Panes::install\<close> no new content ID can collide with an installed pane: every pane whose
  ID is a content ID (\<open>term-3\<close>, \<open>file-2\<close>, \dots) is below the counter its prefix is counted with.
\<close>

lemma install_counts_ids:
  assumes "p \<in> set entries" "content_number (pane_id p) = Some (prefix, n)"
  shows "n \<le> noted (panes_install ps entries counter terminals ptys) prefix \<and>
    id_below (panes_install ps entries counter terminals ptys) (pane_id p)"
proof -
  let ?noted = "foldl note_id ps (List.map_filter (\<lambda>p. content_number (pane_id p)) entries)"
  have "(prefix, n) \<in> set (List.map_filter (\<lambda>p. content_number (pane_id p)) entries)"
    using assms by (auto simp: set_map_filter)
  then have "n \<le> noted ?noted prefix" using noted_foldl by blast
  then have n: "n \<le> noted (panes_install ps entries counter terminals ptys) prefix"
    by (auto simp: noted_def panes_install_def number_at_def Let_def)
  have "prefix \<in> set content_prefixes" "pane_id p = numbered prefix n"
    using content_number_SomeD [OF assms(2)] by auto
  with n show ?thesis
    by (simp add: id_below_numbered noted_def)
qed

theorem install_counts_ids_witness:
  "7 \<le> noted (panes_install empty_panes [new_pane ''file-7'' None Md] 0 0 0) ''file''"
proof -
  have "content_number (pane_id (new_pane ''file-7'' None Md)) = Some (''file'', 7)"
    by (simp add: new_pane_def content_number_def content_prefixes_def parse_unsigned_def is_digit_def
        digits_value_def numbered_def dec.simps)
  then show ?thesis
    using install_counts_ids [of "new_pane ''file-7'' None Md" "[new_pane ''file-7'' None Md]"] by simp
qed

end
