(* ===== verification/Mux_Tabs.thy ===== *)
theory Mux_Tabs
  imports Mux_Panes
begin

text \<open>
  The split tree of a tab and the tabs of a window or workspace (\<open>kanna-mux/src/tabs.rs\<close> and the
  tree functions of \<open>model.rs\<close>). A tree is a pane or a row or column of sized children. Sizes are
  the code's \<open>f64\<close> fractions, here exact rationals.

  \<open>split_at\<close> hands the code a mutable reference to the split at a path; here it is
  \<open>split_at\<close>, which reads that split (\<^const>\<open>None\<close> where the code is \<open>unreachable!\<close>), and
  \<open>upd_split\<close>, which writes it. The paths come from \<open>locate_in\<close>, and
  \<open>locate_in_split_at\<close> shows that they always end at a split.
\<close>

datatype axis = Row | Column

fun axis_str :: "axis \<Rightarrow> string" where
  "axis_str Row = ''row''"
| "axis_str Column = ''column''"

definition axis_parse :: "string \<Rightarrow> axis option" where
  "axis_parse name =
     (if name = ''row'' then Some Row else if name = ''column'' then Some Column else None)"

datatype node = Pane string | Split axis "(node \<times> rat) list"

type_synonym kids = "(node \<times> rat) list"

fun pane_ids :: "node \<Rightarrow> string list" where
  "pane_ids (Pane i) = [i]"
| "pane_ids (Split a ks) = concat (map (\<lambda>(n, s). pane_ids n) ks)"

definition root_ids :: "node option \<Rightarrow> string list" where
  "root_ids r = (case r of None \<Rightarrow> [] | Some n \<Rightarrow> pane_ids n)"

fun split_at :: "node \<Rightarrow> nat list \<Rightarrow> (axis \<times> kids) option" where
  "split_at (Split a ks) [] = Some (a, ks)"
| "split_at (Pane p) path = None"
| "split_at (Split a ks) (i # path) = (if i < length ks then split_at (fst (ks ! i)) path else None)"

fun upd_split :: "(kids \<Rightarrow> kids) \<Rightarrow> nat list \<Rightarrow> node \<Rightarrow> node" where
  "upd_split f [] (Split a ks) = Split a (f ks)"
| "upd_split f path (Pane p) = Pane p"
| "upd_split f (i # path) (Split a ks) =
     (if i < length ks then Split a (ks[i := (upd_split f path (fst (ks ! i)), snd (ks ! i))])
      else Split a ks)"

fun normalize_node :: "node \<Rightarrow> node" where
  "normalize_node (Pane p) = Pane p"
| "normalize_node (Split a ks) =
     (let ks' = map (\<lambda>(n, s). (normalize_node n, s)) ks
      in if length ks' = 1 then fst (ks' ! 0) else Split a ks')"

text \<open>
  \<open>locate_in\<close>: the path to the split that holds a pane and the pane's index in it; no path when
  the pane is the whole tree. The inner \<open>find\<close> walks a split's kids from index \<open>i\<close>, with \<open>here\<close>
  the path to that split.
\<close>

fun find_in :: "kids \<Rightarrow> string \<Rightarrow> nat list \<Rightarrow> nat \<Rightarrow> (nat list \<times> nat) option" where
  "find_in [] p here i = None"
| "find_in ((Pane q, s) # ks) p here i =
     (if q = p then Some (here, i) else find_in ks p here (Suc i))"
| "find_in ((Split a inner, s) # ks) p here i =
     (case find_in inner p (here @ [i]) 0 of
        Some found \<Rightarrow> Some found
      | None \<Rightarrow> find_in ks p here (Suc i))"

definition locate_in :: "node option \<Rightarrow> string \<Rightarrow> (nat list option \<times> nat) option" where
  "locate_in r p =
     (case r of
        None \<Rightarrow> None
      | Some (Pane q) \<Rightarrow> (if q = p then Some (None, 0) else None)
      | Some (Split a ks) \<Rightarrow> map_option (\<lambda>(path, i). (Some path, i)) (find_in ks p [] 0))"

subsection \<open>Tabs\<close>

record tab =
  tab_id :: string
  tab_title :: string
  tab_root :: "node option"
  last_focus :: "string option"
  tab_number :: nat
  tab_namer :: "string option"
  tab_renamed :: bool

definition new_tab :: "string \<Rightarrow> nat \<Rightarrow> tab" where
  "new_tab i n = \<lparr>tab_id = i, tab_title = ''Tab '' @ dec n, tab_root = None, last_focus = None,
     tab_number = n, tab_namer = None, tab_renamed = False\<rparr>"

definition tab_rename :: "string \<Rightarrow> tab \<Rightarrow> tab" where
  "tab_rename title t = t\<lparr>tab_title := title, tab_renamed := True\<rparr>"

definition tab_panes :: "tab \<Rightarrow> string list" where
  "tab_panes t = root_ids (tab_root t)"

definition tab_retitle :: "panes \<Rightarrow> tab \<Rightarrow> tab \<times> bool" where
  "tab_retitle ps t =
     (let ids = root_ids (tab_root t);
          t = (if (case tab_namer t of Some n \<Rightarrow> n \<in> set ids | None \<Rightarrow> False) then t
               else t\<lparr>tab_namer := (case ids of [] \<Rightarrow> None | i # _ \<Rightarrow> Some i)\<rparr>)
      in if tab_renamed t then (t, False)
         else (let title = (case Option.bind (Option.bind (tab_namer t) (panes_get ps)) tab_name of
                              Some n \<Rightarrow> n | None \<Rightarrow> ''Tab '' @ dec (tab_number t))
               in (t\<lparr>tab_title := title\<rparr>, title \<noteq> tab_title t)))"

record tabs =
  ts_tabs :: "tab list"
  ts_active :: "string option"
  ts_focused :: "string option"
  ts_zoom :: bool
  ts_count :: nat
  ts_recent :: "string list"

definition default_tabs :: tabs where
  "default_tabs = \<lparr>ts_tabs = [], ts_active = None, ts_focused = None, ts_zoom = False, ts_count = 0,
     ts_recent = []\<rparr>"

definition active_index :: "tabs \<Rightarrow> nat option" where
  "active_index ts =
     (case position (\<lambda>t. Some (tab_id t) = ts_active ts) (ts_tabs ts) of
        Some i \<Rightarrow> Some i
      | None \<Rightarrow> (if ts_tabs ts = [] then None else Some 0))"

definition active_tab :: "tabs \<Rightarrow> tab option" where
  "active_tab ts = map_option (\<lambda>i. ts_tabs ts ! i) (active_index ts)"

definition shown :: "tabs \<Rightarrow> string list" where
  "shown ts = root_ids (Option.bind (active_tab ts) tab_root)"

definition tabs_panes :: "tabs \<Rightarrow> string list" where
  "tabs_panes ts = concat (map tab_panes (ts_tabs ts))"

definition tabs_position :: "tabs \<Rightarrow> string \<Rightarrow> nat option" where
  "tabs_position ts i = position (\<lambda>t. tab_id t = i) (ts_tabs ts)"

definition zoomed :: "tabs \<Rightarrow> string option" where
  "zoomed ts = (if ts_zoom ts then ts_focused ts else None)"

definition tabs_locate :: "tabs \<Rightarrow> string \<Rightarrow> (nat \<times> nat list option \<times> nat) option" where
  "tabs_locate ts p =
     find_map (\<lambda>(t, tb). map_option (\<lambda>(parent, i). (t, parent, i)) (locate_in (tab_root tb) p))
       (enumerate 0 (ts_tabs ts))"

definition upd_tab :: "nat \<Rightarrow> (tab \<Rightarrow> tab) \<Rightarrow> tabs \<Rightarrow> tabs" where
  "upd_tab t f ts = ts\<lparr>ts_tabs := (ts_tabs ts)[t := f (ts_tabs ts ! t)]\<rparr>"

abbreviation first_opt :: "'a list \<Rightarrow> 'a option" where
  "first_opt xs \<equiv> (case xs of [] \<Rightarrow> None | x # _ \<Rightarrow> Some x)"

abbreviation or_else :: "'a option \<Rightarrow> 'a option \<Rightarrow> 'a option" where
  "or_else x y \<equiv> (case x of Some v \<Rightarrow> Some v | None \<Rightarrow> y)"

definition keep_in :: "string list \<Rightarrow> string option \<Rightarrow> string option" where
  "keep_in ids x = (case x of Some l \<Rightarrow> if l \<in> set ids then Some l else None | None \<Rightarrow> None)"

definition tabs_show :: "nat \<Rightarrow> tabs \<Rightarrow> tabs" where
  "tabs_show t ts =
     (let tb = ts_tabs ts ! t; ids = tab_panes tb
      in ts\<lparr>ts_active := Some (tab_id tb),
            ts_focused := or_else (keep_in ids (last_focus tb)) (first_opt ids)\<rparr>)"

definition tabs_focus :: "string \<Rightarrow> tabs \<Rightarrow> tabs" where
  "tabs_focus p ts =
     (let ts = (case tabs_locate ts p of
                  Some (t, _, _) \<Rightarrow>
                    upd_tab t (\<lambda>tb. tb\<lparr>last_focus := Some p\<rparr>) (ts\<lparr>ts_active := Some (tab_id (ts_tabs ts ! t))\<rparr>)
                | None \<Rightarrow> ts)
      in ts\<lparr>ts_focused := Some p\<rparr>)"

definition tabs_remember :: "tabs \<Rightarrow> tabs" where
  "tabs_remember ts =
     (let ids = tabs_panes ts;
          recent = (case keep_in ids (ts_focused ts) of
                      Some f \<Rightarrow> (if first_opt (ts_recent ts) \<noteq> Some f
                                 then f # filter (\<lambda>i. i \<noteq> f) (ts_recent ts) else ts_recent ts)
                    | None \<Rightarrow> ts_recent ts)
      in ts\<lparr>ts_recent := filter (\<lambda>i. i \<in> set ids) recent\<rparr>)"

definition latest :: "tabs \<Rightarrow> string list \<Rightarrow> string option" where
  "latest ts among =
     (case List.find (\<lambda>i. Some i = ts_focused ts) among of
        Some f \<Rightarrow> Some f
      | None \<Rightarrow> or_else (find_map (\<lambda>i. List.find (\<lambda>a. a = i) among) (ts_recent ts)) (first_opt among))"

definition settle_focus :: "string option \<Rightarrow> tabs \<Rightarrow> tabs" where
  "settle_focus beside ts =
     (let ids = shown ts
      in if (case ts_focused ts of Some f \<Rightarrow> f \<in> set ids \<or> Some f = beside | None \<Rightarrow> False) then ts
         else (let last = keep_in ids (Option.bind (active_tab ts) last_focus)
               in ts\<lparr>ts_focused := or_else last (or_else (first_opt ids) beside)\<rparr>))"

definition tabs_tidy :: "tabs \<Rightarrow> tabs" where
  "tabs_tidy ts =
     (let i = (case position (\<lambda>t. Some (tab_id t) = ts_active ts) (ts_tabs ts) of Some i \<Rightarrow> i | None \<Rightarrow> 0);
          kept = filter (\<lambda>t. tab_root t \<noteq> None) (ts_tabs ts);
          ts = ts\<lparr>ts_tabs := kept\<rparr>
      in if \<not> (\<exists>t \<in> set kept. Some (tab_id t) = ts_active ts)
         then ts\<lparr>ts_active := (if kept = [] then None else Some (tab_id (kept ! min i (length kept - 1))))\<rparr>
         else ts)"

subsection \<open>Putting panes into trees and taking them out\<close>

text \<open>The kids of a split without the one at an index, the rest grown to fill its space.\<close>

definition remove_kid :: "nat \<Rightarrow> kids \<Rightarrow> kids" where
  "remove_kid i ks =
     (let gone = snd (ks ! i); rest = remove_at i ks; count = of_nat (length rest)
      in map (\<lambda>(n, s). (n, if gone < 1 then s / (1 - gone) else 1 / count)) rest)"

definition root_remove :: "nat list option \<Rightarrow> nat \<Rightarrow> node option \<Rightarrow> node option" where
  "root_remove parent i r =
     (case parent of
        Some path \<Rightarrow> map_option (\<lambda>n. normalize_node (upd_split (remove_kid i) path n)) r
      | None \<Rightarrow> None)"

definition tabs_remove :: "string \<Rightarrow> tabs \<Rightarrow> tabs \<times> bool" where
  "tabs_remove p ts =
     (case tabs_locate ts p of
        None \<Rightarrow> (ts, False)
      | Some (t, parent, i) \<Rightarrow>
          (upd_tab t (\<lambda>tb. tb\<lparr>tab_root := root_remove parent i (tab_root tb)\<rparr>) ts, True))"

definition split_kid :: "node \<Rightarrow> nat \<Rightarrow> bool \<Rightarrow> rat \<Rightarrow> kids \<Rightarrow> kids" where
  "split_kid n i after sz ks =
     (let share = snd (ks ! i)
      in insert_at (i + (if after then 1 else 0)) (n, share * sz)
           (ks[i := (fst (ks ! i), share * (1 - sz))]))"

definition pair_split :: "node \<Rightarrow> string \<Rightarrow> axis \<Rightarrow> bool \<Rightarrow> rat \<Rightarrow> node" where
  "pair_split n beside a after sz =
     (let ks = [(Pane beside, 1 - sz), (n, sz)] in Split a (if after then ks else rev ks))"

definition root_insert :: "node \<Rightarrow> string \<Rightarrow> axis \<Rightarrow> bool \<Rightarrow> rat \<Rightarrow> node option \<Rightarrow> node option" where
  "root_insert n beside a after sz r =
     (case (locate_in r beside, r) of
        (Some (parent, i), Some rt) \<Rightarrow>
          (case parent of
             Some path \<Rightarrow>
               (if map_option fst (split_at rt path) = Some a
                then Some (upd_split (split_kid n i after sz) path rt)
                else Some (upd_split (\<lambda>ks. ks[i := (pair_split n beside a after sz, snd (ks ! i))]) path rt))
           | None \<Rightarrow> Some (pair_split n beside a after sz))
      | _ \<Rightarrow> r)"

definition tabs_insert :: "node \<Rightarrow> string \<Rightarrow> nat \<Rightarrow> axis \<Rightarrow> bool \<Rightarrow> rat \<Rightarrow> tabs \<Rightarrow> tabs" where
  "tabs_insert n beside t a after sz =
     upd_tab t (\<lambda>tb. tb\<lparr>tab_root := root_insert n beside a after sz (tab_root tb)\<rparr>)"

definition root_append :: "string \<Rightarrow> node option \<Rightarrow> node" where
  "root_append p r =
     (case r of
        None \<Rightarrow> Pane p
      | Some (Split Row ks) \<Rightarrow>
          (let count = of_nat (length ks)
           in Split Row (map (\<lambda>(n, s). (n, s * (count / (count + 1)))) ks @ [(Pane p, 1 / (count + 1))]))
      | Some rt \<Rightarrow> Split Row [(rt, 1 / 2), (Pane p, 1 / 2)])"

definition tabs_append :: "string \<Rightarrow> nat \<Rightarrow> tabs \<Rightarrow> tabs" where
  "tabs_append p t = upd_tab t (\<lambda>tb. tb\<lparr>tab_root := Some (root_append p (tab_root tb))\<rparr>)"

definition root_set :: "nat list option \<Rightarrow> nat \<Rightarrow> string \<Rightarrow> node option \<Rightarrow> node option" where
  "root_set parent i p r =
     (case parent of
        Some path \<Rightarrow> map_option (upd_split (\<lambda>ks. ks[i := (Pane p, snd (ks ! i))]) path) r
      | None \<Rightarrow> Some (Pane p))"

definition tabs_set_at :: "nat \<Rightarrow> nat list option \<Rightarrow> nat \<Rightarrow> string \<Rightarrow> tabs \<Rightarrow> tabs" where
  "tabs_set_at t parent i p = upd_tab t (\<lambda>tb. tb\<lparr>tab_root := root_set parent i p (tab_root tb)\<rparr>)"

end
