(* ===== verification/Mux_Trees.thy ===== *)
theory Mux_Trees
  imports Mux_Tabs
begin

text \<open>
  Facts on split trees: where \<open>locate_in\<close> finds a pane, which panes an edit leaves and in which
  order, and that edits keep trees well formed (every split has two kids or more, with positive
  sizes that add up to 1).
\<close>

lemma node_induct [case_names Pane Split, induct type: node]:
  assumes "\<And>p. P (Pane p)" and "\<And>a ks. (\<And>n s. (n, s) \<in> set ks \<Longrightarrow> P n) \<Longrightarrow> P (Split a ks)"
  shows "P n"
  using assms by (induction n rule: pane_ids.induct) blast+

definition kid_ids :: "kids \<Rightarrow> string list" where
  "kid_ids ks = concat (map (\<lambda>(n, s). pane_ids n) ks)"

lemma kid_ids_simps [simp]:
  "kid_ids [] = []" "kid_ids ((n, s) # ks) = pane_ids n @ kid_ids ks"
  "kid_ids (ks @ ks') = kid_ids ks @ kid_ids ks'"
  by (simp_all add: kid_ids_def)

lemma pane_ids_Split [simp]: "pane_ids (Split a ks) = kid_ids ks"
  by (simp add: kid_ids_def)

declare pane_ids.simps(2) [simp del]

lemma kid_ids_map: "(\<And>n s. (n, s) \<in> set ks \<Longrightarrow> pane_ids (fst (g (n, s))) = pane_ids n) \<Longrightarrow> kid_ids (map g ks) = kid_ids ks"
proof (induction ks)
  case (Cons k ks)
  obtain n s where k: "k = (n, s)" by force
  moreover have "pane_ids (fst (g (n, s))) = pane_ids n" using Cons.prems k by auto
  moreover have "kid_ids (map g ks) = kid_ids ks" using Cons by auto
  ultimately show ?case by (cases "g (n, s)") simp
qed simp

lemma kid_ids_split:
  "i < length ks \<Longrightarrow> kid_ids ks = kid_ids (take i ks) @ pane_ids (fst (ks ! i)) @ kid_ids (drop (Suc i) ks)"
  by (subst id_take_nth_drop [of i ks], assumption, cases "ks ! i") simp

lemma kid_ids_update:
  "i < length ks \<Longrightarrow> kid_ids (ks[i := k]) = kid_ids (take i ks) @ pane_ids (fst k) @ kid_ids (drop (Suc i) ks)"
  by (cases k) (simp add: upd_conv_take_nth_drop)

lemma root_ids_simps [simp]: "root_ids None = []" "root_ids (Some n) = pane_ids n"
  by (simp_all add: root_ids_def)

subsection \<open>Where a pane is\<close>

lemma find_in_None_iff: "find_in ks p here i = None \<longleftrightarrow> p \<notin> set (kid_ids ks)"
  by (induction ks p here i rule: find_in.induct) (auto split: option.splits)

lemma find_in_SomeD:
  "find_in ks p here i = Some (path, j) \<Longrightarrow> length pre = i \<Longrightarrow>
   \<exists>rest a' ks'. path = here @ rest \<and> split_at (Split a (pre @ ks)) rest = Some (a', ks') \<and>
     j < length ks' \<and> fst (ks' ! j) = Pane p"
proof (induction ks p here i arbitrary: pre a rule: find_in.induct)
  case (2 q s ks p here i)
  show ?case
  proof (cases "q = p")
    case True
    with 2 show ?thesis by (auto intro!: exI [of _ "[]"])
  next
    case False
    with 2 show ?thesis using "2.IH" [of "pre @ [(Pane q, s)]" a] by auto
  qed
next
  case (3 b inner s ks p here i)
  show ?case
  proof (cases "find_in inner p (here @ [i]) 0")
    case None
    with 3 show ?thesis using "3.IH"(2) [of "pre @ [(Split b inner, s)]" a] by auto
  next
    case (Some found)
    with 3 have "find_in inner p (here @ [i]) 0 = Some (path, j)" by simp
    then obtain rest a' ks' where r: "path = (here @ [i]) @ rest" "j < length ks'" "fst (ks' ! j) = Pane p"
      "split_at (Split b inner) rest = Some (a', ks')"
      using "3.IH"(1) [of "[]" b] by auto
    with 3 show ?thesis by (auto intro!: exI [of _ "i # rest"] simp: nth_append)
  qed
qed simp

lemma locate_in_None_iff: "locate_in r p = None \<longleftrightarrow> p \<notin> set (root_ids r)"
  by (auto simp: locate_in_def find_in_None_iff split: option.splits node.splits if_splits)

text \<open>The paths \<open>locate_in\<close> gives end at a split that holds the pane: \<open>split_at\<close> does not panic.\<close>

lemma locate_in_split_at:
  assumes "locate_in (Some n) p = Some (Some path, j)"
  obtains a ks where "split_at n path = Some (a, ks)" "j < length ks" "fst (ks ! j) = Pane p"
proof (cases n)
  case (Split a ks)
  with assms have "find_in ks p [] 0 = Some (path, j)" by (auto simp: locate_in_def)
  from find_in_SomeD [OF this, of "[]" a] Split that show thesis by auto
qed (use assms in \<open>auto simp: locate_in_def split: if_splits\<close>)

lemma locate_in_rootD: "locate_in r p = Some (None, j) \<Longrightarrow> r = Some (Pane p)"
  by (auto simp: locate_in_def split: option.splits node.splits if_splits)

lemma locate_in_SomeD: "locate_in r p = Some x \<Longrightarrow> p \<in> set (root_ids r) \<and> r \<noteq> None"
  by (metis locate_in_None_iff option.distinct(1) root_ids_simps(1) empty_iff list.set(1))

subsection \<open>Editing the split at a path\<close>

lemma upd_split_ids:
  assumes "split_at n path = Some (a, ks)"
  obtains pre post where "pane_ids n = pre @ kid_ids ks @ post"
    "\<And>f. pane_ids (upd_split f path n) = pre @ kid_ids (f ks) @ post"
  using assms
proof (induction n path arbitrary: thesis rule: split_at.induct)
  case (1 b ks')
  then show ?case using "1.prems"(1) [of "[]" "[]"] by simp
next
  case (3 b ks' i path)
  then have i: "i < length ks'" and sub: "split_at (fst (ks' ! i)) path = Some (a, ks)"
    by (auto split: if_splits)
  from "3.IH" [OF i _ sub] obtain pre post where
    "pane_ids (fst (ks' ! i)) = pre @ kid_ids ks @ post"
    "\<And>f. pane_ids (upd_split f path (fst (ks' ! i))) = pre @ kid_ids (f ks) @ post" by blast
  with i show ?case
    using "3.prems"(1) [of "kid_ids (take i ks') @ pre" "post @ kid_ids (drop (Suc i) ks')"]
    by (simp add: kid_ids_split [of i ks'] kid_ids_update)
qed simp

lemma normalize_ids [panes_simps, simp]: "pane_ids (normalize_node n) = pane_ids n"
proof (induction n)
  case (Split a ks)
  let ?g = "\<lambda>(n, s). (normalize_node n, s)"
  have ids: "kid_ids (map ?g ks) = kid_ids ks"
    using Split by (intro kid_ids_map) auto
  show ?case
  proof (cases "length ks = 1")
    case True
    then obtain n s where "ks = [(n, s)]" by (cases ks) auto
    with Split show ?thesis by simp
  next
    case False
    with ids show ?thesis by simp
  qed
qed simp

subsection \<open>Well-formed trees\<close>

text \<open>
  \<open>kids_ok m\<close> asks for \<open>m\<close> kids or more; trees at rest have \<open>m = 2\<close>, and the tree between an edit
  and \<open>normalize\<close> has \<open>m = 1\<close>.
\<close>

fun node_ok :: "nat \<Rightarrow> node \<Rightarrow> bool" where
  "node_ok m (Pane p) = True"
| "node_ok m (Split a ks) =
     (m \<le> length ks \<and> (\<forall>(n, s) \<in> set ks. 0 < s \<and> node_ok m n) \<and> sum_list (map snd ks) = 1)"

abbreviation tree_ok :: "node \<Rightarrow> bool" where
  "tree_ok \<equiv> node_ok 2"

definition kids_ok :: "nat \<Rightarrow> kids \<Rightarrow> bool" where
  "kids_ok m ks \<longleftrightarrow>
     m \<le> length ks \<and> (\<forall>k \<in> set ks. 0 < snd k \<and> node_ok m (fst k)) \<and> sum_list (map snd ks) = 1"

lemma node_ok_Split [simp]: "node_ok m (Split a ks) \<longleftrightarrow> kids_ok m ks"
  by (simp add: kids_ok_def split_beta)

declare node_ok.simps(2) [simp del]

definition root_ok :: "node option \<Rightarrow> bool" where
  "root_ok r = (case r of None \<Rightarrow> True | Some n \<Rightarrow> tree_ok n)"

lemma node_ok_mono: "node_ok m n \<Longrightarrow> m' \<le> m \<Longrightarrow> node_ok m' n"
  by (induction n) (auto simp: kids_ok_def)

lemma kids_ok_mono: "kids_ok m ks \<Longrightarrow> m' \<le> m \<Longrightarrow> kids_ok m' ks"
  using node_ok_mono [of m "Split Row ks"] by simp

lemma kids_okD: "kids_ok m ks \<Longrightarrow> i < length ks \<Longrightarrow> 0 < snd (ks ! i) \<and> node_ok m (fst (ks ! i))"
  by (simp add: kids_ok_def)

lemma split_at_ok: "split_at n path = Some (a, ks) \<Longrightarrow> node_ok m n \<Longrightarrow> kids_ok m ks"
proof (induction n path rule: split_at.induct)
  case (3 b ks' i path)
  then have i: "i < length ks'" by (auto split: if_splits)
  with 3 show ?case using kids_okD [OF _ i] by (auto split: if_splits)
qed auto

lemma sum_list_update_snd:
  fixes ks :: kids
  shows "i < length ks \<Longrightarrow> snd k = snd (ks ! i) \<Longrightarrow> sum_list (map snd (ks[i := k])) = sum_list (map snd ks)"
  by (simp add: map_update) (metis length_map list_update_id nth_map)

lemma kids_ok_update:
  assumes "kids_ok m ks" "i < length ks" "node_ok m (fst k)" "snd k = snd (ks ! i)"
  shows "kids_ok m (ks[i := k])"
proof -
  have "x \<in> set ks \<or> x = k" if "x \<in> set (ks[i := k])" for x
    using that set_update_subset_insert [of ks i k] by auto
  moreover have "0 < snd k" using kids_okD [OF assms(1,2)] assms(4) by simp
  ultimately have "0 < snd x \<and> node_ok m (fst x)" if "x \<in> set (ks[i := k])" for x
    using that assms(1,3) unfolding kids_ok_def by blast
  then show ?thesis
    using assms by (simp add: kids_ok_def sum_list_update_snd)
qed

lemma upd_split_ok:
  assumes "split_at n path = Some (a, ks)" "node_ok m n" "kids_ok m ks \<Longrightarrow> kids_ok m' (f ks)" "m' \<le> m"
  shows "node_ok m' (upd_split f path n)"
  using assms(1,2)
proof (induction n path rule: split_at.induct)
  case (1 b ks')
  then show ?case using assms(3) by simp
next
  case (3 b ks' i path)
  then have i: "i < length ks'" and sub: "split_at (fst (ks' ! i)) path = Some (a, ks)"
    by (auto split: if_splits)
  then have "node_ok m' (upd_split f path (fst (ks' ! i)))"
    using 3 kids_okD [OF _ i] by simp
  with 3 i kids_ok_mono [OF _ assms(4)] show ?case by (auto intro!: kids_ok_update)
qed simp

lemma kids_ok_single: "kids_ok 1 [(n, s)] \<longleftrightarrow> s = 1 \<and> node_ok 1 n"
  by (auto simp: kids_ok_def)

lemma normalize_ok: "node_ok 1 n \<Longrightarrow> tree_ok (normalize_node n)"
proof (induction n)
  case (Split a ks)
  have kids: "\<forall>k \<in> set ks. 0 < snd k \<and> tree_ok (normalize_node (fst k))" and sum: "sum_list (map snd ks) = 1"
    using Split by (fastforce simp: kids_ok_def)+
  show ?case
  proof (cases "length ks = 1")
    case True
    then obtain n s where "ks = [(n, s)]" by (cases ks) auto
    with kids show ?thesis by simp
  next
    case False
    have eq: "map snd (map (\<lambda>(n, s). (normalize_node n, s)) ks) = map snd ks" by auto
    have "sum_list (map snd (map (\<lambda>(n, s). (normalize_node n, s)) ks)) = 1" by (simp only: eq sum)
    with False Split.prems kids show ?thesis
      by (auto simp: kids_ok_def simp del: map_map)
  qed
qed simp

lemma normalize_id: "tree_ok n \<Longrightarrow> normalize_node n = n"
proof (induction n)
  case (Split a ks)
  have "map (\<lambda>(n, s). (normalize_node n, s)) ks = map id ks"
    by (rule map_cong [OF refl]) (use Split in \<open>auto simp: kids_ok_def\<close>)
  with Split.prems show ?case by (auto simp: kids_ok_def)
qed simp

subsection \<open>The edits\<close>

text \<open>
  Each edit of a located pane changes the tree's list of panes at that pane only. The four lemmas
  name the panes before (\<open>xs\<close>) and after (\<open>ys\<close>) it.
\<close>

lemma located_split:
  assumes "locate_in (Some n) p = Some (Some path, i)"
  obtains xs ys ks a where "split_at n path = Some (a, ks)" "i < length ks" "fst (ks ! i) = Pane p"
    "pane_ids n = xs @ p # ys"
    "\<forall>f ns. kid_ids (f ks) = kid_ids (take i ks) @ ns @ kid_ids (drop (Suc i) ks) \<longrightarrow>
       pane_ids (upd_split f path n) = xs @ ns @ ys"
proof -
  from locate_in_split_at [OF assms] obtain a ks where
    s: "split_at n path = Some (a, ks)" "i < length ks" "fst (ks ! i) = Pane p" .
  from upd_split_ids [OF s(1)] obtain pre post where
    "pane_ids n = pre @ kid_ids ks @ post" "\<And>f. pane_ids (upd_split f path n) = pre @ kid_ids (f ks) @ post"
    by blast
  with s show thesis
    by (intro that [of a ks "pre @ kid_ids (take i ks)" "kid_ids (drop (Suc i) ks) @ post"])
       (simp_all add: kid_ids_split [of i ks])
qed

lemma kid_ids_remove_kid:
  "i < length ks \<Longrightarrow> kid_ids (remove_kid i ks) = kid_ids (take i ks) @ kid_ids (drop (Suc i) ks)"
  by (simp add: remove_kid_def remove_at_def Let_def)
     (simp add: kid_ids_map split_beta)

lemma root_remove_ids:
  assumes "locate_in r p = Some (parent, i)"
  obtains xs ys where "root_ids r = xs @ p # ys" "root_ids (root_remove parent i r) = xs @ ys"
proof (cases parent)
  case None
  with assms locate_in_rootD [of r p i] show thesis
    by (intro that [of "[]" "[]"]) (auto simp: root_remove_def)
next
  case (Some path)
  with assms locate_in_SomeD obtain n where n: "r = Some n" by blast
  with assms Some have "locate_in (Some n) p = Some (Some path, i)" by simp
  then obtain xs ys ks a where l: "i < length ks" "pane_ids n = xs @ p # ys"
    "\<forall>f ns. kid_ids (f ks) = kid_ids (take i ks) @ ns @ kid_ids (drop (Suc i) ks) \<longrightarrow>
       pane_ids (upd_split f path n) = xs @ ns @ ys" by (rule located_split) blast
  from l(3) [THEN spec, THEN spec, of "remove_kid i" "[]"] l(1) kid_ids_remove_kid
  have "pane_ids (upd_split (remove_kid i) path n) = xs @ ys" by simp
  with l n Some show thesis by (intro that) (auto simp: root_remove_def)
qed

lemma kid_ids_split_kid:
  "i < length ks \<Longrightarrow> kid_ids (split_kid n i after sz ks) =
     kid_ids (take i ks) @ (if after then pane_ids (fst (ks ! i)) @ pane_ids n else pane_ids n @ pane_ids (fst (ks ! i)))
       @ kid_ids (drop (Suc i) ks)"
  by (simp add: split_kid_def Let_def insert_at_def upd_conv_take_nth_drop)

lemma pane_ids_pair_split:
  "pane_ids (pair_split n b a after sz) = (if after then b # pane_ids n else pane_ids n @ [b])"
  by (simp add: pair_split_def Let_def)

lemma root_insert_ids:
  assumes "locate_in r b = Some (parent, i)"
  obtains xs ys where "root_ids r = xs @ b # ys"
    "root_ids (root_insert n b a after sz r) = xs @ (if after then b # pane_ids n else pane_ids n @ [b]) @ ys"
proof (cases parent)
  case None
  with assms locate_in_rootD [of r b i] show thesis
    by (intro that [of "[]" "[]"]) (auto simp: root_insert_def pane_ids_pair_split)
next
  case (Some path)
  with assms locate_in_SomeD obtain rt where rt: "r = Some rt" by blast
  with assms Some have "locate_in (Some rt) b = Some (Some path, i)" by simp
  then obtain xs ys ks c where l: "split_at rt path = Some (c, ks)" "i < length ks" "fst (ks ! i) = Pane b"
    "pane_ids rt = xs @ b # ys"
    "\<forall>f ns. kid_ids (f ks) = kid_ids (take i ks) @ ns @ kid_ids (drop (Suc i) ks) \<longrightarrow>
       pane_ids (upd_split f path rt) = xs @ ns @ ys" by (rule located_split) blast
  let ?ns = "if after then b # pane_ids n else pane_ids n @ [b]"
  have "pane_ids (upd_split (split_kid n i after sz) path rt) = xs @ ?ns @ ys"
    by (rule l(5) [rule_format]) (use l in \<open>simp add: kid_ids_split_kid\<close>)
  moreover have "pane_ids (upd_split (\<lambda>ks. ks[i := (pair_split n b a after sz, snd (ks ! i))]) path rt) = xs @ ?ns @ ys"
    by (rule l(5) [rule_format]) (use l in \<open>simp add: kid_ids_update pane_ids_pair_split\<close>)
  ultimately show thesis
    using assms Some rt l by (intro that [of xs ys]) (auto simp: root_insert_def)
qed

lemma root_append_ids: "pane_ids (root_append p r) = root_ids r @ [p]"
  by (auto simp: root_append_def Let_def kid_ids_map split_beta split: option.splits node.splits axis.splits)

lemma root_set_ids:
  assumes "locate_in r p = Some (parent, i)"
  obtains xs ys where "root_ids r = xs @ p # ys" "root_ids (root_set parent i q r) = xs @ q # ys"
proof (cases parent)
  case None
  with assms locate_in_rootD [of r p i] show thesis
    by (intro that [of "[]" "[]"]) (auto simp: root_set_def)
next
  case (Some path)
  with assms locate_in_SomeD obtain n where n: "r = Some n" by blast
  with assms Some have "locate_in (Some n) p = Some (Some path, i)" by simp
  then obtain xs ys ks a where l: "i < length ks" "pane_ids n = xs @ p # ys"
    "\<forall>f ns. kid_ids (f ks) = kid_ids (take i ks) @ ns @ kid_ids (drop (Suc i) ks) \<longrightarrow>
       pane_ids (upd_split f path n) = xs @ ns @ ys" by (rule located_split) blast
  from l(3) [THEN spec, THEN spec, of "\<lambda>ks. ks[i := (Pane q, snd (ks ! i))]" "[q]"] l(1)
  have "pane_ids (upd_split (\<lambda>ks. ks[i := (Pane q, snd (ks ! i))]) path n) = xs @ q # ys"
    by (simp add: kid_ids_update)
  with l n Some show thesis by (intro that) (auto simp: root_set_def)
qed

subsection \<open>The edits keep trees well formed\<close>

lemma sum_list_remove_at:
  fixes xs :: "rat list"
  shows "i < length xs \<Longrightarrow> sum_list (remove_at i xs) = sum_list xs - xs ! i"
  by (subst (2) id_take_nth_drop [of i xs]) (simp_all add: remove_at_def)

lemma sum_list_upd:
  fixes xs :: "rat list"
  shows "i < length xs \<Longrightarrow> sum_list (xs[i := x]) = sum_list xs - xs ! i + x"
  by (subst (2) id_take_nth_drop [of i xs]) (simp_all add: upd_conv_take_nth_drop)

lemma sum_list_pos:
  fixes xs :: "rat list"
  shows "xs \<noteq> [] \<Longrightarrow> \<forall>x \<in> set xs. 0 < x \<Longrightarrow> 0 < sum_list xs"
  by (induction xs rule: list_nonempty_induct) (auto intro: add_pos_pos)

lemma sum_list_div: "sum_list (map (\<lambda>x. f x / c) xs) = sum_list (map f xs) / (c :: rat)"
  by (induction xs) (simp_all add: add_divide_distrib)

lemma sum_list_mult: "sum_list (map (\<lambda>x. f x * c) xs) = sum_list (map f xs) * (c :: rat)"
  by (induction xs) (simp_all add: distrib_right)

lemma map_remove_at: "map f (remove_at i xs) = remove_at i (map f xs)"
  by (simp add: remove_at_def take_map drop_map)

lemma kid_below_1:
  assumes "kids_ok 2 ks" "i < length ks" shows "snd (ks ! i) < 1"
proof -
  have rest: "remove_at i ks \<noteq> []"
    using assms length_remove_at [of i ks] by (auto simp: kids_ok_def)
  have "\<forall>x \<in> set (map snd (remove_at i ks)). 0 < x"
    using assms set_remove_at_subset [of i ks] by (auto simp: kids_ok_def)
  with rest have "0 < sum_list (map snd (remove_at i ks))"
    by (intro sum_list_pos) auto
  with assms show ?thesis by (simp add: map_remove_at sum_list_remove_at kids_ok_def)
qed

lemma remove_kid_ok:
  assumes "kids_ok 2 ks" "i < length ks" shows "kids_ok 1 (remove_kid i ks)"
proof -
  define gone where "gone = snd (ks ! i)"
  have gone: "0 < 1 - gone" "gone < 1" using kid_below_1 [OF assms] by (simp_all add: gone_def)
  have eq: "remove_kid i ks = map (\<lambda>k. (fst k, snd k / (1 - gone))) (remove_at i ks)"
    using gone(2) by (simp add: remove_kid_def gone_def split_beta)
  have sum: "sum_list (map snd (remove_at i ks)) = 1 - gone"
    using assms by (simp add: map_remove_at sum_list_remove_at kids_ok_def gone_def)
  have "1 \<le> length (remove_at i ks)" using assms length_remove_at [of i ks] by (auto simp: kids_ok_def)
  moreover have "sum_list (map (\<lambda>k. snd k / (1 - gone)) (remove_at i ks)) = 1"
    using gone sum by (simp only: sum_list_div) simp
  moreover have "node_ok 1 n" if "node_ok 2 n" for n using node_ok_mono [OF that] by simp
  ultimately show ?thesis
    using assms gone set_remove_at_subset [of i ks] unfolding eq
    by (auto simp: kids_ok_def comp_def dest!: subsetD)
qed

lemma root_remove_ok:
  assumes "root_ok r" "locate_in r p = Some (parent, i)" shows "root_ok (root_remove parent i r)"
proof (cases parent)
  case (Some path)
  with assms locate_in_SomeD obtain n where n: "r = Some n" by blast
  with assms(2) Some have "locate_in (Some n) p = Some (Some path, i)" by simp
  then obtain a ks where s: "split_at n path = Some (a, ks)" "i < length ks" by (rule locate_in_split_at)
  have "node_ok 1 (upd_split (remove_kid i) path n)"
    by (rule upd_split_ok [OF s(1), of 2]) (use assms(1) n s(2) remove_kid_ok in \<open>auto simp: root_ok_def\<close>)
  with n Some show ?thesis by (simp add: root_remove_def root_ok_def normalize_ok)
qed (simp add: root_remove_def root_ok_def)

lemma split_kid_ok:
  assumes "kids_ok 2 ks" "i < length ks" "tree_ok n" "0 < sz" "sz < 1"
  shows "kids_ok 2 (split_kid n i after sz ks)"
proof -
  let ?share = "snd (ks ! i)"
  let ?ks = "ks[i := (fst (ks ! i), ?share * (1 - sz))]"
  have share: "0 < ?share" using kids_okD [OF assms(1,2)] by simp
  have "sum_list (map snd ?ks) = 1 - ?share * sz"
    using assms(1,2) by (simp add: map_update sum_list_upd kids_ok_def algebra_simps)
  moreover have "0 < snd x \<and> tree_ok (fst x)" if "x \<in> set ?ks" for x
    using that set_update_subset_insert [of ks i "(fst (ks ! i), ?share * (1 - sz))"] assms share kids_okD [OF assms(1,2)]
    by (auto simp: kids_ok_def)
  moreover have "sum_list (map snd (insert_at j k ks')) = snd k + sum_list (map snd ks')" for j k and ks' :: kids
    by (simp add: insert_at_def)
       (metis (no_types) append_take_drop_id map_append sum_list_append add.left_commute)
  ultimately show ?thesis
    using assms share unfolding split_kid_def Let_def kids_ok_def by auto
qed

lemma pair_split_ok: "tree_ok n \<Longrightarrow> 0 < sz \<Longrightarrow> sz < 1 \<Longrightarrow> tree_ok (pair_split n b a after sz)"
  by (simp add: pair_split_def Let_def kids_ok_def)

lemma root_insert_ok:
  assumes "root_ok r" "tree_ok n" "0 < sz" "sz < 1" shows "root_ok (root_insert n b a after sz r)"
proof (cases "locate_in r b")
  case (Some loc)
  obtain parent i where loc: "loc = (parent, i)" by force
  from Some locate_in_SomeD obtain rt where rt: "r = Some rt" by blast
  show ?thesis
  proof (cases parent)
    case None
    with Some loc rt assms pair_split_ok show ?thesis by (simp add: root_insert_def root_ok_def)
  next
    case path: (Some path)
    with Some loc rt have "locate_in (Some rt) b = Some (Some path, i)" by simp
    then obtain c ks where s: "split_at rt path = Some (c, ks)" "i < length ks" by (rule locate_in_split_at)
    have ok: "tree_ok rt" using assms(1) rt by (simp add: root_ok_def)
    have "tree_ok (upd_split (split_kid n i after sz) path rt)"
      by (rule upd_split_ok [OF s(1) ok]) (use assms s(2) split_kid_ok in auto)
    moreover have "tree_ok (upd_split (\<lambda>ks. ks[i := (pair_split n b a after sz, snd (ks ! i))]) path rt)"
      by (rule upd_split_ok [OF s(1) ok]) (use assms s(2) pair_split_ok in \<open>auto intro: kids_ok_update\<close>)
    ultimately show ?thesis
      using Some loc rt path s by (simp add: root_insert_def root_ok_def)
  qed
qed (use assms(1) in \<open>simp add: root_insert_def\<close>)

lemma root_append_ok:
  assumes "root_ok r" shows "tree_ok (root_append p r)"
proof -
  have "kids_ok 2 (map (\<lambda>(n, s). (n, s * (c / (c + 1)))) ks @ [(Pane p, 1 / (c + 1))])"
    if "kids_ok 2 ks" "c = of_nat (length ks)" for ks and c :: rat
  proof -
    have c: "0 < c" "c + 1 \<noteq> 0" using that by (auto simp: kids_ok_def)
    have "sum_list (map (\<lambda>k. snd k * (c / (c + 1))) ks) = c / (c + 1)"
      using that(1) by (simp only: sum_list_mult) (simp add: kids_ok_def)
    then show ?thesis
      using that(1) c by (auto simp: kids_ok_def split_beta comp_def add_divide_distrib [symmetric])
  qed
  then have row: "tree_ok (root_append p (Some (Split Row ks)))" if "kids_ok 2 ks" for ks
    using that by (simp add: root_append_def Let_def)
  have half: "tree_ok (Split Row [(n, 1 / 2), (Pane p, 1 / 2)])" if "tree_ok n" for n
    using that by (simp add: kids_ok_def)
  show ?thesis
  proof (cases r)
    case (Some n)
    show ?thesis
    proof (cases n)
      case (Split a ks)
      with Some assms row half [of n] show ?thesis
        by (cases a) (simp_all add: root_ok_def, simp add: root_append_def)
    qed (use half [of n] Some in \<open>simp add: root_append_def\<close>)
  qed (simp add: root_append_def)
qed

lemma root_set_ok:
  assumes "root_ok r" "locate_in r p = Some (parent, i)" shows "root_ok (root_set parent i q r)"
proof (cases parent)
  case (Some path)
  with assms locate_in_SomeD obtain n where n: "r = Some n" by blast
  with assms(2) Some have "locate_in (Some n) p = Some (Some path, i)" by simp
  then obtain a ks where s: "split_at n path = Some (a, ks)" "i < length ks" by (rule locate_in_split_at)
  have "tree_ok (upd_split (\<lambda>ks. ks[i := (Pane q, snd (ks ! i))]) path n)"
    by (rule upd_split_ok [OF s(1), of 2]) (use assms(1) n s(2) in \<open>auto simp: root_ok_def intro: kids_ok_update\<close>)
  with n Some show ?thesis by (simp add: root_set_def root_ok_def)
qed (simp add: root_set_def root_ok_def)

end
