(* ===== verification/Mux_Tab_Facts.thy ===== *)
theory Mux_Tab_Facts
  imports Mux_Trees
begin

text \<open>
  The tabs of one window or workspace: how each operation of \<open>tabs.rs\<close> changes the list of panes
  they show, that their trees stay well formed, and what focus, the active tab and the list of
  recent panes keep true.
\<close>

definition tabs_ok :: "tabs \<Rightarrow> bool" where
  "tabs_ok ts \<longleftrightarrow> (\<forall>t \<in> set (ts_tabs ts). root_ok (tab_root t))"

definition tab_ids :: "tabs \<Rightarrow> string list" where
  "tab_ids ts = map tab_id (ts_tabs ts)"

subsection \<open>Locating a pane among the tabs\<close>

lemma find_map_enumerate:
  "find_map (\<lambda>(t, x). map_option (\<lambda>y. (t, y)) (f x)) (enumerate k xs) = Some (t, y) \<Longrightarrow>
   k \<le> t \<and> t - k < length xs \<and> f (xs ! (t - k)) = Some y \<and> (\<forall>j < t - k. f (xs ! j) = None)"
proof (induction xs arbitrary: k)
  case (Cons x xs)
  show ?case
  proof (cases "f x")
    case None
    with Cons have "Suc k \<le> t \<and> t - Suc k < length xs \<and> f (xs ! (t - Suc k)) = Some y \<and>
      (\<forall>j < t - Suc k. f (xs ! j) = None)" by simp
    moreover then obtain m where "t = Suc k + m" using le_Suc_ex by blast
    ultimately show ?thesis using None by (auto simp: less_Suc_eq_0_disj)
  qed (use Cons.prems in auto)
qed simp

lemma ball_enumerate: "(\<forall>x \<in> set (enumerate k xs). P (snd x)) \<longleftrightarrow> (\<forall>x \<in> set xs. P x)"
  by (induction xs arbitrary: k) auto

lemma tabs_locate_SomeD:
  assumes "tabs_locate ts p = Some (t, parent, i)"
  shows "t < length (ts_tabs ts)" "locate_in (tab_root (ts_tabs ts ! t)) p = Some (parent, i)"
proof -
  have eq: "(\<lambda>(t, tb). map_option (\<lambda>(parent, i). (t, parent, i)) (locate_in (tab_root tb) p)) =
    (\<lambda>(t, tb). map_option (\<lambda>y. (t, y)) (locate_in (tab_root tb) p))"
    by (auto simp: fun_eq_iff intro!: option.map_cong)
  show "t < length (ts_tabs ts)" "locate_in (tab_root (ts_tabs ts ! t)) p = Some (parent, i)"
    using find_map_enumerate [of "\<lambda>tb. locate_in (tab_root tb) p" 0 "ts_tabs ts" t "(parent, i)"] assms
    unfolding tabs_locate_def eq by auto
qed

lemma tabs_locate_None_iff: "tabs_locate ts p = None \<longleftrightarrow> p \<notin> set (tabs_panes ts)"
  using ball_enumerate [of 0 "ts_tabs ts" "\<lambda>tb. locate_in (tab_root tb) p = None"]
  by (simp add: tabs_locate_def tabs_panes_def tab_panes_def locate_in_None_iff split_beta)

subsection \<open>Editing one tab\<close>

lemma tabs_panes_at:
  "t < length (ts_tabs ts) \<Longrightarrow> tabs_panes ts =
     concat (map tab_panes (take t (ts_tabs ts))) @ tab_panes (ts_tabs ts ! t) @
     concat (map tab_panes (drop (Suc t) (ts_tabs ts)))"
  unfolding tabs_panes_def by (subst id_take_nth_drop [of t "ts_tabs ts"]) simp_all

lemma tabs_panes_upd_tab:
  "t < length (ts_tabs ts) \<Longrightarrow> tabs_panes (upd_tab t f ts) =
     concat (map tab_panes (take t (ts_tabs ts))) @ tab_panes (f (ts_tabs ts ! t)) @
     concat (map tab_panes (drop (Suc t) (ts_tabs ts)))"
  by (simp add: tabs_panes_def upd_tab_def upd_conv_take_nth_drop)

lemma upd_tab_frame [frame_simps, simp]:
  "ts_active (upd_tab t f ts) = ts_active ts" "ts_focused (upd_tab t f ts) = ts_focused ts"
  "ts_zoom (upd_tab t f ts) = ts_zoom ts" "ts_count (upd_tab t f ts) = ts_count ts"
  "ts_recent (upd_tab t f ts) = ts_recent ts" "length (ts_tabs (upd_tab t f ts)) = length (ts_tabs ts)"
  by (simp_all add: upd_tab_def)

lemma tab_ids_upd_tab:
  "t < length (ts_tabs ts) \<Longrightarrow> tab_id (f (ts_tabs ts ! t)) = tab_id (ts_tabs ts ! t) \<Longrightarrow>
   tab_ids (upd_tab t f ts) = tab_ids ts"
  by (simp add: tab_ids_def upd_tab_def map_update) (metis list_update_id nth_map)

lemma tabs_ok_upd_tab:
  assumes "tabs_ok ts" "root_ok (tab_root (f (ts_tabs ts ! t)))" shows "tabs_ok (upd_tab t f ts)"
  using assms set_update_subset_insert [of "ts_tabs ts" t "f (ts_tabs ts ! t)"]
  by (auto simp: tabs_ok_def upd_tab_def)

text \<open>The panes of the tabs around a located pane, and what an edit at that pane makes of them.\<close>

lemma upd_located:
  assumes "t < length (ts_tabs ts)" "tab_panes (ts_tabs ts ! t) = xs @ p # ys"
    "tab_panes (f (ts_tabs ts ! t)) = xs @ ns @ ys"
  obtains us vs where "tabs_panes ts = us @ p # vs" "tabs_panes (upd_tab t f ts) = us @ ns @ vs"
proof
  let ?us = "concat (map tab_panes (take t (ts_tabs ts))) @ xs"
  let ?vs = "ys @ concat (map tab_panes (drop (Suc t) (ts_tabs ts)))"
  show "tabs_panes ts = ?us @ p # ?vs" using assms(1,2) by (simp add: tabs_panes_at [of t])
  show "tabs_panes (upd_tab t f ts) = ?us @ ns @ ?vs" using assms(1,3) by (simp add: tabs_panes_upd_tab)
qed

lemma tabs_remove_panes:
  assumes "p \<in> set (tabs_panes ts)"
  obtains xs ys where "tabs_panes ts = xs @ p # ys" "tabs_panes (fst (tabs_remove p ts)) = xs @ ys"
proof -
  obtain t parent i where l: "tabs_locate ts p = Some (t, parent, i)"
    using assms tabs_locate_None_iff [of ts p] by (cases "tabs_locate ts p") auto
  note d = tabs_locate_SomeD [OF l]
  let ?f = "\<lambda>tb. tb\<lparr>tab_root := root_remove parent i (tab_root tb)\<rparr>"
  obtain xs ys where "tab_panes (ts_tabs ts ! t) = xs @ p # ys" "tab_panes (?f (ts_tabs ts ! t)) = xs @ [] @ ys"
    by (rule root_remove_ids [OF d(2)]) (simp add: tab_panes_def)
  from upd_located [where f = ?f, OF d(1) this] obtain us vs where
    "tabs_panes ts = us @ p # vs" "tabs_panes (upd_tab t ?f ts) = us @ vs" by auto
  with l show thesis by (intro that) (simp_all add: tabs_remove_def)
qed

lemma tabs_remove_absent: "p \<notin> set (tabs_panes ts) \<Longrightarrow> tabs_remove p ts = (ts, False)"
  by (simp add: tabs_remove_def tabs_locate_None_iff [symmetric] option.case_eq_if)

lemma tabs_remove_found: "snd (tabs_remove p ts) \<longleftrightarrow> p \<in> set (tabs_panes ts)"
  using tabs_locate_None_iff [of ts p] by (auto simp: tabs_remove_def split: option.splits)

lemma tabs_remove_ok: "tabs_ok ts \<Longrightarrow> tabs_ok (fst (tabs_remove p ts))"
proof (cases "tabs_locate ts p")
  case (Some loc)
  assume ok: "tabs_ok ts"
  obtain t parent i where loc: "loc = (t, parent, i)" by (cases loc) auto
  note d = tabs_locate_SomeD [OF Some [unfolded loc]]
  have "root_ok (tab_root (ts_tabs ts ! t))" using ok d(1) by (simp add: tabs_ok_def)
  with d(2) have "root_ok (root_remove parent i (tab_root (ts_tabs ts ! t)))" by (rule root_remove_ok [rotated])
  with ok Some loc show ?thesis by (simp add: tabs_remove_def tabs_ok_upd_tab)
qed (simp add: tabs_remove_def)

lemma tabs_remove_ids [frame_simps]:
  "tab_ids (fst (tabs_remove p ts)) = tab_ids ts"
  by (auto simp: tabs_remove_def tab_ids_upd_tab split: option.splits dest: tabs_locate_SomeD)

lemma tabs_insert_panes:
  assumes "t < length (ts_tabs ts)" "b \<in> set (tab_panes (ts_tabs ts ! t))"
  obtains xs ys where "tabs_panes ts = xs @ b # ys"
    "tabs_panes (tabs_insert n b t a after sz ts) = xs @ (if after then b # pane_ids n else pane_ids n @ [b]) @ ys"
proof -
  let ?r = "tab_root (ts_tabs ts ! t)"
  let ?f = "\<lambda>tb. tb\<lparr>tab_root := root_insert n b a after sz (tab_root tb)\<rparr>"
  obtain parent i where l: "locate_in ?r b = Some (parent, i)"
    using assms(2) locate_in_None_iff [of ?r b] by (cases "locate_in ?r b") (auto simp: tab_panes_def)
  obtain xs ys where "tab_panes (ts_tabs ts ! t) = xs @ b # ys"
    "tab_panes (?f (ts_tabs ts ! t)) = xs @ (if after then b # pane_ids n else pane_ids n @ [b]) @ ys"
    by (rule root_insert_ids [OF l, of n a after sz]) (simp add: tab_panes_def)
  from upd_located [where f = ?f, OF assms(1) this] show thesis
    using that by (auto simp: tabs_insert_def)
qed

lemma tabs_insert_ok:
  assumes "tabs_ok ts" "t < length (ts_tabs ts)" "tree_ok n" "0 < sz" "sz < 1"
  shows "tabs_ok (tabs_insert n b t a after sz ts)"
  using assms unfolding tabs_insert_def
  by (intro tabs_ok_upd_tab) (auto simp: tabs_ok_def intro!: root_insert_ok)

lemma tabs_append_panes:
  assumes "t < length (ts_tabs ts)"
  obtains xs ys where "tabs_panes ts = xs @ ys" "tabs_panes (tabs_append p t ts) = xs @ p # ys"
proof
  let ?xs = "concat (map tab_panes (take t (ts_tabs ts))) @ tab_panes (ts_tabs ts ! t)"
  let ?ys = "concat (map tab_panes (drop (Suc t) (ts_tabs ts)))"
  show "tabs_panes ts = ?xs @ ?ys" using assms by (simp add: tabs_panes_at)
  show "tabs_panes (tabs_append p t ts) = ?xs @ p # ?ys"
    using assms by (simp add: tabs_append_def tabs_panes_upd_tab tab_panes_def root_append_ids)
qed

lemma tabs_append_ok: "tabs_ok ts \<Longrightarrow> t < length (ts_tabs ts) \<Longrightarrow> tabs_ok (tabs_append p t ts)"
  unfolding tabs_append_def
  by (intro tabs_ok_upd_tab) (auto simp: tabs_ok_def root_ok_def [of "Some _"] root_append_ok)

lemma tabs_set_at_panes:
  assumes "tabs_locate ts p = Some (t, parent, i)"
  obtains xs ys where "tabs_panes ts = xs @ p # ys" "tabs_panes (tabs_set_at t parent i q ts) = xs @ q # ys"
proof -
  note d = tabs_locate_SomeD [OF assms]
  let ?f = "\<lambda>tb. tb\<lparr>tab_root := root_set parent i q (tab_root tb)\<rparr>"
  obtain xs ys where "tab_panes (ts_tabs ts ! t) = xs @ p # ys" "tab_panes (?f (ts_tabs ts ! t)) = xs @ [q] @ ys"
    by (rule root_set_ids [OF d(2), of q]) (simp add: tab_panes_def)
  from upd_located [where f = ?f, OF d(1) this] show thesis using that by (auto simp: tabs_set_at_def)
qed

lemma tabs_set_at_ok:
  assumes "tabs_ok ts" "tabs_locate ts p = Some (t, parent, i)"
  shows "tabs_ok (tabs_set_at t parent i q ts)"
proof -
  note d = tabs_locate_SomeD [OF assms(2)]
  have "root_ok (tab_root (ts_tabs ts ! t))" using assms(1) d(1) by (simp add: tabs_ok_def)
  then have "root_ok (root_set parent i q (tab_root (ts_tabs ts ! t)))" using d(2) by (rule root_set_ok)
  with assms(1) show ?thesis unfolding tabs_set_at_def by (intro tabs_ok_upd_tab) simp_all
qed

subsection \<open>The active tab and the focus\<close>

lemma active_index_bound: "active_index ts = Some i \<Longrightarrow> i < length (ts_tabs ts)"
  by (auto simp: active_index_def split: option.splits if_splits dest: position_SomeD)

lemma active_index_None_iff: "active_index ts = None \<longleftrightarrow> ts_tabs ts = []"
  by (auto simp: active_index_def split: option.splits dest: position_SomeD)

lemma shown_subset: "set (shown ts) \<subseteq> set (tabs_panes ts)"
proof (cases "active_index ts")
  case (Some i)
  then have "ts_tabs ts ! i \<in> set (ts_tabs ts)" using active_index_bound by simp
  with Some show ?thesis
    by (auto simp: shown_def active_tab_def tabs_panes_def tab_panes_def split: Option.bind_splits)
qed (simp add: shown_def active_tab_def)

definition active_ok :: "tabs \<Rightarrow> bool" where
  "active_ok ts \<longleftrightarrow>
     (case ts_active ts of None \<Rightarrow> ts_tabs ts = [] | Some a \<Rightarrow> a \<in> set (tab_ids ts))"

definition settled :: "string option \<Rightarrow> tabs \<Rightarrow> bool" where
  "settled beside ts \<longleftrightarrow>
     (case ts_focused ts of
        None \<Rightarrow> shown ts = [] \<and> beside = None
      | Some f \<Rightarrow> f \<in> set (shown ts) \<or> beside = Some f)"

lemma tidy_panes [panes_simps, simp]: "tabs_panes (tabs_tidy ts) = tabs_panes ts"
proof -
  have "concat (map tab_panes (filter (\<lambda>t. tab_root t \<noteq> None) xs)) = concat (map tab_panes xs)" for xs
    by (induction xs) (auto simp: tab_panes_def)
  then show ?thesis by (simp add: tabs_tidy_def tabs_panes_def Let_def)
qed

lemma tidy_ok: "tabs_ok ts \<Longrightarrow> tabs_ok (tabs_tidy ts)"
  by (auto simp: tabs_tidy_def tabs_ok_def Let_def)

lemma tidy_roots: "t \<in> set (ts_tabs (tabs_tidy ts)) \<Longrightarrow> tab_root t \<noteq> None"
  by (auto simp: tabs_tidy_def Let_def split: if_splits)

lemma tidy_tabs: "ts_tabs (tabs_tidy ts) = filter (\<lambda>t. tab_root t \<noteq> None) (ts_tabs ts)"
  by (simp add: tabs_tidy_def Let_def)

lemma tidy_frame [frame_simps, simp]:
  "ts_focused (tabs_tidy ts) = ts_focused ts" "ts_zoom (tabs_tidy ts) = ts_zoom ts"
  "ts_count (tabs_tidy ts) = ts_count ts" "ts_recent (tabs_tidy ts) = ts_recent ts"
  by (simp_all add: tabs_tidy_def Let_def)

lemma tidy_active: "active_ok (tabs_tidy ts)"
proof -
  define kept where "kept = filter (\<lambda>t. tab_root t \<noteq> None) (ts_tabs ts)"
  show ?thesis
  proof (cases "\<exists>t \<in> set kept. Some (tab_id t) = ts_active ts")
    case True
    then obtain t where "t \<in> set kept" "ts_active ts = Some (tab_id t)" by metis
    with True show ?thesis
      unfolding tabs_tidy_def Let_def kept_def [symmetric] by (auto simp: active_ok_def tab_ids_def)
  next
    case False
    have "kept ! min i (length kept - 1) \<in> set kept" if "kept \<noteq> []" for i
      using that by (intro nth_mem) (cases kept, auto simp: min_def)
    with False show ?thesis
      unfolding tabs_tidy_def Let_def kept_def [symmetric] by (auto simp: active_ok_def tab_ids_def)
  qed
qed

lemma settle_frame [frame_simps, simp]:
  "ts_tabs (settle_focus b ts) = ts_tabs ts" "ts_active (settle_focus b ts) = ts_active ts"
  "ts_zoom (settle_focus b ts) = ts_zoom ts" "ts_count (settle_focus b ts) = ts_count ts"
  "ts_recent (settle_focus b ts) = ts_recent ts"
  by (simp_all add: settle_focus_def Let_def)

lemma active_index_cong:
  "ts_tabs ts = ts_tabs ts' \<Longrightarrow> ts_active ts = ts_active ts' \<Longrightarrow> active_index ts = active_index ts'"
  by (simp add: active_index_def)

lemma shown_cong: "ts_tabs ts = ts_tabs ts' \<Longrightarrow> ts_active ts = ts_active ts' \<Longrightarrow> shown ts = shown ts'"
  by (simp add: shown_def active_tab_def active_index_cong [of ts ts'])

lemma settle_shown [simp]: "shown (settle_focus b ts) = shown ts"
  by (rule shown_cong) simp_all

lemma keep_in_SomeD: "keep_in ids x = Some y \<Longrightarrow> y \<in> set ids \<and> x = Some y"
  by (auto simp: keep_in_def split: option.splits if_splits)

lemma settle_settled: "settled b (settle_focus b ts)"
proof -
  let ?last = "keep_in (shown ts) (Option.bind (active_tab ts) last_focus)"
  consider "case ts_focused ts of Some f \<Rightarrow> f \<in> set (shown ts) \<or> Some f = b | None \<Rightarrow> False"
    | l where "\<not> (case ts_focused ts of Some f \<Rightarrow> f \<in> set (shown ts) \<or> Some f = b | None \<Rightarrow> False)"
        "?last = Some l"
    | "\<not> (case ts_focused ts of Some f \<Rightarrow> f \<in> set (shown ts) \<or> Some f = b | None \<Rightarrow> False)" "?last = None"
    by blast
  then show ?thesis
  proof cases
    case 1
    then show ?thesis by (auto simp: settle_focus_def settled_def Let_def split: option.splits)
  next
    case 2
    with keep_in_SomeD [OF 2(2)] show ?thesis
      unfolding settled_def settle_shown by (simp add: settle_focus_def Let_def)
  next
    case 3
    then show ?thesis
      unfolding settled_def settle_shown by (auto simp: settle_focus_def Let_def split: list.splits option.splits)
  qed
qed

lemma settle_panes [panes_simps, simp]: "tabs_panes (settle_focus b ts) = tabs_panes ts"
  by (simp add: tabs_panes_def)

lemma settle_active: "active_ok ts \<Longrightarrow> active_ok (settle_focus b ts)"
  by (auto simp: active_ok_def tab_ids_def split: option.splits)

lemma focus_sets: "ts_focused (tabs_focus p ts) = Some p"
  by (simp add: tabs_focus_def Let_def)

lemma tab_roots_focus: "map tab_root (ts_tabs (tabs_focus p ts)) = map tab_root (ts_tabs ts)"
proof (cases "tabs_locate ts p")
  case (Some loc)
  then show ?thesis
    by (cases loc) (auto simp: tabs_focus_def upd_tab_def map_update Let_def split: option.splits
        intro!: list_update_same_conv [THEN iffD2] dest: tabs_locate_SomeD)
qed (simp add: tabs_focus_def)

lemma tabs_panes_roots: "tabs_panes ts = concat (map root_ids (map tab_root (ts_tabs ts)))"
  by (simp add: tabs_panes_def tab_panes_def [abs_def] comp_def)

lemma focus_panes [panes_simps, simp]: "tabs_panes (tabs_focus p ts) = tabs_panes ts"
  unfolding tabs_panes_roots tab_roots_focus ..

lemma tabs_ok_roots: "tabs_ok ts \<longleftrightarrow> (\<forall>r \<in> set (map tab_root (ts_tabs ts)). root_ok r)"
  by (auto simp: tabs_ok_def)

lemma focus_ok: "tabs_ok (tabs_focus p ts) \<longleftrightarrow> tabs_ok ts"
  unfolding tabs_ok_roots tab_roots_focus ..

lemma show_frame [frame_simps, simp]:
  "ts_tabs (tabs_show t ts) = ts_tabs ts" "tabs_panes (tabs_show t ts) = tabs_panes ts"
  by (simp_all add: tabs_show_def tabs_panes_def Let_def)

subsection \<open>Recent panes\<close>

definition recent_ok :: "tabs \<Rightarrow> bool" where
  "recent_ok ts \<longleftrightarrow> distinct (ts_recent ts)"

lemma find_eq: "List.find (\<lambda>a. a = i) xs = (if i \<in> set xs then Some i else None)"
  by (induction xs) auto

lemma find_Some_focus: "List.find (\<lambda>i. Some i = f) xs = (case f of Some i \<Rightarrow> if i \<in> set xs then Some i else None | None \<Rightarrow> None)"
  by (induction xs) (auto split: option.splits)

lemma remember_panes [panes_simps, simp]: "tabs_panes (tabs_remember ts) = tabs_panes ts"
  by (simp add: tabs_remember_def tabs_panes_def Let_def)

lemma remember_frame [frame_simps, simp]:
  "ts_tabs (tabs_remember ts) = ts_tabs ts" "ts_active (tabs_remember ts) = ts_active ts"
  "ts_focused (tabs_remember ts) = ts_focused ts"
  by (simp_all add: tabs_remember_def Let_def)

subsection \<open>Properties\<close>

definition two_panes :: tabs where
  "two_panes = default_tabs\<lparr>ts_tabs := [(new_tab ''tab-1'' 1)\<lparr>tab_root :=
     Some (Split Row [(Pane ''a'', 1 / 2), (Pane ''b'', 1 / 2)])\<rparr>], ts_active := Some ''tab-1''\<rparr>"

lemma two_panes_facts:
  "tabs_panes two_panes = [''a'', ''b'']" "tabs_ok two_panes" "length (ts_tabs two_panes) = 1"
  "tab_panes (ts_tabs two_panes ! 0) = [''a'', ''b'']"
  by (simp_all add: two_panes_def tabs_panes_def tab_panes_def tabs_ok_def root_ok_def kids_ok_def)

text \<open>
  Closing or moving a pane out of its tabs (\<open>Tabs::remove\<close>) takes exactly that pane away: the
  other panes stay, in their order; the call reports whether the pane was there; and every split
  left has two kids or more whose positive sizes add up to 1 again.
\<close>

lemma tabs_remove_exact:
  assumes "distinct (tabs_panes ts)" "tabs_ok ts"
  shows "tabs_panes (fst (tabs_remove p ts)) = filter (\<lambda>q. q \<noteq> p) (tabs_panes ts) \<and>
    (snd (tabs_remove p ts) \<longleftrightarrow> p \<in> set (tabs_panes ts)) \<and> tabs_ok (fst (tabs_remove p ts))"
proof (intro conjI)
  show "tabs_panes (fst (tabs_remove p ts)) = filter (\<lambda>q. q \<noteq> p) (tabs_panes ts)"
  proof (cases "p \<in> set (tabs_panes ts)")
    case True
    then obtain xs ys where x: "tabs_panes ts = xs @ p # ys" "tabs_panes (fst (tabs_remove p ts)) = xs @ ys"
      by (rule tabs_remove_panes)
    with assms(1) have "p \<notin> set xs" "p \<notin> set ys" by auto
    then have "filter (\<lambda>q. q \<noteq> p) xs = xs" "filter (\<lambda>q. q \<noteq> p) ys = ys"
      by (auto simp: filter_id_conv)
    with x show ?thesis by simp
  next
    case False
    then have "filter (\<lambda>q. q \<noteq> p) (tabs_panes ts) = tabs_panes ts" by (auto simp: filter_id_conv)
    with False show ?thesis by (simp add: tabs_remove_absent)
  qed
qed (simp_all add: tabs_remove_found tabs_remove_ok assms)

theorem tabs_remove_exact_witness: "tabs_panes (fst (tabs_remove ''a'' two_panes)) = [''b'']"
  using tabs_remove_exact [of two_panes "''a''"] two_panes_facts by simp

text \<open>
  Opening or dropping a pane beside another (\<open>Tabs::insert\<close>) puts it right after that pane, or
  right before it, in the tab's order, moves nothing else, and leaves a well-formed tree whatever
  the axis of the split it lands in; a share strictly between 0 and 1 is all it needs.
\<close>

lemma tabs_insert_beside:
  assumes "t < length (ts_tabs ts)" "b \<in> set (tab_panes (ts_tabs ts ! t))"
    and "tabs_ok ts" "0 < sz" "sz < 1"
  shows "\<exists>xs ys. tabs_panes ts = xs @ b # ys \<and>
      tabs_panes (tabs_insert (Pane p) b t a after sz ts) = xs @ (if after then [b, p] else [p, b]) @ ys \<and>
      tabs_ok (tabs_insert (Pane p) b t a after sz ts)"
proof -
  have ok: "tabs_ok (tabs_insert (Pane p) b t a after sz ts)"
    using assms by (intro tabs_insert_ok) simp_all
  obtain xs ys where "tabs_panes ts = xs @ b # ys"
    "tabs_panes (tabs_insert (Pane p) b t a after sz ts) =
       xs @ (if after then b # pane_ids (Pane p) else pane_ids (Pane p) @ [b]) @ ys"
    by (rule tabs_insert_panes [OF assms(1,2)])
  with ok show ?thesis by (cases after) auto
qed

lemma tabs_insert_beside_witness:
  "tabs_ok (tabs_insert (Pane ''c'') ''a'' 0 Column True (1 / 3) two_panes)"
  using tabs_insert_beside [of 0 two_panes "''a''" "1 / 3" "''c''" Column True] two_panes_facts by auto

text \<open>
  After \<open>Tabs::tidy\<close> and \<open>settle_focus\<close> (what every command ends with) no tab is empty, the
  active tab is one of the tabs, or there are none, and the focus is on a pane the active tab shows
  or on the pane beside the tabs (a dock or a lead); only with nothing to show is there no focus.
  No pane goes or moves.
\<close>

lemma tidy_settles:
  fixes ts beside
  defines "ts' \<equiv> settle_focus beside (tabs_tidy ts)"
  shows "tabs_panes ts' = tabs_panes ts \<and> active_ok ts' \<and> settled beside ts' \<and>
    (\<forall>t \<in> set (ts_tabs ts'). tab_root t \<noteq> None)"
  using tidy_active settle_active settle_settled tidy_roots by (auto simp: ts'_def)

theorem tidy_settles_witness:
  "settled None (settle_focus None (tabs_tidy two_panes))"
  using tidy_settles [of None two_panes] by blast

text \<open>
  \<open>Tabs::remember\<close> keeps a list of the panes still in the tabs, each once, that starts with the
  focused one; \<open>latest\<close>, which asks it for the pane to show among some, prefers the focused pane
  and answers whenever there is one to answer with.
\<close>

lemma remember_recent:
  assumes "recent_ok ts"
  shows "recent_ok (tabs_remember ts) \<and> set (ts_recent (tabs_remember ts)) \<subseteq> set (tabs_panes ts) \<and>
    (ts_focused ts = Some f \<and> f \<in> set (tabs_panes ts) \<longrightarrow> first_opt (ts_recent (tabs_remember ts)) = Some f) \<and>
    (among \<noteq> [] \<longrightarrow> (\<exists>p \<in> set among. latest ts among = Some p)) \<and>
    (ts_focused ts = Some f \<and> f \<in> set among \<longrightarrow> latest ts among = Some f)"
proof (intro conjI impI)
  show "recent_ok (tabs_remember ts)"
    using assms by (auto simp: recent_ok_def tabs_remember_def Let_def split: option.splits)
  show "set (ts_recent (tabs_remember ts)) \<subseteq> set (tabs_panes ts)"
    by (auto simp: tabs_remember_def Let_def)
  show "first_opt (ts_recent (tabs_remember ts)) = Some f" if "ts_focused ts = Some f \<and> f \<in> set (tabs_panes ts)"
    using that by (cases "ts_recent ts") (auto simp: tabs_remember_def keep_in_def Let_def)
  show "\<exists>p \<in> set among. latest ts among = Some p" if "among \<noteq> []"
    using that
    by (auto simp: latest_def find_eq find_Some_focus neq_Nil_conv split: option.splits if_splits dest!: find_map_SomeD)
  show "latest ts among = Some f" if "ts_focused ts = Some f \<and> f \<in> set among"
    using that by (simp add: latest_def find_eq find_Some_focus)
qed

lemma remember_recent_witness:
  "first_opt (ts_recent (tabs_remember (two_panes\<lparr>ts_focused := Some ''b'', ts_recent := [''a'', ''x'']\<rparr>))) = Some ''b''"
proof -
  let ?ts = "two_panes\<lparr>ts_focused := Some ''b'', ts_recent := [''a'', ''x'']\<rparr>"
  have "recent_ok ?ts" by (simp add: recent_ok_def)
  moreover have "''b'' \<in> set (tabs_panes ?ts)" using two_panes_facts(1) by (simp add: tabs_panes_def)
  ultimately show ?thesis using remember_recent [of ?ts "''b''" "[]"] by simp
qed

end
