(* ===== verification/Mux_Fraction.thy ===== *)
theory Mux_Fraction
  imports Mux_Json
begin

text \<open>
  Fractions as the commands take and print them (\<open>kanna-mux/src/fraction.rs\<close>): \<open>1/3\<close>, \<open>40%\<close>,
  \<open>0.5\<close> and the hexadecimal floats Swift reads. Values are exact rationals; the texts \<open>inf\<close> and
  \<open>nan\<close>, which Rust's \<open>f64\<close> parser also takes, have no rational value and are not modelled.
\<close>

definition hex_digit :: "char \<Rightarrow> nat option" where
  "hex_digit c =
     (if is_digit c then Some (code c - 48)
      else if 97 \<le> code c \<and> code c \<le> 102 then Some (code c - 87)
      else if 65 \<le> code c \<and> code c \<le> 70 then Some (code c - 55) else None)"

definition pow2 :: "int \<Rightarrow> rat" where
  "pow2 e = (if 0 \<le> e then 2 ^ nat e else 1 / 2 ^ nat (- e))"

definition sat_i64 :: "int \<Rightarrow> int" where
  "sat_i64 i = max (- (2 ^ 63)) (min (2 ^ 63 - 1) i)"

text \<open>
  The loop of \<open>hex\<close> over the digits: the mantissa takes digits until it is 121 bits or more, after
  which a digit of the whole part only counts its place.
\<close>

fun hex_digits :: "string \<Rightarrow> nat \<Rightarrow> nat \<Rightarrow> nat \<Rightarrow> int \<Rightarrow> (nat \<times> int) option" where
  "hex_digits [] i n mantissa shift = Some (mantissa, shift)"
| "hex_digits (c # cs) i n mantissa shift =
     (case hex_digit c of
        None \<Rightarrow> None
      | Some d \<Rightarrow>
          if mantissa < 2 ^ 120
          then hex_digits cs (Suc i) n (mantissa * 16 + d) (if i \<ge> n then shift - 4 else shift)
          else hex_digits cs (Suc i) n mantissa (if i < n then shift + 4 else shift))"

definition hex_exponent :: "string \<Rightarrow> int option" where
  "hex_exponent e =
     (let unsigned = (case e of c # r \<Rightarrow> if c = CHR ''+'' \<or> c = CHR ''-'' then r else e | [] \<Rightarrow> []);
          m = foldl (\<lambda>n c. sat_i64 (sat_i64 (n * 10) + int (code c - 48))) 0 unsigned
      in if unsigned = [] \<or> \<not> list_all is_digit unsigned then None
         else Some (if starts_with ''-'' e then - m else m))"

definition hex :: "string \<Rightarrow> rat option" where
  "hex text =
     (case text of
        [] \<Rightarrow> None
      | c # r \<Rightarrow>
          let (negative, rest) = (if c = CHR ''-'' then (True, r) else if c = CHR ''+'' then (False, r) else (False, text))
          in Option.bind (case strip_prefix ''0x'' rest of Some x \<Rightarrow> Some x | None \<Rightarrow> strip_prefix ''0X'' rest) (\<lambda>rest.
             let i = position (\<lambda>c. c = CHR ''p'' \<or> c = CHR ''P'') rest;
                 digits = (case i of Some i \<Rightarrow> take i rest | None \<Rightarrow> rest);
                 exponent = map_option (\<lambda>i. drop (Suc i) rest) i;
                 (whole, fraction) = (case split_once ''.'' digits of Some p \<Rightarrow> p | None \<Rightarrow> (digits, []))
             in if whole = [] \<and> fraction = [] then None
                else Option.bind (hex_digits (whole @ fraction) 0 (length whole) 0 0) (\<lambda>(mantissa, shift).
                     Option.bind (case exponent of None \<Rightarrow> Some 0 | Some e \<Rightarrow> hex_exponent e) (\<lambda>power.
                       let v = of_nat mantissa * pow2 (sat_i64 (power + shift))
                       in Some (if negative then - v else v)))))"

text \<open>
  \<open>str::parse::<f64>\<close>: a sign, digits with an optional point, and an optional decimal exponent.
\<close>

definition pow10 :: "int \<Rightarrow> rat" where
  "pow10 e = (if 0 \<le> e then 10 ^ nat e else 1 / 10 ^ nat (- e))"

definition parse_exp :: "string \<Rightarrow> int option" where
  "parse_exp e =
     (let d = (case e of c # r \<Rightarrow> if c = CHR ''+'' \<or> c = CHR ''-'' then r else e | [] \<Rightarrow> [])
      in if d \<noteq> [] \<and> list_all is_digit d
         then Some (if starts_with ''-'' e then - int (digits_value d) else int (digits_value d)) else None)"

definition parse_f64 :: "string \<Rightarrow> rat option" where
  "parse_f64 s =
     (let (negative, body) = (case s of c # r \<Rightarrow> if c = CHR ''-'' then (True, r) else if c = CHR ''+'' then (False, r) else (False, s)
                              | [] \<Rightarrow> (False, []));
          i = position (\<lambda>c. c = CHR ''e'' \<or> c = CHR ''E'') body;
          m = (case i of Some i \<Rightarrow> take i body | None \<Rightarrow> body);
          (whole, fraction) = (case split_once ''.'' m of Some p \<Rightarrow> p | None \<Rightarrow> (m, []))
      in if whole @ fraction = [] \<or> \<not> list_all is_digit (whole @ fraction) then None
         else Option.bind (case i of None \<Rightarrow> Some 0 | Some i \<Rightarrow> parse_exp (drop (Suc i) body)) (\<lambda>e.
                let v = of_nat (digits_value (whole @ fraction)) * pow10 (e - int (length fraction))
                in Some (if negative then - v else v)))"

definition fraction_number :: "string \<Rightarrow> rat option" where
  "fraction_number text = (case hex text of Some v \<Rightarrow> Some v | None \<Rightarrow> parse_f64 text)"

definition fraction_parse :: "json \<Rightarrow> rat option" where
  "fraction_parse value =
     (case as_f64 value of
        Some n \<Rightarrow> Some n
      | None \<Rightarrow> Option.bind (as_str value) (\<lambda>s.
          let text = json_trim s
          in if ends_with ''%'' text then map_option (\<lambda>n. n / 100) (fraction_number (butlast text))
             else (let parts = split_on (\<lambda>c. c = CHR ''/'') text
                   in if length parts = 2
                      then (case (fraction_number (parts ! 0), fraction_number (parts ! 1)) of
                              (Some n, Some d) \<Rightarrow> if d \<noteq> 0 then Some (n / d) else None
                            | _ \<Rightarrow> None)
                      else if length parts = 1 then fraction_number text else None)))"

text \<open>\<open>f64::round\<close>: to the nearest integer, halves away from zero.\<close>

definition round_away :: "rat \<Rightarrow> int" where
  "round_away r = (if 0 \<le> r then \<lfloor>r + 1 / 2\<rfloor> else - \<lfloor>1 / 2 - r\<rfloor>)"

definition int_dec :: "int \<Rightarrow> string" where
  "int_dec i = (if i < 0 then ''-'' @ dec (nat (- i)) else dec (nat i))"

fun format_from :: "nat list \<Rightarrow> rat \<Rightarrow> string" where
  "format_from [] v = int_dec (round_away (v * 100)) @ ''%''"
| "format_from (d # ds) v =
     (let n = round_away (v * of_nat d)
      in if 0 < n \<and> \<bar>v - of_int n / of_nat d\<bar> < 4 / 1000 then int_dec n @ ''/'' @ dec d
         else format_from ds v)"

definition fraction_format :: "rat \<Rightarrow> string" where
  "fraction_format v = (if \<bar>v - 1\<bar> < 1 / 10 ^ 6 then ''1'' else format_from [2, 3, 4, 5, 6, 7, 8] v)"

end
