(* ===== verification/Mux_Model.thy ===== *)
theory Mux_Model
  imports Mux_Tab_Facts Mux_Fraction
begin

text \<open>
  The layout model (\<open>kanna-mux/src/model.rs\<close>, with \<open>workspace.rs\<close>, the data types of \<open>layout.rs\<close>
  and the task part \<open>desk.rs\<close>): windows with their tabs and leads, workspaces with their docks, tabs
  and background panes, and the operations that look panes up and move them about. Tabs of a
  dissolved workspace wait in \<open>orphans\<close> until \<open>drop_empty\<close> gives them a window.

  A method \<open>fn f(&mut self, \<dots>) -> Result<T, KmuxError>\<close> is a function that returns the state after
  the call and the result, since a call that fails may already have changed the state. Rust's
  panics on an index out of range do not occur, since every index comes from a search of the same
  list, but for \<open>window_command\<close>, where the model says so.
\<close>

datatype edge = ELeft | ERight

fun edge_str :: "edge \<Rightarrow> string" where
  "edge_str ELeft = ''left''" | "edge_str ERight = ''right''"

definition edge_parse :: "string \<Rightarrow> edge option" where
  "edge_parse name = (if name = ''left'' then Some ELeft else if name = ''right'' then Some ERight else None)"

definition edge_read :: "json option \<Rightarrow> kmux_error + edge option" where
  "edge_read v =
     (case v of
        None \<Rightarrow> Inr None
      | Some Null \<Rightarrow> Inr None
      | Some w \<Rightarrow> (case Option.bind (as_str w) edge_parse of
          Some e \<Rightarrow> Inr (Some e)
        | None \<Rightarrow> Inl (kmux_err ''bad_request'' ''dock must be left or right'')))"

datatype split_side = SRight | SDown | SAuto

record dock =
  dk_pane :: string
  dk_edge :: edge
  dk_width :: rat
  dk_frozen :: bool

definition DOCK_WIDTH :: rat where "DOCK_WIDTH = 2 / 5"
definition WINDOW_ASPECT :: rat where "WINDOW_ASPECT = 8 / 5"
definition MAC_APP :: string where "MAC_APP = ''mac''"

record window =
  win_id :: string
  win_tabs :: tabs
  win_lead :: "dock option"
  win_ws :: "string option"

definition new_window :: "string \<Rightarrow> window" where
  "new_window i = \<lparr>win_id = i, win_tabs = default_tabs, win_lead = None, win_ws = None\<rparr>"

definition leads :: "window \<Rightarrow> string \<Rightarrow> bool" where
  "leads w p = (case win_lead w of Some d \<Rightarrow> dk_pane d = p | None \<Rightarrow> False)"

datatype place = Desk string | Shelf | Planner string | Quiz string

fun place_json :: "place \<Rightarrow> json" where
  "place_json (Desk app) = JObject [(''desk'', JString app)]"
| "place_json Shelf = JString ''shelf''"
| "place_json (Planner app) = JObject [(''planner'', JString app)]"
| "place_json (Quiz app) = JObject [(''quiz'', JString app)]"

definition place_read :: "json option \<Rightarrow> place option" where
  "place_read v =
     (case v of
        Some (JString s) \<Rightarrow> if s = ''shelf'' then Some Shelf else None
      | Some (JObject fs) \<Rightarrow>
          or_else (map_option Desk (json_string (JObject fs) ''desk''))
            (or_else (map_option Planner (json_string (JObject fs) ''planner''))
               (map_option Quiz (json_string (JObject fs) ''quiz'')))
      | _ \<Rightarrow> None)"

definition place_upgrade :: "json \<Rightarrow> json" where
  "place_upgrade v =
     (case v of
        JString s \<Rightarrow> (if s = ''shelf'' then JObject [(''desk'', JString MAC_APP)]
                     else if s = ''backlog'' then JString ''shelf'' else v)
      | JObject fs \<Rightarrow> (case map_of fs ''shelf'' of
          Some s \<Rightarrow> JObject [(''desk'', s)]
        | None \<Rightarrow> (if map_of fs ''desk'' \<noteq> None then JObject [(''desk'', JString MAC_APP)] else v))
      | _ \<Rightarrow> v)"

fun place_app :: "place \<Rightarrow> string option" where
  "place_app (Desk app) = Some app"
| "place_app (Planner app) = Some app"
| "place_app (Quiz app) = Some app"
| "place_app Shelf = None"

record workspace =
  ws_id :: string
  ws_dock :: dock
  ws_tabs :: tabs
  ws_place :: place
  ws_left_at :: "rat option"
  ws_background :: "string list"

definition new_ws :: "string \<Rightarrow> dock \<Rightarrow> place \<Rightarrow> workspace" where
  "new_ws i d p = \<lparr>ws_id = i, ws_dock = d, ws_tabs = default_tabs, ws_place = p, ws_left_at = None, ws_background = []\<rparr>"

definition is_task :: "workspace \<Rightarrow> bool" where
  "is_task ws = (case ws_place ws of Planner _ \<Rightarrow> False | Quiz _ \<Rightarrow> False | _ \<Rightarrow> True)"

definition ws_summary :: "workspace \<Rightarrow> obj" where
  "ws_summary ws = [(''id'', JString (ws_id ws)), (''where'', place_json (ws_place ws))]"

record desk_window =
  dw_id :: string
  dw_planner :: "string option"
  dw_shows :: "string option"
  dw_project :: "string option"

datatype holder = HWindow nat | HWorkspace nat

record location =
  loc_holder :: holder
  loc_tab :: nat
  loc_parent :: "nat list option"
  loc_index :: nat

record model =
  m_windows :: "window list"
  m_workspaces :: "workspace list"
  tab_counter :: nat
  win_counter :: nat
  ws_counter :: nat
  m_orphans :: "tabs list"
  m_desks :: "desk_window list"

definition empty_model :: model where
  "empty_model = \<lparr>m_windows = [], m_workspaces = [], tab_counter = 0, win_counter = 0, ws_counter = 0,
     m_orphans = [], m_desks = []\<rparr>"

subsection \<open>Errors and replies\<close>

definition dq :: "string \<Rightarrow> string" where
  "dq s = [quote] @ s @ [quote]"

abbreviation not_found :: "string \<Rightarrow> kmux_error" where
  "not_found m \<equiv> kmux_err ''not_found'' m"

abbreviation bad_request :: "string \<Rightarrow> kmux_error" where
  "bad_request m \<equiv> kmux_err ''bad_request'' m"

abbreviation layout_invalid :: "string \<Rightarrow> kmux_error" where
  "layout_invalid m \<equiv> kmux_err ''layout_invalid'' m"

definition docked :: "string \<Rightarrow> kmux_error" where
  "docked m = kmux_err ''docked'' (''docked: '' @ m)"

definition frozen :: "string \<Rightarrow> kmux_error" where
  "frozen m = kmux_err ''frozen'' (''frozen: '' @ m)"

definition ok_or :: "kmux_error \<Rightarrow> 'a option \<Rightarrow> kmux_error + 'a" where
  "ok_or e x = (case x of Some v \<Rightarrow> Inr v | None \<Rightarrow> Inl e)"

text \<open>\<open>fraction\<close> reads an argument as a fraction; the text of its error, which prints the value as
  Swift would, is cut to its fixed part.\<close>

definition fraction :: "json \<Rightarrow> kmux_error + rat" where
  "fraction v = ok_or (bad_request ''is not a fraction'') (fraction_parse v)"

definition window_number :: "string \<Rightarrow> nat" where
  "window_number i = (case Option.bind (strip_prefix ''win-'' i) parse_usize of Some n \<Rightarrow> n | None \<Rightarrow> 2 ^ 64 - 1)"

subsection \<open>Looking things up\<close>

definition find_window :: "model \<Rightarrow> string \<Rightarrow> window option" where
  "find_window m i = List.find (\<lambda>w. win_id w = i) (m_windows m)"

definition window_index :: "model \<Rightarrow> string \<Rightarrow> nat option" where
  "window_index m i = position (\<lambda>w. win_id w = i) (m_windows m)"

definition ws_index :: "model \<Rightarrow> string \<Rightarrow> nat option" where
  "ws_index m i = position (\<lambda>s. ws_id s = i) (m_workspaces m)"

definition sorted_windows :: "model \<Rightarrow> nat list" where
  "sorted_windows m = sort_key (\<lambda>w. window_number (win_id (m_windows m ! w))) [0..<length (m_windows m)]"

fun tabs_of :: "model \<Rightarrow> holder \<Rightarrow> tabs" where
  "tabs_of m (HWindow w) = win_tabs (m_windows m ! w)"
| "tabs_of m (HWorkspace s) = ws_tabs (m_workspaces m ! s)"

definition upd_window :: "nat \<Rightarrow> (window \<Rightarrow> window) \<Rightarrow> model \<Rightarrow> model" where
  "upd_window w f m = m\<lparr>m_windows := (m_windows m)[w := f (m_windows m ! w)]\<rparr>"

definition upd_ws :: "nat \<Rightarrow> (workspace \<Rightarrow> workspace) \<Rightarrow> model \<Rightarrow> model" where
  "upd_ws s f m = m\<lparr>m_workspaces := (m_workspaces m)[s := f (m_workspaces m ! s)]\<rparr>"

text \<open>What \<open>tabs_mut\<close> lets the code do: change the tabs of one holder.\<close>

fun upd_tabs :: "holder \<Rightarrow> (tabs \<Rightarrow> tabs) \<Rightarrow> model \<Rightarrow> model" where
  "upd_tabs (HWindow w) f m = upd_window w (\<lambda>x. x\<lparr>win_tabs := f (win_tabs x)\<rparr>) m"
| "upd_tabs (HWorkspace s) f m = upd_ws s (\<lambda>x. x\<lparr>ws_tabs := f (ws_tabs x)\<rparr>) m"

definition holders :: "model \<Rightarrow> holder list" where
  "holders m = map HWindow [0..<length (m_windows m)] @ map HWorkspace [0..<length (m_workspaces m)]"

definition locate :: "model \<Rightarrow> string \<Rightarrow> location option" where
  "locate m p =
     find_map (\<lambda>h. map_option (\<lambda>(t, parent, i). \<lparr>loc_holder = h, loc_tab = t, loc_parent = parent, loc_index = i\<rparr>)
       (tabs_locate (tabs_of m h) p)) (holders m)"

definition tab_index :: "model \<Rightarrow> string \<Rightarrow> (holder \<times> nat) option" where
  "tab_index m i = find_map (\<lambda>h. map_option (\<lambda>t. (h, t)) (tabs_position (tabs_of m h) i)) (holders m)"

definition find_tab :: "model \<Rightarrow> string \<Rightarrow> tab option" where
  "find_tab m i = map_option (\<lambda>(h, t). ts_tabs (tabs_of m h) ! t) (tab_index m i)"

definition dock_ws :: "model \<Rightarrow> string \<Rightarrow> nat option" where
  "dock_ws m p = position (\<lambda>s. dk_pane (ws_dock s) = p) (m_workspaces m)"

definition background_ws :: "model \<Rightarrow> string \<Rightarrow> nat option" where
  "background_ws m p = position (\<lambda>s. p \<in> set (ws_background s)) (m_workspaces m)"

definition pane_label :: "panes \<Rightarrow> string \<Rightarrow> string" where
  "pane_label ps p = (case panes_get ps p of Some q \<Rightarrow> label q | None \<Rightarrow> p)"

definition refuse_background :: "model \<Rightarrow> string \<Rightarrow> panes \<Rightarrow> kmux_error + unit" where
  "refuse_background m p ps =
     (case background_ws m p of
        Some s \<Rightarrow> Inl (kmux_err ''background'' (pane_label ps p @ '' is in '' @ ws_id (m_workspaces m ! s) @
          '''s background, in no tab: show it with `kanna move '' @ display ps p @ '' --tab`''))
      | None \<Rightarrow> Inr ())"

definition lead_window :: "model \<Rightarrow> string \<Rightarrow> nat option" where
  "lead_window m p = position (\<lambda>w. leads w p) (m_windows m)"

definition holder_of :: "model \<Rightarrow> string \<Rightarrow> holder option" where
  "holder_of m p =
     or_else (map_option loc_holder (locate m p))
       (or_else (map_option HWorkspace (dock_ws m p)) (map_option HWindow (lead_window m p)))"

fun ws_of :: "model \<Rightarrow> holder \<Rightarrow> nat option" where
  "ws_of m (HWorkspace s) = Some s"
| "ws_of m (HWindow w) = Option.bind (win_ws (m_windows m ! w)) (ws_index m)"

fun window_of :: "holder \<Rightarrow> nat option" where
  "window_of (HWindow w) = Some w" | "window_of (HWorkspace s) = None"

fun side :: "model \<Rightarrow> holder \<Rightarrow> string option" where
  "side m (HWindow w) = map_option dk_pane (win_lead (m_windows m ! w))"
| "side m (HWorkspace s) = Some (dk_pane (ws_dock (m_workspaces m ! s)))"

definition window_placed :: "window \<Rightarrow> string list" where
  "window_placed w = tabs_panes (win_tabs w) @ (case win_lead w of Some d \<Rightarrow> [dk_pane d] | None \<Rightarrow> [])"

definition ws_placed :: "workspace \<Rightarrow> string list" where
  "ws_placed s = dk_pane (ws_dock s) # tabs_panes (ws_tabs s) @ ws_background s"

definition placed :: "model \<Rightarrow> string list" where
  "placed m = concat (map window_placed (m_windows m)) @ concat (map ws_placed (m_workspaces m))"

definition workspace_panes :: "model \<Rightarrow> nat \<Rightarrow> string list" where
  "workspace_panes m s =
     (let ws = m_workspaces m ! s;
          own = concat (map (\<lambda>w. tabs_panes (win_tabs w)) (filter (\<lambda>w. win_ws w = Some (ws_id ws)) (m_windows m)))
      in tabs_panes (ws_tabs ws) @ own @ [dk_pane (ws_dock ws)])"

definition workspace_windows :: "model \<Rightarrow> string \<Rightarrow> window list" where
  "workspace_windows m i = filter (\<lambda>w. win_ws w = Some i) (m_windows m)"

fun find_size :: "node \<Rightarrow> string \<Rightarrow> rat \<Rightarrow> rat \<Rightarrow> (rat \<times> rat) option" where
  "find_size (Pane q) p w h = (if q = p then Some (w, h) else None)"
| "find_size (Split a ks) p w h =
     find_map (\<lambda>(n, s). case a of Row \<Rightarrow> find_size n p (w * s) h | Column \<Rightarrow> find_size n p w (h * s)) ks"

definition wide :: "model \<Rightarrow> holder \<Rightarrow> nat \<Rightarrow> string \<Rightarrow> bool" where
  "wide m h t p =
     (let width = (if side m h \<noteq> None then WINDOW_ASPECT * (1 - DOCK_WIDTH) else WINDOW_ASPECT)
      in case Option.bind (tab_root (ts_tabs (tabs_of m h) ! t)) (\<lambda>r. find_size r p width 1) of
           None \<Rightarrow> True
         | Some (w, h) \<Rightarrow> w \<ge> h)"

subsection \<open>Making windows, workspaces and tabs\<close>

definition new_workspace :: "dock \<Rightarrow> place \<Rightarrow> model \<Rightarrow> model \<times> workspace" where
  "new_workspace d p m =
     (let m = m\<lparr>ws_counter := ws_counter m + 1\<rparr> in (m, new_ws (''ws-'' @ dec (ws_counter m)) d p))"

definition make_window :: "model \<Rightarrow> model \<times> nat" where
  "make_window m =
     (let m = m\<lparr>win_counter := win_counter m + 1\<rparr>;
          m = m\<lparr>m_windows := m_windows m @ [new_window (''win-'' @ dec (win_counter m))]\<rparr>
      in (m, length (m_windows m) - 1))"

definition window_for :: "nat option \<Rightarrow> model \<Rightarrow> model \<times> nat" where
  "window_for ws m =
     (let wsid = (case ws of Some s \<Rightarrow> if is_task (m_workspaces m ! s) then Some (ws_id (m_workspaces m ! s)) else None
                  | None \<Rightarrow> None);
          (m, w) = make_window m
      in (upd_window w (\<lambda>x. x\<lparr>win_ws := wsid\<rparr>) m, w))"

definition add_tab :: "string \<Rightarrow> bool \<Rightarrow> tabs \<Rightarrow> tabs" where
  "add_tab i activate ts =
     (let ts = ts\<lparr>ts_count := ts_count ts + 1\<rparr>;
          tb = new_tab i (ts_count ts);
          ts = (if activate \<or> ts_active ts = None then ts\<lparr>ts_active := Some i\<rparr> else ts)
      in ts\<lparr>ts_tabs := ts_tabs ts @ [tb]\<rparr>)"

definition make_tab :: "holder \<Rightarrow> bool \<Rightarrow> model \<Rightarrow> model \<times> nat" where
  "make_tab h activate m =
     (let m = m\<lparr>tab_counter := tab_counter m + 1\<rparr>;
          m = upd_tabs h (add_tab (''tab-'' @ dec (tab_counter m)) activate) m
      in (m, length (ts_tabs (tabs_of m h)) - 1))"

definition frozen_dock :: "model \<Rightarrow> string \<Rightarrow> workspace option" where
  "frozen_dock m p = List.find (\<lambda>s. dk_pane (ws_dock s) = p \<and> dk_frozen (ws_dock s)) (m_workspaces m)"

definition refuse_frozen_pane :: "model \<Rightarrow> string \<Rightarrow> panes \<Rightarrow> kmux_error + unit" where
  "refuse_frozen_pane m p ps =
     (case frozen_dock m p of
        Some ws \<Rightarrow> Inl (frozen (pane_label ps p @ '' is frozen in '' @ ws_id ws @ '''s dock; nothing drops on it''))
      | None \<Rightarrow> Inr ())"

definition dock_view :: "model \<Rightarrow> nat \<Rightarrow> panes \<Rightarrow> json" where
  "dock_view m s ps =
     (let d = ws_dock (m_workspaces m ! s);
          view = [(''pane'', JString (display ps (dk_pane d))), (''edge'', JString (edge_str (dk_edge d))),
                  (''width'', JString (fraction_format (dk_width d)))]
      in JObject (if dk_frozen d then oinsert ''frozen'' (JBool True) view else view))"

subsection \<open>Taking panes out\<close>

text \<open>
  \<open>dissolve\<close>: the workspace goes, its windows are free, and its background panes become tabs beside
  the others.
\<close>

fun background_tabs :: "string list \<Rightarrow> nat \<Rightarrow> tabs \<Rightarrow> nat \<times> tabs" where
  "background_tabs [] n ts = (n, ts)"
| "background_tabs (p # ps) n ts =
     (let n = n + 1;
          ts = ts\<lparr>ts_count := ts_count ts + 1\<rparr>;
          tb = (new_tab (''tab-'' @ dec n) (ts_count ts))\<lparr>tab_root := Some (Pane p)\<rparr>
      in background_tabs ps n (ts\<lparr>ts_tabs := ts_tabs ts @ [tb]\<rparr>))"

definition dissolve :: "nat \<Rightarrow> model \<Rightarrow> model" where
  "dissolve s m =
     (let ws = m_workspaces m ! s;
          m = m\<lparr>m_workspaces := remove_at s (m_workspaces m),
                m_windows := map (\<lambda>w. if win_ws w = Some (ws_id ws) then w\<lparr>win_ws := None\<rparr> else w) (m_windows m)\<rparr>;
          (n, ts) = background_tabs (ws_background ws) (tab_counter m) (ws_tabs ws)
      in m\<lparr>tab_counter := n, m_orphans := m_orphans m @ [ts]\<rparr>)"

fun remove_orphan :: "string \<Rightarrow> tabs list \<Rightarrow> tabs list" where
  "remove_orphan p [] = []"
| "remove_orphan p (ts # rest) =
     (let (ts', found) = tabs_remove p ts in if found then ts' # rest else ts' # remove_orphan p rest)"

definition detach :: "string \<Rightarrow> model \<Rightarrow> model" where
  "detach p m =
     (case background_ws m p of
        Some s \<Rightarrow> upd_ws s (\<lambda>x. x\<lparr>ws_background := filter (\<lambda>q. q \<noteq> p) (ws_background x)\<rparr>) m
      | None \<Rightarrow> (case lead_window m p of
          Some w \<Rightarrow> upd_window w (\<lambda>x. x\<lparr>win_lead := None\<rparr>) m
        | None \<Rightarrow> (case dock_ws m p of
            Some s \<Rightarrow> dissolve s m
          | None \<Rightarrow> (case locate m p of
              Some l \<Rightarrow> upd_tabs (loc_holder l) (\<lambda>ts. fst (tabs_remove p ts)) m
            | None \<Rightarrow> m\<lparr>m_orphans := remove_orphan p (m_orphans m)\<rparr>))))"

fun put :: "location option \<Rightarrow> nat option \<Rightarrow> string \<Rightarrow> model \<Rightarrow> model" where
  "put (Some l) d p m = upd_tabs (loc_holder l) (tabs_set_at (loc_tab l) (loc_parent l) (loc_index l) p) m"
| "put None (Some s) p m = upd_ws s (\<lambda>x. x\<lparr>ws_dock := (ws_dock x)\<lparr>dk_pane := p\<rparr>\<rparr>) m"
| "put None None p m = m"

definition swap :: "string \<Rightarrow> string \<Rightarrow> model \<Rightarrow> model" where
  "swap a b m =
     (let la = locate m a; lb = locate m b; da = dock_ws m a; db = dock_ws m b
      in if (la = None \<and> da = None) \<or> (lb = None \<and> db = None) then m
         else put lb db a (put la da b m))"

subsection \<open>Dropping what is empty\<close>

definition free_windows :: "model \<Rightarrow> model" where
  "free_windows m =
     m\<lparr>m_windows := map (\<lambda>w. case win_ws w of Some i \<Rightarrow> if ws_index m i = None then w\<lparr>win_ws := None\<rparr> else w
                          | None \<Rightarrow> w) (m_windows m)\<rparr>"

definition settle_holder :: "model \<Rightarrow> holder \<Rightarrow> model" where
  "settle_holder m h = upd_tabs h (\<lambda>ts. settle_focus (side m h) (tabs_tidy ts)) m"

definition house_orphan :: "model \<Rightarrow> tabs \<Rightarrow> model" where
  "house_orphan m ts =
     (let ts = tabs_tidy ts
      in if ts_tabs ts = [] then m
         else (let (m, w) = make_window m
               in upd_window w (\<lambda>x. x\<lparr>win_tabs := settle_focus None
                    (ts\<lparr>ts_count := length (ts_tabs ts), ts_zoom := False\<rparr>)\<rparr>) m))"

definition drop_empty :: "model \<Rightarrow> model" where
  "drop_empty m =
     (let m = free_windows m;
          m = foldl settle_holder m (holders m);
          m = m\<lparr>m_windows := filter (\<lambda>w. ts_tabs (win_tabs w) \<noteq> [] \<or> win_lead w \<noteq> None) (m_windows m)\<rparr>;
          orphans = m_orphans m
      in foldl house_orphan (m\<lparr>m_orphans := []\<rparr>) orphans)"

end
