(* ===== verification/Mux_Commands.thy ===== *)
theory Mux_Commands
  imports Mux_Model
begin

text \<open>
  The commands of the layout model: the handlers of \<open>kanna-mux/src/model.rs\<close> (focus, zoom,
  rename-tab, move, move-tab, resize, arrange, window, desks), the task commands of \<open>desk.rs\<close>, and
  placing, closing and listing panes (\<open>impl LayoutHost for Model\<close>). Arguments and replies are JSON.
  The clock (\<open>desk.rs\<close>'s \<open>now\<close>) and \<open>shlex::split\<close> are arguments. Where the code unwraps an
  \<open>Option\<close> that can be \<open>None\<close> the model's result is the error \<open>panic\<close>.
\<close>

type_synonym 'a res = "kmux_error + 'a"

definition panic :: kmux_error where
  "panic = kmux_err ''panic'' ''called unwrap on a None value''"

abbreviation (input) arg :: "json \<Rightarrow> string \<Rightarrow> string option" where
  "arg args k \<equiv> json_string args k"

abbreviation (input) has :: "json \<Rightarrow> string \<Rightarrow> bool" where
  "has args k \<equiv> jget args k \<noteq> None"

definition or_empty :: "string option \<Rightarrow> string" where
  "or_empty s = (case s of Some x \<Rightarrow> x | None \<Rightarrow> [])"

subsection \<open>Resolving references\<close>

definition target_window :: "string option \<Rightarrow> model \<Rightarrow> model \<times> nat res" where
  "target_window reference m =
     (case reference of
        None \<Rightarrow>
          (if length (m_windows m) = 0 then (let (m, w) = make_window m in (m, Inr w))
           else if length (m_windows m) = 1 then (m, Inr 0)
           else (m, Inl (bad_request ''there are several windows: say which with --window WINDOW (or --window new)'')))
      | Some i \<Rightarrow>
          (if i = ''new'' then (let (m, w) = make_window m in (m, Inr w))
           else (m, ok_or (not_found (''no window '' @ dq i)) (window_index m i))))"

definition workspace_holder :: "string \<Rightarrow> model \<Rightarrow> holder res" where
  "workspace_holder reference m =
     ok_or (not_found (''no workspace '' @ dq reference)) (map_option HWorkspace (ws_index m reference))"

definition desk_workspace :: "string \<Rightarrow> model \<Rightarrow> nat option" where
  "desk_workspace reference m =
     Option.bind (List.find (\<lambda>d. dw_id d = reference) (m_desks m))
       (\<lambda>d. Option.bind (or_else (dw_shows d) (dw_planner d)) (ws_index m))"

definition window_holder :: "string option \<Rightarrow> model \<Rightarrow> model \<times> holder res" where
  "window_holder reference m =
     (case Option.bind reference (\<lambda>r. desk_workspace r m) of
        Some s \<Rightarrow> (m, Inr (HWorkspace s))
      | None \<Rightarrow> (case target_window reference m of (m, Inl e) \<Rightarrow> (m, Inl e) | (m, Inr w) \<Rightarrow> (m, Inr (HWindow w))))"

definition desk_of :: "nat \<Rightarrow> model \<Rightarrow> string option" where
  "desk_of s m =
     (let i = ws_id (m_workspaces m ! s)
      in map_option dw_id (or_else (List.find (\<lambda>d. dw_shows d = Some i) (m_desks m))
           (List.find (\<lambda>d. dw_planner d = Some i) (m_desks m))))"

definition read_desk :: "json \<Rightarrow> desk_window option" where
  "read_desk d =
     Option.bind (json_string d ''id'') (\<lambda>i. Some \<lparr>dw_id = i, dw_planner = json_string d ''planner'',
       dw_shows = json_string d ''shows'', dw_project = json_string d ''project''\<rparr>)"

definition set_desks :: "json \<Rightarrow> model \<Rightarrow> model \<times> obj res" where
  "set_desks args m =
     (case Option.bind (jget args ''desks'') as_array of
        None \<Rightarrow> (m, Inl (bad_request ''desks needs a list of desks''))
      | Some list \<Rightarrow>
          (let m = m\<lparr>m_desks := List.map_filter read_desk list\<rparr>
           in (m, Inr [(''desks'', num_nat (length (m_desks m)))])))"

definition desk_rows :: "model \<Rightarrow> json" where
  "desk_rows m = JArray (map (\<lambda>d.
     let ws = (case or_else (dw_shows d) (dw_planner d) of Some i \<Rightarrow> if ws_index m i \<noteq> None then Some i else None | None \<Rightarrow> None)
     in JObject [(''id'', JString (dw_id d)), (''desk'', JBool True), (''workspace'', opt_json ws),
          (''planner'', opt_json (dw_planner d)), (''deskView'', JBool (dw_shows d = None)), (''project'', opt_json (dw_project d))])
     (m_desks m))"

definition need_tab :: "string option \<Rightarrow> model \<Rightarrow> (holder \<times> nat) res" where
  "need_tab reference m =
     ok_or (not_found (''no tab '' @ dq (or_empty reference))) (Option.bind reference (tab_index m))"

definition focus_pane :: "string \<Rightarrow> model \<Rightarrow> model \<times> holder option" where
  "focus_pane p m = (case holder_of m p of None \<Rightarrow> (m, None) | Some h \<Rightarrow> (upd_tabs h (tabs_focus p) m, Some h))"

definition find_workspace :: "string \<Rightarrow> panes \<Rightarrow> model \<Rightarrow> nat option" where
  "find_workspace reference ps m =
     (case ws_index m reference of
        Some s \<Rightarrow> Some s
      | None \<Rightarrow> (case need ps (Some reference) of
          Inl e \<Rightarrow> None
        | Inr p \<Rightarrow> or_else (dock_ws m (pane_id p)) (or_else (background_ws m (pane_id p))
                     (Option.bind (holder_of m (pane_id p)) (ws_of m)))))"

subsection \<open>Replies\<close>

definition spot_of :: "holder \<Rightarrow> model \<Rightarrow> string option \<times> json" where
  "spot_of h m =
     (map_option (\<lambda>w. win_id (m_windows m ! w)) (window_of h),
      (case ws_of m h of
         None \<Rightarrow> Null
       | Some s \<Rightarrow> (let fields = ws_summary (m_workspaces m ! s)
                    in JObject (case desk_of s m of Some d \<Rightarrow> oinsert ''desk'' (JString d) fields | None \<Rightarrow> fields))))"

definition at_reply :: "holder \<Rightarrow> model \<Rightarrow> obj" where
  "at_reply h m =
     (let (window, ws) = spot_of h m; out = [(''window'', opt_json window)]
      in if ws \<noteq> Null then oinsert ''workspace'' ws out else out)"

fun tree :: "panes \<Rightarrow> rat option \<Rightarrow> node \<Rightarrow> json" where
  "tree ps sz (Pane i) =
     JObject ([(''pane'', JString (display ps i))] @
       (case sz of Some s \<Rightarrow> if s < 1 - 1 / 10 ^ 6 then [(''size'', JString (fraction_format s))] else [] | None \<Rightarrow> []))"
| "tree ps sz (Split a ks) =
     JObject ([(''split'', JString (axis_str a)), (''children'', JArray (map (\<lambda>(n, s). tree ps (Some s) n) ks))] @
       (case sz of Some s \<Rightarrow> if s < 1 - 1 / 10 ^ 6 then [(''size'', JString (fraction_format s))] else [] | None \<Rightarrow> []))"

definition root_tree :: "panes \<Rightarrow> node option \<Rightarrow> json" where
  "root_tree ps r = (case r of None \<Rightarrow> Null | Some n \<Rightarrow> tree ps None n)"

definition tab_tree :: "string \<Rightarrow> panes \<Rightarrow> model \<Rightarrow> json" where
  "tab_tree i ps m = (case find_tab m i of None \<Rightarrow> Null | Some t \<Rightarrow> root_tree ps (tab_root t))"

definition moved_reply :: "string \<Rightarrow> panes \<Rightarrow> model \<Rightarrow> obj" where
  "moved_reply p ps m =
     (case dock_ws m p of
        Some s \<Rightarrow> oinsert ''dock'' (dock_view m s ps) (at_reply (HWorkspace s) m)
      | None \<Rightarrow> (case locate m p of
          None \<Rightarrow> []
        | Some l \<Rightarrow> (let tb = ts_tabs (tabs_of m (loc_holder l)) ! loc_tab l
                     in oinsert ''layout'' (root_tree ps (tab_root tb))
                          (oinsert ''tab'' (JString (tab_id tb)) (at_reply (loc_holder l) m)))))"

subsection \<open>Focus, zoom, titles\<close>

definition focus_cmd :: "json \<Rightarrow> panes \<Rightarrow> model \<Rightarrow> model \<times> obj res" where
  "focus_cmd args ps m =
     (case arg args ''pane'' of
        Some reference \<Rightarrow> (case need ps (Some reference) of
          Inl e \<Rightarrow> (m, Inl e)
        | Inr q \<Rightarrow> (let p = pane_id q in case refuse_background m p ps of
            Inl e \<Rightarrow> (m, Inl e)
          | Inr _ \<Rightarrow> (case focus_pane p m of
              (m, Some h) \<Rightarrow> (m, Inr (at_reply h m))
            | (m, None) \<Rightarrow> (m, Inr [(''window'', Null)]))))
      | None \<Rightarrow> (case arg args ''tab'' of
          Some reference \<Rightarrow> (case tab_index m reference of
            None \<Rightarrow> (m, Inl (not_found (''no tab '' @ dq reference)))
          | Some (h, t) \<Rightarrow>
              (let sd = side m h; ts = tabs_of m h;
                   m = (if arg args ''keep'' = Some ''dock'' \<and> ts_focused ts \<noteq> None \<and> ts_focused ts = sd
                        then upd_tabs h (\<lambda>ts. ts\<lparr>ts_active := Some (tab_id (ts_tabs ts ! t))\<rparr>) m
                        else upd_tabs h (tabs_show t) m)
               in (m, Inr (at_reply h m))))
        | None \<Rightarrow>
            (if has args ''window''
             then (case window_holder (arg args ''window'') m of
                     (m, Inl e) \<Rightarrow> (m, Inl e) | (m, Inr h) \<Rightarrow> (m, Inr (at_reply h m)))
             else (m, Inl (bad_request ''focus needs a pane, tab or window'')))))"

definition zoom_cmd :: "json \<Rightarrow> panes \<Rightarrow> model \<Rightarrow> model \<times> obj res" where
  "zoom_cmd args ps m =
     (case need ps (arg args ''pane'') of
        Inl e \<Rightarrow> (m, Inl e)
      | Inr q \<Rightarrow> (let p = pane_id q in case refuse_background m p ps of
          Inl e \<Rightarrow> (m, Inl e)
        | Inr _ \<Rightarrow> (case holder_of m p of
            None \<Rightarrow> (m, Inl (not_found (''no pane '' @ dq p)))
          | Some h \<Rightarrow>
              (let was = (zoomed (tabs_of m h) = Some p);
                   m = fst (focus_pane p m);
                   m = upd_tabs h (\<lambda>ts. ts\<lparr>ts_zoom := \<not> was\<rparr>) m
               in (m, Inr (oinsert ''zoomed'' (JBool (\<not> was)) (at_reply h m)))))))"

definition rename_tab_cmd :: "json \<Rightarrow> model \<Rightarrow> model \<times> obj res" where
  "rename_tab_cmd args m =
     (let reference = or_empty (arg args ''tab'') in case tab_index m reference of
        None \<Rightarrow> (m, Inl (not_found (''no tab '' @ dq reference)))
      | Some (h, t) \<Rightarrow>
          (let title = json_trim (or_empty (arg args ''title''))
           in if title = [] then (m, Inl (bad_request ''a tab title cannot be empty''))
              else (let m = upd_tabs h (upd_tab t (tab_rename title)) m
                    in (m, Inr [(''tab'', JString (tab_id (ts_tabs (tabs_of m h) ! t))), (''title'', JString title)]))))"

subsection \<open>Moving panes and tabs\<close>

definition to_background :: "string \<Rightarrow> holder \<Rightarrow> panes \<Rightarrow> model \<Rightarrow> model \<times> obj res" where
  "to_background p from ps m =
     (if dock_ws m p \<noteq> None
      then (m, Inl (docked (display ps p @ '' is its task's agent, which stays in its dock'')))
      else (case ws_of m from of
        None \<Rightarrow> (m, Inl (kmux_err ''not_a_task'' (display ps p @ '' is in no task's workspace, and only a task's workspace has a background'')))
      | Some s \<Rightarrow>
          (if \<not> is_task (m_workspaces m ! s)
           then (m, Inl (kmux_err ''not_a_task'' (display ps p @ '' is in no task's workspace, and only a task's workspace has a background'')))
           else (let m = (if background_ws m p = None
                          then drop_empty (upd_ws s (\<lambda>x. x\<lparr>ws_background := ws_background x @ [p]\<rparr>) (detach p m))
                          else m);
                     s = (case background_ws m p of Some s \<Rightarrow> s | None \<Rightarrow> s)
                 in (m, Inr (oinsert ''background'' (JBool True)
                       (oinsert ''pane'' (JString (display ps p)) (at_reply (HWorkspace s) m))))))))"

definition finish_move :: "string \<Rightarrow> panes \<Rightarrow> model \<Rightarrow> model \<times> obj res" where
  "finish_move p ps m = (let m = drop_empty (fst (focus_pane p m)) in (m, Inr (moved_reply p ps m)))"

definition move_to_dock :: "string \<Rightarrow> edge \<Rightarrow> json \<Rightarrow> panes \<Rightarrow> model \<Rightarrow> model \<times> obj res" where
  "move_to_dock p e args ps m =
     (if has args ''to'' \<or> has args ''tab'' \<or> has args ''window''
      then (m, Inl (bad_request ''move --dock takes no to, tab or window: a task's agent stays in its workspace''))
      else (case dock_ws m p of
        Some s \<Rightarrow>
          (if is_task (m_workspaces m ! s)
           then (let m = upd_ws s (\<lambda>x. x\<lparr>ws_dock := (ws_dock x)\<lparr>dk_edge := e\<rparr>\<rparr>) m; m = fst (focus_pane p m)
                 in (m, Inr (moved_reply p ps m)))
           else (m, Inl (kmux_err ''not_a_task'' (display ps p @ '' isn't a task, and only a task's agent docks: start one with `kanna task new` and `kanna task start`''))))
      | None \<Rightarrow> (m, Inl (kmux_err ''not_a_task'' (display ps p @ '' isn't a task, and only a task's agent docks: start one with `kanna task new` and `kanna task start`'')))))"

definition move_beside :: "string \<Rightarrow> holder \<Rightarrow> string \<Rightarrow> json \<Rightarrow> panes \<Rightarrow> model \<Rightarrow> model \<times> obj res" where
  "move_beside p from reference args ps m =
     (case need ps (Some reference) of
        Inl e \<Rightarrow> (m, Inl e)
      | Inr q \<Rightarrow>
          (let target = pane_id q; lbl = label q;
               sd = (case arg args ''side'' of Some s \<Rightarrow> s | None \<Rightarrow> ''swap'')
           in if sd \<notin> {''left'', ''right'', ''top'', ''bottom'', ''swap''}
              then (m, Inl (bad_request ''side must be left, right, top, bottom or swap''))
              else if target = p then (m, Inr (at_reply from m))
              else (case refuse_frozen_pane m target ps of
                Inl e \<Rightarrow> (m, Inl e)
              | Inr _ \<Rightarrow> (case refuse_background m target ps of
                  Inl e \<Rightarrow> (m, Inl e)
                | Inr _ \<Rightarrow>
                    if lead_window m target \<noteq> None
                    then (m, Inl (kmux_err ''lead'' (lbl @ '' is its window's lead; nothing drops on it'')))
                    else if sd \<noteq> ''swap'' \<and> dock_ws m target \<noteq> None
                    then (m, Inl (docked (lbl @ '' is docked and holds one pane; drop on its middle to swap'')))
                    else if sd = ''swap'' \<and> background_ws m p \<noteq> None
                    then (m, Inl (bad_request (display ps p @ '' is in its workspace's background, so it has no place to swap: give --side left, right, top or bottom'')))
                    else if sd = ''swap''
                    then finish_move p ps (upd_tabs from (\<lambda>ts. if ts_focused ts = Some p then ts\<lparr>ts_focused := Some target\<rparr> else ts) (swap p target m))
                    else (let m = detach p m in case locate m target of
                            None \<Rightarrow> (m, Inl (not_found (''no pane '' @ dq reference)))
                          | Some l \<Rightarrow>
                              finish_move p ps (upd_tabs (loc_holder l)
                                (tabs_insert (Pane p) target (loc_tab l) (if sd = ''left'' \<or> sd = ''right'' then Row else Column)
                                   (sd = ''right'' \<or> sd = ''bottom'') (1 / 2)) m))))))"

definition move_into :: "string \<Rightarrow> string \<Rightarrow> string option \<Rightarrow> obj \<Rightarrow> panes \<Rightarrow> model \<Rightarrow> model \<times> obj res" where
  "move_into p destination from_tab unmoved ps m =
     (if Some destination = from_tab then (m, Inr unmoved)
      else (let m = detach p m in case tab_index m destination of
              None \<Rightarrow> (m, Inl panic)
            | Some (h, t) \<Rightarrow> finish_move p ps (upd_tabs h (tabs_append p t) m)))"

definition move_holder :: "string \<Rightarrow> holder \<Rightarrow> json \<Rightarrow> model \<Rightarrow> model \<times> holder res" where
  "move_holder p from args m =
     (case arg args ''window'' of
        None \<Rightarrow>
          (if has args ''workspace'' then (m, workspace_holder (or_empty (arg args ''workspace'')) m)
           else if dock_ws m p \<noteq> None then (let (m, w) = make_window (detach p m) in (m, Inr (HWindow w)))
           else (m, Inr from))
      | Some w \<Rightarrow>
          (if w = ''new'' then (let (m, w) = window_for (ws_of m from) m in (m, Inr (HWindow w)))
           else (case target_window (Some w) m of (m, Inl e) \<Rightarrow> (m, Inl e) | (m, Inr w) \<Rightarrow> (m, Inr (HWindow w)))))"

definition move_pane_cmd :: "json \<Rightarrow> panes \<Rightarrow> model \<Rightarrow> model \<times> obj res" where
  "move_pane_cmd args ps m =
     (case need ps (arg args ''pane'') of
        Inl e \<Rightarrow> (m, Inl e)
      | Inr q \<Rightarrow>
          (let p = pane_id q
           in if lead_window m p \<noteq> None
              then (m, Inl (kmux_err ''lead'' (display ps p @ '' is its window's lead, which stays where it is'')))
              else if frozen_dock m p \<noteq> None
              then (m, Inl (frozen (pane_label ps p @ '' is frozen in its dock and doesn't move'')))
              else (case or_else (holder_of m p) (map_option HWorkspace (background_ws m p)) of
                None \<Rightarrow> (m, Inl (not_found (''no pane '' @ dq p)))
              | Some from \<Rightarrow>
                  if is_true args ''background''
                  then (if \<exists>k \<in> {''to'', ''tab'', ''window'', ''workspace'', ''dock''}. (case jget args k of Some v \<Rightarrow> v \<noteq> Null | None \<Rightarrow> False)
                        then (m, Inl (bad_request ''move --background goes on its own: it keeps the pane in its own task's workspace''))
                        else to_background p from ps m)
                  else (let unmoved = at_reply from m;
                            from_tab = map_option (\<lambda>l. tab_id (ts_tabs (tabs_of m (loc_holder l)) ! loc_tab l)) (locate m p)
                        in case edge_read (jget args ''dock'') of
                          Inl e \<Rightarrow> (m, Inl e)
                        | Inr (Some e) \<Rightarrow> move_to_dock p e args ps m
                        | Inr None \<Rightarrow> (case arg args ''to'' of
                            Some reference \<Rightarrow> move_beside p from reference args ps m
                          | None \<Rightarrow>
                              (let tb = arg args ''tab''
                               in if tb \<noteq> None \<and> tb \<noteq> Some ''new''
                                  then (case need_tab tb m of
                                          Inl e \<Rightarrow> (m, Inl e)
                                        | Inr (h, t) \<Rightarrow> move_into p (tab_id (ts_tabs (tabs_of m h) ! t)) from_tab unmoved ps m)
                                  else if tb = Some ''new'' \<or> has args ''window'' \<or> has args ''workspace''
                                  then (case move_holder p from args m of
                                          (m, Inl e) \<Rightarrow> (m, Inl e)
                                        | (m, Inr h) \<Rightarrow>
                                            (if tb = None \<and> (case locate m p of Some l \<Rightarrow> loc_holder l = h \<and> loc_parent l = None | None \<Rightarrow> False)
                                             then (m, Inr unmoved)
                                             else (let (m, t) = make_tab h True m
                                                   in move_into p (tab_id (ts_tabs (tabs_of m h) ! t)) from_tab unmoved ps m)))
                                  else (m, Inl (bad_request ''move needs to + side, tab, or window''))))))))"

definition tab_dest :: "holder \<Rightarrow> json \<Rightarrow> model \<Rightarrow> model \<times> holder res" where
  "tab_dest source args m =
     (case jget args ''window'' of
        None \<Rightarrow> (if has args ''workspace'' then (m, workspace_holder (or_empty (arg args ''workspace'')) m) else (m, Inr source))
      | Some w \<Rightarrow> (if as_str w = Some ''new'' then (let (m, x) = window_for (ws_of m source) m in (m, Inr (HWindow x)))
                   else window_holder (as_str w) m))"

definition read_index :: "json option \<Rightarrow> nat option res" where
  "read_index v =
     (case v of
        None \<Rightarrow> Inr None
      | Some w \<Rightarrow> (case as_f64 w of
          Some n \<Rightarrow> (if 0 \<le> n \<and> of_int (round_away n) = n then Inr (Some (nat \<lfloor>n\<rfloor>))
                     else Inl (bad_request ''index must be a whole number >= 0''))
        | None \<Rightarrow> Inl (bad_request ''index must be a whole number >= 0'')))"

definition move_tab_cmd :: "json \<Rightarrow> model \<Rightarrow> model \<times> obj res" where
  "move_tab_cmd args m =
     (case need_tab (arg args ''tab'') m of
        Inl e \<Rightarrow> (m, Inl e)
      | Inr (source, t) \<Rightarrow>
          (let i = tab_id (ts_tabs (tabs_of m source) ! t) in case tab_dest source args m of
             (m, Inl e) \<Rightarrow> (m, Inl e)
           | (m, Inr dest) \<Rightarrow> (case read_index (jget args ''index'') of
               Inl e \<Rightarrow> (m, Inl e)
             | Inr index \<Rightarrow>
                 (let moving = ts_tabs (tabs_of m source) ! t;
                      m = upd_tabs source (\<lambda>ts. ts\<lparr>ts_tabs := remove_at t (ts_tabs ts)\<rparr>) m;
                      index = (case index of Some n \<Rightarrow> n | None \<Rightarrow> length (ts_tabs (tabs_of m dest)) + (if source = dest then 1 else 0));
                      index = (if source = dest \<and> index > t then index - 1 else index);
                      m = upd_tabs dest (\<lambda>ts. ts\<lparr>ts_tabs := insert_at (min index (length (ts_tabs ts))) moving (ts_tabs ts)\<rparr>) m
                  in case tabs_position (tabs_of m dest) i of
                       None \<Rightarrow> (m, Inl panic)
                     | Some d \<Rightarrow>
                         (let m = drop_empty (upd_tabs dest (tabs_show d) m) in case tab_index m i of
                            None \<Rightarrow> (m, Inl panic)
                          | Some (h, _) \<Rightarrow>
                              (m, Inr (oinsert ''tabs'' (JArray (map (\<lambda>t. JString (tab_id t)) (ts_tabs (tabs_of m h)))) (at_reply h m))))))))"

subsection \<open>Sizes\<close>

fun divide :: "nat list \<Rightarrow> nat \<Rightarrow> rat \<Rightarrow> node \<Rightarrow> node res" where
  "divide [] index share (Split a ks) =
     (if index + 1 \<ge> length ks then Inl (bad_request ''no divider at that index'')
      else (let pair = snd (ks ! index) + snd (ks ! (index + 1))
            in if \<not> (0 < share \<and> share < pair) then Inl (bad_request ''the share must leave both panes some space'')
               else Inr (Split a (ks[index := (fst (ks ! index), share), index + 1 := (fst (ks ! (index + 1)), pair - share)]))))"
| "divide path index share (Pane p) = Inl (bad_request ''no split at that path'')"
| "divide (i # path) index share (Split a ks) =
     (if i < length ks
      then (case divide path index share (fst (ks ! i)) of
              Inl e \<Rightarrow> Inl e | Inr n \<Rightarrow> Inr (Split a (ks[i := (n, snd (ks ! i))])))
      else Inl (bad_request ''no split at that path''))"

definition set_divider :: "string \<Rightarrow> nat list \<Rightarrow> nat \<Rightarrow> rat \<Rightarrow> model \<Rightarrow> model \<times> unit res" where
  "set_divider tb path index share m =
     (case tab_index m tb of
        None \<Rightarrow> (m, Inl (not_found (''no tab '' @ dq tb)))
      | Some (h, t) \<Rightarrow> (case tab_root (ts_tabs (tabs_of m h) ! t) of
          None \<Rightarrow> (m, Inl (not_found (''tab '' @ dq tb @ '' is empty'')))
        | Some n \<Rightarrow> (case divide path index share n of
            Inl e \<Rightarrow> (m, Inl e)
          | Inr n' \<Rightarrow> (upd_tabs h (upd_tab t (\<lambda>x. x\<lparr>tab_root := Some n'\<rparr>)) m, Inr ()))))"

definition resize_kids :: "nat \<Rightarrow> rat \<Rightarrow> kids \<Rightarrow> kids" where
  "resize_kids index sz ks =
     (let old = snd (ks ! index); others = of_nat (length ks - 1)
      in map (\<lambda>(i, n, s). (n, if i = index then sz
           else if old < 1 - 1 / 10 ^ 9 then s * (1 - sz) / (1 - old) else (1 - sz) / others)) (enumerate 0 ks))"

definition resize_cmd :: "json \<Rightarrow> panes \<Rightarrow> model \<Rightarrow> model \<times> obj res" where
  "resize_cmd args ps m =
     (case arg args ''tab'' of
        Some tb \<Rightarrow>
          (let path = (case Option.bind (jget args ''path'') as_array of Some l \<Rightarrow> List.map_filter as_u64 l | None \<Rightarrow> [])
           in case Option.bind (jget args ''index'') as_u64 of
                None \<Rightarrow> (m, Inl (bad_request ''a divider needs its index''))
              | Some index \<Rightarrow> (case Option.bind (jget args ''share'') as_f64 of
                  None \<Rightarrow> (m, Inl (bad_request ''a divider needs a share''))
                | Some share \<Rightarrow> (case set_divider tb path index share m of
                    (m, Inl e) \<Rightarrow> (m, Inl e)
                  | (m, Inr _) \<Rightarrow> (m, Inr [(''tab'', JString tb), (''layout'', root_tree ps (Option.bind (find_tab m tb) tab_root))]))))
      | None \<Rightarrow> (case need ps (arg args ''pane'') of
          Inl e \<Rightarrow> (m, Inl e)
        | Inr q \<Rightarrow> (case fraction (case jget args ''size'' of Some v \<Rightarrow> v | None \<Rightarrow> Null) of
            Inl e \<Rightarrow> (m, Inl e)
          | Inr sz \<Rightarrow>
              (let p = pane_id q
               in if \<not> (0 < sz \<and> sz < 1) then (m, Inl (bad_request ''size must be a fraction between 0 and 1''))
                  else (case dock_ws m p of
                    Some s \<Rightarrow>
                      (let m = upd_ws s (\<lambda>x. x\<lparr>ws_dock := (ws_dock x)\<lparr>dk_width := sz\<rparr>\<rparr>) m
                       in (m, Inr (oinsert ''dock'' (dock_view m s ps) (at_reply (HWorkspace s) m))))
                  | None \<Rightarrow> (case lead_window m p of
                      Some w \<Rightarrow>
                        (let m = upd_window w (\<lambda>x. x\<lparr>win_lead := map_option (\<lambda>d. d\<lparr>dk_width := sz\<rparr>) (win_lead x)\<rparr>) m
                         in (m, Inr [(''window'', JString (win_id (m_windows m ! w))), (''width'', JString (fraction_format sz))]))
                    | None \<Rightarrow> (case locate m p of
                        None \<Rightarrow> (m, Inl (not_found (''no pane '' @ dq p)))
                      | Some l \<Rightarrow> (case loc_parent l of
                          None \<Rightarrow> (m, Inl (bad_request (label q @ '' fills its tab, so there is nothing to resize against'')))
                        | Some path \<Rightarrow>
                            (let m = upd_tabs (loc_holder l) (upd_tab (loc_tab l)
                                   (\<lambda>x. x\<lparr>tab_root := map_option (upd_split (resize_kids (loc_index l) sz) path) (tab_root x)\<rparr>)) m
                             in (m, Inr [(''layout'', root_tree ps (tab_root (ts_tabs (tabs_of m (loc_holder l)) ! loc_tab l)))])))))))))) "

end
