(* ===== verification/Mux_Layout.thy ===== *)
theory Mux_Layout
  imports Mux_Commands
begin

text \<open>
  The rest of \<open>impl LayoutHost for Model\<close> (\<open>kanna-mux/src/model.rs\<close>): arranging a tab from a JSON
  tree, assigning windows, placing and removing panes and the queries; the task commands of
  \<open>desk.rs\<close>, whose clock is the argument \<open>now\<close>; and the request language of \<open>layout.rs\<close>
  (\<open>placement\<close>, \<open>place_request\<close>, \<open>step\<close>, \<open>serve\<close>).
\<close>

subsection \<open>Arrange\<close>

text \<open>\<open>node.get("children").and_then(Value::as_array).filter(|c| !c.is_empty())\<close>\<close>

definition children_of :: "json \<Rightarrow> json list option" where
  "children_of v =
     (case Option.bind (jget v ''children'') as_array of
        Some (c # cs) \<Rightarrow> Some (c # cs) | _ \<Rightarrow> None)"

definition child_size :: "json \<Rightarrow> rat option res" where
  "child_size c =
     (case jget c ''size'' of
        None \<Rightarrow> Inr None
      | Some Null \<Rightarrow> Inr None
      | Some v \<Rightarrow> (case fraction v of
          Inl e \<Rightarrow> Inl e
        | Inr sz \<Rightarrow> (if \<not> (0 < sz \<and> sz \<le> 1) then Inl (layout_invalid ''sizes must be fractions between 0 and 1'')
                     else Inr (Some sz))))"

fun child_sizes :: "json list \<Rightarrow> rat option list res" where
  "child_sizes [] = Inr []"
| "child_sizes (c # cs) =
     (case child_size c of
        Inl e \<Rightarrow> Inl e
      | Inr sz \<Rightarrow> (case child_sizes cs of Inl e \<Rightarrow> Inl e | Inr szs \<Rightarrow> Inr (sz # szs)))"

definition given_size :: "rat option list \<Rightarrow> rat" where
  "given_size szs = sum_list (List.map_filter (\<lambda>s. s) szs)"

definition unsized_count :: "rat option list \<Rightarrow> nat" where
  "unsized_count szs = length (filter (\<lambda>s. s = None) szs)"

text \<open>The sizes of the children of one split, once the given ones are known.\<close>

definition share_sizes :: "axis \<Rightarrow> rat option list \<Rightarrow> rat list res" where
  "share_sizes a szs =
     (let given = given_size szs; n = unsized_count szs
      in if given > 1 + 1 / 10 ^ 9
         then Inl (layout_invalid (''sizes in a '' @ axis_str a @ '' add up to '' @ fraction_format given @ '', more than 1''))
         else if n > 0 \<and> given \<ge> 1 - 1 / 10 ^ 9
         then Inl (layout_invalid (''no space left for the unsized panes in a '' @ axis_str a))
         else (let fill = (if n > 0 then (1 - given) / of_nat n else 0);
                   scale = (if n > 0 then 1 else 1 / given)
               in Inr (map (\<lambda>s. (case s of Some x \<Rightarrow> x | None \<Rightarrow> fill) * scale) szs)))"

lemma size_list_map_of: "map_of fs k = Some v \<Longrightarrow> size (v :: json) < Suc (size_list (size_prod (\<lambda>x. 0) size) fs)"
  by (induction fs) (auto split: if_splits)

lemma as_array_SomeD: "as_array v = Some xs \<Longrightarrow> v = JArray xs"
  by (cases v) auto

lemma size_children_of: "children_of v = Some cs \<Longrightarrow> size_list size cs < size v"
  by (cases v) (auto simp: children_of_def split: list.splits option.splits Option.bind_splits
      dest!: size_list_map_of as_array_SomeD)

function (sequential) build :: "panes \<Rightarrow> string list \<Rightarrow> json \<Rightarrow> string list \<Rightarrow> (node \<times> string list) res"
  and build_kids :: "panes \<Rightarrow> string list \<Rightarrow> json list \<Rightarrow> string list \<Rightarrow> (node list \<times> string list) res" where
  "build ps outside v used =
     (case json_string v ''pane'' of
        Some reference \<Rightarrow> (case need ps (Some reference) of
          Inl e \<Rightarrow> Inl e
        | Inr p \<Rightarrow>
            (let i = pane_id p
             in if i \<in> set outside
                then Inl (docked (label p @ '' is docked, outside the tabs; undock it first (move '' @
                       (case pane_name p of Some n \<Rightarrow> n | None \<Rightarrow> i) @ '' --tab new)''))
                else if i \<in> set used then Inl (layout_invalid (dq reference @ '' appears more than once''))
                else Inr (Pane i, used @ [i])))
      | None \<Rightarrow> (case Option.bind (json_string v ''split'') axis_parse of
          None \<Rightarrow> Inl (layout_invalid ''malformed layout tree'')
        | Some a \<Rightarrow> (case children_of v of
            None \<Rightarrow> Inl (layout_invalid ''malformed layout tree'')
          | Some cs \<Rightarrow> (case child_sizes cs of
              Inl e \<Rightarrow> Inl e
            | Inr szs \<Rightarrow> (case share_sizes a szs of
                Inl e \<Rightarrow> Inl e
              | Inr shares \<Rightarrow> (case build_kids ps outside cs used of
                  Inl e \<Rightarrow> Inl e
                | Inr (ns, used) \<Rightarrow> Inr (Split a (zip ns shares), used)))))))"
| "build_kids ps outside [] used = Inr ([], used)"
| "build_kids ps outside (c # cs) used =
     (case build ps outside c used of
        Inl e \<Rightarrow> Inl e
      | Inr (n, used) \<Rightarrow> (case build_kids ps outside cs used of
          Inl e \<Rightarrow> Inl e
        | Inr (ns, used) \<Rightarrow> Inr (n # ns, used)))"
  by pat_completeness auto
termination
  by (relation "measure (\<lambda>x. case x of Inl (ps, out, v, used) \<Rightarrow> size v | Inr (ps, out, cs, used) \<Rightarrow> size_list size cs)")
     (auto dest: size_children_of)

definition arrange_holder :: "json \<Rightarrow> panes \<Rightarrow> model \<Rightarrow> model \<times> holder res" where
  "arrange_holder args ps m =
     (let from = (if has args ''window'' then None else arg args ''from'');
          caller = (case from of
              None \<Rightarrow> None
            | Some f \<Rightarrow> (case need ps (Some f) of Inl _ \<Rightarrow> None | Inr p \<Rightarrow> holder_of m (pane_id p)))
      in case arg args ''workspace'' of
           Some ws \<Rightarrow> (m, workspace_holder ws m)
         | None \<Rightarrow> (case caller of
             Some h \<Rightarrow> (m, Inr h)
           | None \<Rightarrow> (case from of
               Some f \<Rightarrow> (m, Inl (not_found (f @ '' is in no window or workspace here: say which with --window WINDOW'')))
             | None \<Rightarrow> (case target_window (arg args ''window'') m of
                 (m, Inl e) \<Rightarrow> (m, Inl e) | (m, Inr w) \<Rightarrow> (m, Inr (HWindow w))))))"

definition unarranged :: "string list \<Rightarrow> node" where
  "unarranged ids = normalize_node (Split Row (map (\<lambda>i. (Pane i, 1 / of_nat (length ids))) ids))"

text \<open>The part of \<open>arrange\<close> after the holder \<open>h\<close> is known: the tree goes into the active tab.\<close>

definition arrange_in :: "holder \<Rightarrow> node \<Rightarrow> string list \<Rightarrow> panes \<Rightarrow> model \<Rightarrow> model \<times> obj res" where
  "arrange_in h rt used ps m =
     (let (m, t) = (case active_index (tabs_of m h) of Some t \<Rightarrow> (m, t) | None \<Rightarrow> make_tab h True m);
          tb = tab_id (ts_tabs (tabs_of m h) ! t);
          m = foldl (\<lambda>m p. detach p m) m used
      in case tab_index m tb of
           None \<Rightarrow> (m, Inl panic)
         | Some (h, t) \<Rightarrow>
             (let leftovers = tab_panes (ts_tabs (tabs_of m h) ! t);
                  m = upd_tabs h (upd_tab t (\<lambda>x. x\<lparr>tab_root := Some rt\<rparr>)) m;
                  m = (if leftovers = [] then m
                       else (let (m, r) = make_tab h False m
                             in upd_tabs h (upd_tab r (\<lambda>x. (tab_rename ''unarranged'' x)\<lparr>tab_root := Some (unarranged leftovers)\<rparr>)) m));
                  m = upd_tabs h (\<lambda>ts. let ts = ts\<lparr>ts_active := Some tb\<rparr>
                        in if (case ts_focused ts of Some f \<Rightarrow> f \<in> set used | None \<Rightarrow> False) then ts
                           else ts\<lparr>ts_focused := first_opt used\<rparr>) m;
                  out = at_reply h m;
                  m = drop_empty m
              in (m, Inr (oinsert ''layout'' (tab_tree tb ps m) out))))"

definition arrange_cmd :: "json \<Rightarrow> panes \<Rightarrow> model \<Rightarrow> model \<times> obj res" where
  "arrange_cmd args ps m =
     (let outside = map (\<lambda>s. dk_pane (ws_dock s)) (m_workspaces m)
      in case build ps outside (case jget args ''layout'' of Some v \<Rightarrow> v | None \<Rightarrow> Null) [] of
           Inl e \<Rightarrow> (m, Inl e)
         | Inr (n, used) \<Rightarrow> (case arrange_holder args ps m of
             (m, Inl e) \<Rightarrow> (m, Inl e)
           | (m, Inr h) \<Rightarrow> arrange_in h (normalize_node n) used ps m))"

subsection \<open>Windows\<close>

text \<open>
  \<open>window_command\<close> reads \<open>self.windows[w]\<close> again after \<open>drop_empty\<close>, which may have dropped windows:
  an index past the end is a panic.
\<close>

definition window_command :: "json \<Rightarrow> panes \<Rightarrow> model \<Rightarrow> model \<times> obj res" where
  "window_command args ps m =
     (case arg args ''window'' of
        None \<Rightarrow> (m, Inl (bad_request ''window needs a window''))
      | Some reference \<Rightarrow> (case window_index m reference of
          None \<Rightarrow> (m, Inl (not_found (''no window '' @ dq reference)))
        | Some w \<Rightarrow> (case win_lead (m_windows m ! w) of
            Some d \<Rightarrow> (m, Inl (kmux_err ''lead'' (reference @ '' has a lead, '' @ display ps (dk_pane d) @ '', and stays its own'')))
          | None \<Rightarrow>
              (let was = (case Option.bind (win_ws (m_windows m ! w)) (ws_index m) of
                            Some s \<Rightarrow> JObject (ws_summary (m_workspaces m ! s)) | None \<Rightarrow> Null);
                   action = or_empty (arg args ''action'');
                   finish = (\<lambda>m. let m = drop_empty m
                      in if w < length (m_windows m) then (m, Inr (oinsert ''was'' was (at_reply (HWindow w) m)))
                         else (m, Inl panic))
               in if action = ''assign''
                  then (case arg args ''workspace'' of
                      None \<Rightarrow> (m, Inl (bad_request ''assign needs a workspace: a task's ID or its agent's pane''))
                    | Some task \<Rightarrow> (case find_workspace task ps m of
                        Some s \<Rightarrow> (if is_task (m_workspaces m ! s)
                                   then finish (upd_window w (\<lambda>x. x\<lparr>win_ws := Some (ws_id (m_workspaces m ! s))\<rparr>) m)
                                   else (m, Inl (not_found (''no workspace '' @ dq task))))
                      | None \<Rightarrow> (m, Inl (not_found (''no workspace '' @ dq task)))))
                  else if action = ''free'' then finish (upd_window w (\<lambda>x. x\<lparr>win_ws := None\<rparr>) m)
                  else (m, Inl (bad_request (''unknown window action '' @ dq action @ '' (assign or free)'')))))))"

subsection \<open>Tasks (desk.rs)\<close>

definition held :: "model \<Rightarrow> nat list" where
  "held m = filter (\<lambda>s. ws_place (m_workspaces m ! s) = Shelf) [0..<length (m_workspaces m)]"

definition dock_workspace :: "rat \<Rightarrow> string \<Rightarrow> edge \<Rightarrow> place \<Rightarrow> bool \<Rightarrow> model \<Rightarrow> model" where
  "dock_workspace now p e pl fr m =
     (let (m, ws) = new_workspace \<lparr>dk_pane = p, dk_edge = e, dk_width = DOCK_WIDTH, dk_frozen = fr\<rparr> pl m;
          ws = ws\<lparr>ws_left_at := Some now, ws_tabs := (ws_tabs ws)\<lparr>ts_focused := Some p\<rparr>\<rparr>
      in m\<lparr>m_workspaces := ws # m_workspaces m\<rparr>)"

definition rotate_right1 :: "'a list \<Rightarrow> 'a list" where
  "rotate_right1 xs = (if xs = [] then [] else last xs # butlast xs)"

definition task_panes :: "string \<Rightarrow> model \<Rightarrow> string list res" where
  "task_panes task m =
     (case or_else (dock_ws m task) (ws_index m task) of
        None \<Rightarrow> Inl (not_found (''no task '' @ dq task))
      | Some s \<Rightarrow> Inr (rotate_right1 (workspace_panes m s) @ ws_background (m_workspaces m ! s)))"

definition close_task :: "string \<Rightarrow> model \<Rightarrow> model" where
  "close_task task m =
     (case or_else (dock_ws m task) (ws_index m task) of
        None \<Rightarrow> m
      | Some s \<Rightarrow>
          (let ws = m_workspaces m ! s
           in m\<lparr>m_workspaces := remove_at s (m_workspaces m),
                m_windows := filter (\<lambda>w. win_ws w \<noteq> Some (ws_id ws)) (m_windows m)\<rparr>))"

definition lead_pane :: "string \<Rightarrow> string option \<Rightarrow> model \<Rightarrow> model \<times> string res" where
  "lead_pane p win m =
     (case win of
        None \<Rightarrow> (m, Inl (bad_request ''a window's lead needs its window''))
      | Some reference \<Rightarrow> (case target_window (Some reference) m of
          (m, Inl e) \<Rightarrow> (m, Inl e)
        | (m, Inr w) \<Rightarrow> (case win_lead (m_windows m ! w) of
            Some d \<Rightarrow> (m, Inl (kmux_err ''led'' (win_id (m_windows m ! w) @ '' has a lead already: '' @ dk_pane d)))
          | None \<Rightarrow>
              (let d = \<lparr>dk_pane = p, dk_edge = ELeft, dk_width = DOCK_WIDTH, dk_frozen = False\<rparr>
               in (upd_window w (\<lambda>x. x\<lparr>win_lead := Some d, win_ws := None, win_tabs := settle_focus (Some p) (win_tabs x)\<rparr>) m,
                   Inr (win_id (m_windows m ! w)))))))"

definition task_workspace :: "string \<Rightarrow> panes \<Rightarrow> model \<Rightarrow> nat res" where
  "task_workspace reference ps m =
     (case find_workspace reference ps m of
        None \<Rightarrow> Inl (case need ps (Some reference) of
            Inl e \<Rightarrow> e
          | Inr _ \<Rightarrow> not_found (reference @ '' is not in a task: it's in no task's workspace''))
      | Some s \<Rightarrow> (if is_task (m_workspaces m ! s) then Inr s
                   else Inl (not_found (reference @ '' is a Desk's planner, not a task''))))"

definition agent :: "nat \<Rightarrow> model \<Rightarrow> string" where
  "agent s m = dk_pane (ws_dock (m_workspaces m ! s))"

definition task_entry :: "(string \<Rightarrow> string list option) \<Rightarrow> panes \<Rightarrow> workspace \<Rightarrow> json" where
  "task_entry shlex_split ps ws =
     (let q = panes_get ps (dk_pane (ws_dock ws))
      in JObject [(''id'', JString (dk_pane (ws_dock ws))), (''workspace'', JString (ws_id ws)),
           (''name'', opt_json (Option.bind q pane_name)),
           (''agent'', opt_json (Option.bind q (program shlex_split))),
           (''where'', place_json (ws_place ws)),
           (''leftAt'', (case ws_left_at ws of Some t \<Rightarrow> num t | None \<Rightarrow> Null)),
           (''tabs'', num_nat (length (ts_tabs (ws_tabs ws))))])"

definition task_list :: "(string \<Rightarrow> string list option) \<Rightarrow> string option \<Rightarrow> panes \<Rightarrow> model \<Rightarrow> obj" where
  "task_list shlex_split app ps m =
     [(''tasks'', JArray (map (task_entry shlex_split ps)
        (filter (\<lambda>ws. case ws_place ws of Desk by \<Rightarrow> app = None \<or> app = Some by | _ \<Rightarrow> False) (m_workspaces m))))]"

definition claim_task :: "rat \<Rightarrow> string \<Rightarrow> nat \<Rightarrow> model \<Rightarrow> model" where
  "claim_task now app s m =
     (if ws_place (m_workspaces m ! s) \<noteq> Desk app
      then (let ws = m_workspaces m ! s
            in m\<lparr>m_workspaces := ws\<lparr>ws_place := Desk app, ws_left_at := Some now\<rparr> # remove_at s (m_workspaces m)\<rparr>)
      else m)"

definition task_cmd :: "(string \<Rightarrow> string list option) \<Rightarrow> rat \<Rightarrow> json \<Rightarrow> panes \<Rightarrow> model \<Rightarrow> model \<times> obj res" where
  "task_cmd shlex_split now args ps m =
     (let action = or_empty (arg args ''action'')
      in if action = ''list'' then (m, Inr (task_list shlex_split (arg args ''app'') ps m))
         else if action = ''hold''
         then (case arg args ''task'' of
             None \<Rightarrow> (m, Inl (bad_request ''hold needs a task''))
           | Some reference \<Rightarrow> (case task_workspace reference ps m of
               Inl e \<Rightarrow> (m, Inl e)
             | Inr s \<Rightarrow>
                 (let was = place_json (ws_place (m_workspaces m ! s)); m = upd_ws s (\<lambda>x. x\<lparr>ws_place := Shelf\<rparr>) m
                  in (m, Inr [(''task'', JString (agent s m)), (''was'', was)]))))
         else if action = ''find''
         then (case arg args ''task'' of
             None \<Rightarrow> (m, Inl (bad_request ''find needs a task''))
           | Some reference \<Rightarrow> (case task_workspace reference ps m of
               Inl e \<Rightarrow> (m, Inl e)
             | Inr s \<Rightarrow> (m, Inr [(''task'', JString (agent s m)), (''workspace'', JString (ws_id (m_workspaces m ! s))),
                                 (''where'', place_json (ws_place (m_workspaces m ! s)))])))
         else if action = ''claim''
         then (case arg args ''task'' of
             None \<Rightarrow> (m, Inl (bad_request ''claim needs a task''))
           | Some reference \<Rightarrow> (case arg args ''app'' of
               None \<Rightarrow> (m, Inl (bad_request ''claim needs the app that has it out''))
             | Some app \<Rightarrow> (case task_workspace reference ps m of
                 Inl e \<Rightarrow> (m, Inl e)
               | Inr s \<Rightarrow>
                   (let was = place_json (ws_place (m_workspaces m ! s)); m = claim_task now app s m
                    in (m, Inr [(''task'', JString (agent 0 m)), (''workspace'', JString (ws_id (m_workspaces m ! 0))), (''was'', was)])))))
         else if action = ''planner''
         then (case arg args ''task'' of
             None \<Rightarrow> (m, Inl (bad_request ''planner needs a planning terminal''))
           | Some reference \<Rightarrow> (case arg args ''app'' of
               None \<Rightarrow> (m, Inl (bad_request ''planner needs who has it''))
             | Some app \<Rightarrow> (case find_workspace reference ps m of
                 None \<Rightarrow> (m, Inl (not_found (reference @ '' isn't a planner'')))
               | Some s \<Rightarrow>
                   (if is_task (m_workspaces m ! s) then (m, Inl (not_found (reference @ '' isn't a planner'')))
                    else (let was = place_json (ws_place (m_workspaces m ! s)); m = upd_ws s (\<lambda>x. x\<lparr>ws_place := Planner app\<rparr>) m
                          in (m, Inr [(''task'', JString (agent s m)), (''workspace'', JString (ws_id (m_workspaces m ! s))), (''was'', was)]))))))
         else (m, Inl (bad_request (''unknown task action '' @ dq action @ '' (list, find, hold, claim or planner)''))))"

end
