(* ===== verification/Mux_Saved.thy ===== *)
theory Mux_Saved
  imports Mux_Layout
begin

text \<open>
  Saved layouts (\<open>kanna-mux/src/saved.rs\<close>, with the helpers of \<open>state.rs\<close> it uses): writing the
  model as JSON in the two formats, reading a saved layout back, and installing it. The code's hash
  sets are lists here; only membership and insertion are used of them. Error texts that quote a JSON
  value use the argument \<open>encode\<close>, which is \<open>serde_json\<close>'s printer.
\<close>

definition LAYOUT_VERSION :: nat where "LAYOUT_VERSION = 4"

definition bad_state :: "string \<Rightarrow> kmux_error" where
  "bad_state m = kmux_err ''bad_request'' (''bad state: '' @ m)"

definition quoted :: "(json \<Rightarrow> string) \<Rightarrow> json option \<Rightarrow> string" where
  "quoted encode v = encode (case v of Some w \<Rightarrow> w | None \<Rightarrow> Null)"

definition number_in :: "string \<Rightarrow> string \<Rightarrow> nat option" where
  "number_in i prefix =
     Option.bind (strip_prefix prefix i) (\<lambda>r. Option.bind (parse_usize r) (\<lambda>n.
       if n > 0 \<and> n < 1000000000 \<and> prefix @ dec n = i then Some n else None))"

definition whole :: "json option \<Rightarrow> nat option" where
  "whole v =
     Option.bind v (\<lambda>w. Option.bind (as_f64 w) (\<lambda>n.
       if of_int (round_away n) = n \<and> 0 \<le> n \<and> n < 10 ^ 9 then Some (nat \<lfloor>n\<rfloor>) else None))"

definition jlist :: "json option \<Rightarrow> json list" where
  "jlist v = (case Option.bind v as_array of Some xs \<Rightarrow> xs | None \<Rightarrow> [])"

subsection \<open>Writing\<close>

fun export_node :: "node \<Rightarrow> obj" where
  "export_node (Pane i) = [(''pane'', JString i)]"
| "export_node (Split a ks) =
     [(''split'', JString (axis_str a)),
      (''children'', JArray (map (\<lambda>(n, s). JObject (oinsert ''size'' (num s) (export_node n))) ks))]"

definition tab_json :: "tab \<Rightarrow> json" where
  "tab_json t =
     (let out = [(''id'', JString (tab_id t)), (''title'', JString (tab_title t)), (''lastFocus'', opt_json (last_focus t)),
            (''layout'', (case tab_root t of None \<Rightarrow> Null | Some n \<Rightarrow> JObject (export_node n))), (''number'', num_nat (tab_number t))];
          out = (case tab_namer t of Some n \<Rightarrow> oinsert ''namer'' (JString n) out | None \<Rightarrow> out);
          out = (if tab_renamed t then oinsert ''renamed'' (JBool True) out else out)
      in JObject out)"

definition put_tabs :: "tabs \<Rightarrow> obj \<Rightarrow> obj" where
  "put_tabs ts out =
     (let out = oinsert ''active'' (opt_json (ts_active ts)) out;
          out = oinsert ''focused'' (opt_json (ts_focused ts)) out;
          out = oinsert ''zoomed'' (opt_json (zoomed ts)) out;
          out = oinsert ''tabCount'' (num_nat (ts_count ts)) out;
          out = (if ts_recent ts \<noteq> [] then oinsert ''recent'' (JArray (map JString (ts_recent ts))) out else out)
      in oinsert ''tabs'' (JArray (map tab_json (ts_tabs ts))) out)"

definition dock_json :: "dock \<Rightarrow> json" where
  "dock_json d =
     (let saved = [(''pane'', JString (dk_pane d)), (''edge'', JString (edge_str (dk_edge d))), (''width'', num (dk_width d))]
      in JObject (if dk_frozen d then oinsert ''frozen'' (JBool True) saved else saved))"

definition window_json :: "window \<Rightarrow> obj" where
  "window_json w =
     (let out = put_tabs (win_tabs w) [(''id'', JString (win_id w))]
      in case win_lead w of
           Some d \<Rightarrow> oinsert ''lead'' (JObject [(''pane'', JString (dk_pane d)), (''width'', num (dk_width d))]) out
         | None \<Rightarrow> out)"

definition put_workspace :: "workspace \<Rightarrow> obj \<Rightarrow> obj" where
  "put_workspace ws out =
     (let out = oinsert ''dock'' (dock_json (ws_dock ws)) out;
          out = (case ws_left_at ws of Some t \<Rightarrow> oinsert ''leftAt'' (num t) out | None \<Rightarrow> out)
      in if ws_background ws \<noteq> [] then oinsert ''background'' (JArray (map JString (ws_background ws))) out else out)"

definition counters_json :: "model \<Rightarrow> json" where
  "counters_json m = JObject [(''tab'', num_nat (tab_counter m)), (''window'', num_nat (win_counter m)), (''workspace'', num_nat (ws_counter m))]"

definition export_v1 :: "model \<Rightarrow> obj" where
  "export_v1 m =
     (let windows = map (\<lambda>w. JObject (case win_ws w of Some i \<Rightarrow> oinsert ''workspace'' (JString i) (window_json w) | None \<Rightarrow> window_json w)) (m_windows m);
          parked = map (\<lambda>ws. JObject (put_workspace ws (put_tabs (ws_tabs ws)
            [(''id'', JString (dk_pane (ws_dock ws))), (''workspace'', JString (ws_id ws)), (''where'', place_json (ws_place ws))]))) (m_workspaces m);
          out = [(''counters'', counters_json m), (''windows'', JArray windows)]
      in if parked \<noteq> [] then oinsert ''parked'' (JArray parked) out else out)"

definition workspace_json :: "model \<Rightarrow> workspace \<Rightarrow> json" where
  "workspace_json m ws =
     JObject (oinsert ''windows'' (JArray (map (\<lambda>w. JObject (window_json w)) (workspace_windows m (ws_id ws))))
       (put_tabs (ws_tabs ws) (put_workspace ws [(''id'', JString (ws_id ws)), (''where'', place_json (ws_place ws))])))"

definition export_v3 :: "model \<Rightarrow> obj" where
  "export_v3 m =
     [(''counters'', counters_json m),
      (''windows'', JArray (map (\<lambda>w. JObject (window_json w)) (filter (\<lambda>w. win_ws w = None) (m_windows m)))),
      (''workspaces'', JArray (map (workspace_json m) (m_workspaces m)))]"

subsection \<open>Reading\<close>

record reader =
  rd_placed :: "string list"
  rd_tab_ids :: "string list"
  rd_window_ids :: "string list"
  rd_tab :: nat
  rd_win :: nat
  rd_ws :: nat

text \<open>A loop that stops at the first error (\<open>?\<close> in a \<open>for\<close>).\<close>

fun try_fold :: "('s \<Rightarrow> 'a \<Rightarrow> 's res) \<Rightarrow> 's \<Rightarrow> 'a list \<Rightarrow> 's res" where
  "try_fold f s [] = Inr s"
| "try_fold f s (x # xs) = (case f s x of Inl e \<Rightarrow> Inl e | Inr s' \<Rightarrow> try_fold f s' xs)"

definition saved_sizes :: "json list \<Rightarrow> rat list" where
  "saved_sizes cs =
     (let sizes = map (\<lambda>c. case Option.bind (jget c ''size'') as_f64 of
                              Some s \<Rightarrow> if 0 < s \<and> s \<le> 1 then s else 1 / of_nat (length cs)
                            | None \<Rightarrow> 1 / of_nat (length cs)) cs
      in map (\<lambda>s. s / sum_list sizes) sizes)"

function (sequential) read_node :: "(json \<Rightarrow> string) \<Rightarrow> string list \<Rightarrow> json \<Rightarrow> string list \<Rightarrow> (node \<times> string list) res"
  and read_kids :: "(json \<Rightarrow> string) \<Rightarrow> string list \<Rightarrow> json list \<Rightarrow> string list \<Rightarrow> (node list \<times> string list) res" where
  "read_node encode known v taken =
     (case v of
        JObject fs \<Rightarrow>
          (let reference = (case jget v ''pane'' of Some Null \<Rightarrow> None | r \<Rightarrow> r) in case reference of
             Some r \<Rightarrow> (case as_str r of
                 Some i \<Rightarrow>
                   (if i \<notin> set known then Inl (bad_state (''layout names unknown pane '' @ quoted encode (Some r)))
                    else if i \<in> set taken then Inl (bad_state (''pane '' @ i @ '' is placed twice''))
                    else Inr (Pane i, taken @ [i]))
               | None \<Rightarrow> Inl (bad_state (''layout names unknown pane '' @ quoted encode (Some r))))
           | None \<Rightarrow> (case Option.bind (json_string v ''split'') axis_parse of
               None \<Rightarrow> Inl (bad_state ''malformed layout'')
             | Some a \<Rightarrow> (case children_of v of
                 None \<Rightarrow> Inl (bad_state ''malformed layout'')
               | Some cs \<Rightarrow> (case read_kids encode known cs taken of
                   Inl e \<Rightarrow> Inl e
                 | Inr (ns, taken) \<Rightarrow> Inr (Split a (zip ns (saved_sizes cs)), taken)))))
      | _ \<Rightarrow> Inl (bad_state ''malformed layout''))"
| "read_kids encode known [] taken = Inr ([], taken)"
| "read_kids encode known (c # cs) taken =
     (case read_node encode known c taken of
        Inl e \<Rightarrow> Inl e
      | Inr (n, taken) \<Rightarrow> (case read_kids encode known cs taken of
          Inl e \<Rightarrow> Inl e
        | Inr (ns, taken) \<Rightarrow> Inr (n # ns, taken)))"
  by pat_completeness auto
termination
  by (relation "measure (\<lambda>x. case x of Inl (enc, known, v, taken) \<Rightarrow> size v | Inr (enc, known, cs, taken) \<Rightarrow> size_list size cs)")
     (auto dest: size_children_of)

text \<open>\<open>Reader::background\<close>: the saved background panes that are known and not placed yet.\<close>

definition read_background :: "string list \<Rightarrow> json \<Rightarrow> reader \<Rightarrow> reader \<times> string list" where
  "read_background known item r =
     foldl (\<lambda>(r, out) i. if i \<in> set known \<and> i \<notin> set (rd_placed r) then (r\<lparr>rd_placed := rd_placed r @ [i]\<rparr>, out @ [i]) else (r, out))
       (r, []) (List.map_filter as_str (jlist (jget item ''background'')))"

definition read_number :: "json \<Rightarrow> string \<Rightarrow> nat \<Rightarrow> nat" where
  "read_number entry title cnt =
     (case or_else (whole (jget entry ''number'')) (Option.bind (strip_prefix ''Tab '' title) parse_usize) of
        Some n \<Rightarrow> if n > 0 then n else cnt + 1
      | None \<Rightarrow> cnt + 1)"

definition read_root :: "(json \<Rightarrow> string) \<Rightarrow> string list \<Rightarrow> json \<Rightarrow> string list \<Rightarrow> (node option \<times> string list) res" where
  "read_root encode known entry taken =
     (case (case jget entry ''layout'' of Some Null \<Rightarrow> None | v \<Rightarrow> v) of
        None \<Rightarrow> Inr (None, taken)
      | Some v \<Rightarrow> (case read_node encode known v taken of
          Inl e \<Rightarrow> Inl e | Inr (n, taken) \<Rightarrow> Inr (Some (normalize_node n), taken)))"

definition saved_tab :: "json \<Rightarrow> string \<Rightarrow> node option \<Rightarrow> nat \<Rightarrow> tab" where
  "saved_tab entry tid rt cnt =
     (let title = json_trim (or_empty (json_string entry ''title''));
          tb = new_tab tid (read_number entry title cnt);
          tb = (if title \<noteq> [] then tb\<lparr>tab_title := title\<rparr> else tb);
          ids = root_ids rt
      in tb\<lparr>tab_renamed := title \<noteq> [] \<and> jget entry ''renamed'' = Some (JBool True),
             tab_namer := keep_in ids (json_string entry ''namer''),
             tab_root := rt,
             last_focus := keep_in ids (json_string entry ''lastFocus'')\<rparr>)"

definition read_tab :: "(json \<Rightarrow> string) \<Rightarrow> string list \<Rightarrow> reader \<times> tab list \<Rightarrow> json \<Rightarrow> (reader \<times> tab list) res" where
  "read_tab encode known = (\<lambda>(r, out) entry.
     (case Option.bind (json_string entry ''id'') (\<lambda>i. map_option (Pair i) (number_in i ''tab-'')) of
        None \<Rightarrow> Inl (bad_state (''tab '' @ quoted encode (jget entry ''id'')))
      | Some (tid, tn) \<Rightarrow>
          (if tid \<in> set (rd_tab_ids r) then Inl (bad_state (''tab '' @ quoted encode (jget entry ''id'')))
           else (case read_root encode known entry (rd_placed r) of
               Inl e \<Rightarrow> Inl e
             | Inr (rt, taken) \<Rightarrow>
                 Inr (r\<lparr>rd_tab_ids := rd_tab_ids r @ [tid], rd_placed := taken, rd_tab := max (rd_tab r) tn\<rparr>,
                      out @ [saved_tab entry tid rt (length out)])))))"

definition read_tabs :: "(json \<Rightarrow> string) \<Rightarrow> string list \<Rightarrow> json \<Rightarrow> reader \<Rightarrow> (reader \<times> tabs) res" where
  "read_tabs encode known item r =
     (case Option.bind (jget item ''tabs'') as_array of
        None \<Rightarrow> Inl (bad_state (''window '' @ quoted encode (jget item ''id'')))
      | Some saved \<Rightarrow> (case try_fold (read_tab encode known) (r, []) saved of
          Inl e \<Rightarrow> Inl e
        | Inr (r, entries) \<Rightarrow>
            (let kept = filter (\<lambda>t. tab_root t \<noteq> None) entries;
                 active = json_string item ''active'';
                 ts = default_tabs\<lparr>ts_tabs := kept,
                        ts_active := (if \<exists>t \<in> set kept. Some (tab_id t) = active then active else map_option tab_id (first_opt kept)),
                        ts_count := max (case whole (jget item ''tabCount'') of Some n \<Rightarrow> n | None \<Rightarrow> 0) (length kept)\<rparr>;
                 ids = tabs_panes ts
             in Inr (r, ts\<lparr>ts_recent := filter (\<lambda>i. i \<in> set ids) (List.map_filter as_str (jlist (jget item ''recent'')))\<rparr>))))"

definition read_side :: "(json \<Rightarrow> string) \<Rightarrow> string list \<Rightarrow> json \<Rightarrow> string \<Rightarrow> string \<Rightarrow> string \<Rightarrow> reader \<Rightarrow> (reader \<times> dock option) res" where
  "read_side encode known item key owner what r =
     (case (case jget item key of Some Null \<Rightarrow> None | v \<Rightarrow> v) of
        None \<Rightarrow> Inr (r, None)
      | Some saved \<Rightarrow> (case (case json_string saved ''pane'' of Some p \<Rightarrow> if p \<in> set known then Some p else None | None \<Rightarrow> None) of
          None \<Rightarrow> Inl (bad_state (''window '' @ owner @ '' '' @ what @ '' unknown pane '' @ quoted encode (jget saved ''pane'')))
        | Some p \<Rightarrow>
            (if p \<in> set (rd_placed r) then Inl (bad_state (''pane '' @ p @ '' is placed twice''))
             else (let width = (case Option.bind (jget saved ''width'') as_f64 of
                                  Some w \<Rightarrow> if 0 < w \<and> w < 1 then w else DOCK_WIDTH | None \<Rightarrow> DOCK_WIDTH);
                       e = (case Option.bind (json_string saved ''edge'') edge_parse of Some e \<Rightarrow> e | None \<Rightarrow> ELeft)
                   in Inr (r\<lparr>rd_placed := rd_placed r @ [p]\<rparr>,
                        Some \<lparr>dk_pane = p, dk_edge = e, dk_width = width, dk_frozen = (jget saved ''frozen'' = Some (JBool True))\<rparr>)))))"

definition read_window :: "(json \<Rightarrow> string) \<Rightarrow> string list \<Rightarrow> json \<Rightarrow> reader \<Rightarrow> (reader \<times> window \<times> dock option \<times> bool) res" where
  "read_window encode known item r =
     (case Option.bind (json_string item ''id'') (\<lambda>i. map_option (Pair i) (number_in i ''win-'')) of
        None \<Rightarrow> Inl (bad_state (''window '' @ quoted encode (jget item ''id'')))
      | Some (i, n) \<Rightarrow>
          (if i \<in> set (rd_window_ids r) then Inl (bad_state (''window '' @ quoted encode (jget item ''id'')))
           else (let r = r\<lparr>rd_window_ids := rd_window_ids r @ [i], rd_win := max (rd_win r) n\<rparr> in case read_tabs encode known item r of
               Inl e \<Rightarrow> Inl e
             | Inr (r, ts) \<Rightarrow> (case read_side encode known item ''dock'' i ''docks'' r of
                 Inl e \<Rightarrow> Inl e
               | Inr (r, d) \<Rightarrow> (case read_side encode known item (if jget item ''lead'' \<noteq> None then ''lead'' else ''planner'') i ''is led by'' r of
                   Inl e \<Rightarrow> Inl e
                 | Inr (r, ld) \<Rightarrow>
                     Inr (r, (new_window i)\<lparr>win_tabs := ts, win_lead := map_option (\<lambda>l. l\<lparr>dk_edge := ELeft, dk_frozen := False\<rparr>) ld\<rparr>, d,
                          d \<noteq> None \<or> Option.bind (jget item ''desk'') as_bool = Some True))))))"

definition settle_saved :: "json \<Rightarrow> string option \<Rightarrow> tabs \<Rightarrow> tabs" where
  "settle_saved item sd ts =
     (let seen = (case sd of Some p \<Rightarrow> [p] | None \<Rightarrow> []) @ shown ts;
          first = first_opt (shown ts);
          ts = ts\<lparr>ts_focused := or_else (keep_in seen (json_string item ''focused''))
                 (or_else (Option.bind (active_tab ts) last_focus) (or_else first sd))\<rparr>
      in case keep_in seen (json_string item ''zoomed'') of
           Some z \<Rightarrow> ts\<lparr>ts_zoom := True, ts_focused := Some z\<rparr>
         | None \<Rightarrow> ts)"

fun renamed :: "string option \<Rightarrow> json \<Rightarrow> json" where
  "renamed key (JString i) =
     (if key \<in> {Some ''id'', Some ''active'', Some ''windows''}
      then (case number_in i ''t'' of
              Some n \<Rightarrow> JString (''tab-'' @ dec n)
            | None \<Rightarrow> (case number_in i ''w'' of Some n \<Rightarrow> JString (''win-'' @ dec n) | None \<Rightarrow> JString i))
      else JString i)"
| "renamed key (JArray xs) = JArray (map (renamed key) xs)"
| "renamed key (JObject fs) = JObject (map (\<lambda>(k, v). (k, renamed (Some k) v)) fs)"
| "renamed key v = v"

function (sequential) old_names :: "string option \<Rightarrow> json \<Rightarrow> json" where
  "old_names key v =
     (if key = Some ''where'' then place_upgrade v
      else (case v of
          JArray xs \<Rightarrow> JArray (map (old_names key) xs)
        | JObject fs \<Rightarrow> JObject (foldl (\<lambda>out (k, w). oinsert k w out) []
            (map (\<lambda>(k, w). (if k = ''parkedAt'' then ''leftAt'' else k, old_names (Some k) w)) fs))
        | _ \<Rightarrow> v))"
  by pat_completeness auto
termination
proof (relation "measure (\<lambda>(key, v). size v)")
  fix key v xs z assume "v = JArray xs" "z \<in> set xs"
  then show "((key, z), (key, v)) \<in> measure (\<lambda>(key, v). size v)"
    by (simp add: size_list_estimation' less_Suc_eq_le)
next
  fix key v fs z k w assume v: "v = JObject fs" "z \<in> set fs" "(k, w) = z"
  have "size w \<le> size_list (size_prod (\<lambda>x. 0) size) fs"
    by (rule size_list_estimation' [OF v(2)]) (use v(3) in auto)
  then show "((Some k, w), (key, v)) \<in> measure (\<lambda>(key, v). size v)"
    using v(1) by (simp add: less_Suc_eq_le)
qed simp

text \<open>\<open>upgrade\<close> writes \<open>out["version"]\<close>, which panics (\<^const>\<open>None\<close>) unless the state is an object or null.\<close>

definition upgrade :: "json \<Rightarrow> json option" where
  "upgrade state =
     (if (case Option.bind (jget state ''version'') as_f64 of Some v \<Rightarrow> v \<ge> of_nat LAYOUT_VERSION | None \<Rightarrow> False) then Some state
      else (case old_names None state of
          JObject fs \<Rightarrow> Some (JObject (oinsert ''version'' (num_nat LAYOUT_VERSION) fs))
        | Null \<Rightarrow> Some (JObject [(''version'', num_nat LAYOUT_VERSION)])
        | _ \<Rightarrow> None))"

definition read_workspace :: "string \<Rightarrow> json \<Rightarrow> dock \<Rightarrow> tabs \<Rightarrow> place \<Rightarrow> workspace" where
  "read_workspace i item d ts pl =
     (new_ws i d pl)\<lparr>ws_left_at := Option.bind (jget item ''leftAt'') as_f64, ws_tabs := settle_saved item (Some (dk_pane d)) ts\<rparr>"

record restored =
  re_windows :: "window list"
  re_workspaces :: "workspace list"
  re_orphans :: "tabs list"
  re_tab :: nat
  re_win :: nat
  re_ws :: nat

text \<open>What \<open>read\<close> has gathered so far.\<close>

record reading =
  rg_reader :: reader
  rg_windows :: "window list"
  rg_workspaces :: "workspace list"
  rg_orphans :: "tabs list"
  rg_ids :: "string list"
  rg_planners :: "(string \<times> dock \<times> bool) list"

definition read_top_window :: "(json \<Rightarrow> string) \<Rightarrow> string list \<Rightarrow> reading \<Rightarrow> json \<Rightarrow> reading res" where
  "read_top_window encode known g item =
     (case read_window encode known item (rg_reader g) of
        Inl e \<Rightarrow> Inl e
      | Inr (r, w, d, desk) \<Rightarrow>
          (let g = g\<lparr>rg_reader := r\<rparr>;
               (g, w) = (case (desk, win_lead w) of
                   (True, Some l) \<Rightarrow> (g\<lparr>rg_planners := rg_planners g @ [(win_id w @ ''-planner'', l, jget item ''shelfZoom'' = Some (JBool True))]\<rparr>,
                                      w\<lparr>win_lead := None\<rparr>)
                 | _ \<Rightarrow> (g, w));
               ld = map_option dk_pane (win_lead w)
           in case d of
                Some d \<Rightarrow>
                  (let i = (case json_string item ''shows'' of Some i \<Rightarrow> i | None \<Rightarrow> dk_pane d)
                   in if i \<in> set (rg_ids g) then Inl (bad_state (''workspace '' @ i @ '' is saved twice''))
                      else (let ws = read_workspace i item d (win_tabs w) (Desk MAC_APP);
                                ws = (if ws_left_at ws = None then ws\<lparr>ws_left_at := Some 0\<rparr> else ws)
                            in Inr (g\<lparr>rg_ids := rg_ids g @ [i], rg_workspaces := rg_workspaces g @ [ws],
                                      rg_windows := rg_windows g @ [w\<lparr>win_tabs := default_tabs\<rparr>]\<rparr>)))
              | None \<Rightarrow>
                  Inr (g\<lparr>rg_windows := rg_windows g @ [w\<lparr>win_tabs := settle_saved item ld (win_tabs w), win_ws := json_string item ''workspace''\<rparr>]\<rparr>)))"

definition read_parked :: "(json \<Rightarrow> string) \<Rightarrow> string list \<Rightarrow> reading \<Rightarrow> json \<Rightarrow> reading res" where
  "read_parked encode known g item =
     (case json_string item ''id'' of
        None \<Rightarrow> Inl (bad_state (''window '' @ quoted encode (jget item ''id'')))
      | Some i \<Rightarrow> (case read_tabs encode known item (rg_reader g) of
          Inl e \<Rightarrow> Inl e
        | Inr (r, ts) \<Rightarrow>
            (let pl = (case place_read (jget item ''where'') of
                         Some pl \<Rightarrow> pl
                       | None \<Rightarrow> (if Option.bind (jget item ''backlog'') as_bool = Some True then Shelf else Desk MAC_APP));
                 wid = (case json_string item ''workspace'' of Some w \<Rightarrow> w | None \<Rightarrow> i)
             in case read_side encode known item ''dock'' i ''docks'' r of
                  Inl e \<Rightarrow> Inl e
                | Inr (r, None) \<Rightarrow> Inr (g\<lparr>rg_reader := r, rg_orphans := rg_orphans g @ [ts]\<rparr>)
                | Inr (r, Some d) \<Rightarrow>
                    (if wid \<in> set (rg_ids g) then Inl (bad_state (''workspace '' @ wid @ '' is saved twice''))
                     else (let ws = read_workspace wid item d ts pl;
                               ws = ws\<lparr>ws_left_at := Some (case ws_left_at ws of Some t \<Rightarrow> t | None \<Rightarrow> 0)\<rparr>
                           in Inr (g\<lparr>rg_reader := r, rg_ids := rg_ids g @ [wid], rg_workspaces := rg_workspaces g @ [ws]\<rparr>))))))"

definition read_ws_window :: "(json \<Rightarrow> string) \<Rightarrow> string list \<Rightarrow> string option \<Rightarrow> reading \<Rightarrow> json \<Rightarrow> reading res" where
  "read_ws_window encode known owner g saved =
     (case read_window encode known saved (rg_reader g) of
        Inl e \<Rightarrow> Inl e
      | Inr (r, w, _, _) \<Rightarrow>
          Inr (g\<lparr>rg_reader := r, rg_windows := rg_windows g @
            [w\<lparr>win_tabs := settle_saved saved None (win_tabs w), win_lead := None, win_ws := owner\<rparr>]\<rparr>))"

definition read_ws :: "(json \<Rightarrow> string) \<Rightarrow> string list \<Rightarrow> reading \<Rightarrow> json \<Rightarrow> reading res" where
  "read_ws encode known g item =
     (case (case json_string item ''id'' of Some i \<Rightarrow> if i \<noteq> [] then Some i else None | None \<Rightarrow> None) of
        None \<Rightarrow> Inl (bad_state (''workspace '' @ quoted encode (jget item ''id'')))
      | Some i \<Rightarrow> (case read_tabs encode known item (rg_reader g) of
          Inl e \<Rightarrow> Inl e
        | Inr (r, ts) \<Rightarrow>
            (let pl = (case place_read (jget item ''where'') of Some pl \<Rightarrow> pl | None \<Rightarrow> Desk MAC_APP)
             in case read_side encode known item ''dock'' i ''docks'' r of
                  Inl e \<Rightarrow> Inl e
                | Inr (r, None) \<Rightarrow>
                    try_fold (read_ws_window encode known None) (g\<lparr>rg_reader := r, rg_orphans := rg_orphans g @ [ts]\<rparr>) (jlist (jget item ''windows''))
                | Inr (r, Some d) \<Rightarrow>
                    (if i \<in> set (rg_ids g) then Inl (bad_state (''workspace '' @ i @ '' is saved twice''))
                     else (let (r, bg) = read_background known item r;
                               ws = (read_workspace i item d ts pl)\<lparr>ws_background := bg\<rparr>
                           in try_fold (read_ws_window encode known (Some i))
                                (g\<lparr>rg_reader := r, rg_ids := rg_ids g @ [i], rg_workspaces := rg_workspaces g @ [ws]\<rparr>)
                                (jlist (jget item ''windows'')))))))"

text \<open>Workspaces whose ID is not of the form \<open>ws-N\<close> get the next number, in the windows too.\<close>

fun number_workspaces :: "nat \<Rightarrow> window list \<Rightarrow> workspace list \<Rightarrow> nat \<times> window list \<times> workspace list" where
  "number_workspaces next wins [] = (next, wins, [])"
| "number_workspaces next wins (ws # rest) =
     (if number_in (ws_id ws) ''ws-'' = None
      then (let next = next + 1; i = ''ws-'' @ dec next;
                wins = map (\<lambda>w. if win_ws w = Some (ws_id ws) then w\<lparr>win_ws := Some i\<rparr> else w) wins;
                (n, wins, done) = number_workspaces next wins rest
            in (n, wins, ws\<lparr>ws_id := i\<rparr> # done))
      else (let (n, wins, done) = number_workspaces next wins rest in (n, wins, ws # done)))"

definition planner_ws :: "string \<times> dock \<times> bool \<Rightarrow> workspace" where
  "planner_ws = (\<lambda>(i, l, zoom). let ws = new_ws i l (Planner MAC_APP)
     in ws\<lparr>ws_tabs := (ws_tabs ws)\<lparr>ts_zoom := zoom, ts_focused := Some (dk_pane l)\<rparr>\<rparr>)"

definition finish_reading :: "reading \<Rightarrow> string list \<times> restored" where
  "finish_reading g =
     (let workspaces = rg_workspaces g @ map planner_ws (rg_planners g);
          ids = map ws_id workspaces;
          windows = map (\<lambda>w. case win_ws w of Some i \<Rightarrow> if i \<in> set ids then w else w\<lparr>win_ws := None\<rparr> | None \<Rightarrow> w) (rg_windows g);
          next = foldl max (rd_ws (rg_reader g)) (List.map_filter (\<lambda>s. number_in (ws_id s) ''ws-'') workspaces);
          (next, windows, workspaces) = number_workspaces next windows workspaces
      in (rd_placed (rg_reader g),
          \<lparr>re_windows = filter (\<lambda>w. ts_tabs (win_tabs w) \<noteq> [] \<or> win_lead w \<noteq> None) windows, re_workspaces = workspaces,
           re_orphans = rg_orphans g, re_tab = rd_tab (rg_reader g), re_win = rd_win (rg_reader g), re_ws = next\<rparr>))"

definition start_reading :: "json \<Rightarrow> reading" where
  "start_reading state =
     (let saved = (case jget state ''counters'' of Some c \<Rightarrow> c | None \<Rightarrow> JObject []);
          cnt = (\<lambda>k. case whole (jget saved k) of Some n \<Rightarrow> n | None \<Rightarrow> 0);
          r = \<lparr>rd_placed = [], rd_tab_ids = [], rd_window_ids = [], rd_tab = cnt ''tab'', rd_win = cnt ''window'', rd_ws = cnt ''workspace''\<rparr>
      in \<lparr>rg_reader = r, rg_windows = [], rg_workspaces = [], rg_orphans = [], rg_ids = [], rg_planners = []\<rparr>)"

definition read_layout :: "(json \<Rightarrow> string) \<Rightarrow> json \<Rightarrow> string list \<Rightarrow> (string list \<times> restored) res" where
  "read_layout encode state known =
     (let state = renamed None state
      in case Option.bind (jget state ''windows'') as_array of
           None \<Rightarrow> Inl (bad_state ''needs panes and windows'')
         | Some windows \<Rightarrow> (case try_fold (read_top_window encode known) (start_reading state) windows of
             Inl e \<Rightarrow> Inl e
           | Inr g \<Rightarrow> (case try_fold (read_parked encode known) g (jlist (or_else (jget state ''parked'') (jget state ''shelf''))) of
               Inl e \<Rightarrow> Inl e
             | Inr g \<Rightarrow> (case try_fold (read_ws encode known) g (jlist (jget state ''workspaces'')) of
                 Inl e \<Rightarrow> Inl e
               | Inr g \<Rightarrow> Inr (finish_reading g)))))"

definition install :: "restored \<Rightarrow> model \<Rightarrow> model" where
  "install r m =
     drop_empty (m\<lparr>m_windows := re_windows r, m_workspaces := re_workspaces r,
       tab_counter := max (tab_counter m) (re_tab r), win_counter := max (win_counter m) (re_win r),
       ws_counter := max (ws_counter m) (re_ws r), m_orphans := m_orphans m @ re_orphans r\<rparr>)"

end
