(* ===== verification/Mux_State.thy ===== *)
theory Mux_State
  imports Mux_Saved
begin

text \<open>
  The saved state's panes (\<open>kanna-mux/src/state.rs\<close>): one record per pane, reading the records back
  with the checks on IDs, names and required fields, and the upgrade of the first format's IDs.
\<close>

definition STATE_VERSION :: nat where "STATE_VERSION = 2"

definition pane_record :: "pane \<Rightarrow> obj" where
  "pane_record p =
     (let out = oinsert ''type'' (JString (pane_type_str (pane_kind p)))
            (oinsert ''name'' (opt_json (pane_name p)) (oinsert ''id'' (JString (pane_id p)) []));
          out = (case pane_kind p of
              Term \<Rightarrow> oinsert ''session'' (opt_json (pane_session p)) (oinsert ''cwd'' (opt_json (pane_cwd p))
                        (oinsert ''cmd'' (opt_json (pane_command p)) (oinsert ''terminal'' (opt_json (terminal p)) out)))
            | Web \<Rightarrow>
                (let out = oinsert ''history'' (JBool (pane_history p \<noteq> None)) (oinsert ''url'' (opt_json (pane_url p)) out);
                     out = insert_some ''title'' (map_option JString (pane_title p)) out;
                     out = (if pane_markup p then oinsert ''markup'' (JBool True) out else out)
                 in insert_some ''agent'' (map_option JString (pane_agent p)) out)
            | Md \<Rightarrow>
                (let out = oinsert ''path'' (opt_json (pane_path p)) out;
                     out = (if pane_markup p then oinsert ''markup'' (JBool True) out else out);
                     out = insert_some ''diff'' (map_option JString (diff_base p)) out
                 in insert_some ''agent'' (map_option JString (pane_agent p)) out)
            | Code \<Rightarrow>
                (let out = oinsert ''path'' (opt_json (pane_path p)) out;
                     out = insert_some ''line'' (map_option num_nat (pane_line p)) out
                 in insert_some ''comment'' (map_option comment_to_json (pane_comment p)) out)
            | Diff \<Rightarrow> oinsert ''view'' (JString (case pane_view p of Some v \<Rightarrow> v | None \<Rightarrow> ''unified''))
                        (oinsert ''args'' (diff_args (git_args p)) (oinsert ''path'' (opt_json (pane_path p)) out))
            | Log \<Rightarrow> oinsert ''args'' (diff_args (git_args p)) (oinsert ''path'' (opt_json (pane_path p)) out)
            | Ios \<Rightarrow> oinsert ''device'' (opt_json (pane_device p)) (oinsert ''app'' (opt_json (pane_app p)) out)
            | Serial \<Rightarrow> serial_fields p out);
          out = insert_some ''tour'' (map_option tour_to_json (pane_tour p)) out
      in insert_some ''tour'' (map_option stop_mark_to_json (pane_stop p)) out)"

definition export_panes :: "panes \<Rightarrow> json" where
  "export_panes ps = JArray (map (\<lambda>p. JObject (pane_record p)) (panes_iter ps))"

definition ok_flatten :: "(kmux_error + 'a option) \<Rightarrow> 'a option" where
  "ok_flatten r = (case r of Inr x \<Rightarrow> x | Inl _ \<Rightarrow> None)"

definition empty_history :: history where
  "empty_history = \<lparr>hist_back = [], hist_forward = []\<rparr>"

definition read_kind :: "json \<Rightarrow> pane \<Rightarrow> pane" where
  "read_kind item p =
     (let field = json_string item in case pane_kind p of
        Term \<Rightarrow> p\<lparr>pane_command := field ''cmd'', pane_cwd := field ''cwd'', pane_session := field ''session'', terminal := field ''terminal''\<rparr>
      | Web \<Rightarrow> p\<lparr>pane_url := field ''url'', pane_title := field ''title'', pane_agent := field ''agent'', pane_markup := is_true item ''markup'',
                 pane_history := (if is_true item ''history'' then Some empty_history else None)\<rparr>
      | Md \<Rightarrow> p\<lparr>pane_path := field ''path'', pane_agent := field ''agent'', pane_markup := is_true item ''markup'', diff_base := field ''diff'',
                pane_history := Some empty_history\<rparr>
      | Code \<Rightarrow> p\<lparr>pane_path := field ''path'', pane_line := line_field item ''line'',
                  pane_comment := Option.bind (jget item ''comment'') comment_from_json, pane_history := Some empty_history\<rparr>
      | Diff \<Rightarrow> p\<lparr>pane_path := field ''path'', git_args := ok_flatten (read_diff_args (jget item ''args'')),
                  pane_view := ok_flatten (read_view (jget item ''view''))\<rparr>
      | Log \<Rightarrow> p\<lparr>pane_path := field ''path'', git_args := ok_flatten (read_diff_args (jget item ''args''))\<rparr>
      | Ios \<Rightarrow> p\<lparr>pane_app := field ''app'', pane_device := field ''device''\<rparr>
      | Serial \<Rightarrow> p\<lparr>pane_path := field ''path'', pane_device := field ''device'', pane_title := field ''title'',
                    pane_baud := ok_flatten (read_baud (jget item ''baud'')),
                    line_ending := ok_flatten (read_line_ending (jget item ''lineEnding''))\<rparr>)"

definition read_record :: "json \<Rightarrow> string \<Rightarrow> pane_type \<Rightarrow> pane" where
  "read_record item i kind =
     (let p = read_kind item (new_pane i (json_string item ''name'') kind)
      in if kind = Term then p\<lparr>pane_tour := Option.bind (jget item ''tour'') tour_from_json\<rparr>
         else if kind = Code \<or> kind = Md then p\<lparr>pane_stop := Option.bind (jget item ''tour'') stop_mark_from_json\<rparr>
         else p)"

subsection \<open>The upgrade of version 1\<close>

definition kinds_of :: "json \<Rightarrow> string \<Rightarrow> string option" where
  "kinds_of state = map_of (rev (List.map_filter (\<lambda>p.
     Option.bind (json_string p ''id'') (\<lambda>i. Option.bind (json_string p ''type'') (\<lambda>t.
       Option.bind (pane_type_parse t) (\<lambda>k. Some (i, content_prefix k))))) (jlist (jget state ''panes''))))"

definition upgrade_id :: "(string \<Rightarrow> string option) \<Rightarrow> string \<Rightarrow> string" where
  "upgrade_id kinds text =
     (let renam = (\<lambda>prefix to. map_option (\<lambda>n. to @ ''-'' @ dec n) (number_in text prefix));
          found = (case text of
              [] \<Rightarrow> None
            | c # _ \<Rightarrow>
                (if c = CHR ''p'' then Option.bind (kinds text) (\<lambda>k. renam ''p'' k)
                 else if c = CHR ''t'' then renam ''t'' ''tab''
                 else if c = CHR ''w'' then renam ''w'' ''win''
                 else if c = CHR ''s'' then renam ''s'' ''ws''
                 else None))
      in case found of Some x \<Rightarrow> x | None \<Rightarrow> text)"

fun upgrade_walk :: "(string \<Rightarrow> string) \<Rightarrow> string option \<Rightarrow> json \<Rightarrow> json" where
  "upgrade_walk f key (JString s) =
     (if key \<in> {Some ''id'', Some ''active'', Some ''focused'', Some ''zoomed'', Some ''workspace'', Some ''pane'', Some ''lastFocus''}
      then JString (f s) else JString s)"
| "upgrade_walk f key (JArray xs) = JArray (map (upgrade_walk f key) xs)"
| "upgrade_walk f key (JObject fs) = JObject (map (\<lambda>(k, v). (k, upgrade_walk f (Some k) v)) fs)"
| "upgrade_walk f key v = v"

text \<open>A state whose version is 1 is an object, so writing its fields does not panic.\<close>

definition upgrade_state :: "json \<Rightarrow> json" where
  "upgrade_state state =
     (if Option.bind (jget state ''version'') as_f64 \<noteq> Some 1 then state
      else (let get = (\<lambda>key. case Option.bind (jget state ''counters'') (\<lambda>c. jget c key) of Some v \<Rightarrow> v | None \<Rightarrow> Null);
                pn = get ''pane''
            in case upgrade_walk (upgrade_id (kinds_of state)) None state of
                 JObject fs \<Rightarrow> JObject (oinsert ''counters'' (JObject [(''term'', pn), (''page'', pn), (''file'', pn), (''ios'', pn), (''diff'', pn),
                     (''log'', pn), (''serial'', pn), (''tab'', get ''tab''), (''window'', get ''window''), (''workspace'', get ''workspace'')])
                   (oinsert ''version'' (num_nat STATE_VERSION) fs))
               | v \<Rightarrow> v))"

subsection \<open>Reading the panes\<close>

fun is_object :: "json \<Rightarrow> bool" where
  "is_object (JObject _) = True" | "is_object _ = False"

fun needed_field :: "pane_type \<Rightarrow> string option" where
  "needed_field Web = Some ''url''"
| "needed_field Ios = Some ''app''"
| "needed_field Term = None"
| "needed_field _ = Some ''path''"

definition missing_field :: "json \<Rightarrow> pane_type \<Rightarrow> bool" where
  "missing_field item kind =
     (case needed_field kind of
        None \<Rightarrow> False
      | Some k \<Rightarrow> (case json_string item k of None \<Rightarrow> True | Some s \<Rightarrow> s = []))"

text \<open>One entry of the list of panes: the state is the panes read, the IDs and the names so far, and the counter.\<close>

definition import_pane :: "(json \<Rightarrow> string) \<Rightarrow> pane list \<times> string list \<times> string list \<times> nat \<Rightarrow> json \<Rightarrow>
    (pane list \<times> string list \<times> string list \<times> nat) res" where
  "import_pane encode = (\<lambda>(ps, ids, names, n) item.
     (case json_string item ''id'' of
        None \<Rightarrow> Inl (bad_state (''pane '' @ quoted encode (jget item ''id'')))
      | Some i \<Rightarrow> (case Option.bind (json_string item ''type'') pane_type_parse of
          None \<Rightarrow> Inl (bad_state (''pane '' @ i @ '' has unknown type '' @ quoted encode (jget item ''type'')))
        | Some kind \<Rightarrow> (case (case number_in i ''p'' of
              Some k \<Rightarrow> Some k
            | None \<Rightarrow> (if number_in i (content_prefix kind @ ''-'') \<noteq> None then Some 0 else None)) of
            None \<Rightarrow> Inl (bad_state (''pane '' @ quoted encode (jget item ''id'')))
          | Some k \<Rightarrow>
              (if i \<in> set ids then Inl (bad_state (''pane '' @ quoted encode (jget item ''id'')))
               else (let name = json_string item ''name''
                     in if (case name of Some nm \<Rightarrow> nm = [] \<or> nm \<in> set names | None \<Rightarrow> False)
                        then Inl (bad_state (''pane name '' @ quoted encode (map_option JString name) @ '' is used twice''))
                        else if missing_field item kind
                        then Inl (bad_state (pane_type_str kind @ '' pane '' @ i @ '' has no '' @ or_empty (needed_field kind)))
                        else Inr (ps @ [read_record item i kind], ids @ [i],
                               (case name of Some nm \<Rightarrow> names @ [nm] | None \<Rightarrow> names), max n k)))))))"

definition import_versions :: "(json \<Rightarrow> string) \<Rightarrow> json \<Rightarrow> nat list \<Rightarrow> string \<Rightarrow> (pane list \<times> nat) res" where
  "import_versions encode state versions reader =
     (if \<not> is_object state then Inl (bad_state ''not an object'')
      else if \<not> (\<exists>v \<in> set versions. Option.bind (jget state ''version'') as_f64 = Some (of_nat v))
      then Inl (kmux_err ''bad_request'' (''unsupported state version '' @ quoted encode (jget state ''version'') @ '' ('' @ reader @ '' '' @
             join '' and '' (map dec versions) @ '')''))
      else (case (Option.bind (jget state ''panes'') as_array, Option.bind (jget state ''windows'') as_array) of
          (Some saved, Some _) \<Rightarrow>
            (let n = (case whole (Option.bind (jget state ''counters'') (\<lambda>c. jget c ''pane'')) of Some n \<Rightarrow> n | None \<Rightarrow> 0)
             in case try_fold (import_pane encode) ([], [], [], n) saved of
                  Inl e \<Rightarrow> Inl e
                | Inr (ps, _, _, n) \<Rightarrow> Inr (ps, n))
        | _ \<Rightarrow> Inl (bad_state ''needs panes and windows'')))"

definition import_panes :: "(json \<Rightarrow> string) \<Rightarrow> json \<Rightarrow> (pane list \<times> nat) res" where
  "import_panes encode state = import_versions encode state [1] ''this kmux reads''"

text \<open>The counters: a pane of a kind counts for its prefix; an entry with no ID or type is passed over here.\<close>

definition count_content :: "(json \<Rightarrow> string) \<Rightarrow> (string \<Rightarrow> nat option) \<Rightarrow> json \<Rightarrow> (string \<Rightarrow> nat option) res" where
  "count_content encode counters item =
     (case (json_string item ''id'', Option.bind (json_string item ''type'') pane_type_parse) of
        (Some i, Some kind) \<Rightarrow>
          (case (case split_once ''-'' i of
                   Some (prefix, n) \<Rightarrow>
                     (if prefix \<noteq> [] \<and> list_all is_lower prefix \<and> (case parse_usize n of Some k \<Rightarrow> k > 0 | None \<Rightarrow> False) then Some prefix else None)
                 | None \<Rightarrow> None) of
             None \<Rightarrow> Inl (bad_state (''pane '' @ quoted encode (jget item ''id'')))
           | Some prefix \<Rightarrow>
               (let kp = content_prefix kind in case (if prefix = kp then number_in i (kp @ ''-'') else None) of
                  None \<Rightarrow> Inl (bad_state (''pane '' @ i @ '' is a '' @ pane_type_str kind @ '' pane, so its ID is '' @ kp @ ''-N''))
                | Some n \<Rightarrow> Inr (counters(kp \<mapsto> max (case counters kp of Some k \<Rightarrow> k | None \<Rightarrow> 0) n))))
      | _ \<Rightarrow> Inr counters)"

definition import_content :: "(json \<Rightarrow> string) \<Rightarrow> json \<Rightarrow> (pane list \<times> (string \<Rightarrow> nat option)) res" where
  "import_content encode state =
     (if \<not> is_object state then Inl (bad_state ''not an object'')
      else if Option.bind (jget state ''version'') as_f64 \<noteq> Some (of_nat STATE_VERSION)
      then Inl (kmux_err ''bad_request'' (''unsupported state version '' @ quoted encode (jget state ''version'') @
             '' (this kmux reads 1 and '' @ dec STATE_VERSION @ '')''))
      else (let saved = jget state ''counters'';
                counters = (\<lambda>prefix. if prefix \<in> set content_prefixes
                   then Some (case whole (Option.bind saved (\<lambda>c. jget c prefix)) of Some n \<Rightarrow> n | None \<Rightarrow> 0) else None)
            in case try_fold (count_content encode) counters (jlist (jget state ''panes'')) of
                 Inl e \<Rightarrow> Inl e
               | Inr counters \<Rightarrow> (case import_versions encode state [STATE_VERSION] ''this kmux reads'' of
                   Inl e \<Rightarrow> Inl e | Inr (ps, _) \<Rightarrow> Inr (ps, counters))))"

end
