(* ===== verification/Mux_Host.thy ===== *)
theory Mux_Host
  imports Mux_State "HOL-Library.List_Lexorder" "HOL-Library.Product_Lexorder"
begin

text \<open>
  The layout as the daemon drives it: \<open>impl LayoutHost for Model\<close> (placing a pane, the queries, the
  dispatch of commands, listings, retitling) from \<open>kanna-mux/src/model.rs\<close>, and the request
  language of \<open>layout.rs\<close> with \<open>serve\<close>, its entry point. \<open>layout_env\<close> gathers the parts that are
  not this code: the clock, \<open>shlex::split\<close> and \<open>serde_json\<close>'s printer.
\<close>

record layout_env =
  env_now :: rat
  env_shlex :: "string \<Rightarrow> string list option"
  env_encode :: "json \<Rightarrow> string"

subsection \<open>Placing a pane\<close>

record placement =
  at_window :: "string option"
  at_workspace :: "string option"
  at_split :: split_side
  at_size :: rat
  at_new_tab :: bool
  at_dock :: "edge option"
  at_frozen :: bool
  at_from :: "string option"
  at_opener :: "string option"
  at_app :: "string option"
  at_shelf :: bool
  at_lead :: bool
  at_planner :: bool
  at_quiz :: bool
  at_background :: bool

definition default_placement :: placement where
  "default_placement = \<lparr>at_window = None, at_workspace = None, at_split = SAuto, at_size = 1 / 2, at_new_tab = False,
     at_dock = None, at_frozen = False, at_from = None, at_opener = None, at_app = None, at_shelf = False,
     at_lead = False, at_planner = False, at_quiz = False, at_background = False\<rparr>"

text \<open>Which holder the pane goes to, the tab and pane it goes beside, and whether it gets a new tab.\<close>

definition place_target :: "placement \<Rightarrow> model \<Rightarrow> model \<times> (holder \<times> (nat \<times> string) option \<times> bool) res" where
  "place_target pl m =
     (let asked = or_else (at_opener pl) (at_from pl);
          caller = Option.bind asked (\<lambda>c. map_option (Pair c) (holder_of m c));
          in_window = (\<lambda>(m, r). case r of Inl e \<Rightarrow> (m, Inl e) | Inr h \<Rightarrow> (m, Inr (h, None, at_new_tab pl)))
      in case (at_window pl, at_workspace pl) of
           (None, Some ws) \<Rightarrow> in_window (m, workspace_holder ws m)
         | (Some w, _) \<Rightarrow>
             (case (if w = ''new'' then caller else None) of
                Some (_, from) \<Rightarrow> (let (m, x) = window_for (ws_of m from) m in in_window (m, Inr (HWindow x)))
              | None \<Rightarrow> in_window (window_holder (Some w) m))
         | (None, None) \<Rightarrow> (case caller of
             Some (c, from) \<Rightarrow>
               (if side m from = Some c \<and> at_from pl \<noteq> None then (m, Inr (from, None, True))
                else if at_from pl = Some c
                then (m, Inr (from, map_option (\<lambda>l. (loc_tab l, c)) (locate m c), at_new_tab pl))
                else (m, Inr (from, None, at_new_tab pl)))
           | None \<Rightarrow> (case asked of
               Some c \<Rightarrow> (m, Inl (not_found (c @ '' is in no window or workspace, so there's nowhere beside it: say where with --window WINDOW (or --window new)'')))
             | None \<Rightarrow> (case target_window None m of
                 (m, Inl e) \<Rightarrow> (m, Inl e) | (m, Inr w) \<Rightarrow> (m, Inr (HWindow w, None, at_new_tab pl))))))"

definition place_tab :: "holder \<Rightarrow> (nat \<times> string) option \<Rightarrow> bool \<Rightarrow> model \<Rightarrow> model \<times> nat res" where
  "place_tab h beside fresh_tab m =
     (case beside of
        Some (t, _) \<Rightarrow> (m, Inr t)
      | None \<Rightarrow>
          (if fresh_tab \<or> ts_tabs (tabs_of m h) = [] then (let (m, t) = make_tab h True m in (m, Inr t))
           else (case active_index (tabs_of m h) of Some t \<Rightarrow> (m, Inr t) | None \<Rightarrow> (m, Inl panic))))"

definition place_beside :: "tabs \<Rightarrow> nat \<Rightarrow> (nat \<times> string) option \<Rightarrow> string option" where
  "place_beside ts t beside =
     (let ids = tab_panes (ts_tabs ts ! t)
      in if ids = [] then None
         else Some (case beside of
             Some (_, from) \<Rightarrow> from
           | None \<Rightarrow> (case keep_in ids (ts_focused ts) of Some f \<Rightarrow> f | None \<Rightarrow> last ids)))"

definition place_axis :: "placement \<Rightarrow> bool \<Rightarrow> axis" where
  "place_axis pl is_wide =
     (case at_split pl of SRight \<Rightarrow> Row | SDown \<Rightarrow> Column | SAuto \<Rightarrow> (if is_wide then Row else Column))"

definition place_focus :: "string \<Rightarrow> bool \<Rightarrow> nat \<Rightarrow> tabs \<Rightarrow> tabs" where
  "place_focus p beside t ts =
     (let ts = (if beside then ts\<lparr>ts_active := Some (tab_id (ts_tabs ts ! t))\<rparr> else ts);
          ts = ts\<lparr>ts_focused := Some p\<rparr>
      in case active_index ts of
           Some a \<Rightarrow> upd_tab a (\<lambda>x. x\<lparr>last_focus := Some p\<rparr>) ts
         | None \<Rightarrow> ts)"

definition place_in :: "string \<Rightarrow> placement \<Rightarrow> holder \<Rightarrow> (nat \<times> string) option \<Rightarrow> nat \<Rightarrow> model \<Rightarrow> model" where
  "place_in p pl h beside t m =
     (let m = (case place_beside (tabs_of m h) t beside of
          None \<Rightarrow> upd_tabs h (upd_tab t (\<lambda>x. x\<lparr>tab_root := Some (Pane p)\<rparr>)) m
        | Some target \<Rightarrow> upd_tabs h (tabs_insert (Pane p) target t (place_axis pl (wide m h t target)) True (at_size pl)) m)
      in upd_tabs h (place_focus p (beside \<noteq> None) t) m)"

definition place_tabbed :: "string \<Rightarrow> placement \<Rightarrow> model \<Rightarrow> model \<times> string option res" where
  "place_tabbed p pl m =
     (case place_target pl m of
        (m, Inl e) \<Rightarrow> (m, Inl e)
      | (m, Inr (h, beside, fresh_tab)) \<Rightarrow> (case place_tab h beside fresh_tab m of
          (m, Inl e) \<Rightarrow> (m, Inl e)
        | (m, Inr t) \<Rightarrow>
            (let m = place_in p pl h beside t m
             in (m, Inr (map_option (\<lambda>w. win_id (m_windows m ! w)) (window_of h))))))"

definition place_pane :: "rat \<Rightarrow> string \<Rightarrow> placement \<Rightarrow> panes \<Rightarrow> model \<Rightarrow> model \<times> string option res" where
  "place_pane now p pl ps m =
     (let app = (case at_app pl of Some a \<Rightarrow> a | None \<Rightarrow> MAC_APP)
      in if at_lead pl
         then (case lead_pane p (at_window pl) m of (m, Inl e) \<Rightarrow> (m, Inl e) | (m, Inr w) \<Rightarrow> (m, Inr (Some w)))
         else if at_background pl
         then (case at_workspace pl of
             None \<Rightarrow> (m, Inl (bad_request ''a background terminal needs the task's workspace''))
           | Some reference \<Rightarrow> (case find_workspace reference ps m of
               None \<Rightarrow> (m, Inl (not_found (''no task's workspace '' @ dq reference)))
             | Some s \<Rightarrow>
                 (if is_task (m_workspaces m ! s)
                  then (upd_ws s (\<lambda>x. x\<lparr>ws_background := ws_background x @ [p]\<rparr>) m, Inr None)
                  else (m, Inl (not_found (''no task's workspace '' @ dq reference))))))
         else if at_planner pl
         then (upd_ws 0 (\<lambda>x. x\<lparr>ws_left_at := None\<rparr>) (dock_workspace now p ELeft (Planner app) False m), Inr None)
         else if at_quiz pl then (dock_workspace now p ELeft (Quiz app) False m, Inr None)
         else (case at_dock pl of
             Some e \<Rightarrow> (dock_workspace now p e (if at_shelf pl then Shelf else Desk app) (at_frozen pl) m, Inr None)
           | None \<Rightarrow> place_tabbed p pl m))"

subsection \<open>Queries\<close>

record spot =
  sp_window :: "string option"
  sp_tab :: "string option"
  sp_dock :: "edge option"
  sp_workspace :: json
  sp_background :: bool

definition location_of :: "string \<Rightarrow> model \<Rightarrow> spot option" where
  "location_of p m =
     (case lead_window m p of
        Some w \<Rightarrow> Some \<lparr>sp_window = Some (win_id (m_windows m ! w)), sp_tab = None, sp_dock = None, sp_workspace = Null, sp_background = False\<rparr>
      | None \<Rightarrow> (case dock_ws m p of
          Some s \<Rightarrow>
            (let (win, ws) = spot_of (HWorkspace s) m
             in Some \<lparr>sp_window = win, sp_tab = None,
                  sp_dock = (if is_task (m_workspaces m ! s) then Some (dk_edge (ws_dock (m_workspaces m ! s))) else None),
                  sp_workspace = ws, sp_background = False\<rparr>)
        | None \<Rightarrow> (case background_ws m p of
            Some s \<Rightarrow> Some \<lparr>sp_window = None, sp_tab = None, sp_dock = None, sp_workspace = JObject (ws_summary (m_workspaces m ! s)), sp_background = True\<rparr>
          | None \<Rightarrow> (case locate m p of
              None \<Rightarrow> None
            | Some l \<Rightarrow>
                (let (win, ws) = spot_of (loc_holder l) m
                 in Some \<lparr>sp_window = win, sp_tab = Some (tab_id (ts_tabs (tabs_of m (loc_holder l)) ! loc_tab l)), sp_dock = None,
                      sp_workspace = ws, sp_background = False\<rparr>)))))"

datatype scope = ScopeTab string | ScopeWindow "string option" | ScopeTask string

fun panes_in :: "scope \<Rightarrow> model \<Rightarrow> model \<times> string list res" where
  "panes_in (ScopeTab reference) m =
     (case tab_index m reference of
        None \<Rightarrow> (m, Inl (not_found (''no tab '' @ dq reference)))
      | Some (h, t) \<Rightarrow> (m, Inr (tab_panes (ts_tabs (tabs_of m h) ! t))))"
| "panes_in (ScopeWindow reference) m =
     (case target_window reference m of
        (m, Inl e) \<Rightarrow> (m, Inl e)
      | (m, Inr w) \<Rightarrow> (m, Inr (window_placed (m_windows m ! w))))"
| "panes_in (ScopeTask task) m = (m, task_panes task m)"

definition background_of :: "string \<Rightarrow> model \<Rightarrow> string list" where
  "background_of task m =
     (case or_else (dock_ws m task) (ws_index m task) of None \<Rightarrow> [] | Some s \<Rightarrow> ws_background (m_workspaces m ! s))"

definition remember :: "model \<Rightarrow> model" where
  "remember m = m\<lparr>m_windows := map (\<lambda>w. w\<lparr>win_tabs := tabs_remember (win_tabs w)\<rparr>) (m_windows m),
     m_workspaces := map (\<lambda>s. s\<lparr>ws_tabs := tabs_remember (ws_tabs s)\<rparr>) (m_workspaces m)\<rparr>"

definition dock_of :: "string \<Rightarrow> model \<Rightarrow> string option" where
  "dock_of p m =
     Option.bind (holder_of m p) (\<lambda>h. Option.bind (ws_of m h) (\<lambda>s.
       let d = dk_pane (ws_dock (m_workspaces m ! s)) in if d \<noteq> p then Some d else None))"

definition showing :: "string \<Rightarrow> string list \<Rightarrow> model \<Rightarrow> string option" where
  "showing from among m =
     Option.bind (holder_of m from) (\<lambda>h.
       latest (tabs_of m h) (filter (\<lambda>i. case locate m i of Some l \<Rightarrow> loc_holder l = h | None \<Rightarrow> False) among))"

definition retitle_tabs :: "panes \<Rightarrow> tabs \<Rightarrow> tabs" where
  "retitle_tabs ps ts = ts\<lparr>ts_tabs := map (\<lambda>t. fst (tab_retitle ps t)) (ts_tabs ts)\<rparr>"

definition retitle :: "panes \<Rightarrow> model \<Rightarrow> model \<times> bool" where
  "retitle ps m =
     (m\<lparr>m_windows := map (\<lambda>w. w\<lparr>win_tabs := retitle_tabs ps (win_tabs w)\<rparr>) (m_windows m),
        m_workspaces := map (\<lambda>s. s\<lparr>ws_tabs := retitle_tabs ps (ws_tabs s)\<rparr>) (m_workspaces m)\<rparr>,
      \<exists>t \<in> set (concat (map (\<lambda>w. ts_tabs (win_tabs w)) (m_windows m)) @ concat (map (\<lambda>s. ts_tabs (ws_tabs s)) (m_workspaces m))).
        snd (tab_retitle ps t))"

definition list_window :: "panes \<Rightarrow> window \<Rightarrow> json" where
  "list_window ps w =
     (let ts = win_tabs w;
          rows = map (\<lambda>t. JObject [(''id'', JString (tab_id t)), (''title'', JString (tab_title t)),
                   (''active'', JBool (Some (tab_id t) = ts_active ts)), (''layout'', root_tree ps (tab_root t))]) (ts_tabs ts);
          out = [(''id'', JString (win_id w)), (''focused'', opt_json (map_option (display ps) (ts_focused ts))),
                 (''zoomed'', opt_json (map_option (display ps) (zoomed ts))), (''tabs'', JArray rows)];
          out = (case win_lead w of
              Some d \<Rightarrow> oinsert ''lead'' (JObject [(''pane'', JString (display ps (dk_pane d))), (''width'', JString (fraction_format (dk_width d)))]) out
            | None \<Rightarrow> out);
          out = (case win_ws w of Some i \<Rightarrow> oinsert ''workspace'' (JString i) out | None \<Rightarrow> out)
      in JObject out)"

definition windows_json :: "panes \<Rightarrow> model \<Rightarrow> json" where
  "windows_json ps m = JArray (map (\<lambda>w. list_window ps (m_windows m ! w)) (sorted_windows m))"

definition list_workspace :: "panes \<Rightarrow> model \<Rightarrow> nat \<Rightarrow> json" where
  "list_workspace ps m s =
     (let ws = m_workspaces m ! s; ts = ws_tabs ws;
          dk = (case dock_view m s ps of JObject fs \<Rightarrow> JObject (oinsert ''id'' (JString (dk_pane (ws_dock ws))) fs) | v \<Rightarrow> v);
          rows = map (\<lambda>t. JObject [(''id'', JString (tab_id t)), (''title'', JString (tab_title t)),
                   (''active'', JBool (ts_active ts = Some (tab_id t))), (''layout'', root_tree ps (tab_root t)),
                   (''panes'', JArray (map (\<lambda>p. JString (display ps p)) (tab_panes t)))]) (ts_tabs ts)
      in JObject (ws_summary ws @ [(''dock'', dk), (''tabs'', JArray rows),
           (''focused'', opt_json (map_option (display ps) (ts_focused ts))),
           (''zoomed'', opt_json (map_option (display ps) (zoomed ts))),
           (''windows'', JArray (map (\<lambda>w. JString (win_id w)) (workspace_windows m (ws_id ws)))),
           (''panes'', JArray (map JString (workspace_panes m s))),
           (''background'', JArray (map JString (ws_background ws)))]))"

definition workspaces_json :: "panes \<Rightarrow> model \<Rightarrow> json" where
  "workspaces_json ps m = JArray (map (list_workspace ps m) [0..<length (m_workspaces m)])"

subsection \<open>Commands\<close>

definition layout_commands :: "string list" where
  "layout_commands = [''focus'', ''zoom'', ''rename-tab'', ''move'', ''move-tab'', ''resize'', ''arrange'', ''task'', ''window'', ''desks'']"

definition command :: "layout_env \<Rightarrow> string \<Rightarrow> json \<Rightarrow> panes \<Rightarrow> model \<Rightarrow> model \<times> obj res" where
  "command env cmd args ps m =
     (if cmd = ''focus'' then focus_cmd args ps m
      else if cmd = ''zoom'' then zoom_cmd args ps m
      else if cmd = ''rename-tab'' then rename_tab_cmd args m
      else if cmd = ''move'' then move_pane_cmd args ps m
      else if cmd = ''move-tab'' then move_tab_cmd args m
      else if cmd = ''resize'' then resize_cmd args ps m
      else if cmd = ''arrange'' then arrange_cmd args ps m
      else if cmd = ''task'' then task_cmd (env_shlex env) (env_now env) args ps m
      else if cmd = ''window'' then window_command args ps m
      else if cmd = ''desks'' then set_desks args m
      else (m, Inl (bad_request (''unknown command '' @ dq cmd))))"

subsection \<open>Requests (layout.rs)\<close>

fun split_name :: "split_side \<Rightarrow> string" where
  "split_name SRight = ''right''" | "split_name SDown = ''down''" | "split_name SAuto = ''auto''"

definition pane_entry :: "pane \<Rightarrow> json" where
  "pane_entry p = JObject (pane_record p)"

definition pane_table :: "panes \<Rightarrow> json" where
  "pane_table ps = JArray (map pane_entry (panes_iter ps))"

abbreviation (input) put_flag :: "string \<Rightarrow> bool \<Rightarrow> obj \<Rightarrow> obj" where
  "put_flag k b out \<equiv> (if b then oinsert k (JBool True) out else out)"

abbreviation (input) put_opt :: "string \<Rightarrow> string option \<Rightarrow> obj \<Rightarrow> obj" where
  "put_opt k v out \<equiv> (case v of Some s \<Rightarrow> oinsert k (JString s) out | None \<Rightarrow> out)"

definition placement_json :: "placement \<Rightarrow> obj" where
  "placement_json pl =
     (let out = put_flag ''frozen'' (at_frozen pl) [];
          out = put_flag ''shelf'' (at_shelf pl) out;
          out = put_flag ''lead'' (at_lead pl) out;
          out = put_flag ''planner'' (at_planner pl) out;
          out = put_flag ''quiz'' (at_quiz pl) out;
          out = put_flag ''background'' (at_background pl) out;
          out = put_opt ''app'' (at_app pl) out;
          out = put_opt ''from'' (at_from pl) out;
          out = put_opt ''opener'' (at_opener pl) out;
          out = put_opt ''dock'' (map_option edge_str (at_dock pl)) out;
          out = put_opt ''window'' (at_window pl) out;
          out = put_opt ''workspace'' (at_workspace pl) out;
          out = (if at_split pl \<noteq> SAuto then oinsert ''split'' (JString (split_name (at_split pl))) out else out);
          out = (if at_size pl \<noteq> 1 / 2 then oinsert ''size'' (num (at_size pl)) out else out)
      in put_flag ''tab'' (at_new_tab pl) out)"

definition place_request :: "pane \<Rightarrow> placement \<Rightarrow> json" where
  "place_request p pl = JObject [(''op'', JString ''place''), (''pane'', pane_entry p), (''at'', JObject (placement_json pl))]"

fun scope_request :: "scope \<Rightarrow> json" where
  "scope_request (ScopeTab t) = JObject [(''op'', JString ''panes-in''), (''tab'', JString t)]"
| "scope_request (ScopeWindow w) = JObject [(''op'', JString ''panes-in''), (''window'', opt_json w)]"
| "scope_request (ScopeTask t) = JObject [(''op'', JString ''panes-in''), (''task'', JString t)]"

definition bad_layout :: "string \<Rightarrow> kmux_error" where
  "bad_layout m = kmux_err ''bad_request'' (''bad layout request: '' @ m)"

fun try_map :: "('a \<Rightarrow> 'b res) \<Rightarrow> 'a list \<Rightarrow> 'b list res" where
  "try_map f [] = Inr []"
| "try_map f (x # xs) =
     (case f x of Inl e \<Rightarrow> Inl e | Inr y \<Rightarrow> (case try_map f xs of Inl e \<Rightarrow> Inl e | Inr ys \<Rightarrow> Inr (y # ys)))"

definition read_pane_entry :: "json \<Rightarrow> pane res" where
  "read_pane_entry entry =
     (case json_string entry ''id'' of
        None \<Rightarrow> Inl (bad_layout ''a pane has no id'')
      | Some i \<Rightarrow>
          (if i = [] then Inl (bad_layout ''a pane has no id'')
           else (case Option.bind (json_string entry ''type'') pane_type_parse of
               None \<Rightarrow> Inl (bad_layout (''pane '' @ i @ '' has no known type''))
             | Some kind \<Rightarrow>
                 (let p = read_record entry i kind;
                      p = (case Option.bind (json_string entry ''state'') pane_state_parse of Some s \<Rightarrow> p\<lparr>pane_st := s\<rparr> | None \<Rightarrow> p)
                  in Inr (p\<lparr>pane_error := json_string entry ''error''\<rparr>)))))"

definition read_pane_table :: "json \<Rightarrow> pane list res" where
  "read_pane_table v =
     (case as_array v of None \<Rightarrow> Inl (bad_layout ''panes must be a list'') | Some entries \<Rightarrow> try_map read_pane_entry entries)"

definition read_ids :: "json option \<Rightarrow> string list res" where
  "read_ids v =
     (case Option.bind v as_array of
        None \<Rightarrow> Inl (bad_layout ''needs a list of panes'')
      | Some xs \<Rightarrow> try_map (\<lambda>x. ok_or (bad_layout ''pane ids are strings'') (as_str x)) xs)"

definition read_split :: "json \<Rightarrow> split_side res" where
  "read_split v =
     (case json_string v ''split'' of
        None \<Rightarrow> Inr SAuto
      | Some s \<Rightarrow> (if s = ''auto'' then Inr SAuto else if s = ''right'' then Inr SRight else if s = ''down'' then Inr SDown
                   else Inl (bad_layout ''split must be right, down or auto'')))"

definition read_size :: "json \<Rightarrow> rat res" where
  "read_size v =
     (case jget v ''size'' of
        None \<Rightarrow> Inr (1 / 2)
      | Some w \<Rightarrow> (case as_f64 w of
          Some s \<Rightarrow> if 0 < s \<and> s < 1 then Inr s else Inl (bad_layout ''size must be a fraction between 0 and 1'')
        | None \<Rightarrow> Inl (bad_layout ''size must be a fraction between 0 and 1'')))"

definition read_placement :: "json \<Rightarrow> placement res" where
  "read_placement v =
     (case read_split v of
        Inl e \<Rightarrow> Inl e
      | Inr sp \<Rightarrow> (case read_size v of
          Inl e \<Rightarrow> Inl e
        | Inr sz \<Rightarrow> (case edge_read (jget v ''dock'') of
            Inl _ \<Rightarrow> Inl (bad_layout ''dock must be left or right'')
          | Inr d \<Rightarrow>
              Inr \<lparr>at_window = json_string v ''window'', at_workspace = json_string v ''workspace'', at_split = sp, at_size = sz,
                at_new_tab = is_true v ''tab'', at_dock = d, at_frozen = is_true v ''frozen'', at_from = json_string v ''from'',
                at_opener = json_string v ''opener'', at_app = json_string v ''app'', at_shelf = is_true v ''shelf'',
                at_lead = is_true v ''lead'', at_planner = is_true v ''planner'', at_quiz = is_true v ''quiz'',
                at_background = is_true v ''background''\<rparr>)))"

definition spot_reply :: "spot option \<Rightarrow> string option \<Rightarrow> obj" where
  "spot_reply sp win =
     (let out = oinsert ''window'' (opt_json (or_else (Option.bind sp sp_window) win)) [];
          out = oinsert ''tab'' (opt_json (Option.bind sp sp_tab)) out;
          out = (case Option.bind sp sp_dock of Some e \<Rightarrow> oinsert ''dock'' (JString (edge_str e)) out | None \<Rightarrow> out);
          out = (case sp of Some s \<Rightarrow> if sp_background s then oinsert ''background'' (JBool True) out else out | None \<Rightarrow> out)
      in case sp of Some s \<Rightarrow> if sp_workspace s \<noteq> Null then oinsert ''workspace'' (sp_workspace s) out else out | None \<Rightarrow> out)"

definition step_place :: "layout_env \<Rightarrow> json \<Rightarrow> panes \<Rightarrow> model \<Rightarrow> model \<times> obj res" where
  "step_place env request ps m =
     (case Option.bind (jget request ''pane'') (\<lambda>v. json_string v ''id'') of
        None \<Rightarrow> (m, Inl (bad_layout ''place needs a pane''))
      | Some p \<Rightarrow> (case read_placement (case jget request ''at'' of Some v \<Rightarrow> v | None \<Rightarrow> Null) of
          Inl e \<Rightarrow> (m, Inl e)
        | Inr pl \<Rightarrow> (case place_pane (env_now env) p pl ps m of
            (m, Inl e) \<Rightarrow> (m, Inl e)
          | (m, Inr win) \<Rightarrow> (m, Inr (spot_reply (location_of p m) win)))))"

definition step_remove :: "json \<Rightarrow> model \<Rightarrow> model \<times> obj res" where
  "step_remove request m =
     (let m = (case json_string request ''task'' of Some task \<Rightarrow> close_task task m | None \<Rightarrow> m)
      in case read_ids (jget request ''ids'') of
           Inl e \<Rightarrow> (m, Inl e)
         | Inr ids \<Rightarrow>
             (let m = foldl (\<lambda>m p. detach p m) m ids
              in (if is_true request ''tidy'' then drop_empty m else m, Inr [])))"

text \<open>The order of \<open>sort_by_key(|id| (id.len(), id.clone()))\<close>: byte length, then the text.\<close>

definition byte_order :: "string \<Rightarrow> nat \<times> nat list" where
  "byte_order i = (sum_list (map (\<lambda>c. if code c < 128 then 1 else 2) i), map code i)"

definition step_saved :: "layout_env \<Rightarrow> bool \<Rightarrow> json \<Rightarrow> model \<Rightarrow> model \<times> obj res" where
  "step_saved env installing request m =
     (case read_ids (jget request ''ids'') of
        Inl e \<Rightarrow> (m, Inl e)
      | Inr known \<Rightarrow> (case read_layout (env_encode env) (case jget request ''state'' of Some v \<Rightarrow> v | None \<Rightarrow> Null) known of
          Inl e \<Rightarrow> (m, Inl e)
        | Inr (taken, saved) \<Rightarrow>
            (if installing then install saved m else m,
             Inr [(''placed'', JArray (map JString (sort_key byte_order taken)))])))"

definition step :: "layout_env \<Rightarrow> json \<Rightarrow> panes \<Rightarrow> model \<Rightarrow> model \<times> obj res" where
  "step env request ps m =
     (let op = or_empty (json_string request ''op'')
      in if op = ''place'' then step_place env request ps m
         else if op = ''location'' then (m, Inr (spot_reply (Option.bind (json_string request ''pane'') (\<lambda>p. location_of p m)) None))
         else if op = ''showing''
         then (case json_string request ''from'' of
             None \<Rightarrow> (m, Inl (bad_layout ''showing needs from''))
           | Some from \<Rightarrow> (case read_ids (jget request ''among'') of
               Inl e \<Rightarrow> (m, Inl e)
             | Inr among \<Rightarrow> (m, Inr [(''pane'', opt_json (showing from among m))])))
         else if op = ''dock-of''
         then (case json_string request ''pane'' of
             None \<Rightarrow> (m, Inl (bad_layout ''dock-of needs a pane''))
           | Some p \<Rightarrow> (m, Inr [(''dock'', opt_json (dock_of p m))]))
         else if op = ''panes-in''
         then (let sc = (case json_string request ''tab'' of
                   Some t \<Rightarrow> ScopeTab t
                 | None \<Rightarrow> (case json_string request ''task'' of
                     Some t \<Rightarrow> ScopeTask t
                   | None \<Rightarrow> ScopeWindow (json_string request ''window'')))
               in case panes_in sc m of
                    (m, Inl e) \<Rightarrow> (m, Inl e)
                  | (m, Inr ids) \<Rightarrow>
                      (m, Inr ([(''panes'', JArray (map JString ids))] @
                        (case sc of ScopeTask t \<Rightarrow> [(''background'', JArray (map JString (background_of t m)))] | _ \<Rightarrow> []))))
         else if op = ''remove'' then step_remove request m
         else if op = ''command''
         then (let cmd = or_empty (json_string request ''cmd'')
               in if cmd \<notin> set layout_commands then (m, Inl (bad_request (''unknown command '' @ dq cmd)))
                  else command env cmd (case jget request ''args'' of Some v \<Rightarrow> v | None \<Rightarrow> Null) ps m)
         else if op = ''windows''
         then (m, Inr [(''windows'', windows_json ps m), (''workspaces'', workspaces_json ps m), (''hiddenWindows'', JArray []), (''desks'', desk_rows m)])
         else if op = ''export'' then (m, Inr (export_v1 m))
         else if op = ''check'' then step_saved env False request m
         else if op = ''install'' then step_saved env True request m
         else (m, Inl (bad_layout (''unknown op '' @ dq op))))"

definition serve :: "layout_env \<Rightarrow> json \<Rightarrow> panes \<Rightarrow> model \<Rightarrow> model \<times> obj res" where
  "serve env request ps m =
     (let m = fst (retitle ps m);
          (m, result) = step env request ps m;
          m = fst (retitle ps m)
      in (remember m, result))"

end
