(* ===== verification/Mux_Slots.thy ===== *)
theory Mux_Slots
  imports Mux_Layout
begin

text \<open>
  Slots: places that hold one pane each and can be overwritten. A tree, the tabs of a holder and the
  whole model all have them (\<open>Tabs::set_at\<close>, the docks of workspaces), and \<open>Model::swap\<close> reads two
  slots and writes them crosswise. The interface states what reading and writing one slot promise;
  what a swap does follows from that once, for every level.
\<close>

locale slots =
  fixes get :: "'k \<Rightarrow> 's \<Rightarrow> 'v option"
    and put :: "'k \<Rightarrow> 'v \<Rightarrow> 's \<Rightarrow> 's"
    and bag :: "'s \<Rightarrow> 'v multiset"
  assumes put_same: "get k s = Some x \<Longrightarrow> get k (put k v s) = Some v"
    and put_other: "get k s = Some x \<Longrightarrow> l \<noteq> k \<Longrightarrow> get l (put k v s) = get l s"
    and put_bag: "get k s = Some x \<Longrightarrow> add_mset x (bag (put k v s)) = add_mset v (bag s)"
begin

lemma crossed:
  assumes "get k s = Some a" "get l s = Some b" "k \<noteq> l"
  shows "bag (put l a (put k b s)) = bag s"
    and "get k (put l a (put k b s)) = Some b" and "get l (put l a (put k b s)) = Some a"
    and "j \<noteq> k \<Longrightarrow> j \<noteq> l \<Longrightarrow> get j (put l a (put k b s)) = get j s"
proof -
  let ?s = "put k b s"
  have l: "get l ?s = Some b" using put_other [OF assms(1)] assms(2,3) by simp
  have "add_mset b (bag (put l a ?s)) = add_mset a (bag ?s)" using put_bag [OF l] .
  also have "\<dots> = add_mset b (bag s)" using put_bag [OF assms(1)] by simp
  finally show "bag (put l a ?s) = bag s" by simp
  show "get k (put l a ?s) = Some b" using put_other [OF l] put_same [OF assms(1)] assms(3) by simp
  show "get l (put l a ?s) = Some a" using put_same [OF l] .
  show "get j (put l a ?s) = get j s" if "j \<noteq> k" "j \<noteq> l"
    using put_other [OF l] put_other [OF assms(1)] that by simp
qed

text \<open>A value in two slots counts twice.\<close>

lemma twice:
  assumes "get k s = Some a" "get l s = Some a" "k \<noteq> l" "v \<noteq> a"
  shows "2 \<le> count (bag s) a"
proof -
  have l: "get l (put k v s) = Some a" using put_other [OF assms(1)] assms(2,3) by simp
  have "count (add_mset a (bag (put l v (put k v s)))) a = count (bag (put k v s)) a"
    using put_bag [OF l, of v] assms(4) by simp
  moreover have "count (add_mset a (bag (put k v s))) a = count (bag s) a"
    using put_bag [OF assms(1), of v] assms(4) by simp
  ultimately show ?thesis by simp
qed

end

subsection \<open>Slots of a tree\<close>

definition kid_get :: "nat \<Rightarrow> kids \<Rightarrow> string option" where
  "kid_get i ks = (if i < length ks then (case fst (ks ! i) of Pane p \<Rightarrow> Some p | _ \<Rightarrow> None) else None)"

definition kid_put :: "nat \<Rightarrow> string \<Rightarrow> kids \<Rightarrow> kids" where
  "kid_put i p ks = ks[i := (Pane p, snd (ks ! i))]"

fun leaf_get :: "nat list \<times> nat \<Rightarrow> node \<Rightarrow> string option" where
  "leaf_get (path, i) n = (case split_at n path of None \<Rightarrow> None | Some (a, ks) \<Rightarrow> kid_get i ks)"

fun leaf_put :: "nat list \<times> nat \<Rightarrow> string \<Rightarrow> node \<Rightarrow> node" where
  "leaf_put (path, i) p n = upd_split (kid_put i p) path n"

lemma kid_get_SomeD: "kid_get i ks = Some p \<Longrightarrow> i < length ks \<and> fst (ks ! i) = Pane p"
  by (auto simp: kid_get_def split: if_splits node.splits)

lemma split_at_upd_same: "split_at n path = Some (a, ks) \<Longrightarrow> split_at (upd_split f path n) path = Some (a, f ks)"
  by (induction n path rule: split_at.induct) (auto split: if_splits)

lemma upd_split_Split: "split_at n path = Some x \<Longrightarrow> \<exists>a ks. n = Split a ks \<and> (\<exists>ks'. upd_split f path n = Split a ks')"
  by (cases n; cases path) auto

lemma leaf_put_other:
  "split_at n path = Some (a, ks) \<Longrightarrow> kid_get i ks = Some x \<Longrightarrow> (path', j) \<noteq> (path, i) \<Longrightarrow>
   leaf_get (path', j) (upd_split (kid_put i p) path n) = leaf_get (path', j) n"
proof (induction n path arbitrary: path' rule: split_at.induct)
  case (1 b ks')
  then have ks: "ks' = ks" and i: "i < length ks" "fst (ks ! i) = Pane x" by (auto dest: kid_get_SomeD)
  show ?case
  proof (cases path')
    case Nil
    with 1 ks show ?thesis by (auto simp: kid_get_def kid_put_def)
  next
    case (Cons c rest)
    have "split_at (fst (kid_put i p ks ! c)) rest = split_at (fst (ks ! c)) rest" if "c < length ks"
      using i that by (cases "c = i") (auto simp: kid_put_def nth_list_update)
    with Cons ks show ?thesis by (simp add: kid_put_def)
  qed
next
  case (3 b ks' c rest)
  from 3(2) have c: "c < length ks'" and at: "split_at (fst (ks' ! c)) rest = Some (a, ks)"
    by (auto split: if_splits)
  let ?new = "upd_split (kid_put i p) rest (fst (ks' ! c))"
  show ?case
  proof (cases path')
    case Nil
    obtain d ds ds' where "fst (ks' ! c) = Split d ds" "?new = Split d ds'"
      using upd_split_Split [OF at] by blast
    with Nil c show ?thesis by (auto simp: kid_get_def nth_list_update)
  next
    case (Cons c' rest')
    show ?thesis
    proof (cases "c' = c")
      case True
      with Cons 3(4) have "(rest', j) \<noteq> (rest, i)" by auto
      from 3(1) [OF c at 3(3) this] True Cons c show ?thesis by simp
    qed (use Cons c in simp)
  qed
qed simp

lemma kid_ids_kid_put:
  "kid_get i ks = Some x \<Longrightarrow> add_mset x (mset (kid_ids (kid_put i p ks))) = add_mset p (mset (kid_ids ks))"
  using kid_ids_split [of i ks] kid_ids_update [of i ks "(Pane p, snd (ks ! i))"]
  by (auto simp: kid_put_def dest!: kid_get_SomeD)

interpretation tree_slots: slots leaf_get leaf_put "\<lambda>n. mset (pane_ids n)"
proof
  fix k l :: "nat list \<times> nat" and n x v
  obtain path i where k: "k = (path, i)" by force
  obtain path' j where l: "l = (path', j)" by force
  assume "leaf_get k n = Some x"
  then obtain a ks where ks: "split_at n path = Some (a, ks)" "kid_get i ks = Some x"
    by (auto simp: k split: option.splits)
  show "leaf_get k (leaf_put k v n) = Some v"
    using ks split_at_upd_same [OF ks(1)] by (auto simp: k kid_get_def kid_put_def split: if_splits)
  show "l \<noteq> k \<Longrightarrow> leaf_get l (leaf_put k v n) = leaf_get l n"
    using leaf_put_other [OF ks, of path' j v] by (simp add: k l)
  obtain pre post where "pane_ids n = pre @ kid_ids ks @ post"
    "pane_ids (upd_split (kid_put i v) path n) = pre @ kid_ids (kid_put i v ks) @ post"
    using upd_split_ids [OF ks(1)] by metis
  with kid_ids_kid_put [OF ks(2), of v]
  show "add_mset x (mset (pane_ids (leaf_put k v n))) = add_mset v (mset (pane_ids n))"
    by (simp add: k)
qed

subsection \<open>Slots of the tabs\<close>

fun root_get :: "nat list option \<times> nat \<Rightarrow> node option \<Rightarrow> string option" where
  "root_get (None, i) r = (case r of Some (Pane p) \<Rightarrow> if i = 0 then Some p else None | _ \<Rightarrow> None)"
| "root_get (Some path, i) r = (case r of Some n \<Rightarrow> leaf_get (path, i) n | None \<Rightarrow> None)"

lemma root_set_leaf: "root_set (Some path) i p (Some n) = Some (leaf_put (path, i) p n)"
  by (simp add: root_set_def kid_put_def [abs_def])

lemma leaf_get_Pane [simp]: "leaf_get k (Pane p) = None"
  by (cases k) simp

lemma leaf_put_Split:
  assumes "leaf_get k n = Some x" shows "\<exists>a ks. leaf_put k v n = Split a ks"
proof -
  obtain path i where k: "k = (path, i)" by force
  with assms obtain y where "split_at n path = Some y" by (auto split: option.splits)
  from upd_split_Split [OF this, of "kid_put i v"] show ?thesis by (auto simp: k)
qed

interpretation root_slots: slots root_get "\<lambda>(parent, i). root_set parent i" "\<lambda>r. mset (root_ids r)"
proof
  fix k l :: "nat list option \<times> nat" and r x v
  obtain parent i where k: "k = (parent, i)" by force
  obtain parent' j where l: "l = (parent', j)" by force
  assume g: "root_get k r = Some x"
  show "root_get k ((\<lambda>(parent, i). root_set parent i) k v r) = Some v"
  proof (cases parent)
    case (Some path)
    with g k show ?thesis
      by (auto simp: root_set_leaf split: option.splits simp del: leaf_get.simps leaf_put.simps intro: tree_slots.put_same)
  qed (use g k in \<open>auto simp: root_set_def split: option.splits node.splits if_splits\<close>)
  show "root_get l ((\<lambda>(parent, i). root_set parent i) k v r) = root_get l r" if "l \<noteq> k"
  proof (cases parent)
    case (Some path)
    with g k obtain n where n: "r = Some n" "leaf_get (path, i) n = Some x" by (auto split: option.splits)
    obtain a ks where s: "leaf_put (path, i) v n = Split a ks" using leaf_put_Split [OF n(2)] by blast
    obtain b ks' where "n = Split b ks'" using n(2) by (cases n) (auto split: option.splits)
    with Some n k l that s tree_slots.put_other [OF n(2), of "(the parent', j)" v] show ?thesis
      by (cases parent') (auto simp: root_set_leaf simp del: leaf_get.simps leaf_put.simps)
  next
    case None
    with g k have "r = Some (Pane x)" "i = 0" by (auto split: option.splits node.splits if_splits)
    with None that k l show ?thesis by (cases parent') (auto simp: root_set_def)
  qed
  show "add_mset x (mset (root_ids ((\<lambda>(parent, i). root_set parent i) k v r))) = add_mset v (mset (root_ids r))"
  proof (cases parent)
    case (Some path)
    with g k show ?thesis
      by (auto simp: root_set_leaf split: option.splits simp del: leaf_get.simps leaf_put.simps intro: tree_slots.put_bag)
  qed (use g k in \<open>auto simp: root_set_def split: option.splits node.splits if_splits\<close>)
qed

fun tab_slot_get :: "nat \<times> nat list option \<times> nat \<Rightarrow> tabs \<Rightarrow> string option" where
  "tab_slot_get (t, k) ts = (if t < length (ts_tabs ts) then root_get k (tab_root (ts_tabs ts ! t)) else None)"

fun tab_slot_put :: "nat \<times> nat list option \<times> nat \<Rightarrow> string \<Rightarrow> tabs \<Rightarrow> tabs" where
  "tab_slot_put (t, parent, i) p ts = tabs_set_at t parent i p ts"

lemma mset_tabs_upd_tab:
  "t < length (ts_tabs ts) \<Longrightarrow>
   mset (tabs_panes (upd_tab t f ts)) + mset (tab_panes (ts_tabs ts ! t)) =
   mset (tabs_panes ts) + mset (tab_panes (f (ts_tabs ts ! t)))"
  by (simp add: tabs_panes_at [of t ts] tabs_panes_upd_tab)

interpretation tab_slots: slots tab_slot_get tab_slot_put "\<lambda>ts. mset (tabs_panes ts)"
proof
  fix k l :: "nat \<times> nat list option \<times> nat" and ts x v
  obtain t parent i where k: "k = (t, parent, i)" by (cases k) auto
  obtain u parent' j where l: "l = (u, parent', j)" by (cases l) auto
  assume "tab_slot_get k ts = Some x"
  then have t: "t < length (ts_tabs ts)" and g: "root_get (parent, i) (tab_root (ts_tabs ts ! t)) = Some x"
    by (auto simp: k split: if_splits)
  note r = root_slots.put_same [OF g, of v] root_slots.put_other [OF g, of _ v] root_slots.put_bag [OF g, of v]
  show "tab_slot_get k (tab_slot_put k v ts) = Some v"
    using t r(1) by (simp add: k tabs_set_at_def upd_tab_def)
  show "l \<noteq> k \<Longrightarrow> tab_slot_get l (tab_slot_put k v ts) = tab_slot_get l ts"
    using t r(2) [of "(parent', j)"] by (auto simp: k l tabs_set_at_def upd_tab_def nth_list_update)
  let ?f = "\<lambda>tb. tb\<lparr>tab_root := root_set parent i v (tab_root tb)\<rparr>"
  have "mset (tabs_panes (upd_tab t ?f ts)) + mset (root_ids (tab_root (ts_tabs ts ! t))) + {#x#} =
      mset (tabs_panes ts) + (mset (root_ids (root_set parent i v (tab_root (ts_tabs ts ! t)))) + {#x#})"
    using mset_tabs_upd_tab [OF t, of ?f] by (simp add: tab_panes_def)
  also have "\<dots> = mset (tabs_panes ts) + (mset (root_ids (tab_root (ts_tabs ts ! t))) + {#v#})"
    using r(3) by simp
  finally show "add_mset x (mset (tabs_panes (tab_slot_put k v ts))) = add_mset v (mset (tabs_panes ts))"
    by (simp add: k tabs_set_at_def)
qed

lemma locate_in_root_get: "locate_in r p = Some k \<Longrightarrow> root_get k r = Some p"
proof -
  assume l: "locate_in r p = Some k"
  obtain parent i where k: "k = (parent, i)" by force
  show ?thesis
  proof (cases parent)
    case (Some path)
    with l k locate_in_SomeD obtain n where n: "r = Some n" by blast
    with l k Some have "locate_in (Some n) p = Some (Some path, i)" by simp
    then obtain a ks where "split_at n path = Some (a, ks)" "i < length ks" "fst (ks ! i) = Pane p"
      by (rule locate_in_split_at)
    with Some k n show ?thesis by (simp add: kid_get_def)
  next
    case None
    with l k show ?thesis by (auto simp: locate_in_def split: option.splits node.splits if_splits)
  qed
qed

lemma tabs_locate_slot: "tabs_locate ts p = Some k \<Longrightarrow> tab_slot_get k ts = Some p"
  by (cases k) (auto dest: tabs_locate_SomeD locate_in_root_get)

end
