(* ===== verification/Mux_Kept.thy ===== *)
theory Mux_Kept
  imports Mux_Slots
begin

text \<open>
  Which panes the layout holds, and what the building blocks of \<open>model.rs\<close> do to them: taking a pane
  out (\<open>detach\<close>, \<open>dissolve\<close>), swapping two, dropping what is empty. The panes are a multiset, so a
  pane that is in two places counts twice; \<open>layout_ok\<close> says that none is, and that every tree is well
  formed.
\<close>

subsection \<open>Sums over lists\<close>

lemma sum_list_update_add:
  fixes f :: "'a \<Rightarrow> 'b :: comm_monoid_add"
  shows "i < length xs \<Longrightarrow> sum_list (map f (xs[i := y])) + f (xs ! i) = sum_list (map f xs) + f y"
  by (induction xs arbitrary: i) (auto simp: nth_Cons ac_simps split: nat.splits)

lemma sum_list_remove_at_add:
  fixes f :: "'a \<Rightarrow> 'b :: comm_monoid_add"
  shows "i < length xs \<Longrightarrow> sum_list (map f (remove_at i xs)) + f (xs ! i) = sum_list (map f xs)"
  by (subst (3) id_take_nth_drop [of i xs]) (simp_all add: remove_at_def ac_simps)

lemma count_sum_list: "count (sum_list (map f xs)) p = sum_list (map (\<lambda>x. count (f x) p) xs)"
  by (induction xs) simp_all

lemma mem_sum_list: "p \<in># sum_list (map f xs) \<longleftrightarrow> (\<exists>x \<in> set xs. p \<in># f x)"
  by (induction xs) auto

lemma mset_exchange:
  fixes s s' a b t u :: "'a multiset"
  assumes "s' + a = s + b" "b + t = a + u" shows "s' + t = s + u"
proof -
  have "s' + t + a = s' + a + t" by (simp add: ac_simps)
  also have "\<dots> = s + u + a" using assms by (metis add.assoc add.commute)
  finally show ?thesis by simp
qed

subsection \<open>The panes of the model\<close>

definition window_bag :: "window \<Rightarrow> string multiset" where
  "window_bag w = mset (tabs_panes (win_tabs w)) + (case win_lead w of Some d \<Rightarrow> {#dk_pane d#} | None \<Rightarrow> {#})"

definition ws_bag :: "workspace \<Rightarrow> string multiset" where
  "ws_bag s = add_mset (dk_pane (ws_dock s)) (mset (tabs_panes (ws_tabs s)) + mset (ws_background s))"

definition pane_bag :: "model \<Rightarrow> string multiset" where
  "pane_bag m = sum_list (map window_bag (m_windows m)) + sum_list (map ws_bag (m_workspaces m)) +
     sum_list (map (\<lambda>ts. mset (tabs_panes ts)) (m_orphans m))"

lemma window_bag_placed: "window_bag w = mset (window_placed w)"
  by (simp add: window_bag_def window_placed_def split: option.splits)

lemma ws_bag_placed: "ws_bag s = mset (ws_placed s)"
  by (simp add: ws_bag_def ws_placed_def)

lemma mset_concat_map: "mset (concat (map f xs)) = sum_list (map (\<lambda>x. mset (f x)) xs)"
  by (induction xs) simp_all

lemma pane_bag_placed: "m_orphans m = [] \<Longrightarrow> pane_bag m = mset (placed m)"
  by (simp add: pane_bag_def placed_def mset_concat_map window_bag_placed [abs_def] ws_bag_placed [abs_def])

definition once :: "'a multiset \<Rightarrow> bool" where
  "once b \<longleftrightarrow> (\<forall>p. count b p \<le> 1)"

definition all_tabs :: "model \<Rightarrow> tabs list" where
  "all_tabs m = map win_tabs (m_windows m) @ map ws_tabs (m_workspaces m) @ m_orphans m"

definition layout_ok :: "model \<Rightarrow> bool" where
  "layout_ok m \<longleftrightarrow> once (pane_bag m) \<and> (\<forall>ts \<in> set (all_tabs m). tabs_ok ts)"

lemma once_mset: "once (mset xs) \<longleftrightarrow> distinct xs"
proof -
  have "(count (mset xs) p = (if p \<in> set xs then 1 else 0)) \<longleftrightarrow> count (mset xs) p \<le> 1" for p
    by (cases "p \<in> set xs") (auto simp: count_eq_zero_iff le_Suc_eq)
  then show ?thesis by (simp add: once_def distinct_count_atmost_1)
qed

lemma once_subset: "once b \<Longrightarrow> a \<subseteq># b \<Longrightarrow> once a"
  unfolding once_def by (meson le_trans mset_subset_eq_count)

lemma once_add: "once (add_mset p b) \<longleftrightarrow> p \<notin># b \<and> once b"
proof -
  have "once (add_mset p b) \<longleftrightarrow> count b p = 0 \<and> (\<forall>q. q \<noteq> p \<longrightarrow> count b q \<le> 1)"
    by (auto simp: once_def)
  also have "\<dots> \<longleftrightarrow> p \<notin># b \<and> once b"
    unfolding once_def not_in_iff by (metis zero_le)
  finally show ?thesis .
qed

lemma once_filter: "once b \<Longrightarrow> once (filter_mset P b)"
  by (erule once_subset) (simp add: multiset_filter_subset)

lemma remove1_filter:
  "once b \<Longrightarrow> b = add_mset p c \<Longrightarrow> c = filter_mset (\<lambda>q. q \<noteq> p) b"
  by (auto simp: once_add filter_mset_eq_conv [symmetric] multiset_eq_iff not_in_iff)

lemma filter_absent: "p \<notin># b \<Longrightarrow> filter_mset (\<lambda>q. q \<noteq> p) b = b"
  by (simp add: filter_mset_eq_conv not_in_iff) (metis not_in_iff)

subsection \<open>Holders\<close>

fun holder_in :: "model \<Rightarrow> holder \<Rightarrow> bool" where
  "holder_in m (HWindow w) \<longleftrightarrow> w < length (m_windows m)"
| "holder_in m (HWorkspace s) \<longleftrightarrow> s < length (m_workspaces m)"

lemma set_holders: "set (holders m) = {h. holder_in m h}"
proof -
  have "h \<in> set (holders m) \<longleftrightarrow> holder_in m h" for h
    by (cases h) (auto simp: holders_def)
  then show ?thesis by auto
qed

lemma tabs_of_all: "holder_in m h \<Longrightarrow> tabs_of m h \<in> set (all_tabs m)"
  by (cases h) (auto simp: all_tabs_def)

lemma pane_bag_upd_tabs:
  "holder_in m h \<Longrightarrow> pane_bag (upd_tabs h f m) + mset (tabs_panes (tabs_of m h)) = pane_bag m + mset (tabs_panes (f (tabs_of m h)))"
proof (cases h)
  case (HWindow w)
  assume "holder_in m h"
  with HWindow have w: "w < length (m_windows m)" by simp
  let ?w = "(m_windows m ! w)\<lparr>win_tabs := f (win_tabs (m_windows m ! w))\<rparr>"
  have "window_bag ?w + mset (tabs_panes (tabs_of m h)) = window_bag (m_windows m ! w) + mset (tabs_panes (f (tabs_of m h)))"
    using HWindow by (simp add: window_bag_def)
  with sum_list_update_add [OF w, of window_bag ?w]
  have "sum_list (map window_bag ((m_windows m)[w := ?w])) + mset (tabs_panes (tabs_of m h)) =
      sum_list (map window_bag (m_windows m)) + mset (tabs_panes (f (tabs_of m h)))"
    by (rule mset_exchange)
  then show ?thesis using HWindow by (simp add: pane_bag_def upd_window_def ac_simps)
next
  case (HWorkspace s)
  assume "holder_in m h"
  with HWorkspace have s: "s < length (m_workspaces m)" by simp
  let ?s = "(m_workspaces m ! s)\<lparr>ws_tabs := f (ws_tabs (m_workspaces m ! s))\<rparr>"
  have "ws_bag ?s + mset (tabs_panes (tabs_of m h)) = ws_bag (m_workspaces m ! s) + mset (tabs_panes (f (tabs_of m h)))"
    using HWorkspace by (simp add: ws_bag_def)
  with sum_list_update_add [OF s, of ws_bag ?s]
  have "sum_list (map ws_bag ((m_workspaces m)[s := ?s])) + mset (tabs_panes (tabs_of m h)) =
      sum_list (map ws_bag (m_workspaces m)) + mset (tabs_panes (f (tabs_of m h)))"
    by (rule mset_exchange)
  then show ?thesis using HWorkspace by (simp add: pane_bag_def upd_ws_def ac_simps)
qed

lemma pane_bag_upd_tabs_same:
  "holder_in m h \<Longrightarrow> mset (tabs_panes (f (tabs_of m h))) = mset (tabs_panes (tabs_of m h)) \<Longrightarrow> pane_bag (upd_tabs h f m) = pane_bag m"
  using pane_bag_upd_tabs [of m h f] by simp

lemma tabs_of_upd_tabs: "holder_in m h \<Longrightarrow> tabs_of (upd_tabs h f m) h' = (if h' = h then f (tabs_of m h) else tabs_of m h')"
  by (cases h; cases h') (auto simp: upd_window_def upd_ws_def nth_list_update)

lemma upd_tabs_frame [frame_simps, simp]:
  "holder_in (upd_tabs h f m) h' = holder_in m h'"
  "m_orphans (upd_tabs h f m) = m_orphans m" "m_desks (upd_tabs h f m) = m_desks m"
  "tab_counter (upd_tabs h f m) = tab_counter m" "win_counter (upd_tabs h f m) = win_counter m"
  "ws_counter (upd_tabs h f m) = ws_counter m"
  "length (m_windows (upd_tabs h f m)) = length (m_windows m)"
  "length (m_workspaces (upd_tabs h f m)) = length (m_workspaces m)"
  by (cases h; cases h'; simp add: upd_window_def upd_ws_def)+

lemma holders_upd_tabs [simp]: "holders (upd_tabs h f m) = holders m"
  by (simp add: holders_def)

lemma all_tabs_upd_tabs: "ts \<in> set (all_tabs (upd_tabs h f m)) \<Longrightarrow> ts \<in> set (all_tabs m) \<or> (holder_in m h \<and> ts = f (tabs_of m h))"
proof (cases h)
  case (HWindow w)
  assume "ts \<in> set (all_tabs (upd_tabs h f m))"
  with HWindow show ?thesis
    using set_update_subset_insert [of "m_windows m" w "(m_windows m ! w)\<lparr>win_tabs := f (win_tabs (m_windows m ! w))\<rparr>"]
    by (cases "w < length (m_windows m)") (auto simp: all_tabs_def upd_window_def list_update_beyond)
next
  case (HWorkspace s)
  assume "ts \<in> set (all_tabs (upd_tabs h f m))"
  with HWorkspace show ?thesis
    using set_update_subset_insert [of "m_workspaces m" s "(m_workspaces m ! s)\<lparr>ws_tabs := f (ws_tabs (m_workspaces m ! s))\<rparr>"]
    by (cases "s < length (m_workspaces m)") (auto simp: all_tabs_def upd_ws_def list_update_beyond)
qed

definition trees_ok :: "model \<Rightarrow> bool" where
  "trees_ok m \<longleftrightarrow> (\<forall>ts \<in> set (all_tabs m). tabs_ok ts)"

lemma layout_ok_iff: "layout_ok m \<longleftrightarrow> once (pane_bag m) \<and> trees_ok m"
  by (simp add: layout_ok_def trees_ok_def)

lemma trees_ok_tabs: "trees_ok m \<Longrightarrow> holder_in m h \<Longrightarrow> tabs_ok (tabs_of m h)"
  by (simp add: trees_ok_def tabs_of_all)

lemma trees_ok_upd_tabs:
  "trees_ok m \<Longrightarrow> (holder_in m h \<Longrightarrow> tabs_ok (f (tabs_of m h))) \<Longrightarrow> trees_ok (upd_tabs h f m)"
  by (auto simp: trees_ok_def dest!: all_tabs_upd_tabs)

subsection \<open>Where things are\<close>

lemma locate_SomeD:
  "locate m p = Some l \<Longrightarrow> holder_in m (loc_holder l) \<and>
     tabs_locate (tabs_of m (loc_holder l)) p = Some (loc_tab l, loc_parent l, loc_index l)"
  by (auto simp: locate_def set_holders dest!: find_map_SomeD)

lemma locate_NoneD: "locate m p = None \<Longrightarrow> holder_in m h \<Longrightarrow> p \<notin> set (tabs_panes (tabs_of m h))"
  by (auto simp: locate_def set_holders tabs_locate_None_iff)

lemma locate_Some_iff: "locate m p \<noteq> None \<longleftrightarrow> (\<exists>h. holder_in m h \<and> p \<in> set (tabs_panes (tabs_of m h)))"
  by (auto simp: locate_def set_holders tabs_locate_None_iff)

lemma tab_index_SomeD:
  "tab_index m i = Some (h, t) \<Longrightarrow> holder_in m h \<and> t < length (ts_tabs (tabs_of m h)) \<and> tab_id (ts_tabs (tabs_of m h) ! t) = i"
  by (auto simp: tab_index_def set_holders tabs_position_def dest!: find_map_SomeD position_SomeD)

lemma tab_index_None_iff: "tab_index m i = None \<longleftrightarrow> (\<forall>h. holder_in m h \<longrightarrow> i \<notin> set (tab_ids (tabs_of m h)))"
  by (auto simp: tab_index_def set_holders tabs_position_def tab_ids_def)

lemma lookup_bounds:
  "background_ws m p = Some s \<Longrightarrow> s < length (m_workspaces m) \<and> p \<in> set (ws_background (m_workspaces m ! s))"
  "dock_ws m p = Some s \<Longrightarrow> s < length (m_workspaces m) \<and> dk_pane (ws_dock (m_workspaces m ! s)) = p"
  "lead_window m p = Some w \<Longrightarrow> w < length (m_windows m) \<and> (\<exists>d. win_lead (m_windows m ! w) = Some d \<and> dk_pane d = p)"
  "ws_index m i = Some s \<Longrightarrow> s < length (m_workspaces m) \<and> ws_id (m_workspaces m ! s) = i"
  "window_index m i = Some w \<Longrightarrow> w < length (m_windows m) \<and> win_id (m_windows m ! w) = i"
  by (auto simp: background_ws_def dock_ws_def lead_window_def ws_index_def window_index_def leads_def
      dest!: position_SomeD split: option.splits)

lemma holder_of_in: "holder_of m p = Some h \<Longrightarrow> holder_in m h"
  by (auto simp: holder_of_def split: option.splits dest: locate_SomeD lookup_bounds)

lemma pane_bag_cases:
  "p \<in># pane_bag m \<longleftrightarrow> locate m p \<noteq> None \<or> dock_ws m p \<noteq> None \<or> lead_window m p \<noteq> None \<or> background_ws m p \<noteq> None \<or>
     (\<exists>ts \<in> set (m_orphans m). p \<in> set (tabs_panes ts))"
proof -
  have win: "(\<exists>w \<in> set (m_windows m). P (win_tabs w)) \<longleftrightarrow> (\<exists>i. holder_in m (HWindow i) \<and> P (tabs_of m (HWindow i)))" for P
    by (simp add: Bex_def in_set_conv_nth) blast
  have ws: "(\<exists>s \<in> set (m_workspaces m). P (ws_tabs s)) \<longleftrightarrow> (\<exists>i. holder_in m (HWorkspace i) \<and> P (tabs_of m (HWorkspace i)))" for P
    by (simp add: Bex_def in_set_conv_nth) blast
  have ex: "(\<exists>h. Q h) \<longleftrightarrow> (\<exists>w. Q (HWindow w)) \<or> (\<exists>s. Q (HWorkspace s))" for Q
    by (metis holder.exhaust)
  show ?thesis
    unfolding locate_Some_iff ex
    using win [of "\<lambda>ts. p \<in> set (tabs_panes ts)"] ws [of "\<lambda>ts. p \<in> set (tabs_panes ts)"]
    by (simp add: pane_bag_def mem_sum_list window_bag_def ws_bag_def dock_ws_def lead_window_def background_ws_def leads_def
        split: option.splits) (auto 4 4 split: option.splits)
qed

subsection \<open>Updating one window or workspace\<close>

lemma pane_bag_upd_window:
  "w < length (m_windows m) \<Longrightarrow> pane_bag (upd_window w f m) + window_bag (m_windows m ! w) = pane_bag m + window_bag (f (m_windows m ! w))"
  using sum_list_update_add [of w "m_windows m" window_bag "f (m_windows m ! w)"]
  by (simp add: pane_bag_def upd_window_def ac_simps)

lemma pane_bag_upd_ws:
  "s < length (m_workspaces m) \<Longrightarrow> pane_bag (upd_ws s f m) + ws_bag (m_workspaces m ! s) = pane_bag m + ws_bag (f (m_workspaces m ! s))"
  using sum_list_update_add [of s "m_workspaces m" ws_bag "f (m_workspaces m ! s)"]
  by (simp add: pane_bag_def upd_ws_def ac_simps)

lemma trees_ok_upd_window:
  assumes "trees_ok m" "w < length (m_windows m) \<Longrightarrow> tabs_ok (win_tabs (f (m_windows m ! w)))"
  shows "trees_ok (upd_window w f m)"
  using assms set_update_subset_insert [of "m_windows m" w "f (m_windows m ! w)"]
  by (cases "w < length (m_windows m)") (auto simp: trees_ok_def all_tabs_def upd_window_def list_update_beyond)

lemma trees_ok_upd_ws:
  assumes "trees_ok m" "s < length (m_workspaces m) \<Longrightarrow> tabs_ok (ws_tabs (f (m_workspaces m ! s)))"
  shows "trees_ok (upd_ws s f m)"
  using assms set_update_subset_insert [of "m_workspaces m" s "f (m_workspaces m ! s)"]
  by (cases "s < length (m_workspaces m)") (auto simp: trees_ok_def all_tabs_def upd_ws_def list_update_beyond)

lemma trees_ok_window: "trees_ok m \<Longrightarrow> w < length (m_windows m) \<Longrightarrow> tabs_ok (win_tabs (m_windows m ! w))"
  using trees_ok_tabs [of m "HWindow w"] by simp

lemma trees_ok_ws: "trees_ok m \<Longrightarrow> s < length (m_workspaces m) \<Longrightarrow> tabs_ok (ws_tabs (m_workspaces m ! s))"
  using trees_ok_tabs [of m "HWorkspace s"] by simp

subsection \<open>Taking a pane out\<close>

lemma background_tabs_panes [panes_simps]: "tabs_panes (snd (background_tabs ps n ts)) = tabs_panes ts @ ps"
  by (induction ps n ts rule: background_tabs.induct)
     (simp_all add: Let_def tabs_panes_def tab_panes_def new_tab_def)

lemma background_tabs_ok: "tabs_ok ts \<Longrightarrow> tabs_ok (snd (background_tabs ps n ts))"
  by (induction ps n ts rule: background_tabs.induct) (auto simp: Let_def tabs_ok_def root_ok_def new_tab_def)

lemma window_bag_free [simp]: "window_bag (w\<lparr>win_ws := x\<rparr>) = window_bag w"
  by (simp add: window_bag_def)

lemma dissolve_bag [panes_simps]:
  assumes "s < length (m_workspaces m)"
  shows "add_mset (dk_pane (ws_dock (m_workspaces m ! s))) (pane_bag (dissolve s m)) = pane_bag m"
proof -
  let ?ws = "m_workspaces m ! s"
  have win: "map (window_bag \<circ> (\<lambda>w. if win_ws w = Some (ws_id ?ws) then w\<lparr>win_ws := None\<rparr> else w)) xs = map window_bag xs" for xs
    by (induction xs) auto
  obtain n ts where b: "background_tabs (ws_background ?ws) (tab_counter m) (ws_tabs ?ws) = (n, ts)" by force
  then have "tabs_panes ts = tabs_panes (ws_tabs ?ws) @ ws_background ?ws"
    using background_tabs_panes [of "ws_background ?ws" "tab_counter m" "ws_tabs ?ws"] by simp
  then have "add_mset (dk_pane (ws_dock ?ws)) (mset (tabs_panes ts)) = ws_bag ?ws" by (simp add: ws_bag_def)
  with sum_list_remove_at_add [OF assms, of ws_bag] show ?thesis
    by (simp add: dissolve_def b Let_def pane_bag_def win ac_simps)
       (metis (no_types, lifting) add.assoc add.commute add_mset_add_single)
qed

lemma dissolve_trees:
  assumes "trees_ok m" "s < length (m_workspaces m)" shows "trees_ok (dissolve s m)"
proof -
  obtain n ts where b: "background_tabs (ws_background (m_workspaces m ! s)) (tab_counter m) (ws_tabs (m_workspaces m ! s)) = (n, ts)"
    by force
  have "tabs_ok ts" using background_tabs_ok [OF trees_ok_ws [OF assms]] b by (metis snd_conv)
  with assms set_remove_at_subset [of s "m_workspaces m"] show ?thesis
    by (auto simp: dissolve_def b Let_def trees_ok_def all_tabs_def)
qed

lemma remove_orphan_bag:
  fixes orphans :: "tabs list"
  defines "bag \<equiv> \<lambda>xs. sum_list (map (\<lambda>ts. mset (tabs_panes ts)) xs)"
  shows "bag orphans = bag (remove_orphan p orphans) + (if \<exists>ts \<in> set orphans. p \<in> set (tabs_panes ts) then {#p#} else {#})"
proof (induction orphans)
  case (Cons ts rest)
  show ?case
  proof (cases "p \<in> set (tabs_panes ts)")
    case True
    then obtain xs ys where "tabs_panes ts = xs @ p # ys" "tabs_panes (fst (tabs_remove p ts)) = xs @ ys"
      by (rule tabs_remove_panes)
    with True show ?thesis using tabs_remove_found [of p ts] by (cases "tabs_remove p ts") (simp add: bag_def ac_simps)
  next
    case False
    with Cons show ?thesis by (simp add: bag_def tabs_remove_absent ac_simps)
  qed
qed (simp add: bag_def)

lemma remove_orphan_ok: "\<forall>ts \<in> set xs. tabs_ok ts \<Longrightarrow> \<forall>ts \<in> set (remove_orphan p xs). tabs_ok ts"
proof (induction xs)
  case (Cons ts rest)
  moreover have "tabs_ok (fst (tabs_remove p ts))" using Cons.prems by (intro tabs_remove_ok) simp
  ultimately show ?case by (cases "tabs_remove p ts") (auto simp: Let_def)
qed simp

text \<open>Where \<open>detach\<close> finds the pane it takes it out once.\<close>

lemma part_of_sum: "x \<in> set xs \<Longrightarrow> f x \<subseteq># sum_list (map f xs)"
  by (induction xs) (auto intro: subset_mset.add_increasing subset_mset.add_increasing2)

lemma ws_bag_part: "s < length (m_workspaces m) \<Longrightarrow> ws_bag (m_workspaces m ! s) \<subseteq># pane_bag m"
  using part_of_sum [of "m_workspaces m ! s" "m_workspaces m" ws_bag]
  unfolding pane_bag_def
  by (metis nth_mem mset_subset_eq_add_left mset_subset_eq_add_right subset_mset.order_trans)

lemma filter_out_once: "distinct xs \<Longrightarrow> p \<in> set xs \<Longrightarrow> add_mset p (mset (filter (\<lambda>q. q \<noteq> p) xs)) = mset xs"
  by (induction xs) (auto simp: filter_absent)

lemma detach_bag_add:
  assumes "once (pane_bag m)" "p \<in># pane_bag m"
  shows "pane_bag m = add_mset p (pane_bag (detach p m))"
proof -
  consider s where "background_ws m p = Some s"
    | w where "background_ws m p = None" "lead_window m p = Some w"
    | s where "background_ws m p = None" "lead_window m p = None" "dock_ws m p = Some s"
    | l where "background_ws m p = None" "lead_window m p = None" "dock_ws m p = None" "locate m p = Some l"
    | "background_ws m p = None" "lead_window m p = None" "dock_ws m p = None" "locate m p = None"
    by (metis option.exhaust)
  then show ?thesis
  proof cases
    case 1
    let ?ws = "m_workspaces m ! s"
    from 1 have s: "s < length (m_workspaces m)" "p \<in> set (ws_background ?ws)" using lookup_bounds by auto
    have "mset (ws_background ?ws) \<subseteq># ws_bag ?ws" by (simp add: ws_bag_def)
    with ws_bag_part [OF s(1)] assms(1) have "distinct (ws_background ?ws)"
      by (metis once_mset once_subset subset_mset.order_trans)
    let ?f = "\<lambda>x. x\<lparr>ws_background := filter (\<lambda>q. q \<noteq> p) (ws_background x)\<rparr>"
    from filter_out_once [OF \<open>distinct (ws_background ?ws)\<close> s(2)] have "ws_bag ?ws = add_mset p (ws_bag (?f ?ws))"
      by (simp add: ws_bag_def add_mset_commute flip: union_mset_add_mset_right)
    with pane_bag_upd_ws [OF s(1), of ?f] show ?thesis by (simp add: 1 detach_def)
  next
    case 2
    then obtain d where d: "w < length (m_windows m)" "win_lead (m_windows m ! w) = Some d" "dk_pane d = p"
      using lookup_bounds by blast
    with pane_bag_upd_window [OF d(1), of "\<lambda>x. x\<lparr>win_lead := None\<rparr>"] 2 show ?thesis
      by (simp add: detach_def window_bag_def)
  next
    case 3
    with lookup_bounds(2) [OF 3(3)] dissolve_bag [of s m] show ?thesis by (simp add: detach_def)
  next
    case 4
    let ?h = "loc_holder l"
    from 4 have h: "holder_in m ?h" "tabs_locate (tabs_of m ?h) p \<noteq> None" using locate_SomeD by auto
    then have "p \<in> set (tabs_panes (tabs_of m ?h))" by (simp add: tabs_locate_None_iff)
    then obtain xs ys where "tabs_panes (tabs_of m ?h) = xs @ p # ys" "tabs_panes (fst (tabs_remove p (tabs_of m ?h))) = xs @ ys"
      by (rule tabs_remove_panes)
    with pane_bag_upd_tabs [OF h(1), of "\<lambda>ts. fst (tabs_remove p ts)"] 4 show ?thesis
      by (simp add: detach_def)
  next
    case 5
    with assms(2) have "\<exists>ts \<in> set (m_orphans m). p \<in> set (tabs_panes ts)" by (simp add: pane_bag_cases)
    with remove_orphan_bag [of "m_orphans m" p] 5 show ?thesis by (simp add: detach_def pane_bag_def)
  qed
qed

lemma detach_absent:
  assumes "p \<notin># pane_bag m" shows "pane_bag (detach p m) = pane_bag m"
proof -
  have "background_ws m p = None" "lead_window m p = None" "dock_ws m p = None" "locate m p = None"
    "\<not> (\<exists>ts \<in> set (m_orphans m). p \<in> set (tabs_panes ts))"
    using assms unfolding pane_bag_cases by auto
  with remove_orphan_bag [of "m_orphans m" p] show ?thesis by (auto simp: detach_def pane_bag_def)
qed

lemma detach_bag [panes_simps]:
  assumes "once (pane_bag m)"
  shows "pane_bag (detach p m) = filter_mset (\<lambda>q. q \<noteq> p) (pane_bag m)"
proof (cases "p \<in># pane_bag m")
  case True
  from remove1_filter [OF assms detach_bag_add [OF assms True]] show ?thesis .
next
  case False
  then show ?thesis by (simp only: detach_absent filter_absent not_False_eq_True)
qed

lemma detach_trees: "trees_ok m \<Longrightarrow> trees_ok (detach p m)"
proof -
  assume ok: "trees_ok m"
  have "trees_ok (m\<lparr>m_orphans := remove_orphan p (m_orphans m)\<rparr>)"
    using ok remove_orphan_ok [of "m_orphans m" p] by (auto simp: trees_ok_def all_tabs_def)
  moreover have "trees_ok (upd_ws s (\<lambda>x. x\<lparr>ws_background := b x\<rparr>) m)" for s b
    using ok by (intro trees_ok_upd_ws) (simp_all add: trees_ok_ws)
  moreover have "trees_ok (upd_window w (\<lambda>x. x\<lparr>win_lead := None\<rparr>) m)" for w
    using ok by (intro trees_ok_upd_window) (simp_all add: trees_ok_window)
  moreover have "trees_ok (upd_tabs h (\<lambda>ts. fst (tabs_remove p ts)) m)" for h
    using ok by (intro trees_ok_upd_tabs tabs_remove_ok) (simp_all add: trees_ok_tabs)
  ultimately show ?thesis
    using dissolve_trees [OF ok] by (auto simp: detach_def split: option.splits dest: lookup_bounds)
qed

lemma detach_layout_ok: "layout_ok m \<Longrightarrow> layout_ok (detach p m)"
  by (simp add: layout_ok_iff detach_bag detach_trees once_filter)

lemma detach_all:
  "layout_ok m \<Longrightarrow> layout_ok (foldl (\<lambda>m p. detach p m) m ps) \<and>
   pane_bag (foldl (\<lambda>m p. detach p m) m ps) = filter_mset (\<lambda>q. q \<notin> set ps) (pane_bag m)"
proof (induction ps arbitrary: m)
  case (Cons p ps)
  then have "once (pane_bag m)" by (simp add: layout_ok_iff)
  with Cons.IH [OF detach_layout_ok [OF Cons.prems, of p]] show ?case
    by (simp add: detach_bag filter_filter_mset conj_commute)
qed simp

end
