(* ===== verification/Mux_Tidy.thy ===== *)
theory Mux_Tidy
  imports Mux_Kept
begin

text \<open>
  Swapping two panes (\<open>Model::swap\<close>) and dropping what is empty (\<open>Model::drop_empty\<close>): neither
  loses nor doubles a pane, and after \<open>drop_empty\<close> the layout is settled. The slots of the model
  are the slots of its tabs and the docks.
\<close>

subsection \<open>Swapping\<close>

datatype slot = InTabs holder "nat \<times> nat list option \<times> nat" | InDock nat

fun slot_get :: "slot \<Rightarrow> model \<Rightarrow> string option" where
  "slot_get (InTabs h k) m = (if holder_in m h then tab_slot_get k (tabs_of m h) else None)"
| "slot_get (InDock s) m = (if s < length (m_workspaces m) then Some (dk_pane (ws_dock (m_workspaces m ! s))) else None)"

fun slot_put :: "slot \<Rightarrow> string \<Rightarrow> model \<Rightarrow> model" where
  "slot_put (InTabs h k) p m = upd_tabs h (tab_slot_put k p) m"
| "slot_put (InDock s) p m = upd_ws s (\<lambda>x. x\<lparr>ws_dock := (ws_dock x)\<lparr>dk_pane := p\<rparr>\<rparr>) m"

lemma tabs_of_upd_dock: "tabs_of (upd_ws s (\<lambda>x. x\<lparr>ws_dock := d x\<rparr>) m) h = tabs_of m h"
  by (cases h; cases "s < length (m_workspaces m)") (auto simp: upd_ws_def nth_list_update list_update_beyond)

lemma holder_in_upd_ws [simp]: "holder_in (upd_ws s f m) h = holder_in m h"
  by (cases h) (simp_all add: upd_ws_def)

lemma dock_upd_tabs: "ws_dock (m_workspaces (upd_tabs h f m) ! s) = ws_dock (m_workspaces m ! s)"
proof (cases h)
  case (HWorkspace i)
  then show ?thesis
    by (cases "i = s"; cases "s < length (m_workspaces m)") (simp_all add: upd_ws_def list_update_beyond)
qed (simp add: upd_window_def)

interpretation model_slots: slots slot_get slot_put pane_bag
proof
  fix k l x v and m :: model
  assume g: "slot_get k m = Some x"
  show "slot_get k (slot_put k v m) = Some v"
    using g tab_slots.put_same by (cases k) (auto simp: tabs_of_upd_tabs upd_ws_def split: if_splits)
  show "slot_get l (slot_put k v m) = slot_get l m" if "l \<noteq> k"
  proof (cases k)
    case (InTabs h j)
    with g have "holder_in m h" "tab_slot_get j (tabs_of m h) = Some x" by (auto split: if_splits)
    with InTabs that tab_slots.put_other show ?thesis
      by (cases l) (auto simp: tabs_of_upd_tabs dock_upd_tabs)
  next
    case (InDock s)
    have "m_workspaces (slot_put k v m) ! r = m_workspaces m ! r" if "r \<noteq> s" for r
      using that InDock by (simp add: upd_ws_def)
    with InDock that show ?thesis
      by (cases l) (simp_all add: tabs_of_upd_dock, simp add: upd_ws_def)
  qed
  show "add_mset x (pane_bag (slot_put k v m)) = add_mset v (pane_bag m)"
  proof (cases k)
    case (InTabs h j)
    with g have h: "holder_in m h" "tab_slot_get j (tabs_of m h) = Some x" by (auto split: if_splits)
    have "pane_bag (upd_tabs h (tab_slot_put j v) m) + {#x#} = pane_bag m + {#v#}"
      by (rule mset_exchange [OF pane_bag_upd_tabs [OF h(1), of "tab_slot_put j v"]])
         (use tab_slots.put_bag [OF h(2), of v] in \<open>simp add: ac_simps\<close>)
    with InTabs show ?thesis by simp
  next
    case (InDock s)
    with g have s: "s < length (m_workspaces m)" "dk_pane (ws_dock (m_workspaces m ! s)) = x" by (auto split: if_splits)
    have "pane_bag (slot_put k v m) + {#x#} = pane_bag m + {#v#}"
      unfolding InDock slot_put.simps
      by (rule mset_exchange [OF pane_bag_upd_ws [OF s(1), of "\<lambda>x. x\<lparr>ws_dock := (ws_dock x)\<lparr>dk_pane := v\<rparr>\<rparr>"]])
         (use s(2) in \<open>simp add: ws_bag_def ac_simps\<close>)
    then show ?thesis by simp
  qed
qed

definition slot_of :: "model \<Rightarrow> string \<Rightarrow> slot option" where
  "slot_of m p =
     (case locate m p of
        Some l \<Rightarrow> Some (InTabs (loc_holder l) (loc_tab l, loc_parent l, loc_index l))
      | None \<Rightarrow> map_option InDock (dock_ws m p))"

lemma slot_of_get: "slot_of m p = Some k \<Longrightarrow> slot_get k m = Some p"
  by (auto simp: slot_of_def split: option.splits dest!: locate_SomeD lookup_bounds(2) dest: tabs_locate_slot)

lemma docked_not_located:
  assumes "once (pane_bag m)" "dock_ws m p = Some s" shows "locate m p = None"
proof (rule ccontr)
  assume "locate m p \<noteq> None"
  then obtain l where l: "locate m p = Some l" by blast
  then have "slot_get (InTabs (loc_holder l) (loc_tab l, loc_parent l, loc_index l)) m = Some p"
    using slot_of_get [of m p] by (simp add: slot_of_def)
  moreover have "slot_get (InDock s) m = Some p" using lookup_bounds(2) [OF assms(2)] by simp
  ultimately have "2 \<le> count (pane_bag m) p"
    using model_slots.twice [where v = "CHR ''x'' # p"] by (metis list.distinct(1) not_Cons_self slot.distinct(1))
  with assms(1) show False by (auto simp: once_def dest: spec [of _ p])
qed

lemma put_slot: "slot_of m p = Some k \<Longrightarrow> put (locate m p) (dock_ws m p) q m' = slot_put k q m'"
  by (cases "locate m p"; cases "dock_ws m p")
     (auto simp: slot_of_def fun_eq_iff intro!: arg_cong2 [of _ _ _ _ "upd_tabs _"])

lemma swap_slots:
  "swap a b m = (case (slot_of m a, slot_of m b) of (Some k, Some l) \<Rightarrow> slot_put l a (slot_put k b m) | _ \<Rightarrow> m)"
proof -
  have none: "locate m p = None \<and> dock_ws m p = None \<longleftrightarrow> slot_of m p = None" for p
    by (auto simp: slot_of_def split: option.splits)
  show ?thesis
    unfolding swap_def Let_def none
    by (cases "slot_of m a"; cases "slot_of m b") (simp_all add: put_slot [of m a] put_slot [of m b])
qed

lemma swap_bag [panes_simps]: "pane_bag (swap a b m) = pane_bag m"
proof (cases "slot_of m a"; cases "slot_of m b")
  fix k l assume kl: "slot_of m a = Some k" "slot_of m b = Some l"
  note g = slot_of_get [OF kl(1)] slot_of_get [OF kl(2)]
  show ?thesis
  proof (cases "k = l")
    case True
    with g have "a = b" by simp
    with True kl g model_slots.put_bag [OF g(1), of a]
      model_slots.put_bag [OF model_slots.put_same [OF g(1), of a], of a]
    show ?thesis by (simp add: swap_slots)
  qed (use kl g model_slots.crossed(1) in \<open>simp add: swap_slots\<close>)
qed (simp_all add: swap_slots)

lemma root_set_get_ok:
  assumes "root_ok r" "root_get (parent, i) r = Some x" shows "root_ok (root_set parent i q r)"
proof (cases parent)
  case (Some path)
  with assms(2) obtain n a ks where n: "r = Some n" "split_at n path = Some (a, ks)" "kid_get i ks = Some x"
    by (auto split: option.splits)
  from kid_get_SomeD [OF n(3)] have i: "i < length ks" by simp
  have "tree_ok (upd_split (kid_put i q) path n)"
    using n(2) assms(1) i
    by (intro upd_split_ok [OF n(2), of 2]) (auto simp: n(1) root_ok_def kid_put_def intro: kids_ok_update)
  with n(1) Some show ?thesis by (simp add: root_set_leaf root_ok_def)
qed (simp add: root_set_def root_ok_def)

lemma slot_put_trees: "trees_ok m \<Longrightarrow> slot_get k m = Some x \<Longrightarrow> trees_ok (slot_put k v m)"
proof (cases k)
  case (InTabs h j)
  obtain t parent i where j: "j = (t, parent, i)" by (cases j) auto
  assume a: "trees_ok m" "slot_get k m = Some x"
  with InTabs j have h: "holder_in m h" "t < length (ts_tabs (tabs_of m h))"
    "root_get (parent, i) (tab_root (ts_tabs (tabs_of m h) ! t)) = Some x" by (auto split: if_splits)
  with trees_ok_tabs [OF a(1)] have "root_ok (tab_root (ts_tabs (tabs_of m h) ! t))" by (simp add: tabs_ok_def)
  with root_set_get_ok h(3) have "root_ok (root_set parent i v (tab_root (ts_tabs (tabs_of m h) ! t)))" by blast
  with a(1) h(1) InTabs j show ?thesis
    by (auto simp: tabs_set_at_def intro!: trees_ok_upd_tabs tabs_ok_upd_tab intro: trees_ok_tabs)
qed (auto intro!: trees_ok_upd_ws intro: trees_ok_ws)

lemma swap_trees: "trees_ok m \<Longrightarrow> trees_ok (swap a b m)"
proof (cases "slot_of m a"; cases "slot_of m b")
  fix k l assume kl: "slot_of m a = Some k" "slot_of m b = Some l" and ok: "trees_ok m"
  note g = slot_of_get [OF kl(1)] slot_of_get [OF kl(2)]
  have "\<exists>x. slot_get l (slot_put k b m) = Some x"
    using model_slots.put_same [OF g(1)] model_slots.put_other [OF g(1)] g(2) by (cases "l = k") auto
  with slot_put_trees [OF ok g(1), of b] slot_put_trees kl show ?thesis by (auto simp: swap_slots)
qed (simp_all add: swap_slots)

subsection \<open>Dropping what is empty\<close>

text \<open>The loop over the holders settles each window and workspace on its own.\<close>

definition settle_window :: "window \<Rightarrow> window" where
  "settle_window w = w\<lparr>win_tabs := settle_focus (map_option dk_pane (win_lead w)) (tabs_tidy (win_tabs w))\<rparr>"

definition settle_ws :: "workspace \<Rightarrow> workspace" where
  "settle_ws s = s\<lparr>ws_tabs := settle_focus (Some (dk_pane (ws_dock s))) (tabs_tidy (ws_tabs s))\<rparr>"

lemma map_take_update: "n < length xs \<Longrightarrow> (map f (take n xs) @ drop n xs)[n := f (xs ! n)] = map f (take (Suc n) xs) @ drop (Suc n) xs"
  by (simp add: list_update_append take_Suc_conv_app_nth Cons_nth_drop_Suc [symmetric])

lemma settle_windows:
  "n \<le> length (m_windows m) \<Longrightarrow> foldl settle_holder m (map HWindow [0..<n]) =
     m\<lparr>m_windows := map settle_window (take n (m_windows m)) @ drop n (m_windows m)\<rparr>"
proof (induction n)
  case (Suc n)
  let ?M = "m\<lparr>m_windows := map settle_window (take n (m_windows m)) @ drop n (m_windows m)\<rparr>"
  have at: "m_windows ?M ! n = m_windows m ! n" using Suc.prems by (simp add: nth_append)
  have "settle_holder ?M (HWindow n) = ?M\<lparr>m_windows := (m_windows ?M)[n := settle_window (m_windows m ! n)]\<rparr>"
    unfolding settle_holder_def upd_tabs.simps side.simps upd_window_def at settle_window_def ..
  with Suc show ?case by (simp add: map_take_update)
qed simp

lemma settle_workspaces:
  "n \<le> length (m_workspaces m) \<Longrightarrow> foldl settle_holder m (map HWorkspace [0..<n]) =
     m\<lparr>m_workspaces := map settle_ws (take n (m_workspaces m)) @ drop n (m_workspaces m)\<rparr>"
proof (induction n)
  case (Suc n)
  let ?M = "m\<lparr>m_workspaces := map settle_ws (take n (m_workspaces m)) @ drop n (m_workspaces m)\<rparr>"
  have at: "m_workspaces ?M ! n = m_workspaces m ! n" using Suc.prems by (simp add: nth_append)
  have "settle_holder ?M (HWorkspace n) = ?M\<lparr>m_workspaces := (m_workspaces ?M)[n := settle_ws (m_workspaces m ! n)]\<rparr>"
    unfolding settle_holder_def upd_tabs.simps side.simps upd_ws_def at settle_ws_def ..
  with Suc show ?case by (simp add: map_take_update)
qed simp

lemma settle_all:
  "foldl settle_holder m (holders m) =
     m\<lparr>m_windows := map settle_window (m_windows m), m_workspaces := map settle_ws (m_workspaces m)\<rparr>"
proof -
  let ?M = "m\<lparr>m_windows := map settle_window (m_windows m)\<rparr>"
  have "foldl settle_holder m (holders m) = foldl settle_holder ?M (map HWorkspace [0..<length (m_workspaces ?M)])"
    using settle_windows [of "length (m_windows m)" m] by (simp add: holders_def)
  then show ?thesis using settle_workspaces [of "length (m_workspaces ?M)" ?M] by simp
qed

definition tabs_settled :: "string option \<Rightarrow> tabs \<Rightarrow> bool" where
  "tabs_settled beside ts \<longleftrightarrow> (\<forall>t \<in> set (ts_tabs ts). tab_root t \<noteq> None) \<and> active_ok ts \<and> settled beside ts"

definition window_settled :: "string set \<Rightarrow> window \<Rightarrow> bool" where
  "window_settled wss w \<longleftrightarrow> (ts_tabs (win_tabs w) \<noteq> [] \<or> win_lead w \<noteq> None) \<and>
     tabs_settled (map_option dk_pane (win_lead w)) (win_tabs w) \<and>
     (case win_ws w of Some i \<Rightarrow> i \<in> wss | None \<Rightarrow> True)"

definition layout_settled :: "model \<Rightarrow> bool" where
  "layout_settled m \<longleftrightarrow> m_orphans m = [] \<and>
     (\<forall>w \<in> set (m_windows m). window_settled (ws_id ` set (m_workspaces m)) w) \<and>
     (\<forall>s \<in> set (m_workspaces m). tabs_settled (Some (dk_pane (ws_dock s))) (ws_tabs s))"

lemma settle_tidy_settled: "tabs_settled b (settle_focus b (tabs_tidy ts))"
  unfolding tabs_settled_def
  by (auto intro: settle_settled settle_active tidy_active dest: tidy_roots)

definition housed :: "tabs \<Rightarrow> tabs" where
  "housed ts = settle_focus None ((tabs_tidy ts)\<lparr>ts_count := length (ts_tabs (tabs_tidy ts)), ts_zoom := False\<rparr>)"

definition new_house :: "nat \<Rightarrow> tabs \<Rightarrow> window" where
  "new_house n ts = (new_window (''win-'' @ dec n))\<lparr>win_tabs := housed ts\<rparr>"

lemma house_orphan_eq:
  "house_orphan m ts =
     (if ts_tabs (tabs_tidy ts) = [] then m
      else m\<lparr>win_counter := Suc (win_counter m), m_windows := m_windows m @ [new_house (Suc (win_counter m)) ts]\<rparr>)"
  by (simp add: house_orphan_def make_window_def upd_window_def housed_def new_house_def Let_def)

lemma shown_fields [simp]:
  "shown (ts\<lparr>ts_count := n\<rparr>) = shown ts" "shown (ts\<lparr>ts_zoom := z\<rparr>) = shown ts"
  by (auto intro: shown_cong)

lemma housed_panes [simp]: "tabs_panes (housed ts) = tabs_panes ts"
proof -
  have "tabs_panes (ts\<lparr>ts_count := n, ts_zoom := z\<rparr>) = tabs_panes ts" for ts n z by (simp add: tabs_panes_def)
  then show ?thesis by (simp add: housed_def)
qed

lemma housed_settled: "tabs_settled None (housed ts)"
proof -
  let ?ts = "(tabs_tidy ts)\<lparr>ts_count := length (ts_tabs (tabs_tidy ts)), ts_zoom := False\<rparr>"
  have "active_ok ?ts" using tidy_active [of ts] by (auto simp: active_ok_def tab_ids_def split: option.splits)
  then show ?thesis
    using settle_settled [of None ?ts] settle_active [of ?ts None] tidy_roots [of _ ts]
    by (auto simp: tabs_settled_def housed_def)
qed

lemma housed_ok: "tabs_ok ts \<Longrightarrow> tabs_ok (housed ts)"
  using tidy_ok [of ts] by (simp add: housed_def tabs_ok_def)

definition settled_part :: "model \<Rightarrow> model" where
  "settled_part m =
     (let m = foldl settle_holder (free_windows m) (holders (free_windows m))
      in m\<lparr>m_windows := filter (\<lambda>w. ts_tabs (win_tabs w) \<noteq> [] \<or> win_lead w \<noteq> None) (m_windows m), m_orphans := []\<rparr>)"

lemma drop_empty_eq: "drop_empty m = foldl house_orphan (settled_part m) (m_orphans m)"
proof -
  have "m_orphans (foldl settle_holder (free_windows m) (holders (free_windows m))) = m_orphans m"
    by (simp add: settle_all free_windows_def)
  then show ?thesis by (simp add: drop_empty_def settled_part_def Let_def)
qed

definition freed :: "model \<Rightarrow> window \<Rightarrow> window" where
  "freed m w = (case win_ws w of Some i \<Rightarrow> if ws_index m i = None then w\<lparr>win_ws := None\<rparr> else w | None \<Rightarrow> w)"

lemma settled_part_eq:
  "settled_part m = m\<lparr>m_windows := filter (\<lambda>w. ts_tabs (win_tabs w) \<noteq> [] \<or> win_lead w \<noteq> None) (map (\<lambda>w. settle_window (freed m w)) (m_windows m)),
     m_workspaces := map settle_ws (m_workspaces m), m_orphans := []\<rparr>"
  by (simp add: settled_part_def settle_all free_windows_def freed_def [abs_def] comp_def Let_def)

lemma settle_window_bag [simp]: "window_bag (settle_window w) = window_bag w"
  by (simp add: settle_window_def window_bag_def)

lemma settle_ws_bag [simp]: "ws_bag (settle_ws s) = ws_bag s"
  by (simp add: settle_ws_def ws_bag_def)

lemma freed_bag [simp]: "window_bag (freed m w) = window_bag w"
  by (simp add: freed_def split: option.splits)

lemma empty_window_bag: "\<not> (ts_tabs (win_tabs w) \<noteq> [] \<or> win_lead w \<noteq> None) \<Longrightarrow> window_bag w = {#}"
  by (simp add: window_bag_def tabs_panes_def)

lemma sum_list_filter_empty:
  "(\<And>x. \<not> P x \<Longrightarrow> f x = {#}) \<Longrightarrow> sum_list (map f (filter P xs)) = sum_list (map f xs)"
  by (induction xs) auto

lemma settled_part_bag: "pane_bag (settled_part m) + sum_list (map (\<lambda>ts. mset (tabs_panes ts)) (m_orphans m)) = pane_bag m"
proof -
  have "sum_list (map window_bag (m_windows (settled_part m))) = sum_list (map window_bag (m_windows m))"
    unfolding settled_part_eq by (simp add: sum_list_filter_empty empty_window_bag comp_def del: filter_map)
  then show ?thesis by (simp add: pane_bag_def settled_part_eq comp_def)
qed

lemma house_orphan_bag: "pane_bag (house_orphan m ts) = pane_bag m + mset (tabs_panes ts)"
proof (cases "ts_tabs (tabs_tidy ts) = []")
  case True
  then have "tabs_panes (tabs_tidy ts) = []" by (simp add: tabs_panes_def)
  with True show ?thesis by (simp add: house_orphan_eq)
qed (simp add: house_orphan_eq pane_bag_def window_bag_def new_house_def new_window_def)

lemma house_all_bag: "pane_bag (foldl house_orphan m xs) = pane_bag m + sum_list (map (\<lambda>ts. mset (tabs_panes ts)) xs)"
  by (induction xs arbitrary: m) (simp_all add: house_orphan_bag)

lemma drop_empty_bag [panes_simps]: "pane_bag (drop_empty m) = pane_bag m"
  by (simp add: drop_empty_eq house_all_bag settled_part_bag)

lemma settle_ok [simp]: "tabs_ok (settle_focus b ts) = tabs_ok ts"
  by (simp add: tabs_ok_def)

lemma drop_empty_trees: "trees_ok m \<Longrightarrow> trees_ok (drop_empty m)"
proof -
  assume ok: "trees_ok m"
  have part: "trees_ok (settled_part m)"
    using ok by (auto simp: trees_ok_def all_tabs_def settled_part_eq settle_window_def settle_ws_def freed_def
        intro!: tidy_ok split: option.splits)
  have "trees_ok (foldl house_orphan m' xs)" if "trees_ok m'" "\<forall>ts \<in> set xs. tabs_ok ts" for m' xs
    using that
  proof (induction xs arbitrary: m')
    case (Cons ts xs)
    have "trees_ok (house_orphan m' ts)"
      using Cons.prems by (auto simp: house_orphan_eq trees_ok_def all_tabs_def new_house_def housed_ok)
    with Cons show ?case by simp
  qed simp
  moreover have "\<forall>ts \<in> set (m_orphans m). tabs_ok ts" using ok by (simp add: trees_ok_def all_tabs_def)
  ultimately show ?thesis using part by (simp add: drop_empty_eq)
qed

lemma settled_part_settled: "layout_settled (settled_part m)"
proof -
  have "window_settled (ws_id ` set (map settle_ws (m_workspaces m))) (settle_window (freed m w))"
    if "ts_tabs (win_tabs (settle_window (freed m w))) \<noteq> [] \<or> win_lead (settle_window (freed m w)) \<noteq> None" for w
  proof -
    have "case win_ws (freed m w) of Some i \<Rightarrow> i \<in> ws_id ` set (m_workspaces m) | None \<Rightarrow> True"
      by (auto simp: freed_def ws_index_def split: option.splits)
    moreover have "ws_id (settle_ws s) = ws_id s" for s by (simp add: settle_ws_def)
    ultimately show ?thesis
      using that settle_tidy_settled by (auto simp: window_settled_def settle_window_def image_comp comp_def)
  qed
  moreover have "tabs_settled (Some (dk_pane (ws_dock (settle_ws s)))) (ws_tabs (settle_ws s))" for s
    using settle_tidy_settled by (simp add: settle_ws_def)
  ultimately show ?thesis by (auto simp: layout_settled_def settled_part_eq)
qed

lemma house_settled: "layout_settled m \<Longrightarrow> layout_settled (house_orphan m ts)"
proof (cases "ts_tabs (tabs_tidy ts) = []")
  case False
  assume "layout_settled m"
  moreover have "window_settled wss (new_house n ts)" for wss n
    using False housed_settled [of ts]
    by (simp add: window_settled_def new_house_def new_window_def) (simp add: housed_def)
  ultimately show ?thesis using False by (auto simp: layout_settled_def house_orphan_eq)
qed (simp add: house_orphan_eq)

lemma drop_empty_settled: "layout_settled (drop_empty m)"
proof -
  have "layout_settled m' \<Longrightarrow> layout_settled (foldl house_orphan m' xs)" for m' xs
    by (induction xs arbitrary: m') (simp_all add: house_settled)
  then show ?thesis using settled_part_settled by (simp add: drop_empty_eq)
qed

lemma drop_empty_layout_ok: "layout_ok m \<Longrightarrow> layout_ok (drop_empty m)"
  by (simp add: layout_ok_iff drop_empty_bag drop_empty_trees)

text \<open>A settled layout is left alone, so dropping twice is dropping once.\<close>

lemma tidy_settled_id: "\<forall>t \<in> set (ts_tabs ts). tab_root t \<noteq> None \<Longrightarrow> active_ok ts \<Longrightarrow> tabs_tidy ts = ts"
  by (cases ts; cases "ts_active ts")
     (auto simp: tabs_tidy_def active_ok_def tab_ids_def Let_def filter_id_conv [THEN iffD2])

lemma settle_settled_id: "settled b ts \<Longrightarrow> settle_focus b ts = ts"
  by (cases ts; cases "ts_focused ts")
     (auto simp: settle_focus_def settled_def keep_in_def Let_def split: option.splits)

lemma drop_settled: "layout_settled m \<Longrightarrow> drop_empty m = m"
proof -
  assume s: "layout_settled m"
  have "settle_window (freed m w) = w" if "w \<in> set (m_windows m)" for w
  proof -
    from s that have w: "window_settled (ws_id ` set (m_workspaces m)) w" by (simp add: layout_settled_def)
    then have "freed m w = w" by (auto simp: window_settled_def freed_def ws_index_def split: option.splits)
    with w show ?thesis
      by (simp add: settle_window_def window_settled_def tabs_settled_def tidy_settled_id settle_settled_id)
  qed
  moreover have "settle_ws t = t" if "t \<in> set (m_workspaces m)" for t
    using s that by (simp add: layout_settled_def settle_ws_def tabs_settled_def tidy_settled_id settle_settled_id)
  ultimately have "map (\<lambda>w. settle_window (freed m w)) (m_windows m) = m_windows m"
    "map settle_ws (m_workspaces m) = m_workspaces m" by (simp_all add: map_idI)
  moreover have "filter (\<lambda>w. ts_tabs (win_tabs w) \<noteq> [] \<or> win_lead w \<noteq> None) (m_windows m) = m_windows m"
    using s by (auto simp: layout_settled_def window_settled_def intro!: filter_True)
  ultimately show ?thesis
    using s by (cases m) (simp add: drop_empty_eq settled_part_eq layout_settled_def)
qed

end
