(* ===== verification/Mux_Moves.thy ===== *)
theory Mux_Moves
  imports Mux_Tidy
begin

text \<open>
  What the commands do to the panes of the layout: moving a pane or a tab and focusing keep every
  pane exactly once; where a move can fail half way is said exactly.
\<close>

subsection \<open>Making windows and tabs\<close>

lemma make_window_facts:
  assumes "make_window m = (m', w)"
  shows "pane_bag m' = pane_bag m" "trees_ok m' = trees_ok m" "w = length (m_windows m)" "holder_in m' (HWindow w)"
    "holder_in m h \<Longrightarrow> holder_in m' h \<and> tabs_of m' h = tabs_of m h" "tabs_of m' (HWindow w) = default_tabs"
    "m_workspaces m' = m_workspaces m" "m_orphans m' = m_orphans m"
    "m_windows m' = m_windows m @ [new_window (''win-'' @ dec (Suc (win_counter m)))]"
proof -
  from assms have m': "m' = m\<lparr>win_counter := Suc (win_counter m), m_windows := m_windows m @ [new_window (''win-'' @ dec (Suc (win_counter m)))]\<rparr>"
    "w = length (m_windows m)" by (auto simp: make_window_def Let_def)
  have bag: "window_bag (new_window i) = {#}" for i by (simp add: window_bag_def new_window_def default_tabs_def tabs_panes_def)
  have "tabs_ok default_tabs" by (simp add: tabs_ok_def default_tabs_def)
  then show "trees_ok m' = trees_ok m" by (auto simp: m' trees_ok_def all_tabs_def new_window_def)
  show "pane_bag m' = pane_bag m" by (simp add: m' pane_bag_def bag)
  show "holder_in m h \<Longrightarrow> holder_in m' h \<and> tabs_of m' h = tabs_of m h"
    by (cases h) (auto simp: m' nth_append)
qed (use assms in \<open>auto simp: make_window_def Let_def new_window_def\<close>)

lemma upd_window_ws_facts:
  fixes m w x
  defines "m' \<equiv> upd_window w (\<lambda>v. v\<lparr>win_ws := x\<rparr>) m"
  shows "pane_bag m' = pane_bag m" "trees_ok m' = trees_ok m" "holder_in m' h = holder_in m h" "tabs_of m' h = tabs_of m h"
    "m_workspaces m' = m_workspaces m" "m_orphans m' = m_orphans m"
proof -
  have "map f (m_windows m') = map f (m_windows m)" if "f ((m_windows m ! w)\<lparr>win_ws := x\<rparr>) = f (m_windows m ! w)" for f :: "window \<Rightarrow> 'a"
    using that by (cases "w < length (m_windows m)") (simp_all add: m'_def upd_window_def map_update list_update_same_conv list_update_beyond)
  from this [of window_bag] this [of win_tabs] show "pane_bag m' = pane_bag m" "trees_ok m' = trees_ok m"
    by (simp_all add: pane_bag_def trees_ok_def all_tabs_def m'_def upd_window_def)
  show "holder_in m' h = holder_in m h" by (cases h) (simp_all add: m'_def upd_window_def)
  show "tabs_of m' h = tabs_of m h"
  proof (cases h)
    case (HWindow i)
    then show ?thesis by (cases "i = w"; cases "w < length (m_windows m)") (simp_all add: m'_def upd_window_def list_update_beyond)
  qed (simp add: m'_def upd_window_def)
qed (simp_all add: m'_def upd_window_def)

lemma window_for_facts:
  assumes "window_for s m = (m', w)"
  shows "pane_bag m' = pane_bag m" "trees_ok m' = trees_ok m" "holder_in m' (HWindow w)"
    "holder_in m h \<Longrightarrow> holder_in m' h \<and> tabs_of m' h = tabs_of m h" "tabs_of m' (HWindow w) = default_tabs"
    "m_workspaces m' = m_workspaces m" "m_orphans m' = m_orphans m" "w = length (m_windows m)"
proof -
  define x where "x = (case s of Some s \<Rightarrow> if is_task (m_workspaces m ! s) then Some (ws_id (m_workspaces m ! s)) else None | None \<Rightarrow> None)"
  obtain m1 v where mk: "make_window m = (m1, v)" by force
  from assms have m': "m' = upd_window v (\<lambda>y. y\<lparr>win_ws := x\<rparr>) m1" "w = v"
    unfolding window_for_def x_def mk Let_def by auto
  note f = make_window_facts [OF mk] and g = upd_window_ws_facts [of v x m1, folded m'(1)]
  show "pane_bag m' = pane_bag m" "trees_ok m' = trees_ok m" by (simp_all only: f g)
  show "holder_in m' (HWindow w)" "tabs_of m' (HWindow w) = default_tabs"
    unfolding g m'(2) by (fact f(4) f(6))+
  show "m_workspaces m' = m_workspaces m" "m_orphans m' = m_orphans m" "w = length (m_windows m)"
    by (simp_all only: f g m'(2))
  show "holder_in m' h \<and> tabs_of m' h = tabs_of m h" if "holder_in m h" using f(5) [OF that] by (simp only: g)
qed

lemma upd_tabs_maps:
  "map ws_dock (m_workspaces (upd_tabs h f m)) = map ws_dock (m_workspaces m)"
  "map ws_background (m_workspaces (upd_tabs h f m)) = map ws_background (m_workspaces m)"
  "map ws_id (m_workspaces (upd_tabs h f m)) = map ws_id (m_workspaces m)"
  "map win_lead (m_windows (upd_tabs h f m)) = map win_lead (m_windows m)"
  "map win_id (m_windows (upd_tabs h f m)) = map win_id (m_windows m)"
  by (cases h; simp add: upd_window_def upd_ws_def map_update;
      metis (no_types, lifting) length_map list_update_beyond list_update_id not_le nth_map)+

lemma add_tab_facts:
  "tabs_panes (add_tab i act ts) = tabs_panes ts" "tabs_ok (add_tab i act ts) = tabs_ok ts"
  "ts_tabs (add_tab i act ts) = ts_tabs ts @ [new_tab i (Suc (ts_count ts))]"
  by (auto simp: add_tab_def Let_def tabs_panes_def tab_panes_def new_tab_def tabs_ok_def root_ok_def)

lemma make_tab_facts:
  assumes "make_tab h act m = (m', t)" "holder_in m h"
  shows "pane_bag m' = pane_bag m" "trees_ok m \<Longrightarrow> trees_ok m'" "holder_in m' h' = holder_in m h'"
    "t < length (ts_tabs (tabs_of m' h))" "tab_panes (ts_tabs (tabs_of m' h) ! t) = []"
    "tabs_of m' h' = (if h' = h then add_tab (''tab-'' @ dec (Suc (tab_counter m))) act (tabs_of m h) else tabs_of m h')"
    "m_orphans m' = m_orphans m" "tab_id (ts_tabs (tabs_of m' h) ! t) = ''tab-'' @ dec (Suc (tab_counter m))"
    "map ws_dock (m_workspaces m') = map ws_dock (m_workspaces m)"
    "map ws_background (m_workspaces m') = map ws_background (m_workspaces m)"
    "map win_lead (m_windows m') = map win_lead (m_windows m)"
proof -
  let ?m = "m\<lparr>tab_counter := Suc (tab_counter m)\<rparr>" and ?i = "''tab-'' @ dec (Suc (tab_counter m))"
  from assms(1) have m': "m' = upd_tabs h (add_tab ?i act) ?m" and t: "t = length (ts_tabs (tabs_of m' h)) - 1"
    by (auto simp: make_tab_def Let_def)
  have in_eq: "holder_in ?m h' = holder_in m h'" "tabs_of ?m h' = tabs_of m h'" for h' by (cases h'; simp)+
  have hin: "holder_in ?m h" using assms(2) in_eq by simp
  have eqs: "pane_bag ?m = pane_bag m" "trees_ok ?m = trees_ok m" by (simp_all add: pane_bag_def trees_ok_def all_tabs_def)
  show "pane_bag m' = pane_bag m"
    unfolding m' eqs(1) [symmetric] by (rule pane_bag_upd_tabs_same [OF hin]) (simp add: add_tab_facts)
  show "trees_ok m'" if "trees_ok m"
    unfolding m' by (rule trees_ok_upd_tabs) (use that eqs trees_ok_tabs [OF that] in_eq in \<open>simp_all add: add_tab_facts\<close>)
  show tabs: "tabs_of m' h' = (if h' = h then add_tab ?i act (tabs_of m h) else tabs_of m h')" for h'
    unfolding m' tabs_of_upd_tabs [OF hin] in_eq ..
  show "t < length (ts_tabs (tabs_of m' h))" "tab_panes (ts_tabs (tabs_of m' h) ! t) = []"
    "tab_id (ts_tabs (tabs_of m' h) ! t) = ?i"
    unfolding t by (simp_all add: tabs add_tab_facts nth_append tab_panes_def new_tab_def)
  show "holder_in m' h' = holder_in m h'" "m_orphans m' = m_orphans m" by (simp_all add: m' in_eq)
  show "map ws_dock (m_workspaces m') = map ws_dock (m_workspaces m)"
    "map ws_background (m_workspaces m') = map ws_background (m_workspaces m)"
    "map win_lead (m_windows m') = map win_lead (m_windows m)"
    unfolding m' upd_tabs_maps by simp_all
qed

subsection \<open>Putting a pane in\<close>

lemma layout_ok_add:
  "layout_ok m \<Longrightarrow> p \<notin># pane_bag m \<Longrightarrow> pane_bag m' = add_mset p (pane_bag m) \<Longrightarrow> trees_ok m' \<Longrightarrow> layout_ok m'"
  by (simp add: layout_ok_iff once_add)

lemma append_bag:
  assumes "holder_in m h" "t < length (ts_tabs (tabs_of m h))"
  shows "pane_bag (upd_tabs h (tabs_append p t) m) = add_mset p (pane_bag m)"
proof -
  obtain xs ys where "tabs_panes (tabs_of m h) = xs @ ys" "tabs_panes (tabs_append p t (tabs_of m h)) = xs @ p # ys"
    by (rule tabs_append_panes [OF assms(2)])
  with pane_bag_upd_tabs [OF assms(1), of "tabs_append p t"] show ?thesis by simp
qed

lemma append_trees: "trees_ok m \<Longrightarrow> holder_in m h \<Longrightarrow> t < length (ts_tabs (tabs_of m h)) \<Longrightarrow> trees_ok (upd_tabs h (tabs_append p t) m)"
  by (intro trees_ok_upd_tabs tabs_append_ok) (simp_all add: trees_ok_tabs)

lemma insert_bag:
  assumes "holder_in m h" "t < length (ts_tabs (tabs_of m h))" "b \<in> set (tab_panes (ts_tabs (tabs_of m h) ! t))"
  shows "pane_bag (upd_tabs h (tabs_insert (Pane p) b t a after sz) m) = add_mset p (pane_bag m)"
proof -
  obtain xs ys where "tabs_panes (tabs_of m h) = xs @ b # ys"
    "tabs_panes (tabs_insert (Pane p) b t a after sz (tabs_of m h)) = xs @ (if after then b # pane_ids (Pane p) else pane_ids (Pane p) @ [b]) @ ys"
    by (rule tabs_insert_panes [OF assms(2,3)])
  with pane_bag_upd_tabs [OF assms(1), of "tabs_insert (Pane p) b t a after sz"] show ?thesis by (cases after) simp_all
qed

lemma insert_trees:
  "trees_ok m \<Longrightarrow> holder_in m h \<Longrightarrow> t < length (ts_tabs (tabs_of m h)) \<Longrightarrow> 0 < sz \<Longrightarrow> sz < 1 \<Longrightarrow>
   trees_ok (upd_tabs h (tabs_insert (Pane p) b t a after sz) m)"
  by (intro trees_ok_upd_tabs tabs_insert_ok) (simp_all add: trees_ok_tabs)

lemma locate_tab_panes:
  "locate m p = Some l \<Longrightarrow> holder_in m (loc_holder l) \<and> loc_tab l < length (ts_tabs (tabs_of m (loc_holder l))) \<and>
     p \<in> set (tab_panes (ts_tabs (tabs_of m (loc_holder l)) ! loc_tab l))"
proof -
  assume "locate m p = Some l"
  from locate_SomeD [OF this] have h: "holder_in m (loc_holder l)"
    and l: "tabs_locate (tabs_of m (loc_holder l)) p = Some (loc_tab l, loc_parent l, loc_index l)" by auto
  from tabs_locate_SomeD [OF l] h show ?thesis by (auto simp: tab_panes_def dest: locate_in_SomeD)
qed

subsection \<open>Focusing\<close>

lemma focus_pane_facts:
  "pane_bag (fst (focus_pane p m)) = pane_bag m" "trees_ok m \<Longrightarrow> trees_ok (fst (focus_pane p m))"
  by (auto simp: focus_pane_def focus_ok split: option.splits
      intro!: pane_bag_upd_tabs_same trees_ok_upd_tabs dest: holder_of_in intro: trees_ok_tabs)

lemma upd_focus_facts:
  assumes "\<And>ts. ts_tabs (f ts) = ts_tabs ts"
  shows "pane_bag (upd_tabs h f m) = pane_bag m" "trees_ok m \<Longrightarrow> trees_ok (upd_tabs h f m)"
proof -
  have eq: "tabs_panes (f ts) = tabs_panes ts" "tabs_ok (f ts) = tabs_ok ts" for ts
    using assms by (simp_all add: tabs_panes_def tabs_ok_def)
  show "pane_bag (upd_tabs h f m) = pane_bag m"
  proof (cases "holder_in m h")
    case False
    then have "upd_tabs h f m = m" by (cases h) (simp_all add: upd_window_def upd_ws_def list_update_beyond)
    then show ?thesis by simp
  qed (simp add: pane_bag_upd_tabs_same eq)
  show "trees_ok m \<Longrightarrow> trees_ok (upd_tabs h f m)" by (simp add: trees_ok_upd_tabs eq trees_ok_tabs)
qed

lemma finish_move_facts:
  assumes "finish_move p ps m = (m', r)"
  shows "pane_bag m' = pane_bag m" "trees_ok m \<Longrightarrow> trees_ok m'" "\<exists>out. r = Inr out" "layout_settled m'"
  using assms focus_pane_facts [where p = p and m = m] drop_empty_trees [of "fst (focus_pane p m)"] drop_empty_settled
  by (auto simp: finish_move_def Let_def drop_empty_bag)

subsection \<open>Moving a pane\<close>

text \<open>The panes after \<open>p\<close> is taken out and put back in.\<close>

abbreviation rebag :: "string \<Rightarrow> string multiset \<Rightarrow> string multiset" where
  "rebag p b \<equiv> add_mset p (filter_mset (\<lambda>q. q \<noteq> p) b)"

lemma rebag_same: "once b \<Longrightarrow> p \<in># b \<Longrightarrow> rebag p b = b"
  by (metis insert_DiffM remove1_filter)

lemma ws_dock_None: "dock_ws m p = None \<longleftrightarrow> p \<notin> dk_pane ` set (map ws_dock (m_workspaces m))"
  by (auto simp: dock_ws_def)

lemma detach_undocked:
  assumes "dock_ws m p = None" "holder_in m h"
  shows "holder_in (detach p m) h" "tab_ids (tabs_of (detach p m) h) = tab_ids (tabs_of m h)"
    "q \<noteq> p \<Longrightarrow> q \<in> set (tabs_panes (tabs_of m h)) \<Longrightarrow> q \<in> set (tabs_panes (tabs_of (detach p m) h))"
proof -
  have bg: "tabs_of (upd_ws s (\<lambda>x. x\<lparr>ws_background := b x\<rparr>) m) h = tabs_of m h" for s b
    using assms(2) by (cases h; cases "s < length (m_workspaces m)") (auto simp: upd_ws_def nth_list_update)
  have ld: "tabs_of (upd_window w (\<lambda>x. x\<lparr>win_lead := None\<rparr>) m) h = tabs_of m h" for w
    using assms(2) by (cases h; cases "w < length (m_windows m)") (auto simp: upd_window_def nth_list_update)
  have ho: "holder_in (upd_window w f m) h = holder_in m h" for w f by (cases h) (simp_all add: upd_window_def)
  have orp: "holder_in (m\<lparr>m_orphans := x\<rparr>) h = holder_in m h" "tabs_of (m\<lparr>m_orphans := x\<rparr>) h = tabs_of m h" for x
    by (cases h; simp)+
  have up: "tabs_of (upd_tabs (loc_holder l) f m) h = (if h = loc_holder l then f (tabs_of m h) else tabs_of m h)"
    if "locate m p = Some l" for l f
    using locate_SomeD [OF that] by (simp add: tabs_of_upd_tabs)
  show "holder_in (detach p m) h"
    using assms by (auto simp: detach_def ho orp split: option.splits)
  show "tab_ids (tabs_of (detach p m) h) = tab_ids (tabs_of m h)"
    using assms by (auto simp: detach_def bg ld orp up tabs_remove_ids split: option.splits)
  have rm: "q \<in> set (tabs_panes (fst (tabs_remove p ts)))" if "q \<noteq> p" "q \<in> set (tabs_panes ts)" for ts
    using that tabs_remove_panes [of p ts] tabs_remove_absent [of p ts]
    by (cases "p \<in> set (tabs_panes ts)") (metis Un_iff insert_iff list.set(2) set_append, simp)
  show "q \<in> set (tabs_panes (tabs_of (detach p m) h))" if "q \<noteq> p" "q \<in> set (tabs_panes (tabs_of m h))"
    using assms that rm by (auto simp: detach_def bg ld orp up split: option.splits)
qed

lemma move_into_facts:
  assumes "layout_ok m" "move_into p dest ft un ps m = (m', r)"
  shows "layout_ok m'" "r = Inr out \<Longrightarrow> m' = m \<and> ft \<noteq> None \<or> pane_bag m' = rebag p (pane_bag m)"
    "r = Inl e \<Longrightarrow> pane_bag m' = filter_mset (\<lambda>q. q \<noteq> p) (pane_bag m) \<and> tab_index (detach p m) dest = None"
proof -
  let ?d = "detach p m"
  have d: "layout_ok ?d" "pane_bag ?d = filter_mset (\<lambda>q. q \<noteq> p) (pane_bag m)"
    using assms(1) by (rule detach_layout_ok) (use assms(1) in \<open>simp add: detach_bag layout_ok_iff\<close>)
  consider "Some dest = ft" "m' = m" "r = Inr un"
    | "tab_index ?d dest = None" "m' = ?d" "r = Inl panic"
    | h t where "tab_index ?d dest = Some (h, t)" "finish_move p ps (upd_tabs h (tabs_append p t) ?d) = (m', r)"
    using assms(2) unfolding move_into_def Let_def
    by (cases "Some dest = ft"; cases "tab_index ?d dest") auto
  then have "layout_ok m' \<and> (\<forall>out. r = Inr out \<longrightarrow> m' = m \<and> ft \<noteq> None \<or> pane_bag m' = rebag p (pane_bag m)) \<and>
    (\<forall>e. r = Inl e \<longrightarrow> pane_bag m' = filter_mset (\<lambda>q. q \<noteq> p) (pane_bag m) \<and> tab_index ?d dest = None)"
  proof cases
    case 3
    note t = tab_index_SomeD [OF 3(1)] and f = finish_move_facts [OF 3(2)]
    have "pane_bag m' = rebag p (pane_bag m)" using f(1) t d(2) by (simp add: append_bag)
    moreover have "trees_ok m'" using f(2) t d(1) by (simp add: append_trees layout_ok_iff)
    moreover have "once (rebag p (pane_bag m))" using d by (simp add: once_add layout_ok_iff)
    ultimately show ?thesis using f(3) by (auto simp: layout_ok_iff)
  qed (use assms(1) d in auto)
  then show "layout_ok m'" "r = Inr out \<Longrightarrow> m' = m \<and> ft \<noteq> None \<or> pane_bag m' = rebag p (pane_bag m)"
    "r = Inl e \<Longrightarrow> pane_bag m' = filter_mset (\<lambda>q. q \<noteq> p) (pane_bag m) \<and> tab_index ?d dest = None" by auto
qed

lemma move_to_dock_facts:
  assumes "layout_ok m" "move_to_dock p e args ps m = (m', r)"
  shows "layout_ok m'" "pane_bag m' = pane_bag m"
proof -
  have up: "pane_bag (upd_ws s (\<lambda>x. x\<lparr>ws_dock := (ws_dock x)\<lparr>dk_edge := e\<rparr>\<rparr>) m) = pane_bag m" if "s < length (m_workspaces m)" for s
    using pane_bag_upd_ws [OF that, of "\<lambda>x. x\<lparr>ws_dock := (ws_dock x)\<lparr>dk_edge := e\<rparr>\<rparr>"] by (simp add: ws_bag_def)
  have tr: "trees_ok (upd_ws s (\<lambda>x. x\<lparr>ws_dock := (ws_dock x)\<lparr>dk_edge := e\<rparr>\<rparr>) m)" if "trees_ok m" for s
    using that by (intro trees_ok_upd_ws) (simp_all add: trees_ok_ws)
  from assms have "pane_bag m' = pane_bag m \<and> trees_ok m'"
    by (auto simp: move_to_dock_def Let_def focus_pane_facts up tr layout_ok_iff split: if_splits option.splits dest!: lookup_bounds(2))
  then show "layout_ok m'" "pane_bag m' = pane_bag m" using assms(1) by (auto simp: layout_ok_iff)
qed

lemma to_background_facts:
  assumes "layout_ok m" "p \<in># pane_bag m" "holder_in m from" "to_background p from ps m = (m', r)"
  shows "layout_ok m'" "pane_bag m' = pane_bag m"
proof -
  let ?d = "detach p m" and ?f = "\<lambda>x. x\<lparr>ws_background := ws_background x @ [p]\<rparr>"
  have d: "layout_ok ?d" "pane_bag ?d = filter_mset (\<lambda>q. q \<noteq> p) (pane_bag m)"
    using assms(1) by (rule detach_layout_ok) (use assms(1) in \<open>simp add: detach_bag layout_ok_iff\<close>)
  have "pane_bag (drop_empty (upd_ws s ?f ?d)) = rebag p (pane_bag m) \<and> trees_ok (drop_empty (upd_ws s ?f ?d))"
    if "dock_ws m p = None" "s < length (m_workspaces m)" for s
  proof -
    from detach_undocked(1) [OF that(1), of "HWorkspace s"] that(2) have s: "s < length (m_workspaces ?d)" by simp
    have "pane_bag (upd_ws s ?f ?d) = rebag p (pane_bag m)"
      using pane_bag_upd_ws [OF s, of ?f] d(2) by (simp add: ws_bag_def)
    moreover have "trees_ok (upd_ws s ?f ?d)"
      using d(1) s by (intro trees_ok_upd_ws) (simp_all add: trees_ok_ws layout_ok_iff)
    ultimately show ?thesis by (simp add: drop_empty_bag drop_empty_trees)
  qed
  moreover have "rebag p (pane_bag m) = pane_bag m" using assms(1,2) by (simp add: rebag_same layout_ok_iff)
  moreover have "s < length (m_workspaces m)" if "ws_of m from = Some s" for s
    using that assms(3) by (cases "from") (auto split: Option.bind_splits dest: lookup_bounds)
  ultimately have "pane_bag m' = pane_bag m \<and> trees_ok m'"
    using assms(1,4) by (auto simp: to_background_def Let_def layout_ok_iff split: if_splits option.splits)
  then show "layout_ok m'" "pane_bag m' = pane_bag m" using assms(1) by (auto simp: layout_ok_iff)
qed

text \<open>A move beside a pane either changes nothing, swaps, or takes the pane out and puts it in again;
  only the last can fail, and then the pane is out.\<close>

lemma move_beside_cases:
  assumes "move_beside p from reference args ps m = (m', r)"
  obtains "m' = m"
  | q where "need ps (Some reference) = Inr q" "finish_move p ps (upd_tabs from
        (\<lambda>ts. if ts_focused ts = Some p then ts\<lparr>ts_focused := Some (pane_id q)\<rparr> else ts) (swap p (pane_id q) m)) = (m', r)"
  | q where "need ps (Some reference) = Inr q" "pane_id q \<noteq> p" "lead_window m (pane_id q) = None" "dock_ws m (pane_id q) = None"
      "background_ws m (pane_id q) = None" "locate (detach p m) (pane_id q) = None" "m' = detach p m"
      "r = Inl (not_found (''no pane '' @ dq reference))"
  | q l a after where "need ps (Some reference) = Inr q" "locate (detach p m) (pane_id q) = Some l"
      "finish_move p ps (upd_tabs (loc_holder l) (tabs_insert (Pane p) (pane_id q) (loc_tab l) a after (1 / 2)) (detach p m)) = (m', r)"
proof (cases "need ps (Some reference)")
  case (Inl e)
  with assms that(1) show thesis by (simp add: move_beside_def)
next
  case (Inr q)
  let ?t = "pane_id q"
  define sd where "sd = (case json_string args ''side'' of Some s \<Rightarrow> s | None \<Rightarrow> ''swap'')"
  define ax where "ax = (if sd = ''left'' \<or> sd = ''right'' then Row else Column)"
  have bg: "background_ws m ?t = None" if "refuse_background m ?t ps = Inr x" for x
    using that by (auto simp: refuse_background_def split: option.splits)
  note d = assms [unfolded move_beside_def Inr sum.case Let_def, folded sd_def, folded ax_def]
  show thesis
  proof (cases "refuse_frozen_pane m ?t ps")
    case (Inl e)
    with d that(1) show thesis by (auto split: if_splits)
  next
    case fr: (Inr x)
    show thesis
    proof (cases "refuse_background m ?t ps")
      case (Inl e)
      with d fr that(1) show thesis by (auto split: if_splits)
    next
      case rb: (Inr y)
      note d = d [unfolded fr rb sum.case]
      have "m' = m \<or>
          finish_move p ps (upd_tabs from
              (\<lambda>ts. if ts_focused ts = Some p then ts\<lparr>ts_focused := Some ?t\<rparr> else ts) (swap p ?t m)) = (m', r) \<or>
          ?t \<noteq> p \<and> lead_window m ?t = None \<and> dock_ws m ?t = None \<and>
            (case locate (detach p m) ?t of None \<Rightarrow> (detach p m, Inl (not_found (''no pane '' @ dq reference)))
              | Some l \<Rightarrow> finish_move p ps (upd_tabs (loc_holder l) (tabs_insert (Pane p) ?t (loc_tab l)
                  ax (sd = ''right'' \<or> sd = ''bottom'') (1 / 2)) (detach p m))) = (m', r)"
        using d by (simp split: if_split_asm)
      then show thesis
      proof (elim disjE conjE)
        assume t: "?t \<noteq> p" "lead_window m ?t = None" "dock_ws m ?t = None"
          and e: "(case locate (detach p m) ?t of None \<Rightarrow> (detach p m, Inl (not_found (''no pane '' @ dq reference)))
              | Some l \<Rightarrow> finish_move p ps (upd_tabs (loc_holder l) (tabs_insert (Pane p) ?t (loc_tab l)
                  ax (sd = ''right'' \<or> sd = ''bottom'') (1 / 2)) (detach p m))) = (m', r)"
        show thesis
        proof (cases "locate (detach p m) ?t")
          case None
          with e show thesis by (intro that(3) [OF Inr t bg [OF rb] None]) simp_all
        next
          case (Some l)
          with e show thesis by (intro that(4) [OF Inr Some]) simp
        qed
      qed (rule that(1), assumption, rule that(2) [OF Inr], assumption)
    qed
  qed
qed

lemma move_beside_facts:
  assumes "layout_ok m" "p \<in># pane_bag m" "move_beside p from reference args ps m = (m', r)"
  shows "layout_ok m'" "r = Inr out \<Longrightarrow> pane_bag m' = pane_bag m"
    "r = Inl e \<Longrightarrow> pane_bag m' = pane_bag m \<or> (add_mset p (pane_bag m') = pane_bag m \<and>
       (\<exists>q. need ps (Some reference) = Inr q \<and> pane_id q \<noteq> p \<and> lead_window m (pane_id q) = None \<and> dock_ws m (pane_id q) = None \<and>
          background_ws m (pane_id q) = None \<and> locate (detach p m) (pane_id q) = None))"
proof -
  have ok: "once (pane_bag m)" "trees_ok m" using assms(1) by (auto simp: layout_ok_iff)
  have d: "layout_ok (detach p m)" "pane_bag (detach p m) = filter_mset (\<lambda>q. q \<noteq> p) (pane_bag m)"
    using assms(1) by (rule detach_layout_ok) (simp add: detach_bag ok)
  have same: "rebag p (pane_bag m) = pane_bag m" by (rule rebag_same [OF ok(1) assms(2)])
  let ?lost = "\<lambda>m'. add_mset p (pane_bag m') = pane_bag m"
  let ?why = "\<exists>q. need ps (Some reference) = Inr q \<and> pane_id q \<noteq> p \<and> lead_window m (pane_id q) = None \<and> dock_ws m (pane_id q) = None \<and>
          background_ws m (pane_id q) = None \<and> locate (detach p m) (pane_id q) = None"
  have "layout_ok m' \<and> (pane_bag m' = pane_bag m \<or> (\<exists>e. r = Inl e) \<and> ?lost m' \<and> ?why)"
    using assms(3)
  proof (cases rule: move_beside_cases)
    case 1
    with assms(1) show ?thesis by simp
  next
    case (2 q)
    let ?f = "\<lambda>ts. if ts_focused ts = Some p then ts\<lparr>ts_focused := Some (pane_id q)\<rparr> else ts"
    have "pane_bag (upd_tabs from ?f (swap p (pane_id q) m)) = pane_bag m" "trees_ok (upd_tabs from ?f (swap p (pane_id q) m))"
      by (simp_all add: upd_focus_facts swap_bag swap_trees ok)
    with finish_move_facts [OF 2(2)] ok show ?thesis by (simp add: layout_ok_iff)
  next
    case (3 q)
    with d same show ?thesis by auto
  next
    case (4 q l a after)
    note t = locate_tab_panes [OF 4(2)] and f = finish_move_facts [OF 4(3)]
    have "pane_bag m' = pane_bag m" using f(1) t d(2) same by (simp add: insert_bag)
    moreover have "trees_ok m'" using f(2) t d(1) by (simp add: insert_trees layout_ok_iff)
    ultimately show ?thesis using ok by (simp add: layout_ok_iff)
  qed
  then show "layout_ok m'" "r = Inr out \<Longrightarrow> pane_bag m' = pane_bag m" "r = Inl e \<Longrightarrow> pane_bag m' = pane_bag m \<or> ?lost m' \<and> ?why"
    by auto
qed

lemma target_window_facts:
  assumes "target_window ref m = (m', r)"
  shows "pane_bag m' = pane_bag m" "trees_ok m' = trees_ok m" "r = Inl e \<Longrightarrow> m' = m" "r = Inr w \<Longrightarrow> holder_in m' (HWindow w)"
    "holder_in m h \<Longrightarrow> holder_in m' h \<and> tabs_of m' h = tabs_of m h" "m_workspaces m' = m_workspaces m" "m_orphans m' = m_orphans m"
proof -
  obtain m1 v where mk: "make_window m = (m1, v)" by force
  consider "m' = m" "\<forall>w. r = Inr w \<longrightarrow> w < length (m_windows m)" | "m' = m1" "r = Inr v"
    using assms mk
    by (auto simp: target_window_def ok_or_def split: option.splits if_splits dest: lookup_bounds(5))
  then show "pane_bag m' = pane_bag m" "trees_ok m' = trees_ok m" "r = Inl e \<Longrightarrow> m' = m" "r = Inr w \<Longrightarrow> holder_in m' (HWindow w)"
    "holder_in m h \<Longrightarrow> holder_in m' h \<and> tabs_of m' h = tabs_of m h" "m_workspaces m' = m_workspaces m" "m_orphans m' = m_orphans m"
    by (cases; use make_window_facts [OF mk] in auto)+
qed

lemma workspace_holder_in: "workspace_holder reference m = Inr h \<Longrightarrow> holder_in m h"
  by (auto simp: workspace_holder_def ok_or_def split: option.splits dest: lookup_bounds)

lemma move_holder_facts:
  assumes "layout_ok m" "holder_in m from" "move_holder p from args m = (m1, r)"
  shows "layout_ok m1" "r = Inl e \<Longrightarrow> m1 = m" "r = Inr h \<Longrightarrow> holder_in m1 h"
    "pane_bag m1 = pane_bag m \<or> dock_ws m p \<noteq> None \<and> pane_bag m1 = filter_mset (\<lambda>q. q \<noteq> p) (pane_bag m)"
    "dock_ws m p = None \<Longrightarrow> m_workspaces m1 = m_workspaces m"
proof -
  have d: "layout_ok (detach p m)" "pane_bag (detach p m) = filter_mset (\<lambda>q. q \<noteq> p) (pane_bag m)"
    using assms(1) by (rule detach_layout_ok) (use assms(1) in \<open>simp add: detach_bag layout_ok_iff\<close>)
  obtain m2 v where mk: "make_window (detach p m) = (m2, v)" by force
  obtain m3 u where wf: "window_for (ws_of m from) m = (m3, u)" by force
  note a = make_window_facts [OF mk] and b = window_for_facts [OF wf]
  have *: "layout_ok m1 \<and> ((\<exists>e. r = Inl e) \<longrightarrow> m1 = m) \<and> (\<forall>h. r = Inr h \<longrightarrow> holder_in m1 h) \<and>
    (pane_bag m1 = pane_bag m \<or> dock_ws m p \<noteq> None \<and> pane_bag m1 = filter_mset (\<lambda>q. q \<noteq> p) (pane_bag m)) \<and>
    (dock_ws m p = None \<longrightarrow> m_workspaces m1 = m_workspaces m)"
  proof (cases "json_string args ''window''")
    case None
    then have "(m1 = m \<and> (\<forall>h. r = Inr h \<longrightarrow> holder_in m h)) \<or> (dock_ws m p \<noteq> None \<and> m1 = m2 \<and> r = Inr (HWindow v))"
      using assms(2,3) mk by (auto simp: move_holder_def intro: workspace_holder_in split: if_splits)
    then show ?thesis using a d assms(1) by (auto simp: layout_ok_iff)
  next
    case (Some w)
    show ?thesis
    proof (cases "w = ''new''")
      case True
      with Some assms(3) wf have "m1 = m3" "r = Inr (HWindow u)" by (auto simp: move_holder_def)
      with b assms(1) show ?thesis by (auto simp: layout_ok_iff)
    next
      case False
      obtain m4 r4 where tw: "target_window (Some w) m = (m4, r4)" by force
      with Some False assms(3) have "m1 = m4" "r = (case r4 of Inl e \<Rightarrow> Inl e | Inr w \<Rightarrow> Inr (HWindow w))"
        by (auto simp: move_holder_def split: sum.splits)
      with target_window_facts [OF tw] assms(1) show ?thesis by (cases r4) (auto simp: layout_ok_iff)
    qed
  qed
  from * show "layout_ok m1" "r = Inl e \<Longrightarrow> m1 = m" "r = Inr h \<Longrightarrow> holder_in m1 h"
    "pane_bag m1 = pane_bag m \<or> dock_ws m p \<noteq> None \<and> pane_bag m1 = filter_mset (\<lambda>q. q \<noteq> p) (pane_bag m)"
    "dock_ws m p = None \<Longrightarrow> m_workspaces m1 = m_workspaces m" by auto
qed

text \<open>The branches of \<open>move_pane\<close> that change something.\<close>

lemma move_pane_cases:
  assumes "move_pane_cmd args ps m = (m', r)"
  obtains "m' = m"
  | q h where "need ps (json_string args ''pane'') = Inr q" "holder_in m h" "pane_id q \<in># pane_bag m"
      "to_background (pane_id q) h ps m = (m', r)"
  | q e where "need ps (json_string args ''pane'') = Inr q" "move_to_dock (pane_id q) e args ps m = (m', r)"
  | q h reference where "need ps (json_string args ''pane'') = Inr q" "pane_id q \<in># pane_bag m"
      "json_string args ''to'' = Some reference" "move_beside (pane_id q) h reference args ps m = (m', r)"
  | q h t ft un where "need ps (json_string args ''pane'') = Inr q" "pane_id q \<in># pane_bag m" "holder_in m h" "t < length (ts_tabs (tabs_of m h))"
      "move_into (pane_id q) (tab_id (ts_tabs (tabs_of m h) ! t)) ft un ps m = (m', r)"
  | q f h m1 where "need ps (json_string args ''pane'') = Inr q" "pane_id q \<in># pane_bag m" "holder_in m f" "move_holder (pane_id q) f args m = (m1, Inr h)"
      "locate m1 (pane_id q) \<noteq> None" "m' = m1" "\<exists>out. r = Inr out"
  | q f h m1 m2 t ft un where "need ps (json_string args ''pane'') = Inr q" "pane_id q \<in># pane_bag m" "holder_in m f"
      "move_holder (pane_id q) f args m = (m1, Inr h)" "make_tab h True m1 = (m2, t)"
      "ft \<noteq> None \<Longrightarrow> locate m (pane_id q) \<noteq> None"
      "move_into (pane_id q) (tab_id (ts_tabs (tabs_of m2 h) ! t)) ft un ps m2 = (m', r)"
proof (cases "need ps (json_string args ''pane'')")
  case (Inl e)
  with assms show thesis by (intro that(1)) (simp add: move_pane_cmd_def)
next
  case (Inr q)
  let ?p = "pane_id q"
  note d = assms [unfolded move_pane_cmd_def Inr sum.case Let_def]
  show thesis
  proof (cases "lead_window m ?p \<noteq> None \<or> frozen_dock m ?p \<noteq> None \<or> or_else (holder_of m ?p) (map_option HWorkspace (background_ws m ?p)) = None")
    case True
    with d show thesis by (intro that(1)) (auto split: if_splits option.splits)
  next
    case False
    then obtain h where h: "or_else (holder_of m ?p) (map_option HWorkspace (background_ws m ?p)) = Some h" by auto
    from h have hin: "holder_in m h" by (auto split: option.splits dest: holder_of_in lookup_bounds)
    from h have bag: "?p \<in># pane_bag m"
      by (auto simp: pane_bag_cases holder_of_def split: option.splits)
    note d = d [unfolded h option.case] False
    show thesis
    proof (cases "is_true args ''background''")
      case True
      with d that(1) that(2) [OF Inr hin bag] show thesis by (simp split: if_splits)
    next
      case nb: False
      show thesis
      proof (cases "edge_read (jget args ''dock'')")
        case (Inl e)
        with d nb show thesis by (intro that(1)) simp
      next
        case er: (Inr e)
        show thesis
        proof (cases e)
          case (Some e')
          with d nb er show thesis by (intro that(3) [OF Inr]) simp
        next
          case None
          note d = d [unfolded er sum.case None option.case]
          show thesis
          proof (cases "json_string args ''to''")
            case (Some reference)
            with d nb show thesis by (intro that(4) [OF Inr bag Some]) simp
          next
            case to: None
            define tb where "tb = json_string args ''tab''"
            define ft where "ft = map_option (\<lambda>l. tab_id (ts_tabs (tabs_of m (loc_holder l)) ! loc_tab l)) (locate m ?p)"
            note d = d [unfolded to option.case, folded tb_def ft_def]
            show thesis
            proof (cases "tb \<noteq> None \<and> tb \<noteq> Some ''new''")
              case tab: True
              show thesis
              proof (cases "need_tab tb m")
                case (Inl e)
                with d nb tab show thesis by (intro that(1)) simp
              next
                case nt: (Inr x)
                obtain h' t where x: "x = (h', t)" by force
                from nt x have "holder_in m h'" "t < length (ts_tabs (tabs_of m h'))"
                  by (auto simp: need_tab_def ok_or_def split: option.splits Option.bind_splits dest!: tab_index_SomeD)
                with d nb tab nt x show thesis by (intro that(5) [OF Inr bag]) simp_all
              qed
            next
              case tab: False
              show thesis
              proof (cases "move_holder ?p h args m")
                case mh: (Pair m1 rh)
                show thesis
                proof (cases rh)
                  case (Inl e)
                  have "m1 = m" using mh Inl by (auto simp: move_holder_def target_window_def ok_or_def split: if_splits option.splits prod.splits)
                  with d nb tab mh Inl show thesis by (intro that(1)) (auto split: if_splits)
                next
                  case rh: (Inr h1)
                  obtain m2 t where mt: "make_tab h1 True m1 = (m2, t)" by force
                  let ?alone = "tb = None \<and> (case locate m1 ?p of Some l \<Rightarrow> loc_holder l = h1 \<and> loc_parent l = None | None \<Rightarrow> False)"
                  have "m' = m \<or> (?alone \<and> m' = m1 \<and> (\<exists>out. r = Inr out)) \<or>
                      move_into ?p (tab_id (ts_tabs (tabs_of m2 h1) ! t)) ft (at_reply h m) ps m2 = (m', r)"
                    using d nb tab mh rh mt by (auto split: if_splits)
                  then show thesis
                  proof (elim disjE conjE)
                    assume "case locate m1 ?p of Some l \<Rightarrow> loc_holder l = h1 \<and> loc_parent l = None | None \<Rightarrow> False" "m' = m1" "\<exists>out. r = Inr out"
                    then show thesis by (intro that(6) [OF Inr bag hin]) (use mh rh in \<open>auto split: option.splits\<close>)
                  qed (rule that(1), assumption, rule that(7) [OF Inr bag hin], use mh rh mt in \<open>simp_all add: ft_def\<close>)
                qed
              qed
            qed
          qed
        qed
      qed
    qed
  qed
qed

lemma undocked_tab_stays:
  assumes "dock_ws m p = None" "holder_in m h" "t < length (ts_tabs (tabs_of m h))"
  shows "tab_index (detach p m) (tab_id (ts_tabs (tabs_of m h) ! t)) \<noteq> None"
proof -
  have "tab_id (ts_tabs (tabs_of m h) ! t) \<in> set (tab_ids (tabs_of (detach p m) h))"
    unfolding detach_undocked(2) [OF assms(1,2)] using assms(3) by (simp add: tab_ids_def)
  with detach_undocked(1) [OF assms(1,2)] show ?thesis by (auto simp: tab_index_None_iff)
qed

lemma undocked_pane_stays:
  assumes "dock_ws m p = None" "q \<noteq> p" "locate m q \<noteq> None" shows "locate (detach p m) q \<noteq> None"
  using assms detach_undocked [OF assms(1)] unfolding locate_Some_iff by blast

definition move_loses :: "panes \<Rightarrow> json \<Rightarrow> model \<Rightarrow> string \<Rightarrow> bool" where
  "move_loses ps args m p \<longleftrightarrow> dock_ws m p \<noteq> None \<or>
     (\<exists>reference q. json_string args ''to'' = Some reference \<and> need ps (Some reference) = Inr q \<and> pane_id q \<noteq> p \<and>
        lead_window m (pane_id q) = None \<and> dock_ws m (pane_id q) = None \<and> background_ws m (pane_id q) = None \<and>
        locate m (pane_id q) = None)"

lemma move_pane_facts:
  assumes "layout_ok m" "move_pane_cmd args ps m = (m', r)"
  shows "layout_ok m' \<and> (pane_bag m' = pane_bag m \<or>
    (\<exists>e q. r = Inl e \<and> need ps (json_string args ''pane'') = Inr q \<and> add_mset (pane_id q) (pane_bag m') = pane_bag m \<and>
       move_loses ps args m (pane_id q)))"
  using assms(2)
proof (cases rule: move_pane_cases)
  case (2 q h)
  with to_background_facts [OF assms(1)] show ?thesis by blast
next
  case (3 q e)
  with move_to_dock_facts [OF assms(1)] show ?thesis by blast
next
  case (4 q h reference)
  note f = move_beside_facts [OF assms(1) 4(2,4)]
  show ?thesis
  proof (cases "pane_bag m' = pane_bag m")
    case False
    then obtain e where e: "r = Inl e" using f(2) by (cases r) auto
    with f(3) False obtain q' where q': "add_mset (pane_id q) (pane_bag m') = pane_bag m" "need ps (Some reference) = Inr q'"
      "pane_id q' \<noteq> pane_id q" "lead_window m (pane_id q') = None" "dock_ws m (pane_id q') = None"
      "background_ws m (pane_id q') = None" "locate (detach (pane_id q) m) (pane_id q') = None" by blast
    then have "move_loses ps args m (pane_id q)"
      using 4(3) undocked_pane_stays [of m "pane_id q" "pane_id q'"] by (auto simp: move_loses_def)
    with f(1) e q'(1) 4(1) show ?thesis by blast
  qed (use f(1) in blast)
next
  case (5 q h t ft un)
  have same: "rebag (pane_id q) (pane_bag m) = pane_bag m" using assms(1) 5(2) by (simp add: rebag_same layout_ok_iff)
  note f = move_into_facts [OF assms(1) 5(5)]
  show ?thesis
  proof (cases r)
    case (Inl e)
    with f(3) 5 undocked_tab_stays have "move_loses ps args m (pane_id q)" by (fastforce simp: move_loses_def)
    with f(1,3) Inl same 5(1) show ?thesis by metis
  qed (use f(1,2) same in fastforce)
next
  case (6 q f h m1)
  note g = move_holder_facts [OF assms(1) 6(3,4)]
  have "pane_id q \<in># pane_bag m1" using 6(5) pane_bag_cases by blast
  with g(4) have "pane_bag m1 = pane_bag m" by auto
  with g(1) 6(6) show ?thesis by blast
next
  case (7 q f h m1 m2 t ft un)
  note g = move_holder_facts [OF assms(1) 7(3,4)]
  note mt = make_tab_facts [OF 7(5) g(3) [OF refl]]
  have ok2: "layout_ok m2" using g(1) mt(1,2) by (simp add: layout_ok_iff)
  note i = move_into_facts [OF ok2 7(7)]
  have same: "rebag (pane_id q) (pane_bag m) = pane_bag m" using assms(1) 7(2) by (simp add: rebag_same layout_ok_iff)
  have f2: "filter_mset (\<lambda>x. x \<noteq> pane_id q) (pane_bag m2) = filter_mset (\<lambda>x. x \<noteq> pane_id q) (pane_bag m)"
    using g(4) mt(1) by (auto simp: filter_filter_mset)
  show ?thesis
  proof (cases r)
    case (Inl e)
    have "dock_ws m (pane_id q) \<noteq> None"
    proof
      assume none: "dock_ws m (pane_id q) = None"
      with g(5) mt(9) have "dock_ws m2 (pane_id q) = None" by (simp add: ws_dock_None)
      with undocked_tab_stays [of m2 "pane_id q" h t] mt(3,4) g(3) i(3) [OF Inl] show False by simp
    qed
    with i(1,3) Inl f2 same 7(1) show ?thesis by (metis move_loses_def)
  next
    case (Inr out)
    have "pane_bag m2 = pane_bag m" if "ft \<noteq> None"
      using g(4) mt(1) 7(6) [OF that] docked_not_located assms(1) by (auto simp: layout_ok_iff)
    with i(1) i(2) [OF Inr] f2 same show ?thesis by auto
  qed
qed (use assms(1) in auto)

subsection \<open>A small layout\<close>

text \<open>
  A window with two terminals side by side, and a planner whose dock holds a page and whose tab
  holds a third terminal.
\<close>

definition demo_panes :: panes where
  "demo_panes = foldl (\<lambda>ps k. fst (panes_make ps k None)) (empty_panes\<lparr>pn_content := True\<rparr>) [Term, Term, Term, Web]"

definition demo_tabs :: "string \<Rightarrow> node \<Rightarrow> string \<Rightarrow> tabs" where
  "demo_tabs i n p = default_tabs\<lparr>ts_tabs := [(new_tab i 1)\<lparr>tab_root := Some n\<rparr>], ts_active := Some i, ts_focused := Some p, ts_count := 1\<rparr>"

definition demo :: model where
  "demo = empty_model\<lparr>
     m_windows := [(new_window ''win-1'')\<lparr>win_tabs := demo_tabs ''tab-1'' (Split Row [(Pane ''term-1'', 1 / 2), (Pane ''term-2'', 1 / 2)]) ''term-1''\<rparr>],
     m_workspaces := [(new_ws ''ws-1'' \<lparr>dk_pane = ''page-1'', dk_edge = ELeft, dk_width = DOCK_WIDTH, dk_frozen = False\<rparr> (Planner MAC_APP))
       \<lparr>ws_tabs := demo_tabs ''tab-2'' (Pane ''term-3'') ''term-3''\<rparr>],
     tab_counter := 2, win_counter := 1, ws_counter := 1\<rparr>"

lemma demo_tabs_facts [simp]: "tabs_panes (demo_tabs i n p) = pane_ids n" "tabs_ok (demo_tabs i n p) = tree_ok n"
  by (simp_all add: demo_tabs_def tabs_panes_def tab_panes_def new_tab_def tabs_ok_def root_ok_def)

lemma demo_bag: "pane_bag demo = {#''term-1'', ''term-2'', ''page-1'', ''term-3''#}"
  by (simp add: demo_def empty_model_def pane_bag_def window_bag_def ws_bag_def new_window_def new_ws_def)

lemma demo_ok: "layout_ok demo"
proof -
  have "trees_ok demo"
    by (simp add: demo_def empty_model_def trees_ok_def all_tabs_def new_window_def new_ws_def kids_ok_def)
  then show ?thesis by (simp add: layout_ok_iff demo_bag once_add) (simp add: once_def)
qed

subsection \<open>Properties\<close>

text \<open>
  C2. Moving a pane keeps every pane of the layout in exactly one place: a \<open>move\<close> that succeeds
  changes no pane's membership, whatever its destination (beside a pane, a swap, a tab, a window,
  a workspace, the background, a dock edge). A move that fails changes nothing either, except that
  it may leave the moved pane out of the layout when that pane is docked, or when the pane it
  should go beside is in the table of panes and has no place. Trees stay well formed throughout.
\<close>

theorem move_keeps_panes:
  assumes "layout_ok m" "move_pane_cmd args ps m = (m', r)"
  shows "layout_ok m' \<and> (pane_bag m' = pane_bag m \<or>
    (\<exists>e q. r = Inl e \<and> need ps (json_string args ''pane'') = Inr q \<and> add_mset (pane_id q) (pane_bag m') = pane_bag m \<and>
       move_loses ps args m (pane_id q)))"
  using move_pane_facts [OF assms] .

theorem move_keeps_panes_witness:
  "pane_bag (fst (move_pane_cmd (JObject [(''pane'', JString ''term-1''), (''tab'', JString ''new'')]) demo_panes demo)) = pane_bag demo"
proof -
  let ?args = "JObject [(''pane'', JString ''term-1''), (''tab'', JString ''new'')]"
  have "\<not> isl (snd (move_pane_cmd ?args demo_panes demo))" by code_simp
  then show ?thesis using move_keeps_panes [OF demo_ok prod.collapse [symmetric], of ?args demo_panes] by auto
qed

text \<open>
  \<open>drop_empty\<close>, which ends every command that moves panes, loses and doubles none, and leaves the
  layout settled: no orphaned tabs, no window without tabs and lead, no empty tab, in every window
  and workspace an active tab that exists and a focus on a pane that is shown, and no window that
  belongs to a workspace that is gone. A settled layout it leaves as it is, so dropping twice is
  dropping once.
\<close>

lemma drop_empty_settles:
  shows "pane_bag (drop_empty m) = pane_bag m \<and> layout_settled (drop_empty m) \<and> (trees_ok m \<longrightarrow> trees_ok (drop_empty m)) \<and>
    (layout_settled m \<longrightarrow> drop_empty m = m)"
  using drop_empty_bag drop_empty_settled drop_empty_trees drop_settled by blast

lemma drop_empty_settles_witness: "drop_empty demo = demo \<and> layout_settled (drop_empty demo)"
proof -
  have "layout_settled demo"
    by (simp add: demo_def empty_model_def layout_settled_def window_settled_def tabs_settled_def demo_tabs_def new_window_def new_ws_def
        active_ok_def tab_ids_def settled_def shown_def active_tab_def active_index_def new_tab_def default_tabs_def)
  then show ?thesis using drop_empty_settles [of demo] by simp
qed

text \<open>
  \<open>detach\<close> takes a pane out of whichever place it has, a tab, a dock, a window's lead, a background
  or an orphaned tab, and takes out no other: dissolving the workspace of a docked pane keeps its
  tabs and its background panes. Detaching several panes takes out exactly those.
\<close>

lemma detach_exact:
  assumes "layout_ok m"
  shows "pane_bag (detach p m) = filter_mset (\<lambda>q. q \<noteq> p) (pane_bag m) \<and> layout_ok (detach p m) \<and>
    pane_bag (foldl (\<lambda>m p. detach p m) m ps) = filter_mset (\<lambda>q. q \<notin> set ps) (pane_bag m)"
  using detach_all [OF assms, of ps] detach_layout_ok [OF assms] assms by (simp add: detach_bag layout_ok_iff)

theorem detach_exact_witness: "pane_bag (detach ''page-1'' demo) = {#''term-1'', ''term-2'', ''term-3''#}"
  using detach_exact [OF demo_ok, of "''page-1''" "[]"] by (simp add: demo_bag)

text \<open>
  \<open>swap\<close> exchanges two panes in tabs or docks: the layout holds the same panes, and each of the two is
  in the slot the other had, every other slot being as it was.
\<close>

lemma swap_exchanges:
  assumes "slot_of m a = Some k" "slot_of m b = Some l" "a \<noteq> b"
  shows "slot_get k (swap a b m) = Some b \<and> slot_get l (swap a b m) = Some a \<and> pane_bag (swap a b m) = pane_bag m \<and>
    (\<forall>j. j \<noteq> k \<and> j \<noteq> l \<longrightarrow> slot_get j (swap a b m) = slot_get j m)"
proof -
  note g = slot_of_get [OF assms(1)] slot_of_get [OF assms(2)]
  with assms(3) have "k \<noteq> l" by auto
  from model_slots.crossed [OF g this] assms(1,2) show ?thesis by (auto simp: swap_slots)
qed

theorem swap_exchanges_witness:
  "slot_get (InDock 0) (swap ''term-1'' ''page-1'' demo) = Some ''term-1''"
proof -
  have "slot_of demo ''term-1'' = Some (InTabs (HWindow 0) (0, Some [], 0))" "slot_of demo ''page-1'' = Some (InDock 0)"
    by code_simp+
  from swap_exchanges [OF this] show ?thesis by simp
qed

subsection \<open>A move that loses its pane\<close>

text \<open>
  A planner's dock is not frozen, so its pane may be moved. Moved beside a pane of its own workspace,
  it is detached first, which dissolves the workspace and orphans its tabs; the pane it should go
  beside is then not found, the command fails, and the moved pane is nowhere. Moved into a tab of
  its own workspace, the same detaching makes the unwrapped lookup of the tab panic.
\<close>

definition move_args :: "(string \<times> string) list \<Rightarrow> json" where
  "move_args kvs = JObject (map (\<lambda>(k, v). (k, JString v)) kvs)"

lemma docked_move_loses_pane:
  defines "res \<equiv> move_pane_cmd (move_args [(''pane'', ''page-1''), (''to'', ''term-3''), (''side'', ''left'')]) demo_panes demo"
  shows "isl (snd res) \<and> err_code (projl (snd res)) = ''not_found'' \<and> pane_bag (fst res) = {#''term-1'', ''term-2'', ''term-3''#}"
proof -
  have e: "isl (snd res) \<and> err_code (projl (snd res)) = ''not_found'' \<and> ''page-1'' \<notin> set (placed (fst res)) \<and>
      (\<forall>ts \<in> set (m_orphans (fst res)). ''page-1'' \<notin> set (tabs_panes ts))"
    unfolding res_def by code_simp
  then have "''page-1'' \<notin># pane_bag (fst res)"
    by (auto simp: pane_bag_def placed_def mem_sum_list window_bag_placed ws_bag_placed)
  moreover obtain m' r where mr: "res = (m', r)" by force
  from move_pane_facts [OF demo_ok mr [unfolded res_def]]
  have "pane_bag m' = pane_bag demo \<or> (\<exists>q. need demo_panes (Some ''page-1'') = Inr q \<and> add_mset (pane_id q) (pane_bag m') = pane_bag demo)"
    by (auto simp: move_args_def json_string_def)
  moreover have "map_sum (\<lambda>e. ()) pane_id (need demo_panes (Some ''page-1'')) = Inr ''page-1''" by code_simp
  ultimately show ?thesis using e mr by (auto simp: demo_bag add_mset_commute)
qed

lemma panic_result: "map_sum (\<lambda>e. (err_code e, err_message e)) (\<lambda>r. ()) x = Inl (err_code panic, err_message panic) \<Longrightarrow> x = Inl panic"
  by (cases x) auto

lemma docked_move_panics:
  "snd (move_pane_cmd (move_args [(''pane'', ''page-1''), (''tab'', ''tab-2'')]) demo_panes demo) = Inl panic"
  by (rule panic_result) code_simp

end
