(* ===== verification/Mux_Keeps.thy ===== *)
theory Mux_Keeps
  imports Mux_Host Mux_Moves
begin

text \<open>
  The other commands of the layout and what they keep: focus, zoom, titles, sizes, tabs, windows,
  tasks and arranging. Each is shown to keep \<open>layout_ok\<close> and the panes; \<open>command_facts\<close> gathers them.
\<close>

subsection \<open>Commands that leave the trees alone\<close>

definition keeps :: "model \<Rightarrow> model \<Rightarrow> bool" where
  "keeps m m' \<longleftrightarrow> pane_bag m' = pane_bag m \<and> (trees_ok m \<longrightarrow> trees_ok m')"

lemma keeps_refl [simp]: "keeps m m"
  by (simp add: keeps_def)

lemma keeps_trans: "keeps m m' \<Longrightarrow> keeps m' m'' \<Longrightarrow> keeps m m''"
  by (simp add: keeps_def)

lemma keeps_ok: "keeps m m' \<Longrightarrow> layout_ok m \<Longrightarrow> layout_ok m'"
  by (simp add: keeps_def layout_ok_iff)

lemma keeps_roots:
  assumes "\<And>ts. map tab_root (ts_tabs (f ts)) = map tab_root (ts_tabs ts)"
  shows "keeps m (upd_tabs h f m)"
proof -
  have eq: "tabs_panes (f ts) = tabs_panes ts" "tabs_ok (f ts) = tabs_ok ts" for ts
    using assms by (simp_all add: tabs_panes_roots tabs_ok_roots del: set_map list.set_map)
  show ?thesis
  proof (cases "holder_in m h")
    case True
    then show ?thesis by (simp add: keeps_def pane_bag_upd_tabs_same eq trees_ok_upd_tabs trees_ok_tabs)
  next
    case False
    then have "upd_tabs h f m = m" by (cases h) (simp_all add: upd_window_def upd_ws_def list_update_beyond)
    then show ?thesis by simp
  qed
qed

lemma roots_upd_tab: "(\<And>x. tab_root (f x) = tab_root x) \<Longrightarrow> map tab_root (ts_tabs (upd_tab t f ts)) = map tab_root (ts_tabs ts)"
  by (cases "t < length (ts_tabs ts)") (simp_all add: upd_tab_def map_update list_update_same_conv list_update_beyond)

lemma keeps_make_window: "make_window m = (m', w) \<Longrightarrow> keeps m m'"
  by (simp add: keeps_def make_window_facts)

lemma keeps_window_for: "window_for s m = (m', w) \<Longrightarrow> keeps m m'"
  by (simp add: keeps_def window_for_facts)

lemma keeps_target_window: "target_window reference m = (m', r) \<Longrightarrow> keeps m m'"
  by (simp add: keeps_def target_window_facts)

lemma keeps_drop_empty: "keeps m (drop_empty m)"
  by (simp add: keeps_def drop_empty_bag drop_empty_trees)

lemma keeps_focus_pane: "keeps m (fst (focus_pane p m))"
  by (simp add: keeps_def focus_pane_facts)

lemma desk_workspace_in: "desk_workspace r m = Some s \<Longrightarrow> s < length (m_workspaces m)"
  by (auto simp: desk_workspace_def split: Option.bind_splits dest: lookup_bounds)

lemma window_holder_facts:
  assumes "window_holder reference m = (m', r)"
  shows "keeps m m'" "r = Inr h \<Longrightarrow> holder_in m' h" "holder_in m h' \<Longrightarrow> holder_in m' h' \<and> tabs_of m' h' = tabs_of m h'"
proof -
  obtain m1 r1 where tw: "target_window reference m = (m1, r1)" by force
  note f = target_window_facts [OF tw]
  have "m' = m \<and> (\<forall>h. r = Inr h \<longrightarrow> holder_in m h) \<or> m' = m1 \<and> (\<forall>h. r = Inr h \<longrightarrow> holder_in m1 h)"
    using assms tw f(4)
    by (auto simp: window_holder_def split: option.splits Option.bind_splits sum.splits dest: desk_workspace_in)
  then show "keeps m m'" "r = Inr h \<Longrightarrow> holder_in m' h" "holder_in m h' \<Longrightarrow> holder_in m' h' \<and> tabs_of m' h' = tabs_of m h'"
    using keeps_target_window [OF tw] f(5) [of h'] by auto
qed

lemma focus_cmd_keeps:
  assumes "focus_cmd args ps m = (m', r)" shows "keeps m m'"
proof -
  have a: "keeps m (upd_tabs h (\<lambda>ts. ts\<lparr>ts_active := x ts\<rparr>) m)" "keeps m (upd_tabs h (tabs_show t) m)" for h x t
    by (intro keeps_roots; simp add: tabs_show_def Let_def)+
  have b: "keeps m m1" if "focus_pane p m = (m1, x)" for p m1 x using keeps_focus_pane [of m p] that by simp
  show ?thesis
    using assms a b window_holder_facts(1)
    by (auto simp: focus_cmd_def Let_def split: option.splits sum.splits prod.splits if_splits)
qed

lemma zoom_cmd_keeps:
  assumes "zoom_cmd args ps m = (m', r)" shows "keeps m m'"
proof -
  have "keeps m (upd_tabs h (\<lambda>ts. ts\<lparr>ts_zoom := z\<rparr>) (fst (focus_pane p m)))" for h z p
    by (rule keeps_trans [OF keeps_focus_pane keeps_roots]) simp
  with assms show ?thesis by (auto simp: zoom_cmd_def Let_def split: option.splits sum.splits)
qed

lemma rename_tab_cmd_keeps: "rename_tab_cmd args m = (m', r) \<Longrightarrow> keeps m m'"
  by (auto simp: rename_tab_cmd_def tab_rename_def Let_def intro!: keeps_roots roots_upd_tab split: option.splits if_splits)

lemma keeps_upd_ws:
  "(\<And>x. ws_bag (f x) = ws_bag x) \<Longrightarrow> (\<And>x. ws_tabs (f x) = ws_tabs x) \<Longrightarrow> keeps m (upd_ws s f m)"
proof (cases "s < length (m_workspaces m)")
  case True
  assume "\<And>x. ws_bag (f x) = ws_bag x" "\<And>x. ws_tabs (f x) = ws_tabs x"
  with True pane_bag_upd_ws [OF True, of f] show ?thesis by (simp add: keeps_def trees_ok_upd_ws trees_ok_ws)
qed (simp add: upd_ws_def list_update_beyond)

lemma keeps_upd_window:
  "(\<And>x. window_bag (f x) = window_bag x) \<Longrightarrow> (\<And>x. map tab_root (ts_tabs (win_tabs (f x))) = map tab_root (ts_tabs (win_tabs x))) \<Longrightarrow> keeps m (upd_window w f m)"
proof (cases "w < length (m_windows m)")
  case True
  assume a: "\<And>x. window_bag (f x) = window_bag x" "\<And>x. map tab_root (ts_tabs (win_tabs (f x))) = map tab_root (ts_tabs (win_tabs x))"
  then have "tabs_ok (win_tabs (f x)) = tabs_ok (win_tabs x)" for x by (simp add: tabs_ok_roots del: set_map)
  with True a pane_bag_upd_window [OF True, of f] show ?thesis by (simp add: keeps_def trees_ok_upd_window trees_ok_window)
qed (simp add: upd_window_def list_update_beyond)

lemma window_command_keeps:
  assumes "window_command args ps m = (m', r)" shows "keeps m m'"
proof -
  have "keeps m (drop_empty (upd_window w (\<lambda>x. x\<lparr>win_ws := v\<rparr>) m))" for w v
    by (rule keeps_trans [OF keeps_upd_window keeps_drop_empty]) simp_all
  with assms show ?thesis
    by (auto simp: window_command_def Let_def split: option.splits if_splits)
qed

lemma set_desks_keeps: "set_desks args m = (m', r) \<Longrightarrow> keeps m m'"
  by (auto simp: set_desks_def keeps_def pane_bag_def trees_ok_def all_tabs_def Let_def split: option.splits)

lemma claim_task_keeps:
  assumes "s < length (m_workspaces m)" shows "keeps m (claim_task now app s m)"
proof (cases "ws_place (m_workspaces m ! s) \<noteq> Desk app")
  case True
  let ?ws = "(m_workspaces m ! s)\<lparr>ws_place := Desk app, ws_left_at := Some now\<rparr>"
  have "ws_bag ?ws = ws_bag (m_workspaces m ! s)" "ws_tabs ?ws = ws_tabs (m_workspaces m ! s)" by (simp_all add: ws_bag_def)
  with sum_list_remove_at_add [OF assms, of ws_bag] set_remove_at_subset [of s "m_workspaces m"] nth_mem [OF assms] True
  show ?thesis by (auto simp: claim_task_def keeps_def pane_bag_def trees_ok_def all_tabs_def Let_def ac_simps)
qed (simp add: claim_task_def)

lemma ws_of_in: "holder_in m h \<Longrightarrow> ws_of m h = Some s \<Longrightarrow> s < length (m_workspaces m)"
  by (cases h) (auto split: Option.bind_splits dest: lookup_bounds)

lemma find_workspace_in: "find_workspace reference ps m = Some s \<Longrightarrow> s < length (m_workspaces m)"
  by (auto simp: find_workspace_def split: option.splits sum.splits Option.bind_splits
      dest: lookup_bounds ws_of_in [OF holder_of_in])

lemma task_cmd_keeps:
  assumes "task_cmd sh now args ps m = (m', r)" shows "keeps m m'"
proof -
  have a: "keeps m (upd_ws s (\<lambda>x. x\<lparr>ws_place := p\<rparr>) m)" for s p
    by (rule keeps_upd_ws) (simp_all add: ws_bag_def)
  have b: "keeps m (claim_task now app s m)" if "task_workspace reference ps m = Inr s" for app s reference
    using that by (intro claim_task_keeps) (auto simp: task_workspace_def find_workspace_in split: option.splits if_splits)
  from assms a b show ?thesis by (auto simp: task_cmd_def Let_def split: if_splits option.splits sum.splits)
qed

subsection \<open>Moving a tab\<close>

lemma tab_dest_facts:
  assumes "tab_dest source args m = (m', r)" "holder_in m source"
  shows "keeps m m'" "r = Inr h \<Longrightarrow> holder_in m' h" "holder_in m h' \<Longrightarrow> holder_in m' h' \<and> tabs_of m' h' = tabs_of m h'"
proof -
  obtain m1 x where wf: "window_for (ws_of m source) m = (m1, x)" by force
  have "(m' = m \<and> (\<forall>h. r = Inr h \<longrightarrow> holder_in m h)) \<or> (m' = m1 \<and> r = Inr (HWindow x)) \<or> (\<exists>w. window_holder w m = (m', r))"
    using assms wf by (auto simp: tab_dest_def split: option.splits if_splits intro: workspace_holder_in)
  then show "keeps m m'" "r = Inr h \<Longrightarrow> holder_in m' h" "holder_in m h' \<Longrightarrow> holder_in m' h' \<and> tabs_of m' h' = tabs_of m h'"
    using keeps_window_for [OF wf] window_for_facts [OF wf] window_holder_facts by (auto 0 3)
qed

lemma tabs_panes_remove_at:
  "t < length xs \<Longrightarrow> mset (concat (map tab_panes (remove_at t xs))) + mset (tab_panes (xs ! t)) = mset (concat (map tab_panes xs))"
  using sum_list_remove_at_add [of t xs "\<lambda>x. mset (tab_panes x)"] by (simp add: mset_concat_map)

lemma tabs_panes_insert_at: "mset (concat (map tab_panes (insert_at i x xs))) = mset (tab_panes x) + mset (concat (map tab_panes xs))"
proof -
  have "mset (concat (map tab_panes (take i xs))) + mset (concat (map tab_panes (drop i xs))) = mset (concat (map tab_panes xs))"
    by (metis append_take_drop_id concat_append map_append mset_append)
  then show ?thesis by (simp add: insert_at_def ac_simps)
qed

text \<open>Taking a tab out of one holder and putting it into another, or the same, holder.\<close>

lemma carry_tab_keeps:
  assumes "holder_in m source" "holder_in m dest" "t < length (ts_tabs (tabs_of m source))"
  defines "m1 \<equiv> upd_tabs source (\<lambda>ts. ts\<lparr>ts_tabs := remove_at t (ts_tabs ts)\<rparr>) m"
  shows "keeps m (upd_tabs dest (\<lambda>ts. ts\<lparr>ts_tabs := insert_at (i ts) (ts_tabs (tabs_of m source) ! t) (ts_tabs ts)\<rparr>) m1)"
proof -
  let ?tab = "ts_tabs (tabs_of m source) ! t"
  let ?g = "\<lambda>ts. ts\<lparr>ts_tabs := insert_at (i ts) ?tab (ts_tabs ts)\<rparr>"
  have out: "pane_bag m1 + mset (tab_panes ?tab) = pane_bag m"
    using mset_exchange [OF pane_bag_upd_tabs [OF assms(1), of "\<lambda>ts. ts\<lparr>ts_tabs := remove_at t (ts_tabs ts)\<rparr>"], of "mset (tab_panes ?tab)" "{#}"]
      tabs_panes_remove_at [OF assms(3)] by (simp add: m1_def tabs_panes_def)
  have d: "holder_in m1 dest" using assms(2) by (simp add: m1_def)
  have "pane_bag (upd_tabs dest ?g m1) = pane_bag m1 + mset (tab_panes ?tab)"
    using mset_exchange [OF pane_bag_upd_tabs [OF d, of ?g], of "{#}" "mset (tab_panes ?tab)"]
    by (simp add: tabs_panes_def tabs_panes_insert_at)
  moreover have "trees_ok (upd_tabs dest ?g m1)" if ok: "trees_ok m"
  proof (intro trees_ok_upd_tabs)
    have "root_ok (tab_root ?tab)" using trees_ok_tabs [OF ok assms(1)] assms(3) by (simp add: tabs_ok_def)
    moreover have m1: "trees_ok m1"
      using ok set_remove_at_subset by (fastforce simp: m1_def tabs_ok_def intro!: trees_ok_upd_tabs dest: trees_ok_tabs)
    ultimately show "tabs_ok (?g (tabs_of m1 dest))" using trees_ok_tabs [OF m1 d] by (simp add: tabs_ok_def)
    show "trees_ok m1" by fact
  qed
  ultimately show ?thesis using out by (simp add: keeps_def)
qed

lemma move_tab_cmd_keeps:
  assumes "move_tab_cmd args m = (m', r)" shows "keeps m m'"
proof (cases "need_tab (json_string args ''tab'') m")
  case (Inl e)
  with assms show ?thesis by (simp add: move_tab_cmd_def)
next
  case (Inr x)
  obtain source t where x: "x = (source, t)" by force
  from Inr x have s: "holder_in m source" "t < length (ts_tabs (tabs_of m source))"
    by (auto simp: need_tab_def ok_or_def split: option.splits Option.bind_splits dest!: tab_index_SomeD)
  obtain m1 r1 where td: "tab_dest source args m = (m1, r1)" by force
  note d = tab_dest_facts [OF td s(1)]
  note e = assms [unfolded move_tab_cmd_def Inr x sum.case prod.case td Let_def]
  show ?thesis
  proof (cases r1)
    case (Inl err)
    with e d(1) show ?thesis by simp
  next
    case r1: (Inr dest)
    show ?thesis
    proof (cases "read_index (jget args ''index'')")
      case (Inl err)
      with e d(1) r1 show ?thesis by simp
    next
      case ri: (Inr ix)
      from d(3) [OF s(1)] have s1: "holder_in m1 source" "t < length (ts_tabs (tabs_of m1 source))" using s(2) by auto
      let ?out = "upd_tabs source (\<lambda>ts. ts\<lparr>ts_tabs := remove_at t (ts_tabs ts)\<rparr>) m1"
      define k where "k = (case ix of Some n \<Rightarrow> n | None \<Rightarrow> length (ts_tabs (tabs_of ?out dest)) + (if source = dest then 1 else 0))"
      define i where "i = (if source = dest \<and> k > t then k - 1 else k)"
      define m2 where "m2 = upd_tabs dest (\<lambda>ts. ts\<lparr>ts_tabs := insert_at (min i (length (ts_tabs ts))) (ts_tabs (tabs_of m1 source) ! t) (ts_tabs ts)\<rparr>) ?out"
      have "keeps m1 m2" unfolding m2_def by (rule carry_tab_keeps [OF s1(1) d(2) [OF r1] s1(2)])
      moreover have "keeps m2 (drop_empty (upd_tabs dest (tabs_show c) m2))" for c
        by (rule keeps_trans [OF keeps_roots keeps_drop_empty]) (simp add: tabs_show_def Let_def)
      moreover have "m' = m2 \<or> (\<exists>c. m' = drop_empty (upd_tabs dest (tabs_show c) m2))"
        using e [unfolded r1 ri sum.case prod.case, folded k_def, folded i_def, folded m2_def]
        by (auto split: option.splits prod.splits)
      ultimately show ?thesis using d(1) by (auto intro: keeps_trans)
    qed
  qed
qed

subsection \<open>Sizes\<close>

definition shift_divider :: "nat \<Rightarrow> rat \<Rightarrow> kids \<Rightarrow> kids" where
  "shift_divider i share ks =
     ks[i := (fst (ks ! i), share), i + 1 := (fst (ks ! (i + 1)), snd (ks ! i) + snd (ks ! (i + 1)) - share)]"

text \<open>\<open>set_divider\<close> changes the two sizes around a divider of the split at the path, and nothing else.\<close>

lemma divide_Inr:
  "divide path i share n = Inr n' \<Longrightarrow> \<exists>a ks. split_at n path = Some (a, ks) \<and> i + 1 < length ks \<and> 0 < share \<and>
     share < snd (ks ! i) + snd (ks ! (i + 1)) \<and> n' = upd_split (shift_divider i share) path n"
proof (induction path i share n arbitrary: n' rule: divide.induct)
  case (1 i share a ks)
  then show ?case by (auto simp: shift_divider_def Let_def not_le split: if_splits)
next
  case (3 j path i share a ks)
  then show ?case by (auto split: if_splits sum.splits)
qed simp

lemma kid_ids_same_nodes: "map fst ks' = map fst ks \<Longrightarrow> kid_ids ks' = kid_ids ks"
proof -
  have eq: "kid_ids ks = concat (map pane_ids (map fst ks))" for ks
    by (induction ks) auto
  show "map fst ks' = map fst ks \<Longrightarrow> kid_ids ks' = kid_ids ks" unfolding eq by simp
qed

lemma kids_ok_nodes:
  "kids_ok m ks \<Longrightarrow> map fst ks' = map fst ks \<Longrightarrow> \<forall>k \<in> set ks'. 0 < snd k \<Longrightarrow> sum_list (map snd ks') = 1 \<Longrightarrow> kids_ok m ks'"
proof -
  assume a: "kids_ok m ks" "map fst ks' = map fst ks" "\<forall>k \<in> set ks'. 0 < snd k" "sum_list (map snd ks') = 1"
  from a(2) have "fst ` set ks' = fst ` set ks" "length ks' = length ks" by (metis list.set_map, metis length_map)
  with a show ?thesis by (auto simp: kids_ok_def) (metis fst_conv image_iff prod.collapse)
qed

lemma map_fst_update: "i < length ks \<Longrightarrow> map fst (ks[i := (fst (ks ! i), s)]) = map fst ks"
  by (simp add: map_update list_update_same_conv)

lemma shift_divider_facts:
  assumes "i + 1 < length ks"
  shows "map fst (shift_divider i share ks) = map fst ks" "sum_list (map snd (shift_divider i share ks)) = sum_list (map snd ks)"
    "k < length ks \<Longrightarrow> snd (shift_divider i share ks ! k) =
       (if k = i then share else if k = i + 1 then snd (ks ! i) + snd (ks ! (i + 1)) - share else snd (ks ! k))"
proof -
  show "map fst (shift_divider i share ks) = map fst ks"
    using assms by (intro nth_equalityI) (auto simp: shift_divider_def nth_list_update)
qed (use assms in \<open>auto simp: shift_divider_def map_update sum_list_upd nth_list_update\<close>)

lemma shift_divider_ok:
  assumes "kids_ok m ks" "i + 1 < length ks" "0 < share" "share < snd (ks ! i) + snd (ks ! (i + 1))"
  shows "kids_ok m (shift_divider i share ks)"
proof (rule kids_ok_nodes [OF assms(1)])
  note f = shift_divider_facts [OF assms(2), where share = share]
  show "map fst (shift_divider i share ks) = map fst ks" "sum_list (map snd (shift_divider i share ks)) = 1"
    using f assms(1) by (auto simp: kids_ok_def)
  have "0 < snd (shift_divider i share ks ! k)" if "k < length ks" for k
    using f(3) [OF that] that assms kids_okD [OF assms(1)] by auto
  moreover have "length (shift_divider i share ks) = length ks" by (simp add: shift_divider_def)
  ultimately show "\<forall>k \<in> set (shift_divider i share ks). 0 < snd k" by (metis in_set_conv_nth)
qed

lemma divide_keeps:
  assumes "divide path i share n = Inr n'"
  shows "pane_ids n' = pane_ids n" "tree_ok n \<Longrightarrow> tree_ok n'"
proof -
  from divide_Inr [OF assms] obtain a ks where ks: "split_at n path = Some (a, ks)" "i + 1 < length ks" "0 < share"
    "share < snd (ks ! i) + snd (ks ! (i + 1))" "n' = upd_split (shift_divider i share) path n" by blast
  obtain pre post where "pane_ids n = pre @ kid_ids ks @ post" "pane_ids n' = pre @ kid_ids (shift_divider i share ks) @ post"
    using upd_split_ids [OF ks(1)] ks(5) by metis
  with kid_ids_same_nodes [OF shift_divider_facts(1) [OF ks(2)]] show "pane_ids n' = pane_ids n" by simp
  show "tree_ok n \<Longrightarrow> tree_ok n'"
    unfolding ks(5) by (rule upd_split_ok [OF ks(1)]) (use ks shift_divider_ok in auto)
qed

lemma resize_kids_facts:
  assumes "kids_ok 2 ks" "i < length ks" "0 < sz" "sz < 1"
  shows "map fst (resize_kids i sz ks) = map fst ks" "snd (resize_kids i sz ks ! i) = sz" "kids_ok 2 (resize_kids i sz ks)"
    "j < length ks \<Longrightarrow> k < length ks \<Longrightarrow> j \<noteq> i \<Longrightarrow> k \<noteq> i \<Longrightarrow> snd (ks ! i) < 1 - 1 / 10 ^ 9 \<Longrightarrow>
       snd (resize_kids i sz ks ! j) * snd (ks ! k) = snd (resize_kids i sz ks ! k) * snd (ks ! j)"
proof -
  define old others where "old = snd (ks ! i)" and "others = (of_nat (length ks - 1) :: rat)"
  define g where "g s = (if old < 1 - 1 / 10 ^ 9 then s * (1 - sz) / (1 - old) else (1 - sz) / others)" for s :: rat
  have len: "length (resize_kids i sz ks) = length ks" by (simp add: resize_kids_def Let_def)
  have nth: "resize_kids i sz ks ! k = (fst (ks ! k), if k = i then sz else g (snd (ks ! k)))" if "k < length ks" for k
    using that by (simp add: resize_kids_def Let_def nth_enumerate_eq split_beta g_def old_def others_def)
  show fst: "map fst (resize_kids i sz ks) = map fst ks" using len nth by (intro nth_equalityI) auto
  show "snd (resize_kids i sz ks ! i) = sz" using nth assms(2) by simp
  have old: "0 < old" "old < 1" using kids_okD [OF assms(1,2)] kid_below_1 [OF assms(1,2)] by (auto simp: old_def)
  have oth: "0 < others" using assms(1) by (auto simp: others_def kids_ok_def)
  have gpos: "0 < g s" if "0 < s" for s using that old oth assms(3,4) by (auto simp: g_def)
  have "\<forall>k \<in> set (resize_kids i sz ks). 0 < snd k"
    using nth gpos kids_okD [OF assms(1)] assms(3) by (auto simp: in_set_conv_nth len)
  moreover have "sum_list (map snd (resize_kids i sz ks)) = 1"
  proof -
    have "map snd (resize_kids i sz ks) = (map g (map snd ks))[i := sz]"
      using nth assms(2) by (intro nth_equalityI) (auto simp: len nth_list_update)
    then have "sum_list (map snd (resize_kids i sz ks)) = sum_list (remove_at i (map g (map snd ks))) + sz"
      using assms(2) by (simp add: sum_list_upd sum_list_remove_at)
    also have "remove_at i (map g (map snd ks)) = map g (remove_at i (map snd ks))" by (simp add: map_remove_at)
    also have "sum_list (map g (remove_at i (map snd ks))) = 1 - sz"
    proof (cases "old < 1 - 1 / 10 ^ 9")
      case True
      have "sum_list (remove_at i (map snd ks)) = 1 - old"
        using assms(1,2) by (simp add: sum_list_remove_at kids_ok_def old_def)
      moreover have "g = (\<lambda>x. x * ((1 - sz) / (1 - old)))" using True by (simp add: g_def fun_eq_iff)
      ultimately show ?thesis using old sum_list_mult [of "\<lambda>x. x" "(1 - sz) / (1 - old)" "remove_at i (map snd ks)"] by simp
    next
      case False
      have "length (remove_at i (map snd ks)) = length ks - 1" using assms(2) by (simp add: length_remove_at)
      moreover have "g = (\<lambda>x. (1 - sz) / others)" using False by (simp add: g_def fun_eq_iff)
      ultimately show ?thesis using oth by (simp add: sum_list_triv others_def)
    qed
    finally show ?thesis by simp
  qed
  ultimately show "kids_ok 2 (resize_kids i sz ks)" by (rule kids_ok_nodes [OF assms(1) fst])
  show "snd (resize_kids i sz ks ! j) * snd (ks ! k) = snd (resize_kids i sz ks ! k) * snd (ks ! j)"
    if "j < length ks" "k < length ks" "j \<noteq> i" "k \<noteq> i" "snd (ks ! i) < 1 - 1 / 10 ^ 9"
    using nth that by (simp add: g_def old_def)
qed

lemma keeps_upd_tab:
  assumes "holder_in m h" "t < length (ts_tabs (tabs_of m h))"
    "tab_panes (f (ts_tabs (tabs_of m h) ! t)) = tab_panes (ts_tabs (tabs_of m h) ! t)"
    "root_ok (tab_root (ts_tabs (tabs_of m h) ! t)) \<Longrightarrow> root_ok (tab_root (f (ts_tabs (tabs_of m h) ! t)))"
  shows "keeps m (upd_tabs h (upd_tab t f) m)"
proof -
  have "mset (tabs_panes (upd_tab t f (tabs_of m h))) = mset (tabs_panes (tabs_of m h))"
    using mset_tabs_upd_tab [OF assms(2), of f] assms(3) by simp
  moreover have "tabs_ok (upd_tab t f (tabs_of m h))" if "trees_ok m"
  proof -
    have ok: "tabs_ok (tabs_of m h)" using trees_ok_tabs [OF that assms(1)] .
    then have "root_ok (tab_root (ts_tabs (tabs_of m h) ! t))" using assms(2) by (simp add: tabs_ok_def)
    with ok assms(4) show ?thesis by (intro tabs_ok_upd_tab)
  qed
  ultimately show ?thesis
    using assms(1) by (simp add: keeps_def pane_bag_upd_tabs_same trees_ok_upd_tabs)
qed

lemma set_divider_keeps:
  assumes "set_divider tb path i share m = (m', r)" shows "keeps m m'"
proof -
  have "m' = m \<or> (\<exists>h t n n'. tab_index m tb = Some (h, t) \<and> tab_root (ts_tabs (tabs_of m h) ! t) = Some n \<and>
      divide path i share n = Inr n' \<and> m' = upd_tabs h (upd_tab t (\<lambda>x. x\<lparr>tab_root := Some n'\<rparr>)) m)"
    using assms by (auto simp: set_divider_def split: option.splits sum.splits)
  then show ?thesis
  proof (elim disjE exE conjE)
    fix h t n n'
    assume a: "tab_index m tb = Some (h, t)" "tab_root (ts_tabs (tabs_of m h) ! t) = Some n" "divide path i share n = Inr n'"
      and m': "m' = upd_tabs h (upd_tab t (\<lambda>x. x\<lparr>tab_root := Some n'\<rparr>)) m"
    from tab_index_SomeD [OF a(1)] divide_keeps [OF a(3)] a(2) show ?thesis
      unfolding m' by (intro keeps_upd_tab) (simp_all add: tab_panes_def root_ok_def)
  qed simp
qed

lemma resize_located_keeps:
  assumes "locate m p = Some l" "loc_parent l = Some path" "0 < sz" "sz < 1" "trees_ok m"
  shows "keeps m (upd_tabs (loc_holder l) (upd_tab (loc_tab l)
    (\<lambda>x. x\<lparr>tab_root := map_option (upd_split (resize_kids (loc_index l) sz) path) (tab_root x)\<rparr>)) m)"
proof -
  let ?h = "loc_holder l" and ?t = "loc_tab l" and ?i = "loc_index l"
  from locate_SomeD [OF assms(1)] have h: "holder_in m ?h" and tl: "tabs_locate (tabs_of m ?h) p = Some (?t, Some path, ?i)"
    using assms(2) by auto
  note t = tabs_locate_SomeD [OF tl]
  then obtain n where n: "tab_root (ts_tabs (tabs_of m ?h) ! ?t) = Some n" by (metis locate_in_SomeD option.exhaust)
  with t(2) have "locate_in (Some n) p = Some (Some path, ?i)" by simp
  then obtain a ks where ks: "split_at n path = Some (a, ks)" "?i < length ks" by (rule locate_in_split_at)
  have ok: "tree_ok n" using trees_ok_tabs [OF assms(5) h] t(1) n by (auto simp: tabs_ok_def root_ok_def dest!: nth_mem)
  note kok = split_at_ok [OF ks(1) ok]
  note r = resize_kids_facts [OF kok ks(2) assms(3,4)]
  obtain pre post where "pane_ids n = pre @ kid_ids ks @ post" "pane_ids (upd_split (resize_kids ?i sz) path n) = pre @ kid_ids (resize_kids ?i sz ks) @ post"
    using upd_split_ids [OF ks(1)] by metis
  with kid_ids_same_nodes [OF r(1)] have "pane_ids (upd_split (resize_kids ?i sz) path n) = pane_ids n" by simp
  moreover have "tree_ok (upd_split (resize_kids ?i sz) path n)" by (rule upd_split_ok [OF ks(1) ok]) (use r(3) in auto)
  ultimately show ?thesis using h t(1) n by (intro keeps_upd_tab) (simp_all add: tab_panes_def root_ok_def)
qed

lemma resize_cmd_keeps:
  assumes "trees_ok m" "resize_cmd args ps m = (m', r)" shows "keeps m m'"
proof -
  have a: "keeps m (upd_ws s (\<lambda>x. x\<lparr>ws_dock := (ws_dock x)\<lparr>dk_width := sz\<rparr>\<rparr>) m)" for s sz
    by (rule keeps_upd_ws) (simp_all add: ws_bag_def)
  have b: "keeps m (upd_window w (\<lambda>x. x\<lparr>win_lead := map_option (\<lambda>d. d\<lparr>dk_width := sz\<rparr>) (win_lead x)\<rparr>) m)" for w sz
    by (rule keeps_upd_window) (simp_all add: window_bag_def split: option.splits)
  show ?thesis
  proof (cases "json_string args ''tab''")
    case (Some tb)
    with assms(2) show ?thesis
      by (auto simp: resize_cmd_def Let_def split: option.splits prod.splits sum.splits intro: set_divider_keeps)
  next
    case None
    with assms(2) a b resize_located_keeps [OF _ _ _ _ assms(1)] show ?thesis
      by (auto simp: resize_cmd_def Let_def split: option.splits prod.splits sum.splits if_splits)
  qed
qed

end
