(* ===== verification/Mux_Arrange.thy ===== *)
theory Mux_Arrange
  imports Mux_Keeps
begin

text \<open>
  \<open>arrange\<close>: a layout tree read from JSON goes into the active tab. The tree the reader builds holds
  each pane it names once and its sizes fill every split; the panes it names leave their places, the
  ones that were in the tab and are not named go to a new tab, and no other pane moves.
\<close>

subsection \<open>The sizes of a split's children\<close>

lemma child_sizes_facts:
  "child_sizes cs = Inr szs \<Longrightarrow> length szs = length cs \<and> (\<forall>s. Some s \<in> set szs \<longrightarrow> 0 < s)"
proof (induction cs arbitrary: szs)
  case (Cons c cs)
  have "child_size c = Inr (Some s) \<Longrightarrow> 0 < s" for s
    by (auto simp: child_size_def split: option.splits json.splits sum.splits if_splits)
  with Cons show ?case by (auto split: sum.splits)
qed simp

lemma sum_filled:
  "sum_list (map (\<lambda>s. (case s of Some x \<Rightarrow> x | None \<Rightarrow> fill) * scale) szs) =
     (given_size szs + of_nat (unsized_count szs) * fill) * (scale :: rat)"
  by (induction szs) (auto simp: given_size_def unsized_count_def List.map_filter_simps algebra_simps split: option.splits)

lemma given_pos:
  "szs \<noteq> [] \<Longrightarrow> unsized_count szs = 0 \<Longrightarrow> (\<forall>s. Some s \<in> set szs \<longrightarrow> 0 < s) \<Longrightarrow> 0 < given_size szs"
proof (induction szs)
  case (Cons s szs)
  then obtain x where "s = Some x" "0 < x" by (cases s) (auto simp: unsized_count_def)
  moreover have "szs = [] \<or> 0 < given_size szs" using Cons by (auto simp: unsized_count_def split: if_splits)
  ultimately show ?case by (auto simp: given_size_def List.map_filter_simps)
qed simp

lemma share_sizes_facts:
  assumes "share_sizes a szs = Inr shares" "szs \<noteq> []" "\<forall>s. Some s \<in> set szs \<longrightarrow> 0 < s"
  shows "length shares = length szs" "\<forall>s \<in> set shares. 0 < s" "sum_list shares = 1"
proof -
  define n where "n = unsized_count szs"
  define fill scale where "fill = (if n > 0 then (1 - given_size szs) / of_nat n else 0)"
    and "scale = (if n > 0 then 1 else 1 / given_size szs)"
  from assms(1) have shares: "shares = map (\<lambda>s. (case s of Some x \<Rightarrow> x | None \<Rightarrow> fill) * scale) szs"
    and room: "n > 0 \<Longrightarrow> given_size szs < 1"
    unfolding share_sizes_def Let_def n_def fill_def scale_def by (auto simp: not_le split: if_split_asm)
  show "length shares = length szs" by (simp add: shares)
  have pos: "0 < given_size szs" if "n = 0" using given_pos assms(2,3) that by (simp add: n_def)
  have "0 < scale" using pos by (auto simp: scale_def)
  moreover have "0 < (case s of Some x \<Rightarrow> x | None \<Rightarrow> fill)" if "s \<in> set szs" for s
  proof (cases s)
    case None
    with that have "s \<in> set (filter (\<lambda>s. s = None) szs)" by simp
    then have "0 < n" unfolding n_def unsized_count_def by (rule length_pos_if_in_set)
    with room None show ?thesis by (simp add: fill_def)
  qed (use assms(3) that in simp)
  ultimately show "\<forall>s \<in> set shares. 0 < s" by (simp add: shares)
  show "sum_list shares = 1"
    unfolding shares sum_filled using pos by (cases "n = 0") (simp_all add: fill_def scale_def n_def [symmetric])
qed

subsection \<open>The tree\<close>

lemma kid_ids_zip: "length ss = length ns \<Longrightarrow> kid_ids (zip ns ss) = concat (map pane_ids ns)"
  by (induction ns ss rule: list_induct2') auto

definition built :: "string list \<Rightarrow> string list \<Rightarrow> string list \<Rightarrow> string list \<Rightarrow> bool" where
  "built outside used ids used' \<longleftrightarrow> used' = used @ ids \<and> set ids \<inter> set outside = {} \<and> (distinct used \<longrightarrow> distinct used')"

lemma built_trans: "built out u a u1 \<Longrightarrow> built out u1 b u2 \<Longrightarrow> built out u (a @ b) u2"
  by (auto simp: built_def simp del: distinct_append)

lemma build_facts:
  "build ps outside v used = Inr (n, used') \<Longrightarrow> built outside used (pane_ids n) used' \<and> node_ok 1 n"
  "build_kids ps outside vs used = Inr (ns, used') \<Longrightarrow>
     built outside used (concat (map pane_ids ns)) used' \<and> (\<forall>n \<in> set ns. node_ok 1 n) \<and> length ns = length vs"
proof (induction ps outside v used and ps outside vs used arbitrary: n used' and ns used' rule: build_build_kids.induct)
  case (1 ps outside v used)
  show ?case
  proof (cases "json_string v ''pane''")
    case (Some reference)
    with 1(2) show ?thesis
      by (auto simp: built_def Let_def split: sum.splits if_splits)
  next
    case None
    from 1(2) None obtain a cs szs shares ns where d: "Option.bind (json_string v ''split'') axis_parse = Some a" "children_of v = Some cs"
      "child_sizes cs = Inr szs" "share_sizes a szs = Inr shares" "build_kids ps outside cs used = Inr (ns, used')" "n = Split a (zip ns shares)"
      by (auto split: option.splits sum.splits)
    from 1(1) [OF None d(1-4) d(5)] have ih: "built outside used (concat (map pane_ids ns)) used'" "\<forall>n \<in> set ns. node_ok 1 n" "length ns = length cs"
      by auto
    have cs: "cs \<noteq> []" using d(2) by (auto simp: children_of_def split: option.splits list.splits)
    note c = child_sizes_facts [OF d(3)]
    have "szs \<noteq> []" using c cs by auto
    note s = share_sizes_facts [OF d(4) this] c
    have len: "length shares = length ns" using s ih(3) by simp
    have "kids_ok 1 (zip ns shares)"
      using s ih(2,3) len cs by (auto simp: kids_ok_def Suc_le_eq dest: set_zip_leftD set_zip_rightD)
    with ih(1) len show ?thesis by (simp add: d(6) kid_ids_zip)
  qed
next
  case (3 ps outside c cs used)
  then obtain n u ns' where d: "build ps outside c used = Inr (n, u)" "build_kids ps outside cs u = Inr (ns', used')" "ns = n # ns'"
    by (auto split: sum.splits)
  from 3(1) [OF d(1)] 3(2) [OF d(1) refl d(2)] show ?case by (auto simp: d(3) intro: built_trans)
qed (auto simp: built_def)

lemma unarranged_facts:
  assumes "ids \<noteq> []" shows "pane_ids (unarranged ids) = ids" "tree_ok (unarranged ids)"
proof -
  let ?ks = "map (\<lambda>i. (Pane i, 1 / of_nat (length ids))) ids :: kids"
  have "kid_ids (map (\<lambda>i. (Pane i, c)) xs) = xs" for c xs by (induction xs) simp_all
  then have "kid_ids ?ks = ids" .
  then show "pane_ids (unarranged ids) = ids" by (simp add: unarranged_def del: normalize_node.simps)
  have "kids_ok 1 ?ks" using assms by (auto simp: kids_ok_def Suc_le_eq comp_def sum_list_triv)
  then show "tree_ok (unarranged ids)" unfolding unarranged_def by (intro normalize_ok) simp
qed

subsection \<open>The command\<close>

lemma detach_docks: "dock_ws m p = None \<Longrightarrow> map ws_dock (m_workspaces (detach p m)) = map ws_dock (m_workspaces m)"
proof -
  have "map ws_dock (m_workspaces (upd_ws s (\<lambda>x. x\<lparr>ws_background := b x\<rparr>) m)) = map ws_dock (m_workspaces m)" for s b
    by (cases "s < length (m_workspaces m)") (simp_all add: upd_ws_def map_update list_update_same_conv list_update_beyond)
  then show "dock_ws m p = None \<Longrightarrow> map ws_dock (m_workspaces (detach p m)) = map ws_dock (m_workspaces m)"
    by (auto simp: detach_def upd_window_def upd_tabs_maps split: option.splits)
qed

lemma detach_all_tabs:
  assumes "\<forall>p \<in> set ps. dock_ws m p = None" "holder_in m h"
  shows "holder_in (foldl (\<lambda>m p. detach p m) m ps) h \<and> tab_ids (tabs_of (foldl (\<lambda>m p. detach p m) m ps) h) = tab_ids (tabs_of m h)"
  using assms
proof (induction ps arbitrary: m)
  case (Cons p ps)
  then have p: "dock_ws m p = None" by simp
  note d = detach_undocked [OF p Cons.prems(2)]
  have "\<forall>q \<in> set ps. dock_ws (detach p m) q = None"
    using Cons.prems(1) detach_docks [OF p] by (simp add: ws_dock_None)
  from Cons.IH [OF this d(1)] d(2) show ?case by simp
qed simp

lemma upd_tab_bag:
  "holder_in m h \<Longrightarrow> t < length (ts_tabs (tabs_of m h)) \<Longrightarrow>
   pane_bag (upd_tabs h (upd_tab t f) m) + mset (tab_panes (ts_tabs (tabs_of m h) ! t)) =
   pane_bag m + mset (tab_panes (f (ts_tabs (tabs_of m h) ! t)))"
  by (rule mset_exchange [OF pane_bag_upd_tabs]) (use mset_tabs_upd_tab in \<open>auto simp: ac_simps\<close>)

lemma upd_tab_trees:
  "trees_ok m \<Longrightarrow> holder_in m h \<Longrightarrow> root_ok (tab_root (f (ts_tabs (tabs_of m h) ! t))) \<Longrightarrow> trees_ok (upd_tabs h (upd_tab t f) m)"
  by (intro trees_ok_upd_tabs tabs_ok_upd_tab) (simp_all add: trees_ok_tabs)

text \<open>The tab gets the tree; what was in it goes to a tab of its own.\<close>

lemma put_tree:
  assumes "holder_in m h" "t < length (ts_tabs (tabs_of m h))" "tree_ok rt"
  defines "left \<equiv> tab_panes (ts_tabs (tabs_of m h) ! t)"
  defines "m1 \<equiv> upd_tabs h (upd_tab t (\<lambda>x. x\<lparr>tab_root := Some rt\<rparr>)) m"
  assumes "m2 = (if left = [] then m1 else (let (m, r) = make_tab h False m1
      in upd_tabs h (upd_tab r (\<lambda>x. (tab_rename ''unarranged'' x)\<lparr>tab_root := Some (unarranged left)\<rparr>)) m))"
  shows "pane_bag m2 = pane_bag m + mset (pane_ids rt)" "trees_ok m \<Longrightarrow> trees_ok m2"
proof -
  have m1: "pane_bag m1 + mset left = pane_bag m + mset (pane_ids rt)"
    using upd_tab_bag [OF assms(1,2), of "\<lambda>x. x\<lparr>tab_root := Some rt\<rparr>"] by (simp add: m1_def left_def tab_panes_def)
  have t1: "trees_ok m1" if "trees_ok m"
    using that assms(1,3) unfolding m1_def by (intro upd_tab_trees) (simp_all add: root_ok_def)
  have h1: "holder_in m1 h" using assms(1) by (simp add: m1_def)
  obtain m3 r where mt: "make_tab h False m1 = (m3, r)" by force
  note f = make_tab_facts [OF mt h1]
  let ?f = "\<lambda>x. (tab_rename ''unarranged'' x)\<lparr>tab_root := Some (unarranged left)\<rparr>"
  have h3: "holder_in m3 h" using f(3) h1 by simp
  have "pane_bag (upd_tabs h (upd_tab r ?f) m3) = pane_bag m1 + mset left" if "left \<noteq> []"
    using upd_tab_bag [OF h3 f(4), of ?f] f(1,5) unarranged_facts(1) [OF that] by (simp add: tab_panes_def)
  moreover have "trees_ok (upd_tabs h (upd_tab r ?f) m3)" if "left \<noteq> []" "trees_ok m"
    using f(2) t1 [OF that(2)] h3 unarranged_facts(2) [OF that(1)] by (intro upd_tab_trees) (simp_all add: root_ok_def)
  ultimately show "pane_bag m2 = pane_bag m + mset (pane_ids rt)" "trees_ok m \<Longrightarrow> trees_ok m2"
    using m1 t1 assms(6) mt by (auto split: if_splits)
qed

lemma arrange_in_facts:
  assumes "layout_ok m" "holder_in m h" "tree_ok rt" "pane_ids rt = used" "distinct used"
    "\<forall>p \<in> set used. dock_ws m p = None" "arrange_in h rt used ps m = (m', r)"
  shows "layout_ok m'" "pane_bag m' = mset used + filter_mset (\<lambda>q. q \<notin> set used) (pane_bag m)" "\<exists>out. r = Inr out" "layout_settled m'"
proof -
  obtain m1 t where mt: "(case active_index (tabs_of m h) of Some t \<Rightarrow> (m, t) | None \<Rightarrow> make_tab h True m) = (m1, t)" by force
  have "layout_ok m1 \<and> pane_bag m1 = pane_bag m \<and> holder_in m1 h \<and> t < length (ts_tabs (tabs_of m1 h)) \<and>
    map ws_dock (m_workspaces m1) = map ws_dock (m_workspaces m)"
  proof (cases "active_index (tabs_of m h)")
    case None
    with mt have "make_tab h True m = (m1, t)" by simp
    from make_tab_facts [OF this assms(2)] assms(1,2) show ?thesis by (simp only: layout_ok_iff)
  qed (use mt assms(1,2) active_index_bound in auto)
  then have m1: "layout_ok m1" "pane_bag m1 = pane_bag m" "holder_in m1 h" "t < length (ts_tabs (tabs_of m1 h))"
    "map ws_dock (m_workspaces m1) = map ws_dock (m_workspaces m)" by auto
  define m2 where "m2 = foldl (\<lambda>m p. detach p m) m1 used"
  define tb where "tb = tab_id (ts_tabs (tabs_of m1 h) ! t)"
  have d: "layout_ok m2" "pane_bag m2 = filter_mset (\<lambda>q. q \<notin> set used) (pane_bag m)"
    using detach_all [OF m1(1)] m1(2) by (simp_all add: m2_def)
  have "\<forall>p \<in> set used. dock_ws m1 p = None" using assms(6) m1(5) by (simp add: ws_dock_None)
  from detach_all_tabs [OF this m1(3)] have "holder_in m2 h" "tb \<in> set (tab_ids (tabs_of m2 h))"
    using m1(4) by (auto simp: m2_def tb_def tab_ids_def)
  then obtain h2 t2 where ti: "tab_index m2 tb = Some (h2, t2)" by (cases "tab_index m2 tb") (auto simp: tab_index_None_iff)
  note t2 = tab_index_SomeD [OF ti]
  define left where "left = tab_panes (ts_tabs (tabs_of m2 h2) ! t2)"
  define m3 where "m3 = (let m = upd_tabs h2 (upd_tab t2 (\<lambda>x. x\<lparr>tab_root := Some rt\<rparr>)) m2 in if left = [] then m
      else (let (m, r) = make_tab h2 False m in upd_tabs h2 (upd_tab r (\<lambda>x. (tab_rename ''unarranged'' x)\<lparr>tab_root := Some (unarranged left)\<rparr>)) m))"
  have m3: "pane_bag m3 = pane_bag m2 + mset used" "trees_ok m3"
    using put_tree [of m2 h2 t2 rt m3] t2 assms(3,4) d(1) by (auto simp: m3_def left_def Let_def layout_ok_iff)
  let ?g = "\<lambda>ts. let ts = ts\<lparr>ts_active := Some tb\<rparr> in if (case ts_focused ts of Some f \<Rightarrow> f \<in> set used | None \<Rightarrow> False) then ts
      else ts\<lparr>ts_focused := first_opt used\<rparr>"
  have g: "pane_bag (upd_tabs h2 ?g m3) = pane_bag m3" "trees_ok (upd_tabs h2 ?g m3)"
    using m3(2) by (auto simp: Let_def upd_focus_facts)
  have m': "m' = drop_empty (upd_tabs h2 ?g m3)" and r: "\<exists>out. r = Inr out"
    using assms(7) ti unfolding arrange_in_def mt
    by (auto simp: Let_def m2_def [symmetric] tb_def [symmetric] left_def [symmetric] m3_def)
  show "pane_bag m' = mset used + filter_mset (\<lambda>q. q \<notin> set used) (pane_bag m)"
    using m' g(1) m3(1) d(2) by (simp add: drop_empty_bag ac_simps)
  moreover have "once (mset used + filter_mset (\<lambda>q. q \<notin> set used) (pane_bag m))"
    using assms(1,5) by (auto simp: once_def layout_ok_iff distinct_count_atmost_1 count_mset_0_iff)
  ultimately show "layout_ok m'" using m' g(2) by (simp add: layout_ok_iff drop_empty_trees)
  show "\<exists>out. r = Inr out" "layout_settled m'" using r m' drop_empty_settled by auto
qed

lemma arrange_holder_facts:
  assumes "arrange_holder args ps m = (m', r)"
  shows "keeps m m'" "r = Inr h \<Longrightarrow> holder_in m' h" "m_workspaces m' = m_workspaces m"
proof -
  obtain m1 r1 where tw: "target_window (json_string args ''window'') m = (m1, r1)" by force
  note f = target_window_facts [OF tw]
  have "(m' = m \<and> (\<forall>h. r = Inr h \<longrightarrow> holder_in m h)) \<or> (m' = m1 \<and> r = (case r1 of Inl e \<Rightarrow> Inl e | Inr w \<Rightarrow> Inr (HWindow w)))"
    using assms tw by (auto simp: arrange_holder_def Let_def split: option.splits sum.splits prod.splits if_splits
        dest: holder_of_in intro: workspace_holder_in)
  then show "keeps m m'" "r = Inr h \<Longrightarrow> holder_in m' h" "m_workspaces m' = m_workspaces m"
    using keeps_target_window [OF tw] f by (auto split: sum.splits)
qed

lemma arrange_cmd_facts:
  assumes "layout_ok m" "arrange_cmd args ps m = (m', r)"
  shows "layout_ok m'" "r = Inl e \<Longrightarrow> pane_bag m' = pane_bag m"
    "r = Inr out \<Longrightarrow> \<exists>n used. build ps (map (\<lambda>s. dk_pane (ws_dock s)) (m_workspaces m)) (case jget args ''layout'' of Some v \<Rightarrow> v | None \<Rightarrow> Null) [] = Inr (n, used) \<and>
       distinct used \<and> pane_bag m' = mset used + filter_mset (\<lambda>q. q \<notin> set used) (pane_bag m) \<and> layout_settled m'"
proof -
  let ?b = "build ps (map (\<lambda>s. dk_pane (ws_dock s)) (m_workspaces m)) (case jget args ''layout'' of Some v \<Rightarrow> v | None \<Rightarrow> Null) []"
  obtain m1 r1 where ah: "arrange_holder args ps m = (m1, r1)" by force
  note k = arrange_holder_facts [OF ah]
  have *: "layout_ok m' \<and> (isl r \<longrightarrow> pane_bag m' = pane_bag m) \<and> (\<not> isl r \<longrightarrow> (\<exists>n used. ?b = Inr (n, used) \<and> distinct used \<and>
      pane_bag m' = mset used + filter_mset (\<lambda>q. q \<notin> set used) (pane_bag m) \<and> layout_settled m'))"
  proof (cases ?b)
    case (Inl e)
    with assms show ?thesis by (auto simp: arrange_cmd_def)
  next
    case (Inr x)
    obtain n used where x: "x = (n, used)" by force
    from build_facts(1) [OF Inr [unfolded x]]
    have b: "pane_ids n = used" "set used \<inter> (\<lambda>s. dk_pane (ws_dock s)) ` set (m_workspaces m) = {}" "distinct used" "node_ok 1 n"
      by (auto simp: built_def)
    show ?thesis
    proof (cases r1)
      case (Inl e)
      then have "m' = m1" "r = Inl e" using assms(2) Inr x ah by (simp_all add: arrange_cmd_def)
      with k(1) assms(1) keeps_ok show ?thesis by (auto simp: keeps_def)
    next
      case r1: (Inr h)
      then have ai: "arrange_in h (normalize_node n) used ps m1 = (m', r)" using assms(2) Inr x ah by (simp add: arrange_cmd_def)
      have "\<forall>p \<in> set used. dock_ws m1 p = None" using b(2) k(3) by (auto simp: dock_ws_def)
      note f = arrange_in_facts [OF keeps_ok [OF k(1) assms(1)] k(2) [OF r1] normalize_ok [OF b(4)] _ b(3) this ai]
      with b(1) k(1) have "layout_ok m'" "pane_bag m' = mset used + filter_mset (\<lambda>q. q \<notin> set used) (pane_bag m)"
        "\<exists>out. r = Inr out" "layout_settled m'" by (auto simp: keeps_def)
      with Inr x b(3) show ?thesis by auto
    qed
  qed
  from * show "layout_ok m'" "r = Inl e \<Longrightarrow> pane_bag m' = pane_bag m"
    "r = Inr out \<Longrightarrow> \<exists>n used. ?b = Inr (n, used) \<and> distinct used \<and>
       pane_bag m' = mset used + filter_mset (\<lambda>q. q \<notin> set used) (pane_bag m) \<and> layout_settled m'" by auto
qed

subsection \<open>Properties\<close>

text \<open>
  \<open>arrange\<close> either fails and leaves every pane where it was, or reads a tree that names each of
  its panes once and puts exactly those panes into one tab: every other pane of the layout stays
  in it, none is doubled, the sizes of every split are positive and add up to 1, and the layout is
  settled.
\<close>

lemma arrange_keeps_panes:
  assumes "layout_ok m" "arrange_cmd args ps m = (m', r)"
  shows "layout_ok m' \<and> (case r of
      Inl e \<Rightarrow> pane_bag m' = pane_bag m
    | Inr out \<Rightarrow> (\<exists>n used. build ps (map (\<lambda>s. dk_pane (ws_dock s)) (m_workspaces m))
          (case jget args ''layout'' of Some v \<Rightarrow> v | None \<Rightarrow> Null) [] = Inr (n, used) \<and>
        distinct used \<and> pane_bag m' = mset used + filter_mset (\<lambda>q. q \<notin> set used) (pane_bag m) \<and> layout_settled m'))"
  using arrange_cmd_facts [OF assms] by (cases r) auto

definition demo_tree :: json where
  "demo_tree = JObject [(''layout'', JObject [(''split'', JString ''column''),
     (''children'', JArray [JObject [(''pane'', JString ''term-2'')], JObject [(''pane'', JString ''term-1'')]])])]"

lemma arrange_keeps_panes_witness: "layout_settled (fst (arrange_cmd demo_tree demo_panes demo))"
proof -
  have "\<not> isl (snd (arrange_cmd demo_tree demo_panes demo))" by code_simp
  then show ?thesis
    using arrange_keeps_panes [OF demo_ok prod.collapse [symmetric], of demo_tree demo_panes]
    by (auto split: sum.splits)
qed

text \<open>
  A tree that \<open>arrange\<close> builds is complete: it names the panes in the order in which the reader
  used them, none of them docked, and its sizes are positive and fill each split, whether they
  are given, left out or given in part.
\<close>

lemma build_fills:
  assumes "build ps outside v [] = Inr (n, used)"
  shows "pane_ids n = used \<and> distinct used \<and> set used \<inter> set outside = {} \<and> tree_ok (normalize_node n) \<and>
    pane_ids (normalize_node n) = used"
  using build_facts(1) [OF assms] normalize_ok [of n] by (auto simp: built_def)

theorem build_fills_witness:
  "\<exists>n used. build demo_panes [''page-1''] (JObject [(''split'', JString ''row''), (''children'', JArray [JObject [(''pane'', JString ''term-2''),
     (''size'', JString ''1/3'')], JObject [(''pane'', JString ''term-1'')]])]) [] = Inr (n, used) \<and> tree_ok (normalize_node n)"
proof -
  let ?b = "build demo_panes [''page-1''] (JObject [(''split'', JString ''row''), (''children'', JArray [JObject [(''pane'', JString ''term-2''),
     (''size'', JString ''1/3'')], JObject [(''pane'', JString ''term-1'')]])]) []"
  have "\<not> isl ?b" by code_simp
  then obtain n used where "?b = Inr (n, used)" by (cases ?b) auto
  with build_fills [OF this] show ?thesis by blast
qed

text \<open>
  Resizing keeps a layout a layout: moving a divider or giving a pane a size changes no pane,
  and every split's sizes stay positive and add up to 1.
\<close>

lemma resize_keeps_layout:
  assumes "layout_ok m" "resize_cmd args ps m = (m', r)"
  shows "layout_ok m' \<and> pane_bag m' = pane_bag m"
  using resize_cmd_keeps [OF _ assms(2)] assms(1) keeps_ok by (auto simp: keeps_def layout_ok_iff)

theorem resize_keeps_layout_witness:
  "layout_ok (fst (resize_cmd (JObject [(''pane'', JString ''term-1''), (''size'', JString ''70%'')]) demo_panes demo))"
  using resize_keeps_layout [OF demo_ok prod.collapse [symmetric]] by blast

text \<open>
  Giving a pane a size sets exactly that size and shares out the rest of its split in the
  proportions the other panes had.
\<close>

lemma resize_proportions:
  assumes "kids_ok 2 ks" "i < length ks" "0 < sz" "sz < 1" "snd (ks ! i) < 1 - 1 / 10 ^ 9"
  shows "snd (resize_kids i sz ks ! i) = sz \<and> kids_ok 2 (resize_kids i sz ks) \<and>
    (\<forall>j k. j < length ks \<and> k < length ks \<and> j \<noteq> i \<and> k \<noteq> i \<longrightarrow>
       snd (resize_kids i sz ks ! j) * snd (ks ! k) = snd (resize_kids i sz ks ! k) * snd (ks ! j))"
  using resize_kids_facts [OF assms(1-4)] assms(5) by blast

theorem resize_proportions_witness:
  "snd (resize_kids 0 (2 / 3) [(Pane ''a'', 1 / 2), (Pane ''b'', 1 / 2)] ! 0) = 2 / 3"
  using resize_proportions [of "[(Pane ''a'', 1 / 2), (Pane ''b'', 1 / 2)]" 0 "2 / 3"] by (simp add: kids_ok_def)

end
