(* ===== verification/Mux_Places.thy ===== *)
theory Mux_Places
  imports Mux_Arrange
begin

text \<open>
  Placing panes and taking them away. \<open>place_pane\<close> either refuses and keeps the layout's panes, or
  adds exactly the pane it was given; it never panics. The contract the daemon relies on, placing,
  removing and tidying against the set of panes it holds, is the locale \<open>layout_host\<close>.
\<close>

lemma err_not_panic [simp]: "c \<noteq> ''panic'' \<Longrightarrow> kmux_err c x \<noteq> panic"
  by (simp add: panic_def kmux_err_def)

subsection \<open>Adding one pane\<close>

definition adds :: "string \<Rightarrow> model \<Rightarrow> model \<Rightarrow> bool" where
  "adds p m m' \<longleftrightarrow> pane_bag m' = add_mset p (pane_bag m) \<and> (trees_ok m \<longrightarrow> trees_ok m') \<and> m_orphans m' = m_orphans m"

lemma adds_ok: "adds p m m' \<Longrightarrow> layout_ok m \<Longrightarrow> p \<notin># pane_bag m \<Longrightarrow> layout_ok m'"
  by (simp add: adds_def layout_ok_iff once_add)

lemma keeps_adds: "keeps m m' \<Longrightarrow> m_orphans m' = m_orphans m \<Longrightarrow> adds p m' m'' \<Longrightarrow> adds p m m''"
  by (simp add: adds_def keeps_def)

lemma adds_keeps: "adds p m m' \<Longrightarrow> keeps m' m'' \<Longrightarrow> m_orphans m'' = m_orphans m' \<Longrightarrow> adds p m m''"
  by (simp add: adds_def keeps_def)

lemma adds_append:
  assumes "s < length (m_workspaces m)"
  shows "adds p m (upd_ws s (\<lambda>x. x\<lparr>ws_background := ws_background x @ [p]\<rparr>) m)"
proof -
  let ?f = "\<lambda>x. x\<lparr>ws_background := ws_background x @ [p]\<rparr>"
  have "trees_ok m \<Longrightarrow> trees_ok (upd_ws s ?f m)" by (rule trees_ok_upd_ws) (simp_all add: trees_ok_ws)
  moreover have "m_orphans (upd_ws s ?f m) = m_orphans m" by (simp add: upd_ws_def)
  ultimately show ?thesis using pane_bag_upd_ws [OF assms, of ?f] by (simp add: adds_def ws_bag_def)
qed

lemma adds_dock: "adds p m (dock_workspace now p e pl fr m)"
proof -
  have "tabs_ok (default_tabs\<lparr>ts_focused := x\<rparr>)" for x by (simp add: tabs_ok_def default_tabs_def)
  moreover have "tabs_panes (default_tabs\<lparr>ts_focused := x\<rparr>) = []" for x by (simp add: tabs_panes_def default_tabs_def)
  ultimately show ?thesis
    by (auto simp: adds_def dock_workspace_def new_workspace_def new_ws_def Let_def pane_bag_def ws_bag_def trees_ok_def all_tabs_def)
qed

lemma target_window_error: "target_window reference m = (m', Inl e) \<Longrightarrow> e \<noteq> panic"
  by (auto simp: target_window_def ok_or_def Let_def
      split: option.splits if_splits prod.splits)

lemma lead_pane_facts:
  assumes "lead_pane p win m = (m', r)"
  shows "r = Inl e \<Longrightarrow> keeps m m' \<and> e \<noteq> panic \<and> m_orphans m' = m_orphans m" "r = Inr w \<Longrightarrow> adds p m m'"
proof -
  obtain m1 r1 where tw: "target_window win m = (m1, r1)" by force
  note f = target_window_facts [OF tw] and k = keeps_target_window [OF tw]
  have ad: "adds p m (upd_window w (\<lambda>x. x\<lparr>win_lead := Some d, win_ws := v, win_tabs := settle_focus b (win_tabs x)\<rparr>) m1)"
    if w: "r1 = Inr w" "win_lead (m_windows m1 ! w) = None" "dk_pane d = p" for w d v b
  proof -
    let ?f = "\<lambda>x. x\<lparr>win_lead := Some d, win_ws := v, win_tabs := settle_focus b (win_tabs x)\<rparr>"
    have i: "w < length (m_windows m1)" using f(4) [OF w(1)] by simp
    have "trees_ok m1 \<Longrightarrow> trees_ok (upd_window w ?f m1)" by (rule trees_ok_upd_window) (simp_all add: trees_ok_window)
    with pane_bag_upd_window [OF i, of ?f] w have "adds p m1 (upd_window w ?f m1)"
      by (simp add: adds_def window_bag_def upd_window_def)
    with k f(7) show ?thesis by (rule keeps_adds)
  qed
  have err: "target_window (Some x) m = (m2, Inl e) \<Longrightarrow> e \<noteq> panic" for x m2 by (rule target_window_error)
  show "r = Inl e \<Longrightarrow> keeps m m' \<and> e \<noteq> panic \<and> m_orphans m' = m_orphans m"
    using assms tw k f(7) err
    by (auto simp: lead_pane_def Let_def split: option.splits sum.splits)
  show "adds p m m'" if "r = Inr w"
    using assms tw that ad by (auto simp: lead_pane_def Let_def split: option.splits sum.splits)
qed

subsection \<open>Where a pane goes\<close>

definition spot_ok :: "model \<Rightarrow> holder \<Rightarrow> (nat \<times> string) option \<Rightarrow> bool" where
  "spot_ok m h beside \<longleftrightarrow> holder_in m h \<and>
     (case beside of Some (t, c) \<Rightarrow> t < length (ts_tabs (tabs_of m h)) \<and> c \<in> set (tab_panes (ts_tabs (tabs_of m h) ! t)) | None \<Rightarrow> True)"

lemma window_holder_orphans: "window_holder reference m = (m', r) \<Longrightarrow> m_orphans m' = m_orphans m"
  by (auto simp: window_holder_def split: option.splits sum.splits prod.splits dest: target_window_facts(7))

lemma window_holder_error: "window_holder reference m = (m', Inl e) \<Longrightarrow> e \<noteq> panic"
  by (auto simp: window_holder_def split: option.splits sum.splits prod.splits dest: target_window_error)

lemma holder_of_located: "locate m p = Some l \<Longrightarrow> holder_of m p = Some (loc_holder l)"
  by (simp add: holder_of_def)

lemma place_target_facts:
  assumes "place_target pl m = (m', r)"
  shows "keeps m m' \<and> m_orphans m' = m_orphans m \<and> (\<forall>e. r = Inl e \<longrightarrow> e \<noteq> panic) \<and>
    (\<forall>h beside ft. r = Inr (h, beside, ft) \<longrightarrow> spot_ok m' h beside)"
proof -
  let ?asked = "or_else (at_opener pl) (at_from pl)"
  consider (ws) i where "at_window pl = None" "at_workspace pl = Some i"
    | (win) w where "at_window pl = Some w" | (free) "at_window pl = None" "at_workspace pl = None"
    by (cases "at_window pl"; cases "at_workspace pl") auto
  then show ?thesis
  proof cases
    case (ws i)
    with assms workspace_holder_in [of i m] show ?thesis
      by (auto simp: place_target_def Let_def spot_ok_def workspace_holder_def ok_or_def split: option.splits)
  next
    case (win w)
    obtain m1 r1 where wh: "window_holder (Some w) m = (m1, r1)" by force
    obtain h where h: "case Option.bind ?asked (\<lambda>c. map_option (Pair c) (holder_of m c)) of Some (_, x) \<Rightarrow> h = x | None \<Rightarrow> True"
      by (cases "Option.bind ?asked (\<lambda>c. map_option (Pair c) (holder_of m c))") auto
    obtain m2 x where wf: "window_for (ws_of m h) m = (m2, x)" by force
    note a = window_holder_facts [OF wh] window_holder_orphans [OF wh] and b = window_for_facts [OF wf]
    show ?thesis
    proof (cases "w = ''new'' \<and> Option.bind ?asked (\<lambda>c. map_option (Pair c) (holder_of m c)) \<noteq> None")
      case True
      with assms win h wf have "m' = m2" "r = Inr (HWindow x, None, at_new_tab pl)"
        by (auto simp: place_target_def Let_def split: option.splits)
      with b show ?thesis by (simp add: keeps_def spot_ok_def)
    next
      case False
      then have n: "(if w = ''new'' then Option.bind ?asked (\<lambda>c. map_option (Pair c) (holder_of m c)) else None) = None" by presburger
      from assms win wh have "m' = m1" "r = (case r1 of Inl e \<Rightarrow> Inl e | Inr h \<Rightarrow> Inr (h, None, at_new_tab pl))"
        unfolding place_target_def Let_def by (simp_all add: n split: sum.splits)
      with a window_holder_error wh show ?thesis by (auto simp: spot_ok_def split: sum.splits)
    qed
  next
    case free
    obtain m1 r1 where tw: "target_window None m = (m1, r1)" by force
    note f = target_window_facts [OF tw] keeps_target_window [OF tw] target_window_error
    have loc: "locate m c = Some l \<Longrightarrow> loc_tab l < length (ts_tabs (tabs_of m (loc_holder l))) \<and>
        c \<in> set (tab_panes (ts_tabs (tabs_of m (loc_holder l)) ! loc_tab l)) \<and> holder_of m c = Some (loc_holder l)" for c l
      using locate_tab_panes holder_of_located by blast
    have m: "spot_ok m h (map_option (\<lambda>l. (loc_tab l, c)) (locate m c))" "holder_in m h" if "holder_of m c = Some h" for c h
      using that loc holder_of_in by (auto simp: spot_ok_def split: option.splits)
    have *: "spot_ok m' h None \<longleftrightarrow> holder_in m' h" for m' h by (simp add: spot_ok_def)
    show ?thesis
    proof (cases ?asked)
      case None
      with assms free tw have "m' = m1" "r = (case r1 of Inl e \<Rightarrow> Inl e | Inr w \<Rightarrow> Inr (HWindow w, None, at_new_tab pl))"
        by (auto simp: place_target_def Let_def split: sum.splits)
      with f tw show ?thesis by (auto simp: * split: sum.splits)
    next
      case (Some c)
      with assms free m show ?thesis
        by (cases "holder_of m c") (auto simp: place_target_def Let_def * split: if_splits)
    qed
  qed
qed

lemma place_tab_facts:
  assumes "place_tab h beside ft m = (m', r)" "spot_ok m h beside"
  shows "\<exists>t. r = Inr t \<and> keeps m m' \<and> m_orphans m' = m_orphans m \<and> spot_ok m' h beside \<and> t < length (ts_tabs (tabs_of m' h)) \<and>
    (\<forall>c. beside = Some c \<longrightarrow> fst c = t)"
proof (cases beside)
  case (Some c)
  with assms show ?thesis by (auto simp: place_tab_def spot_ok_def)
next
  case None
  obtain m1 t where mk: "make_tab h True m = (m1, t)" by force
  from assms(2) None have "holder_in m h" by (simp add: spot_ok_def)
  note f = make_tab_facts [OF mk this]
  show ?thesis
  proof (cases "ft \<or> ts_tabs (tabs_of m h) = []")
    case True
    with assms(1) None mk f assms(2) show ?thesis by (auto simp: place_tab_def spot_ok_def keeps_def)
  next
    case False
    then obtain i where "active_index (tabs_of m h) = Some i" by (metis active_index_None_iff not_None_eq)
    with assms None False show ?thesis by (auto simp: place_tab_def dest: active_index_bound)
  qed
qed

lemma place_focus_roots: "map tab_root (ts_tabs (place_focus p b t ts)) = map tab_root (ts_tabs ts)"
  by (auto simp: place_focus_def Let_def roots_upd_tab split: option.splits)

lemma set_root_adds:
  assumes "holder_in m h" "t < length (ts_tabs (tabs_of m h))" "tab_panes (ts_tabs (tabs_of m h) ! t) = []"
  shows "adds p m (upd_tabs h (upd_tab t (\<lambda>x. x\<lparr>tab_root := Some (Pane p)\<rparr>)) m)"
proof -
  let ?f = "\<lambda>x. x\<lparr>tab_root := Some (Pane p)\<rparr>"
  have "mset (tabs_panes (upd_tab t ?f (tabs_of m h))) = add_mset p (mset (tabs_panes (tabs_of m h)))"
    using assms(3) unfolding tabs_panes_upd_tab [OF assms(2)] tabs_panes_at [OF assms(2)] by (simp add: tab_panes_def)
  with pane_bag_upd_tabs [OF assms(1), of "upd_tab t ?f"]
  have "pane_bag (upd_tabs h (upd_tab t ?f) m) = add_mset p (pane_bag m)" by simp
  moreover have "trees_ok (upd_tabs h (upd_tab t ?f) m)" if "trees_ok m"
    using that by (intro trees_ok_upd_tabs tabs_ok_upd_tab) (simp_all add: trees_ok_tabs root_ok_def)
  ultimately show ?thesis by (simp add: adds_def)
qed

lemma place_in_adds:
  assumes "spot_ok m h beside" "t < length (ts_tabs (tabs_of m h))" "\<forall>c. beside = Some c \<longrightarrow> fst c = t" "0 < at_size pl" "at_size pl < 1"
  shows "adds p m (place_in p pl h beside t m)"
proof -
  have h: "holder_in m h" using assms(1) by (simp add: spot_ok_def)
  define m1 where "m1 = (case place_beside (tabs_of m h) t beside of
      None \<Rightarrow> upd_tabs h (upd_tab t (\<lambda>x. x\<lparr>tab_root := Some (Pane p)\<rparr>)) m
    | Some target \<Rightarrow> upd_tabs h (tabs_insert (Pane p) target t (place_axis pl (wide m h t target)) True (at_size pl)) m)"
  have "adds p m m1"
  proof (cases "place_beside (tabs_of m h) t beside")
    case None
    then have "tab_panes (ts_tabs (tabs_of m h) ! t) = []" by (simp add: place_beside_def Let_def split: if_splits)
    from set_root_adds [OF h assms(2) this] None show ?thesis by (simp add: m1_def)
  next
    case (Some b)
    with assms(1,3) have "b \<in> set (tab_panes (ts_tabs (tabs_of m h) ! t))"
      by (auto simp: place_beside_def spot_ok_def Let_def split: if_splits option.splits dest: keep_in_SomeD)
    with insert_bag [OF h assms(2)] insert_trees [OF _ h assms(2,4,5)] Some show ?thesis by (simp add: adds_def m1_def)
  qed
  moreover have "keeps m1 (upd_tabs h (place_focus p (beside \<noteq> None) t) m1)" by (rule keeps_roots [OF place_focus_roots])
  moreover have "place_in p pl h beside t m = upd_tabs h (place_focus p (beside \<noteq> None) t) m1"
    by (simp add: place_in_def m1_def Let_def)
  ultimately show ?thesis by (metis adds_keeps upd_tabs_frame(2))
qed

lemma place_tabbed_facts:
  assumes "place_tabbed p pl m = (m', r)" "0 < at_size pl" "at_size pl < 1"
  shows "r = Inl e \<Longrightarrow> keeps m m' \<and> m_orphans m' = m_orphans m \<and> e \<noteq> panic" "r = Inr w \<Longrightarrow> adds p m m'"
proof -
  obtain m1 r1 where tg: "place_target pl m = (m1, r1)" by force
  note f = place_target_facts [OF tg]
  show "keeps m m' \<and> m_orphans m' = m_orphans m \<and> e \<noteq> panic" if "r = Inl e"
  proof (cases r1)
    case (Inl e')
    with assms(1) tg f that show ?thesis by (simp add: place_tabbed_def)
  next
    case (Inr x)
    then obtain h beside ft where x: "r1 = Inr (h, beside, ft)" by (cases x) auto
    obtain m2 r2 where tb: "place_tab h beside ft m1 = (m2, r2)" by force
    from place_tab_facts [OF tb] f x assms(1) tg tb that show ?thesis by (auto simp: place_tabbed_def Let_def)
  qed
  show "adds p m m'" if "r = Inr w"
  proof (cases r1)
    case (Inr x)
    then obtain h beside ft where x: "r1 = Inr (h, beside, ft)" by (cases x) auto
    obtain m2 r2 where tb: "place_tab h beside ft m1 = (m2, r2)" by force
    from place_tab_facts [OF tb] f x obtain t where t: "r2 = Inr t" "keeps m1 m2" "m_orphans m2 = m_orphans m1" "spot_ok m2 h beside"
      "t < length (ts_tabs (tabs_of m2 h))" "\<forall>c. beside = Some c \<longrightarrow> fst c = t" by blast
    have "adds p m2 (place_in p pl h beside t m2)" by (rule place_in_adds [OF t(4,5,6) assms(2,3)])
    moreover have "m' = place_in p pl h beside t m2" using assms(1) tg x tb t(1) that by (simp add: place_tabbed_def Let_def)
    ultimately show ?thesis using f t(2,3) keeps_adds keeps_trans by metis
  qed (use assms(1) tg that in \<open>simp add: place_tabbed_def\<close>)
qed

lemma place_pane_facts:
  assumes "place_pane now p pl ps m = (m', r)" "0 < at_size pl" "at_size pl < 1"
  shows "r = Inl e \<Longrightarrow> keeps m m' \<and> m_orphans m' = m_orphans m \<and> e \<noteq> panic" "r = Inr w \<Longrightarrow> adds p m m'"
proof -
  obtain m1 r1 where ld: "lead_pane p (at_window pl) m = (m1, r1)" by force
  have up: "adds p m (upd_ws 0 (\<lambda>x. x\<lparr>ws_left_at := v\<rparr>) (dock_workspace now p e pc fr m))" for v e pc fr
    by (rule adds_keeps [OF adds_dock keeps_upd_ws]) (simp_all add: ws_bag_def upd_ws_def)
  note facts = lead_pane_facts [OF ld] place_tabbed_facts [OF _ assms(2,3), of p m m' r] adds_dock up adds_append
  show "keeps m m' \<and> m_orphans m' = m_orphans m \<and> e \<noteq> panic" if "r = Inl e"
    using assms(1) that facts ld
    by (simp add: place_pane_def Let_def split: if_split_asm option.split_asm sum.split_asm) auto
  show "adds p m m'" if "r = Inr w"
    using assms(1) that facts ld find_workspace_in
    by (simp add: place_pane_def Let_def split: if_split_asm option.split_asm sum.split_asm) auto
qed

subsection \<open>The contract of a layout\<close>

text \<open>
  What the daemon relies on (\<open>LayoutHost\<close>): a layout holds a multiset of panes, a good layout each at
  most once; placing adds a pane that was not there or refuses; taking a pane out takes out that pane
  and no other; tidying keeps the panes and is done once. The lemmas follow from these laws alone.
\<close>

locale layout_host =
  fixes good :: "'m \<Rightarrow> bool" and bag :: "'m \<Rightarrow> 'p multiset" and out :: "'p \<Rightarrow> 'm \<Rightarrow> 'm" and tidy :: "'m \<Rightarrow> 'm"
    and fits :: "'a \<Rightarrow> bool" and place :: "'a \<Rightarrow> 'p \<Rightarrow> 'm \<Rightarrow> 'm \<times> ('e + 'b)"
  assumes good_once: "good m \<Longrightarrow> count (bag m) p \<le> 1"
    and out_good: "good m \<Longrightarrow> good (out p m)"
    and out_bag: "good m \<Longrightarrow> bag (out p m) = filter_mset (\<lambda>q. q \<noteq> p) (bag m)"
    and tidy_good: "good m \<Longrightarrow> good (tidy m)"
    and tidy_bag: "bag (tidy m) = bag m"
    and tidy_once: "tidy (tidy m) = tidy m"
    and place_refused: "fits a \<Longrightarrow> good m \<Longrightarrow> place a p m = (m', Inl e) \<Longrightarrow> good m' \<and> bag m' = bag m"
    and place_done: "fits a \<Longrightarrow> good m \<Longrightarrow> p \<notin># bag m \<Longrightarrow> place a p m = (m', Inr b) \<Longrightarrow> good m' \<and> bag m' = add_mset p (bag m)"
begin

lemma out_all: "good m \<Longrightarrow> good (foldl (\<lambda>m p. out p m) m ps) \<and> bag (foldl (\<lambda>m p. out p m) m ps) = filter_mset (\<lambda>q. q \<notin> set ps) (bag m)"
  by (induction ps arbitrary: m) (simp_all add: out_good out_bag filter_filter_mset conj_commute)

lemma cleared:
  assumes "good m"
  shows "good (tidy (foldl (\<lambda>m p. out p m) m ps))" "bag (tidy (foldl (\<lambda>m p. out p m) m ps)) = filter_mset (\<lambda>q. q \<notin> set ps) (bag m)"
  using out_all [OF assms] by (simp_all add: tidy_good tidy_bag)

lemma taken_back:
  assumes "fits a" "good m" "p \<notin># bag m" "place a p m = (m', Inr b)"
  shows "good (tidy (out p m'))" "bag (tidy (out p m')) = bag m"
proof -
  note d = place_done [OF assms]
  show "good (tidy (out p m'))" using d by (simp add: out_good tidy_good)
  show "bag (tidy (out p m')) = bag m" using d assms(3) by (auto simp: out_bag tidy_bag filter_mset_eq_conv)
qed

lemma placed_all:
  assumes "fits a" "good m" "distinct ps" "set ps \<inter> set_mset (bag m) = {}"
  shows "good (foldl (\<lambda>m p. fst (place a p m)) m ps) \<and> bag m \<subseteq># bag (foldl (\<lambda>m p. fst (place a p m)) m ps) \<and>
    bag (foldl (\<lambda>m p. fst (place a p m)) m ps) \<subseteq># bag m + mset ps"
  using assms
proof (induction ps arbitrary: m)
  case (Cons p ps)
  obtain m' r where pl: "place a p m = (m', r)" by force
  have step: "good m' \<and> (bag m' = bag m \<or> bag m' = add_mset p (bag m))"
    using place_refused [OF Cons.prems(1,2)] place_done [OF Cons.prems(1,2)] pl Cons.prems by (cases r) auto
  then have "set ps \<inter> set_mset (bag m') = {}" using Cons.prems by auto
  with Cons.IH [of m'] Cons.prems step have "good (foldl (\<lambda>m p. fst (place a p m)) m' ps)"
    "bag m' \<subseteq># bag (foldl (\<lambda>m p. fst (place a p m)) m' ps)" "bag (foldl (\<lambda>m p. fst (place a p m)) m' ps) \<subseteq># bag m' + mset ps" by auto
  moreover have "bag m \<subseteq># bag m'" "bag m' + mset ps \<subseteq># bag m + mset (p # ps)" using step by auto
  ultimately show ?case using pl by (simp del: mset.simps) (meson subset_mset.order_trans)
qed simp

end

interpretation host: layout_host layout_ok pane_bag detach drop_empty "\<lambda>(now, pl, ps). 0 < at_size pl \<and> at_size pl < 1"
  "\<lambda>(now, pl, ps) p m. place_pane now p pl ps m"
proof unfold_locales
  fix m m' :: model and p :: string and a :: "rat \<times> placement \<times> panes" and e :: kmux_error and b :: "string option"
  obtain now pl ps where a: "a = (now, pl, ps)" by (cases a)
  show "layout_ok m \<Longrightarrow> count (pane_bag m) p \<le> 1" by (simp add: layout_ok_iff once_def)
  show "layout_ok m \<Longrightarrow> layout_ok (detach p m)" by (rule detach_layout_ok)
  show "layout_ok m \<Longrightarrow> pane_bag (detach p m) = filter_mset (\<lambda>q. q \<noteq> p) (pane_bag m)" by (simp add: detach_bag layout_ok_iff)
  show "layout_ok m \<Longrightarrow> layout_ok (drop_empty m)" by (rule drop_empty_layout_ok)
  show "pane_bag (drop_empty m) = pane_bag m" by (rule drop_empty_bag)
  show "drop_empty (drop_empty m) = drop_empty m" by (rule drop_settled [OF drop_empty_settled])
  assume fit: "case a of (now, pl, ps) \<Rightarrow> 0 < at_size pl \<and> at_size pl < 1" and ok: "layout_ok m"
  note f = place_pane_facts [of now p pl ps m m']
  show "layout_ok m' \<and> pane_bag m' = pane_bag m" if "(case a of (now, pl, ps) \<Rightarrow> \<lambda>p m. place_pane now p pl ps m) p m = (m', Inl e)"
    using that f fit keeps_ok [OF _ ok] by (simp add: a keeps_def)
  show "layout_ok m' \<and> pane_bag m' = add_mset p (pane_bag m)"
    if "p \<notin># pane_bag m" "(case a of (now, pl, ps) \<Rightarrow> \<lambda>p m. place_pane now p pl ps m) p m = (m', Inr b)"
    using that f fit adds_ok [OF _ ok] by (simp add: a adds_def)
qed

end
