(* ===== verification/Mux_Restore.thy ===== *)
theory Mux_Restore
  imports Mux_Places
begin

text \<open>
  Saved layouts: whatever JSON \<open>read_layout\<close> accepts becomes a layout that holds each pane once and
  only panes it was told of, and \<open>install\<close> settles it. A tree written by \<open>export_node\<close> is read back as
  it was.
\<close>

subsection \<open>Taking panes from the saved state\<close>

definition takes :: "string list \<Rightarrow> string multiset \<Rightarrow> string list \<Rightarrow> string list \<Rightarrow> bool" where
  "takes known b xs ys \<longleftrightarrow> mset ys = mset xs + b \<and> set_mset b \<subseteq> set known \<and> (distinct xs \<longrightarrow> distinct ys)"

lemma takes_none [simp]: "takes known {#} xs xs"
  by (simp add: takes_def)

lemma takes_trans: "takes known a xs ys \<Longrightarrow> takes known b ys zs \<Longrightarrow> takes known (a + b) xs zs"
  by (simp add: takes_def ac_simps)

lemma takes_one: "i \<in> set known \<Longrightarrow> i \<notin> set xs \<Longrightarrow> takes known {#i#} xs (xs @ [i])"
  by (simp add: takes_def)

lemma saved_sizes_facts:
  assumes "cs \<noteq> []"
  shows "length (saved_sizes cs) = length cs" "\<forall>s \<in> set (saved_sizes cs). 0 < s" "sum_list (saved_sizes cs) = 1"
proof -
  define szs where "szs = map (\<lambda>c. case Option.bind (jget c ''size'') as_f64 of
      Some s \<Rightarrow> if 0 < s \<and> s \<le> 1 then s else 1 / of_nat (length cs) | None \<Rightarrow> 1 / of_nat (length cs)) cs"
  have eq: "saved_sizes cs = map (\<lambda>s. s / sum_list szs) szs" by (simp add: saved_sizes_def szs_def Let_def)
  have pos: "\<forall>s \<in> set szs. 0 < s" using assms by (auto simp: szs_def split: option.splits)
  have "0 < sum_list xs" if "xs \<noteq> []" "\<forall>s \<in> set xs. 0 < s" for xs :: "rat list"
    using that by (induction xs) (auto simp: neq_Nil_conv, metis add_pos_pos list.exhaust sum_list_simps(1) add.right_neutral)
  with pos assms have sum: "0 < sum_list szs" by (simp add: szs_def)
  show "length (saved_sizes cs) = length cs" by (simp add: eq szs_def)
  show "\<forall>s \<in> set (saved_sizes cs). 0 < s" using pos sum by (auto simp: eq)
  have "sum_list (map (\<lambda>s. s / k) xs) = sum_list xs / k" for k :: rat and xs by (induction xs) (simp_all add: add_divide_distrib)
  with sum show "sum_list (saved_sizes cs) = 1" by (simp add: eq)
qed

lemma read_node_facts:
  "read_node enc known v taken = Inr (n, taken') \<Longrightarrow> takes known (mset (pane_ids n)) taken taken' \<and> node_ok 1 n"
  "read_kids enc known vs taken = Inr (ns, taken') \<Longrightarrow>
     takes known (mset (concat (map pane_ids ns))) taken taken' \<and> (\<forall>n \<in> set ns. node_ok 1 n) \<and> length ns = length vs"
proof (induction enc known v taken and enc known vs taken arbitrary: n taken' and ns taken' rule: read_node_read_kids.induct)
  case (1 enc known v taken)
  from 1(2) obtain fs where v: "v = JObject fs" by (auto split: json.splits)
  show ?case
  proof (cases "case jget v ''pane'' of Some Null \<Rightarrow> None | r \<Rightarrow> r")
    case (Some r)
    with 1(2) v show ?thesis by (auto simp: takes_one Let_def split: option.splits if_splits)
  next
    case None
    from 1(2) None v obtain a cs ns where d: "Option.bind (json_string v ''split'') axis_parse = Some a" "children_of v = Some cs"
      "read_kids enc known cs taken = Inr (ns, taken')" "n = Split a (zip ns (saved_sizes cs))"
      by (simp add: Let_def split: option.splits sum.splits prod.splits)
    from 1(1) [OF v refl None d(1,2,3)] have ih: "takes known (mset (concat (map pane_ids ns))) taken taken'" "\<forall>n \<in> set ns. node_ok 1 n"
      "length ns = length cs" by auto
    have cs: "cs \<noteq> []" using d(2) by (auto simp: children_of_def split: option.splits list.splits)
    note s = saved_sizes_facts [OF cs]
    have "kids_ok 1 (zip ns (saved_sizes cs))"
      using s ih(2,3) cs by (auto simp: kids_ok_def Suc_le_eq dest: set_zip_leftD set_zip_rightD)
    with ih s show ?thesis by (simp add: d(4) kid_ids_zip)
  qed
next
  case (3 enc known c cs taken)
  then obtain n u ns' where d: "read_node enc known c taken = Inr (n, u)" "read_kids enc known cs u = Inr (ns', taken')" "ns = n # ns'"
    by (auto split: sum.splits)
  from 3(1) [OF d(1)] 3(2) [OF d(1) refl d(2)] show ?case by (auto simp: d(3) intro: takes_trans)
qed auto

declare read_node.simps [simp del]

lemma try_fold_inv:
  "try_fold f s xs = Inr s' \<Longrightarrow> P s \<Longrightarrow> (\<And>s x s'. P s \<Longrightarrow> f s x = Inr s' \<Longrightarrow> P s') \<Longrightarrow> P s'"
  by (induction xs arbitrary: s) (auto split: sum.splits)

lemma read_root_facts:
  "read_root enc known entry taken = Inr (rt, taken') \<Longrightarrow> takes known (mset (root_ids rt)) taken taken' \<and> root_ok rt"
  using read_node_facts(1)
  by (auto simp: read_root_def root_ok_def intro!: normalize_ok split: option.splits sum.splits)

lemma saved_tab_root [simp]: "tab_root (saved_tab entry tid rt n) = rt"
  by (simp add: saved_tab_def Let_def)

lemma read_tab_facts:
  assumes "read_tab enc known (r, out) entry = Inr (r', out')"
  shows "\<exists>tb. out' = out @ [tb] \<and> takes known (mset (tab_panes tb)) (rd_placed r) (rd_placed r') \<and> root_ok (tab_root tb)"
  using assms by (auto simp: read_tab_def tab_panes_def split: option.splits if_splits sum.splits dest!: read_root_facts)

lemma read_tabs_facts:
  assumes "read_tabs enc known item r = Inr (r', ts)"
  shows "takes known (mset (tabs_panes ts)) (rd_placed r) (rd_placed r') \<and> tabs_ok ts"
proof -
  from assms obtain saved entries where f: "try_fold (read_tab enc known) (r, []) saved = Inr (r', entries)"
    and ts: "ts_tabs ts = filter (\<lambda>t. tab_root t \<noteq> None) entries"
    by (auto simp: read_tabs_def Let_def split: option.splits sum.splits)
  define P where "P = (\<lambda>(r1 :: reader, out). takes known (mset (concat (map tab_panes out))) (rd_placed r) (rd_placed r1) \<and> (\<forall>t \<in> set out. root_ok (tab_root t)))"
  have "P (r', entries)"
  proof (rule try_fold_inv [OF f])
    fix s x s' assume "P s" "read_tab enc known s x = Inr s'"
    moreover obtain r1 out r2 out2 where "s = (r1, out)" "s' = (r2, out2)" by (cases s; cases s')
    ultimately show "P s'" using read_tab_facts [of enc known r1 out x r2 out2] takes_trans by (fastforce simp: P_def)
  qed (simp add: P_def)
  moreover have "concat (map tab_panes (filter (\<lambda>t. tab_root t \<noteq> None) xs)) = concat (map tab_panes xs)" for xs
    by (induction xs) (auto simp: tab_panes_def)
  ultimately show ?thesis using ts by (simp add: P_def tabs_panes_def tabs_ok_def)
qed

abbreviation dock_bag :: "dock option \<Rightarrow> string multiset" where
  "dock_bag d \<equiv> (case d of Some d \<Rightarrow> {#dk_pane d#} | None \<Rightarrow> {#})"

lemma read_side_facts:
  "read_side enc known item key owner what r = Inr (r', d) \<Longrightarrow> takes known (dock_bag d) (rd_placed r) (rd_placed r')"
  by (auto simp: read_side_def Let_def takes_one split: option.splits json.splits if_splits)

lemma read_window_facts:
  assumes "read_window enc known item r = Inr (r', w, d, dsk)"
  shows "takes known (window_bag w + dock_bag d) (rd_placed r) (rd_placed r')" "tabs_ok (win_tabs w)"
proof -
  define key where "key = (if jget item ''lead'' \<noteq> None then ''lead'' else ''planner'')"
  from assms obtain i n where i: "Option.bind (json_string item ''id'') (\<lambda>i. map_option (Pair i) (number_in i ''win-'')) = Some (i, n)"
    by (auto simp: read_window_def split: option.splits)
  define r0 where "r0 = r\<lparr>rd_window_ids := rd_window_ids r @ [i], rd_win := max (rd_win r) n\<rparr>"
  note d = assms [unfolded read_window_def i Let_def option.case prod.case, folded key_def r0_def]
  from d obtain r1 ts r2 ld where g: "read_tabs enc known item r0 = Inr (r1, ts)" "read_side enc known item ''dock'' i ''docks'' r1 = Inr (r2, d)"
    "read_side enc known item key i ''is led by'' r2 = Inr (r', ld)"
    "w = (new_window i)\<lparr>win_tabs := ts, win_lead := map_option (\<lambda>l. l\<lparr>dk_edge := ELeft, dk_frozen := False\<rparr>) ld\<rparr>"
    by (simp split: if_split_asm sum.split_asm prod.split_asm)
  note f = r0_def [THEN arg_cong, of rd_placed, simplified] g
  have "window_bag w = mset (tabs_panes ts) + dock_bag ld" by (auto simp: f(5) window_bag_def split: option.splits)
  with takes_trans [OF takes_trans [OF conjunct1 [OF read_tabs_facts [OF f(2)]] read_side_facts [OF f(3)]] read_side_facts [OF f(4)]] f(1)
  show "takes known (window_bag w + dock_bag d) (rd_placed r) (rd_placed r')" by (simp add: ac_simps)
  show "tabs_ok (win_tabs w)" using read_tabs_facts [OF f(2)] by (simp add: f(5))
qed

lemma settle_saved_tabs [simp]: "ts_tabs (settle_saved item sd ts) = ts_tabs ts"
  by (auto simp: settle_saved_def Let_def split: option.splits)


subsection \<open>The whole state\<close>

definition read_bag :: "reading \<Rightarrow> string multiset" where
  "read_bag g = sum_list (map window_bag (rg_windows g)) + sum_list (map ws_bag (rg_workspaces g)) +
     sum_list (map (\<lambda>ts. mset (tabs_panes ts)) (rg_orphans g)) + mset (map (\<lambda>(i, l, z). dk_pane l) (rg_planners g))"

definition reading_ok :: "string list \<Rightarrow> reading \<Rightarrow> bool" where
  "reading_ok known g \<longleftrightarrow> distinct (rd_placed (rg_reader g)) \<and> set (rd_placed (rg_reader g)) \<subseteq> set known \<and>
     read_bag g \<subseteq># mset (rd_placed (rg_reader g)) \<and>
     (\<forall>ts \<in> set (map win_tabs (rg_windows g) @ map ws_tabs (rg_workspaces g) @ rg_orphans g). tabs_ok ts)"

text \<open>A step that adds to the reading at most what it takes keeps the reading good.\<close>

lemma reading_ok_step:
  assumes "reading_ok known g" "takes known b (rd_placed (rg_reader g)) (rd_placed (rg_reader g'))" "read_bag g' \<subseteq># read_bag g + b"
    "\<forall>ts \<in> set (map win_tabs (rg_windows g') @ map ws_tabs (rg_workspaces g') @ rg_orphans g'). tabs_ok ts"
  shows "reading_ok known g'"
proof -
  let ?p = "rd_placed (rg_reader g)" and ?p' = "rd_placed (rg_reader g')"
  have "set_mset (mset ?p') = set_mset (mset ?p) \<union> set_mset b" using assms(2) by (simp add: takes_def)
  then have "set ?p' \<subseteq> set known" "distinct ?p'" using assms(1,2) by (auto simp: takes_def reading_ok_def)
  moreover have "read_bag g' \<subseteq># mset ?p'"
    using assms by (auto simp: takes_def reading_ok_def intro: subset_mset.order_trans)
  ultimately show ?thesis using assms(4) by (simp add: reading_ok_def)
qed

lemma tabs_panes_cong: "ts_tabs ts = ts_tabs ts' \<Longrightarrow> tabs_panes ts = tabs_panes ts'" "ts_tabs ts = ts_tabs ts' \<Longrightarrow> tabs_ok ts = tabs_ok ts'"
  by (simp_all add: tabs_panes_def tabs_ok_def)

lemma settle_saved_facts [simp]:
  "tabs_panes (settle_saved item sd ts) = tabs_panes ts" "tabs_ok (settle_saved item sd ts) = tabs_ok ts"
  by (simp_all add: tabs_panes_cong [of "settle_saved item sd ts" ts])

lemma default_tabs_facts [simp]: "tabs_panes default_tabs = []" "tabs_ok default_tabs"
  by (simp_all add: tabs_panes_def tabs_ok_def default_tabs_def)

lemma read_workspace_facts [simp]:
  "ws_bag (read_workspace i item d ts pl) = add_mset (dk_pane d) (mset (tabs_panes ts))" "tabs_ok (ws_tabs (read_workspace i item d ts pl)) = tabs_ok ts"
  by (simp_all add: read_workspace_def ws_bag_def new_ws_def)

lemma ws_bag_left [simp]: "ws_bag (s\<lparr>ws_left_at := v\<rparr>) = ws_bag s"
  by (simp add: ws_bag_def)

lemma read_top_window_ok:
  assumes "reading_ok known g" "read_top_window enc known g item = Inr g'"
  shows "reading_ok known g'"
proof -
  from assms(2) obtain r w d dsk where rw: "read_window enc known item (rg_reader g) = Inr (r, w, d, dsk)"
    by (auto simp: read_top_window_def split: sum.splits)
  note f = read_window_facts [OF rw]
  have "rd_placed (rg_reader g') = rd_placed r \<and> read_bag g' = read_bag g + (window_bag w + dock_bag d) \<and>
      (\<forall>ts \<in> set (map win_tabs (rg_windows g') @ map ws_tabs (rg_workspaces g') @ rg_orphans g'). tabs_ok ts)"
    using assms f(2) rw
    by (cases dsk; cases "win_lead w"; cases d)
       (auto simp: read_top_window_def read_bag_def reading_ok_def window_bag_def Let_def split: if_splits)
  with f(1) assms(1) show ?thesis by (intro reading_ok_step [of known g "window_bag w + dock_bag d" g']) auto
qed

lemma read_parked_ok:
  assumes "reading_ok known g" "read_parked enc known g item = Inr g'"
  shows "reading_ok known g'"
proof -
  from assms(2) obtain i where i: "json_string item ''id'' = Some i" by (auto simp: read_parked_def split: option.splits)
  note e = assms(2) [unfolded read_parked_def i Let_def option.case]
  from e obtain r ts where t: "read_tabs enc known item (rg_reader g) = Inr (r, ts)" by (auto split: sum.splits)
  note e = e [unfolded t sum.case prod.case]
  from e obtain r2 d where sd: "read_side enc known item ''dock'' i ''docks'' r = Inr (r2, d)" by (auto split: sum.splits)
  note e = e [unfolded sd sum.case prod.case]
  have g': "rg_reader g' = r2 \<and> read_bag g' = read_bag g + (mset (tabs_panes ts) + dock_bag d) \<and>
      set (map win_tabs (rg_windows g') @ map ws_tabs (rg_workspaces g') @ rg_orphans g') \<subseteq>
         set (map win_tabs (rg_windows g) @ map ws_tabs (rg_workspaces g) @ rg_orphans g) \<union> {ts'. tabs_ok ts' = tabs_ok ts}"
    using e by (cases d) (auto simp: read_bag_def split: if_split_asm)
  note f = read_tabs_facts [OF t] takes_trans [OF conjunct1 [OF read_tabs_facts [OF t]] read_side_facts [OF sd]]
  show ?thesis
    by (rule reading_ok_step [OF assms(1) _ _, of "mset (tabs_panes ts) + dock_bag d"]) (use g' f assms(1) in \<open>auto simp: reading_ok_def\<close>)
qed

lemma read_ws_window_ok:
  assumes "reading_ok known g" "read_ws_window enc known owner g saved = Inr g'"
  shows "reading_ok known g'"
proof -
  from assms(2) obtain r w d dsk where rw: "read_window enc known saved (rg_reader g) = Inr (r, w, d, dsk)"
    and g': "g' = g\<lparr>rg_reader := r, rg_windows := rg_windows g @ [w\<lparr>win_tabs := settle_saved saved None (win_tabs w), win_lead := None, win_ws := owner\<rparr>]\<rparr>"
    by (auto simp: read_ws_window_def split: sum.splits)
  note f = read_window_facts [OF rw]
  have "read_bag g' \<subseteq># read_bag g + (window_bag w + dock_bag d)"
    by (simp add: g' read_bag_def window_bag_def)
  with f assms(1) show ?thesis
    by (intro reading_ok_step [of known g "window_bag w + dock_bag d" g']) (auto simp: g' reading_ok_def)
qed

lemma read_background_facts:
  "takes known (mset (snd (read_background known item r))) (rd_placed r) (rd_placed (fst (read_background known item r)))"
proof -
  let ?f = "\<lambda>(r, out) i. if i \<in> set known \<and> i \<notin> set (rd_placed r) then (r\<lparr>rd_placed := rd_placed r @ [i]\<rparr>, out @ [i]) else (r, out)"
  have "takes known (mset out) (rd_placed r) (rd_placed s) \<Longrightarrow>
      takes known (mset (snd (foldl ?f (s, out) xs))) (rd_placed r) (rd_placed (fst (foldl ?f (s, out) xs)))" for s :: reader and out xs
  proof (induction xs arbitrary: s out)
    case (Cons i xs)
    have "takes known (mset (out @ [i])) (rd_placed r) (rd_placed s @ [i])" if "i \<in> set known" "i \<notin> set (rd_placed s)"
      using takes_trans [OF Cons.prems takes_one [OF that]] by simp
    with Cons.IH Cons.prems show ?case by (auto simp del: mset_append)
  qed simp
  then show ?thesis by (simp add: read_background_def)
qed

lemma ws_bag_background: "ws_background s = [] \<Longrightarrow> ws_bag (s\<lparr>ws_background := bg\<rparr>) = ws_bag s + mset bg"
  by (simp add: ws_bag_def)

lemma read_workspace_background [simp]: "ws_background (read_workspace i item d ts pl) = []"
  by (simp add: read_workspace_def new_ws_def)

lemma read_ws_ok:
  assumes "reading_ok known g" "read_ws enc known g item = Inr g'"
  shows "reading_ok known g'"
proof -
  from assms(2) obtain i where i: "(case json_string item ''id'' of Some i \<Rightarrow> if i \<noteq> [] then Some i else None | None \<Rightarrow> None) = Some i"
    by (auto simp: read_ws_def split: option.splits)
  define pl where "pl = (case place_read (jget item ''where'') of Some pl \<Rightarrow> pl | None \<Rightarrow> Desk MAC_APP)"
  note e = assms(2) [unfolded read_ws_def i Let_def option.case, folded pl_def]
  from e obtain r ts where t: "read_tabs enc known item (rg_reader g) = Inr (r, ts)" by (auto split: sum.splits)
  note e = e [unfolded t sum.case prod.case]
  from e obtain r2 d where sd: "read_side enc known item ''dock'' i ''docks'' r = Inr (r2, d)" by (auto split: sum.splits)
  note e = e [unfolded sd sum.case prod.case]
  note f = read_tabs_facts [OF t] takes_trans [OF conjunct1 [OF read_tabs_facts [OF t]] read_side_facts [OF sd]]
  note b = takes_trans [OF f(2) read_background_facts [of known item r2]]
  show ?thesis
  proof (cases d)
    case None
    have ok: "reading_ok known (g\<lparr>rg_reader := r2, rg_orphans := rg_orphans g @ [ts]\<rparr>)"
      by (rule reading_ok_step [OF assms(1)]) (use f None assms(1) in \<open>auto simp: read_bag_def reading_ok_def\<close>)
    have w: "try_fold (read_ws_window enc known None) (g\<lparr>rg_reader := r2, rg_orphans := rg_orphans g @ [ts]\<rparr>) (jlist (jget item ''windows'')) = Inr g'"
      using e None by simp
    show ?thesis by (rule try_fold_inv [where P = "reading_ok known", OF w ok]) (rule read_ws_window_ok)
  next
    case (Some d)
    let ?g = "g\<lparr>rg_reader := fst (read_background known item r2), rg_ids := rg_ids g @ [i],
             rg_workspaces := rg_workspaces g @ [(read_workspace i item d ts pl)\<lparr>ws_background := snd (read_background known item r2)\<rparr>]\<rparr>"
    have "read_bag ?g = read_bag g + (mset (tabs_panes ts) + {#dk_pane d#} + mset (snd (read_background known item r2)))"
      by (simp add: read_bag_def ws_bag_background)
    then have ok: "reading_ok known ?g"
      by (intro reading_ok_step [OF assms(1)]) (use b f Some assms(1) in \<open>auto simp: reading_ok_def\<close>)
    have w: "try_fold (read_ws_window enc known (Some i)) ?g (jlist (jget item ''windows'')) = Inr g'"
      using e Some by (simp add: split_beta split: if_split_asm)
    show ?thesis by (rule try_fold_inv [where P = "reading_ok known", OF w ok]) (rule read_ws_window_ok)
  qed
qed

lemma number_workspaces_facts:
  assumes "number_workspaces n wins wss = (n', wins', wss')"
  shows "map window_bag wins' = map window_bag wins" "map ws_bag wss' = map ws_bag wss"
    "map win_tabs wins' = map win_tabs wins" "map ws_tabs wss' = map ws_tabs wss"
proof -
  have "map window_bag wins' = map window_bag wins \<and> map ws_bag wss' = map ws_bag wss \<and>
      map win_tabs wins' = map win_tabs wins \<and> map ws_tabs wss' = map ws_tabs wss"
    using assms
  proof (induction n wins wss arbitrary: n' wins' wss' rule: number_workspaces.induct)
    case (2 n wins ws rest)
    let ?wins = "map (\<lambda>w. if win_ws w = Some (ws_id ws) then w\<lparr>win_ws := Some (''ws-'' @ dec (n + 1))\<rparr> else w) wins"
    have eq: "map window_bag ?wins = map window_bag wins" "map win_tabs ?wins = map win_tabs wins" by simp_all
    have bag: "ws_bag (ws\<lparr>ws_id := i\<rparr>) = ws_bag ws" for i by (simp add: ws_bag_def)
    show ?case
    proof (cases "number_in (ws_id ws) ''ws-'' = None")
      case True
      from 2(3) obtain d where d: "number_workspaces (n + 1) ?wins rest = (n', wins', d)" "wss' = ws\<lparr>ws_id := ''ws-'' @ dec (n + 1)\<rparr> # d"
        unfolding number_workspaces.simps(2) Let_def if_P [OF True] by (auto split: prod.split_asm)
      from 2(1) [OF True refl refl refl d(1)] d(2) eq bag show ?thesis by simp
    next
      case False
      with 2(3) obtain d where d: "number_workspaces n wins rest = (n', wins', d)" "wss' = ws # d" by (auto simp: Let_def split: prod.splits)
      from 2(2) [OF False d(1)] d(2) show ?thesis by simp
    qed
  qed simp
  then show "map window_bag wins' = map window_bag wins" "map ws_bag wss' = map ws_bag wss"
    "map win_tabs wins' = map win_tabs wins" "map ws_tabs wss' = map ws_tabs wss" by auto
qed

definition restored_bag :: "restored \<Rightarrow> string multiset" where
  "restored_bag r = sum_list (map window_bag (re_windows r)) + sum_list (map ws_bag (re_workspaces r)) +
     sum_list (map (\<lambda>ts. mset (tabs_panes ts)) (re_orphans r))"

lemma planner_bag: "sum_list (map ws_bag (map planner_ws ps)) = mset (map (\<lambda>(i, l, z). dk_pane l) ps)" "tabs_ok (ws_tabs (planner_ws p))"
proof -
  have "tabs_panes (default_tabs\<lparr>ts_zoom := z, ts_focused := f\<rparr>) = []" "tabs_ok (default_tabs\<lparr>ts_zoom := z, ts_focused := f\<rparr>)" for z f
    by (simp_all add: tabs_panes_def tabs_ok_def default_tabs_def)
  then show "sum_list (map ws_bag (map planner_ws ps)) = mset (map (\<lambda>(i, l, z). dk_pane l) ps)" "tabs_ok (ws_tabs (planner_ws p))"
    by (induction ps) (auto simp: planner_ws_def Let_def ws_bag_def new_ws_def split: prod.splits)
qed

lemma finish_reading_facts:
  assumes "reading_ok known g" "finish_reading g = (taken, r)"
  shows "taken = rd_placed (rg_reader g)" "restored_bag r = read_bag g"
    "\<forall>ts \<in> set (map win_tabs (re_windows r) @ map ws_tabs (re_workspaces r) @ re_orphans r). tabs_ok ts"
proof -
  define wss where "wss = rg_workspaces g @ map planner_ws (rg_planners g)"
  define wins where "wins = map (\<lambda>w. case win_ws w of Some i \<Rightarrow> if i \<in> set (map ws_id wss) then w else w\<lparr>win_ws := None\<rparr> | None \<Rightarrow> w) (rg_windows g)"
  define n where "n = foldl max (rd_ws (rg_reader g)) (List.map_filter (\<lambda>s. number_in (ws_id s) ''ws-'') wss)"
  obtain n' wins' wss' where num: "number_workspaces n wins wss = (n', wins', wss')" by (cases "number_workspaces n wins wss")
  from assms(2) have r: "taken = rd_placed (rg_reader g)" "re_windows r = filter (\<lambda>w. ts_tabs (win_tabs w) \<noteq> [] \<or> win_lead w \<noteq> None) wins'"
    "re_workspaces r = wss'" "re_orphans r = rg_orphans g"
    unfolding finish_reading_def Let_def wss_def [symmetric] wins_def [symmetric] n_def [symmetric] num by auto
  note f = number_workspaces_facts [OF num]
  have wins: "map window_bag wins = map window_bag (rg_windows g)" "map win_tabs wins = map win_tabs (rg_windows g)"
    by (auto simp: wins_def split: option.splits)
  show "taken = rd_placed (rg_reader g)" by (fact r)
  have "sum_list (map window_bag (re_windows r)) = sum_list (map window_bag (rg_windows g))"
    unfolding r by (subst sum_list_filter_empty) (simp_all add: empty_window_bag f wins)
  then show "restored_bag r = read_bag g"
    by (simp only: restored_bag_def read_bag_def r f wss_def map_append sum_list_append planner_bag ac_simps)
  have "set (map win_tabs (re_windows r)) \<subseteq> set (map win_tabs wins')" by (auto simp: r)
  then have "\<forall>ts \<in> set (map win_tabs (re_windows r)). tabs_ok ts" using assms(1) f(3) wins(2) by (auto simp: reading_ok_def)
  moreover have "\<forall>ts \<in> set (map ws_tabs (re_workspaces r)). tabs_ok ts"
    unfolding r f(4) wss_def using assms(1) by (auto simp: reading_ok_def planner_bag(2))
  ultimately show "\<forall>ts \<in> set (map win_tabs (re_windows r) @ map ws_tabs (re_workspaces r) @ re_orphans r). tabs_ok ts"
    using assms(1) by (auto simp: r(4) reading_ok_def)
qed

lemma read_layout_facts:
  assumes "read_layout enc state known = Inr (taken, r)"
  shows "distinct taken" "set taken \<subseteq> set known" "restored_bag r \<subseteq># mset taken"
    "\<forall>ts \<in> set (map win_tabs (re_windows r) @ map ws_tabs (re_workspaces r) @ re_orphans r). tabs_ok ts"
proof -
  let ?g0 = "start_reading (renamed None state)"
  from assms obtain g1 g2 g3 ws ps ss where t: "try_fold (read_top_window enc known) ?g0 ws = Inr g1"
      "try_fold (read_parked enc known) g1 ps = Inr g2" "try_fold (read_ws enc known) g2 ss = Inr g3" "finish_reading g3 = (taken, r)"
    by (auto simp: read_layout_def Let_def split: option.split_asm sum.split_asm)
  have "reading_ok known ?g0" by (simp add: start_reading_def Let_def reading_ok_def read_bag_def)
  then have "reading_ok known g1" by (rule try_fold_inv [OF t(1)]) (rule read_top_window_ok)
  then have "reading_ok known g2" by (rule try_fold_inv [OF t(2)]) (rule read_parked_ok)
  then have g3: "reading_ok known g3" by (rule try_fold_inv [OF t(3)]) (rule read_ws_ok)
  note f = finish_reading_facts [OF g3 t(4)]
  show "distinct taken" "set taken \<subseteq> set known" "restored_bag r \<subseteq># mset taken" using g3 f by (auto simp: reading_ok_def)
  show "\<forall>ts \<in> set (map win_tabs (re_windows r) @ map ws_tabs (re_workspaces r) @ re_orphans r). tabs_ok ts" by (fact f)
qed

lemma install_facts:
  assumes "\<forall>ts \<in> set (map win_tabs (re_windows r) @ map ws_tabs (re_workspaces r) @ re_orphans r). tabs_ok ts"
  shows "pane_bag (install r m) = restored_bag r + sum_list (map (\<lambda>ts. mset (tabs_panes ts)) (m_orphans m))"
    "trees_ok m \<Longrightarrow> trees_ok (install r m)" "layout_settled (install r m)"
proof -
  show "pane_bag (install r m) = restored_bag r + sum_list (map (\<lambda>ts. mset (tabs_panes ts)) (m_orphans m))"
    unfolding install_def drop_empty_bag by (simp add: pane_bag_def restored_bag_def ac_simps)
  show "trees_ok (install r m)" if "trees_ok m"
    unfolding install_def by (rule drop_empty_trees) (use assms that in \<open>auto simp: trees_ok_def all_tabs_def\<close>)
  show "layout_settled (install r m)" by (simp add: install_def drop_empty_settled)
qed

end
