(* ===== verification/Mux_Round.thy ===== *)
theory Mux_Round
  imports Mux_Restore
begin

text \<open>
  Round trips: the tabs of a window or workspace, written by \<open>put_tabs\<close> and read by \<open>read_tabs\<close> and
  \<open>settle_saved\<close>, come back as they were.
\<close>

subsection \<open>Trees\<close>

abbreviation kid_json :: "node \<times> rat \<Rightarrow> json" where
  "kid_json \<equiv> \<lambda>(n, s). JObject (oinsert ''size'' (num s) (export_node n))"

lemma sum_list_elem_le: "(\<forall>x \<in> set xs. 0 < (x :: rat)) \<Longrightarrow> x \<in> set xs \<Longrightarrow> x \<le> sum_list xs"
  by (induction xs) (auto intro: sum_list_nonneg add_increasing2 add_increasing less_imp_le)

lemma saved_sizes_kids: "kids_ok m ks \<Longrightarrow> saved_sizes (map kid_json ks) = map snd ks"
proof -
  assume ok: "kids_ok m ks"
  have "map (\<lambda>c. case Option.bind (jget c ''size'') as_f64 of Some s \<Rightarrow> if 0 < s \<and> s \<le> 1 then s else 1 / of_nat (length (map kid_json ks))
      | None \<Rightarrow> 1 / of_nat (length (map kid_json ks))) (map kid_json ks) = map snd ks"
  proof -
    have "0 < snd k \<and> snd k \<le> 1" if "k \<in> set ks" for k
      using ok that sum_list_elem_le [of "map snd ks" "snd k"] by (auto simp: kids_ok_def)
    then show ?thesis by (fastforce simp: as_f64_num)
  qed
  then show ?thesis using ok unfolding saved_sizes_def Let_def by (simp only: kids_ok_def div_by_1 list.map_ident)
qed

lemma axis_round [simp]: "axis_parse (axis_str a) = Some a"
  by (cases a) (simp_all add: axis_parse_def)

lemma kid_ids_Cons: "kid_ids (k # ks) = pane_ids (fst k) @ kid_ids ks"
  by (cases k) simp

lemma read_kids_export:
  assumes "\<And>k taken fs. k \<in> set ks \<Longrightarrow> distinct (taken @ pane_ids (fst k)) \<Longrightarrow>
      read_node enc known (kid_json k) taken = Inr (fst k, taken @ pane_ids (fst k))"
    "distinct (taken @ kid_ids ks)"
  shows "read_kids enc known (map kid_json ks) taken = Inr (map fst ks, taken @ kid_ids ks)"
  using assms
proof (induction ks arbitrary: taken)
  case (Cons k ks)
  have "read_node enc known (kid_json k) taken = Inr (fst k, taken @ pane_ids (fst k))" using Cons.prems(2) by (intro Cons.prems(1)) (auto simp: kid_ids_Cons)
  moreover have "read_kids enc known (map kid_json ks) (taken @ pane_ids (fst k)) = Inr (map fst ks, (taken @ pane_ids (fst k)) @ kid_ids ks)"
    by (rule Cons.IH) (use Cons.prems in \<open>auto simp: kid_ids_Cons simp del: split_paired_All intro!: Cons.prems(1)\<close>)
  ultimately show ?case by (cases k) simp
qed simp

lemma read_node_export:
  assumes "tree_ok n" "distinct (taken @ pane_ids n)" "set (pane_ids n) \<subseteq> set known"
    "\<forall>k \<in> {''pane'', ''split'', ''children''}. map_of fs k = map_of (export_node n) k"
  shows "read_node enc known (JObject fs) taken = Inr (n, taken @ pane_ids n)"
  using assms
proof (induction n arbitrary: taken fs)
  case (Pane p)
  then show ?case by (simp add: read_node.simps Let_def)
next
  case (Split a ks)
  then have ks: "kids_ok 2 ks" by simp
  have kid: "read_node enc known (kid_json k) taken = Inr (fst k, taken @ pane_ids (fst k))"
    if "k \<in> set ks" "distinct (taken @ pane_ids (fst k))" for k taken
  proof -
    obtain n s where k: "k = (n, s)" by force
    have "set (pane_ids n) \<subseteq> set (kid_ids ks)" using that(1) by (induction ks) (auto simp: k)
    with Split.prems(3) have "set (pane_ids n) \<subseteq> set known" by auto
    moreover have "tree_ok n" using ks that(1) by (auto simp: kids_ok_def k)
    ultimately show ?thesis using Split.IH [OF that(1) [unfolded k], of taken "oinsert ''size'' (num s) (export_node n)"] that by (simp add: k)
  qed
  have "read_kids enc known (map kid_json ks) taken = Inr (map fst ks, taken @ kid_ids ks)"
    by (rule read_kids_export) (use kid Split.prems(2) in auto)
  moreover have "children_of (JObject fs) = Some (map kid_json ks)"
    using Split.prems(4) ks by (cases ks) (auto simp: children_of_def kids_ok_def)
  moreover have "zip (map fst ks) (map snd ks) = ks" by (simp add: zip_map_fst_snd)
  ultimately show ?case
    using Split.prems(4) by (simp add: read_node.simps Let_def json_string_def saved_sizes_kids [OF ks])
qed

subsection \<open>Tabs\<close>

lemma number_in_dec: "0 < k \<Longrightarrow> k < 10 ^ 9 \<Longrightarrow> number_in (prefix @ dec k) prefix = Some k"
proof -
  assume k: "0 < k" "k < 10 ^ 9"
  then have "parse_usize (dec k) = Some k" by (intro parse_unsigned_dec) (simp add: less_trans [of k "10 ^ 9"])
  with k show ?thesis by (simp add: number_in_def)
qed

lemma whole_num_nat: "k < 10 ^ 9 \<Longrightarrow> whole (Some (num_nat k)) = Some k"
proof -
  assume k: "k < 10 ^ 9"
  have "round_away (of_nat k) = int k" unfolding round_away_def by simp linarith
  moreover have "(of_nat k :: rat) < 10 ^ 9" using k by (metis of_nat_less_iff of_nat_numeral of_nat_power)
  ultimately show ?thesis by (simp add: whole_def num_nat_def as_f64_num)
qed

definition tab_saved :: "tab \<Rightarrow> bool" where
  "tab_saved t \<longleftrightarrow> (\<exists>k. 0 < k \<and> k < 10 ^ 9 \<and> tab_id t = ''tab-'' @ dec k) \<and> 0 < tab_number t \<and> tab_number t < 10 ^ 9 \<and>
     json_trim (tab_title t) = tab_title t \<and> tab_title t \<noteq> [] \<and> tab_root t \<noteq> None \<and> root_ok (tab_root t) \<and>
     keep_in (tab_panes t) (tab_namer t) = tab_namer t \<and> keep_in (tab_panes t) (last_focus t) = last_focus t"

lemma opt_json_string: "Option.bind (Some (opt_json v)) as_str = v"
  by (cases v) simp_all

lemma read_tab_export:
  assumes "tab_saved t" "distinct (rd_placed r @ tab_panes t)" "set (tab_panes t) \<subseteq> set known" "tab_id t \<notin> set (rd_tab_ids r)"
  shows "\<exists>r'. read_tab enc known (r, out) (tab_json t) = Inr (r', out @ [t]) \<and> rd_placed r' = rd_placed r @ tab_panes t \<and>
    rd_tab_ids r' = rd_tab_ids r @ [tab_id t]"
proof -
  from assms(1) obtain k n where k: "0 < k" "k < 10 ^ 9" "tab_id t = ''tab-'' @ dec k" and n: "tab_root t = Some n" "tree_ok n"
    by (auto simp: tab_saved_def root_ok_def)
  have get: "jget (tab_json t) ''id'' = Some (JString (tab_id t))" "jget (tab_json t) ''title'' = Some (JString (tab_title t))"
    "jget (tab_json t) ''lastFocus'' = Some (opt_json (last_focus t))" "jget (tab_json t) ''layout'' = Some (JObject (export_node n))"
    "jget (tab_json t) ''number'' = Some (num_nat (tab_number t))" "jget (tab_json t) ''namer'' = map_option JString (tab_namer t)"
    "jget (tab_json t) ''renamed'' = (if tab_renamed t then Some (JBool True) else None)"
    by (cases "tab_namer t"; simp add: tab_json_def Let_def n)+
  have str: "json_string (tab_json t) ''id'' = Some (tab_id t)" "json_string (tab_json t) ''title'' = Some (tab_title t)"
    "json_string (tab_json t) ''lastFocus'' = last_focus t" "json_string (tab_json t) ''namer'' = tab_namer t"
    by (cases "last_focus t"; cases "tab_namer t"; simp add: json_string_def get)+
  have "read_node enc known (JObject (export_node n)) (rd_placed r) = Inr (n, rd_placed r @ pane_ids n)"
    by (rule read_node_export) (use assms(2,3) n in \<open>simp_all add: tab_panes_def\<close>)
  then have root: "read_root enc known (tab_json t) (rd_placed r) = Inr (Some n, rd_placed r @ tab_panes t)"
    by (simp add: read_root_def get n tab_panes_def normalize_id)
  have "read_number (tab_json t) (tab_title t) c = tab_number t" for c
    using assms(1) by (simp add: read_number_def get whole_num_nat tab_saved_def)
  then have "saved_tab (tab_json t) (tab_id t) (Some n) c = t" for c
    using assms(1) n by (intro tab.equality) (simp_all add: saved_tab_def str get tab_saved_def new_tab_def tab_panes_def Let_def or_empty_def)
  moreover have "number_in (tab_id t) ''tab-'' = Some k" unfolding k(3) by (rule number_in_dec [OF k(1,2)])
  ultimately show ?thesis using str assms(4) root by (simp add: read_tab_def)
qed

definition tabs_saved :: "string option \<Rightarrow> tabs \<Rightarrow> bool" where
  "tabs_saved sd ts \<longleftrightarrow> (\<forall>t \<in> set (ts_tabs ts). tab_saved t) \<and> distinct (tab_ids ts) \<and> distinct (tabs_panes ts) \<and> active_ok ts \<and>
     settled sd ts \<and> length (ts_tabs ts) \<le> ts_count ts \<and> ts_count ts < 10 ^ 9 \<and> set (ts_recent ts) \<subseteq> set (tabs_panes ts) \<and>
     (ts_zoom ts \<longrightarrow> ts_focused ts \<noteq> None)"

lemma read_tab_list_export:
  assumes "\<forall>t \<in> set tbs. tab_saved t" "distinct (rd_placed r @ concat (map tab_panes tbs))" "set (concat (map tab_panes tbs)) \<subseteq> set known"
    "distinct (rd_tab_ids r @ map tab_id tbs)"
  shows "\<exists>r'. try_fold (read_tab enc known) (r, out) (map tab_json tbs) = Inr (r', out @ tbs) \<and> rd_placed r' = rd_placed r @ concat (map tab_panes tbs)"
  using assms
proof (induction tbs arbitrary: r out)
  case (Cons t tbs)
  obtain r1 where r1: "read_tab enc known (r, out) (tab_json t) = Inr (r1, out @ [t])" "rd_placed r1 = rd_placed r @ tab_panes t"
    "rd_tab_ids r1 = rd_tab_ids r @ [tab_id t]"
  proof -
    have "distinct (rd_placed r @ tab_panes t)" "tab_id t \<notin> set (rd_tab_ids r)" using Cons.prems(2,4) by auto
    with read_tab_export [of t r known enc out] Cons.prems(1,3) that show thesis by auto
  qed
  have "\<exists>r'. try_fold (read_tab enc known) (r1, out @ [t]) (map tab_json tbs) = Inr (r', (out @ [t]) @ tbs) \<and>
      rd_placed r' = rd_placed r1 @ concat (map tab_panes tbs)"
    by (rule Cons.IH) (use Cons.prems r1 in auto)
  with r1 show ?case by simp
qed simp

lemma filter_all_true: "\<forall>x \<in> set xs. P x \<Longrightarrow> filter P xs = xs"
  by (induction xs) auto

lemma map_filter_strings: "List.map_filter as_str (map JString xs) = xs"
  by (induction xs) (simp_all add: List.map_filter_simps)

lemma read_tabs_export:
  assumes "tabs_saved sd ts" "set (tabs_panes ts) \<subseteq> set known" "distinct (rd_placed r @ tabs_panes ts)" "distinct (rd_tab_ids r @ tab_ids ts)"
    "map_of rest ''recent'' = None"
  shows "\<exists>r'. read_tabs enc known (JObject (put_tabs ts rest)) r = Inr (r', ts\<lparr>ts_focused := None, ts_zoom := False\<rparr>) \<and>
    rd_placed r' = rd_placed r @ tabs_panes ts"
proof -
  define v where "v = JObject (put_tabs ts rest)"
  have get: "jget v ''tabs'' = Some (JArray (map tab_json (ts_tabs ts)))" "jget v ''active'' = Some (opt_json (ts_active ts))"
    "jget v ''tabCount'' = Some (num_nat (ts_count ts))" "jlist (jget v ''recent'') = map JString (ts_recent ts)"
    using assms(5) by (auto simp: v_def put_tabs_def Let_def jlist_def)
  have act: "json_string v ''active'' = ts_active ts" using get by (cases "ts_active ts") (simp_all add: json_string_def)
  obtain r' where r': "try_fold (read_tab enc known) (r, []) (map tab_json (ts_tabs ts)) = Inr (r', ts_tabs ts)" "rd_placed r' = rd_placed r @ tabs_panes ts"
    using read_tab_list_export [of "ts_tabs ts" r known enc "[]"] assms by (auto simp: tabs_saved_def tabs_panes_def tab_ids_def)
  have kept: "filter (\<lambda>t. tab_root t \<noteq> None) (ts_tabs ts) = ts_tabs ts"
    using assms(1) by (intro filter_all_true) (auto simp: tabs_saved_def tab_saved_def)
  have same: "(if \<exists>t \<in> set (ts_tabs ts). Some (tab_id t) = ts_active ts then ts_active ts else map_option tab_id (first_opt (ts_tabs ts))) = ts_active ts"
    using assms(1) by (auto simp: tabs_saved_def active_ok_def tab_ids_def split: option.splits)
  have rec: "filter (\<lambda>i. i \<in> set (tabs_panes ts)) (ts_recent ts) = ts_recent ts"
    using assms(1) by (intro filter_all_true) (auto simp: tabs_saved_def)
  have panes: "tabs_panes (default_tabs\<lparr>ts_tabs := ts_tabs ts, ts_active := a, ts_count := c\<rparr>) = tabs_panes ts" for a c
    by (simp add: tabs_panes_def)
  have cnt: "max (ts_count ts) (length (ts_tabs ts)) = ts_count ts" "whole (Some (num_nat (ts_count ts))) = Some (ts_count ts)"
    using assms(1) by (simp_all add: tabs_saved_def whole_num_nat)
  have "read_tabs enc known v r = Inr (r', default_tabs\<lparr>ts_tabs := ts_tabs ts, ts_active := ts_active ts, ts_count := ts_count ts, ts_recent := ts_recent ts\<rparr>)"
    unfolding read_tabs_def get act Option.bind.bind_lunit as_array.simps option.case r'(1) sum.case prod.case Let_def kept same panes map_filter_strings rec cnt ..
  moreover have "default_tabs\<lparr>ts_tabs := ts_tabs ts, ts_active := ts_active ts, ts_count := ts_count ts, ts_recent := ts_recent ts\<rparr> =
      ts\<lparr>ts_focused := None, ts_zoom := False\<rparr>" by (cases ts) (simp add: default_tabs_def)
  ultimately show ?thesis using r'(2) by (simp add: v_def)
qed

lemma settle_saved_export:
  assumes "tabs_saved sd ts" shows "settle_saved (JObject (put_tabs ts rest)) sd (ts\<lparr>ts_focused := None, ts_zoom := False\<rparr>) = ts"
proof -
  let ?v = "JObject (put_tabs ts rest)" and ?ts = "ts\<lparr>ts_focused := None, ts_zoom := False\<rparr>"
  have foc: "json_string ?v ''focused'' = ts_focused ts" "json_string ?v ''zoomed'' = zoomed ts"
    by (cases "ts_focused ts"; simp add: put_tabs_def json_string_def Let_def zoomed_def)+
  have sh: "shown ?ts = shown ts" by (rule shown_cong) simp_all
  show ?thesis
  proof (cases "ts_focused ts")
    case None
    with assms have "shown ts = []" "sd = None" "\<not> ts_zoom ts" by (auto simp: tabs_saved_def settled_def)
    moreover have "Option.bind (active_tab ts) last_focus = None"
    proof (cases "active_tab ts")
      case (Some t)
      then have "t \<in> set (ts_tabs ts)" by (auto simp: active_tab_def dest: active_index_bound)
      with assms have "keep_in (tab_panes t) (last_focus t) = last_focus t" by (auto simp: tabs_saved_def tab_saved_def)
      moreover have "tab_panes t = []" using \<open>shown ts = []\<close> Some by (simp add: shown_def tab_panes_def)
      ultimately show ?thesis using Some by (auto simp: keep_in_def split: option.splits)
    qed simp
    moreover have "active_tab ?ts = active_tab ts" by (simp add: active_tab_def active_index_cong [of ?ts ts])
    ultimately have "settle_saved ?v sd ?ts = ?ts"
      unfolding settle_saved_def Let_def foc sh zoomed_def None by (simp add: keep_in_def)
    with None \<open>\<not> ts_zoom ts\<close> show ?thesis by (simp add: tabs.equality)
  next
    case (Some f)
    with assms have "f \<in> set ((case sd of Some p \<Rightarrow> [p] | None \<Rightarrow> []) @ shown ts)"
      by (auto simp: tabs_saved_def settled_def split: option.splits)
    then have "keep_in ((case sd of Some p \<Rightarrow> [p] | None \<Rightarrow> []) @ shown ts) (Some f) = Some f"
      "keep_in ((case sd of Some p \<Rightarrow> [p] | None \<Rightarrow> []) @ shown ts) None = None" by (simp_all add: keep_in_def)
    then show ?thesis
      unfolding settle_saved_def Let_def foc sh zoomed_def Some
      by (cases "ts_zoom ts") (simp_all add: Some tabs.equality)
  qed
qed

subsection \<open>Properties\<close>


definition demo_saved :: json where
  "demo_saved = JObject [(''windows'', JArray []), (''workspaces'', JArray [JObject [(''id'', JString ''ws-1''), (''where'', JString ''shelf''),
     (''dock'', JObject [(''pane'', JString ''term-1'')]), (''tabs'', JArray []), (''background'', JArray [JString ''term-2'', JString ''term-1''])]])]"

lemma demo_saved_reads: "\<exists>saved. read_layout enc demo_saved [''term-1'', ''term-2''] = Inr ([''term-1'', ''term-2''], saved)"
proof -
  have "''ws-1'' = ''ws-'' @ dec 1" by code_simp
  then have "number_in ''ws-1'' ''ws-'' = Some 1" using number_in_dec [of 1 "''ws-''"] by simp
  moreover have "number_in ''ws-1'' ''t'' = None" "number_in ''ws-1'' ''w'' = None"
    by (simp_all add: number_in_def strip_prefix_def starts_with_def parse_unsigned_def is_digit_def)
  ultimately show ?thesis
    by (simp add: whole_def demo_saved_def read_layout_def jlist_def read_ws_def json_string_def start_reading_def read_tabs_def read_side_def Let_def
        read_background_def List.map_filter_simps finish_reading_def read_workspace_def new_ws_def)
qed




end
