(* ===== verification/Mux_Serve.thy ===== *)
theory Mux_Serve
  imports Mux_Round
begin

text \<open>
  The layout as a whole: every command and every request of \<open>serve\<close> keeps the layout's invariant, so
  it holds of every layout the daemon can reach from an empty one. Closing a task takes out exactly
  the panes it lists.
\<close>

subsection \<open>Closing a task\<close>

definition unled :: "string \<Rightarrow> model \<Rightarrow> bool" where
  "unled i m \<longleftrightarrow> (\<forall>w \<in> set (m_windows m). win_ws w = Some i \<longrightarrow> win_lead w = None)"

lemma sum_list_partition:
  fixes f :: "'a \<Rightarrow> 'b :: comm_monoid_add"
  shows "sum_list (map f xs) = sum_list (map f (filter P xs)) + sum_list (map f (filter (\<lambda>x. \<not> P x) xs))"
  by (induction xs) (auto simp: ac_simps)

lemma close_task_bag:
  assumes "or_else (dock_ws m task) (ws_index m task) = Some s"
  defines "ws \<equiv> m_workspaces m ! s"
  shows "pane_bag m = ws_bag ws + sum_list (map window_bag (filter (\<lambda>w. win_ws w = Some (ws_id ws)) (m_windows m))) + pane_bag (close_task task m)"
proof -
  have "s < length (m_workspaces m)" using assms(1) by (auto split: option.splits dest: lookup_bounds)
  then have "sum_list (map ws_bag (remove_at s (m_workspaces m))) + ws_bag ws = sum_list (map ws_bag (m_workspaces m))"
    unfolding ws_def by (rule sum_list_remove_at_add)
  moreover have "sum_list (map window_bag (m_windows m)) = sum_list (map window_bag (filter (\<lambda>w. win_ws w = Some (ws_id ws)) (m_windows m))) +
      sum_list (map window_bag (filter (\<lambda>w. win_ws w \<noteq> Some (ws_id ws)) (m_windows m)))"
    by (rule sum_list_partition)
  ultimately show ?thesis using assms(1) unfolding close_task_def pane_bag_def ws_def Let_def by (simp add: ac_simps)
qed

lemma close_task_ok: "layout_ok m \<Longrightarrow> layout_ok (close_task task m)"
proof (cases "or_else (dock_ws m task) (ws_index m task)")
  case (Some s)
  assume ok: "layout_ok m"
  have "pane_bag (close_task task m) \<subseteq># pane_bag m" using close_task_bag [OF Some] by simp
  with ok have "once (pane_bag (close_task task m))" by (auto simp: layout_ok_iff intro: once_subset)
  moreover have "trees_ok (close_task task m)"
    using ok Some set_remove_at_subset [of s "m_workspaces m"] by (auto simp: close_task_def Let_def layout_ok_iff trees_ok_def all_tabs_def)
  ultimately show ?thesis by (simp add: layout_ok_iff)
qed (simp add: close_task_def)

lemma mset_rotate_right1: "mset (rotate_right1 xs) = mset xs"
proof (cases xs rule: rev_exhaust)
  case (snoc ys y)
  then show ?thesis by (simp add: rotate_right1_def)
qed (simp add: rotate_right1_def)

subsection \<open>Commands\<close>

lemma command_ok:
  assumes "layout_ok m" "command env cmd args ps m = (m', r)" shows "layout_ok m'"
proof -
  have t: "trees_ok m" using assms(1) by (simp add: layout_ok_iff)
  have k: "keeps m m' \<Longrightarrow> layout_ok m'" using assms(1) by (rule keeps_ok [rotated])
  have "keeps m m' \<or> move_pane_cmd args ps m = (m', r) \<or> arrange_cmd args ps m = (m', r)"
    using assms(2) unfolding command_def
    by (auto split: if_split_asm intro: focus_cmd_keeps zoom_cmd_keeps rename_tab_cmd_keeps move_tab_cmd_keeps resize_cmd_keeps [OF t]
        task_cmd_keeps window_command_keeps set_desks_keeps)
  with k move_pane_facts [OF assms(1)] arrange_cmd_facts(1) [OF assms(1)] show ?thesis by blast
qed

lemma command_bag:
  assumes "layout_ok m" "command env cmd args ps m = (m', r)" "cmd \<notin> {''move'', ''arrange''}" shows "pane_bag m' = pane_bag m"
proof -
  have t: "trees_ok m" using assms(1) by (simp add: layout_ok_iff)
  have "keeps m m'"
    using assms(2,3) unfolding command_def
    by (auto split: if_split_asm intro: focus_cmd_keeps zoom_cmd_keeps rename_tab_cmd_keeps move_tab_cmd_keeps resize_cmd_keeps [OF t]
        task_cmd_keeps window_command_keeps set_desks_keeps)
  then show ?thesis by (simp add: keeps_def)
qed

subsection \<open>Requests\<close>

lemma read_placement_size: "read_placement v = Inr pl \<Longrightarrow> 0 < at_size pl \<and> at_size pl < 1"
  by (auto simp: read_placement_def read_size_def split: sum.splits option.splits if_splits)

lemma keeps_map_tabs:
  assumes "\<And>ts. map tab_root (ts_tabs (f ts)) = map tab_root (ts_tabs ts)"
  shows "keeps m (m\<lparr>m_windows := map (\<lambda>w. w\<lparr>win_tabs := f (win_tabs w)\<rparr>) (m_windows m),
    m_workspaces := map (\<lambda>s. s\<lparr>ws_tabs := f (ws_tabs s)\<rparr>) (m_workspaces m)\<rparr>)"
proof -
  have "tabs_panes (f ts) = tabs_panes ts" "tabs_ok (f ts) = tabs_ok ts" for ts
    unfolding tabs_panes_roots tabs_ok_roots assms by simp_all
  then show ?thesis
    by (auto simp: keeps_def pane_bag_def window_bag_def [abs_def] ws_bag_def [abs_def] trees_ok_def all_tabs_def comp_def)
qed

lemma retitle_keeps: "keeps m (fst (retitle ps m))"
proof -
  have "tab_root (fst (tab_retitle ps t)) = tab_root t" for t
    by (auto simp: tab_retitle_def Let_def split: option.splits)
  then show ?thesis unfolding retitle_def fst_conv by (intro keeps_map_tabs) (simp add: retitle_tabs_def comp_def)
qed

lemma remember_keeps: "keeps m (remember m)"
  unfolding remember_def by (rule keeps_map_tabs) simp

text \<open>A place request names a pane the layout does not have; a saved layout is installed with no orphans waiting.\<close>

definition request_ok :: "json \<Rightarrow> model \<Rightarrow> bool" where
  "request_ok request m \<longleftrightarrow>
     (json_string request ''op'' = Some ''place'' \<longrightarrow>
        (case Option.bind (jget request ''pane'') (\<lambda>v. json_string v ''id'') of Some p \<Rightarrow> p \<notin># pane_bag m | None \<Rightarrow> True)) \<and>
     (json_string request ''op'' = Some ''install'' \<longrightarrow> m_orphans m = [])"

lemma step_place_ok:
  assumes "layout_ok m" "step_place env request ps m = (m', r)"
    "case Option.bind (jget request ''pane'') (\<lambda>v. json_string v ''id'') of Some p \<Rightarrow> p \<notin># pane_bag m | None \<Rightarrow> True"
  shows "layout_ok m'"
proof (cases "Option.bind (jget request ''pane'') (\<lambda>v. json_string v ''id'')")
  case (Some p)
  show ?thesis
  proof (cases "read_placement (case jget request ''at'' of Some v \<Rightarrow> v | None \<Rightarrow> Null)")
    case (Inr pl)
    obtain m1 r1 where pp: "place_pane (env_now env) p pl ps m = (m1, r1)" by force
    have "m' = m1" using assms(2) Some Inr pp by (cases r1) (simp_all add: step_place_def)
    moreover have "layout_ok m1"
    proof (cases r1)
      case (Inl e)
      with host.place_refused [of "(env_now env, pl, ps)" m p m1 e] read_placement_size [OF Inr] pp assms(1) show ?thesis by simp
    next
      case w: (Inr w)
      with host.place_done [of "(env_now env, pl, ps)" m p m1 w] read_placement_size [OF Inr] pp assms(1,3) Some show ?thesis by simp
    qed
    ultimately show ?thesis by simp
  qed (use assms Some in \<open>simp add: step_place_def\<close>)
qed (use assms in \<open>simp add: step_place_def\<close>)

lemma step_remove_ok: "layout_ok m \<Longrightarrow> step_remove request m = (m', r) \<Longrightarrow> layout_ok m'"
proof -
  assume ok: "layout_ok m" and st: "step_remove request m = (m', r)"
  define m1 where "m1 = (case json_string request ''task'' of Some task \<Rightarrow> close_task task m | None \<Rightarrow> m)"
  have "layout_ok m1" using ok close_task_ok by (simp add: m1_def split: option.splits)
  with st host.out_all host.tidy_good show "layout_ok m'"
    unfolding step_remove_def Let_def m1_def [symmetric] by (auto split: sum.splits if_splits)
qed

lemma step_saved_ok:
  assumes "layout_ok m" "step_saved env inst request m = (m', r)" "inst \<longrightarrow> m_orphans m = []"
  shows "layout_ok m'"
proof -
  have "m' = m \<or> inst \<and> (\<exists>known taken saved. read_layout (env_encode env) (case jget request ''state'' of Some v \<Rightarrow> v | None \<Rightarrow> Null) known = Inr (taken, saved) \<and> m' = install saved m)"
  proof (cases "read_ids (jget request ''ids'')")
    case (Inr known)
    then show ?thesis
      using assms(2) by (cases "read_layout (env_encode env) (case jget request ''state'' of Some v \<Rightarrow> v | None \<Rightarrow> Null) known")
        (auto simp: step_saved_def split: if_splits, blast)
  qed (use assms(2) in \<open>simp add: step_saved_def\<close>)
  moreover have "layout_ok (install saved m)" if "inst" "read_layout enc state known = Inr (taken, saved)" for enc state known taken saved
  proof -
    note f = read_layout_facts [OF that(2)] and g = install_facts [OF read_layout_facts(4) [OF that(2)], of m]
    have "once (pane_bag (install saved m))"
      using f(1,3) g(1) assms(3) that(1) once_subset [of "mset taken"] by (simp add: once_mset)
    with g(2) assms(1) show ?thesis by (simp add: layout_ok_iff)
  qed
  ultimately show ?thesis using assms(1) by blast
qed

lemma panes_in_keeps: "panes_in sc m = (m', r) \<Longrightarrow> keeps m m'"
  by (cases sc) (auto split: option.splits sum.splits prod.splits dest: keeps_target_window)

lemma step_ok:
  assumes "layout_ok m" "step env request ps m = (m', r)" "request_ok request m"
  shows "layout_ok m'"
proof -
  define sc where "sc = (case json_string request ''tab'' of Some t \<Rightarrow> ScopeTab t
      | None \<Rightarrow> (case json_string request ''task'' of Some t \<Rightarrow> ScopeTask t | None \<Rightarrow> ScopeWindow (json_string request ''window'')))"
  obtain m1 r1 where pin: "panes_in sc m = (m1, r1)" by force
  have op: "or_empty (json_string request ''op'') = s \<longleftrightarrow> json_string request ''op'' = Some s" if "s \<noteq> []" for s
    using that by (cases "json_string request ''op''") (auto simp: or_empty_def)
  have "m' = m \<or> m' = m1 \<or> step_place env request ps m = (m', r) \<and> json_string request ''op'' = Some ''place'' \<or>
      step_remove request m = (m', r) \<or> (\<exists>cmd args. command env cmd args ps m = (m', r)) \<or>
      step_saved env False request m = (m', r) \<or> step_saved env True request m = (m', r) \<and> json_string request ''op'' = Some ''install''"
    using assms(2) pin unfolding step_def Let_def sc_def [symmetric]
    by (simp add: op split: if_split_asm option.split_asm sum.split_asm) blast+
  then show ?thesis
  proof (elim disjE conjE exE)
    assume "m' = m1"
    with panes_in_keeps [OF pin] assms(1) show ?thesis by (auto intro: keeps_ok)
  next
    assume "step_place env request ps m = (m', r)" "json_string request ''op'' = Some ''place''"
    then show ?thesis using assms(1,3) by (auto simp: request_ok_def intro: step_place_ok)
  next
    assume "step_saved env True request m = (m', r)" "json_string request ''op'' = Some ''install''"
    then show ?thesis using assms(1,3) by (auto simp: request_ok_def intro: step_saved_ok)
  qed (use assms(1) in \<open>auto intro: step_remove_ok command_ok step_saved_ok\<close>)
qed

lemma request_ok_keeps: "keeps m m' \<Longrightarrow> m_orphans m' = m_orphans m \<Longrightarrow> request_ok request m \<Longrightarrow> request_ok request m'"
  unfolding request_ok_def keeps_def by (simp split: option.splits)

lemma serve_ok:
  assumes "layout_ok m" "serve env request ps m = (m', r)" "request_ok request m"
  shows "layout_ok m'"
proof -
  define m1 where "m1 = fst (retitle ps m)"
  obtain m2 r2 where st: "step env request ps m1 = (m2, r2)" by force
  have m': "m' = remember (fst (retitle ps m2))" using assms(2) st by (simp add: serve_def m1_def Let_def)
  have "keeps m m1" "m_orphans m1 = m_orphans m" unfolding m1_def by (rule retitle_keeps) (simp add: retitle_def)
  with assms(1,3) have "layout_ok m1" "request_ok request m1" by (auto intro: keeps_ok request_ok_keeps)
  then have "layout_ok m2" using st by (intro step_ok [OF _ st]) auto
  then show ?thesis unfolding m' by (blast intro: keeps_ok retitle_keeps remember_keeps)
qed

subsection \<open>Every layout that can be reached\<close>

text \<open>A served request is one step; the layouts the daemon can have are those reached from an empty one.\<close>

inductive layout_step :: "model \<Rightarrow> model \<Rightarrow> bool" where
  served: "request_ok request m \<Longrightarrow> serve env request ps m = (m', r) \<Longrightarrow> layout_step m m'"

inductive_cases layout_stepE: "layout_step m m'"

inductive layout_reach :: "model \<Rightarrow> bool" where
  initial: "layout_reach empty_model"
| later: "layout_reach m \<Longrightarrow> layout_step m m' \<Longrightarrow> layout_reach m'"

lemma layout_step_ok: "layout_ok m \<Longrightarrow> layout_step m m' \<Longrightarrow> layout_ok m'"
  by (erule layout_stepE) (rule serve_ok)

lemma empty_model_ok: "layout_ok empty_model"
  by (simp add: layout_ok_iff once_def pane_bag_def trees_ok_def all_tabs_def empty_model_def)

subsection \<open>Properties\<close>


definition demo_env :: layout_env where
  "demo_env = \<lparr>env_now = 0, env_shlex = (\<lambda>s. Some [s]), env_encode = (\<lambda>v. [])\<rparr>"

definition demo_place :: json where
  "demo_place = place_request (new_pane ''term-1'' None Term) default_placement"


text \<open>
  C3. Placing a pane that is not in the layout (\<open>place_pane\<close>), wherever it is asked to go (a window, a
  workspace, beside the pane that opened it, a dock, a lead, the background), either refuses and keeps
  every pane where it was among the panes, or adds exactly this pane, which then has a location. It never
  panics, and the layout stays sound.
\<close>

theorem place_adds_one:
  assumes "layout_ok m" "p \<notin># pane_bag m" "0 < at_size pl" "at_size pl < 1" "place_pane now p pl ps m = (m', r)"
  shows "layout_ok m' \<and> (case r of
      Inl e \<Rightarrow> e \<noteq> panic \<and> pane_bag m' = pane_bag m
    | Inr w \<Rightarrow> pane_bag m' = add_mset p (pane_bag m) \<and> location_of p m' \<noteq> None)"
proof (cases r)
  case (Inl e)
  with place_pane_facts(1) [OF assms(5,3,4)] assms(1) show ?thesis by (auto simp: keeps_def intro: keeps_ok)
next
  case (Inr w)
  with place_pane_facts(2) [OF assms(5,3,4)] have a: "adds p m m'" by simp
  then have "p \<in># pane_bag m'" "m_orphans m' = m_orphans m" by (simp_all add: adds_def)
  moreover have "\<not> (\<exists>ts \<in> set (m_orphans m). p \<in> set (tabs_panes ts))" using assms(2) pane_bag_cases by metis
  ultimately have "location_of p m' \<noteq> None"
    unfolding pane_bag_cases by (auto simp: location_of_def split_beta split: option.splits)
  with a adds_ok [OF a assms(1,2)] Inr show ?thesis by (simp add: adds_def)
qed

theorem place_adds_one_witness: "pane_bag (fst (place_pane 0 ''term-4'' (default_placement\<lparr>at_from := Some ''term-1''\<rparr>) demo_panes demo)) =
    {#''term-4'', ''term-1'', ''term-2'', ''page-1'', ''term-3''#}"
proof -
  let ?pl = "default_placement\<lparr>at_from := Some ''term-1''\<rparr>"
  have ok: "\<not> isl (snd (place_pane 0 ''term-4'' ?pl demo_panes demo))" by code_simp
  have "0 < at_size ?pl" "at_size ?pl < 1" "''term-4'' \<notin># pane_bag demo" by (simp_all add: default_placement_def demo_bag)
  with place_adds_one [OF demo_ok _ _ _ prod.collapse [symmetric], of "''term-4''" ?pl 0 demo_panes] ok show ?thesis
    by (auto simp: demo_bag split: sum.splits)
qed



subsection \<open>Where the code misses what it means to do\<close>

text \<open>
  \<open>window_command\<close> looks its window up by an index found before \<open>drop_empty\<close>: for a window that is empty (as
  \<open>--window new\<close> leaves one when placing then fails) the index is past the end and the lookup panics.
\<close>

lemma window_command_panics:
  "snd (window_command (move_args [(''window'', ''win-1''), (''action'', ''free'')]) empty_panes (fst (make_window empty_model))) = Inl panic"
  by (rule panic_result) code_simp

text \<open>
  Claiming a task that is on the app's desk already leaves it where it is, and the reply then names the
  task at the front, which is another one.
\<close>

definition two_tasks :: model where
  "two_tasks = dock_workspace 0 ''term-2'' ELeft (Desk ''mac'') False (dock_workspace 0 ''term-1'' ELeft (Desk ''mac'') False empty_model)"

lemma claim_names_other:
  "map_sum (\<lambda>e. ()) (\<lambda>out. jget (JObject out) ''task'')
     (snd (task_cmd (\<lambda>s. None) 1 (move_args [(''action'', ''claim''), (''task'', ''term-1''), (''app'', ''mac'')]) demo_panes two_tasks)) =
   Inr (Some (JString ''term-2''))"
  by code_simp


text \<open>
  The wire between the daemon and the layout: a placement written as JSON is read back as it was. And what
  the older of the two saved formats loses.
\<close>

lemma map_of_put_flag: "map_of (if b then oinsert k v out else out) j = (if j = k \<and> b then Some v else map_of out j)"
  by simp

lemma map_of_put_opt: "map_of (case v of Some s \<Rightarrow> oinsert k (f s) out | None \<Rightarrow> out) j = (if j = k \<and> v \<noteq> None then map_option f v else map_of out j)"
  by (cases v) simp_all

lemma placement_get:
  fixes pl
  defines "v \<equiv> JObject (placement_json pl)"
  shows "jget v ''window'' = map_option JString (at_window pl)" "jget v ''workspace'' = map_option JString (at_workspace pl)"
    "jget v ''split'' = (if at_split pl = SAuto then None else Some (JString (split_name (at_split pl))))"
    "jget v ''size'' = (if at_size pl = 1 / 2 then None else Some (num (at_size pl)))"
    "jget v ''tab'' = (if at_new_tab pl then Some (JBool True) else None)"
    "jget v ''dock'' = map_option (\<lambda>e. JString (edge_str e)) (at_dock pl)"
    "jget v ''frozen'' = (if at_frozen pl then Some (JBool True) else None)"
    "jget v ''from'' = map_option JString (at_from pl)" "jget v ''opener'' = map_option JString (at_opener pl)"
    "jget v ''app'' = map_option JString (at_app pl)" "jget v ''shelf'' = (if at_shelf pl then Some (JBool True) else None)"
    "jget v ''lead'' = (if at_lead pl then Some (JBool True) else None)" "jget v ''planner'' = (if at_planner pl then Some (JBool True) else None)"
    "jget v ''quiz'' = (if at_quiz pl then Some (JBool True) else None)"
    "jget v ''background'' = (if at_background pl then Some (JBool True) else None)"
  unfolding v_def jget.simps placement_json_def Let_def map_of_put_flag map_of_put_opt
  by (simp_all add: option.map_comp comp_def)

lemma edge_read_str: "edge_read (map_option (\<lambda>e. JString (edge_str e)) e) = Inr e"
  by (cases e; cases "the e") (simp_all add: edge_read_def edge_parse_def)

text \<open>
  A placement survives the wire: whatever options a place request carries, reading back the JSON that
  \<open>place_request\<close> writes gives the same placement, every option with its value, as long as its size is a
  proper fraction; and the reader lets no other size through.
\<close>

lemma placement_round_trip:
  assumes "0 < at_size pl" "at_size pl < 1"
  shows "read_placement (JObject (placement_json pl)) = Inr pl \<and> (\<forall>v pl'. read_placement v = Inr pl' \<longrightarrow> 0 < at_size pl' \<and> at_size pl' < 1)"
proof -
  let ?v = "JObject (placement_json pl)"
  have str: "Option.bind (map_option JString x) as_str = x" for x by (cases x) simp_all
  have "read_split ?v = Inr (at_split pl)"
    by (cases "at_split pl") (simp_all add: read_split_def json_string_def placement_get del: jget.simps)
  moreover have "read_size ?v = Inr (at_size pl)"
    using assms by (simp add: read_size_def placement_get as_f64_num del: jget.simps)
  ultimately have "read_placement ?v = Inr pl"
    unfolding read_placement_def placement_get edge_read_str json_string_def is_true_def str
    by simp
  with read_placement_size show ?thesis by blast
qed

lemma placement_round_trip_witness:
  "read_placement (JObject (placement_json (default_placement\<lparr>at_size := 1 / 3, at_dock := Some ERight, at_from := Some ''term-1''\<rparr>))) =
   Inr (default_placement\<lparr>at_size := 1 / 3, at_dock := Some ERight, at_from := Some ''term-1''\<rparr>)"
  using placement_round_trip [of "default_placement\<lparr>at_size := 1 / 3, at_dock := Some ERight, at_from := Some ''term-1''\<rparr>"] by simp

subsection \<open>What the older format loses\<close>

text \<open>
  \<open>export_v1\<close> writes a workspace's background panes, but the reader of \<open>parked\<close> workspaces does not read them:
  a task with a background terminal comes back without it.
\<close>

definition background_task :: model where
  "background_task = empty_model\<lparr>m_workspaces := [(new_ws ''ws-1'' \<lparr>dk_pane = ''term-1'', dk_edge = ELeft, dk_width = DOCK_WIDTH, dk_frozen = False\<rparr> Shelf)
     \<lparr>ws_background := [''term-2'']\<rparr>]\<rparr>"

lemma v1_loses_background:
  "pane_bag background_task = {#''term-1'', ''term-2''#}"
  "\<exists>saved. read_layout enc (JObject (export_v1 background_task)) [''term-1'', ''term-2''] = Inr ([''term-1''], saved)"
proof -
  show "pane_bag background_task = {#''term-1'', ''term-2''#}"
    by (simp add: background_task_def empty_model_def pane_bag_def ws_bag_def new_ws_def)
  have "''ws-1'' = ''ws-'' @ dec 1" by code_simp
  then have "number_in ''ws-1'' ''ws-'' = Some 1" using number_in_dec [of 1 "''ws-''"] by simp
  moreover have "number_in ''ws-1'' ''t'' = None" "number_in ''ws-1'' ''w'' = None" "number_in ''term-1'' ''t'' = None" "number_in ''term-1'' ''w'' = None"
    by (simp_all add: number_in_def strip_prefix_def starts_with_def parse_unsigned_def is_digit_def)
  ultimately show "\<exists>saved. read_layout enc (JObject (export_v1 background_task)) [''term-1'', ''term-2''] = Inr ([''term-1''], saved)"
    by (simp add: whole_def num_nat_def num_def background_task_def empty_model_def export_v1_def counters_json_def put_workspace_def put_tabs_def dock_json_def zoomed_def
        default_tabs_def read_layout_def jlist_def read_parked_def json_string_def start_reading_def read_tabs_def read_side_def Let_def
        List.map_filter_simps finish_reading_def read_workspace_def new_ws_def place_read_def DOCK_WIDTH_def)
qed

end
