(* ===== verification/Pipe_Model.thy ===== *)
theory Pipe_Model
  imports Kanna_Strings "HOL-Library.Word"
begin

text \<open>
  Kojo, the pipeline language (\<open>kanna-pipe/src/lib.rs\<close> and \<open>walk.rs\<close>): the data of a pipeline, the
  choice of the arrow a run takes, the worst case over all runs, and the block an agent emits.

  \<open>u32\<close> and \<open>u64\<close> are \<open>32 word\<close> and \<open>64 word\<close>, whose arithmetic wraps as in a release build; line
  numbers are \<^typ>\<open>nat\<close>. A \<open>BTreeMap\<close> or \<open>HashMap\<close> is a map. The character U+2026 in messages is
  written as three dots.
\<close>

definition DONE :: string where "DONE = ''done''"

definition AGENTS :: "string list" where "AGENTS = [''claude'', ''codex'', ''opencode'', ''agy'']"

definition ASSUMED_PARTS :: "32 word" where "ASSUMED_PARTS = 2"

type_synonym u32 = "32 word"
type_synonym seconds = "64 word"

record stage_output =
  out_stage :: string
  out_key :: string

record attempts =
  at_count :: u32
  at_by :: string

record pipe_agent =
  ag_agent :: string
  ag_effort :: "string option"
  ag_model :: "string option"
  ag_prompt :: "string option"
  ag_verdict :: bool
  ag_each :: "stage_output option"
  ag_attempts :: "attempts option"
  ag_guard :: "string option"
  ag_emits :: bool
  ag_resume :: "string option"

datatype stage_kind = KAgent pipe_agent | KRun string | KAsk string | KMerge string

record stage =
  st_name :: string
  st_line :: nat
  st_kind :: stage_kind
  st_on :: "string option"
  st_within :: "seconds option"

datatype verdict = Pass | Fail

record arrow =
  ar_from :: string
  ar_to :: string
  ar_when :: "verdict option"
  ar_max :: "u32 option"
  ar_reset :: bool
  ar_progress :: bool
  ar_line :: nat

record budget =
  bu_sessions :: "u32 option"
  bu_time :: "seconds option"
  bu_line :: nat

record pipeline =
  pi_stages :: "stage list"
  pi_arrows :: "arrow list"
  pi_budget :: "budget option"
  pi_start :: string
  pi_text :: string

datatype rule = RSyntax | RRedefined | RUndefined | RAfterDone | RVerdict | RProgress | RReset | RUnreachable | RNoDone
  | RUnbounded | REach | RMerge | RScorer | RResume | RPrompt | RPlacement | RBudget | REmits

record pipe_error =
  pe_line :: nat
  pe_message :: string
  pe_rule :: rule

type_synonym sizes = "string \<rightharpoonup> u32"

definition pipe_err :: "nat \<Rightarrow> rule \<Rightarrow> string \<Rightarrow> pipe_error" where
  "pipe_err line r message = \<lparr>pe_line = line, pe_message = message, pe_rule = r\<rparr>"

definition error_at :: "string \<Rightarrow> pipe_error \<Rightarrow> string" where
  "error_at file e = file @ '':'' @ dec (pe_line e) @ '': '' @ pe_message e"

definition error_show :: "pipe_error \<Rightarrow> string" where
  "error_show e = dec (pe_line e) @ '': '' @ pe_message e"

fun verdict_name :: "verdict \<Rightarrow> string" where
  "verdict_name Pass = ''pass''" | "verdict_name Fail = ''fail''"

subsection \<open>Stages\<close>

definition stage_agent :: "stage \<Rightarrow> pipe_agent option" where
  "stage_agent s = (case st_kind s of KAgent a \<Rightarrow> Some a | _ \<Rightarrow> None)"

definition is_run :: "stage \<Rightarrow> bool" where
  "is_run s \<longleftrightarrow> (case st_kind s of KRun _ \<Rightarrow> True | _ \<Rightarrow> False)"

definition verdicts :: "stage \<Rightarrow> bool" where
  "verdicts s \<longleftrightarrow> (case st_kind s of KAgent a \<Rightarrow> ag_verdict a | _ \<Rightarrow> True)"

definition stage_prompt :: "stage \<Rightarrow> string option" where
  "stage_prompt s = map_option (\<lambda>a. case ag_prompt a of Some p \<Rightarrow> p | None \<Rightarrow> st_name s) (stage_agent s)"

definition stage_what :: "stage \<Rightarrow> string" where
  "stage_what s = (case st_kind s of KAgent _ \<Rightarrow> ''an agent stage'' | KRun _ \<Rightarrow> ''a run stage''
     | KAsk _ \<Rightarrow> ''an ask stage'' | KMerge _ \<Rightarrow> ''a merge stage'')"

definition output_show :: "stage_output \<Rightarrow> string" where
  "output_show o' = out_stage o' @ ''.'' @ out_key o'"

definition stage_sessions :: "sizes \<Rightarrow> stage \<Rightarrow> u32" where
  "stage_sessions sizes s =
     (case stage_agent s of
        None \<Rightarrow> 0
      | Some a \<Rightarrow>
          (let tries = (case ag_attempts a of Some t \<Rightarrow> at_count t | None \<Rightarrow> 1);
               parts = (case ag_each a of
                   Some each \<Rightarrow> (case sizes (output_show each) of Some n \<Rightarrow> n | None \<Rightarrow> ASSUMED_PARTS)
                 | None \<Rightarrow> 1)
           in tries * parts))"

subsection \<open>Arrows\<close>

definition arrow_options :: "arrow \<Rightarrow> string list" where
  "arrow_options a =
     (case ar_when a of Some v \<Rightarrow> [verdict_name v] | None \<Rightarrow> []) @
     (case ar_max a of Some n \<Rightarrow> [''max '' @ dec (unat n)] | None \<Rightarrow> []) @
     (if ar_reset a then [''reset''] else []) @ (if ar_progress a then [''progress''] else [])"

definition arrow_render :: "arrow \<Rightarrow> string" where
  "arrow_render a =
     (if arrow_options a = [] then ar_from a @ '' -> '' @ ar_to a
      else ar_from a @ '' -['' @ join '', '' (arrow_options a) @ '']-> '' @ ar_to a)"

definition arrow_same :: "arrow \<Rightarrow> arrow \<Rightarrow> bool" where
  "arrow_same a b \<longleftrightarrow> (ar_from a, ar_to a, ar_when a, ar_max a, ar_reset a, ar_progress a) =
     (ar_from b, ar_to b, ar_when b, ar_max b, ar_reset b, ar_progress b)"

subsection \<open>Pipelines\<close>

definition stage_named :: "pipeline \<Rightarrow> string \<Rightarrow> stage option" where
  "stage_named p name = List.find (\<lambda>s. st_name s = name) (pi_stages p)"

text \<open>Whether the run may take this arrow: \<open>taken\<close> counts how often each arrow was taken.\<close>

definition may_take :: "string \<Rightarrow> verdict option \<Rightarrow> u32 list \<Rightarrow> bool \<Rightarrow> nat \<Rightarrow> arrow \<Rightarrow> bool" where
  "may_take from v taken stalled i a \<longleftrightarrow> ar_from a = from \<and>
     (case ar_when a of None \<Rightarrow> True | Some w \<Rightarrow> Some w = v) \<and> \<not> (stalled \<and> ar_progress a) \<and>
     (case ar_max a of None \<Rightarrow> True | Some n \<Rightarrow> (if i < length taken then taken ! i else 0) < n)"

definition pick :: "pipeline \<Rightarrow> string \<Rightarrow> verdict option \<Rightarrow> u32 list \<Rightarrow> bool \<Rightarrow> (nat \<times> arrow) option" where
  "pick p from v taken stalled = List.find (\<lambda>(i, a). may_take from v taken stalled i a) (enumerate 0 (pi_arrows p))"

definition fanouts :: "pipeline \<Rightarrow> stage list" where
  "fanouts p = filter (\<lambda>s. case stage_agent s of Some a \<Rightarrow> ag_each a \<noteq> None | None \<Rightarrow> False) (pi_stages p)"

subsection \<open>The worst case (walk.rs)\<close>

text \<open>How a stage can end: its verdict, and whether its score stalled.\<close>

definition outcomes :: "pipeline \<Rightarrow> stage \<Rightarrow> string \<Rightarrow> (verdict option \<times> bool) list" where
  "outcomes p here from =
     (if verdicts here
      then [(Some Pass, False), (Some Fail, False)] @
        (if \<exists>a \<in> set (pi_arrows p). ar_from a = from \<and> ar_progress a then [(Some Fail, True)] else [])
      else [(None, False)])"

type_synonym memo = "string \<times> u32 list \<Rightarrow> u32 option"

text \<open>
  \<open>walk\<close> remembers what it has found in \<open>seen\<close>. The recursion of the code has no bound of its own, so it
  has fuel here, and \<^const>\<open>None\<close> means that the fuel ran out.
\<close>

function walk :: "nat \<Rightarrow> pipeline \<Rightarrow> (stage \<Rightarrow> u32) \<Rightarrow> string \<Rightarrow> u32 list \<Rightarrow> memo \<Rightarrow> (u32 \<times> memo) option"
  and walk_outcomes :: "nat \<Rightarrow> pipeline \<Rightarrow> (stage \<Rightarrow> u32) \<Rightarrow> string \<Rightarrow> u32 list \<Rightarrow> (verdict option \<times> bool) list \<Rightarrow> u32 \<Rightarrow> memo \<Rightarrow>
    (u32 \<times> memo) option" where
  "walk fuel p cost name taken seen =
     (case seen (name, taken) of
        Some known \<Rightarrow> Some (known, seen)
      | None \<Rightarrow> (case fuel of
          0 \<Rightarrow> None
        | Suc f \<Rightarrow> (case stage_named p name of
            None \<Rightarrow> Some (0, seen)
          | Some here \<Rightarrow> (case walk_outcomes f p cost name taken (outcomes p here name) 0 seen of
              None \<Rightarrow> None
            | Some (best, seen) \<Rightarrow> (let total = cost here + best in Some (total, seen((name, taken) \<mapsto> total)))))))"
| "walk_outcomes f p cost name taken [] best seen = Some (best, seen)"
| "walk_outcomes f p cost name taken ((v, stalled) # rest) best seen =
     (case pick p name v taken stalled of
        Some (i, a) \<Rightarrow>
          (if ar_to a \<noteq> DONE
           then (case walk f p cost (ar_to a) (taken[i := taken ! i + 1]) seen of
                   None \<Rightarrow> None
                 | Some (w, seen) \<Rightarrow> walk_outcomes f p cost name taken rest (max best w) seen)
           else walk_outcomes f p cost name taken rest best seen)
      | None \<Rightarrow> walk_outcomes f p cost name taken rest best seen)"
  by pat_completeness auto
termination
  by (relation "measures [\<lambda>x. case x of Inl (f, _) \<Rightarrow> f | Inr (f, _) \<Rightarrow> f,
        \<lambda>x. case x of Inl _ \<Rightarrow> 0 | Inr (_, _, _, _, _, cs, _) \<Rightarrow> Suc (length cs)]") auto

definition worst :: "nat \<Rightarrow> pipeline \<Rightarrow> (stage \<Rightarrow> u32) \<Rightarrow> u32 option" where
  "worst fuel p cost = map_option fst (walk fuel p cost (pi_start p) (replicate (length (pi_arrows p)) 0) Map.empty)"

definition max_sessions :: "nat \<Rightarrow> pipeline \<Rightarrow> sizes \<Rightarrow> u32 option" where
  "max_sessions fuel p sizes = worst fuel p (stage_sessions sizes)"

subsection \<open>The block in an agent's answer\<close>

definition fence_char :: "char \<Rightarrow> bool" where
  "fence_char c \<longleftrightarrow> c = CHR ''`'' \<or> c = CHR 0x7E"

definition closes :: "string \<Rightarrow> string \<Rightarrow> bool" where
  "closes fence line \<longleftrightarrow> starts_with fence (trim_start line) \<and> dropWhile (\<lambda>c. c = hd fence) (trim line) = []"

fun kojo_lines :: "string list \<Rightarrow> string list option" where
  "kojo_lines [] = None"
| "kojo_lines (line # rest) =
     (let trimmed = trim_start line; fence = takeWhile fence_char trimmed
      in if length fence < 3 \<or> (case split_whitespace (drop (length fence) trimmed) of [] \<Rightarrow> True | w # _ \<Rightarrow> w \<noteq> ''kojo'') then kojo_lines rest
         else Some (takeWhile (\<lambda>l. \<not> closes fence l) rest))"

definition kojo_block :: "string \<Rightarrow> string option" where
  "kojo_block answer = map_option (join [newline]) (kojo_lines (lines_str answer))"

end
