(* ===== verification/Pipe_Parse.thy ===== *)
theory Pipe_Parse
  imports Pipe_Model
begin

text \<open>
  Parsing a pipeline (\<open>kanna-pipe/src/parse.rs\<close>): comments, stage definitions, flows with the options of
  their arrows, the budget, durations; then the pipeline, or every error by line. A parse error of a
  line is its message (\<open>Result<_, String>\<close>). Byte offsets are character offsets here; the code uses them
  only to cut out the same text.
\<close>

type_synonym 'a parsed = "string + 'a"

datatype line = LStage stage | LFlow "string list" "arrow list" | LBudget budget

definition sq :: "string \<Rightarrow> string" where
  "sq s = [CHR 0x27] @ s @ [CHR 0x27]"

subsection \<open>Names, durations, budgets\<close>

definition name_char :: "char \<Rightarrow> bool" where
  "name_char c \<longleftrightarrow> is_lower c \<or> is_digit c \<or> c = CHR ''_''"

definition is_name :: "string \<Rightarrow> bool" where
  "is_name w \<longleftrightarrow> (case w of [] \<Rightarrow> False | c # cs \<Rightarrow> is_lower c \<and> list_all name_char cs)"

definition stage_name :: "string \<Rightarrow> string \<Rightarrow> string parsed" where
  "stage_name w what = (if is_name w then Inr w else Inl (what @ '' needs a stage name, got '' @ sq w))"

definition unit_scale :: "char \<Rightarrow> seconds option" where
  "unit_scale c = (if c = CHR ''h'' then Some 3600 else if c = CHR ''m'' then Some 60 else if c = CHR ''s'' then Some 1 else None)"

fun duration_loop :: "string \<Rightarrow> seconds \<Rightarrow> string \<Rightarrow> nat \<Rightarrow> seconds option" where
  "duration_loop [] secs digits units = (if digits = [] \<and> units > 0 \<and> secs > 0 then Some secs else None)"
| "duration_loop (c # cs) secs digits units =
     (if is_digit c then duration_loop cs secs (digits @ [c]) units
      else (case unit_scale c of
          None \<Rightarrow> None
        | Some scale \<Rightarrow> (case parse_u64 digits of
            None \<Rightarrow> None
          | Some n \<Rightarrow> duration_loop cs (secs + of_nat n * scale) [] (units + 1))))"

definition duration :: "string \<Rightarrow> seconds option" where
  "duration w = duration_loop w 0 [] 0"

definition positive_u32 :: "string \<Rightarrow> u32 option" where
  "positive_u32 s = (case parse_u32 s of Some n \<Rightarrow> if n > 0 then Some (of_nat n) else None | None \<Rightarrow> None)"

definition budget_part :: "budget parsed \<Rightarrow> string \<Rightarrow> budget parsed" where
  "budget_part found part =
     (case found of
        Inl e \<Rightarrow> Inl e
      | Inr b \<Rightarrow>
          (case split_whitespace part of
             [n, w] \<Rightarrow>
               (if (w = ''sessions'' \<or> w = ''session'') \<and> bu_sessions b = None
                then (case positive_u32 n of
                        Some k \<Rightarrow> Inr (b\<lparr>bu_sessions := Some k\<rparr>)
                      | None \<Rightarrow> Inl (''expected a number of sessions, got '' @ sq n))
                else Inl (''expected `budget = N sessions, DURATION` (DURATION like 8h or 90m), got '' @ sq part))
           | [time] \<Rightarrow>
               (if bu_time b = None \<and> duration time \<noteq> None then Inr (b\<lparr>bu_time := duration time\<rparr>)
                else Inl (''expected `budget = N sessions, DURATION` (DURATION like 8h or 90m), got '' @ sq part))
           | _ \<Rightarrow> Inl (''expected `budget = N sessions, DURATION` (DURATION like 8h or 90m), got '' @ sq part)))"

definition read_budget :: "string \<Rightarrow> nat \<Rightarrow> budget parsed" where
  "read_budget body number =
     foldl budget_part (Inr \<lparr>bu_sessions = None, bu_time = None, bu_line = number\<rparr>) (map trim (split_on (\<lambda>c. c = CHR '','') body))"

subsection \<open>Flows and arrows\<close>

definition plain_arrow :: "string \<Rightarrow> string \<Rightarrow> nat \<Rightarrow> arrow" where
  "plain_arrow from to number = \<lparr>ar_from = from, ar_to = to, ar_when = None, ar_max = None, ar_reset = False, ar_progress = False, ar_line = number\<rparr>"

definition max_option :: "string \<Rightarrow> string option" where
  "max_option item =
     (case strip_prefix ''max'' item of
        Some (c # n) \<Rightarrow> if c = CHR '' '' \<or> c = CHR ''='' then Some (trim n) else None
      | _ \<Rightarrow> None)"

definition arrow_item :: "arrow parsed \<Rightarrow> string \<Rightarrow> arrow parsed" where
  "arrow_item found item =
     (case found of
        Inl e \<Rightarrow> Inl e
      | Inr a \<Rightarrow>
          (if (item = ''pass'' \<or> item = ''fail'') \<and> ar_when a = None
           then Inr (a\<lparr>ar_when := Some (if item = ''pass'' then Pass else Fail)\<rparr>)
           else if item = ''reset'' \<and> \<not> ar_reset a then Inr (a\<lparr>ar_reset := True\<rparr>)
           else if item = ''progress'' \<and> \<not> ar_progress a then Inr (a\<lparr>ar_progress := True\<rparr>)
           else if max_option item \<noteq> None \<and> ar_max a = None
           then (case Option.bind (max_option item) positive_u32 of
                   Some n \<Rightarrow> Inr (a\<lparr>ar_max := Some n\<rparr>)
                 | None \<Rightarrow> Inl (''`'' @ item @ ''`: max takes a whole number above 0''))
           else Inl (''unknown or repeated arrow option '' @ sq item @ ''; use pass or fail, max N, reset and progress, each once'')))"

definition read_arrow :: "string \<Rightarrow> string \<Rightarrow> string \<Rightarrow> nat \<Rightarrow> arrow parsed" where
  "read_arrow from to options number =
     foldl arrow_item (Inr (plain_arrow from to number)) (filter (\<lambda>i. i \<noteq> []) (map trim (split_on (\<lambda>c. c = CHR '','') options)))"

definition node_end :: "char \<Rightarrow> bool" where
  "node_end c \<longleftrightarrow> is_whitespace c \<or> c = CHR ''-''"

lemma trim_start_length: "length (trim_start s) \<le> length s"
  by (simp add: trim_start_def length_dropWhile_le)

lemma strip_prefix_length: "strip_prefix p s = Some r \<Longrightarrow> length r \<le> length s"
  by (auto dest: strip_prefix_SomeD)

lemma split_once_length: "split_once p s = Some (a, b) \<Longrightarrow> length b \<le> length s"
  by (auto dest: split_once_SomeD)

lemma flow_shorter:
  assumes "takeWhile (\<lambda>c. \<not> node_end c) (trim_start rest) \<noteq> []"
  shows "length (trim_start (drop (length (takeWhile (\<lambda>c. \<not> node_end c) (trim_start rest))) (trim_start rest))) < length rest"
proof -
  let ?t = "trim_start rest" and ?n = "takeWhile (\<lambda>c. \<not> node_end c) (trim_start rest)"
  have "length (trim_start (drop (length ?n) ?t)) \<le> length ?t - length ?n"
    using trim_start_length [of "drop (length ?n) ?t"] by simp
  moreover have "0 < length ?n" "length ?n \<le> length ?t" using assms by (auto simp: length_takeWhile_le)
  ultimately show ?thesis using trim_start_length [of rest] by linarith
qed

function flow_loop :: "string \<Rightarrow> string list \<Rightarrow> string option list \<Rightarrow> (string list \<times> string option list) parsed" where
  "flow_loop rest nodes options =
     (let node = takeWhile (\<lambda>c. \<not> node_end c) (trim_start rest)
      in if node = [] then Inl ''expected a stage name after an arrow''
         else (case stage_name node ''a flow'' of
             Inl e \<Rightarrow> Inl e
           | Inr n \<Rightarrow>
               (let tail = trim_start (drop (length node) (trim_start rest)); nodes = nodes @ [n]
                in if tail = [] then Inr (nodes, options)
                   else (case strip_prefix ''->'' tail of
                       Some after \<Rightarrow> flow_loop after nodes (options @ [None])
                     | None \<Rightarrow> (case strip_prefix ''-['' tail of
                         Some after \<Rightarrow> (case split_once '']->'' after of
                             None \<Rightarrow> Inl ''an arrow's options end with `]->`, as in `a -[fail, max 3]-> b`''
                           | Some (opts, after) \<Rightarrow> flow_loop after nodes (options @ [Some opts]))
                       | None \<Rightarrow> Inl (''expected `->` or `-[...]->` after '' @ sq node))))))"
  by pat_completeness auto
termination
  by (relation "measure (\<lambda>(rest, _). length rest)")
     (auto dest!: strip_prefix_length split_once_length dest: flow_shorter)

fun read_arrows :: "string list \<Rightarrow> string option list \<Rightarrow> nat \<Rightarrow> arrow list parsed" where
  "read_arrows (from # to # nodes) (opt # options) number =
     (case read_arrow from to (case opt of Some s \<Rightarrow> s | None \<Rightarrow> []) number of
        Inl e \<Rightarrow> Inl e
      | Inr a \<Rightarrow> (case read_arrows (to # nodes) options number of Inl e \<Rightarrow> Inl e | Inr as \<Rightarrow> Inr (a # as)))"
| "read_arrows _ _ number = Inr []"

definition flow :: "string \<Rightarrow> nat \<Rightarrow> (string list \<times> arrow list) parsed" where
  "flow line number =
     (case flow_loop line [] [] of
        Inl e \<Rightarrow> Inl e
      | Inr (nodes, options) \<Rightarrow> (case read_arrows nodes options number of Inl e \<Rightarrow> Inl e | Inr as \<Rightarrow> Inr (nodes, as)))"

subsection \<open>Stages\<close>

fun scan_words :: "string \<Rightarrow> nat \<Rightarrow> nat option \<Rightarrow> string \<Rightarrow> (nat \<times> string) list" where
  "scan_words body at' start [] = (case start of Some from \<Rightarrow> [(from, drop from body)] | None \<Rightarrow> [])"
| "scan_words body at' start (c # cs) =
     (case (is_whitespace c, start) of
        (False, None) \<Rightarrow> scan_words body (at' + 1) (Some at') cs
      | (True, Some from) \<Rightarrow> (from, take (at' - from) (drop from body)) # scan_words body (at' + 1) None cs
      | _ \<Rightarrow> scan_words body (at' + 1) start cs)"

definition words :: "string \<Rightarrow> (nat \<times> string) list" where
  "words body = scan_words body 0 None body"

text \<open>\<open>placed\<close>: \<open>Inr None\<close> is \<open>Ok(false)\<close>, \<open>Inr (Some s)\<close> is \<open>Ok(true)\<close> with the stage changed to \<open>s\<close>.\<close>

definition put_placement :: "stage \<Rightarrow> string \<Rightarrow> string \<Rightarrow> stage option parsed" where
  "put_placement s key val =
     (if key = ''on'' \<and> st_on s = None then Inr (Some (s\<lparr>st_on := Some val\<rparr>))
      else if key = ''within'' \<and> st_within s = None
      then (case duration val of
              Some d \<Rightarrow> Inr (Some (s\<lparr>st_within := Some d\<rparr>))
            | None \<Rightarrow> Inl (''within takes a duration like 30m or 2h, got '' @ sq val))
      else if key = ''on'' \<or> key = ''within'' then Inl (key @ '' is given twice'')
      else Inr None)"

fun only_placement :: "stage \<Rightarrow> string list \<Rightarrow> string \<Rightarrow> stage parsed" where
  "only_placement s [] what = Inr s"
| "only_placement s [w] what =
     Inl (''a '' @ what @ '' stage takes only `on PLACEMENT` and `within DURATION` after it, got '' @ sq w)"
| "only_placement s (key # val # rest) what =
     (case put_placement s key val of
        Inl e \<Rightarrow> Inl e
      | Inr (Some s) \<Rightarrow> only_placement s rest what
      | Inr None \<Rightarrow> Inl (''a '' @ what @ '' stage takes only `on PLACEMENT` and `within DURATION` after it, got '' @ sq (key @ '' '' @ val)))"

text \<open>The words after \<open>run\<close>, last first, with the placement at the end taken off.\<close>

fun run_tail :: "stage \<Rightarrow> (nat \<times> string) list \<Rightarrow> (stage \<times> (nat \<times> string) list) parsed" where
  "run_tail s ((i, val) # (j, key) # rhead) =
     (if key = ''on'' \<or> key = ''within''
      then (case put_placement s key val of
              Inl e \<Rightarrow> Inl e
            | Inr None \<Rightarrow> Inr (s, (i, val) # (j, key) # rhead)
            | Inr (Some s) \<Rightarrow> run_tail s rhead)
      else Inr (s, (i, val) # (j, key) # rhead))"
| "run_tail s ws = Inr (s, ws)"

definition run_command :: "string \<Rightarrow> (nat \<times> string) list \<Rightarrow> string" where
  "run_command body ws =
     (case ws of
        [] \<Rightarrow> []
      | [(from, w)] \<Rightarrow> take (length w) (drop from body)
      | (from, _) # _ \<Rightarrow> (let (lst, w) = last ws in trim (take (lst + length w - from) (drop from body))))"

definition is_attempts :: "string \<Rightarrow> bool" where
  "is_attempts w \<longleftrightarrow> starts_with ''x'' w \<and> parse_u32 (drop 1 w) \<noteq> None"

definition prompt_name :: "string \<Rightarrow> bool" where
  "prompt_name w \<longleftrightarrow> (case w of [] \<Rightarrow> False | c # _ \<Rightarrow> is_lower c) \<and> list_all (\<lambda>c. name_char c \<or> c = CHR ''-'') w"

definition each_output :: "string \<Rightarrow> stage_output option" where
  "each_output w =
     (case split_once ''.'' w of
        Some (from, key) \<Rightarrow> if is_name from \<and> key \<noteq> [] then Some \<lparr>out_stage = from, out_key = key\<rparr> else None
      | None \<Rightarrow> None)"

definition unexpected_word :: "string \<Rightarrow> string" where
  "unexpected_word w = ''unexpected '' @ sq w @ ''; an agent stage takes prompt NAME, verdict, each STAGE.KEY, xN by STAGE, guard STAGE, emits, on PLACEMENT, within DURATION, resume STAGE and model NAME''"

text \<open>What a word of an agent's options needs after it.\<close>

definition needs :: "string \<Rightarrow> string" where
  "needs key =
     (if key = ''prompt'' then ''a prompt's name'' else if key = ''model'' then ''a model's name''
      else if key = ''each'' then ''STAGE.KEY, a named list a stage before it produced''
      else if key = ''guard'' then ''a run stage that scores the code''
      else if key = ''resume'' then ''the stage whose session it continues''
      else if key = ''on'' then ''a placement: here, any, a machine or a role'' else ''a duration like 30m'')"

text \<open>The options that take one value.\<close>

definition agent_value :: "string \<Rightarrow> string \<Rightarrow> stage \<times> pipe_agent \<Rightarrow> (stage \<times> pipe_agent) parsed" where
  "agent_value key val = (\<lambda>(s, a).
     (if key = ''prompt''
      then (if prompt_name val then Inr (s, a\<lparr>ag_prompt := Some val\<rparr>)
            else Inl (''prompt takes a name like review or fix-tests (.kanna/prompts/NAME.md), got '' @ sq val))
      else if key = ''model'' then Inr (s, a\<lparr>ag_model := Some val\<rparr>)
      else if key = ''each''
      then (case each_output val of
              Some o' \<Rightarrow> Inr (s, a\<lparr>ag_each := Some o'\<rparr>)
            | None \<Rightarrow> Inl (''each takes STAGE.KEY, as in each plan.parts, got '' @ sq val))
      else if key = ''guard'' then (case stage_name val ''guard'' of Inl e \<Rightarrow> Inl e | Inr n \<Rightarrow> Inr (s, a\<lparr>ag_guard := Some n\<rparr>))
      else if key = ''resume'' then (case stage_name val ''resume'' of Inl e \<Rightarrow> Inl e | Inr n \<Rightarrow> Inr (s, a\<lparr>ag_resume := Some n\<rparr>))
      else (case put_placement s key val of Inl e \<Rightarrow> Inl e | Inr None \<Rightarrow> Inr (s, a) | Inr (Some s) \<Rightarrow> Inr (s, a))))"

fun agent_words :: "string list \<Rightarrow> string list \<Rightarrow> stage \<times> pipe_agent \<Rightarrow> (stage \<times> pipe_agent) parsed" where
  "agent_words [] seen sa = Inr sa"
| "agent_words (w # ws) seen sa =
     (let key = (if is_attempts w then ''xN'' else w)
      in if key \<in> set seen then Inl (key @ '' is given twice'')
         else if key = ''verdict'' then agent_words ws (seen @ [key]) (fst sa, (snd sa)\<lparr>ag_verdict := True\<rparr>)
         else if key = ''emits'' then agent_words ws (seen @ [key]) (fst sa, (snd sa)\<lparr>ag_emits := True\<rparr>)
         else if key = ''xN''
         then (let n = (case parse_u32 (drop 1 w) of Some n \<Rightarrow> n | None \<Rightarrow> 0)
               in if \<not> (2 \<le> n \<and> n \<le> 10) then Inl ''xN takes 2 to 10 attempts''
                  else (case ws of
                      b # ws' \<Rightarrow>
                        (if b \<noteq> ''by'' then Inl (w @ '' needs `by STAGE`: the run stage that scores each attempt'')
                         else (case ws' of
                             [] \<Rightarrow> Inl ''by needs a run stage that scores each attempt''
                           | by' # rest \<Rightarrow> (case stage_name by' ''by'' of
                               Inl e \<Rightarrow> Inl e
                             | Inr n' \<Rightarrow> agent_words rest (seen @ [key]) (fst sa, (snd sa)\<lparr>ag_attempts := Some \<lparr>at_count = of_nat n, at_by = n'\<rparr>\<rparr>))))
                    | [] \<Rightarrow> Inl (w @ '' needs `by STAGE`: the run stage that scores each attempt'')))
         else if key = ''by'' then Inl ''`by STAGE` goes after xN, as in x3 by check''
         else if key \<in> {''prompt'', ''model'', ''each'', ''guard'', ''resume'', ''on'', ''within''}
         then (case ws of
             [] \<Rightarrow> Inl (w @ '' needs '' @ needs key)
           | val # rest \<Rightarrow> (case agent_value key val sa of Inl e \<Rightarrow> Inl e | Inr sa \<Rightarrow> agent_words rest (seen @ [key]) sa))
         else Inl (unexpected_word w))"

definition new_agent :: "string \<Rightarrow> string option \<Rightarrow> pipe_agent" where
  "new_agent tool effort = \<lparr>ag_agent = tool, ag_effort = effort, ag_model = None, ag_prompt = None, ag_verdict = False, ag_each = None,
     ag_attempts = None, ag_guard = None, ag_emits = False, ag_resume = None\<rparr>"

definition read_agent :: "stage \<Rightarrow> string list \<Rightarrow> (stage \<times> pipe_agent) parsed" where
  "read_agent s ws =
     (let (tool, effort) = (case split_once '':'' (hd ws) of Some (t, e) \<Rightarrow> (t, Some e) | None \<Rightarrow> (hd ws, None))
      in if tool \<notin> set AGENTS then Inl (''unknown agent '' @ sq tool @ ''; use '' @ join '', '' AGENTS @ '', or run, ask or merge'')
         else (let efforts = (if tool = ''codex'' then [''low'', ''medium'', ''high'', ''xhigh''] else [''low'', ''medium'', ''high''])
               in case effort of
                    Some e \<Rightarrow> (if e \<notin> set efforts then Inl (tool @ '' takes the efforts '' @ join '', '' efforts @ '', not '' @ sq e)
                               else agent_words (tl ws) [] (s, new_agent tool effort))
                  | None \<Rightarrow> agent_words (tl ws) [] (s, new_agent tool effort)))"

definition read_stage :: "string \<Rightarrow> string \<Rightarrow> nat \<Rightarrow> stage parsed" where
  "read_stage name body number =
     (let s = \<lparr>st_name = name, st_line = number, st_kind = KRun [], st_on = None, st_within = None\<rparr>; all = words body
      in case all of
           [] \<Rightarrow> Inl (''stage '' @ sq name @ '' needs a body: an agent (claude, codex, ...), `run COMMAND`, `ask '' @ [quote] @ ''QUESTION'' @ [quote] @ ''` or `merge STAGE`'')
         | (_, first) # rest \<Rightarrow>
             (if first = ''run''
              then (case run_tail s (rev rest) of
                      Inl e \<Rightarrow> Inl e
                    | Inr (s, ws) \<Rightarrow>
                        (let cmd = run_command body (rev ws)
                         in if cmd = [] then Inl ''`run` needs a command'' else Inr (s\<lparr>st_kind := KRun cmd\<rparr>)))
              else if first = ''ask''
              then (case Option.bind (strip_prefix [quote] (trim_start (drop 3 body))) (split_once [quote]) of
                      Some (question, rest) \<Rightarrow>
                        (if trim question = [] then Inl (''`ask` needs a question in double quotes: ask '' @ [quote] @ ''Is the plan right?'' @ [quote])
                         else (case only_placement s (split_whitespace rest) ''ask'' of
                                 Inl e \<Rightarrow> Inl e | Inr s \<Rightarrow> Inr (s\<lparr>st_kind := KAsk question\<rparr>)))
                    | None \<Rightarrow> Inl (''`ask` needs a question in double quotes: ask '' @ [quote] @ ''Is the plan right?'' @ [quote]))
              else if first = ''merge''
              then (case rest of
                      [] \<Rightarrow> Inl ''`merge` needs a fanned-out stage: merge build''
                    | (at', into) # _ \<Rightarrow>
                        (if into = ''main'' then Inl ''`merge main` isn't a stage: a run hands its branch back to the task's worktree, and you merge from there''
                         else (case stage_name into ''merge'' of
                             Inl e \<Rightarrow> Inl e
                           | Inr n \<Rightarrow> (case only_placement s (split_whitespace (drop (at' + length into) body)) ''merge'' of
                               Inl e \<Rightarrow> Inl e | Inr s \<Rightarrow> Inr (s\<lparr>st_kind := KMerge n\<rparr>)))))
              else (case read_agent s (map snd all) of Inl e \<Rightarrow> Inl e | Inr (s, a) \<Rightarrow> Inr (s\<lparr>st_kind := KAgent a\<rparr>))))"

subsection \<open>Lines\<close>

fun uncomment_from :: "bool \<Rightarrow> string \<Rightarrow> string" where
  "uncomment_from quoted [] = []"
| "uncomment_from quoted (c # cs) =
     (if c = quote then c # uncomment_from (\<not> quoted) cs
      else if c = CHR ''#'' \<and> \<not> quoted then []
      else c # uncomment_from quoted cs)"

definition uncomment :: "string \<Rightarrow> string" where
  "uncomment raw = uncomment_from False raw"

definition definition_of :: "string \<Rightarrow> (string \<times> string) option" where
  "definition_of line =
     (let name = takeWhile name_char line; rest = drop (length name) line
      in case strip_prefix ''='' (trim_start rest) of
           Some body \<Rightarrow> if is_name name then Some (name, trim body) else None
         | None \<Rightarrow> None)"

definition read_line :: "string \<Rightarrow> nat \<Rightarrow> line parsed" where
  "read_line line number =
     (case definition_of line of
        Some (name, body) \<Rightarrow>
          (if name = ''budget'' then map_sum id LBudget (read_budget body number)
           else if name = DONE then Inl (sq ''done'' @ '' is reserved: it ends the run'')
           else map_sum id LStage (read_stage name body number))
      | None \<Rightarrow>
          (if contains_str ''->'' line then map_sum id (\<lambda>(nodes, as). LFlow nodes as) (flow line number)
           else (case split_once ''='' line of
               Some (name, _) \<Rightarrow> Inl (''expected a stage name ([a-z][a-z0-9_]*), got '' @ sq (trim name))
             | None \<Rightarrow> Inl ''expected a stage (`name = ...`), a flow (`a -> b`) or the budget (`budget = N sessions, 8h`)'')))"

fun read_lines :: "nat \<Rightarrow> string list \<Rightarrow> line list \<times> pipe_error list" where
  "read_lines number [] = ([], [])"
| "read_lines number (raw # rest) =
     (let line = trim (uncomment raw); (lines, errors) = read_lines (number + 1) rest
      in if line = [] then (lines, errors)
         else (case read_line line number of
             Inr found \<Rightarrow> (found # lines, errors)
           | Inl message \<Rightarrow> (lines, pipe_err number RSyntax message # errors)))"

definition read :: "string \<Rightarrow> line list \<times> pipe_error list" where
  "read text = read_lines 1 (lines_str text)"

record gathered =
  ga_stages :: "stage list"
  ga_arrows :: "arrow list"
  ga_budget :: "budget option"
  ga_start :: "string option"
  ga_errors :: "pipe_error list"

fun gather :: "gathered \<Rightarrow> line \<Rightarrow> gathered" where
  "gather g (LStage s) =
     (case List.find (\<lambda>x. st_name x = st_name s) (ga_stages g) of
        Some first \<Rightarrow> g\<lparr>ga_errors := ga_errors g @ [pipe_err (st_line s) RRedefined
            (''stage '' @ sq (st_name s) @ '' is defined twice (first on line '' @ dec (st_line first) @ '')'')]\<rparr>
      | None \<Rightarrow> g\<lparr>ga_stages := ga_stages g @ [s]\<rparr>)"
| "gather g (LFlow nodes as) =
     g\<lparr>ga_start := (case ga_start g of Some s \<Rightarrow> Some s | None \<Rightarrow> (case nodes of [] \<Rightarrow> None | n # _ \<Rightarrow> Some n)), ga_arrows := ga_arrows g @ as\<rparr>"
| "gather g (LBudget b) =
     (case ga_budget g of
        Some first \<Rightarrow> g\<lparr>ga_errors := ga_errors g @ [pipe_err (bu_line b) RSyntax (''the budget is given twice (first on line '' @ dec (bu_line first) @ '')'')]\<rparr>
      | None \<Rightarrow> g\<lparr>ga_budget := Some b\<rparr>)"

text \<open>A single stage with no flow runs alone.\<close>

definition lone_stage :: "gathered \<Rightarrow> gathered" where
  "lone_stage g =
     (if ga_arrows g = [] \<and> length (ga_stages g) = 1
      then (let only = hd (ga_stages g)
            in g\<lparr>ga_start := Some (st_name only), ga_arrows := [plain_arrow (st_name only) DONE (st_line only)]\<rparr>)
      else g)"

definition start_error :: "gathered \<Rightarrow> pipe_error list" where
  "start_error g =
     (case ga_start g of
        Some _ \<Rightarrow> []
      | None \<Rightarrow>
          (if ga_stages g = []
           then (if ga_errors g = [] then [pipe_err 1 RSyntax ''define at least one stage, and a flow starting at it''] else [])
           else if ga_errors g \<noteq> [] then []
           else [pipe_err (st_line (hd (ga_stages g))) RSyntax ''a pipeline of several stages needs a flow line (`a -> b`); its first stage starts the run'']))"

definition parse :: "string \<Rightarrow> pipe_error list + pipeline" where
  "parse text =
     (let (lines, errors) = read text;
          g = lone_stage (foldl gather \<lparr>ga_stages = [], ga_arrows = [], ga_budget = None, ga_start = None, ga_errors = errors\<rparr> lines);
          errors = ga_errors g @ start_error g
      in if errors \<noteq> [] then Inl (sort_key pe_line errors)
         else Inr \<lparr>pi_stages = ga_stages g, pi_arrows = ga_arrows g, pi_budget = ga_budget g,
                pi_start = (case ga_start g of Some s \<Rightarrow> s | None \<Rightarrow> []), pi_text = text\<rparr>)"

end
