(* ===== verification/Pipe_Check.thy ===== *)
theory Pipe_Check
  imports Pipe_Parse
begin

text \<open>
  Checking a pipeline (\<open>kanna-pipe/src/check.rs\<close>): every arrow joins stages that exist and asks only for what
  its stage gives, every stage is reached and so is \<open>done\<close>, no loop is unbounded, every reference is to a
  stage that runs before on every path, and the worst case is within the budget.
\<close>

record check_context =
  cx_prompts :: "string \<rightharpoonup> string"
  cx_machine :: "string option"
  cx_machines :: "string list"
  cx_roles :: "string list"
  cx_sizes :: sizes

definition STRUCTURE :: "rule list" where
  "STRUCTURE = [RUndefined, RAfterDone, RVerdict, RProgress, RReset, RUnbounded]"

text \<open>The map from names to stages the checks use: the last stage of a name counts.\<close>

definition stage_map :: "pipeline \<Rightarrow> string \<Rightarrow> stage option" where
  "stage_map p n = List.find (\<lambda>s. st_name s = n) (rev (pi_stages p))"

subsection \<open>Arrows\<close>

definition check_arrow :: "pipeline \<Rightarrow> arrow \<Rightarrow> pipe_error list" where
  "check_arrow p a =
     (if ar_from a = DONE then [pipe_err (ar_line a) RAfterDone (''nothing can follow '' @ sq ''done'' @ '': it ends the run'')]
      else map (\<lambda>e. pipe_err (ar_line a) RUndefined (''no stage named '' @ sq e))
             (filter (\<lambda>e. e \<noteq> DONE \<and> stage_map p e = None) [ar_from a, ar_to a]) @
        (case stage_map p (ar_from a) of
           None \<Rightarrow> []
         | Some from \<Rightarrow>
             (case ar_when a of
                Some w \<Rightarrow>
                  (if verdicts from then []
                   else [pipe_err (ar_line a) RVerdict (''['' @ verdict_name w @ ''] needs a stage with a verdict, and '' @ sq (st_name from) @
                          '' gives none: add verdict to it, or make it a run, ask or merge stage'')])
              | None \<Rightarrow> []) @
             (if ar_progress a \<and> \<not> is_run from
              then [pipe_err (ar_line a) RProgress (''[progress] needs a run stage, and '' @ sq (st_name from) @ '' is '' @ stage_what from)] else []) @
             (if ar_reset a \<and> (case stage_map p (ar_to a) of None \<Rightarrow> True | Some to \<Rightarrow> stage_agent to = None)
              then [pipe_err (ar_line a) RReset (''[reset] must lead to an agent stage, and '' @ sq (ar_to a) @ '' is '' @
                     (case stage_map p (ar_to a) of None \<Rightarrow> ''done'' | Some to \<Rightarrow> stage_what to))] else [])))"

definition check_arrows :: "pipeline \<Rightarrow> pipe_error list" where
  "check_arrows p = concat (map (check_arrow p) (pi_arrows p))"

subsection \<open>Reaching\<close>

definition targets :: "pipeline \<Rightarrow> string \<Rightarrow> string list" where
  "targets p s = map ar_to (filter (\<lambda>a. ar_from a = s) (pi_arrows p))"

lemma targets_subset: "set (targets p s) \<subseteq> ar_to ` set (pi_arrows p)"
  by (auto simp: targets_def)

text \<open>Why a search with a work list of names ends.\<close>

definition reach_order :: "pipeline \<Rightarrow> ((string list \<times> string list) \<times> string list \<times> string list) set" where
  "reach_order p = measures [\<lambda>(todo, seen). card ((set todo \<union> ar_to ` set (pi_arrows p)) - set seen), \<lambda>(todo, _). length todo]"

lemma reach_order_skip: "((todo, seen), todo', seen) \<in> reach_order p" if "set todo \<subseteq> set todo'" "length todo < length todo'"
proof -
  have "card ((set todo \<union> ar_to ` set (pi_arrows p)) - set seen) \<le> card ((set todo' \<union> ar_to ` set (pi_arrows p)) - set seen)"
    using that by (intro card_mono) auto
  with that show ?thesis by (auto simp: reach_order_def le_less)
qed

lemma reach_order_visit:
  assumes "s \<in> set todo'" "s \<notin> set seen" "set todo \<subseteq> set todo' \<union> ar_to ` set (pi_arrows p)"
  shows "((todo, seen @ [s]), todo', seen) \<in> reach_order p"
proof -
  have "card ((set todo \<union> ar_to ` set (pi_arrows p)) - set (seen @ [s])) < card ((set todo' \<union> ar_to ` set (pi_arrows p)) - set seen)"
    using assms by (intro psubset_card_mono) auto
  then show ?thesis unfolding reach_order_def by (intro measures_less) simp
qed

text \<open>The work list's last entry is taken first (\<open>todo.pop()\<close>).\<close>

function reach_loop :: "pipeline \<Rightarrow> string option \<Rightarrow> string list \<Rightarrow> string list \<Rightarrow> string list" where
  "reach_loop p avoid todo seen =
     (if todo = [] then seen
      else (let s = last todo; todo = butlast todo
            in if Some s = avoid then reach_loop p avoid todo seen
               else if s \<in> set seen then reach_loop p avoid todo seen
               else if s = DONE then reach_loop p avoid todo (seen @ [s])
               else reach_loop p avoid (todo @ targets p s) (seen @ [s])))"
  by pat_completeness auto
termination
proof (relation "inv_image (same_fst (\<lambda>_. True) (\<lambda>p. reach_order p)) (\<lambda>(p, _, todo, seen). (p, todo, seen))")
  show "wf (inv_image (same_fst (\<lambda>_. True) (\<lambda>p. reach_order p)) (\<lambda>(p, _, todo, seen). (p, todo, seen)))"
    by (intro wf_inv_image wf_same_fst) (simp add: reach_order_def)
qed (auto simp: same_fst_def intro!: reach_order_skip reach_order_visit dest: in_set_butlastD subsetD [OF targets_subset] last_in_set)

declare reach_loop.simps [simp del]

definition reachable :: "pipeline \<Rightarrow> string option \<Rightarrow> string list" where
  "reachable p avoid = reach_loop p avoid [pi_start p] []"

definition runs_before :: "pipeline \<Rightarrow> string \<Rightarrow> string \<Rightarrow> bool" where
  "runs_before p first later \<longleftrightarrow> first \<noteq> later \<and> first \<in> set (reachable p None) \<and> later \<notin> set (reachable p (Some first))"

definition check_reach :: "pipeline \<Rightarrow> pipe_error list" where
  "check_reach p =
     (if stage_map p (pi_start p) = None then []
      else (let seen = reachable p None
            in map (\<lambda>s. pipe_err (st_line s) RUnreachable (''stage '' @ sq (st_name s) @ '' is never reached from '' @ sq (pi_start p) @ '', where the run starts''))
                 (filter (\<lambda>s. st_name s \<notin> set seen) (pi_stages p)) @
               (if DONE \<in> set seen then []
                else [pipe_err (case pi_arrows p of [] \<Rightarrow> 1 | a # _ \<Rightarrow> ar_line a) RNoDone
                       (''no flow from '' @ sq (pi_start p) @ '' reaches done, so the run could only end stuck'')])))"

subsection \<open>Loops\<close>

datatype mark = Open | Closed

type_synonym marks = "string \<rightharpoonup> mark"

definition free_arrows :: "pipeline \<Rightarrow> string \<Rightarrow> arrow list" where
  "free_arrows p s = filter (\<lambda>a. ar_from a = s \<and> ar_max a = None \<and> ar_to a \<noteq> DONE) (pi_arrows p)"

text \<open>
  \<open>visit\<close> with fuel: its recursion enters only names without a mark, so it is no deeper than the arrows are
  many; \<^const>\<open>None\<close> is the fuel running out.
\<close>

function visit :: "nat \<Rightarrow> pipeline \<Rightarrow> string \<Rightarrow> marks \<Rightarrow> (nat option \<times> marks) option"
  and visit_arrows :: "nat \<Rightarrow> pipeline \<Rightarrow> arrow list \<Rightarrow> marks \<Rightarrow> (nat option \<times> marks) option" where
  "visit fuel p s st =
     (case st s of
        Some Closed \<Rightarrow> Some (None, st)
      | Some Open \<Rightarrow> Some (Some 0, st)
      | None \<Rightarrow> (case fuel of
          0 \<Rightarrow> None
        | Suc f \<Rightarrow> (case visit_arrows f p (free_arrows p s) (st(s \<mapsto> Open)) of
            None \<Rightarrow> None
          | Some (Some line, st) \<Rightarrow> Some (Some line, st)
          | Some (None, st) \<Rightarrow> Some (None, st(s \<mapsto> Closed)))))"
| "visit_arrows f p [] st = Some (None, st)"
| "visit_arrows f p (a # as) st =
     (case visit f p (ar_to a) st of
        None \<Rightarrow> None
      | Some (Some line, st) \<Rightarrow> Some (Some (if line = 0 then ar_line a else line), st)
      | Some (None, st) \<Rightarrow> visit_arrows f p as st)"
  by pat_completeness auto
termination
  by (relation "measures [\<lambda>x. case x of Inl (f, _) \<Rightarrow> f | Inr (f, _) \<Rightarrow> f, \<lambda>x. case x of Inl _ \<Rightarrow> 0 | Inr (_, _, as, _) \<Rightarrow> Suc (length as)]") auto

declare visit.simps [simp del]

fun visit_stages :: "nat \<Rightarrow> pipeline \<Rightarrow> stage list \<Rightarrow> marks \<Rightarrow> nat option option" where
  "visit_stages fuel p [] st = Some None"
| "visit_stages fuel p (s # ss) st =
     (case visit fuel p (st_name s) st of
        None \<Rightarrow> None
      | Some (Some line, _) \<Rightarrow> Some (Some line)
      | Some (None, st) \<Rightarrow> visit_stages fuel p ss st)"

definition loop_line :: "pipeline \<Rightarrow> nat option option" where
  "loop_line p = visit_stages (Suc (length (pi_arrows p))) p (pi_stages p) Map.empty"

definition check_loops :: "pipeline \<Rightarrow> pipe_error list" where
  "check_loops p =
     (case loop_line p of
        Some (Some line) \<Rightarrow> [pipe_err line RUnbounded ''this loop has no [max N] on any of its arrows, so the run might never end'']
      | _ \<Rightarrow> [])"

subsection \<open>References\<close>

function placeholders :: "string \<Rightarrow> (string \<times> string) list" where
  "placeholders text =
     (case split_once ''{{'' text of
        None \<Rightarrow> []
      | Some (_, rest) \<Rightarrow> (case split_once ''}}'' rest of
          None \<Rightarrow> []
        | Some (inner, rest) \<Rightarrow>
            (case split_once ''.'' (trim inner) of
               Some (s, k) \<Rightarrow> if is_name s \<and> k \<noteq> [] then [(s, k)] else []
             | None \<Rightarrow> []) @ placeholders rest))"
  by pat_completeness auto
termination
  by (relation "measure length") (auto dest!: split_once_SomeD)

declare placeholders.simps [simp del]

definition check_merge :: "pipeline \<Rightarrow> stage \<Rightarrow> pipe_error list" where
  "check_merge p s =
     (case st_kind s of
        KMerge from \<Rightarrow>
          (if (case Option.bind (stage_map p from) stage_agent of Some a \<Rightarrow> ag_each a \<noteq> None | None \<Rightarrow> False) then []
           else [pipe_err (st_line s) RMerge (''merge '' @ from @ '' needs '' @ sq from @ '' to be a stage with each'')])
      | _ \<Rightarrow> [])"

definition check_each :: "pipeline \<Rightarrow> stage \<Rightarrow> pipe_agent \<Rightarrow> pipe_error list" where
  "check_each p s a =
     (case ag_each a of
        None \<Rightarrow> []
      | Some each \<Rightarrow> (case stage_map p (out_stage each) of
          None \<Rightarrow> [pipe_err (st_line s) REach (''each '' @ output_show each @ '': no stage named '' @ sq (out_stage each))]
        | Some from \<Rightarrow>
            (if stage_agent from = None
             then [pipe_err (st_line s) REach (''each '' @ output_show each @ '' needs an agent stage's answer, and '' @ sq (out_stage each) @ '' is '' @ stage_what from)]
             else if \<not> runs_before p (out_stage each) (st_name s)
             then [pipe_err (st_line s) REach (''each '' @ output_show each @ '' needs '' @ sq (out_stage each) @ '' to run before '' @ sq (st_name s) @ '' on every path'')]
             else [])))"

definition check_scorer :: "pipeline \<Rightarrow> stage \<Rightarrow> string \<times> string \<Rightarrow> pipe_error list" where
  "check_scorer p s = (\<lambda>(word, scorer).
     (case stage_map p scorer of
        None \<Rightarrow> [pipe_err (st_line s) RScorer (word @ '' '' @ scorer @ '': no stage named '' @ sq scorer)]
      | Some found \<Rightarrow>
          (if is_run found then []
           else [pipe_err (st_line s) RScorer (word @ '' '' @ scorer @ '' needs a run stage to score the code, and '' @ sq scorer @ '' is '' @ stage_what found)])))"

definition scorers :: "pipe_agent \<Rightarrow> (string \<times> string) list" where
  "scorers a = (case ag_attempts a of Some t \<Rightarrow> [(''by'', at_by t)] | None \<Rightarrow> []) @ (case ag_guard a of Some g \<Rightarrow> [(''guard'', g)] | None \<Rightarrow> [])"

definition check_prompt :: "pipeline \<Rightarrow> check_context \<Rightarrow> stage \<Rightarrow> pipe_error list" where
  "check_prompt p cx s =
     (let prompt = (case stage_prompt s of Some q \<Rightarrow> q | None \<Rightarrow> [])
      in case cx_prompts cx prompt of
           None \<Rightarrow> [pipe_err (st_line s) RPrompt (''no prompt .kanna/prompts/'' @ prompt @ ''.md'')]
         | Some text \<Rightarrow>
             concat (map (\<lambda>(from, _).
               if stage_map p from = None
               then [pipe_err (st_line s) RPrompt (''prompt '' @ prompt @ '' uses {{'' @ from @ ''....}}, and there's no stage named '' @ sq from)]
               else if \<not> runs_before p from (st_name s)
               then [pipe_err (st_line s) RPrompt (''prompt '' @ prompt @ '' uses {{'' @ from @ ''....}}, but '' @ sq from @ '' doesn't run before '' @ sq (st_name s) @ '' on every path'')]
               else []) (placeholders text)))"

definition check_references :: "pipeline \<Rightarrow> check_context \<Rightarrow> stage \<Rightarrow> pipe_error list" where
  "check_references p cx s =
     check_merge p s @
     (case stage_agent s of
        None \<Rightarrow> []
      | Some a \<Rightarrow>
          check_each p s a @ concat (map (check_scorer p s) (scorers a)) @
          (case ag_resume a of
             Some r \<Rightarrow> (if (case stage_map p r of Some x \<Rightarrow> stage_agent x \<noteq> None | None \<Rightarrow> False) then []
                        else [pipe_err (st_line s) RResume (''resume '' @ r @ '' needs '' @ sq r @ '' to be an agent stage'')])
           | None \<Rightarrow> []) @
          check_prompt p cx s)"

definition check_placement :: "check_context \<Rightarrow> stage \<Rightarrow> pipe_error list" where
  "check_placement cx s =
     (case st_on s of
        None \<Rightarrow> []
      | Some on \<Rightarrow>
          (if on = ''here'' \<or> on = ''any'' \<or> cx_machine cx = Some on \<or> on \<in> set (cx_machines cx) \<or> on \<in> set (cx_roles cx) then []
           else [pipe_err (st_line s) RPlacement (''no such machine '' @ sq on @ '': use here, any, or one of your machines or roles'')]))"

subsection \<open>The whole check\<close>

definition structure_errors :: "pipeline \<Rightarrow> check_context \<Rightarrow> pipe_error list" where
  "structure_errors p cx =
     check_arrows p @ check_reach p @ check_loops p @ concat (map (\<lambda>s. check_references p cx s @ check_placement cx s) (pi_stages p))"

text \<open>The budget is checked only when the structure is sound; \<open>worst\<close> then terminates (fuel: see the walk).\<close>

definition check_budget :: "nat \<Rightarrow> pipeline \<Rightarrow> check_context \<Rightarrow> pipe_error list option" where
  "check_budget fuel p cx =
     (case pi_budget p of
        None \<Rightarrow> Some []
      | Some b \<Rightarrow> map_option (\<lambda>most. case bu_sessions b of
            Some n \<Rightarrow> if most > n then [pipe_err (bu_line b) RBudget (''the worst case is '' @ dec (unat most) @ '' sessions, over the budget of '' @ dec (unat n))] else []
          | None \<Rightarrow> []) (max_sessions fuel p (cx_sizes cx)))"

definition check :: "nat \<Rightarrow> pipeline \<Rightarrow> check_context \<Rightarrow> (pipe_error list + unit) option" where
  "check fuel p cx =
     (let errors = structure_errors p cx
      in map_option (\<lambda>extra. let errors = errors @ extra in if errors = [] then Inr () else Inl (remdups_adj (sort_key pe_line errors)))
           (if \<exists>e \<in> set errors. pe_rule e \<in> set STRUCTURE then Some [] else check_budget fuel p cx))"

definition load :: "nat \<Rightarrow> string \<Rightarrow> check_context \<Rightarrow> (pipe_error list + pipeline) option" where
  "load fuel text cx =
     (case parse text of
        Inl es \<Rightarrow> Some (Inl es)
      | Inr p \<Rightarrow> map_option (\<lambda>r. case r of Inl es \<Rightarrow> Inl es | Inr _ \<Rightarrow> Inr p) (check fuel p cx))"

end
