(* ===== verification/Pipe_Revise.thy ===== *)
theory Pipe_Revise
  imports Pipe_Check
begin

text \<open>
  Changing a pipeline while it runs (\<open>kanna-pipe/src/revise.rs\<close>): a block an agent emits, or a new text. A
  revision carries over how often each arrow was taken: \<open>carried\<close> gives the old index of each new arrow.
\<close>

record revision =
  re_pipeline :: pipeline
  re_carried :: "nat option list"

definition revision_taken :: "revision \<Rightarrow> u32 list \<Rightarrow> u32 list" where
  "revision_taken r before =
     map (\<lambda>old. case old of Some i \<Rightarrow> (if i < length before then before ! i else 0) | None \<Rightarrow> 0) (re_carried r)"

datatype origin = OLine nat | OArrow nat | ONew

type_synonym sourced = "string \<times> origin"

record block =
  bl_added :: "sourced list"
  bl_ahead :: "sourced list"
  bl_after :: "sourced list"
  bl_names :: "string list"
  bl_errors :: "pipe_error list"

definition add_arrow :: "string \<Rightarrow> block \<Rightarrow> arrow \<Rightarrow> block" where
  "add_arrow emitter b a =
     (if ar_from a = emitter then b\<lparr>bl_ahead := bl_ahead b @ [(arrow_render a, ONew)]\<rparr>
      else b\<lparr>bl_after := bl_after b @ [(arrow_render a, ONew)]\<rparr>)"

fun add_line :: "pipeline \<Rightarrow> string \<Rightarrow> string list \<Rightarrow> block \<Rightarrow> line \<Rightarrow> block" where
  "add_line current emitter raw b (LStage s) =
     (if stage_named current (st_name s) \<noteq> None \<or> st_name s \<in> set (bl_names b)
      then b\<lparr>bl_errors := bl_errors b @ [pipe_err (st_line s) RRedefined (''stage '' @ sq (st_name s) @ '' exists already; a kojo block can only add stages'')]\<rparr>
      else b\<lparr>bl_names := bl_names b @ [st_name s], bl_added := bl_added b @ [(trim (raw ! (st_line s - 1)), ONew)]\<rparr>)"
| "add_line current emitter raw b (LBudget u) =
     b\<lparr>bl_errors := bl_errors b @ [pipe_err (bu_line u) REmits ''a kojo block can't change the budget'']\<rparr>"
| "add_line current emitter raw b (LFlow nodes as) = foldl (add_arrow emitter) b as"

text \<open>The lines of the text, with what is added before the emitter's first arrow and after the last stage.\<close>

fun weave :: "nat \<Rightarrow> nat option \<Rightarrow> nat \<Rightarrow> sourced list \<Rightarrow> sourced list \<Rightarrow> string list \<Rightarrow> sourced list" where
  "weave number first_arrow last_stage ahead added [] = added @ ahead"
| "weave number first_arrow last_stage ahead added (line # rest) =
     (if Some number = first_arrow then ahead else []) @ [(line, OLine number)] @ (if number = last_stage then added else []) @
     weave (number + 1) first_arrow last_stage (if Some number = first_arrow then [] else ahead) (if number = last_stage then [] else added) rest"

definition nth_opt :: "'a list \<Rightarrow> nat \<Rightarrow> 'a option" where
  "nth_opt xs i = (if i < length xs then Some (xs ! i) else None)"

definition old_arrow :: "pipeline \<Rightarrow> sourced list \<Rightarrow> arrow \<Rightarrow> nat \<Rightarrow> nat option" where
  "old_arrow current out a kth =
     (case map_option snd (nth_opt out (ar_line a - 1)) of
        Some (OLine line) \<Rightarrow> map_option fst (nth_opt (filter (\<lambda>(i, b). ar_line b = line) (enumerate 0 (pi_arrows current))) kth)
      | Some (OArrow i) \<Rightarrow> Some i
      | _ \<Rightarrow> None)"

text \<open>\<open>nth\<close> in the code counts the arrows of one line: the last line seen, and the count there.\<close>

fun carry :: "pipeline \<Rightarrow> sourced list \<Rightarrow> nat \<times> nat \<Rightarrow> arrow list \<Rightarrow> nat option list" where
  "carry current out kth [] = []"
| "carry current out kth (a # as) =
     (let kth = (if fst kth = ar_line a then (ar_line a, snd kth + 1) else (ar_line a, 0))
      in old_arrow current out a (snd kth) # carry current out kth as)"

definition woven_text :: "pipeline \<Rightarrow> sourced list \<Rightarrow> string" where
  "woven_text current out =
     (let text = concat (map (\<lambda>(line, _). line @ [newline]) out)
      in if \<not> ends_with [newline] (pi_text current) \<and> length (lines_str (pi_text current)) = length out then butlast text else text)"

definition revise :: "nat \<Rightarrow> pipeline \<Rightarrow> sourced list \<Rightarrow> check_context \<Rightarrow> (pipe_error list + revision) option" where
  "revise fuel current out cx =
     (case parse (woven_text current out) of
        Inl es \<Rightarrow> Some (Inl es)
      | Inr p \<Rightarrow> map_option (\<lambda>r. case r of
            Inl es \<Rightarrow> Inl es
          | Inr _ \<Rightarrow> Inr \<lparr>re_pipeline = p, re_carried = carry current out (0, 0) (pi_arrows p)\<rparr>) (check fuel p cx))"

definition emitted :: "nat \<Rightarrow> pipeline \<Rightarrow> string \<Rightarrow> string \<Rightarrow> check_context \<Rightarrow> (pipe_error list + revision) option" where
  "emitted fuel current emitter answer cx =
     (case stage_named current emitter of
        None \<Rightarrow> Some (Inl [pipe_err 1 REmits (''no stage named '' @ sq emitter)])
      | Some s \<Rightarrow>
          (if \<not> (case stage_agent s of Some a \<Rightarrow> ag_emits a | None \<Rightarrow> False)
           then Some (Inl [pipe_err (st_line s) REmits (''stage '' @ sq emitter @ '' has no emits, so its answer can't change the pipeline'')])
           else (let (lines, errors) = read answer;
                     b = foldl (add_line current emitter (lines_str answer)) \<lparr>bl_added = [], bl_ahead = [], bl_after = [], bl_names = [], bl_errors = errors\<rparr> lines
                 in if bl_errors b \<noteq> [] then Some (Inl (bl_errors b))
                    else (let stage_lines = map st_line (pi_stages current);
                              after = foldl (\<lambda>after (i, a). (arrow_render a, OArrow i) # after) (bl_after b)
                                (filter (\<lambda>(i, a). ar_line a \<in> set stage_lines) (enumerate 0 (pi_arrows current)));
                              last_stage = foldl max 0 stage_lines;
                              first_arrow = map_option ar_line (List.find (\<lambda>a. ar_from a = emitter \<and> ar_line a \<notin> set stage_lines) (pi_arrows current))
                          in revise fuel current (weave 1 first_arrow last_stage (bl_ahead b) (bl_added b) (lines_str (pi_text current)) @ after) cx))))"

text \<open>Each arrow of the new text takes the first old arrow that is the same and not taken yet.\<close>

fun match_arrows :: "arrow list \<Rightarrow> bool list \<Rightarrow> arrow list \<Rightarrow> nat option list" where
  "match_arrows old used [] = []"
| "match_arrows old used (a # as) =
     (case position (\<lambda>(i, b). \<not> used ! i \<and> arrow_same b a) (enumerate 0 old) of
        Some i \<Rightarrow> Some i # match_arrows old (used[i := True]) as
      | None \<Rightarrow> None # match_arrows old used as)"

definition edited :: "nat \<Rightarrow> pipeline \<Rightarrow> string \<Rightarrow> check_context \<Rightarrow> (pipe_error list + revision) option" where
  "edited fuel current text cx =
     (case parse text of
        Inl es \<Rightarrow> Some (Inl es)
      | Inr p \<Rightarrow> map_option (\<lambda>r. case r of
            Inl es \<Rightarrow> Inl es
          | Inr _ \<Rightarrow> Inr \<lparr>re_pipeline = p, re_carried = match_arrows (pi_arrows current) (replicate (length (pi_arrows current)) False) (pi_arrows p)\<rparr>)
          (check fuel p cx))"

end
