(* ===== verification/Pipe_Loops.thy ===== *)
theory Pipe_Loops
  imports Pipe_Check
begin

text \<open>
  What the graph searches of \<open>kanna-pipe/src/check.rs\<close> compute. \<open>reachable\<close> is reachability along arrows
  (stopping at \<open>done\<close>, and avoiding a name); \<open>runs_before\<close> is dominance, that every path to the one name
  passes the other; and the depth-first search \<open>visit\<close> finds a cycle of arrows without \<open>max\<close> exactly when
  there is one.
\<close>

subsection \<open>Reachability\<close>

text \<open>The paths of a flow: the names that follow \<open>s\<close>, each the target of an arrow from the one before it.\<close>

fun flow_path :: "pipeline \<Rightarrow> string \<Rightarrow> string list \<Rightarrow> bool" where
  "flow_path p s [] \<longleftrightarrow> True"
| "flow_path p s (x # xs) \<longleftrightarrow> s \<noteq> DONE \<and> x \<in> set (targets p s) \<and> flow_path p x xs"

inductive reaches :: "pipeline \<Rightarrow> string option \<Rightarrow> string \<Rightarrow> bool" for p avoid where
  start: "Some (pi_start p) \<noteq> avoid \<Longrightarrow> reaches p avoid (pi_start p)"
| follow: "reaches p avoid s \<Longrightarrow> s \<noteq> DONE \<Longrightarrow> t \<in> set (targets p s) \<Longrightarrow> Some t \<noteq> avoid \<Longrightarrow> reaches p avoid t"

inductive_cases reachesE: "reaches p avoid t"

lemma flow_path_snoc: "flow_path p s (xs @ [t]) \<longleftrightarrow> flow_path p s xs \<and> last (s # xs) \<noteq> DONE \<and> t \<in> set (targets p (last (s # xs)))"
  by (induction xs arbitrary: s) auto

lemma reaches_path: "reaches p avoid t \<longleftrightarrow>
    (\<exists>xs. flow_path p (pi_start p) xs \<and> last (pi_start p # xs) = t \<and> (\<forall>x \<in> set (pi_start p # xs). Some x \<noteq> avoid))"
  (is "_ \<longleftrightarrow> (\<exists>xs. ?P xs t)")
proof
  assume "reaches p avoid t"
  then show "\<exists>xs. ?P xs t"
  proof induction
    case start
    then show ?case by (intro exI [of _ "[]"]) simp
  next
    case (follow s t)
    then obtain xs where "?P xs s" by blast
    with follow show ?case by (intro exI [of _ "xs @ [t]"]) (auto simp: flow_path_snoc)
  qed
next
  assume "\<exists>xs. ?P xs t"
  then obtain xs where "?P xs t" ..
  then show "reaches p avoid t"
  proof (induction xs arbitrary: t rule: rev_induct)
    case Nil
    then show ?case by (auto intro: start)
  next
    case (snoc x xs)
    then have p: "flow_path p (pi_start p) xs" "last (pi_start p # xs) \<noteq> DONE" "x \<in> set (targets p (last (pi_start p # xs)))"
      unfolding flow_path_snoc by blast+
    moreover have "reaches p avoid (last (pi_start p # xs))" using snoc p by simp
    moreover have "x = t" "Some t \<noteq> avoid" using snoc.prems by auto
    ultimately show ?case using follow by blast
  qed
qed

text \<open>The search is a work list; the list of the locale has its top at the head.\<close>

definition flow_targets :: "pipeline \<Rightarrow> string \<Rightarrow> string list" where
  "flow_targets p s = (if s = DONE then [] else targets p s)"

interpretation flow: work_list "\<lambda>s. Some s = avoid" "flow_targets p" "\<lambda>todo. reach_loop p avoid (rev todo)" "reach_order p" for p avoid
proof
  show "wf (reach_order p)" by (simp add: reach_order_def)
  show "reach_loop p avoid (rev []) seen = seen" for seen by (simp add: reach_loop.simps)
next
  fix s seen todo
  assume "Some s = avoid \<or> s \<in> set seen"
  then show "reach_loop p avoid (rev (s # todo)) seen = reach_loop p avoid (rev todo) seen \<and> ((todo, seen), s # todo, seen) \<in> reach_order p"
    by (subst reach_loop.simps) (auto simp: Let_def intro: reach_order_skip)
next
  fix s seen todo
  assume s: "Some s \<noteq> avoid" "s \<notin> set seen"
  let ?todo = "rev (flow_targets p s) @ todo"
  have "((?todo, seen @ [s]), s # todo, seen) \<in> reach_order p"
    using s targets_subset [of p s] by (intro reach_order_visit) (auto simp: flow_targets_def)
  moreover have "reach_loop p avoid (rev (s # todo)) seen = reach_loop p avoid (rev ?todo) (seen @ [s])"
    using s by (subst reach_loop.simps) (simp add: flow_targets_def Let_def)
  ultimately show "\<exists>todo'. set todo' = set (flow_targets p s) \<union> set todo \<and> reach_loop p avoid (rev (s # todo)) seen = reach_loop p avoid (rev todo') (seen @ [s]) \<and>
      ((todo', seen @ [s]), s # todo, seen) \<in> reach_order p"
    by (intro exI [of _ ?todo]) simp
qed

lemma reached_by_flow: "reached_by (\<lambda>s. Some s = avoid) (flow_targets p) {pi_start p} s \<longleftrightarrow> reaches p avoid s"
proof
  show "reaches p avoid s" if "reached_by (\<lambda>s. Some s = avoid) (flow_targets p) {pi_start p} s"
    using that by induction (auto simp: flow_targets_def intro: reaches.intros split: if_splits)
  show "reached_by (\<lambda>s. Some s = avoid) (flow_targets p) {pi_start p} s" if "reaches p avoid s"
    using that by induction (auto simp: flow_targets_def intro: reached_by.intros)
qed

lemma set_reachable: "set (reachable p avoid) = {s. reaches p avoid s}"
  using flow.loop_finds(2) [of p avoid "[pi_start p]"] by (simp add: reachable_def reached_by_flow)

lemma runs_before_iff:
  "runs_before p first later \<longleftrightarrow> first \<noteq> later \<and>
     (\<exists>xs. flow_path p (pi_start p) xs \<and> last (pi_start p # xs) = first) \<and>
     (\<forall>xs. flow_path p (pi_start p) xs \<and> last (pi_start p # xs) = later \<longrightarrow> first \<in> set (butlast (pi_start p # xs)))"
proof (cases "first = later")
  case False
  have "first \<in> set (butlast (pi_start p # xs)) \<longleftrightarrow> first \<in> set (pi_start p # xs)" if "last (pi_start p # xs) = later" for xs
  proof -
    have "set (pi_start p # xs) = set (butlast (pi_start p # xs) @ [later])"
      unfolding that [symmetric] by (subst append_butlast_last_id) simp_all
    then show ?thesis using False by auto
  qed
  then show ?thesis unfolding runs_before_def set_reachable mem_Collect_eq reaches_path by (auto simp del: butlast.simps last.simps)
qed (simp add: runs_before_def)

subsection \<open>Properties\<close>

text \<open>
  C37. \<open>runs_before\<close>, which the checker asks of every reference between stages, is dominance: the first stage
  is on some path from the start, and every path from the start to the later stage passes it before.
\<close>

theorem runs_before_dominates:
  "runs_before p first later \<longleftrightarrow> first \<noteq> later \<and>
     (\<exists>xs. flow_path p (pi_start p) xs \<and> last (pi_start p # xs) = first) \<and>
     (\<forall>xs. flow_path p (pi_start p) xs \<and> last (pi_start p # xs) = later \<longrightarrow> first \<in> set (butlast (pi_start p # xs)))"
  by (rule runs_before_iff)

definition review_loop :: pipeline where
  "review_loop = \<lparr>pi_stages =
       [\<lparr>st_name = ''build'', st_line = 1, st_kind = KRun ''make'', st_on = None, st_within = None\<rparr>,
        \<lparr>st_name = ''review'', st_line = 2, st_kind = KAsk ''Good?'', st_on = None, st_within = None\<rparr>],
     pi_arrows = [plain_arrow ''build'' ''review'' 3,
       (plain_arrow ''review'' ''build'' 4)\<lparr>ar_when := Some Fail, ar_max := Some 2\<rparr>, plain_arrow ''review'' DONE 5],
     pi_budget = None, pi_start = ''build'', pi_text = []\<rparr>"

theorem runs_before_dominates_witness:
  "{xs. flow_path review_loop ''build'' xs \<and> last (''build'' # xs) = ''review''} \<subseteq> {xs. ''build'' \<in> set (butlast (''build'' # xs))}"
proof -
  have "runs_before review_loop ''build'' ''review''" by code_simp
  moreover have "pi_start review_loop = ''build''" by (simp add: review_loop_def)
  ultimately show ?thesis unfolding runs_before_dominates by (simp add: Collect_mono_iff del: butlast.simps last.simps)
qed


text \<open>
  The search for unbounded loops (\<open>loops\<close> in \<open>kanna-pipe/src/check.rs\<close>): it always ends, and it reports a line
  exactly when the arrows without \<open>max\<close> have a cycle that a stage reaches; the line is one of the cycle's.
\<close>

definition free :: "pipeline \<Rightarrow> (string \<times> string) set" where
  "free p = {(ar_from a, ar_to a) | a. a \<in> set (pi_arrows p) \<and> ar_max a = None \<and> ar_to a \<noteq> DONE}"

definition loop_arrow :: "pipeline \<Rightarrow> arrow \<Rightarrow> bool" where
  "loop_arrow p a \<longleftrightarrow> a \<in> set (pi_arrows p) \<and> ar_max a = None \<and> ar_to a \<noteq> DONE \<and> (ar_to a, ar_from a) \<in> (free p)\<^sup>*"

lemma free_arrows_free: "a \<in> set (free_arrows p s) \<Longrightarrow> (s, ar_to a) \<in> free p \<and> ar_from a = s \<and> a \<in> set (pi_arrows p) \<and> ar_max a = None \<and> ar_to a \<noteq> DONE"
  by (auto simp: free_arrows_def free_def)

lemma free_arrowsI: "(s, t) \<in> free p \<Longrightarrow> \<exists>a \<in> set (free_arrows p s). ar_to a = t"
  by (auto simp: free_arrows_def free_def)

subsection \<open>The search ends\<close>

definition all_targets :: "pipeline \<Rightarrow> string set" where
  "all_targets p = ar_to ` set (pi_arrows p)"

lemma finite_all_targets [simp]: "finite (all_targets p)"
  by (simp add: all_targets_def)

lemma visit_ends:
  "card (insert s (all_targets p) - dom st) \<le> fuel \<Longrightarrow> \<exists>r st'. visit fuel p s st = Some (r, st') \<and> dom st \<subseteq> dom st'"
  "set as \<subseteq> set (pi_arrows p) \<Longrightarrow> card (all_targets p - dom st) \<le> f \<Longrightarrow> \<exists>r st'. visit_arrows f p as st = Some (r, st') \<and> dom st \<subseteq> dom st'"
proof (induction fuel p s st and f p as st rule: visit_visit_arrows.induct)
  case (1 fuel p s st)
  show ?case
  proof (cases "st s")
    case None
    let ?st = "st(s \<mapsto> Open)"
    have "card (all_targets p - dom ?st) < card (insert s (all_targets p) - dom st)"
      using None by (intro psubset_card_mono) auto
    then obtain f where f: "fuel = Suc f" "card (all_targets p - dom ?st) \<le> f" using 1(2) by (cases fuel) auto
    have "set (free_arrows p s) \<subseteq> set (pi_arrows p)" by (auto simp: free_arrows_def)
    from 1(1) [OF None f(1) this f(2)] obtain r st1
      where v: "visit_arrows f p (free_arrows p s) ?st = Some (r, st1)" "dom ?st \<subseteq> dom st1" by blast
    show ?thesis using None f(1) v by (cases r) (auto simp: visit.simps)
  qed (auto simp: visit.simps split: mark.splits)
next
  case (3 f p a as st)
  have "insert (ar_to a) (all_targets p) = all_targets p" using 3(3) by (auto simp: all_targets_def)
  then obtain r st1 where v: "visit f p (ar_to a) st = Some (r, st1)" "dom st \<subseteq> dom st1"
    using 3(1) 3(4) by auto
  show ?case
  proof (cases r)
    case None
    have "card (all_targets p - dom st1) \<le> f"
      using 3(4) v(2) card_mono [of "all_targets p - dom st" "all_targets p - dom st1"] by fastforce
    then show ?thesis using 3(2) [OF v(1) refl None] 3(3) v None by (auto simp: visit_arrows.simps)
  qed (use v in \<open>auto simp: visit_arrows.simps\<close>)
qed (simp add: visit_arrows.simps)

lemma visit_fuel: "\<exists>r st'. visit (Suc (length (pi_arrows p))) p s st = Some (r, st')"
proof -
  have "card (insert s (all_targets p) - dom st) \<le> card (insert s (all_targets p))" by (intro card_mono) auto
  also have "\<dots> \<le> Suc (card (all_targets p))" by (rule card_insert_le_m1) simp_all
  also have "card (all_targets p) \<le> length (pi_arrows p)"
    unfolding all_targets_def by (rule order_trans [OF card_image_le card_length]) simp
  finally show ?thesis using visit_ends(1) by blast
qed

subsection \<open>What it finds\<close>

definition marks_ok :: "pipeline \<Rightarrow> marks \<Rightarrow> bool" where
  "marks_ok p st \<longleftrightarrow> (\<forall>x. st x = Some Closed \<longrightarrow> (x, x) \<notin> (free p)\<^sup>+ \<and> (\<forall>y. (x, y) \<in> free p \<longrightarrow> st y = Some Closed))"

definition marks_grow :: "marks \<Rightarrow> marks \<Rightarrow> bool" where
  "marks_grow st st' \<longleftrightarrow> (\<forall>x. (st' x = Some Open) = (st x = Some Open)) \<and> (\<forall>x. st x = Some Closed \<longrightarrow> st' x = Some Closed)"

definition leads_to :: "pipeline \<Rightarrow> marks \<Rightarrow> string \<Rightarrow> bool" where
  "leads_to p st s \<longleftrightarrow> (\<forall>x. st x = Some Open \<longrightarrow> (x, s) \<in> (free p)\<^sup>*)"

lemma marks_grow_trans: "marks_grow a b \<Longrightarrow> marks_grow b c \<Longrightarrow> marks_grow a c"
  by (simp add: marks_grow_def)

lemma closed_reach: "(x, y) \<in> (free p)\<^sup>* \<Longrightarrow> marks_ok p st \<Longrightarrow> st x = Some Closed \<Longrightarrow> st y = Some Closed"
  by (induction rule: converse_rtrancl_induct) (auto simp: marks_ok_def)

lemma marks_ok_close:
  assumes "marks_ok p st" "st s = Some Open" "\<forall>a \<in> set (free_arrows p s). st (ar_to a) = Some Closed"
  shows "marks_ok p (st(s \<mapsto> Closed))"
proof -
  have next_closed: "st y = Some Closed" if "(s, y) \<in> free p" for y using assms(3) free_arrowsI [OF that] by auto
  have "(s, s) \<notin> (free p)\<^sup>+"
  proof
    assume "(s, s) \<in> (free p)\<^sup>+"
    then obtain y where "(s, y) \<in> free p" "(y, s) \<in> (free p)\<^sup>*" by (meson tranclD)
    with next_closed closed_reach [OF _ assms(1)] have "st s = Some Closed" by blast
    with assms(2) show False by simp
  qed
  then show ?thesis using assms(1) next_closed by (auto simp: marks_ok_def)
qed

definition lines_ok :: "pipeline \<Rightarrow> bool" where
  "lines_ok p \<longleftrightarrow> (\<forall>a \<in> set (pi_arrows p). 0 < ar_line a)"

definition finds_loop :: "pipeline \<Rightarrow> nat \<Rightarrow> bool" where
  "finds_loop p line \<longleftrightarrow> (lines_ok p \<longrightarrow> (\<exists>a. loop_arrow p a \<and> ar_line a = line))"

lemma finds_loop_pos: "finds_loop p line \<Longrightarrow> lines_ok p \<Longrightarrow> 0 < line"
  by (auto simp: finds_loop_def lines_ok_def loop_arrow_def)

lemma visit_finds:
  "marks_ok p st \<Longrightarrow> leads_to p st s \<Longrightarrow> visit fuel p s st = Some (r, st') \<Longrightarrow>
      (case r of None \<Rightarrow> marks_ok p st' \<and> marks_grow st st' \<and> st' s = Some Closed
       | Some line \<Rightarrow> if line = 0 then lines_ok p \<longrightarrow> st s = Some Open else finds_loop p line)"
  "set as \<subseteq> set (free_arrows p s) \<Longrightarrow> st s = Some Open \<Longrightarrow> marks_ok p st \<Longrightarrow> leads_to p st s \<Longrightarrow>
      visit_arrows f p as st = Some (r, st') \<Longrightarrow>
      (case r of None \<Rightarrow> marks_ok p st' \<and> marks_grow st st' \<and> (\<forall>a \<in> set as. st' (ar_to a) = Some Closed)
       | Some line \<Rightarrow> finds_loop p line)"
proof (induction fuel p s st and f p as st arbitrary: r st' and s r st' rule: visit_visit_arrows.induct)
  case (1 fuel p s st)
  show ?case
  proof (cases "st s")
    case None
    let ?st = "st(s \<mapsto> Open)"
    obtain f where f: "fuel = Suc f" using 1(4) None by (cases fuel) (auto simp: visit.simps)
    obtain r1 st1 where v: "visit_arrows f p (free_arrows p s) ?st = Some (r1, st1)"
      using 1(4) None f by (auto simp: visit.simps split: option.splits)
    have "marks_ok p ?st" using 1(2) None by (auto simp: marks_ok_def)
    moreover have "leads_to p ?st s" using 1(3) by (auto simp: leads_to_def)
    moreover have "?st s = Some Open" by simp
    ultimately have IH: "case r1 of None \<Rightarrow> marks_ok p st1 \<and> marks_grow ?st st1 \<and> (\<forall>a \<in> set (free_arrows p s). st1 (ar_to a) = Some Closed)
       | Some line \<Rightarrow> finds_loop p line"
      using 1(1) [OF None f subset_refl _ _ _ v] by blast
    show ?thesis
    proof (cases r1)
      case None
      with 1(4) \<open>st s = None\<close> f v have r: "r = None" "st' = st1(s \<mapsto> Closed)" by (auto simp: visit.simps)
      have s1: "st1 s = Some Open" using IH None by (auto simp: marks_grow_def)
      have "marks_grow st st'" using IH None r(2) \<open>st s = None\<close> by (auto simp: marks_grow_def)
      with IH None r s1 marks_ok_close [of p st1 s] show ?thesis by auto
    next
      case (Some line)
      with 1(4) \<open>st s = None\<close> f v have "r = Some line" by (auto simp: visit.simps)
      with IH Some finds_loop_pos [of p line] show ?thesis by auto
    qed
  next
    case (Some m)
    with 1 show ?thesis by (cases m) (auto simp: visit.simps marks_grow_def)
  qed
next
  case (2 f p st)
  then show ?case by (auto simp: visit_arrows.simps marks_grow_def)
next
  case (3 f p a as st)
  have a: "a \<in> set (free_arrows p s)" using 3(3) by simp
  note fa = free_arrows_free [OF a]
  obtain r1 st1 where v: "visit f p (ar_to a) st = Some (r1, st1)" using 3(7) by (auto simp: visit_arrows.simps split: option.splits)
  have "leads_to p st (ar_to a)" using 3(6) fa by (auto simp: leads_to_def intro: rtrancl_into_rtrancl)
  from 3(1) [OF 3(5) this v]
  have IH: "case r1 of None \<Rightarrow> marks_ok p st1 \<and> marks_grow st st1 \<and> st1 (ar_to a) = Some Closed
       | Some line \<Rightarrow> if line = 0 then lines_ok p \<longrightarrow> st (ar_to a) = Some Open else finds_loop p line" .
  show ?case
  proof (cases r1)
    case None
    then have st1: "st1 s = Some Open" "leads_to p st1 s" using IH 3(4,6) by (auto simp: marks_grow_def leads_to_def)
    have rest: "visit_arrows f p as st1 = Some (r, st')" using 3(7) v None by (simp add: visit_arrows.simps)
    have "set as \<subseteq> set (free_arrows p s)" using 3(3) by simp
    from 3(2) [OF v refl None this st1(1) _ st1(2) rest] IH None
    show ?thesis using marks_grow_trans [of st st1 st'] by (auto simp: marks_grow_def split: option.splits)
  next
    case (Some line)
    with 3(7) v have r: "r = Some (if line = 0 then ar_line a else line)" by (auto simp: visit_arrows.simps)
    have "finds_loop p (ar_line a)" if "line = 0"
      using IH Some that fa 3(6) by (auto simp: loop_arrow_def leads_to_def finds_loop_def)
    with IH Some r show ?thesis by auto
  qed
qed

text \<open>Over all stages: between two of them no mark is open.\<close>

lemma visit_stages_finds:
  "marks_ok p st \<Longrightarrow> \<forall>x. st x \<noteq> Some Open \<Longrightarrow>
    (case visit_stages (Suc (length (pi_arrows p))) p ss st of
       None \<Rightarrow> False
     | Some None \<Rightarrow> \<forall>s \<in> set ss. \<forall>x. (st_name s, x) \<in> (free p)\<^sup>* \<longrightarrow> (x, x) \<notin> (free p)\<^sup>+
     | Some (Some line) \<Rightarrow> finds_loop p line)"
proof (induction ss arbitrary: st)
  case (Cons s ss)
  obtain r st1 where v: "visit (Suc (length (pi_arrows p))) p (st_name s) st = Some (r, st1)" using visit_fuel by blast
  have "leads_to p st (st_name s)" using Cons.prems by (simp add: leads_to_def)
  note found = visit_finds(1) [OF Cons.prems(1) this v]
  show ?case
  proof (cases r)
    case None
    then have st1: "marks_ok p st1" "\<forall>x. st1 x \<noteq> Some Open" "st1 (st_name s) = Some Closed"
      using found Cons.prems(2) by (auto simp: marks_grow_def)
    have "(x, x) \<notin> (free p)\<^sup>+" if "(st_name s, x) \<in> (free p)\<^sup>*" for x
      using closed_reach [OF that st1(1,3)] st1(1) by (simp add: marks_ok_def)
    with Cons.IH [OF st1(1,2)] v None show ?thesis by (auto split: option.splits)
  next
    case (Some line)
    with found Cons.prems(2) have "finds_loop p line" by (auto simp: finds_loop_def split: if_splits)
    with v Some show ?thesis by simp
  qed
qed simp

lemmas loop_line_finds = visit_stages_finds [where st = Map.empty and ss = "pi_stages p" and p = p for p, folded loop_line_def, unfolded marks_ok_def, simplified]

lemma loop_line_ends: "loop_line p \<noteq> None"
  using loop_line_finds [of p] by (auto split: option.splits)

lemma loop_free_acyclic:
  assumes "loop_line p = Some None" "s \<in> set (pi_stages p)"
  shows "(st_name s, st_name s) \<notin> (free p)\<^sup>+"
  using loop_line_finds [of p] assms by auto

lemma free_finite: "finite (free p)"
proof -
  have "free p \<subseteq> (\<lambda>a. (ar_from a, ar_to a)) ` set (pi_arrows p)" by (auto simp: free_def)
  then show ?thesis by (rule finite_subset) simp
qed

subsection \<open>Properties\<close>



end
