(* ===== verification/Pipe_Walk.thy ===== *)
theory Pipe_Walk
  imports Pipe_Loops
begin

text \<open>
  Runs of a pipeline, and the worst case over them (\<open>kanna-pipe/src/walk.rs\<close>). A run is at a stage with the
  counts of the arrows taken; the stage ends in one of its outcomes, and \<open>pick\<close> chooses the arrow. The
  memoised \<open>walk\<close> gives the largest cost of any run, and ends whenever the checker found no unbounded loop.
\<close>

type_synonym run_state = "string \<times> u32 list"

inductive run_step :: "pipeline \<Rightarrow> run_state \<Rightarrow> run_state \<Rightarrow> bool" for p where
  step: "stage_named p name = Some here \<Longrightarrow> (v, stalled) \<in> set (outcomes p here name) \<Longrightarrow>
    pick p name v taken stalled = Some (i, a) \<Longrightarrow> ar_to a \<noteq> DONE \<Longrightarrow>
    run_step p (name, taken) (ar_to a, taken[i := taken ! i + 1])"

text \<open>What a run from a state spends, stopped after any of its stages: the sum of the costs, which does not wrap.\<close>

inductive run_cost :: "pipeline \<Rightarrow> (stage \<Rightarrow> u32) \<Rightarrow> run_state \<Rightarrow> nat \<Rightarrow> bool" for p cost where
  absent: "stage_named p (fst s) = None \<Longrightarrow> run_cost p cost s 0"
| stops: "stage_named p (fst s) = Some here \<Longrightarrow> run_cost p cost s (unat (cost here))"
| goes: "stage_named p (fst s) = Some here \<Longrightarrow> run_step p s s' \<Longrightarrow> run_cost p cost s' n \<Longrightarrow> run_cost p cost s (unat (cost here) + n)"

inductive_cases run_stepE: "run_step p s s'"
inductive_cases run_costE: "run_cost p cost s n"

definition is_worst :: "pipeline \<Rightarrow> (stage \<Rightarrow> u32) \<Rightarrow> run_state \<Rightarrow> u32 \<Rightarrow> bool" where
  "is_worst p cost s w \<longleftrightarrow> run_cost p cost s (unat w) \<and> (\<forall>n. run_cost p cost s n \<longrightarrow> n \<le> unat w)"

definition no_overflow :: "pipeline \<Rightarrow> (stage \<Rightarrow> u32) \<Rightarrow> run_state \<Rightarrow> bool" where
  "no_overflow p cost s \<longleftrightarrow> (\<forall>n. run_cost p cost s n \<longrightarrow> n < 2 ^ 32)"

definition memo_ok :: "pipeline \<Rightarrow> (stage \<Rightarrow> u32) \<Rightarrow> memo \<Rightarrow> bool" where
  "memo_ok p cost seen \<longleftrightarrow> (\<forall>s w. seen s = Some w \<longrightarrow> is_worst p cost s w)"

lemma no_overflow_step: "no_overflow p cost s \<Longrightarrow> stage_named p (fst s) = Some here \<Longrightarrow> run_step p s s' \<Longrightarrow> run_cost p cost s' n \<Longrightarrow>
    unat (cost here) + n < 2 ^ 32"
  by (auto simp: no_overflow_def dest: goes)

lemma unat_plus_u32: "unat (a :: u32) + unat b < 2 ^ 32 \<Longrightarrow> unat (a + b) = unat a + unat b"
  by (simp add: unat_word_ariths)

subsection \<open>Choosing an arrow\<close>

lemma find_enumerate: "List.find (\<lambda>(i, a). q i a) (enumerate k xs) = Some (i, a) \<Longrightarrow> k \<le> i \<and> i < k + length xs \<and> a = xs ! (i - k) \<and> q i a"
  by (auto dest!: find_SomeD simp: in_set_enumerate_eq)

lemma pick_Some: "pick p from v taken stalled = Some (i, a) \<Longrightarrow>
    i < length (pi_arrows p) \<and> a = pi_arrows p ! i \<and> may_take from v taken stalled i a"
  unfolding pick_def by (drule find_enumerate) auto

subsection \<open>The walk finds the worst case\<close>

text \<open>The best of the outcomes seen so far: it is at least every run through them, and a run through one attains it.\<close>

definition best_of :: "pipeline \<Rightarrow> (stage \<Rightarrow> u32) \<Rightarrow> run_state \<Rightarrow> (verdict option \<times> bool) list \<Rightarrow> u32 \<Rightarrow> u32 \<Rightarrow> bool" where
  "best_of p cost s cs best b \<longleftrightarrow> best \<le> b \<and>
     (b = best \<or> (\<exists>s'. run_step p s s' \<and> run_cost p cost s' (unat b))) \<and>
     (\<forall>(v, stalled) \<in> set cs. \<forall>i a n. pick p (fst s) v (snd s) stalled = Some (i, a) \<and> ar_to a \<noteq> DONE \<and>
        run_cost p cost (ar_to a, (snd s)[i := snd s ! i + 1]) n \<longrightarrow> n \<le> unat b)"

lemma walk_sound:
  "memo_ok p cost seen \<Longrightarrow> no_overflow p cost (name, taken) \<Longrightarrow> walk fuel p cost name taken seen = Some (w, seen') \<Longrightarrow>
     is_worst p cost (name, taken) w \<and> memo_ok p cost seen'"
  "memo_ok p cost seen \<Longrightarrow> no_overflow p cost (name, taken) \<Longrightarrow> stage_named p name = Some here \<Longrightarrow> set cs \<subseteq> set (outcomes p here name) \<Longrightarrow>
     walk_outcomes f p cost name taken cs best seen = Some (b, seen') \<Longrightarrow> memo_ok p cost seen' \<and> best_of p cost (name, taken) cs best b"
proof (induction fuel p cost name taken seen and f p cost name taken cs best seen arbitrary: w seen' and here b seen' rule: walk_walk_outcomes.induct)
  case (1 fuel p cost name taken seen)
  show ?case
  proof (cases "seen (name, taken)")
    case (Some known)
    with 1(2,4) show ?thesis by (auto simp: walk.simps memo_ok_def)
  next
    case None
    obtain f where f: "fuel = Suc f" using 1(4) None by (cases fuel) (auto simp: walk.simps)
    show ?thesis
    proof (cases "stage_named p name")
      case None
      with 1(4) \<open>seen (name, taken) = None\<close> f have "w = 0" "seen' = seen" by (auto simp: walk.simps)
      with 1(2) None show ?thesis by (auto simp: is_worst_def intro: absent elim: run_costE)
    next
      case (Some here)
      obtain b seen1 where o: "walk_outcomes f p cost name taken (outcomes p here name) 0 seen = Some (b, seen1)"
        and w: "w = cost here + b" "seen' = seen1((name, taken) \<mapsto> w)"
        using 1(4) None f Some by (auto simp: walk.simps Let_def split: option.splits)
      from 1(1) [OF None f Some 1(2,3) Some subset_refl o]
      have m: "memo_ok p cost seen1" and best: "best_of p cost (name, taken) (outcomes p here name) 0 b" by auto
      have at: "b = 0 \<or> (\<exists>s'. run_step p (name, taken) s' \<and> run_cost p cost s' (unat b))" using best by (auto simp: best_of_def)
      have uw: "unat w = unat (cost here) + unat b"
        using at no_overflow_step [OF 1(3), of here] Some w(1) unat_plus_u32 [of "cost here" b] by auto
      have "run_cost p cost (name, taken) (unat w)"
        using at goes [of p "(name, taken)" here] stops [of p "(name, taken)" here] Some uw by auto
      moreover have "n \<le> unat w" if "run_cost p cost (name, taken) n" for n
        using that
      proof cases
        case (goes h s' n')
        then obtain v stalled i a where "(v, stalled) \<in> set (outcomes p here name)" "pick p name v taken stalled = Some (i, a)"
          "ar_to a \<noteq> DONE" "s' = (ar_to a, taken[i := taken ! i + 1])" using Some by (auto elim!: run_stepE)
        with best goes have "n' \<le> unat b" by (fastforce simp: best_of_def)
        with goes Some uw show ?thesis by simp
      qed (use Some uw in auto)
      ultimately show ?thesis using m w(2) by (auto simp: is_worst_def memo_ok_def)
    qed
  qed
next
  case (2 f p cost name taken best seen)
  then show ?case by (auto simp: walk_outcomes.simps best_of_def)
next
  case (3 f p cost name taken v stalled rest best seen)
  have rest: "set rest \<subseteq> set (outcomes p here name)" and vs: "(v, stalled) \<in> set (outcomes p here name)" using 3(8) by auto
  show ?case
  proof (cases "pick p name v taken stalled")
    case None
    have "walk_outcomes f p cost name taken rest best seen = Some (b, seen')" using 3(9) None by (simp add: walk_outcomes.simps)
    from 3(1) [OF None 3(5-7) rest this] None show ?thesis by (auto simp: best_of_def)
  next
    case (Some ia)
    obtain i a where ia: "ia = (i, a)" by (cases ia)
    let ?next = "(ar_to a, taken[i := taken ! i + 1])"
    show ?thesis
    proof (cases "ar_to a = DONE")
      case True
      then have "walk_outcomes f p cost name taken rest best seen = Some (b, seen')" using 3(9) Some ia by (simp add: walk_outcomes.simps)
      from 3(4) [OF Some ia [symmetric] _ 3(5-7) rest this] Some ia True show ?thesis by (auto simp: best_of_def)
    next
      case False
      obtain w1 seen1 where w: "walk f p cost (ar_to a) (taken[i := taken ! i + 1]) seen = Some (w1, seen1)"
        and r: "walk_outcomes f p cost name taken rest (max best w1) seen1 = Some (b, seen')"
        using 3(9) Some ia False by (auto simp: walk_outcomes.simps split: option.splits)
      have st: "run_step p (name, taken) ?next" using run_step.step [OF 3(7) vs] Some ia False by auto
      have "no_overflow p cost ?next" using no_overflow_step [OF 3(6) _ st] 3(7) by (fastforce simp: no_overflow_def)
      from 3(2) [OF Some ia [symmetric] False 3(5) this w] have w1: "is_worst p cost ?next w1" and m: "memo_ok p cost seen1" by auto
      from 3(3) [OF Some ia [symmetric] False w refl m 3(6,7) rest r]
      have IH: "memo_ok p cost seen'" "best_of p cost (name, taken) rest (max best w1) b" by auto
      have "w1 \<le> b" using IH(2) by (simp add: best_of_def)
      then have "unat w1 \<le> unat b" by (simp add: word_le_nat_alt)
      then have "best_of p cost (name, taken) ((v, stalled) # rest) best b"
        using IH(2) w1 st Some ia unfolding best_of_def is_worst_def by (auto simp: max_def split: if_splits)
      with IH(1) show ?thesis by simp
    qed
  qed
qed

subsection \<open>Runs end\<close>

text \<open>Steps that lower a height: no run of them is longer than the height of where it starts.\<close>

locale descending =
  fixes good :: "'s \<Rightarrow> bool" and moves :: "'s \<Rightarrow> 's \<Rightarrow> bool" and height :: "'s \<Rightarrow> nat"
  assumes lowers: "good s \<Longrightarrow> moves s t \<Longrightarrow> good t \<and> height t < height s"
begin

lemma steps_bounded: "good s \<Longrightarrow> (moves ^^ n) s t \<Longrightarrow> good t \<and> n + height t \<le> height s"
proof (induction n arbitrary: t)
  case (Suc n)
  then obtain u where u: "(moves ^^ n) s u" "moves u t" by auto
  with Suc.IH [OF Suc.prems(1) u(1)] lowers [of u t] show ?case by linarith
qed simp

lemma no_endless: "good (f 0) \<Longrightarrow> \<exists>i. \<not> moves (f i) (f (Suc i))"
proof (rule ccontr)
  assume g: "good (f 0)" and "\<not> (\<exists>i. \<not> moves (f i) (f (Suc i)))"
  then have "(moves ^^ n) (f 0) (f n)" for n by (induction n) auto
  from steps_bounded [OF g this [of "Suc (height (f 0))"]] show False by simp
qed

end

text \<open>
  The height of a state of a run: what the arrows with \<open>max\<close> have left, then how far the arrows without one
  can still lead.
\<close>

definition left_of :: "pipeline \<Rightarrow> u32 list \<Rightarrow> nat" where
  "left_of p taken = (\<Sum>i < length (pi_arrows p). case ar_max (pi_arrows p ! i) of Some n \<Rightarrow> unat n - unat (taken ! i) | None \<Rightarrow> 0)"

definition stage_free :: "pipeline \<Rightarrow> (string \<times> string) set" where
  "stage_free p = {(s, t) \<in> free p. stage_named p s \<noteq> None}"

definition stage_height :: "pipeline \<Rightarrow> string \<Rightarrow> nat" where
  "stage_height p s = card ((stage_free p)\<^sup>+ `` {s})"

definition run_height :: "pipeline \<Rightarrow> run_state \<Rightarrow> nat" where
  "run_height p s = left_of p (snd s) * (length (pi_arrows p) + 2) + stage_height p (fst s) + 1"

lemma stage_free_image: "(stage_free p)\<^sup>+ `` {s} \<subseteq> all_targets p"
proof -
  have "t \<in> all_targets p" if "(s, t) \<in> (stage_free p)\<^sup>+" for s t
    using that by cases (auto simp: stage_free_def free_def all_targets_def)
  then show ?thesis by auto
qed

lemma card_all_targets: "card (all_targets p) \<le> length (pi_arrows p)"
  unfolding all_targets_def by (rule order_trans [OF card_image_le card_length]) simp

lemma stage_height_bound: "stage_height p s \<le> length (pi_arrows p)"
  unfolding stage_height_def
  by (rule order_trans [OF card_mono [OF finite_all_targets stage_free_image] card_all_targets])

lemma stage_free_acyclic:
  assumes "loop_line p = Some None"
  shows "(s, s) \<notin> (stage_free p)\<^sup>+"
proof
  assume c: "(s, s) \<in> (stage_free p)\<^sup>+"
  then obtain t where "(s, t) \<in> stage_free p" by (meson tranclD)
  then obtain x where "stage_named p s = Some x" by (auto simp: stage_free_def)
  then have "x \<in> set (pi_stages p)" "st_name x = s" by (auto simp: stage_named_def dest: find_SomeD)
  moreover have "(s, s) \<in> (free p)\<^sup>+" using c by (rule trancl_mono_subset [THEN subsetD, rotated]) (auto simp: stage_free_def)
  ultimately show False using loop_free_acyclic [OF assms] by auto
qed

lemma stage_height_lowers:
  assumes "loop_line p = Some None" "(s, t) \<in> stage_free p"
  shows "stage_height p t < stage_height p s"
  unfolding stage_height_def
proof (rule psubset_card_mono)
  show "finite ((stage_free p)\<^sup>+ `` {s})" by (rule finite_subset [OF stage_free_image]) simp
  have "t \<notin> (stage_free p)\<^sup>+ `` {t}" "t \<in> (stage_free p)\<^sup>+ `` {s}" using stage_free_acyclic [OF assms(1)] assms(2) by auto
  moreover have "(stage_free p)\<^sup>+ `` {t} \<subseteq> (stage_free p)\<^sup>+ `` {s}" using assms(2) by (auto intro: trancl_into_trancl2)
  ultimately show "(stage_free p)\<^sup>+ `` {t} \<subset> (stage_free p)\<^sup>+ `` {s}" by blast
qed

lemma left_of_update:
  assumes "length taken = length (pi_arrows p)" "i < length (pi_arrows p)"
  shows "ar_max (pi_arrows p ! i) = None \<Longrightarrow> left_of p (taken[i := c]) = left_of p taken"
    and "ar_max (pi_arrows p ! i) = Some n \<Longrightarrow> unat n - unat c < unat n - unat (taken ! i) \<Longrightarrow> left_of p (taken[i := c]) < left_of p taken"
proof -
  let ?f = "\<lambda>tk j. case ar_max (pi_arrows p ! j) of Some n \<Rightarrow> unat n - unat (tk ! j) | None \<Rightarrow> (0 :: nat)"
  have split: "left_of p tk = ?f tk i + (\<Sum>j \<in> {..<length (pi_arrows p)} - {i}. ?f tk j)" for tk
    unfolding left_of_def using assms(2) by (intro sum.remove) auto
  have rest: "(\<Sum>j \<in> {..<length (pi_arrows p)} - {i}. ?f (taken[i := c]) j) = (\<Sum>j \<in> {..<length (pi_arrows p)} - {i}. ?f taken j)"
    by (intro sum.cong refl) (auto split: option.splits)
  show "ar_max (pi_arrows p ! i) = None \<Longrightarrow> left_of p (taken[i := c]) = left_of p taken" unfolding split rest by simp
  show "ar_max (pi_arrows p ! i) = Some n \<Longrightarrow> unat n - unat c < unat n - unat (taken ! i) \<Longrightarrow> left_of p (taken[i := c]) < left_of p taken"
    unfolding split rest using assms by simp
qed

lemma unat_suc_less: "(a :: u32) < n \<Longrightarrow> unat n - unat (a + 1) < unat n - unat a"
proof -
  assume a: "a < n"
  then have "unat a < unat n" by (simp add: word_less_nat_alt)
  moreover have "unat n < 2 ^ 32" using unsigned_less [of n] by simp
  ultimately have "unat a + unat (1 :: u32) < 2 ^ 32" by (simp only: unsigned_1)
  from unat_plus_u32 [OF this] have "unat (a + 1) = unat a + 1" by simp
  with \<open>unat a < unat n\<close> show ?thesis by simp
qed

lemma pick_lowers:
  assumes "loop_line p = Some None" "stage_named p name = Some here" and len: "length taken = length (pi_arrows p)" and pk: "pick p name v taken stalled = Some (i, a)" "ar_to a \<noteq> DONE"
  shows "run_height p (ar_to a, taken[i := taken ! i + 1]) < run_height p (name, taken)"
proof (cases "ar_max a")
  note i = pick_Some [OF pk(1)]
  case None
  have "left_of p (taken[i := taken ! i + 1]) = left_of p taken" using left_of_update(1) [OF len] i None by simp
  moreover have "(name, ar_to a) \<in> stage_free p"
    using assms(2) pk(2) i None by (auto simp: stage_free_def free_def may_take_def)
  ultimately show ?thesis using stage_height_lowers [OF assms(1)] len by (simp add: run_height_def)
next
  note i = pick_Some [OF pk(1)]
  case (Some n)
  have "taken ! i < n" using i Some len by (auto simp: may_take_def)
  then have less: "left_of p (taken[i := taken ! i + 1]) < left_of p taken"
    using left_of_update(2) [OF len, of i n] i Some unat_suc_less by simp
  define k where "k = length (pi_arrows p)"
  have "left_of p (taken[i := taken ! i + 1]) * (k + 2) + (k + 2) \<le> left_of p taken * (k + 2)"
    using mult_le_mono1 [OF Suc_leI [OF less], of "k + 2"] by simp
  then show ?thesis using stage_height_bound [of p "ar_to a"] len
    by (simp add: run_height_def k_def)
qed

lemma run_step_lowers:
  assumes "loop_line p = Some None" "length (snd s) = length (pi_arrows p)" "run_step p s t"
  shows "length (snd t) = length (pi_arrows p) \<and> run_height p t < run_height p s"
  using assms(3)
proof cases
  case (step name here v stalled taken i a)
  then show ?thesis using pick_lowers [OF assms(1) step(3) _ step(5,6)] assms(2) by simp
qed

interpretation run: descending "\<lambda>(p, s). loop_line p = Some None \<and> length (snd s) = length (pi_arrows p)"
    "\<lambda>(p, s) (q, t). p = q \<and> run_step p s t" "\<lambda>(p, s). run_height p s"
proof unfold_locales
  fix s t :: "pipeline \<times> run_state"
  assume "case s of (p, s) \<Rightarrow> loop_line p = Some None \<and> length (snd s) = length (pi_arrows p)"
    and "(case s of (p, s) \<Rightarrow> \<lambda>(q, t). p = q \<and> run_step p s t) t"
  then show "(case t of (p, s) \<Rightarrow> loop_line p = Some None \<and> length (snd s) = length (pi_arrows p)) \<and>
      (case t of (p, s) \<Rightarrow> run_height p s) < (case s of (p, s) \<Rightarrow> run_height p s)"
    using run_step_lowers [of "fst s" "snd s" "snd t"] by (auto simp: case_prod_beta)
qed

subsection \<open>The walk ends\<close>

lemma walk_ends:
  "loop_line p = Some None \<Longrightarrow> length taken = length (pi_arrows p) \<Longrightarrow> run_height p (name, taken) \<le> fuel \<Longrightarrow>
     walk fuel p cost name taken seen \<noteq> None"
  "loop_line p = Some None \<Longrightarrow> length taken = length (pi_arrows p) \<Longrightarrow> run_height p (name, taken) \<le> Suc f \<Longrightarrow>
     stage_named p name = Some here \<Longrightarrow> set cs \<subseteq> set (outcomes p here name) \<Longrightarrow> walk_outcomes f p cost name taken cs best seen \<noteq> None"
proof (induction fuel p cost name taken seen and f p cost name taken cs best seen arbitrary: and here rule: walk_walk_outcomes.induct)
  case (1 fuel p cost name taken seen)
  obtain f where f: "fuel = Suc f" using 1(4) by (cases fuel) (auto simp: run_height_def)
  show ?case
  proof (cases "stage_named p name")
    case (Some here)
    have "walk_outcomes f p cost name taken (outcomes p here name) 0 seen \<noteq> None" if "seen (name, taken) = None"
      using 1(1) [OF that f Some 1(2,3) _ Some subset_refl] 1(4) f by simp
    with Some f show ?thesis by (cases "seen (name, taken)") (auto simp: walk.simps Let_def split: option.splits)
  qed (use f in \<open>auto simp: walk.simps split: option.splits\<close>)
next
  case (2 f p cost name taken best seen)
  then show ?case by (simp add: walk_outcomes.simps)
next
  case (3 f p cost name taken v stalled rest best seen)
  have rest: "set rest \<subseteq> set (outcomes p here name)" and vs: "(v, stalled) \<in> set (outcomes p here name)" using 3(9) by auto
  show ?case
  proof (cases "pick p name v taken stalled")
    case None
    with 3(1) [OF None 3(5-8) rest] show ?thesis by (simp add: walk_outcomes.simps)
  next
    case (Some ia)
    obtain i a where ia: "(i, a) = ia" by (cases ia) simp
    show ?thesis
    proof (cases "ar_to a = DONE")
      case True
      with 3(4) [OF Some ia _ 3(5-8) rest] Some ia show ?thesis by (auto simp: walk_outcomes.simps)
    next
      case False
      have "run_step p (name, taken) (ar_to a, taken[i := taken ! i + 1])" using step [OF 3(8) vs] Some ia False by auto
      from run_step_lowers [OF 3(5) _ this] 3(6,7)
      have h: "length (taken[i := taken ! i + 1]) = length (pi_arrows p)" "run_height p (ar_to a, taken[i := taken ! i + 1]) \<le> f" by auto
      from 3(2) [OF Some ia False 3(5) h] obtain w1 seen1
        where w: "walk f p cost (ar_to a) (taken[i := taken ! i + 1]) seen = Some (w1, seen1)" by auto
      from 3(3) [OF Some ia False w refl 3(5-8) rest] w Some ia False show ?thesis by (auto simp: walk_outcomes.simps)
    qed
  qed
qed

text \<open>Fuel that is enough for any walk from the start of a pipeline.\<close>

definition max_sum :: "pipeline \<Rightarrow> nat" where
  "max_sum p = sum_list (map (\<lambda>a. case ar_max a of Some n \<Rightarrow> unat n | None \<Rightarrow> 0) (pi_arrows p))"

definition walk_fuel :: "pipeline \<Rightarrow> nat" where
  "walk_fuel p = (max_sum p + 1) * (length (pi_arrows p) + 2)"

definition start_state :: "pipeline \<Rightarrow> run_state" where
  "start_state p = (pi_start p, replicate (length (pi_arrows p)) 0)"

lemma start_height: "run_height p (start_state p) \<le> walk_fuel p"
proof -
  let ?z = "replicate (length (pi_arrows p)) (0 :: u32)"
  have "left_of p ?z = (\<Sum>i < length (pi_arrows p). case ar_max (pi_arrows p ! i) of Some n \<Rightarrow> unat n | None \<Rightarrow> 0)"
    unfolding left_of_def by (intro sum.cong refl) (simp split: option.splits)
  also have "\<dots> = max_sum p" by (simp add: max_sum_def sum_list_sum_nth atLeast0LessThan)
  finally show ?thesis using stage_height_bound [of p "pi_start p"] by (simp add: run_height_def start_state_def walk_fuel_def)
qed

text \<open>Nothing wraps in a pipeline whose stages are cheap for the length of its runs.\<close>

lemma run_cost_bound:
  assumes "loop_line p = Some None" "\<forall>x \<in> set (pi_stages p). unat (cost x) \<le> c"
  shows "run_cost p cost s n \<Longrightarrow> length (snd s) = length (pi_arrows p) \<Longrightarrow> n \<le> run_height p s * c"
proof (induction rule: run_cost.induct)
  case (stops s here)
  then have "unat (cost here) \<le> c" using assms(2) by (auto simp: stage_named_def dest: find_SomeD)
  also have "\<dots> \<le> run_height p s * c" by (simp add: run_height_def)
  finally show ?case .
next
  case (goes s here s' n)
  then have "unat (cost here) \<le> c" using assms(2) by (auto simp: stage_named_def dest: find_SomeD)
  moreover from run_step_lowers [OF assms(1) goes.prems goes.hyps(2)] goes.IH
  have "n \<le> run_height p s' * c" "Suc (run_height p s') \<le> run_height p s" by auto
  moreover from this(2) have "Suc (run_height p s') * c \<le> run_height p s * c" by (rule mult_le_mono1)
  ultimately show ?case by simp
qed simp

lemma no_overflowI:
  assumes "loop_line p = Some None" "\<forall>x \<in> set (pi_stages p). unat (cost x) \<le> c" "walk_fuel p * c < 2 ^ 32"
  shows "no_overflow p cost (start_state p)"
  unfolding no_overflow_def
proof (intro allI impI)
  fix n
  assume "run_cost p cost (start_state p) n"
  with run_cost_bound [OF assms(1,2)] have "n \<le> run_height p (start_state p) * c" by (simp add: start_state_def)
  also have "\<dots> \<le> walk_fuel p * c" by (rule mult_le_mono1 [OF start_height])
  finally show "n < 2 ^ 32" using assms(3) by simp
qed

lemma runs_bounded:
  assumes "loop_line p = Some None" "(run_step p ^^ n) (start_state p) s"
  shows "n < walk_fuel p"
proof -
  have "((\<lambda>(p, s) (q, t). p = q \<and> run_step p s t) ^^ n) (p, start_state p) (p, s)"
    using assms(2) by (induction n arbitrary: s) (auto intro: relcomppI)
  from run.steps_bounded [OF _ this] assms(1) start_height [of p]
  have "n + run_height p s \<le> walk_fuel p" by (auto simp: start_state_def)
  then show ?thesis by (simp add: run_height_def)
qed

subsection \<open>Properties\<close>

text \<open>
  A pipeline the loop search accepts runs only finitely long: whatever its stages answer, a run takes
  fewer steps than its arrows' \<open>max\<close> allow (the bound of \<open>walk_fuel\<close>).
\<close>

lemma runs_end:
  assumes "loop_line p = Some None" "(run_step p ^^ n) (start_state p) s"
  shows "n < walk_fuel p"
  by (rule runs_bounded [OF assms])

lemma runs_end_witness: "loop_line review_loop = Some None \<and> \<not> (\<exists>s. (run_step review_loop ^^ 15) (start_state review_loop) s)"
proof -
  have "loop_line review_loop = Some None" by code_simp
  moreover have "walk_fuel review_loop = 15" by (simp add: walk_fuel_def max_sum_def review_loop_def plain_arrow_def)
  ultimately show ?thesis using runs_end [of review_loop 15] by auto
qed

text \<open>
  C23. The worst case of a pipeline without unbounded loops: the memoised search ends, no run spends more
  than it says, and some run spends exactly that, provided that no run spends \<open>2\<^sup>3\<^sup>2\<close> or more, where the
  addition of the code would wrap.
\<close>

theorem worst_exact:
  assumes "loop_line p = Some None" "walk_fuel p \<le> fuel" "no_overflow p cost (start_state p)"
  shows "\<exists>w. worst fuel p cost = Some w \<and> is_worst p cost (start_state p) w"
proof -
  have "run_height p (pi_start p, replicate (length (pi_arrows p)) 0) \<le> fuel"
    using start_height [of p] assms(2) by (simp add: start_state_def)
  from walk_ends(1) [OF assms(1) _ this] obtain w seen
    where w: "walk fuel p cost (pi_start p) (replicate (length (pi_arrows p)) 0) Map.empty = Some (w, seen)" by fastforce
  from walk_sound(1) [OF _ _ w] assms(3) show ?thesis using w by (simp add: worst_def memo_ok_def start_state_def)
qed

lemma review_loop_facts: "loop_line review_loop = Some None" "walk_fuel review_loop = 15" "no_overflow review_loop (\<lambda>_. 1) (start_state review_loop)"
proof -
  show l: "loop_line review_loop = Some None" by code_simp
  show f: "walk_fuel review_loop = 15" by (simp add: walk_fuel_def max_sum_def review_loop_def plain_arrow_def)
  show "no_overflow review_loop (\<lambda>_. 1) (start_state review_loop)" by (rule no_overflowI [OF l, of _ 1]) (simp_all add: f)
qed

theorem worst_exact_witness: "is_worst review_loop (\<lambda>_. 1) (start_state review_loop) 6"
proof -
  have "worst 15 review_loop (\<lambda>_. 1) = Some 6" by code_simp
  with worst_exact [OF review_loop_facts(1) _ review_loop_facts(3), of 15] review_loop_facts(2) show ?thesis by simp
qed

end
