(* ===== verification/Pipe_Checked.thy ===== *)
theory Pipe_Checked
  imports Pipe_Walk
begin

text \<open>
  What a pipeline that passes \<open>check\<close> (\<open>kanna-pipe/src/check.rs\<close>) is sure of: the check answers for every
  pipeline, and one it accepts joins only stages that exist, reaches every stage and \<open>done\<close>, ends, refers only
  to stages that have run, and stays within its budget.
\<close>

subsection \<open>The check answers\<close>

lemma no_loop_error: "\<forall>e \<in> set (structure_errors p cx). pe_rule e \<notin> set STRUCTURE \<Longrightarrow> loop_line p = Some None"
proof -
  assume a: "\<forall>e \<in> set (structure_errors p cx). pe_rule e \<notin> set STRUCTURE"
  then have "\<forall>e \<in> set (check_loops p). pe_rule e \<noteq> RUnbounded" by (auto simp: structure_errors_def STRUCTURE_def)
  then show ?thesis using loop_line_ends [of p]
    by (cases "loop_line p"; cases "the (loop_line p)") (auto simp: check_loops_def pipe_err_def)
qed

lemma walk_answers: "loop_line p = Some None \<Longrightarrow> walk_fuel p \<le> fuel \<Longrightarrow> max_sessions fuel p sizes \<noteq> None"
  using walk_ends(1) [of p "replicate (length (pi_arrows p)) 0" "pi_start p" fuel "stage_sessions sizes" Map.empty] start_height [of p]
  by (simp add: max_sessions_def worst_def start_state_def)

lemma budget_answers: "loop_line p = Some None \<Longrightarrow> walk_fuel p \<le> fuel \<Longrightarrow> check_budget fuel p cx \<noteq> None"
  using walk_answers [of p fuel "cx_sizes cx"] by (auto simp: check_budget_def split: option.splits)

lemma check_accepts:
  assumes "check fuel p cx = Some (Inr ())"
  shows "structure_errors p cx = []" "check_budget fuel p cx = Some []"
  using assms by (auto simp: check_def Let_def split: if_splits)

lemma accepted_parts:
  assumes "check fuel p cx = Some (Inr ())"
  shows "check_arrows p = []" "check_reach p = []" "loop_line p = Some None"
    and "s \<in> set (pi_stages p) \<Longrightarrow> check_references p cx s = []"
  using check_accepts [OF assms] no_loop_error [of p cx] by (auto simp: structure_errors_def)

lemma stage_map_Some: "stage_map p n \<noteq> None \<longleftrightarrow> (\<exists>s \<in> set (pi_stages p). st_name s = n)"
  by (auto simp: stage_map_def find_None_iff)

subsection \<open>An example\<close>

definition plan_agent :: pipe_agent where
  "plan_agent = \<lparr>ag_agent = ''claude'', ag_effort = None, ag_model = None, ag_prompt = None, ag_verdict = False, ag_each = None,
     ag_attempts = None, ag_guard = None, ag_emits = False, ag_resume = None\<rparr>"

definition plan_fix :: pipeline where
  "plan_fix = \<lparr>pi_stages =
       [\<lparr>st_name = ''plan'', st_line = 1, st_kind = KAgent plan_agent, st_on = None, st_within = None\<rparr>,
        \<lparr>st_name = ''fix'', st_line = 2, st_kind = KAgent (plan_agent\<lparr>ag_verdict := True\<rparr>), st_on = None, st_within = None\<rparr>],
     pi_arrows = [plain_arrow ''plan'' ''fix'' 3,
       (plain_arrow ''fix'' ''fix'' 4)\<lparr>ar_when := Some Fail, ar_max := Some 2\<rparr>, plain_arrow ''fix'' DONE 5],
     pi_budget = Some \<lparr>bu_sessions = Some 4, bu_time = None, bu_line = 6\<rparr>, pi_start = ''plan'', pi_text = []\<rparr>"

definition plan_context :: check_context where
  "plan_context = \<lparr>cx_prompts = [''plan'' \<mapsto> ''Plan it.'', ''fix'' \<mapsto> ''Do {{plan.steps}}.''], cx_machine = None, cx_machines = [], cx_roles = [],
     cx_sizes = Map.empty\<rparr>"

lemma plan_fix_facts:
  "check 15 plan_fix plan_context = Some (Inr ())" "walk_fuel plan_fix = 15"
  "no_overflow plan_fix (stage_sessions (cx_sizes plan_context)) (start_state plan_fix)"
proof -
  show c: "check 15 plan_fix plan_context = Some (Inr ())" by code_simp
  show f: "walk_fuel plan_fix = 15" by (simp add: walk_fuel_def max_sum_def plan_fix_def plain_arrow_def)
  show "no_overflow plan_fix (stage_sessions (cx_sizes plan_context)) (start_state plan_fix)"
  proof (rule no_overflowI [OF accepted_parts(3) [OF c], of _ 1])
    show "\<forall>x \<in> set (pi_stages plan_fix). unat (stage_sessions (cx_sizes plan_context) x) \<le> 1"
      by (simp add: plan_fix_def plan_agent_def stage_sessions_def stage_agent_def Let_def)
  qed (simp add: f)
qed

subsection \<open>Properties\<close>

text \<open>
  C27. The check answers for every pipeline, sound or not: the only part of it that could run forever, the
  worst case over all runs, is reached only when no loop is unbounded, and then \<open>walk_fuel\<close> is enough.
\<close>

theorem check_answers:
  assumes "walk_fuel p \<le> fuel"
  shows "check fuel p cx \<noteq> None"
proof (cases "\<exists>e \<in> set (structure_errors p cx). pe_rule e \<in> set STRUCTURE")
  case False
  with no_loop_error [of p cx] budget_answers [OF _ assms] show ?thesis by (auto simp: check_def Let_def)
qed (simp add: check_def Let_def)

theorem check_answers_witness: "check 15 plan_fix plan_context \<noteq> None"
  using check_answers [of plan_fix 15 plan_context] plan_fix_facts(2) by simp

text \<open>
  C29. In a pipeline the check accepts, every arrow leaves a stage that exists and leads to one or to \<open>done\<close>;
  it asks for a verdict only of a stage that gives one, and for progress only of a run stage; every stage
  lies on a path from the start, and so does \<open>done\<close>.
\<close>

theorem accepted_flow:
  assumes "check fuel p cx = Some (Inr ())" "\<exists>s \<in> set (pi_stages p). st_name s = pi_start p"
  shows "(\<forall>a \<in> set (pi_arrows p). ar_from a \<noteq> DONE \<and> (\<exists>s. stage_map p (ar_from a) = Some s \<and>
        (ar_when a \<noteq> None \<longrightarrow> verdicts s) \<and> (ar_progress a \<longrightarrow> is_run s)) \<and> (ar_to a = DONE \<or> stage_map p (ar_to a) \<noteq> None)) \<and>
    (\<forall>t \<in> insert DONE (st_name ` set (pi_stages p)). \<exists>xs. flow_path p (pi_start p) xs \<and> last (pi_start p # xs) = t)"
proof (intro conjI ballI)
  note parts = accepted_parts [OF assms(1)]
  fix a
  assume "a \<in> set (pi_arrows p)"
  with parts(1) have e: "check_arrow p a = []" by (simp add: check_arrows_def)
  then show d: "ar_from a \<noteq> DONE" by (auto simp: check_arrow_def split: if_splits)
  with e obtain s where s: "stage_map p (ar_from a) = Some s"
    by (cases "stage_map p (ar_from a)") (auto simp: check_arrow_def)
  with e d show "\<exists>s. stage_map p (ar_from a) = Some s \<and> (ar_when a \<noteq> None \<longrightarrow> verdicts s) \<and> (ar_progress a \<longrightarrow> is_run s)"
    by (auto simp: check_arrow_def split: if_splits option.splits)
  show "ar_to a = DONE \<or> stage_map p (ar_to a) \<noteq> None" using e d by (auto simp: check_arrow_def split: if_splits)
next
  fix t
  assume t: "t \<in> insert DONE (st_name ` set (pi_stages p))"
  have "stage_map p (pi_start p) \<noteq> None" using assms(2) unfolding stage_map_Some .
  with accepted_parts(2) [OF assms(1)] have "t \<in> set (reachable p None)"
    using t by (auto simp: check_reach_def Let_def filter_empty_conv split: if_splits)
  then show "\<exists>xs. flow_path p (pi_start p) xs \<and> last (pi_start p # xs) = t" by (auto simp: set_reachable reaches_path)
qed

theorem accepted_flow_witness:
  "\<exists>xs. flow_path plan_fix ''plan'' xs \<and> last (''plan'' # xs) = DONE"
  using accepted_flow [OF plan_fix_facts(1)] by (simp add: plan_fix_def)

text \<open>
  C28. The prompt of an agent stage of an accepted pipeline exists, and whatever stage it quotes
  (\<open>{{stage.key}}\<close>) exists and has run before on every path of the flow to that stage.
\<close>

theorem quoted_stages_ran:
  assumes "check fuel p cx = Some (Inr ())" "s \<in> set (pi_stages p)" "stage_prompt s = Some q"
  shows "\<exists>text. cx_prompts cx q = Some text \<and> (\<forall>(from, key) \<in> set (placeholders text). stage_map p from \<noteq> None \<and>
    (\<forall>xs. flow_path p (pi_start p) xs \<and> last (pi_start p # xs) = st_name s \<longrightarrow> from \<in> set (butlast (pi_start p # xs))))"
proof -
  from assms(3) obtain a where a: "stage_agent s = Some a" by (auto simp: stage_prompt_def)
  then have e: "check_prompt p cx s = []" using accepted_parts(4) [OF assms(1,2)] by (simp add: check_references_def)
  then obtain body where body: "cx_prompts cx q = Some body"
    using assms(3) by (auto simp: check_prompt_def Let_def split: option.splits)
  have "stage_map p n \<noteq> None \<and> runs_before p n (st_name s)" if "(n, key) \<in> set (placeholders body)" for n key
    using e that assms(3) body by (auto simp: check_prompt_def Let_def split: if_splits)
  then show ?thesis unfolding runs_before_iff using body by blast
qed

theorem quoted_stages_ran_witness:
  "{xs. flow_path plan_fix ''plan'' xs \<and> last (''plan'' # xs) = ''fix''} \<subseteq> {xs. ''plan'' \<in> set (butlast (''plan'' # xs))}"
proof -
  let ?s = "pi_stages plan_fix ! 1"
  have "?s \<in> set (pi_stages plan_fix)" "stage_prompt ?s = Some ''fix''" "st_name ?s = ''fix''" "pi_start plan_fix = ''plan''"
    by (simp_all add: plan_fix_def stage_prompt_def stage_agent_def plan_agent_def)
  moreover from this quoted_stages_ran [OF plan_fix_facts(1), of ?s "''fix''"] obtain body where b: "cx_prompts plan_context ''fix'' = Some body"
    "\<forall>(from, key) \<in> set (placeholders body). stage_map plan_fix from \<noteq> None \<and> (\<forall>xs. flow_path plan_fix (pi_start plan_fix) xs \<and>
       last (pi_start plan_fix # xs) = st_name ?s \<longrightarrow> from \<in> set (butlast (pi_start plan_fix # xs)))" by blast
  moreover have "body = ''Do {{plan.steps}}.''" using b(1) by (simp add: plan_context_def)
  moreover have "placeholders ''Do {{plan.steps}}.'' = [(''plan'', ''steps'')]" by code_simp
  ultimately show ?thesis by (simp add: Collect_mono_iff del: butlast.simps last.simps)
qed

text \<open>
  C24. No run of an accepted pipeline uses more sessions than its budget, provided that no run needs
  \<open>2\<^sup>3\<^sup>2\<close> or more (the count would wrap).
\<close>

theorem budget_kept:
  assumes "check fuel p cx = Some (Inr ())" "pi_budget p = Some b" "bu_sessions b = Some n"
    "no_overflow p (stage_sessions (cx_sizes cx)) (start_state p)" "run_cost p (stage_sessions (cx_sizes cx)) (start_state p) k"
  shows "k \<le> unat n"
proof -
  from check_accepts(2) [OF assms(1)] assms(2,3) obtain w
    where w: "max_sessions fuel p (cx_sizes cx) = Some w" "w \<le> n"
    by (auto simp: check_budget_def split: if_splits)
  then obtain seen where "walk fuel p (stage_sessions (cx_sizes cx)) (pi_start p) (replicate (length (pi_arrows p)) 0) Map.empty = Some (w, seen)"
    by (auto simp: max_sessions_def worst_def)
  from walk_sound(1) [OF _ _ this] assms(4) have "is_worst p (stage_sessions (cx_sizes cx)) (start_state p) w"
    by (simp add: memo_ok_def start_state_def)
  with assms(5) have "k \<le> unat w" by (simp add: is_worst_def)
  also have "\<dots> \<le> unat n" using w(2) by (simp add: word_le_nat_alt)
  finally show ?thesis .
qed

theorem budget_kept_witness: "{k. run_cost plan_fix (stage_sessions (cx_sizes plan_context)) (start_state plan_fix) k} \<subseteq> {..4}"
proof
  fix k
  assume "k \<in> {k. run_cost plan_fix (stage_sessions (cx_sizes plan_context)) (start_state plan_fix) k}"
  moreover have "pi_budget plan_fix = Some \<lparr>bu_sessions = Some 4, bu_time = None, bu_line = 6\<rparr>" by (simp add: plan_fix_def)
  ultimately have "k \<le> unat (4 :: u32)" using budget_kept [OF plan_fix_facts(1) _ _ plan_fix_facts(3), of _ 4 k] by simp
  then show "k \<in> {..4}" by simp
qed

end
