(* ===== verification/Pipe_Text.thy ===== *)
theory Pipe_Text
  imports Pipe_Checked
begin

text \<open>
  The text of pipelines (\<open>kanna-pipe/src/parse.rs\<close>): what the parser accepts is well formed, an arrow is read back
  from the way it is printed, and durations mean the sum of their parts.
\<close>

subsection \<open>Strings\<close>

lemma split_once_append:
  assumes "p \<noteq> []" "hd p \<notin> set a"
  shows "split_once p (a @ p @ b) = Some (a, b)"
  using assms(2)
proof (induction a)
  case Nil
  with assms(1) show ?case by (cases p) auto
next
  case (Cons c a)
  have "\<not> starts_with p (c # a @ p @ b)" using Cons.prems assms(1) by (cases p) auto
  with Cons show ?case by simp
qed

lemma split_on_join:
  assumes "\<forall>x \<in> set xs. CHR '','' \<notin> set x" "xs \<noteq> []"
  shows "map trim (split_on (\<lambda>c. c = CHR '','') (join '', '' xs)) = map trim xs"
  using assms
proof (induction xs rule: induct_list012)
  case (2 x)
  then show ?case by (subst split_on_none) auto
next
  case (3 x y zs)
  have trim: "trim (CHR '' '' # s) = trim s" for s by (simp add: trim_def trim_start_def is_whitespace_def)
  obtain w ws where w: "split_on (\<lambda>c. c = CHR '','') (join '', '' (y # zs)) = w # ws" by (cases "split_on (\<lambda>c. c = CHR '','') (join '', '' (y # zs))") auto
  have "split_on (\<lambda>c. c = CHR '','') (join '', '' (x # y # zs)) = x # (CHR '' '' # w) # ws"
    using 3(3) w by (subst join.simps(3)) (subst append_Cons, subst split_on_append, auto)
  with 3 w trim show ?case by auto
qed simp

lemma trim_id: "s = [] \<or> \<not> is_whitespace (hd s) \<and> \<not> is_whitespace (last s) \<Longrightarrow> trim s = s"
proof -
  assume a: "s = [] \<or> \<not> is_whitespace (hd s) \<and> \<not> is_whitespace (last s)"
  then have "trim_start s = s" "dropWhile is_whitespace (rev s) = rev s"
    by (auto simp: trim_start_def dropWhile_eq_self_iff hd_rev)
  then show ?thesis by (simp add: trim_def trim_end_by_def)
qed

lemma name_char_plain: "name_char c \<Longrightarrow> \<not> node_end c \<and> \<not> is_whitespace c"
  by (auto simp: name_char_def node_end_def is_whitespace_def is_lower_def is_digit_def)

lemma is_name_plain: "is_name w \<Longrightarrow> w \<noteq> [] \<and> (\<forall>c \<in> set w. \<not> node_end c \<and> \<not> is_whitespace c)"
  by (auto simp: is_name_def list_all_iff name_char_plain split: list.splits) (auto simp: node_end_def is_whitespace_def is_lower_def)

subsection \<open>Arrows\<close>

text \<open>An arrow the parser can produce: its ends are names, and its \<open>max\<close> is positive.\<close>

definition arrow_ok :: "arrow \<Rightarrow> bool" where
  "arrow_ok a \<longleftrightarrow> is_name (ar_from a) \<and> is_name (ar_to a) \<and> ar_max a \<noteq> Some 0 \<and> 0 < ar_line a"

lemma dec_plain: "c \<in> set (dec n) \<Longrightarrow> is_digit c" using dec_digits [of n] by (simp add: list_all_iff)

lemma digit_plain: "is_digit c \<Longrightarrow> \<not> is_whitespace c \<and> c \<noteq> CHR '','' \<and> c \<noteq> CHR '']''"
  by (auto simp: is_digit_def is_whitespace_def)

lemma trim_dec: "trim (dec n) = dec n"
  using dec_digits [of n] digit_plain by (intro trim_id) (auto simp: list_all_iff)

lemma positive_u32_dec: "n \<noteq> (0 :: u32) \<Longrightarrow> positive_u32 (dec (unat n)) = Some n"
proof -
  assume "n \<noteq> 0"
  then have "0 < unat n" by (simp add: unat_gt_0)
  moreover have "unat n < 2 ^ 32" using unsigned_less [of n] by simp
  ultimately show ?thesis by (simp add: positive_u32_def parse_unsigned_dec)
qed

lemma trim_max: "trim (''max '' @ dec n) = ''max '' @ dec n"
  using dec_digits [of n] dec_plain [of "last (dec n)" n] digit_plain
  by (intro trim_id) (auto simp: is_whitespace_def)

lemma arrow_options_items:
  "map trim (arrow_options a) = arrow_options a \<and> (\<forall>x \<in> set (arrow_options a). x \<noteq> [] \<and> CHR '','' \<notin> set x \<and> CHR '']'' \<notin> set x)"
proof (intro conjI ballI)
  have v: "trim (verdict_name v) = verdict_name v" for v by (cases v) (simp_all add: trim_id is_whitespace_def)
  have "trim ''reset'' = ''reset''" "trim ''progress'' = ''progress''" by (simp_all add: trim_id is_whitespace_def)
  with v trim_max show "map trim (arrow_options a) = arrow_options a" by (auto simp: arrow_options_def split: option.splits)
  fix x assume x: "x \<in> set (arrow_options a)"
  have d: "CHR '','' \<notin> set (dec n) \<and> CHR '']'' \<notin> set (dec n)" for n using dec_plain [of _ n] digit_plain by blast
  have v: "CHR '','' \<notin> set (verdict_name v) \<and> CHR '']'' \<notin> set (verdict_name v) \<and> [] \<noteq> verdict_name v" for v by (cases v) auto
  show "x \<noteq> []" "CHR '','' \<notin> set x" "CHR '']'' \<notin> set x" using x d v by (auto simp: arrow_options_def split: option.splits if_splits)
qed

lemma read_options: "arrow_options a \<noteq> [] \<Longrightarrow>
    filter (\<lambda>i. i \<noteq> []) (map trim (split_on (\<lambda>c. c = CHR '','') (join '', '' (arrow_options a)))) = arrow_options a"
  using arrow_options_items [of a] split_on_join [of "arrow_options a"] by (simp add: filter_id_conv)

lemma arrow_item_options:
  "ar_when a = None \<Longrightarrow> arrow_item (Inr a) (verdict_name v) = Inr (a\<lparr>ar_when := Some v\<rparr>)"
  "ar_max a = None \<Longrightarrow> n \<noteq> 0 \<Longrightarrow> arrow_item (Inr a) (''max '' @ dec (unat n)) = Inr (a\<lparr>ar_max := Some n\<rparr>)"
  "\<not> ar_reset a \<Longrightarrow> arrow_item (Inr a) ''reset'' = Inr (a\<lparr>ar_reset := True\<rparr>)"
  "\<not> ar_progress a \<Longrightarrow> arrow_item (Inr a) ''progress'' = Inr (a\<lparr>ar_progress := True\<rparr>)"
proof -
  show "ar_when a = None \<Longrightarrow> arrow_item (Inr a) (verdict_name v) = Inr (a\<lparr>ar_when := Some v\<rparr>)"
    by (cases v) (simp_all add: arrow_item_def)
  have m: "max_option (''max '' @ dec (unat n)) = Some (dec (unat n))"
    by (simp add: max_option_def strip_prefix_def starts_with_def trim_dec)
  show "ar_max a = None \<Longrightarrow> n \<noteq> 0 \<Longrightarrow> arrow_item (Inr a) (''max '' @ dec (unat n)) = Inr (a\<lparr>ar_max := Some n\<rparr>)"
    using m by (simp add: arrow_item_def positive_u32_dec)
qed (simp_all add: arrow_item_def)

lemma read_arrow_options:
  assumes "ar_max a \<noteq> Some 0"
  shows "foldl arrow_item (Inr (plain_arrow (ar_from a) (ar_to a) n)) (arrow_options a) = Inr (a\<lparr>ar_line := n\<rparr>)"
  using assms
  by (cases a; cases "ar_when a"; cases "ar_max a"; cases "ar_reset a"; cases "ar_progress a")
     (auto simp: arrow_options_def plain_arrow_def arrow_item_options arrow_item_options(2) [simplified])

lemma read_arrow_render: "arrow_ok a \<Longrightarrow> read_arrow (ar_from a) (ar_to a) (join '', '' (arrow_options a)) n = Inr (a\<lparr>ar_line := n\<rparr>)"
  using read_arrow_options [of a n] read_options [of a]
  by (cases "arrow_options a = []") (auto simp: read_arrow_def arrow_ok_def trim_id)

subsection \<open>Flows\<close>

declare flow_loop.simps [simp del]

lemma trim_start_space [simp]: "trim_start (CHR '' '' # s) = trim_start s"
  by (simp add: trim_start_def is_whitespace_def)

lemma trim_start_Nil [simp]: "trim_start [] = []"
  by (simp add: trim_start_def)

lemma trim_start_name: "is_name n \<Longrightarrow> trim_start (n @ rest) = n @ rest"
  using is_name_plain [of n] by (cases n) (auto simp: trim_start_def)

lemma takeWhile_name: "is_name n \<Longrightarrow> rest = [] \<or> node_end (hd rest) \<Longrightarrow> takeWhile (\<lambda>c. \<not> node_end c) (n @ rest) = n"
  using is_name_plain [of n] by (subst takeWhile_append2) (cases rest; auto)+

lemma flow_loop_last: "is_name n \<Longrightarrow> flow_loop (CHR '' '' # n) nodes options = Inr (nodes @ [n], options)"
proof -
  assume n: "is_name n"
  have "takeWhile (\<lambda>c. \<not> node_end c) n = n" "trim_start n = n" "n \<noteq> []"
    using takeWhile_name [of n "[]"] trim_start_name [of n "[]"] is_name_plain [OF n] n by (auto simp del: takeWhile_eq_all_conv)
  then show ?thesis using n by (subst flow_loop.simps) (simp add: Let_def stage_name_def del: takeWhile_eq_all_conv)
qed

lemma flow_loop_arrow: "is_name n \<Longrightarrow> flow_loop (n @ '' ->'' @ rest) nodes options = flow_loop rest (nodes @ [n]) (options @ [None])"
  using takeWhile_name [of n "'' ->'' @ rest"] trim_start_name [of n "'' ->'' @ rest"] is_name_plain [of n]
  by (subst flow_loop.simps) (auto simp: Let_def stage_name_def node_end_def is_whitespace_def trim_start_def strip_prefix_def)

lemma flow_loop_options:
  assumes "is_name n" "CHR '']'' \<notin> set opts"
  shows "flow_loop (n @ '' -['' @ opts @ '']->'' @ rest) nodes options = flow_loop rest (nodes @ [n]) (options @ [Some opts])"
proof -
  let ?tail = "'' -['' @ opts @ '']->'' @ rest"
  have "split_once '']->'' (opts @ '']->'' @ rest) = Some (opts, rest)" using assms(2) by (intro split_once_append) auto
  then show ?thesis
    using takeWhile_name [of n ?tail] trim_start_name [of n ?tail] is_name_plain [of n] assms(1)
    by (subst flow_loop.simps) (auto simp: Let_def stage_name_def node_end_def is_whitespace_def trim_start_def strip_prefix_def)
qed

lemma join_options_plain: "CHR '']'' \<notin> set (join '', '' (arrow_options a))"
proof -
  have "CHR '']'' \<notin> set (join '', '' xs)" if "\<forall>x \<in> set xs. CHR '']'' \<notin> set x" for xs
    using that by (induction xs rule: induct_list012) auto
  then show ?thesis using arrow_options_items [of a] by blast
qed

subsection \<open>Durations\<close>

text \<open>A duration as it is written: numbers, each followed by its unit.\<close>

definition hms :: "(nat \<times> char) list \<Rightarrow> string" where
  "hms parts = concat (map (\<lambda>(n, u). dec n @ [u]) parts)"

definition unit_seconds :: "char \<Rightarrow> nat" where
  "unit_seconds u = (if u = CHR ''h'' then 3600 else if u = CHR ''m'' then 60 else 1)"

definition hms_seconds :: "(nat \<times> char) list \<Rightarrow> nat" where
  "hms_seconds parts = sum_list (map (\<lambda>(n, u). n * unit_seconds u) parts)"

lemma duration_loop_digits: "list_all is_digit ds \<Longrightarrow> duration_loop (ds @ cs) secs digits units = duration_loop cs secs (digits @ ds) units"
  by (induction ds arbitrary: digits) auto

lemma duration_loop_part:
  assumes "u \<in> {CHR ''h'', CHR ''m'', CHR ''s''}" "n < 2 ^ 64"
  shows "duration_loop (dec n @ u # cs) secs [] units = duration_loop cs (secs + of_nat (n * unit_seconds u)) [] (units + 1)"
  using assms dec_digits [of n] duration_loop_digits [of "dec n" "u # cs" secs "[]" units]
  by (auto simp: parse_unsigned_dec unit_scale_def unit_seconds_def is_digit_def)

lemma duration_loop_hms:
  assumes "\<forall>(n, u) \<in> set parts. u \<in> {CHR ''h'', CHR ''m'', CHR ''s''} \<and> n < 2 ^ 64"
  shows "duration_loop (hms parts) secs [] units = duration_loop [] (secs + of_nat (hms_seconds parts)) [] (units + length parts)"
  using assms
proof (induction parts arbitrary: secs units)
  case (Cons x parts)
  obtain n u where x: "x = (n, u)" by (cases x)
  with Cons.prems have nu: "u \<in> {CHR ''h'', CHR ''m'', CHR ''s''}" "n < 2 ^ 64" by simp_all
  have "hms (x # parts) = dec n @ u # hms parts" "hms_seconds (x # parts) = n * unit_seconds u + hms_seconds parts"
    using x by (simp_all add: hms_def hms_seconds_def)
  moreover have "secs + of_nat (n * unit_seconds u) + of_nat (hms_seconds parts) = secs + (of_nat (n * unit_seconds u + hms_seconds parts) :: seconds)"
    by simp
  ultimately show ?case
    using duration_loop_part [OF nu, of "hms parts" secs units] Cons.IH [of "secs + of_nat (n * unit_seconds u)" "units + 1"] Cons.prems
    by (simp add: add.assoc del: duration_loop.simps)
qed (simp add: hms_def hms_seconds_def)

subsection \<open>Properties\<close>

text \<open>
  An arrow that is printed (as a revision does for the arrows it adds) is read back as the same arrow,
  with its verdict, its limit and its flags, on the line where it now stands.
\<close>

lemma arrow_round_trip:
  assumes "arrow_ok a"
  shows "flow (arrow_render a) n = Inr ([ar_from a, ar_to a], [a\<lparr>ar_line := n\<rparr>])"
proof -
  have names: "is_name (ar_from a)" "is_name (ar_to a)" using assms by (auto simp: arrow_ok_def)
  have read: "read_arrow (ar_from a) (ar_to a) (join '', '' (arrow_options a)) n = Inr (a\<lparr>ar_line := n\<rparr>)"
    by (rule read_arrow_render [OF assms])
  show ?thesis
  proof (cases "arrow_options a = []")
    case True
    have "flow_loop (arrow_render a) [] [] = Inr ([ar_from a, ar_to a], [None])"
      using True flow_loop_arrow [OF names(1), of "'' '' @ ar_to a"] flow_loop_last [OF names(2)] by (simp add: arrow_render_def)
    with read True show ?thesis by (simp add: flow_def)
  next
    case False
    have "flow_loop (arrow_render a) [] [] = Inr ([ar_from a, ar_to a], [Some (join '', '' (arrow_options a))])"
      using False flow_loop_options [OF names(1) join_options_plain, of a "'' '' @ ar_to a"] flow_loop_last [OF names(2)]
      by (simp add: arrow_render_def)
    with read show ?thesis by (simp add: flow_def)
  qed
qed

lemma arrow_round_trip_witness:
  "flow ''review -[fail, max 2]-> build'' 7 =
    Inr ([''review'', ''build''], [(plain_arrow ''review'' ''build'' 7)\<lparr>ar_when := Some Fail, ar_max := Some 2\<rparr>])"
proof -
  let ?a = "(plain_arrow ''review'' ''build'' 7)\<lparr>ar_when := Some Fail, ar_max := Some 2\<rparr>"
  have "arrow_ok ?a" by (simp add: arrow_ok_def plain_arrow_def is_name_def name_char_def is_lower_def)
  moreover have "arrow_render ?a = ''review -[fail, max 2]-> build''" by code_simp
  ultimately show ?thesis using arrow_round_trip [of ?a 7] by (simp add: plain_arrow_def)
qed

text \<open>
  A duration such as \<open>1h30m\<close> is the sum of its parts in seconds, as long as that is below \<open>2\<^sup>6\<^sup>4\<close>, and
  it is refused only when it is zero.
\<close>

lemma duration_sums:
  assumes "parts \<noteq> []" "\<forall>(n, u) \<in> set parts. u \<in> {CHR ''h'', CHR ''m'', CHR ''s''} \<and> n < 2 ^ 64" "hms_seconds parts < 2 ^ 64"
  shows "duration (hms parts) = (if hms_seconds parts = 0 then None else Some (of_nat (hms_seconds parts))) \<and>
    unat (of_nat (hms_seconds parts) :: seconds) = hms_seconds parts"
proof
  show u: "unat (of_nat (hms_seconds parts) :: seconds) = hms_seconds parts" using assms(3) by (simp add: unat_of_nat)
  have "0 < (of_nat (hms_seconds parts) :: seconds) \<longleftrightarrow> 0 < hms_seconds parts" using u by (simp add: word_less_nat_alt)
  then show "duration (hms parts) = (if hms_seconds parts = 0 then None else Some (of_nat (hms_seconds parts)))"
    using assms(1) by (simp add: duration_def duration_loop_hms [OF assms(2)])
qed

lemma duration_sums_witness: "duration ''1h30m'' = Some 5400"
proof -
  have "hms [(1, CHR ''h''), (30, CHR ''m'')] = ''1h30m''" by code_simp
  moreover have "hms_seconds [(1, CHR ''h''), (30, CHR ''m'')] = 5400" by (simp add: hms_seconds_def unit_seconds_def)
  ultimately show ?thesis using duration_sums [of "[(1, CHR ''h''), (30, CHR ''m'')]"] by simp
qed

text \<open>Above that the sum wraps: this is more than 584 billion years, and the parser takes it for less than an hour.\<close>

lemma duration_wraps: "duration (dec 5124095576030432 @ ''h'') = Some 3584"
proof -
  have "duration_loop (dec 5124095576030432 @ CHR ''h'' # []) 0 [] 0 =
      duration_loop [] (0 + of_nat (5124095576030432 * unit_seconds CHR ''h'')) [] (0 + 1)"
    by (rule duration_loop_part) simp_all
  then show ?thesis by (simp add: duration_def unit_seconds_def)
qed

end
