(* ===== verification/Pipe_Load.thy ===== *)
theory Pipe_Load
  imports Pipe_Text
begin

text \<open>
  From text to a pipeline that can run (\<open>parse\<close> and \<open>load\<close> of \<open>kanna-pipe\<close>): what the parser accepts is well
  formed, its errors come by line, and what \<open>load\<close> accepts starts at a stage.
\<close>

subsection \<open>Stages keep their name and line\<close>

definition same_place :: "stage \<Rightarrow> stage \<Rightarrow> bool" where
  "same_place s s' \<longleftrightarrow> st_name s' = st_name s \<and> st_line s' = st_line s"

lemma put_placement_place: "put_placement s key val = Inr (Some s') \<Longrightarrow> same_place s s'"
  by (auto simp: put_placement_def same_place_def split: if_splits option.splits)

lemma only_placement_place: "only_placement s ws what = Inr s' \<Longrightarrow> same_place s s'"
  by (induction s ws what rule: only_placement.induct)
     (auto simp: same_place_def split: sum.splits option.splits dest!: put_placement_place)

lemma run_tail_place: "run_tail s ws = Inr (s', ws') \<Longrightarrow> same_place s s'"
  by (induction s ws rule: run_tail.induct)
     (auto simp: same_place_def split: if_splits sum.splits option.splits dest!: put_placement_place)

lemma agent_value_place: "agent_value key val (s, a) = Inr (s', a') \<Longrightarrow> same_place s s'"
  by (auto simp: agent_value_def same_place_def split: if_splits sum.splits option.splits dest!: put_placement_place)

lemma agent_words_step: "agent_words (w # ws) seen sa = Inr r \<Longrightarrow>
    \<exists>rest seen' sa'. agent_words rest seen' sa' = Inr r \<and> length rest \<le> length ws \<and> same_place (fst sa) (fst sa')"
proof -
  assume e: "agent_words (w # ws) seen sa = Inr r"
  have same: "same_place (fst sa) (fst sa)" by (simp add: same_place_def)
  define key where "key = (if is_attempts w then ''xN'' else w)"
  note f = e [unfolded agent_words.simps key_def [symmetric] Let_def]
  show ?thesis
  proof (cases "key = ''verdict'' \<or> key = ''emits''")
    case True
    with f same show ?thesis by (auto split: if_splits)
  next
    case plain: False
    show ?thesis
    proof (cases "key = ''xN''")
      case True
      with f plain obtain b ws' by' rest n where "ws = b # ws'" "ws' = by' # rest"
        "agent_words rest (seen @ [key]) (fst sa, (snd sa)\<lparr>ag_attempts := Some n\<rparr>) = Inr r"
        by (auto split: if_splits list.splits sum.splits)
      with same show ?thesis by fastforce
    next
      case False
      with f plain obtain v rest sa' where "ws = v # rest" "agent_value key v sa = Inr sa'" "agent_words rest (seen @ [key]) sa' = Inr r"
        by (auto split: if_splits list.splits sum.splits)
      with agent_value_place [of key v "fst sa" "snd sa" "fst sa'" "snd sa'"] show ?thesis by fastforce
    qed
  qed
qed

lemma agent_words_place: "agent_words ws seen sa = Inr (s', a') \<Longrightarrow> same_place (fst sa) s'"
proof (induction "length ws" arbitrary: ws seen sa rule: less_induct)
  case less
  show ?case
  proof (cases ws)
    case Nil
    with less.prems show ?thesis by (auto simp: same_place_def)
  next
    case (Cons w rest)
    with agent_words_step less.prems obtain ws2 seen2 sa2
      where s: "agent_words ws2 seen2 sa2 = Inr (s', a')" "length ws2 \<le> length rest" "same_place (fst sa) (fst sa2)" by blast
    with less.hyps [OF _ s(1)] Cons show ?thesis by (simp add: same_place_def)
  qed
qed

lemma read_agent_place: "read_agent s ws = Inr (s', a') \<Longrightarrow> same_place s s'"
  by (auto simp: read_agent_def Let_def split: prod.splits option.splits if_splits dest!: agent_words_place)

lemma read_stage_place: "read_stage name body n = Inr s \<Longrightarrow> st_name s = name \<and> st_line s = n"
proof -
  assume r: "read_stage name body n = Inr s"
  let ?s = "\<lparr>st_name = name, st_line = n, st_kind = KRun [], st_on = None, st_within = None\<rparr>"
  have "words body \<noteq> []" using r by (auto simp: read_stage_def Let_def)
  then obtain i first rest where w: "words body = (i, first) # rest" by (metis list.exhaust surj_pair)
  note f = r [unfolded read_stage_def Let_def w list.case prod.case]
  have "same_place ?s s"
  proof (cases "first = ''run''")
    case True
    with f show ?thesis by (auto simp: same_place_def split: sum.splits if_splits dest!: run_tail_place)
  next
    case nrun: False
    show ?thesis
    proof (cases "first = ''ask''")
      case True
      with f nrun show ?thesis by (auto simp: same_place_def split: option.splits sum.splits if_splits dest!: only_placement_place)
    next
      case nask: False
      show ?thesis
      proof (cases "first = ''merge''")
        case True
        with f nrun nask show ?thesis by (auto simp: same_place_def split: list.splits sum.splits if_splits dest!: only_placement_place)
      next
        case False
        with f nrun nask show ?thesis by (auto simp: same_place_def split: sum.splits dest!: read_agent_place)
      qed
    qed
  qed
  then show ?thesis by (simp add: same_place_def)
qed

subsection \<open>Flows\<close>

lemma flow_loop_nodes:
  "flow_loop rest nodes options = Inr (nodes', options') \<Longrightarrow> \<forall>n \<in> set nodes. is_name n \<Longrightarrow> length nodes = length options \<Longrightarrow>
     (\<forall>n \<in> set nodes'. is_name n) \<and> length nodes' = Suc (length options') \<and>
     (length options' = length options \<longrightarrow> CHR ''-'' \<notin> set rest) \<and> length options \<le> length options'"
proof (induction rest nodes options rule: flow_loop.induct)
  case (1 rest nodes options)
  define node where "node = takeWhile (\<lambda>c. \<not> node_end c) (trim_start rest)"
  define tail where "tail = trim_start (drop (length node) (trim_start rest))"
  note f = "1.prems"(1) [unfolded flow_loop.simps [of rest] Let_def node_def [symmetric] tail_def [symmetric]]
  have ne: "node \<noteq> []" using f by (auto split: if_splits)
  then have name: "is_name node" and st: "stage_name node ''a flow'' = Inr node" using f by (auto simp: stage_name_def split: if_splits)
  have names: "\<forall>n \<in> set (nodes @ [node]). is_name n" using name "1.prems"(2) by auto
  show ?case
  proof (cases "tail = []")
    case True
    then have r: "nodes' = nodes @ [node]" "options' = options" using f ne st by auto
    have "CHR ''-'' \<notin> set rest"
    proof -
      have ws: "CHR ''-'' \<notin> set s" if "trim_start s = []" for s
        using that by (auto simp: trim_start_def is_whitespace_def)
      have split: "rest = takeWhile is_whitespace rest @ node @ drop (length node) (trim_start rest)"
        by (simp add: node_def trim_start_def dropWhile_eq_drop [symmetric])
      have "CHR ''-'' \<notin> set (takeWhile is_whitespace rest)" by (auto dest!: set_takeWhileD simp: is_whitespace_def)
      moreover have "CHR ''-'' \<notin> set node" using is_name_plain [OF name] by (auto simp: node_end_def)
      moreover have "CHR ''-'' \<notin> set (drop (length node) (trim_start rest))" using ws True by (simp add: tail_def)
      ultimately show ?thesis by (subst split) auto
    qed
    with r names "1.prems"(3) show ?thesis by simp
  next
    case False
    show ?thesis
    proof (cases "strip_prefix ''->'' tail")
      case (Some after)
      with f ne st False have "flow_loop after (nodes @ [node]) (options @ [None]) = Inr (nodes', options')" by simp
      from "1.IH"(2) [OF node_def _ st tail_def refl False Some this names] ne "1.prems"(3) show ?thesis by auto
    next
      case None
      with f ne st False obtain o1 o2 after where a: "strip_prefix ''-['' tail = Some o1" "split_once '']->'' o1 = Some (o2, after)"
        "flow_loop after (nodes @ [node]) (options @ [Some o2]) = Inr (nodes', options')"
        by (auto split: option.splits)
      from "1.IH"(1) [OF node_def _ st tail_def refl False None a(1,2) refl a(3) names] ne "1.prems"(3) show ?thesis by auto
    qed
  qed
qed

lemma arrow_item_ok:
  "arrow_item (Inr a) i = Inr a' \<Longrightarrow> ar_max a \<noteq> Some 0 \<Longrightarrow>
     ar_from a' = ar_from a \<and> ar_to a' = ar_to a \<and> ar_line a' = ar_line a \<and> ar_max a' \<noteq> Some 0"
proof -
  assume e: "arrow_item (Inr a) i = Inr a'" and m: "ar_max a \<noteq> Some 0"
  have "n \<noteq> 0" if "positive_u32 s = Some n" for s n
  proof -
    from that obtain k where k: "parse_u32 s = Some k" "0 < k" "n = of_nat k" by (auto simp: positive_u32_def split: option.splits if_splits)
    then have "unat n = k" using parse_unsigned_bound [OF k(1)] by (simp add: unat_of_nat)
    with k show ?thesis by auto
  qed
  with e m show ?thesis by (auto simp: arrow_item_def split: if_splits option.splits)
qed

lemma read_arrow_ok:
  assumes "read_arrow from to opts n = Inr a"
  shows "ar_from a = from \<and> ar_to a = to \<and> ar_line a = n \<and> ar_max a \<noteq> Some 0"
proof -
  have fail: "foldl arrow_item (Inl e) xs = Inl e" for e xs by (induction xs) (auto simp: arrow_item_def)
  have "foldl arrow_item (Inr b) xs = Inr a \<Longrightarrow> ar_max b \<noteq> Some 0 \<Longrightarrow>
      ar_from a = ar_from b \<and> ar_to a = ar_to b \<and> ar_line a = ar_line b \<and> ar_max a \<noteq> Some 0" for b xs
  proof (induction xs arbitrary: b)
    case (Cons x xs)
    then obtain c where c: "arrow_item (Inr b) x = Inr c" using fail by (cases "arrow_item (Inr b) x") auto
    with Cons arrow_item_ok [OF c Cons.prems(2)] show ?case by auto
  qed auto
  from this [OF assms [unfolded read_arrow_def]] show ?thesis by (simp add: plain_arrow_def)
qed

lemma read_arrows_ok:
  "read_arrows nodes options n = Inr as \<Longrightarrow> \<forall>x \<in> set nodes. is_name x \<Longrightarrow> 0 < n \<Longrightarrow> length nodes = Suc (length options) \<Longrightarrow>
     length as = length options \<and> (\<forall>a \<in> set as. arrow_ok a \<and> ar_line a = n) \<and> (as \<noteq> [] \<longrightarrow> ar_from (hd as) = hd nodes)"
proof (induction nodes options n arbitrary: as rule: read_arrows.induct)
  case (1 "from" to nodes opt options n)
  from "1.prems"(1) obtain a as' where a: "read_arrow from to (case opt of Some s \<Rightarrow> s | None \<Rightarrow> []) n = Inr a"
    and r: "read_arrows (to # nodes) options n = Inr as'" "as = a # as'" by (auto split: sum.splits)
  from read_arrow_ok [OF a] "1.prems" have "arrow_ok a \<and> ar_line a = n \<and> ar_from a = from" by (simp add: arrow_ok_def)
  moreover have "length as' = length options \<and> (\<forall>a \<in> set as'. arrow_ok a \<and> ar_line a = n)"
    using "1.IH" [OF a r(1)] "1.prems" by simp
  ultimately show ?case using r(2) by simp
qed auto

definition flow_ok :: "nat \<Rightarrow> string list \<Rightarrow> arrow list \<Rightarrow> bool" where
  "flow_ok n nodes as \<longleftrightarrow> nodes \<noteq> [] \<and> as \<noteq> [] \<and> ar_from (hd as) = hd nodes \<and> (\<forall>a \<in> set as. arrow_ok a \<and> ar_line a = n)"

lemma flow_reads: "flow line n = Inr (nodes, as) \<Longrightarrow> contains_str ''->'' line \<Longrightarrow> 0 < n \<Longrightarrow> flow_ok n nodes as"
proof -
  assume f: "flow line n = Inr (nodes, as)" and c: "contains_str ''->'' line" and n: "0 < n"
  from f obtain options where o: "flow_loop line [] [] = Inr (nodes, options)" "read_arrows nodes options n = Inr as"
    by (auto simp: flow_def split: sum.splits)
  from c obtain a b where "line = a @ ''->'' @ b" by (auto simp: contains_str_def dest: split_once_SomeD)
  then have "CHR ''-'' \<in> set line" by simp
  with flow_loop_nodes [OF o(1)] have len: "options \<noteq> []" "\<forall>x \<in> set nodes. is_name x" "length nodes = Suc (length options)" by auto
  with read_arrows_ok [OF o(2) len(2) n len(3)] show ?thesis by (auto simp: flow_ok_def)
qed

subsection \<open>Lines\<close>

fun line_ok :: "nat \<Rightarrow> line \<Rightarrow> bool" where
  "line_ok n (LStage s) \<longleftrightarrow> st_line s = n \<and> is_name (st_name s) \<and> st_name s \<noteq> DONE"
| "line_ok n (LFlow nodes as) \<longleftrightarrow> flow_ok n nodes as"
| "line_ok n (LBudget b) \<longleftrightarrow> True"

lemma read_line_ok: "read_line line n = Inr l \<Longrightarrow> 0 < n \<Longrightarrow> line_ok n l"
proof -
  assume r: "read_line line n = Inr l" and n: "0 < n"
  show ?thesis
  proof (cases "definition_of line")
    case None
    with r n flow_reads show ?thesis
      by (cases "flow line n") (auto simp: read_line_def split: if_splits option.splits)
  next
    case (Some nb)
    obtain name body where nb: "nb = (name, body)" by (cases nb)
    have "is_name name" using Some nb by (auto simp: definition_of_def Let_def split: option.splits if_splits)
    with r Some nb show ?thesis
      by (cases "read_budget body n"; cases "read_stage name body n") (auto simp: read_line_def split: if_splits dest: read_stage_place)
  qed
qed

lemma read_lines_ok: "read_lines n raw = (ls, es) \<Longrightarrow> 0 < n \<Longrightarrow> \<forall>l \<in> set ls. \<exists>k. 0 < k \<and> line_ok k l"
proof (induction raw arbitrary: n ls es)
  case (Cons r raw)
  obtain ls' es' where rest: "read_lines (n + 1) raw = (ls', es')" by (cases "read_lines (n + 1) raw")
  with Cons.IH [OF rest] have IH: "\<forall>l \<in> set ls'. \<exists>k. 0 < k \<and> line_ok k l" by simp
  show ?case
  proof (cases "ls = ls'")
    case False
    then obtain l where "read_line (trim (uncomment r)) n = Inr l" "ls = l # ls'"
      using Cons.prems(1) rest by (auto simp: Let_def split: if_splits sum.splits)
    with read_line_ok Cons.prems(2) IH show ?thesis by auto
  qed (use IH in simp)
qed simp

subsection \<open>The whole text\<close>

definition gathered_ok :: "gathered \<Rightarrow> bool" where
  "gathered_ok g \<longleftrightarrow> distinct (map st_name (ga_stages g)) \<and>
     (\<forall>s \<in> set (ga_stages g). is_name (st_name s) \<and> st_name s \<noteq> DONE \<and> 0 < st_line s) \<and>
     (\<forall>a \<in> set (ga_arrows g). arrow_ok a) \<and>
     (\<forall>n. ga_start g = Some n \<longrightarrow> (\<exists>a \<in> set (ga_arrows g). ar_from a = n))"

lemma gather_ok: "gathered_ok g \<Longrightarrow> line_ok k l \<Longrightarrow> 0 < k \<Longrightarrow> gathered_ok (gather g l)"
proof (cases l)
  case (LFlow nodes as)
  assume "gathered_ok g" "line_ok k l"
  with LFlow show ?thesis
    by (auto simp: gathered_ok_def flow_ok_def split: option.splits list.splits)
next
  case (LStage s)
  assume "gathered_ok g" "line_ok k l" "0 < k"
  with LStage show ?thesis by (auto simp: gathered_ok_def find_None_iff split: option.splits)
qed (auto simp: gathered_ok_def split: option.splits)

lemma gather_all_ok: "gathered_ok g \<Longrightarrow> \<forall>l \<in> set ls. \<exists>k. 0 < k \<and> line_ok k l \<Longrightarrow> gathered_ok (foldl gather g ls)"
  by (induction ls arbitrary: g) (auto intro: gather_ok)

lemma done_is_name: "is_name DONE" by (simp add: DONE_def is_name_def is_lower_def name_char_def)

lemma lone_stage_ok: "gathered_ok g \<Longrightarrow> gathered_ok (lone_stage g)"
  using done_is_name by (cases "ga_stages g") (auto simp: gathered_ok_def lone_stage_def plain_arrow_def arrow_ok_def Let_def)

definition pipeline_ok :: "pipeline \<Rightarrow> bool" where
  "pipeline_ok p \<longleftrightarrow> distinct (map st_name (pi_stages p)) \<and>
     (\<forall>s \<in> set (pi_stages p). is_name (st_name s) \<and> st_name s \<noteq> DONE \<and> 0 < st_line s) \<and>
     (\<forall>a \<in> set (pi_arrows p). arrow_ok a) \<and> (\<exists>a \<in> set (pi_arrows p). ar_from a = pi_start p)"

lemma parse_ok: "parse text = Inr p \<Longrightarrow> pipeline_ok p"
proof -
  assume r: "parse text = Inr p"
  obtain ls es where rd: "read text = (ls, es)" by (cases "read text")
  define g0 where "g0 = \<lparr>ga_stages = [], ga_arrows = [], ga_budget = None, ga_start = None, ga_errors = es\<rparr>"
  define g where "g = lone_stage (foldl gather g0 ls)"
  note f = r [unfolded parse_def rd Let_def prod.case g0_def [symmetric] g_def [symmetric]]
  have "gathered_ok g0" by (simp add: gathered_ok_def g0_def)
  then have ok: "gathered_ok g" unfolding g_def
    using read_lines_ok [of 1 "lines_str text" ls es] rd by (intro lone_stage_ok gather_all_ok) (auto simp: read_def)
  have errors: "ga_errors g = []" "start_error g = []" using f by (auto split: if_splits)
  obtain n where n: "ga_start g = Some n" using errors by (cases "ga_start g") (auto simp: start_error_def split: if_splits)
  have "p = \<lparr>pi_stages = ga_stages g, pi_arrows = ga_arrows g, pi_budget = ga_budget g, pi_start = n, pi_text = text\<rparr>"
    using f errors n by simp
  with ok n show ?thesis by (auto simp: gathered_ok_def pipeline_ok_def)
qed

subsection \<open>Properties\<close>

text \<open>
  What the parser accepts is well formed: the stages have distinct names of the form \<open>[a-z][a-z0-9_]*\<close>,
  none of them \<open>done\<close>, every arrow joins such names, its \<open>max\<close> is not zero, lines count from 1, and an arrow
  leaves the start. What it refuses it refuses with at least one error, and the errors come in the order of
  the lines.
\<close>

lemma parse_well_formed: "case parse text of Inl es \<Rightarrow> es \<noteq> [] \<and> sorted (map pe_line es) | Inr p \<Rightarrow> pipeline_ok p \<and> pi_text p = text"
proof (cases "parse text")
  case (Inl es)
  then obtain xs where "es = sort_key pe_line xs" "xs \<noteq> []" by (auto simp: parse_def Let_def case_prod_beta split: if_splits)
  moreover from this have "es \<noteq> []" by (metis length_0_conv length_sort)
  ultimately show ?thesis using Inl by auto
next
  case (Inr p)
  then have "pi_text p = text" by (auto simp: parse_def Let_def case_prod_beta split: if_splits)
  with Inr parse_ok show ?thesis by simp
qed

text \<open>
  C22. Loading a text always answers. A text that loads gives a pipeline whose run starts at one of its
  stages and ends after fewer than \<open>walk_fuel\<close> steps, whatever the stages answer.
\<close>

theorem loaded_runs:
  assumes "load fuel text cx = Some (Inr p)"
  shows "(\<exists>s. stage_named p (pi_start p) = Some s) \<and> (\<forall>n s. (run_step p ^^ n) (start_state p) s \<longrightarrow> n < walk_fuel p)"
proof -
  from assms have p: "parse text = Inr p" "check fuel p cx = Some (Inr ())"
    by (auto simp: load_def split: sum.splits) (metis (full_types) old.unit.exhaust sum.exhaust)+
  from parse_ok [OF p(1)] obtain a where a: "a \<in> set (pi_arrows p)" "ar_from a = pi_start p" by (auto simp: pipeline_ok_def)
  from accepted_parts(1) [OF p(2)] a(1) have e: "check_arrow p a = []" by (simp add: check_arrows_def)
  then have "stage_map p (pi_start p) \<noteq> None" using a(2) by (auto simp: check_arrow_def split: if_splits)
  then obtain s where "s \<in> set (pi_stages p)" "st_name s = pi_start p" unfolding stage_map_Some by blast
  then have "stage_named p (pi_start p) \<noteq> None" by (auto simp: stage_named_def find_None_iff)
  with runs_bounded [OF accepted_parts(3) [OF p(2)]] show ?thesis by auto
qed

definition two_stages :: string where
  "two_stages = ''build = run make'' @ [newline] @ ''look = ask '' @ [quote] @ ''Good?'' @ [quote] @ [newline] @ ''build -> look -> done'' @ [newline]"

definition no_context :: check_context where
  "no_context = \<lparr>cx_prompts = Map.empty, cx_machine = None, cx_machines = [], cx_roles = [], cx_sizes = Map.empty\<rparr>"

theorem loaded_runs_witness:
  "\<exists>p. load 8 two_stages no_context = Some (Inr p) \<and> pi_start p = ''build'' \<and> (\<exists>s. stage_named p ''build'' = Some s)"
proof -
  have "map_option (map_sum (\<lambda>_. ()) pi_start) (load 8 two_stages no_context) = Some (Inr ''build'')" by code_simp
  then obtain p where p: "load 8 two_stages no_context = Some (Inr p)" "pi_start p = ''build''"
    by (cases "load 8 two_stages no_context"; cases "the (load 8 two_stages no_context)") auto
  with loaded_runs [OF p(1)] show ?thesis by auto
qed

end
