(* ===== verification/Pipe_Carry.thy ===== *)
theory Pipe_Carry
  imports Pipe_Revise Pipe_Load
begin

text \<open>
  Editing a pipeline while it runs (\<open>edited\<close> in \<open>kanna-pipe/src/revise.rs\<close>): the counts of the arrows taken are
  carried over to the same arrows of the new text, each at most once, so the limits still hold.
\<close>

subsection \<open>Matching arrows\<close>

lemma match_SomeD:
  assumes "position (\<lambda>(i, b). \<not> used ! i \<and> arrow_same b a) (enumerate 0 old) = Some i"
  shows "i < length old \<and> \<not> used ! i \<and> arrow_same (old ! i) a"
  using position_SomeD [OF assms] by (auto simp: nth_enumerate_eq)

lemma match_facts:
  "length used = length old \<Longrightarrow>
   length (match_arrows old used as) = length as \<and>
   (\<forall>k i. k < length as \<longrightarrow> match_arrows old used as ! k = Some i \<longrightarrow> i < length old \<and> \<not> used ! i \<and> arrow_same (old ! i) (as ! k)) \<and>
   (\<forall>k l i. k < l \<longrightarrow> l < length as \<longrightarrow> match_arrows old used as ! k = Some i \<longrightarrow> match_arrows old used as ! l \<noteq> Some i)"
proof (induction as arbitrary: used)
  case (Cons a as)
  show ?case
  proof (cases "position (\<lambda>(i, b). \<not> used ! i \<and> arrow_same b a) (enumerate 0 old)")
    case None
    have m: "match_arrows old used (a # as) = None # match_arrows old used as" by (simp only: match_arrows.simps None option.case)
    show ?thesis unfolding m using Cons.IH [OF Cons.prems] by (auto simp: nth_Cons' less_Suc_eq_0_disj)
  next
    case (Some i)
    note s = match_SomeD [OF Some]
    have m: "match_arrows old used (a # as) = Some i # match_arrows old (used[i := True]) as" by (simp only: match_arrows.simps Some option.case)
    have IH: "length (match_arrows old (used[i := True]) as) = length as"
      "\<And>k j. k < length as \<Longrightarrow> match_arrows old (used[i := True]) as ! k = Some j \<Longrightarrow> j < length old \<and> \<not> used[i := True] ! j \<and> arrow_same (old ! j) (as ! k)"
      "\<And>k l j. k < l \<Longrightarrow> l < length as \<Longrightarrow> match_arrows old (used[i := True]) as ! k = Some j \<Longrightarrow> match_arrows old (used[i := True]) as ! l \<noteq> Some j"
      using Cons.IH [of "used[i := True]"] Cons.prems by auto
    have used: "j \<noteq> i \<and> \<not> used ! j" if "\<not> used[i := True] ! j" "j < length old" for j
      using that s Cons.prems by (cases "j = i") auto
    have fresh: "match_arrows old (used[i := True]) as ! k \<noteq> Some i" if "k < length as" for k using IH(2) [OF that, of i] used by blast
    show ?thesis unfolding m using IH s used fresh by (auto simp: nth_Cons' less_Suc_eq_0_disj)
  qed
qed simp

lemma match_same:
  "length used = length old \<Longrightarrow> k + length as = length old \<Longrightarrow> (\<forall>i < k. used ! i) \<Longrightarrow> (\<forall>i < length old. k \<le> i \<longrightarrow> \<not> used ! i) \<Longrightarrow>
   (\<forall>i < length as. arrow_same (old ! (k + i)) (as ! i)) \<Longrightarrow> match_arrows old used as = map Some [k..<length old]"
proof (induction as arbitrary: used k)
  case (Cons a as)
  have "position (\<lambda>(i, b). \<not> used ! i \<and> arrow_same b a) (enumerate 0 old) = Some k"
    using Cons.prems by (intro position_SomeI) (auto simp: nth_enumerate_eq)
  moreover have "arrow_same (old ! (Suc k + i)) (as ! i)" if "i < length as" for i
    using Cons.prems(5) [rule_format, of "Suc i"] that by simp
  then have "match_arrows old (used[k := True]) as = map Some [Suc k..<length old]"
    using Cons.prems by (intro Cons.IH) (auto simp: nth_list_update less_Suc_eq)
  ultimately show ?case using Cons.prems(2) by (simp only: match_arrows.simps option.case) (simp add: upt_conv_Cons)
qed simp

subsection \<open>Counts within their limits\<close>

definition counts_ok :: "pipeline \<Rightarrow> u32 list \<Rightarrow> bool" where
  "counts_ok p taken \<longleftrightarrow> length taken = length (pi_arrows p) \<and>
     (\<forall>i < length taken. case ar_max (pi_arrows p ! i) of Some n \<Rightarrow> taken ! i \<le> n | None \<Rightarrow> True)"

lemma counts_start: "counts_ok p (snd (start_state p))"
  by (auto simp: counts_ok_def start_state_def split: option.splits)

lemma inc_le_u32: "(a :: u32) < n \<Longrightarrow> a + 1 \<le> n"
  by (rule inc_le)

lemma counts_step: "run_step p s t \<Longrightarrow> counts_ok p (snd s) \<Longrightarrow> counts_ok p (snd t)"
proof (elim run_stepE)
  fix name here v stalled taken i a
  assume p: "pick p name v taken stalled = Some (i, a)" and s: "s = (name, taken)" "t = (ar_to a, taken[i := taken ! i + 1])"
    and ok: "counts_ok p (snd s)"
  have "taken ! i + 1 \<le> n" if "ar_max (pi_arrows p ! i) = Some n" for n
    using pick_Some [OF p] that ok s by (auto simp: may_take_def counts_ok_def intro: inc_le_u32)
  then have "taken[i := taken ! i + 1] ! j \<le> n" if "ar_max (pi_arrows p ! j) = Some n" "j < length taken" for j n
    using that ok s by (cases "i = j") (auto simp: counts_ok_def)
  with ok s show "counts_ok p (snd t)" by (auto simp: counts_ok_def split: option.splits)
qed

lemma edited_parts:
  assumes "edited fuel p text cx = Some (Inr r)"
  shows "parse text = Inr (re_pipeline r) \<and> check fuel (re_pipeline r) cx = Some (Inr ()) \<and>
    re_carried r = match_arrows (pi_arrows p) (replicate (length (pi_arrows p)) False) (pi_arrows (re_pipeline r))"
proof -
  from assms obtain q where q: "parse text = Inr q" by (auto simp: edited_def split: sum.splits)
  with assms obtain c where c: "check fuel q cx = Some c" by (auto simp: edited_def)
  with assms q show ?thesis by (cases c) (auto simp: edited_def)
qed

lemma edited_facts:
  assumes "edited fuel p text cx = Some (Inr r)"
  shows "length (re_carried r) = length (pi_arrows (re_pipeline r))"
    and "k < length (re_carried r) \<Longrightarrow> re_carried r ! k = Some i \<Longrightarrow> i < length (pi_arrows p) \<and> arrow_same (pi_arrows p ! i) (pi_arrows (re_pipeline r) ! k)"
    and "k < l \<Longrightarrow> l < length (re_carried r) \<Longrightarrow> re_carried r ! k = Some i \<Longrightarrow> re_carried r ! l \<noteq> Some i"
  using edited_parts [OF assms] match_facts [of "replicate (length (pi_arrows p)) False" "pi_arrows p" "pi_arrows (re_pipeline r)"] by auto

lemma length_revision_taken [simp]: "length (revision_taken r before) = length (re_carried r)"
  by (simp add: revision_taken_def)

lemma counts_edited:
  assumes "edited fuel p text cx = Some (Inr r)" "counts_ok p taken"
  shows "counts_ok (re_pipeline r) (revision_taken r taken)"
proof -
  note f = edited_facts [OF assms(1)]
  have "case ar_max (pi_arrows (re_pipeline r) ! k) of Some n \<Rightarrow> revision_taken r taken ! k \<le> n | None \<Rightarrow> True" if k: "k < length (re_carried r)" for k
  proof (cases "re_carried r ! k")
    case None
    with k show ?thesis by (auto simp: revision_taken_def split: option.splits)
  next
    case (Some i)
    with f(2) [OF k] have "i < length (pi_arrows p)" "ar_max (pi_arrows (re_pipeline r) ! k) = ar_max (pi_arrows p ! i)" by (auto simp: arrow_same_def)
    moreover have "revision_taken r taken ! k = taken ! i"
      using Some k assms(2) f(2) [OF k Some] by (auto simp: revision_taken_def counts_ok_def)
    ultimately show ?thesis using assms(2) by (simp add: counts_ok_def split: option.splits)
  qed
  then show ?thesis using f(1) by (simp add: counts_ok_def)
qed

text \<open>A run that takes steps, and whose pipeline is edited between them.\<close>

inductive run_reach :: "pipeline \<Rightarrow> run_state \<Rightarrow> bool" where
  begins: "run_reach p (start_state p)"
| steps: "run_reach p s \<Longrightarrow> run_step p s t \<Longrightarrow> run_reach p t"
| edits: "run_reach p (name, taken) \<Longrightarrow> edited fuel p text cx = Some (Inr r) \<Longrightarrow> run_reach (re_pipeline r) (name, revision_taken r taken)"

subsection \<open>Properties\<close>


definition with_note :: string where
  "with_note = ''# checked by hand'' @ [newline] @ two_stages"

definition two_parsed :: pipeline where
  "two_parsed = (case parse two_stages of Inr p \<Rightarrow> p | Inl _ \<Rightarrow> review_loop)"

definition two_edited :: revision where
  "two_edited = (case edited 8 two_parsed with_note no_context of Some (Inr r) \<Rightarrow> r | _ \<Rightarrow> \<lparr>re_pipeline = review_loop, re_carried = []\<rparr>)"

lemma two_edited_is: "edited 8 two_parsed with_note no_context = Some (Inr two_edited)"
proof -
  have "map_option (\<lambda>e. case e of Inr r \<Rightarrow> True | Inl _ \<Rightarrow> False) (edited 8 two_parsed with_note no_context) = Some True" by code_simp
  then obtain r where "edited 8 two_parsed with_note no_context = Some (Inr r)"
    by (cases "edited 8 two_parsed with_note no_context"; cases "the (edited 8 two_parsed with_note no_context)") auto
  then show ?thesis by (simp add: two_edited_def)
qed


text \<open>
  Editing carries each count over to one arrow at most, and only to an arrow that is the same but for
  its line; editing the arrows only in their place (comments, blank lines, stages) carries every count.
\<close>

lemma edited_carries:
  assumes "edited fuel p text cx = Some (Inr r)"
  shows "(\<forall>k < length (re_carried r). \<forall>i. re_carried r ! k = Some i \<longrightarrow>
      i < length (pi_arrows p) \<and> arrow_same (pi_arrows p ! i) (pi_arrows (re_pipeline r) ! k)) \<and>
    (\<forall>k l i. k < l \<and> l < length (re_carried r) \<and> re_carried r ! k = Some i \<longrightarrow> re_carried r ! l \<noteq> Some i) \<and>
    (list_all2 arrow_same (pi_arrows p) (pi_arrows (re_pipeline r)) \<longrightarrow>
      (\<forall>taken. length taken = length (pi_arrows p) \<longrightarrow> revision_taken r taken = taken))"
proof (intro conjI impI allI)
  note f = edited_facts [OF assms]
  fix k l i
  show "k < length (re_carried r) \<Longrightarrow> re_carried r ! k = Some i \<Longrightarrow> i < length (pi_arrows p)" using f(2) by blast
  show "k < length (re_carried r) \<Longrightarrow> re_carried r ! k = Some i \<Longrightarrow> arrow_same (pi_arrows p ! i) (pi_arrows (re_pipeline r) ! k)" using f(2) by blast
  show "k < l \<and> l < length (re_carried r) \<and> re_carried r ! k = Some i \<Longrightarrow> re_carried r ! l \<noteq> Some i" using f(3) by blast
next
  fix taken :: "u32 list"
  assume same: "list_all2 arrow_same (pi_arrows p) (pi_arrows (re_pipeline r))" and len: "length taken = length (pi_arrows p)"
  have "re_carried r = map Some [0..<length (pi_arrows p)]"
    using edited_parts [OF assms] same match_same [of "replicate (length (pi_arrows p)) False" "pi_arrows p" 0 "pi_arrows (re_pipeline r)"]
    by (auto simp: list_all2_conv_all_nth)
  then show "revision_taken r taken = taken" using len by (auto simp: revision_taken_def intro: nth_equalityI)
qed

lemma edited_carries_witness: "revision_taken two_edited [7, 3] = [7, 3]"
proof -
  have "list_all2 arrow_same (pi_arrows two_parsed) (pi_arrows (re_pipeline two_edited))" by code_simp
  moreover have "length (pi_arrows two_parsed) = 2" by code_simp
  ultimately show ?thesis using edited_carries [OF two_edited_is] by simp
qed

end
