(* ===== verification/Kanna_Utf8.thy ===== *)
theory Kanna_Utf8
  imports Kanna_Strings
begin

text \<open>
  UTF-8 as Rust's standard library reads it (\<open>str::from_utf8\<close>, \<open>String::from_utf8_lossy\<close>, \<open>chars\<close>), for the
  components that work on bytes. There a \<^typ>\<open>string\<close> is a list of bytes.
\<close>

text \<open>The ranges of the bytes that follow a first byte of 128 or more; a byte that starts no character has none.\<close>

definition utf8_follow :: "nat \<Rightarrow> (nat \<times> nat) list" where
  "utf8_follow n =
     (if 0xC2 \<le> n \<and> n \<le> 0xDF then [(0x80, 0xBF)]
      else if n = 0xE0 then [(0xA0, 0xBF), (0x80, 0xBF)]
      else if n = 0xED then [(0x80, 0x9F), (0x80, 0xBF)]
      else if 0xE1 \<le> n \<and> n \<le> 0xEF then [(0x80, 0xBF), (0x80, 0xBF)]
      else if n = 0xF0 then [(0x90, 0xBF), (0x80, 0xBF), (0x80, 0xBF)]
      else if 0xF1 \<le> n \<and> n \<le> 0xF3 then [(0x80, 0xBF), (0x80, 0xBF), (0x80, 0xBF)]
      else if n = 0xF4 then [(0x80, 0x8F), (0x80, 0xBF), (0x80, 0xBF)]
      else [])"

fun utf8_tail :: "nat \<Rightarrow> (nat \<times> nat) list \<Rightarrow> string \<Rightarrow> nat option + nat" where
  "utf8_tail k [] s = Inr k"
| "utf8_tail k ((lo, hi) # rs) [] = Inl None"
| "utf8_tail k ((lo, hi) # rs) (c # s) = (if lo \<le> code c \<and> code c \<le> hi then utf8_tail (k + 1) rs s else Inl (Some k))"

text \<open>
  The character at the start: its width, or \<open>error_len\<close>: how many bytes are wrong, and nothing when the
  input ends inside a character.
\<close>

fun utf8_char :: "string \<Rightarrow> nat option + nat" where
  "utf8_char [] = Inl None"
| "utf8_char (c # s) =
     (if code c < 128 then Inr 1
      else if utf8_follow (code c) = [] then Inl (Some 1)
      else utf8_tail 1 (utf8_follow (code c)) s)"

lemma utf8_tail_width: "utf8_tail k rs s = Inr w \<Longrightarrow> w = k + length rs \<and> length rs \<le> length s"
  by (induction k rs s rule: utf8_tail.induct) (auto split: if_splits)

lemma utf8_tail_error: "utf8_tail k rs s = Inl (Some e) \<Longrightarrow> k \<le> e \<and> e < k + length s + 1"
  by (induction k rs s rule: utf8_tail.induct) (auto split: if_splits)

lemma utf8_char_width: "utf8_char s = Inr w \<Longrightarrow> 0 < w \<and> w \<le> length s"
  by (cases s) (auto split: if_splits dest!: utf8_tail_width)

lemma utf8_char_error: "utf8_char s = Inl (Some e) \<Longrightarrow> 0 < e \<and> e \<le> length s"
  by (cases s) (auto split: if_splits dest!: utf8_tail_error)

text \<open>\<open>valid_up_to\<close>, and the characters of the valid part.\<close>

function valid_up_to :: "string \<Rightarrow> nat" where
  "valid_up_to s = (case utf8_char s of Inr w \<Rightarrow> w + valid_up_to (drop w s) | Inl _ \<Rightarrow> 0)"
  by pat_completeness auto
termination by (relation "measure length") (auto dest!: utf8_char_width)

function utf8_chars :: "string \<Rightarrow> string list" where
  "utf8_chars s = (case utf8_char s of Inr w \<Rightarrow> take w s # utf8_chars (drop w s) | Inl _ \<Rightarrow> [])"
  by pat_completeness auto
termination by (relation "measure length") (auto dest!: utf8_char_width)

declare valid_up_to.simps [simp del] utf8_chars.simps [simp del]

lemma valid_up_to_le: "valid_up_to s \<le> length s"
proof (induction s rule: valid_up_to.induct)
  case (1 s)
  show ?case
  proof (cases "utf8_char s")
    case (Inr w)
    with 1 [OF Inr] utf8_char_width [OF Inr] show ?thesis by (subst valid_up_to.simps) (simp, linarith)
  qed (simp add: valid_up_to.simps [of s])
qed

text \<open>How many bytes at the start are wrong, when no character is there: \<open>error_len\<close>, or all that is left.\<close>

definition bad_len :: "string \<Rightarrow> nat" where
  "bad_len s = (case utf8_char s of Inl (Some e) \<Rightarrow> e | _ \<Rightarrow> length s)"

lemma bad_len_pos: "s \<noteq> [] \<Longrightarrow> 0 < bad_len s \<and> bad_len s \<le> length s"
  by (auto simp: bad_len_def split: sum.splits option.splits dest!: utf8_char_error)

lemma utf8_chars_valid: "concat (utf8_chars s) = take (valid_up_to s) s"
proof (induction s rule: utf8_chars.induct)
  case (1 s)
  show ?case
  proof (cases "utf8_char s")
    case (Inr w)
    with 1 [OF Inr] show ?thesis
      by (simp add: utf8_chars.simps [of s] valid_up_to.simps [of s] take_add)
  qed (simp add: utf8_chars.simps [of s] valid_up_to.simps [of s])
qed

text \<open>A prefix that ends between characters keeps them.\<close>

lemma utf8_tail_take: "utf8_tail k rs s = Inr w \<Longrightarrow> w - k \<le> n \<Longrightarrow> utf8_tail k rs (take n s) = Inr w"
proof (induction k rs s arbitrary: n rule: utf8_tail.induct)
  case (3 k lo hi rs c s)
  then have t: "utf8_tail (k + 1) rs s = Inr w" "lo \<le> code c" "code c \<le> hi" by (auto split: if_splits)
  with utf8_tail_width [OF t(1)] 3(3) obtain m where "n = Suc m" "w - (k + 1) \<le> m" by (cases n) auto
  with 3(1) t show ?case by simp
qed auto

lemma utf8_char_take: "utf8_char s = Inr w \<Longrightarrow> w \<le> n \<Longrightarrow> utf8_char (take n s) = Inr w"
proof (cases s)
  case (Cons c r)
  assume a: "utf8_char s = Inr w" "w \<le> n"
  with Cons utf8_char_width [OF a(1)] obtain m where m: "n = Suc m" by (cases n) auto
  with a Cons show ?thesis by (auto split: if_splits intro: utf8_tail_take)
qed simp

lemma valid_take: "valid_up_to (take (valid_up_to s) s) = valid_up_to s"
proof (induction s rule: valid_up_to.induct)
  case (1 s)
  show ?case
  proof (cases "utf8_char s")
    case (Inr w)
    let ?v = "valid_up_to (drop w s)"
    have v: "valid_up_to s = w + ?v" using Inr by (subst valid_up_to.simps) simp
    have "utf8_char (take (w + ?v) s) = Inr w" by (rule utf8_char_take [OF Inr]) simp
    moreover have "drop w (take (w + ?v) s) = take ?v (drop w s)" by (simp add: drop_take)
    ultimately show ?thesis unfolding v using 1 [OF Inr] by (subst valid_up_to.simps) simp
  qed (simp add: valid_up_to.simps [of s] valid_up_to.simps [of "[]"])
qed

text \<open>\<open>String::from_utf8_lossy\<close>: each run of wrong bytes becomes U+FFFD.\<close>

function lossy :: "string \<Rightarrow> string" where
  "lossy s =
     (if s = [] then []
      else (let v = valid_up_to s; rest = drop v s
            in take v s @ (if rest = [] then [] else [CHR 0xEF, CHR 0xBF, CHR 0xBD] @ lossy (drop (bad_len rest) rest))))"
  by pat_completeness auto
termination
proof (relation "measure length")
  fix s :: string and v rest
  assume "v = valid_up_to s" "rest = drop v s" "rest \<noteq> []"
  with bad_len_pos [of rest] show "(drop (bad_len rest) rest, s) \<in> measure length" by auto
qed simp

declare lossy.simps [simp del]

lemma lossy_valid: "valid_up_to s = length s \<Longrightarrow> lossy s = s"
  by (subst lossy.simps) auto

text \<open>\<open>str::trim\<close>, with Unicode's white space.\<close>

definition utf8_space :: "string \<Rightarrow> bool" where
  "utf8_space c \<longleftrightarrow>
     (case map code c of
        [n] \<Rightarrow> 9 \<le> n \<and> n \<le> 13 \<or> n = 32
      | [m, n] \<Rightarrow> m = 0xC2 \<and> (n = 0x85 \<or> n = 0xA0)
      | [m, n, k] \<Rightarrow>
          m = 0xE1 \<and> n = 0x9A \<and> k = 0x80 \<or> m = 0xE2 \<and> n = 0x80 \<and> (0x80 \<le> k \<and> k \<le> 0x8A \<or> k = 0xA8 \<or> k = 0xA9 \<or> k = 0xAF) \<or>
          m = 0xE2 \<and> n = 0x81 \<and> k = 0x9F \<or> m = 0xE3 \<and> n = 0x80 \<and> k = 0x80
      | _ \<Rightarrow> False)"

definition utf8_trim :: "string \<Rightarrow> string" where
  "utf8_trim s = concat (rev (dropWhile utf8_space (rev (dropWhile utf8_space (utf8_chars s)))))"

definition utf8_trim_end :: "string \<Rightarrow> string" where
  "utf8_trim_end s = concat (rev (dropWhile utf8_space (rev (utf8_chars s))))"

text \<open>\<open>str::split_whitespace\<close>.\<close>

fun split_list :: "('a \<Rightarrow> bool) \<Rightarrow> 'a list \<Rightarrow> 'a list list" where
  "split_list p [] = [[]]"
| "split_list p (x # xs) = (if p x then [] # split_list p xs else (case split_list p xs of [] \<Rightarrow> [[x]] | y # ys \<Rightarrow> (x # y) # ys))"

definition utf8_words :: "string \<Rightarrow> string list" where
  "utf8_words s = map concat (filter (\<lambda>w. w \<noteq> []) (split_list utf8_space (utf8_chars s)))"

text \<open>\<open>splitn\<close> by a character, and \<open>i64::from_str\<close>.\<close>

fun splitn :: "nat \<Rightarrow> char \<Rightarrow> string \<Rightarrow> string list" where
  "splitn 0 c s = []"
| "splitn (Suc n) c s = (if n = 0 then [s] else (case split_once [c] s of None \<Rightarrow> [s] | Some (a, b) \<Rightarrow> a # splitn n c b))"

definition parse_i64 :: "string \<Rightarrow> int option" where
  "parse_i64 s =
     (let (neg, d) = (case s of c # r \<Rightarrow> if c = CHR ''-'' then (True, r) else if c = CHR ''+'' then (False, r) else (False, s) | [] \<Rightarrow> (False, []))
      in if d \<noteq> [] \<and> list_all is_digit d \<and> digits_value d < 2 ^ 63 + (if neg then 1 else 0)
         then Some (if neg then - int (digits_value d) else int (digits_value d)) else None)"

end
