(* ===== verification/Serial_Lines.thy ===== *)
theory Serial_Lines
  imports Mux_Json Kanna_Utf8
begin

text \<open>
  The lines of a serial port (\<open>kanna-daemon/src/serial/lines.rs\<close>): bytes arrive in chunks, \<open>Splitter\<close> cuts them into
  lines at LF, CRLF or a lone CR and at 16 KiB, and \<open>escape\<close> shows the bytes of a line as text. Bytes are
  characters here and times are \<^typ>\<open>int\<close>. The two regular expressions of \<open>strip_ansi\<close> and \<open>level\<close> are
  arguments, since the crate that matches them is not part of the sources.
\<close>

definition LONGEST :: nat where "LONGEST = 16 * 1024"

datatype serial_dir = Rx | Tx | Event

fun dir_mark :: "serial_dir \<Rightarrow> string" where
  "dir_mark Rx = ''<''" | "dir_mark Tx = ''>''" | "dir_mark Event = ''#''"

datatype log_format = EspIdf | Zephyr | Arduino

definition log_formats :: "log_format list" where "log_formats = [EspIdf, Zephyr, Arduino]"

fun format_name :: "log_format \<Rightarrow> string" where
  "format_name EspIdf = ''ESP-IDF''" | "format_name Zephyr = ''Zephyr''" | "format_name Arduino = ''Arduino''"

record serial_row =
  row_seq :: nat
  row_t :: int
  row_dir :: serial_dir
  row_text :: string
  row_level :: "char option"

definition row_json :: "serial_row \<Rightarrow> json" where
  "row_json r =
     (let out = [(''n'', JNumber (NInt (int (row_seq r)))), (''t'', JNumber (NInt (row_t r))), (''d'', JString (dir_mark (row_dir r))), (''text'', JString (row_text r))]
      in JObject (case row_level r of Some l \<Rightarrow> oinsert ''l'' (JString [l]) out | None \<Rightarrow> out))"

subsection \<open>Splitting\<close>

record serial_line =
  sl_t :: int
  sl_bytes :: string

record splitter =
  sp_partial :: "serial_line option"
  sp_after_cr :: bool

definition new_splitter :: splitter where
  "new_splitter = \<lparr>sp_partial = None, sp_after_cr = False\<rparr>"

definition take_line :: "int \<Rightarrow> splitter \<Rightarrow> serial_line" where
  "take_line t sp = (case sp_partial sp of Some l \<Rightarrow> l | None \<Rightarrow> \<lparr>sl_t = t, sl_bytes = []\<rparr>)"

definition feed_byte :: "int \<Rightarrow> splitter \<times> serial_line list \<Rightarrow> char \<Rightarrow> splitter \<times> serial_line list" where
  "feed_byte t = (\<lambda>(sp, out) byte.
     (if sp_after_cr sp \<and> byte = newline then (sp\<lparr>sp_after_cr := False\<rparr>, out)
      else let sp = sp\<lparr>sp_after_cr := False\<rparr>
           in if byte = newline then (sp\<lparr>sp_partial := None\<rparr>, out @ [take_line t sp])
              else if byte = CHR 0x0D then (sp\<lparr>sp_partial := None, sp_after_cr := True\<rparr>, out @ [take_line t sp])
              else (let line = (take_line t sp)\<lparr>sl_bytes := sl_bytes (take_line t sp) @ [byte]\<rparr>
                    in if length (sl_bytes line) \<ge> LONGEST then (sp\<lparr>sp_partial := None\<rparr>, out @ [line])
                       else (sp\<lparr>sp_partial := Some line\<rparr>, out))))"

definition feed :: "int \<Rightarrow> string \<Rightarrow> splitter \<Rightarrow> splitter \<times> serial_line list" where
  "feed t data sp = foldl (feed_byte t) (sp, []) data"

definition take_partial :: "splitter \<Rightarrow> splitter \<times> serial_line option" where
  "take_partial sp = (sp\<lparr>sp_partial := None\<rparr>, sp_partial sp)"

definition splitter_reset :: "splitter \<Rightarrow> splitter" where
  "splitter_reset sp = sp\<lparr>sp_partial := None, sp_after_cr := False\<rparr>"

subsection \<open>Escaping\<close>

definition hex_char :: "nat \<Rightarrow> char" where
  "hex_char n = (if n < 10 then char_of (48 + n) else char_of (87 + n))"

definition hex_byte :: "char \<Rightarrow> string" where
  "hex_byte c = [CHR 0x5C, CHR ''x'', hex_char (code c div 16), hex_char (code c mod 16)]"

text \<open>A character of the valid part, given as its bytes; those of U+0080 to U+009F are C2 80 to C2 9F.\<close>

definition escape_char :: "string \<Rightarrow> string" where
  "escape_char c =
     (if c = [CHR 0x5C] then [CHR 0x5C, CHR 0x5C]
      else if c = [CHR 0x09] \<or> c = [CHR 0x1B] then c
      else if length c = 1 \<and> (code (hd c) < 0x20 \<or> code (hd c) = 0x7F) then hex_byte (hd c)
      else if length c = 2 \<and> code (hd c) = 0xC2 \<and> code (c ! 1) < 0xA0 then concat (map hex_byte c)
      else c)"

function escape :: "string \<Rightarrow> string" where
  "escape rest =
     (if rest = [] then []
      else (let good = take (valid_up_to rest) rest; after = drop (valid_up_to rest) rest; bad = take (bad_len after) after
            in concat (map escape_char (utf8_chars good)) @ concat (map hex_byte bad) @ escape (drop (length good + length bad) rest)))"
  by pat_completeness auto
termination
proof (relation "measure length")
  fix rest good after bad :: string
  assume a: "rest \<noteq> []" "good = take (valid_up_to rest) rest" "after = drop (valid_up_to rest) rest" "bad = take (bad_len after) after"
  have "0 < length good + length bad"
  proof (cases "after = []")
    case True
    with a have "good = rest" by simp
    with a(1) show ?thesis by simp
  next
    case False
    with a bad_len_pos [of after] show ?thesis by simp
  qed
  then show "(drop (length good + length bad) rest, rest) \<in> measure length" using a(1) by simp
qed simp

declare escape.simps [simp del]

subsection \<open>Levels\<close>

definition PANICS :: "string list" where
  "PANICS = [''Guru Meditation Error'', ''abort() was called'', ''assert failed'', ''***** Kernel panic'']"

text \<open>
  \<open>strip\<close> deletes the ANSI sequences, and \<open>captures\<close> gives the first group of a format's pattern where it matches.
\<close>

definition level_of :: "string \<Rightarrow> char" where
  "level_of found = (if found = ''err'' then CHR ''E'' else if found = ''wrn'' then CHR ''W'' else if found = ''inf'' then CHR ''I''
     else if found = ''dbg'' then CHR ''D'' else case found of c # _ \<Rightarrow> c | [] \<Rightarrow> CHR ''I'')"

definition log_level :: "(string \<Rightarrow> string) \<Rightarrow> (log_format \<Rightarrow> string \<Rightarrow> string option) \<Rightarrow> string \<Rightarrow> char option \<times> log_format option" where
  "log_level strip captures txt =
     (let plain = strip txt
      in case find_map (\<lambda>f. map_option (\<lambda>found. (f, found)) (captures f plain)) log_formats of
           Some (f, found) \<Rightarrow> (Some (level_of found), Some f)
         | None \<Rightarrow> if \<exists>w \<in> set PANICS. contains_str w plain then (Some CHR ''E'', None) else (None, None))"

subsection \<open>What the splitter computes\<close>

text \<open>
  The lines of a text, for reference: CRLF and a lone CR count as LF, the text is split there, and what is
  longer than 16 KiB is cut into pieces of that length. The last piece has not ended.
\<close>

fun line_ends :: "string \<Rightarrow> string" where
  "line_ends [] = []"
| "line_ends [c] = [if c = CHR 0x0D then newline else c]"
| "line_ends (c # d # s) =
     (if c = CHR 0x0D \<and> d = newline then newline # line_ends s
      else (if c = CHR 0x0D then newline else c) # line_ends (d # s))"

function chop :: "string \<Rightarrow> string list" where
  "chop s = (if length s < LONGEST then [s] else take LONGEST s # chop (drop LONGEST s))"
  by pat_completeness auto
termination by (relation "measure length") (auto simp: LONGEST_def)

declare chop.simps [simp del]

definition text_lines :: "string \<Rightarrow> string list \<times> string" where
  "text_lines s =
     (let pieces = concat (map chop (split_on (\<lambda>c. c = newline) (line_ends s)))
      in (butlast pieces, last pieces))"

definition fed :: "(int \<times> string) list \<Rightarrow> splitter \<times> serial_line list" where
  "fed chunks = foldl (\<lambda>(sp, out) (t, data). let (sp, more) = feed t data sp in (sp, out @ more)) (new_splitter, []) chunks"

definition partial_bytes :: "splitter \<Rightarrow> string" where
  "partial_bytes sp = (case sp_partial sp of Some l \<Rightarrow> sl_bytes l | None \<Rightarrow> [])"

text \<open>The state and the texts of the lines, without the times.\<close>

definition cut_byte :: "string \<times> bool \<times> string list \<Rightarrow> char \<Rightarrow> string \<times> bool \<times> string list" where
  "cut_byte = (\<lambda>(pre, cr, out) c.
     (if cr \<and> c = newline then (pre, False, out)
      else if c = newline then ([], False, out @ [pre])
      else if c = CHR 0x0D then ([], True, out @ [pre])
      else if length pre + 1 \<ge> LONGEST then ([], False, out @ [pre @ [c]])
      else (pre @ [c], False, out)))"

definition texts_of :: "splitter \<times> serial_line list \<Rightarrow> string \<times> bool \<times> string list" where
  "texts_of = (\<lambda>(sp, out). (partial_bytes sp, sp_after_cr sp, map sl_bytes out))"

lemma feed_byte_cut: "texts_of (feed_byte t (sp, out) c) = cut_byte (texts_of (sp, out)) c"
  by (cases "sp_partial sp") (auto simp: feed_byte_def cut_byte_def texts_of_def partial_bytes_def take_line_def Let_def)

lemma feed_cut: "texts_of (foldl (feed_byte t) so data) = foldl cut_byte (texts_of so) data"
proof (induction data arbitrary: so)
  case (Cons c data)
  show ?case using Cons [of "feed_byte t so c"] feed_byte_cut [of t "fst so" "snd so" c] by simp
qed simp

lemma cut_append: "foldl cut_byte (pre, cr, out) s = (let (pre', cr', out') = foldl cut_byte (pre, cr, []) s in (pre', cr', out @ out'))"
proof (induction s arbitrary: pre cr out)
  case (Cons c s)
  obtain pre1 cr1 out1 where c: "cut_byte (pre, cr, []) c = (pre1, cr1, out1)" by (metis prod_cases3)
  have "cut_byte (pre, cr, out) c = (pre1, cr1, out @ out1)" using c by (auto simp: cut_byte_def split: if_splits)
  then show ?case using c Cons [of pre1 cr1 "out @ out1"] Cons [of pre1 cr1 out1] by (simp add: case_prod_beta Let_def)
qed simp

lemma fed_cut: "texts_of (fed chunks) = foldl cut_byte ([], False, []) (concat (map snd chunks))"
proof -
  have "texts_of (foldl (\<lambda>(sp, out) (t, data). let (sp, more) = feed t data sp in (sp, out @ more)) so chunks) =
      foldl cut_byte (texts_of so) (concat (map snd chunks))" for so
  proof (induction chunks arbitrary: so)
    case (Cons x chunks)
    obtain t data sp out where x: "x = (t, data)" "so = (sp, out)" by (metis surj_pair)
    obtain sp1 more where f: "feed t data sp = (sp1, more)" by (metis surj_pair)
    have "foldl cut_byte (texts_of (sp, [])) data = texts_of (sp1, more)" using feed_cut [of t "(sp, [])" data] f by (simp add: feed_def)
    then have "texts_of (sp1, out @ more) = foldl cut_byte (texts_of (sp, out)) data"
      using cut_append [of "partial_bytes sp" "sp_after_cr sp" "map sl_bytes out" data] by (simp add: texts_of_def)
    with Cons.IH [of "(sp1, out @ more)"] x f show ?case by simp
  qed simp
  from this [of "(new_splitter, [])"] show ?thesis by (simp add: fed_def texts_of_def new_splitter_def partial_bytes_def)
qed

definition skip_lf :: "bool \<Rightarrow> string \<Rightarrow> string" where
  "skip_lf cr s = (if cr \<and> s \<noteq> [] \<and> hd s = newline then tl s else s)"

definition cut_plain :: "string \<times> string list \<Rightarrow> char \<Rightarrow> string \<times> string list" where
  "cut_plain = (\<lambda>(pre, out) c.
     (if c = newline then ([], out @ [pre])
      else if length pre + 1 \<ge> LONGEST then ([], out @ [pre @ [c]])
      else (pre @ [c], out)))"

lemma line_ends_CR: "line_ends (CHR 0x0D # s) = newline # line_ends (skip_lf True s)"
  by (cases s) (auto simp: skip_lf_def)

lemma line_ends_other: "c \<noteq> CHR 0x0D \<Longrightarrow> line_ends (c # s) = c # line_ends s"
  by (cases s) auto

lemma cut_ends: "(\<lambda>(pre, _, out). (pre, out)) (foldl cut_byte (pre, cr, out) s) = foldl cut_plain (pre, out) (line_ends (skip_lf cr s))"
proof (induction s arbitrary: pre cr out)
  case (Cons c s)
  show ?case
  proof (cases "cr \<and> c = newline")
    case True
    then show ?thesis using Cons [of pre False out] by (simp add: cut_byte_def skip_lf_def)
  next
    case False
    then have skip: "skip_lf cr (c # s) = c # s" by (auto simp: skip_lf_def)
    show ?thesis
    proof (cases "c = CHR 0x0D")
      case True
      with Cons [of "[]" True "out @ [pre]"] show ?thesis unfolding skip by (simp add: line_ends_CR cut_byte_def cut_plain_def)
    next
      case ncr: False
      have no: "skip_lf False s = s" by (simp add: skip_lf_def)
      show ?thesis unfolding skip line_ends_other [OF ncr] foldl_Cons
        using False ncr Cons [where cr = False, unfolded no] by (auto simp: cut_byte_def cut_plain_def)
    qed
  qed
qed (simp add: skip_lf_def)

lemma chop_short: "length s < LONGEST \<Longrightarrow> chop s = [s]"
  by (subst chop.simps) simp

lemma chop_long: "length pre + 1 = LONGEST \<Longrightarrow> chop (pre @ c # s) = (pre @ [c]) # chop s"
proof -
  assume l: "length pre + 1 = LONGEST"
  then have "take LONGEST (pre @ c # s) = pre @ [c]" "drop LONGEST (pre @ c # s) = s" by (auto simp: take_Cons' l [symmetric])
  moreover have "\<not> length (pre @ c # s) < LONGEST" using l by simp
  ultimately show ?thesis by (subst chop.simps) simp
qed

lemma chop_not_Nil [simp]: "chop s \<noteq> []"
  by (subst chop.simps) simp

lemma concat_chop_not_Nil [simp]: "concat (map chop (split_on p s)) \<noteq> []"
  by (cases "split_on p s") auto

lemma cut_pieces:
  assumes "length pre < LONGEST"
  shows "foldl cut_plain (pre, out) s =
    (let pieces = concat (map chop ((pre @ hd (split_on (\<lambda>c. c = newline) s)) # tl (split_on (\<lambda>c. c = newline) s)))
     in (last pieces, out @ butlast pieces))"
  using assms
proof (induction s arbitrary: pre out)
  case Nil
  then show ?case by (simp add: chop_short)
next
  case (Cons c s)
  obtain f r where sp: "split_on (\<lambda>c. c = newline) s = f # r" by (cases "split_on (\<lambda>c. c = newline) s") auto
  have L: "0 < LONGEST" by (simp add: LONGEST_def)
  consider "c = newline" | "c \<noteq> newline" "length pre + 1 = LONGEST" | "c \<noteq> newline" "length pre + 1 < LONGEST" using Cons.prems by linarith
  then show ?case
  proof cases
    case 1
    with Cons.IH [of "[]" "out @ [pre]"] Cons.prems L sp show ?thesis by (simp add: cut_plain_def chop_short Let_def)
  next
    case 2
    with Cons.IH [of "[]" "out @ [pre @ [c]]"] L sp show ?thesis by (simp add: cut_plain_def chop_long Let_def)
  next
    case 3
    with Cons.IH [of "pre @ [c]" out] sp show ?thesis by (simp add: cut_plain_def Let_def)
  qed
qed

subsection \<open>Reading back what was escaped\<close>

definition hex_value :: "char \<Rightarrow> nat option" where
  "hex_value c = (if is_digit c then Some (code c - 48) else if 97 \<le> code c \<and> code c \<le> 102 then Some (code c - 87) else None)"

fun unescape :: "string \<Rightarrow> string" where
  "unescape (c # d # h # l # s) =
     (if c = CHR 0x5C \<and> d = CHR 0x5C then c # unescape (h # l # s)
      else if c = CHR 0x5C \<and> d = CHR ''x'' \<and> hex_value h \<noteq> None \<and> hex_value l \<noteq> None
      then char_of (16 * the (hex_value h) + the (hex_value l)) # unescape s
      else c # unescape (d # h # l # s))"
| "unescape (c # d # s) = (if c = CHR 0x5C \<and> d = CHR 0x5C then c # unescape s else c # unescape (d # s))"
| "unescape s = s"

lemma hex_value_char: "n < 16 \<Longrightarrow> hex_value (hex_char n) = Some n"
  by (auto simp: hex_value_def hex_char_def is_digit_def)

lemma unescape_hex: "unescape (hex_byte c @ s) = c # unescape s"
proof -
  have "code c div 16 < 16" "code c mod 16 < 16" using nat_of_char_less_256 [of c] by linarith+
  moreover have "char_of (16 * (code c div 16) + code c mod 16) = c" by simp
  ultimately show ?thesis by (simp add: hex_byte_def hex_value_char del: mult_div_mod_eq)
qed

lemma unescape_backslash: "unescape (CHR 0x5C # CHR 0x5C # s) = CHR 0x5C # unescape s"
proof (cases s)
  case (Cons a r)
  then show ?thesis by (cases r) auto
qed simp

lemma unescape_plain: "c \<noteq> CHR 0x5C \<Longrightarrow> unescape (c # s) = c # unescape s"
proof (cases s)
  case (Cons a r)
  assume "c \<noteq> CHR 0x5C"
  with Cons show ?thesis by (cases r; cases "tl r") auto
qed simp

lemma unescape_plains: "CHR 0x5C \<notin> set c \<Longrightarrow> unescape (c @ s) = c @ unescape s"
  by (induction c) (auto simp: unescape_plain)

lemma unescape_hexes: "unescape (concat (map hex_byte c) @ s) = c @ unescape s"
  by (induction c) (auto simp: unescape_hex)

lemma unescape_char: "c = [CHR 0x5C] \<or> CHR 0x5C \<notin> set c \<Longrightarrow> unescape (escape_char c @ s) = c @ unescape s"
proof (cases "c = [CHR 0x5C]")
  case True
  then show ?thesis by (simp add: escape_char_def unescape_backslash)
next
  case False
  assume "c = [CHR 0x5C] \<or> CHR 0x5C \<notin> set c"
  with False have p: "unescape (c @ s) = c @ unescape s" by (simp add: unescape_plains)
  have one: "hex_byte (hd c) = concat (map hex_byte c)" if "length c = 1" using that by (cases c) auto
  show ?thesis
  proof (cases "escape_char c = c")
    case True
    with p show ?thesis by simp
  next
    case changed: False
    with False one have "escape_char c = concat (map hex_byte c)" by (auto simp: escape_char_def split: if_splits)
    then show ?thesis by (simp add: unescape_hexes)
  qed
qed

lemma utf8_tail_high:
  "utf8_tail k rs s = Inr w \<Longrightarrow> \<forall>(lo, hi) \<in> set rs. 128 \<le> lo \<Longrightarrow> b \<in> set (take (w - k) s) \<Longrightarrow> 128 \<le> code b"
proof (induction k rs s rule: utf8_tail.induct)
  case (3 k lo hi rs c s)
  then have t: "utf8_tail (k + 1) rs s = Inr w" "lo \<le> code c" by (auto split: if_splits)
  have "w - k = Suc (w - (k + 1))" using utf8_tail_width [OF t(1)] by simp
  with 3 t show ?case by (auto split: if_splits)
qed auto

lemma utf8_char_plain: "utf8_char s = Inr w \<Longrightarrow> take w s = [CHR 0x5C] \<or> CHR 0x5C \<notin> set (take w s)"
proof (cases s)
  case (Cons c r)
  assume u: "utf8_char s = Inr w"
  show ?thesis
  proof (cases "code c < 128")
    case True
    with u Cons show ?thesis by auto
  next
    case False
    with u Cons have t: "utf8_tail 1 (utf8_follow (code c)) r = Inr w" by (auto split: if_splits)
    have "\<forall>(lo, hi) \<in> set (utf8_follow (code c)). 128 \<le> lo" by (auto simp: utf8_follow_def)
    from utf8_tail_high [OF t this] have "\<forall>b \<in> set (take (w - 1) r). 128 \<le> code b" by blast
    moreover have "take w s = c # take (w - 1) r" using utf8_tail_width [OF t] Cons by (cases w) auto
    ultimately show ?thesis using False by auto
  qed
qed simp

lemma utf8_chars_plain: "c \<in> set (utf8_chars s) \<Longrightarrow> c = [CHR 0x5C] \<or> CHR 0x5C \<notin> set c"
proof (induction s rule: utf8_chars.induct)
  case (1 s)
  show ?case
  proof (cases "utf8_char s")
    case (Inr w)
    with 1(2) have "c = take w s \<or> c \<in> set (utf8_chars (drop w s))" by (simp add: utf8_chars.simps [of s])
    with 1(1) [OF Inr] utf8_char_plain [OF Inr] show ?thesis by blast
  qed (use 1(2) in \<open>simp add: utf8_chars.simps [of s]\<close>)
qed

lemma unescape_chars: "\<forall>c \<in> set cs. c = [CHR 0x5C] \<or> CHR 0x5C \<notin> set c \<Longrightarrow> unescape (concat (map escape_char cs) @ s) = concat cs @ unescape s"
  by (induction cs) (auto simp: unescape_char)

subsection \<open>Properties\<close>

text \<open>
  C40. However the bytes of a port are cut into chunks, the splitter gives the lines of the whole text: those
  between LF, CRLF and lone CR, also where CR and LF come in different chunks, with what is over 16 KiB cut
  there, and it holds back exactly the line that has not ended.
\<close>

theorem splitter_lines:
  "map sl_bytes (snd (fed chunks)) = fst (text_lines (concat (map snd chunks))) \<and>
   partial_bytes (fst (fed chunks)) = snd (text_lines (concat (map snd chunks)))"
proof -
  let ?s = "concat (map snd chunks)"
  have L: "length ([] :: string) < LONGEST" by (simp add: LONGEST_def)
  have "(\<lambda>(pre, _, out). (pre, out)) (texts_of (fed chunks)) = foldl cut_plain ([], []) (line_ends ?s)"
    unfolding fed_cut cut_ends by (simp add: skip_lf_def)
  also have "\<dots> = (snd (text_lines ?s), fst (text_lines ?s))"
    unfolding cut_pieces [OF L] text_lines_def by (simp add: Let_def)
  finally show ?thesis by (cases "fed chunks") (simp add: texts_of_def)
qed

text \<open>
  Whatever bytes a line has, text or not, they can be read back from the text that shows them: a
  backslash is doubled, and a control byte, a C1 control or a byte that is not UTF-8 stands as \<open>\xNN\<close>.
\<close>

lemma escape_round_trip: "unescape (escape bytes) = bytes"
proof (induction bytes rule: escape.induct)
  case (1 rest)
  show ?case
  proof (cases "rest = []")
    case False
    let ?good = "take (valid_up_to rest) rest" and ?after = "drop (valid_up_to rest) rest"
    let ?bad = "take (bad_len ?after) ?after" and ?rest = "drop (length ?good + length (take (bad_len ?after) ?after)) rest"
    have "escape rest = concat (map escape_char (utf8_chars ?good)) @ concat (map hex_byte ?bad) @ escape ?rest"
      using False by (subst escape.simps) (simp add: Let_def)
    then have "unescape (escape rest) = concat (utf8_chars ?good) @ ?bad @ unescape (escape ?rest)"
      using unescape_chars [of "utf8_chars ?good"] utf8_chars_plain by (simp add: unescape_hexes)
    also have "concat (utf8_chars ?good) = ?good" unfolding utf8_chars_valid valid_take by simp
    also have "unescape (escape ?rest) = ?rest" using 1 [OF False refl refl refl] .
    also have "?good @ ?bad @ ?rest = rest"
    proof -
      have "length ?good = valid_up_to rest" using valid_up_to_le [of rest] by simp
      then have "?rest = drop (length ?bad) ?after" by (simp only: drop_drop add.commute)
      moreover have "?bad @ drop (length ?bad) ?after = ?after" by (cases "bad_len ?after \<le> length ?after") (simp_all only: length_take min_absorb1 min_absorb2 append_take_drop_id, simp)
      ultimately show ?thesis by simp
    qed
    finally show ?thesis .
  qed (simp add: escape.simps)
qed

end
