(* ===== verification/Term_Sizes.thy ===== *)
theory Term_Sizes
  imports Kanna_Prelude "HOL-Library.List_Lexorder" "HOL-Library.Product_Lexorder" "HOL-Library.Char_ord"
begin

text \<open>
  Which app sets the size of a terminal (\<open>kanna-daemon/src/sizes.rs\<close>): several apps show one terminal, each asks
  for a size, and the one that used the terminal last drives it. The map of terminals is an association
  list with distinct names; connections and the clock, \<open>u64\<close> in the code, are \<^typ>\<open>nat\<close>.
\<close>

record term_size =
  sz_cols :: nat
  sz_rows :: nat
  sz_width :: nat
  sz_height :: nat

record wanted =
  w_conn :: nat
  w_local :: bool
  w_size :: "term_size option"
  w_used :: nat

type_synonym size_driver = "nat \<times> term_size"

record sizes_state =
  ss_terminals :: "(string \<times> wanted list) list"
  ss_clock :: nat

definition no_sizes :: sizes_state where
  "no_sizes = \<lparr>ss_terminals = [], ss_clock = 0\<rparr>"

text \<open>\<open>max_by_key\<close>: the last of the largest.\<close>

definition drive_key :: "wanted \<Rightarrow> nat \<times> bool \<times> int" where
  "drive_key w = (w_used w, w_local w, - int (w_conn w))"

fun max_by_key :: "('a \<Rightarrow> 'b :: linorder) \<Rightarrow> 'a list \<Rightarrow> 'a option" where
  "max_by_key k [] = None"
| "max_by_key k (x # xs) = Some (foldl (\<lambda>best y. if k best \<le> k y then y else best) x xs)"

definition driver :: "wanted list \<Rightarrow> size_driver option" where
  "driver ws =
     (case max_by_key drive_key (filter (\<lambda>w. w_size w \<noteq> None) ws) of
        None \<Rightarrow> None
      | Some l \<Rightarrow> map_option (\<lambda>s. (w_conn l, s)) (w_size l))"

text \<open>\<open>wanted\<close>: the entry of a connection, made when there is none, changed by \<open>f\<close>.\<close>

definition upd_wanted :: "nat \<Rightarrow> bool \<Rightarrow> (wanted \<Rightarrow> wanted) \<Rightarrow> wanted list \<Rightarrow> wanted list" where
  "upd_wanted conn loc f ws =
     (case position (\<lambda>w. w_conn w = conn) ws of
        Some i \<Rightarrow> ws[i := f (ws ! i)]
      | None \<Rightarrow> ws @ [f \<lparr>w_conn = conn, w_local = loc, w_size = None, w_used = 0\<rparr>])"

definition wanted_of :: "string \<Rightarrow> sizes_state \<Rightarrow> wanted list" where
  "wanted_of t ss = (case map_of (ss_terminals ss) t of Some ws \<Rightarrow> ws | None \<Rightarrow> [])"

fun set_entry :: "string \<Rightarrow> wanted list \<Rightarrow> (string \<times> wanted list) list \<Rightarrow> (string \<times> wanted list) list" where
  "set_entry t ws [] = [(t, ws)]"
| "set_entry t ws ((u, vs) # r) = (if u = t then (t, ws) # r else (u, vs) # set_entry t ws r)"

definition sizes_asked :: "nat \<Rightarrow> bool \<Rightarrow> string \<Rightarrow> term_size \<Rightarrow> sizes_state \<Rightarrow> sizes_state \<times> bool" where
  "sizes_asked conn loc t sz ss =
     (let ws = upd_wanted conn loc (\<lambda>w. w\<lparr>w_size := Some sz\<rparr>) (wanted_of t ss)
      in (ss\<lparr>ss_terminals := set_entry t ws (ss_terminals ss)\<rparr>,
          case driver ws of Some (by', _) \<Rightarrow> by' = conn | None \<Rightarrow> False))"

definition changed :: "size_driver option \<Rightarrow> size_driver option \<Rightarrow> size_driver option" where
  "changed before after = (case after of Some d \<Rightarrow> if Some d \<noteq> before then Some d else None | None \<Rightarrow> None)"

definition sizes_used :: "nat \<Rightarrow> bool \<Rightarrow> string \<Rightarrow> sizes_state \<Rightarrow> sizes_state \<times> size_driver option" where
  "sizes_used conn loc t ss =
     (let clock = ss_clock ss + 1; before = driver (wanted_of t ss);
          ws = upd_wanted conn loc (\<lambda>w. w\<lparr>w_used := clock\<rparr>) (wanted_of t ss)
      in (ss\<lparr>ss_clock := clock, ss_terminals := set_entry t ws (ss_terminals ss)\<rparr>, changed before (driver ws)))"

definition sizes_left :: "nat \<Rightarrow> string \<Rightarrow> sizes_state \<Rightarrow> sizes_state \<times> size_driver option" where
  "sizes_left conn t ss =
     (case map_of (ss_terminals ss) t of
        None \<Rightarrow> (ss, None)
      | Some old \<Rightarrow>
          (let ws = filter (\<lambda>w. w_conn w \<noteq> conn) old
           in (ss\<lparr>ss_terminals := (if ws = [] then filter (\<lambda>(u, _). u \<noteq> t) (ss_terminals ss) else set_entry t ws (ss_terminals ss))\<rparr>,
               changed (driver old) (driver ws))))"

definition sizes_gone :: "nat \<Rightarrow> sizes_state \<Rightarrow> sizes_state \<times> (string \<times> size_driver) list" where
  "sizes_gone conn ss =
     foldl (\<lambda>(ss, out) t. case sizes_left conn t ss of
         (ss, Some d) \<Rightarrow> (ss, out @ [(t, d)])
       | (ss, None) \<Rightarrow> (ss, out)) (ss, []) (sort (map fst (ss_terminals ss)))"

subsection \<open>Who drives\<close>

lemma max_by_key_Some: "max_by_key k xs = Some m \<Longrightarrow> m \<in> set xs \<and> (\<forall>x \<in> set xs. k x \<le> k m)"
proof (cases xs)
  case (Cons y ys)
  have "foldl (\<lambda>best y. if k best \<le> k y then y else best) b ys \<in> insert b (set ys) \<and>
      (\<forall>x \<in> insert b (set ys). k x \<le> k (foldl (\<lambda>best y. if k best \<le> k y then y else best) b ys))" for b
    by (induction ys arbitrary: b) (auto, force+)
  moreover assume "max_by_key k xs = Some m"
  ultimately show ?thesis using Cons by auto
qed simp

lemma max_by_key_None [simp]: "max_by_key k xs = None \<longleftrightarrow> xs = []"
  by (cases xs) auto

definition drives :: "wanted list \<Rightarrow> size_driver \<Rightarrow> bool" where
  "drives ws d \<longleftrightarrow> (\<exists>w \<in> set ws. w_conn w = fst d \<and> w_size w = Some (snd d) \<and> (\<forall>v \<in> set ws. w_size v \<noteq> None \<longrightarrow> drive_key v \<le> drive_key w))"

lemma drive_key_inj: "distinct (map w_conn ws) \<Longrightarrow> v \<in> set ws \<Longrightarrow> w \<in> set ws \<Longrightarrow> drive_key v = drive_key w \<Longrightarrow> v = w"
  by (auto simp: drive_key_def distinct_map dest: inj_onD)

lemma driver_drives: "driver ws = Some d \<Longrightarrow> drives ws d"
  by (force simp: driver_def drives_def split: option.splits dest!: max_by_key_Some)

lemma drives_unique:
  assumes "distinct (map w_conn ws)" "drives ws d" "drives ws e"
  shows "d = e"
proof -
  from assms(2,3) obtain v w where v: "v \<in> set ws" "w_conn v = fst d" "w_size v = Some (snd d)" "\<forall>x \<in> set ws. w_size x \<noteq> None \<longrightarrow> drive_key x \<le> drive_key v"
    and w: "w \<in> set ws" "w_conn w = fst e" "w_size w = Some (snd e)" "\<forall>x \<in> set ws. w_size x \<noteq> None \<longrightarrow> drive_key x \<le> drive_key w"
    unfolding drives_def by blast
  then have "drive_key v = drive_key w" by (intro order_antisym) auto
  with drive_key_inj [OF assms(1) v(1) w(1)] v w show ?thesis by (auto intro: prod_eqI)
qed

lemma driver_iff: "distinct (map w_conn ws) \<Longrightarrow> driver ws = Some d \<longleftrightarrow> drives ws d"
proof
  assume d: "distinct (map w_conn ws)" "drives ws d"
  then have "filter (\<lambda>w. w_size w \<noteq> None) ws \<noteq> []" by (auto simp: drives_def filter_empty_conv)
  then obtain m where m: "max_by_key drive_key (filter (\<lambda>w. w_size w \<noteq> None) ws) = Some m" by (cases "max_by_key drive_key (filter (\<lambda>w. w_size w \<noteq> None) ws)") auto
  with max_by_key_Some [OF m] obtain e where "driver ws = Some e" by (auto simp: driver_def)
  with drives_unique [OF d(1) driver_drives d(2)] show "driver ws = Some d" by simp
qed (rule driver_drives)

subsection \<open>Entries\<close>

lemma wanted_of_set_entry: "wanted_of u (ss\<lparr>ss_terminals := set_entry t ws (ss_terminals ss)\<rparr>) = (if u = t then ws else wanted_of u ss)"
proof -
  have "map_of (set_entry t ws xs) u = (if u = t then Some ws else map_of xs u)" for xs by (induction xs) auto
  then show ?thesis by (simp add: wanted_of_def)
qed

lemma upd_wanted_absent:
  "position (\<lambda>w. w_conn w = conn) ws = None \<Longrightarrow> (\<forall>w \<in> set ws. w_conn w \<noteq> conn) \<and>
    upd_wanted conn loc f ws = ws @ [f \<lparr>w_conn = conn, w_local = loc, w_size = None, w_used = 0\<rparr>]"
  unfolding upd_wanted_def by (simp only: option.case position_None_iff [symmetric] simp_thms)

lemma upd_wanted_conns:
  assumes "distinct (map w_conn ws)" "\<And>w. w_conn (f w) = w_conn w"
  shows "distinct (map w_conn (upd_wanted conn loc f ws))"
proof (cases "position (\<lambda>w. w_conn w = conn) ws")
  case (Some i)
  have "map w_conn (ws[i := f (ws ! i)]) = map w_conn ws"
    using position_SomeD [OF Some] assms(2) by (metis list_update_id map_update nth_map)
  with Some assms(1) show ?thesis by (simp add: upd_wanted_def)
next
  case None
  with upd_wanted_absent [OF None, of loc f] assms show ?thesis by auto
qed

lemma upd_wanted_others:
  assumes "distinct (map w_conn ws)" "\<And>w. w_conn (f w) = w_conn w" "w_conn v \<noteq> conn"
  shows "v \<in> set (upd_wanted conn loc f ws) \<longleftrightarrow> v \<in> set ws"
proof (cases "position (\<lambda>w. w_conn w = conn) ws")
  case (Some i)
  note i = position_SomeD [OF Some]
  have "set (ws[i := f (ws ! i)]) = insert (f (ws ! i)) (set ws - {ws ! i})"
    using i assms(1) by (intro set_update_distinct) (auto simp: distinct_map)
  then show ?thesis using Some i assms by (auto simp: upd_wanted_def)
next
  case None
  with upd_wanted_absent [OF None, of loc f] assms show ?thesis by auto
qed

definition conns_ok :: "sizes_state \<Rightarrow> bool" where
  "conns_ok ss \<longleftrightarrow> (\<forall>t. distinct (map w_conn (wanted_of t ss)))"

lemma asked_elsewhere:
  assumes "distinct (map w_conn ws)" "driver (upd_wanted conn loc (\<lambda>w. w\<lparr>w_size := Some sz\<rparr>) ws) = Some d" "fst d \<noteq> conn"
  shows "driver ws = Some d"
proof -
  let ?f = "\<lambda>w. w\<lparr>w_size := Some sz\<rparr>"
  let ?new = "upd_wanted conn loc ?f ws"
  have others: "v \<in> set ?new \<longleftrightarrow> v \<in> set ws" if "w_conn v \<noteq> conn" for v using upd_wanted_others [OF assms(1), of ?f v conn loc] that by simp
  from driver_drives [OF assms(2)] obtain w where w: "w \<in> set ?new" "w_conn w = fst d" "w_size w = Some (snd d)"
    "\<forall>v \<in> set ?new. w_size v \<noteq> None \<longrightarrow> drive_key v \<le> drive_key w" by (auto simp: drives_def)
  have "drive_key v \<le> drive_key w" if v: "v \<in> set ws" "w_size v \<noteq> None" for v
  proof (cases "w_conn v = conn")
    case True
    then obtain i where i: "position (\<lambda>w. w_conn w = conn) ws = Some i" using v by (cases "position (\<lambda>w. w_conn w = conn) ws") auto
    note p = position_SomeD [OF i]
    then have "ws ! i = v" using assms(1) v True by (metis (no_types, lifting) distinct_map nth_mem inj_on_def)
    then have "?f v \<in> set ?new" using i p by (simp add: upd_wanted_def set_update_memI)
    with w(4) have "drive_key (?f v) \<le> drive_key w" by auto
    then show ?thesis by (simp add: drive_key_def)
  next
    case False
    with v others [of v] w(4) show ?thesis by blast
  qed
  moreover have "w \<in> set ws" using others [of w] w(1,2) assms(3) by simp
  ultimately have "drives ws d" using w(2,3) unfolding drives_def by blast
  with driver_iff [OF assms(1)] show ?thesis by simp
qed

subsection \<open>What is reported\<close>

datatype size_event = Asked nat bool string term_size | Used nat bool string | Left nat string | Gone nat

text \<open>An event, and the drivers the daemon then sets terminals to.\<close>

fun size_step :: "sizes_state \<Rightarrow> size_event \<Rightarrow> sizes_state \<times> (string \<times> size_driver) list" where
  "size_step ss (Asked conn loc t sz) = (let (ss, sets) = sizes_asked conn loc t sz ss in (ss, if sets then [(t, (conn, sz))] else []))"
| "size_step ss (Used conn loc t) = (let (ss, d) = sizes_used conn loc t ss in (ss, case d of Some d \<Rightarrow> [(t, d)] | None \<Rightarrow> []))"
| "size_step ss (Left conn t) = (let (ss, d) = sizes_left conn t ss in (ss, case d of Some d \<Rightarrow> [(t, d)] | None \<Rightarrow> []))"
| "size_step ss (Gone conn) = sizes_gone conn ss"

definition apply_reports :: "(string \<rightharpoonup> size_driver) \<Rightarrow> (string \<times> size_driver) list \<Rightarrow> (string \<rightharpoonup> size_driver)" where
  "apply_reports view ds = foldl (\<lambda>view (t, d). view(t \<mapsto> d)) view ds"

definition size_events :: "size_event list \<Rightarrow> sizes_state \<times> (string \<rightharpoonup> size_driver)" where
  "size_events es = foldl (\<lambda>(ss, view) e. let (ss, ds) = size_step ss e in (ss, apply_reports view ds)) (no_sizes, Map.empty) es"

definition view_ok :: "sizes_state \<Rightarrow> (string \<rightharpoonup> size_driver) \<Rightarrow> bool" where
  "view_ok ss view \<longleftrightarrow> conns_ok ss \<and> (\<forall>t d. driver (wanted_of t ss) = Some d \<longrightarrow> view t = Some d)"

lemma view_ok_entry:
  assumes "view_ok ss view" "\<forall>u. u \<noteq> t \<longrightarrow> wanted_of u ss' = wanted_of u ss" "distinct (map w_conn (wanted_of t ss'))"
    "\<forall>d. driver (wanted_of t ss') = Some d \<longrightarrow> view' t = Some d" "\<forall>u. u \<noteq> t \<longrightarrow> view' u = view u"
  shows "view_ok ss' view'"
proof -
  have "distinct (map w_conn (wanted_of u ss')) \<and> (\<forall>d. driver (wanted_of u ss') = Some d \<longrightarrow> view' u = Some d)" for u
    using assms by (cases "u = t") (auto simp: view_ok_def conns_ok_def)
  then show ?thesis by (simp add: view_ok_def conns_ok_def)
qed

lemma changed_view: "\<forall>d. before = Some d \<longrightarrow> view t = Some d \<Longrightarrow> after = Some d \<Longrightarrow>
    (case changed before after of Some d \<Rightarrow> view(t \<mapsto> d) | None \<Rightarrow> view) t = Some d"
  by (cases d) (auto simp: changed_def)

lemma asked_ok:
  assumes "view_ok ss view" "sizes_asked conn loc t sz ss = (ss', sets)"
  shows "view_ok ss' (if sets then view(t \<mapsto> (conn, sz)) else view)"
proof -
  let ?f = "\<lambda>w. w\<lparr>w_size := Some sz\<rparr>"
  let ?ws = "upd_wanted conn loc ?f (wanted_of t ss)"
  have d: "distinct (map w_conn (wanted_of t ss))" using assms(1) by (simp add: view_ok_def conns_ok_def)
  have ss': "wanted_of u ss' = (if u = t then ?ws else wanted_of u ss)" for u
    using assms(2) wanted_of_set_entry [of u t ?ws ss] by (auto simp: sizes_asked_def Let_def)
  have sets: "sets \<longleftrightarrow> (case driver ?ws of Some (by', _) \<Rightarrow> by' = conn | None \<Rightarrow> False)"
    using assms(2) by (auto simp: sizes_asked_def Let_def)
  have own: "s = sz" if "driver ?ws = Some (conn, s)" for s
  proof -
    from driver_drives [OF that] obtain w where w: "w \<in> set ?ws" "w_conn w = conn" "w_size w = Some s" by (auto simp: drives_def)
    show ?thesis
    proof (cases "position (\<lambda>w. w_conn w = conn) (wanted_of t ss)")
      case None
      from upd_wanted_absent [OF None, of loc ?f] w
      have "w = ?f \<lparr>w_conn = conn, w_local = loc, w_size = None, w_used = 0\<rparr>" by auto
      with w(3) show ?thesis by (metis option.inject wanted.select_convs(3) wanted.update_convs(3))
    next
      case (Some i)
      note p = position_SomeD [OF Some]
      have "?f (wanted_of t ss ! i) \<in> set ?ws" using Some p by (simp add: upd_wanted_def set_update_memI)
      moreover have "inj_on w_conn (set ?ws)" using upd_wanted_conns [OF d, of ?f conn loc] by (simp add: distinct_map)
      moreover have "w_conn w = w_conn (?f (wanted_of t ss ! i))" using w(2) p by simp
      ultimately have "w = ?f (wanted_of t ss ! i)" using w(1) inj_onD by metis
      with w(3) show ?thesis by simp
    qed
  qed
  show ?thesis
  proof (rule view_ok_entry [OF assms(1), of t])
    show "distinct (map w_conn (wanted_of t ss'))" unfolding ss' using upd_wanted_conns [OF d, of ?f] by simp
    show "\<forall>d. driver (wanted_of t ss') = Some d \<longrightarrow> (if sets then view(t \<mapsto> (conn, sz)) else view) t = Some d"
    proof (intro allI impI)
      fix e assume e: "driver (wanted_of t ss') = Some e"
      show "(if sets then view(t \<mapsto> (conn, sz)) else view) t = Some e"
      proof (cases "fst e = conn")
        case True
        with e own [of "snd e"] sets show ?thesis by (cases e) (auto simp: ss')
      next
        case False
        with e asked_elsewhere [OF d, of conn loc sz e] sets assms(1) show ?thesis by (cases e) (auto simp: ss' view_ok_def)
      qed
    qed
  qed (auto simp: ss')
qed

lemma used_ok:
  assumes "view_ok ss view" "sizes_used conn loc t ss = (ss', r)"
  shows "view_ok ss' (case r of Some d \<Rightarrow> view(t \<mapsto> d) | None \<Rightarrow> view)"
proof -
  let ?f = "\<lambda>w. w\<lparr>w_used := ss_clock ss + 1\<rparr>"
  let ?ws = "upd_wanted conn loc ?f (wanted_of t ss)"
  have d: "distinct (map w_conn (wanted_of t ss))" using assms(1) by (simp add: view_ok_def conns_ok_def)
  have ss': "wanted_of u ss' = (if u = t then ?ws else wanted_of u ss)" for u
    using assms(2) wanted_of_set_entry [of u t ?ws ss] by (auto simp: sizes_used_def Let_def wanted_of_def)
  have r: "r = changed (driver (wanted_of t ss)) (driver ?ws)" using assms(2) by (auto simp: sizes_used_def Let_def)
  show ?thesis
  proof (rule view_ok_entry [OF assms(1), of t])
    show "distinct (map w_conn (wanted_of t ss'))" unfolding ss' using upd_wanted_conns [OF d, of ?f] by simp
    show "\<forall>d. driver (wanted_of t ss') = Some d \<longrightarrow> (case r of Some d \<Rightarrow> view(t \<mapsto> d) | None \<Rightarrow> view) t = Some d"
      unfolding r ss' using assms(1) changed_view [of "driver (wanted_of t ss)" view t] by (auto simp: view_ok_def)
  qed (auto simp: ss' split: option.splits)
qed

lemma left_ok:
  assumes "view_ok ss view" "sizes_left conn t ss = (ss', r)"
  shows "view_ok ss' (case r of Some d \<Rightarrow> view(t \<mapsto> d) | None \<Rightarrow> view)"
proof (cases "map_of (ss_terminals ss) t")
  case None
  with assms show ?thesis by (simp add: sizes_left_def)
next
  case (Some old)
  let ?ws = "filter (\<lambda>w. w_conn w \<noteq> conn) old"
  have old: "wanted_of t ss = old" using Some by (simp add: wanted_of_def)
  have gone: "map_of (filter (\<lambda>(u, _). u \<noteq> t) xs) u = (if u = t then None else map_of xs u)" for u and xs :: "(string \<times> wanted list) list"
    by (induction xs) auto
  have ss': "wanted_of u ss' = (if u = t then ?ws else wanted_of u ss)" for u
    using assms(2) Some wanted_of_set_entry [of u t ?ws ss] gone [of "ss_terminals ss" u]
    by (auto simp: sizes_left_def Let_def wanted_of_def split: if_splits)
  have r: "r = changed (driver (wanted_of t ss)) (driver ?ws)" using assms(2) Some old by (auto simp: sizes_left_def Let_def)
  show ?thesis
  proof (rule view_ok_entry [OF assms(1), of t])
    show "distinct (map w_conn (wanted_of t ss'))" using assms(1) unfolding ss' view_ok_def conns_ok_def old [symmetric] by (auto intro: distinct_map_filter)
    show "\<forall>d. driver (wanted_of t ss') = Some d \<longrightarrow> (case r of Some d \<Rightarrow> view(t \<mapsto> d) | None \<Rightarrow> view) t = Some d"
      unfolding r ss' using assms(1) changed_view [of "driver (wanted_of t ss)" view t] by (auto simp: view_ok_def)
  qed (auto simp: ss' split: option.splits)
qed

lemma gone_ok:
  assumes "view_ok ss view" "sizes_gone conn ss = (ss', ds)"
  shows "view_ok ss' (apply_reports view ds)"
proof -
  let ?g = "\<lambda>(ss, out) t. case sizes_left conn t ss of (ss, Some d) \<Rightarrow> (ss, out @ [(t, d)]) | (ss, None) \<Rightarrow> (ss, out)"
  have "view_ok (fst (foldl ?g so ts)) (apply_reports view (snd (foldl ?g so ts)))" if "view_ok (fst so) (apply_reports view (snd so))" for so ts
    using that
  proof (induction ts arbitrary: so)
    case (Cons t ts)
    obtain s1 r where l: "sizes_left conn t (fst so) = (s1, r)" by (metis surj_pair)
    have "view_ok (fst (?g so t)) (apply_reports view (snd (?g so t)))"
      using left_ok [OF Cons.prems l] l by (cases r) (auto simp: apply_reports_def case_prod_beta)
    from Cons.IH [OF this] show ?case by simp
  qed simp
  from this [of "(ss, [])" "sort (map fst (ss_terminals ss))"] assms show ?thesis
    unfolding sizes_gone_def by (simp add: apply_reports_def)
qed

lemma step_view_ok: "view_ok ss view \<Longrightarrow> size_step ss e = (ss', ds) \<Longrightarrow> view_ok ss' (apply_reports view ds)"
proof (cases e)
  case (Asked conn loc t sz)
  assume a: "view_ok ss view" "size_step ss e = (ss', ds)"
  obtain s1 sets where "sizes_asked conn loc t sz ss = (s1, sets)" by (metis surj_pair)
  with asked_ok [OF a(1) this] a(2) Asked show ?thesis by (auto simp: apply_reports_def split: if_splits)
next
  case (Used conn loc t)
  assume a: "view_ok ss view" "size_step ss e = (ss', ds)"
  obtain s1 r where "sizes_used conn loc t ss = (s1, r)" by (metis surj_pair)
  with used_ok [OF a(1) this] a(2) Used show ?thesis by (auto simp: apply_reports_def split: option.splits)
next
  case (Left conn t)
  assume a: "view_ok ss view" "size_step ss e = (ss', ds)"
  obtain s1 r where "sizes_left conn t ss = (s1, r)" by (metis surj_pair)
  with left_ok [OF a(1) this] a(2) Left show ?thesis by (auto simp: apply_reports_def split: option.splits)
next
  case (Gone conn)
  assume "view_ok ss view" "size_step ss e = (ss', ds)"
  with gone_ok Gone show ?thesis by simp
qed

subsection \<open>Properties\<close>


definition wide_size :: term_size where "wide_size = \<lparr>sz_cols = 200, sz_rows = 50, sz_width = 2000, sz_height = 1000\<rparr>"

definition narrow_size :: term_size where "narrow_size = \<lparr>sz_cols = 80, sz_rows = 24, sz_width = 800, sz_height = 480\<rparr>"


end
