(* ===== verification/Task_Stacks.thy ===== *)
theory Task_Stacks
  imports Mux_Json
begin

text \<open>
  Stacked tasks (\<open>kanna-daemon/src/stacks.rs\<close>): a task builds on the branches of others. When a branch moves or is
  merged, \<open>settle\<close> decides which tasks are no longer ready, which bases are done with, and which tasks are
  stale, down every chain of bases. What it saw of the repositories is its input.
\<close>

record stack_mark =
  mk_head :: string
  mk_branch :: string
  mk_at :: rat

definition mark_json :: "stack_mark \<Rightarrow> json" where
  "mark_json m = JObject [(''head'', JString (mk_head m)), (''branch'', JString (mk_branch m)), (''at'', num (mk_at m))]"

definition or_blank :: "string option \<Rightarrow> string" where
  "or_blank s = (case s of Some x \<Rightarrow> x | None \<Rightarrow> [])"

definition mark_from :: "json option \<Rightarrow> stack_mark option" where
  "mark_from v =
     Option.bind v (\<lambda>v. Option.bind (json_string v ''head'') (\<lambda>h.
       Some \<lparr>mk_head = h, mk_branch = or_blank (json_string v ''branch''),
             mk_at = (case Option.bind (jget v ''at'') as_f64 of Some a \<Rightarrow> a | None \<Rightarrow> 0)\<rparr>))"

record stack_base =
  ba_id :: string
  ba_branch :: string
  ba_head :: string

definition base_json :: "stack_base \<Rightarrow> json" where
  "base_json b = JObject [(''id'', JString (ba_id b)), (''branch'', JString (ba_branch b)), (''head'', JString (ba_head b))]"

definition base_from :: "json \<Rightarrow> stack_base option" where
  "base_from v =
     Option.bind (json_string v ''id'') (\<lambda>i. Option.bind (json_string v ''head'') (\<lambda>h.
       Some \<lparr>ba_id = i, ba_branch = or_blank (json_string v ''branch''), ba_head = h\<rparr>))"

definition base_list :: "json option \<Rightarrow> stack_base list" where
  "base_list v = (case Option.bind v as_array of Some xs \<Rightarrow> List.map_filter base_from xs | None \<Rightarrow> [])"

record stack_conflict =
  co_heads :: "string list"
  co_why :: string

definition conflict_json :: "stack_conflict \<Rightarrow> json" where
  "conflict_json c = JObject [(''heads'', JArray (map JString (co_heads c))), (''why'', JString (co_why c))]"

definition conflict_from :: "json option \<Rightarrow> stack_conflict option" where
  "conflict_from v =
     Option.bind v (\<lambda>v. Option.bind (Option.bind (jget v ''heads'') as_array) (\<lambda>hs.
       Some \<lparr>co_heads = List.map_filter as_str hs, co_why = or_blank (json_string v ''why'')\<rparr>))"

definition stack_ids :: "json option \<Rightarrow> string list" where
  "stack_ids v = (case Option.bind v as_array of Some xs \<Rightarrow> List.map_filter as_str xs | None \<Rightarrow> [])"

record seen_base =
  sb_id :: string
  sb_head :: string
  sb_merged :: bool
  sb_contained :: bool

record stack_seen =
  se_id :: string
  se_head :: "string option"
  se_main :: "string option"
  se_bases :: "seen_base list"

record stack_task =
  tk_id :: string
  tk_ready :: "stack_mark option"
  tk_bases :: "stack_base list"
  tk_stale :: "string list"

datatype stack_step = Unready string | Merged string string "string option" | Stale string "string list" "string list"

definition seen_of :: "stack_seen list \<Rightarrow> string \<Rightarrow> stack_seen option" where
  "seen_of seen i = List.find (\<lambda>s. se_id s = i) seen"

definition unready_step :: "stack_seen list \<Rightarrow> stack_task \<Rightarrow> stack_step list" where
  "unready_step seen t =
     (case (tk_ready t, Option.bind (seen_of seen (tk_id t)) se_head) of
        (Some m, Some h) \<Rightarrow> if h \<noteq> mk_head m then [Unready (tk_id t)] else []
      | _ \<Rightarrow> [])"

text \<open>The bases seen that the task still has.\<close>

definition live_bases :: "stack_seen list \<Rightarrow> stack_task \<Rightarrow> seen_base list" where
  "live_bases seen t =
     (case seen_of seen (tk_id t) of
        None \<Rightarrow> []
      | Some s \<Rightarrow> filter (\<lambda>b. \<exists>x \<in> set (tk_bases t). ba_id x = sb_id b) (se_bases s))"

definition merged_steps :: "stack_seen list \<Rightarrow> stack_task \<Rightarrow> stack_step list" where
  "merged_steps seen t =
     map (\<lambda>b. Merged (tk_id t) (sb_id b) (Option.bind (seen_of seen (tk_id t)) se_main)) (filter sb_merged (live_bases seen t))"

definition merged_pairs :: "stack_seen list \<Rightarrow> stack_task list \<Rightarrow> (string \<times> string) list" where
  "merged_pairs seen ts = concat (map (\<lambda>t. map (\<lambda>b. (tk_id t, sb_id b)) (filter sb_merged (live_bases seen t))) ts)"

text \<open>The map \<open>behind\<close>, by the task's ID.\<close>

definition behind_of :: "stack_seen list \<Rightarrow> stack_task list \<Rightarrow> string \<Rightarrow> string list" where
  "behind_of seen ts i =
     concat (map (\<lambda>t. if tk_id t = i then map sb_id (filter (\<lambda>b. \<not> sb_merged b \<and> \<not> sb_contained b) (live_bases seen t)) else []) ts)"

definition waiting_of :: "(string \<times> string) list \<Rightarrow> string list \<Rightarrow> stack_task \<Rightarrow> string list" where
  "waiting_of merged stale t =
     map ba_id (filter (\<lambda>b. (tk_id t, ba_id b) \<notin> set merged \<and> ba_id b \<in> set stale) (tk_bases t))"

text \<open>One pass over the tasks: the stale ones, the steps so far, and whether any was added.\<close>

definition stale_task :: "(string \<times> string) list \<Rightarrow> (string \<Rightarrow> string list) \<Rightarrow> string list \<times> stack_step list \<times> bool \<Rightarrow> stack_task \<Rightarrow>
    string list \<times> stack_step list \<times> bool" where
  "stale_task merged behind = (\<lambda>(stale, steps, grew) t.
     (if tk_id t \<in> set stale then (stale, steps, grew)
      else (let waiting = waiting_of merged stale t
            in if behind (tk_id t) = [] \<and> waiting = [] then (stale, steps, grew)
               else (stale @ [tk_id t], steps @ [Stale (tk_id t) (behind (tk_id t)) waiting], True))))"

lemma stale_task_grows: "set (fst x) \<subseteq> set (fst (stale_task merged behind x t))"
  by (auto simp: stale_task_def Let_def split: prod.splits)

lemma stale_pass_grows: "set (fst x) \<subseteq> set (fst (foldl (stale_task merged behind) x ts))"
proof (induction ts arbitrary: x)
  case (Cons t ts)
  show ?case using stale_task_grows [of x merged behind t] Cons [of "stale_task merged behind x t"] by auto
qed simp

lemma stale_pass_new:
  "fst (foldl (stale_task merged behind) (stale, steps, grew) ts) = stale \<and> snd (snd (foldl (stale_task merged behind) (stale, steps, grew) ts)) = grew \<or>
   (\<exists>t \<in> set ts. tk_id t \<notin> set stale \<and> tk_id t \<in> set (fst (foldl (stale_task merged behind) (stale, steps, grew) ts)))"
proof (induction ts arbitrary: stale steps grew)
  case (Cons t ts)
  obtain st1 sp1 g1 where s: "stale_task merged behind (stale, steps, grew) t = (st1, sp1, g1)" by (metis prod_cases3)
  show ?case
  proof (cases "st1 = stale \<and> g1 = grew")
    case True
    with s Cons [of stale sp1 grew] show ?thesis by auto
  next
    case False
    with s have "tk_id t \<notin> set stale" "tk_id t \<in> set st1" by (auto simp: stale_task_def Let_def split: if_splits)
    moreover from this(2) stale_pass_grows [of "(st1, sp1, g1)" merged behind ts]
    have "tk_id t \<in> set (fst (foldl (stale_task merged behind) (st1, sp1, g1) ts))" by auto
    ultimately show ?thesis using s by auto
  qed
qed simp

function stale_loop :: "(string \<times> string) list \<Rightarrow> (string \<Rightarrow> string list) \<Rightarrow> stack_task list \<Rightarrow> string list \<Rightarrow> stack_step list \<Rightarrow> stack_step list" where
  "stale_loop merged behind ts stale steps =
     (let (stale', steps', grew) = foldl (stale_task merged behind) (stale, steps, False) ts
      in if grew then stale_loop merged behind ts stale' steps' else steps')"
  by pat_completeness auto
termination
proof (relation "measure (\<lambda>(merged, behind, ts, stale, steps). card (tk_id ` set ts - set stale))")
  fix merged behind ts stale steps x stale' y steps' grew
  assume "x = foldl (stale_task merged behind) (stale, steps, False) ts" "(stale', y) = x" "(steps', grew) = y" "grew"
  with stale_pass_new [of merged behind stale steps False ts] stale_pass_grows [of "(stale, steps, False)" merged behind ts]
  have "\<exists>t \<in> set ts. tk_id t \<notin> set stale \<and> tk_id t \<in> set stale'" "set stale \<subseteq> set stale'" by (metis fst_conv snd_conv)+
  then show "((merged, behind, ts, stale', steps'), (merged, behind, ts, stale, steps)) \<in> measure (\<lambda>(merged, behind, ts, stale, steps). card (tk_id ` set ts - set stale))"
    by (auto intro!: psubset_card_mono)
qed simp

declare stale_loop.simps [simp del]

definition settle_stacks :: "stack_task list \<Rightarrow> stack_seen list \<Rightarrow> stack_step list" where
  "settle_stacks ts seen =
     stale_loop (merged_pairs seen ts) (behind_of seen ts) ts (map tk_id (filter (\<lambda>t. tk_stale t \<noteq> []) ts))
       (concat (map (unready_step seen) ts) @ concat (map (merged_steps seen) ts))"

subsection \<open>Which tasks go stale\<close>

text \<open>A task is stale when it was, when it is behind one of its bases, or when a base of it that is not merged is stale.\<close>

inductive goes_stale :: "stack_task list \<Rightarrow> stack_seen list \<Rightarrow> string \<Rightarrow> bool" for ts seen where
  was: "t \<in> set ts \<Longrightarrow> tk_stale t \<noteq> [] \<Longrightarrow> goes_stale ts seen (tk_id t)"
| behind: "t \<in> set ts \<Longrightarrow> b \<in> set (live_bases seen t) \<Longrightarrow> \<not> sb_merged b \<Longrightarrow> \<not> sb_contained b \<Longrightarrow> goes_stale ts seen (tk_id t)"
| waits: "t \<in> set ts \<Longrightarrow> b \<in> set (tk_bases t) \<Longrightarrow> (tk_id t, ba_id b) \<notin> set (merged_pairs seen ts) \<Longrightarrow> goes_stale ts seen (ba_id b) \<Longrightarrow>
    goes_stale ts seen (tk_id t)"

fun stale_id :: "stack_step \<Rightarrow> string list" where
  "stale_id (Stale i _ _) = [i]" | "stale_id _ = []"

definition stale_ids :: "stack_step list \<Rightarrow> string list" where
  "stale_ids steps = concat (map stale_id steps)"

fun step_grounded :: "stack_step \<Rightarrow> bool" where
  "step_grounded (Stale _ behind waiting) \<longleftrightarrow> behind \<noteq> [] \<or> waiting \<noteq> []" | "step_grounded _ \<longleftrightarrow> True"

lemma behind_of_iff: "behind_of seen ts i \<noteq> [] \<longleftrightarrow> (\<exists>t \<in> set ts. tk_id t = i \<and> (\<exists>b \<in> set (live_bases seen t). \<not> sb_merged b \<and> \<not> sb_contained b))"
  unfolding behind_of_def by (induction ts) (auto simp: filter_empty_conv)

lemma waiting_of_iff: "waiting_of merged stale t \<noteq> [] \<longleftrightarrow> (\<exists>b \<in> set (tk_bases t). (tk_id t, ba_id b) \<notin> set merged \<and> ba_id b \<in> set stale)"
  by (auto simp: waiting_of_def filter_empty_conv)

text \<open>
  What holds through the passes: the stale tasks are those that were stale and those reported, in that order,
  each of them should be, and every report says why.
\<close>

definition stale_inv :: "stack_task list \<Rightarrow> stack_seen list \<Rightarrow> string list \<Rightarrow> stack_step list \<Rightarrow> bool" where
  "stale_inv ts seen stale steps \<longleftrightarrow>
     (\<exists>was. set was = tk_id ` {t \<in> set ts. tk_stale t \<noteq> []} \<and> stale = was @ stale_ids steps) \<and>
     distinct (stale_ids steps) \<and> set (stale_ids steps) \<inter> tk_id ` {t \<in> set ts. tk_stale t \<noteq> []} = {} \<and>
     (\<forall>i \<in> set stale. goes_stale ts seen i) \<and> (\<forall>s \<in> set steps. step_grounded s)"

lemma stale_task_inv:
  assumes "stale_inv ts seen stale steps" "t \<in> set ts"
    "stale_task (merged_pairs seen ts) (behind_of seen ts) (stale, steps, grew) t = (stale', steps', grew')"
  shows "stale_inv ts seen stale' steps'"
proof (cases "stale' = stale \<and> steps' = steps")
  case True
  with assms(1) show ?thesis by simp
next
  case False
  let ?b = "behind_of seen ts (tk_id t)" and ?w = "waiting_of (merged_pairs seen ts) stale t"
  from False assms(3) have new: "tk_id t \<notin> set stale" "?b \<noteq> [] \<or> ?w \<noteq> []" "stale' = stale @ [tk_id t]" "steps' = steps @ [Stale (tk_id t) ?b ?w]"
    by (auto simp: stale_task_def Let_def split: if_splits)
  have "goes_stale ts seen (tk_id t)"
  proof (cases "?b = []")
    case False
    then obtain u b where u: "u \<in> set ts" "tk_id u = tk_id t" "b \<in> set (live_bases seen u)" "\<not> sb_merged b" "\<not> sb_contained b"
      unfolding behind_of_iff by blast
    from goes_stale.behind [OF u(1,3-5)] u(2) show ?thesis by simp
  next
    case True
    with new(2) obtain b where "b \<in> set (tk_bases t)" "(tk_id t, ba_id b) \<notin> set (merged_pairs seen ts)" "ba_id b \<in> set stale"
      unfolding waiting_of_iff by blast
    with assms(1,2) show ?thesis by (auto simp: stale_inv_def intro: waits)
  qed
  moreover have "set stale = tk_id ` {t \<in> set ts. tk_stale t \<noteq> []} \<union> set (stale_ids steps)"
    using assms(1) by (auto simp: stale_inv_def)
  ultimately show ?thesis using assms(1) new by (auto simp: stale_inv_def stale_ids_def)
qed

lemma stale_pass_inv:
  "stale_inv ts seen stale steps \<Longrightarrow> set us \<subseteq> set ts \<Longrightarrow>
   foldl (stale_task (merged_pairs seen ts) (behind_of seen ts)) (stale, steps, grew) us = (stale', steps', grew') \<Longrightarrow> stale_inv ts seen stale' steps'"
proof (induction us arbitrary: stale steps grew)
  case (Cons u us)
  obtain st1 sp1 g1 where s: "stale_task (merged_pairs seen ts) (behind_of seen ts) (stale, steps, grew) u = (st1, sp1, g1)" by (metis prod_cases3)
  have "stale_inv ts seen st1 sp1" using stale_task_inv [OF Cons.prems(1) _ s] Cons.prems(2) by simp
  from Cons.IH [OF this, of g1] Cons.prems(2,3) s show ?case by simp
qed auto

text \<open>A pass that adds nothing has looked at every task with the same stale ones.\<close>

lemma stale_pass_still:
  "foldl (stale_task merged behind) (stale, steps, False) us = (stale', steps', False) \<Longrightarrow>
   stale' = stale \<and> steps' = steps \<and> (\<forall>u \<in> set us. tk_id u \<in> set stale \<or> behind (tk_id u) = [] \<and> waiting_of merged stale u = [])"
proof (induction us)
  case (Cons u us)
  obtain st1 sp1 g1 where s: "stale_task merged behind (stale, steps, False) u = (st1, sp1, g1)" by (metis prod_cases3)
  have once: "snd (snd (foldl (stale_task merged behind) (a, b, True) vs))" for a b vs
    by (induction vs arbitrary: a b) (auto simp: stale_task_def Let_def)
  have "\<not> g1"
  proof
    assume g1
    with once [of st1 sp1 us] Cons.prems s show False by simp
  qed
  with s have "st1 = stale" "sp1 = steps" "tk_id u \<in> set stale \<or> behind (tk_id u) = [] \<and> waiting_of merged stale u = []"
    by (auto simp: stale_task_def Let_def split: if_splits)
  with Cons s \<open>\<not> g1\<close> show ?case by simp
qed simp

lemma stale_loop_inv:
  "merged = merged_pairs seen ts \<Longrightarrow> behind = behind_of seen ts \<Longrightarrow> stale_inv ts seen stale steps \<Longrightarrow>
   \<exists>stale'. stale_inv ts seen stale' (stale_loop merged behind ts stale steps) \<and>
    (\<forall>t \<in> set ts. tk_id t \<in> set stale' \<or> behind (tk_id t) = [] \<and> waiting_of merged stale' t = [])"
proof (induction merged behind ts stale steps rule: stale_loop.induct)
  case (1 merged behind ts stale steps)
  obtain stale' steps' grew where p: "foldl (stale_task merged behind) (stale, steps, False) ts = (stale', steps', grew)"
    by (metis prod_cases3)
  note inv = stale_pass_inv [OF 1(4) subset_refl p [unfolded 1(2,3)]]
  show ?case
  proof (cases grew)
    case True
    with 1(1) [OF p [symmetric] refl refl True 1(2,3) inv] p show ?thesis by (subst stale_loop.simps) simp
  next
    case False
    with p have "foldl (stale_task merged behind) (stale, steps, False) ts = (stale', steps', False)" by simp
    from stale_pass_still [OF this] have "stale' = stale" "steps' = steps"
      "\<forall>t \<in> set ts. tk_id t \<in> set stale \<or> behind (tk_id t) = [] \<and> waiting_of merged stale t = []" by blast+
    with 1(4) p False show ?thesis by (intro exI [of _ stale]) (subst stale_loop.simps, simp)
  qed
qed

subsection \<open>Properties\<close>

text \<open>
  C38. \<open>settle\<close> ends, and the tasks it newly reports stale are exactly those that were not stale and that are
  behind a base, or build, through any chain of bases that are not merged, on a task that is stale. Each is
  reported once, and every report names a reason.
\<close>

theorem settle_stale_exact:
  "distinct (stale_ids (settle_stacks ts seen)) \<and>
   set (stale_ids (settle_stacks ts seen)) = {i. goes_stale ts seen i} - tk_id ` {t \<in> set ts. tk_stale t \<noteq> []} \<and>
   list_all step_grounded (settle_stacks ts seen)"
proof -
  let ?was = "map tk_id (filter (\<lambda>t. tk_stale t \<noteq> []) ts)"
  let ?steps = "concat (map (unready_step seen) ts) @ concat (map (merged_steps seen) ts)"
  have none: "stale_id s = [] \<and> step_grounded s" if "s \<in> set ?steps" for s
    using that by (auto simp: unready_step_def merged_steps_def split: option.splits if_splits)
  then have "stale_ids ?steps = []" by (auto simp: stale_ids_def)
  then have "stale_inv ts seen ?was ?steps" using none by (auto simp: stale_inv_def intro: was)
  from stale_loop_inv [OF refl refl this] obtain stale' where inv: "stale_inv ts seen stale' (settle_stacks ts seen)"
    and still: "\<forall>t \<in> set ts. tk_id t \<in> set stale' \<or> behind_of seen ts (tk_id t) = [] \<and> waiting_of (merged_pairs seen ts) stale' t = []"
    unfolding settle_stacks_def by blast
  have all: "set stale' = tk_id ` {t \<in> set ts. tk_stale t \<noteq> []} \<union> set (stale_ids (settle_stacks ts seen))" using inv by (auto simp: stale_inv_def)
  have "i \<in> set stale'" if "goes_stale ts seen i" for i
    using that
  proof induction
    case (was t)
    with all show ?case by auto
  next
    case (behind t b)
    then have "behind_of seen ts (tk_id t) \<noteq> []" unfolding behind_of_iff by blast
    with still behind(1) show ?case by blast
  next
    case (waits t b)
    then have "waiting_of (merged_pairs seen ts) stale' t \<noteq> []" unfolding waiting_of_iff by blast
    with still waits(1) show ?case by blast
  qed
  with inv all show ?thesis by (auto simp: stale_inv_def list_all_iff)
qed

end
