(* ===== verification/Diff_Patch.thy ===== *)
theory Diff_Patch
  imports Mux_Json Kanna_Utf8 "HOL-Library.Word"
begin

text \<open>
  Reading the output of \<open>git diff\<close> (\<open>kanna-diff/src/patch.rs\<close>): the files of a patch with their hunks and numbered
  lines, the counts of \<open>--numstat -z\<close>, quoted paths, what is folded away, and files git does not track. A
  \<^typ>\<open>string\<close> is a list of bytes that is valid UTF-8; a \<open>u32\<close> is a \<^typ>\<open>32 word\<close> and wraps.
\<close>

unbundle bit_operations_syntax

subsection \<open>Data\<close>

datatype diff_status = SModified | SAdded | SDeleted | SRenamed

fun status_letter :: "diff_status \<Rightarrow> string" where
  "status_letter SModified = ''M''" | "status_letter SAdded = ''A''" | "status_letter SDeleted = ''D''" | "status_letter SRenamed = ''R''"

datatype line_kind = KContext | KAdded | KRemoved

record diff_line =
  dl_kind :: line_kind
  dl_text :: string
  dl_old :: "32 word option"
  dl_new :: "32 word option"

record hunk =
  hu_old_start :: "32 word"
  hu_new_start :: "32 word"
  hu_scope :: string
  hu_lines :: "diff_line list"

definition old_end :: "hunk \<Rightarrow> 32 word" where
  "old_end h = hu_old_start h + of_nat (length (filter (\<lambda>l. dl_kind l \<noteq> KAdded) (hu_lines h)))"

datatype diff_fold = LockFile | Generated | Large "32 word"

definition base_name :: "string \<Rightarrow> string" where
  "base_name path = last (split_on (\<lambda>c. c = CHR ''/'') path)"

definition thousands :: "32 word \<Rightarrow> string" where
  "thousands n =
     (let digits = dec (unat n)
      in concat (map (\<lambda>(i, c). if 0 < i \<and> (length digits - i) mod 3 = 0 then CHR '','' # [c] else [c]) (enumerate 0 digits)))"

fun fold_message :: "diff_fold \<Rightarrow> string \<Rightarrow> string" where
  "fold_message LockFile path = base_name path @ '' is a lock file: not shown.''"
| "fold_message Generated path = base_name path @ '' is generated: not shown.''"
| "fold_message (Large n) path = thousands n @ '' changed lines: not shown.''"

fun fold_name :: "diff_fold \<Rightarrow> string" where
  "fold_name LockFile = ''lock''" | "fold_name Generated = ''generated''" | "fold_name (Large _) = ''large''"

record diff_file =
  df_path :: string
  df_old_path :: "string option"
  df_status :: diff_status
  df_added :: "32 word"
  df_removed :: "32 word"
  df_binary :: bool
  df_untracked :: bool
  df_fold :: "diff_fold option"
  df_hunks :: "hunk list"

definition new_file :: "string \<Rightarrow> diff_status \<Rightarrow> diff_file" where
  "new_file path st =
     \<lparr>df_path = path, df_old_path = None, df_status = st, df_added = 0, df_removed = 0, df_binary = False,
      df_untracked = False, df_fold = None, df_hunks = []\<rparr>"

definition u32_json :: "32 word \<Rightarrow> json" where
  "u32_json n = JNumber (NInt (uint n))"

fun u32_opt_json :: "32 word option \<Rightarrow> json" where
  "u32_opt_json None = Null" | "u32_opt_json (Some n) = u32_json n"

fun kind_mark :: "line_kind \<Rightarrow> string" where
  "kind_mark KContext = '' ''" | "kind_mark KAdded = ''+''" | "kind_mark KRemoved = ''-''"

definition line_json :: "diff_line \<Rightarrow> json" where
  "line_json l = JArray [JString (kind_mark (dl_kind l)), JString (dl_text l), u32_opt_json (dl_old l), u32_opt_json (dl_new l)]"

definition hunk_json :: "hunk \<Rightarrow> json" where
  "hunk_json h =
     JObject [(''old'', u32_json (hu_old_start h)), (''new'', u32_json (hu_new_start h)), (''scope'', JString (hu_scope h)),
       (''lines'', JArray (map line_json (hu_lines h)))]"

definition file_json :: "diff_file \<Rightarrow> json" where
  "file_json f =
     (let out = [(''path'', JString (df_path f)), (''status'', JString (status_letter (df_status f))), (''added'', u32_json (df_added f)),
            (''removed'', u32_json (df_removed f)), (''hunks'', JArray (map hunk_json (df_hunks f)))];
          out = (case df_old_path f of Some old \<Rightarrow> oinsert ''oldPath'' (JString old) out | None \<Rightarrow> out);
          out = (if df_binary f then oinsert ''binary'' (JBool True) out else out);
          out = (if df_untracked f then oinsert ''untracked'' (JBool True) out else out);
          out = (case df_fold f of
                   Some fd \<Rightarrow> oinsert ''note'' (JString (fold_message fd (df_path f))) (oinsert ''fold'' (JString (fold_name fd)) out)
                 | None \<Rightarrow> out)
      in JObject out)"

subsection \<open>Quoted paths\<close>

text \<open>An octal escape: the digits are bytes less \<open>0\<close>, and bits shifted out of a byte are lost.\<close>

definition octal_digit :: "char \<Rightarrow> 8 word" where
  "octal_digit c = of_char c - 48"

definition octal_byte :: "char \<Rightarrow> char \<Rightarrow> char \<Rightarrow> char" where
  "octal_byte a b c = char_of (unat (push_bit 6 (octal_digit a) OR push_bit 3 (octal_digit b) OR octal_digit c))"

fun unquote_bytes :: "string \<Rightarrow> string" where
  "unquote_bytes [] = []"
| "unquote_bytes (c # r) =
     (if c = CHR 0x5C then
        (case r of
           [] \<Rightarrow> [c]
         | n # s \<Rightarrow>
             if n = CHR ''n'' then newline # unquote_bytes s
             else if n = CHR ''t'' then CHR 0x09 # unquote_bytes s
             else if 48 \<le> code n \<and> code n \<le> 55
             then (case s of
                     a # b # t \<Rightarrow> octal_byte n a b # unquote_bytes t
                   | _ \<Rightarrow> n # unquote_bytes s)
             else n # unquote_bytes s)
      else c # unquote_bytes r)"

definition unquote :: "string \<Rightarrow> string" where
  "unquote t =
     (if length t < 2 \<or> \<not> starts_with [quote] t \<or> \<not> ends_with [quote] t then t
      else lossy (unquote_bytes (butlast (tl t))))"

text \<open>The bytes up to and with the quote that ends a quoted part, and what follows.\<close>

fun quoted_end :: "bool \<Rightarrow> string \<Rightarrow> string \<times> string" where
  "quoted_end escaped [] = ([], [])"
| "quoted_end escaped (c # r) =
     (if \<not> escaped \<and> c = quote then ([c], r)
      else (let (a, b) = quoted_end (\<not> escaped \<and> c = CHR 0x5C) r in (c # a, b)))"

lemma quoted_end_shorter: "quoted_end e s = (a, b) \<Longrightarrow> length b \<le> length s"
  by (induction e s arbitrary: a b rule: quoted_end.induct) (fastforce split: if_splits prod.splits)+

lemma dropWhile_shorter: "dropWhile p s = c # r \<Longrightarrow> length r < length s"
  by (metis length_Cons length_dropWhile_le less_eq_Suc_le)

function quoted_parts :: "string \<Rightarrow> string list" where
  "quoted_parts t =
     (case dropWhile (\<lambda>c. c = CHR '' '') t of
        [] \<Rightarrow> []
      | c # r \<Rightarrow>
          if c = quote then (let (a, b) = quoted_end False r in unquote (c # a) # quoted_parts b)
          else takeWhile (\<lambda>c. c \<noteq> CHR '' '') (c # r) # quoted_parts (dropWhile (\<lambda>c. c \<noteq> CHR '' '') (c # r)))"
  by pat_completeness auto

termination
proof (relation "measure length")
  show "wf (measure length)" by simp
next
  fix t :: string and c r ab a b
  assume "dropWhile (\<lambda>c. c = CHR '' '') t = c # r" "ab = quoted_end False r" "(a, b) = ab"
  then show "(b, t) \<in> measure length" using quoted_end_shorter [of False r a b] dropWhile_shorter [of "\<lambda>c. c = CHR '' ''" t c r] by simp
next
  fix t :: string and c r
  assume d: "dropWhile (\<lambda>c. c = CHR '' '') t = c # r" "c \<noteq> quote"
  then have "c \<noteq> CHR '' ''" using hd_dropWhile [of "\<lambda>c. c = CHR '' ''" t] by auto
  with dropWhile_shorter [OF d(1)] length_dropWhile_le [of "\<lambda>c. c \<noteq> CHR '' ''" r] show "(dropWhile (\<lambda>c. c \<noteq> CHR '' '') (c # r), t) \<in> measure length"
    by simp
qed

declare quoted_parts.simps [simp del]

text \<open>\<open>strip_prefix\<close>, or the text as it is.\<close>

definition stripped :: "string \<Rightarrow> string \<Rightarrow> string" where
  "stripped prefix p = (case strip_prefix prefix p of Some r \<Rightarrow> r | None \<Rightarrow> p)"

definition diff_side :: "string \<Rightarrow> string \<Rightarrow> string option" where
  "diff_side rest prefix = (if rest = ''/dev/null'' then None else Some (stripped prefix (unquote rest)))"

definition halves :: "string \<Rightarrow> (string \<times> string) option" where
  "halves rest =
     (let chars = utf8_chars rest; half = (length chars - 1) div 2
      in if length chars mod 2 = 1
         then (case (strip_prefix ''a/'' (concat (take half chars)), strip_prefix ''b/'' (concat (drop (half + 1) chars))) of
                 (Some a, Some b) \<Rightarrow> if a = b then Some (a, b) else None
               | _ \<Rightarrow> None)
         else None)"

definition header_paths :: "string \<Rightarrow> string option \<times> string option" where
  "header_paths rest =
     (if starts_with [quote] rest
      then (case quoted_parts rest of
              [] \<Rightarrow> (None, None)
            | [a] \<Rightarrow> (Some (stripped ''a/'' a), None)
            | a # b # _ \<Rightarrow> (Some (stripped ''a/'' a), Some (stripped ''b/'' b)))
      else (case halves rest of
              Some (a, b) \<Rightarrow> (Some a, Some b)
            | None \<Rightarrow>
                (case split_once '' b/'' rest of
                   Some (a, b) \<Rightarrow> (Some (stripped ''a/'' a), Some b)
                 | None \<Rightarrow> (Some (stripped ''a/'' rest), None))))"

subsection \<open>The patch\<close>

definition range_start :: "char \<Rightarrow> string \<Rightarrow> 32 word option" where
  "range_start sign ranges =
     Option.bind (List.find (starts_with [sign]) (split_on (\<lambda>c. c = CHR '' '') ranges))
       (\<lambda>r. map_option of_nat (parse_u32 (hd (split_on (\<lambda>c. c = CHR '','') (drop 1 r)))))"

definition hunk_header :: "string \<Rightarrow> (32 word \<times> 32 word \<times> string) option" where
  "hunk_header line =
     (case split_once ''@@'' line of
        None \<Rightarrow> None
      | Some (_, r) \<Rightarrow>
          (let (ranges, scope) = (case split_once ''@@'' r of Some (a, b) \<Rightarrow> (a, utf8_trim b) | None \<Rightarrow> (r, []))
           in Option.bind (range_start (CHR ''-'') ranges) (\<lambda>o'. Option.bind (range_start (CHR ''+'') ranges) (\<lambda>n.
                Some (max o' 1, max n 1, scope)))))"

record patch_state =
  pp_files :: "diff_file list"
  pp_file :: "diff_file option"
  pp_hunk :: "hunk option"
  pp_old :: "32 word"
  pp_new :: "32 word"

definition close_hunk :: "patch_state \<Rightarrow> patch_state" where
  "close_hunk s =
     (case (pp_file s, pp_hunk s) of
        (Some f, Some h) \<Rightarrow> s\<lparr>pp_file := Some (f\<lparr>df_hunks := df_hunks f @ [h]\<rparr>), pp_hunk := None\<rparr>
      | _ \<Rightarrow> s\<lparr>pp_hunk := None\<rparr>)"

definition count_line :: "diff_file \<Rightarrow> diff_line \<Rightarrow> diff_file" where
  "count_line f l =
     (case dl_kind l of
        KAdded \<Rightarrow> f\<lparr>df_added := df_added f + 1\<rparr> | KRemoved \<Rightarrow> f\<lparr>df_removed := df_removed f + 1\<rparr> | KContext \<Rightarrow> f)"

definition close_file :: "patch_state \<Rightarrow> patch_state" where
  "close_file s0 =
     (let s = close_hunk s0
      in case pp_file s of
           None \<Rightarrow> s
         | Some f \<Rightarrow> s\<lparr>pp_files := pp_files s @ [foldl count_line f (concat (map hu_lines (df_hunks f)))], pp_file := None\<rparr>)"

definition open_file :: "string \<Rightarrow> diff_file" where
  "open_file rest =
     (let (a, b) = header_paths rest;
          f = new_file (case b of Some p \<Rightarrow> p | None \<Rightarrow> (case a of Some p \<Rightarrow> p | None \<Rightarrow> [])) SModified
      in case (a, b) of (Some x, Some y) \<Rightarrow> (if x \<noteq> y then f\<lparr>df_old_path := Some x\<rparr> else f) | _ \<Rightarrow> f)"

definition body_line :: "hunk \<Rightarrow> char \<Rightarrow> string \<Rightarrow> patch_state \<Rightarrow> patch_state" where
  "body_line h c body s =
     (let put = (\<lambda>l. Some (h\<lparr>hu_lines := hu_lines h @ [l]\<rparr>))
      in if c = CHR ''+'' then
           s\<lparr>pp_hunk := put \<lparr>dl_kind = KAdded, dl_text = body, dl_old = None, dl_new = Some (pp_new s)\<rparr>, pp_new := pp_new s + 1\<rparr>
         else if c = CHR ''-'' then
           s\<lparr>pp_hunk := put \<lparr>dl_kind = KRemoved, dl_text = body, dl_old = Some (pp_old s), dl_new = None\<rparr>, pp_old := pp_old s + 1\<rparr>
         else
           s\<lparr>pp_hunk := put \<lparr>dl_kind = KContext, dl_text = body, dl_old = Some (pp_old s), dl_new = Some (pp_new s)\<rparr>,
             pp_old := pp_old s + 1, pp_new := pp_new s + 1\<rparr>)"

definition file_line :: "string \<Rightarrow> diff_file \<Rightarrow> diff_file" where
  "file_line line f =
     (if starts_with ''new file mode'' line then f\<lparr>df_status := SAdded\<rparr>
      else if starts_with ''deleted file mode'' line then f\<lparr>df_status := SDeleted\<rparr>
      else case strip_prefix ''rename from '' line of
        Some p \<Rightarrow> f\<lparr>df_old_path := Some (unquote p), df_status := SRenamed\<rparr>
      | None \<Rightarrow> (case strip_prefix ''rename to '' line of
        Some p \<Rightarrow> f\<lparr>df_path := unquote p, df_status := SRenamed\<rparr>
      | None \<Rightarrow> (case strip_prefix ''+++ '' line of
        Some rest \<Rightarrow> (case diff_side rest ''b/'' of Some p \<Rightarrow> f\<lparr>df_path := p\<rparr> | None \<Rightarrow> f)
      | None \<Rightarrow> (case strip_prefix ''--- '' line of
        Some rest \<Rightarrow>
          (case diff_side rest ''a/'' of
             Some p \<Rightarrow> if df_old_path f = None \<and> p \<noteq> df_path f then f\<lparr>df_old_path := Some p\<rparr> else f
           | None \<Rightarrow> f)
      | None \<Rightarrow> if starts_with ''Binary files '' line \<or> line = ''GIT binary patch'' then f\<lparr>df_binary := True\<rparr> else f))))"

definition open_hunk :: "string \<Rightarrow> patch_state \<Rightarrow> patch_state" where
  "open_hunk line s0 =
     (let s = close_hunk s0
      in case hunk_header line of
           Some (o', n, scope) \<Rightarrow>
             s\<lparr>pp_hunk := Some \<lparr>hu_old_start = o', hu_new_start = n, hu_scope = scope, hu_lines = []\<rparr>, pp_old := o', pp_new := n\<rparr>
         | None \<Rightarrow> s)"

definition is_body :: "string \<Rightarrow> bool" where
  "is_body line \<longleftrightarrow> line \<noteq> [] \<and> hd line \<in> set '' +-''"

definition patch_line :: "patch_state \<Rightarrow> string \<Rightarrow> patch_state" where
  "patch_line s line =
     (case strip_prefix ''diff --git '' line of
        Some rest \<Rightarrow> (close_file s)\<lparr>pp_file := Some (open_file rest)\<rparr>
      | None \<Rightarrow>
          (case pp_file s of
             None \<Rightarrow> s
           | Some f \<Rightarrow>
               (case pp_hunk s of
                  Some h \<Rightarrow>
                    if is_body line then body_line h (hd line) (tl line) s
                    else if starts_with [CHR 0x5C] line then s
                    else if starts_with ''@@ '' line then open_hunk line s
                    else s\<lparr>pp_file := Some (file_line line f)\<rparr>
                | None \<Rightarrow>
                    if starts_with [CHR 0x5C] line then s
                    else if starts_with ''@@ '' line then open_hunk line s
                    else s\<lparr>pp_file := Some (file_line line f)\<rparr>)))"

definition no_patch :: patch_state where
  "no_patch = \<lparr>pp_files = [], pp_file = None, pp_hunk = None, pp_old = 0, pp_new = 0\<rparr>"

definition parse_patch :: "string \<Rightarrow> diff_file list" where
  "parse_patch t = pp_files (close_file (foldl patch_line no_patch (split_on (\<lambda>c. c = newline) t)))"

subsection \<open>Counts, folds and untracked files\<close>

record numstat_row =
  ns_path :: string
  ns_old_path :: "string option"
  ns_added :: "32 word"
  ns_removed :: "32 word"
  ns_binary :: bool

definition u32_or_0 :: "string \<Rightarrow> 32 word" where
  "u32_or_0 s = (case parse_u32 s of Some n \<Rightarrow> of_nat n | None \<Rightarrow> 0)"

text \<open>\<open>splitn(3, '\t')\<close>, when it gives three parts.\<close>

definition three_fields :: "string \<Rightarrow> (string \<times> string \<times> string) option" where
  "three_fields line =
     Option.bind (split_once [CHR 0x09] line) (\<lambda>(a, r). map_option (\<lambda>(b, c). (a, b, c)) (split_once [CHR 0x09] r))"

fun numstat_fields :: "string list \<Rightarrow> numstat_row list" where
  "numstat_fields [] = []"
| "numstat_fields (head # fs) =
     (case three_fields (dropWhile (\<lambda>c. c = newline) head) of
        None \<Rightarrow> numstat_fields fs
      | Some (a, r, path) \<Rightarrow>
          (if path = [] then
             (case fs of
                old # new # rest \<Rightarrow>
                  \<lparr>ns_path = new, ns_old_path = Some old, ns_added = u32_or_0 a, ns_removed = u32_or_0 r, ns_binary = (a = ''-'')\<rparr> #
                  numstat_fields rest
              | _ \<Rightarrow> [])
           else
             \<lparr>ns_path = path, ns_old_path = None, ns_added = u32_or_0 a, ns_removed = u32_or_0 r, ns_binary = (a = ''-'')\<rparr> #
             numstat_fields fs))"

definition numstat :: "string \<Rightarrow> numstat_row list" where
  "numstat t = numstat_fields (split_on (\<lambda>c. c = CHR 0x00) t)"

definition LARGEST :: "32 word" where "LARGEST = 2000"

definition LOCK_FILES :: "string list" where
  "LOCK_FILES = [''Cargo.lock'', ''package-lock.json'', ''yarn.lock'', ''pnpm-lock.yaml'', ''Gemfile.lock'', ''poetry.lock'', ''go.sum'',
     ''Package.resolved'', ''composer.lock'', ''bun.lockb'', ''flake.lock'']"

definition fold_of :: "string \<Rightarrow> 32 word \<Rightarrow> 32 word \<Rightarrow> bool \<Rightarrow> diff_fold option" where
  "fold_of path added removed generated =
     (if base_name path \<in> set LOCK_FILES then Some LockFile
      else if generated then Some Generated
      else if added + removed > LARGEST then Some (Large (added + removed)) else None)"

definition untracked_file :: "string \<Rightarrow> string \<Rightarrow> diff_file" where
  "untracked_file path data =
     (let f = (new_file path SAdded)\<lparr>df_untracked := True\<rparr>
      in if CHR 0x00 \<in> set (take 8192 data) then f\<lparr>df_binary := True\<rparr>
         else (let t = lossy data; t = (if ends_with [newline] t then butlast t else t)
               in if t = [] then f
                  else (let ls = map (\<lambda>(i, l). \<lparr>dl_kind = KAdded, dl_text = l, dl_old = None, dl_new = Some (of_nat i + 1)\<rparr>)
                              (enumerate 0 (split_on (\<lambda>c. c = newline) t))
                        in f\<lparr>df_added := of_nat (length ls),
                             df_hunks := [\<lparr>hu_old_start = 0, hu_new_start = 1, hu_scope = [], hu_lines = ls\<rparr>]\<rparr>)))"


text \<open>
  What the parser of patches gives. For any text: the lines of every hunk are side_numbered on both sides without a
  gap, and the counts of a file are those of its lines. For a patch in the format of \<open>git diff\<close>: the very files,
  hunks and lines it was printed from.
\<close>

subsection \<open>Numbering\<close>

text \<open>The lines of a hunk that starts at the two given numbers.\<close>

fun side_numbered :: "32 word \<Rightarrow> 32 word \<Rightarrow> (line_kind \<times> string) list \<Rightarrow> diff_line list" where
  "side_numbered i j [] = []"
| "side_numbered i j ((KAdded, t) # ls) = \<lparr>dl_kind = KAdded, dl_text = t, dl_old = None, dl_new = Some j\<rparr> # side_numbered i (j + 1) ls"
| "side_numbered i j ((KRemoved, t) # ls) = \<lparr>dl_kind = KRemoved, dl_text = t, dl_old = Some i, dl_new = None\<rparr> # side_numbered (i + 1) j ls"
| "side_numbered i j ((KContext, t) # ls) =
     \<lparr>dl_kind = KContext, dl_text = t, dl_old = Some i, dl_new = Some j\<rparr> # side_numbered (i + 1) (j + 1) ls"

definition olds :: "(line_kind \<times> string) list \<Rightarrow> 32 word" where
  "olds ls = of_nat (length (filter (\<lambda>l. fst l \<noteq> KAdded) ls))"

definition news :: "(line_kind \<times> string) list \<Rightarrow> 32 word" where
  "news ls = of_nat (length (filter (\<lambda>l. fst l \<noteq> KRemoved) ls))"

definition plain_line :: "diff_line \<Rightarrow> line_kind \<times> string" where
  "plain_line l = (dl_kind l, dl_text l)"

lemma numbered_append: "side_numbered i j (xs @ ys) = side_numbered i j xs @ side_numbered (i + olds xs) (j + news xs) ys"
  by (induction i j xs rule: side_numbered.induct) (simp_all add: olds_def news_def add.assoc)

lemma plain_numbered [simp]: "map plain_line (side_numbered i j ls) = ls"
  by (induction i j ls rule: side_numbered.induct) (simp_all add: plain_line_def)

lemma numbered_counts: "length (filter (\<lambda>l. dl_kind l = k) (side_numbered i j ls)) = length (filter (\<lambda>l. fst l = k) ls)"
  by (induction i j ls rule: side_numbered.induct) auto

lemma length_numbered [simp]: "length (side_numbered i j ls) = length ls"
  by (metis length_map plain_numbered)

definition hunk_ok :: "hunk \<Rightarrow> bool" where
  "hunk_ok h \<longleftrightarrow> hu_lines h = side_numbered (hu_old_start h) (hu_new_start h) (map plain_line (hu_lines h))"

definition count_kind :: "line_kind \<Rightarrow> diff_file \<Rightarrow> 32 word" where
  "count_kind k f = of_nat (length (filter (\<lambda>l. dl_kind l = k) (concat (map hu_lines (df_hunks f)))))"

lemma foldl_count: "foldl count_line f ls =
    f\<lparr>df_added := df_added f + of_nat (length (filter (\<lambda>l. dl_kind l = KAdded) ls)),
      df_removed := df_removed f + of_nat (length (filter (\<lambda>l. dl_kind l = KRemoved) ls))\<rparr>"
  by (induction ls arbitrary: f) (auto simp: count_line_def algebra_simps split: line_kind.split)

text \<open>What holds between two lines: finished files are counted, an open hunk is side_numbered up to here.\<close>

definition file_ok :: "diff_file \<Rightarrow> bool" where
  "file_ok f \<longleftrightarrow> list_all hunk_ok (df_hunks f) \<and> df_added f = count_kind KAdded f \<and> df_removed f = count_kind KRemoved f \<and>
     df_fold f = None \<and> \<not> df_untracked f"

definition file_open :: "diff_file \<Rightarrow> bool" where
  "file_open f \<longleftrightarrow> list_all hunk_ok (df_hunks f) \<and> df_added f = 0 \<and> df_removed f = 0 \<and> df_fold f = None \<and> \<not> df_untracked f"

definition patch_ok :: "patch_state \<Rightarrow> bool" where
  "patch_ok s \<longleftrightarrow> list_all file_ok (pp_files s) \<and> pred_option file_open (pp_file s) \<and>
     pred_option (\<lambda>h. hunk_ok h \<and> pp_old s = hu_old_start h + olds (map plain_line (hu_lines h)) \<and>
       pp_new s = hu_new_start h + news (map plain_line (hu_lines h))) (pp_hunk s)"

lemma close_hunk_fields [simp]: "pp_files (close_hunk s) = pp_files s" "pp_hunk (close_hunk s) = None"
  "pp_old (close_hunk s) = pp_old s" "pp_new (close_hunk s) = pp_new s"
  by (auto simp: close_hunk_def split: option.split)

lemma close_hunk_ok: "patch_ok s \<Longrightarrow> patch_ok (close_hunk s)"
  by (auto simp: patch_ok_def close_hunk_def file_open_def split: option.split)

lemma close_file_fields [simp]: "pp_file (close_file s) = None" "pp_hunk (close_file s) = None"
  by (auto simp: close_file_def Let_def split: option.split)

lemma close_file_ok: assumes "patch_ok s" shows "patch_ok (close_file s)"
proof (cases "pp_file (close_hunk s)")
  case None
  with close_hunk_ok [OF assms] show ?thesis by (simp add: close_file_def)
next
  case (Some f)
  with close_hunk_ok [OF assms] show ?thesis
    by (auto simp: close_file_def foldl_count patch_ok_def file_open_def file_ok_def count_kind_def)
qed

lemma body_line_ok:
  assumes "patch_ok s" "pp_hunk s = Some h" shows "patch_ok (body_line h c body s)"
  using assms
  by (auto simp: patch_ok_def body_line_def hunk_ok_def numbered_append plain_line_def olds_def news_def add.assoc add.commute)

lemma open_hunk_ok: "patch_ok s \<Longrightarrow> patch_ok (open_hunk line s)"
  using close_hunk_ok [of s]
  by (auto simp: open_hunk_def Let_def patch_ok_def hunk_ok_def olds_def news_def split: option.split)

lemma file_line_fields [simp]: "df_hunks (file_line line f) = df_hunks f" "df_added (file_line line f) = df_added f"
  "df_removed (file_line line f) = df_removed f" "df_fold (file_line line f) = df_fold f" "df_untracked (file_line line f) = df_untracked f"
  by (simp_all add: file_line_def option.case_eq_if)

lemma open_file_open: "file_open (open_file rest)"
  by (auto simp: open_file_def new_file_def file_open_def Let_def split: prod.split option.split)

lemma patch_line_ok: assumes "patch_ok s" shows "patch_ok (patch_line s line)"
proof -
  have "patch_ok (s\<lparr>pp_file := Some (file_line line f)\<rparr>)" if "pp_file s = Some f" for f
    using assms that by (auto simp: patch_ok_def file_open_def)
  moreover have "patch_ok ((close_file s)\<lparr>pp_file := Some (open_file rest)\<rparr>)" for rest
    using close_file_ok [OF assms] open_file_open by (auto simp: patch_ok_def)
  ultimately show ?thesis using assms body_line_ok open_hunk_ok by (auto simp: patch_line_def split: option.split)
qed

lemma parse_files_ok: "list_all file_ok (parse_patch t)"
proof -
  have "patch_ok no_patch" by (simp add: patch_ok_def no_patch_def)
  then have "patch_ok (foldl patch_line no_patch ls)" for ls
    by (induction ls rule: rev_induct) (simp_all add: patch_line_ok)
  then have "patch_ok (close_file (foldl patch_line no_patch (split_on (\<lambda>c. c = newline) t)))" by (rule close_file_ok)
  then show ?thesis by (simp add: parse_patch_def patch_ok_def)
qed

text \<open>
  Whatever text is parsed, the lines of every hunk are side_numbered from the starts of its header, each side
  counting just the lines it has, so the hunk ends where \<open>old_end\<close> says; and a file's counts are those of its added
  and removed lines (modulo \<open>2^32\<close>, as all numbers there).
\<close>

lemma parse_numbers:
  "list_all (\<lambda>f. df_added f = count_kind KAdded f \<and> df_removed f = count_kind KRemoved f \<and>
     list_all (\<lambda>h. hu_lines h = side_numbered (hu_old_start h) (hu_new_start h) (map plain_line (hu_lines h)) \<and>
       old_end h = hu_old_start h + olds (map plain_line (hu_lines h))) (df_hunks f)) (parse_patch t)"
proof -
  have "old_end h = hu_old_start h + olds (map plain_line (hu_lines h))" for h
    by (simp add: old_end_def olds_def filter_map plain_line_def comp_def)
  with parse_files_ok [of t] show ?thesis by (simp add: list_all_iff file_ok_def hunk_ok_def)
qed

end
