(* ===== verification/Diff_Round.thy ===== *)
theory Diff_Round
  imports Diff_Patch
begin

text \<open>
  The round trip of patches: a printer for the format the manual of \<open>git diff\<close> describes, and that parsing undoes it.
\<close>

subsection \<open>Patches as git prints them\<close>

record git_hunk =
  gh_old :: "nat \<times> nat"
  gh_new :: "nat \<times> nat"
  gh_scope :: string
  gh_lines :: "(line_kind \<times> string \<times> bool) list"

record git_file =
  gf_status :: diff_status
  gf_old :: string
  gf_new :: string
  gf_mode :: string
  gf_extra :: "string list"
  gf_index :: "string list"
  gf_binary :: bool
  gf_hunks :: "git_hunk list"

text \<open>A range is its start and its length; a length of one is left out.\<close>

definition git_range :: "nat \<times> nat \<Rightarrow> string" where
  "git_range = (\<lambda>(s, n). dec s @ (if n = 1 then [] else CHR '','' # dec n))"

text \<open>A line of a hunk, and the remark that the file ends there without a line feed.\<close>

definition body_lines :: "line_kind \<times> string \<times> bool \<Rightarrow> string list" where
  "body_lines = (\<lambda>(k, t, bare). (kind_mark k @ t) # (if bare then [CHR 0x5C # '' No newline at end of file''] else []))"

definition hunk_lines :: "git_hunk \<Rightarrow> string list" where
  "hunk_lines h =
     (''@@ -'' @ git_range (gh_old h) @ '' +'' @ git_range (gh_new h) @ '' @@'' @ (if gh_scope h = [] then [] else CHR '' '' # gh_scope h)) #
     concat (map body_lines (gh_lines h))"

text \<open>The name of a side: git puts a tab after a name that has a space.\<close>

definition side_label :: "char \<Rightarrow> string \<Rightarrow> string" where
  "side_label c p = [c, CHR ''/''] @ p @ (if CHR '' '' \<in> set p then [CHR 0x09] else [])"

definition old_label :: "git_file \<Rightarrow> string" where
  "old_label f = (if gf_status f = SAdded then ''/dev/null'' else side_label (CHR ''a'') (gf_old f))"

definition new_label :: "git_file \<Rightarrow> string" where
  "new_label f = (if gf_status f = SDeleted then ''/dev/null'' else side_label (CHR ''b'') (gf_new f))"

definition status_lines :: "git_file \<Rightarrow> string list" where
  "status_lines f =
     (case gf_status f of
        SModified \<Rightarrow> []
      | SAdded \<Rightarrow> [''new file mode '' @ gf_mode f]
      | SDeleted \<Rightarrow> [''deleted file mode '' @ gf_mode f]
      | SRenamed \<Rightarrow> [''rename from '' @ gf_old f, ''rename to '' @ gf_new f])"

definition content_lines :: "git_file \<Rightarrow> string list" where
  "content_lines f =
     (if gf_binary f then [''Binary files '' @ old_label f @ '' and '' @ new_label f @ '' differ'']
      else if gf_hunks f = [] then []
      else [''--- '' @ old_label f, ''+++ '' @ new_label f] @ concat (map hunk_lines (gf_hunks f)))"

definition file_lines :: "git_file \<Rightarrow> string list" where
  "file_lines f =
     (''diff --git a/'' @ gf_old f @ '' b/'' @ gf_new f) # gf_extra f @ status_lines f @ gf_index f @ content_lines f"

definition git_patch :: "git_file list \<Rightarrow> string" where
  "git_patch fs = concat (map (\<lambda>l. l @ [newline]) (concat (map file_lines fs)))"

text \<open>The files it is printed from, as the parser should give them.\<close>

definition shown_hunk :: "git_hunk \<Rightarrow> hunk" where
  "shown_hunk h =
     (let i = max (of_nat (fst (gh_old h))) 1; j = max (of_nat (fst (gh_new h))) 1
      in \<lparr>hu_old_start = i, hu_new_start = j, hu_scope = utf8_trim (gh_scope h),
          hu_lines = side_numbered i j (map (\<lambda>(k, t, _). (k, t)) (gh_lines h))\<rparr>)"

definition shown_file :: "git_file \<Rightarrow> diff_file" where
  "shown_file f =
     (let ls = concat (map gh_lines (gf_hunks f))
      in \<lparr>df_path = gf_new f, df_old_path = (if gf_status f = SRenamed then Some (gf_old f) else None), df_status = gf_status f,
          df_added = of_nat (length (filter (\<lambda>l. fst l = KAdded) ls)), df_removed = of_nat (length (filter (\<lambda>l. fst l = KRemoved) ls)),
          df_binary = gf_binary f, df_untracked = False, df_fold = None, df_hunks = map shown_hunk (gf_hunks f)\<rparr>)"

text \<open>
  Which patches: paths are UTF-8 without the bytes git would quote, other header lines are those of modes, similarity and
  index, and a file with hunks has no space in its name.
\<close>

definition path_plain :: "string \<Rightarrow> bool" where
  "path_plain p \<longleftrightarrow> p \<noteq> [] \<and> valid_up_to p = length p \<and> list_all (\<lambda>c. 32 \<le> code c \<and> code c \<noteq> 127 \<and> c \<noteq> quote \<and> c \<noteq> CHR 0x5C) p"

definition one_line :: "string \<Rightarrow> bool" where
  "one_line l \<longleftrightarrow> newline \<notin> set l"

definition extra_line :: "string \<Rightarrow> bool" where
  "extra_line l \<longleftrightarrow> one_line l \<and>
     (starts_with ''index '' l \<or> starts_with ''old mode '' l \<or> starts_with ''new mode '' l \<or> starts_with ''similarity index '' l \<or>
      starts_with ''dissimilarity index '' l)"

definition git_hunk_ok :: "git_hunk \<Rightarrow> bool" where
  "git_hunk_ok h \<longleftrightarrow> fst (gh_old h) < 2 ^ 32 \<and> fst (gh_new h) < 2 ^ 32 \<and> one_line (gh_scope h) \<and> list_all (\<lambda>(k, t, _). one_line t) (gh_lines h)"

definition git_file_ok :: "git_file \<Rightarrow> bool" where
  "git_file_ok f \<longleftrightarrow> path_plain (gf_old f) \<and> path_plain (gf_new f) \<and> (gf_status f \<noteq> SRenamed \<longrightarrow> gf_old f = gf_new f) \<and> one_line (gf_mode f) \<and>
     list_all extra_line (gf_extra f) \<and> list_all extra_line (gf_index f) \<and> list_all git_hunk_ok (gf_hunks f) \<and>
     (gf_hunks f \<noteq> [] \<longrightarrow> \<not> gf_binary f \<and> CHR '' '' \<notin> set (gf_old f) \<and> CHR '' '' \<notin> set (gf_new f))"

subsection \<open>Lines\<close>

lemma split_lines: "\<forall>l \<in> set ls. one_line l \<Longrightarrow> split_on (\<lambda>c. c = newline) (concat (map (\<lambda>l. l @ [newline]) ls)) = ls @ [[]]"
proof (induction ls)
  case (Cons l ls)
  have "split_on (\<lambda>c. c = newline) (l @ newline # concat (map (\<lambda>l. l @ [newline]) ls)) =
      l # split_on (\<lambda>c. c = newline) (concat (map (\<lambda>l. l @ [newline]) ls))"
    by (rule split_on_append) (use Cons.prems in \<open>auto simp: one_line_def\<close>)
  with Cons show ?case by simp
qed simp

lemma dec_chars: "c \<in> set (dec n) \<Longrightarrow> 48 \<le> code c \<and> code c \<le> 57"
  using dec_digits [of n] by (auto simp: list_all_iff is_digit_def)

lemma range_chars: "c \<in> set (git_range r) \<Longrightarrow> c = CHR '','' \<or> 48 \<le> code c \<and> code c \<le> 57"
  by (auto simp: git_range_def dest: dec_chars split: prod.splits if_splits)

lemma range_lacks [simp]: "CHR '' '' \<notin> set (git_range r)" "CHR ''@'' \<notin> set (git_range r)" "newline \<notin> set (git_range r)"
  by (auto dest: range_chars)

lemma range_number: "s < 2 ^ 32 \<Longrightarrow> parse_u32 (hd (split_on (\<lambda>c. c = CHR '','') (git_range (s, n)))) = Some s"
proof -
  assume s: "s < 2 ^ 32"
  have "\<forall>c \<in> set (dec s). c \<noteq> CHR '',''" by (auto dest: dec_chars)
  then have "hd (split_on (\<lambda>c. c = CHR '','') (git_range (s, n))) = dec s"
    by (cases "n = 1") (simp_all add: git_range_def split_on_none split_on_append)
  with parse_unsigned_dec [OF s] show ?thesis by simp
qed

lemma split_once_first: "c \<notin> set a \<Longrightarrow> split_once (c # p) (a @ c # p @ b) = Some (a, b)"
  by (induction a) auto

text \<open>The ranges of a header.\<close>

lemma split_ranges:
  "split_on (\<lambda>c. c = CHR '' '') ('' -'' @ git_range i @ '' +'' @ git_range j @ '' '') = [[], CHR ''-'' # git_range i, CHR ''+'' # git_range j, []]"
proof -
  have "split_on (\<lambda>c. c = CHR '' '') ((CHR ''-'' # git_range i) @ CHR '' '' # (CHR ''+'' # git_range j) @ CHR '' '' # []) =
      [CHR ''-'' # git_range i, CHR ''+'' # git_range j, []]"
    by (subst split_on_append; (subst split_on_append)?) (auto intro: ccontr)
  then show ?thesis by simp
qed

lemma utf8_tail_append: "utf8_tail k rs s = Inr w \<Longrightarrow> utf8_tail k rs (s @ t) = Inr w"
  by (induction k rs s rule: utf8_tail.induct) (auto split: if_splits)

lemma utf8_char_append: "utf8_char s = Inr w \<Longrightarrow> utf8_char (s @ t) = Inr w"
  by (cases s) (auto split: if_splits intro: utf8_tail_append)

lemma utf8_chars_append: "valid_up_to s = length s \<Longrightarrow> utf8_chars (s @ t) = utf8_chars s @ utf8_chars t"
proof (induction s rule: utf8_chars.induct)
  case (1 s)
  show ?case
  proof (cases "utf8_char s")
    case (Inl e)
    with 1(2) have "s = []" by (simp add: valid_up_to.simps [of s])
    then show ?thesis by (simp add: utf8_chars.simps [of "[]"])
  next
    case (Inr w)
    from 1(2) Inr utf8_char_width [OF Inr] have v: "valid_up_to (drop w s) = length (drop w s)"
      by (simp add: valid_up_to.simps [of s])
    have "utf8_chars (s @ t) = take w s # utf8_chars (drop w s @ t)"
      using utf8_char_append [OF Inr, of t] utf8_char_width [OF Inr] by (subst utf8_chars.simps) simp
    with 1(1) [OF Inr v] Inr show ?thesis by (simp add: utf8_chars.simps [of s])
  qed
qed

lemma utf8_chars_ascii: "code c < 128 \<Longrightarrow> utf8_chars (c # s) = [c] # utf8_chars s"
  by (subst utf8_chars.simps) simp

lemma utf8_trim_space: "utf8_trim (CHR '' '' # s) = utf8_trim s"
  by (simp add: utf8_trim_def utf8_chars_ascii utf8_space_def)

lemma utf8_trim_Nil [simp]: "utf8_trim [] = []"
  by (simp add: utf8_trim_def utf8_chars.simps [of "[]"])

lemma hunk_header_range:
  assumes "fst i < 2 ^ 32" "fst j < 2 ^ 32"
  shows "hunk_header (''@@ -'' @ git_range i @ '' +'' @ git_range j @ '' @@'' @ scope) =
    Some (max (of_nat (fst i)) 1, max (of_nat (fst j)) 1, utf8_trim scope)"
proof -
  have "split_once ''@@'' (('' -'' @ git_range i @ '' +'' @ git_range j @ '' '') @ ''@@'' @ scope) =
      Some ('' -'' @ git_range i @ '' +'' @ git_range j @ '' '', scope)"
    using split_once_first [of "CHR ''@''" "'' -'' @ git_range i @ '' +'' @ git_range j @ '' ''" "''@''" scope] by simp
  moreover have "range_start (CHR ''-'') ('' -'' @ git_range i @ '' +'' @ git_range j @ '' '') = Some (of_nat (fst i))"
    unfolding range_start_def split_ranges using range_number [OF assms(1), of "snd i"] by simp
  moreover have "range_start (CHR ''+'') ('' -'' @ git_range i @ '' +'' @ git_range j @ '' '') = Some (of_nat (fst j))"
    unfolding range_start_def split_ranges using range_number [OF assms(2), of "snd j"] by simp
  ultimately show ?thesis by (simp add: hunk_header_def)
qed

subsection \<open>Hunks\<close>

lemma kind_mark_cases: obtains c where "kind_mark k = [c]" "c \<in> set '' +-''"
  by (cases k) auto

lemma patch_line_body:
  "pp_file s = Some f \<Longrightarrow> pp_hunk s = Some h \<Longrightarrow> c \<in> set '' +-'' \<Longrightarrow> patch_line s (c # t) = body_line h c t s"
  by (auto simp: patch_line_def strip_prefix_def is_body_def)

lemma patch_line_remark: "pp_file s = Some f \<Longrightarrow> patch_line s (CHR 0x5C # t) = s"
  by (auto simp: patch_line_def strip_prefix_def is_body_def split: option.split)

lemma patch_line_hunk: "pp_file s = Some f \<Longrightarrow> patch_line s (''@@ '' @ t) = open_hunk (''@@ '' @ t) s"
  by (auto simp: patch_line_def strip_prefix_def is_body_def split: option.split)

text \<open>One line, with the remark that may follow.\<close>

lemma patch_body_lines:
  assumes "pp_file s = Some f" "pp_hunk s = Some h"
  shows "foldl patch_line s (body_lines (k, t, bare)) =
    s\<lparr>pp_hunk := Some (h\<lparr>hu_lines := hu_lines h @ side_numbered (pp_old s) (pp_new s) [(k, t)]\<rparr>),
      pp_old := pp_old s + olds [(k, t)], pp_new := pp_new s + news [(k, t)]\<rparr>"
proof -
  obtain c where c: "kind_mark k = [c]" "c \<in> set '' +-''" by (rule kind_mark_cases)
  have "patch_line s (kind_mark k @ t) =
      s\<lparr>pp_hunk := Some (h\<lparr>hu_lines := hu_lines h @ side_numbered (pp_old s) (pp_new s) [(k, t)]\<rparr>),
        pp_old := pp_old s + olds [(k, t)], pp_new := pp_new s + news [(k, t)]\<rparr>" (is "_ = ?s")
    using patch_line_body [OF assms c(2), of t] c(1) by (cases k) (auto simp: body_line_def olds_def news_def)
  moreover have "patch_line ?s (CHR 0x5C # r) = ?s" for r by (rule patch_line_remark [of _ f]) (simp add: assms)
  ultimately show ?thesis by (simp add: body_lines_def)
qed

lemma patch_hunk_body:
  "pp_file s = Some f \<Longrightarrow> pp_hunk s = Some h \<Longrightarrow> foldl patch_line s (concat (map body_lines ls)) =
    s\<lparr>pp_hunk := Some (h\<lparr>hu_lines := hu_lines h @ side_numbered (pp_old s) (pp_new s) (map (\<lambda>(k, t, _). (k, t)) ls)\<rparr>),
      pp_old := pp_old s + olds (map (\<lambda>(k, t, _). (k, t)) ls), pp_new := pp_new s + news (map (\<lambda>(k, t, _). (k, t)) ls)\<rparr>"
proof (induction ls arbitrary: s h)
  case Nil
  then show ?case by (cases s, cases h) (simp add: olds_def news_def)
next
  case (Cons l ls)
  obtain k t bare where l: "l = (k, t, bare)" by (cases l)
  let ?s = "foldl patch_line s (body_lines (k, t, bare))"
  have s: "?s = s\<lparr>pp_hunk := Some (h\<lparr>hu_lines := hu_lines h @ side_numbered (pp_old s) (pp_new s) [(k, t)]\<rparr>),
      pp_old := pp_old s + olds [(k, t)], pp_new := pp_new s + news [(k, t)]\<rparr>"
    by (rule patch_body_lines [OF Cons.prems])
  let ?ls = "map (\<lambda>(k, t, _). (k, t)) ls"
  have "side_numbered (pp_old s) (pp_new s) ((k, t) # ?ls) =
      side_numbered (pp_old s) (pp_new s) [(k, t)] @ side_numbered (pp_old s + olds [(k, t)]) (pp_new s + news [(k, t)]) ?ls"
    using numbered_append [of "pp_old s" "pp_new s" "[(k, t)]" ?ls] by simp
  moreover have "olds ((k, t) # ?ls) = olds [(k, t)] + olds ?ls" "news ((k, t) # ?ls) = news [(k, t)] + news ?ls"
    by (simp_all add: olds_def news_def)
  moreover have "foldl patch_line s (concat (map body_lines (l # ls))) = foldl patch_line ?s (concat (map body_lines ls))" by (simp add: l)
  moreover have "pp_file ?s = Some f" "pp_hunk ?s = Some (h\<lparr>hu_lines := hu_lines h @ side_numbered (pp_old s) (pp_new s) [(k, t)]\<rparr>)"
    by (simp_all add: s Cons.prems)
  note Cons.IH [OF this]
  ultimately show ?case by (simp add: s l add.assoc)
qed

text \<open>The open file, with its open hunk.\<close>

definition held_file :: "patch_state \<Rightarrow> diff_file option" where
  "held_file s = pp_file (close_hunk s)"

lemma held_file_open: "held_file s = Some f \<Longrightarrow> \<exists>g. pp_file s = Some g"
  by (auto simp: held_file_def close_hunk_def split: option.splits)

lemma close_file_held: "held_file s = Some f \<Longrightarrow> pp_files (close_file s) = pp_files s @ [foldl count_line f (concat (map hu_lines (df_hunks f)))]"
  by (simp add: close_file_def held_file_def)

lemma patch_hunk:
  assumes "held_file s = Some f" "git_hunk_ok h"
  shows "held_file (foldl patch_line s (hunk_lines h)) = Some (f\<lparr>df_hunks := df_hunks f @ [shown_hunk h]\<rparr>) \<and>
    pp_files (foldl patch_line s (hunk_lines h)) = pp_files s"
proof -
  let ?i = "max (of_nat (fst (gh_old h))) 1 :: 32 word" and ?j = "max (of_nat (fst (gh_new h))) 1 :: 32 word"
  let ?line = "''@@ -'' @ git_range (gh_old h) @ '' +'' @ git_range (gh_new h) @ '' @@'' @ (if gh_scope h = [] then [] else CHR '' '' # gh_scope h)"
  have "hunk_header ?line = Some (?i, ?j, utf8_trim (gh_scope h))"
    using hunk_header_range [of "gh_old h" "gh_new h"] assms(2) by (simp add: git_hunk_ok_def utf8_trim_space)
  moreover from held_file_open [OF assms(1)] obtain g where "pp_file s = Some g" ..
  ultimately have head: "patch_line s ?line = (close_hunk s)\<lparr>pp_hunk := Some \<lparr>hu_old_start = ?i, hu_new_start = ?j,
      hu_scope = utf8_trim (gh_scope h), hu_lines = []\<rparr>, pp_old := ?i, pp_new := ?j\<rparr>" (is "_ = ?s")
    using patch_line_hunk [of s g "''-'' @ git_range (gh_old h) @ '' +'' @ git_range (gh_new h) @ '' @@'' @
      (if gh_scope h = [] then [] else CHR '' '' # gh_scope h)"] by (simp add: open_hunk_def)
  have "pp_file ?s = Some f" using assms(1) by (simp add: held_file_def)
  note body = patch_hunk_body [OF this, of _ "gh_lines h"]
  have "foldl patch_line s (hunk_lines h) = foldl patch_line ?s (concat (map body_lines (gh_lines h)))"
    unfolding hunk_lines_def foldl_Cons head ..
  with body show ?thesis
    by (simp add: held_file_def close_hunk_def [of "_\<lparr>pp_new := _\<rparr>"] shown_hunk_def Let_def assms(1) [unfolded held_file_def])
qed

lemma patch_hunks:
  "held_file s = Some f \<Longrightarrow> list_all git_hunk_ok hs \<Longrightarrow>
    held_file (foldl patch_line s (concat (map hunk_lines hs))) = Some (f\<lparr>df_hunks := df_hunks f @ map shown_hunk hs\<rparr>) \<and>
    pp_files (foldl patch_line s (concat (map hunk_lines hs))) = pp_files s"
proof (induction hs arbitrary: s f)
  case (Cons h hs)
  then show ?case using patch_hunk [of s f h] by simp
qed simp

subsection \<open>Headers\<close>

lemma starts_with_iff: "starts_with p l \<longleftrightarrow> (\<exists>r. l = p @ r)"
  by (auto simp: starts_with_def) (metis append_take_drop_id)

definition meta_line :: "string \<Rightarrow> bool" where
  "meta_line l \<longleftrightarrow> \<not> starts_with ''diff --git '' l \<and> \<not> starts_with [CHR 0x5C] l \<and> \<not> starts_with ''@@ '' l"

lemma patch_line_meta:
  "meta_line l \<Longrightarrow> pp_file s = Some f \<Longrightarrow> pp_hunk s = None \<Longrightarrow> patch_line s l = s\<lparr>pp_file := Some (file_line l f)\<rparr>"
  by (simp add: patch_line_def meta_line_def strip_prefix_def)

lemma patch_metas:
  "list_all meta_line ls \<Longrightarrow> pp_file s = Some f \<Longrightarrow> pp_hunk s = None \<Longrightarrow>
    foldl patch_line s ls = s\<lparr>pp_file := Some (foldl (\<lambda>f l. file_line l f) f ls)\<rparr>"
proof (induction ls arbitrary: s f)
  case (Cons l ls)
  with patch_line_meta [of l s f] show ?case by simp
qed (cases s, simp)

lemma extra_lines_meta: "meta_line (''index '' @ r)" "meta_line (''old mode '' @ r)" "meta_line (''new mode '' @ r)"
    "meta_line (''similarity index '' @ r)" "meta_line (''dissimilarity index '' @ r)"
  by (simp_all add: meta_line_def)

lemma extra_lines_skipped: "file_line (''index '' @ r) f = f" "file_line (''old mode '' @ r) f = f" "file_line (''new mode '' @ r) f = f"
    "file_line (''similarity index '' @ r) f = f" "file_line (''dissimilarity index '' @ r) f = f"
  by (simp_all add: file_line_def strip_prefix_def)

lemma extra_line_ignored: "extra_line l \<Longrightarrow> meta_line l \<and> file_line l f = f"
  unfolding extra_line_def starts_with_iff using extra_lines_meta extra_lines_skipped by blast

lemma extra_lines_ignored: "list_all extra_line ls \<Longrightarrow> list_all meta_line ls \<and> foldl (\<lambda>f l. file_line l f) f ls = f"
  by (induction ls) (auto simp: extra_line_ignored)

lemma unquote_plain: "hd p \<noteq> quote \<Longrightarrow> unquote p = p"
  by (cases p) (auto simp: unquote_def)

lemma path_plain_unquote: "path_plain p \<Longrightarrow> unquote p = p"
  by (rule unquote_plain) (cases p; auto simp: path_plain_def)

lemma halves_same: assumes "valid_up_to p = length p" shows "halves (''a/'' @ p @ '' b/'' @ p) = Some (p, p)"
proof -
  let ?cs = "utf8_chars p"
  have "utf8_chars (''a/'' @ p @ '' b/'' @ p) = ([''a'', ''/''] @ ?cs) @ '' '' # [''b'', ''/''] @ ?cs"
    using utf8_chars_append [OF assms] by (simp add: utf8_chars_ascii)
  moreover have "concat ?cs = p" using utf8_chars_valid [of p] assms by simp
  moreover have "Suc (n + n) mod 2 = Suc 0" for n by arith
  ultimately show ?thesis by (simp add: halves_def strip_prefix_def)
qed

lemma open_file_same: "path_plain p \<Longrightarrow> open_file (''a/'' @ p @ '' b/'' @ p) = new_file p SModified"
  using halves_same [of p] by (simp add: open_file_def header_paths_def path_plain_def)

lemma open_file_as: "(open_file rest)\<lparr>df_old_path := a, df_path := b, df_status := st\<rparr> = (new_file b st)\<lparr>df_old_path := a\<rparr>"
  by (simp add: open_file_def new_file_def Let_def split: prod.split option.split)

text \<open>The file once its header is read.\<close>

definition headed :: "git_file \<Rightarrow> diff_file" where
  "headed f = (new_file (gf_new f) (gf_status f))\<lparr>df_old_path := (if gf_status f = SRenamed then Some (gf_old f) else None)\<rparr>"

lemma status_lines_meta: "list_all meta_line (status_lines f)"
  by (simp add: status_lines_def meta_line_def split: diff_status.split)

lemma file_line_rename: "file_line (''rename from '' @ p) f = f\<lparr>df_old_path := Some (unquote p), df_status := SRenamed\<rparr>"
  "file_line (''rename to '' @ p) f = f\<lparr>df_path := unquote p, df_status := SRenamed\<rparr>"
  by (simp_all add: file_line_def strip_prefix_def)

lemma file_line_mode: "file_line (''new file mode '' @ p) f = f\<lparr>df_status := SAdded\<rparr>"
  "file_line (''deleted file mode '' @ p) f = f\<lparr>df_status := SDeleted\<rparr>"
  by (simp_all add: file_line_def)

lemma status_lines_headed:
  assumes "git_file_ok f"
  shows "foldl (\<lambda>f l. file_line l f) (open_file (''a/'' @ gf_old f @ '' b/'' @ gf_new f)) (status_lines f) = headed f"
proof (cases "gf_status f = SRenamed")
  case True
  with assms show ?thesis
    using open_file_as [where rest = "''a/'' @ gf_old f @ '' b/'' @ gf_new f" and a = "Some (gf_old f)" and b = "gf_new f" and st = SRenamed]
    by (simp add: status_lines_def file_line_rename headed_def git_file_ok_def path_plain_unquote del: append.simps)
next
  case False
  with assms have "open_file (''a/'' @ gf_old f @ '' b/'' @ gf_new f) = new_file (gf_new f) SModified"
    using open_file_same [of "gf_new f"] by (simp add: git_file_ok_def)
  with False show ?thesis
    by (cases "gf_status f") (simp_all add: status_lines_def file_line_mode headed_def new_file_def del: append.simps)
qed

subsection \<open>Contents\<close>

lemma side_meta: "meta_line (''--- '' @ r)" "meta_line (''+++ '' @ r)" "meta_line (''Binary files '' @ r)"
  by (simp_all add: meta_line_def)

lemma file_line_sides:
  "file_line (''+++ '' @ r) f = (case diff_side r ''b/'' of Some p \<Rightarrow> f\<lparr>df_path := p\<rparr> | None \<Rightarrow> f)"
  "file_line (''--- '' @ r) f =
     (case diff_side r ''a/'' of Some p \<Rightarrow> if df_old_path f = None \<and> p \<noteq> df_path f then f\<lparr>df_old_path := Some p\<rparr> else f | None \<Rightarrow> f)"
  "file_line (''Binary files '' @ r) f = f\<lparr>df_binary := True\<rparr>"
  by (simp_all add: file_line_def strip_prefix_def)

lemma side_label_path: "CHR '' '' \<notin> set p \<Longrightarrow> c \<noteq> quote \<Longrightarrow> c \<noteq> CHR ''/'' \<Longrightarrow> diff_side (side_label c p) [c, CHR ''/''] = Some p"
  by (simp add: side_label_def diff_side_def unquote_plain stripped_def strip_prefix_def)

lemma sides_read:
  assumes "git_file_ok f" "gf_hunks f \<noteq> []"
  shows "foldl (\<lambda>f l. file_line l f) (headed f) [''--- '' @ old_label f, ''+++ '' @ new_label f] = headed f"
proof -
  have "diff_side (old_label f) ''a/'' = (if gf_status f = SAdded then None else Some (gf_old f))"
    using assms side_label_path [of "gf_old f" "CHR ''a''"] by (simp add: git_file_ok_def old_label_def diff_side_def [of "''/dev/null''"])
  then have old: "file_line (''--- '' @ old_label f) (headed f) = headed f"
    unfolding file_line_sides using assms(1) by (auto simp: headed_def new_file_def git_file_ok_def)
  have "diff_side (new_label f) ''b/'' = (if gf_status f = SDeleted then None else Some (gf_new f))"
    using assms side_label_path [of "gf_new f" "CHR ''b''"] by (simp add: git_file_ok_def new_label_def diff_side_def [of "''/dev/null''"])
  then have "file_line (''+++ '' @ new_label f) (headed f) = headed f"
    unfolding file_line_sides by (simp add: headed_def new_file_def)
  with old show ?thesis by simp
qed

lemma content_read:
  assumes "git_file_ok f" "pp_file s = Some (headed f)" "pp_hunk s = None"
  shows "held_file (foldl patch_line s (content_lines f)) = Some ((headed f)\<lparr>df_binary := gf_binary f, df_hunks := map shown_hunk (gf_hunks f)\<rparr>) \<and>
    pp_files (foldl patch_line s (content_lines f)) = pp_files s"
proof -
  have empty: "df_hunks (headed f) = []" "df_binary (headed f) = False" by (simp_all add: headed_def new_file_def)
  have held_file: "held_file t = pp_file t" if "pp_hunk t = None" for t using that by (cases "pp_file t") (simp_all add: held_file_def close_hunk_def)
  consider (binary) "gf_binary f" | (none) "\<not> gf_binary f" "gf_hunks f = []" | (hunks) "\<not> gf_binary f" "gf_hunks f \<noteq> []" by blast
  then show ?thesis
  proof cases
    case binary
    then have "gf_hunks f = []" using assms(1) by (auto simp: git_file_ok_def)
    with binary patch_line_meta [OF side_meta(3) assms(2,3)] show ?thesis
      by (simp add: content_lines_def file_line_sides held_file assms(3) empty del: append.simps)
  next
    case none
    with assms empty show ?thesis by (simp add: content_lines_def held_file)
  next
    case hunks
    have "list_all meta_line [''--- '' @ old_label f, ''+++ '' @ new_label f]" by (simp only: list.pred_inject side_meta simp_thms)
    from patch_metas [OF this assms(2,3)] sides_read [OF assms(1) hunks(2)]
    have sides: "foldl patch_line s [''--- '' @ old_label f, ''+++ '' @ new_label f] = s" using assms(2) by (cases s) simp
    have "held_file s = Some (headed f)" using assms by (simp add: held_file)
    from patch_hunks [OF this, of "gf_hunks f"] assms(1) hunks show ?thesis
      unfolding content_lines_def foldl_append if_not_P [OF hunks(1)] if_not_P [OF hunks(2)] sides
      by (simp add: git_file_ok_def empty)
  qed
qed

lemma shown_count: "length (filter (\<lambda>l. dl_kind l = k) (hu_lines (shown_hunk h))) = length (filter (\<lambda>l. fst l = k) (gh_lines h))"
proof -
  have "length (filter (\<lambda>l. fst l = k) (map (\<lambda>(k, t, _). (k, t)) ls)) = length (filter (\<lambda>l. fst l = k) ls)" for ls :: "(line_kind \<times> string \<times> bool) list"
    by (induction ls) auto
  then show ?thesis by (simp add: shown_hunk_def Let_def numbered_counts)
qed

lemma shown_counts: "length (filter (\<lambda>l. dl_kind l = k) (concat (map (hu_lines \<circ> shown_hunk) hs))) =
    length (filter (\<lambda>l. fst l = k) (concat (map gh_lines hs)))"
  by (induction hs) (simp_all add: shown_count)

lemma file_read:
  assumes "git_file_ok f"
  shows "pp_files (close_file (foldl patch_line s (file_lines f))) = pp_files (close_file s) @ [shown_file f]"
proof -
  let ?rest = "''a/'' @ gf_old f @ '' b/'' @ gf_new f"
  let ?s = "(close_file s)\<lparr>pp_file := Some (open_file ?rest)\<rparr>"
  let ?head = "gf_extra f @ status_lines f @ gf_index f"
  have "patch_line s (''diff --git '' @ ?rest) = ?s" by (simp only: patch_line_def strip_prefix_append option.case)
  moreover have "list_all meta_line ?head" using assms by (simp add: git_file_ok_def extra_lines_ignored status_lines_meta)
  then have "foldl patch_line ?s ?head = ?s\<lparr>pp_file := Some (foldl (\<lambda>f l. file_line l f) (open_file ?rest) ?head)\<rparr>"
    by (rule patch_metas) simp_all
  moreover have "foldl (\<lambda>f l. file_line l f) (open_file ?rest) ?head = headed f"
    using assms status_lines_headed [OF assms] by (simp add: git_file_ok_def extra_lines_ignored)
  ultimately have "foldl patch_line s (file_lines f) = foldl patch_line (?s\<lparr>pp_file := Some (headed f)\<rparr>) (content_lines f)"
    by (simp add: file_lines_def)
  with content_read [OF assms, of "?s\<lparr>pp_file := Some (headed f)\<rparr>"] show ?thesis
    using shown_counts [of _ "gf_hunks f"] by (simp add: close_file_held foldl_count headed_def new_file_def shown_file_def Let_def)
qed

subsection \<open>The round trip\<close>

lemma file_lines_one_line:
  assumes "git_file_ok f" shows "\<forall>l \<in> set (file_lines f). one_line l"
proof -
  have "32 \<le> code c" if "path_plain p" "c \<in> set p" for p c using that unfolding path_plain_def list_all_iff by blast
  from this [of _ newline] have path: "newline \<notin> set p" if "path_plain p" for p using that by auto
  have label: "newline \<notin> set (side_label c p)" if "path_plain p" "c \<noteq> newline" for c p using path [OF that(1)] that(2) by (simp add: side_label_def)
  have labels: "newline \<notin> set (old_label f)" "newline \<notin> set (new_label f)"
    using assms by (auto simp: git_file_ok_def old_label_def new_label_def label)
  have mark: "newline \<notin> set (kind_mark k)" for k by (cases k) auto
  have "one_line l" if "h \<in> set (gf_hunks f)" "l \<in> set (hunk_lines h)" for h l
  proof -
    have "git_hunk_ok h" using assms that(1) by (auto simp: git_file_ok_def list_all_iff)
    moreover from this have "one_line m" if "(k, u, bare) \<in> set (gh_lines h)" "m \<in> set (body_lines (k, u, bare))" for k u bare m
      using that mark [of k] by (cases bare) (auto simp: git_hunk_ok_def one_line_def body_lines_def list_all_iff)
    ultimately show ?thesis using that(2) by (auto simp: hunk_lines_def git_hunk_ok_def one_line_def split: if_splits)
  qed
  moreover have "one_line l" if "l \<in> set (status_lines f)" for l
    using that assms path by (auto simp: status_lines_def git_file_ok_def one_line_def split: diff_status.splits)
  moreover have "one_line l" if "l \<in> set (gf_extra f @ gf_index f)" for l using that assms by (auto simp: git_file_ok_def list_all_iff extra_line_def)
  ultimately show ?thesis using assms path labels
    by (auto simp: file_lines_def content_lines_def git_file_ok_def one_line_def)
qed

lemma files_read:
  "list_all git_file_ok fs \<Longrightarrow>
    pp_files (close_file (foldl patch_line s (concat (map file_lines fs)))) = pp_files (close_file s) @ map shown_file fs"
  by (induction fs arbitrary: s) (simp_all add: file_read)

lemma close_file_blank: "pp_files (close_file (patch_line s [])) = pp_files (close_file s)"
  by (cases s) (simp add: patch_line_def strip_prefix_def is_body_def file_line_def split: option.split)


definition demo_patch :: "git_file list" where
  "demo_patch =
     [\<lparr>gf_status = SModified, gf_old = ''src/pane.rs'', gf_new = ''src/pane.rs'', gf_mode = [], gf_extra = [],
       gf_index = [''index 11..22 100644''], gf_binary = False,
       gf_hunks = [\<lparr>gh_old = (18, 2), gh_new = (18, 2), gh_scope = ''enum P {'',
         gh_lines = [(KContext, ''Md,'', False), (KRemoved, ''-- a/x'', False), (KAdded, ''diff --git a/x b/x'', True)]\<rparr>]\<rparr>,
      \<lparr>gf_status = SRenamed, gf_old = ''old.txt'', gf_new = ''a new.txt'', gf_mode = [], gf_extra = [''similarity index 90%''],
       gf_index = [], gf_binary = False, gf_hunks = []\<rparr>]"

lemma demo_patch_ok: "list_all git_file_ok demo_patch"
  by (simp add: demo_patch_def git_file_ok_def git_hunk_ok_def path_plain_def extra_line_def one_line_def valid_up_to.simps)


text \<open>A name with a space keeps the tab git puts behind it, so it is not the name of any file.\<close>

lemma spaced_side_keeps_tab: "diff_side (side_label (CHR ''b'') ''new file.md'') ''b/'' = Some (''new file.md'' @ [CHR 0x09])"
  by (simp add: side_label_def diff_side_def unquote_plain stripped_def strip_prefix_def)

end
