(* ===== verification/Diff_Load.thy ===== *)
theory Diff_Load
  imports Diff_Patch "HOL-Library.List_Lexorder" "HOL-Library.Char_ord"
begin

text \<open>
  Loading a diff (\<open>kanna-diff/src/lib.rs\<close>): git is run for the counts, for the patch without what is folded, and for the
  files it does not track, and the answers are put together. The process that runs git and the reads of files are
  arguments; both are asked about one moment, so the same question has the same answer within a load.
\<close>

definition PINNED :: "string list" where
  "PINNED = [''-c'', ''core.quotepath=false'', ''-c'', ''diff.noprefix=false'', ''-c'', ''diff.mnemonicPrefix=false'', ''-c'', ''core.fsmonitor=false'']"

definition FORMAT :: "string list" where
  "FORMAT = [''--no-color'', ''--no-ext-diff'', ''--no-textconv'', ''--src-prefix=a/'', ''--dst-prefix=b/'']"

record diff =
  di_folder :: string
  di_args :: "string list"
  di_top :: string
  di_git_dir :: string
  di_common_dir :: string
  di_files :: "diff_file list"
  di_error :: "string option"

definition diff_command :: "diff \<Rightarrow> string" where
  "diff_command d = join '' '' (''git diff'' # di_args d)"

definition diff_json :: "diff \<Rightarrow> json" where
  "diff_json d =
     (let added = sum_list (map df_added (di_files d)); removed = sum_list (map df_removed (di_files d))
      in JObject [(''folder'', JString (di_folder d)), (''args'', JArray (map JString (di_args d))), (''command'', JString (diff_command d)),
           (''top'', JString (di_top d)), (''files'', JArray (map file_json (di_files d))), (''added'', u32_json added),
           (''removed'', u32_json removed), (''error'', opt_json (di_error d))])"

subsection \<open>Running git\<close>

text \<open>How a process ended: it could not be started or waited for, or it gave a status (and its text), output and errors.\<close>

datatype run_result = Not_spawned string | Not_waited string | Finished bool string string string

type_synonym runner = "string list \<Rightarrow> string \<Rightarrow> string option \<Rightarrow> run_result"

definition git :: "runner \<Rightarrow> string list \<Rightarrow> string \<Rightarrow> string option \<Rightarrow> string + string" where
  "git run args folder input =
     (case run (PINNED @ args) folder input of
        Not_spawned e \<Rightarrow> Inl (''can't run git in '' @ folder @ '': '' @ e)
      | Not_waited e \<Rightarrow> Inl (''git failed: '' @ e)
      | Finished success status out err \<Rightarrow>
          (if \<not> success
           then (let message = utf8_trim (lossy err) in Inl (if message = [] then ''git exited with '' @ status else message))
           else Inr out))"

definition git_text :: "runner \<Rightarrow> string list \<Rightarrow> string \<Rightarrow> string + string" where
  "git_text run args folder = map_sum (\<lambda>e. e) lossy (git run args folder None)"

definition diff_options :: "string list \<Rightarrow> string list" where
  "diff_options args = (case position (\<lambda>a. a = ''--'') args of Some i \<Rightarrow> take i args | None \<Rightarrow> args)"

definition pathspecs :: "string list \<Rightarrow> string list" where
  "pathspecs args = (case position (\<lambda>a. a = ''--'') args of Some i \<Rightarrow> drop (i + 1) args | None \<Rightarrow> [])"

definition shows_worktree :: "runner \<Rightarrow> string list \<Rightarrow> string \<Rightarrow> bool" where
  "shows_worktree run args folder =
     (let opts = diff_options args
      in if \<exists>a \<in> set opts. a = ''--staged'' \<or> a = ''--cached'' \<or> a = ''--no-index'' then False
         else (case git_text run ([''rev-parse'', ''--revs-only'', ''--no-flags''] @ opts) folder of
                 Inr out \<Rightarrow> length (filter (\<lambda>l. l \<noteq> []) (lines_str out)) \<le> 1
               | Inl _ \<Rightarrow> True))"

definition git_diff_args :: "string list \<Rightarrow> string list \<Rightarrow> string list" where
  "git_diff_args extra args = ''diff'' # FORMAT @ extra @ args"

definition status_of :: "runner \<Rightarrow> string \<Rightarrow> string list \<Rightarrow> string \<Rightarrow> diff_status" where
  "status_of run path args folder =
     (case git_text run (git_diff_args [''--name-status'', ''-z''] (diff_options args) @ [''--'', '':(top,literal)'' @ path]) folder of
        Inr (c # _) \<Rightarrow> (if c = CHR ''A'' then SAdded else if c = CHR ''D'' then SDeleted else if c = CHR ''R'' then SRenamed else SModified)
      | _ \<Rightarrow> SModified)"

fun chunks3 :: "'a list \<Rightarrow> 'a list list" where
  "chunks3 [] = []"
| "chunks3 [a] = [[a]]"
| "chunks3 [a, b] = [[a, b]]"
| "chunks3 (a # b # c # r) = [a, b, c] # chunks3 r"

definition zero_list :: "string list \<Rightarrow> string" where
  "zero_list paths = join [CHR 0x00] paths @ [CHR 0x00]"

definition generated_paths :: "runner \<Rightarrow> string list \<Rightarrow> string \<Rightarrow> string + string list" where
  "generated_paths run paths dir =
     (if paths = [] then Inr []
      else (case git run [''check-attr'', ''-z'', ''--stdin'', ''linguist-generated''] dir (Some (zero_list paths)) of
              Inl e \<Rightarrow> Inl e
            | Inr out \<Rightarrow>
                Inr (map (\<lambda>c. c ! 0) (filter (\<lambda>c. length c = 3 \<and> (c ! 2 = ''true'' \<or> c ! 2 = ''set''))
                  (chunks3 (split_on (\<lambda>c. c = CHR 0x00) (lossy out)))))))"

definition ignored_paths :: "runner \<Rightarrow> string list \<Rightarrow> string \<Rightarrow> string list" where
  "ignored_paths run paths dir =
     (if paths = [] then []
      else (case git run [''check-ignore'', ''-z'', ''--stdin''] dir (Some (zero_list paths)) of
              Inr out \<Rightarrow> filter (\<lambda>p. p \<noteq> []) (split_on (\<lambda>c. c = CHR 0x00) (lossy out))
            | Inl _ \<Rightarrow> []))"

subsection \<open>Putting it together\<close>

text \<open>The map of folds, by path; of several rows for a path the last that folds counts.\<close>

definition folds_of :: "string list \<Rightarrow> string list \<Rightarrow> numstat_row list \<Rightarrow> (string \<rightharpoonup> diff_fold)" where
  "folds_of shown gen stats =
     foldl (\<lambda>m r. if ns_binary r \<or> ns_path r \<in> set shown then m
                  else (case fold_of (ns_path r) (ns_added r) (ns_removed r) (ns_path r \<in> set gen) of
                          Some fd \<Rightarrow> m(ns_path r \<mapsto> fd) | None \<Rightarrow> m)) Map.empty stats"

definition patch_args :: "string list \<Rightarrow> string list \<Rightarrow> (string \<rightharpoonup> diff_fold) \<Rightarrow> string list" where
  "patch_args args paths folds =
     (let keys = sort (remdups (filter (\<lambda>p. folds p \<noteq> None) paths))
      in if keys = [] then args
         else (let args = (if ''--'' \<in> set args then args else args @ [''--'']);
                   args = (if pathspecs args = [] then args @ ['':(top)''] else args)
               in args @ map (\<lambda>p. '':(top,exclude,literal)'' @ p) keys))"

definition stat_file :: "runner \<Rightarrow> string list \<Rightarrow> string \<Rightarrow> (string \<rightharpoonup> diff_fold) \<Rightarrow> diff_file option \<Rightarrow> numstat_row \<Rightarrow> diff_file" where
  "stat_file run args folder folds parsed r =
     (let f = (case parsed of
                 Some f \<Rightarrow> f
               | None \<Rightarrow>
                   (let f = new_file (ns_path r) SModified
                    in case folds (ns_path r) of
                         Some fd \<Rightarrow> f\<lparr>df_fold := Some fd, df_status := status_of run (ns_path r) args folder\<rparr>
                       | None \<Rightarrow> f));
          f = f\<lparr>df_added := ns_added r, df_removed := ns_removed r, df_binary := (df_binary f \<or> ns_binary r)\<rparr>;
          f = (if df_old_path f = None then f\<lparr>df_old_path := ns_old_path r\<rparr> else f)
      in if df_old_path f \<noteq> None \<and> df_status f = SModified then f\<lparr>df_status := SRenamed\<rparr> else f)"

text \<open>Each row takes its file out of those parsed.\<close>

fun stat_files :: "runner \<Rightarrow> string list \<Rightarrow> string \<Rightarrow> (string \<rightharpoonup> diff_fold) \<Rightarrow> (string \<rightharpoonup> diff_file) \<Rightarrow> numstat_row list \<Rightarrow> diff_file list" where
  "stat_files run args folder folds by_path [] = []"
| "stat_files run args folder folds by_path (r # rs) =
     stat_file run args folder folds (by_path (ns_path r)) r # stat_files run args folder folds (by_path(ns_path r := None)) rs"

text \<open>\<open>Path::join\<close>.\<close>

definition path_join :: "string \<Rightarrow> string \<Rightarrow> string" where
  "path_join base p =
     (if starts_with ''/'' p then p else if base = [] \<or> last base = CHR ''/'' then base @ p else base @ ''/'' @ p)"

definition other_file :: "(string \<Rightarrow> string option) \<Rightarrow> string \<Rightarrow> string list \<Rightarrow> string \<Rightarrow> diff_file" where
  "other_file read dir shown path =
     (let f = untracked_file path (case read (path_join dir path) of Some data \<Rightarrow> data | None \<Rightarrow> [])
      in if path \<notin> set shown \<and> \<not> df_binary f
         then (case fold_of path (df_added f) 0 False of Some fd \<Rightarrow> f\<lparr>df_fold := Some fd, df_hunks := []\<rparr> | None \<Rightarrow> f)
         else f)"

definition nth_or_empty :: "string list \<Rightarrow> nat \<Rightarrow> string" where
  "nth_or_empty ls i = (if i < length ls then ls ! i else [])"

text \<open>\<open>fill\<close>: the diff so far, and the error it stops at.\<close>

definition fill :: "runner \<Rightarrow> (string \<Rightarrow> string option) \<Rightarrow> string list \<Rightarrow> diff \<Rightarrow> diff \<times> string option" where
  "fill run read shown d =
     (case git_text run [''rev-parse'', ''--path-format=absolute'', ''--show-toplevel'', ''--git-dir'', ''--git-common-dir''] (di_folder d) of
        Inl e \<Rightarrow> (d, Some e)
      | Inr out \<Rightarrow>
          (let dirs = lines_str out; folder = di_folder d; args = di_args d;
               d = d\<lparr>di_top := nth_or_empty dirs 0, di_git_dir := nth_or_empty dirs 1, di_common_dir := nth_or_empty dirs 2\<rparr>
           in case git_text run (git_diff_args [''--numstat'', ''-z''] args) folder of
                Inl e \<Rightarrow> (d, Some e)
              | Inr out \<Rightarrow>
                  (let stats = numstat out
                   in case generated_paths run (map ns_path stats) (di_top d) of
                        Inl e \<Rightarrow> (d, Some e)
                      | Inr gen \<Rightarrow>
                          (let folds = folds_of shown gen stats
                           in case git_text run (git_diff_args [] (patch_args args (map ns_path stats) folds)) folder of
                                Inl e \<Rightarrow> (d, Some e)
                              | Inr out \<Rightarrow>
                                  (let by_path = map_of (rev (map (\<lambda>f. (df_path f, f)) (parse_patch out)));
                                       d = d\<lparr>di_files := di_files d @ stat_files run args folder folds by_path stats\<rparr>
                                   in if shows_worktree run args folder
                                      then (case git_text run ([''ls-files'', ''--others'', ''--exclude-standard'', ''--full-name'', ''-z'', ''--''] @
                                                    pathspecs args) folder of
                                              Inl e \<Rightarrow> (d, Some e)
                                            | Inr out \<Rightarrow>
                                                (d\<lparr>di_files := di_files d @
                                                  map (other_file read (di_top d) shown) (filter (\<lambda>p. p \<noteq> []) (split_on (\<lambda>c. c = CHR 0x00) out))\<rparr>, None))
                                      else (d, None))))))"

definition load_diff :: "runner \<Rightarrow> (string \<Rightarrow> string option) \<Rightarrow> string \<Rightarrow> string list \<Rightarrow> string list \<Rightarrow> diff" where
  "load_diff run read folder args shown =
     (let d = \<lparr>di_folder = folder, di_args = args, di_top = [], di_git_dir = [], di_common_dir = [], di_files = [], di_error = None\<rparr>
      in case fill run read shown d of
           (d, Some e) \<Rightarrow> d\<lparr>di_error := Some e, di_files := []\<rparr>
         | (d, None) \<Rightarrow> d)"

subsection \<open>What a load shows\<close>

text \<open>A file shown for a row of the counts: its path and counts are the row's, and a folded file has no hunks.\<close>

definition row_shown :: "string list \<Rightarrow> (string \<rightharpoonup> diff_fold) \<Rightarrow> string set \<Rightarrow> diff_file \<Rightarrow> numstat_row \<Rightarrow> bool" where
  "row_shown shown folds patched f r \<longleftrightarrow>
     df_path f = ns_path r \<and> df_added f = ns_added r \<and> df_removed f = ns_removed r \<and> (ns_binary r \<longrightarrow> df_binary f) \<and> \<not> df_untracked f \<and>
     (ns_old_path r \<noteq> None \<longrightarrow> df_old_path f \<noteq> None \<and> df_status f \<noteq> SModified) \<and> list_all hunk_ok (df_hunks f) \<and>
     (df_fold f \<noteq> None \<longrightarrow> df_hunks f = [] \<and> df_path f \<notin> set shown \<and> df_fold f = folds (df_path f)) \<and>
     (df_path f \<notin> patched \<longrightarrow> df_fold f = folds (df_path f))"

definition parsed_ok :: "diff_file list \<Rightarrow> (string \<rightharpoonup> diff_file) \<Rightarrow> bool" where
  "parsed_ok fs m \<longleftrightarrow> (\<forall>p f. m p = Some f \<longrightarrow> f \<in> set fs \<and> df_path f = p)"

lemma folds_of_shown: "folds_of shown gen stats p \<noteq> None \<Longrightarrow> p \<notin> set shown"
  unfolding folds_of_def by (induction stats rule: rev_induct) (auto split: if_splits option.splits)

lemma stat_file_shown:
  assumes "parsed_ok fs m" "list_all file_ok fs" "\<And>p. folds p \<noteq> None \<Longrightarrow> p \<notin> set shown"
  shows "row_shown shown folds (df_path ` set fs) (stat_file run args folder folds (m (ns_path r)) r) r"
proof (cases "m (ns_path r)")
  case None
  with assms(3) [of "ns_path r"] show ?thesis by (auto simp: row_shown_def stat_file_def new_file_def Let_def split: option.split)
next
  case (Some f)
  with assms(1) have f: "f \<in> set fs" "df_path f = ns_path r" by (auto simp: parsed_ok_def)
  with assms(2) have "file_ok f" by (auto simp: list_all_iff)
  moreover have "ns_path r \<in> df_path ` set fs" using f by force
  ultimately show ?thesis using f by (auto simp: row_shown_def stat_file_def file_ok_def Let_def Some split: option.split)
qed

lemma stat_files_shown:
  "parsed_ok fs m \<Longrightarrow> list_all file_ok fs \<Longrightarrow> (\<And>p. folds p \<noteq> None \<Longrightarrow> p \<notin> set shown) \<Longrightarrow>
    list_all2 (row_shown shown folds (df_path ` set fs)) (stat_files run args folder folds m rs) rs"
proof (induction rs arbitrary: m)
  case (Cons r rs)
  have "parsed_ok fs (m(ns_path r := None))" using Cons.prems(1) by (simp add: parsed_ok_def)
  with Cons stat_file_shown [OF Cons.prems] show ?case by simp
qed simp

text \<open>A file git does not track: added as a whole, with one hunk of all its lines unless it is folded, binary or empty.\<close>

definition other_shown :: "string list \<Rightarrow> diff_file \<Rightarrow> string \<Rightarrow> bool" where
  "other_shown shown f p \<longleftrightarrow> df_path f = p \<and> df_untracked f \<and> df_status f = SAdded \<and> df_removed f = 0 \<and> list_all hunk_ok (df_hunks f) \<and>
     (df_fold f = None \<longrightarrow> df_added f = count_kind KAdded f) \<and> (df_fold f \<noteq> None \<longrightarrow> df_hunks f = [] \<and> p \<notin> set shown)"

lemma numbered_added: "map (\<lambda>(i, l). \<lparr>dl_kind = KAdded, dl_text = l, dl_old = None, dl_new = Some (of_nat i + 1)\<rparr>) (enumerate k ls) =
    side_numbered j (of_nat k + 1) (map (Pair KAdded) ls)"
proof (induction ls arbitrary: k)
  case (Cons l ls)
  from Cons [of "Suc k"] show ?case by (simp add: add.commute)
qed simp

lemma untracked_ok:
  "other_shown shown (untracked_file p data) p \<and> df_fold (untracked_file p data) = None"
  by (auto simp: other_shown_def untracked_file_def Let_def new_file_def hunk_ok_def count_kind_def numbered_added [where j = 0]
      numbered_counts filter_map comp_def)

lemma other_file_shown: "other_shown shown (other_file read dir shown p) p"
proof -
  let ?f = "untracked_file p (case read (path_join dir p) of Some data \<Rightarrow> data | None \<Rightarrow> [])"
  have "other_shown shown ?f p" "df_fold ?f = None" using untracked_ok by auto
  then show ?thesis by (auto simp: other_file_def other_shown_def Let_def split: option.split)
qed

lemma parsed_ok_map_of: "parsed_ok fs (map_of (rev (map (\<lambda>f. (df_path f, f)) fs)))"
  by (auto simp: parsed_ok_def dest!: map_of_SomeD)

text \<open>The paths git lists as not tracked, when the diff is against the working tree.\<close>

definition listed_others :: "runner \<Rightarrow> string list \<Rightarrow> string \<Rightarrow> string list option" where
  "listed_others run args folder =
     (if shows_worktree run args folder
      then (case git_text run ([''ls-files'', ''--others'', ''--exclude-standard'', ''--full-name'', ''-z'', ''--''] @ pathspecs args) folder of
              Inr out \<Rightarrow> Some (filter (\<lambda>p. p \<noteq> []) (split_on (\<lambda>c. c = CHR 0x00) out))
            | Inl _ \<Rightarrow> None)
      else Some [])"

lemma fill_files:
  assumes "fill run read shown d = (d', None)"
  shows "\<exists>out gen patch listed. git_text run (git_diff_args [''--numstat'', ''-z''] (di_args d)) (di_folder d) = Inr out \<and>
    generated_paths run (map ns_path (numstat out)) (di_top d') = Inr gen \<and>
    git_text run (git_diff_args [] (patch_args (di_args d) (map ns_path (numstat out)) (folds_of shown gen (numstat out)))) (di_folder d) = Inr patch \<and>
    listed_others run (di_args d) (di_folder d) = Some listed \<and>
    di_files d' = di_files d @ stat_files run (di_args d) (di_folder d) (folds_of shown gen (numstat out))
      (map_of (rev (map (\<lambda>f. (df_path f, f)) (parse_patch patch)))) (numstat out) @ map (other_file read (di_top d') shown) listed \<and>
    di_error d' = di_error d"
  using assms by (auto simp: fill_def Let_def listed_others_def split: sum.splits if_splits)

text \<open>
  Whatever git answers, a load that reports no error shows, in git's order, one file for every row of the
  counts, with the row's path and counts, and then one for every file that is not tracked. No file the reader asked to
  see is folded; a folded file shows no hunk; a file the patch left out is folded just when it should be; and the lines
  shown are side_numbered right. A load that fails shows no files.
\<close>

lemma load_shows:
  assumes "load_diff run read folder args shown = d"
  shows "if di_error d = None
    then \<exists>out gen patch listed tracked others. di_files d = tracked @ others \<and>
      git_text run (git_diff_args [''--numstat'', ''-z''] args) folder = Inr out \<and>
      generated_paths run (map ns_path (numstat out)) (di_top d) = Inr gen \<and>
      git_text run (git_diff_args [] (patch_args args (map ns_path (numstat out)) (folds_of shown gen (numstat out)))) folder = Inr patch \<and>
      listed_others run args folder = Some listed \<and>
      list_all2 (row_shown shown (folds_of shown gen (numstat out)) (df_path ` set (parse_patch patch))) tracked (numstat out) \<and>
      list_all2 (other_shown shown) others listed
    else di_files d = []"
proof -
  let ?d = "\<lparr>di_folder = folder, di_args = args, di_top = [], di_git_dir = [], di_common_dir = [], di_files = [], di_error = None\<rparr>"
  obtain d' e where fill: "fill run read shown ?d = (d', e)" by fastforce
  show ?thesis
  proof (cases e)
    case (Some x)
    with assms fill have "di_files d = []" "di_error d \<noteq> None" by (auto simp: load_diff_def)
    then show ?thesis by auto
  next
    case None
    with assms fill have d: "d = d'" by (simp add: load_diff_def)
    have rows: "list_all2 (row_shown shown (folds_of shown gen stats) (df_path ` set (parse_patch patch)))
        (stat_files run args folder (folds_of shown gen stats) (map_of (rev (map (\<lambda>f. (df_path f, f)) (parse_patch patch)))) stats) stats" for gen stats patch
      by (rule stat_files_shown [OF parsed_ok_map_of parse_files_ok folds_of_shown])
    have others: "list_all2 (other_shown shown) (map (other_file read dir shown) ps) ps" for dir ps
      by (simp add: list_all2_conv_all_nth other_file_shown)
    let ?tracked = "\<lambda>out gen patch. stat_files run args folder (folds_of shown gen (numstat out))
      (map_of (rev (map (\<lambda>f. (df_path f, f)) (parse_patch patch)))) (numstat out)"
    from fill_files [OF fill [unfolded None]] obtain out gen patch listed where
      *: "git_text run (git_diff_args [''--numstat'', ''-z''] args) folder = Inr out" "generated_paths run (map ns_path (numstat out)) (di_top d) = Inr gen"
        "git_text run (git_diff_args [] (patch_args args (map ns_path (numstat out)) (folds_of shown gen (numstat out)))) folder = Inr patch"
        "listed_others run args folder = Some listed"
      and files: "di_files d = ?tracked out gen patch @ map (other_file read (di_top d) shown) listed" and ok: "di_error d = None"
      unfolding d by auto
    show ?thesis unfolding if_P [OF ok]
      by (intro exI conjI, rule files, (rule *)+, rule rows, rule others)
  qed
qed

text \<open>A repository with one changed lock file and nothing else.\<close>

definition demo_run :: runner where
  "demo_run args folder input =
     (if ''--numstat'' \<in> set args then Finished True [] (''3'' @ [CHR 0x09] @ ''1'' @ [CHR 0x09] @ ''go.sum'' @ [CHR 0x00]) []
      else if ''--name-status'' \<in> set args then Finished True [] (''M'' @ [CHR 0x00] @ ''go.sum'' @ [CHR 0x00]) []
      else if ''--show-toplevel'' \<in> set args then Finished True [] ''/repo'' []
      else Finished True [] [] [])"

definition demo_load :: diff where
  "demo_load = load_diff demo_run (\<lambda>_. None) ''/repo'' [] []"

lemma demo_load_no_error: "di_error demo_load = None"
  by (simp add: demo_load_def load_diff_def fill_def git_text_def git_def demo_run_def git_diff_args_def PINNED_def FORMAT_def generated_paths_def
      shows_worktree_def diff_options_def pathspecs_def patch_args_def Let_def split: if_splits)

lemma load_shows_witness:
  "di_error demo_load = None \<and> (\<exists>out tracked others listed. di_files demo_load = tracked @ others \<and>
    git_text demo_run (git_diff_args [''--numstat'', ''-z''] []) ''/repo'' = Inr out \<and> listed_others demo_run [] ''/repo'' = Some listed \<and>
    map df_path tracked = map ns_path (numstat out) \<and> map df_path others = listed)"
proof -
  have "map df_path fs = map ns_path rs" if "list_all2 (row_shown a b c) fs rs" for a b c fs rs
    using that by (induction rule: list_all2_induct) (simp_all add: row_shown_def)
  moreover have "map df_path fs = ps" if "list_all2 (other_shown a) fs ps" for a fs ps
    using that by (induction rule: list_all2_induct) (simp_all add: other_shown_def)
  ultimately show ?thesis
    using load_shows [OF demo_load_def [symmetric]] demo_load_no_error by (simp; metis)
qed

end
