(* ===== verification/Log_Model.thy ===== *)
theory Log_Model
  imports Diff_Load
begin

text \<open>
  The commit log (\<open>kanna-log/src/lib.rs\<close> and \<open>graph.rs\<close>): the rows of \<open>git log\<close>, their shape (the line of main, and
  which merged branches fold into their merge), the labels of tasks, and the files of a commit. Running git, and
  what the file system says, are arguments.
\<close>

subsection \<open>Data\<close>

definition LIMIT :: nat where "LIMIT = 2000"

record task_ref =
  tr_id :: string
  tr_name :: "string option"
  tr_place :: string
  tr_repo :: string
  tr_worktree :: "string option"
  tr_branch :: "string option"
  tr_tip :: "string option"

record log_label =
  lb_id :: string
  lb_name :: string
  lb_place :: string
  lb_branch :: string
  lb_tip :: string
  lb_ahead :: nat
  lb_behind :: nat
  lb_merged :: bool

definition int_json :: "int \<Rightarrow> json" where
  "int_json n = JNumber (NInt n)"

definition strings_json :: "string list \<Rightarrow> json" where
  "strings_json xs = JArray (map JString xs)"

definition label_json :: "log_label \<Rightarrow> json" where
  "label_json l =
     JObject [(''id'', JString (lb_id l)), (''name'', JString (lb_name l)), (''place'', JString (lb_place l)), (''branch'', JString (lb_branch l)),
       (''tip'', JString (lb_tip l)), (''ahead'', int_json (int (lb_ahead l))), (''behind'', int_json (int (lb_behind l))), (''merged'', JBool (lb_merged l))]"

record log_row =
  lr_hash :: string
  lr_parents :: "string list"
  lr_author :: string
  lr_time :: int
  lr_refs :: "string list"
  lr_subject :: string
  lr_spine :: bool
  lr_side :: "string option"
  lr_fold :: nat

definition log_row_json :: "log_row \<Rightarrow> json" where
  "log_row_json r =
     JObject [(''hash'', JString (lr_hash r)), (''parents'', strings_json (lr_parents r)), (''author'', JString (lr_author r)), (''time'', int_json (lr_time r)),
       (''refs'', strings_json (lr_refs r)), (''subject'', JString (lr_subject r)), (''spine'', JBool (lr_spine r)), (''side'', opt_json (lr_side r)),
       (''fold'', int_json (int (lr_fold r)))]"

record git_log =
  lg_folder :: string
  lg_args :: "string list"
  lg_top :: string
  lg_git_dir :: string
  lg_common_dir :: string
  lg_main :: string
  lg_range :: "string list"
  lg_rows :: "log_row list"
  lg_tasks :: "log_label list"
  lg_more :: bool
  lg_error :: "string option"

definition log_command :: "git_log \<Rightarrow> string" where
  "log_command l = join '' '' (''git log'' # lg_range l)"

definition log_json :: "git_log \<Rightarrow> json" where
  "log_json l =
     JObject [(''folder'', JString (lg_folder l)), (''args'', strings_json (lg_args l)), (''top'', JString (lg_top l)), (''main'', JString (lg_main l)),
       (''range'', strings_json (lg_range l)), (''command'', JString (log_command l)), (''rows'', JArray (map log_row_json (lg_rows l))),
       (''tasks'', JArray (map label_json (lg_tasks l))), (''more'', JBool (lg_more l)), (''error'', opt_json (lg_error l))]"

subsection \<open>The shape\<close>

definition FOLD_OVER :: nat where "FOLD_OVER = 3"

text \<open>The map \<open>at\<close> from hashes to rows; of two rows with one hash it keeps the last.\<close>

definition at_of :: "log_row list \<Rightarrow> string \<rightharpoonup> nat" where
  "at_of rows = map_of (rev (zip (map lr_hash rows) [0..<length rows]))"

lemma at_of_row: "at_of rows h = Some i \<Longrightarrow> i < length rows \<and> lr_hash (rows ! i) = h"
  by (auto simp: at_of_def set_zip dest!: map_of_SomeD)

definition parent_rows :: "log_row list \<Rightarrow> string list \<Rightarrow> nat list" where
  "parent_rows rows ps = List.map_filter (at_of rows) ps"

fun head_opt :: "'a list \<Rightarrow> 'a option" where
  "head_opt [] = None" | "head_opt (x # _) = Some x"

definition spine_head :: "log_row list \<Rightarrow> string option \<Rightarrow> string option" where
  "spine_head rows main =
     (case main of
        Some m \<Rightarrow> if at_of rows m \<noteq> None then Some m else map_option lr_hash (head_opt rows)
      | None \<Rightarrow> map_option lr_hash (head_opt rows))"

lemma unseen_smaller: "i < (n :: nat) \<Longrightarrow> i \<notin> set xs \<Longrightarrow> card ({..<n} - set (xs @ [i])) < card ({..<n} - set xs)"
  by (rule psubset_card_mono) auto

function spine_loop :: "log_row list \<Rightarrow> string option \<Rightarrow> nat list \<Rightarrow> nat list" where
  "spine_loop rows nxt spine =
     (case Option.bind nxt (at_of rows) of
        None \<Rightarrow> spine
      | Some i \<Rightarrow> if i \<in> set spine then spine else spine_loop rows (head_opt (lr_parents (rows ! i))) (spine @ [i]))"
  by pat_completeness auto
termination
  by (relation "measure (\<lambda>(rows, _, spine). card ({..<length rows} - set spine))")
     (auto simp: bind_eq_Some_conv intro!: unseen_smaller [simplified] dest: at_of_row)

declare spine_loop.simps [simp del]

definition spine_of :: "log_row list \<Rightarrow> string option \<Rightarrow> nat list" where
  "spine_of rows main = spine_loop rows (spine_head rows main) []"

text \<open>
  The rows a merge brought in, depth first. The stack is kept with its top at the head. Its entries come from the map
  above, so they are rows; the test for that only makes the function total.
\<close>

function side_loop :: "log_row list \<Rightarrow> nat list \<Rightarrow> nat list \<Rightarrow> nat list \<Rightarrow> nat list" where
  "side_loop rows blocked [] side = side"
| "side_loop rows blocked (i # stack) side =
     (if length rows \<le> i \<or> i \<in> set blocked \<or> i \<in> set side then side_loop rows blocked stack side
      else side_loop rows blocked (rev (parent_rows rows (lr_parents (rows ! i))) @ stack) (side @ [i]))"
  by pat_completeness auto
termination
proof (relation "measures [\<lambda>(rows, _, _, side). card ({..<length rows} - set side), \<lambda>(_, _, stack, _). length stack]", simp, simp)
  fix rows :: "log_row list" and blocked stack side :: "nat list" and i
  assume "\<not> (length rows \<le> i \<or> i \<in> set blocked \<or> i \<in> set side)"
  with unseen_smaller [of i "length rows" side]
  show "((rows, blocked, rev (parent_rows rows (lr_parents (rows ! i))) @ stack, side @ [i]), rows, blocked, i # stack, side)
      \<in> measures [\<lambda>(rows, _, _, side). card ({..<length rows} - set side), \<lambda>(_, _, stack, _). length stack]"
    by (intro measures_less) simp
qed

definition side_of :: "log_row list \<Rightarrow> nat list \<Rightarrow> nat \<Rightarrow> nat list" where
  "side_of rows blocked merge = side_loop rows blocked (rev (parent_rows rows (drop 1 (lr_parents (rows ! merge))))) []"

text \<open>The sides, from the oldest merge on; a row taken by one is not in another.\<close>

definition add_side :: "log_row list \<Rightarrow> nat list \<Rightarrow> (nat \<times> nat list) list \<Rightarrow> nat \<Rightarrow> (nat \<times> nat list) list" where
  "add_side rows spine sides merge =
     (let side = side_of rows (spine @ concat (map snd sides)) merge in if side = [] then sides else sides @ [(merge, side)])"

definition sides_of :: "log_row list \<Rightarrow> nat list \<Rightarrow> (nat \<times> nat list) list" where
  "sides_of rows spine = foldl (add_side rows spine) [] (rev spine)"

text \<open>A side folds unless a row in sight other than its merge builds on it.\<close>

definition keeps_fold :: "log_row list \<Rightarrow> nat list \<Rightarrow> nat \<times> nat list \<Rightarrow> bool" where
  "keeps_fold rows hidden = (\<lambda>(merge, side).
     \<not> (\<exists>i \<in> {0..<length rows}. i \<noteq> merge \<and> i \<notin> set hidden \<and> (\<exists>j \<in> set (parent_rows rows (lr_parents (rows ! i))). j \<in> set side)))"

function fold_loop :: "log_row list \<Rightarrow> (nat \<times> nat list) list \<Rightarrow> (nat \<times> nat list) list" where
  "fold_loop rows fds =
     (let kept = filter (keeps_fold rows (concat (map snd fds))) fds
      in if length kept = length fds then kept else fold_loop rows kept)"
  by pat_completeness auto
termination
  by (relation "measure (\<lambda>(_, fds). length fds)") (auto simp: length_filter_le le_neq_implies_less)

declare fold_loop.simps [simp del]

definition folds_in :: "log_row list \<Rightarrow> nat list \<Rightarrow> (nat \<times> nat list) list" where
  "folds_in rows spine = fold_loop rows (filter (\<lambda>(_, side). length side > FOLD_OVER) (sides_of rows spine))"

definition mark_fold :: "log_row list \<Rightarrow> nat \<times> nat list \<Rightarrow> log_row list" where
  "mark_fold rows = (\<lambda>(merge, side).
     (let rows = rows[merge := (rows ! merge)\<lparr>lr_fold := length side\<rparr>]; hash = lr_hash (rows ! merge)
      in foldl (\<lambda>rows i. rows[i := (rows ! i)\<lparr>lr_side := Some hash\<rparr>]) rows side))"

definition shape :: "log_row list \<Rightarrow> string option \<Rightarrow> log_row list" where
  "shape rows main =
     (let spine = spine_of rows main; fds = folds_in rows spine;
          rows = foldl (\<lambda>rows i. rows[i := (rows ! i)\<lparr>lr_spine := True\<rparr>]) rows spine
      in foldl mark_fold rows fds)"

subsection \<open>Reading rows\<close>

text \<open>\<open>split(", ")\<close>.\<close>

lemma split_once_shorter: "split_once p s = Some (a, b) \<Longrightarrow> p \<noteq> [] \<Longrightarrow> length b < length s"
  by (drule split_once_SomeD) auto

function split_refs :: "string \<Rightarrow> string list" where
  "split_refs s = (case split_once '', '' s of None \<Rightarrow> [s] | Some (a, b) \<Rightarrow> a # split_refs b)"
  by pat_completeness auto
termination by (relation "measure length") (auto dest: split_once_shorter)

declare split_refs.simps [simp del]

definition read_refs :: "string \<Rightarrow> string list" where
  "read_refs refs =
     filter (\<lambda>r. r \<noteq> []) (concat (map (\<lambda>r. case strip_prefix ''HEAD -> '' r of Some b \<Rightarrow> [''HEAD'', b] | None \<Rightarrow> [r]) (split_refs refs)))"

definition read_row :: "string \<Rightarrow> log_row option" where
  "read_row rec =
     (case splitn 6 (CHR 0x1F) rec of
        [hash, parents, author, time, refs, subject] \<Rightarrow>
          Some \<lparr>lr_hash = hash, lr_parents = utf8_words parents, lr_author = author,
                lr_time = (case parse_i64 time of Some n \<Rightarrow> n | None \<Rightarrow> 0), lr_refs = read_refs refs, lr_subject = subject,
                lr_spine = False, lr_side = None, lr_fold = 0\<rparr>
      | _ \<Rightarrow> None)"

definition parse_log :: "string \<Rightarrow> log_row list" where
  "parse_log out =
     List.map_filter read_row (filter (\<lambda>r. r \<noteq> []) (map (dropWhile (\<lambda>c. c = newline)) (split_on (\<lambda>c. c = CHR 0x00) out)))"

subsection \<open>Repositories and labels\<close>

text \<open>What the file system says: \<open>is_dir\<close>, \<open>canonicalize\<close> (or the path itself), \<open>read_to_string\<close>.\<close>

record log_fs =
  fs_is_dir :: "string \<Rightarrow> bool"
  fs_canonical :: "string \<Rightarrow> string"
  fs_read :: "string \<Rightarrow> string option"

definition git_line :: "runner \<Rightarrow> string list \<Rightarrow> string \<Rightarrow> string option" where
  "git_line run args folder =
     (case git_text run args folder of Inr t \<Rightarrow> (if utf8_trim t = [] then None else Some (utf8_trim t)) | Inl _ \<Rightarrow> None)"

text \<open>\<open>Path::file_name\<close> and \<open>Path::parent\<close>, on the reversed path without slashes and dots at its end.\<close>

fun rpath :: "string \<Rightarrow> string" where
  "rpath (c # d # r) = (if c = CHR ''/'' \<or> c = CHR ''.'' \<and> d = CHR ''/'' then rpath (d # r) else c # d # r)"
| "rpath r = r"

definition path_file_name :: "string \<Rightarrow> string option" where
  "path_file_name p =
     (let n = rev (takeWhile (\<lambda>c. c \<noteq> CHR ''/'') (rpath (rev p))) in if n \<in> {[], ''.'', ''..''} then None else Some n)"

definition path_parent :: "string \<Rightarrow> string option" where
  "path_parent p =
     (let r = rpath (rev p) in if r = [] \<or> r = ''/'' then None else Some (rev (rpath (dropWhile (\<lambda>c. c \<noteq> CHR ''/'') r))))"

record log_repo =
  rp_top :: string
  rp_git_dir :: string
  rp_common_dir :: string
  rp_checkout :: "string option"
  rp_main :: string

definition repo_checkout :: "log_fs \<Rightarrow> string \<Rightarrow> string option" where
  "repo_checkout fs common =
     (if path_file_name common = Some ''.git''
      then (case path_parent common of Some p \<Rightarrow> (if fs_is_dir fs p then Some p else None) | None \<Rightarrow> None)
      else None)"

definition repo_main :: "runner \<Rightarrow> string \<Rightarrow> string option \<Rightarrow> string" where
  "repo_main run folder checkout =
     (case Option.bind checkout (git_line run [''symbolic-ref'', ''--quiet'', ''--short'', ''HEAD'']) of
        Some b \<Rightarrow> b
      | None \<Rightarrow>
          (case List.find (\<lambda>b. git_line run [''rev-parse'', ''--verify'', ''--quiet'', ''refs/heads/'' @ b] folder \<noteq> None) [''main'', ''master''] of
             Some b \<Rightarrow> b | None \<Rightarrow> ''HEAD''))"

definition repo_find :: "runner \<Rightarrow> log_fs \<Rightarrow> string \<Rightarrow> string + log_repo" where
  "repo_find run fs folder =
     (case git_text run [''rev-parse'', ''--path-format=absolute'', ''--show-toplevel'', ''--git-dir'', ''--git-common-dir''] folder of
        Inl e \<Rightarrow> Inl e
      | Inr out \<Rightarrow>
          (let dirs = lines_str out; checkout = repo_checkout fs (nth_or_empty dirs 2)
           in Inr \<lparr>rp_top = nth_or_empty dirs 0, rp_git_dir = nth_or_empty dirs 1, rp_common_dir = nth_or_empty dirs 2,
                   rp_checkout = checkout, rp_main = repo_main run folder checkout\<rparr>))"

definition repo_linked :: "log_fs \<Rightarrow> log_repo \<Rightarrow> bool" where
  "repo_linked fs repo \<longleftrightarrow> fs_canonical fs (rp_git_dir repo) \<noteq> fs_canonical fs (rp_common_dir repo)"

definition repo_owns :: "log_fs \<Rightarrow> log_repo \<Rightarrow> string \<Rightarrow> bool" where
  "repo_owns fs repo r \<longleftrightarrow> (case rp_checkout repo of Some c \<Rightarrow> fs_canonical fs c = fs_canonical fs r | None \<Rightarrow> False)"

definition task_name :: "task_ref \<Rightarrow> string" where
  "task_name t = (case tr_name t of Some n \<Rightarrow> n | None \<Rightarrow> tr_id t)"

definition u64_or_0 :: "string \<Rightarrow> nat" where
  "u64_or_0 s = (case parse_u64 s of Some n \<Rightarrow> n | None \<Rightarrow> 0)"

definition base_commit :: "runner \<Rightarrow> log_fs \<Rightarrow> string \<Rightarrow> string option" where
  "base_commit run fs worktree =
     map_option utf8_trim (Option.bind (git_line run [''rev-parse'', ''--path-format=absolute'', ''--git-dir''] worktree)
       (\<lambda>dir. fs_read fs (path_join dir ''kanna-base'')))"

definition label_of :: "runner \<Rightarrow> log_fs \<Rightarrow> string \<Rightarrow> string \<Rightarrow> task_ref \<Rightarrow> log_label option" where
  "label_of run fs folder main t =
     (case tr_worktree t of
        None \<Rightarrow> None
      | Some worktree \<Rightarrow>
          (if \<not> fs_is_dir fs worktree then None
           else Option.bind (git_line run [''branch'', ''--show-current''] worktree) (\<lambda>branch.
                Option.bind (git_line run [''rev-parse'', ''--verify'', ''--quiet'', ''HEAD''] worktree) (\<lambda>tip.
                  if base_commit run fs worktree = Some tip then None
                  else map_option (\<lambda>counts.
                    (let ns = map u64_or_0 (utf8_words counts);
                         behind = (case ns of b # _ \<Rightarrow> b | [] \<Rightarrow> 0); ahead = (case ns of _ # a # _ \<Rightarrow> a | _ \<Rightarrow> 0)
                     in \<lparr>lb_id = tr_id t, lb_name = task_name t, lb_place = tr_place t, lb_branch = branch, lb_tip = tip,
                         lb_ahead = ahead, lb_behind = behind, lb_merged = (ahead = 0)\<rparr>))
                    (git_line run [''rev-list'', ''--left-right'', ''--count'', main @ ''...'' @ tip] folder)))))"

definition labels_of :: "runner \<Rightarrow> log_fs \<Rightarrow> log_repo \<Rightarrow> task_ref list \<Rightarrow> log_label list" where
  "labels_of run fs repo tasks =
     List.map_filter (label_of run fs (rp_top repo) (rp_main repo)) (filter (\<lambda>t. tr_place t \<noteq> ''done'' \<and> repo_owns fs repo (tr_repo t)) tasks)"

lemma unseen_hash_smaller:
  assumes "at_of rows h = Some i" "h \<notin> set seen"
  shows "card (lr_hash ` set rows - set (seen @ [h])) < card (lr_hash ` set rows - set seen)"
proof (rule psubset_card_mono)
  have "h \<in> lr_hash ` set rows" using at_of_row [OF assms(1)] by auto
  with assms(2) show "lr_hash ` set rows - set (seen @ [h]) \<subset> lr_hash ` set rows - set seen" by auto
qed simp

text \<open>The hashes of rows reached from main; the stack has its top at the head.\<close>

function in_main_loop :: "log_row list \<Rightarrow> string list \<Rightarrow> string list \<Rightarrow> string list" where
  "in_main_loop rows [] seen = seen"
| "in_main_loop rows (h # stack) seen =
     (case at_of rows h of
        Some i \<Rightarrow> if h \<in> set seen then in_main_loop rows stack seen
                  else in_main_loop rows (rev (lr_parents (rows ! i)) @ stack) (seen @ [h])
      | None \<Rightarrow> in_main_loop rows stack seen)"
  by pat_completeness auto

termination
  by (relation "measures [\<lambda>(rows, _, seen). card (lr_hash ` set rows - set seen), \<lambda>(_, stack, _). length stack]")
     (auto intro!: unseen_hash_smaller [simplified])

definition done_labels :: "log_fs \<Rightarrow> log_repo \<Rightarrow> log_row list \<Rightarrow> string option \<Rightarrow> task_ref list \<Rightarrow> log_label list" where
  "done_labels fs repo rows main tasks =
     (let in_main = in_main_loop rows (case main of Some m \<Rightarrow> [m] | None \<Rightarrow> []) []
      in List.map_filter (\<lambda>t.
           Option.bind (tr_branch t) (\<lambda>branch. Option.bind (tr_tip t) (\<lambda>tip.
             if at_of rows tip \<noteq> None
             then Some \<lparr>lb_id = tr_id t, lb_name = task_name t, lb_place = tr_place t, lb_branch = branch, lb_tip = tip,
                        lb_ahead = 0, lb_behind = 0, lb_merged = (tip \<in> set in_main)\<rparr>
             else None)))
         (filter (\<lambda>t. tr_place t = ''done'' \<and> repo_owns fs repo (tr_repo t)) tasks))"

subsection \<open>Loading\<close>

definition log_range :: "log_fs \<Rightarrow> log_repo \<Rightarrow> log_label list \<Rightarrow> string list \<Rightarrow> string list" where
  "log_range fs repo labels revs =
     (if list_all (starts_with ''-'') revs
      then remdups_adj (revs @
             (if repo_linked fs repo then [''HEAD'']
              else filter (\<lambda>b. b \<noteq> rp_main repo) (map lb_branch (filter (\<lambda>l. lb_place l \<noteq> ''done'' \<and> \<not> lb_merged l) labels))) @ [rp_main repo])
      else revs)"

definition log_query :: "string list \<Rightarrow> string list \<Rightarrow> string list" where
  "log_query rng paths =
     [''-c'', ''log.showSignature=false'', ''log'', ''--no-color'', ''--topo-order'', ''-z'', ''--format=%H%x1f%P%x1f%an%x1f%at%x1f%D%x1f%s'',
      ''--decorate-refs-exclude=refs/remotes/*/HEAD''] @ [''--max-count='' @ dec (LIMIT + 1)] @ rng @ [''--''] @ paths"

definition fill_log :: "runner \<Rightarrow> log_fs \<Rightarrow> task_ref list \<Rightarrow> git_log \<Rightarrow> git_log \<times> string option" where
  "fill_log run fs tasks l =
     (case repo_find run fs (lg_folder l) of
        Inl e \<Rightarrow> (l, Some e)
      | Inr repo \<Rightarrow>
          (let labels = labels_of run fs repo tasks;
               rng = log_range fs repo labels (diff_options (lg_args l));
               l = l\<lparr>lg_top := rp_top repo, lg_git_dir := rp_git_dir repo, lg_common_dir := rp_common_dir repo, lg_main := rp_main repo,
                     lg_range := rng\<rparr>
           in case git_text run (log_query rng (pathspecs (lg_args l))) (lg_folder l) of
                Inl e \<Rightarrow> (l, Some e)
              | Inr out \<Rightarrow>
                  (let all = parse_log out;
                       tip = git_line run [''rev-parse'', ''--verify'', ''--quiet'', rp_main repo @ ''^{commit}''] (lg_folder l);
                       rows = shape (take LIMIT all) tip
                   in (l\<lparr>lg_more := (length all > LIMIT), lg_rows := rows, lg_tasks := labels @ done_labels fs repo rows tip tasks\<rparr>, None))))"

definition load_log :: "runner \<Rightarrow> log_fs \<Rightarrow> string \<Rightarrow> string list \<Rightarrow> task_ref list \<Rightarrow> git_log" where
  "load_log run fs folder args tasks =
     (let l = \<lparr>lg_folder = folder, lg_args = args, lg_top = [], lg_git_dir = [], lg_common_dir = [], lg_main = [], lg_range = [], lg_rows = [],
               lg_tasks = [], lg_more = False, lg_error = None\<rparr>
      in case fill_log run fs tasks l of
           (l, Some e) \<Rightarrow> l\<lparr>lg_error := Some e, lg_rows := [], lg_tasks := []\<rparr>
         | (l, None) \<Rightarrow> l)"

subsection \<open>One commit\<close>

record changed_file =
  ch_path :: string
  ch_old_path :: "string option"
  ch_status :: string
  ch_added :: "nat option"
  ch_removed :: "nat option"

definition next_or_empty :: "string list \<Rightarrow> string" where
  "next_or_empty fs = (case fs of f # _ \<Rightarrow> f | [] \<Rightarrow> [])"

text \<open>The letter of a status is a character; a field that is empty without its line feeds counts as changed.\<close>

function name_status :: "string list \<Rightarrow> changed_file list" where
  "name_status [] = []"
| "name_status (st # fs) =
     (let letter = (case utf8_chars st of c # _ \<Rightarrow> c | [] \<Rightarrow> ''M'')
      in if letter = ''R'' \<or> letter = ''C''
         then \<lparr>ch_path = next_or_empty (drop 1 fs), ch_old_path = head_opt fs, ch_status = letter, ch_added = None, ch_removed = None\<rparr> #
              name_status (drop 2 fs)
         else \<lparr>ch_path = next_or_empty fs, ch_old_path = None, ch_status = letter, ch_added = None, ch_removed = None\<rparr> # name_status (drop 1 fs))"
  by pat_completeness auto
termination by (relation "measure length") auto

function commit_counts :: "string list \<Rightarrow> (string \<rightharpoonup> nat option \<times> nat option) \<Rightarrow> (string \<rightharpoonup> nat option \<times> nat option)" where
  "commit_counts [] m = m"
| "commit_counts (f # fs) m =
     (case three_fields f of
        None \<Rightarrow> commit_counts fs m
      | Some (a, r, path) \<Rightarrow>
          (if path = [] then commit_counts (drop 2 fs) (m(next_or_empty (drop 1 fs) \<mapsto> (parse_u64 a, parse_u64 r)))
           else commit_counts fs (m(path \<mapsto> (parse_u64 a, parse_u64 r)))))"
  by pat_completeness auto
termination by (relation "measure (\<lambda>(fs, _). length fs)") auto

definition commit_changes :: "runner \<Rightarrow> string \<Rightarrow> string \<Rightarrow> string + changed_file list" where
  "commit_changes run folder hash =
     (let common = [''show'', ''--no-color'', ''--format='', ''-z'', ''--diff-merges=first-parent'', ''-M'']
      in case git_text run (common @ [''--name-status'', hash]) folder of
           Inl e \<Rightarrow> Inl e
         | Inr names \<Rightarrow>
             (let files = name_status (map (dropWhile (\<lambda>c. c = newline)) (filter (\<lambda>f. f \<noteq> []) (split_on (\<lambda>c. c = CHR 0x00) names)))
              in case git_text run (common @ [''--numstat'', hash]) folder of
                   Inl e \<Rightarrow> Inl e
                 | Inr stats \<Rightarrow>
                     (let counts = commit_counts (map (dropWhile (\<lambda>c. c = newline)) (split_on (\<lambda>c. c = CHR 0x00) stats)) Map.empty
                      in Inr (map (\<lambda>f. case counts (ch_path f) of Some (a, r) \<Rightarrow> f\<lparr>ch_added := a, ch_removed := r\<rparr> | None \<Rightarrow> f) files))))"

definition is_hex :: "char \<Rightarrow> bool" where
  "is_hex c \<longleftrightarrow> is_digit c \<or> 97 \<le> code c \<and> code c \<le> 102 \<or> 65 \<le> code c \<and> code c \<le> 70"

fun nat_opt_json :: "nat option \<Rightarrow> json" where
  "nat_opt_json None = Null" | "nat_opt_json (Some n) = int_json (int n)"

definition changed_json :: "changed_file \<Rightarrow> json" where
  "changed_json f =
     JObject [(''path'', JString (ch_path f)), (''old'', opt_json (ch_old_path f)), (''status'', JString (ch_status f)),
       (''added'', nat_opt_json (ch_added f)), (''removed'', nat_opt_json (ch_removed f))]"

text \<open>\<open>debug\<close> prints a string in Rust's \<open>{:?}\<close> form.\<close>

definition log_commit :: "runner \<Rightarrow> (string \<Rightarrow> string) \<Rightarrow> string \<Rightarrow> string \<Rightarrow> string + json" where
  "log_commit run debug folder hash =
     (if hash = [] \<or> \<not> list_all is_hex hash then Inl (debug hash @ '' isn't a commit hash'')
      else case git_text run [''show'', ''--no-color'', ''-s'', ''--format=%H%x1f%P%x1f%an%x1f%ae%x1f%at%x1f%B'', hash] folder of
             Inl e \<Rightarrow> Inl e
           | Inr head \<Rightarrow>
               (case splitn 6 (CHR 0x1F) head of
                  [full, parents, author, email, time, message] \<Rightarrow>
                    (case commit_changes run folder full of
                       Inl e \<Rightarrow> Inl e
                     | Inr files \<Rightarrow>
                         Inr (JObject [(''hash'', JString full), (''parents'', strings_json (utf8_words parents)), (''author'', JString author),
                           (''email'', JString email), (''time'', int_json (case parse_i64 time of Some n \<Rightarrow> n | None \<Rightarrow> 0)),
                           (''message'', JString (utf8_trim_end message)), (''files'', JArray (map changed_json files))]))
                | _ \<Rightarrow> Inl (''git show '' @ hash @ '' said something unexpected'')))"

end
