(* ===== verification/Log_Shape.thy ===== *)
theory Log_Shape
  imports Log_Model
begin

text \<open>
  The shape of the log: main's line is the chain of first parents, and a merged branch is hidden in its merge only when
  no commit that stays in sight builds on it.
\<close>

subsection \<open>The spine\<close>

inductive on_chain :: "log_row list \<Rightarrow> string option \<Rightarrow> nat \<Rightarrow> bool" for rows main where
  head: "Option.bind (spine_head rows main) (at_of rows) = Some i \<Longrightarrow> on_chain rows main i"
| parent: "on_chain rows main i \<Longrightarrow> Option.bind (head_opt (lr_parents (rows ! i))) (at_of rows) = Some j \<Longrightarrow> on_chain rows main j"

definition spine_inv :: "log_row list \<Rightarrow> string option \<Rightarrow> string option \<Rightarrow> nat list \<Rightarrow> bool" where
  "spine_inv rows main nxt spine \<longleftrightarrow> distinct spine \<and> (\<forall>i \<in> set spine. on_chain rows main i) \<and>
     (\<forall>i. Option.bind nxt (at_of rows) = Some i \<longrightarrow> on_chain rows main i) \<and>
     (\<forall>j. Option.bind (spine_head rows main) (at_of rows) = Some j \<or>
        (\<exists>i \<in> set spine. Option.bind (head_opt (lr_parents (rows ! i))) (at_of rows) = Some j) \<longrightarrow>
        j \<in> set spine \<or> Option.bind nxt (at_of rows) = Some j)"

lemma spine_closed:
  assumes "spine_inv rows main nxt spine" "\<And>j. Option.bind nxt (at_of rows) = Some j \<Longrightarrow> j \<in> set spine"
  shows "distinct spine \<and> set spine = {i. on_chain rows main i}"
proof -
  have "i \<in> set spine" if "on_chain rows main i" for i
    using that by induction (use assms in \<open>unfold spine_inv_def, blast+\<close>)
  with assms(1) show ?thesis by (auto simp: spine_inv_def)
qed

lemma spine_loop_chain:
  "spine_inv rows main nxt spine \<Longrightarrow> distinct (spine_loop rows nxt spine) \<and> set (spine_loop rows nxt spine) = {i. on_chain rows main i}"
proof (induction rows nxt spine rule: spine_loop.induct)
  case (1 rows nxt spine)
  show ?case
  proof (cases "Option.bind nxt (at_of rows)")
    case None
    with spine_closed [OF 1(2)] show ?thesis by (simp add: spine_loop.simps [of rows nxt])
  next
    case (Some i)
    show ?thesis
    proof (cases "i \<in> set spine")
      case True
      with Some spine_closed [OF 1(2)] show ?thesis by (simp add: spine_loop.simps [of rows nxt])
    next
      case False
      have "spine_inv rows main (head_opt (lr_parents (rows ! i))) (spine @ [i])"
        using 1(2) Some False on_chain.parent [of rows main i] unfolding spine_inv_def by auto
      with 1(1) [OF Some False] Some False show ?thesis by (simp add: spine_loop.simps [of rows nxt])
    qed
  qed
qed

lemma spine_of_chain: "distinct (spine_of rows main)" "set (spine_of rows main) = {i. on_chain rows main i}"
proof -
  have "spine_inv rows main (spine_head rows main) []" by (auto simp: spine_inv_def intro: on_chain.head)
  from spine_loop_chain [OF this] show "distinct (spine_of rows main)" "set (spine_of rows main) = {i. on_chain rows main i}"
    by (simp_all add: spine_of_def)
qed

lemma on_chain_row: "on_chain rows main i \<Longrightarrow> i < length rows"
  by (induction rule: on_chain.induct) (auto simp: bind_eq_Some_conv dest: at_of_row)

subsection \<open>Sides\<close>

inductive brought_in :: "log_row list \<Rightarrow> nat \<Rightarrow> nat \<Rightarrow> bool" for rows m where
  merged: "j \<in> set (parent_rows rows (drop 1 (lr_parents (rows ! m)))) \<Longrightarrow> brought_in rows m j"
| parent: "brought_in rows m i \<Longrightarrow> j \<in> set (parent_rows rows (lr_parents (rows ! i))) \<Longrightarrow> brought_in rows m j"

definition row_parents :: "log_row list \<Rightarrow> nat \<Rightarrow> nat list" where
  "row_parents rows i = parent_rows rows (lr_parents (rows ! i))"

interpretation side: work_list "\<lambda>i. length rows \<le> i \<or> i \<in> set blocked" "row_parents rows" "side_loop rows blocked"
  "measures [\<lambda>(todo, seen). card ({..<length rows} - set seen), \<lambda>(todo, _). length todo]" for rows blocked
proof
  fix i :: nat and seen todo
  assume "(length rows \<le> i \<or> i \<in> set blocked) \<or> i \<in> set seen"
  then show "side_loop rows blocked (i # todo) seen = side_loop rows blocked todo seen \<and>
      ((todo, seen), i # todo, seen) \<in> measures [\<lambda>(todo, seen). card ({..<length rows} - set seen), \<lambda>(todo, _). length todo]" by auto
next
  fix i :: nat and seen todo
  assume i: "\<not> (length rows \<le> i \<or> i \<in> set blocked)" "i \<notin> set seen"
  let ?todo = "rev (row_parents rows i) @ todo"
  have "((?todo, seen @ [i]), i # todo, seen) \<in> measures [\<lambda>(todo, seen). card ({..<length rows} - set seen), \<lambda>(todo, _). length todo]"
    by (rule measures_less) (use i unseen_smaller [of i "length rows" seen] in simp)
  with i show "\<exists>todo'. set todo' = set (row_parents rows i) \<union> set todo \<and> side_loop rows blocked (i # todo) seen = side_loop rows blocked todo' (seen @ [i]) \<and>
      ((todo', seen @ [i]), i # todo, seen) \<in> measures [\<lambda>(todo, seen). card ({..<length rows} - set seen), \<lambda>(todo, _). length todo]"
    by (intro exI [of _ ?todo]) (auto simp: row_parents_def)
qed auto

text \<open>A side has just the rows reached from the merge's other parents without crossing a barred one.\<close>

lemma set_side_of: "set (side_of rows blocked m) =
    {i. reached_by (\<lambda>i. length rows \<le> i \<or> i \<in> set blocked) (row_parents rows) (set (parent_rows rows (drop 1 (lr_parents (rows ! m))))) i}"
  using side.loop_finds(2) [where rows = rows and blocked = blocked and todo = "rev (parent_rows rows (drop 1 (lr_parents (rows ! m))))"]
  by (simp add: side_of_def)

lemma reached_brought_in:
  "reached_by barred (row_parents rows) (set (parent_rows rows (drop 1 (lr_parents (rows ! m))))) i \<Longrightarrow> brought_in rows m i"
  by (induction rule: reached_by.induct) (auto simp: row_parents_def intro: brought_in.intros)

lemma side_of_rows:
  "distinct (side_of rows blocked m)" "set (side_of rows blocked m) \<subseteq> {..<length rows} - set blocked"
  "\<forall>i \<in> set (side_of rows blocked m). brought_in rows m i"
proof -
  show "distinct (side_of rows blocked m)" unfolding side_of_def by (rule side.loop_finds)
  show "set (side_of rows blocked m) \<subseteq> {..<length rows} - set blocked" unfolding set_side_of by (auto dest: reached_by_not_barred)
  show "\<forall>i \<in> set (side_of rows blocked m). brought_in rows m i" unfolding set_side_of using reached_brought_in by blast
qed

definition sides_ok :: "log_row list \<Rightarrow> nat list \<Rightarrow> (nat \<times> nat list) list \<Rightarrow> bool" where
  "sides_ok rows spine sides \<longleftrightarrow> distinct (map fst sides) \<and> distinct (concat (map snd sides)) \<and>
     set (concat (map snd sides)) \<subseteq> {..<length rows} - set spine \<and>
     (\<forall>(m, s) \<in> set sides. m \<in> set spine \<and> s \<noteq> [] \<and> (\<forall>i \<in> set s. brought_in rows m i))"

lemma add_side_ok:
  assumes "sides_ok rows spine sides" "m \<in> set spine" "m \<notin> fst ` set sides"
  shows "sides_ok rows spine (add_side rows spine sides m)"
  using assms side_of_rows [where rows = rows and blocked = "spine @ concat (map snd sides)" and m = m]
  unfolding sides_ok_def add_side_def Let_def by (auto simp: subset_iff)

lemma add_side_fst: "fst ` set (add_side rows spine sides m) \<subseteq> insert m (fst ` set sides)"
  by (auto simp: add_side_def Let_def)

lemma sides_of_ok: assumes "distinct spine" shows "sides_ok rows spine (sides_of rows spine)"
proof -
  have "sides_ok rows spine (foldl (add_side rows spine) [] ms) \<and> fst ` set (foldl (add_side rows spine) [] ms) \<subseteq> set ms"
    if "distinct ms" "set ms \<subseteq> set spine" for ms using that
  proof (induction ms rule: rev_induct)
    case (snoc m ms)
    then show ?case using add_side_ok [of rows spine "foldl (add_side rows spine) [] ms" m] add_side_fst [of rows spine _ m] by fastforce
  qed (simp add: sides_ok_def)
  from this [of "rev spine"] assms show ?thesis by (simp add: sides_of_def)
qed

lemma sides_ok_filter: "sides_ok rows spine sides \<Longrightarrow> sides_ok rows spine (filter P sides)"
proof (induction sides)
  case (Cons x sides)
  have "fst ` set (filter P sides) \<subseteq> fst ` set sides" "set (concat (map snd (filter P sides))) \<subseteq> set (concat (map snd sides))" by auto
  with Cons show ?case unfolding sides_ok_def by (cases "P x") auto
qed simp

subsection \<open>Folding\<close>

lemma fold_loop_filter: "\<exists>P. fold_loop rows fds = filter P fds"
proof (induction rows fds rule: fold_loop.induct)
  case (1 rows fds)
  then show ?case by (subst fold_loop.simps) (auto simp: Let_def)
qed

lemma fold_loop_stable: "x \<in> set (fold_loop rows fds) \<Longrightarrow> keeps_fold rows (concat (map snd (fold_loop rows fds))) x"
proof (induction rows fds rule: fold_loop.induct)
  case (1 rows fds)
  let ?kept = "filter (keeps_fold rows (concat (map snd fds))) fds"
  show ?case
  proof (cases "length ?kept = length fds")
    case True
    then have "?kept = fds" by (metis filter_id_conv length_filter_less less_irrefl)
    with True 1(2) show ?thesis by (simp add: fold_loop.simps [of rows fds] Let_def) (metis filter_id_conv)
  next
    case False
    with 1(1) [OF refl False] 1(2) show ?thesis by (simp add: fold_loop.simps [of rows fds] Let_def)
  qed
qed

lemma keeps_fold_mono: "keeps_fold rows hidden x \<Longrightarrow> set hidden \<subseteq> set hidden' \<Longrightarrow> keeps_fold rows hidden' x"
  by (auto simp: keeps_fold_def)

text \<open>Of all the choices of sides in which every side may fold, the one found is the largest.\<close>

lemma fold_loop_greatest:
  "set gs \<subseteq> set fds \<Longrightarrow> \<forall>x \<in> set gs. keeps_fold rows (concat (map snd gs)) x \<Longrightarrow> set gs \<subseteq> set (fold_loop rows fds)"
proof (induction rows fds rule: fold_loop.induct)
  case (1 rows fds)
  have "set (concat (map snd gs)) \<subseteq> set (concat (map snd fds))" using 1(2) by auto
  then have "keeps_fold rows (concat (map snd fds)) x" if "x \<in> set gs" for x using 1(3) that by (blast intro: keeps_fold_mono)
  with 1(2) have kept: "set gs \<subseteq> set (filter (keeps_fold rows (concat (map snd fds))) fds)" by auto
  with 1 show ?case by (subst fold_loop.simps) (auto simp: Let_def)
qed

subsection \<open>Marking the rows\<close>

lemma update_rows: "set is \<subseteq> {..<length rows} \<Longrightarrow> distinct is \<Longrightarrow> k < length rows \<Longrightarrow>
    length (foldl (\<lambda>rows i. rows[i := f (rows ! i)]) rows is) = length rows \<and>
    foldl (\<lambda>rows i. rows[i := f (rows ! i)]) rows is ! k = (if k \<in> set is then f (rows ! k) else rows ! k)"
proof (induction "is" arbitrary: rows)
  case (Cons i "is")
  then have "length (foldl (\<lambda>rows i. rows[i := f (rows ! i)]) (rows[i := f (rows ! i)]) is) = length (rows[i := f (rows ! i)]) \<and>
      foldl (\<lambda>rows i. rows[i := f (rows ! i)]) (rows[i := f (rows ! i)]) is ! k =
      (if k \<in> set is then f (rows[i := f (rows ! i)] ! k) else rows[i := f (rows ! i)] ! k)"
    by (intro Cons.IH) auto
  with Cons.prems show ?case by (auto simp: nth_list_update)
qed simp

lemma mark_fold_row:
  assumes "m < length rows" "set s \<subseteq> {..<length rows}" "distinct s" "k < length rows"
  shows "length (mark_fold rows (m, s)) = length rows \<and> mark_fold rows (m, s) ! k =
    (rows ! k)\<lparr>lr_fold := if k = m then length s else lr_fold (rows ! k), lr_side := if k \<in> set s then Some (lr_hash (rows ! m)) else lr_side (rows ! k)\<rparr>"
proof -
  let ?rows = "rows[m := (rows ! m)\<lparr>lr_fold := length s\<rparr>]"
  from assms have "set s \<subseteq> {..<length ?rows}" "k < length ?rows" by auto
  from update_rows [OF this(1) assms(3) this(2), of "\<lambda>r. r\<lparr>lr_side := Some (lr_hash (?rows ! m))\<rparr>"] assms
  show ?thesis by (auto simp: mark_fold_def Let_def nth_list_update)
qed

lemma length_update [simp]: "length (foldl (\<lambda>rows i. rows[i := f rows i]) rows is) = length rows"
  by (induction "is" arbitrary: rows) simp_all

lemma length_marked: "length (foldl mark_fold rows fds) = length rows"
  by (induction fds arbitrary: rows) (simp_all add: mark_fold_def Let_def case_prod_unfold)

text \<open>The rows after all folds are marked.\<close>

lemma mark_folds_row:
  "distinct (map fst fds) \<Longrightarrow> distinct (concat (map snd fds)) \<Longrightarrow> \<forall>(m, s) \<in> set fds. m < length rows \<and> set s \<subseteq> {..<length rows} \<Longrightarrow> k < length rows \<Longrightarrow>
    length (foldl mark_fold rows fds) = length rows \<and> foldl mark_fold rows fds ! k =
    (rows ! k)\<lparr>lr_fold := (case map_of fds k of Some s \<Rightarrow> length s | None \<Rightarrow> lr_fold (rows ! k)),
      lr_side := (case List.find (\<lambda>(m, s). k \<in> set s) fds of Some (m, s) \<Rightarrow> Some (lr_hash (rows ! m)) | None \<Rightarrow> lr_side (rows ! k))\<rparr>"
proof (induction fds arbitrary: rows)
  case (Cons x fds)
  obtain m s where x: "x = (m, s)" by (cases x)
  from Cons.prems have ms: "m < length rows" "set s \<subseteq> {..<length rows}" "distinct s" by (auto simp: x)
  note row = mark_fold_row [OF ms]
  have len: "length (mark_fold rows x) = length rows" using row [OF ms(1)] by (simp add: x)
  have IH: "length (foldl mark_fold (mark_fold rows x) fds) = length (mark_fold rows x) \<and> foldl mark_fold (mark_fold rows x) fds ! k =
    (mark_fold rows x ! k)\<lparr>lr_fold := (case map_of fds k of Some s \<Rightarrow> length s | None \<Rightarrow> lr_fold (mark_fold rows x ! k)),
      lr_side := (case List.find (\<lambda>(m, s). k \<in> set s) fds of Some (m, s) \<Rightarrow> Some (lr_hash (mark_fold rows x ! m)) | None \<Rightarrow> lr_side (mark_fold rows x ! k))\<rparr>"
    by (rule Cons.IH) (use Cons.prems in \<open>auto simp: x len [unfolded x]\<close>)
  have hash: "lr_hash (mark_fold rows x ! i) = lr_hash (rows ! i)" if "i < length rows" for i using row [OF that] by (simp add: x)
  have found: "fst y < length rows \<and> y \<in> set fds \<and> k \<in> set (snd y)" if "List.find (\<lambda>(m, s). k \<in> set s) fds = Some y" for y
    using that Cons.prems(3) by (fastforce simp: find_Some_iff in_set_conv_nth)
  have none: "map_of fds m = None" using Cons.prems(1) by (auto simp: x map_of_eq_None_iff)
  have apart: "List.find (\<lambda>(m, s). k \<in> set s) fds = None" if "k \<in> set s"
    using Cons.prems(2) that by (force simp: x find_None_iff)
  let ?side = "\<lambda>fds rows. (case List.find (\<lambda>(m, s). k \<in> set s) fds of Some (m, s) \<Rightarrow> Some (lr_hash (rows ! m)) | None \<Rightarrow> lr_side (rows ! k))"
  let ?fold = "\<lambda>fds rows. (case map_of fds k of Some s \<Rightarrow> length s | None \<Rightarrow> lr_fold (rows ! k))"
  have k: "mark_fold rows x ! k =
      (rows ! k)\<lparr>lr_fold := if k = m then length s else lr_fold (rows ! k), lr_side := if k \<in> set s then Some (lr_hash (rows ! m)) else lr_side (rows ! k)\<rparr>"
    using row [OF Cons.prems(4)] by (simp add: x)
  have folds: "?fold fds (mark_fold rows x) = ?fold (x # fds) rows"
    unfolding k using none by (auto simp: x split: option.split)
  have sides: "?side fds (mark_fold rows x) = ?side (x # fds) rows"
  proof (cases "List.find (\<lambda>(m, s). k \<in> set s) fds")
    case None
    then show ?thesis unfolding k by (simp add: x)
  next
    case (Some y)
    with apart found [OF Some] hash [of "fst y"] show ?thesis by (auto simp: x case_prod_unfold)
  qed
  have "foldl mark_fold rows (x # fds) ! k = (mark_fold rows x ! k)\<lparr>lr_fold := ?fold (x # fds) rows, lr_side := ?side (x # fds) rows\<rparr>"
    using IH unfolding folds sides by simp
  moreover have "length (foldl mark_fold rows (x # fds)) = length rows" using IH len by simp
  ultimately show ?case unfolding k by simp
qed simp

subsection \<open>The shaped log\<close>

definition fresh_row :: "log_row \<Rightarrow> bool" where
  "fresh_row r \<longleftrightarrow> \<not> lr_spine r \<and> lr_side r = None \<and> lr_fold r = 0"

definition bare_row :: "log_row \<Rightarrow> log_row" where
  "bare_row r = r\<lparr>lr_spine := False, lr_side := None, lr_fold := 0\<rparr>"

lemma folds_in_ok:
  "sides_ok rows (spine_of rows main) (folds_in rows (spine_of rows main))"
  "(m, s) \<in> set (folds_in rows (spine_of rows main)) \<Longrightarrow> FOLD_OVER < length s"
proof -
  let ?long = "filter (\<lambda>(_, side). length side > FOLD_OVER) (sides_of rows (spine_of rows main))"
  obtain P where "fold_loop rows ?long = filter P ?long" using fold_loop_filter by blast
  then have f: "folds_in rows (spine_of rows main) = filter P ?long" by (simp add: folds_in_def)
  show "sides_ok rows (spine_of rows main) (folds_in rows (spine_of rows main))"
    unfolding f using sides_of_ok [OF spine_of_chain(1)] by (intro sides_ok_filter)
  show "FOLD_OVER < length s" if "(m, s) \<in> set (folds_in rows (spine_of rows main))" using that unfolding f by auto
qed

text \<open>Every row after shaping, by the spine and the folds.\<close>

lemma shape_row:
  assumes "k < length rows"
  shows "length (shape rows main) = length rows \<and> shape rows main ! k =
    (rows ! k)\<lparr>lr_spine := (lr_spine (rows ! k) \<or> on_chain rows main k),
      lr_fold := (case map_of (folds_in rows (spine_of rows main)) k of Some s \<Rightarrow> length s | None \<Rightarrow> lr_fold (rows ! k)),
      lr_side := (case List.find (\<lambda>(m, s). k \<in> set s) (folds_in rows (spine_of rows main)) of
        Some (m, s) \<Rightarrow> Some (lr_hash (rows ! m)) | None \<Rightarrow> lr_side (rows ! k))\<rparr>"
proof -
  let ?spine = "spine_of rows main" and ?fds = "folds_in rows (spine_of rows main)"
  let ?rows = "foldl (\<lambda>rows i. rows[i := (rows ! i)\<lparr>lr_spine := True\<rparr>]) rows ?spine"
  have spine: "set ?spine \<subseteq> {..<length rows}" using on_chain_row by (auto simp: spine_of_chain)
  note up = update_rows [OF spine spine_of_chain(1), of _ "\<lambda>r. r\<lparr>lr_spine := True\<rparr>"]
  have len: "length ?rows = length rows" using up [OF assms] by blast
  have row: "?rows ! i = (rows ! i)\<lparr>lr_spine := (lr_spine (rows ! i) \<or> on_chain rows main i)\<rparr>" if "i < length rows" for i
    using up [OF that] by (auto simp: spine_of_chain)
  have "\<forall>(m, s) \<in> set ?fds. m < length ?rows \<and> set s \<subseteq> {..<length ?rows}"
    using folds_in_ok(1) [of rows main] spine unfolding sides_ok_def len by force
  moreover have "distinct (map fst ?fds)" "distinct (concat (map snd ?fds))" using folds_in_ok(1) [of rows main] by (simp_all add: sides_ok_def)
  ultimately have marked: "length (foldl mark_fold ?rows ?fds) = length ?rows \<and> foldl mark_fold ?rows ?fds ! k =
    (?rows ! k)\<lparr>lr_fold := (case map_of ?fds k of Some s \<Rightarrow> length s | None \<Rightarrow> lr_fold (?rows ! k)),
      lr_side := (case List.find (\<lambda>(m, s). k \<in> set s) ?fds of Some (m, s) \<Rightarrow> Some (lr_hash (?rows ! m)) | None \<Rightarrow> lr_side (?rows ! k))\<rparr>"
    using assms len by (intro mark_folds_row) auto
  have "lr_hash (?rows ! m) = lr_hash (rows ! m)" if "List.find (\<lambda>(m, s). k \<in> set s) ?fds = Some (m, s)" for m s
  proof -
    from that have "(m, s) \<in> set ?fds" by (auto simp: find_Some_iff in_set_conv_nth)
    with folds_in_ok(1) [of rows main] spine have "m < length rows" unfolding sides_ok_def by fastforce
    from row [OF this] show ?thesis by simp
  qed
  then show ?thesis using marked row [OF assms] len by (auto simp: shape_def Let_def split: option.split prod.split)
qed

lemma concat_once:
  "distinct (concat (map snd fds)) \<Longrightarrow> (m, s) \<in> set fds \<Longrightarrow> (m', s') \<in> set fds \<Longrightarrow> k \<in> set s \<Longrightarrow> k \<in> set s' \<Longrightarrow> (m, s) = (m', s')"
  by (induction fds) force+

lemma shape_side:
  assumes "k < length rows" "list_all fresh_row rows"
  shows "lr_side (shape rows main ! k) = Some h \<longleftrightarrow>
    (\<exists>m s. (m, s) \<in> set (folds_in rows (spine_of rows main)) \<and> k \<in> set s \<and> lr_hash (rows ! m) = h)" (is "_ \<longleftrightarrow> (\<exists>m s. ?P m s)")
proof -
  let ?fds = "folds_in rows (spine_of rows main)"
  have once: "distinct (concat (map snd ?fds))" using folds_in_ok(1) [of rows main] by (simp add: sides_ok_def)
  have fresh: "lr_side (rows ! k) = None" using assms by (auto simp: list_all_length fresh_row_def)
  show ?thesis
  proof (cases "List.find (\<lambda>(m, s). k \<in> set s) ?fds")
    case None
    then have "lr_side (shape rows main ! k) = None" using shape_row [OF assms(1), of main] fresh by simp
    moreover from None have "\<nexists>m s. ?P m s" by (auto simp: find_None_iff)
    ultimately show ?thesis by simp
  next
    case (Some y)
    obtain m s where y: "y = (m, s)" by (cases y)
    with Some have "(m, s) \<in> set ?fds" "k \<in> set s" by (auto simp: find_Some_iff in_set_conv_nth)
    moreover have "lr_side (shape rows main ! k) = Some (lr_hash (rows ! m))" using shape_row [OF assms(1), of main] Some y by simp
    moreover have "m' = m" if "(m', s') \<in> set ?fds" "k \<in> set s'" for m' s'
      using concat_once [OF once that(1) \<open>(m, s) \<in> set ?fds\<close> that(2) \<open>k \<in> set s\<close>] by simp
    ultimately show ?thesis by (metis option.inject)
  qed
qed

lemma at_of_hash: "distinct (map lr_hash rows) \<Longrightarrow> j < length rows \<Longrightarrow> at_of rows (lr_hash (rows ! j)) = Some j"
  unfolding at_of_def by (rule map_of_is_SomeI) (auto simp: rev_map [symmetric] set_zip intro!: exI [of _ j])

lemma shape_merge:
  assumes "distinct (map lr_hash rows)" "list_all fresh_row rows" "(m, s) \<in> set (folds_in rows (spine_of rows main))"
  shows "m < length rows" "on_chain rows main m" "lr_fold (shape rows main ! m) = length s"
    "{j. j < length rows \<and> lr_side (shape rows main ! j) = Some (lr_hash (rows ! m))} = set s"
proof -
  let ?fds = "folds_in rows (spine_of rows main)"
  have ok: "sides_ok rows (spine_of rows main) ?fds" by (rule folds_in_ok)
  have chain: "on_chain rows main m'" if "(m', s') \<in> set ?fds" for m' s' using ok that by (auto simp: sides_ok_def spine_of_chain)
  then show "on_chain rows main m" using assms(3) .
  then show "m < length rows" by (rule on_chain_row)
  have "map_of ?fds m = Some s" using ok assms(3) by (simp add: sides_ok_def)
  then show "lr_fold (shape rows main ! m) = length s" using shape_row [OF \<open>m < length rows\<close>, of main] by simp
  have "m' = m" if "(m', s') \<in> set ?fds" "lr_hash (rows ! m') = lr_hash (rows ! m)" for m' s'
    using that(2) at_of_hash [OF assms(1) \<open>m < length rows\<close>] at_of_hash [OF assms(1) on_chain_row [OF chain [OF that(1)]]] by simp
  moreover have "s' = s" if "(m, s') \<in> set ?fds" for s' using ok that assms(3) by (auto simp: sides_ok_def dest: eq_key_imp_eq_value)
  moreover have "set s \<subseteq> {..<length rows}" using ok assms(3) by (force simp: sides_ok_def)
  ultimately show "{j. j < length rows \<and> lr_side (shape rows main ! j) = Some (lr_hash (rows ! m))} = set s"
    using shape_side [OF _ assms(2), of _ main "lr_hash (rows ! m)"] assms(3) by blast
qed

lemma folds_in_stable: "x \<in> set (folds_in rows spine) \<Longrightarrow> keeps_fold rows (concat (map snd (folds_in rows spine))) x"
  unfolding folds_in_def by (rule fold_loop_stable)

text \<open>
  C36. Shaping the rows of a log changes only the marks. The spine is main's chain of first parents. A row is hidden
  only in a merge on the spine that brought it in, together with more than three rows, as many as the merge says;
  and whatever commit builds on a hidden one is hidden too, or is that merge.
\<close>

theorem shape_folds:
  assumes "distinct (map lr_hash rows)" "list_all fresh_row rows" "shape rows main = out"
  shows "map bare_row out = map bare_row rows \<and>
    (\<forall>i < length rows. lr_spine (out ! i) = on_chain rows main i) \<and>
    (\<forall>i < length rows. \<forall>h. lr_side (out ! i) = Some h \<longrightarrow> \<not> lr_spine (out ! i) \<and>
      (\<exists>m < length rows. lr_hash (rows ! m) = h \<and> lr_spine (out ! m) \<and> brought_in rows m i \<and>
        lr_fold (out ! m) = card {j. j < length rows \<and> lr_side (out ! j) = Some h} \<and> FOLD_OVER < lr_fold (out ! m))) \<and>
    (\<forall>i < length rows. \<forall>j < length rows. \<forall>h. lr_hash (rows ! j) \<in> set (lr_parents (rows ! i)) \<and> lr_side (out ! j) = Some h \<longrightarrow>
      lr_side (out ! i) \<noteq> None \<or> lr_hash (rows ! i) = h)"
proof (intro conjI)
  let ?fds = "folds_in rows (spine_of rows main)"
  have fresh: "fresh_row (rows ! i)" if "i < length rows" for i using assms(2) that by (simp add: list_all_length)
  have len: "length out = length rows" using assms(3) by (auto simp: shape_def Let_def length_marked)
  show "map bare_row out = map bare_row rows"
    by (rule nth_equalityI) (use len shape_row [of _ rows main] assms(3) in \<open>auto simp: bare_row_def\<close>)
  show spine: "\<forall>i < length rows. lr_spine (out ! i) = on_chain rows main i"
    using shape_row [of _ rows main] assms(3) fresh by (simp add: fresh_row_def)
  show "\<forall>i < length rows. \<forall>h. lr_side (out ! i) = Some h \<longrightarrow> \<not> lr_spine (out ! i) \<and>
      (\<exists>m < length rows. lr_hash (rows ! m) = h \<and> lr_spine (out ! m) \<and> brought_in rows m i \<and>
        lr_fold (out ! m) = card {j. j < length rows \<and> lr_side (out ! j) = Some h} \<and> FOLD_OVER < lr_fold (out ! m))"
  proof (intro allI impI)
    fix i h
    assume i: "i < length rows" "lr_side (out ! i) = Some h"
    from i shape_side [OF i(1) assms(2), of main h] assms(3) obtain m s where ms: "(m, s) \<in> set ?fds" "i \<in> set s" "lr_hash (rows ! m) = h" by auto
    have ok: "sides_ok rows (spine_of rows main) ?fds" by (rule folds_in_ok)
    then have "set s \<inter> set (spine_of rows main) = {}" "\<forall>i \<in> set s. brought_in rows m i" "distinct s"
      using ms(1) by (fastforce simp: sides_ok_def, fastforce simp: sides_ok_def, auto simp: sides_ok_def distinct_concat_iff)
    then have "i \<notin> set (spine_of rows main)" "brought_in rows m i" "card (set s) = length s" using ms(2) by (auto simp: distinct_card)
    with shape_merge [OF assms(1,2) ms(1)] ms(3) spine i(1) folds_in_ok(2) [OF ms(1)] assms(3)
    show "\<not> lr_spine (out ! i) \<and> (\<exists>m < length rows. lr_hash (rows ! m) = h \<and> lr_spine (out ! m) \<and> brought_in rows m i \<and>
        lr_fold (out ! m) = card {j. j < length rows \<and> lr_side (out ! j) = Some h} \<and> FOLD_OVER < lr_fold (out ! m))"
      by (simp add: spine_of_chain) (metis)
  qed
  show "\<forall>i < length rows. \<forall>j < length rows. \<forall>h. lr_hash (rows ! j) \<in> set (lr_parents (rows ! i)) \<and> lr_side (out ! j) = Some h \<longrightarrow>
      lr_side (out ! i) \<noteq> None \<or> lr_hash (rows ! i) = h"
  proof (intro allI impI)
    fix i j h
    assume ij: "i < length rows" "j < length rows" and p: "lr_hash (rows ! j) \<in> set (lr_parents (rows ! i)) \<and> lr_side (out ! j) = Some h"
    with shape_side [OF ij(2) assms(2), of main h] assms(3) obtain m s where ms: "(m, s) \<in> set ?fds" "j \<in> set s" "lr_hash (rows ! m) = h" by auto
    have "j \<in> set (parent_rows rows (lr_parents (rows ! i)))"
      using p at_of_hash [OF assms(1) ij(2)] by (force simp: parent_rows_def List.map_filter_def)
    with folds_in_stable [OF ms(1)] ms(2) ij(1) have "i = m \<or> i \<in> set (concat (map snd ?fds))" by (auto simp: keeps_fold_def)
    with ms(3) shape_side [OF ij(1) assms(2), of main] assms(3) show "lr_side (out ! i) \<noteq> None \<or> lr_hash (rows ! i) = h" by fastforce
  qed
qed

subsection \<open>Which finished tasks are merged\<close>

definition hash_parents :: "log_row list \<Rightarrow> string \<Rightarrow> string list" where
  "hash_parents rows h = (case at_of rows h of Some i \<Rightarrow> lr_parents (rows ! i) | None \<Rightarrow> [])"

interpretation main: work_list "\<lambda>h. at_of rows h = None" "hash_parents rows" "in_main_loop rows"
  "measures [\<lambda>(todo, seen). card (lr_hash ` set rows - set seen), \<lambda>(todo, _). length todo]" for rows
proof
  fix h seen todo
  assume "at_of rows h = None \<or> h \<in> set seen"
  then show "in_main_loop rows (h # todo) seen = in_main_loop rows todo seen \<and>
      ((todo, seen), h # todo, seen) \<in> measures [\<lambda>(todo, seen). card (lr_hash ` set rows - set seen), \<lambda>(todo, _). length todo]"
    by (auto split: option.split)
next
  fix h seen todo
  assume h: "at_of rows h \<noteq> None" "h \<notin> set seen"
  then obtain i where i: "at_of rows h = Some i" by auto
  let ?todo = "rev (hash_parents rows h) @ todo"
  have "((?todo, seen @ [h]), h # todo, seen) \<in> measures [\<lambda>(todo, seen). card (lr_hash ` set rows - set seen), \<lambda>(todo, _). length todo]"
    by (rule measures_less) (use unseen_hash_smaller [OF i h(2)] in simp)
  with i h(2) show "\<exists>todo'. set todo' = set (hash_parents rows h) \<union> set todo \<and> in_main_loop rows (h # todo) seen = in_main_loop rows todo' (seen @ [h]) \<and>
      ((todo', seen @ [h]), h # todo, seen) \<in> measures [\<lambda>(todo, seen). card (lr_hash ` set rows - set seen), \<lambda>(todo, _). length todo]"
    by (intro exI [of _ ?todo]) (auto simp: hash_parents_def)
qed auto

lemma at_of_known: "at_of rows h \<noteq> None \<longleftrightarrow> h \<in> lr_hash ` set rows"
proof -
  have "set (map fst (zip (map lr_hash rows) [0..<length rows])) = lr_hash ` set rows" by (subst map_fst_zip) simp_all
  then have "fst ` set (zip (map lr_hash rows) [0..<length rows]) = lr_hash ` set rows" by (simp only: set_map)
  then show ?thesis by (simp add: at_of_def map_of_eq_None_iff)
qed

text \<open>
  A finished task of the repository whose tip is among the rows has a label, and no other task has one; it counts as merged
  just when its tip is reached from main along parents through the rows shown.
\<close>

lemma done_labels_exact:
  "set (done_labels fs repo rows main tasks) =
    {\<lparr>lb_id = tr_id t, lb_name = task_name t, lb_place = tr_place t, lb_branch = b, lb_tip = tip, lb_ahead = 0, lb_behind = 0,
      lb_merged = reached_by (\<lambda>h. at_of rows h = None) (hash_parents rows) (set_option main) tip\<rparr> | t b tip.
      t \<in> set tasks \<and> tr_place t = ''done'' \<and> repo_owns fs repo (tr_repo t) \<and> tr_branch t = Some b \<and> tr_tip t = Some tip \<and> tip \<in> lr_hash ` set rows}"
proof -
  let ?in_main = "in_main_loop rows (case main of Some m \<Rightarrow> [m] | None \<Rightarrow> []) []"
  have found: "tip \<in> set ?in_main \<longleftrightarrow> reached_by (\<lambda>h. at_of rows h = None) (hash_parents rows) (set_option main) tip" for tip
    unfolding main.loop_finds by (cases main) simp_all
  have known: "at_of rows tip \<noteq> None \<longleftrightarrow> tip \<in> lr_hash ` set rows" for tip by (rule at_of_known)
  let ?label = "\<lambda>t b tip. \<lparr>lb_id = tr_id t, lb_name = task_name t, lb_place = tr_place t, lb_branch = b, lb_tip = tip,
    lb_ahead = 0, lb_behind = 0, lb_merged = (tip \<in> set ?in_main)\<rparr>"
  have "set (List.map_filter f xs) = {y. \<exists>x \<in> set xs. f x = Some y}" for f :: "task_ref \<Rightarrow> log_label option" and xs
    by (force simp: List.map_filter_def)
  then have "x \<in> set (done_labels fs repo rows main tasks) \<longleftrightarrow> (\<exists>t b tip. t \<in> set tasks \<and> tr_place t = ''done'' \<and> repo_owns fs repo (tr_repo t) \<and>
      tr_branch t = Some b \<and> tr_tip t = Some tip \<and> at_of rows tip \<noteq> None \<and> x = ?label t b tip)" for x
    unfolding done_labels_def Let_def by (auto simp: bind_eq_Some_conv)
  then show ?thesis unfolding known found by blast
qed

definition demo_row :: "string \<Rightarrow> string list \<Rightarrow> log_row" where
  "demo_row h ps = \<lparr>lr_hash = h, lr_parents = ps, lr_author = [], lr_time = 0, lr_refs = [], lr_subject = [], lr_spine = False, lr_side = None, lr_fold = 0\<rparr>"

definition demo_rows :: "log_row list" where
  "demo_rows = [demo_row ''m2'' [''m1'', ''a4''], demo_row ''a4'' [''a3''], demo_row ''a3'' [''a2''], demo_row ''a2'' [''a1''], demo_row ''a1'' [''m1''], demo_row ''m1'' []]"

theorem shape_folds_witness:
  "distinct (map lr_hash demo_rows) \<and> list_all fresh_row demo_rows \<and> map bare_row (shape demo_rows (Some ''m2'')) = map bare_row demo_rows \<and>
    lr_spine (shape demo_rows (Some ''m2'') ! 0) = on_chain demo_rows (Some ''m2'') 0"
proof -
  have "distinct (map lr_hash demo_rows)" "list_all fresh_row demo_rows" "0 < length demo_rows"
    by (simp_all add: demo_rows_def demo_row_def fresh_row_def)
  with shape_folds [OF this(1,2) refl, of "Some ''m2''"] show ?thesis by simp
qed

end
