(* ===== verification/Kanna_BTree.thy ===== *)
theory Kanna_BTree
  imports Main "HOL-Library.List_Lexorder" "HOL-Library.Char_ord"
begin

text \<open>
  \<open>BTreeMap\<close> and \<open>BTreeSet\<close> of Rust's standard library as sorted lists: the order in which they are iterated is
  part of what the code computes. Strings are ordered by their bytes.
\<close>

type_synonym ('k, 'v) btree = "('k \<times> 'v) list"

fun bt_insert :: "'k :: linorder \<Rightarrow> 'v \<Rightarrow> ('k, 'v) btree \<Rightarrow> ('k, 'v) btree" where
  "bt_insert k v [] = [(k, v)]"
| "bt_insert k v ((l, w) # m) = (if k < l then (k, v) # (l, w) # m else if k = l then (k, v) # m else (l, w) # bt_insert k v m)"

definition bt_remove :: "'k \<Rightarrow> ('k, 'v) btree \<Rightarrow> ('k, 'v) btree" where
  "bt_remove k m = filter (\<lambda>(l, _). l \<noteq> k) m"

definition bt_ok :: "('k :: linorder, 'v) btree \<Rightarrow> bool" where
  "bt_ok m \<longleftrightarrow> sorted_wrt (<) (map fst m)"

fun bs_insert :: "'k :: linorder \<Rightarrow> 'k list \<Rightarrow> 'k list" where
  "bs_insert k [] = [k]"
| "bs_insert k (l # s) = (if k < l then k # l # s else if k = l then l # s else l # bs_insert k s)"

definition bs_of :: "'k :: linorder list \<Rightarrow> 'k list" where
  "bs_of xs = foldl (\<lambda>s x. bs_insert x s) [] xs"

lemma map_of_bt_insert [simp]: "map_of (bt_insert k v m) = (map_of m)(k \<mapsto> v)"
  by (induction k v m rule: bt_insert.induct) (auto simp: fun_eq_iff)

lemma map_of_bt_remove [simp]: "map_of (bt_remove k m) = (map_of m)(k := None)"
  by (induction m) (auto simp: bt_remove_def fun_eq_iff)

lemma fst_bt_insert [simp]: "fst ` set (bt_insert k v m) = insert k (fst ` set m)"
  by (induction k v m rule: bt_insert.induct) auto

lemma fst_bt_remove [simp]: "fst ` set (bt_remove k m) = fst ` set m - {k}"
  by (auto simp: bt_remove_def image_iff)

lemma bt_ok_Nil [simp]: "bt_ok []"
  by (simp add: bt_ok_def)

lemma bt_insert_ok [simp]: "bt_ok m \<Longrightarrow> bt_ok (bt_insert k v m)"
proof (induction k v m rule: bt_insert.induct)
  case (2 k v l w m)
  have "set (map fst (bt_insert k v m)) = insert k (fst ` set m)" by simp
  with 2 show ?case by (auto simp: bt_ok_def)
qed (simp add: bt_ok_def)

lemma bt_remove_ok [simp]: "bt_ok m \<Longrightarrow> bt_ok (bt_remove k m)"
  by (auto simp: bt_ok_def bt_remove_def sorted_wrt_map intro: sorted_wrt_filter)

lemma bt_ok_distinct: "bt_ok m \<Longrightarrow> distinct (map fst m)"
  by (auto simp: bt_ok_def strict_sorted_iff)

text \<open>A sorted map is determined by what it maps.\<close>

lemma bt_eqI: "bt_ok m \<Longrightarrow> bt_ok n \<Longrightarrow> map_of m = map_of n \<Longrightarrow> m = n"
proof -
  assume a: "bt_ok m" "bt_ok n" "map_of m = map_of n"
  then have "set m = set n" using map_of_inject_set [OF bt_ok_distinct bt_ok_distinct] by blast
  moreover have "inj_on fst (set m)" using bt_ok_distinct [OF a(1)] by (simp add: distinct_map)
  ultimately show "m = n"
    using a(1,2) by (intro map_sorted_distinct_set_unique [where f = fst]) (auto simp: bt_ok_def strict_sorted_iff)
qed

lemma length_bt_remove: "k \<in> fst ` set m \<Longrightarrow> length (bt_remove k m) < length m"
  unfolding bt_remove_def by (force intro: length_filter_less)

lemma set_bs_insert [simp]: "set (bs_insert k s) = insert k (set s)"
  by (induction k s rule: bs_insert.induct) auto

lemma set_bs_of [simp]: "set (bs_of xs) = set xs"
  unfolding bs_of_def by (induction xs rule: rev_induct) auto

lemma bs_insert_ok: "sorted_wrt (<) s \<Longrightarrow> sorted_wrt (<) (bs_insert k s)"
  by (induction k s rule: bs_insert.induct) auto

lemma bs_of_ok: "sorted_wrt (<) (bs_of (xs :: 'k :: linorder list))"
  unfolding bs_of_def by (induction xs rule: rev_induct) (simp_all add: bs_insert_ok)

lemma bs_eqI: "sorted_wrt (<) (s :: 'k :: linorder list) \<Longrightarrow> sorted_wrt (<) t \<Longrightarrow> set s = set t \<Longrightarrow> s = t"
  by (rule strict_sorted_equal [symmetric]) simp_all

end
