(* ===== verification/Net_Log.thy ===== *)
theory Net_Log
  imports Mux_Json Kanna_BTree
begin

text \<open>
  The log of machines that trust each other (\<open>kanna-net/src/log.rs\<close>, and the encodings of \<open>lib.rs\<close>): signed entries that
  add and revoke keys, each naming the entries it was made after. Signatures, the hash, the text of JSON, and the
  order in which a \<open>HashSet\<close> is iterated are arguments (\<open>net_env\<close>).
\<close>

subsection \<open>Encodings\<close>

text \<open>
  \<open>ne_verify\<close> is the check of a signature of 64 bytes by a key of 32 (a key that is none verifies nothing),
  \<open>ne_sign\<close> and \<open>ne_public\<close> are those of a secret, \<open>ne_sha\<close> is SHA-256, \<open>ne_encode\<close> is \<open>serde_json::to_vec\<close>, and
  \<open>ne_order\<close> the order a set is iterated in.
\<close>

record net_env =
  ne_verify :: "string \<Rightarrow> string \<Rightarrow> string \<Rightarrow> bool"
  ne_sign :: "string \<Rightarrow> string \<Rightarrow> string"
  ne_public :: "string \<Rightarrow> string"
  ne_sha :: "string \<Rightarrow> string"
  ne_encode :: "json \<Rightarrow> string"
  ne_order :: "string list \<Rightarrow> string list"

primrec sorted_json :: "json \<Rightarrow> json" where
  "sorted_json Null = Null"
| "sorted_json (JBool b) = JBool b"
| "sorted_json (JNumber n) = JNumber n"
| "sorted_json (JString s) = JString s"
| "sorted_json (JArray xs) = JArray (map sorted_json xs)"
| "sorted_json (JObject fs) = JObject (sort_key fst (map (map_prod (\<lambda>k. k) sorted_json) fs))"

definition canonical :: "net_env \<Rightarrow> json \<Rightarrow> string" where
  "canonical env v = ne_encode env (sorted_json v)"

definition hex_nibble :: "nat \<Rightarrow> char" where
  "hex_nibble n = (if n < 10 then char_of (48 + n) else char_of (87 + n))"

definition net_hex :: "string \<Rightarrow> string" where
  "net_hex bs = concat (map (\<lambda>b. [hex_nibble (code b div 16), hex_nibble (code b mod 16)]) bs)"

definition nibble_value :: "char \<Rightarrow> nat option" where
  "nibble_value c =
     (if 48 \<le> code c \<and> code c \<le> 57 then Some (code c - 48)
      else if 97 \<le> code c \<and> code c \<le> 102 then Some (code c - 87)
      else if 65 \<le> code c \<and> code c \<le> 70 then Some (code c - 55) else None)"

text \<open>\<open>u8::from_str_radix\<close> takes a sign too.\<close>

definition hex_pair :: "char \<Rightarrow> char \<Rightarrow> char option" where
  "hex_pair a b =
     (if a = CHR ''+'' then map_option char_of (nibble_value b)
      else case (nibble_value a, nibble_value b) of (Some x, Some y) \<Rightarrow> Some (char_of (16 * x + y)) | _ \<Rightarrow> None)"

fun hex_pairs :: "string \<Rightarrow> string option" where
  "hex_pairs (a # b # r) = (case (hex_pair a b, hex_pairs r) of (Some c, Some bs) \<Rightarrow> Some (c # bs) | _ \<Rightarrow> None)"
| "hex_pairs _ = Some []"

definition net_unhex :: "string \<Rightarrow> string option" where
  "net_unhex t = (if odd (length t) \<or> \<not> list_all (\<lambda>c. code c < 128) t then None else hex_pairs t)"

definition net_digest :: "net_env \<Rightarrow> json \<Rightarrow> string" where
  "net_digest env v = net_hex (ne_sha env (canonical env v))"

text \<open>Indexing a value gives null for what is not there; \<open>as_str().unwrap_or_default()\<close>; comparison with a text.\<close>

definition jix :: "json \<Rightarrow> string \<Rightarrow> json" where
  "jix v k = (case jget v k of Some w \<Rightarrow> w | None \<Rightarrow> Null)"

definition jtext :: "json \<Rightarrow> string" where
  "jtext v = (case as_str v of Some s \<Rightarrow> s | None \<Rightarrow> [])"

definition jstrings :: "json \<Rightarrow> string list" where
  "jstrings v = (case as_array v of Some xs \<Rightarrow> List.map_filter as_str xs | None \<Rightarrow> [])"

text \<open>Equality of values, which ignores the order of fields.\<close>

definition json_eq :: "json \<Rightarrow> json \<Rightarrow> bool" where
  "json_eq a b \<longleftrightarrow> sorted_json a = sorted_json b"

datatype net_error = Refused string | Net_Panic

definition NET_DOMAIN :: string where "NET_DOMAIN = ''kanna/machines/1''"

subsection \<open>Views\<close>

record net_view =
  vw_names :: "(string, string list) btree"
  vw_revoked :: "string list"
  vw_descriptors :: "(string, json) btree"

definition trusted :: "net_view \<Rightarrow> string list" where
  "trusted v = bs_of (filter (\<lambda>k. k \<notin> set (vw_revoked v)) (List.map_filter (\<lambda>(_, keys). case keys of [k] \<Rightarrow> Some k | _ \<Rightarrow> None) (vw_names v)))"

definition is_phone :: "net_view \<Rightarrow> string \<Rightarrow> bool" where
  "is_phone v key \<longleftrightarrow> (case map_of (vw_descriptors v) key of Some d \<Rightarrow> jix d ''role'' = JString ''phone'' | None \<Rightarrow> False)"

definition machines :: "net_view \<Rightarrow> string list" where
  "machines v = filter (\<lambda>k. \<not> is_phone v k) (trusted v)"

definition phones :: "net_view \<Rightarrow> string list" where
  "phones v = filter (is_phone v) (trusted v)"

definition resolve_name :: "net_view \<Rightarrow> string \<Rightarrow> string \<Rightarrow> net_error + unit" where
  "resolve_name v name key =
     (case map_of (vw_names v) name of
        None \<Rightarrow> Inl (Refused ''unpaired'')
      | Some keys \<Rightarrow>
          if length keys \<noteq> 1 \<or> key \<notin> set keys then Inl (Refused ''identity_mismatch'')
          else if key \<in> set (vw_revoked v) then Inl (Refused ''revoked'') else Inr ())"

definition name_of :: "net_view \<Rightarrow> string \<Rightarrow> string option" where
  "name_of v key = map_option fst (List.find (\<lambda>(_, keys). length keys = 1 \<and> key \<in> set keys) (vw_names v))"

definition key_of :: "net_view \<Rightarrow> string \<Rightarrow> string option" where
  "key_of v name = (case map_of (vw_names v) name of Some [k] \<Rightarrow> Some k | _ \<Rightarrow> None)"

subsection \<open>Signatures\<close>

definition verify :: "net_env \<Rightarrow> string \<Rightarrow> string \<Rightarrow> string \<Rightarrow> bool" where
  "verify env key signature message =
     (case (net_unhex key, net_unhex signature) of
        (Some k, Some s) \<Rightarrow> length k = 32 \<and> length s = 64 \<and> ne_verify env k s message
      | _ \<Rightarrow> False)"

definition sign :: "net_env \<Rightarrow> string \<Rightarrow> string \<Rightarrow> string" where
  "sign env secret message = net_hex (ne_sign env secret message)"

definition certificate :: "net_env \<Rightarrow> string \<Rightarrow> string \<Rightarrow> json" where
  "certificate env secret app_key =
     (let body = JObject [(''domain'', JString (NET_DOMAIN @ ''/app'')), (''key'', JString app_key), (''device'', JString (ne_public env secret))]
      in JObject [(''body'', body), (''signature'', JString (sign env secret (canonical env body)))])"

subsection \<open>The log\<close>

record peer_log =
  pl_anchor :: json
  pl_id :: string
  pl_events :: "(string, json) btree"
  pl_pending :: "(string, json) btree"

definition new_log :: "net_env \<Rightarrow> json \<Rightarrow> peer_log" where
  "new_log env anchor = \<lparr>pl_anchor = anchor, pl_id = net_digest env anchor, pl_events = [], pl_pending = []\<rparr>"

definition body_of :: "json \<Rightarrow> json" where
  "body_of e = jix e ''body''"

definition parents_of :: "json \<Rightarrow> string list" where
  "parents_of e = jstrings (jix (body_of e) ''parents'')"

definition signer_of :: "json \<Rightarrow> string" where
  "signer_of e = jtext (jix (body_of e) ''signer'')"

definition kind_is :: "json \<Rightarrow> string \<Rightarrow> bool" where
  "kind_is e k \<longleftrightarrow> jix (body_of e) ''kind'' = JString k"

definition payload_of :: "json \<Rightarrow> json" where
  "payload_of e = jix (body_of e) ''payload''"

definition payload_key :: "json \<Rightarrow> string" where
  "payload_key e = jtext (jix (payload_of e) ''key'')"

definition payload_name :: "json \<Rightarrow> string" where
  "payload_name e = jtext (jix (payload_of e) ''name'')"

text \<open>The stack has its top at the head; a name without an event is the index that panics.\<close>

lemma unseen_key_smaller:
  assumes "map_of m k = Some v" "k \<notin> set seen"
  shows "card (fst ` set m - set (seen @ [k])) < card (fst ` set m - set seen)"
proof (rule psubset_card_mono)
  have "k \<in> fst ` set m" using map_of_SomeD [OF assms(1)] by force
  with assms(2) show "fst ` set m - set (seen @ [k]) \<subset> fst ` set m - set seen" by auto
qed simp

function ancestors_loop :: "(string, json) btree \<Rightarrow> string list \<Rightarrow> string list \<Rightarrow> net_error + string list" where
  "ancestors_loop events [] found = Inr found"
| "ancestors_loop events (i # todo) found =
     (if i \<in> set found then ancestors_loop events todo found
      else case map_of events i of
             None \<Rightarrow> Inl Net_Panic
           | Some e \<Rightarrow> ancestors_loop events (rev (parents_of e) @ todo) (found @ [i]))"
  by pat_completeness auto
termination
  by (relation "measures [\<lambda>(events, _, found). card (fst ` set events - set found), \<lambda>(_, todo, _). length todo]")
     (auto intro!: unseen_key_smaller [simplified])

definition ancestors :: "(string, json) btree \<Rightarrow> string list \<Rightarrow> net_error + string list" where
  "ancestors events parents = ancestors_loop events (rev parents) []"

text \<open>An entry that adds is accepted only with a key in its payload, so the payload is an object.\<close>

definition merge_descriptor :: "json \<Rightarrow> json \<Rightarrow> json" where
  "merge_descriptor known newer =
     (let addrs = foldl (\<lambda>as a. if a \<in> set as then as else as @ [a]) (jstrings (jix known ''addrs'')) (jstrings (jix newer ''addrs''))
      in case newer of
           JObject fs \<Rightarrow> JObject (oinsert ''addrs'' (JArray (map JString addrs)) fs)
         | Null \<Rightarrow> JObject [(''addrs'', JArray (map JString addrs))]
         | v \<Rightarrow> v)"

text \<open>
  What the revocations among some entries take away, and what each of them had seen. A key without revocations
  has seen nothing.
\<close>

fun revocations :: "(string, json) btree \<Rightarrow> string list \<Rightarrow> string list \<Rightarrow> (string \<Rightarrow> string list) \<Rightarrow> net_error + string list \<times> (string \<Rightarrow> string list)" where
  "revocations events [] revoked seen = Inr (revoked, seen)"
| "revocations events (i # ids) revoked seen =
     (case map_of events i of
        None \<Rightarrow> Inl Net_Panic
      | Some e \<Rightarrow>
          if kind_is e ''revoke''
          then (case ancestors events (parents_of e) of
                  Inl x \<Rightarrow> Inl x
                | Inr as \<Rightarrow> revocations events ids (bs_insert (payload_key e) revoked) (seen(payload_key e := seen (payload_key e) @ as)))
          else revocations events ids revoked seen)"

record view_pass =
  vp_kept :: "string list"
  vp_signers :: "string list"
  vp_names :: "(string, string list) btree"
  vp_descriptors :: "(string, json) btree"

definition may_add :: "string list \<Rightarrow> (string \<Rightarrow> string list) \<Rightarrow> string list \<Rightarrow> string \<Rightarrow> json \<Rightarrow> bool" where
  "may_add revoked seen signers i e \<longleftrightarrow> signer_of e \<in> set signers \<and> \<not> (signer_of e \<in> set revoked \<and> i \<notin> set (seen (signer_of e)))"

definition add_name :: "string \<Rightarrow> string \<Rightarrow> (string, string list) btree \<Rightarrow> (string, string list) btree" where
  "add_name name key m = bt_insert name (bs_insert key (case map_of m name of Some ks \<Rightarrow> ks | None \<Rightarrow> [])) m"

definition add_entry :: "json \<Rightarrow> view_pass \<Rightarrow> view_pass" where
  "add_entry e p =
     (let key = payload_key e
      in p\<lparr>vp_signers := key # vp_signers p, vp_names := add_name (payload_name e) key (vp_names p),
           vp_descriptors := bt_insert key (case map_of (vp_descriptors p) key of
               Some known \<Rightarrow> merge_descriptor known (payload_of e) | None \<Rightarrow> payload_of e) (vp_descriptors p)\<rparr>)"

definition pass_step :: "(string, json) btree \<Rightarrow> string list \<Rightarrow> (string \<Rightarrow> string list) \<Rightarrow> view_pass \<Rightarrow> string \<Rightarrow> view_pass" where
  "pass_step events revoked seen p i =
     (let e = (case map_of events i of Some e \<Rightarrow> e | None \<Rightarrow> Null)
      in if may_add revoked seen (vp_signers p) i e then add_entry e p else p\<lparr>vp_kept := vp_kept p @ [i]\<rparr>)"

text \<open>Passes over the entries that add, until none is taken.\<close>

lemma pass_kept: "length (vp_kept (foldl (pass_step events revoked seen) p ids)) \<le> length (vp_kept p) + length ids"
proof (induction ids arbitrary: p)
  case (Cons i ids)
  have "length (vp_kept (pass_step events revoked seen p i)) \<le> Suc (length (vp_kept p))" by (simp add: pass_step_def add_entry_def Let_def)
  with Cons [of "pass_step events revoked seen p i"] show ?case by simp
qed simp

function view_loop :: "(string, json) btree \<Rightarrow> string list \<Rightarrow> (string \<Rightarrow> string list) \<Rightarrow> view_pass \<Rightarrow> view_pass" where
  "view_loop events revoked seen p =
     (let q = foldl (pass_step events revoked seen) (p\<lparr>vp_kept := []\<rparr>) (vp_kept p)
      in if length (vp_kept q) = length (vp_kept p) then q else view_loop events revoked seen q)"
  by pat_completeness auto
termination
proof (relation "measure (\<lambda>(_, _, _, p). length (vp_kept p))", simp)
  fix events :: "(string, json) btree" and revoked seen p q
  assume "q = foldl (pass_step events revoked seen) (p\<lparr>vp_kept := []\<rparr>) (vp_kept p)" "length (vp_kept q) \<noteq> length (vp_kept p)"
  with pass_kept [of events revoked seen "p\<lparr>vp_kept := []\<rparr>" "vp_kept p"]
  show "((events, revoked, seen, q), events, revoked, seen, p) \<in> measure (\<lambda>(_, _, _, p). length (vp_kept p))" by simp
qed

declare view_loop.simps [simp del]

definition view_of :: "peer_log \<Rightarrow> string list \<Rightarrow> net_error + net_view" where
  "view_of l ids =
     (let anchor_key = jtext (jix (pl_anchor l) ''key'')
      in case revocations (pl_events l) ids [] (\<lambda>_. []) of
           Inl x \<Rightarrow> Inl x
         | Inr (revoked, seen) \<Rightarrow>
             (let adds = filter (\<lambda>i. case map_of (pl_events l) i of Some e \<Rightarrow> kind_is e ''add'' | None \<Rightarrow> False) ids;
                  p = view_loop (pl_events l) revoked seen
                        \<lparr>vp_kept = adds, vp_signers = [anchor_key], vp_names = add_name (jtext (jix (pl_anchor l) ''name'')) anchor_key [],
                         vp_descriptors = [(anchor_key, pl_anchor l)]\<rparr>
              in Inr \<lparr>vw_names = vp_names p, vw_revoked = revoked, vw_descriptors = vp_descriptors p\<rparr>))"

definition log_view :: "peer_log \<Rightarrow> net_error + net_view" where
  "log_view l = view_of l (map fst (pl_events l))"

definition authorize :: "net_env \<Rightarrow> peer_log \<Rightarrow> json \<Rightarrow> net_error + unit" where
  "authorize env l e =
     (case ancestors (pl_events l) (parents_of e) of
        Inl x \<Rightarrow> Inl x
      | Inr as \<Rightarrow>
          (case view_of l (ne_order env as) of
             Inl x \<Rightarrow> Inl x
           | Inr past \<Rightarrow>
               (let signer = signer_of e; key = payload_key e; name = payload_name e
                in if signer \<notin> set (trusted past) then Inl (Refused ''untrusted_signer'')
                   else if is_phone past signer \<and> (\<not> kind_is e ''revoke'' \<or> key \<noteq> signer) then Inl (Refused ''untrusted_signer'')
                   else if kind_is e ''add'' then
                     (if key \<in> set (vw_revoked past) then Inl (Refused ''revoked'')
                      else if name = [] \<or> length key \<noteq> 64 then Inl (Refused ''bad_entry'')
                      else if (case map_of (vw_names past) name of Some keys \<Rightarrow> length keys \<noteq> 1 \<or> key \<notin> set keys | None \<Rightarrow> False)
                      then Inl (Refused ''identity_mismatch'') else Inr ())
                   else if kind_is e ''revoke'' then Inr () else Inl (Refused ''unknown_entry''))))"

text \<open>An entry is put aside once its signature holds and it is of this log.\<close>

definition stage_entry :: "net_env \<Rightarrow> string \<Rightarrow> peer_log \<Rightarrow> json \<Rightarrow> net_error + peer_log" where
  "stage_entry env ident l e =
     (let body = body_of e
      in if \<not> verify env (signer_of e) (jtext (jix e ''signature'')) (canonical env body) then Inl (Refused ''bad_signature'')
         else if jix body ''domain'' \<noteq> JString NET_DOMAIN \<or> jix body ''machines'' \<noteq> JString ident then Inl (Refused ''wrong_log'')
         else if as_array (jix body ''parents'') = None then Inl (Refused ''bad_entry'')
         else Inr (let i = net_digest env e
                   in if i \<in> fst ` set (pl_events l) then l else l\<lparr>pl_pending := bt_insert i e (pl_pending l)\<rparr>))"

fun stage_entries :: "net_env \<Rightarrow> string \<Rightarrow> peer_log \<Rightarrow> json list \<Rightarrow> net_error + peer_log" where
  "stage_entries env ident l [] = Inr l"
| "stage_entries env ident l (e # es) = (case stage_entry env ident l e of Inl x \<Rightarrow> Inl x | Inr l' \<Rightarrow> stage_entries env ident l' es)"

definition ready :: "peer_log \<Rightarrow> string list" where
  "ready l = map fst (filter (\<lambda>(_, e). set (parents_of e) \<subseteq> fst ` set (pl_events l)) (pl_pending l))"

fun admit :: "net_env \<Rightarrow> peer_log \<Rightarrow> string list \<Rightarrow> net_error + peer_log" where
  "admit env l [] = Inr l"
| "admit env l (i # ids) =
     (let e = (case map_of (pl_pending l) i of Some e \<Rightarrow> e | None \<Rightarrow> Null); l = l\<lparr>pl_pending := bt_remove i (pl_pending l)\<rparr>
      in case authorize env l e of
           Inl x \<Rightarrow> Inl x
         | Inr _ \<Rightarrow> admit env (l\<lparr>pl_events := bt_insert i e (pl_events l)\<rparr>) ids)"

lemma admit_pending: "admit env l ids = Inr l' \<Longrightarrow> length (pl_pending l') \<le> length (pl_pending l)"
proof (induction ids arbitrary: l)
  case (Cons i ids)
  let ?l = "l\<lparr>pl_pending := bt_remove i (pl_pending l)\<rparr>" and ?e = "case map_of (pl_pending l) i of Some e \<Rightarrow> e | None \<Rightarrow> Null"
  from Cons.prems have "admit env (?l\<lparr>pl_events := bt_insert i ?e (pl_events ?l)\<rparr>) ids = Inr l'"
    by (cases "authorize env ?l ?e") (simp_all add: Let_def)
  from Cons.IH [OF this] have "length (pl_pending l') \<le> length (bt_remove i (pl_pending l))" by simp
  also have "\<dots> \<le> length (pl_pending l)" by (simp add: bt_remove_def)
  finally show ?case .
qed simp

lemma admit_smaller:
  assumes "admit env l (i # ids) = Inr l'" "i \<in> fst ` set (pl_pending l)"
  shows "length (pl_pending l') < length (pl_pending l)"
proof -
  let ?l = "l\<lparr>pl_pending := bt_remove i (pl_pending l)\<rparr>" and ?e = "case map_of (pl_pending l) i of Some e \<Rightarrow> e | None \<Rightarrow> Null"
  from assms(1) have "admit env (?l\<lparr>pl_events := bt_insert i ?e (pl_events ?l)\<rparr>) ids = Inr l'"
    by (cases "authorize env ?l ?e") (simp_all add: Let_def)
  from admit_pending [OF this] length_bt_remove [OF assms(2)] show ?thesis by simp
qed

function settle :: "net_env \<Rightarrow> peer_log \<Rightarrow> net_error + peer_log" where
  "settle env l =
     (if ready l = [] then Inr l
      else case admit env l (ready l) of Inl x \<Rightarrow> Inl x | Inr l' \<Rightarrow> settle env l')"
  by pat_completeness auto
termination
proof (relation "measure (\<lambda>(_, l). length (pl_pending l))", simp)
  fix env l l'
  assume "ready l \<noteq> []" "admit env l (ready l) = Inr l'"
  moreover from this(1) obtain i ids where r: "ready l = i # ids" by (cases "ready l") auto
  moreover have "i \<in> set (ready l)" by (simp add: r)
  then have "i \<in> fst ` set (pl_pending l)" by (auto simp: ready_def)
  ultimately show "((env, l'), env, l) \<in> measure (\<lambda>(_, l). length (pl_pending l))" using admit_smaller [of env l i ids l'] by simp
qed

declare settle.simps [simp del]

definition merge :: "net_env \<Rightarrow> json list \<Rightarrow> peer_log \<Rightarrow> peer_log \<times> (net_error + nat)" where
  "merge env entries l =
     (case stage_entries env (pl_id l) l entries of
        Inl x \<Rightarrow> (l, Inl x)
      | Inr stage \<Rightarrow>
          (case settle env stage of
             Inl x \<Rightarrow> (l, Inl x)
           | Inr stage' \<Rightarrow> (stage', Inr (length (pl_events stage') - length (pl_events stage)))))"

definition log_entries :: "peer_log \<Rightarrow> json list" where
  "log_entries l = map snd (pl_events l) @ map snd (pl_pending l)"

definition log_export :: "peer_log \<Rightarrow> json" where
  "log_export l = JObject [(''anchor'', pl_anchor l), (''entries'', JArray (log_entries l))]"

definition log_sync :: "net_env \<Rightarrow> json \<Rightarrow> peer_log \<Rightarrow> peer_log \<times> (net_error + nat)" where
  "log_sync env envelope l =
     (if \<not> json_eq (jix envelope ''anchor'') (pl_anchor l) then (l, Inl (Refused ''wrong_log''))
      else merge env (case as_array (jix envelope ''entries'') of Some es \<Rightarrow> es | None \<Rightarrow> []) l)"

definition frontier :: "peer_log \<Rightarrow> string list" where
  "frontier l = filter (\<lambda>i. i \<notin> set (concat (map (\<lambda>(_, e). parents_of e) (pl_events l)))) (map fst (pl_events l))"

definition make_entry :: "net_env \<Rightarrow> peer_log \<Rightarrow> string \<Rightarrow> string \<Rightarrow> json \<Rightarrow> string list option \<Rightarrow> int \<Rightarrow> json" where
  "make_entry env l secret kind payload parents claimed_time =
     (let ps = sort (case parents of Some ps \<Rightarrow> ps | None \<Rightarrow> frontier l);
          body = JObject [(''domain'', JString NET_DOMAIN), (''machines'', JString (pl_id l)), (''kind'', JString kind),
            (''signer'', JString (ne_public env secret)), (''parents'', JArray (map JString ps)), (''payload'', payload),
            (''claimed_time'', JNumber (NInt claimed_time))]
      in JObject [(''body'', body), (''signature'', JString (sign env secret (canonical env body)))])"

definition accept_endpoint :: "net_env \<Rightarrow> peer_log \<Rightarrow> string \<Rightarrow> json option \<Rightarrow> net_error + unit" where
  "accept_endpoint env l key cert =
     (case log_view l of
        Inl x \<Rightarrow> Inl x
      | Inr v \<Rightarrow>
          if key \<in> set (vw_revoked v) then Inl (Refused ''untrusted_endpoint'')
          else if key \<in> set (machines v) then Inr ()
          else (case cert of
                  None \<Rightarrow> Inl (Refused ''untrusted_endpoint'')
                | Some c \<Rightarrow>
                    (let body = jix c ''body''; device = jtext (jix body ''device'')
                     in if \<not> verify env device (jtext (jix c ''signature'')) (canonical env body) then Inl (Refused ''bad_signature'')
                        else if jix body ''domain'' \<noteq> JString (NET_DOMAIN @ ''/app'') \<or> jix body ''key'' \<noteq> JString key \<or> device \<notin> set (machines v)
                        then Inl (Refused ''untrusted_endpoint'') else Inr ())))"

end
