(* ===== verification/Net_Past.thy ===== *)
theory Net_Past
  imports Net_Log
begin

text \<open>
  The past of an entry: the entries it was made after, and theirs. In a log that has the parents of all its entries
  it is found without fail, and it stays what it is when the log grows; so does the view of it, and with it the
  decision whether the entry is authorized.
\<close>

subsection \<open>Closed logs\<close>

definition ev_parents :: "(string, json) btree \<Rightarrow> string \<Rightarrow> string list" where
  "ev_parents es i = (case map_of es i of Some e \<Rightarrow> parents_of e | None \<Rightarrow> [])"

definition ev_closed :: "(string, json) btree \<Rightarrow> bool" where
  "ev_closed es \<longleftrightarrow> (\<forall>i \<in> fst ` set es. set (ev_parents es i) \<subseteq> fst ` set es)"

lemma in_keys: "i \<in> fst ` set es \<longleftrightarrow> map_of es i \<noteq> None"
  by (simp add: map_of_eq_None_iff)

lemma closed_parents:
  assumes "ev_closed es" "map_of es i = Some e"
  shows "set (parents_of e) \<subseteq> fst ` set es"
proof -
  have "i \<in> fst ` set es" unfolding in_keys assms(2) by simp
  with assms(1) have "set (ev_parents es i) \<subseteq> fst ` set es" unfolding ev_closed_def by (rule bspec)
  then show ?thesis by (simp add: ev_parents_def assms(2))
qed

text \<open>The loop on a log that lacks nothing, without its panic.\<close>

function past_loop :: "(string, json) btree \<Rightarrow> string list \<Rightarrow> string list \<Rightarrow> string list" where
  "past_loop es [] found = found"
| "past_loop es (i # todo) found =
     (if map_of es i = None \<or> i \<in> set found then past_loop es todo found
      else past_loop es (rev (ev_parents es i) @ todo) (found @ [i]))"
  by pat_completeness auto
termination
  by (relation "measures [\<lambda>(es, _, found). card (fst ` set es - set found), \<lambda>(_, todo, _). length todo]")
     (auto intro!: unseen_key_smaller [simplified])

interpretation past: work_list "\<lambda>i. map_of es i = None" "ev_parents es" "past_loop es"
  "measures [\<lambda>(todo, found). card (fst ` set es - set found), \<lambda>(todo, _). length todo]" for es
proof
  fix i found todo
  assume i: "map_of es i \<noteq> None" "i \<notin> set found"
  let ?todo = "rev (ev_parents es i) @ todo"
  have "((?todo, found @ [i]), i # todo, found) \<in> measures [\<lambda>(todo, found). card (fst ` set es - set found), \<lambda>(todo, _). length todo]"
    using i unseen_key_smaller [of es i _ found] by (intro measures_less) auto
  with i show "\<exists>todo'. set todo' = set (ev_parents es i) \<union> set todo \<and> past_loop es (i # todo) found = past_loop es todo' (found @ [i]) \<and>
      ((todo', found @ [i]), i # todo, found) \<in> measures [\<lambda>(todo, found). card (fst ` set es - set found), \<lambda>(todo, _). length todo]"
    by (intro exI [of _ ?todo]) auto
qed auto

lemma ancestors_loop_closed:
  "ev_closed es \<Longrightarrow> set todo \<subseteq> fst ` set es \<Longrightarrow> ancestors_loop es todo found = Inr (past_loop es todo found)"
proof (induction es todo found rule: ancestors_loop.induct)
  case (2 es i todo found)
  show ?case
  proof (cases "i \<in> set found")
    case False
    from 2(4) obtain e where e: "map_of es i = Some e" by (auto simp: in_keys)
    have "set (rev (parents_of e) @ todo) \<subseteq> fst ` set es" using 2(4) closed_parents [OF 2(3) e] by auto
    with 2(2) [OF False e 2(3)] False e show ?thesis by (simp add: ev_parents_def)
  qed (use 2 in auto)
qed simp

definition past_of :: "(string, json) btree \<Rightarrow> json \<Rightarrow> string set" where
  "past_of es e = {i. reached_by (\<lambda>i. map_of es i = None) (ev_parents es) (set (parents_of e)) i}"

lemma ancestors_past:
  assumes "ev_closed es" "set (parents_of e) \<subseteq> fst ` set es"
  obtains as where "ancestors es (parents_of e) = Inr as" "distinct as" "set as = past_of es e" "set as \<subseteq> fst ` set es"
proof
  let ?as = "past_loop es (rev (parents_of e)) []"
  show "ancestors es (parents_of e) = Inr ?as" using ancestors_loop_closed [OF assms(1)] assms(2) by (simp add: ancestors_def)
  show "distinct ?as" by (rule past.loop_finds)
  show "set ?as = past_of es e" unfolding past.loop_finds past_of_def by simp
  then show "set ?as \<subseteq> fst ` set es" by (auto simp: past_of_def in_keys dest: reached_by_not_barred)
qed

subsection \<open>Growing logs\<close>

definition ev_grows :: "(string, json) btree \<Rightarrow> (string, json) btree \<Rightarrow> bool" where
  "ev_grows es es' \<longleftrightarrow> map_of es \<subseteq>\<^sub>m map_of es'"

lemma ev_grows_same: "ev_grows es es' \<Longrightarrow> i \<in> fst ` set es \<Longrightarrow> map_of es' i = map_of es i"
  unfolding ev_grows_def map_le_def in_keys by (metis domI not_None_eq)

lemma ancestors_loop_grows:
  "ev_closed es \<Longrightarrow> ev_grows es es' \<Longrightarrow> set todo \<subseteq> fst ` set es \<Longrightarrow> ancestors_loop es' todo found = ancestors_loop es todo found"
proof (induction es todo found rule: ancestors_loop.induct)
  case (2 es i todo found)
  show ?case
  proof (cases "i \<in> set found")
    case False
    from 2(5) obtain e where e: "map_of es i = Some e" by (auto simp: in_keys)
    with ev_grows_same [OF 2(4)] 2(5) have e': "map_of es' i = Some e" by simp
    have "set (rev (parents_of e) @ todo) \<subseteq> fst ` set es" using 2(5) closed_parents [OF 2(3) e] by auto
    with 2(2) [OF False e 2(3,4)] False e e' show ?thesis by simp
  qed (use 2 in auto)
qed simp

lemma ancestors_grows:
  "ev_closed es \<Longrightarrow> ev_grows es es' \<Longrightarrow> set ps \<subseteq> fst ` set es \<Longrightarrow> ancestors es' ps = ancestors es ps"
  using ancestors_loop_grows [of es es' "rev ps"] by (simp add: ancestors_def)

lemma revocations_grows:
  "ev_closed es \<Longrightarrow> ev_grows es es' \<Longrightarrow> set ids \<subseteq> fst ` set es \<Longrightarrow> revocations es' ids revoked seen = revocations es ids revoked seen"
proof (induction ids arbitrary: revoked seen)
  case (Cons i ids)
  then obtain e where e: "map_of es i = Some e" by (auto simp: in_keys)
  with ev_grows_same [OF Cons(3)] Cons(4) have "map_of es' i = Some e" by simp
  moreover note ancestors_grows [OF Cons(2,3) closed_parents [OF Cons(2) e]]
  ultimately show ?case using Cons e by (cases "ancestors es (parents_of e)") simp_all
qed simp

lemma pass_kept_subset: "set (vp_kept (foldl (pass_step es revoked seen) p ids)) \<subseteq> set (vp_kept p) \<union> set ids"
proof (induction ids arbitrary: p)
  case (Cons i ids)
  have "set (vp_kept (pass_step es revoked seen p i)) \<subseteq> insert i (set (vp_kept p))" by (auto simp: pass_step_def add_entry_def Let_def)
  with Cons [of "pass_step es revoked seen p i"] show ?case by auto
qed simp

lemma view_loop_grows:
  "ev_grows es es' \<Longrightarrow> set (vp_kept p) \<subseteq> fst ` set es \<Longrightarrow> view_loop es' revoked seen p = view_loop es revoked seen p"
proof (induction es revoked seen p rule: view_loop.induct)
  case (1 es revoked seen p)
  let ?q = "foldl (pass_step es revoked seen) (p\<lparr>vp_kept := []\<rparr>) (vp_kept p)"
  have "pass_step es' revoked seen x i = pass_step es revoked seen x i" if "i \<in> set (vp_kept p)" for x i
    using ev_grows_same [OF 1(2) subsetD [OF 1(3) that]] by (simp add: pass_step_def)
  then have q: "foldl (pass_step es' revoked seen) (p\<lparr>vp_kept := []\<rparr>) (vp_kept p) = ?q" by (intro foldl_cong) auto
  have "set (vp_kept ?q) \<subseteq> fst ` set es" using pass_kept_subset [of es revoked seen "p\<lparr>vp_kept := []\<rparr>" "vp_kept p"] 1(3) by auto
  with 1(1) [OF refl _ 1(2)] show ?case by (simp add: view_loop.simps [of es' revoked seen p] view_loop.simps [of es revoked seen p] q Let_def)
qed

lemma view_of_grows:
  assumes "ev_closed (pl_events l)" "ev_grows (pl_events l) (pl_events l')" "pl_anchor l' = pl_anchor l" "set ids \<subseteq> fst ` set (pl_events l)"
  shows "view_of l' ids = view_of l ids"
proof -
  have "filter (\<lambda>i. case map_of (pl_events l') i of Some e \<Rightarrow> kind_is e ''add'' | None \<Rightarrow> False) ids =
      filter (\<lambda>i. case map_of (pl_events l) i of Some e \<Rightarrow> kind_is e ''add'' | None \<Rightarrow> False) ids"
    using ev_grows_same [OF assms(2) subsetD [OF assms(4)]] by (intro filter_cong) simp_all
  moreover have "set (filter P ids) \<subseteq> fst ` set (pl_events l)" for P using assms(4) by auto
  ultimately show ?thesis
    unfolding view_of_def revocations_grows [OF assms(1,2,4)] assms(3)
    by (auto simp: Let_def view_loop_grows [OF assms(2)] split: sum.split)
qed

definition order_ok :: "(string list \<Rightarrow> string list) \<Rightarrow> bool" where
  "order_ok ord \<longleftrightarrow> (\<forall>xs. distinct xs \<longrightarrow> set (ord xs) = set xs \<and> distinct (ord xs))"

text \<open>Whether an entry is authorized depends on its past alone.\<close>

lemma authorize_grows:
  assumes "ev_closed (pl_events l)" "ev_grows (pl_events l) (pl_events l')" "pl_anchor l' = pl_anchor l"
    "set (parents_of e) \<subseteq> fst ` set (pl_events l)" "order_ok (ne_order env)"
  shows "authorize env l' e = authorize env l e"
proof -
  obtain as where as: "ancestors (pl_events l) (parents_of e) = Inr as" "distinct as" "set as \<subseteq> fst ` set (pl_events l)"
    using ancestors_past [OF assms(1,4)] by metis
  with assms(5) have "set (ne_order env as) \<subseteq> fst ` set (pl_events l)" by (auto simp: order_ok_def)
  note view_of_grows [OF assms(1-3) this]
  then show ?thesis unfolding authorize_def ancestors_grows [OF assms(1,2,4)] as(1) by simp
qed

subsection \<open>No panic\<close>

lemma revocations_total:
  "ev_closed es \<Longrightarrow> set ids \<subseteq> fst ` set es \<Longrightarrow> \<exists>r. revocations es ids revoked seen = Inr r"
proof (induction ids arbitrary: revoked seen)
  case (Cons i ids)
  then obtain e where e: "map_of es i = Some e" by (auto simp: in_keys)
  moreover obtain as where "ancestors es (parents_of e) = Inr as" using ancestors_past [OF Cons(2) closed_parents [OF Cons(2) e]] by metis
  ultimately show ?case using Cons by simp
qed simp

lemma view_of_total: "ev_closed (pl_events l) \<Longrightarrow> set ids \<subseteq> fst ` set (pl_events l) \<Longrightarrow> \<exists>v. view_of l ids = Inr v"
  using revocations_total [of "pl_events l" ids "[]" "\<lambda>_. []"] by (auto simp: view_of_def Let_def split: prod.split)

lemma authorize_no_panic:
  assumes "ev_closed (pl_events l)" "set (parents_of e) \<subseteq> fst ` set (pl_events l)" "order_ok (ne_order env)"
  shows "authorize env l e \<noteq> Inl Net_Panic"
proof -
  obtain as where as: "ancestors (pl_events l) (parents_of e) = Inr as" "distinct as" "set as \<subseteq> fst ` set (pl_events l)"
    using ancestors_past [OF assms(1,2)] by metis
  with assms(3) have "set (ne_order env as) \<subseteq> fst ` set (pl_events l)" by (auto simp: order_ok_def)
  from view_of_total [OF assms(1) this] obtain v where "view_of l (ne_order env as) = Inr v" ..
  with as(1) show ?thesis by (auto simp: authorize_def Let_def)
qed

end
