(* ===== verification/Net_Reach.thy ===== *)
theory Net_Reach
  imports Net_Past
begin

text \<open>
  The logs a machine can come to hold: the empty one, and what merging entries makes of them, whatever the entries.
  All their entries are signed, come after their parents, and were authorized by what came before them; nothing that
  could be taken in is left pending. So machines that hold the same entries hold the same log.
\<close>

subsection \<open>The invariant\<close>

definition genuine :: "net_env \<Rightarrow> string \<Rightarrow> json \<Rightarrow> bool" where
  "genuine env ident e \<longleftrightarrow> verify env (signer_of e) (jtext (jix e ''signature'')) (canonical env (body_of e)) \<and>
     jix (body_of e) ''domain'' = JString NET_DOMAIN \<and> jix (body_of e) ''machines'' = JString ident \<and> as_array (jix (body_of e) ''parents'') \<noteq> None"

definition authentic :: "net_env \<Rightarrow> string \<Rightarrow> string \<times> json \<Rightarrow> bool" where
  "authentic env ident p \<longleftrightarrow> fst p = net_digest env (snd p) \<and> genuine env ident (snd p)"

definition ranked :: "(string, json) btree \<Rightarrow> bool" where
  "ranked es \<longleftrightarrow> (\<exists>r :: string \<Rightarrow> nat. \<forall>i \<in> fst ` set es. \<forall>p \<in> set (ev_parents es i). r p < r i)"

text \<open>Authorized, in some order of iterating the past.\<close>

definition allowed :: "net_env \<Rightarrow> peer_log \<Rightarrow> json \<Rightarrow> bool" where
  "allowed env l e \<longleftrightarrow> (\<exists>ord. order_ok ord \<and> authorize (env\<lparr>ne_order := ord\<rparr>) l e = Inr ())"

definition log_inv :: "net_env \<Rightarrow> peer_log \<Rightarrow> bool" where
  "log_inv env l \<longleftrightarrow> bt_ok (pl_events l) \<and> bt_ok (pl_pending l) \<and> pl_id l = net_digest env (pl_anchor l) \<and>
     fst ` set (pl_events l) \<inter> fst ` set (pl_pending l) = {} \<and>
     (\<forall>p \<in> set (pl_events l) \<union> set (pl_pending l). authentic env (pl_id l) p) \<and>
     ev_closed (pl_events l) \<and> ranked (pl_events l) \<and> (\<forall>e \<in> snd ` set (pl_events l). allowed env l e)"

inductive log_reach :: "net_env \<Rightarrow> json \<Rightarrow> peer_log \<Rightarrow> bool" for env anchor where
  begins: "log_reach env anchor (new_log env anchor)"
| merges: "log_reach env anchor l \<Longrightarrow> order_ok ord \<Longrightarrow> merge (env\<lparr>ne_order := ord\<rparr>) entries l = (l', r) \<Longrightarrow> log_reach env anchor l'"

inductive log_later :: "net_env \<Rightarrow> peer_log \<Rightarrow> peer_log \<Rightarrow> bool" for env where
  same: "log_later env l l"
| after_merge: "log_later env l l' \<Longrightarrow> order_ok ord \<Longrightarrow> merge (env\<lparr>ne_order := ord\<rparr>) entries l' = (l'', r) \<Longrightarrow> log_later env l l''"

lemma env_order_simps [simp]:
  "canonical (env\<lparr>ne_order := ord\<rparr>) = canonical env" "net_digest (env\<lparr>ne_order := ord\<rparr>) = net_digest env"
  "verify (env\<lparr>ne_order := ord\<rparr>) = verify env"
  by (simp_all add: fun_eq_iff canonical_def net_digest_def verify_def split: option.split)

lemma view_pending: "view_of (l\<lparr>pl_pending := ps\<rparr>) ids = view_of l ids"
proof -
  have "pl_events (l\<lparr>pl_pending := ps\<rparr>) = pl_events l" "pl_anchor (l\<lparr>pl_pending := ps\<rparr>) = pl_anchor l" by simp_all
  then show ?thesis unfolding view_of_def by (simp only:)
qed

lemma authorize_pending [simp]: "authorize env (l\<lparr>pl_pending := ps\<rparr>) e = authorize env l e"
  unfolding authorize_def view_pending by simp

lemma bt_lookup: "bt_ok m \<Longrightarrow> (k, v) \<in> set m \<Longrightarrow> map_of m k = Some v"
  by (simp add: bt_ok_distinct map_of_is_SomeI)

lemma set_bt_insert: "bt_ok m \<Longrightarrow> k \<notin> fst ` set m \<Longrightarrow> set (bt_insert k v m) = insert (k, v) (set m)"
  by (induction k v m rule: bt_insert.induct) (auto simp: bt_ok_def)

lemma set_bt_remove: "set (bt_remove k m) = {p \<in> set m. fst p \<noteq> k}"
  by (auto simp: bt_remove_def)

lemma set_bt_insert_subset: "set (bt_insert k v m) \<subseteq> insert (k, v) (set m)"
  by (induction k v m rule: bt_insert.induct) auto

lemma closed_insert:
  assumes "ev_closed es" "i \<notin> fst ` set es" "set (parents_of e) \<subseteq> fst ` set es"
  shows "ev_closed (bt_insert i e es)"
  using assms by (auto simp: ev_closed_def ev_parents_def)

lemma ranked_insert:
  assumes "ranked es" "ev_closed es" "i \<notin> fst ` set es" "set (parents_of e) \<subseteq> fst ` set es"
  shows "ranked (bt_insert i e es)"
proof -
  from assms(1) obtain r :: "string \<Rightarrow> nat" where r: "\<forall>j \<in> fst ` set es. \<forall>p \<in> set (ev_parents es j). r p < r j" by (auto simp: ranked_def)
  define top' where "top' = Suc (Max (insert 0 (r ` fst ` set es)))"
  have below: "r p < top'" if "p \<in> fst ` set es" for p using that by (simp add: top'_def less_Suc_eq_le)
  have "(r(i := top')) p < (r(i := top')) j" if j: "j \<in> fst ` set (bt_insert i e es)" and p: "p \<in> set (ev_parents (bt_insert i e es) j)" for j p
  proof (cases "j = i")
    case True
    with p have "p \<in> set (parents_of e)" by (simp add: ev_parents_def)
    with assms(3,4) True below show ?thesis by auto
  next
    case False
    with j p have jp: "j \<in> fst ` set es" "p \<in> set (ev_parents es j)" by (auto simp: ev_parents_def)
    with assms(2,3) have "p \<noteq> i" by (auto simp: ev_closed_def)
    moreover from r jp have "r p < r j" by blast
    ultimately show ?thesis using False by simp
  qed
  then show ?thesis unfolding ranked_def by (intro exI [of _ "r(i := top')"]) blast
qed

lemma grows_insert: "i \<notin> fst ` set es \<Longrightarrow> ev_grows es (bt_insert i e es)"
  by (auto simp: ev_grows_def map_le_def in_keys)

lemma allowed_grows:
  assumes "allowed env l e" "ev_closed (pl_events l)" "ev_grows (pl_events l) (pl_events l')" "pl_anchor l' = pl_anchor l"
    "set (parents_of e) \<subseteq> fst ` set (pl_events l)"
  shows "allowed env l' e"
proof -
  from assms(1) obtain ord where ord: "order_ok ord" "authorize (env\<lparr>ne_order := ord\<rparr>) l e = Inr ()" by (auto simp: allowed_def)
  moreover from authorize_grows [OF assms(2-5), of "env\<lparr>ne_order := ord\<rparr>"] ord(1)
  have "authorize (env\<lparr>ne_order := ord\<rparr>) l' e = authorize (env\<lparr>ne_order := ord\<rparr>) l e" by simp
  ultimately show ?thesis by (auto simp: allowed_def)
qed

subsection \<open>Every step keeps it\<close>

lemma pending_entry:
  assumes "log_inv env l" "map_of (pl_pending l) i = Some e"
  shows "i \<notin> fst ` set (pl_events l) \<and> (i, e) \<in> set (pl_pending l)"
proof -
  from map_of_SomeD [OF assms(2)] have "(i, e) \<in> set (pl_pending l)" .
  moreover from this have "i \<in> fst ` set (pl_pending l)" by (rule image_eqI [rotated]) simp
  moreover from assms(1) have "fst ` set (pl_events l) \<inter> fst ` set (pl_pending l) = {}" by (simp add: log_inv_def)
  ultimately show ?thesis by blast
qed

lemma inv_authentic: "log_inv env l \<Longrightarrow> \<forall>p \<in> set (pl_events l) \<union> set (pl_pending l). authentic env (pl_id l) p"
  unfolding log_inv_def by blast

lemma inv_parents:
  assumes "log_inv env l" "x \<in> snd ` set (pl_events l)"
  shows "set (parents_of x) \<subseteq> fst ` set (pl_events l)"
proof -
  from assms(2) obtain i where i: "(i, x) \<in> set (pl_events l)" by auto
  from assms(1) have "bt_ok (pl_events l)" "ev_closed (pl_events l)" by (simp_all add: log_inv_def)
  from closed_parents [OF this(2) bt_lookup [OF this(1) i]] show ?thesis .
qed

lemma set_bt_moves:
  assumes "bt_ok es" "bt_ok ps" "i \<notin> fst ` set es" "(i, e) \<in> set ps"
  shows "set (bt_insert i e es) \<union> set (bt_remove i ps) = set es \<union> set ps"
proof -
  have "\<forall>p \<in> set ps. fst p = i \<longrightarrow> p = (i, e)"
    using bt_lookup [OF assms(2)] bt_lookup [OF assms(2,4)] by (metis option.inject prod.collapse)
  with assms(4) show ?thesis unfolding set_bt_insert [OF assms(1,3)] set_bt_remove by blast
qed

lemma admit_one:
  assumes inv: "log_inv env l" and i: "map_of (pl_pending l) i = Some e" and ps: "set (parents_of e) \<subseteq> fst ` set (pl_events l)"
    and ok: "order_ok ord" "authorize (env\<lparr>ne_order := ord\<rparr>) l e = Inr ()"
  shows "log_inv env (l\<lparr>pl_pending := bt_remove i (pl_pending l), pl_events := bt_insert i e (pl_events l)\<rparr>)" (is "log_inv env ?l")
proof -
  have fresh: "i \<notin> fst ` set (pl_events l)" and ie: "(i, e) \<in> set (pl_pending l)"
    using pending_entry [OF inv i] by simp_all
  have es: "set (pl_events ?l) = insert (i, e) (set (pl_events l))" using inv fresh by (simp add: log_inv_def set_bt_insert)
  have g: "ev_grows (pl_events l) (pl_events ?l)" using grows_insert [OF fresh] by simp
  have closed: "ev_closed (pl_events l)" using inv by (simp add: log_inv_def)
  have "allowed env ?l x" if "x \<in> snd ` set (pl_events ?l)" for x
  proof -
    have "allowed env l x" using that inv ok es by (auto simp: log_inv_def allowed_def)
    moreover have "set (parents_of x) \<subseteq> fst ` set (pl_events l)" using that ps inv_parents [OF inv] unfolding es by auto
    ultimately show ?thesis using allowed_grows [OF _ closed g] by simp
  qed
  moreover have "ev_closed (pl_events ?l)" "ranked (pl_events ?l)"
    using inv closed_insert [OF closed fresh ps] ranked_insert [OF _ closed fresh ps] by (simp_all add: log_inv_def)
  moreover have "\<forall>p \<in> set (pl_events ?l) \<union> set (pl_pending ?l). authentic env (pl_id ?l) p"
    using inv_authentic [OF inv] inv set_bt_moves [OF _ _ fresh ie] by (simp add: log_inv_def)
  ultimately show ?thesis using inv by (auto simp: log_inv_def)
qed

lemma admit_Cons:
  assumes "admit env' l (i # ids) = Inr l'" "map_of (pl_pending l) i = Some e"
  shows "authorize env' l e = Inr () \<and> admit env' (l\<lparr>pl_pending := bt_remove i (pl_pending l), pl_events := bt_insert i e (pl_events l)\<rparr>) ids = Inr l'"
proof (cases "authorize env' l e")
  case (Inl x)
  with assms show ?thesis by (simp add: Let_def)
next
  case (Inr u)
  with assms show ?thesis by (simp add: Let_def)
qed

lemma admit_inv:
  "log_inv env l \<Longrightarrow> order_ok ord \<Longrightarrow> distinct ids \<Longrightarrow>
   \<forall>i \<in> set ids. \<exists>e. map_of (pl_pending l) i = Some e \<and> set (parents_of e) \<subseteq> fst ` set (pl_events l) \<Longrightarrow>
   admit (env\<lparr>ne_order := ord\<rparr>) l ids = Inr l' \<Longrightarrow>
   log_inv env l' \<and> pl_anchor l' = pl_anchor l \<and> ev_grows (pl_events l) (pl_events l') \<and>
   set (pl_events l') \<union> set (pl_pending l') = set (pl_events l) \<union> set (pl_pending l)"
proof (induction ids arbitrary: l)
  case Nil
  then show ?case by (simp add: ev_grows_def)
next
  case (Cons i ids)
  from Cons(5) obtain e where e: "map_of (pl_pending l) i = Some e" "set (parents_of e) \<subseteq> fst ` set (pl_events l)" by auto
  let ?l = "l\<lparr>pl_pending := bt_remove i (pl_pending l), pl_events := bt_insert i e (pl_events l)\<rparr>"
  have ok: "authorize (env\<lparr>ne_order := ord\<rparr>) l e = Inr ()" and rest: "admit (env\<lparr>ne_order := ord\<rparr>) ?l ids = Inr l'"
    using admit_Cons [OF Cons(6) e(1)] by simp_all
  have fresh: "i \<notin> fst ` set (pl_events l)" and ie: "(i, e) \<in> set (pl_pending l)"
    using pending_entry [OF Cons(2) e(1)] by simp_all
  have "bt_ok (pl_events l)" "bt_ok (pl_pending l)" using Cons(2) by (simp_all add: log_inv_def)
  from set_bt_moves [OF this fresh ie] have "set (pl_events ?l) \<union> set (pl_pending ?l) = set (pl_events l) \<union> set (pl_pending l)" by simp
  moreover have "\<forall>j \<in> set ids. \<exists>e. map_of (pl_pending ?l) j = Some e \<and> set (parents_of e) \<subseteq> fst ` set (pl_events ?l)"
  proof
    fix j
    assume "j \<in> set ids"
    with Cons(4,5) have "j \<noteq> i" "\<exists>e. map_of (pl_pending l) j = Some e \<and> set (parents_of e) \<subseteq> fst ` set (pl_events l)" by auto
    then show "\<exists>e. map_of (pl_pending ?l) j = Some e \<and> set (parents_of e) \<subseteq> fst ` set (pl_events ?l)" by auto
  qed
  moreover have "ev_grows (pl_events l) (pl_events ?l)" using grows_insert [OF fresh] by simp
  moreover note Cons.IH [OF admit_one [OF Cons(2) e Cons(3) ok] Cons(3) _ _ rest]
  ultimately show ?case using Cons(4) unfolding ev_grows_def by (auto intro: map_le_trans)
qed

lemma ready_waiting:
  assumes "log_inv env l" "i \<in> set (ready l)"
  shows "\<exists>e. map_of (pl_pending l) i = Some e \<and> set (parents_of e) \<subseteq> fst ` set (pl_events l)"
proof -
  from assms(2) obtain e where "(i, e) \<in> set (pl_pending l)" "set (parents_of e) \<subseteq> fst ` set (pl_events l)" by (auto simp: ready_def)
  with assms(1) show ?thesis using bt_lookup [of "pl_pending l" i e] by (simp add: log_inv_def)
qed

lemma ready_distinct: "log_inv env l \<Longrightarrow> distinct (ready l)"
  by (auto simp: ready_def log_inv_def distinct_map dest!: bt_ok_distinct intro: inj_on_subset)

lemma settle_inv:
  "settle env' l = Inr l' \<Longrightarrow> env' = env\<lparr>ne_order := ord\<rparr> \<Longrightarrow> log_inv env l \<Longrightarrow> order_ok ord \<Longrightarrow>
   log_inv env l' \<and> ready l' = [] \<and> pl_anchor l' = pl_anchor l \<and> ev_grows (pl_events l) (pl_events l') \<and>
   set (pl_events l') \<union> set (pl_pending l') = set (pl_events l) \<union> set (pl_pending l)"
proof (induction env' l rule: settle.induct)
  case (1 env' l)
  show ?case
  proof (cases "ready l = []")
    case False
    with 1(2) obtain m where m: "admit env' l (ready l) = Inr m" "settle env' m = Inr l'"
      by (cases "admit env' l (ready l)") (simp_all add: settle.simps [of env' l])
    note a = admit_inv [OF 1(4,5) ready_distinct [OF 1(4)] _ m(1) [unfolded 1(3)]]
    with 1(1) [OF False m(1) m(2) 1(3) _ 1(5)] ready_waiting [OF 1(4)] show ?thesis by (auto simp: ev_grows_def intro: map_le_trans)
  next
    case True
    with 1(2) have "l' = l" by (simp add: settle.simps)
    with True 1(4) show ?thesis by (simp add: ev_grows_def)
  qed
qed

lemma stage_entry_inv:
  assumes "stage_entry env' (pl_id l) l e = Inr l'" "env' = env\<lparr>ne_order := ord\<rparr>" "log_inv env l"
  shows "log_inv env l' \<and> pl_id l' = pl_id l \<and> pl_anchor l' = pl_anchor l \<and> pl_events l' = pl_events l \<and>
    fst ` set (pl_pending l') \<union> fst ` set (pl_events l) = insert (net_digest env e) (fst ` set (pl_pending l) \<union> fst ` set (pl_events l)) \<and>
    set (pl_pending l') \<subseteq> insert (net_digest env e, e) (set (pl_pending l))"
proof -
  have g: "genuine env (pl_id l) e" using assms(1,2) by (auto simp: stage_entry_def genuine_def Let_def split: if_splits)
  then have "stage_entry env' (pl_id l) l e = Inr (if net_digest env e \<in> fst ` set (pl_events l) then l else l\<lparr>pl_pending := bt_insert (net_digest env e) e (pl_pending l)\<rparr>)"
    unfolding genuine_def stage_entry_def Let_def env_order_simps assms(2) by auto
  with assms(1) have l': "l' = (if net_digest env e \<in> fst ` set (pl_events l) then l else l\<lparr>pl_pending := bt_insert (net_digest env e) e (pl_pending l)\<rparr>)"
    by simp
  have al: "allowed env (l\<lparr>pl_pending := ps\<rparr>) x = allowed env l x" for ps x by (simp add: allowed_def)
  show ?thesis
  proof (cases "net_digest env e \<in> fst ` set (pl_events l)")
    case False
    then have l'': "l' = l\<lparr>pl_pending := bt_insert (net_digest env e) e (pl_pending l)\<rparr>" by (simp add: l')
    have sub: "set (pl_pending l') \<subseteq> insert (net_digest env e, e) (set (pl_pending l))" using set_bt_insert_subset by (simp add: l'')
    moreover from g have "authentic env (pl_id l) (net_digest env e, e)" by (simp add: authentic_def)
    ultimately have "\<forall>p \<in> set (pl_events l') \<union> set (pl_pending l'). authentic env (pl_id l') p"
      using inv_authentic [OF assms(3)] by (auto simp: l'')
    then have "log_inv env l'" using assms(3) False by (simp add: log_inv_def l'' al)
    with sub show ?thesis by (auto simp: l'')
  qed (use l' assms(3) in auto)
qed

lemma stage_entries_inv:
  "stage_entries env' ident l es = Inr l' \<Longrightarrow> env' = env\<lparr>ne_order := ord\<rparr> \<Longrightarrow> log_inv env l \<Longrightarrow> ident = pl_id l \<Longrightarrow>
   log_inv env l' \<and> pl_anchor l' = pl_anchor l \<and> pl_events l' = pl_events l \<and>
   fst ` set (pl_pending l') \<union> fst ` set (pl_events l) = net_digest env ` set es \<union> (fst ` set (pl_pending l) \<union> fst ` set (pl_events l)) \<and>
   set (pl_pending l') \<subseteq> (\<lambda>e. (net_digest env e, e)) ` set es \<union> set (pl_pending l)"
proof (induction es arbitrary: l)
  case (Cons e es)
  from Cons.prems(1) obtain m where m: "stage_entry env' ident l e = Inr m" "stage_entries env' ident m es = Inr l'"
    by (cases "stage_entry env' ident l e") simp_all
  note s = stage_entry_inv [OF m(1) [unfolded Cons.prems(4)] Cons.prems(2,3)]
  then show ?case using Cons.IH [OF m(2) Cons.prems(2)] Cons.prems(4) by auto
qed simp

lemma new_log_inv: "log_inv env (new_log env anchor)"
  by (simp add: new_log_def log_inv_def ev_closed_def ranked_def)

lemma merge_inv:
  assumes "merge (env\<lparr>ne_order := ord\<rparr>) entries l = (l', r)" "log_inv env l" "ready l = []" "order_ok ord"
  shows "log_inv env l' \<and> ready l' = [] \<and> pl_anchor l' = pl_anchor l \<and> ev_grows (pl_events l) (pl_events l') \<and>
    (case r of Inl _ \<Rightarrow> l' = l | Inr _ \<Rightarrow>
      fst ` (set (pl_events l') \<union> set (pl_pending l')) = net_digest env ` set entries \<union> fst ` (set (pl_events l) \<union> set (pl_pending l)) \<and>
      set (pl_events l') \<union> set (pl_pending l') \<subseteq> (\<lambda>e. (net_digest env e, e)) ` set entries \<union> (set (pl_events l) \<union> set (pl_pending l)))"
proof (cases r)
  case (Inl x)
  with assms show ?thesis by (auto simp: merge_def ev_grows_def split: sum.splits)
next
  case (Inr n)
  with assms(1) obtain m where m: "stage_entries (env\<lparr>ne_order := ord\<rparr>) (pl_id l) l entries = Inr m" "settle (env\<lparr>ne_order := ord\<rparr>) m = Inr l'"
    unfolding merge_def by (auto split: sum.splits)
  from stage_entries_inv [OF m(1) refl assms(2) refl] have
    s: "log_inv env m" "pl_anchor m = pl_anchor l" "pl_events m = pl_events l"
      "fst ` set (pl_pending m) \<union> fst ` set (pl_events l) = net_digest env ` set entries \<union> (fst ` set (pl_pending l) \<union> fst ` set (pl_events l))"
      "set (pl_pending m) \<subseteq> (\<lambda>e. (net_digest env e, e)) ` set entries \<union> set (pl_pending l)" by auto
  from settle_inv [OF m(2) refl s(1) assms(4)] have
    t: "log_inv env l'" "ready l' = []" "pl_anchor l' = pl_anchor m" "ev_grows (pl_events m) (pl_events l')"
      "set (pl_events l') \<union> set (pl_pending l') = set (pl_events m) \<union> set (pl_pending m)" by auto
  then show ?thesis using s Inr by (simp add: image_Un) blast
qed

lemma reach_inv: "log_reach env anchor l \<Longrightarrow> log_inv env l \<and> ready l = [] \<and> pl_anchor l = anchor"
proof (induction rule: log_reach.induct)
  case begins
  show ?case using new_log_inv by (simp add: new_log_def ready_def)
next
  case (merges l ord entries l' r)
  then show ?case using merge_inv [OF merges(3)] by simp
qed

lemma later_grows: "log_later env l l' \<Longrightarrow> log_reach env anchor l \<Longrightarrow> log_reach env anchor l' \<and> ev_grows (pl_events l) (pl_events l')"
proof (induction rule: log_later.induct)
  case (after_merge l l' ord entries l'' r)
  then show ?case
    using merge_inv [OF after_merge(3)] reach_inv [of env anchor l'] log_reach.merges by (auto simp: ev_grows_def intro: map_le_trans)
qed (simp add: ev_grows_def)

end
