(* ===== verification/Net_View.thy ===== *)
theory Net_View
  imports Net_Past
begin

text \<open>
  What a view says, without the passes that compute it: a key is vouched for when the anchor's is, or an entry adds it
  whose signer is vouched for and was not revoked, unless the revocation had seen the entry; a name stands for the
  keys that were added under it; and a key is trusted when some name stands for it alone and nothing revokes it.
  The order in which the entries are looked at does not matter.
\<close>

subsection \<open>The specification\<close>

definition revoked_in :: "(string, json) btree \<Rightarrow> string set \<Rightarrow> string set" where
  "revoked_in es ids = {payload_key e |e. \<exists>i \<in> ids. map_of es i = Some e \<and> kind_is e ''revoke''}"

definition seen_in :: "(string, json) btree \<Rightarrow> string set \<Rightarrow> string \<Rightarrow> string set" where
  "seen_in es ids k = {i. \<exists>j \<in> ids. \<exists>e. map_of es j = Some e \<and> kind_is e ''revoke'' \<and> payload_key e = k \<and> i \<in> past_of es e}"

inductive vouched :: "(string, json) btree \<Rightarrow> json \<Rightarrow> string set \<Rightarrow> string \<Rightarrow> bool" for es anchor ids where
  anchored: "vouched es anchor ids (jtext (jix anchor ''key''))"
| added: "vouched es anchor ids (signer_of e) \<Longrightarrow> i \<in> ids \<Longrightarrow> map_of es i = Some e \<Longrightarrow> kind_is e ''add'' \<Longrightarrow>
    signer_of e \<notin> revoked_in es ids \<or> i \<in> seen_in es ids (signer_of e) \<Longrightarrow> vouched es anchor ids (payload_key e)"

inductive named :: "(string, json) btree \<Rightarrow> json \<Rightarrow> string set \<Rightarrow> string \<Rightarrow> string \<Rightarrow> bool" for es anchor ids where
  anchor_named: "named es anchor ids (jtext (jix anchor ''name'')) (jtext (jix anchor ''key''))"
| entry_named: "vouched es anchor ids (signer_of e) \<Longrightarrow> i \<in> ids \<Longrightarrow> map_of es i = Some e \<Longrightarrow> kind_is e ''add'' \<Longrightarrow>
    signer_of e \<notin> revoked_in es ids \<or> i \<in> seen_in es ids (signer_of e) \<Longrightarrow> named es anchor ids (payload_name e) (payload_key e)"

definition trusts :: "(string, json) btree \<Rightarrow> json \<Rightarrow> string set \<Rightarrow> string \<Rightarrow> bool" where
  "trusts es anchor ids k \<longleftrightarrow> k \<notin> revoked_in es ids \<and> (\<exists>n. {k'. named es anchor ids n k'} = {k})"

subsection \<open>Revocations\<close>

lemma revocations_spec:
  "ev_closed es \<Longrightarrow> set ids \<subseteq> fst ` set es \<Longrightarrow> revocations es ids R S = Inr (R', S') \<Longrightarrow>
   set R' = set R \<union> revoked_in es (set ids) \<and> (\<forall>k. set (S' k) = set (S k) \<union> seen_in es (set ids) k)"
proof (induction ids arbitrary: R S)
  case Nil
  then show ?case by (simp add: revoked_in_def seen_in_def)
next
  case (Cons i ids)
  then obtain e where e: "map_of es i = Some e" by (auto simp: in_keys)
  have split: "revoked_in es (set (i # ids)) = revoked_in es {i} \<union> revoked_in es (set ids)"
    "seen_in es (set (i # ids)) k = seen_in es {i} k \<union> seen_in es (set ids) k" for k
    by (auto simp: revoked_in_def seen_in_def)
  show ?case
  proof (cases "kind_is e ''revoke''")
    case True
    obtain as where as: "ancestors es (parents_of e) = Inr as" "set as = past_of es e"
      using ancestors_past [OF Cons(2) closed_parents [OF Cons(2) e]] by metis
    have "revoked_in es {i} = {payload_key e}" "seen_in es {i} k = (if k = payload_key e then set as else {})" for k
      using True e as(2) by (auto simp: revoked_in_def seen_in_def)
    moreover have "revocations es ids (bs_insert (payload_key e) R) (S(payload_key e := S (payload_key e) @ as)) = Inr (R', S')"
      using Cons(4) True e as(1) by simp
    moreover have "set ids \<subseteq> fst ` set es" using Cons(3) by simp
    ultimately show ?thesis unfolding split using Cons.IH [OF Cons(2)] by auto
  next
    case False
    then have "revoked_in es {i} = {}" "seen_in es {i} k = {}" for k using e by (auto simp: revoked_in_def seen_in_def)
    with Cons.IH [OF Cons(2)] Cons(3,4) False e show ?thesis unfolding split by auto
  qed
qed

lemma may_add_spec:
  assumes "set R = revoked_in es ids" "\<forall>k. set (S k) = seen_in es ids k"
  shows "may_add R S signers i e \<longleftrightarrow> signer_of e \<in> set signers \<and> (signer_of e \<notin> revoked_in es ids \<or> i \<in> seen_in es ids (signer_of e))"
  using assms by (auto simp: may_add_def)

subsection \<open>The passes\<close>

definition name_pairs :: "(string, string list) btree \<Rightarrow> (string \<times> string) set" where
  "name_pairs m = {(n, k). \<exists>ks. map_of m n = Some ks \<and> k \<in> set ks}"

definition names_sorted :: "(string, string list) btree \<Rightarrow> bool" where
  "names_sorted m \<longleftrightarrow> (\<forall>n ks. map_of m n = Some ks \<longrightarrow> sorted_wrt (<) ks)"

lemma name_pairs_add: "name_pairs (add_name n k m) = insert (n, k) (name_pairs m)"
  by (auto simp: name_pairs_def add_name_def split: option.splits if_splits)

lemma names_sorted_add: "names_sorted m \<Longrightarrow> names_sorted (add_name n k m)"
  by (auto simp: names_sorted_def add_name_def bs_insert_ok split: option.splits)

lemma names_ok_add: "bt_ok m \<Longrightarrow> bt_ok (add_name n k m)"
  by (simp add: add_name_def)

text \<open>What holds while entries \<open>left\<close> are still to be looked at.\<close>

definition view_inv :: "(string, json) btree \<Rightarrow> json \<Rightarrow> string set \<Rightarrow> string set \<Rightarrow> view_pass \<Rightarrow> bool" where
  "view_inv es anchor ids left p \<longleftrightarrow>
     (\<forall>k \<in> set (vp_signers p). vouched es anchor ids k) \<and> (\<forall>(n, k) \<in> name_pairs (vp_names p). named es anchor ids n k) \<and>
     jtext (jix anchor ''key'') \<in> set (vp_signers p) \<and> (jtext (jix anchor ''name''), jtext (jix anchor ''key'')) \<in> name_pairs (vp_names p) \<and>
     (\<forall>i \<in> ids. \<forall>e. map_of es i = Some e \<and> kind_is e ''add'' \<longrightarrow> i \<in> left \<or>
        payload_key e \<in> set (vp_signers p) \<and> (payload_name e, payload_key e) \<in> name_pairs (vp_names p)) \<and>
     (\<forall>i \<in> left. i \<in> ids \<and> (\<exists>e. map_of es i = Some e \<and> kind_is e ''add'')) \<and>
     bt_ok (vp_names p) \<and> names_sorted (vp_names p)"

lemma pass_step_inv:
  assumes R: "set R = revoked_in es ids" "\<forall>k. set (S k) = seen_in es ids k"
    and inv: "view_inv es anchor ids (set (vp_kept p) \<union> insert i (set todo)) p"
  shows "view_inv es anchor ids (set (vp_kept (pass_step es R S p i)) \<union> set todo) (pass_step es R S p i)"
proof -
  from inv obtain e where e: "i \<in> ids" "map_of es i = Some e" "kind_is e ''add''" by (auto simp: view_inv_def)
  show ?thesis
  proof (cases "may_add R S (vp_signers p) i e")
    case True
    with inv have v: "vouched es anchor ids (signer_of e)" "signer_of e \<notin> revoked_in es ids \<or> i \<in> seen_in es ids (signer_of e)"
      by (auto simp: view_inv_def may_add_spec [OF R])
    have s: "pass_step es R S p i = add_entry e p" using True e by (simp add: pass_step_def)
    have "vouched es anchor ids (payload_key e)" "named es anchor ids (payload_name e) (payload_key e)"
      using vouched.added [OF v(1) e v(2)] named.entry_named [OF v(1) e v(2)] by simp_all
    with inv e show ?thesis unfolding s by (auto simp: view_inv_def add_entry_def Let_def name_pairs_add names_sorted_add names_ok_add)
  next
    case False
    then have "pass_step es R S p i = p\<lparr>vp_kept := vp_kept p @ [i]\<rparr>" using e by (simp add: pass_step_def)
    with inv show ?thesis by (auto simp: view_inv_def)
  qed
qed

lemma pass_inv:
  assumes R: "set R = revoked_in es ids" "\<forall>k. set (S k) = seen_in es ids k"
  shows "view_inv es anchor ids (set (vp_kept p) \<union> set todo) p \<Longrightarrow>
    view_inv es anchor ids (set (vp_kept (foldl (pass_step es R S) p todo))) (foldl (pass_step es R S) p todo)"
proof (induction todo arbitrary: p)
  case (Cons i todo)
  from Cons.IH [OF pass_step_inv [OF R]] Cons.prems show ?case by simp
qed simp

lemma pass_took_none:
  "length (vp_kept (foldl (pass_step es R S) p todo)) = length (vp_kept p) + length todo \<Longrightarrow>
   foldl (pass_step es R S) p todo = p\<lparr>vp_kept := vp_kept p @ todo\<rparr> \<and>
   (\<forall>i \<in> set todo. \<not> may_add R S (vp_signers p) i (case map_of es i of Some e \<Rightarrow> e | None \<Rightarrow> Null))"
proof (induction todo arbitrary: p)
  case (Cons i todo)
  let ?e = "case map_of es i of Some e \<Rightarrow> e | None \<Rightarrow> Null"
  have no: "\<not> may_add R S (vp_signers p) i ?e"
  proof
    assume "may_add R S (vp_signers p) i ?e"
    then have "vp_kept (pass_step es R S p i) = vp_kept p" by (simp add: pass_step_def add_entry_def Let_def)
    with pass_kept [of es R S "pass_step es R S p i" todo] Cons.prems show False by simp
  qed
  then have "pass_step es R S p i = p\<lparr>vp_kept := vp_kept p @ [i]\<rparr>" by (simp add: pass_step_def Let_def)
  with Cons.IH [of "p\<lparr>vp_kept := vp_kept p @ [i]\<rparr>"] Cons.prems no show ?case by simp
qed simp

lemma view_loop_spec:
  "set R = revoked_in es ids \<Longrightarrow> \<forall>k. set (S k) = seen_in es ids k \<Longrightarrow> view_inv es anchor ids (set (vp_kept p)) p \<Longrightarrow>
    \<exists>left. view_inv es anchor ids left (view_loop es R S p) \<and>
      (\<forall>i \<in> left. \<forall>e. map_of es i = Some e \<longrightarrow> \<not> may_add R S (vp_signers (view_loop es R S p)) i e)"
proof (induction es R S p rule: view_loop.induct)
  case (1 es R S p)
  let ?q = "foldl (pass_step es R S) (p\<lparr>vp_kept := []\<rparr>) (vp_kept p)"
  have "view_inv es anchor ids (set (vp_kept (p\<lparr>vp_kept := []\<rparr>)) \<union> set (vp_kept p)) (p\<lparr>vp_kept := []\<rparr>)"
    using 1(4) by (simp add: view_inv_def)
  note q = pass_inv [OF 1(2,3) this]
  show ?case
  proof (cases "length (vp_kept ?q) = length (vp_kept p)")
    case True
    then have v: "view_loop es R S p = ?q" by (simp add: view_loop.simps [of es R S p] Let_def)
    from True pass_took_none [of es R S "p\<lparr>vp_kept := []\<rparr>" "vp_kept p"]
    have "?q = p" "\<forall>i \<in> set (vp_kept p). \<not> may_add R S (vp_signers p) i (case map_of es i of Some e \<Rightarrow> e | None \<Rightarrow> Null)" by simp_all
    with 1(4) show ?thesis unfolding v by (intro exI [of _ "set (vp_kept p)"]) fastforce
  next
    case False
    then have "view_loop es R S p = view_loop es R S ?q" by (simp add: view_loop.simps [of es R S p] Let_def)
    with 1(1) [OF refl False 1(2,3) q] show ?thesis by simp
  qed
qed

lemma view_inv_final:
  assumes R: "set R = revoked_in es ids" "\<forall>k. set (S k) = seen_in es ids k" and inv: "view_inv es anchor ids left p"
    and none: "\<forall>i \<in> left. \<forall>e. map_of es i = Some e \<longrightarrow> \<not> may_add R S (vp_signers p) i e"
  shows "name_pairs (vp_names p) = {(n, k). named es anchor ids n k}"
proof -
  have taken: "payload_key e \<in> set (vp_signers p) \<and> (payload_name e, payload_key e) \<in> name_pairs (vp_names p)"
    if "signer_of e \<in> set (vp_signers p)" "i \<in> ids" "map_of es i = Some e" "kind_is e ''add''"
      "signer_of e \<notin> revoked_in es ids \<or> i \<in> seen_in es ids (signer_of e)" for i e
  proof -
    have "may_add R S (vp_signers p) i e" using that by (simp add: may_add_spec [OF R])
    with none that(3) have "i \<notin> left" by blast
    with inv that show ?thesis unfolding view_inv_def by blast
  qed
  have sig: "k \<in> set (vp_signers p)" if "vouched es anchor ids k" for k
    using that inv by induction (auto simp: view_inv_def dest: taken)
  have "(n, k) \<in> name_pairs (vp_names p)" if "named es anchor ids n k" for n k
    using that by cases (use inv in \<open>auto simp: view_inv_def dest: sig taken\<close>)
  moreover have "named es anchor ids n k" if "(n, k) \<in> name_pairs (vp_names p)" for n k
    using inv that unfolding view_inv_def by blast
  ultimately show ?thesis by auto
qed

lemma view_of_spec:
  assumes "ev_closed (pl_events l)" "set ids \<subseteq> fst ` set (pl_events l)" "view_of l ids = Inr v"
  shows "name_pairs (vw_names v) = {(n, k). named (pl_events l) (pl_anchor l) (set ids) n k} \<and>
    set (vw_revoked v) = revoked_in (pl_events l) (set ids) \<and> bt_ok (vw_names v) \<and> names_sorted (vw_names v)"
proof -
  let ?es = "pl_events l" and ?a = "pl_anchor l"
  obtain R S where r: "revocations ?es ids [] (\<lambda>_. []) = Inr (R, S)" using revocations_total [OF assms(1,2)] by fastforce
  note rs = revocations_spec [OF assms(1,2) r]
  let ?adds = "filter (\<lambda>i. case map_of ?es i of Some e \<Rightarrow> kind_is e ''add'' | None \<Rightarrow> False) ids"
  let ?p = "\<lparr>vp_kept = ?adds, vp_signers = [jtext (jix ?a ''key'')], vp_names = add_name (jtext (jix ?a ''name'')) (jtext (jix ?a ''key'')) [],
    vp_descriptors = [(jtext (jix ?a ''key''), ?a)]\<rparr>"
  let ?q = "view_loop ?es R S ?p"
  have v: "v = \<lparr>vw_names = vp_names ?q, vw_revoked = R, vw_descriptors = vp_descriptors ?q\<rparr>"
    using assms(3) unfolding view_of_def r by (simp add: Let_def)
  have "name_pairs [] = {}" by (simp add: name_pairs_def)
  moreover have "names_sorted []" by (simp add: names_sorted_def)
  ultimately have "view_inv ?es ?a (set ids) (set (vp_kept ?p)) ?p"
    by (auto simp: view_inv_def name_pairs_add names_sorted_add names_ok_add intro: vouched.anchored named.anchor_named split: option.splits)
  from view_loop_spec [OF _ _ this, of R S] rs obtain left where
    left: "view_inv ?es ?a (set ids) left ?q" "\<forall>i \<in> left. \<forall>e. map_of ?es i = Some e \<longrightarrow> \<not> may_add R S (vp_signers ?q) i e" by auto
  with view_inv_final [OF _ _ left] rs show ?thesis unfolding v by (auto simp: view_inv_def)
qed

lemma trusted_iff: "k \<in> set (trusted v) \<longleftrightarrow> k \<notin> set (vw_revoked v) \<and> (\<exists>n. (n, [k]) \<in> set (vw_names v))"
proof -
  have "(case ks of [k] \<Rightarrow> Some k | _ \<Rightarrow> None) = Some k \<longleftrightarrow> ks = [k]" for ks :: "string list" by (auto split: list.splits)
  then show ?thesis by (force simp: trusted_def set_map_filter)
qed

lemma trusted_spec:
  assumes "ev_closed (pl_events l)" "set ids \<subseteq> fst ` set (pl_events l)" "view_of l ids = Inr v"
  shows "k \<in> set (trusted v) \<longleftrightarrow> trusts (pl_events l) (pl_anchor l) (set ids) k"
proof -
  note vs = view_of_spec [OF assms]
  have "{k'. named (pl_events l) (pl_anchor l) (set ids) n k'} = {k} \<longleftrightarrow> (n, [k]) \<in> set (vw_names v)" for n
  proof -
    have "{k'. named (pl_events l) (pl_anchor l) (set ids) n k'} = {k'. (n, k') \<in> name_pairs (vw_names v)}" using vs by auto
    also have "\<dots> = (case map_of (vw_names v) n of Some ks \<Rightarrow> set ks | None \<Rightarrow> {})" by (auto simp: name_pairs_def split: option.splits)
    also have "\<dots> = {k} \<longleftrightarrow> map_of (vw_names v) n = Some [k]"
      using vs bs_eqI [of _ "[k]"] by (auto simp: names_sorted_def split: option.splits)
    also have "\<dots> \<longleftrightarrow> (n, [k]) \<in> set (vw_names v)" using vs by (auto dest: map_of_SomeD intro: map_of_is_SomeI bt_ok_distinct)
    finally show ?thesis .
  qed
  then show ?thesis using vs by (simp add: trusts_def trusted_iff)
qed

end
