(* ===== verification/Net_Trust.thy ===== *)
theory Net_Trust
  imports Net_Reach Net_View
begin

text \<open>
  What the log of machines guarantees: its entries are authorized by their past, machines that exchange their entries
  come to hold the same log, what is revoked stays revoked, and nothing a peer sends makes it panic.
\<close>

lemma past_below:
  assumes "\<forall>i \<in> fst ` set es. \<forall>p \<in> set (ev_parents es i). r p < (r i :: nat)" "map_of es i = Some e" "j \<in> past_of es e"
  shows "r j < r i"
proof -
  from assms(3) have "reached_by (\<lambda>i. map_of es i = None) (ev_parents es) (set (parents_of e)) j" by (simp add: past_of_def)
  then show ?thesis
  proof induction
    case (start j)
    then have "j \<in> set (ev_parents es i)" "i \<in> fst ` set es" using assms(2) by (simp_all add: ev_parents_def in_keys)
    with assms(1) show ?case by blast
  next
    case (follow x y)
    have "x \<in> fst ` set es" using reached_by_not_barred [OF follow(1)] by (simp add: in_keys)
    with assms(1) follow show ?case by fastforce
  qed
qed

lemma not_own_past: "ranked es \<Longrightarrow> map_of es i = Some e \<Longrightarrow> i \<notin> past_of es e"
  using past_below unfolding ranked_def by blast

lemma authorize_spec:
  assumes "authorize env l e = Inr ()" "ev_closed (pl_events l)" "set (parents_of e) \<subseteq> fst ` set (pl_events l)" "order_ok (ne_order env)"
  shows "trusts (pl_events l) (pl_anchor l) (past_of (pl_events l) e) (signer_of e) \<and>
    (kind_is e ''revoke'' \<or> kind_is e ''add'' \<and> payload_name e \<noteq> [] \<and> length (payload_key e) = 64 \<and>
      payload_key e \<notin> revoked_in (pl_events l) (past_of (pl_events l) e) \<and>
      (\<forall>k. named (pl_events l) (pl_anchor l) (past_of (pl_events l) e) (payload_name e) k \<longrightarrow> k = payload_key e))"
proof -
  obtain as where as: "ancestors (pl_events l) (parents_of e) = Inr as" "distinct as" "set as = past_of (pl_events l) e" "set as \<subseteq> fst ` set (pl_events l)"
    using ancestors_past [OF assms(2,3)] by metis
  with assms(4) have o: "set (ne_order env as) = past_of (pl_events l) e" "set (ne_order env as) \<subseteq> fst ` set (pl_events l)" by (auto simp: order_ok_def)
  from view_of_total [OF assms(2) o(2)] obtain v where v: "view_of l (ne_order env as) = Inr v" ..
  note ts = trusted_spec [OF assms(2) o(2) v] and vs = view_of_spec [OF assms(2) o(2) v, unfolded o(1)]
  note az = assms(1) [unfolded authorize_def as(1) sum.case v Let_def]
  have "k = payload_key e" if add: "kind_is e ''add''" and k: "named (pl_events l) (pl_anchor l) (past_of (pl_events l) e) (payload_name e) k" for k
  proof -
    from k vs have "(payload_name e, k) \<in> name_pairs (vw_names v)" by blast
    then obtain ks where ks: "map_of (vw_names v) (payload_name e) = Some ks" "k \<in> set ks" by (auto simp: name_pairs_def)
    with az add have "length ks = 1" "payload_key e \<in> set ks" by (simp_all split: if_splits)
    with ks(2) show ?thesis by (cases ks) auto
  qed
  with az ts vs o(1) show ?thesis by (auto split: if_splits)
qed

lemma reached_event:
  assumes "log_reach env anchor l" "(i, e) \<in> set (pl_events l)"
  shows "map_of (pl_events l) i = Some e" "ev_closed (pl_events l)" "ranked (pl_events l)" "authentic env (pl_id l) (i, e)"
    "set (parents_of e) \<subseteq> fst ` set (pl_events l)" "allowed env l e" "pl_anchor l = anchor"
proof -
  from reach_inv [OF assms(1)] have inv: "log_inv env l" and "pl_anchor l = anchor" by auto
  then show "map_of (pl_events l) i = Some e" "ev_closed (pl_events l)" "ranked (pl_events l)" "authentic env (pl_id l) (i, e)" "pl_anchor l = anchor"
    using assms(2) inv_authentic [OF inv] by (auto simp: log_inv_def intro: bt_lookup)
  have "e \<in> snd ` set (pl_events l)" using assms(2) by (rule image_eqI [rotated]) simp
  with inv inv_parents [OF inv] show "set (parents_of e) \<subseteq> fst ` set (pl_events l)" "allowed env l e" unfolding log_inv_def by blast+
qed

subsection \<open>No panic\<close>

lemma stage_no_panic: "stage_entries env ident l es \<noteq> Inl Net_Panic"
proof (induction es arbitrary: l)
  case (Cons e es)
  have "stage_entry env ident l e \<noteq> Inl Net_Panic" by (simp add: stage_entry_def Let_def)
  with Cons show ?case by (cases "stage_entry env ident l e") auto
qed simp

lemma waiting_rest:
  assumes "\<forall>j \<in> set (i # ids). \<exists>e. map_of ps j = Some e \<and> set (parents_of e) \<subseteq> fst ` set es" "distinct (i # ids)"
  shows "\<forall>j \<in> set ids. \<exists>e. map_of (bt_remove i ps) j = Some e \<and> set (parents_of e) \<subseteq> fst ` set (bt_insert i x es)"
proof
  fix j
  assume "j \<in> set ids"
  with assms have "j \<noteq> i" "\<exists>e. map_of ps j = Some e \<and> set (parents_of e) \<subseteq> fst ` set es" by auto
  then show "\<exists>e. map_of (bt_remove i ps) j = Some e \<and> set (parents_of e) \<subseteq> fst ` set (bt_insert i x es)" by auto
qed

lemma admit_no_panic:
  "log_inv env l \<Longrightarrow> order_ok ord \<Longrightarrow> distinct ids \<Longrightarrow>
   \<forall>i \<in> set ids. \<exists>e. map_of (pl_pending l) i = Some e \<and> set (parents_of e) \<subseteq> fst ` set (pl_events l) \<Longrightarrow>
   admit (env\<lparr>ne_order := ord\<rparr>) l ids \<noteq> Inl Net_Panic"
proof (induction ids arbitrary: l)
  case (Cons i ids)
  from Cons(5) obtain e where e: "map_of (pl_pending l) i = Some e" "set (parents_of e) \<subseteq> fst ` set (pl_events l)" by auto
  let ?env = "env\<lparr>ne_order := ord\<rparr>"
  let ?l = "l\<lparr>pl_pending := bt_remove i (pl_pending l), pl_events := bt_insert i e (pl_events l)\<rparr>"
  have "ev_closed (pl_events l)" using Cons(2) by (simp add: log_inv_def)
  then have np: "authorize ?env l e \<noteq> Inl Net_Panic" using authorize_no_panic [OF _ e(2), of ?env] Cons(3) by simp
  show ?case
  proof (cases "authorize ?env l e")
    case (Inl x)
    with np e show ?thesis by (simp add: Let_def)
  next
    case (Inr u)
    with admit_one [OF Cons(2) e Cons(3)] have "log_inv env ?l" by simp
    moreover from waiting_rest [OF Cons(5,4)] have
      "\<forall>j \<in> set ids. \<exists>e. map_of (pl_pending ?l) j = Some e \<and> set (parents_of e) \<subseteq> fst ` set (pl_events ?l)" by simp
    ultimately have "admit ?env ?l ids \<noteq> Inl Net_Panic" using Cons.IH [OF _ Cons(3)] Cons(4) by simp
    with e Inr show ?thesis by (simp add: Let_def)
  qed
qed simp

lemma settle_no_panic: "log_inv env l \<Longrightarrow> env' = env\<lparr>ne_order := ord\<rparr> \<Longrightarrow> order_ok ord \<Longrightarrow> settle env' l \<noteq> Inl Net_Panic"
proof (induction env' l rule: settle.induct)
  case (1 env' l)
  note w = ready_distinct [OF 1(2)] ready_waiting [OF 1(2)]
  show ?case
  proof (cases "ready l = []")
    case False
    show ?thesis
    proof (cases "admit env' l (ready l)")
      case (Inl x)
      with admit_no_panic [OF 1(2,4) w(1)] w(2) 1(3) have "x \<noteq> Net_Panic" by auto
      with Inl False show ?thesis by (simp add: settle.simps [of env' l])
    next
      case (Inr m)
      with admit_inv [OF 1(2,4) w(1)] w(2) 1(3) have "log_inv env m" by blast
      from 1(1) [OF False Inr this 1(3,4)] False Inr show ?thesis by (simp add: settle.simps [of env' l])
    qed
  qed (simp add: settle.simps [of env' l])
qed

subsection \<open>Exchange\<close>

lemma log_entries_set: "set (log_entries l) = snd ` (set (pl_events l) \<union> set (pl_pending l))"
  by (auto simp: log_entries_def image_Un)

text \<open>What two settled logs hold together decides what of it is in force.\<close>

lemma settled_subset:
  assumes "log_inv env l" "log_inv env l'" "ready l' = []" "set (pl_events l) \<subseteq> set (pl_events l') \<union> set (pl_pending l')"
  shows "set (pl_events l) \<subseteq> set (pl_events l')"
proof -
  from assms(1) obtain r :: "string \<Rightarrow> nat" where r: "\<forall>i \<in> fst ` set (pl_events l). \<forall>p \<in> set (ev_parents (pl_events l) i). r p < r i"
    by (auto simp: log_inv_def ranked_def)
  have "(i, e) \<in> set (pl_events l')" if "(i, e) \<in> set (pl_events l)" for i e
    using that
  proof (induction "r i" arbitrary: i e rule: less_induct)
    case less
    have e: "map_of (pl_events l) i = Some e" using bt_lookup [OF _ less.prems] assms(1) by (simp add: log_inv_def)
    then have ik: "i \<in> fst ` set (pl_events l)" by (simp add: in_keys)
    have "e \<in> snd ` set (pl_events l)" using less.prems by (rule image_eqI [rotated]) simp
    note ps = inv_parents [OF assms(1) this]
    have "set (parents_of e) \<subseteq> fst ` set (pl_events l')"
    proof
      fix p
      assume p: "p \<in> set (parents_of e)"
      with ps obtain x where "(p, x) \<in> set (pl_events l)" by auto
      moreover have "p \<in> set (ev_parents (pl_events l) i)" using e p by (simp add: ev_parents_def)
      with r ik have "r p < r i" by blast
      ultimately have "(p, x) \<in> set (pl_events l')" using less.hyps by blast
      then show "p \<in> fst ` set (pl_events l')" by (rule image_eqI [rotated]) simp
    qed
    moreover have "(i, e) \<in> set (pl_events l') \<union> set (pl_pending l')" using less.prems assms(4) by blast
    ultimately show ?case using assms(3) by (auto simp: ready_def filter_empty_conv)
  qed
  then show ?thesis by auto
qed

lemma bt_set_eq: "bt_ok m \<Longrightarrow> bt_ok n \<Longrightarrow> set m = set n \<Longrightarrow> m = n"
  by (intro bt_eqI) (auto intro: map_of_eqI simp: map_of_inject_set bt_ok_distinct)

lemma settled_eq:
  assumes "log_inv env l" "log_inv env l'" "ready l = []" "ready l' = []" "pl_anchor l = pl_anchor l'"
    "set (pl_events l) \<union> set (pl_pending l) = set (pl_events l') \<union> set (pl_pending l')"
  shows "l = l'"
proof -
  have e: "set (pl_events l) = set (pl_events l')"
    using settled_subset [OF assms(1,2,4)] settled_subset [OF assms(2,1,3)] assms(6) by blast
  have "set (pl_events x) \<inter> set (pl_pending x) = {}" if "log_inv env x" for x
    using that unfolding log_inv_def by blast
  with assms(1,2,6) e have p: "set (pl_pending l) = set (pl_pending l')" by blast
  from e p assms(1,2,5) show ?thesis using bt_set_eq [of "pl_events l" "pl_events l'"] bt_set_eq [of "pl_pending l" "pl_pending l'"]
    by (simp add: log_inv_def)
qed

lemma merge_holds:
  assumes "merge (env\<lparr>ne_order := ord\<rparr>) entries l = (l', Inr n)" "log_inv env l" "ready l = []" "order_ok ord"
    "inj_on (net_digest env) (set entries \<union> set (log_entries l))"
  shows "set (pl_events l') \<union> set (pl_pending l') = (\<lambda>e. (net_digest env e, e)) ` (set entries \<union> set (log_entries l))" (is "?S = ?f ` ?E")
proof -
  have own: "set (pl_events l) \<union> set (pl_pending l) = ?f ` set (log_entries l)"
    using inv_authentic [OF assms(2)] unfolding log_entries_set authentic_def by force
  from merge_inv [OF assms(1-4)] have keys: "fst ` ?S = fst ` (?f ` ?E)" and sub: "?S \<subseteq> ?f ` ?E"
    unfolding own by (auto simp: image_Un image_image)
  have "inj_on fst (?f ` ?E)" using assms(5) by (auto simp: inj_on_def)
  from inj_on_image_eq_iff [OF this sub subset_refl] keys show ?thesis by simp
qed

lemma log_sync_export:
  assumes "pl_anchor a = pl_anchor b"
  shows "log_sync env (log_export b) a = merge env (log_entries b) a"
  using assms by (simp add: log_sync_def log_export_def jix_def json_eq_def)

subsection \<open>Endpoints\<close>

lemma view_total:
  assumes "log_reach env anchor l"
  obtains v where "log_view l = Inr v"
    "\<And>k. k \<in> set (trusted v) \<longleftrightarrow> trusts (pl_events l) anchor (fst ` set (pl_events l)) k"
    "set (vw_revoked v) = revoked_in (pl_events l) (fst ` set (pl_events l))"
proof -
  from reach_inv [OF assms] have c: "ev_closed (pl_events l)" "pl_anchor l = anchor" by (simp_all add: log_inv_def)
  have ids: "set (map fst (pl_events l)) = fst ` set (pl_events l)" by simp
  from view_of_total [OF c(1), of "map fst (pl_events l)"] obtain v where v: "view_of l (map fst (pl_events l)) = Inr v" by auto
  show thesis
    using that [of v] trusted_spec [OF c(1) _ v] view_of_spec [OF c(1) _ v] v c(2) by (simp add: log_view_def)
qed

lemma accept_endpoint_revoked:
  "log_view l = Inr v \<Longrightarrow> k \<in> set (vw_revoked v) \<Longrightarrow> accept_endpoint env l k cert = Inl (Refused ''untrusted_endpoint'')"
  by (simp add: accept_endpoint_def)

lemma revoked_not_machine: "k \<in> set (vw_revoked v) \<Longrightarrow> k \<notin> set (trusted v) \<and> k \<notin> set (machines v)"
  by (simp add: machines_def trusted_iff)

lemma accept_endpoint_device:
  "log_view l = Inr v \<Longrightarrow> accept_endpoint env l key (Some c) = Inr () \<Longrightarrow> key \<in> set (machines v) \<or> jtext (jix (jix c ''body'') ''device'') \<in> set (machines v)"
  by (auto simp: accept_endpoint_def Let_def split: if_splits)

lemma revoked_in_grows: "ev_grows es es' \<Longrightarrow> map_of es i = Some e \<Longrightarrow> kind_is e ''revoke'' \<Longrightarrow> payload_key e \<in> revoked_in es' (fst ` set es')"
proof -
  assume a: "ev_grows es es'" "map_of es i = Some e" "kind_is e ''revoke''"
  then have "map_of es' i = Some e" using ev_grows_same [OF a(1)] by (simp add: in_keys)
  moreover from this have "i \<in> fst ` set es'" by (simp add: in_keys)
  ultimately show ?thesis using a(3) unfolding revoked_in_def by blast
qed

subsection \<open>Properties\<close>

text \<open>
  C10. However a log came about, each of its entries carries a valid signature for this log under its own digest, is
  not among its own ancestors, and was authorized by them alone: the signer is trusted there, and the entry
  revokes, or adds a key of full length, not revoked there, under a name that stands for no other key there.
\<close>

theorem log_entries_authorized:
  assumes "log_reach env anchor l" "(i, e) \<in> set (pl_events l)"
  shows "i = net_digest env e \<and> genuine env (pl_id l) e \<and> i \<notin> past_of (pl_events l) e \<and>
    trusts (pl_events l) anchor (past_of (pl_events l) e) (signer_of e) \<and>
    (kind_is e ''revoke'' \<or> kind_is e ''add'' \<and> payload_name e \<noteq> [] \<and> length (payload_key e) = 64 \<and>
      payload_key e \<notin> revoked_in (pl_events l) (past_of (pl_events l) e) \<and>
      (\<forall>k. named (pl_events l) anchor (past_of (pl_events l) e) (payload_name e) k \<longrightarrow> k = payload_key e))"
proof -
  note r = reached_event [OF assms]
  from r(6) obtain ord where "order_ok ord" "authorize (env\<lparr>ne_order := ord\<rparr>) l e = Inr ()" by (auto simp: allowed_def)
  from authorize_spec [OF this(2) r(2,5)] this(1) r(7) not_own_past [OF r(3,1)] r(4) show ?thesis by (simp add: authentic_def)
qed


text \<open>
  C11. Two machines with the same anchor that take in each other's entries hold the same log afterwards, entries in
  force and entries pending, whatever each had before and whatever order its sets are iterated in, when no two
  of the entries have the same digest.
\<close>

theorem sync_converges:
  assumes "log_reach env anchor a" "log_reach env anchor b" "order_ok o1" "order_ok o2"
    "log_sync (env\<lparr>ne_order := o1\<rparr>) (log_export b) a = (a', Inr n)" "log_sync (env\<lparr>ne_order := o2\<rparr>) (log_export a) b = (b', Inr m)"
    "inj_on (net_digest env) (set (log_entries a) \<union> set (log_entries b))"
  shows "a' = b'"
proof -
  note ra = reach_inv [OF assms(1)] and rb = reach_inv [OF assms(2)]
  have ma: "merge (env\<lparr>ne_order := o1\<rparr>) (log_entries b) a = (a', Inr n)" and mb: "merge (env\<lparr>ne_order := o2\<rparr>) (log_entries a) b = (b', Inr m)"
    using assms(5,6) ra rb by (simp_all add: log_sync_export)
  have "set (pl_events a') \<union> set (pl_pending a') = set (pl_events b') \<union> set (pl_pending b')"
    using merge_holds [OF ma] merge_holds [OF mb] ra rb assms(3,4,7) by (simp add: Un_commute)
  moreover have "log_inv env a' \<and> ready a' = [] \<and> pl_anchor a' = anchor" "log_inv env b' \<and> ready b' = [] \<and> pl_anchor b' = anchor"
    using merge_inv [OF ma] merge_inv [OF mb] ra rb assms(3,4) by simp_all
  ultimately show ?thesis by (intro settled_eq [of env]) simp_all
qed

text \<open>
  A revocation is final: once it is in the log, then after any further merges the key is refused as an endpoint,
  with or without a certificate, is not trusted, and no certificate it signed admits another key.
\<close>

lemma revoked_forever:
  assumes "log_reach env anchor l" "(i, e) \<in> set (pl_events l)" "kind_is e ''revoke''" "log_later env l l'"
  shows "\<exists>v. log_view l' = Inr v \<and> payload_key e \<notin> set (trusted v) \<and>
    accept_endpoint env l' (payload_key e) cert = Inl (Refused ''untrusted_endpoint'') \<and>
    (jtext (jix (jix c ''body'') ''device'') = payload_key e \<and> accept_endpoint env l' key (Some c) = Inr () \<longrightarrow> key \<in> set (machines v))"
proof -
  from later_grows [OF assms(4,1)] have r: "log_reach env anchor l'" and g: "ev_grows (pl_events l) (pl_events l')" by simp_all
  obtain v where v: "log_view l' = Inr v" "set (vw_revoked v) = revoked_in (pl_events l') (fst ` set (pl_events l'))"
    using view_total [OF r] by metis
  have "payload_key e \<in> set (vw_revoked v)" unfolding v(2) using revoked_in_grows [OF g reached_event(1) [OF assms(1,2)] assms(3)] .
  with v(1) show ?thesis using accept_endpoint_revoked revoked_not_machine accept_endpoint_device by metis
qed

text \<open>
  C12. The keys a log trusts are exactly those its entries vouch for: not revoked by any entry, and alone under some
  name, where an entry counts only when its signer is vouched for and was not revoked without having been seen.
\<close>

theorem trusted_exact:
  assumes "log_reach env anchor l"
  shows "\<exists>v. log_view l = Inr v \<and> sorted_wrt (<) (trusted v) \<and>
    set (trusted v) = {k. trusts (pl_events l) anchor (fst ` set (pl_events l)) k}"
proof -
  obtain v where v: "log_view l = Inr v" "\<And>k. k \<in> set (trusted v) \<longleftrightarrow> trusts (pl_events l) anchor (fst ` set (pl_events l)) k"
    using view_total [OF assms] by metis
  moreover have "sorted_wrt (<) (trusted v)" unfolding trusted_def by (rule bs_of_ok)
  ultimately show ?thesis by auto
qed

end
