(* ===== verification/Net_Live.thy ===== *)
theory Net_Live
  imports Net_Trust
begin

text \<open>
  What an honest machine can do with its log: an entry it makes comes after everything it knows, and a revocation by a
  key the log trusts is taken in at once.
\<close>

subsection \<open>Descriptors\<close>

text \<open>The role in a descriptor is that of the anchor, or of an entry that adds the key.\<close>

definition roles_of :: "(string, json) btree \<Rightarrow> json \<Rightarrow> string \<Rightarrow> json set" where
  "roles_of es anchor k = {jix anchor ''role'' |_ :: unit. jtext (jix anchor ''key'') = k} \<union>
     {jix (payload_of e) ''role'' |e. e \<in> snd ` set es \<and> kind_is e ''add'' \<and> payload_key e = k}"

definition roles_ok :: "(string, json) btree \<Rightarrow> json \<Rightarrow> (string, json) btree \<Rightarrow> bool" where
  "roles_ok es anchor ds \<longleftrightarrow> (\<forall>k d. map_of ds k = Some d \<longrightarrow> jix d ''role'' \<in> roles_of es anchor k)"

lemma merge_descriptor_role: "jix (merge_descriptor known newer) ''role'' = jix newer ''role''"
  by (cases newer) (simp_all add: merge_descriptor_def jix_def Let_def)

lemma pass_roles:
  assumes "roles_ok es anchor (vp_descriptors p)" "\<forall>i \<in> set todo. \<exists>e. map_of es i = Some e \<and> kind_is e ''add''"
  shows "roles_ok es anchor (vp_descriptors (foldl (pass_step es R S) p todo))"
  using assms
proof (induction todo arbitrary: p)
  case (Cons i todo)
  then obtain e where e: "map_of es i = Some e" "kind_is e ''add''" by auto
  have "e \<in> snd ` set es" using map_of_SomeD [OF e(1)] by (rule image_eqI [rotated]) simp
  with e(2) have "jix (payload_of e) ''role'' \<in> roles_of es anchor (payload_key e)" unfolding roles_of_def by blast
  with Cons.prems(1) have "roles_ok es anchor (vp_descriptors (pass_step es R S p i))"
    using e(1) by (auto simp: pass_step_def roles_ok_def add_entry_def Let_def merge_descriptor_role split: option.splits)
  with Cons show ?case by simp
qed simp

lemma view_loop_roles:
  "roles_ok es anchor (vp_descriptors p) \<Longrightarrow> \<forall>i \<in> set (vp_kept p). \<exists>e. map_of es i = Some e \<and> kind_is e ''add'' \<Longrightarrow>
   roles_ok es anchor (vp_descriptors (view_loop es R S p))"
proof (induction es R S p rule: view_loop.induct)
  case (1 es R S p)
  let ?q = "foldl (pass_step es R S) (p\<lparr>vp_kept := []\<rparr>) (vp_kept p)"
  have q: "roles_ok es anchor (vp_descriptors ?q)" using pass_roles 1(2,3) by simp
  have "set (vp_kept ?q) \<subseteq> set (vp_kept p)" using pass_kept_subset [of es R S "p\<lparr>vp_kept := []\<rparr>" "vp_kept p"] by simp
  with 1(1) [OF refl _ q] 1(3) q show ?case by (auto simp: view_loop.simps [of es R S p] Let_def)
qed

lemma view_roles:
  assumes "view_of l ids = Inr v" "map_of (vw_descriptors v) k = Some d"
  shows "jix d ''role'' \<in> roles_of (pl_events l) (pl_anchor l) k"
proof -
  let ?es = "pl_events l" and ?a = "pl_anchor l"
  obtain R S where r: "revocations ?es ids [] (\<lambda>_. []) = Inr (R, S)"
    using assms(1) by (cases "revocations ?es ids [] (\<lambda>_. [])") (auto simp: view_of_def Let_def)
  let ?adds = "filter (\<lambda>i. case map_of ?es i of Some e \<Rightarrow> kind_is e ''add'' | None \<Rightarrow> False) ids"
  let ?p = "\<lparr>vp_kept = ?adds, vp_signers = [jtext (jix ?a ''key'')], vp_names = add_name (jtext (jix ?a ''name'')) (jtext (jix ?a ''key'')) [],
    vp_descriptors = [(jtext (jix ?a ''key''), ?a)]\<rparr>"
  have "roles_ok ?es ?a (vp_descriptors ?p)" by (auto simp: roles_ok_def roles_of_def)
  then have "roles_ok ?es ?a (vp_descriptors (view_loop ?es R S ?p))" by (rule view_loop_roles) (auto split: option.splits)
  moreover have "vw_descriptors v = vp_descriptors (view_loop ?es R S ?p)" using assms(1) unfolding view_of_def r by (auto simp: Let_def)
  ultimately show ?thesis using assms(2) by (simp add: roles_ok_def)
qed

subsection \<open>The frontier\<close>

text \<open>An entry made after the frontier has all of the log in its past.\<close>

lemma frontier_past:
  assumes "ranked (pl_events l)" "bt_ok (pl_events l)" "set (parents_of e) = set (frontier l)"
  shows "past_of (pl_events l) e = fst ` set (pl_events l)"
proof
  show "past_of (pl_events l) e \<subseteq> fst ` set (pl_events l)" by (auto simp: past_of_def in_keys dest: reached_by_not_barred)
  from assms(1) obtain r :: "string \<Rightarrow> nat" where
    r: "\<forall>i \<in> fst ` set (pl_events l). \<forall>p \<in> set (ev_parents (pl_events l) i). r p < r i" by (auto simp: ranked_def)
  show "fst ` set (pl_events l) \<subseteq> past_of (pl_events l) e"
  proof (rule ccontr)
    assume "\<not> ?thesis"
    then obtain m where m: "m \<in> fst ` set (pl_events l) - past_of (pl_events l) e" by blast
    have "\<exists>x. x \<in> fst ` set (pl_events l) - past_of (pl_events l) e \<and> (\<forall>y. y \<in> fst ` set (pl_events l) - past_of (pl_events l) e \<longrightarrow> r y \<le> r x)"
      by (rule ex_has_greatest_nat [where P = "\<lambda>x. x \<in> fst ` set (pl_events l) - past_of (pl_events l) e" and f = r
            and b = "Suc (Max (r ` fst ` set (pl_events l)))", OF m]) (auto simp: less_Suc_eq_le)
    then obtain i where i: "i \<in> fst ` set (pl_events l)" "i \<notin> past_of (pl_events l) e"
      and most: "\<And>y. y \<in> fst ` set (pl_events l) \<Longrightarrow> y \<notin> past_of (pl_events l) e \<Longrightarrow> r y \<le> r i" by blast
    have "i \<notin> set (frontier l)"
      using i assms(3) by (auto simp: past_of_def in_keys intro: reached_by.start)
    with i(1) obtain j x where j: "(j, x) \<in> set (pl_events l)" "i \<in> set (parents_of x)" by (auto simp: frontier_def)
    have "j \<in> fst ` set (pl_events l)" using j(1) by (rule image_eqI [rotated]) simp
    moreover have "i \<in> set (ev_parents (pl_events l) j)" using bt_lookup [OF assms(2) j(1)] j(2) by (simp add: ev_parents_def)
    moreover from this r calculation(1) have "r i < r j" by blast
    then have "j \<in> past_of (pl_events l) e" using most [of j] calculation(1) by linarith
    ultimately have "i \<in> past_of (pl_events l) e" using i(1) by (auto simp: past_of_def in_keys intro: reached_by.follow)
    with i(2) show False ..
  qed
qed

lemma jstrings_array [simp]: "jstrings (JArray (map JString xs)) = xs"
  by (induction xs) (simp_all add: jstrings_def List.map_filter_simps)

lemma make_entry_simps [simp]:
  "parents_of (make_entry env l secret kind payload None t) = sort (frontier l)"
  "signer_of (make_entry env l secret kind payload None t) = ne_public env secret"
  "kind_is (make_entry env l secret kind payload None t) k \<longleftrightarrow> kind = k"
  "payload_of (make_entry env l secret kind payload None t) = payload"
  by (simp_all add: make_entry_def Let_def parents_of_def body_of_def jix_def signer_of_def jtext_def kind_is_def payload_of_def)

lemma make_entry_genuine:
  assumes "\<And>m. verify env (ne_public env secret) (sign env secret m) m"
  shows "genuine env (pl_id l) (make_entry env l secret kind payload None t)"
  using assms by (simp add: genuine_def make_entry_def Let_def signer_of_def body_of_def jix_def jtext_def)

lemma frontier_keys: "set (frontier l) \<subseteq> fst ` set (pl_events l)"
  by (auto simp: frontier_def)

lemma length_bt_insert: "bt_ok m \<Longrightarrow> k \<notin> fst ` set m \<Longrightarrow> length (bt_insert k v m) = Suc (length m)"
  by (induction k v m rule: bt_insert.induct) (auto simp: bt_ok_def)

lemma merge_one:
  assumes "genuine env (pl_id l) e" "net_digest env e \<notin> fst ` set (pl_events l)" "pl_pending l = []" "bt_ok (pl_events l)"
    "set (parents_of e) \<subseteq> fst ` set (pl_events l)" "authorize env l e = Inr ()"
  shows "merge env [e] l = (l\<lparr>pl_events := bt_insert (net_digest env e) e (pl_events l)\<rparr>, Inr 1)"
proof -
  let ?d = "net_digest env e"
  let ?m = "l\<lparr>pl_pending := [(?d, e)]\<rparr>" and ?l = "l\<lparr>pl_events := bt_insert ?d e (pl_events l)\<rparr>"
  have st: "stage_entries env (pl_id l) l [e] = Inr ?m" using assms(1-3) by (auto simp: stage_entry_def genuine_def Let_def)
  have rd: "ready ?m = [?d]" "ready ?l = []" using assms(3,5) by (simp_all add: ready_def)
  have "admit env ?m [?d] = Inr (?m\<lparr>pl_pending := [], pl_events := bt_insert ?d e (pl_events l)\<rparr>)"
    using assms(6) by (simp add: Let_def bt_remove_def)
  also have "?m\<lparr>pl_pending := [], pl_events := bt_insert ?d e (pl_events l)\<rparr> = ?l" using assms(3) by simp
  finally have "settle env ?m = Inr ?l" using rd by (simp add: settle.simps)
  with st show ?thesis using length_bt_insert [OF assms(4,2)] by (simp add: merge_def)
qed

lemma own_revocation_authorized:
  assumes r: "log_reach env anchor l" and o: "order_ok (ne_order env)" and v: "log_view l = Inr v" "ne_public env secret \<in> set (trusted v)"
    and machine: "JString ''phone'' \<notin> roles_of (pl_events l) anchor (ne_public env secret)"
  shows "authorize env l (make_entry env l secret ''revoke'' payload None t) = Inr ()" (is "authorize env l ?e = _")
proof -
  from reach_inv [OF r] have inv: "log_inv env l" "pl_anchor l = anchor" by simp_all
  then have c: "ev_closed (pl_events l)" "bt_ok (pl_events l)" "ranked (pl_events l)" by (simp_all add: log_inv_def)
  have ps: "set (parents_of ?e) \<subseteq> fst ` set (pl_events l)" using frontier_keys by simp
  obtain as where as: "ancestors (pl_events l) (parents_of ?e) = Inr as" "distinct as" "set as = past_of (pl_events l) ?e"
    using ancestors_past [OF c(1) ps] by metis
  with o frontier_past [OF c(3,2)] have ids: "set (ne_order env as) = fst ` set (pl_events l)" by (simp add: order_ok_def)
  obtain w where w: "view_of l (ne_order env as) = Inr w" using view_of_total [OF c(1)] ids by blast
  have "ne_public env secret \<in> set (trusted w)"
    using v trusted_spec [OF c(1) _ w] trusted_spec [OF c(1) _ v(1) [unfolded log_view_def]] ids by simp
  moreover have "\<not> is_phone w (ne_public env secret)"
    using view_roles [OF w] machine inv(2) by (fastforce simp: is_phone_def split: option.splits)
  ultimately show ?thesis by (simp add: authorize_def as(1) w Let_def del: make_entry_simps(1)) 
qed

subsection \<open>Properties\<close>

text \<open>
  A machine the log trusts can always revoke: the entry it makes is taken in by a log with nothing pending, and the key it
  names is refused from then on. Signatures of its secret are those of its key, and the entry is new.
\<close>

lemma trusted_can_revoke:
  assumes "log_reach env anchor l" "order_ok (ne_order env)" "pl_pending l = []"
    "log_view l = Inr v" "ne_public env secret \<in> set (trusted v)" "JString ''phone'' \<notin> roles_of (pl_events l) anchor (ne_public env secret)"
    "\<And>m. verify env (ne_public env secret) (sign env secret m) m"
    "net_digest env (make_entry env l secret ''revoke'' (JObject [(''key'', JString k)]) None t) \<notin> fst ` set (pl_events l)"
  shows "\<exists>l'. merge env [make_entry env l secret ''revoke'' (JObject [(''key'', JString k)]) None t] l = (l', Inr 1) \<and>
    accept_endpoint env l' k cert = Inl (Refused ''untrusted_endpoint'')"
proof -
  let ?e = "make_entry env l secret ''revoke'' (JObject [(''key'', JString k)]) None t"
  let ?l = "l\<lparr>pl_events := bt_insert (net_digest env ?e) ?e (pl_events l)\<rparr>"
  from reach_inv [OF assms(1)] have "bt_ok (pl_events l)" by (simp add: log_inv_def)
  from merge_one [OF make_entry_genuine [OF assms(7)] assms(8,3) this _ own_revocation_authorized [OF assms(1,2,4,5,6)]] frontier_keys
  have m: "merge env [?e] l = (?l, Inr 1)" by simp
  have "env = env\<lparr>ne_order := ne_order env\<rparr>" by simp
  with m log_reach.merges [OF assms(1,2)] have r: "log_reach env anchor ?l" by metis
  obtain w where w: "log_view ?l = Inr w" "set (vw_revoked w) = revoked_in (pl_events ?l) (fst ` set (pl_events ?l))"
    using view_total [OF r] by metis
  have "map_of (pl_events ?l) (net_digest env ?e) = Some ?e" "kind_is ?e ''revoke''" "payload_key ?e = k"
    by (simp_all add: payload_key_def jix_def jtext_def)
  then have "k \<in> set (vw_revoked w)" using w(2) revoked_in_grows [of "pl_events ?l" "pl_events ?l"] by (metis ev_grows_def map_le_refl)
  with m w(1) show ?thesis using accept_endpoint_revoked by blast
qed


text \<open>
  A log that is written out and read back: the entries of a log, merged into the empty log of the same anchor, give that log
  again. This is how a machine reads its log at start, and how a machine that is paired takes it over.
\<close>

definition replayable :: "net_env \<Rightarrow> peer_log \<Rightarrow> bool" where
  "replayable env l \<longleftrightarrow> (\<forall>e \<in> snd ` set (pl_events l). authorize env l e = Inr ())"

definition part_of :: "net_env \<Rightarrow> peer_log \<Rightarrow> peer_log \<Rightarrow> bool" where
  "part_of env m l \<longleftrightarrow> log_inv env m \<and> pl_anchor m = pl_anchor l \<and> set (pl_events m) \<subseteq> set (pl_events l) \<and>
     set (pl_pending m) \<subseteq> set (pl_events l) \<union> set (pl_pending l)"

lemma set_bt_grows: "bt_ok m \<Longrightarrow> bt_ok n \<Longrightarrow> set m \<subseteq> set n \<Longrightarrow> ev_grows m n"
  unfolding ev_grows_def map_le_def by (metis bt_lookup domIff map_of_SomeD not_None_eq subsetD)

lemma part_authorized:
  assumes l: "log_inv env l" "ready l = []" "replayable env l" and m: "part_of env m l" and o: "order_ok (ne_order env)"
    and e: "map_of (pl_pending m) i = Some e" "set (parents_of e) \<subseteq> fst ` set (pl_events m)"
  shows "(i, e) \<in> set (pl_events l) \<and> authorize env m e = Inr ()"
proof -
  have sub: "set (pl_events m) \<subseteq> set (pl_events l)" and ie: "(i, e) \<in> set (pl_events l) \<union> set (pl_pending l)" and inv: "log_inv env m"
    using m map_of_SomeD [OF e(1)] unfolding part_of_def by blast+
  have ps: "set (parents_of e) \<subseteq> fst ` set (pl_events l)" by (rule subset_trans [OF e(2) image_mono [OF sub]])
  have "(i, e) \<notin> set (pl_pending l)" using l(2) ps by (auto simp: ready_def filter_empty_conv)
  with ie have il: "(i, e) \<in> set (pl_events l)" by blast
  then have "e \<in> snd ` set (pl_events l)" by (rule image_eqI [rotated]) simp
  with l(3) have "authorize env l e = Inr ()" unfolding replayable_def by blast
  moreover have "ev_closed (pl_events m)" "ev_grows (pl_events m) (pl_events l)" "pl_anchor l = pl_anchor m"
    using inv l(1) m set_bt_grows [OF _ _ sub] by (simp_all add: log_inv_def part_of_def)
  from authorize_grows [OF this e(2) o] have "authorize env l e = authorize env m e" .
  ultimately show ?thesis using il by simp
qed

lemma admit_replays:
  assumes l: "log_inv env l" "ready l = []" "replayable env l" and o: "order_ok (ne_order env)"
  shows "part_of env m l \<Longrightarrow> distinct ids \<Longrightarrow>
    \<forall>i \<in> set ids. \<exists>e. map_of (pl_pending m) i = Some e \<and> set (parents_of e) \<subseteq> fst ` set (pl_events m) \<Longrightarrow>
    \<exists>m'. admit env m ids = Inr m' \<and> part_of env m' l"
proof (induction ids arbitrary: m)
  case (Cons i ids)
  from Cons.prems(3) obtain e where e: "map_of (pl_pending m) i = Some e" "set (parents_of e) \<subseteq> fst ` set (pl_events m)" by auto
  note a = part_authorized [OF l Cons.prems(1) o e]
  let ?m = "m\<lparr>pl_pending := bt_remove i (pl_pending m), pl_events := bt_insert i e (pl_events m)\<rparr>"
  from a admit_one [OF _ e o] Cons.prems(1) have inv: "log_inv env ?m" by (simp add: part_of_def)
  have "set (pl_events ?m) \<subseteq> insert (i, e) (set (pl_events m))" using set_bt_insert_subset by simp
  moreover have "set (pl_pending ?m) \<subseteq> set (pl_pending m)" by (auto simp: set_bt_remove)
  ultimately have "part_of env ?m l" using a Cons.prems(1) inv unfolding part_of_def by auto
  moreover have "\<forall>j \<in> set ids. \<exists>e. map_of (pl_pending ?m) j = Some e \<and> set (parents_of e) \<subseteq> fst ` set (pl_events ?m)"
    using waiting_rest [OF Cons.prems(3,2)] by simp
  ultimately have "\<exists>m'. admit env ?m ids = Inr m' \<and> part_of env m' l" using Cons.IH Cons.prems(2) by simp
  with a e show ?case by (simp add: Let_def)
qed simp

lemma settle_replays:
  assumes l: "log_inv env l" "ready l = []" "replayable env l" and o: "order_ok (ne_order env)"
  shows "part_of env m l \<Longrightarrow> \<exists>m'. settle env m = Inr m'"
proof (induction "length (pl_pending m)" arbitrary: m rule: less_induct)
  case less
  then have inv: "log_inv env m" by (simp add: part_of_def)
  show ?case
  proof (cases "ready m")
    case (Cons i ids)
    have "\<forall>i \<in> set (ready m). \<exists>e. map_of (pl_pending m) i = Some e \<and> set (parents_of e) \<subseteq> fst ` set (pl_events m)"
      using ready_waiting [OF inv] by blast
    from admit_replays [OF l o less.prems ready_distinct [OF inv] this] obtain m' where m': "admit env m (ready m) = Inr m'" "part_of env m' l"
      by blast
    have "i \<in> set (ready m)" by (simp add: Cons)
    then have "i \<in> fst ` set (pl_pending m)" by (auto simp: ready_def)
    from admit_smaller [OF m'(1) [unfolded Cons] this] less.hyps [OF _ m'(2)] m'(1) Cons show ?thesis by (simp add: settle.simps [of env m])
  qed (simp add: settle.simps)
qed

lemma stage_all:
  assumes "\<forall>e \<in> set es. genuine env ident e"
  shows "\<exists>l'. stage_entries env ident l es = Inr l'"
  using assms
proof (induction es arbitrary: l)
  case (Cons e es)
  then have "\<exists>l'. stage_entry env ident l e = Inr l'" by (auto simp: stage_entry_def genuine_def Let_def)
  with Cons show ?case by auto
qed simp

lemma replay:
  assumes l: "log_reach env anchor l" "replayable env l" and o: "order_ok (ne_order env)" and inj: "inj_on (net_digest env) (set (log_entries l))"
  shows "merge env (log_entries l) (new_log env anchor) = (l, Inr (length (pl_events l)))"
proof -
  from reach_inv [OF l(1)] have inv: "log_inv env l" "ready l = []" "pl_anchor l = anchor" by simp_all
  let ?n = "new_log env anchor"
  have idn: "pl_id ?n = pl_id l" "pl_anchor ?n = pl_anchor l" "pl_events ?n = []" "pl_pending ?n = []"
    using inv by (simp_all add: new_log_def log_inv_def)
  have own: "set (pl_events l) \<union> set (pl_pending l) = (\<lambda>e. (net_digest env e, e)) ` set (log_entries l)"
    using inv_authentic [OF inv(1)] unfolding log_entries_set authentic_def by force
  have "\<forall>e \<in> set (log_entries l). genuine env (pl_id ?n) e" using inv_authentic [OF inv(1)] unfolding log_entries_set idn authentic_def by auto
  from stage_all [OF this] obtain m where m: "stage_entries env (pl_id ?n) ?n (log_entries l) = Inr m" by blast
  from stage_entries_inv [OF m, where env = env and ord = "ne_order env"] new_log_inv [of env anchor]
  have mi: "log_inv env m" "pl_anchor m = pl_anchor l" "pl_events m = []" "set (pl_pending m) \<subseteq> set (pl_events l) \<union> set (pl_pending l)"
    using idn own by auto
  then have "part_of env m l" by (simp add: part_of_def)
  from settle_replays [OF inv(1,2) l(2) o this] obtain m' where m': "settle env m = Inr m'" by blast
  with m idn mi(3) have mm: "merge env (log_entries l) ?n = (m', Inr (length (pl_events m')))" by (simp add: merge_def)
  have eo: "env\<lparr>ne_order := ne_order env\<rparr> = env" by simp
  have rn: "ready ?n = []" using idn(4) by (simp add: ready_def)
  have ln: "log_entries ?n = []" using idn by (simp add: log_entries_def)
  from merge_holds [where env = env and ord = "ne_order env" and entries = "log_entries l" and l = ?n and l' = m', unfolded eo, OF mm new_log_inv rn o] inj
  have "set (pl_events m') \<union> set (pl_pending m') = set (pl_events l) \<union> set (pl_pending l)" by (simp add: own ln)
  moreover from merge_inv [where env = env and ord = "ne_order env" and entries = "log_entries l" and l = ?n and l' = m', unfolded eo, OF mm new_log_inv rn o]
  have "log_inv env m'" "ready m' = []" "pl_anchor m' = pl_anchor l" using idn by simp_all
  ultimately have "m' = l" using settled_eq [of env m' l] inv by simp
  with mm show ?thesis by simp
qed

end
