(* ===== verification/Net_Samples.thy ===== *)
theory Net_Samples
  imports Net_Live
begin

text \<open>
  Two machines and a phone, as far as the properties of the log need them: the properties applied to a log in which Ann added
  Bob, and two logs that show what the order of iteration and an entry without its parents do.
\<close>

definition key_a :: string where "key_a = replicate 64 (CHR ''a'')"
definition key_b :: string where "key_b = replicate 64 (CHR ''b'')"

definition sample_env :: net_env where
  "sample_env = \<lparr>ne_verify = (\<lambda>_ _ _. True), ne_sign = (\<lambda>_ _. replicate 64 (CHR ''w'')), ne_public = (\<lambda>s. s), ne_sha = (\<lambda>s. s),
     ne_encode = (\<lambda>v. jtext (jix (body_of v) ''kind'') @ payload_name v @ jtext (jix (payload_of v) ''role'')), ne_order = (\<lambda>ids. ids)\<rparr>"

definition sample_anchor :: json where
  "sample_anchor = JObject [(''name'', JString ''ann''), (''key'', JString key_a)]"

definition sample_new :: peer_log where
  "sample_new = new_log sample_env sample_anchor"

definition sample_entry :: "string \<Rightarrow> string \<Rightarrow> json \<Rightarrow> string list \<Rightarrow> int \<Rightarrow> json" where
  "sample_entry signer kind payload ps t = JObject
     [(''body'', JObject [(''domain'', JString NET_DOMAIN), (''machines'', JString []), (''kind'', JString kind), (''signer'', JString signer),
        (''parents'', JArray (map JString ps)), (''payload'', payload), (''claimed_time'', JNumber (NInt t))]),
      (''signature'', JString (replicate 128 (CHR ''7'')))]"

definition sample_add :: json where
  "sample_add = sample_entry key_a ''add'' (JObject [(''name'', JString ''bob''), (''key'', JString key_b)]) [] 0"

definition sample_one :: peer_log where
  "sample_one = sample_new\<lparr>pl_events := [(''616464626f62'', sample_add)]\<rparr>"

lemma hex_ws: "net_hex (replicate 64 (CHR ''w'')) = replicate 128 (CHR ''7'')"
  by code_simp

lemma unhex_7s: "net_unhex (replicate 128 (CHR ''7'')) = Some (replicate 64 (CHR ''w''))"
  by code_simp

lemma unhex_key_a: "net_unhex key_a = Some (replicate 32 (CHR 0xAA))"
  by code_simp

lemma sample_sign: "sign sample_env s m = replicate 128 (CHR ''7'')"
  using hex_ws by (simp add: sign_def sample_env_def)

lemma sample_id: "pl_id sample_new = []"
  by code_simp

lemma sample_make:
  "pl_id l = [] \<Longrightarrow> make_entry sample_env l s kind payload parents t =
     sample_entry s kind payload (sort (case parents of Some ps \<Rightarrow> ps | None \<Rightarrow> frontier l)) t"
  by (simp add: make_entry_def sample_entry_def sample_sign Let_def) (simp add: sample_env_def)

lemma sample_genuine: "genuine sample_env [] (sample_entry key_a kind payload ps t)"
  by (simp add: genuine_def verify_def sample_entry_def signer_of_def body_of_def jix_def jtext_def unhex_key_a unhex_7s)
     (simp add: sample_env_def)

lemma sample_verify: "verify sample_env (ne_public sample_env key_a) (sign sample_env key_a m) m"
proof -
  have "ne_public sample_env key_a = key_a" by (simp add: sample_env_def)
  then show ?thesis by (simp add: verify_def sample_sign unhex_key_a unhex_7s) (simp add: sample_env_def)
qed

lemma sample_digest: "net_digest sample_env sample_add = ''616464626f62''"
  by code_simp

lemma sample_entry_parents: "parents_of (sample_entry s kind payload ps t) = ps"
  by (simp add: sample_entry_def parents_of_def body_of_def jix_def)

lemma sample_add_parents: "parents_of sample_add = []"
  by (simp add: sample_add_def sample_entry_parents)

lemma sample_authorized: "authorize sample_env sample_new sample_add = Inr ()"
  by code_simp

lemma sample_merge: "merge sample_env [sample_add] sample_new = (sample_one, Inr 1)"
proof -
  have "genuine sample_env (pl_id sample_new) sample_add" unfolding sample_add_def sample_id by (rule sample_genuine)
  from merge_one [OF this _ _ _ _ sample_authorized] show ?thesis
    by (simp add: sample_digest sample_one_def) (simp add: sample_new_def new_log_def sample_add_parents)
qed

lemma order_id: "order_ok (\<lambda>ids. ids)"
  by (simp add: order_ok_def)

lemma sample_order: "sample_env = sample_env\<lparr>ne_order := \<lambda>ids. ids\<rparr>"
  by (simp add: sample_env_def)

lemma sample_reach: "log_reach sample_env sample_anchor sample_new" "log_reach sample_env sample_anchor sample_one"
proof -
  show n: "log_reach sample_env sample_anchor sample_new" unfolding sample_new_def by (rule log_reach.begins)
  from log_reach.merges [OF n order_id] sample_merge sample_order show "log_reach sample_env sample_anchor sample_one" by metis
qed

definition sample_revoke :: json where
  "sample_revoke = sample_entry key_a ''revoke'' (JObject [(''key'', JString key_b)]) [''616464626f62''] 1"

lemma sample_revoke_made: "sample_revoke = make_entry sample_env sample_one key_a ''revoke'' (JObject [(''key'', JString key_b)]) None 1"
proof -
  have "frontier sample_one = [''616464626f62'']" by (simp add: frontier_def sample_one_def sample_add_parents)
  moreover have "pl_id sample_one = []" using sample_id by (simp add: sample_one_def)
  ultimately show ?thesis by (simp add: sample_make sample_revoke_def)
qed

definition sample_two :: peer_log where
  "sample_two = sample_one\<lparr>pl_events := [(''616464626f62'', sample_add), (''7265766f6b65'', sample_revoke)]\<rparr>"

lemma sample_trusted: "\<exists>v. log_view sample_one = Inr v \<and> ne_public sample_env key_a \<in> set (trusted v)"
proof -
  have "case log_view sample_one of Inr v \<Rightarrow> key_a \<in> set (trusted v) | Inl _ \<Rightarrow> False" by code_simp
  then show ?thesis by (cases "log_view sample_one") (auto simp: sample_env_def)
qed

lemma sample_roles: "JString ''phone'' \<notin> roles_of (pl_events sample_one) sample_anchor (ne_public sample_env key_a)"
  by (auto simp: roles_of_def sample_one_def sample_anchor_def sample_add_def sample_entry_def payload_of_def body_of_def jix_def)

lemma sample_revoke_digest: "net_digest sample_env sample_revoke = ''7265766f6b65''"
  by code_simp

lemma sample_merge_revoke: "merge sample_env [sample_revoke] sample_one = (sample_two, Inr 1)"
proof -
  have g: "genuine sample_env (pl_id sample_one) sample_revoke" using sample_id by (simp add: sample_one_def sample_revoke_def sample_genuine)
  obtain v where "log_view sample_one = Inr v" "ne_public sample_env key_a \<in> set (trusted v)" using sample_trusted by blast
  from own_revocation_authorized [OF sample_reach(2) _ this sample_roles] order_id
  have "authorize sample_env sample_one sample_revoke = Inr ()" unfolding sample_revoke_made by (simp add: sample_env_def)
  moreover have "parents_of sample_revoke = [''616464626f62'']" by (simp add: sample_revoke_def sample_entry_parents)
  ultimately show ?thesis using merge_one [OF g] by (simp add: sample_revoke_digest sample_two_def) (simp add: sample_one_def sample_new_def new_log_def bt_ok_def)
qed

lemma sample_reach_two: "log_reach sample_env sample_anchor sample_two"
  using log_reach.merges [OF sample_reach(2) order_id] sample_merge_revoke sample_order by metis

subsection \<open>The properties there\<close>

theorem log_entries_authorized_witness:
  "genuine sample_env (pl_id sample_one) sample_add \<and> ''616464626f62'' \<notin> past_of (pl_events sample_one) sample_add \<and>
   trusts (pl_events sample_one) sample_anchor (past_of (pl_events sample_one) sample_add) (signer_of sample_add)"
proof -
  have "(''616464626f62'', sample_add) \<in> set (pl_events sample_one)" by (simp add: sample_one_def)
  from log_entries_authorized [OF sample_reach(2) this] show ?thesis by blast
qed


theorem sync_converges_witness:
  "fst (log_sync sample_env (log_export sample_new) sample_one) = fst (log_sync sample_env (log_export sample_one) sample_new)"
proof -
  have s: "log_sync sample_env (log_export sample_new) sample_one = (sample_one, Inr 0)"
    by (simp add: log_sync_export sample_one_def sample_new_def new_log_def log_entries_def merge_def settle.simps ready_def)
  have "log_entries sample_one = [sample_add]" by (simp add: log_entries_def sample_one_def sample_new_def new_log_def)
  then have t: "log_sync sample_env (log_export sample_one) sample_new = (sample_one, Inr 1)"
    using sample_merge by (simp add: log_sync_export sample_one_def)
  have "inj_on (net_digest sample_env) (set (log_entries sample_one) \<union> set (log_entries sample_new))"
    by (simp add: log_entries_def sample_one_def sample_new_def new_log_def)
  from sync_converges [OF sample_reach(2,1) order_id order_id _ _ this, unfolded sample_order [symmetric], OF s t] s t
  show ?thesis by simp
qed

theorem revoked_forever_witness:
  "\<exists>v. log_view sample_two = Inr v \<and> key_b \<notin> set (trusted v) \<and> accept_endpoint sample_env sample_two key_b None = Inl (Refused ''untrusted_endpoint'')"
proof -
  have "(''7265766f6b65'', sample_revoke) \<in> set (pl_events sample_two)" "kind_is sample_revoke ''revoke''" "payload_key sample_revoke = key_b"
    by (simp_all add: sample_two_def sample_revoke_def sample_entry_def kind_is_def payload_key_def payload_of_def body_of_def jix_def jtext_def)
  with revoked_forever [OF sample_reach_two _ _ log_later.same, of "''7265766f6b65''" sample_revoke None] show ?thesis by metis
qed

theorem trusted_exact_witness:
  "\<exists>v. log_view sample_one = Inr v \<and> set (trusted v) = {k. trusts (pl_events sample_one) sample_anchor (fst ` set (pl_events sample_one)) k}"
  using trusted_exact [OF sample_reach(2)] by blast

theorem trusted_can_revoke_witness:
  "\<exists>l'. merge sample_env [sample_revoke] sample_one = (l', Inr 1) \<and> accept_endpoint sample_env l' key_b None = Inl (Refused ''untrusted_endpoint'')"
proof -
  obtain v where v: "log_view sample_one = Inr v" "ne_public sample_env key_a \<in> set (trusted v)" using sample_trusted by blast
  have "order_ok (ne_order sample_env)" using order_id by (simp add: sample_env_def)
  moreover have "pl_pending sample_one = []" by (simp add: sample_one_def sample_new_def new_log_def)
  moreover have "net_digest sample_env sample_revoke \<notin> fst ` set (pl_events sample_one)" unfolding sample_revoke_digest by (simp add: sample_one_def)
  ultimately show ?thesis
    using trusted_can_revoke [OF sample_reach(2) _ _ v sample_roles sample_verify, of key_b 1 None] unfolding sample_revoke_made by blast
qed

subsection \<open>What goes wrong\<close>

definition sample_phone :: json where
  "sample_phone = sample_entry key_a ''add'' (JObject [(''name'', JString ''bob''), (''key'', JString key_b), (''role'', JString ''phone'')]) [] 0"

definition sample_both :: peer_log where
  "sample_both = sample_new\<lparr>pl_events := [(''616464626f62'', sample_add), (''616464626f6270686f6e65'', sample_phone)]\<rparr>"

definition sample_next :: json where
  "sample_next = sample_entry key_b ''add'' (JObject [(''name'', JString ''cal''), (''key'', JString (replicate 64 (CHR ''c'')))])
     [''616464626f62'', ''616464626f6270686f6e65''] 2"

lemma sample_both_reached: "log_reach sample_env sample_anchor sample_both"
proof -
  have g: "genuine sample_env (pl_id sample_one) sample_phone" using sample_id by (simp add: sample_one_def sample_phone_def sample_genuine)
  have "net_digest sample_env sample_phone = ''616464626f6270686f6e65''" by code_simp
  moreover have "authorize sample_env sample_one sample_phone = Inr ()" by code_simp
  moreover have "parents_of sample_phone = []" by (simp add: sample_phone_def sample_entry_parents)
  ultimately have "merge sample_env [sample_phone] sample_one = (sample_both, Inr 1)"
    using merge_one [OF g] by (simp add: sample_both_def) (simp add: sample_one_def sample_new_def new_log_def bt_ok_def)
  with log_reach.merges [OF sample_reach(2) order_id] sample_order show ?thesis by metis
qed

text \<open>
  A key that was added twice, once as a phone, is a phone or not as a \<open>HashSet\<close> is iterated: in the same log the same
  entry is authorized in one order and refused in another.
\<close>

theorem authorize_by_order:
  "log_reach sample_env sample_anchor sample_both \<and> authorize (sample_env\<lparr>ne_order := \<lambda>ids. ids\<rparr>) sample_both sample_next = Inr () \<and>
   authorize (sample_env\<lparr>ne_order := rev\<rparr>) sample_both sample_next = Inl (Refused ''untrusted_signer'')"
proof (intro conjI sample_both_reached)
  show "authorize (sample_env\<lparr>ne_order := \<lambda>ids. ids\<rparr>) sample_both sample_next = Inr ()" by code_simp
  show "authorize (sample_env\<lparr>ne_order := rev\<rparr>) sample_both sample_next = Inl (Refused ''untrusted_signer'')" by code_simp
qed

text \<open>
  An entry is put aside until its parents are known without a look at who signed it. One that a stranger signed then
  refuses every exchange that brings its parents.
\<close>

definition sample_stranger :: json where
  "sample_stranger = sample_entry (replicate 64 (CHR ''c'')) ''revoke'' (JObject [(''key'', JString key_a)]) [''616464626f62''] 1"

definition sample_waiting :: peer_log where
  "sample_waiting = sample_new\<lparr>pl_pending := [(''7265766f6b65'', sample_stranger)]\<rparr>"

theorem merge_wedged:
  "merge sample_env [sample_stranger] sample_new = (sample_waiting, Inr 0) \<and>
   merge sample_env [sample_add] sample_new = (sample_one, Inr 1) \<and>
   merge sample_env [sample_add] sample_waiting = (sample_waiting, Inl (Refused ''untrusted_signer''))"
proof (intro conjI sample_merge)
  show "merge sample_env [sample_stranger] sample_new = (sample_waiting, Inr 0)" by code_simp
  show "merge sample_env [sample_add] sample_waiting = (sample_waiting, Inl (Refused ''untrusted_signer''))" by code_simp
qed

end
