(* ===== verification/Net_Pair.thy ===== *)
theory Net_Pair
  imports Net_Live "HOL-Library.Word"
begin

unbundle bit_operations_syntax

text \<open>
  Pairing two machines with a code (\<open>kanna-net/src/pair.rs\<close>): an offer that is open for three attempts, and the two parties of
  a password-authenticated key exchange that confirm it to each other, prove their device keys, and hand over the log.
  The exchange itself (SPAKE2), HKDF and HMAC are arguments.
\<close>

subsection \<open>Offers\<close>

text \<open>Instants are nanoseconds.\<close>

record offer =
  of_code :: string
  of_session :: string
  of_expires :: nat
  of_attempts :: "32 word"
  of_used :: bool

definition OFFER_LIFETIME :: nat where "OFFER_LIFETIME = 300 * 1000000000"
definition ATTEMPTS :: "32 word" where "ATTEMPTS = 3"

definition pad_zeros :: "nat \<Rightarrow> string \<Rightarrow> string" where
  "pad_zeros n s = replicate (n - length s) (CHR ''0'') @ s"

definition le_u32 :: "string \<Rightarrow> nat" where
  "le_u32 bs = foldr (\<lambda>b n. code b + 256 * n) (take 4 bs) 0"

definition offer_new :: "string \<Rightarrow> nat \<Rightarrow> offer" where
  "offer_new bytes now = \<lparr>of_code = pad_zeros 6 (dec (le_u32 bytes mod 1000000)), of_session = net_hex (drop 4 bytes),
     of_expires = now + OFFER_LIFETIME, of_attempts = 0, of_used = False\<rparr>"

definition offer_for_phone :: "string \<Rightarrow> nat \<Rightarrow> offer" where
  "offer_for_phone bytes now = \<lparr>of_code = net_hex (take 16 bytes), of_session = net_hex (drop 16 bytes),
     of_expires = now + OFFER_LIFETIME, of_attempts = 0, of_used = False\<rparr>"

definition begin_attempt :: "nat \<Rightarrow> offer \<Rightarrow> offer \<times> (net_error + unit)" where
  "begin_attempt now f =
     (if of_used f then (f, Inl (Refused ''code_used''))
      else if of_expires f \<le> now then (f, Inl (Refused ''code_expired''))
      else if ATTEMPTS \<le> of_attempts f then (f, Inl (Refused ''rate_limited''))
      else (f\<lparr>of_attempts := of_attempts f + 1\<rparr>, Inr ()))"

subsection \<open>Parties\<close>

datatype role = RoleA | RoleB

fun role_name :: "role \<Rightarrow> string" where
  "role_name RoleA = ''A''"
| "role_name RoleB = ''B''"

fun other :: "role \<Rightarrow> role" where
  "other RoleA = RoleB"
| "other RoleB = RoleA"

text \<open>
  \<open>pe_start\<close> takes the role, the password, the two identities and random bytes, and gives the state of the exchange and the
  message for the other side; \<open>pe_finish\<close> gives the shared secret, or fails on a malformed message.
\<close>

record pair_env =
  pe_net :: net_env
  pe_start :: "role \<Rightarrow> string \<Rightarrow> string \<Rightarrow> string \<Rightarrow> string \<Rightarrow> string \<times> string"
  pe_finish :: "string \<Rightarrow> string \<Rightarrow> string option"
  pe_hkdf :: "string \<Rightarrow> string \<Rightarrow> string"
  pe_hmac :: "string \<Rightarrow> string \<Rightarrow> string"

definition hello_a :: "json \<Rightarrow> json \<Rightarrow> json" where
  "hello_a descriptor anchor = JObject [(''domain'', JString NET_DOMAIN), (''device'', descriptor), (''anchor'', anchor)]"

definition hello_b :: "json \<Rightarrow> string \<Rightarrow> json" where
  "hello_b descriptor session = JObject [(''domain'', JString NET_DOMAIN), (''device'', descriptor), (''session'', JString session)]"

definition derive :: "pair_env \<Rightarrow> string \<Rightarrow> string \<Rightarrow> string" where
  "derive env shared label = pe_hkdf env shared (NET_DOMAIN @ ''/pairing/'' @ label)"

definition tag :: "pair_env \<Rightarrow> string \<Rightarrow> string \<Rightarrow> string \<Rightarrow> string" where
  "tag env shared label message = net_hex (pe_hmac env (derive env shared label) message)"

definition byte_of :: "char \<Rightarrow> 8 word" where
  "byte_of c = of_nat (code c)"

definition same_text :: "string \<Rightarrow> string \<Rightarrow> bool" where
  "same_text a b \<longleftrightarrow> length a = length b \<and> foldl (\<lambda>d (x, y). d OR (byte_of x XOR byte_of y)) 0 (zip a b) = 0"

record party =
  pt_role :: role
  pt_hello_a :: json
  pt_hello_b :: json
  pt_pake :: "string option"
  pt_outbound :: string
  pt_shared :: string
  pt_transcript :: string

definition new_party :: "pair_env \<Rightarrow> string \<Rightarrow> role \<Rightarrow> string \<Rightarrow> json \<Rightarrow> json \<Rightarrow> party" where
  "new_party env rnd r pass ha hb =
     (let (pake, outbound) = pe_start env r pass (canonical (pe_net env) ha) (canonical (pe_net env) hb) rnd
      in \<lparr>pt_role = r, pt_hello_a = ha, pt_hello_b = hb, pt_pake = Some pake, pt_outbound = outbound, pt_shared = [], pt_transcript = []\<rparr>)"

definition transcript_of :: "pair_env \<Rightarrow> party \<Rightarrow> string \<Rightarrow> string" where
  "transcript_of env p incoming =
     (let (a, b) = (case pt_role p of RoleA \<Rightarrow> (net_hex (pt_outbound p), net_hex incoming) | RoleB \<Rightarrow> (net_hex incoming, net_hex (pt_outbound p)))
      in canonical (pe_net env) (JObject [(''domain'', JString NET_DOMAIN), (''a'', pt_hello_a p), (''b'', pt_hello_b p),
           (''message_a'', JString a), (''message_b'', JString b)]))"

definition finish :: "pair_env \<Rightarrow> string \<Rightarrow> string \<Rightarrow> party \<Rightarrow> party \<times> (net_error + json)" where
  "finish env secret incoming p =
     (case pt_pake p of
        None \<Rightarrow> (p, Inl (Refused ''bad_pake_message''))
      | Some pake \<Rightarrow>
          (let p = p\<lparr>pt_pake := None\<rparr>
           in case pe_finish env pake incoming of
                None \<Rightarrow> (p, Inl (Refused ''bad_pake_message''))
              | Some shared \<Rightarrow>
                  (let t = transcript_of env p incoming; p = p\<lparr>pt_shared := shared, pt_transcript := t\<rparr>
                   in (p, Inr (JObject [(''mac'', JString (tag env shared (''confirm-'' @ role_name (pt_role p)) t)),
                        (''signature'', JString (sign (pe_net env) secret t))])))))"

definition confirm :: "pair_env \<Rightarrow> json \<Rightarrow> party \<Rightarrow> net_error + unit" where
  "confirm env proof_json p =
     (let them = other (pt_role p); expected = tag env (pt_shared p) (''confirm-'' @ role_name them) (pt_transcript p)
      in if \<not> same_text (jtext (jix proof_json ''mac'')) expected then Inl (Refused ''pake_confirmation_failed'')
         else let hello = (if them = RoleB then pt_hello_b p else pt_hello_a p)
              in if verify (pe_net env) (jtext (jix (jix hello ''device'') ''key'')) (jtext (jix proof_json ''signature'')) (pt_transcript p)
                 then Inr () else Inl (Refused ''bad_signature''))"

definition seal :: "pair_env \<Rightarrow> json \<Rightarrow> party \<Rightarrow> json" where
  "seal env payload p =
     JObject [(''payload'', payload), (''mac'', JString (tag env (pt_shared p) ''handoff'' (canonical (pe_net env) payload)))]"

definition open_handoff :: "pair_env \<Rightarrow> json \<Rightarrow> string \<Rightarrow> party \<Rightarrow> net_error + peer_log" where
  "open_handoff env wire own_key p =
     (if \<not> same_text (jtext (jix wire ''mac'')) (tag env (pt_shared p) ''handoff'' (canonical (pe_net env) (jix wire ''payload'')))
      then Inl (Refused ''handoff_tampered'')
      else (let anchor = jix (pt_hello_a p) ''anchor''
            in if \<not> json_eq (jix (jix wire ''payload'') ''anchor'') anchor then Inl (Refused ''wrong_log'')
               else (case log_sync (pe_net env) (jix wire ''payload'') (new_log (pe_net env) anchor) of
                       (_, Inl x) \<Rightarrow> Inl x
                     | (l, Inr _) \<Rightarrow>
                         (case log_view l of
                            Inl x \<Rightarrow> Inl x
                          | Inr v \<Rightarrow>
                              if jtext (jix (jix (pt_hello_a p) ''device'') ''key'') \<notin> set (trusted v) \<or> own_key \<notin> set (trusted v)
                              then Inl (Refused ''untrusted_endpoint'') else Inr l))))"

definition pake_bytes :: "json \<Rightarrow> net_error + string" where
  "pake_bytes v = (case Option.bind (as_str v) net_unhex of Some bs \<Rightarrow> Inr bs | None \<Rightarrow> Inl (Refused ''bad_pake_message''))"

subsection \<open>Encodings read back\<close>

lemma code_hex_nibble: "n < 16 \<Longrightarrow> code (hex_nibble n) = (if n < 10 then 48 + n else 87 + n)"
  by (simp add: hex_nibble_def)

lemma nibble_value_hex: "n < 16 \<Longrightarrow> nibble_value (hex_nibble n) = Some n"
  by (simp add: nibble_value_def code_hex_nibble)

lemma hex_nibble_ascii: "n < 16 \<Longrightarrow> hex_nibble n \<noteq> CHR ''+'' \<and> code (hex_nibble n) < 128"
  using code_hex_nibble [of n] by (cases "hex_nibble n = CHR ''+''") (auto split: if_splits)

lemma code_byte: "code c < 256"
  by (rule nat_of_char_less_256)

lemma hex_pairs_hex: "hex_pairs (net_hex bs) = Some bs"
proof (induction bs)
  case (Cons b bs)
  have "code b div 16 < 16" "code b mod 16 < 16" using code_byte [of b] by (simp_all add: less_mult_imp_div_less)
  moreover from this have "hex_nibble (code b div 16) \<noteq> CHR ''+''" using hex_nibble_ascii by blast
  ultimately have "hex_pair (hex_nibble (code b div 16)) (hex_nibble (code b mod 16)) = Some b"
    by (simp add: hex_pair_def nibble_value_hex)
  with Cons show ?case by (simp add: net_hex_def)
qed (simp add: net_hex_def)

lemma hex_round: "net_unhex (net_hex bs) = Some bs"
proof -
  have "length (net_hex bs) = 2 * length bs" by (induction bs) (simp_all add: net_hex_def)
  moreover have "list_all (\<lambda>c. code c < 128) (net_hex bs)"
  proof (induction bs)
    case (Cons b bs)
    have "code b div 16 < 16" "code b mod 16 < 16" using code_byte [of b] by (simp_all add: less_mult_imp_div_less)
    with Cons hex_nibble_ascii show ?case by (simp add: net_hex_def)
  qed (simp add: net_hex_def)
  ultimately show ?thesis by (simp add: net_unhex_def hex_pairs_hex)
qed

lemma pake_bytes_hex: "pake_bytes (JString (net_hex bs)) = Inr bs"
  by (simp add: pake_bytes_def hex_round)

lemma byte_of_inject: "byte_of x = byte_of y \<longleftrightarrow> x = y"
proof
  assume "byte_of x = byte_of y"
  then have "unat (byte_of x) = unat (byte_of y)" by simp
  then have "code x = code y" using code_byte [of x] code_byte [of y] by (simp add: byte_of_def unat_of_nat)
  then show "x = y" by simp
qed simp

lemma xor_zero: "x XOR y = 0 \<longleftrightarrow> x = (y :: 8 word)"
  by (auto simp: bit_eq_iff bit_xor_iff)

lemma or_zero: "x OR y = 0 \<longleftrightarrow> x = 0 \<and> y = (0 :: 8 word)"
  by (auto simp: bit_eq_iff bit_or_iff)

lemma fold_zero: "foldl (\<lambda>d (x, y). d OR (byte_of x XOR byte_of y)) d ps = 0 \<longleftrightarrow> d = 0 \<and> (\<forall>(x, y) \<in> set ps. x = y)"
  by (induction ps arbitrary: d) (auto simp: or_zero xor_zero byte_of_inject)

text \<open>The comparison in constant time is equality.\<close>

lemma same_text_iff: "same_text a b \<longleftrightarrow> a = b"
proof
  assume "same_text a b"
  then have "length a = length b" "\<forall>(x, y) \<in> set (zip a b). x = y" by (simp_all add: same_text_def fold_zero)
  then show "a = b" by (induction a b rule: list_induct2) simp_all
next
  assume "a = b"
  moreover have "\<forall>(x, y) \<in> set (zip b b). x = y" by (auto simp: set_zip)
  ultimately show "same_text a b" by (simp add: same_text_def fold_zero)
qed

lemma hex_inject: "net_hex a = net_hex b \<longleftrightarrow> a = b"
  by (metis hex_round option.inject)

subsection \<open>Confirmation\<close>

lemma transcript_pake: "transcript_of env (p\<lparr>pt_pake := x\<rparr>) incoming = transcript_of env p incoming"
  by (cases "pt_role p") (simp_all add: transcript_of_def)

lemma finish_ok:
  assumes "pt_pake p = Some s" "pe_finish env s incoming = Some k"
  shows "finish env secret incoming p =
    (p\<lparr>pt_pake := None, pt_shared := k, pt_transcript := transcript_of env p incoming\<rparr>,
     Inr (JObject [(''mac'', JString (tag env k (''confirm-'' @ role_name (pt_role p)) (transcript_of env p incoming))),
       (''signature'', JString (sign (pe_net env) secret (transcript_of env p incoming)))]))"
  using assms by (simp add: finish_def Let_def transcript_pake)

lemma finish_accepts:
  assumes "finish env secret incoming p = (p', Inr pf)"
  shows "pt_role p' = pt_role p \<and> pt_transcript p' = transcript_of env p incoming \<and>
    jtext (jix pf ''mac'') = tag env (pt_shared p') (''confirm-'' @ role_name (pt_role p)) (transcript_of env p incoming)"
proof (cases "pt_pake p")
  case None
  with assms show ?thesis by (simp add: finish_def)
next
  case (Some s)
  show ?thesis
  proof (cases "pe_finish env s incoming")
    case None
    with Some assms show ?thesis by (simp add: finish_def)
  next
    case s': (Some k)
    from finish_ok [OF Some s', of secret] assms show ?thesis by (auto simp: jix_def jtext_def)
  qed
qed

lemma transcript_fields:
  assumes "\<And>x y. canonical (pe_net env) x = canonical (pe_net env) y \<Longrightarrow> sorted_json x = sorted_json y"
    and "transcript_of env p inc = transcript_of env q inc'" and "pt_role q = other (pt_role p)"
  shows "sorted_json (pt_hello_a p) = sorted_json (pt_hello_a q) \<and> sorted_json (pt_hello_b p) = sorted_json (pt_hello_b q) \<and>
    inc = pt_outbound q \<and> inc' = pt_outbound p"
proof -
  let ?f = "\<lambda>p a b. [(''domain'', JString NET_DOMAIN), (''a'', pt_hello_a p), (''b'', pt_hello_b p), (''message_a'', JString a), (''message_b'', JString b)]"
  let ?s = "\<lambda>p a b. sort_key fst (map (map_prod (\<lambda>k. k) sorted_json) (?f p a b))"
  define a b where "a = (case pt_role p of RoleA \<Rightarrow> net_hex (pt_outbound p) | RoleB \<Rightarrow> net_hex inc)"
    and "b = (case pt_role p of RoleA \<Rightarrow> net_hex inc | RoleB \<Rightarrow> net_hex (pt_outbound p))"
  define c d where "c = (case pt_role q of RoleA \<Rightarrow> net_hex (pt_outbound q) | RoleB \<Rightarrow> net_hex inc')"
    and "d = (case pt_role q of RoleA \<Rightarrow> net_hex inc' | RoleB \<Rightarrow> net_hex (pt_outbound q))"
  have "transcript_of env p inc = canonical (pe_net env) (JObject (?f p a b))" "transcript_of env q inc' = canonical (pe_net env) (JObject (?f q c d))"
    by (simp_all add: transcript_of_def a_def b_def c_def d_def split: role.splits)
  with assms(1,2) have "sorted_json (JObject (?f p a b)) = sorted_json (JObject (?f q c d))" by metis
  then have "?s p a b = ?s q c d" unfolding sorted_json.simps json.inject .
  then have e: "set (map (map_prod (\<lambda>k. k) sorted_json) (?f p a b)) = set (map (map_prod (\<lambda>k. k) sorted_json) (?f q c d))"
    by (metis set_sort)
  have "(''a'', sorted_json (pt_hello_a p)) \<in> set (map (map_prod (\<lambda>k. k) sorted_json) (?f p a b))"
    "(''b'', sorted_json (pt_hello_b p)) \<in> set (map (map_prod (\<lambda>k. k) sorted_json) (?f p a b))"
    "(''message_a'', JString a) \<in> set (map (map_prod (\<lambda>k. k) sorted_json) (?f p a b))"
    "(''message_b'', JString b) \<in> set (map (map_prod (\<lambda>k. k) sorted_json) (?f p a b))" by simp_all
  then have "sorted_json (pt_hello_a p) = sorted_json (pt_hello_a q)" "sorted_json (pt_hello_b p) = sorted_json (pt_hello_b q)" "a = c" "b = d"
    unfolding e by simp_all
  with assms(3) show ?thesis by (cases "pt_role p") (auto simp: a_def b_def c_def d_def hex_inject)
qed

lemma confirm_accepts:
  assumes "confirm env pf p = Inr ()"
  shows "jtext (jix pf ''mac'') = tag env (pt_shared p) (''confirm-'' @ role_name (other (pt_role p))) (pt_transcript p)"
  using assms by (simp add: confirm_def Let_def same_text_iff split: if_splits)

lemma role_name_inject: "role_name r = role_name r' \<longleftrightarrow> r = r'"
  by (cases r; cases r') simp_all

lemma new_party_simps:
  assumes "pe_start env r c (canonical (pe_net env) ha) (canonical (pe_net env) hb) rnd = (st, m)"
  shows "pt_pake (new_party env rnd r c ha hb) = Some st" "pt_outbound (new_party env rnd r c ha hb) = m" "pt_role (new_party env rnd r c ha hb) = r"
    "pt_hello_a (new_party env rnd r c ha hb) = ha" "pt_hello_b (new_party env rnd r c ha hb) = hb"
  using assms by (simp_all add: new_party_def)

lemma open_sealed:
  assumes "log_reach (pe_net env) (pl_anchor l) l" "replayable (pe_net env) l" "order_ok (ne_order (pe_net env))"
    "inj_on (net_digest (pe_net env)) (set (log_entries l))" "log_view l = Inr v"
    "jtext (jix (jix (pt_hello_a q) ''device'') ''key'') \<in> set (trusted v)" "own \<in> set (trusted v)"
    "jix (pt_hello_a q) ''anchor'' = pl_anchor l" "pt_shared p = pt_shared q"
  shows "open_handoff env (seal env (log_export l) p) own q = Inr l"
proof -
  have w: "jix (seal env (log_export l) p) ''payload'' = log_export l"
    "jtext (jix (seal env (log_export l) p) ''mac'') = tag env (pt_shared q) ''handoff'' (canonical (pe_net env) (log_export l))"
    "jix (log_export l) ''anchor'' = pl_anchor l"
    using assms(9) by (simp_all add: seal_def log_export_def jix_def jtext_def)
  have "log_sync (pe_net env) (log_export l) (new_log (pe_net env) (pl_anchor l)) = (l, Inr (length (pl_events l)))"
    using replay [OF assms(1,2,3,4)] log_sync_export [of "new_log (pe_net env) (pl_anchor l)" l] by (simp add: new_log_def)
  with assms(5-8) show ?thesis by (simp add: open_handoff_def w same_text_iff json_eq_def Let_def)
qed

lemma open_handoff_sound:
  assumes "open_handoff env wire own q = Inr l" "order_ok (ne_order (pe_net env))"
  shows "log_reach (pe_net env) (jix (pt_hello_a q) ''anchor'') l"
proof -
  let ?n = "new_log (pe_net env) (jix (pt_hello_a q) ''anchor'')"
  obtain l' r where s: "log_sync (pe_net env) (jix wire ''payload'') ?n = (l', r)" by force
  have "l' = l"
    using assms(1) s by (auto simp: open_handoff_def Let_def split: if_splits sum.splits)
  moreover have eo: "(pe_net env)\<lparr>ne_order := ne_order (pe_net env)\<rparr> = pe_net env" by simp
  moreover have "log_reach (pe_net env) (jix (pt_hello_a q) ''anchor'') l'"
    using s log_reach.merges [OF log_reach.begins assms(2), unfolded eo] log_reach.begins by (auto simp: log_sync_def split: if_splits)
  ultimately show ?thesis by simp
qed

subsection \<open>Properties\<close>



end
