(* ===== verification/Net_Node.thy ===== *)
theory Net_Node
  imports Net_Pair
begin

text \<open>
  A machine among its peers (\<open>kanna-net/src/node.rs\<close>): its state, the requests that read and change it, and the three ways of
  pairing, cut where they wait for the other side. The network, the app that is asked to confirm, the clock, random bytes
  and the parsing of addresses are arguments; machines found nearby and what peers say of their release are left out.
\<close>

record failure =
  fl_code :: string
  fl_message :: string

definition fail_with :: "string \<Rightarrow> string \<Rightarrow> failure" where
  "fail_with c m = \<lparr>fl_code = c, fl_message = m\<rparr>"

definition refused_message :: "string \<Rightarrow> string" where
  "refused_message c =
     (case map_of [(''bad_signature'', ''a signature doesn't verify''), (''wrong_log'', ''it belongs to another peer log''),
        (''untrusted_signer'', ''its signer wasn't trusted when it signed''), (''revoked'', ''that key is revoked''),
        (''identity_mismatch'', ''that name belongs to another key''), (''unpaired'', ''it isn't paired with this machine''),
        (''untrusted_endpoint'', ''that endpoint isn't trusted''), (''pake_confirmation_failed'', ''the code didn't match''),
        (''bad_pake_message'', ''the pairing exchange was malformed''), (''handoff_tampered'', ''the peer log handed over was altered''),
        (''gesture_required'', ''it wasn't confirmed in Kanna.app''), (''code_used'', ''that code was used already''),
        (''code_expired'', ''that code expired''), (''rate_limited'', ''too many wrong codes: start pairing again''),
        (''already_paired'', ''this machine is paired already'')] c of
        Some m \<Rightarrow> m | None \<Rightarrow> ''refused'')"

definition refused :: "string \<Rightarrow> failure" where
  "refused c = fail_with c (refused_message c)"

text \<open>A panic ends the process; it is a failure of its own here.\<close>

fun fail_of :: "net_error \<Rightarrow> failure" where
  "fail_of (Refused c) = refused c"
| "fail_of Net_Panic = fail_with ''panic'' []"

definition from_reply :: "json \<Rightarrow> failure" where
  "from_reply reply =
     (let e = jix reply ''error''
      in fail_with (case as_str (jix e ''code'') of Some c \<Rightarrow> c | None \<Rightarrow> ''failed'') (case as_str (jix e ''message'') of Some m \<Rightarrow> m | None \<Rightarrow> ''failed''))"

definition refusal :: "failure \<Rightarrow> json" where
  "refusal f = JObject [(''ok'', JBool False), (''error'', JObject [(''code'', JString (fl_code f)), (''message'', JString (fl_message f))])]"

definition is_key :: "string \<Rightarrow> bool" where
  "is_key t \<longleftrightarrow> length t = 64 \<and> list_all (\<lambda>c. is_digit c \<or> 97 \<le> code c \<and> code c \<le> 102) t"

definition valid_name :: "string \<Rightarrow> bool" where
  "valid_name n \<longleftrightarrow> n \<noteq> [] \<and> length n \<le> 32 \<and> \<not> is_key n \<and> list_all (\<lambda>c. is_lower c \<or> is_digit c \<or> c = CHR ''-'') n"

definition phone_name :: "string \<Rightarrow> string" where
  "phone_name key = ''iphone-'' @ take 4 key"

subsection \<open>State\<close>

record net_node =
  nd_name :: string
  nd_port :: nat
  nd_relay :: "(string \<times> string option) option"
  nd_log :: "peer_log option"
  nd_broken :: "string option"
  nd_addrs :: "(string, string list) btree"
  nd_offer :: "offer option"
  nd_phone_offer :: "offer option"
  nd_conns :: "string list"
  nd_outcome :: "(failure + json) option"
  nd_revisions :: nat
  nd_saves :: "json list"

record node_env =
  nv_pair :: pair_env
  nv_secret :: string
  nv_relay_url :: "string \<Rightarrow> failure + string"
  nv_socket :: "string \<Rightarrow> bool"
  nv_addrs :: "string list"
  nv_capabilities :: json

abbreviation nv_net :: "node_env \<Rightarrow> net_env" where
  "nv_net nv \<equiv> pe_net (nv_pair nv)"

definition node_key :: "node_env \<Rightarrow> string" where
  "node_key nv = ne_public (nv_net nv) (nv_secret nv)"

definition snapshot :: "net_node \<Rightarrow> json" where
  "snapshot n = JObject
     ([(''name'', JString (nd_name n)), (''port'', JNumber (NInt (int (nd_port n)))),
       (''addrs'', JObject (map (\<lambda>(k, as). (k, JArray (map JString as))) (nd_addrs n)))] @
      (case nd_relay n of Some (url, token) \<Rightarrow> [(''relay'', JString url), (''relay_token'', opt_json token)] | None \<Rightarrow> []) @
      (case nd_log n of Some l \<Rightarrow> [(''anchor'', pl_anchor l), (''entries'', JArray (log_entries l))] | None \<Rightarrow> []))"

definition save :: "net_node \<Rightarrow> net_node" where
  "save n = (if nd_broken n = None then n\<lparr>nd_saves := nd_saves n @ [snapshot n]\<rparr> else n)"

definition descriptor :: "node_env \<Rightarrow> net_node \<Rightarrow> json" where
  "descriptor nv n = JObject [(''name'', JString (nd_name n)), (''key'', JString (node_key nv)), (''capabilities'', nv_capabilities nv),
     (''relay'', opt_json (map_option fst (nd_relay n))), (''addrs'', JArray (map JString (nv_addrs nv)))]"

definition usable :: "net_node \<Rightarrow> failure + unit" where
  "usable n = (case nd_broken n of Some reason \<Rightarrow> Inl (fail_with ''broken'' reason) | None \<Rightarrow> Inr ())"

definition relay_new :: "node_env \<Rightarrow> string \<Rightarrow> string option \<Rightarrow> failure + string \<times> string option" where
  "relay_new nv url token =
     (let token = Option.bind token (\<lambda>t. if trim t = [] then None else Some (trim t))
      in case nv_relay_url nv url of Inl x \<Rightarrow> Inl x | Inr u \<Rightarrow> Inr (u, token))"

text \<open>What a start makes of the saved state; \<open>port\<close> is the port the endpoint was bound to.\<close>

definition start_log :: "node_env \<Rightarrow> json \<Rightarrow> peer_log option \<times> string option" where
  "start_log nv saved =
     (case jget saved ''anchor'' of
        Some (JObject a) \<Rightarrow>
          (case merge (nv_net nv) (case as_array (jix saved ''entries'') of Some es \<Rightarrow> es | None \<Rightarrow> []) (new_log (nv_net nv) (JObject a)) of
             (l, Inr _) \<Rightarrow> (Some l, None)
           | (_, Inl x) \<Rightarrow> (None, Some (''the peer log in kanna.db doesn't verify ('' @ fl_code (fail_of x) @ '': '' @ fl_message (fail_of x) @ '')'')))
      | _ \<Rightarrow> (None, None))"

definition start_node :: "node_env \<Rightarrow> string \<Rightarrow> nat \<Rightarrow> json \<Rightarrow> net_node" where
  "start_node nv default_name port saved =
     save \<lparr>nd_name = (case as_str (jix saved ''name'') of Some s \<Rightarrow> if valid_name s then s else default_name | None \<Rightarrow> default_name),
       nd_port = port,
       nd_relay = (case as_str (jix saved ''relay'') of
           Some url \<Rightarrow> (case relay_new nv url (as_str (jix saved ''relay_token'')) of Inr r \<Rightarrow> Some r | Inl _ \<Rightarrow> None) | None \<Rightarrow> None),
       nd_log = fst (start_log nv saved), nd_broken = snd (start_log nv saved),
       nd_addrs = (case jix saved ''addrs'' of JObject fs \<Rightarrow> foldl (\<lambda>m (k, v). bt_insert k (jstrings v) m) [] fs | _ \<Rightarrow> []),
       nd_offer = None, nd_phone_offer = None, nd_conns = [], nd_outcome = None, nd_revisions = 0, nd_saves = []\<rparr>"

subsection \<open>Requests\<close>

definition node_view :: "peer_log \<Rightarrow> failure + net_view" where
  "node_view l = (case log_view l of Inl x \<Rightarrow> Inl (fail_of x) | Inr v \<Rightarrow> Inr v)"

definition rename :: "node_env \<Rightarrow> string \<Rightarrow> net_node \<Rightarrow> net_node \<times> (failure + json)" where
  "rename nv name n =
     (if \<not> valid_name name then
        (n, Inl (fail_with ''bad_request'' ([CHR 0x22] @ name @ [CHR 0x22] @ '' isn't a machine name: use up to 32 lowercase letters, digits and -'')))
      else case (case nd_log n of None \<Rightarrow> Inr False
                 | Some l \<Rightarrow> (case node_view l of Inl x \<Rightarrow> Inl x | Inr v \<Rightarrow> Inr (map_of (vw_descriptors v) (node_key nv) \<noteq> None))) of
             Inl x \<Rightarrow> (n, Inl x)
           | Inr True \<Rightarrow> (n, Inl (fail_with ''paired'' ''this machine is paired under its name already; renaming a paired machine isn't supported yet''))
           | Inr False \<Rightarrow> (save (n\<lparr>nd_name := name\<rparr>), Inr (JObject [(''name'', JString name)])))"

definition set_relay :: "node_env \<Rightarrow> string option \<Rightarrow> string option \<Rightarrow> net_node \<Rightarrow> net_node \<times> (failure + json)" where
  "set_relay nv url token n =
     (case (case url of None \<Rightarrow> Inr None | Some u \<Rightarrow> (case relay_new nv u token of Inl x \<Rightarrow> Inl x | Inr r \<Rightarrow> Inr (Some r))) of
        Inl x \<Rightarrow> (n, Inl x)
      | Inr relay \<Rightarrow> (save (n\<lparr>nd_relay := relay\<rparr>),
          Inr (JObject [(''relay'', opt_json (map_option fst relay)), (''token'', JBool (Option.bind relay snd \<noteq> None))])))"

definition offer_reply :: "node_env \<Rightarrow> nat \<Rightarrow> offer \<Rightarrow> net_node \<Rightarrow> json" where
  "offer_reply nv later f n = JObject [(''code'', JString (of_code f)), (''key'', JString (node_key nv)), (''port'', JNumber (NInt (int (nd_port n)))),
     (''addrs'', JArray (map JString (nv_addrs nv))), (''expires_in'', JNumber (NInt (int ((of_expires f - later) div 1000000000)))),
     (''name'', JString (nd_name n))]"

definition open_offer :: "node_env \<Rightarrow> string \<Rightarrow> nat \<Rightarrow> nat \<Rightarrow> net_node \<Rightarrow> net_node \<times> (failure + json)" where
  "open_offer nv bytes now later n =
     (case usable n of
        Inl x \<Rightarrow> (n, Inl x)
      | Inr _ \<Rightarrow>
          if nd_log n \<noteq> None then (n, Inl (refused ''already_paired''))
          else (let f = offer_new bytes now in (n\<lparr>nd_offer := Some f, nd_outcome := None\<rparr>, Inr (offer_reply nv later f n))))"

definition offer_phone :: "node_env \<Rightarrow> string \<Rightarrow> nat \<Rightarrow> net_node \<Rightarrow> net_node \<times> (failure + json)" where
  "offer_phone nv bytes now n =
     (case usable n of
        Inl x \<Rightarrow> (n, Inl x)
      | Inr _ \<Rightarrow>
          (let f = offer_for_phone bytes now
           in (n\<lparr>nd_phone_offer := Some f, nd_outcome := None\<rparr>,
               Inr (JObject [(''code'', JString (of_code f)), (''key'', JString (node_key nv)), (''addrs'', JArray (map JString (nv_addrs nv))),
                 (''port'', JNumber (NInt (int (nd_port n)))), (''expires_in'', JNumber (NInt (int (OFFER_LIFETIME div 1000000000))))]))))"

definition close_offer :: "net_node \<Rightarrow> net_node" where
  "close_offer n = n\<lparr>nd_offer := None\<rparr>"

definition resolve :: "string \<Rightarrow> net_node \<Rightarrow> failure + string" where
  "resolve host n =
     (if is_key host then Inr host
      else case (case nd_log n of None \<Rightarrow> Inr None | Some l \<Rightarrow> (case node_view l of Inl x \<Rightarrow> Inl x | Inr v \<Rightarrow> Inr (map_of (vw_names v) host))) of
             Inl x \<Rightarrow> Inl x
           | Inr (Some [k]) \<Rightarrow> Inr k
           | Inr (Some _) \<Rightarrow> Inl (refused ''identity_mismatch'')
           | Inr None \<Rightarrow> Inl (fail_with ''not_found''
               (''no machine '' @ [CHR 0x22] @ host @ [CHR 0x22] @ '' among your machines (kanna machine list lists them)'')))"

text \<open>\<open>addr.rsplit_once(':')\<close>, of which only the part after the last colon is used.\<close>

definition after_colon :: "string \<Rightarrow> string option" where
  "after_colon a = (if CHR '':'' \<in> set a then Some (rev (takeWhile (\<lambda>c. c \<noteq> CHR '':'') (rev a))) else None)"

definition DEFAULT_PORT :: nat where "DEFAULT_PORT = 7470"

definition full_addr :: "node_env \<Rightarrow> string \<Rightarrow> string" where
  "full_addr nv a =
     (if nv_socket nv a \<or> (case after_colon a of Some p \<Rightarrow> parse_unsigned 16 p \<noteq> None \<and> \<not> ends_with a '']'' | None \<Rightarrow> False) then a
      else a @ '':'' @ dec DEFAULT_PORT)"

definition add_addr :: "node_env \<Rightarrow> string \<Rightarrow> string \<Rightarrow> net_node \<Rightarrow> net_node \<times> (failure + json)" where
  "add_addr nv host a n =
     (case resolve host n of
        Inl x \<Rightarrow> (n, Inl x)
      | Inr key \<Rightarrow>
          (let a = full_addr nv a; known = (case map_of (nd_addrs n) key of Some as \<Rightarrow> as | None \<Rightarrow> [])
           in (save (n\<lparr>nd_addrs := bt_insert key (if a \<in> set known then known else known @ [a]) (nd_addrs n)\<rparr>),
               Inr (JObject [(''key'', JString key), (''addr'', JString a)]))))"

definition node_admit :: "node_env \<Rightarrow> string \<Rightarrow> json option \<Rightarrow> net_node \<Rightarrow> failure + string" where
  "node_admit nv key cert n =
     (let unpaired = fail_with ''unpaired'' ''it doesn't know this machine's key (pair the two with kanna machine pair)''
      in case nd_log n of
           None \<Rightarrow> Inl unpaired
         | Some l \<Rightarrow>
             (case node_view l of
                Inl x \<Rightarrow> Inl x
              | Inr v \<Rightarrow>
                  (let device = (case Option.bind cert (\<lambda>c. as_str (jix (jix c ''body'') ''device'')) of Some d \<Rightarrow> d | None \<Rightarrow> key)
                   in if key \<in> set (vw_revoked v) \<or> device \<in> set (vw_revoked v)
                      then Inl (fail_with ''revoked'' ''this machine's key is revoked from your machines'')
                      else case accept_endpoint (nv_net nv) l key cert of
                             Inl _ \<Rightarrow> Inl unpaired
                           | Inr _ \<Rightarrow> Inr (case name_of v device of Some s \<Rightarrow> s | None \<Rightarrow> []))))"

definition certify :: "node_env \<Rightarrow> string \<Rightarrow> net_node \<Rightarrow> failure + json" where
  "certify nv app_key n =
     (case usable n of
        Inl x \<Rightarrow> Inl x
      | Inr _ \<Rightarrow>
          if \<not> is_key app_key then Inl (fail_with ''bad_request'' (app_key @ '' isn't an endpoint key''))
          else if nd_log n = None then Inl (fail_with ''unpaired'' ''this machine isn't paired'')
          else Inr (certificate (nv_net nv) (nv_secret nv) app_key))"

definition admit_phone :: "string \<Rightarrow> net_node \<Rightarrow> failure + string" where
  "admit_phone key n =
     (case nd_log n of
        None \<Rightarrow> Inl (refused ''unpaired'')
      | Some l \<Rightarrow>
          (case node_view l of
             Inl x \<Rightarrow> Inl x
           | Inr v \<Rightarrow>
               if key \<in> set (vw_revoked v) then Inl (refused ''revoked'')
               else if key \<notin> set (phones v) then Inl (fail_with ''not_a_phone'' ''only a phone opens a phone stream'')
               else Inr (case name_of v key of Some s \<Rightarrow> s | None \<Rightarrow> [])))"

definition drop_revoked :: "net_node \<Rightarrow> net_node" where
  "drop_revoked n =
     (let gone = (case nd_log n of Some l \<Rightarrow> (case log_view l of Inr v \<Rightarrow> vw_revoked v | Inl _ \<Rightarrow> []) | None \<Rightarrow> [])
      in n\<lparr>nd_revisions := nd_revisions n + 1, nd_conns := filter (\<lambda>k. k \<notin> set gone) (nd_conns n)\<rparr>)"

definition node_merge :: "node_env \<Rightarrow> json \<Rightarrow> net_node \<Rightarrow> net_node \<times> (failure + unit)" where
  "node_merge nv envelope n =
     (case (envelope, nd_log n) of
        (JObject _, Some l) \<Rightarrow>
          (case log_sync (nv_net nv) envelope l of
             (l', Inl x) \<Rightarrow> (n\<lparr>nd_log := Some l'\<rparr>, Inl (fail_of x))
           | (l', Inr added) \<Rightarrow>
               (let n = n\<lparr>nd_log := Some l'\<rparr> in (if added > 0 then save (drop_revoked n) else n, Inr ())))
      | _ \<Rightarrow> (n, Inr ()))"

text \<open>\<open>revoke\<close> up to where the other machines are told.\<close>

definition revoke :: "node_env \<Rightarrow> string \<Rightarrow> int \<Rightarrow> net_node \<Rightarrow> net_node \<times> (failure + string \<times> bool)" where
  "revoke nv host t n =
     (case usable n of
        Inl x \<Rightarrow> (n, Inl x)
      | Inr _ \<Rightarrow>
          (case resolve host n of
             Inl x \<Rightarrow> (n, Inl x)
           | Inr key \<Rightarrow>
               if key = node_key nv
               then (n, Inl (fail_with ''bad_request'' ''this machine can't revoke itself: revoke it from another of your machines''))
               else (case nd_log n of
                       None \<Rightarrow> (n, Inl (fail_with ''unpaired'' ''this machine isn't paired''))
                     | Some l \<Rightarrow>
                         (case node_view l of
                            Inl x \<Rightarrow> (n, Inl x)
                          | Inr v \<Rightarrow>
                              (case name_of v key of
                                 None \<Rightarrow> (n, Inl (fail_with ''not_found'' (host @ '' isn't one of your machines'')))
                               | Some name \<Rightarrow>
                                   (case merge (nv_net nv) [make_entry (nv_net nv) l (nv_secret nv) ''revoke'' (JObject [(''key'', JString key)]) None t] l of
                                      (l', Inl x) \<Rightarrow> (n\<lparr>nd_log := Some l'\<rparr>, Inl (fail_of x))
                                    | (l', Inr _) \<Rightarrow> (save (drop_revoked (n\<lparr>nd_log := Some l'\<rparr>)), Inr (name, is_phone v key))))))))"

end
