(* ===== verification/Net_Session.thy ===== *)
theory Net_Session
  imports Net_Node
begin

text \<open>
  Pairing, step by step (\<open>pair_a\<close>, \<open>pair_b\<close> and \<open>join\<close> of \<open>kanna-net/src/node.rs\<close>): each function runs from one wait for the
  other side to the next. Several sessions can be under way at once on the same state.
\<close>

definition staged_log :: "node_env \<Rightarrow> net_node \<Rightarrow> peer_log" where
  "staged_log nv n = (case nd_log n of Some l \<Rightarrow> l | None \<Rightarrow> new_log (nv_net nv) (descriptor nv n))"

definition settle_outcome :: "failure + json \<Rightarrow> net_node \<Rightarrow> net_node" where
  "settle_outcome r n = n\<lparr>nd_outcome := Some r\<rparr>"

definition claim_offer :: "offer option \<Rightarrow> offer option \<times> bool" where
  "claim_offer f = (case f of Some x \<Rightarrow> if of_used x then (f, False) else (Some (x\<lparr>of_used := True\<rparr>), True) | None \<Rightarrow> (f, False))"

definition finish_with :: "node_env \<Rightarrow> json \<Rightarrow> party \<Rightarrow> party \<times> (net_error + json)" where
  "finish_with nv pake p = (case pake_bytes pake of Inl x \<Rightarrow> (p, Inl x) | Inr bs \<Rightarrow> finish (nv_pair nv) (nv_secret nv) bs p)"

text \<open>What the app answered, if it did.\<close>

type_synonym answer = "(string + bool) option"

definition gesture :: "string \<Rightarrow> answer \<Rightarrow> string option" where
  "gesture name a =
     (case a of
        Some (Inr True) \<Rightarrow> None
      | Some (Inr False) \<Rightarrow> Some (''adding '' @ name @ '' wasn't confirmed in Kanna.app'')
      | Some (Inl reason) \<Rightarrow> Some (''adding '' @ name @ '' needs a yes in Kanna.app: '' @ reason)
      | None \<Rightarrow> Some ''Kanna.app didn't answer'')"

text \<open>The log that was staged becomes the machine's, or is merged into it.\<close>

definition adopt :: "node_env \<Rightarrow> peer_log \<Rightarrow> net_node \<Rightarrow> net_node \<times> (net_error + unit)" where
  "adopt nv staged n =
     (case nd_log n of
        Some l \<Rightarrow> (case merge (nv_net nv) (log_entries staged) l of (l', r) \<Rightarrow> (n\<lparr>nd_log := Some l'\<rparr>, case r of Inl x \<Rightarrow> Inl x | Inr _ \<Rightarrow> Inr ()))
      | None \<Rightarrow> (n\<lparr>nd_log := Some staged\<rparr>, Inr ()))"

subsection \<open>The machine that invites\<close>

definition pair_a_hello :: "node_env \<Rightarrow> string \<Rightarrow> string \<Rightarrow> string \<Rightarrow> json \<Rightarrow> json \<Rightarrow> failure + party \<times> json" where
  "pair_a_hello nv rnd pass key ha reply =
     (if jix reply ''ok'' \<noteq> JBool True then Inl (from_reply reply)
      else (let hb = jix reply ''hello''
            in if jix (jix hb ''device'') ''key'' \<noteq> JString key then Inl (refused ''pake_confirmation_failed'')
               else (case finish_with nv (jix reply ''pake'') (new_party (nv_pair nv) rnd RoleA pass ha hb) of
                       (_, Inl x) \<Rightarrow> Inl (fail_of x)
                     | (p, Inr pf) \<Rightarrow> Inr (p, JObject [(''pake'', JString (net_hex (pt_outbound p))), (''proof'', pf)]))))"

definition pair_a_proof :: "node_env \<Rightarrow> int \<Rightarrow> peer_log \<Rightarrow> json \<Rightarrow> party \<Rightarrow> failure + peer_log \<times> string" where
  "pair_a_proof nv t staged reply p =
     (if jix reply ''ok'' \<noteq> JBool True then Inl (from_reply reply)
      else (case confirm (nv_pair nv) (jix reply ''proof'') p of
              Inl x \<Rightarrow> Inl (fail_of x)
            | Inr _ \<Rightarrow>
                (let device = jix (pt_hello_b p) ''device''; name = jtext (jix device ''name'')
                 in if \<not> valid_name name
                    then Inl (fail_with ''bad_name'' ''the machine waiting to pair sent a name that isn't one (up to 32 lowercase letters, digits and -)'')
                    else (case merge (nv_net nv) [make_entry (nv_net nv) staged (nv_secret nv) ''add'' device None t] staged of
                            (_, Inl x) \<Rightarrow> Inl (fail_of x)
                          | (staged, Inr _) \<Rightarrow> Inr (staged, name)))))"

definition pair_a_store :: "node_env \<Rightarrow> answer \<Rightarrow> peer_log \<Rightarrow> string \<Rightarrow> party \<Rightarrow> net_node \<Rightarrow> net_node \<times> (failure + json)" where
  "pair_a_store nv a staged name p n =
     (case gesture name a of
        Some reason \<Rightarrow> (n, Inl (fail_with ''gesture_required'' reason))
      | None \<Rightarrow>
          (case adopt nv staged n of
             (n, Inl x) \<Rightarrow> (n, Inl (fail_of x))
           | (n, Inr _) \<Rightarrow> (save n, Inr (JObject [(''handoff'', seal (nv_pair nv) (log_export staged) p)]))))"

definition pair_a_done :: "string \<Rightarrow> string \<Rightarrow> json \<Rightarrow> net_node \<Rightarrow> net_node \<times> (failure + json)" where
  "pair_a_done key name done_reply n =
     (if jix done_reply ''ok'' \<noteq> JBool True then (n, Inl (from_reply done_reply))
      else (n\<lparr>nd_conns := key # filter (\<lambda>k. k \<noteq> key) (nd_conns n)\<rparr>, Inr (JObject [(''name'', JString name), (''key'', JString key)])))"

subsection \<open>The machine that waits\<close>

definition pair_b_start :: "node_env \<Rightarrow> string \<Rightarrow> nat \<Rightarrow> string \<Rightarrow> json \<Rightarrow> net_node \<Rightarrow> net_node \<times> (failure + party \<times> json)" where
  "pair_b_start nv rnd now remote header n =
     (let ha = jix header ''hello''
      in case nd_offer n of
           None \<Rightarrow> (n, Inl (fail_with ''no_offer'' ''that machine isn't waiting to pair''))
         | Some f \<Rightarrow>
             if nd_log n \<noteq> None then (n, Inl (refused ''already_paired''))
             else if jix (jix ha ''device'') ''key'' \<noteq> JString remote then (n, Inl (refused ''pake_confirmation_failed''))
             else (case begin_attempt now f of
                     (f, Inl x) \<Rightarrow> (n\<lparr>nd_offer := Some f\<rparr>, Inl (fail_of x))
                   | (f, Inr _) \<Rightarrow>
                       (let hb = hello_b (descriptor nv n) (of_session f); p = new_party (nv_pair nv) rnd RoleB (of_code f) ha hb
                        in (n\<lparr>nd_offer := Some f\<rparr>, Inr (p, JObject [(''ok'', JBool True), (''hello'', hb), (''pake'', JString (net_hex (pt_outbound p)))])))))"

definition pair_b_proof :: "node_env \<Rightarrow> json \<Rightarrow> party \<Rightarrow> net_node \<Rightarrow> net_node \<times> (failure + party \<times> json)" where
  "pair_b_proof nv message p n =
     (case finish_with nv (jix message ''pake'') p of
        (_, Inl x) \<Rightarrow> (n, Inl (fail_of x))
      | (p, Inr pf) \<Rightarrow>
          (case confirm (nv_pair nv) (jix message ''proof'') p of
             Inl x \<Rightarrow> (n, Inl (fail_of x))
           | Inr _ \<Rightarrow>
               (case claim_offer (nd_offer n) of
                  (_, False) \<Rightarrow> (n, Inl (refused ''code_used''))
                | (f, True) \<Rightarrow> (n\<lparr>nd_offer := f\<rparr>, Inr (p, JObject [(''ok'', JBool True), (''proof'', pf)])))))"

definition pair_b_take :: "node_env \<Rightarrow> string \<Rightarrow> json \<Rightarrow> party \<Rightarrow> net_node \<Rightarrow> net_node \<times> json" where
  "pair_b_take nv remote message p n =
     (if jix message ''ok'' = JBool False then (settle_outcome (Inl (from_reply message)) n, Null)
      else (case open_handoff (nv_pair nv) (jix message ''handoff'') (node_key nv) p of
              Inl x \<Rightarrow> (settle_outcome (Inl (fail_of x)) n, refusal (fail_of x))
            | Inr l \<Rightarrow>
                (let n = save (n\<lparr>nd_log := (case nd_log n of Some l' \<Rightarrow> Some l' | None \<Rightarrow> Some l)\<rparr>)
                 in (settle_outcome (Inr (JObject [(''name'', JString (jtext (jix (jix (pt_hello_a p) ''device'') ''name''))), (''key'', JString remote),
                       (''log'', JString (pl_id l))])) n, JObject [(''ok'', JBool True)]))))"

subsection \<open>The machine a phone joins\<close>

definition join_start :: "node_env \<Rightarrow> nat \<Rightarrow> net_node \<Rightarrow> net_node \<times> (failure + string \<times> json)" where
  "join_start nv now n =
     (case nd_phone_offer n of
        None \<Rightarrow> (n, Inl (fail_with ''no_offer'' ''that machine isn't waiting for a phone''))
      | Some f \<Rightarrow>
          (case begin_attempt now f of
             (f, Inl x) \<Rightarrow> (n\<lparr>nd_phone_offer := Some f\<rparr>, Inl (fail_of x))
           | (f, Inr _) \<Rightarrow> (n\<lparr>nd_phone_offer := Some f\<rparr>, Inr (of_code f, hello_a (descriptor nv n) (pl_anchor (staged_log nv n))))))"

definition join_hello :: "node_env \<Rightarrow> string \<Rightarrow> string \<Rightarrow> string \<Rightarrow> json \<Rightarrow> json \<Rightarrow> failure + party \<times> json" where
  "join_hello nv rnd remote pass ha message =
     (let hb = jix message ''hello''; device = jix hb ''device''
      in if jix device ''key'' \<noteq> JString remote \<or> jix device ''role'' \<noteq> JString ''phone'' \<or> jix device ''name'' \<noteq> JString (phone_name remote)
         then Inl (refused ''pake_confirmation_failed'')
         else (case finish_with nv (jix message ''pake'') (new_party (nv_pair nv) rnd RoleA pass ha hb) of
                 (_, Inl x) \<Rightarrow> Inl (fail_of x)
               | (p, Inr pf) \<Rightarrow> Inr (p, JObject [(''ok'', JBool True), (''pake'', JString (net_hex (pt_outbound p))), (''proof'', pf)])))"

definition join_proof :: "node_env \<Rightarrow> int \<Rightarrow> peer_log \<Rightarrow> json \<Rightarrow> party \<Rightarrow> net_node \<Rightarrow> net_node \<times> (failure + peer_log)" where
  "join_proof nv t staged message p n =
     (case confirm (nv_pair nv) (jix message ''proof'') p of
        Inl x \<Rightarrow> (n, Inl (fail_of x))
      | Inr _ \<Rightarrow>
          (case claim_offer (nd_phone_offer n) of
             (_, False) \<Rightarrow> (n, Inl (refused ''code_used''))
           | (f, True) \<Rightarrow>
               (let n = n\<lparr>nd_phone_offer := f\<rparr>
                in case merge (nv_net nv) [make_entry (nv_net nv) staged (nv_secret nv) ''add'' (jix (pt_hello_b p) ''device'') None t] staged of
                     (_, Inl x) \<Rightarrow> (settle_outcome (Inl (fail_of x)) n, Inl (fail_of x))
                   | (staged, Inr _) \<Rightarrow> (n, Inr staged))))"

definition join_store :: "node_env \<Rightarrow> answer \<Rightarrow> peer_log \<Rightarrow> string \<Rightarrow> party \<Rightarrow> net_node \<Rightarrow> net_node \<times> (failure + json)" where
  "join_store nv a staged remote p n =
     (let lost = (\<lambda>n x. (settle_outcome (Inl x) n, Inl x))
      in case gesture (phone_name remote) a of
           Some reason \<Rightarrow> lost n (fail_with ''gesture_required'' reason)
         | None \<Rightarrow>
             (case adopt nv staged n of
                (n, Inl x) \<Rightarrow> lost n (fail_of x)
              | (n, Inr _) \<Rightarrow>
                  (let n = save n;
                       handoff = (case (log_export staged, nd_relay n) of
                           (JObject fs, Some (url, token)) \<Rightarrow> JObject (oinsert ''relay_token'' (opt_json token) (oinsert ''relay'' (JString url) fs))
                         | (v, _) \<Rightarrow> v)
                   in (n, Inr (JObject [(''ok'', JBool True), (''handoff'', seal (nv_pair nv) handoff p)])))))"

definition join_done :: "string \<Rightarrow> net_node \<Rightarrow> net_node" where
  "join_done remote n = settle_outcome (Inr (JObject [(''name'', JString (phone_name remote)), (''key'', JString remote)])) n"

text \<open>The other side is gone after the code was claimed.\<close>

definition peer_lost :: "string \<Rightarrow> net_node \<Rightarrow> net_node" where
  "peer_lost message n = settle_outcome (Inl (fail_with ''unreachable'' message)) n"

subsection \<open>Sessions that run side by side\<close>

text \<open>
  A session holds what its task keeps between two waits: the log it staged, its party, who is at the other end.
\<close>

datatype session =
    A_Greeted peer_log json string string
  | A_Proving peer_log party string
  | A_Asking peer_log string party string
  | A_Handed string string
  | B_Proving party string
  | B_Taking party string
  | J_Greeted peer_log string json string
  | J_Proving peer_log party string
  | J_Asking peer_log party string
  | J_Handed string

record system =
  sy_node :: net_node
  sy_sessions :: "session list"
  sy_tries :: nat
  sy_claims :: nat

text \<open>The order of iterating sets, anew in every step.\<close>

definition with_order :: "(string list \<Rightarrow> string list) \<Rightarrow> node_env \<Rightarrow> node_env" where
  "with_order ord nv = nv\<lparr>nv_pair := (nv_pair nv)\<lparr>pe_net := (nv_net nv)\<lparr>ne_order := ord\<rparr>\<rparr>\<rparr>"

inductive session_step :: "node_env \<Rightarrow> net_node \<Rightarrow> session \<Rightarrow> net_node \<Rightarrow> session option \<Rightarrow> bool" for nv where
  lost: "session_step nv n s n None"
| a_reply: "pair_a_hello nv rnd pass key ha reply = Inr (p, out) \<Longrightarrow>
    session_step nv n (A_Greeted l ha pass key) n (Some (A_Proving l p key))"
| a_proof: "pair_a_proof nv t l reply p = Inr (l', name) \<Longrightarrow> session_step nv n (A_Proving l p key) n (Some (A_Asking l' name p key))"
| a_store: "pair_a_store nv a l name p n = (n', r) \<Longrightarrow>
    session_step nv n (A_Asking l name p key) n' (case r of Inl _ \<Rightarrow> None | Inr _ \<Rightarrow> Some (A_Handed key name))"
| a_done: "pair_a_done key name reply n = (n', r) \<Longrightarrow> session_step nv n (A_Handed key name) n' None"
| b_take: "pair_b_take nv remote message p n = (n', out) \<Longrightarrow> session_step nv n (B_Taking p remote) n' None"
| j_reply: "join_hello nv rnd remote pass ha message = Inr (p, out) \<Longrightarrow>
    session_step nv n (J_Greeted l pass ha remote) n (Some (J_Proving l p remote))"
| j_proof: "join_proof nv t l message p n = (n', r) \<Longrightarrow>
    session_step nv n (J_Proving l p remote) n' (case r of Inl _ \<Rightarrow> None | Inr l' \<Rightarrow> Some (J_Asking l' p remote))"
| j_store: "join_store nv a l remote p n = (n', r) \<Longrightarrow>
    session_step nv n (J_Asking l p remote) n' (case r of Inl _ \<Rightarrow> None | Inr _ \<Rightarrow> Some (J_Handed remote))"
| j_done: "session_step nv n (J_Handed remote) (join_done remote n) None"
| j_lost: "session_step nv n (J_Handed remote) (peer_lost ''lost the phone'' n) None"
| b_lost: "session_step nv n (B_Taking p remote) (peer_lost (''lost the machine pairing with this one'' @ reason) n) None"

inductive request_step :: "node_env \<Rightarrow> net_node \<Rightarrow> net_node \<Rightarrow> bool" for nv where
  "request_step nv n (fst (rename nv name n))"
| "request_step nv n (fst (set_relay nv url token n))"
| "request_step nv n (fst (offer_phone nv bytes now n))"
| "request_step nv n (fst (add_addr nv host a n))"
| "request_step nv n (fst (node_merge nv envelope n))"
| "request_step nv n (fst (revoke nv host t n))"

inductive system_step :: "node_env \<Rightarrow> system \<Rightarrow> system \<Rightarrow> bool" for nv where
  request: "order_ok ord \<Longrightarrow> request_step (with_order ord nv) (sy_node s) n \<Longrightarrow> system_step nv s (s\<lparr>sy_node := n\<rparr>)"
| opens: "open_offer nv bytes now later (sy_node s) = (n, Inr reply) \<Longrightarrow>
    system_step nv s (s\<lparr>sy_node := n, sy_tries := 0, sy_claims := 0\<rparr>)"
| closes: "system_step nv s (s\<lparr>sy_node := close_offer (sy_node s)\<rparr>)"
| invites: "system_step nv s (s\<lparr>sy_sessions := A_Greeted (staged_log nv (sy_node s))
      (hello_a (descriptor nv (sy_node s)) (pl_anchor (staged_log nv (sy_node s)))) pass key # sy_sessions s\<rparr>)"
| joins: "join_start nv now (sy_node s) = (n, Inr (pass, ha)) \<Longrightarrow>
    system_step nv s (s\<lparr>sy_node := n, sy_sessions := J_Greeted (staged_log nv (sy_node s)) pass ha remote # sy_sessions s\<rparr>)"
| join_refused: "join_start nv now (sy_node s) = (n, Inl x) \<Longrightarrow> system_step nv s (s\<lparr>sy_node := n\<rparr>)"
| tried: "pair_b_start nv rnd now remote header (sy_node s) = (n, Inr (p, out)) \<Longrightarrow>
    system_step nv s (s\<lparr>sy_node := n, sy_sessions := B_Proving p remote # sy_sessions s, sy_tries := sy_tries s + 1\<rparr>)"
| try_refused: "pair_b_start nv rnd now remote header (sy_node s) = (n, Inl x) \<Longrightarrow> system_step nv s (s\<lparr>sy_node := n\<rparr>)"
| claimed: "B_Proving p remote \<in> set (sy_sessions s) \<Longrightarrow> order_ok ord \<Longrightarrow>
    pair_b_proof (with_order ord nv) message p (sy_node s) = (n, Inr (p', out)) \<Longrightarrow>
    system_step nv s (s\<lparr>sy_node := n, sy_sessions := B_Taking p' remote # remove1 (B_Proving p remote) (sy_sessions s), sy_claims := sy_claims s + 1\<rparr>)"
| moves: "x \<in> set (sy_sessions s) \<Longrightarrow> order_ok ord \<Longrightarrow> session_step (with_order ord nv) (sy_node s) x n y \<Longrightarrow>
    system_step nv s (s\<lparr>sy_node := n, sy_sessions := (case y of Some y \<Rightarrow> [y] | None \<Rightarrow> []) @ remove1 x (sy_sessions s)\<rparr>)"

definition started :: "node_env \<Rightarrow> string \<Rightarrow> nat \<Rightarrow> json \<Rightarrow> system" where
  "started nv default_name port saved =
     \<lparr>sy_node = start_node nv default_name port saved, sy_sessions = [], sy_tries = 0, sy_claims = 0\<rparr>"

end
