(* ===== verification/Net_System.thy ===== *)
theory Net_System
  imports Net_Session
begin

text \<open>
  A machine whose requests and pairing sessions run side by side: its log is always one the log's own guarantees hold for, is
  never replaced, and only grows; a code is open to three tries and one claim; and a restart finds what was saved.
\<close>

subsection \<open>Logs and orders\<close>

lemma net_with_order [simp]: "nv_net (with_order ord nv) = (nv_net nv)\<lparr>ne_order := ord\<rparr>"
  by (simp add: with_order_def)

lemma new_log_order [simp]: "new_log (env\<lparr>ne_order := ord\<rparr>) anchor = new_log env anchor"
  by (simp add: new_log_def)

lemma log_reach_order: "log_reach (env\<lparr>ne_order := ord\<rparr>) anchor l \<longleftrightarrow> log_reach env anchor l"
proof
  show "log_reach env anchor l" if "log_reach (env\<lparr>ne_order := ord\<rparr>) anchor l"
    using that
  proof induction
    case begins
    show ?case using log_reach.begins [of env anchor] by simp
  next
    case (merges l o' entries l' r)
    then show ?case using log_reach.merges [of env anchor l o' entries l' r] by simp
  qed
  show "log_reach (env\<lparr>ne_order := ord\<rparr>) anchor l" if "log_reach env anchor l"
    using that
  proof induction
    case begins
    show ?case using log_reach.begins [of "env\<lparr>ne_order := ord\<rparr>" anchor] by simp
  next
    case (merges l o' entries l' r)
    then show ?case using log_reach.merges [of "env\<lparr>ne_order := ord\<rparr>" anchor l o' entries l' r] by simp
  qed
qed

lemma log_later_trans: "log_later env b c \<Longrightarrow> log_later env a b \<Longrightarrow> log_later env a c"
  by (induction rule: log_later.induct) (auto intro: log_later.after_merge)

lemma merge_later: "order_ok ord \<Longrightarrow> log_later env l (fst (merge (env\<lparr>ne_order := ord\<rparr>) entries l))"
  using log_later.after_merge [OF log_later.same, of ord env entries l] by (metis prod.collapse)

lemma sync_later: "order_ok ord \<Longrightarrow> log_later env l (fst (log_sync (env\<lparr>ne_order := ord\<rparr>) envelope l))"
  using merge_later log_later.same by (simp add: log_sync_def)

lemma merge_reach: "order_ok ord \<Longrightarrow> log_reach env anchor l \<Longrightarrow> log_reach env anchor (fst (merge (env\<lparr>ne_order := ord\<rparr>) entries l))"
  using log_reach.merges [of env anchor l ord entries] by (metis prod.collapse)

text \<open>How the log of a machine may change in a step.\<close>

definition log_moves :: "net_env \<Rightarrow> peer_log option \<Rightarrow> peer_log option \<Rightarrow> bool" where
  "log_moves env a b \<longleftrightarrow> (case a of Some l \<Rightarrow> (\<exists>l'. b = Some l' \<and> log_later env l l') | None \<Rightarrow> (\<forall>l. b = Some l \<longrightarrow> log_reach env (pl_anchor l) l))"

lemma log_moves_same [simp]: "log_moves env a a"
  by (cases a) (auto simp: log_moves_def intro: log_later.same)

lemma node_log_simps [simp]:
  "nd_log (save n) = nd_log n" "nd_log (drop_revoked n) = nd_log n" "nd_log (settle_outcome r n) = nd_log n" "nd_log (close_offer n) = nd_log n"
  "nd_offer (save n) = nd_offer n" "nd_offer (drop_revoked n) = nd_offer n" "nd_offer (settle_outcome r n) = nd_offer n"
  by (simp_all add: save_def drop_revoked_def settle_outcome_def close_offer_def Let_def)

subsection \<open>Requests\<close>

lemma rename_keeps: "nd_log (fst (rename nv name n)) = nd_log n \<and> nd_offer (fst (rename nv name n)) = nd_offer n"
  by (auto simp: rename_def split: sum.split bool.split)

lemma set_relay_keeps: "nd_log (fst (set_relay nv url token n)) = nd_log n \<and> nd_offer (fst (set_relay nv url token n)) = nd_offer n"
  by (auto simp: set_relay_def split: sum.split)

lemma offer_phone_keeps: "nd_log (fst (offer_phone nv bytes now n)) = nd_log n \<and> nd_offer (fst (offer_phone nv bytes now n)) = nd_offer n"
  by (auto simp: offer_phone_def Let_def split: sum.split)

lemma add_addr_keeps: "nd_log (fst (add_addr nv host a n)) = nd_log n \<and> nd_offer (fst (add_addr nv host a n)) = nd_offer n"
  by (auto simp: add_addr_def Let_def split: sum.split)

lemma node_merge_moves:
  assumes "order_ok ord"
  shows "log_moves (nv_net nv) (nd_log n) (nd_log (fst (node_merge (with_order ord nv) envelope n))) \<and>
    nd_offer (fst (node_merge (with_order ord nv) envelope n)) = nd_offer n"
proof (cases "nd_log n")
  case (Some l)
  obtain l' r where s: "log_sync ((nv_net nv)\<lparr>ne_order := ord\<rparr>) envelope l = (l', r)" by force
  have "log_later (nv_net nv) l l'" using sync_later [OF assms, of "nv_net nv" l envelope] s by simp
  then show ?thesis
    using Some s by (cases envelope; cases r) (auto simp: node_merge_def log_moves_def Let_def intro: log_later.same)
qed (simp add: node_merge_def split: json.split)

lemma revoke_moves:
  assumes "order_ok ord"
  shows "log_moves (nv_net nv) (nd_log n) (nd_log (fst (revoke (with_order ord nv) host t n))) \<and>
    nd_offer (fst (revoke (with_order ord nv) host t n)) = nd_offer n"
proof (cases "nd_log n")
  case (Some l)
  let ?nv = "with_order ord nv"
  show ?thesis
  proof (cases "\<exists>key v name. usable n = Inr () \<and> resolve host n = Inr key \<and> key \<noteq> node_key ?nv \<and> node_view l = Inr v \<and> name_of v key = Some name")
    case False
    then have "fst (revoke ?nv host t n) = n" using Some by (auto simp: revoke_def split: sum.split option.split)
    then show ?thesis by simp
  next
    case True
    then obtain key v name where k: "usable n = Inr ()" "resolve host n = Inr key" "key \<noteq> node_key ?nv" "node_view l = Inr v" "name_of v key = Some name"
      by blast
    let ?e = "make_entry (nv_net ?nv) l (nv_secret ?nv) ''revoke'' (JObject [(''key'', JString key)]) None t"
    obtain l' r where m: "merge (nv_net ?nv) [?e] l = (l', r)" by force
    have "log_later (nv_net nv) l l'" using merge_later [OF assms, of "nv_net nv" l "[?e]"] m by simp
    then show ?thesis using Some k m by (cases r) (auto simp: revoke_def log_moves_def simp del: net_with_order)
  qed
qed (auto simp: revoke_def split: sum.split)

lemma request_moves:
  assumes "order_ok ord" "request_step (with_order ord nv) n n'"
  shows "log_moves (nv_net nv) (nd_log n) (nd_log n') \<and> nd_offer n' = nd_offer n"
  using assms(2)
  by cases (use rename_keeps set_relay_keeps offer_phone_keeps add_addr_keeps node_merge_moves [OF assms(1)] revoke_moves [OF assms(1)] in auto)

subsection \<open>Sessions\<close>

fun session_log :: "session \<Rightarrow> peer_log option" where
  "session_log (A_Greeted l _ _ _) = Some l"
| "session_log (A_Proving l _ _) = Some l"
| "session_log (A_Asking l _ _ _) = Some l"
| "session_log (J_Greeted l _ _ _) = Some l"
| "session_log (J_Proving l _ _) = Some l"
| "session_log (J_Asking l _ _) = Some l"
| "session_log _ = None"

definition sound_log :: "net_env \<Rightarrow> peer_log option \<Rightarrow> bool" where
  "sound_log env lo \<longleftrightarrow> (\<forall>l. lo = Some l \<longrightarrow> log_reach env (pl_anchor l) l)"

lemma sound_log_simps [simp]: "sound_log env None" "sound_log env (Some l) \<longleftrightarrow> log_reach env (pl_anchor l) l"
  by (simp_all add: sound_log_def)

lemma merge_sound:
  assumes "order_ok ord" "log_reach env (pl_anchor l) l" "merge (env\<lparr>ne_order := ord\<rparr>) entries l = (l', r)"
  shows "log_reach env (pl_anchor l') l'"
proof -
  from merge_reach [OF assms(1,2), of entries] assms(3) have "log_reach env (pl_anchor l) l'" by simp
  moreover from reach_inv [OF this] have "pl_anchor l' = pl_anchor l" by simp
  ultimately show ?thesis by simp
qed

lemma adopt_moves:
  assumes "order_ok ord" "log_reach (nv_net nv) (pl_anchor staged) staged" "adopt (with_order ord nv) staged n = (n', r)"
  shows "log_moves (nv_net nv) (nd_log n) (nd_log n') \<and> nd_offer n' = nd_offer n"
proof (cases "nd_log n")
  case None
  with assms show ?thesis by (auto simp: adopt_def log_moves_def)
next
  case (Some l)
  obtain l' r' where m: "merge ((nv_net nv)\<lparr>ne_order := ord\<rparr>) (log_entries staged) l = (l', r')" by force
  have "log_later (nv_net nv) l l'" using merge_later [OF assms(1), of "nv_net nv" l "log_entries staged"] m by simp
  with Some m assms(3) show ?thesis by (auto simp: adopt_def log_moves_def)
qed

lemma pair_a_proof_sound:
  assumes "order_ok ord" "log_reach (nv_net nv) (pl_anchor l) l" "pair_a_proof (with_order ord nv) t l reply p = Inr (l', name)"
  shows "log_reach (nv_net nv) (pl_anchor l') l'"
proof -
  let ?nv = "with_order ord nv"
  let ?es = "[make_entry (nv_net ?nv) l (nv_secret ?nv) ''add'' (jix (pt_hello_b p) ''device'') None t]"
  obtain m r where m: "merge (nv_net ?nv) ?es l = (m, r)" by force
  have "l' = m" using assms(3) m by (auto simp: pair_a_proof_def Let_def simp del: net_with_order split: if_splits sum.splits)
  with merge_sound [OF assms(1,2)] m show ?thesis by simp
qed

lemma pair_a_store_moves:
  assumes "order_ok ord" "log_reach (nv_net nv) (pl_anchor l) l" "pair_a_store (with_order ord nv) a l name p n = (n', r)"
  shows "log_moves (nv_net nv) (nd_log n) (nd_log n') \<and> nd_offer n' = nd_offer n"
proof -
  obtain m q where ad: "adopt (with_order ord nv) l n = (m, q)" by force
  from adopt_moves [OF assms(1,2) ad] assms(3) ad show ?thesis
    by (cases "gesture name a"; cases q) (auto simp: pair_a_store_def)
qed

lemma join_store_moves:
  assumes "order_ok ord" "log_reach (nv_net nv) (pl_anchor l) l" "join_store (with_order ord nv) a l remote p n = (n', r)"
  shows "log_moves (nv_net nv) (nd_log n) (nd_log n') \<and> nd_offer n' = nd_offer n"
proof -
  obtain m q where ad: "adopt (with_order ord nv) l n = (m, q)" by force
  from adopt_moves [OF assms(1,2) ad] assms(3) ad show ?thesis
    by (cases "gesture (phone_name remote) a"; cases q) (auto simp: join_store_def Let_def)
qed

lemma join_proof_sound:
  assumes "order_ok ord" "log_reach (nv_net nv) (pl_anchor l) l" "join_proof (with_order ord nv) t l message p n = (n', r)"
  shows "nd_log n' = nd_log n \<and> nd_offer n' = nd_offer n \<and> (case r of Inl _ \<Rightarrow> True | Inr l' \<Rightarrow> log_reach (nv_net nv) (pl_anchor l') l')"
proof -
  let ?nv = "with_order ord nv"
  let ?es = "[make_entry (nv_net ?nv) l (nv_secret ?nv) ''add'' (jix (pt_hello_b p) ''device'') None t]"
  obtain m q where m: "merge (nv_net ?nv) ?es l = (m, q)" by force
  obtain f b where f: "claim_offer (nd_phone_offer n) = (f, b)" by force
  from merge_sound [OF assms(1,2)] m have "log_reach (nv_net nv) (pl_anchor m) m" by simp
  then show ?thesis
    using assms(3) m f by (cases "confirm (nv_pair ?nv) (jix message ''proof'') p"; cases b; cases q) (auto simp: join_proof_def Let_def simp del: net_with_order)
qed

lemma pair_b_take_moves:
  assumes "order_ok ord" "pair_b_take (with_order ord nv) remote message p n = (n', out)"
  shows "log_moves (nv_net nv) (nd_log n) (nd_log n') \<and> nd_offer n' = nd_offer n"
proof (cases "open_handoff (nv_pair (with_order ord nv)) (jix message ''handoff'') (node_key (with_order ord nv)) p")
  case (Inl x)
  with assms(2) show ?thesis by (auto simp: pair_b_take_def split: if_splits)
next
  case (Inr l)
  from open_handoff_sound [OF Inr] assms(1) have r: "log_reach (nv_net nv) (jix (pt_hello_a p) ''anchor'') l" by (simp add: log_reach_order)
  with reach_inv [OF r] have "log_reach (nv_net nv) (pl_anchor l) l" by simp
  with Inr assms(2) show ?thesis
    by (cases "nd_log n") (auto simp: pair_b_take_def Let_def log_moves_def intro: log_later.same split: if_splits)
qed

lemma session_moves:
  assumes "order_ok ord" "session_step (with_order ord nv) n x n' y" "sound_log (nv_net nv) (session_log x)"
  shows "log_moves (nv_net nv) (nd_log n) (nd_log n') \<and> nd_offer n' = nd_offer n \<and> (\<forall>z. y = Some z \<longrightarrow> sound_log (nv_net nv) (session_log z))"
  using assms(2)
proof cases
  case (a_proof t l reply p l' name key)
  with assms(3) pair_a_proof_sound [OF assms(1)] show ?thesis by auto
next
  case (a_store a l name p r key)
  with assms(3) pair_a_store_moves [OF assms(1)] show ?thesis by (auto split: sum.splits)
next
  case (a_done key name reply r)
  then show ?thesis by (auto simp: pair_a_done_def split: if_splits)
next
  case (b_take remote message p out)
  with pair_b_take_moves [OF assms(1)] show ?thesis by auto
next
  case (j_proof t l message p r remote)
  with assms(3) join_proof_sound [OF assms(1)] show ?thesis by (cases r) fastforce+
next
  case (j_store a l remote p r)
  with assms(3) join_store_moves [OF assms(1)] show ?thesis by (auto split: sum.splits)
qed (use assms(3) in \<open>auto simp: join_done_def peer_lost_def\<close>)

subsection \<open>The system\<close>

definition offer_inv :: "system \<Rightarrow> bool" where
  "offer_inv s \<longleftrightarrow> sy_tries s \<le> 3 \<and> sy_claims s \<le> 1 \<and>
     (\<forall>f. nd_offer (sy_node s) = Some f \<longrightarrow> unat (of_attempts f) = sy_tries s \<and> sy_claims s = (if of_used f then 1 else 0))"

definition system_inv :: "node_env \<Rightarrow> system \<Rightarrow> bool" where
  "system_inv nv s \<longleftrightarrow> sound_log (nv_net nv) (nd_log (sy_node s)) \<and> (\<forall>x \<in> set (sy_sessions s). sound_log (nv_net nv) (session_log x)) \<and> offer_inv s"

lemma moves_sound: "log_moves env a b \<Longrightarrow> sound_log env a \<Longrightarrow> sound_log env b"
proof (cases a)
  case (Some l)
  assume "log_moves env a b" "sound_log env a"
  with Some obtain l' where l': "b = Some l'" "log_later env l l'" "log_reach env (pl_anchor l) l" by (auto simp: log_moves_def)
  from later_grows [OF l'(2,3)] have "log_reach env (pl_anchor l) l'" by simp
  with reach_inv [OF this] l'(1) show ?thesis by simp
qed (auto simp: log_moves_def sound_log_def)

lemma staged_sound: "sound_log (nv_net nv) (nd_log n) \<Longrightarrow> log_reach (nv_net nv) (pl_anchor (staged_log nv n)) (staged_log nv n)"
proof (cases "nd_log n")
  case None
  have "pl_anchor (new_log (nv_net nv) (descriptor nv n)) = descriptor nv n" by (simp add: new_log_def)
  with None log_reach.begins show ?thesis by (simp add: staged_log_def)
qed (simp add: staged_log_def)

lemma begin_bound:
  assumes "begin_attempt now f = (f', r)" "unat (of_attempts f) \<le> 3"
  shows "of_used f' = of_used f \<and> unat (of_attempts f') \<le> 3 \<and>
    (case r of Inl _ \<Rightarrow> of_attempts f' = of_attempts f | Inr _ \<Rightarrow> \<not> of_used f \<and> unat (of_attempts f') = unat (of_attempts f) + 1)"
proof -
  have "unat (a + 1) = unat a + 1 \<and> unat a < 3" if "\<not> ATTEMPTS \<le> a" for a :: "32 word"
  proof -
    from that have "a < 3" by (simp add: ATTEMPTS_def)
    then have "unat a < 3" by (simp add: word_less_nat_alt)
    then show ?thesis by (simp add: unat_word_ariths)
  qed
  from this [of "of_attempts f"] assms show ?thesis by (auto simp: begin_attempt_def split: if_splits)
qed

lemma join_start_keeps: "join_start nv now n = (n', r) \<Longrightarrow> nd_log n' = nd_log n \<and> nd_offer n' = nd_offer n"
  by (cases "nd_phone_offer n"; cases "begin_attempt now (the (nd_phone_offer n))") (auto simp: join_start_def split: sum.splits)

lemma pair_b_start_offer:
  assumes "pair_b_start nv rnd now remote header n = (n', r)"
  shows "nd_log n' = nd_log n \<and> (n' = n \<and> (\<exists>x. r = Inl x) \<or>
    (\<exists>f f' b. nd_offer n = Some f \<and> nd_offer n' = Some f' \<and> begin_attempt now f = (f', b) \<and> (isl r \<longleftrightarrow> isl b)))"
proof (cases "nd_offer n")
  case (Some f)
  obtain f' b where "begin_attempt now f = (f', b)" by force
  with Some assms show ?thesis by (cases b) (auto simp: pair_b_start_def Let_def split: if_splits)
qed (use assms in \<open>auto simp: pair_b_start_def Let_def\<close>)

lemma pair_b_proof_offer:
  assumes "pair_b_proof nv message p n = (n', Inr x)"
  shows "nd_log n' = nd_log n \<and> (\<exists>f. nd_offer n = Some f \<and> \<not> of_used f \<and> nd_offer n' = Some (f\<lparr>of_used := True\<rparr>))"
proof -
  obtain q r where q: "finish_with nv (jix message ''pake'') p = (q, r)" by force
  obtain g b where g: "claim_offer (nd_offer n) = (g, b)" by force
  have "nd_log n' = nd_log n \<and> b \<and> nd_offer n' = g"
    using assms q g by (cases r; cases "confirm (nv_pair nv) (jix message ''proof'') q"; cases b) (auto simp: pair_b_proof_def)
  with g show ?thesis by (cases "nd_offer n") (auto simp: claim_offer_def split: if_splits)
qed

lemma open_offer_ok:
  "open_offer nv bytes now later n = (n', Inr reply) \<Longrightarrow> nd_log n' = nd_log n \<and> (\<exists>f. nd_offer n' = Some f \<and> of_attempts f = 0 \<and> \<not> of_used f)"
  by (auto simp: open_offer_def offer_new_def Let_def split: sum.splits if_splits)

lemma system_step_inv:
  assumes "system_step nv s s'" "system_inv nv s"
  shows "system_inv nv s' \<and> log_moves (nv_net nv) (nd_log (sy_node s)) (nd_log (sy_node s'))"
  using assms(1)
proof cases
  case (request ord n)
  note m = request_moves [OF request(2,3)]
  with assms(2) moves_sound [of _ "nd_log (sy_node s)" "nd_log n"] show ?thesis unfolding request by (auto simp: system_inv_def offer_inv_def)
next
  case (opens bytes now later n reply)
  with open_offer_ok [OF opens(2)] assms(2) show ?thesis unfolding opens by (auto simp: system_inv_def offer_inv_def)
next
  case closes
  with assms(2) show ?thesis by (auto simp: system_inv_def offer_inv_def close_offer_def)
next
  case (invites pass key)
  with assms(2) staged_sound [of nv "sy_node s"] show ?thesis by (auto simp: system_inv_def offer_inv_def)
next
  case (joins now n pass ha remote)
  with assms(2) staged_sound [of nv "sy_node s"] join_start_keeps [OF joins(2)] show ?thesis by (auto simp: system_inv_def offer_inv_def)
next
  case (join_refused now n x)
  with assms(2) join_start_keeps [OF join_refused(2)] show ?thesis by (auto simp: system_inv_def offer_inv_def)
next
  case (tried rnd now remote header n p out)
  from pair_b_start_offer [OF tried(2)] obtain f f' b where f: "nd_log n = nd_log (sy_node s)" "nd_offer (sy_node s) = Some f"
    "nd_offer n = Some f'" "begin_attempt now f = (f', b)" "\<not> isl b" by auto
  with assms(2) begin_bound [OF f(4)] show ?thesis unfolding tried by (cases b) (auto simp: system_inv_def offer_inv_def)
next
  case (try_refused rnd now remote header n x)
  from pair_b_start_offer [OF try_refused(2)] consider "n = sy_node s" | f f' b where "nd_log n = nd_log (sy_node s)" "nd_offer (sy_node s) = Some f"
    "nd_offer n = Some f'" "begin_attempt now f = (f', b)" "isl b" by auto
  then show ?thesis
  proof cases
    case 2
    with assms(2) begin_bound [OF 2(4)] show ?thesis unfolding try_refused by (cases b) (auto simp: system_inv_def offer_inv_def)
  qed (use assms(2) try_refused in simp)
next
  case (claimed p remote ord message n p' out)
  from pair_b_proof_offer [OF claimed(4)] assms(2) show ?thesis
    unfolding claimed by (auto simp: system_inv_def offer_inv_def dest: set_remove1_subset [THEN subsetD])
next
  case (moves x ord n y)
  from assms(2) moves(2) have "sound_log (nv_net nv) (session_log x)" by (auto simp: system_inv_def)
  note m = session_moves [OF moves(3,4) this]
  with assms(2) moves_sound [of _ "nd_log (sy_node s)" "nd_log n"] show ?thesis
    unfolding moves by (auto simp: system_inv_def offer_inv_def dest: set_remove1_subset [THEN subsetD] split: option.splits)
qed

lemma start_inv:
  assumes "order_ok (ne_order (nv_net nv))"
  shows "system_inv nv (started nv default_name port saved)"
proof -
  have eo: "(nv_net nv)\<lparr>ne_order := ne_order (nv_net nv)\<rparr> = nv_net nv" by simp
  have "sound_log (nv_net nv) (fst (start_log nv saved))"
  proof (cases "jget saved ''anchor''")
    case (Some a)
    let ?n = "new_log (nv_net nv) a"
    have n: "log_reach (nv_net nv) (pl_anchor ?n) ?n" using log_reach.begins by (simp add: new_log_def)
    show ?thesis
      using Some merge_sound [OF assms n, unfolded eo]
      by (cases a; cases "merge (nv_net nv) (case as_array (jix saved ''entries'') of Some es \<Rightarrow> es | None \<Rightarrow> []) ?n")
         (auto simp: start_log_def split: sum.splits)
  qed (simp add: start_log_def)
  then show ?thesis by (simp add: started_def start_node_def system_inv_def offer_inv_def save_def)
qed

lemma steps_inv: "(system_step nv)\<^sup>*\<^sup>* s s' \<Longrightarrow> system_inv nv s \<Longrightarrow> system_inv nv s'"
  by (induction rule: rtranclp_induct) (auto dest: system_step_inv)

lemma steps_log:
  "(system_step nv)\<^sup>*\<^sup>* s s' \<Longrightarrow> system_inv nv s \<Longrightarrow> nd_log (sy_node s) = Some l \<Longrightarrow>
   \<exists>l'. nd_log (sy_node s') = Some l' \<and> log_later (nv_net nv) l l'"
proof (induction rule: rtranclp_induct)
  case base
  then show ?case using log_later.same by blast
next
  case (step y z)
  then obtain l' where "nd_log (sy_node y) = Some l'" "log_later (nv_net nv) l l'" by blast
  with system_step_inv [OF step(2) steps_inv [OF step(1,4)]] log_later_trans show ?case by (fastforce simp: log_moves_def)
qed

lemma view_refuses:
  assumes "log_view l = Inr v" "nd_log n = Some l" "k \<in> set (vw_revoked v)"
  shows "\<exists>x. node_admit nv k cert n = Inl x" "\<exists>x. admit_phone k n = Inl x"
    "as_str (jix (jix c ''body'') ''device'') = Some k \<Longrightarrow> \<exists>x. node_admit nv key (Some c) n = Inl x"
  using assms by (simp_all add: node_admit_def admit_phone_def node_view_def Let_def)

subsection \<open>Saved state\<close>

lemma map_of_bt_foldl: "map_of (foldl (\<lambda>m (k, v). bt_insert k v m) a xs) = foldl (\<lambda>m (k, v). m(k \<mapsto> v)) (map_of a) xs"
  by (induction xs arbitrary: a) (auto simp: case_prod_beta)

lemma foldl_map_of: "distinct (map fst xs) \<Longrightarrow> foldl (\<lambda>m (k, v). m(k \<mapsto> v)) f xs = f ++ map_of xs"
proof (induction xs arbitrary: f)
  case (Cons x xs)
  obtain k v where x: "x = (k, v)" by force
  with Cons have "map_of xs k = None" by (simp add: map_of_eq_None_iff)
  then have "f(k \<mapsto> v) ++ map_of xs = f ++ (map_of xs)(k \<mapsto> v)" by (auto simp: fun_eq_iff map_add_def split: option.splits)
  moreover have "foldl (\<lambda>m (k, v). m(k \<mapsto> v)) (f(k \<mapsto> v)) xs = f(k \<mapsto> v) ++ map_of xs"
    using Cons.prems by (intro Cons.IH) simp
  ultimately show ?case unfolding x foldl_Cons prod.case map_of.simps fst_conv snd_conv by (simp only:)
qed simp

lemma bt_foldl_ok: "bt_ok a \<Longrightarrow> bt_ok (foldl (\<lambda>m (k, v). bt_insert k v m) a xs)"
  by (induction xs arbitrary: a) (auto simp: case_prod_beta)

lemma bt_rebuild: "bt_ok m \<Longrightarrow> foldl (\<lambda>n (k, v). bt_insert k v n) [] m = m"
  by (intro bt_eqI) (simp_all add: bt_foldl_ok map_of_bt_foldl foldl_map_of bt_ok_distinct)

lemma addrs_round:
  assumes "bt_ok (m :: (string, string list) btree)"
  shows "foldl (\<lambda>n (k, v). bt_insert k (jstrings v) n) [] (map (\<lambda>(k, as). (k, JArray (map JString as))) m) = m"
proof -
  have "foldl (\<lambda>n (k, v). bt_insert k (jstrings v) n) a (map (\<lambda>(k, as). (k, JArray (map JString as))) xs) = foldl (\<lambda>n (k, v). bt_insert k v n) a xs"
    for a xs :: "(string, string list) btree"
    by (induction xs arbitrary: a) (auto simp: case_prod_beta)
  with bt_rebuild [OF assms] show ?thesis by simp
qed

lemma snapshot_fields:
  "jix (snapshot n) ''name'' = JString (nd_name n)"
  "jix (snapshot n) ''addrs'' = JObject (map (\<lambda>(k, as). (k, JArray (map JString as))) (nd_addrs n))"
  "jix (snapshot n) ''relay'' = opt_json (map_option fst (nd_relay n))"
  "jix (snapshot n) ''relay_token'' = opt_json (Option.bind (nd_relay n) snd)"
  "jget (snapshot n) ''anchor'' = map_option pl_anchor (nd_log n)"
  "jix (snapshot n) ''entries'' = (case nd_log n of Some l \<Rightarrow> JArray (log_entries l) | None \<Rightarrow> Null)"
  by (auto simp: snapshot_def jix_def split: option.splits)

subsection \<open>Properties\<close>

text \<open>
  C13. Whatever requests a machine serves and however its pairing sessions interleave, and whatever the other sides send, the
  log it holds is one made by merging from its anchor, so that all that holds of such logs holds of it.
\<close>

theorem node_log_sound:
  assumes "order_ok (ne_order (nv_net nv))" "(system_step nv)\<^sup>*\<^sup>* (started nv default_name port saved) s" "nd_log (sy_node s) = Some l"
  shows "log_reach (nv_net nv) (pl_anchor l) l"
  using steps_inv [OF assms(2) start_inv [OF assms(1)]] assms(3) by (simp add: system_inv_def)

text \<open>
  C14. Once a revocation is in a machine's log, whatever is served afterwards, the machine admits the revoked key to no stream, as
  a machine, as a phone, or behind a certificate the key signed.
\<close>

theorem revoked_stays_out:
  assumes "order_ok (ne_order (nv_net nv))" "(system_step nv)\<^sup>*\<^sup>* (started nv default_name port saved) s" "nd_log (sy_node s) = Some l"
    "(i, e) \<in> set (pl_events l)" "kind_is e ''revoke''" "(system_step nv)\<^sup>*\<^sup>* s s'"
  shows "(\<exists>x. node_admit nv (payload_key e) cert (sy_node s') = Inl x) \<and> (\<exists>x. admit_phone (payload_key e) (sy_node s') = Inl x) \<and>
    (as_str (jix (jix c ''body'') ''device'') = Some (payload_key e) \<longrightarrow> (\<exists>x. node_admit nv key (Some c) (sy_node s') = Inl x))"
proof -
  have inv: "system_inv nv s" using steps_inv [OF assms(2) start_inv [OF assms(1)]] .
  then have r: "log_reach (nv_net nv) (pl_anchor l) l" using assms(3) by (simp add: system_inv_def)
  from steps_log [OF assms(6) inv assms(3)] obtain l' where l': "nd_log (sy_node s') = Some l'" "log_later (nv_net nv) l l'" by blast
  from later_grows [OF l'(2) r] have r': "log_reach (nv_net nv) (pl_anchor l) l'" and g: "ev_grows (pl_events l) (pl_events l')" by simp_all
  obtain v where v: "log_view l' = Inr v" "set (vw_revoked v) = revoked_in (pl_events l') (fst ` set (pl_events l'))"
    using view_total [OF r'] by metis
  have "payload_key e \<in> set (vw_revoked v)" unfolding v(2) using revoked_in_grows [OF g reached_event(1) [OF r assms(4)] assms(5)] .
  note w = view_refuses [OF v(1) l'(1) this]
  from w(1) [of nv cert] w(2) w(3) [of c nv key] show ?thesis by blast
qed

text \<open>
  C31. A code is open to three tries: since the offer was made, at most three sessions were started with its code, and at most
  one claimed it, however the sessions interleave.
\<close>

theorem code_tries_bounded:
  assumes "order_ok (ne_order (nv_net nv))" "(system_step nv)\<^sup>*\<^sup>* (started nv default_name port saved) s"
  shows "sy_tries s \<le> 3 \<and> sy_claims s \<le> 1"
  using steps_inv [OF assms(2) start_inv [OF assms(1)]] by (simp add: system_inv_def offer_inv_def)

text \<open>
  What a machine saved is what it starts with: its name, its relay, the addresses it was given, and its log with every
  entry in force or pending. The relay's URL reads back as it was printed, and the entries of the log are authorized in the order
  its sets are iterated in this time.
\<close>

lemma restart_restores:
  assumes "valid_name (nd_name n)" "bt_ok (nd_addrs n)"
    "\<And>u t. nd_relay n = Some (u, t) \<Longrightarrow> relay_new nv u t = Inr (u, t)"
    "\<And>l. nd_log n = Some l \<Longrightarrow> log_reach (nv_net nv) (pl_anchor l) l \<and> replayable (nv_net nv) l \<and>
       inj_on (net_digest (nv_net nv)) (set (log_entries l)) \<and> (\<exists>fs. pl_anchor l = JObject fs)"
    "order_ok (ne_order (nv_net nv))"
  shows "nd_name (start_node nv d port (snapshot n)) = nd_name n \<and> nd_relay (start_node nv d port (snapshot n)) = nd_relay n \<and>
    nd_addrs (start_node nv d port (snapshot n)) = nd_addrs n \<and> nd_log (start_node nv d port (snapshot n)) = nd_log n \<and>
    nd_broken (start_node nv d port (snapshot n)) = None"
proof -
  have log: "start_log nv (snapshot n) = (nd_log n, None)"
  proof (cases "nd_log n")
    case (Some l)
    from assms(4) [OF this] obtain fs where l: "log_reach (nv_net nv) (pl_anchor l) l" "replayable (nv_net nv) l"
      "inj_on (net_digest (nv_net nv)) (set (log_entries l))" "pl_anchor l = JObject fs" by blast
    from replay [OF l(1,2) assms(5) l(3)] Some l(4) show ?thesis by (simp add: start_log_def snapshot_fields)
  qed (simp add: start_log_def snapshot_fields)
  have relay: "(case as_str (jix (snapshot n) ''relay'') of
      Some url \<Rightarrow> (case relay_new nv url (as_str (jix (snapshot n) ''relay_token'')) of Inr r \<Rightarrow> Some r | Inl _ \<Rightarrow> None) | None \<Rightarrow> None) = nd_relay n"
  proof (cases "nd_relay n")
    case (Some r)
    moreover have "as_str (opt_json t) = t" for t by (cases t) simp_all
    ultimately show ?thesis using assms(3) [of "fst r" "snd r"] by (simp add: snapshot_fields)
  qed (simp add: snapshot_fields)
  have kept: "nd_name (save m) = nd_name m" "nd_relay (save m) = nd_relay m" "nd_addrs (save m) = nd_addrs m" "nd_broken (save m) = nd_broken m" for m
    by (simp_all add: save_def)
  show ?thesis
    unfolding start_node_def kept node_log_simps net_node.select_convs log relay
    using assms(1) addrs_round [OF assms(2)] by (simp add: snapshot_fields)
qed

end
