(* ===== verification/Net_Peers.thy ===== *)
theory Net_Peers
  imports Net_Samples Net_System "HOL-Library.Countable"
begin

text \<open>
  The properties of pairing and of the machine applied: Ann pairs with Bob, an idealised exchange without collisions, a machine
  that starts from a log in which Bob is revoked, and one that is tried with a code.
\<close>

instance number :: countable
  by countable_datatype

instance json :: countable
  by countable_datatype

subsection \<open>Pairing\<close>

definition sample_pair :: pair_env where
  "sample_pair = \<lparr>pe_net = sample_env, pe_start = (\<lambda>r pass a b rnd. (pass, rnd)), pe_finish = (\<lambda>st m. Some st),
     pe_hkdf = (\<lambda>s i. s @ i), pe_hmac = (\<lambda>k m. k @ m)\<rparr>"

lemma unhex_key_b: "net_unhex key_b = Some (replicate 32 (CHR 0xBB))"
  by code_simp

lemma verifies: "ne_verify env = (\<lambda>_ _ _. True) \<Longrightarrow> ne_sign env = (\<lambda>_ _. replicate 64 (CHR ''w'')) \<Longrightarrow> k \<in> {key_a, key_b} \<Longrightarrow> verify env k (sign env s m) m"
  using hex_ws by (auto simp: verify_def sign_def unhex_key_a unhex_key_b unhex_7s)

lemma sample_replayable: "replayable sample_env sample_one"
proof -
  have "authorize sample_env sample_one sample_add = Inr ()" by code_simp
  then show ?thesis by (simp add: replayable_def sample_one_def)
qed

lemma sample_both_trusted: "\<exists>v. log_view sample_one = Inr v \<and> key_a \<in> set (trusted v) \<and> key_b \<in> set (trusted v)"
proof -
  have "case log_view sample_one of Inr v \<Rightarrow> key_a \<in> set (trusted v) \<and> key_b \<in> set (trusted v) | Inl _ \<Rightarrow> False" by code_simp
  then show ?thesis by (cases "log_view sample_one") auto
qed

definition device_a :: json where "device_a = JObject [(''name'', JString ''ann''), (''key'', JString key_a)]"
definition device_b :: json where "device_b = JObject [(''name'', JString ''bob''), (''key'', JString key_b)]"


subsection \<open>An exchange without collisions\<close>

definition ideal_pair :: pair_env where
  "ideal_pair = \<lparr>pe_net = sample_env\<lparr>ne_encode := (\<lambda>v. replicate (to_nat v) (CHR ''x''))\<rparr>, pe_start = (\<lambda>r pass a b rnd. (pass, rnd)),
     pe_finish = (\<lambda>st m. Some st), pe_hkdf = (\<lambda>s i. replicate (to_nat (s, i)) (CHR ''x'')), pe_hmac = (\<lambda>k m. replicate (to_nat (k, m)) (CHR ''x''))\<rparr>"

definition ideal_a :: party where
  "ideal_a = new_party ideal_pair ''m1'' RoleA ''123456'' (hello_a device_a sample_anchor) (hello_b device_b ''s'')"

definition ideal_b :: party where
  "ideal_b = new_party ideal_pair ''m2'' RoleB ''123456'' (hello_a device_a sample_anchor) (hello_b device_b ''s'')"

lemma replicate_inject: "replicate n x = replicate m x \<longleftrightarrow> n = m"
  by (metis length_replicate)


subsection \<open>A machine\<close>

definition sample_nv :: node_env where
  "sample_nv = \<lparr>nv_pair = sample_pair, nv_secret = key_a, nv_relay_url = (\<lambda>u. Inr u), nv_socket = (\<lambda>_. True),
     nv_addrs = [''10.0.0.1:7470''], nv_capabilities = Null\<rparr>"

definition sample_saved :: json where
  "sample_saved = JObject [(''name'', JString ''ann''), (''port'', JNumber (NInt 7470)), (''addrs'', JObject [(key_b, JArray [JString ''10.0.0.2:7470''])]),
     (''anchor'', sample_anchor), (''entries'', JArray (log_entries sample_two))]"

definition sample_sys :: system where
  "sample_sys = started sample_nv ''here'' 7470 sample_saved"

lemma sample_net: "nv_net sample_nv = sample_env" "order_ok (ne_order (nv_net sample_nv))" "pl_anchor sample_two = sample_anchor"
  by (simp_all add: sample_nv_def sample_pair_def order_id) (simp_all add: sample_env_def order_id sample_two_def sample_one_def sample_new_def new_log_def)

lemma sample_two_replays: "replayable sample_env sample_two" "inj_on (net_digest sample_env) (set (log_entries sample_two))"
proof -
  have "authorize sample_env sample_two sample_add = Inr ()" by code_simp
  moreover have "authorize sample_env sample_two sample_revoke = Inr ()" by code_simp
  ultimately show "replayable sample_env sample_two" by (simp add: replayable_def sample_two_def)
  have "set (log_entries sample_two) = {sample_add, sample_revoke}" by (auto simp: log_entries_def sample_two_def sample_one_def sample_new_def new_log_def)
  then show "inj_on (net_digest sample_env) (set (log_entries sample_two))" by (auto simp: inj_on_def sample_digest sample_revoke_digest)
qed

lemma sample_start: "start_log sample_nv sample_saved = (Some sample_two, None)"
proof -
  obtain fs where fs: "sample_anchor = JObject fs" by (simp add: sample_anchor_def)
  have "merge sample_env (log_entries sample_two) (new_log sample_env sample_anchor) = (sample_two, Inr (length (pl_events sample_two)))"
    using replay [OF sample_reach_two sample_two_replays(1) _ sample_two_replays(2)] sample_net by simp
  then have "merge sample_env (log_entries sample_two) (new_log sample_env (JObject fs)) = (sample_two, Inr (length (pl_events sample_two)))"
    by (simp only: fs)
  moreover have "jget sample_saved ''anchor'' = Some (JObject fs)" "jix sample_saved ''entries'' = JArray (log_entries sample_two)"
    by (simp_all add: sample_saved_def fs jix_def)
  ultimately show ?thesis by (simp add: start_log_def sample_net)
qed

lemma sample_sys_log: "nd_log (sy_node sample_sys) = Some sample_two"
  by (simp add: sample_sys_def started_def start_node_def sample_start)

theorem node_log_sound_witness: "log_reach sample_env sample_anchor sample_two"
  using node_log_sound [OF sample_net(2) rtranclp.rtrancl_refl sample_sys_log [unfolded sample_sys_def]] sample_net by simp

theorem revoked_stays_out_witness: "\<exists>x. node_admit sample_nv key_b None (sy_node sample_sys) = Inl x"
proof -
  have "(''7265766f6b65'', sample_revoke) \<in> set (pl_events sample_two)" "kind_is sample_revoke ''revoke''" "payload_key sample_revoke = key_b"
    by (simp_all add: sample_two_def sample_revoke_def sample_entry_def kind_is_def payload_key_def payload_of_def body_of_def jix_def jtext_def)
  with revoked_stays_out [OF sample_net(2) rtranclp.rtrancl_refl sample_sys_log [unfolded sample_sys_def] _ _ rtranclp.rtrancl_refl, of "''7265766f6b65''" sample_revoke None]
  show ?thesis by (metis sample_sys_def)
qed

theorem restart_restores_witness:
  "nd_log (start_node sample_nv ''here'' 7470 (snapshot (sy_node sample_sys))) = Some sample_two \<and>
   nd_name (start_node sample_nv ''here'' 7470 (snapshot (sy_node sample_sys))) = ''ann''"
proof -
  let ?n = "sy_node sample_sys"
  have name: "nd_name ?n = ''ann''" and addrs: "nd_addrs ?n = [(key_b, [''10.0.0.2:7470''])]" and relay: "nd_relay ?n = None"
    by (simp_all add: sample_sys_def started_def start_node_def save_def sample_start sample_saved_def jix_def jstrings_def
        List.map_filter_simps valid_name_def is_key_def is_lower_def is_digit_def)
  have v: "valid_name (nd_name ?n)" unfolding name by (simp add: valid_name_def is_key_def is_lower_def is_digit_def)
  have b: "bt_ok (nd_addrs ?n)" unfolding addrs by (simp add: bt_ok_def)
  have l: "log_reach (nv_net sample_nv) (pl_anchor l) l \<and> replayable (nv_net sample_nv) l \<and> inj_on (net_digest (nv_net sample_nv)) (set (log_entries l)) \<and>
      (\<exists>fs. pl_anchor l = JObject fs)" if "nd_log ?n = Some l" for l
    using that sample_sys_log sample_net sample_reach_two sample_two_replays by (auto simp: sample_anchor_def)
  from restart_restores [OF v b _ l sample_net(2), of "''here''" 7470] relay sample_sys_log name show ?thesis by simp
qed

text \<open>A machine that is not paired offers a code, and is tried once.\<close>

definition sample_alone :: system where
  "sample_alone = started sample_nv ''bob'' 7470 Null"

definition sample_offering :: system where
  "sample_offering = sample_alone\<lparr>sy_node := fst (open_offer sample_nv (replicate 20 (CHR ''q'')) 0 0 (sy_node sample_alone)), sy_tries := 0, sy_claims := 0\<rparr>"

definition sample_header :: json where
  "sample_header = JObject [(''hello'', hello_a device_a sample_anchor)]"

lemma sample_alone_free: "nd_log (sy_node sample_alone) = None" "nd_broken (sy_node sample_alone) = None"
  by (simp_all add: sample_alone_def started_def start_node_def save_def start_log_def)

lemma sample_offers: "open_offer sample_nv (replicate 20 (CHR ''q'')) 0 0 (sy_node sample_alone) =
  (sy_node sample_offering, Inr (offer_reply sample_nv 0 (offer_new (replicate 20 (CHR ''q'')) 0) (sy_node sample_alone)))"
  using sample_alone_free by (simp add: sample_offering_def open_offer_def usable_def Let_def)

lemma sample_tries:
  "\<exists>n p out. pair_b_start sample_nv ''m2'' 5 key_a sample_header (sy_node sample_offering) = (n, Inr (p, out))"
  using sample_alone_free
  by (simp add: sample_offering_def open_offer_def usable_def Let_def pair_b_start_def begin_attempt_def offer_new_def OFFER_LIFETIME_def ATTEMPTS_def)
     (simp add: sample_header_def hello_a_def device_a_def jix_def)

theorem code_tries_bounded_witness:
  "\<exists>s. (system_step sample_nv)\<^sup>*\<^sup>* sample_alone s \<and> sy_tries s = 1 \<and> sy_tries s \<le> 3 \<and> sy_claims s \<le> 1"
proof -
  from sample_tries obtain n p out where t: "pair_b_start sample_nv ''m2'' 5 key_a sample_header (sy_node sample_offering) = (n, Inr (p, out))" by blast
  from system_step.opens [OF sample_offers] have "system_step sample_nv sample_alone sample_offering" by (simp add: sample_offering_def)
  with system_step.tried [OF t] have r: "(system_step sample_nv)\<^sup>*\<^sup>* sample_alone
      (sample_offering\<lparr>sy_node := n, sy_sessions := B_Proving p key_a # sy_sessions sample_offering, sy_tries := sy_tries sample_offering + 1\<rparr>)" by simp
  moreover note code_tries_bounded [OF sample_net(2) r [unfolded sample_alone_def]]
  ultimately show ?thesis by (intro exI conjI) (auto simp: sample_offering_def)
qed

end
