(* ===== verification/Sched_Rules.thy ===== *)
theory Sched_Rules
  imports Mux_Json
begin

text \<open>
  The rules of schedules (\<open>kanna-daemon/src/schedule.rs\<close>): dates from days, local time, rules such as \<open>daily 09:00\<close> and \<open>every 2h\<close>
  as they are read and written, and when a rule is due next. A zone is a function from instants to offsets. Times are
  exact; characters are U+0000 to U+00FF, of which those from U+0080 take two bytes.
\<close>

type_synonym zone = "int \<Rightarrow> int"

definition DAY :: int where "DAY = 86400"
definition DAYS :: "string list" where "DAYS = [''mon'', ''tue'', ''wed'', ''thu'', ''fri'', ''sat'', ''sun'']"
definition MONTHS :: "string list" where
  "MONTHS = [''Jan'', ''Feb'', ''Mar'', ''Apr'', ''May'', ''Jun'', ''Jul'', ''Aug'', ''Sep'', ''Oct'', ''Nov'', ''Dec'']"

subsection \<open>Dates\<close>

definition civil_yoe :: "int \<Rightarrow> int" where
  "civil_yoe doe = (doe - doe div 1460 + doe div 36524 - doe div 146096) div 365"

definition civil_from_days :: "int \<Rightarrow> int \<times> int \<times> int" where
  "civil_from_days z =
     (let z = z + 719468; era = z div 146097; doe = z - era * 146097; yoe = civil_yoe doe;
          doy = doe - (365 * yoe + yoe div 4 - yoe div 100); mp = (5 * doy + 2) div 153;
          d = doy - (153 * mp + 2) div 5 + 1; m = (if mp < 10 then mp + 3 else mp - 9)
      in (if m \<le> 2 then yoe + era * 400 + 1 else yoe + era * 400, m, d))"

definition weekday :: "int \<Rightarrow> nat" where
  "weekday day = nat ((day + 3) mod 7)"

definition two_digits :: "nat \<Rightarrow> string" where
  "two_digits n = replicate (2 - length (dec n)) (CHR ''0'') @ dec n"

definition wall_resolve :: "zone \<Rightarrow> int \<Rightarrow> int \<Rightarrow> int" where
  "wall_resolve zone day minute =
     (let wall = day * DAY + minute * 60; before = zone (wall - DAY); after = zone (wall + DAY)
      in case filter (\<lambda>t. t + zone t = wall) [wall - before, wall - after] of
           [] \<Rightarrow> wall - before
         | t # ts \<Rightarrow> foldl min t ts)"

definition upper_first :: "string \<Rightarrow> string" where
  "upper_first s = (case s of c # r \<Rightarrow> (if is_lower c then char_of (code c - 32) else c) # r | [] \<Rightarrow> [])"

definition local_text :: "zone \<Rightarrow> rat \<Rightarrow> string" where
  "local_text zone t =
     (let t = \<lfloor>t\<rfloor>; wall = t + zone t; day = wall div DAY; minute = nat (wall mod DAY div 60); (_, m, d) = civil_from_days day
      in upper_first (DAYS ! weekday day) @ '' '' @ dec (nat d) @ '' '' @ MONTHS ! nat (m - 1) @ '' '' @
         two_digits (minute div 60) @ '':'' @ two_digits (minute mod 60))"

subsection \<open>Rules\<close>

datatype sched_rule = RAt "bool list" int | REvery int

text \<open>A slice inside a character panics.\<close>

datatype rule_error = Rule_Panic | Bad_Rule string

definition digits_i64 :: "string \<Rightarrow> nat \<Rightarrow> int option" where
  "digits_i64 s most = (if s \<noteq> [] \<and> length s \<le> most \<and> list_all is_digit s then Some (int (digits_value s)) else None)"

definition clock :: "string \<Rightarrow> int option" where
  "clock t =
     (case split_once '':'' t of
        None \<Rightarrow> None
      | Some (h, m) \<Rightarrow>
          (case (digits_i64 h 2, digits_i64 m 2) of
             (Some x, Some y) \<Rightarrow> if length m = 2 \<and> x < 24 \<and> y < 60 then Some (x * 60 + y) else None
           | _ \<Rightarrow> None))"

text \<open>\<open>parse::<i64>\<close> takes a sign; the count is then from 1 to 10000.\<close>

definition parse_count :: "string \<Rightarrow> int option" where
  "parse_count s =
     (let d = (case s of c # r \<Rightarrow> if c = CHR ''+'' then r else s | [] \<Rightarrow> [])
      in if d \<noteq> [] \<and> list_all is_digit d \<and> 1 \<le> digits_value d \<and> digits_value d \<le> 10000 then Some (int (digits_value d)) else None)"

definition interval :: "string \<Rightarrow> rule_error + int option" where
  "interval t =
     (if t = [] then Inr None
      else if 128 \<le> code (last t) then Inl Rule_Panic
      else Inr (case parse_count (butlast t) of
                  None \<Rightarrow> None
                | Some n \<Rightarrow> if last t = CHR ''m'' then Some (n * 60) else if last t = CHR ''h'' then Some (n * 3600) else None))"

fun mark_days :: "string list \<Rightarrow> bool list \<Rightarrow> bool list option" where
  "mark_days [] days = Some days"
| "mark_days (n # ns) days = (case position (\<lambda>d. d = n) DAYS of None \<Rightarrow> None | Some i \<Rightarrow> mark_days ns (days[i := True]))"

definition day_list :: "string \<Rightarrow> bool list option" where
  "day_list t = mark_days (split_on (\<lambda>c. c = CHR '','') t) (replicate 7 False)"

text \<open>\<open>to_lowercase\<close> in Latin-1.\<close>

definition lower_char :: "char \<Rightarrow> char" where
  "lower_char c = (if 65 \<le> code c \<and> code c \<le> 90 \<or> 192 \<le> code c \<and> code c \<le> 222 \<and> code c \<noteq> 215 then char_of (code c + 32) else c)"

definition RULE_EXAMPLES :: string where
  "RULE_EXAMPLES = [CHR 0x22] @ ''daily 09:00'' @ [CHR 0x22] @ '', '' @ [CHR 0x22] @ ''weekdays 18:00'' @ [CHR 0x22] @ '', '' @ [CHR 0x22] @
     ''mon,thu 10:30'' @ [CHR 0x22] @ '' or '' @ [CHR 0x22] @ ''every 2h'' @ [CHR 0x22]"

definition refuse_rule :: "string \<Rightarrow> string \<Rightarrow> rule_error" where
  "refuse_rule t why = Bad_Rule ([CHR 0x22] @ trim t @ [CHR 0x22] @ '' isn't a rule ('' @ why @ ''): try '' @ RULE_EXAMPLES)"

definition named_days :: "string \<Rightarrow> bool list option" where
  "named_days n =
     (if n = ''daily'' then Some (replicate 7 True)
      else if n = ''weekdays'' then Some (replicate 5 True @ replicate 2 False)
      else if n = ''weekends'' then Some (replicate 5 False @ replicate 2 True)
      else day_list n)"

definition parse_rule :: "string \<Rightarrow> rule_error + sched_rule" where
  "parse_rule t =
     (case map (map lower_char) (split_whitespace t) of
        [first, second] \<Rightarrow>
          if first = ''every'' then
            (case interval second of
               Inl x \<Rightarrow> Inl x
             | Inr (Some n) \<Rightarrow> Inr (REvery n)
             | Inr None \<Rightarrow> Inl (refuse_rule t ''every takes minutes or hours, like 30m or 2h''))
          else (case named_days first of
                  None \<Rightarrow> Inl (refuse_rule t ''days are daily, weekdays, weekends, or some of mon,tue,wed,thu,fri,sat,sun'')
                | Some days \<Rightarrow>
                    (case clock second of
                       None \<Rightarrow> Inl (refuse_rule t ''a time is HH:MM, from 00:00 to 23:59'')
                     | Some minute \<Rightarrow> Inr (RAt days minute)))
      | _ \<Rightarrow> Inl (refuse_rule t ''a rule is two words''))"

definition days_text :: "bool list \<Rightarrow> string" where
  "days_text days =
     (if days = replicate 7 True then ''daily''
      else if days = replicate 5 True @ replicate 2 False then ''weekdays''
      else if days = replicate 5 False @ replicate 2 True then ''weekends''
      else join '','' (map fst (filter snd (zip DAYS days))))"

fun rule_text :: "sched_rule \<Rightarrow> string" where
  "rule_text (REvery secs) =
     (if secs mod 3600 = 0 then ''every '' @ dec (nat (secs div 3600)) @ ''h'' else ''every '' @ dec (nat (secs div 60)) @ ''m'')"
| "rule_text (RAt days minute) = days_text days @ '' '' @ two_digits (nat (minute div 60)) @ '':'' @ two_digits (nat (minute mod 60))"

fun rule_next :: "zone \<Rightarrow> rat \<Rightarrow> rat \<Rightarrow> sched_rule \<Rightarrow> rat" where
  "rule_next zone due now (REvery secs) =
     (let s = of_int secs; n = due + s in if n > now then n else n + of_int \<lfloor>(now - n) / s\<rfloor> * s + s)"
| "rule_next zone due now (RAt days minute) =
     (let t = \<lfloor>now\<rfloor>; today = (t + zone t) div DAY
      in case List.find (\<lambda>t. t > now)
           (map (\<lambda>day. of_int (wall_resolve zone day minute)) (filter (\<lambda>day. days ! weekday day) [today - 1 .. today + 8])) of
           Some t \<Rightarrow> t
         | None \<Rightarrow> now + of_int DAY)"

end
