(* ===== verification/Sched_Model.thy ===== *)
theory Sched_Model
  imports Sched_Rules
begin

text \<open>
  Schedules (\<open>kanna-daemon/src/schedule.rs\<close>), their tables (\<open>db.rs\<close>) and the mail they leave (the \<open>Mailbox\<close> that
  \<open>tasks.rs\<close> implements). A table is listed in the order of its row ids. What other parts answer (the clock, the zone, the
  file system, the tasks that are open) is an argument; every statement or transaction on the database may fail, and then changes
  nothing: the \<open>n\<close>th fails when \<open>se_fail\<close> gives an error for \<open>n\<close>. Logging is left out.
\<close>

subsection \<open>Tables\<close>

record schedule =
  s_id :: nat
  s_repo :: "string option"
  s_name :: "string option"
  s_target :: string
  s_rule :: string
  s_prompt :: string
  s_next :: rat
  s_message :: "nat option"
  s_made_at :: rat
  s_paused :: "rat option"
  s_doc :: json

datatype how = How_Rule | How_Run

fun how_str :: "how \<Rightarrow> string" where
  "how_str How_Rule = ''rule''" | "how_str How_Run = ''run''"

datatype left = Left_Message nat | Left_Skipped | Left_Failed string

record firing =
  f_id :: nat
  f_schedule :: nat
  f_at :: rat
  f_how :: string
  f_state :: string
  f_message :: "nat option"
  f_delivered :: "rat option"
  f_detail :: "string option"
  f_reply :: "string option"
  f_replied_at :: "rat option"

record mail =
  m_id :: nat
  m_recipient :: string
  m_repo :: string
  m_sender :: string
  m_at :: rat
  m_delivered :: "rat option"
  m_text :: string
  m_mode :: "string option"
  m_comment :: "json option"

record sched_db =
  d_schedules :: "schedule list"
  d_firings :: "firing list"
  d_messages :: "mail list"
  d_meta :: "(string \<times> string) list"

definition FIRINGS_KEPT :: nat where "FIRINGS_KEPT = 20"
definition FIRINGS_SHOWN :: nat where "FIRINGS_SHOWN = 3"

text \<open>The row id SQLite gives: one more than the largest. \<open>delivered\<close> of a firing is joined from its message when it is read.\<close>

definition row_id :: "nat list \<Rightarrow> nat" where
  "row_id ids = Suc (foldr max ids 0)"

definition repo_key :: "string option \<Rightarrow> string" where
  "repo_key r = (case r of Some x \<Rightarrow> x | None \<Rightarrow> [])"

definition name_taken :: "string option \<Rightarrow> string option \<Rightarrow> schedule list \<Rightarrow> bool" where
  "name_taken repo name ss \<longleftrightarrow> name \<noteq> None \<and> list_ex (\<lambda>s. repo_key (s_repo s) = repo_key repo \<and> s_name s = name) ss"

definition insert_schedule :: "schedule \<Rightarrow> sched_db \<Rightarrow> string + sched_db \<times> nat" where
  "insert_schedule sc d =
     (let i = row_id (map s_id (d_schedules d))
      in if name_taken (s_repo sc) (s_name sc) (d_schedules d) then Inl (''UNIQUE constraint failed: index '' @ [CHR 0x27] @ ''schedules_by_name'' @ [CHR 0x27])
         else Inr (d\<lparr>d_schedules := d_schedules d @ [sc\<lparr>s_id := i\<rparr>]\<rparr>, i))"

definition remove_schedule :: "nat \<Rightarrow> sched_db \<Rightarrow> sched_db" where
  "remove_schedule i d = d\<lparr>d_schedules := filter (\<lambda>s. s_id s \<noteq> i) (d_schedules d), d_firings := filter (\<lambda>f. f_schedule f \<noteq> i) (d_firings d)\<rparr>"

fun left_row :: "left \<Rightarrow> string \<times> nat option \<times> string option" where
  "left_row (Left_Message m) = (''left'', Some m, None)"
| "left_row Left_Skipped = (''skipped'', None, None)"
| "left_row (Left_Failed why) = (''failed'', None, Some why)"

definition keep_firings :: "nat \<Rightarrow> firing list \<Rightarrow> firing list" where
  "keep_firings i fs =
     (let newest = take FIRINGS_KEPT (rev (map f_id (filter (\<lambda>f. f_schedule f = i) fs)))
      in filter (\<lambda>f. f_schedule f \<noteq> i \<or> f_id f \<in> set newest) fs)"

definition fired_row :: "nat \<Rightarrow> rat \<Rightarrow> nat option \<Rightarrow> schedule \<Rightarrow> schedule" where
  "fired_row i next message s = (if s_id s = i then s\<lparr>s_next := next, s_message := (case message of None \<Rightarrow> s_message s | Some m \<Rightarrow> Some m)\<rparr> else s)"

definition new_firing :: "nat list \<Rightarrow> nat \<Rightarrow> rat \<Rightarrow> how \<Rightarrow> left \<Rightarrow> firing" where
  "new_firing ids i time how left =
     (let (state, message, detail) = left_row left
      in \<lparr>f_id = row_id ids, f_schedule = i, f_at = time, f_how = how_str how, f_state = state, f_message = message,
          f_delivered = None, f_detail = detail, f_reply = None, f_replied_at = None\<rparr>)"

definition schedule_fired :: "nat \<Rightarrow> rat \<Rightarrow> how \<Rightarrow> left \<Rightarrow> rat \<Rightarrow> sched_db \<Rightarrow> string + sched_db" where
  "schedule_fired i time how left next d =
     (let row = new_firing (map f_id (d_firings d)) i time how left
      in if \<not> list_ex (\<lambda>s. s_id s = i) (d_schedules d) \<or> (\<exists>m \<in> set_option (f_message row). \<not> list_ex (\<lambda>x. m_id x = m) (d_messages d))
         then Inl ''FOREIGN KEY constraint failed''
         else Inr (d\<lparr>d_schedules := map (fired_row i next (f_message row)) (d_schedules d), d_firings := keep_firings i (d_firings d @ [row])\<rparr>))"

definition schedule_paused :: "nat \<Rightarrow> rat option \<Rightarrow> sched_db \<Rightarrow> sched_db" where
  "schedule_paused i p d = d\<lparr>d_schedules := map (\<lambda>s. if s_id s = i then s\<lparr>s_paused := p\<rparr> else s) (d_schedules d)\<rparr>"

definition db_firings :: "nat \<Rightarrow> nat \<Rightarrow> sched_db \<Rightarrow> firing list" where
  "db_firings i limit d =
     map (\<lambda>f. f\<lparr>f_delivered := (case List.find (\<lambda>m. f_message f = Some (m_id m)) (d_messages d) of Some m \<Rightarrow> m_delivered m | None \<Rightarrow> None)\<rparr>)
       (take limit (rev (filter (\<lambda>f. f_schedule f = i) (d_firings d))))"

definition firing_reply :: "nat \<Rightarrow> string \<Rightarrow> rat \<Rightarrow> sched_db \<Rightarrow> sched_db" where
  "firing_reply i text time d = d\<lparr>d_firings := map (\<lambda>f. if f_id f = i then f\<lparr>f_reply := Some text, f_replied_at := Some time\<rparr> else f) (d_firings d)\<rparr>"

definition seed_once :: "string \<Rightarrow> schedule \<Rightarrow> sched_db \<Rightarrow> string + sched_db \<times> bool" where
  "seed_once key sc d =
     (if list_ex (\<lambda>(k, _). k = key) (d_meta d) then Inr (d, False)
      else let d = d\<lparr>d_meta := d_meta d @ [(key, ''1'')]\<rparr>
           in if name_taken (s_repo sc) (s_name sc) (d_schedules d) then Inr (d, False)
              else case insert_schedule sc d of Inl e \<Rightarrow> Inl e | Inr (d, _) \<Rightarrow> Inr (d, True))"

definition put_message :: "string \<Rightarrow> string \<Rightarrow> string \<Rightarrow> string \<Rightarrow> string option \<Rightarrow> json option \<Rightarrow> rat \<Rightarrow> sched_db \<Rightarrow> sched_db \<times> mail" where
  "put_message recipient repo sender text mode comment time d =
     (let m = \<lparr>m_id = row_id (map m_id (d_messages d)), m_recipient = recipient, m_repo = repo, m_sender = sender, m_at = time, m_delivered = None,
               m_text = text, m_mode = mode, m_comment = comment\<rparr>
      in (d\<lparr>d_messages := d_messages d @ [m]\<rparr>, m))"

definition mark_delivered :: "nat list \<Rightarrow> rat \<Rightarrow> sched_db \<Rightarrow> sched_db" where
  "mark_delivered ids time d = d\<lparr>d_messages := map (\<lambda>m. if m_id m \<in> set ids then m\<lparr>m_delivered := Some time\<rparr> else m) (d_messages d)\<rparr>"

definition waiting_messages :: "sched_db \<Rightarrow> mail list" where
  "waiting_messages d = sort_key m_at (filter (\<lambda>m. m_delivered m = None) (d_messages d))"

subsection \<open>State\<close>

record sched_env =
  se_zone :: zone
  se_clock :: "nat \<Rightarrow> rat"
  se_fail :: "nat \<Rightarrow> string option"
  se_repo_of :: "string \<Rightarrow> string option"
  se_resolve :: "string \<Rightarrow> kmux_error + string option"
  se_open :: "string \<Rightarrow> bool"
  se_known :: "string \<Rightarrow> (string \<times> string option) option"
  se_short :: "string \<Rightarrow> string"
  se_sender :: "json \<Rightarrow> string \<times> string option"

record scheds =
  sc_db :: sched_db
  sc_waiting :: "mail list"
  sc_skew :: rat
  sc_known :: "schedule list option"
  sc_changes :: nat
  sc_calls :: nat

type_synonym 'a sched_res = "scheds \<times> (kmux_error + 'a)"

definition sched_now :: "sched_env \<Rightarrow> scheds \<Rightarrow> rat" where
  "sched_now env s = se_clock env (sc_calls s) + sc_skew s"

definition advance :: "rat \<Rightarrow> scheds \<Rightarrow> scheds" where
  "advance secs s = s\<lparr>sc_skew := sc_skew s + secs\<rparr>"

text \<open>One statement or transaction.\<close>

definition db_call :: "sched_env \<Rightarrow> (sched_db \<Rightarrow> string + sched_db \<times> 'a) \<Rightarrow> scheds \<Rightarrow> scheds \<times> (string + 'a)" where
  "db_call env f s =
     (let s' = s\<lparr>sc_calls := Suc (sc_calls s)\<rparr>
      in case se_fail env (sc_calls s) of
           Some e \<Rightarrow> (s', Inl e)
         | None \<Rightarrow> (case f (sc_db s) of Inl e \<Rightarrow> (s', Inl e) | Inr (d, x) \<Rightarrow> (s'\<lparr>sc_db := d\<rparr>, Inr x)))"

definition db_try :: "sched_env \<Rightarrow> string \<Rightarrow> (sched_db \<Rightarrow> string + sched_db \<times> 'a) \<Rightarrow> scheds \<Rightarrow> 'a sched_res" where
  "db_try env what f s =
     (case db_call env f s of
        (s, Inl e) \<Rightarrow> (s, Inl (kmux_err ''failed'' (''couldn't '' @ what @ '': '' @ e)))
      | (s, Inr x) \<Rightarrow> (s, Inr x))"

fun sbind :: "'a sched_res \<Rightarrow> (scheds \<Rightarrow> 'a \<Rightarrow> 'b sched_res) \<Rightarrow> 'b sched_res" where
  "sbind (s, Inl e) k = (s, Inl e)"
| "sbind (s, Inr x) k = k s x"

definition forget_known :: "scheds \<Rightarrow> scheds" where
  "forget_known s = s\<lparr>sc_known := None\<rparr>"

definition sched_changed :: "scheds \<Rightarrow> scheds" where
  "sched_changed s = (forget_known s)\<lparr>sc_changes := Suc (sc_changes s)\<rparr>"

definition all_schedules :: "sched_env \<Rightarrow> scheds \<Rightarrow> schedule list sched_res" where
  "all_schedules env s =
     (case sc_known s of
        Some known \<Rightarrow> (s, Inr known)
      | None \<Rightarrow> sbind (db_try env ''read the schedules'' (\<lambda>d. Inr (d, d_schedules d)) s) (\<lambda>s all. (s\<lparr>sc_known := Some all\<rparr>, Inr all)))"

end
