(* ===== verification/Sched_Serve.thy ===== *)
theory Sched_Serve
  imports Sched_Model
begin

text \<open>
  What schedules answer and do (\<open>kanna-daemon/src/schedule.rs\<close>): the requests to add, list, remove, pause, resume, run and
  reply, the schedules that are due, and the mail of \<open>tasks.rs\<close> they go through. A panic is an error of its own
  (\<open>panic\<close>), and \<open>None\<close> for \<open>fire\<close>, which returns a count.
\<close>

abbreviation bad :: "string \<Rightarrow> kmux_error" where
  "bad m \<equiv> kmux_err ''bad_request'' m"

definition PLANNER :: string where "PLANNER = ''planner''"
definition SCHEDULE :: string where "SCHEDULE = ''schedule ''"
definition QUIZ :: string where "QUIZ = ''quiz''"
definition QUIZ_RULE :: string where "QUIZ_RULE = ''daily 09:00''"
definition QUIZ_PROMPT :: string where
  "QUIZ_PROMPT = ''Morning quiz check (the kanna-quiz skill's Offering): if anything landed on main since the last quiz round (kanna quiz history), offer me a round; if nothing has, say nothing.''"

subsection \<open>Mail\<close>

definition gone :: "sched_env \<Rightarrow> string \<Rightarrow> kmux_error" where
  "gone env i = kmux_err ''done'' (se_short env i @ '' is done, so it takes no messages'')"

definition task_not_found :: "string \<Rightarrow> kmux_error" where
  "task_not_found r = kmux_err ''not_found'' (''no task '' @ [CHR 0x22] @ r @ [CHR 0x22] @ '' on the Shelf'')"

definition mail_recipient :: "sched_env \<Rightarrow> string \<Rightarrow> kmux_error + string" where
  "mail_recipient env to =
     (if to = PLANNER then Inr PLANNER
      else case se_resolve env to of
             Inl e \<Rightarrow> Inl e
           | Inr None \<Rightarrow> Inl (task_not_found to)
           | Inr (Some i) \<Rightarrow> if se_open env i then Inr i else Inl (gone env i))"

definition mail_queue :: "sched_env \<Rightarrow> string \<Rightarrow> string \<Rightarrow> string \<Rightarrow> string \<Rightarrow> string option \<Rightarrow> json option \<Rightarrow> scheds \<Rightarrow> mail sched_res" where
  "mail_queue env recipient repo from text mode comment s =
     sbind (case db_call env (\<lambda>d. Inr (put_message recipient repo from text mode comment (se_clock env (sc_calls s)) d)) s of
              (s, Inl e) \<Rightarrow> (s, Inl (kmux_err ''failed'' (''couldn't save the message in kanna.db: '' @ e)))
            | (s, Inr m) \<Rightarrow> (s, Inr m))
       (\<lambda>s m. (s\<lparr>sc_waiting := sc_waiting s @ [m]\<rparr>, Inr m))"

definition mail_post :: "sched_env \<Rightarrow> string \<Rightarrow> string option \<Rightarrow> string \<Rightarrow> string \<Rightarrow> scheds \<Rightarrow> nat sched_res" where
  "mail_post env recipient repo from text s =
     (case (if recipient = PLANNER then (case repo of Some r \<Rightarrow> Inr r | None \<Rightarrow> Inl (bad ''which repo's planner?''))
            else if \<not> se_open env recipient then Inl (gone env recipient)
            else case se_known env recipient of Some (r, _) \<Rightarrow> Inr r | None \<Rightarrow> Inl (task_not_found recipient)) of
        Inl e \<Rightarrow> (s, Inl e)
      | Inr r \<Rightarrow> sbind (mail_queue env recipient r from text None None s) (\<lambda>s m. (s, Inr (m_id m))))"

definition mail_waiting :: "nat \<Rightarrow> scheds \<Rightarrow> bool" where
  "mail_waiting i s \<longleftrightarrow> list_ex (\<lambda>m. m_id m = i) (sc_waiting s)"

definition mail_label :: "sched_env \<Rightarrow> string \<Rightarrow> string" where
  "mail_label env r = (if r = PLANNER then r else se_short env r)"

definition mail_title :: "sched_env \<Rightarrow> string \<Rightarrow> string" where
  "mail_title env r = (case se_known env r of Some (_, Some n) \<Rightarrow> n | _ \<Rightarrow> mail_label env r)"

text \<open>\<open>Tasks::took\<close> and \<open>watch_deliveries\<close>: messages that were handed over stop waiting. What \<open>took\<close> notes of tasks is left out.\<close>

definition took :: "sched_env \<Rightarrow> mail list \<Rightarrow> scheds \<Rightarrow> scheds" where
  "took env ms s =
     (let ids = map m_id ms; (s, _) = db_call env (\<lambda>d. Inr (mark_delivered ids (se_clock env (sc_calls s)) d, ())) s;
          s = s\<lparr>sc_waiting := filter (\<lambda>m. m_id m \<notin> set ids) (sc_waiting s)\<rparr>
      in if list_ex (\<lambda>m. starts_with SCHEDULE (m_sender m)) ms then sched_changed s else s)"

subsection \<open>Requests\<close>

definition id_of :: "string \<Rightarrow> nat option" where
  "id_of t =
     (case t of
        c # n \<Rightarrow> if c = CHR ''s'' \<and> n \<noteq> [] \<and> list_all is_digit n \<and> digits_value n < 2 ^ 63 then Some (digits_value n) else None
      | [] \<Rightarrow> None)"

definition s_label :: "schedule \<Rightarrow> string" where
  "s_label sc = (case s_name sc of Some n \<Rightarrow> n | None \<Rightarrow> ''s'' @ dec (s_id sc))"

definition sched_waiting :: "schedule \<Rightarrow> scheds \<Rightarrow> bool" where
  "sched_waiting sc s = (case s_message sc of Some m \<Rightarrow> mail_waiting m s | None \<Rightarrow> False)"

definition firing_value :: "sched_env \<Rightarrow> scheds \<Rightarrow> firing \<Rightarrow> json" where
  "firing_value env s f =
     (let state = (if f_state f = ''left''
                   then (case (f_delivered f, f_message f) of
                           (Some _, _) \<Rightarrow> ''delivered''
                         | (None, Some m) \<Rightarrow> if mail_waiting m s then ''waiting'' else ''undelivered''
                         | (None, None) \<Rightarrow> ''undelivered'')
                   else f_state f)
      in JObject [(''at'', num (f_at f)), (''atText'', JString (local_text (se_zone env) (f_at f))), (''how'', JString (f_how f)), (''state'', JString state),
           (''deliveredText'', opt_json (map_option (local_text (se_zone env)) (f_delivered f))), (''detail'', opt_json (f_detail f)), (''reply'', opt_json (f_reply f))])"

definition firings_value :: "sched_env \<Rightarrow> schedule \<Rightarrow> scheds \<Rightarrow> scheds \<times> json" where
  "firings_value env sc s =
     (case db_call env (\<lambda>d. Inr (d, db_firings (s_id sc) FIRINGS_SHOWN d)) s of
        (s, Inl _) \<Rightarrow> (s, JArray [])
      | (s, Inr fs) \<Rightarrow> (s, JArray (map (firing_value env s) fs)))"

definition sched_value :: "sched_env \<Rightarrow> schedule \<Rightarrow> scheds \<Rightarrow> scheds \<times> obj" where
  "sched_value env sc s =
     (let (s', fs) = firings_value env sc s
      in (s', [(''schedule'', JString (''s'' @ dec (s_id sc))), (''name'', opt_json (s_name sc)), (''repo'', opt_json (s_repo sc)), (''rule'', JString (s_rule sc)),
               (''target'', JString (mail_label env (s_target sc))), (''targetName'', JString (mail_title env (s_target sc))), (''task'', JString (s_target sc)),
               (''prompt'', JString (s_prompt sc)), (''next'', num (s_next sc)), (''nextText'', JString (local_text (se_zone env) (s_next sc))),
               (''message'', opt_json (map_option dec (s_message sc))), (''waiting'', JBool (sched_waiting sc s)), (''paused'', JBool (s_paused sc \<noteq> None)),
               (''firings'', fs)]))"

fun sched_values :: "sched_env \<Rightarrow> schedule list \<Rightarrow> scheds \<Rightarrow> scheds \<times> json list" where
  "sched_values env [] s = (s, [])"
| "sched_values env (sc # scs) s = (let (s, v) = sched_value env sc s; (s, vs) = sched_values env scs s in (s, JObject v # vs))"

definition quiz_schedule :: "sched_env \<Rightarrow> string \<Rightarrow> sched_rule \<Rightarrow> rat \<Rightarrow> schedule" where
  "quiz_schedule env repo rule now =
     \<lparr>s_id = 0, s_repo = Some repo, s_name = Some QUIZ, s_target = PLANNER, s_rule = rule_text rule, s_prompt = QUIZ_PROMPT,
      s_next = rule_next (se_zone env) now now rule, s_message = None, s_made_at = now, s_paused = None, s_doc = JObject [(''by'', JString ''kanna'')]\<rparr>"

text \<open>The rule of the quiz is read with \<open>expect\<close>; that it can be read is a fact below.\<close>

definition seed :: "sched_env \<Rightarrow> string \<Rightarrow> scheds \<Rightarrow> scheds" where
  "seed env repo s =
     (case parse_rule QUIZ_RULE of
        Inl _ \<Rightarrow> s
      | Inr rule \<Rightarrow>
          (case db_call env (seed_once (''quiz_schedule:'' @ repo) (quiz_schedule env repo rule (sched_now env s))) s of
             (s, Inr True) \<Rightarrow> sched_changed s
           | (s, _) \<Rightarrow> s))"

definition non_empty :: "string option \<Rightarrow> string option" where
  "non_empty t = (case t of Some x \<Rightarrow> if x = [] then None else Some x | None \<Rightarrow> None)"

definition repo_arg :: "sched_env \<Rightarrow> json \<Rightarrow> scheds \<Rightarrow> string option sched_res" where
  "repo_arg env args s =
     (case non_empty (json_string args ''repo'') of
        None \<Rightarrow> (s, Inr None)
      | Some folder \<Rightarrow>
          if \<not> starts_with ''/'' folder then (s, Inl (bad ''say which repo: an absolute path to its folder''))
          else (case se_repo_of env folder of
                  None \<Rightarrow> (s, Inl (bad (folder @ '' isn't in a git repo'')))
                | Some repo \<Rightarrow> (seed env repo s, Inr (Some repo))))"

definition has_space :: "string \<Rightarrow> bool" where
  "has_space t \<longleftrightarrow> list_ex is_whitespace t"

definition read_rule :: "json \<Rightarrow> kmux_error + sched_rule" where
  "read_rule args =
     (case parse_rule (case json_string args ''rule'' of Some t \<Rightarrow> t | None \<Rightarrow> []) of
        Inl Rule_Panic \<Rightarrow> Inl (kmux_err ''panic'' [])
      | Inl (Bad_Rule m) \<Rightarrow> Inl (bad m)
      | Inr rule \<Rightarrow> Inr rule)"

definition read_target :: "json \<Rightarrow> kmux_error + string" where
  "read_target args =
     (case json_string args ''target'' of
        Some t \<Rightarrow> if t \<noteq> [] \<and> \<not> has_space t then Inr t else Inl (bad ''say who to prompt: a task, or planner'')
      | None \<Rightarrow> Inl (bad ''say who to prompt: a task, or planner''))"

definition read_prompt :: "json \<Rightarrow> kmux_error + string" where
  "read_prompt args =
     (let p = join '' '' (split_whitespace (case json_string args ''prompt'' of Some t \<Rightarrow> t | None \<Rightarrow> []))
      in if p = [] then Inl (bad ''say what to prompt the agent with'') else Inr p)"

definition read_name :: "json \<Rightarrow> kmux_error + string option" where
  "read_name args =
     (case json_string args ''name'' of
        None \<Rightarrow> Inr None
      | Some n \<Rightarrow>
          if n = [] \<or> has_space n then Inl (bad ''a schedule's name is one word'')
          else if id_of n \<noteq> None then Inl (bad (n @ '' looks like a schedule's ID; pick another name''))
          else Inr (Some n))"

definition add_to :: "sched_env \<Rightarrow> json \<Rightarrow> sched_rule \<Rightarrow> string \<Rightarrow> string \<Rightarrow> string option \<Rightarrow> string option \<Rightarrow> scheds \<Rightarrow> obj sched_res" where
  "add_to env args rule recipient prompt name repo s =
     (let now = sched_now env s;
          doc = (case non_empty (json_string args ''by'') of Some by \<Rightarrow> JObject [(''by'', JString by)] | None \<Rightarrow> JObject []);
          sc = \<lparr>s_id = 0, s_repo = repo, s_name = name, s_target = recipient, s_rule = rule_text rule, s_prompt = prompt,
                s_next = rule_next (se_zone env) now now rule, s_message = None, s_made_at = now, s_paused = None, s_doc = doc\<rparr>
      in sbind (db_try env ''save the schedule'' (insert_schedule sc) s)
           (\<lambda>s i. let (s, v) = sched_value env (sc\<lparr>s_id := i\<rparr>) (sched_changed s) in (s, Inr v)))"

definition add_schedule :: "sched_env \<Rightarrow> json \<Rightarrow> scheds \<Rightarrow> obj sched_res" where
  "add_schedule env args s =
     sbind (s, read_rule args) (\<lambda>s rule.
     sbind (s, read_target args) (\<lambda>s target.
     sbind (s, read_prompt args) (\<lambda>s prompt.
     sbind (s, read_name args) (\<lambda>s name.
     sbind (repo_arg env args s) (\<lambda>s repo.
     sbind (s, mail_recipient env target) (\<lambda>s recipient.
       if recipient = PLANNER \<and> repo = None then (s, Inl (bad ''planner is a repo's planning agent: run this in the repo, or say which with --repo''))
       else (case name of
               None \<Rightarrow> add_to env args rule recipient prompt name repo s
             | Some n \<Rightarrow>
                 sbind (all_schedules env s) (\<lambda>s all.
                   if list_ex (\<lambda>x. s_repo x = repo \<and> s_name x = Some n) all then (s, Inl (bad (''there's a schedule named '' @ n @ '' here already'')))
                   else add_to env args rule recipient prompt name repo s))))))))"

definition list_schedules :: "sched_env \<Rightarrow> json \<Rightarrow> scheds \<Rightarrow> obj sched_res" where
  "list_schedules env args s =
     sbind (repo_arg env args s) (\<lambda>s repo.
     sbind (all_schedules env s) (\<lambda>s all.
       let (s, vs) = sched_values env all s in (s, Inr [(''repo'', opt_json repo), (''schedules'', JArray vs)])))"

definition pick_schedules :: "string \<Rightarrow> string option \<Rightarrow> schedule list \<Rightarrow> schedule list" where
  "pick_schedules which repo all =
     (case id_of which of
        Some i \<Rightarrow> filter (\<lambda>s. s_id s = i) all
      | None \<Rightarrow>
          let named = filter (\<lambda>s. s_name s = Some which) all; here = filter (\<lambda>s. s_repo s = repo) named
          in if here = [] then named else here)"

definition find_schedule :: "sched_env \<Rightarrow> json \<Rightarrow> scheds \<Rightarrow> schedule sched_res" where
  "find_schedule env args s =
     (case non_empty (json_string args ''schedule'') of
        None \<Rightarrow> (s, Inl (bad ''say which schedule: its name or ID (s3)''))
      | Some which \<Rightarrow>
          sbind (repo_arg env args s) (\<lambda>s repo.
          sbind (all_schedules env s) (\<lambda>s all.
            case pick_schedules which repo all of
              [one] \<Rightarrow> (s, Inr one)
            | [] \<Rightarrow> (s, Inl (kmux_err ''not_found'' (''no schedule '' @ which)))
            | many \<Rightarrow> (s, Inl (bad (which @ '' names '' @ dec (length many) @ '' schedules ('' @ join '', '' (map (\<lambda>x. ''s'' @ dec (s_id x)) many) @
                                 ''): say which by ID''))))))"

definition named_value :: "schedule \<Rightarrow> obj" where
  "named_value sc = [(''schedule'', JString (''s'' @ dec (s_id sc))), (''name'', opt_json (s_name sc))]"

definition remove_request :: "sched_env \<Rightarrow> json \<Rightarrow> scheds \<Rightarrow> obj sched_res" where
  "remove_request env args s =
     sbind (find_schedule env args s) (\<lambda>s sc.
     sbind (db_try env ''remove the schedule'' (\<lambda>d. Inr (remove_schedule (s_id sc) d, ())) s) (\<lambda>s _.
       (sched_changed s, Inr (named_value sc))))"

definition pause_request :: "sched_env \<Rightarrow> json \<Rightarrow> scheds \<Rightarrow> obj sched_res" where
  "pause_request env args s =
     sbind (find_schedule env args s) (\<lambda>s sc.
       if s_paused sc = None then
         sbind (db_try env ''pause the schedule'' (\<lambda>d. Inr (schedule_paused (s_id sc) (Some (sched_now env s)) d, ())) s) (\<lambda>s _. (sched_changed s, Inr (named_value sc)))
       else (s, Inr (named_value sc)))"

definition resume_request :: "sched_env \<Rightarrow> json \<Rightarrow> scheds \<Rightarrow> obj sched_res" where
  "resume_request env args s =
     sbind (find_schedule env args s) (\<lambda>s sc.
     sbind (if s_paused sc \<noteq> None
            then sbind (db_try env ''resume the schedule'' (\<lambda>d. Inr (schedule_paused (s_id sc) None d, ())) s) (\<lambda>s _. (sched_changed s, Inr ()))
            else (s, Inr ())) (\<lambda>s _.
       (s, Inr (named_value sc @ [(''nextText'', JString (local_text (se_zone env) (s_next sc))), (''missed'', JBool (s_next sc \<le> sched_now env s))]))))"

definition leave :: "sched_env \<Rightarrow> schedule \<Rightarrow> scheds \<Rightarrow> scheds \<times> left" where
  "leave env sc s =
     (if sched_waiting sc s then (s, Left_Skipped)
      else case mail_post env (s_target sc) (s_repo sc) (SCHEDULE @ s_label sc) (s_prompt sc) s of
             (s, Inr i) \<Rightarrow> (s, Left_Message i)
           | (s, Inl e) \<Rightarrow> (s, Left_Failed (err_message e)))"

definition run_request :: "sched_env \<Rightarrow> json \<Rightarrow> scheds \<Rightarrow> obj sched_res" where
  "run_request env args s =
     sbind (find_schedule env args s) (\<lambda>s sc.
       let now = sched_now env s; (s, left) = leave env sc s
       in sbind (db_try env ''save the firing'' (\<lambda>d. map_sum id (\<lambda>d. (d, ())) (schedule_fired (s_id sc) now How_Run left (s_next sc) d)) s) (\<lambda>s _.
            case left of
              Left_Failed why \<Rightarrow> (sched_changed s, Inl (kmux_err ''failed'' why))
            | Left_Message _ \<Rightarrow> (sched_changed s, Inr (named_value sc @ [(''left'', JBool True)]))
            | Left_Skipped \<Rightarrow> (sched_changed s, Inr (named_value sc @ [(''left'', JBool False)]))))"

definition reply_request :: "sched_env \<Rightarrow> json \<Rightarrow> scheds \<Rightarrow> obj sched_res" where
  "reply_request env args s =
     (case non_empty (map_option trim (json_string args ''text'')) of
        None \<Rightarrow> (s, Inl (bad ''say what: kanna schedule reply NAME TEXT''))
      | Some text \<Rightarrow>
          sbind (find_schedule env args s) (\<lambda>s sc.
            let (caller, repo) = se_sender env args
            in if caller \<noteq> s_target sc \<or> caller = PLANNER \<and> repo \<noteq> s_repo sc
               then (s, Inl (bad (''only '' @ mail_label env (s_target sc) @ '', the schedule's target, replies to it'')))
               else sbind (db_try env ''read the firings'' (\<lambda>d. Inr (d, db_firings (s_id sc) FIRINGS_KEPT d)) s) (\<lambda>s fs.
                 case List.find (\<lambda>f. f_delivered f \<noteq> None) fs of
                   None \<Rightarrow> (s, Inl (bad (s_label sc @ '' has no delivered message to reply to'')))
                 | Some f \<Rightarrow>
                     sbind (db_try env ''save the reply'' (\<lambda>d. Inr (firing_reply (f_id f) text (sched_now env s) d, ())) s) (\<lambda>s _.
                       (sched_changed s, Inr (named_value sc))))))"

definition handle_schedule :: "sched_env \<Rightarrow> json \<Rightarrow> scheds \<Rightarrow> obj sched_res" where
  "handle_schedule env args s =
     (case json_string args ''action'' of
        Some a \<Rightarrow>
          if a = ''add'' then add_schedule env args s
          else if a = ''list'' then list_schedules env args s
          else if a = ''remove'' then remove_request env args s
          else if a = ''pause'' then pause_request env args s
          else if a = ''resume'' then resume_request env args s
          else if a = ''run'' then run_request env args s
          else if a = ''reply'' then reply_request env args s
          else (s, Inl (bad ''schedule needs an action: add, list, remove, pause, resume, run or reply''))
      | None \<Rightarrow> (s, Inl (bad ''schedule needs an action: add, list, remove, pause, resume, run or reply'')))"

subsection \<open>What is due\<close>

definition due_schedules :: "rat \<Rightarrow> schedule list \<Rightarrow> schedule list" where
  "due_schedules now all = filter (\<lambda>s. s_next s \<le> now \<and> s_paused s = None) all"

fun fire_each :: "sched_env \<Rightarrow> rat \<Rightarrow> schedule list \<Rightarrow> scheds \<Rightarrow> nat \<Rightarrow> scheds \<times> nat option" where
  "fire_each env now [] s n = (s, Some n)"
| "fire_each env now (sc # scs) s n =
     (case parse_rule (s_rule sc) of
        Inl Rule_Panic \<Rightarrow> (s, None)
      | Inl (Bad_Rule _) \<Rightarrow> fire_each env now scs s n
      | Inr rule \<Rightarrow>
          let (s, left) = leave env sc s
          in case db_call env (\<lambda>d. map_sum id (\<lambda>d. (d, ())) (schedule_fired (s_id sc) now How_Rule left (rule_next (se_zone env) (s_next sc) now rule) d)) s of
               (s, Inr _) \<Rightarrow> fire_each env now scs s (Suc n)
             | (s, Inl _) \<Rightarrow> fire_each env now scs s n)"

definition fire :: "sched_env \<Rightarrow> scheds \<Rightarrow> scheds \<times> nat option" where
  "fire env s =
     (let now = sched_now env s
      in case all_schedules env s of
           (s, Inl _) \<Rightarrow> (s, Some 0)
         | (s, Inr all) \<Rightarrow>
             (let due = due_schedules now all
              in if due = [] then (s, Some 0)
                 else case fire_each env now due (forget_known s) 0 of
                        (s, None) \<Rightarrow> (s, None)
                      | (s, Some n) \<Rightarrow> (sched_changed s, Some n)))"

definition next_due :: "sched_env \<Rightarrow> scheds \<Rightarrow> scheds \<times> rat option" where
  "next_due env s =
     (case all_schedules env s of
        (s, Inl _) \<Rightarrow> (s, None)
      | (s, Inr all) \<Rightarrow> (s, case map s_next (filter (\<lambda>s. s_paused s = None) all) of [] \<Rightarrow> None | t # ts \<Rightarrow> Some (foldl min t ts)))"

definition LONGEST_WAIT :: rat where "LONGEST_WAIT = 60"

text \<open>How long the daemon may wait before the next tick; \<open>None\<close> in the first place is a panic, in the second no schedule.\<close>

definition tick :: "sched_env \<Rightarrow> scheds \<Rightarrow> scheds \<times> rat option option" where
  "tick env s =
     (case fire env s of
        (s, None) \<Rightarrow> (s, None)
      | (s, Some _) \<Rightarrow> (let (s, due) = next_due env s in (s, Some (map_option (\<lambda>t. min (max (t - sched_now env s) 0) LONGEST_WAIT) due))))"

text \<open>\<open>Scheduler::new\<close> after a restart: what waited is read from the database and each repo of \<open>db.repos()\<close> is seeded.\<close>

definition restart :: "sched_env \<Rightarrow> string list \<Rightarrow> scheds \<Rightarrow> scheds" where
  "restart env repos s =
     (let (s, ms) = db_call env (\<lambda>d. Inr (d, waiting_messages d)) s
      in foldl (\<lambda>s repo. case se_repo_of env repo of Some r \<Rightarrow> seed env r s | None \<Rightarrow> s)
           (s\<lparr>sc_waiting := (case ms of Inr w \<Rightarrow> w | Inl _ \<Rightarrow> []), sc_skew := 0, sc_known := None\<rparr>) repos)"

end
