(* ===== verification/Sched_Text.thy ===== *)
theory Sched_Text
  imports Sched_Rules
begin

text \<open>
  Rules as they are stored: what a text is read as is written in one form, and that form is read back as the same rule. So
  a schedule that was added can always be run again from the text in the database.
\<close>

definition rule_wf :: "sched_rule \<Rightarrow> bool" where
  "rule_wf r = (case r of
     REvery n \<Rightarrow> (\<exists>c. 1 \<le> c \<and> c \<le> 10000 \<and> (n = 60 * c \<or> n = 3600 * c))
   | RAt days minute \<Rightarrow> length days = 7 \<and> True \<in> set days \<and> 0 \<le> minute \<and> minute < 1440)"

subsection \<open>What is read is well formed\<close>

lemma parse_count_bounds: "parse_count s = Some n \<Longrightarrow> 1 \<le> n \<and> n \<le> 10000"
  by (auto simp: parse_count_def Let_def split: if_splits)

lemma interval_wf: "interval t = Inr (Some n) \<Longrightarrow> rule_wf (REvery n)"
  by (force simp: interval_def rule_wf_def dest: parse_count_bounds split: if_splits option.splits)

lemma digits_i64_nonneg: "digits_i64 s k = Some n \<Longrightarrow> 0 \<le> n"
  by (auto simp: digits_i64_def split: if_splits)

lemma clock_bounds: "clock t = Some n \<Longrightarrow> 0 \<le> n \<and> n < 1440"
  by (force simp: clock_def dest: digits_i64_nonneg split: if_splits option.splits)

lemma mark_days_length: "mark_days ns days = Some ds \<Longrightarrow> length ds = length days"
  by (induction ns days rule: mark_days.induct) (auto split: option.splits)

lemma mark_days_on: "mark_days ns days = Some ds \<Longrightarrow> length days = 7 \<Longrightarrow> ns \<noteq> [] \<or> True \<in> set days \<Longrightarrow> True \<in> set ds"
proof (induction ns days rule: mark_days.induct)
  case (2 n ns days)
  then obtain i where i: "position (\<lambda>d. d = n) DAYS = Some i" "mark_days ns (days[i := True]) = Some ds" by (auto split: option.splits)
  from position_SomeD [OF i(1)] 2(3) have "i < length days" by (simp add: DAYS_def)
  then have "True \<in> set (days[i := True])" by (rule set_update_memI)
  with 2(1) [OF i] 2(3) show ?case by simp
qed simp

lemma day_list_wf: "day_list t = Some ds \<Longrightarrow> length ds = 7 \<and> True \<in> set ds"
  unfolding day_list_def by (auto dest: mark_days_length mark_days_on [OF _ _ disjI1])

lemma named_days_wf: "named_days n = Some ds \<Longrightarrow> length ds = 7 \<and> True \<in> set ds"
  by (auto simp: named_days_def dest: day_list_wf split: if_splits)

lemma parse_rule_wf:
  assumes "parse_rule t = Inr r"
  shows "rule_wf r"
proof -
  obtain first second where w: "map (map lower_char) (split_whitespace t) = [first, second]"
    using assms by (auto simp: parse_rule_def split: list.splits)
  show ?thesis
  proof (cases "first = ''every''")
    case True
    with assms w show ?thesis by (cases "interval second") (auto simp: parse_rule_def dest: interval_wf split: option.splits)
  next
    case False
    with assms w obtain days minute where "named_days first = Some days" "clock second = Some minute" "r = RAt days minute"
      by (auto simp: parse_rule_def split: option.splits)
    with named_days_wf clock_bounds show ?thesis by (simp add: rule_wf_def)
  qed
qed

subsection \<open>What is written is read back\<close>

definition lower_word :: "string \<Rightarrow> bool" where
  "lower_word s \<longleftrightarrow> s \<noteq> [] \<and> list_all (\<lambda>c. \<not> is_whitespace c \<and> lower_char c = c) s"

lemma two_words:
  assumes "lower_word a" "lower_word b"
  shows "map (map lower_char) (split_whitespace (a @ '' '' @ b)) = [a, b]"
proof -
  have w: "\<forall>c \<in> set a. \<not> is_whitespace c" "\<forall>c \<in> set b. \<not> is_whitespace c" using assms by (auto simp: lower_word_def list_all_iff)
  have "is_whitespace (CHR '' '')" by (simp add: is_whitespace_def)
  then have "split_on is_whitespace (a @ CHR '' '' # b) = a # split_on is_whitespace b" using split_on_append [OF w(1)] by simp
  then have "split_whitespace (a @ '' '' @ b) = [a, b]" using assms split_on_none [OF w(2)] by (simp add: split_whitespace_def lower_word_def)
  moreover have "map lower_char x = x" if "lower_word x" for x using that by (simp add: lower_word_def list_all_iff map_idI)
  ultimately show ?thesis using assms by simp
qed

lemma lower_word_append: "lower_word a \<Longrightarrow> lower_word b \<Longrightarrow> lower_word (a @ b)"
  by (simp add: lower_word_def)

lemma digit_lower: "is_digit c \<Longrightarrow> \<not> is_whitespace c \<and> lower_char c = c"
  by (auto simp: is_digit_def is_whitespace_def lower_char_def)

lemma digits_plain: "s \<noteq> [] \<Longrightarrow> list_all is_digit s \<Longrightarrow> lower_word s"
  by (auto simp: lower_word_def list_all_iff dest: digit_lower)

lemma parse_count_dec:
  assumes "1 \<le> n" "n \<le> 10000"
  shows "parse_count (dec n) = Some (int n)"
proof -
  obtain c r where c: "dec n = c # r" using dec_digits [of n] by (cases "dec n") auto
  with dec_digits [of n] have d: "list_all is_digit (c # r)" by simp
  then have "c \<noteq> CHR ''+''" using plus_not_digit [of "c # r"] by simp
  moreover have "digits_value (c # r) = n" using digits_value_dec [of n] c by simp
  ultimately show ?thesis using d assms unfolding c parse_count_def Let_def by simp
qed

lemma every_round:
  assumes "1 \<le> n" "n \<le> 10000" "u \<in> {CHR ''m'', CHR ''h''}"
  shows "parse_rule (''every '' @ dec n @ [u]) = Inr (REvery (int n * (if u = CHR ''m'' then 60 else 3600)))"
proof -
  have d: "dec n \<noteq> []" "list_all is_digit (dec n)" using dec_digits [of n] by simp_all
  have "lower_word [u]" "lower_word ''every''" using assms(3) by (auto simp: lower_word_def is_whitespace_def lower_char_def)
  then have "map (map lower_char) (split_whitespace (''every'' @ '' '' @ (dec n @ [u]))) = [''every'', dec n @ [u]]"
    using two_words lower_word_append digits_plain [OF d] by blast
  moreover have "code u < 128" using assms(3) by auto
  ultimately show ?thesis using parse_count_dec [OF assms(1,2)] assms(3) by (auto simp: parse_rule_def interval_def)
qed

lemma two_digits_form:
  assumes "n < 100"
  shows "length (two_digits n) = 2 \<and> list_all is_digit (two_digits n) \<and> digits_value (two_digits n) = n"
proof -
  have d: "list_all is_digit (dec n)" "digits_value (dec n) = n" using dec_digits [of n] digits_value_dec [of n] by simp_all
  show ?thesis
  proof (cases "n < 10")
    case True
    then have "length (dec n) = 1" by (simp add: dec.simps [of n])
    with d show ?thesis by (simp add: two_digits_def digits_value_def is_digit_def)
  next
    case False
    moreover have "n div 10 < 10" using assms by simp
    then have "length (dec (n div 10)) = 1" by (simp add: dec.simps [of "n div 10"])
    ultimately have "length (dec n) = 2" by (simp add: dec.simps [of n])
    with d show ?thesis by (simp add: two_digits_def)
  qed
qed

lemma clock_round:
  assumes "0 \<le> minute" "minute < 1440"
  shows "clock (two_digits (nat (minute div 60)) @ '':'' @ two_digits (nat (minute mod 60))) = Some minute"
proof -
  let ?h = "nat (minute div 60)" and ?m = "nat (minute mod 60)"
  have b: "?h < 24" "?m < 60" using assms by auto
  then have f: "length (two_digits ?h) = 2 \<and> list_all is_digit (two_digits ?h) \<and> digits_value (two_digits ?h) = ?h"
    "length (two_digits ?m) = 2 \<and> list_all is_digit (two_digits ?m) \<and> digits_value (two_digits ?m) = ?m"
    using two_digits_form [of ?h] two_digits_form [of ?m] by auto
  then have "CHR '':'' \<notin> set (two_digits ?h)" by (auto simp: list_all_iff is_digit_def)
  from split_once_char_append [OF this] have s: "split_once '':'' (two_digits ?h @ '':'' @ two_digits ?m) = Some (two_digits ?h, two_digits ?m)" by simp
  have "two_digits ?h \<noteq> []" "two_digits ?m \<noteq> []" using f by auto
  then have "digits_i64 (two_digits ?h) 2 = Some (int ?h)" "digits_i64 (two_digits ?m) 2 = Some (int ?m)" using f by (simp_all add: digits_i64_def)
  moreover have "int ?h * 60 + int ?m = minute" using assms(1) by (simp add: pos_imp_zdiv_nonneg_iff)
  ultimately show ?thesis using s b f by (simp add: clock_def)
qed

lemma split_join_commas: "\<forall>x \<in> set xs. CHR '','' \<notin> set x \<Longrightarrow> xs \<noteq> [] \<Longrightarrow> split_on (\<lambda>c. c = CHR '','') (join '','' xs) = xs"
proof (induction xs rule: induct_list012)
  case (2 x)
  then show ?case by (subst join.simps, subst split_on_none) auto
next
  case (3 x y zs)
  then have "split_on (\<lambda>c. c = CHR '','') (x @ CHR '','' # join '','' (y # zs)) = x # split_on (\<lambda>c. c = CHR '','') (join '','' (y # zs))"
    by (intro split_on_append) auto
  with 3 show ?case by simp
qed simp

lemma take_join: "length x = 3 \<Longrightarrow> take 3 (join '','' (x # xs)) = x"
  by (cases xs) auto

lemma set_join: "set (join '','' xs) \<subseteq> insert (CHR '','') (\<Union> (set ` set xs))"
  by (induction xs rule: induct_list012) auto

lemma mark_step:
  "position (\<lambda>d. d = n) DAYS = Some i \<Longrightarrow> \<not> days ! i \<Longrightarrow> i < length days \<Longrightarrow>
   mark_days (map fst (filter snd ((n, b) # xs))) days = mark_days (map fst (filter snd xs)) (days[i := b])"
  by (cases b) (simp_all, metis (full_types) list_update_id)

lemma positions:
  "position (\<lambda>d. d = ''mon'') DAYS = Some 0" "position (\<lambda>d. d = ''tue'') DAYS = Some 1" "position (\<lambda>d. d = ''wed'') DAYS = Some 2" "position (\<lambda>d. d = ''thu'') DAYS = Some 3"
  "position (\<lambda>d. d = ''fri'') DAYS = Some 4" "position (\<lambda>d. d = ''sat'') DAYS = Some 5" "position (\<lambda>d. d = ''sun'') DAYS = Some 6"
  by (simp_all add: DAYS_def)

lemma length_7:
  assumes "length xs = 7"
  obtains a b c d e f g where "xs = [a, b, c, d, e, f, g]"
  using assms by (auto simp: numeral_eq_Suc length_Suc_conv)

lemma mark_chosen:
  assumes "length ds = 7"
  shows "mark_days (map fst (filter snd (zip DAYS ds))) (replicate 7 False) = Some ds"
proof -
  obtain a b c d e f g where ds: "ds = [a, b, c, d, e, f, g]" using length_7 [OF assms] by blast
  have z: "zip DAYS ds = [(''mon'', a), (''tue'', b), (''wed'', c), (''thu'', d), (''fri'', e), (''sat'', f), (''sun'', g)]"
    by (simp add: DAYS_def ds)
  have r: "replicate 7 False = [False, False, False, False, False, False, False]" by (simp add: numeral_eq_Suc)
  note m = mark_step [OF positions(1)] mark_step [OF positions(2)] mark_step [OF positions(3)] mark_step [OF positions(4)]
    mark_step [OF positions(5)] mark_step [OF positions(6)] mark_step [OF positions(7)]
  show ?thesis unfolding z r by (simp add: m ds del: filter.simps(2) list.map(2))
qed

lemma chosen_names: "set (map fst (filter snd (zip DAYS ds))) \<subseteq> set DAYS"
  by (auto dest: set_zip_leftD)

lemma days_round:
  assumes "length ds = 7" "True \<in> set ds"
  shows "lower_word (days_text ds) \<and> days_text ds \<noteq> ''every'' \<and> named_days (days_text ds) = Some ds"
proof -
  consider "ds = replicate 7 True" | "ds = replicate 5 True @ replicate 2 False" | "ds = replicate 5 False @ replicate 2 True"
    | (list) "days_text ds = join '','' (map fst (filter snd (zip DAYS ds)))" unfolding days_text_def by presburger
  then show ?thesis
  proof cases
    case list
    let ?n = "map fst (filter snd (zip DAYS ds))"
    have "set DAYS \<noteq> {}" "length DAYS = 7" by (simp_all add: DAYS_def)
    then have ne: "?n \<noteq> []" using assms by (auto simp: filter_empty_conv in_set_conv_nth set_zip)
    then obtain x xs where x: "?n = x # xs" by (cases ?n) auto
    have D: "\<forall>d \<in> set DAYS. length d = 3 \<and> CHR '','' \<notin> set d \<and> (\<forall>c \<in> set d. \<not> is_whitespace c \<and> lower_char c = c)"
      by (simp add: DAYS_def is_whitespace_def lower_char_def)
    have xD: "x \<in> set DAYS" using chosen_names [of ds] x by auto
    then have "take 3 (days_text ds) = x" using D take_join list x by simp
    then have "take 3 (days_text ds) \<in> set DAYS" using xD by simp
    then have n: "days_text ds \<notin> {''every'', ''daily'', ''weekdays'', ''weekends''}" by (auto simp: DAYS_def)
    have "\<not> is_whitespace (CHR '','') \<and> lower_char (CHR '','') = CHR '',''" by (simp add: is_whitespace_def lower_char_def)
    then have "\<not> is_whitespace c \<and> lower_char c = c" if "c \<in> set (join '','' ?n)" for c
      using that set_join [of ?n] chosen_names [of ds] D by blast
    moreover have "join '','' ?n \<noteq> []" using take_join [of x xs] x xD D by fastforce
    ultimately have "lower_word (days_text ds)" unfolding lower_word_def list_all_iff list by blast
    moreover have "split_on (\<lambda>c. c = CHR '','') (join '','' ?n) = ?n" using D chosen_names [of ds] by (intro split_join_commas ne) blast
    then have "day_list (days_text ds) = Some ds" using mark_chosen [OF assms(1)] by (simp add: day_list_def list)
    ultimately show ?thesis using n by (simp add: named_days_def)
  qed (simp_all add: days_text_def named_days_def lower_word_def is_whitespace_def lower_char_def)
qed

lemma rule_text_round:
  assumes "rule_wf r"
  shows "parse_rule (rule_text r) = Inr r"
proof (cases r)
  case (REvery n)
  with assms obtain c where c: "1 \<le> c" "c \<le> 10000" "n = 60 * c \<or> n = 3600 * c" by (auto simp: rule_wf_def)
  show ?thesis
  proof (cases "n mod 3600 = 0")
    case True
    then have "1 \<le> n div 3600" "n div 3600 \<le> 10000" "n div 3600 * 3600 = n" using c by auto
    then show ?thesis using every_round [of "nat (n div 3600)" "CHR ''h''"] True REvery by (simp add: nat_le_iff)
  next
    case False
    with c(3) have "n div 60 = c" "n = 60 * c" by auto
    then show ?thesis using every_round [of "nat c" "CHR ''m''"] c(1,2) False REvery by (simp add: nat_le_iff)
  qed
next
  case (RAt ds minute)
  with assms have a: "length ds = 7" "True \<in> set ds" "0 \<le> minute" "minute < 1440" by (auto simp: rule_wf_def)
  note d = days_round [OF a(1,2)]
  let ?t = "two_digits (nat (minute div 60)) @ '':'' @ two_digits (nat (minute mod 60))"
  have f: "length (two_digits n) = 2" "list_all is_digit (two_digits n)" if "n < 100" for n using two_digits_form [OF that] by auto
  have "lower_word '':''" by (simp add: lower_word_def is_whitespace_def lower_char_def)
  moreover have "nat (minute div 60) < 100" "nat (minute mod 60) < 100" using a(4) by auto
  then have "lower_word (two_digits (nat (minute div 60)))" "lower_word (two_digits (nat (minute mod 60)))" using f by (intro digits_plain; force)+
  ultimately have "lower_word ?t" using lower_word_append by blast
  from two_words [OF _ this, of "days_text ds"] d clock_round [OF a(3,4)] show ?thesis unfolding RAt by (simp add: parse_rule_def)
qed

end
