(* ===== verification/Sched_Next.thy ===== *)
theory Sched_Next
  imports Sched_Text
begin

text \<open>
  When a rule is due next: always later than now, in any zone; in a zone whose offsets differ by at most a day, always on a
  chosen day at the rule's time; and where the offset is fixed, at the first time after now that the rule names.
\<close>

subsection \<open>Later than now\<close>

lemma every_step:
  fixes s n now :: rat
  assumes "0 < s" "n \<le> now"
  shows "now < n + of_int \<lfloor>(now - n) / s\<rfloor> * s + s" "n + of_int \<lfloor>(now - n) / s\<rfloor> * s \<le> now"
proof -
  let ?q = "(now - n) / s"
  have "of_int \<lfloor>?q\<rfloor> * s \<le> now - n" by (rule iffD1 [OF pos_le_divide_eq [OF assms(1)] of_int_floor_le])
  moreover have "?q < of_int \<lfloor>?q\<rfloor> + 1" by linarith
  then have "now - n < (of_int \<lfloor>?q\<rfloor> + 1) * s" by (rule iffD1 [OF pos_divide_less_eq [OF assms(1)]])
  ultimately show "now < n + of_int \<lfloor>?q\<rfloor> * s + s" "n + of_int \<lfloor>?q\<rfloor> * s \<le> now" by (simp_all add: algebra_simps)
qed

lemma rule_wf_every: "rule_wf (REvery secs) \<Longrightarrow> 0 < secs"
  by (auto simp: rule_wf_def)

lemma rule_next_later: "rule_wf r \<Longrightarrow> now < rule_next zone due now r"
proof (induction zone due now r rule: rule_next.induct)
  case (1 zone due now secs)
  then have "(0::rat) < of_int secs" using rule_wf_every by simp
  with every_step(1) [OF this, of "due + of_int secs" now] show ?case by (simp add: Let_def)
next
  case (2 zone due now days minute)
  show ?case by (auto simp: Let_def DAY_def find_Some_iff split: option.split)
qed

subsection \<open>On a chosen day\<close>

lemma first_of_two: "(case filter P [x, y] of [] \<Rightarrow> x | t # ts \<Rightarrow> foldl min t ts) \<in> {x, y :: int}"
  by (cases "P x"; cases "P y") (simp_all add: min_def)

lemma wall_resolve_offset: "\<exists>u. wall_resolve zone day minute = day * DAY + minute * 60 - zone u"
  using first_of_two [where P = "\<lambda>t. t + zone t = day * DAY + minute * 60"] unfolding wall_resolve_def Let_def by blast

lemma weekday_hits:
  assumes "i < 7"
  shows "\<exists>day. a \<le> day \<and> day < a + 7 \<and> weekday day = i"
proof -
  let ?day = "a + (int i - (a + 3)) mod 7"
  have "?day + 3 = (a + 3) + (int i - (a + 3)) mod 7" by simp
  then have "(?day + 3) mod 7 = (a + 3 + (int i - (a + 3))) mod 7" by (simp only: mod_add_right_eq)
  then have "weekday ?day = i" using assms by (simp add: weekday_def)
  moreover have "a \<le> ?day \<and> ?day < a + 7" by simp
  ultimately show ?thesis by blast
qed

lemma find_in: "List.find P xs = Some x \<Longrightarrow> x \<in> set xs \<and> P x"
  by (induction xs) (auto split: if_splits)

lemma at_found:
  assumes wf: "rule_wf (RAt days minute)" and near: "\<And>u v. zone u - zone v \<le> DAY"
  obtains t where "rule_next zone due now (RAt days minute) = t"
    and "List.find (\<lambda>t. t > now) (map (\<lambda>day. of_int (wall_resolve zone day minute)) (filter (\<lambda>day. days ! weekday day)
           [(\<lfloor>now\<rfloor> + zone \<lfloor>now\<rfloor>) div DAY - 1 .. (\<lfloor>now\<rfloor> + zone \<lfloor>now\<rfloor>) div DAY + 8])) = Some t"
proof -
  let ?t = "\<lfloor>now\<rfloor>" and ?f = "\<lambda>day. of_int (wall_resolve zone day minute) :: rat"
  let ?today = "(?t + zone ?t) div DAY"
  let ?days = "filter (\<lambda>day. days ! weekday day) [?today - 1 .. ?today + 8]"
  obtain i where i: "i < 7" "days ! i" using wf by (auto simp: rule_wf_def in_set_conv_nth)
  obtain day where d: "?today + 2 \<le> day" "day < ?today + 2 + 7" "weekday day = i" using weekday_hits [OF i(1)] by blast
  obtain u where u: "wall_resolve zone day minute = day * DAY + minute * 60 - zone u" using wall_resolve_offset by blast
  have "?t + zone ?t < (?today + 1) * DAY" using div_mult_mod_eq [of "?t + zone ?t" DAY] by (simp add: DAY_def algebra_simps pos_mod_bound)
  moreover have "(?today + 2) * DAY \<le> day * DAY" using d(1) by (simp add: DAY_def)
  moreover have "0 \<le> minute" using wf by (simp add: rule_wf_def)
  ultimately have "?t + 1 \<le> wall_resolve zone day minute" using near [of u ?t] unfolding u by (simp add: algebra_simps)
  then have "now < ?f day" by linarith
  moreover have "day \<in> set ?days" using d i by auto
  ultimately obtain t where t: "List.find (\<lambda>t. t > now) (map ?f ?days) = Some t"
    by (cases "List.find (\<lambda>t. t > now) (map ?f ?days)") (auto simp: find_None_iff)
  with that show ?thesis by (simp add: Let_def)
qed

lemma at_lands:
  assumes "rule_wf (RAt days minute)" "\<And>u v. zone u - zone v \<le> DAY"
  shows "\<exists>day. days ! weekday day \<and> rule_next zone due now (RAt days minute) = of_int (wall_resolve zone day minute)"
proof -
  obtain t where t: "rule_next zone due now (RAt days minute) = t"
    and f: "List.find (\<lambda>t. t > now) (map (\<lambda>day. of_int (wall_resolve zone day minute)) (filter (\<lambda>day. days ! weekday day)
           [(\<lfloor>now\<rfloor> + zone \<lfloor>now\<rfloor>) div DAY - 1 .. (\<lfloor>now\<rfloor> + zone \<lfloor>now\<rfloor>) div DAY + 8])) = Some t"
    by (rule at_found [OF assms])
  from find_in [OF f] t show ?thesis by auto
qed

subsection \<open>The first time the rule names\<close>

fun rule_names :: "int \<Rightarrow> rat \<Rightarrow> sched_rule \<Rightarrow> rat \<Rightarrow> bool" where
  "rule_names off due (REvery secs) t \<longleftrightarrow> (\<exists>k \<ge> 1. t = due + of_int (k * secs))"
| "rule_names off due (RAt days minute) t \<longleftrightarrow> (\<exists>day. days ! weekday day \<and> t = of_int (day * DAY + minute * 60 - off))"

lemma wall_resolve_fixed: "wall_resolve (\<lambda>_. off) day minute = day * DAY + minute * 60 - off"
  by (simp add: wall_resolve_def Let_def)

lemma find_sorted: "sorted xs \<Longrightarrow> List.find P xs = Some x \<Longrightarrow> y \<in> set xs \<Longrightarrow> P y \<Longrightarrow> x \<le> y"
  by (induction xs) (auto split: if_splits)

lemma every_names:
  assumes "0 < secs"
  shows "rule_names off due (REvery secs) (rule_next zone due now (REvery secs))"
proof (cases "due + of_int secs > now")
  case True
  then show ?thesis by (auto simp: Let_def intro!: exI [of _ 1])
next
  case False
  let ?q = "\<lfloor>(now - (due + of_int secs)) / of_int secs\<rfloor>"
  have "0 \<le> ?q" using False assms by simp
  with False show ?thesis by (auto simp: Let_def algebra_simps intro!: exI [of _ "?q + 2"])
qed

lemma every_least:
  assumes s: "0 < secs" and u: "rule_names off due (REvery secs) u" "now < u"
  shows "rule_next zone due now (REvery secs) \<le> u"
proof -
  let ?s = "of_int secs :: rat" and ?q = "\<lfloor>(now - (due + of_int secs)) / of_int secs\<rfloor>"
  have s': "0 < ?s" using s by simp
  obtain k where k: "k \<ge> 1" "u = due + of_int k * ?s" using u(1) by auto
  show ?thesis
  proof (cases "due + ?s > now")
    case True
    have "1 * ?s \<le> of_int k * ?s" using s k(1) by (intro mult_right_mono) simp_all
    with True k show ?thesis by (simp add: Let_def)
  next
    case False
    let ?t = "due + ?s + of_int ?q * ?s"
    have n: "rule_next zone due now (REvery secs) = ?t + ?s" using False by (simp add: Let_def)
    have t: "?t \<le> now" using every_step(2) [OF s'] False by simp
    have "of_int (?q + 1) * ?s < of_int k * ?s" using t u(2) unfolding k(2) by (simp add: algebra_simps)
    then have "?q + 2 \<le> k" using s' by (simp only: mult_less_cancel_right_pos of_int_less_iff)
    then have "of_int (?q + 2) * ?s \<le> of_int k * ?s" using s' by (intro mult_right_mono) simp_all
    then show ?thesis unfolding n k(2) by (simp add: algebra_simps)
  qed
qed

lemma at_least:
  assumes wf: "rule_wf (RAt days minute)" and u: "rule_names off due (RAt days minute) u" "now < u"
  shows "rule_next (\<lambda>_. off) due now (RAt days minute) \<le> u"
proof -
  let ?f = "\<lambda>day. of_int (day * DAY + minute * 60 - off) :: rat" and ?today = "(\<lfloor>now\<rfloor> + off) div DAY"
  let ?days = "filter (\<lambda>day. days ! weekday day) [?today - 1 .. ?today + 8]"
  obtain day where d: "days ! weekday day" "u = ?f day" using u(1) by auto
  have b: "0 \<le> minute" "minute < 1440" using wf by (simp_all add: rule_wf_def)
  have f: "?f x \<le> ?f y" if "x \<le> y" for x y using that by (simp add: DAY_def)
  have "?today * DAY \<le> \<lfloor>now\<rfloor> + off" by (simp add: DAY_def) 
  moreover have "\<lfloor>now\<rfloor> < day * DAY + minute * 60 - off" using u(2) unfolding d(2) by linarith
  ultimately have "?today * DAY < (day + 1) * DAY" using b(2) by (simp add: DAY_def algebra_simps)
  then have today: "?today \<le> day" by (simp add: DAY_def)
  obtain t where t: "rule_next (\<lambda>_. off) due now (RAt days minute) = t" "List.find (\<lambda>t. t > now) (map ?f ?days) = Some t"
    using at_found [OF wf, of "\<lambda>_. off"] by (auto simp: wall_resolve_fixed DAY_def)
  show ?thesis
  proof (cases "day \<le> ?today + 8")
    case True
    then have "u \<in> set (map ?f ?days)" using today d by auto
    moreover have "sorted (map ?f ?days)" by (auto simp: sorted_wrt_map DAY_def intro!: sorted_wrt_filter intro: sorted_wrt_mono_rel [OF _ sorted_upto])
    ultimately show ?thesis using find_sorted [OF _ t(2)] u(2) t(1) by simp
  next
    case False
    from find_in [OF t(2)] obtain x where "t = ?f x" "x \<le> ?today + 8" by auto
    with False f [of x day] show ?thesis using t(1) d(2) by simp
  qed
qed

lemma fixed_names:
  assumes "rule_wf (RAt days minute)"
  shows "rule_names off due (RAt days minute) (rule_next (\<lambda>_. off) due now (RAt days minute))"
  using at_lands [OF assms, of "\<lambda>_. off"] by (auto simp: wall_resolve_fixed DAY_def)

text \<open>
  C32. Where the offset from UTC does not change, whatever rule a text is read as, the next time it is due is later than now,
  is one the rule names (\<open>every\<close>: the last due time plus a positive number of intervals; otherwise: the rule's minute of a
  day that is one of its weekdays) and is the first of those.
\<close>

theorem rule_next_first:
  assumes "parse_rule text = Inr r"
  shows "now < rule_next (\<lambda>_. off) due now r \<and> rule_names off due r (rule_next (\<lambda>_. off) due now r) \<and>
    (\<forall>u. rule_names off due r u \<and> now < u \<longrightarrow> rule_next (\<lambda>_. off) due now r \<le> u)"
proof -
  have wf: "rule_wf r" by (rule parse_rule_wf [OF assms])
  then have "rule_names off due r (rule_next (\<lambda>_. off) due now r)"
    by (cases r) (simp_all only: every_names rule_wf_every fixed_names)
  moreover have "rule_next (\<lambda>_. off) due now r \<le> u" if "rule_names off due r u" "now < u" for u
    using wf that by (cases r) (blast intro: at_least every_least rule_wf_every)+
  ultimately show ?thesis using rule_next_later [OF wf] by blast
qed

theorem rule_next_first_witness:
  "parse_rule ''mon,thu 10:30'' = Inr (RAt [True, False, False, True, False, False, False] 630) \<and>
   rule_names 7200 0 (RAt [True, False, False, True, False, False, False] 630) 30600 \<and>
   rule_next (\<lambda>_. 7200) 0 0 (RAt [True, False, False, True, False, False, False] 630) \<le> 30600"
proof -
  let ?r = "RAt [True, False, False, True, False, False, False] 630"
  have p: "parse_rule ''mon,thu 10:30'' = Inr ?r" by code_simp
  have "[True, False, False, True, False, False, False] ! weekday 0" by code_simp
  then have n: "rule_names 7200 0 ?r 30600" by (auto simp: DAY_def intro!: exI [of _ 0])
  show ?thesis using p n rule_next_first [OF p, of 0 7200 0] by simp
qed

text \<open>
  C33. What a text is read as is written so that it is read back as the same rule: \<open>add\<close> stores the text it writes, and the
  rule that \<open>fire\<close> reads from the database is the one that was asked for.
\<close>

theorem rule_text_read_back:
  assumes "parse_rule text = Inr r"
  shows "parse_rule (rule_text r) = Inr r"
  by (rule rule_text_round [OF parse_rule_wf [OF assms]])

theorem rule_text_read_back_witness:
  "parse_rule ''  Every 120m'' = Inr (REvery 7200) \<and> rule_text (REvery 7200) = ''every 2h'' \<and> parse_rule ''every 2h'' = Inr (REvery 7200)"
proof -
  have p: "parse_rule ''  Every 120m'' = Inr (REvery 7200)" by code_simp
  moreover have t: "rule_text (REvery 7200) = ''every 2h''" by code_simp
  ultimately show ?thesis using rule_text_read_back [OF p] by simp
qed

end
