(* ===== verification/Sched_Sound.thy ===== *)
theory Sched_Sound
  imports Sched_Serve Sched_Next
begin

text \<open>
  What holds of the schedules in every state the daemon can reach, with a database that may fail at any statement: row ids in
  order, one schedule per name and repo, rules that can be read, planner schedules with a repo, at most twenty firings each, and
  a cache that is the table.
\<close>

subsection \<open>Row ids\<close>

abbreviation id_order :: "nat list \<Rightarrow> bool" where
  "id_order \<equiv> sorted_wrt (<)"

lemma row_id_above: "i \<in> set ids \<Longrightarrow> i < row_id ids"
  unfolding row_id_def by (induction ids) auto

lemma id_order_next: "id_order ids \<Longrightarrow> id_order (ids @ [row_id ids])"
  by (simp add: sorted_wrt_append row_id_above)

lemma id_order_distinct: "id_order ids \<Longrightarrow> distinct ids"
  by (simp add: strict_sorted_iff)

lemma id_order_filter: "id_order (map f xs) \<Longrightarrow> id_order (map f (filter P xs))"
  by (auto simp: sorted_wrt_map intro: sorted_wrt_filter)

subsection \<open>The tables\<close>

definition row_ok :: "schedule \<Rightarrow> bool" where
  "row_ok sc \<longleftrightarrow> (\<exists>r. parse_rule (s_rule sc) = Inr r) \<and> (s_target sc = PLANNER \<longrightarrow> s_repo sc \<noteq> None) \<and>
     (\<forall>n. s_name sc = Some n \<longrightarrow> id_of n = None)"

definition names_once :: "schedule list \<Rightarrow> bool" where
  "names_once ss = sorted_wrt (\<lambda>x y. s_name x = None \<or> s_name x \<noteq> s_name y \<or> repo_key (s_repo x) \<noteq> repo_key (s_repo y)) ss"

definition db_inv :: "sched_db \<Rightarrow> bool" where
  "db_inv d \<longleftrightarrow> id_order (map s_id (d_schedules d)) \<and> id_order (map f_id (d_firings d)) \<and> id_order (map m_id (d_messages d)) \<and>
     names_once (d_schedules d) \<and> (\<forall>sc \<in> set (d_schedules d). row_ok sc \<and> set_option (s_message sc) \<subseteq> m_id ` set (d_messages d)) \<and>
     (\<forall>f \<in> set (d_firings d). f_schedule f \<in> s_id ` set (d_schedules d) \<and> set_option (f_message f) \<subseteq> m_id ` set (d_messages d)) \<and>
     (\<forall>i. length (filter (\<lambda>f. f_schedule f = i) (d_firings d)) \<le> FIRINGS_KEPT)"

text \<open>A row keeps what \<open>row_ok\<close> and the unique index look at.\<close>

definition same_row :: "schedule \<Rightarrow> schedule \<Rightarrow> bool" where
  "same_row x y \<longleftrightarrow> s_id x = s_id y \<and> s_repo x = s_repo y \<and> s_name x = s_name y \<and> s_target x = s_target y \<and> s_rule x = s_rule y"

lemma same_row_ok: "same_row x y \<Longrightarrow> row_ok x = row_ok y"
  by (simp add: same_row_def row_ok_def)

lemma same_rows:
  assumes "\<And>x. same_row (f x) x"
  shows "map s_id (map f ss) = map s_id ss" "names_once (map f ss) = names_once ss" "s_id ` f ` set ss = s_id ` set ss"
  using assms by (auto simp: same_row_def names_once_def sorted_wrt_map image_image)

lemma rows_inv:
  assumes "db_inv d" and f: "\<And>x. same_row (f x) x" and m: "\<And>x. x \<in> set (d_schedules d) \<Longrightarrow> set_option (s_message (f x)) \<subseteq> m_id ` set (d_messages d)"
  shows "db_inv (d\<lparr>d_schedules := map f (d_schedules d)\<rparr>)"
proof -
  note rows = same_rows [of f "d_schedules d", OF f] same_row_ok [OF f]
  show ?thesis using assms(1) m unfolding db_inv_def by (simp add: rows del: map_map)
qed

lemma firings_inv:
  assumes "db_inv d" "id_order (map f_id fs)"
    and "\<forall>f \<in> set fs. f_schedule f \<in> s_id ` set (d_schedules d) \<and> set_option (f_message f) \<subseteq> m_id ` set (d_messages d)"
    and "\<forall>i. length (filter (\<lambda>f. f_schedule f = i) fs) \<le> FIRINGS_KEPT"
  shows "db_inv (d\<lparr>d_firings := fs\<rparr>)"
  using assms unfolding db_inv_def by simp

lemma paused_inv: "db_inv d \<Longrightarrow> db_inv (schedule_paused i p d)"
  unfolding schedule_paused_def by (rule rows_inv) (auto simp: same_row_def db_inv_def)

lemma names_once_append:
  "names_once ss \<Longrightarrow> \<not> name_taken (s_repo sc) (s_name sc) ss \<Longrightarrow> names_once (ss @ [sc])"
  by (auto simp: names_once_def sorted_wrt_append name_taken_def list_ex_iff)

lemma insert_inv:
  assumes "db_inv d" "insert_schedule sc d = Inr (d', i)" "row_ok sc" "s_message sc = None"
  shows "db_inv d'"
proof -
  have taken: "\<not> name_taken (s_repo sc) (s_name sc) (d_schedules d)"
    and d': "d' = d\<lparr>d_schedules := d_schedules d @ [sc\<lparr>s_id := row_id (map s_id (d_schedules d))\<rparr>]\<rparr>"
    using assms(2) by (auto simp: insert_schedule_def Let_def split: if_splits)
  have "row_ok (sc\<lparr>s_id := j\<rparr>)" for j using assms(3) by (simp add: row_ok_def)
  moreover have "names_once (d_schedules d @ [sc\<lparr>s_id := j\<rparr>])" for j
    using assms(1) taken names_once_append [of "d_schedules d" "sc\<lparr>s_id := j\<rparr>"] by (simp add: db_inv_def)
  ultimately show ?thesis using assms(1,4) id_order_next [of "map s_id (d_schedules d)"] unfolding db_inv_def d' by auto
qed

lemma remove_inv: "db_inv d \<Longrightarrow> db_inv (remove_schedule i d)"
proof -
  assume d: "db_inv d"
  have "length (filter (\<lambda>f. f_schedule f = j) (filter (\<lambda>f. f_schedule f \<noteq> i) fs)) \<le> length (filter (\<lambda>f. f_schedule f = j) fs)" for j fs
    by (induction fs) auto
  moreover have "length (filter (\<lambda>f. f_schedule f = j) (d_firings d)) \<le> FIRINGS_KEPT" for j using d by (simp add: db_inv_def)
  ultimately have "\<forall>j. length (filter (\<lambda>f. f_schedule f = j) (filter (\<lambda>f. f_schedule f \<noteq> i) (d_firings d))) \<le> FIRINGS_KEPT"
    by (blast intro: order_trans)
  then show ?thesis using d by (auto simp: db_inv_def remove_schedule_def id_order_filter names_once_def sorted_wrt_filter)
qed

lemma keep_bounds:
  assumes "id_order (map f_id fs)"
  shows "length (filter (\<lambda>f. f_schedule f = i) (keep_firings i fs)) \<le> FIRINGS_KEPT"
proof -
  let ?new = "take FIRINGS_KEPT (rev (map f_id (filter (\<lambda>f. f_schedule f = i) fs)))"
  let ?ks = "filter (\<lambda>f. f_schedule f = i) (keep_firings i fs)"
  have "id_order (map f_id ?ks)" using assms by (simp add: keep_firings_def Let_def id_order_filter)
  then have "length ?ks = card (set (map f_id ?ks))" by (metis distinct_card id_order_distinct length_map)
  also have "\<dots> \<le> card (set ?new)" by (rule card_mono) (auto simp: keep_firings_def Let_def)
  also have "\<dots> \<le> FIRINGS_KEPT" by (rule order_trans [OF card_length]) simp
  finally show ?thesis .
qed

lemma keep_others: "j \<noteq> i \<Longrightarrow> filter (\<lambda>f. f_schedule f = j) (keep_firings i fs) = filter (\<lambda>f. f_schedule f = j) fs"
  by (induction fs) (auto simp: keep_firings_def Let_def filter_eq_Cons_iff intro: filter_cong)

lemma fired_inv:
  assumes "db_inv d" "schedule_fired i t how left next d = Inr d'"
  shows "db_inv d'"
proof -
  define row where "row = new_firing (map f_id (d_firings d)) i t how left"
  define message where "message = f_message row"
  let ?f = "fired_row i next message"
  have row: "f_id row = row_id (map f_id (d_firings d))" "f_schedule row = i"
    by (cases left; simp add: row_def new_firing_def)+
  have d': "d' = d\<lparr>d_schedules := map ?f (d_schedules d), d_firings := keep_firings i (d_firings d @ [row])\<rparr>"
    and i: "i \<in> s_id ` set (d_schedules d)" and m: "set_option message \<subseteq> m_id ` set (d_messages d)"
    using assms(2) unfolding schedule_fired_def row_def [symmetric] message_def [symmetric] Let_def
    by (auto simp: list_ex_iff simp del: Bex_set split: if_splits)
  have f: "\<And>x. same_row (?f x) x" by (simp add: same_row_def fired_row_def)
  have fs: "id_order (map f_id (d_firings d @ [row]))" using assms(1) id_order_next [of "map f_id (d_firings d)"] row(1) by (simp add: db_inv_def)
  have "length (filter (\<lambda>f. f_schedule f = j) (keep_firings i (d_firings d @ [row]))) \<le> FIRINGS_KEPT" for j
    using keep_bounds [OF fs] keep_others [of j i "d_firings d @ [row]"] assms(1) row(2) by (cases "j = i") (auto simp: db_inv_def)
  moreover have "id_order (map f_id (keep_firings i (d_firings d @ [row])))" using fs by (simp only: keep_firings_def Let_def id_order_filter)
  moreover have "set (keep_firings i (d_firings d @ [row])) \<subseteq> insert row (set (d_firings d))" by (auto simp: keep_firings_def Let_def)
  then have "\<forall>f \<in> set (keep_firings i (d_firings d @ [row])). f_schedule f \<in> s_id ` set (d_schedules d) \<and> set_option (f_message f) \<subseteq> m_id ` set (d_messages d)"
    using assms(1) row(2) i m message_def unfolding db_inv_def by blast
  moreover have m': "set_option (s_message (?f x)) \<subseteq> set_option (s_message x) \<union> set_option message" for x by (auto simp: fired_row_def split: option.splits)
  have "db_inv (d\<lparr>d_schedules := map ?f (d_schedules d)\<rparr>)"
  proof (rule rows_inv [OF assms(1) f])
    fix x
    assume "x \<in> set (d_schedules d)"
    then show "set_option (s_message (?f x)) \<subseteq> m_id ` set (d_messages d)" using assms(1) m m' [of x] unfolding db_inv_def by blast
  qed
  ultimately show ?thesis unfolding d'
    using firings_inv [of "d\<lparr>d_schedules := map ?f (d_schedules d)\<rparr>" "keep_firings i (d_firings d @ [row])"] same_rows(3) [of ?f "d_schedules d", OF f] by simp
qed

lemma same_firings:
  assumes "\<And>x. f_id (g x) = f_id x \<and> f_schedule (g x) = f_schedule x \<and> f_message (g x) = f_message x"
  shows "db_inv (d\<lparr>d_firings := map g (d_firings d)\<rparr>) = db_inv d"
  using assms unfolding db_inv_def by (simp add: filter_map comp_def)

lemma reply_inv: "db_inv d \<Longrightarrow> db_inv (firing_reply i text t d)"
  unfolding firing_reply_def by (subst same_firings) simp_all

lemma put_inv: "db_inv d \<Longrightarrow> put_message rc rp sn tx md cm t d = (d', m) \<Longrightarrow> db_inv d'"
  using id_order_next [of "map m_id (d_messages d)"] by (auto simp: put_message_def Let_def db_inv_def) blast+

lemma mark_ids: "map m_id (d_messages (mark_delivered ids t d)) = map m_id (d_messages d)"
  by (simp add: mark_delivered_def)

lemma mark_inv: "db_inv d \<Longrightarrow> db_inv (mark_delivered ids t d)"
  unfolding db_inv_def set_map [symmetric] mark_ids by (simp add: mark_delivered_def)

lemma seed_once_inv:
  assumes "db_inv d" "seed_once key sc d = Inr (d', b)" "row_ok sc" "s_message sc = None"
  shows "db_inv d'"
proof -
  have "db_inv (d\<lparr>d_meta := ms\<rparr>)" for ms using assms(1) by (simp add: db_inv_def)
  with assms show ?thesis by (auto simp: seed_once_def Let_def dest: insert_inv split: if_splits sum.splits)
qed


text \<open>
  Every request, firing, delivery and restart is a sequence of small steps, each of which changes one table and leaves the
  cache empty or equal to the table. What holds of all reachable states is shown once, of those steps.
\<close>

subsection \<open>Steps\<close>

abbreviation called :: "scheds \<Rightarrow> scheds" where
  "called s \<equiv> s\<lparr>sc_calls := Suc (sc_calls s)\<rparr>"

text \<open>
  \<open>fresh_left\<close>: a firing that left a message left a new one, and the schedule's message before it was not waiting.
\<close>

definition fresh_left :: "schedule \<Rightarrow> left \<Rightarrow> scheds \<Rightarrow> bool" where
  "fresh_left sc left s \<longleftrightarrow> (\<forall>m. left = Left_Message m \<longrightarrow>
     \<not> sched_waiting sc s \<and> m \<in> m_id ` set (d_messages (sc_db s)) \<and> (\<forall>f \<in> set (d_firings (sc_db s)). f_message f \<noteq> Some m))"

inductive atom :: "sched_env \<Rightarrow> scheds \<Rightarrow> scheds \<Rightarrow> bool" for env where
  a_call: "atom env s (called s)"
| a_cache: "atom env s (s\<lparr>sc_known := Some (d_schedules (sc_db s))\<rparr>)"
| a_forget: "atom env s (s\<lparr>sc_known := None, sc_changes := n\<rparr>)"
| a_skew: "atom env s (s\<lparr>sc_skew := x\<rparr>)"
| a_add: "insert_schedule sc (sc_db s) = Inr (d, i) \<Longrightarrow> row_ok sc \<Longrightarrow> s_message sc = None \<Longrightarrow>
    atom env s (s\<lparr>sc_calls := Suc (sc_calls s), sc_db := d, sc_known := None\<rparr>)"
| a_remove: "atom env s (s\<lparr>sc_calls := Suc (sc_calls s), sc_db := remove_schedule i (sc_db s), sc_known := None\<rparr>)"
| a_pause: "atom env s (s\<lparr>sc_calls := Suc (sc_calls s), sc_db := schedule_paused i p (sc_db s), sc_known := None\<rparr>)"
| a_reply: "atom env s (s\<lparr>sc_calls := Suc (sc_calls s), sc_db := firing_reply i text t (sc_db s), sc_known := None\<rparr>)"
| a_meta: "atom env s (s\<lparr>sc_db := (sc_db s)\<lparr>d_meta := ms\<rparr>\<rparr>)"
| a_post: "put_message rc rp sn tx md cm t (sc_db s) = (d, m) \<Longrightarrow>
    atom env s (s\<lparr>sc_calls := Suc (sc_calls s), sc_db := d, sc_waiting := sc_waiting s @ [m]\<rparr>)"
| a_fired: "sc \<in> set (d_schedules (sc_db s)) \<Longrightarrow> fresh_left sc left s \<Longrightarrow> schedule_fired (s_id sc) t how left next (sc_db s) = Inr d \<Longrightarrow>
    atom env s (s\<lparr>sc_calls := Suc (sc_calls s), sc_db := d, sc_known := None\<rparr>)"
| a_took: "atom env s (s\<lparr>sc_calls := Suc (sc_calls s), sc_db := mark_delivered ids t (sc_db s), sc_waiting := filter (\<lambda>m. m_id m \<notin> set ids) (sc_waiting s)\<rparr>)"
| a_lost: "se_fail env n \<noteq> None \<Longrightarrow> set ws \<subseteq> set (sc_waiting s) \<Longrightarrow> atom env s (s\<lparr>sc_waiting := ws\<rparr>)"
| a_wait: "atom env s (s\<lparr>sc_waiting := waiting_messages (sc_db s)\<rparr>)"

abbreviation atoms :: "sched_env \<Rightarrow> scheds \<Rightarrow> scheds \<Rightarrow> bool" where
  "atoms env \<equiv> (atom env)\<^sup>*\<^sup>*"

subsection \<open>What the steps keep\<close>

definition cache_ok :: "scheds \<Rightarrow> bool" where
  "cache_ok s \<longleftrightarrow> (\<forall>known. sc_known s = Some known \<longrightarrow> known = d_schedules (sc_db s))"

definition sched_inv :: "scheds \<Rightarrow> bool" where
  "sched_inv s \<longleftrightarrow> db_inv (sc_db s) \<and> cache_ok s \<and> m_id ` set (sc_waiting s) \<subseteq> m_id ` set (d_messages (sc_db s))"

lemma inserted_messages: "insert_schedule sc d = Inr (d', i) \<Longrightarrow> d_messages d' = d_messages d \<and> d_firings d' = d_firings d"
  by (auto simp: insert_schedule_def Let_def split: if_splits)

lemma fired_messages: "schedule_fired i t how left next d = Inr d' \<Longrightarrow> d_messages d' = d_messages d"
  by (auto simp: schedule_fired_def Let_def split: if_splits)

lemma put_rows:
  "put_message rc rp sn tx md cm t d = (d', m) \<Longrightarrow>
   d_schedules d' = d_schedules d \<and> d_firings d' = d_firings d \<and> d_messages d' = d_messages d @ [m] \<and> m_id m = row_id (map m_id (d_messages d)) \<and> m_delivered m = None"
  by (auto simp: put_message_def Let_def)

lemma meta_inv: "db_inv (d\<lparr>d_meta := ms\<rparr>) = db_inv d"
  by (simp add: db_inv_def)

lemma atom_inv: "atom env s s' \<Longrightarrow> sched_inv s \<Longrightarrow> sched_inv s'"
proof (induction rule: atom.induct)
  case (a_add sc s d i)
  then show ?case using inserted_messages [OF a_add(1)] insert_inv [OF _ a_add(1-3)] by (simp add: sched_inv_def cache_ok_def)
next
  case (a_post rc rp sn tx md cm t s d m)
  then show ?case using put_inv [OF _ a_post(1)] put_rows [OF a_post(1)] by (auto simp: sched_inv_def cache_ok_def)
next
  case (a_fired sc s left t how "next" d)
  then show ?case using fired_inv [OF _ a_fired(3)] fired_messages [OF a_fired(3)] by (simp add: sched_inv_def cache_ok_def)
next
  case (a_took s ids t)
  have "m_id ` set (d_messages (mark_delivered ids t (sc_db s))) = m_id ` set (d_messages (sc_db s))" by (metis mark_ids set_map)
  with a_took show ?case using mark_inv [of "sc_db s" ids t] unfolding sched_inv_def cache_ok_def by (auto simp: mark_delivered_def)
next
  case (a_lost n ws s)
  then have "m_id ` set ws \<subseteq> m_id ` set (sc_waiting s)" by blast
  also have "\<dots> \<subseteq> m_id ` set (d_messages (sc_db s))" using a_lost(3) by (simp add: sched_inv_def)
  finally show ?case using a_lost(3) by (simp add: sched_inv_def cache_ok_def)
next
  case (a_remove s i)
  then show ?case using remove_inv by (simp add: sched_inv_def cache_ok_def remove_schedule_def)
next
  case (a_reply s i tx t)
  then show ?case using reply_inv by (simp add: sched_inv_def cache_ok_def firing_reply_def)
next
  case (a_pause s i p)
  then show ?case using paused_inv by (simp add: sched_inv_def cache_ok_def schedule_paused_def)
qed (auto simp: sched_inv_def cache_ok_def meta_inv waiting_messages_def)

lemma atoms_inv: "atoms env s s' \<Longrightarrow> sched_inv s \<Longrightarrow> sched_inv s'"
  by (induction rule: rtranclp_induct) (auto intro: atom_inv)

subsection \<open>One message of a schedule waits\<close>

text \<open>
  A firing whose message still waits left the last message of its schedule, and no message is the message of two firings. What
  waits is what the database has not seen delivered.
\<close>

definition once_inv :: "scheds \<Rightarrow> bool" where
  "once_inv s \<longleftrightarrow>
     (\<forall>f \<in> set (d_firings (sc_db s)). \<forall>m. f_message f = Some m \<and> mail_waiting m s \<longrightarrow>
        (\<exists>sc \<in> set (d_schedules (sc_db s)). s_id sc = f_schedule f \<and> s_message sc = Some m)) \<and>
     sorted_wrt (\<lambda>f g. f_message f = None \<or> f_message f \<noteq> f_message g) (d_firings (sc_db s)) \<and>
     (\<forall>m. mail_waiting m s \<longleftrightarrow> (\<exists>x \<in> set (d_messages (sc_db s)). m_id x = m \<and> m_delivered x = None))"

lemma once_waits:
  "once_inv s \<Longrightarrow> f \<in> set (d_firings (sc_db s)) \<Longrightarrow> f_message f = Some m \<Longrightarrow> mail_waiting m s \<Longrightarrow>
   \<exists>sc \<in> set (d_schedules (sc_db s)). s_id sc = f_schedule f \<and> s_message sc = Some m"
  unfolding once_inv_def by blast

lemma once_frame:
  assumes "once_inv s" "d_firings (sc_db s') = d_firings (sc_db s)" "d_schedules (sc_db s') = d_schedules (sc_db s)"
    "d_messages (sc_db s') = d_messages (sc_db s)" "sc_waiting s' = sc_waiting s"
  shows "once_inv s'"
  using assms by (simp add: once_inv_def mail_waiting_def)

lemma once_rows:
  assumes "once_inv s" "d_firings d = d_firings (sc_db s)" "d_messages d = d_messages (sc_db s)"
    and "\<And>sc. sc \<in> set (d_schedules (sc_db s)) \<Longrightarrow> \<exists>x \<in> set (d_schedules d). s_id x = s_id sc \<and> s_message x = s_message sc"
  shows "once_inv (s\<lparr>sc_calls := n, sc_db := d, sc_known := k\<rparr>)"
proof -
  have "\<exists>x \<in> set (d_schedules d). s_id x = f_schedule f \<and> s_message x = Some m"
    if "f \<in> set (d_firings d)" "f_message f = Some m" "mail_waiting m s" for f m
    using that assms(1,2,4) unfolding once_inv_def by metis
  then show ?thesis using assms(1-3) by (auto simp: once_inv_def mail_waiting_def)
qed

lemma once_mail:
  assumes "once_inv s" "d_schedules (sc_db s') = d_schedules (sc_db s)" "d_firings (sc_db s') = d_firings (sc_db s)"
    and "\<And>f m. f \<in> set (d_firings (sc_db s)) \<Longrightarrow> f_message f = Some m \<Longrightarrow> mail_waiting m s' \<Longrightarrow> mail_waiting m s"
    and "\<And>m. mail_waiting m s' \<longleftrightarrow> (\<exists>x \<in> set (d_messages (sc_db s')). m_id x = m \<and> m_delivered x = None)"
  shows "once_inv s'"
proof -
  have "\<forall>f \<in> set (d_firings (sc_db s')). \<forall>m. f_message f = Some m \<and> mail_waiting m s' \<longrightarrow>
        (\<exists>sc \<in> set (d_schedules (sc_db s')). s_id sc = f_schedule f \<and> s_message sc = Some m)"
    using once_waits [OF assms(1)] assms(2-4) by simp
  then show ?thesis using assms(1,3,5) unfolding once_inv_def by metis
qed

lemma once_firings:
  assumes "once_inv s" "\<And>x. f_message (g x) = f_message x \<and> f_schedule (g x) = f_schedule x"
  shows "once_inv (s\<lparr>sc_calls := n, sc_db := (sc_db s)\<lparr>d_firings := map g (d_firings (sc_db s))\<rparr>, sc_known := k\<rparr>)"
  using assms by (simp add: once_inv_def mail_waiting_def sorted_wrt_map)

lemma once_fired:
  assumes inv: "db_inv (sc_db s)" and once: "once_inv s" and sc: "sc \<in> set (d_schedules (sc_db s))" and fresh: "fresh_left sc left s"
    and d: "schedule_fired (s_id sc) t how left next (sc_db s) = Inr d"
  shows "once_inv (s\<lparr>sc_calls := n, sc_db := d, sc_known := k\<rparr>)"
proof -
  define row where "row = new_firing (map f_id (d_firings (sc_db s))) (s_id sc) t how left"
  let ?f = "fired_row (s_id sc) next (f_message row)" and ?fs = "keep_firings (s_id sc) (d_firings (sc_db s) @ [row])"
  have d': "d = (sc_db s)\<lparr>d_schedules := map ?f (d_schedules (sc_db s)), d_firings := ?fs\<rparr>"
    using d unfolding schedule_fired_def row_def [symmetric] Let_def by (auto split: if_splits)
  have row: "f_schedule row = s_id sc" by (cases left; simp add: row_def new_firing_def)
  have m: "left = Left_Message m" if "f_message row = Some m" for m using that by (cases left) (auto simp: row_def new_firing_def)
  have fs: "set ?fs \<subseteq> insert row (set (d_firings (sc_db s)))" by (auto simp: keep_firings_def Let_def)
  have "sorted_wrt (\<lambda>f g. f_message f = None \<or> f_message f \<noteq> f_message g) (d_firings (sc_db s) @ [row])"
    using once fresh m by (cases "f_message row") (auto simp: once_inv_def sorted_wrt_append fresh_left_def)
  then have sorted: "sorted_wrt (\<lambda>f g. f_message f = None \<or> f_message f \<noteq> f_message g) ?fs"
    unfolding keep_firings_def Let_def by (rule sorted_wrt_filter)
  have "\<exists>x \<in> set (map ?f (d_schedules (sc_db s))). s_id x = f_schedule f \<and> s_message x = Some k"
    if f: "f \<in> set ?fs" "f_message f = Some k" "mail_waiting k s" for f k
  proof (cases "f = row")
    case True
    with f(2) row sc show ?thesis by (intro bexI [of _ "?f sc"]) (simp_all add: fired_row_def)
  next
    case False
    then have "f \<in> set (d_firings (sc_db s))" using f(1) fs by blast
    then obtain x where x: "x \<in> set (d_schedules (sc_db s))" "s_id x = f_schedule f" "s_message x = Some k"
      using once f(2,3) unfolding once_inv_def by blast
    have "x = sc" if "s_id x = s_id sc"
      using that x(1) sc id_order_distinct [of "map s_id (d_schedules (sc_db s))"] inv by (auto simp: db_inv_def distinct_map inj_on_def)
    then have "s_id x = s_id sc \<Longrightarrow> f_message row = None"
      using fresh m x(3) f(3) by (cases "f_message row") (auto simp: fresh_left_def sched_waiting_def)
    then have "s_id (?f x) = f_schedule f \<and> s_message (?f x) = Some k" using x(2,3) by (auto simp: fired_row_def)
    then show ?thesis using x(1) by (metis image_eqI set_map)
  qed
  then show ?thesis using once sorted unfolding d' once_inv_def mail_waiting_def by auto
qed

lemma atom_once: "atom env s s' \<Longrightarrow> (\<And>n. se_fail env n = None) \<Longrightarrow> sched_inv s \<Longrightarrow> once_inv s \<Longrightarrow> once_inv s'"
proof (induction rule: atom.induct)
  case (a_add sc s d i)
  then show ?case using inserted_messages [OF a_add(1)] by (intro once_rows) (auto simp: insert_schedule_def Let_def split: if_splits)
next
  case (a_remove s i)
  have "\<exists>x \<in> set (filter (\<lambda>x. s_id x \<noteq> i) (d_schedules (sc_db s))). s_id x = f_schedule f \<and> s_message x = Some m"
    if f: "f \<in> set (filter (\<lambda>f. f_schedule f \<noteq> i) (d_firings (sc_db s)))" "f_message f = Some m" "mail_waiting m s" for f m
  proof -
    obtain x where "x \<in> set (d_schedules (sc_db s))" "s_id x = f_schedule f" "s_message x = Some m"
      using once_waits [OF a_remove(3) _ f(2,3)] f(1) by auto
    with f(1) show ?thesis by auto
  qed
  moreover have "sorted_wrt (\<lambda>f g. f_message f = None \<or> f_message f \<noteq> f_message g) (filter (\<lambda>f. f_schedule f \<noteq> i) (d_firings (sc_db s)))"
    using a_remove(3) unfolding once_inv_def by (blast intro: sorted_wrt_filter)
  ultimately show ?case using a_remove(3) unfolding once_inv_def mail_waiting_def remove_schedule_def by simp
next
  case (a_pause s i p)
  let ?f = "\<lambda>s. if s_id s = i then s\<lparr>s_paused := p\<rparr> else s"
  have "\<exists>x \<in> set (map ?f ss). s_id x = s_id sc \<and> s_message x = s_message sc" if "sc \<in> set ss" for sc ss
  proof
    show "s_id (?f sc) = s_id sc \<and> s_message (?f sc) = s_message sc" by simp
    show "?f sc \<in> set (map ?f ss)" unfolding set_map using that by (rule imageI)
  qed
  then show ?case using a_pause(3) by (intro once_rows) (simp_all add: schedule_paused_def del: set_map list.set_map)
next
  case (a_reply s i tx t)
  show ?case unfolding firing_reply_def using a_reply(3) by (rule once_firings) simp
next
  case (a_post rc rp sn tx md cm t s d m)
  note p = put_rows [OF a_post(1)]
  have "m_id m \<notin> m_id ` set (d_messages (sc_db s))" using p row_id_above [of _ "map m_id (d_messages (sc_db s))"] by fastforce
  then have "\<forall>f \<in> set (d_firings (sc_db s)). f_message f \<noteq> Some (m_id m)"
    using a_post(3) by (fastforce simp: sched_inv_def db_inv_def)
  moreover have "mail_waiting k s \<longleftrightarrow> (\<exists>x \<in> set (d_messages (sc_db s)). m_id x = k \<and> m_delivered x = None)" for k using a_post(4) by (simp add: once_inv_def)
  ultimately show ?case using p by (intro once_mail [OF a_post(4)]) (auto simp: mail_waiting_def)
next
  case (a_fired sc s left t how "next" d)
  then show ?case by (intro once_fired) (auto simp: sched_inv_def)
next
  case (a_took s ids t)
  have "(\<exists>x \<in> set (d_messages (mark_delivered ids t (sc_db s))). m_id x = m \<and> m_delivered x = None) \<longleftrightarrow>
        m \<notin> set ids \<and> (\<exists>x \<in> set (d_messages (sc_db s)). m_id x = m \<and> m_delivered x = None)" for m
    by (auto simp: mark_delivered_def)
  moreover have "mail_waiting k s \<longleftrightarrow> (\<exists>x \<in> set (d_messages (sc_db s)). m_id x = k \<and> m_delivered x = None)" for k using a_took(3) by (simp add: once_inv_def)
  moreover have "mail_waiting k (s\<lparr>sc_calls := n, sc_db := d, sc_waiting := filter (\<lambda>m. m_id m \<notin> set ids) (sc_waiting s)\<rparr>) \<longleftrightarrow> k \<notin> set ids \<and> mail_waiting k s" for k n d
    by (auto simp: mail_waiting_def list_ex_iff)
  moreover have "d_schedules (mark_delivered ids t d) = d_schedules d" "d_firings (mark_delivered ids t d) = d_firings d" for d by (simp_all add: mark_delivered_def)
  ultimately show ?case by (intro once_mail [OF a_took(3)]) simp_all
next
  case (a_wait s)
  have "list_ex (\<lambda>x. m_id x = m) (waiting_messages (sc_db s)) \<longleftrightarrow> mail_waiting m s" for m
    using a_wait(3) unfolding once_inv_def waiting_messages_def by (auto simp: list_ex_iff)
  with a_wait(3) show ?case unfolding once_inv_def mail_waiting_def by simp
qed (auto elim: once_frame)

lemma atoms_once: "atoms env s s' \<Longrightarrow> (\<And>n. se_fail env n = None) \<Longrightarrow> sched_inv s \<Longrightarrow> once_inv s \<Longrightarrow> once_inv s'"
  by (induction rule: rtranclp_induct) (auto intro: atom_once dest: atoms_inv)

end
