(* ===== verification/Sched_Steps.thy ===== *)
theory Sched_Steps
  imports Sched_Sound
begin

text \<open>
  Each operation of the schedules as a sequence of the small steps, over a database that may fail anywhere.
\<close>

subsection \<open>Rules for composed operations\<close>

definition runs :: "sched_env \<Rightarrow> scheds \<Rightarrow> 'a sched_res \<Rightarrow> (scheds \<Rightarrow> 'a \<Rightarrow> bool) \<Rightarrow> bool" where
  "runs env s p Q \<longleftrightarrow> atoms env s (fst p) \<and> sched_inv (fst p) \<and> (\<forall>x. snd p = Inr x \<longrightarrow> Q (fst p) x)"

lemma runs_ret: "sched_inv s \<Longrightarrow> (\<And>x. r = Inr x \<Longrightarrow> Q s x) \<Longrightarrow> runs env s (s, r) Q"
  by (simp add: runs_def)

lemma runs_sbind:
  assumes "runs env s p P" "\<And>s' x. sched_inv s' \<Longrightarrow> P s' x \<Longrightarrow> runs env s' (k s' x) Q"
  shows "runs env s (sbind p k) Q"
proof (cases p)
  case (Pair s' r)
  with assms show ?thesis by (cases r) (auto simp: runs_def intro: rtranclp_trans)
qed

lemma runs_pure: "sched_inv s \<Longrightarrow> (\<And>x. r = Inr x \<Longrightarrow> runs env s (k s x) Q) \<Longrightarrow> runs env s (sbind (s, r) k) Q"
  by (cases r) (auto intro: runs_ret)

lemma runs_atoms: "runs env s p Q \<Longrightarrow> atoms env s (fst p) \<and> sched_inv (fst p)"
  by (simp add: runs_def)

lemma runs_atom: "atoms env s s' \<Longrightarrow> sched_inv s \<Longrightarrow> (\<And>x. r = Inr x \<Longrightarrow> Q s' x) \<Longrightarrow> runs env s (s', r) Q"
  by (simp add: runs_def atoms_inv)

lemma changed_after:
  assumes "atom env s (s\<lparr>sc_calls := Suc (sc_calls s), sc_db := d, sc_known := None\<rparr>)" (is "atom env s ?s")
  shows "atoms env s (sched_changed ((called s)\<lparr>sc_db := d\<rparr>))"
proof -
  have "sched_changed ((called s)\<lparr>sc_db := d\<rparr>) = ?s\<lparr>sc_known := None, sc_changes := Suc (sc_changes s)\<rparr>" by (simp add: sched_changed_def forget_known_def)
  then have "atom env ?s (sched_changed ((called s)\<lparr>sc_db := d\<rparr>))" by (simp only: a_forget)
  with assms show ?thesis by (rule converse_rtranclp_into_rtranclp [OF _ r_into_rtranclp])
qed

lemma atoms_called: "atoms env s (called s)"
  by (rule r_into_rtranclp [of "atom env", OF a_call])

lemma atoms_changed: "atoms env s (sched_changed s)"
  unfolding sched_changed_def forget_known_def using a_forget [of env s "Suc (sc_changes s)"] by (simp add: r_into_rtranclp)

text \<open>A statement that reads, one that writes and is followed by \<open>sched_changed\<close>, and one that may do either.\<close>

lemma db_call_cases:
  obtains (failed) e where "db_call env f s = (called s, Inl e)"
    | (did) d x where "f (sc_db s) = Inr (d, x)" "db_call env f s = ((called s)\<lparr>sc_db := d\<rparr>, Inr x)" "se_fail env (sc_calls s) = None"
proof (cases "se_fail env (sc_calls s)")
  case (Some e)
  then show thesis using failed by (simp add: db_call_def Let_def)
next
  case None
  then show thesis using failed did by (cases "f (sc_db s)") (auto simp: db_call_def Let_def split: prod.splits)
qed

lemma runs_read:
  assumes "sched_inv s"
  shows "runs env s (db_try env w (\<lambda>d. Inr (d, g d)) s) (\<lambda>s' x. x = g (sc_db s'))"
proof -
  have "(called s)\<lparr>sc_db := sc_db s\<rparr> = called s" by simp
  then show ?thesis using assms atoms_called [of env s]
    by (cases rule: db_call_cases [of env "\<lambda>d. Inr (d, g d)" s]) (auto simp: db_try_def intro!: runs_atom)
qed

lemma runs_write:
  assumes "sched_inv s" "\<And>d x. f (sc_db s) = Inr (d, x) \<Longrightarrow> atom env s (s\<lparr>sc_calls := Suc (sc_calls s), sc_db := d, sc_known := None\<rparr>)"
    and "\<And>d x. f (sc_db s) = Inr (d, x) \<Longrightarrow> sched_inv (sched_changed ((called s)\<lparr>sc_db := d\<rparr>)) \<Longrightarrow> runs env (sched_changed ((called s)\<lparr>sc_db := d\<rparr>)) (k ((called s)\<lparr>sc_db := d\<rparr>) x) Q"
  shows "runs env s (sbind (db_try env w f s) k) Q"
proof (cases rule: db_call_cases [of env f s])
  case (failed e)
  then show ?thesis using assms(1) atoms_called [of env s] by (auto simp: db_try_def intro: runs_atom)
next
  case (did d x)
  have a: "atoms env s (sched_changed ((called s)\<lparr>sc_db := d\<rparr>))" by (rule changed_after [OF assms(2) [OF did(1)]])
  from assms(3) [OF did(1) atoms_inv [OF a assms(1)]] a show ?thesis using did(2) by (auto simp: db_try_def runs_def intro: rtranclp_trans)
qed

lemma runs_done: "sched_inv (sched_changed s) \<Longrightarrow> runs env (sched_changed s) (sched_changed s, r) (\<lambda>_ _. True)"
  by (rule runs_ret) simp_all

subsection \<open>Reading\<close>

lemma runs_all: "sched_inv s \<Longrightarrow> runs env s (all_schedules env s) (\<lambda>s' all. all = d_schedules (sc_db s'))"
proof (cases "sc_known s")
  case None
  assume i: "sched_inv s"
  have "runs env s' (s'\<lparr>sc_known := Some all\<rparr>, Inr all) (\<lambda>s' all. all = d_schedules (sc_db s'))"
    if "sched_inv s'" "all = d_schedules (sc_db s')" for s' all
    using that a_cache [of env s'] by (intro runs_atom) (auto intro: r_into_rtranclp)
  with None show ?thesis unfolding all_schedules_def by (auto intro!: runs_sbind [OF runs_read [OF i]])
next
  case (Some known)
  assume "sched_inv s"
  with Some show ?thesis by (auto simp: all_schedules_def sched_inv_def cache_ok_def intro: runs_ret)
qed

lemma quiz_rule: "parse_rule QUIZ_RULE = Inr (RAt (replicate 7 True) 540)"
  unfolding QUIZ_RULE_def by code_simp

lemma quiz_ok: "row_ok (quiz_schedule env repo (RAt (replicate 7 True) 540) now) \<and> s_message (quiz_schedule env repo (RAt (replicate 7 True) 540) now) = None"
proof -
  have "parse_rule (rule_text (RAt (replicate 7 True) 540)) = Inr (RAt (replicate 7 True) 540)"
    using rule_text_round [OF parse_rule_wf [OF quiz_rule]] .
  moreover have "id_of QUIZ = None" by (simp add: QUIZ_def id_of_def)
  ultimately show ?thesis by (auto simp: quiz_schedule_def row_ok_def)
qed

lemma seed_atoms: "atoms env s (seed env repo s)"
proof -
  let ?sc = "quiz_schedule env repo (RAt (replicate 7 True) 540) (sched_now env s)" and ?key = "''quiz_schedule:'' @ repo"
  have sd: "seed env repo s = (case db_call env (seed_once ?key ?sc) s of (s, Inr True) \<Rightarrow> sched_changed s | (s, _) \<Rightarrow> s)"
    by (simp add: seed_def quiz_rule)
  show ?thesis
  proof (cases rule: db_call_cases [of env "seed_once ?key ?sc" s])
    case (failed e)
    then show ?thesis unfolding sd using atoms_called [of env s] by simp
  next
    case (did d b)
    show ?thesis
    proof (cases b)
      case True
      let ?d = "(sc_db s)\<lparr>d_meta := d_meta (sc_db s) @ [(?key, ''1'')]\<rparr>"
      obtain i where i: "insert_schedule ?sc ?d = Inr (d, i)" using did(1) True by (auto simp: seed_once_def Let_def split: if_splits sum.splits)
      let ?s = "s\<lparr>sc_db := ?d\<rparr>"
      have "atom env ?s (?s\<lparr>sc_calls := Suc (sc_calls ?s), sc_db := d, sc_known := None\<rparr>)" using a_add [of ?sc ?s d i env] quiz_ok i by simp
      from changed_after [OF this] a_meta [of env s] have "atoms env s (sched_changed ((called ?s)\<lparr>sc_db := d\<rparr>))"
        by (blast intro: converse_rtranclp_into_rtranclp)
      then show ?thesis unfolding sd using did(2) True by simp
    next
      case False
      then obtain ms where "d = (sc_db s)\<lparr>d_meta := ms\<rparr>" using did(1)
        by (auto simp: seed_once_def Let_def split: if_splits sum.splits) (metis sched_db.surjective sched_db.update_convs(4))+
      then have "atom env (called s) ((called s)\<lparr>sc_db := d\<rparr>)" using a_meta [of env "called s" ms] by simp
      with atoms_called have "atoms env s ((called s)\<lparr>sc_db := d\<rparr>)" by (rule rtranclp.rtrancl_into_rtrancl)
      then show ?thesis unfolding sd using did(2) False by simp
    qed
  qed
qed

lemma runs_repo: "sched_inv s \<Longrightarrow> runs env s (repo_arg env args s) (\<lambda>_ _. True)"
  using seed_atoms [of env s] unfolding repo_arg_def
  by (auto intro: runs_ret runs_atom split: option.split)

lemma runs_weak: "runs env s p P \<Longrightarrow> (\<And>s' x. P s' x \<Longrightarrow> Q s' x) \<Longrightarrow> runs env s p Q"
  by (simp add: runs_def)

lemma picked: "set (pick_schedules which repo all) \<subseteq> set all"
  by (auto simp: pick_schedules_def Let_def split: option.splits if_splits)

lemma runs_find:
  assumes "sched_inv s"
  shows "runs env s (find_schedule env args s) (\<lambda>s' sc. sc \<in> set (d_schedules (sc_db s')))"
proof (cases "non_empty (json_string args ''schedule'')")
  case None
  then show ?thesis using assms by (auto simp: find_schedule_def intro: runs_ret)
next
  case (Some which)
  have "runs env s'
     (case pick_schedules which repo (d_schedules (sc_db s')) of
        [] \<Rightarrow> (s', Inl (kmux_err ''not_found'' (''no schedule '' @ which))) | [one] \<Rightarrow> (s', Inr one)
      | one # x # xs \<Rightarrow> (s', Inl (bad (which @ '' names '' @ dec (length (one # x # xs)) @ '' schedules ('' @
           join '', '' (map (\<lambda>x. ''s'' @ dec (s_id x)) (one # x # xs)) @ ''): say which by ID''))))
     (\<lambda>s' sc. sc \<in> set (d_schedules (sc_db s')))" if "sched_inv s'" for s' repo
    using that picked [of which repo "d_schedules (sc_db s')"] by (auto intro!: runs_ret split: list.split)
  then show ?thesis unfolding find_schedule_def using Some assms
    by (auto intro!: runs_sbind [OF runs_repo] runs_sbind [OF runs_all])
qed

subsection \<open>Requests\<close>

lemma firings_atoms: "atoms env s (fst (firings_value env sc s))"
proof -
  let ?f = "\<lambda>d. Inr (d, db_firings (s_id sc) FIRINGS_SHOWN d) :: string + sched_db \<times> firing list"
  have "(called s)\<lparr>sc_db := sc_db s\<rparr> = called s" by simp
  then show ?thesis using atoms_called [of env s]
    by (cases rule: db_call_cases [of env ?f s]) (auto simp: firings_value_def)
qed

lemma value_atoms: "atoms env s (fst (sched_value env sc s))"
  using firings_atoms [of env s sc] by (cases "firings_value env sc s") (simp add: sched_value_def)

lemma values_atoms: "atoms env s (fst (sched_values env scs s))"
proof (induction env scs s rule: sched_values.induct)
  case (2 env sc scs s)
  obtain s1 v where v: "sched_value env sc s = (s1, v)" by (cases "sched_value env sc s")
  with 2 [OF v [symmetric]] value_atoms [of env s sc] show ?case by (auto simp: split: prod.split intro: rtranclp_trans)
qed simp

lemma runs_list: "sched_inv s \<Longrightarrow> runs env s (list_schedules env args s) (\<lambda>_ _. True)"
  unfolding list_schedules_def using values_atoms
  by (auto simp: Let_def split: prod.split intro!: runs_sbind [OF runs_repo] runs_sbind [OF runs_all] runs_atom) (metis fst_conv)

lemma runs_add_to:
  assumes "sched_inv s" "parse_rule t = Inr rule" "recipient = PLANNER \<longrightarrow> repo \<noteq> None" "\<And>n. name = Some n \<Longrightarrow> id_of n = None"
  shows "runs env s (add_to env args rule recipient prompt name repo s) (\<lambda>_ _. True)"
proof -
  have "parse_rule (rule_text rule) = Inr rule" by (rule rule_text_round [OF parse_rule_wf [OF assms(2)]])
  then have "row_ok sc" if "s_rule sc = rule_text rule" "s_target sc = recipient" "s_repo sc = repo" "s_name sc = name" for sc
    using that assms(3,4) by (simp add: row_ok_def)
  then show ?thesis unfolding add_to_def Let_def
    using assms(1) value_atoms by (auto split: prod.split intro!: runs_write a_add runs_atom) (metis fst_conv)
qed

lemma read_name_ok: "read_name args = Inr name \<Longrightarrow> name = Some n \<Longrightarrow> id_of n = None"
  by (auto simp: read_name_def split: option.splits if_splits)

lemma read_rule_ok: "read_rule args = Inr rule \<Longrightarrow> \<exists>t. parse_rule t = Inr rule"
  by (auto simp: read_rule_def split: sum.splits rule_error.splits)

lemma runs_add:
  assumes "sched_inv s"
  shows "runs env s (add_schedule env args s) (\<lambda>_ _. True)"
proof -
  have to: "runs env s' (add_to env args rule recipient prompt name repo s') (\<lambda>_ _. True)"
    if "sched_inv s'" "read_rule args = Inr rule" "read_name args = Inr name" "\<not> (recipient = PLANNER \<and> repo = None)" for s' rule recipient prompt name repo
    using read_rule_ok [OF that(2)] read_name_ok [OF that(3)] that(1,4) runs_add_to by blast
  show ?thesis unfolding add_schedule_def using assms
    by (intro runs_pure runs_sbind [OF runs_repo]) (auto intro!: to runs_ret runs_sbind [OF runs_all] split: option.split)
qed

lemma runs_remove: "sched_inv s \<Longrightarrow> runs env s (remove_request env args s) (\<lambda>_ _. True)"
  unfolding remove_request_def by (auto intro!: runs_sbind [OF runs_find] runs_write a_remove runs_done)

lemma runs_pause: "sched_inv s \<Longrightarrow> runs env s (pause_request env args s) (\<lambda>_ _. True)"
  unfolding pause_request_def by (auto intro!: runs_sbind [OF runs_find] runs_write a_pause runs_done runs_ret)

lemma runs_resume: "sched_inv s \<Longrightarrow> runs env s (resume_request env args s) (\<lambda>_ _. True)"
proof -
  have "runs env s' (sbind (db_try env w (\<lambda>d. Inr (schedule_paused i None d, ())) s') (\<lambda>s _. (sched_changed s, Inr ()))) (\<lambda>_ _. True)" if "sched_inv s'" for s' w i
    using that by (auto intro!: runs_write a_pause runs_done)
  then show "sched_inv s \<Longrightarrow> ?thesis" unfolding resume_request_def
    by (intro runs_sbind [OF runs_find] runs_sbind [where P = "\<lambda>_ _. True"]) (auto intro: runs_ret)
qed

lemma runs_reply: "sched_inv s \<Longrightarrow> runs env s (reply_request env args s) (\<lambda>_ _. True)"
proof -
  have "runs env s' (sbind (db_try env w (\<lambda>d. Inr (firing_reply i t (sched_now env s') d, ())) s') (\<lambda>s _. (sched_changed s, r))) (\<lambda>_ _. True)" if i: "sched_inv s'" for s' w i t r
    using i by (auto intro!: runs_write a_reply runs_done)
  then show "sched_inv s \<Longrightarrow> ?thesis" unfolding reply_request_def
    by (auto intro!: runs_ret runs_sbind [OF runs_find] runs_sbind [OF runs_read] split: option.split prod.split)
qed

subsection \<open>Leaving a message\<close>

text \<open>
  What schedules need of the mailbox (the trait \<open>Mailbox\<close>): a message that was posted has a new number and waits, and nothing else
  starts or stops waiting.
\<close>

locale mailbox =
  fixes post :: "'s \<Rightarrow> 's \<times> (kmux_error + nat)" and waiting :: "nat \<Rightarrow> 's \<Rightarrow> bool" and used :: "'s \<Rightarrow> nat set"
  assumes posted: "post s = (s', Inr i) \<Longrightarrow> i \<notin> used s \<and> i \<in> used s' \<and> (\<forall>k. waiting k s' \<longleftrightarrow> waiting k s \<or> k = i)"
    and refused: "post s = (s', Inl e) \<Longrightarrow> waiting k s' = waiting k s"
begin

definition give :: "nat option \<Rightarrow> 's \<Rightarrow> 's \<times> left" where
  "give old s =
     (if \<exists>k. old = Some k \<and> waiting k s then (s, Left_Skipped)
      else case post s of (s, Inr i) \<Rightarrow> (s, Left_Message i) | (s, Inl e) \<Rightarrow> (s, Left_Failed (err_message e)))"

lemma give_message:
  assumes "give old s = (s', Left_Message m)" "set_option old \<subseteq> used s"
  shows "m \<notin> used s \<and> m \<in> used s' \<and> \<not> (\<exists>k. old = Some k \<and> waiting k s')"
  using assms posted [of s s' m] by (fastforce simp: give_def split: if_splits prod.splits sum.splits)

lemma give_nothing: "give old s = (s', left) \<Longrightarrow> \<forall>m. left \<noteq> Left_Message m \<Longrightarrow> waiting k s' = waiting k s"
  using refused by (fastforce simp: give_def split: if_splits prod.splits sum.splits)

end

lemma post_cases:
  obtains (refused) e where "mail_post env rc rp fr tx s = (s, Inl e)"
    | (failed) e where "mail_post env rc rp fr tx s = (called s, Inl e)" "se_fail env (sc_calls s) \<noteq> None"
    | (sent) r t d m where "put_message rc r fr tx None None t (sc_db s) = (d, m)"
        "mail_post env rc rp fr tx s = (s\<lparr>sc_calls := Suc (sc_calls s), sc_db := d, sc_waiting := sc_waiting s @ [m]\<rparr>, Inr (m_id m))"
proof -
  let ?r = "if rc = PLANNER then (case rp of Some r \<Rightarrow> Inr r | None \<Rightarrow> Inl (bad ''which repo's planner?''))
            else if \<not> se_open env rc then Inl (gone env rc)
            else case se_known env rc of Some (r, _) \<Rightarrow> Inr r | None \<Rightarrow> Inl (task_not_found rc)"
  show thesis
  proof (cases ?r)
    case (Inl e)
    then show thesis using refused unfolding mail_post_def by simp
  next
    case (Inr r)
    let ?f = "\<lambda>d. Inr (put_message rc r fr tx None None (se_clock env (sc_calls s)) d) :: string + sched_db \<times> mail"
    have p: "mail_post env rc rp fr tx s = sbind (mail_queue env rc r fr tx None None s) (\<lambda>s m. (s, Inr (m_id m)))"
      unfolding mail_post_def Inr by simp
    show thesis
    proof (cases "se_fail env (sc_calls s)")
      case (Some e)
      then show thesis using failed unfolding p by (simp add: mail_queue_def db_call_def)
    next
      case None
      obtain d m where d: "put_message rc r fr tx None None (se_clock env (sc_calls s)) (sc_db s) = (d, m)" by fastforce
      with None show thesis using sent unfolding p by (simp add: mail_queue_def db_call_def)
    qed
  qed
qed

interpretation mb: mailbox "mail_post env rc rp fr tx" mail_waiting "\<lambda>s. m_id ` set (d_messages (sc_db s))" for env rc rp fr tx
proof
  fix s s' i
  assume "mail_post env rc rp fr tx s = (s', Inr i)"
  then show "i \<notin> m_id ` set (d_messages (sc_db s)) \<and> i \<in> m_id ` set (d_messages (sc_db s')) \<and> (\<forall>k. mail_waiting k s' \<longleftrightarrow> mail_waiting k s \<or> k = i)"
  proof (cases rule: post_cases [of env rc rp fr tx s])
    case (sent r t d m)
    then show ?thesis using \<open>mail_post env rc rp fr tx s = (s', Inr i)\<close> put_rows [OF sent(1)] row_id_above [of _ "map m_id (d_messages (sc_db s))"]
      by (fastforce simp: mail_waiting_def)
  qed simp_all
next
  fix s s' e k
  assume "mail_post env rc rp fr tx s = (s', Inl e)"
  then show "mail_waiting k s' = mail_waiting k s" by (cases rule: post_cases [of env rc rp fr tx s]) (auto simp: mail_waiting_def)
qed

lemma leave_give: "leave env sc s = mb.give env (s_target sc) (s_repo sc) (SCHEDULE @ s_label sc) (s_prompt sc) (s_message sc) s"
  by (auto simp: leave_def mb.give_def sched_waiting_def split: option.splits)

lemma leave_frame:
  assumes "leave env sc s = (s', left)"
  shows "atoms env s s' \<and> sc_known s' = sc_known s \<and> sc_skew s' = sc_skew s \<and> d_schedules (sc_db s') = d_schedules (sc_db s) \<and> d_firings (sc_db s') = d_firings (sc_db s)"
proof (cases "sched_waiting sc s")
  case True
  with assms show ?thesis by (simp add: leave_def)
next
  case False
  then have l: "leave env sc s = (case mail_post env (s_target sc) (s_repo sc) (SCHEDULE @ s_label sc) (s_prompt sc) s of (s, Inr i) \<Rightarrow> (s, Left_Message i) | (s, Inl e) \<Rightarrow> (s, Left_Failed (err_message e)))"
    by (simp add: leave_def)
  show ?thesis
  proof (cases rule: post_cases [of env "s_target sc" "s_repo sc" "SCHEDULE @ s_label sc" "s_prompt sc" s])
    case (sent r t d m)
    then show ?thesis using assms l put_rows [OF sent(1)] a_post [OF sent(1), of env] by auto
  qed (use assms l atoms_called in auto)
qed

lemma leave_fresh:
  assumes "leave env sc s = (s', left)" "sched_inv s" "sc \<in> set (d_schedules (sc_db s))"
  shows "fresh_left sc left s'"
proof -
  have "m \<notin> m_id ` set (d_messages (sc_db s)) \<and> m \<in> m_id ` set (d_messages (sc_db s')) \<and> \<not> (\<exists>k. s_message sc = Some k \<and> mail_waiting k s')"
    if "left = Left_Message m" for m
    using mb.give_message [OF assms(1) [unfolded leave_give that]] assms(2,3) by (auto simp: sched_inv_def db_inv_def)
  moreover have "f_message f \<noteq> Some m" if "m \<notin> m_id ` set (d_messages (sc_db s))" "f \<in> set (d_firings (sc_db s'))" for f m
    using that assms(2) leave_frame [OF assms(1)] by (auto simp: sched_inv_def db_inv_def)
  ultimately show ?thesis unfolding fresh_left_def sched_waiting_def by (auto split: option.splits)
qed

end
