(* ===== verification/Sched_Fire.thy ===== *)
theory Sched_Fire
  imports Sched_Steps
begin

text \<open>
  Everything the schedules do, from an empty database on: requests, ticks, mail queued and handed over, restarts. What holds in
  all those states, and what one tick does to the schedules that are due.
\<close>

subsection \<open>Firing\<close>

lemma runs_trans: "atoms env s s' \<Longrightarrow> runs env s' p Q \<Longrightarrow> runs env s p Q"
  by (auto simp: runs_def intro: rtranclp_trans)

lemma runs_run: "sched_inv s \<Longrightarrow> runs env s (run_request env args s) (\<lambda>_ _. True)"
  unfolding run_request_def
proof (rule runs_sbind [OF runs_find], assumption)
  fix s sc
  assume s: "sched_inv s" "sc \<in> set (d_schedules (sc_db s))"
  obtain s' left where l: "leave env sc s = (s', left)" by fastforce
  note f = leave_frame [OF l] and fresh = leave_fresh [OF l s]
  have "sched_inv s'" using f s(1) atoms_inv by blast
  then show "runs env s
     (let now = sched_now env s; (s, left) = leave env sc s
      in sbind (db_try env ''save the firing'' (\<lambda>d. map_sum id (\<lambda>d. (d, ())) (schedule_fired (s_id sc) now How_Run left (s_next sc) d)) s)
          (\<lambda>s _. case left of
              Left_Message x \<Rightarrow> (sched_changed s, Inr (named_value sc @ [(''left'', JBool True)]))
            | Left_Skipped \<Rightarrow> (sched_changed s, Inr (named_value sc @ [(''left'', JBool False)]))
            | Left_Failed why \<Rightarrow> (sched_changed s, Inl (kmux_err ''failed'' why)))) (\<lambda>_ _. True)"
    unfolding l Let_def prod.case using f s(2) fresh
    by (intro runs_trans [of env s s'] runs_write)
       (auto intro!: runs_done a_fired split: left.split simp: map_sum_def split: sum.splits)
qed

lemma fired_other: "s_id x \<noteq> i \<Longrightarrow> fired_row i next m x = x"
  by (simp add: fired_row_def)

lemma fired_rows: "schedule_fired i t how left next d = Inr d' \<Longrightarrow> d_schedules d' = map (fired_row i next (f_message (new_firing (map f_id (d_firings d)) i t how left))) (d_schedules d)"
  by (auto simp: schedule_fired_def Let_def split: if_splits)

lemma fired_kept: "schedule_fired i t how left next d = Inr d' \<Longrightarrow> x \<in> set (d_schedules d) \<Longrightarrow> s_id x \<noteq> i \<Longrightarrow> x \<in> set (d_schedules d')"
  using fired_rows fired_other by (metis image_eqI set_map)

lemma due_ids:
  assumes "sched_inv s"
  shows "distinct (map s_id (due_schedules now (d_schedules (sc_db s))))"
  using assms by (auto simp: sched_inv_def db_inv_def due_schedules_def distinct_map_filter dest: id_order_distinct)

lemma forgotten: "s\<lparr>sc_known := None\<rparr> = s" if "sc_known s = None"
  using that by simp

text \<open>One round of the loop: the schedule's rule is read, a message is left or not, and the row is updated unless the database fails.\<close>

lemma fire_round:
  assumes inv: "sched_inv s" and known: "sc_known s = None" and sc: "sc \<in> set (d_schedules (sc_db s))"
  obtains (skipped) s1 where "\<And>scs n. fire_each env now (sc # scs) s n = fire_each env now scs s1 n" "atoms env s s1" "sc_known s1 = None"
        "d_schedules (sc_db s1) = d_schedules (sc_db s)" "\<exists>k. se_fail env k \<noteq> None"
    | (fired) s1 rule m where "\<And>scs n. fire_each env now (sc # scs) s n = fire_each env now scs s1 (Suc n)" "atoms env s s1" "sc_known s1 = None"
        "parse_rule (s_rule sc) = Inr rule" "d_schedules (sc_db s1) = map (fired_row (s_id sc) (rule_next (se_zone env) (s_next sc) now rule) m) (d_schedules (sc_db s))"
proof -
  obtain rule where rule: "parse_rule (s_rule sc) = Inr rule" using inv sc by (auto simp: sched_inv_def db_inv_def row_ok_def)
  obtain s1 left where l: "leave env sc s = (s1, left)" by fastforce
  note f = leave_frame [OF l]
  have sc1: "sc \<in> set (d_schedules (sc_db s1))" using f sc by simp
  note fresh = leave_fresh [OF l inv sc]
  let ?next = "rule_next (se_zone env) (s_next sc) now rule"
  let ?f = "\<lambda>d. map_sum id (\<lambda>d. (d, ())) (schedule_fired (s_id sc) now How_Rule left ?next d)"
  have "\<exists>d. schedule_fired (s_id sc) now How_Rule left ?next (sc_db s1) = Inr d"
    using sc1 fresh by (cases left) (auto simp: schedule_fired_def Let_def new_firing_def list_ex_iff fresh_left_def)
  then obtain d where d: "schedule_fired (s_id sc) now How_Rule left ?next (sc_db s1) = Inr d" ..
  show thesis
  proof (cases "se_fail env (sc_calls s1)")
    case (Some e)
    then show thesis using rule l f known rtranclp_trans [OF _ atoms_called [of env s1]]
      by (intro skipped [of "called s1"]) (auto simp: db_call_def Let_def)
  next
    case None
    let ?s = "s1\<lparr>sc_calls := Suc (sc_calls s1), sc_db := d\<rparr>"
    have "?s\<lparr>sc_known := None\<rparr> = ?s" using f known by (cases s1) simp
    then have "atom env s1 ?s" using a_fired [OF sc1 fresh d, of env] by simp
    then have "atoms env s ?s" using f by (meson rtranclp.rtrancl_into_rtrancl)
    then show thesis using rule l f known None d fired_rows [OF d]
      by (intro fired [of ?s rule]) (auto simp: db_call_def Let_def)
  qed
qed

lemma rest_kept:
  assumes "set (sc # scs) \<subseteq> set ss" "distinct (map s_id (sc # scs))"
  shows "set scs \<subseteq> set (map (fired_row (s_id sc) next m) ss)"
proof
  fix x
  assume x: "x \<in> set scs"
  then have "s_id x \<in> s_id ` set scs" by (rule imageI)
  then have "s_id x \<noteq> s_id sc" using assms(2) by auto
  then show "x \<in> set (map (fired_row (s_id sc) next m) ss)" using x assms(1) by (metis fired_other image_eqI set_map set_subset_Cons subset_iff)
qed

lemma fire_each_atoms:
  assumes "fire_each env now scs s n = (s', r)" "sched_inv s" "sc_known s = None" "set scs \<subseteq> set (d_schedules (sc_db s))" "distinct (map s_id scs)"
  shows "atoms env s s' \<and> r \<noteq> None"
  using assms
proof (induction scs arbitrary: s n)
  case (Cons sc scs)
  have sc: "sc \<in> set (d_schedules (sc_db s))" using Cons.prems(4) by simp
  show ?case
  proof (cases rule: fire_round [OF Cons.prems(2,3) sc, of env now, case_names skipped fired])
    case (skipped s1)
    then show ?thesis using Cons.IH [of s1 n] Cons.prems atoms_inv [of env s s1] by (auto intro: rtranclp_trans)
  next
    case (fired s1 rule m)
    have "set scs \<subseteq> set (d_schedules (sc_db s1))" unfolding fired(5) using Cons.prems(4,5) by (rule rest_kept)
    then show ?thesis using Cons.IH [of s1 "Suc n"] Cons.prems fired(1-3) atoms_inv [of env s s1] by (auto intro: rtranclp_trans)
  qed
qed auto

text \<open>With a database that works, every schedule of the list gets its next time, and nothing else changes but the messages.\<close>

definition unmarked :: "schedule \<Rightarrow> schedule" where
  "unmarked x = x\<lparr>s_message := None\<rparr>"

definition moved_on :: "zone \<Rightarrow> rat \<Rightarrow> schedule \<Rightarrow> schedule" where
  "moved_on zone now x = x\<lparr>s_next := rule_next zone (s_next x) now (projr (parse_rule (s_rule x)))\<rparr>"

lemma fire_each_settles:
  assumes "\<And>k. se_fail env k = None" "sched_inv s" "sc_known s = None" "set scs \<subseteq> set (d_schedules (sc_db s))" "distinct (map s_id scs)"
  shows "\<exists>s'. fire_each env now scs s n = (s', Some (n + length scs)) \<and>
    map unmarked (d_schedules (sc_db s')) = map (\<lambda>x. unmarked (if s_id x \<in> s_id ` set scs then moved_on (se_zone env) now x else x)) (d_schedules (sc_db s))"
  using assms
proof (induction scs arbitrary: s n)
  case (Cons sc scs)
  have sc: "sc \<in> set (d_schedules (sc_db s))" using Cons.prems(4) by simp
  show ?case
  proof (cases rule: fire_round [OF Cons.prems(2,3) sc, of env now, case_names skipped fired])
    case (skipped s1)
    then show ?thesis using Cons.prems(1) by simp
  next
    case (fired s1 rule m)
    have inv: "sched_inv s1" using fired(2) Cons.prems(2) by (rule atoms_inv)
    have same: "x = sc" if "x \<in> set (d_schedules (sc_db s))" "s_id x = s_id sc" for x
      using that sc Cons.prems(2) id_order_distinct [of "map s_id (d_schedules (sc_db s))"] by (auto simp: sched_inv_def db_inv_def distinct_map inj_on_def)
    have "set scs \<subseteq> set (d_schedules (sc_db s1))" unfolding fired(5) using Cons.prems(4,5) by (rule rest_kept)
    then obtain s' where s': "fire_each env now scs s1 (Suc n) = (s', Some (Suc n + length scs))"
      "map unmarked (d_schedules (sc_db s')) = map (\<lambda>x. unmarked (if s_id x \<in> s_id ` set scs then moved_on (se_zone env) now x else x)) (d_schedules (sc_db s1))"
      using Cons.IH [of s1 "Suc n"] Cons.prems(1,5) inv fired(3) by auto
    have "unmarked (if s_id (fired_row (s_id sc) (rule_next (se_zone env) (s_next sc) now rule) m x) \<in> s_id ` set scs
            then moved_on (se_zone env) now (fired_row (s_id sc) (rule_next (se_zone env) (s_next sc) now rule) m x)
            else fired_row (s_id sc) (rule_next (se_zone env) (s_next sc) now rule) m x) =
          unmarked (if s_id x \<in> s_id ` set (sc # scs) then moved_on (se_zone env) now x else x)" if "x \<in> set (d_schedules (sc_db s))" for x
    proof (cases "s_id x = s_id sc")
      case True
      then have "x = sc" using same that by blast
      then show ?thesis using fired(4) Cons.prems(5) by (auto simp: fired_row_def unmarked_def moved_on_def)
    qed (simp add: fired_row_def)
    then show ?thesis using s' fired(1) unfolding fired(5) by (auto simp: comp_def)
  qed
qed simp

subsection \<open>Ticks\<close>

lemma fire_atoms:
  assumes "sched_inv s"
  shows "atoms env s (fst (fire env s)) \<and> snd (fire env s) \<noteq> None"
proof -
  obtain s1 r where a: "all_schedules env s = (s1, r)" by fastforce
  have inv: "atoms env s s1" "sched_inv s1" and all: "\<And>all. r = Inr all \<Longrightarrow> all = d_schedules (sc_db s1)"
    using runs_all [OF assms, of env] unfolding a runs_def by auto
  show ?thesis
  proof (cases r)
    case (Inl e)
    then show ?thesis using a inv by (simp add: fire_def Let_def)
  next
    case (Inr ss)
    let ?due = "due_schedules (sched_now env s) ss"
    obtain s2 n where each: "fire_each env (sched_now env s) ?due (forget_known s1) 0 = (s2, n)" by fastforce
    have fo: "atoms env s1 (forget_known s1)" using a_forget [of env s1 "sc_changes s1"] by (auto simp: forget_known_def)
    then have "sched_inv (forget_known s1)" using inv(2) atoms_inv by blast
    moreover have "set ?due \<subseteq> set (d_schedules (sc_db (forget_known s1)))" using all [OF Inr] by (auto simp: forget_known_def due_schedules_def)
    moreover have "distinct (map s_id ?due)" using due_ids [OF inv(2)] all [OF Inr] by simp
    ultimately have e: "atoms env (forget_known s1) s2 \<and> n \<noteq> None" using fire_each_atoms [OF each] by (simp add: forget_known_def)
    then have "atoms env s (sched_changed s2)" using inv(1) fo atoms_changed by (meson rtranclp_trans)
    then show ?thesis using a Inr inv(1) each e by (auto simp: fire_def Let_def)
  qed
qed

lemma next_due_atoms: "sched_inv s \<Longrightarrow> atoms env s (fst (next_due env s))"
  using runs_atoms [OF runs_all, of s env] unfolding next_due_def by (auto split: prod.splits sum.splits)

lemma tick_atoms: "sched_inv s \<Longrightarrow> atoms env s (fst (tick env s)) \<and> snd (tick env s) \<noteq> None"
proof -
  assume i: "sched_inv s"
  obtain s1 n where f: "fire env s = (s1, Some n)" using fire_atoms [OF i, of env] by (cases "fire env s") auto
  then have a: "atoms env s s1" using fire_atoms [OF i, of env] by simp
  then have "atoms env s (fst (next_due env s1))" using next_due_atoms atoms_inv [OF a i] by (meson rtranclp_trans)
  then show ?thesis using f by (cases "next_due env s1") (simp add: tick_def)
qed

subsection \<open>Everything that happens\<close>

datatype sched_event =
    Sched_Request json
  | Sched_Tick
  | Mail_Queue string string string string "string option" "json option"
  | Mail_Took "mail list"
  | Clock_Advance rat
  | Daemon_Restart "string list"

fun sched_step :: "sched_env \<Rightarrow> sched_event \<Rightarrow> scheds \<Rightarrow> scheds" where
  "sched_step env (Sched_Request args) s = fst (handle_schedule env args s)"
| "sched_step env Sched_Tick s = fst (tick env s)"
| "sched_step env (Mail_Queue rc rp fr tx md cm) s = fst (mail_queue env rc rp fr tx md cm s)"
| "sched_step env (Mail_Took ms) s = took env ms s"
| "sched_step env (Clock_Advance secs) s = advance secs s"
| "sched_step env (Daemon_Restart repos) s = restart env repos s"

definition sched_empty :: scheds where
  "sched_empty = \<lparr>sc_db = \<lparr>d_schedules = [], d_firings = [], d_messages = [], d_meta = []\<rparr>, sc_waiting = [], sc_skew = 0, sc_known = None,
     sc_changes = 0, sc_calls = 0\<rparr>"

inductive sched_reach :: "(sched_env \<Rightarrow> bool) \<Rightarrow> scheds \<Rightarrow> bool" for ok where
  sr_start: "sched_reach ok sched_empty"
| sr_step: "sched_reach ok s \<Longrightarrow> ok env \<Longrightarrow> sched_reach ok (sched_step env e s)"

lemma handle_atoms: "sched_inv s \<Longrightarrow> atoms env s (fst (handle_schedule env args s))"
proof -
  assume "sched_inv s"
  note r = this [THEN runs_add] this [THEN runs_list] this [THEN runs_remove] this [THEN runs_pause] this [THEN runs_resume] this [THEN runs_run] this [THEN runs_reply]
  note a = r(1) [THEN runs_atoms] r(2) [THEN runs_atoms] r(3) [THEN runs_atoms] r(4) [THEN runs_atoms] r(5) [THEN runs_atoms] r(6) [THEN runs_atoms] r(7) [THEN runs_atoms]
  show ?thesis using a unfolding handle_schedule_def by (auto split: option.split)
qed

lemma queue_atoms: "atoms env s (fst (mail_queue env rc rp fr tx md cm s))"
proof (cases "se_fail env (sc_calls s)")
  case (Some e)
  then show ?thesis using atoms_called by (simp add: mail_queue_def db_call_def)
next
  case None
  obtain d m where d: "put_message rc rp fr tx md cm (se_clock env (sc_calls s)) (sc_db s) = (d, m)" by fastforce
  with None show ?thesis using a_post [OF d, of env] by (auto simp: mail_queue_def db_call_def)
qed

lemma took_atoms: "atoms env s (took env ms s)"
proof -
  let ?ids = "map m_id ms" and ?t = "se_clock env (sc_calls s)"
  let ?s = "fst (db_call env (\<lambda>d. Inr (mark_delivered ?ids ?t d, ())) s)"
  let ?w = "?s\<lparr>sc_waiting := filter (\<lambda>m. m_id m \<notin> set ?ids) (sc_waiting ?s)\<rparr>"
  have "atoms env s ?w"
  proof (cases "se_fail env (sc_calls s)")
    case (Some e)
    then have "atom env (called s) ?w" using a_lost [of env "sc_calls s" "filter (\<lambda>m. m_id m \<notin> set ?ids) (sc_waiting s)" "called s"] by (simp add: db_call_def)
    then show ?thesis using atoms_called by (rule rtranclp.rtrancl_into_rtrancl [rotated])
  next
    case None
    then show ?thesis using a_took [of env s ?ids ?t] by (auto simp: db_call_def)
  qed
  then show ?thesis using atoms_changed [of env ?w] by (auto simp: took_def Let_def split: prod.split intro: rtranclp_trans)
qed

lemma restart_atoms: "atoms env s (restart env repos s)"
proof -
  let ?p = "db_call env (\<lambda>d. Inr (d, waiting_messages d)) s"
  let ?w = "(fst ?p)\<lparr>sc_waiting := (case snd ?p of Inr w \<Rightarrow> w | Inl _ \<Rightarrow> []), sc_skew := 0, sc_known := None\<rparr>"
  have seeds: "atoms env x (foldl (\<lambda>s repo. case se_repo_of env repo of Some r \<Rightarrow> seed env r s | None \<Rightarrow> s) x repos)" for x
  proof (induction repos arbitrary: x)
    case (Cons r rs)
    then show ?case using seed_atoms [of env x] by (cases "se_repo_of env r") (auto intro: rtranclp_trans)
  qed simp
  let ?v = "(called s)\<lparr>sc_waiting := (case snd ?p of Inr w \<Rightarrow> w | Inl _ \<Rightarrow> [])\<rparr>"
  have "atom env (called s) ?v"
    using a_lost [of env "sc_calls s" "[]" "called s"] a_wait [of env "called s"] by (cases "se_fail env (sc_calls s)") (auto simp: db_call_def)
  moreover have "fst ?p = called s" by (cases "se_fail env (sc_calls s)") (simp_all add: db_call_def)
  then have w: "?w = (?v\<lparr>sc_skew := 0\<rparr>)\<lparr>sc_known := None, sc_changes := sc_changes ?v\<rparr>" by simp
  have "atoms env ?v ?w" unfolding w by (rule converse_rtranclp_into_rtranclp [OF a_skew r_into_rtranclp [of "atom env", OF a_forget]])
  ultimately have "atoms env s ?w" using atoms_called by (meson rtranclp.rtrancl_into_rtrancl rtranclp_trans)
  then show ?thesis using seeds unfolding restart_def by (auto simp: Let_def split: prod.split intro: rtranclp_trans)
qed

lemma step_atoms: "sched_inv s \<Longrightarrow> atoms env s (sched_step env e s)"
  using a_skew [of env s] by (cases e) (auto simp: advance_def tick_atoms handle_atoms queue_atoms took_atoms restart_atoms)

lemma sched_reach_inv: "sched_reach ok s \<Longrightarrow> sched_inv s"
proof (induction rule: sched_reach.induct)
  case sr_start
  show ?case by (simp add: sched_empty_def sched_inv_def db_inv_def cache_ok_def names_once_def)
next
  case (sr_step s env e)
  then show ?case using step_atoms atoms_inv by blast
qed

end
