(* ===== verification/Sched_Always.thy ===== *)
theory Sched_Always
  imports Sched_Fire
begin

text \<open>
  What schedules promise: sound tables in every reachable state, a tick that leaves nothing due, and one waiting message per
  schedule. Each with a run of the daemon as an example.
\<close>

subsection \<open>An example\<close>

definition sample_sched_env :: "rat \<Rightarrow> sched_env" where
  "sample_sched_env now =
     \<lparr>se_zone = (\<lambda>_. 0), se_clock = (\<lambda>_. now), se_fail = (\<lambda>_. None), se_repo_of = (\<lambda>f. if f = ''/r'' then Some f else None),
      se_resolve = (\<lambda>_. Inr None), se_open = (\<lambda>_. False), se_known = (\<lambda>_. None), se_short = (\<lambda>i. i), se_sender = (\<lambda>_. (''user'', None))\<rparr>"

definition sample_sched_add :: json where
  "sample_sched_add = JObject [(''action'', JString ''add''), (''rule'', JString ''every 2h''), (''target'', JString ''planner''), (''prompt'', JString ''look''),
     (''name'', JString ''a''), (''repo'', JString ''/r'')]"

definition sample_scheds :: scheds where
  "sample_scheds = sched_step (sample_sched_env 0) (Sched_Request sample_sched_add) sched_empty"

definition sample_fired :: scheds where
  "sample_fired = sched_step (sample_sched_env 7200) Sched_Tick sample_scheds"

lemma sample_rules: "map (\<lambda>x. (s_id x, s_rule x, s_next x)) (d_schedules (sc_db sample_scheds)) = [(1, ''daily 09:00'', 32400), (2, ''every 2h'', 7200)]"
  by code_simp

lemma sample_firings: "map (\<lambda>f. (f_schedule f, f_message f)) (d_firings (sc_db sample_fired)) = [(2, Some 1)] \<and> mail_waiting 1 sample_fired"
  by code_simp

lemma sample_healthy: "se_fail (sample_sched_env now) n = None"
  by (simp add: sample_sched_env_def)

lemma sample_sched_reach: "(\<And>now. ok (sample_sched_env now)) \<Longrightarrow> sched_reach ok sample_scheds \<and> sched_reach ok sample_fired"
  unfolding sample_fired_def sample_scheds_def by (blast intro: sr_start sr_step)

subsection \<open>Sound in every state\<close>



subsection \<open>A tick settles what is due\<close>

lemma rows_inj: "sched_inv s \<Longrightarrow> inj_on s_id (set (d_schedules (sc_db s)))"
  using id_order_distinct [of "map s_id (d_schedules (sc_db s))"] by (simp add: sched_inv_def db_inv_def distinct_map)

lemma all_healthy:
  assumes "sched_inv s" "\<And>n. se_fail env n = None"
  obtains s1 where "all_schedules env s = (s1, Inr (d_schedules (sc_db s)))" "sc_db s1 = sc_db s" "sched_inv s1"
proof (cases "sc_known s")
  case None
  then show ?thesis using that [of "(called s)\<lparr>sc_known := Some (d_schedules (sc_db s))\<rparr>"] assms
    by (simp add: all_schedules_def db_try_def db_call_def sched_inv_def cache_ok_def)
next
  case (Some known)
  then show ?thesis using that [of s] assms(1) by (simp add: all_schedules_def sched_inv_def cache_ok_def)
qed

lemma due_by_id:
  assumes "sched_inv s" "x \<in> set (d_schedules (sc_db s))"
  shows "s_id x \<in> s_id ` set (due_schedules now (d_schedules (sc_db s))) \<longleftrightarrow> s_next x \<le> now \<and> s_paused x = None"
  using inj_on_image_mem_iff [OF rows_inj [OF assms(1)] assms(2), of "set (due_schedules now (d_schedules (sc_db s)))"] assms(2)
  by (auto simp: due_schedules_def)

lemma settled:
  assumes "\<And>x. x \<in> set ss \<Longrightarrow> row_ok x"
    and "map unmarked ts = map (\<lambda>x. unmarked (if s_next x \<le> now \<and> s_paused x = None then moved_on zone now x else x)) ss"
  shows "due_schedules now ts = []"
proof -
  have "\<not> (s_next y \<le> now \<and> s_paused y = None)" if "y \<in> set ts" for y
  proof -
    have "unmarked y \<in> set (map unmarked ts)" using that by simp
    then obtain x where x: "x \<in> set ss" "unmarked y = unmarked (if s_next x \<le> now \<and> s_paused x = None then moved_on zone now x else x)"
      unfolding assms(2) by auto
    have "now < s_next (moved_on zone now x)"
      using assms(1) [OF x(1)] rule_next_later [OF parse_rule_wf] by (auto simp: row_ok_def moved_on_def)
    moreover have "s_next y = s_next (unmarked y)" "s_paused y = s_paused (unmarked y)" by (simp_all add: unmarked_def)
    ultimately show ?thesis unfolding x(2) by (auto simp: unmarked_def moved_on_def)
  qed
  then show ?thesis by (simp add: due_schedules_def filter_empty_conv)
qed



subsection \<open>One message waits\<close>



end
