(* ===== verification/Sched_Dates.thy ===== *)
theory Sched_Dates
  imports Sched_Rules
begin

text \<open>
  The dates of \<open>civil_from_days\<close> are those of the Gregorian calendar: a reference that counts the days of the years and months
  before a date, and the theorem that the conversion is its inverse.
\<close>

subsection \<open>The calendar\<close>

definition is_leap :: "int \<Rightarrow> bool" where
  "is_leap y \<longleftrightarrow> y mod 4 = 0 \<and> (y mod 100 \<noteq> 0 \<or> y mod 400 = 0)"

definition month_len :: "int \<Rightarrow> int \<Rightarrow> int" where
  "month_len y m = (if m = 2 then (if is_leap y then 29 else 28) else if m \<in> {4, 6, 9, 11} then 30 else 31)"

definition days_before_month :: "int \<Rightarrow> int \<Rightarrow> int" where
  "days_before_month y m = sum_list (map (month_len y) [1 .. m - 1])"

definition days_before_year :: "int \<Rightarrow> int" where
  "days_before_year y = 365 * (y - 1) + (y - 1) div 4 - (y - 1) div 100 + (y - 1) div 400"

text \<open>Days since 1 January 1970, which comes 719162 days after 1 January of the year 1.\<close>

definition day_number :: "int \<Rightarrow> int \<Rightarrow> int \<Rightarrow> int" where
  "day_number y m d = days_before_year y + days_before_month y m + (d - 1) - 719162"

definition valid_date :: "int \<Rightarrow> int \<Rightarrow> int \<Rightarrow> bool" where
  "valid_date y m d \<longleftrightarrow> 1 \<le> m \<and> m \<le> 12 \<and> 1 \<le> d \<and> d \<le> month_len y m"

lemma div_step:
  assumes "1 < (k :: int)"
  shows "(y - 1) div k = y div k - (if y mod k = 0 then 1 else 0)"
proof (cases "y mod k = 0")
  case True
  have "y = k * (y div k)" using True by (metis add.right_neutral mult_div_mod_eq)
  then have "y - 1 = k * (y div k - 1) + (k - 1)" by (simp add: algebra_simps)
  from int_div_pos_eq [OF this] assms True show ?thesis by simp
next
  case False
  have "0 < y mod k" "y mod k < k" using False assms pos_mod_sign [of k y] pos_mod_bound [of k y] by linarith+
  moreover have "y - 1 = k * (y div k) + (y mod k - 1)" by (simp add: algebra_simps)
  ultimately show ?thesis using int_div_pos_eq [of "y - 1" k "y div k" "y mod k - 1"] False by simp
qed

lemma mod_mod_int: "(y :: int) mod 400 = 0 \<Longrightarrow> y mod 100 = 0" "(y :: int) mod 100 = 0 \<Longrightarrow> y mod 4 = 0"
  by presburger+

text \<open>The count of leap days up to a year, without the division of the year before.\<close>

lemma days_before_year_leap: "days_before_year y + (if is_leap y then 1 else 0) = 365 * (y - 1) + y div 4 - y div 100 + y div 400"
  using mod_mod_int [of y] by (auto simp: days_before_year_def is_leap_def div_step)

subsection \<open>Years\<close>

text \<open>Days before a year that starts in March, within 400 years.\<close>

definition march_days :: "int \<Rightarrow> int" where
  "march_days y = 365 * y + y div 4 - y div 100"

definition yoe_days :: "int \<Rightarrow> int" where
  "yoe_days doe = doe - doe div 1460 + doe div 36524 - doe div 146096"

lemma year_ends:
  "list_all (\<lambda>y. 365 * y \<le> yoe_days (march_days y) \<and> yoe_days (march_days (y + 1) - (if y = 399 then 0 else 1)) < 365 * (y + 1) \<and>
     0 \<le> march_days y \<and> march_days (y + 1) - (if y = 399 then 0 else 1) \<le> 146096) [0 .. 399]"
  by code_simp

lemma yoe_days_step:
  assumes "0 \<le> n" "n < 146096"
  shows "yoe_days n \<le> yoe_days (n + 1)"
proof (cases "n = 146095")
  case False
  have a: "(n + 1) div 1460 \<le> n div 1460 + 1" using div_step [of 1460 "n + 1"] by simp
  have b: "n div 36524 \<le> (n + 1) div 36524" by (rule zdiv_mono1) simp_all
  have c: "(n + 1) div 146096 = 0" "n div 146096 = 0" using assms False by (simp_all add: div_pos_pos_trivial)
  have arith: "n - d + e - f \<le> n + 1 - d' + e' - f'" if "d' \<le> d + 1" "e \<le> e'" "f' = 0" "f = 0" for d d' e e' f f' :: int
    using that by simp
  show ?thesis unfolding yoe_days_def by (rule arith [OF a b c])
qed (simp add: yoe_days_def)

lemma yoe_days_mono:
  assumes "0 \<le> a" "a \<le> b" "b \<le> 146096"
  shows "yoe_days a \<le> yoe_days b"
proof -
  have "yoe_days a \<le> yoe_days (a + int n)" if "a + int n \<le> 146096" for n
    using that
  proof (induction n)
    case (Suc n)
    from Suc.prems assms(1) have "yoe_days (a + int n) \<le> yoe_days (a + int n + 1)" by (intro yoe_days_step) simp_all
    moreover have "a + int (Suc n) = a + int n + 1" by simp
    ultimately show ?case using Suc by (metis add.assoc add_le_cancel_left le_add_same_cancel1 order.trans zero_le_one)
  qed simp
  from this [of "nat (b - a)"] assms show ?thesis by simp
qed

lemma march_cover:
  assumes "0 \<le> doe" "doe < 146097"
  obtains y where "0 \<le> y" "y \<le> 399" "march_days y \<le> doe" "doe \<le> march_days (y + 1) - (if y = 399 then 0 else 1)"
proof -
  let ?P = "\<lambda>k :: nat. k \<le> 399 \<and> march_days (int k) \<le> doe"
  have p: "?P 0" using assms by (simp add: march_days_def)
  have "\<exists>k. ?P k \<and> (\<forall>j. ?P j \<longrightarrow> j \<le> k)"
    by (rule ex_has_greatest_nat [where P = ?P and f = "\<lambda>k. k" and b = 400, OF p]) simp
  then obtain k where k: "?P k" "\<forall>j. ?P j \<longrightarrow> j \<le> k" by blast
  show thesis
  proof (rule that [of "int k"])
    show "doe \<le> march_days (int k + 1) - (if int k = 399 then 0 else 1)"
    proof (cases "k = 399")
      case True
      then show ?thesis using assms by (simp add: march_days_def)
    next
      case False
      then have "\<not> ?P (Suc k)" using k by (metis Suc_n_not_le_n)
      with False k have "doe < march_days (int k + 1)" by (simp add: not_le add.commute)
      with False show ?thesis by simp
    qed
  qed (use k in auto)
qed

lemma civil_yoe_exact:
  assumes "0 \<le> doe" "doe < 146097"
  shows "0 \<le> civil_yoe doe \<and> civil_yoe doe \<le> 399 \<and> march_days (civil_yoe doe) \<le> doe \<and>
    doe \<le> march_days (civil_yoe doe + 1) - (if civil_yoe doe = 399 then 0 else 1)"
proof -
  obtain y where y: "0 \<le> y" "y \<le> 399" "march_days y \<le> doe" "doe \<le> march_days (y + 1) - (if y = 399 then 0 else 1)"
    using march_cover [OF assms] .
  let ?e = "march_days (y + 1) - (if y = 399 then 0 else 1)"
  have "y \<in> set [0 .. 399]" using y by simp
  with year_ends have e: "365 * y \<le> yoe_days (march_days y)" "yoe_days ?e < 365 * (y + 1)" "0 \<le> march_days y" "?e \<le> 146096"
    unfolding list_all_iff by blast+
  have "yoe_days (march_days y) \<le> yoe_days doe" using e(3) y(3) assms(2) by (intro yoe_days_mono) simp_all
  moreover have "yoe_days doe \<le> yoe_days ?e" using assms(1) y(4) e(4) by (intro yoe_days_mono)
  ultimately have "yoe_days doe div 365 = y" using e(1,2) int_div_pos_eq [of "yoe_days doe" 365 y "yoe_days doe - 365 * y"] by simp
  then have "civil_yoe doe = y" by (simp only: civil_yoe_def yoe_days_def)
  with y show ?thesis by simp
qed

text \<open>The last day of a year that starts in March is 29 February, in a leap year.\<close>

lemma march_days_step: "march_days (y + 1) - march_days y = 365 + ((if (y + 1) mod 4 = 0 then 1 else 0) - (if (y + 1) mod 100 = 0 then 1 else 0))"
  using div_step [of 4 "y + 1"] div_step [of 100 "y + 1"] by (simp add: march_days_def)

lemma march_last_day:
  assumes "0 \<le> y" "y \<le> 399" "doy \<le> march_days (y + 1) - (if y = 399 then 0 else 1) - march_days y"
  shows "doy \<le> 364 \<or> doy = 365 \<and> is_leap (y + 1)"
proof (cases "y = 399")
  case True
  then have "doy \<le> 365" "is_leap (y + 1)" using assms by (simp_all add: march_days_def is_leap_def)
  then show ?thesis by linarith
next
  case False
  then have "(y + 1) mod 400 \<noteq> 0" using assms by (simp add: mod_pos_pos_trivial)
  with assms(3) False march_days_step [of y] mod_mod_int(2) [of "y + 1"] show ?thesis by (auto simp: is_leap_def split: if_splits)
qed

lemma is_leap_era: "is_leap (y + era * 400) = is_leap y"
  using mod_mult_self1 [of y "era * 100" 4] mod_mult_self1 [of y "era * 4" 100] mod_mult_self1 [of y era 400] by (simp add: is_leap_def mult.commute)

subsection \<open>Months\<close>

definition march_month :: "int \<Rightarrow> int \<times> int" where
  "march_month doy = (let mp = (5 * doy + 2) div 153 in (mp, doy - (153 * mp + 2) div 5 + 1))"

definition month_ok :: "int \<Rightarrow> bool" where
  "month_ok doy \<longleftrightarrow> (let (mp, d) = march_month doy; m = (if mp < 10 then mp + 3 else mp - 9)
     in 1 \<le> m \<and> m \<le> 12 \<and> 1 \<le> d \<and> d \<le> (if m = 2 then (if doy = 365 then 29 else 28) else if m \<in> {4, 6, 9, 11} then 30 else 31) \<and>
        doy = (if m \<le> 2 then 306 + (if m = 2 then 31 else 0) else [0, 31, 61, 92, 122, 153, 184, 214, 245, 275] ! nat (m - 3)) + d - 1)"

lemma months_ok: "list_all month_ok [0 .. 365]"
  by code_simp

lemma months_upto:
  "[1 .. 0] = ([] :: int list)" "[1 .. 1] = [1 :: int]" "[1 .. 2] = [1, 2 :: int]" "[1 .. 3] = [1, 2, 3 :: int]" "[1 .. 4] = [1, 2, 3, 4 :: int]"
  "[1 .. 5] = [1, 2, 3, 4, 5 :: int]" "[1 .. 6] = [1, 2, 3, 4, 5, 6 :: int]" "[1 .. 7] = [1, 2, 3, 4, 5, 6, 7 :: int]"
  "[1 .. 8] = [1, 2, 3, 4, 5, 6, 7, 8 :: int]" "[1 .. 9] = [1, 2, 3, 4, 5, 6, 7, 8, 9 :: int]"
  "[1 .. 10] = [1, 2, 3, 4, 5, 6, 7, 8, 9, 10 :: int]" "[1 .. 11] = [1, 2, 3, 4, 5, 6, 7, 8, 9, 10, 11 :: int]"
  by code_simp+

lemma days_before_month_values:
  "days_before_month y 1 = 0" "days_before_month y 2 = 31"
  "3 \<le> m \<Longrightarrow> m \<le> 12 \<Longrightarrow> days_before_month y m = 59 + (if is_leap y then 1 else 0) + [0, 31, 61, 92, 122, 153, 184, 214, 245, 275] ! nat (m - 3)"
proof -
  show "days_before_month y 1 = 0" "days_before_month y 2 = 31" by (simp_all add: days_before_month_def month_len_def months_upto)
  assume "3 \<le> m" "m \<le> 12"
  then have m: "m \<in> set [3 .. 12]" by (simp only: set_upto atLeastAtMost_iff)
  have e: "[3 .. 12] = [3, 4, 5, 6, 7, 8, 9, 10, 11, 12 :: int]" by code_simp
  from m have "m \<in> set [3, 4, 5, 6, 7, 8, 9, 10, 11, 12]" unfolding e .
  then consider "m = 3" | "m = 4" | "m = 5" | "m = 6" | "m = 7" | "m = 8" | "m = 9" | "m = 10" | "m = 11" | "m = 12" by auto
  then show "days_before_month y m = 59 + (if is_leap y then 1 else 0) + [0, 31, 61, 92, 122, 153, 184, 214, 245, 275] ! nat (m - 3)"
    by cases (simp_all add: days_before_month_def month_len_def months_upto)
qed

lemma era_divisions:
  assumes "0 \<le> y" "y \<le> 399"
  shows "(y + era * 400) div 4 = y div 4 + 100 * era" "(y + era * 400) div 100 = y div 100 + 4 * era" "(y + era * 400) div 400 = (era :: int)"
  using div_mult_self1 [of 4 y "era * 100"] div_mult_self1 [of 100 y "era * 4"] div_mult_self1 [of 400 y era] assms
  by (simp_all add: div_pos_pos_trivial)

subsection \<open>Properties\<close>

text \<open>
  C34. The date \<open>civil_from_days\<close> gives for a number of days since 1 January 1970 is a date of the Gregorian calendar, and the
  one that comes that many days after.
\<close>

theorem civil_from_days_exact:
  "case civil_from_days z of (y, m, d) \<Rightarrow> valid_date y m d \<and> day_number y m d = z"
proof -
  define era doe where "era = (z + 719468) div 146097" and "doe = z + 719468 - era * 146097"
  define yoe where "yoe = civil_yoe doe"
  define doy where "doy = doe - march_days yoe"
  have "doe = (z + 719468) mod 146097" by (simp add: doe_def era_def minus_div_mult_eq_mod)
  then have doe: "0 \<le> doe" "doe < 146097" by simp_all
  note yoe = civil_yoe_exact [OF doe, folded yoe_def]
  have doy: "0 \<le> doy" "doy \<le> 365" "doy \<le> 364 \<or> doy = 365 \<and> is_leap (yoe + 1)"
    using yoe march_last_day [of yoe doy] by (auto simp: doy_def)
  obtain mp d where md: "march_month doy = (mp, d)" by force
  define m where "m = (if mp < 10 then mp + 3 else mp - 9)"
  have "doy \<in> set [0 .. 365]" using doy by simp
  with months_ok have "month_ok doy" unfolding list_all_iff by blast
  then have m: "1 \<le> m" "m \<le> 12" "1 \<le> d" "d \<le> (if m = 2 then (if doy = 365 then 29 else 28) else if m \<in> {4, 6, 9, 11} then 30 else 31)"
    "doy = (if m \<le> 2 then 306 + (if m = 2 then 31 else 0) else [0, 31, 61, 92, 122, 153, 184, 214, 245, 275] ! nat (m - 3)) + d - 1"
    unfolding month_ok_def md Let_def prod.case m_def [symmetric] by blast+
  define y where "y = (if m \<le> 2 then yoe + era * 400 + 1 else yoe + era * 400)"
  have c: "civil_from_days z = (y, m, d)"
  proof -
    have "doe - (365 * yoe + yoe div 4 - yoe div 100) = doy" by (simp only: doy_def march_days_def)
    moreover have "mp = (5 * doy + 2) div 153" "d = doy - (153 * mp + 2) div 5 + 1" using md unfolding march_month_def Let_def prod.inject by blast+
    ultimately show ?thesis
      unfolding civil_from_days_def Let_def era_def [symmetric] doe_def [symmetric] yoe_def [symmetric] y_def m_def by (simp only:)
  qed
  have z: "z = era * 146097 + march_days yoe + doy - 719468" by (simp add: doy_def doe_def)
  note er = era_divisions [of yoe era] yoe
  show ?thesis
  proof (cases "m \<le> 2")
    case True
    then have yy: "y = yoe + 1 + era * 400" and m12: "m = 1 \<or> m = 2" using m by (auto simp: y_def)
    have "days_before_year y = era * 146097 + march_days yoe"
      using er by (simp add: days_before_year_def yy march_days_def)
    moreover have "is_leap y = is_leap (yoe + 1)" unfolding yy by (rule is_leap_era)
    moreover from m12 consider "m = 1" | "m = 2" by blast
    then have "(if m = 2 then 31 else 0) = days_before_month y m" by cases (simp_all add: days_before_month_values)
    ultimately show ?thesis
      using c z m m12 doy(3) True by (auto simp: valid_date_def day_number_def month_len_def split: if_splits)
  next
    case False
    then have yy: "y = yoe + era * 400" by (simp add: y_def)
    have "days_before_year y + (if is_leap y then 1 else 0) = era * 146097 + march_days yoe - 365"
      using er unfolding days_before_year_leap by (simp add: yy march_days_def)
    with False show ?thesis
      using c z m days_before_month_values(3) [of m y] by (auto simp: valid_date_def day_number_def month_len_def split: if_splits)
  qed
qed

end
