(* ===== verification/Rep_Model.thy ===== *)
theory Rep_Model
  imports Net_Log Kanna_Utf8 "HOL-Library.AList" "HOL-Library.Product_Lexorder"
begin

text \<open>
  The replicated Shelf (\<open>kanna-daemon/src/replica.rs\<close>): records of tasks whose fields are written at hybrid logical times and
  merged by the later write, the operations a machine has stored, and the permission to run a task, which is handed on with a
  growing epoch. The wall clock is an argument; a transaction may fail, and then changes nothing: the \<open>n\<close>th of an operation
  fails when the argument \<open>fl\<close> gives an error for \<open>n\<close>. Times and epochs are taken to stay below \<open>2 ^ 63\<close>.
\<close>

subsection \<open>Times\<close>

datatype hlc = Hlc (h_ms: int) (h_n: int) (h_device: string)

definition hlc_key :: "hlc \<Rightarrow> int \<times> int \<times> string" where
  "hlc_key h = (h_ms h, h_n h, h_device h)"

lemma hlc_key_inj: "hlc_key a = hlc_key b \<longleftrightarrow> a = b"
  by (cases a; cases b) (simp add: hlc_key_def)

text \<open>The derived order compares the fields in turn.\<close>

instantiation hlc :: linorder
begin

definition less_eq_hlc :: "hlc \<Rightarrow> hlc \<Rightarrow> bool" where
  "a \<le> b \<longleftrightarrow> hlc_key a \<le> hlc_key b"

definition less_hlc :: "hlc \<Rightarrow> hlc \<Rightarrow> bool" where
  "a < b \<longleftrightarrow> hlc_key a < hlc_key b"

instance
proof
  fix a b c :: hlc
  show "a < b \<longleftrightarrow> a \<le> b \<and> \<not> b \<le> a" by (auto simp: less_eq_hlc_def less_hlc_def)
  show "a \<le> a" by (simp add: less_eq_hlc_def)
  show "a \<le> b \<Longrightarrow> b \<le> c \<Longrightarrow> a \<le> c" unfolding less_eq_hlc_def by (rule order_trans)
  show "a \<le> b \<Longrightarrow> b \<le> a \<Longrightarrow> a = b" unfolding less_eq_hlc_def using hlc_key_inj by (metis order_antisym)
  show "a \<le> b \<or> b \<le> a" unfolding less_eq_hlc_def by (rule linear)
qed

end

definition dec_int :: "int \<Rightarrow> string" where
  "dec_int i = (if i < 0 then CHR ''-'' # dec (nat (- i)) else dec (nat i))"

definition hlc_text :: "hlc \<Rightarrow> string" where
  "hlc_text h = dec_int (h_ms h) @ ''.'' @ dec_int (h_n h) @ ''.'' @ h_device h"

definition hlc_parse :: "string \<Rightarrow> hlc option" where
  "hlc_parse t =
     (case splitn 3 (CHR ''.'') t of
        [a, b, d] \<Rightarrow> (case (parse_i64 a, parse_i64 b) of (Some ms, Some n) \<Rightarrow> Some (Hlc ms n d) | _ \<Rightarrow> None)
      | _ \<Rightarrow> None)"

subsection \<open>Operations and records\<close>

record op =
  op_at :: hlc
  op_task :: string
  op_birth :: string
  op_field :: string
  op_value :: json

definition op_to_value :: "op \<Rightarrow> json" where
  "op_to_value o1 = JObject [(''device'', JString (h_device (op_at o1))), (''ms'', JNumber (NInt (h_ms (op_at o1)))), (''n'', JNumber (NInt (h_n (op_at o1)))),
     (''task'', JString (op_task o1)), (''birth'', JString (op_birth o1)), (''field'', JString (op_field o1)), (''value'', op_value o1)]"

definition full_text :: "json \<Rightarrow> string \<Rightarrow> string option" where
  "full_text v k = (case json_string v k of Some s \<Rightarrow> if s = [] then None else Some s | None \<Rightarrow> None)"

definition op_from_value :: "json \<Rightarrow> op option" where
  "op_from_value v =
     (case (Option.bind (jget v ''ms'') as_i64, Option.bind (jget v ''n'') as_i64, full_text v ''device'') of
        (Some ms, Some n, Some device) \<Rightarrow>
          (case (full_text v ''task'', full_text v ''birth'', full_text v ''field'') of
             (Some task, Some birth, Some field) \<Rightarrow>
               Some \<lparr>op_at = Hlc ms n device, op_task = task, op_birth = birth, op_field = field,
                     op_value = (case jget v ''value'' of Some x \<Rightarrow> x | None \<Rightarrow> Null)\<rparr>
           | _ \<Rightarrow> None)
      | _ \<Rightarrow> None)"

definition ops_of :: "json \<Rightarrow> op list" where
  "ops_of v = (case as_array v of None \<Rightarrow> [] | Some vs \<Rightarrow> List.map_filter op_from_value vs)"

definition ops_value :: "op list \<Rightarrow> json" where
  "ops_value os = JArray (map op_to_value os)"

record rep_record =
  rr_task :: string
  rr_birth :: string
  rr_fields :: "(string, hlc \<times> json) btree"

definition RUN :: string where "RUN = ''run.''"

definition rr_get :: "rep_record \<Rightarrow> string \<Rightarrow> json" where
  "rr_get r f = (case map_of (rr_fields r) f of Some (_, v) \<Rightarrow> v | None \<Rightarrow> Null)"

definition rr_text :: "rep_record \<Rightarrow> string \<Rightarrow> string option" where
  "rr_text r f = (case as_str (rr_get r f) of Some s \<Rightarrow> if s = [] then None else Some s | None \<Rightarrow> None)"

definition rr_list :: "rep_record \<Rightarrow> string \<Rightarrow> string list" where
  "rr_list r f = (case as_array (rr_get r f) of None \<Rightarrow> [] | Some vs \<Rightarrow> List.map_filter as_str vs)"

definition rr_runs :: "rep_record \<Rightarrow> string list" where
  "rr_runs r = List.map_filter (\<lambda>(f, _). strip_prefix RUN f) (rr_fields r)"

definition rr_keys_after :: "rep_record \<Rightarrow> string \<Rightarrow> string list" where
  "rr_keys_after r p = List.map_filter (\<lambda>(f, _, v). if v = Null then None else strip_prefix p f) (rr_fields r)"

definition rr_born :: "rep_record \<Rightarrow> hlc" where
  "rr_born r = (case hlc_parse (rr_birth r) of Some h \<Rightarrow> h | None \<Rightarrow> Hlc 0 0 (rr_birth r))"

definition rr_to_value :: "rep_record \<Rightarrow> json" where
  "rr_to_value r = JObject (foldl (\<lambda>v (f, _, x). oinsert f x v) [(''task'', JString (rr_task r)), (''birth'', JString (rr_birth r))] (rr_fields r))"

definition rr_see :: "op \<Rightarrow> rep_record \<Rightarrow> rep_record \<times> bool" where
  "rr_see o1 r =
     (case map_of (rr_fields r) (op_field o1) of
        Some (t, _) \<Rightarrow> if t \<ge> op_at o1 then (r, False) else (r\<lparr>rr_fields := bt_insert (op_field o1) (op_at o1, op_value o1) (rr_fields r)\<rparr>, True)
      | None \<Rightarrow> (r\<lparr>rr_fields := bt_insert (op_field o1) (op_at o1, op_value o1) (rr_fields r)\<rparr>, True))"

subsection \<open>A machine\<close>

datatype permit = PReady | PRunning | PSent | PAcked

fun permit_str :: "permit \<Rightarrow> string" where
  "permit_str PReady = ''ready''" | "permit_str PRunning = ''running''" | "permit_str PSent = ''sent''" | "permit_str PAcked = ''acked''"

definition permit_parse :: "string \<Rightarrow> permit" where
  "permit_parse t = (if t = ''ready'' then PReady else if t = ''running'' then PRunning else if t = ''sent'' then PSent else PAcked)"

record authority =
  au_epoch :: int
  au_permit :: permit
  au_to :: "string option"

record grant =
  gr_task :: string
  gr_birth :: string
  gr_epoch :: int
  gr_to :: string

type_synonym rep_key = "string \<times> string"

text \<open>
  The tables \<open>record_ops\<close> and \<open>authority\<close> and the clock in \<open>meta\<close>. The permit is stored by its name, which is read
  back as the same permit.
\<close>

record rep_db =
  rd_ops :: "op list"
  rd_auth :: "(rep_key \<times> authority) list"
  rd_clock :: "(int \<times> int) option"

record replica =
  rp_me :: string
  rp_clock :: "int \<times> int"
  rp_seen :: "(string \<times> int \<times> int) list"
  rp_records :: "(rep_key, rep_record) btree"

record machine =
  mc_rep :: replica
  mc_db :: rep_db

type_synonym faults = "nat \<Rightarrow> string option"

definition replica_empty :: replica where
  "replica_empty = \<lparr>rp_me = [], rp_clock = (0, 0), rp_seen = [], rp_records = []\<rparr>"

definition op_key :: "op \<Rightarrow> rep_key" where
  "op_key o1 = (op_task o1, op_birth o1)"

definition op_time :: "op \<Rightarrow> int \<times> int" where
  "op_time o1 = (h_ms (op_at o1), h_n (op_at o1))"

text \<open>\<open>entry(device).or_insert(..)\<close>, then the later of the two.\<close>

definition see_device :: "op \<Rightarrow> (string \<times> int \<times> int) list \<Rightarrow> (string \<times> int \<times> int) list" where
  "see_device o1 seen =
     AList.update (h_device (op_at o1)) (case map_of seen (h_device (op_at o1)) of Some t \<Rightarrow> max t (op_time o1) | None \<Rightarrow> op_time o1) seen"

definition project :: "op \<Rightarrow> replica \<Rightarrow> replica \<times> bool" where
  "project o1 r =
     (let rec = (case map_of (rp_records r) (op_key o1) of Some x \<Rightarrow> x | None \<Rightarrow> \<lparr>rr_task = op_task o1, rr_birth = op_birth o1, rr_fields = []\<rparr>);
          (rec', new) = rr_see o1 rec
      in (r\<lparr>rp_seen := see_device o1 (rp_seen r), rp_clock := max (rp_clock r) (op_time o1), rp_records := bt_insert (op_key o1) rec' (rp_records r)\<rparr>, new))"

fun applied :: "op list \<Rightarrow> replica \<Rightarrow> replica \<times> nat" where
  "applied [] r = (r, 0)"
| "applied (o1 # os) r = (let (r, new) = project o1 r; (r, n) = applied os r in (r, if new then Suc n else n))"

definition replica_open :: "rep_db \<Rightarrow> replica" where
  "replica_open d = fst (applied (rd_ops d) (replica_empty\<lparr>rp_clock := (case rd_clock d of Some c \<Rightarrow> c | None \<Rightarrow> (0, 0))\<rparr>))"

definition set_device :: "string \<Rightarrow> replica \<Rightarrow> replica" where
  "set_device d r = r\<lparr>rp_me := d\<rparr>"

definition rep_tick :: "int \<Rightarrow> replica \<Rightarrow> replica \<times> hlc" where
  "rep_tick wall r =
     (let ms = max wall (fst (rp_clock r)); n = (if ms = fst (rp_clock r) then snd (rp_clock r) + 1 else 0)
      in (r\<lparr>rp_clock := (ms, n)\<rparr>, Hlc ms n (rp_me r)))"

definition rep_find :: "string \<Rightarrow> string \<Rightarrow> replica \<Rightarrow> rep_record option" where
  "rep_find task birth r = map_of (rp_records r) (task, birth)"

definition births :: "string \<Rightarrow> replica \<Rightarrow> rep_record list" where
  "births task r = map snd (takeWhile (\<lambda>((t, _), _). t = task) (dropWhile (\<lambda>(k, _). k < (task, [])) (rp_records r)))"

definition open_task :: "string \<Rightarrow> replica \<Rightarrow> bool" where
  "open_task task r \<longleftrightarrow> list_ex (\<lambda>x. case rr_text x ''state'' of Some s \<Rightarrow> s \<noteq> ''done'' | None \<Rightarrow> False) (births task r)"

fun stamp_fields :: "int list \<Rightarrow> string \<Rightarrow> string \<Rightarrow> (string \<times> json) list \<Rightarrow> replica \<Rightarrow> replica \<times> op list" where
  "stamp_fields walls task birth [] r = (r, [])"
| "stamp_fields walls task birth ((f, v) # fs) r =
     (let (r, at1) = rep_tick (case walls of w # _ \<Rightarrow> w | [] \<Rightarrow> 0) r; (r, os) = stamp_fields (tl walls) task birth fs r
      in (r, \<lparr>op_at = at1, op_task = task, op_birth = birth, op_field = f, op_value = v\<rparr> # os))"

text \<open>Values are compared with objects taken as maps.\<close>

definition rep_stage :: "int list \<Rightarrow> string \<Rightarrow> string \<Rightarrow> (string \<times> json) list \<Rightarrow> replica \<Rightarrow> replica \<times> op list" where
  "rep_stage walls task birth fvs r =
     (let current = (case rep_find task birth r of Some x \<Rightarrow> rr_fields x | None \<Rightarrow> [])
      in stamp_fields walls task birth (filter (\<lambda>(f, v). case map_of current f of Some (_, w) \<Rightarrow> sorted_json w \<noteq> sorted_json v | None \<Rightarrow> True) fvs) r)"

text \<open>\<open>insert or ignore\<close>: an operation of a device at a time that is stored already is left out.\<close>

fun insert_ops :: "op list \<Rightarrow> op list \<Rightarrow> op list \<times> nat" where
  "insert_ops [] stored = (stored, 0)"
| "insert_ops (o1 # os) stored =
     (if list_ex (\<lambda>x. op_at x = op_at o1) stored then insert_ops os stored
      else let (stored, n) = insert_ops os (stored @ [o1]) in (stored, Suc n))"

definition rep_commit :: "op list \<Rightarrow> replica \<Rightarrow> rep_db \<Rightarrow> rep_db \<times> nat" where
  "rep_commit os r d = (let (stored, n) = insert_ops os (rd_ops d) in (d\<lparr>rd_ops := stored, rd_clock := Some (rp_clock r)\<rparr>, n))"

definition rep_write :: "faults \<Rightarrow> int list \<Rightarrow> string \<Rightarrow> string \<Rightarrow> (string \<times> json) list \<Rightarrow> machine \<Rightarrow> machine \<times> (string + nat)" where
  "rep_write fl walls task birth fvs m =
     (let (r, os) = rep_stage walls task birth fvs (mc_rep m); m = m\<lparr>mc_rep := r\<rparr>
      in if os = [] then (m, Inr 0)
         else case fl 0 of
                Some e \<Rightarrow> (m, Inl e)
              | None \<Rightarrow> (let (d, _) = rep_commit os r (mc_db m); (r, n) = applied os r in (m\<lparr>mc_rep := r, mc_db := d\<rparr>, Inr n)))"

text \<open>A transaction may fail to start, or after the clock has moved on inside it.\<close>

definition rep_apply :: "faults \<Rightarrow> op list \<Rightarrow> machine \<Rightarrow> machine \<times> (string + nat)" where
  "rep_apply fl os m =
     (let sorted = sort_key op_at os; r = (mc_rep m)\<lparr>rp_clock := foldl (\<lambda>c o1. max c (op_time o1)) (rp_clock (mc_rep m)) sorted\<rparr>
      in case fl 0 of
           Some e \<Rightarrow> (m, Inl e)
         | None \<Rightarrow>
             case fl 1 of
               Some e \<Rightarrow> (m\<lparr>mc_rep := r\<rparr>, Inl e)
             | None \<Rightarrow> (let (d, n) = rep_commit sorted r (mc_db m) in (m\<lparr>mc_rep := fst (applied sorted r), mc_db := d\<rparr>, Inr n)))"

subsection \<open>Exchange\<close>

definition MAX_OPS :: nat where "MAX_OPS = 2000"

definition rep_vector :: "replica \<Rightarrow> json" where
  "rep_vector r = JObject (map (\<lambda>(d, ms, n). (d, JArray [JNumber (NInt ms), JNumber (NInt n)])) (rp_seen r))"

definition vector_at :: "json \<Rightarrow> string \<Rightarrow> int \<times> int" where
  "vector_at v d =
     (case jget v d of
        Some (JArray [x, y]) \<Rightarrow> (case (as_i64 x, as_i64 y) of (Some ms, Some n) \<Rightarrow> (ms, n) | _ \<Rightarrow> (- (2 ^ 63), - (2 ^ 63)))
      | _ \<Rightarrow> (- (2 ^ 63), - (2 ^ 63)))"

definition device_ops :: "string \<Rightarrow> int \<times> int \<Rightarrow> op list \<Rightarrow> op list" where
  "device_ops d t os = sort_key op_time (filter (\<lambda>o1. h_device (op_at o1) = d \<and> op_time o1 > t) os)"

text \<open>The devices in the order in which the hash map gives them.\<close>

fun ops_after_each :: "string list \<Rightarrow> json \<Rightarrow> op list \<Rightarrow> op list \<Rightarrow> op list" where
  "ops_after_each [] v stored out = out"
| "ops_after_each (d # ds) v stored out =
     (let out = out @ take (MAX_OPS - length out) (device_ops d (vector_at v d) stored)
      in if length out \<ge> MAX_OPS then out else ops_after_each ds v stored out)"

definition ops_after :: "faults \<Rightarrow> string list \<Rightarrow> json \<Rightarrow> machine \<Rightarrow> string + op list" where
  "ops_after fl devices v m = (case fl 0 of Some e \<Rightarrow> Inl e | None \<Rightarrow> Inr (ops_after_each devices v (rd_ops (mc_db m)) []))"

subsection \<open>Permission to run\<close>

text \<open>\<open>also\<close>, what a caller adds to a transaction, does not touch these tables.\<close>

definition authority_of :: "string \<Rightarrow> string \<Rightarrow> rep_db \<Rightarrow> authority option" where
  "authority_of task birth d = map_of (rd_auth d) (task, birth)"

definition set_authority :: "string \<Rightarrow> string \<Rightarrow> authority \<Rightarrow> rep_db \<Rightarrow> rep_db" where
  "set_authority task birth a d = d\<lparr>rd_auth := AList.update (task, birth) a (rd_auth d)\<rparr>"

definition epoch_of :: "string \<Rightarrow> string \<Rightarrow> rep_db \<Rightarrow> int" where
  "epoch_of task birth d = (case authority_of task birth d of Some a \<Rightarrow> au_epoch a | None \<Rightarrow> 0)"

definition rep_hold :: "faults \<Rightarrow> string \<Rightarrow> string \<Rightarrow> permit \<Rightarrow> machine \<Rightarrow> machine \<times> (string + unit)" where
  "rep_hold fl task birth p m =
     (case fl 0 of
        Some e \<Rightarrow> (m, Inl e)
      | None \<Rightarrow> (m\<lparr>mc_db := set_authority task birth \<lparr>au_epoch = epoch_of task birth (mc_db m), au_permit = p, au_to = None\<rparr> (mc_db m)\<rparr>, Inr ()))"

definition hold_unless_held :: "string \<Rightarrow> string \<Rightarrow> permit \<Rightarrow> rep_db \<Rightarrow> rep_db" where
  "hold_unless_held task birth p d =
     (if authority_of task birth d = None then set_authority task birth \<lparr>au_epoch = 0, au_permit = p, au_to = None\<rparr> d else d)"

definition yielded :: "string \<Rightarrow> string \<Rightarrow> string \<Rightarrow> rep_db \<Rightarrow> rep_db" where
  "yielded task birth to d = set_authority task birth \<lparr>au_epoch = epoch_of task birth d, au_permit = PAcked, au_to = Some to\<rparr> d"

definition text_or :: "string option \<Rightarrow> string \<Rightarrow> string" where
  "text_or t d = (case t of Some x \<Rightarrow> x | None \<Rightarrow> d)"

definition rep_start :: "faults \<Rightarrow> string \<Rightarrow> string \<Rightarrow> machine \<Rightarrow> machine \<times> (string + unit)" where
  "rep_start fl task birth m =
     (case fl 0 of
        Some e \<Rightarrow> (m, Inl e)
      | None \<Rightarrow>
          (case authority_of task birth (mc_db m) of
             Some a \<Rightarrow>
               if au_permit a = PReady then rep_hold (\<lambda>n. fl (Suc n)) task birth PRunning m
               else if au_permit a = PRunning then (m, Inr ())
               else (m, Inl (''it was given to '' @ text_or (au_to a) ''another machine''))
           | None \<Rightarrow> (m, Inl ''this machine was never given it'')))"

text \<open>The writes of the owner that go with a change of permission.\<close>

definition give_on :: "faults \<Rightarrow> int list \<Rightarrow> string \<Rightarrow> string \<Rightarrow> (string \<times> json) list \<Rightarrow> authority \<Rightarrow> machine \<Rightarrow> machine \<times> (string + unit)" where
  "give_on fl walls task birth fvs a m =
     (let (r, os) = rep_stage walls task birth fvs (mc_rep m)
      in case fl 0 of
           Some e \<Rightarrow> (m\<lparr>mc_rep := r\<rparr>, Inl e)
         | None \<Rightarrow> (m\<lparr>mc_rep := fst (applied os r), mc_db := fst (rep_commit os r (set_authority task birth a (mc_db m)))\<rparr>, Inr ()))"

definition rep_grant :: "faults \<Rightarrow> int list \<Rightarrow> string \<Rightarrow> string \<Rightarrow> string \<Rightarrow> machine \<Rightarrow> machine \<times> (string + grant)" where
  "rep_grant fl walls task birth to m =
     (case fl 0 of
        Some e \<Rightarrow> (m, Inl e)
      | None \<Rightarrow>
          (case authority_of task birth (mc_db m) of
             None \<Rightarrow> (m, Inl ''not_owner'')
           | Some a \<Rightarrow>
               if au_permit a = PRunning then (m, Inl ''started'')
               else if au_permit a \<noteq> PReady then (m, Inl (''given to '' @ text_or (au_to a) []))
               else (case give_on (\<lambda>n. fl (Suc n)) walls task birth [(''owner'', JString to)] \<lparr>au_epoch = au_epoch a + 1, au_permit = PSent, au_to = Some to\<rparr> m of
                       (m, Inl e) \<Rightarrow> (m, Inl e)
                     | (m, Inr _) \<Rightarrow> (m, Inr \<lparr>gr_task = task, gr_birth = birth, gr_epoch = au_epoch a + 1, gr_to = to\<rparr>))))"

definition rep_hand :: "faults \<Rightarrow> int list \<Rightarrow> string \<Rightarrow> string \<Rightarrow> string \<Rightarrow> machine \<Rightarrow> machine \<times> (string + int)" where
  "rep_hand fl walls task birth to m =
     (case fl 0 of
        Some e \<Rightarrow> (m, Inl e)
      | None \<Rightarrow>
          (case authority_of task birth (mc_db m) of
             None \<Rightarrow> (m, Inl ''this machine was never given it'')
           | Some a \<Rightarrow>
               if au_permit a \<noteq> PReady \<and> au_permit a \<noteq> PRunning then (m, Inl (''it was given to '' @ text_or (au_to a) ''another machine''))
               else (case give_on (\<lambda>n. fl (Suc n)) walls task birth [(''owner'', JString to)] \<lparr>au_epoch = au_epoch a + 1, au_permit = PSent, au_to = Some to\<rparr> m of
                       (m, Inl e) \<Rightarrow> (m, Inl e)
                     | (m, Inr _) \<Rightarrow> (m, Inr (au_epoch a + 1)))))"

definition rep_reclaim :: "faults \<Rightarrow> int list \<Rightarrow> string \<Rightarrow> string \<Rightarrow> int \<Rightarrow> machine \<Rightarrow> machine \<times> (string + unit)" where
  "rep_reclaim fl walls task birth epoch m =
     give_on fl walls task birth [(''owner'', JString (rp_me (mc_rep m)))] \<lparr>au_epoch = epoch, au_permit = PRunning, au_to = None\<rparr> m"

definition rep_take :: "faults \<Rightarrow> int list \<Rightarrow> int \<Rightarrow> string \<Rightarrow> string \<Rightarrow> string \<Rightarrow> machine \<Rightarrow> machine \<times> (string + unit)" where
  "rep_take fl walls wall task birth from m =
     give_on fl walls task birth
       [(''owner'', JString (rp_me (mc_rep m))), (RUN @ rp_me (mc_rep m), JObject [(''from'', JString from), (''at'', JNumber (NInt wall))])]
       \<lparr>au_epoch = epoch_of task birth (mc_db m) + 1, au_permit = PReady, au_to = None\<rparr> m"

definition rep_ran :: "faults \<Rightarrow> int list \<Rightarrow> int \<Rightarrow> string \<Rightarrow> string \<Rightarrow> machine \<Rightarrow> machine \<times> (string + nat)" where
  "rep_ran fl walls wall task birth m =
     (let f = RUN @ rp_me (mc_rep m)
      in if (case rep_find task birth (mc_rep m) of Some r \<Rightarrow> rr_get r f \<noteq> Null | None \<Rightarrow> False) then (m, Inr 0)
         else rep_write fl walls task birth [(f, JObject [(''at'', JNumber (NInt wall))])] m)"

definition rep_receive :: "faults \<Rightarrow> int list \<Rightarrow> string \<Rightarrow> string \<Rightarrow> int \<Rightarrow> machine \<Rightarrow> machine \<times> (string + bool)" where
  "rep_receive fl walls task birth epoch m =
     (case fl 0 of
        Some e \<Rightarrow> (m, Inl e)
      | None \<Rightarrow>
          if (case authority_of task birth (mc_db m) of Some a \<Rightarrow> au_epoch a \<ge> epoch | None \<Rightarrow> False) then (m, Inr False)
          else (case give_on (\<lambda>n. fl (Suc n)) walls task birth [(''owner'', JString (rp_me (mc_rep m)))] \<lparr>au_epoch = epoch, au_permit = PReady, au_to = None\<rparr> m of
                  (m, Inl e) \<Rightarrow> (m, Inl e)
                | (m, Inr _) \<Rightarrow> (m, Inr True)))"

definition rep_acked :: "faults \<Rightarrow> string \<Rightarrow> string \<Rightarrow> int \<Rightarrow> machine \<Rightarrow> machine \<times> (string + unit)" where
  "rep_acked fl task birth epoch m =
     (case fl 0 of
        Some e \<Rightarrow> (m, Inl e)
      | None \<Rightarrow>
          (case authority_of task birth (mc_db m) of
             Some a \<Rightarrow> (if au_permit a = PSent \<and> au_epoch a = epoch then m\<lparr>mc_db := set_authority task birth (a\<lparr>au_permit := PAcked\<rparr>) (mc_db m)\<rparr> else m, Inr ())
           | None \<Rightarrow> (m, Inr ())))"

definition outbox :: "rep_db \<Rightarrow> grant list" where
  "outbox d = List.map_filter (\<lambda>((task, birth), a). if au_permit a = PSent then Some \<lparr>gr_task = task, gr_birth = birth, gr_epoch = au_epoch a, gr_to = text_or (au_to a) []\<rparr> else None) (rd_auth d)"

definition authority_value :: "authority \<Rightarrow> obj" where
  "authority_value a = [(''epoch'', JNumber (NInt (au_epoch a))), (''permit'', JString (permit_str (au_permit a))), (''to'', opt_json (au_to a))]"

record peer =
  pe_key :: string
  pe_name :: string

record roster =
  ro_me :: peer
  ro_peers :: "peer list"

definition roster_name :: "string \<Rightarrow> roster \<Rightarrow> string" where
  "roster_name key ro = (case List.find (\<lambda>p. pe_key p = key) (ro_me ro # ro_peers ro) of Some p \<Rightarrow> pe_name p | None \<Rightarrow> take 10 key)"

end
