(* ===== verification/Rep_Merge.thy ===== *)
theory Rep_Merge
  imports Rep_Model
begin

text \<open>
  The records of a replica are determined by the operations it has taken in: for each field the operation with the latest time,
  whatever their order and however often each came.
\<close>

definition wins :: "op set \<Rightarrow> rep_key \<Rightarrow> string \<Rightarrow> op \<Rightarrow> bool" where
  "wins os k f w \<longleftrightarrow> w \<in> os \<and> op_key w = k \<and> op_field w = f \<and> (\<forall>x \<in> os. op_key x = k \<and> op_field x = f \<longrightarrow> op_at x \<le> op_at w)"

definition field_ok :: "op set \<Rightarrow> rep_key \<Rightarrow> string \<Rightarrow> (hlc \<times> json) option \<Rightarrow> bool" where
  "field_ok os k f v = (case v of
     None \<Rightarrow> (\<forall>x \<in> os. \<not> (op_key x = k \<and> op_field x = f))
   | Some (h, j) \<Rightarrow> (\<exists>w. wins os k f w \<and> op_at w = h \<and> op_value w = j))"

definition record_ok :: "op set \<Rightarrow> rep_key \<Rightarrow> rep_record option \<Rightarrow> bool" where
  "record_ok os k v = (case v of
     None \<Rightarrow> (\<forall>x \<in> os. op_key x \<noteq> k)
   | Some r \<Rightarrow> (\<exists>x \<in> os. op_key x = k) \<and> (rr_task r, rr_birth r) = k \<and> bt_ok (rr_fields r) \<and> (\<forall>f. field_ok os k f (map_of (rr_fields r) f)))"

definition records_ok :: "op set \<Rightarrow> (rep_key, rep_record) btree \<Rightarrow> bool" where
  "records_ok os rs \<longleftrightarrow> bt_ok rs \<and> (\<forall>k. record_ok os k (map_of rs k))"

subsection \<open>They are determined\<close>

lemma wins_unique: "inj_on op_at os \<Longrightarrow> wins os k f v \<Longrightarrow> wins os k f w \<Longrightarrow> v = w"
  unfolding wins_def by (metis inj_onD order_antisym)

lemma field_unique: "inj_on op_at os \<Longrightarrow> field_ok os k f u \<Longrightarrow> field_ok os k f v \<Longrightarrow> u = v"
proof -
  assume i: "inj_on op_at os" and u: "field_ok os k f u" and v: "field_ok os k f v"
  show "u = v"
  proof (cases u)
    case None
    with u v show ?thesis by (cases v) (auto simp: field_ok_def wins_def)
  next
    case (Some a)
    then obtain w where w: "wins os k f w" "a = (op_at w, op_value w)" using u by (auto simp: field_ok_def)
    then obtain b where b: "v = Some b" using v by (cases v) (auto simp: field_ok_def wins_def)
    then obtain w' where w': "wins os k f w'" "b = (op_at w', op_value w')" using v by (auto simp: field_ok_def)
    with w wins_unique [OF i] have "w = w'" by blast
    with w w' b Some show ?thesis by simp
  qed
qed

lemma record_unique: "inj_on op_at os \<Longrightarrow> record_ok os k u \<Longrightarrow> record_ok os k v \<Longrightarrow> u = v"
proof -
  assume i: "inj_on op_at os" and u: "record_ok os k u" and v: "record_ok os k v"
  show "u = v"
  proof (cases u)
    case None
    with u v show ?thesis by (cases v) (auto simp: record_ok_def)
  next
    case (Some a)
    then obtain b where b: "v = Some b" using u v by (cases v) (auto simp: record_ok_def)
    have "field_ok os k f (map_of (rr_fields a) f)" "field_ok os k f (map_of (rr_fields b) f)" for f using u v unfolding Some b record_ok_def by simp_all
    then have "map_of (rr_fields a) = map_of (rr_fields b)" by (intro ext field_unique [OF i])
    then have "rr_fields a = rr_fields b" using u v unfolding Some b record_ok_def by (simp add: bt_eqI)
    then have "a = b" using u v unfolding Some b record_ok_def by (cases a; cases b) auto
    then show ?thesis using Some b by simp
  qed
qed

lemma records_unique: "inj_on op_at os \<Longrightarrow> records_ok os rs \<Longrightarrow> records_ok os ss \<Longrightarrow> rs = ss"
  unfolding records_ok_def by (rule bt_eqI) (blast, blast, rule ext, metis record_unique)

subsection \<open>Taking in an operation\<close>

lemma wins_other: "op_key o1 \<noteq> k \<or> op_field o1 \<noteq> f \<Longrightarrow> wins (insert o1 os) k f = wins os k f"
  by (auto simp: wins_def fun_eq_iff)

lemma field_other: "op_key o1 \<noteq> k \<or> op_field o1 \<noteq> f \<Longrightarrow> field_ok (insert o1 os) k f v = field_ok os k f v"
  by (auto simp: field_ok_def wins_other split: option.split)

lemma see_field:
  assumes inj: "inj_on op_at (insert o1 os)" and ok: "field_ok os (op_key o1) (op_field o1) v"
  shows "field_ok (insert o1 os) (op_key o1) (op_field o1) (case v of Some (t, j) \<Rightarrow> if t \<ge> op_at o1 then Some (t, j) else Some (op_at o1, op_value o1) | None \<Rightarrow> Some (op_at o1, op_value o1))"
proof (cases "\<exists>t j. v = Some (t, j) \<and> t \<ge> op_at o1")
  case True
  then obtain t j where t: "v = Some (t, j)" "t \<ge> op_at o1" by blast
  then obtain w where w: "wins os (op_key o1) (op_field o1) w" "op_at w = t" "op_value w = j" using ok by (auto simp: field_ok_def)
  then have "wins (insert o1 os) (op_key o1) (op_field o1) w" using t(2) by (auto simp: wins_def)
  with w t show ?thesis by (auto simp: field_ok_def)
next
  case False
  have "\<forall>x \<in> os. op_key x = op_key o1 \<and> op_field x = op_field o1 \<longrightarrow> op_at x \<le> op_at o1"
  proof (cases v)
    case None
    then show ?thesis using ok by (auto simp: field_ok_def)
  next
    case (Some a)
    then obtain w where w: "wins os (op_key o1) (op_field o1) w" "a = (op_at w, op_value w)" using ok by (auto simp: field_ok_def)
    then have "op_at w < op_at o1" using False Some by auto
    then show ?thesis using w(1) by (auto simp: wins_def intro: order_trans less_imp_le)
  qed
  then have "wins (insert o1 os) (op_key o1) (op_field o1) o1" by (simp add: wins_def)
  then have "field_ok (insert o1 os) (op_key o1) (op_field o1) (Some (op_at o1, op_value o1))" by (auto simp: field_ok_def)
  moreover have "(case v of Some (t, j) \<Rightarrow> if t \<ge> op_at o1 then Some (t, j) else Some (op_at o1, op_value o1) | None \<Rightarrow> Some (op_at o1, op_value o1)) = Some (op_at o1, op_value o1)"
    using False by (auto split: option.split)
  ultimately show ?thesis by simp
qed

lemma see_fields: "map_of (rr_fields (fst (rr_see o1 r))) = (map_of (rr_fields r))(op_field o1 :=
    (case map_of (rr_fields r) (op_field o1) of Some (t, j) \<Rightarrow> if t \<ge> op_at o1 then Some (t, j) else Some (op_at o1, op_value o1) | None \<Rightarrow> Some (op_at o1, op_value o1)))"
  by (auto simp: rr_see_def fun_eq_iff split: option.split)

lemma see_rest: "rr_task (fst (rr_see o1 r)) = rr_task r \<and> rr_birth (fst (rr_see o1 r)) = rr_birth r \<and> (bt_ok (rr_fields r) \<longrightarrow> bt_ok (rr_fields (fst (rr_see o1 r))))"
  by (auto simp: rr_see_def split: option.split)

lemma project_records:
  "rp_records (fst (project o1 r)) = bt_insert (op_key o1) (fst (rr_see o1
     (case map_of (rp_records r) (op_key o1) of Some x \<Rightarrow> x | None \<Rightarrow> \<lparr>rr_task = op_task o1, rr_birth = op_birth o1, rr_fields = []\<rparr>))) (rp_records r)"
  by (simp add: project_def Let_def split: prod.split)

lemma project_ok:
  assumes inj: "inj_on op_at (insert o1 os)" and ok: "records_ok os (rp_records r)"
  shows "records_ok (insert o1 os) (rp_records (fst (project o1 r)))"
proof -
  let ?old = "case map_of (rp_records r) (op_key o1) of Some x \<Rightarrow> x | None \<Rightarrow> \<lparr>rr_task = op_task o1, rr_birth = op_birth o1, rr_fields = []\<rparr>"
  let ?rec = "fst (rr_see o1 ?old)"
  have old: "(rr_task ?old, rr_birth ?old) = op_key o1 \<and> bt_ok (rr_fields ?old) \<and> (\<forall>f. field_ok os (op_key o1) f (map_of (rr_fields ?old) f))"
  proof -
    have "record_ok os (op_key o1) (map_of (rp_records r) (op_key o1))" using ok unfolding records_ok_def by blast
    then show ?thesis by (cases "map_of (rp_records r) (op_key o1)") (auto simp: record_ok_def field_ok_def op_key_def)
  qed
  have "field_ok (insert o1 os) (op_key o1) f (map_of (rr_fields ?rec) f)" for f
  proof (cases "f = op_field o1")
    case True
    have "field_ok os (op_key o1) (op_field o1) (map_of (rr_fields ?old) (op_field o1))" using old by blast
    from see_field [OF inj this] show ?thesis unfolding see_fields True fun_upd_same .
  next
    case False
    then show ?thesis using old unfolding see_fields by (simp add: field_other)
  qed
  then have "record_ok (insert o1 os) (op_key o1) (Some ?rec)" using old see_rest [of o1 ?old] by (auto simp: record_ok_def)
  moreover have "record_ok (insert o1 os) k v = record_ok os k v" if "k \<noteq> op_key o1" for k v
    using that by (auto simp: record_ok_def field_other split: option.split)
  ultimately show ?thesis using ok unfolding records_ok_def project_records by auto
qed

lemma applied_ok:
  assumes "inj_on op_at (os \<union> set xs)" "records_ok os (rp_records r)"
  shows "records_ok (os \<union> set xs) (rp_records (fst (applied xs r)))"
  using assms
proof (induction xs arbitrary: os r)
  case (Cons o1 xs)
  have "inj_on op_at (insert o1 os)" using Cons.prems(1) by (rule inj_on_subset) auto
  then have "records_ok (insert o1 os) (rp_records (fst (project o1 r)))" using Cons.prems(2) by (rule project_ok)
  moreover have "inj_on op_at (insert o1 os \<union> set xs)" using Cons.prems(1) by simp
  ultimately show ?case using Cons.IH [of "insert o1 os" "fst (project o1 r)"] by (auto simp: Let_def split: prod.split)
qed simp

lemma records_ok_empty: "records_ok {} []"
  by (simp add: records_ok_def record_ok_def)

end
