(* ===== verification/Rep_Machine.thy ===== *)
theory Rep_Machine
  imports Rep_Merge
begin

text \<open>
  One machine of the replicated Shelf: what it holds in memory is what its stored operations say, after every operation of
  \<open>replica.rs\<close>, after failed transactions and after a restart; the operations it makes are later than all it has seen.
\<close>

abbreviation stored :: "machine \<Rightarrow> op set" where
  "stored m \<equiv> set (rd_ops (mc_db m))"

abbreviation device_of :: "op \<Rightarrow> string" where
  "device_of o1 \<equiv> h_device (op_at o1)"

text \<open>What is written on the wire and read back.\<close>

definition op_wf :: "op \<Rightarrow> bool" where
  "op_wf o1 \<longleftrightarrow> op_task o1 \<noteq> [] \<and> op_birth o1 \<noteq> [] \<and> op_field o1 \<noteq> [] \<and> device_of o1 \<noteq> [] \<and>
     - (2 ^ 63) < h_ms (op_at o1) \<and> h_ms (op_at o1) < 2 ^ 63 \<and> - (2 ^ 63) \<le> h_n (op_at o1) \<and> h_n (op_at o1) < 2 ^ 63"

definition seen_ok :: "op set \<Rightarrow> (string \<times> int \<times> int) list \<Rightarrow> bool" where
  "seen_ok os seen \<longleftrightarrow> (\<forall>d. case map_of seen d of
     None \<Rightarrow> (\<forall>x \<in> os. device_of x \<noteq> d)
   | Some t \<Rightarrow> (\<exists>x \<in> os. device_of x = d \<and> op_time x = t) \<and> (\<forall>x \<in> os. device_of x = d \<longrightarrow> op_time x \<le> t))"

definition mach_ok :: "machine \<Rightarrow> bool" where
  "mach_ok m \<longleftrightarrow> distinct (map op_at (rd_ops (mc_db m))) \<and> records_ok (stored m) (rp_records (mc_rep m)) \<and> seen_ok (stored m) (rp_seen (mc_rep m)) \<and>
     (\<forall>x \<in> stored m. op_time x \<le> rp_clock (mc_rep m))"

subsection \<open>Taking operations in\<close>

lemma project_rest: "rp_seen (fst (project o1 r)) = see_device o1 (rp_seen r) \<and> rp_clock (fst (project o1 r)) = max (rp_clock r) (op_time o1) \<and> rp_me (fst (project o1 r)) = rp_me r"
  by (simp add: project_def Let_def split: prod.split)

lemma seen_step: "seen_ok os seen \<Longrightarrow> seen_ok (insert o1 os) (see_device o1 seen)"
proof -
  assume ok: "seen_ok os seen"
  show ?thesis unfolding seen_ok_def
  proof
    fix d
    have d: "case map_of seen d of None \<Rightarrow> (\<forall>x \<in> os. device_of x \<noteq> d)
      | Some t \<Rightarrow> (\<exists>x \<in> os. device_of x = d \<and> op_time x = t) \<and> (\<forall>x \<in> os. device_of x = d \<longrightarrow> op_time x \<le> t)" using ok unfolding seen_ok_def by blast
    show "case map_of (see_device o1 seen) d of None \<Rightarrow> (\<forall>x \<in> insert o1 os. device_of x \<noteq> d)
      | Some t \<Rightarrow> (\<exists>x \<in> insert o1 os. device_of x = d \<and> op_time x = t) \<and> (\<forall>x \<in> insert o1 os. device_of x = d \<longrightarrow> op_time x \<le> t)"
    proof (cases "d = device_of o1")
      case True
      then show ?thesis using d by (cases "map_of seen d") (auto simp: see_device_def update_conv max_def)
    next
      case False
      then have "map_of (see_device o1 seen) d = map_of seen d" by (simp add: see_device_def update_conv)
      then show ?thesis using d False by (auto split: option.splits)
    qed
  qed
qed

lemma applied_rest:
  assumes "seen_ok os (rp_seen r)"
  shows "seen_ok (os \<union> set xs) (rp_seen (fst (applied xs r))) \<and> rp_me (fst (applied xs r)) = rp_me r \<and> rp_clock r \<le> rp_clock (fst (applied xs r)) \<and>
    (\<forall>x \<in> set xs. op_time x \<le> rp_clock (fst (applied xs r)))"
  using assms
proof (induction xs arbitrary: os r)
  case (Cons o1 xs)
  let ?r = "fst (project o1 r)"
  have "seen_ok (insert o1 os) (rp_seen ?r)" using seen_step [OF Cons.prems] project_rest by simp
  from Cons.IH [OF this] project_rest [of o1 r] have "seen_ok (os \<union> set (o1 # xs)) (rp_seen (fst (applied xs ?r))) \<and> rp_me (fst (applied xs ?r)) = rp_me r \<and>
    max (rp_clock r) (op_time o1) \<le> rp_clock (fst (applied xs ?r)) \<and> (\<forall>x \<in> set xs. op_time x \<le> rp_clock (fst (applied xs ?r)))" by simp
  then show ?case by (auto simp: Let_def split: prod.split)
qed simp

lemma insert_ops_set:
  assumes "inj_on op_at (set st \<union> set os)" "distinct (map op_at st)"
  shows "set (fst (insert_ops os st)) = set st \<union> set os \<and> distinct (map op_at (fst (insert_ops os st)))"
  using assms
proof (induction os arbitrary: st)
  case (Cons o1 os)
  show ?case
  proof (cases "list_ex (\<lambda>x. op_at x = op_at o1) st")
    case True
    then obtain x where "x \<in> set st" "op_at x = op_at o1" by (auto simp: list_ex_iff)
    then have "o1 \<in> set st" using Cons.prems(1) by (auto simp: inj_on_def)
    then have "inj_on op_at (set st \<union> set os)" using Cons.prems(1) by (auto simp: insert_absorb)
    with True \<open>o1 \<in> set st\<close> show ?thesis using Cons.IH [of st] Cons.prems(2) by (auto simp: Let_def)
  next
    case False
    then have "distinct (map op_at (st @ [o1]))" using Cons.prems(2) by (auto simp: list_ex_iff)
    then show ?thesis using False Cons.IH [of "st @ [o1]"] Cons.prems(1) by (auto simp: Let_def split: prod.split)
  qed
qed simp

text \<open>\<open>commit\<close> in a transaction, then \<open>applied\<close>.\<close>

lemma taken_in:
  assumes ok: "mach_ok m" and inj: "inj_on op_at (stored m \<union> set os)"
    and r: "rp_records r = rp_records (mc_rep m)" "rp_seen r = rp_seen (mc_rep m)" "rp_clock (mc_rep m) \<le> rp_clock r"
    and d: "rd_ops d = rd_ops (mc_db m)" and m': "mc_rep m' = fst (applied os r)" "mc_db m' = fst (rep_commit os r' d)"
  shows "mach_ok m' \<and> stored m' = stored m \<union> set os \<and> rp_me (mc_rep m') = rp_me r"
proof -
  have "distinct (map op_at (rd_ops d))" using ok d by (simp add: mach_ok_def)
  then have ins: "set (fst (insert_ops os (rd_ops d))) = stored m \<union> set os" "distinct (map op_at (fst (insert_ops os (rd_ops d))))"
    using insert_ops_set [of "rd_ops d" os] inj d by auto
  have "rd_ops (mc_db m') = fst (insert_ops os (rd_ops d))" unfolding m' by (simp add: rep_commit_def split: prod.split)
  then have st: "stored m' = stored m \<union> set os" "distinct (map op_at (rd_ops (mc_db m')))" using ins by simp_all
  moreover have "records_ok (stored m \<union> set os) (rp_records (mc_rep m'))" using applied_ok [OF inj, of r] ok r(1) unfolding m' by (simp add: mach_ok_def)
  moreover have "seen_ok (stored m) (rp_seen r)" using ok r(2) by (simp add: mach_ok_def)
  note rest = applied_rest [OF this, of os]
  moreover have "\<forall>x \<in> stored m. op_time x \<le> rp_clock (fst (applied os r))" using ok r(3) rest unfolding mach_ok_def by (meson order_trans)
  ultimately show ?thesis unfolding mach_ok_def m' by auto
qed

subsection \<open>Making operations\<close>

lemma tick_later: "rep_tick wall r = (r', h) \<Longrightarrow>
    rp_clock r < rp_clock r' \<and> rp_clock r' = (h_ms h, h_n h) \<and> h_device h = rp_me r \<and> r' = r\<lparr>rp_clock := rp_clock r'\<rparr>"
  by (cases "rp_clock r"; cases "wall \<le> fst (rp_clock r)") (auto simp: rep_tick_def Let_def max_def less_prod_def)

lemma stamped:
  assumes "stamp_fields walls task birth fvs r = (r', os)"
  shows "r' = r\<lparr>rp_clock := rp_clock r'\<rparr> \<and> rp_clock r \<le> rp_clock r' \<and> sorted_wrt (\<lambda>x y. op_time x < op_time y) os \<and>
    (\<forall>x \<in> set os. device_of x = rp_me r \<and> rp_clock r < op_time x \<and> op_time x \<le> rp_clock r' \<and> op_task x = task \<and> op_birth x = birth)"
  using assms
proof (induction walls task birth fvs r arbitrary: r' os rule: stamp_fields.induct)
  case (2 walls task birth f v fs r)
  obtain r1 h where t: "rep_tick (case walls of w # _ \<Rightarrow> w | [] \<Rightarrow> 0) r = (r1, h)" by fastforce
  obtain r2 os2 where st: "stamp_fields (tl walls) task birth fs r1 = (r2, os2)" by fastforce
  have os: "r' = r2" "os = \<lparr>op_at = h, op_task = task, op_birth = birth, op_field = f, op_value = v\<rparr> # os2" using 2(2) t st by (auto simp: Let_def)
  note ih = 2(1) [OF t [symmetric] refl st] and tl = tick_later [OF t]
  have "r2 = r\<lparr>rp_clock := rp_clock r2\<rparr>" using ih tl by (metis replica.surjective replica.update_convs(2))
  moreover have "rp_me r1 = rp_me r" using tl by (metis replica.select_convs(1) replica.surjective replica.update_convs(2))
  moreover have "op_time \<lparr>op_at = h, op_task = task, op_birth = birth, op_field = f, op_value = v\<rparr> = rp_clock r1" using tl by (simp add: op_time_def)
  moreover have "rp_clock r < op_time x" if "x \<in> set os2" for x using ih tl that order_less_trans by blast
  moreover have "rp_clock r \<le> rp_clock r2" using ih tl by (meson less_imp_le order_trans)
  ultimately show ?case using ih tl unfolding os by force
qed simp

lemma staged:
  assumes "rep_stage walls task birth fvs r = (r', os)"
  shows "r' = r\<lparr>rp_clock := rp_clock r'\<rparr> \<and> rp_clock r \<le> rp_clock r' \<and> sorted_wrt (\<lambda>x y. op_time x < op_time y) os \<and>
    (\<forall>x \<in> set os. device_of x = rp_me r \<and> rp_clock r < op_time x \<and> op_time x \<le> rp_clock r' \<and> op_task x = task \<and> op_birth x = birth)"
  using stamped assms unfolding rep_stage_def Let_def by blast

text \<open>
  What an operation of the machine does to what is stored: nothing, or new operations of this device that are later than all
  the machine knew. \<open>grows\<close> says so.
\<close>

definition grows :: "machine \<Rightarrow> machine \<Rightarrow> op set \<Rightarrow> bool" where
  "grows m m' new \<longleftrightarrow> mach_ok m' \<and> stored m' = stored m \<union> new \<and> rp_me (mc_rep m') = rp_me (mc_rep m) \<and> inj_on op_at new \<and>
     (\<forall>x \<in> new. device_of x = rp_me (mc_rep m) \<and> (\<forall>y \<in> stored m. op_time y < op_time x))"

lemma grows_clock:
  assumes "mach_ok m" "rp_clock (mc_rep m) \<le> c"
  shows "grows m (m\<lparr>mc_rep := (mc_rep m)\<lparr>rp_clock := c\<rparr>\<rparr>) {}"
proof -
  have "\<forall>x \<in> stored m. op_time x \<le> c" using assms unfolding mach_ok_def by (meson order_trans)
  then show ?thesis using assms by (simp add: grows_def mach_ok_def)
qed

lemma staged_inj:
  assumes "sorted_wrt (\<lambda>x y. op_time x < op_time y) os"
  shows "inj_on op_at (set os)"
proof (rule inj_onI)
  fix x y
  assume xy: "x \<in> set os" "y \<in> set os" "op_at x = op_at y"
  then obtain i j where ij: "i < length os" "j < length os" "x = os ! i" "y = os ! j" by (auto simp: in_set_conv_nth)
  have "op_time x = op_time y" using xy(3) by (simp add: op_time_def)
  then have "i = j" using assms ij by (metis linorder_neqE_nat order_less_irrefl sorted_wrt_nth_less)
  then show "x = y" using ij by simp
qed

lemma grows_staged:
  assumes ok: "mach_ok m" and st: "rep_stage walls task birth fvs (mc_rep m) = (r, os)"
    and d: "rd_ops d = rd_ops (mc_db m)" and m': "mc_rep m' = fst (applied os r)" "mc_db m' = fst (rep_commit os r d)"
  shows "grows m m' (set os)"
proof -
  note s = staged [OF st]
  have clock: "op_time y \<le> rp_clock (mc_rep m)" if "y \<in> stored m" for y using ok that by (simp add: mach_ok_def)
  have later: "op_time y < op_time x" if "x \<in> set os" "y \<in> stored m" for x y using s clock [OF that(2)] that(1) by (meson order_le_less_trans)
  have inj: "inj_on op_at (set os)" using s staged_inj by blast
  moreover have "inj_on op_at (stored m)" using ok by (simp add: mach_ok_def distinct_map)
  ultimately have "inj_on op_at (stored m \<union> set os)"
    unfolding inj_on_Un using later by (fastforce simp: op_time_def)
  moreover have "rp_records r = rp_records (mc_rep m)" "rp_seen r = rp_seen (mc_rep m)" "rp_me r = rp_me (mc_rep m)"
    using s by (metis replica.select_convs replica.surjective replica.update_convs(2))+
  ultimately show ?thesis using taken_in [OF ok _ _ _ _ d m'] s inj later by (auto simp: grows_def)
qed

lemma write_grows:
  assumes "mach_ok m"
  shows "\<exists>new. grows m (fst (rep_write fl walls task birth fvs m)) new \<and> new \<subseteq> set (snd (rep_stage walls task birth fvs (mc_rep m)))"
proof -
  obtain r os where st: "rep_stage walls task birth fvs (mc_rep m) = (r, os)" by fastforce
  note s = staged [OF st]
  have clock: "grows m (m\<lparr>mc_rep := r\<rparr>) {}" using grows_clock [OF assms, of "rp_clock r"] s by metis
  show ?thesis
  proof (cases "os = [] \<or> fl 0 \<noteq> None")
    case True
    then show ?thesis using clock st by (auto simp: rep_write_def Let_def split: option.split prod.split intro!: exI [of _ "{}"])
  next
    case False
    let ?m = "fst (rep_write fl walls task birth fvs m)"
    have "mc_rep ?m = fst (applied os r)" "mc_db ?m = fst (rep_commit os r (mc_db m))"
      using False st by (auto simp: rep_write_def Let_def split: prod.split)
    from grows_staged [OF assms st refl this] show ?thesis using st by auto
  qed
qed

lemma give_grows:
  assumes "mach_ok m"
  shows "\<exists>new. grows m (fst (give_on fl walls task birth fvs a m)) new \<and> new \<subseteq> set (snd (rep_stage walls task birth fvs (mc_rep m)))"
proof -
  obtain r os where st: "rep_stage walls task birth fvs (mc_rep m) = (r, os)" by fastforce
  note s = staged [OF st]
  have clock: "grows m (m\<lparr>mc_rep := r\<rparr>) {}" using grows_clock [OF assms, of "rp_clock r"] s by metis
  show ?thesis
  proof (cases "fl 0")
    case (Some e)
    then show ?thesis using clock st by (auto simp: give_on_def Let_def intro!: exI [of _ "{}"])
  next
    case None
    let ?m = "fst (give_on fl walls task birth fvs a m)"
    have "mc_rep ?m = fst (applied os r)" "mc_db ?m = fst (rep_commit os r (set_authority task birth a (mc_db m)))"
      using None st by (auto simp: give_on_def Let_def)
    from grows_staged [OF assms st _ this] show ?thesis using st by (auto simp: set_authority_def)
  qed
qed

subsection \<open>Operations of others, and restarts\<close>

lemma foldl_clock: "c \<le> foldl (\<lambda>c o1. max c (op_time o1)) c os"
proof (induction os arbitrary: c)
  case (Cons o1 os)
  have "c \<le> max c (op_time o1)" by simp
  also have "\<dots> \<le> foldl (\<lambda>c o1. max c (op_time o1)) (max c (op_time o1)) os" by (rule Cons.IH)
  finally show ?case by simp
qed simp

lemma apply_takes:
  assumes "mach_ok m" "inj_on op_at (stored m \<union> set os)"
  shows "mach_ok (fst (rep_apply fl os m)) \<and> rp_me (mc_rep (fst (rep_apply fl os m))) = rp_me (mc_rep m) \<and>
    stored (fst (rep_apply fl os m)) = (if fl 0 = None \<and> fl 1 = None then stored m \<union> set os else stored m)"
proof -
  let ?s = "sort_key op_at os" and ?m = "fst (rep_apply fl os m)"
  let ?r = "(mc_rep m)\<lparr>rp_clock := foldl (\<lambda>c o1. max c (op_time o1)) (rp_clock (mc_rep m)) ?s\<rparr>"
  have c: "rp_clock (mc_rep m) \<le> rp_clock ?r" using foldl_clock by simp
  consider "fl 0 \<noteq> None" | "fl 0 = None" "fl 1 \<noteq> None" | "fl 0 = None" "fl 1 = None" by blast
  then show ?thesis
  proof cases
    case 1
    then show ?thesis using assms(1) by (auto simp: rep_apply_def Let_def)
  next
    case 2
    then have "?m = m\<lparr>mc_rep := ?r\<rparr>" by (auto simp: rep_apply_def Let_def)
    then show ?thesis using grows_clock [OF assms(1)] c 2 by (auto simp: grows_def)
  next
    case 3
    then have "mc_rep ?m = fst (applied ?s ?r)" "mc_db ?m = fst (rep_commit ?s ?r (mc_db m))" by (auto simp: rep_apply_def Let_def split: prod.split)
    from taken_in [OF assms(1) _ _ _ _ refl this] assms(2) c 3 show ?thesis by simp
  qed
qed

definition machine_restart :: "string \<Rightarrow> machine \<Rightarrow> machine" where
  "machine_restart device m = m\<lparr>mc_rep := set_device device (replica_open (mc_db m))\<rparr>"

lemma restart_ok:
  assumes "mach_ok m"
  shows "mach_ok (machine_restart d m) \<and> stored (machine_restart d m) = stored m \<and> rp_me (mc_rep (machine_restart d m)) = d \<and>
    rp_records (mc_rep (machine_restart d m)) = rp_records (mc_rep m)"
proof -
  let ?r = "replica_empty\<lparr>rp_clock := (case rd_clock (mc_db m) of Some c \<Rightarrow> c | None \<Rightarrow> (0, 0))\<rparr>"
  have inj: "inj_on op_at (stored m)" using assms by (simp add: mach_ok_def distinct_map)
  have "records_ok {} (rp_records ?r)" "seen_ok {} (rp_seen ?r)" by (simp_all add: replica_empty_def records_ok_empty seen_ok_def)
  then have "records_ok (stored m) (rp_records (replica_open (mc_db m)))" "seen_ok (stored m) (rp_seen (replica_open (mc_db m)))"
    "\<forall>x \<in> stored m. op_time x \<le> rp_clock (replica_open (mc_db m))"
    using applied_ok [of "{}" "rd_ops (mc_db m)" ?r] applied_rest [of "{}" ?r "rd_ops (mc_db m)"] inj unfolding replica_open_def by simp_all
  then show ?thesis using assms records_unique [OF inj] by (simp add: mach_ok_def machine_restart_def set_device_def)
qed

end
