(* ===== verification/Rep_System.thy ===== *)
theory Rep_System
  imports Rep_Machine
begin

text \<open>
  Machines that share the Shelf (\<open>replica.rs\<close>, and the exchange in \<open>tasks.rs\<close>): each asks with the vector of what it has seen and
  is sent what comes after it, at most \<open>MAX_OPS\<close> at a time. Messages may be lost, delayed, repeated and reordered, transactions may fail
  and machines restart at any moment.
\<close>

subsection \<open>What is written on the wire\<close>

lemma op_round: "op_wf o1 \<Longrightarrow> op_from_value (op_to_value o1) = Some o1"
  by (cases o1; cases "op_at o1") (simp add: op_wf_def op_from_value_def op_to_value_def full_text_def json_string_def)

lemma ops_round: "\<forall>x \<in> set os. op_wf x \<Longrightarrow> ops_of (ops_value os) = os"
  unfolding ops_of_def ops_value_def by (induction os) (simp_all add: op_round List.map_filter_simps)

abbreviation nothing_seen :: "int \<times> int" where
  "nothing_seen \<equiv> (- (2 ^ 63), - (2 ^ 63))"

lemma wf_after_nothing: "op_wf o1 \<Longrightarrow> nothing_seen < op_time o1"
  by (auto simp: op_wf_def op_time_def)

lemma vector_round:
  assumes "\<And>t. map_of (rp_seen r) d = Some t \<Longrightarrow> \<exists>x. op_wf x \<and> op_time x = t"
  shows "vector_at (rep_vector r) d = (case map_of (rp_seen r) d of Some t \<Rightarrow> t | None \<Rightarrow> nothing_seen)"
proof -
  have "jget (rep_vector r) d = map_option (\<lambda>(ms, n). JArray [JNumber (NInt ms), JNumber (NInt n)]) (map_of (rp_seen r) d)"
  proof -
    have "map_of (map (\<lambda>(d, ms, n). (d, JArray [JNumber (NInt ms), JNumber (NInt n)])) xs) d = map_option (\<lambda>(ms, n). JArray [JNumber (NInt ms), JNumber (NInt n)]) (map_of xs d)" for xs
      by (induction xs) auto
    then show ?thesis by (simp add: rep_vector_def)
  qed
  then show ?thesis using assms by (cases "map_of (rp_seen r) d") (fastforce simp: vector_at_def op_wf_def op_time_def)+
qed

subsection \<open>What is sent\<close>

lemma take_earlier: "sorted (map f xs) \<Longrightarrow> x \<in> set (take n xs) \<Longrightarrow> y \<in> set xs \<Longrightarrow> f y < f x \<Longrightarrow> y \<in> set (take n xs)"
proof (induction xs arbitrary: n)
  case (Cons a xs)
  then show ?case by (cases n) (auto dest: in_set_takeD)
qed simp

definition unseen :: "string list \<Rightarrow> json \<Rightarrow> op set \<Rightarrow> op set" where
  "unseen ds v os = {x \<in> os. device_of x \<in> set ds \<and> op_time x > vector_at v (device_of x)}"

lemma set_device_ops: "set (device_ops d t st) = {x \<in> set st. device_of x = d \<and> op_time x > t}"
  by (auto simp: device_ops_def)

lemma sent_rest:
  "\<exists>more. ops_after_each ds v st out = out @ more \<and> set more \<subseteq> unseen ds v (set st) \<and> (length out + length more < MAX_OPS \<longrightarrow> unseen ds v (set st) \<subseteq> set more) \<and>
    (\<forall>x \<in> set more. \<forall>y \<in> unseen ds v (set st). device_of y = device_of x \<and> op_time y < op_time x \<longrightarrow> y \<in> set more)"
proof (induction ds v st out rule: ops_after_each.induct)
  case (1 v st out)
  show ?case by (simp add: unseen_def)
next
  case (2 d ds v st out)
  let ?new = "take (MAX_OPS - length out) (device_ops d (vector_at v d) st)"
  have new: "set ?new \<subseteq> unseen (d # ds) v (set st)" using set_device_ops [of d "vector_at v d" st] by (auto simp: unseen_def dest: in_set_takeD)
  have dev: "device_of x = d" if "x \<in> set ?new" for x using in_set_takeD [OF that] unfolding set_device_ops by simp
  have srt: "sorted (map op_time (device_ops d (vector_at v d) st))" by (simp add: device_ops_def)
  have close: "y \<in> set ?new" if "x \<in> set ?new" "y \<in> unseen (d # ds) v (set st)" "device_of y = device_of x" "op_time y < op_time x" for x y
    using take_earlier [OF srt that(1) _ that(4)] that(2,3) dev [OF that(1)] set_device_ops by (auto simp: unseen_def)
  show ?case
  proof (cases "length (out @ ?new) \<ge> MAX_OPS")
    case True
    then show ?thesis using new close by (intro exI [of _ ?new]) (auto simp: Let_def)
  next
    case False
    then have all: "?new = device_ops d (vector_at v d) st" by simp
    obtain more where more: "ops_after_each ds v st (out @ ?new) = (out @ ?new) @ more" "set more \<subseteq> unseen ds v (set st)"
      "length (out @ ?new) + length more < MAX_OPS \<longrightarrow> unseen ds v (set st) \<subseteq> set more"
      "\<forall>x \<in> set more. \<forall>y \<in> unseen ds v (set st). device_of y = device_of x \<and> op_time y < op_time x \<longrightarrow> y \<in> set more"
      using 2 [OF refl False] by blast
    have split: "unseen (d # ds) v (set st) = set ?new \<union> unseen ds v (set st)" unfolding all set_device_ops by (auto simp: unseen_def)
    have "y \<in> set (?new @ more)" if x: "x \<in> set (?new @ more)" and y: "y \<in> unseen (d # ds) v (set st)" "device_of y = device_of x" "op_time y < op_time x" for x y
    proof (cases "x \<in> set ?new")
      case True
      then show ?thesis using close y by auto
    next
      case False
      then have "x \<in> set more" using x by simp
      then show ?thesis using y more(4) split by auto
    qed
    then show ?thesis using more(1-3) False split by (intro exI [of _ "?new @ more"]) (auto simp: Let_def)
  qed
qed

lemma sent:
  assumes "ops_after fl ds v m = Inr os"
  shows "set os \<subseteq> unseen ds v (stored m)" "length os < MAX_OPS \<Longrightarrow> unseen ds v (stored m) \<subseteq> set os"
    "\<And>x y. x \<in> set os \<Longrightarrow> y \<in> unseen ds v (stored m) \<Longrightarrow> device_of y = device_of x \<Longrightarrow> op_time y < op_time x \<Longrightarrow> y \<in> set os"
  using sent_rest [of ds v "rd_ops (mc_db m)" "[]"] assms by (auto simp: ops_after_def split: option.splits)

subsection \<open>Machines and messages\<close>

datatype rep_msg = Vector_Of string json | Ops_For string json

record rep_sys =
  sy_mach :: "string \<Rightarrow> machine"
  sy_net :: "rep_msg set"

definition take_ops :: "faults \<Rightarrow> json \<Rightarrow> machine \<Rightarrow> machine" where
  "take_ops fl v m = (if ops_of v = [] then m else fst (rep_apply fl (ops_of v) m))"

definition set_mach :: "string \<Rightarrow> machine \<Rightarrow> rep_sys \<Rightarrow> rep_sys" where
  "set_mach i m s = s\<lparr>sy_mach := (sy_mach s)(i := m)\<rparr>"

definition post_msg :: "rep_msg \<Rightarrow> rep_sys \<Rightarrow> rep_sys" where
  "post_msg x s = s\<lparr>sy_net := insert x (sy_net s)\<rparr>"

definition sys_start :: rep_sys where
  "sys_start = \<lparr>sy_mach = (\<lambda>i. \<lparr>mc_rep = set_device i replica_empty, mc_db = \<lparr>rd_ops = [], rd_auth = [], rd_clock = None\<rparr>\<rparr>), sy_net = {}\<rparr>"

text \<open>
  A message is never taken off the net: it may come again. What a machine stages stays in the range of the types, which the guard of the
  two writing steps says. Giving and taking permissions write operations too (\<open>give_on\<close>).
\<close>

inductive rep_step :: "rep_sys \<Rightarrow> rep_sys \<Rightarrow> bool" where
  rs_write: "\<forall>x \<in> set (snd (rep_stage walls task birth fvs (mc_rep (sy_mach s i)))). op_wf x \<Longrightarrow>
    rep_step s (set_mach i (fst (rep_write fl walls task birth fvs (sy_mach s i))) s)"
| rs_give: "\<forall>x \<in> set (snd (rep_stage walls task birth fvs (mc_rep (sy_mach s i)))). op_wf x \<Longrightarrow>
    rep_step s (set_mach i (fst (give_on fl walls task birth fvs a (sy_mach s i))) s)"
| rs_ask: "rep_step s (post_msg (Vector_Of i (rep_vector (mc_rep (sy_mach s i)))) s)"
| rs_answer: "Vector_Of i v \<in> sy_net s \<Longrightarrow> set ds = fst ` set (rp_seen (mc_rep (sy_mach s j))) \<Longrightarrow> ops_after fl ds v (sy_mach s j) = Inr os \<Longrightarrow>
    rep_step s (post_msg (Ops_For i (ops_value os)) s)"
| rs_take: "Ops_For i v \<in> sy_net s \<Longrightarrow> rep_step s (set_mach i (take_ops fl v (sy_mach s i)) s)"
| rs_restart: "rep_step s (set_mach i (machine_restart i (sy_mach s i)) s)"

inductive rep_reach :: "rep_sys \<Rightarrow> bool" where
  rr_start: "rep_reach sys_start"
| rr_step: "rep_reach s \<Longrightarrow> rep_step s s' \<Longrightarrow> rep_reach s'"

definition everything :: "rep_sys \<Rightarrow> op set" where
  "everything s = (\<Union>i. stored (sy_mach s i))"

subsection \<open>Nothing is skipped\<close>

text \<open>\<open>gapless u os base\<close>: with an operation of \<open>os\<close>, the earlier ones of its device are in \<open>os\<close> or in \<open>base\<close>.\<close>

definition gapless :: "op set \<Rightarrow> op set \<Rightarrow> op set \<Rightarrow> bool" where
  "gapless u os base \<longleftrightarrow> (\<forall>x \<in> os. \<forall>y \<in> u. device_of y = device_of x \<and> op_time y \<le> op_time x \<longrightarrow> y \<in> os \<union> base)"

definition vector_ok :: "op set \<Rightarrow> json \<Rightarrow> bool" where
  "vector_ok os v \<longleftrightarrow> (\<forall>d. vector_at v d = nothing_seen \<or> (\<exists>x \<in> os. device_of x = d \<and> op_time x = vector_at v d))"

definition sys_inv :: "rep_sys \<Rightarrow> bool" where
  "sys_inv s \<longleftrightarrow>
     (\<forall>i. mach_ok (sy_mach s i) \<and> rp_me (mc_rep (sy_mach s i)) = i \<and> gapless (everything s) (stored (sy_mach s i)) {}) \<and>
     (\<forall>x \<in> everything s. op_wf x \<and> x \<in> stored (sy_mach s (device_of x))) \<and>
     (\<forall>i v. Vector_Of i v \<in> sy_net s \<longrightarrow> vector_ok (stored (sy_mach s i)) v) \<and>
     (\<forall>i v. Ops_For i v \<in> sy_net s \<longrightarrow> set (ops_of v) \<subseteq> everything s \<and> gapless (everything s) (set (ops_of v)) (stored (sy_mach s i)))"

lemma everything_inj:
  assumes "sys_inv s"
  shows "inj_on op_at (everything s)"
proof (rule inj_onI)
  fix x y
  assume xy: "x \<in> everything s" "y \<in> everything s" "op_at x = op_at y"
  then have "x \<in> stored (sy_mach s (device_of x))" "y \<in> stored (sy_mach s (device_of x))" using assms by (auto simp: sys_inv_def)
  moreover have "inj_on op_at (stored (sy_mach s (device_of x)))" using assms by (simp add: sys_inv_def mach_ok_def distinct_map)
  ultimately show "x = y" using xy(3) by (simp add: inj_on_def)
qed

lemma everything_set: "everything (set_mach i m s) = (\<Union>j \<in> - {i}. stored (sy_mach s j)) \<union> stored m"
  by (auto simp: everything_def set_mach_def split: if_splits)

lemma inv_grows:
  assumes inv: "sys_inv s" and g: "grows (sy_mach s i) m new" and wf: "\<forall>x \<in> new. op_wf x"
  shows "sys_inv (set_mach i m s)"
proof -
  have own: "stored (sy_mach s i) \<subseteq> everything s" by (auto simp: everything_def)
  have st: "stored m = stored (sy_mach s i) \<union> new" "mach_ok m" "rp_me (mc_rep m) = i" using g inv by (auto simp: grows_def sys_inv_def)
  have dev: "device_of x = i" if "x \<in> new" for x using g inv that by (simp add: grows_def sys_inv_def)
  have later: "op_time y < op_time x" if "x \<in> new" "y \<in> everything s" "device_of y = device_of x" for x y
  proof -
    have "y \<in> stored (sy_mach s i)" using inv that dev by (auto simp: sys_inv_def)
    then show ?thesis using g that(1) by (simp add: grows_def)
  qed
  have ev: "everything (set_mach i m s) = everything s \<union> new" unfolding everything_set st by (auto simp: everything_def)
  have cl: "gapless (everything s \<union> new) os (base \<union> extra)" if "gapless (everything s) os base" "os \<subseteq> everything s" for os base extra
    using that later unfolding gapless_def by (fastforce dest: leD)
  have mach: "gapless (everything s \<union> new) (stored (sy_mach (set_mach i m s) j)) {}" for j
  proof (cases "j = i")
    case True
    have "y \<in> stored m" if "x \<in> stored m" "y \<in> everything s \<union> new" "device_of y = device_of x" "op_time y \<le> op_time x" for x y
    proof (cases "y \<in> new")
      case False
      then have y: "y \<in> everything s" using that(2) by simp
      show ?thesis
      proof (cases "x \<in> new")
        case True
        then have "y \<in> stored (sy_mach s i)" using inv y dev that(3) by (auto simp: sys_inv_def)
        then show ?thesis using st by simp
      next
        case False
        then show ?thesis using that(1,3,4) st inv y unfolding sys_inv_def gapless_def by auto
      qed
    qed (use st in simp)
    then show ?thesis using True by (auto simp: gapless_def set_mach_def)
  next
    case False
    have "gapless (everything s) (stored (sy_mach s j)) {}" using inv by (simp add: sys_inv_def)
    from cl [OF this, of "{}"] show ?thesis using False by (auto simp: set_mach_def everything_def)
  qed
  have mono: "stored (sy_mach s j) \<subseteq> stored (sy_mach (set_mach i m s) j)" for j using st by (auto simp: set_mach_def)
  have "vector_ok (stored (sy_mach (set_mach i m s) j)) v" if "Vector_Of j v \<in> sy_net s" for j v
  proof -
    have "vector_ok (stored (sy_mach s j)) v" using inv that by (simp add: sys_inv_def)
    then show ?thesis using mono [of j] unfolding vector_ok_def by blast
  qed
  moreover have "set (ops_of v) \<subseteq> everything s \<union> new \<and> gapless (everything s \<union> new) (set (ops_of v)) (stored (sy_mach (set_mach i m s) j))" if "Ops_For j v \<in> sy_net s" for j v
  proof -
    have "set (ops_of v) \<subseteq> everything s" "gapless (everything s) (set (ops_of v)) (stored (sy_mach s j))" using inv that by (simp_all add: sys_inv_def)
    with cl [OF this(2,1), of "stored (sy_mach (set_mach i m s) j)"] mono [of j] show ?thesis by (simp add: Un_absorb1 le_supI1)
  qed
  moreover have "x \<in> stored (sy_mach (set_mach i m s) (device_of x)) \<and> op_wf x" if "x \<in> everything s \<union> new" for x
    using that wf inv mono dev st unfolding sys_inv_def by (auto simp: set_mach_def)
  moreover have "mach_ok (sy_mach (set_mach i m s) j) \<and> rp_me (mc_rep (sy_mach (set_mach i m s) j)) = j" for j
    using inv st by (auto simp: sys_inv_def set_mach_def)
  ultimately show ?thesis using mach unfolding sys_inv_def ev by (auto simp: set_mach_def)
qed

lemma inv_set:
  assumes inv: "sys_inv s" and m: "mach_ok m" "rp_me (mc_rep m) = i" "stored (sy_mach s i) \<subseteq> stored m" "stored m \<subseteq> everything s" "gapless (everything s) (stored m) {}"
  shows "sys_inv (set_mach i m s)"
proof -
  have ev: "everything (set_mach i m s) = everything s" using m(3,4) unfolding everything_set by (auto simp: everything_def)
  have mono: "stored (sy_mach s j) \<subseteq> stored (sy_mach (set_mach i m s) j)" for j using m(3) by (auto simp: set_mach_def)
  have "vector_ok (stored (sy_mach (set_mach i m s) j)) v" if "Vector_Of j v \<in> sy_net s" for j v
    using inv that mono [of j] unfolding sys_inv_def vector_ok_def by blast
  moreover have "gapless (everything s) (set (ops_of v)) (stored (sy_mach (set_mach i m s) j))" if "Ops_For j v \<in> sy_net s" for j v
    using inv that mono [of j] unfolding sys_inv_def gapless_def by blast
  moreover have "x \<in> stored (sy_mach (set_mach i m s) (device_of x))" if "x \<in> everything s" for x using that inv mono unfolding sys_inv_def by blast
  moreover have "gapless (everything s) (stored (sy_mach (set_mach i m s) j)) {}" for j using inv m(5) by (auto simp: sys_inv_def set_mach_def)
  moreover have "mach_ok (sy_mach (set_mach i m s) j) \<and> rp_me (mc_rep (sy_mach (set_mach i m s) j)) = j" for j using inv m(1,2) by (auto simp: sys_inv_def set_mach_def)
  ultimately show ?thesis using inv unfolding sys_inv_def ev by (auto simp: set_mach_def)
qed

lemma stored_everything: "stored (sy_mach s i) \<subseteq> everything s"
  by (auto simp: everything_def)

lemma seen_cases:
  assumes "sys_inv s"
  obtains "map_of (rp_seen (mc_rep (sy_mach s i))) d = None" "\<forall>x \<in> stored (sy_mach s i). device_of x \<noteq> d"
    | t x where "map_of (rp_seen (mc_rep (sy_mach s i))) d = Some t" "x \<in> stored (sy_mach s i)" "device_of x = d" "op_time x = t"
        "\<forall>y \<in> stored (sy_mach s i). device_of y = d \<longrightarrow> op_time y \<le> t"
proof -
  have "seen_ok (stored (sy_mach s i)) (rp_seen (mc_rep (sy_mach s i)))" using assms by (simp add: sys_inv_def mach_ok_def)
  then have "case map_of (rp_seen (mc_rep (sy_mach s i))) d of None \<Rightarrow> (\<forall>x \<in> stored (sy_mach s i). device_of x \<noteq> d)
   | Some t \<Rightarrow> (\<exists>x \<in> stored (sy_mach s i). device_of x = d \<and> op_time x = t) \<and> (\<forall>x \<in> stored (sy_mach s i). device_of x = d \<longrightarrow> op_time x \<le> t)"
    unfolding seen_ok_def by blast
  then show thesis using that by (cases "map_of (rp_seen (mc_rep (sy_mach s i))) d") auto
qed

lemma own_vector:
  assumes "sys_inv s"
  shows "vector_at (rep_vector (mc_rep (sy_mach s i))) d = (case map_of (rp_seen (mc_rep (sy_mach s i))) d of Some t \<Rightarrow> t | None \<Rightarrow> nothing_seen)"
proof (rule vector_round)
  fix t
  assume "map_of (rp_seen (mc_rep (sy_mach s i))) d = Some t"
  then have "\<exists>x \<in> stored (sy_mach s i). device_of x = d \<and> op_time x = t" by (cases rule: seen_cases [OF assms, of i d]) auto
  then show "\<exists>x. op_wf x \<and> op_time x = t" using assms stored_everything unfolding sys_inv_def by blast
qed

lemma own_vector_ok: "sys_inv s \<Longrightarrow> vector_ok (stored (sy_mach s i)) (rep_vector (mc_rep (sy_mach s i)))"
proof -
  assume inv: "sys_inv s"
  show ?thesis unfolding vector_ok_def own_vector [OF inv]
  proof
    fix d
    show "(case map_of (rp_seen (mc_rep (sy_mach s i))) d of Some t \<Rightarrow> t | None \<Rightarrow> nothing_seen) = nothing_seen \<or>
      (\<exists>x \<in> stored (sy_mach s i). device_of x = d \<and> op_time x = (case map_of (rp_seen (mc_rep (sy_mach s i))) d of Some t \<Rightarrow> t | None \<Rightarrow> nothing_seen))"
      by (cases rule: seen_cases [OF inv, of i d]) auto
  qed
qed

lemma answer_gapless:
  assumes inv: "sys_inv s" and v: "vector_ok (stored (sy_mach s i)) v" and os: "ops_after fl ds v (sy_mach s j) = Inr os"
  shows "set os \<subseteq> everything s \<and> gapless (everything s) (set os) (stored (sy_mach s i))"
proof -
  have sub: "set os \<subseteq> stored (sy_mach s j)" using sent(1) [OF os] by (auto simp: unseen_def)
  then have ev: "set os \<subseteq> everything s" using stored_everything by blast
  have "y \<in> set os \<union> stored (sy_mach s i)"
    if x: "x \<in> set os" and y: "y \<in> everything s" "device_of y = device_of x" "op_time y \<le> op_time x" for x y
  proof (cases "op_time y \<le> vector_at v (device_of x)")
    case True
    have "op_wf y" using inv y(1) by (simp add: sys_inv_def)
    then have "vector_at v (device_of x) \<noteq> nothing_seen" using wf_after_nothing True by (metis leD)
    then obtain z where "z \<in> stored (sy_mach s i)" "device_of z = device_of x" "op_time z = vector_at v (device_of x)" using v unfolding vector_ok_def by blast
    then have "y \<in> stored (sy_mach s i)" using inv y(1,2) True unfolding sys_inv_def gapless_def by auto
    then show ?thesis ..
  next
    case False
    have "y \<in> stored (sy_mach s j)" using inv sub x y unfolding sys_inv_def gapless_def by auto
    moreover have "device_of y \<in> set ds" using sent(1) [OF os] x y(2) by (auto simp: unseen_def)
    ultimately have un: "y \<in> unseen ds v (stored (sy_mach s j))" using False y(2) by (auto simp: unseen_def)
    show ?thesis
    proof (cases "op_time y < op_time x")
      case True
      then show ?thesis using sent(3) [OF os x un y(2)] by blast
    next
      case False
      then have "op_at y = op_at x" using y(2,3) by (cases "op_at x"; cases "op_at y") (auto simp: op_time_def)
      then have "y = x" using everything_inj [OF inv] y(1) ev x by (auto simp: inj_on_def)
      then show ?thesis using x by simp
    qed
  qed
  then show ?thesis using ev by (auto simp: gapless_def)
qed

lemma answer_round: "sys_inv s \<Longrightarrow> set os \<subseteq> everything s \<Longrightarrow> ops_of (ops_value os) = os"
  by (rule ops_round) (auto simp: sys_inv_def)

lemma take_sound:
  assumes inv: "sys_inv s" and b: "set (ops_of v) \<subseteq> everything s" "gapless (everything s) (set (ops_of v)) (stored (sy_mach s i))"
  shows "sys_inv (set_mach i (take_ops fl v (sy_mach s i)) s)"
proof -
  let ?m = "sy_mach s i" and ?m' = "take_ops fl v (sy_mach s i)"
  have "inj_on op_at (stored ?m \<union> set (ops_of v))" using everything_inj [OF inv] stored_everything [of s i] b(1) by (meson inj_on_subset le_sup_iff)
  from apply_takes [OF _ this, of fl] inv have "mach_ok ?m'" "rp_me (mc_rep ?m') = i" "stored ?m' = stored ?m \<or> stored ?m' = stored ?m \<union> set (ops_of v)"
    by (auto simp: take_ops_def sys_inv_def)
  moreover have "gapless (everything s) (stored ?m) {}" using inv by (simp add: sys_inv_def)
  then have "gapless (everything s) (stored ?m \<union> set (ops_of v)) {}" using b(2) unfolding gapless_def by blast
  ultimately show ?thesis using inv stored_everything [of s i] b(1) \<open>gapless (everything s) (stored ?m) {}\<close> by (intro inv_set) auto
qed

lemma step_inv: "rep_step s s' \<Longrightarrow> sys_inv s \<Longrightarrow> sys_inv s'"
proof (induction rule: rep_step.induct)
  case (rs_write walls task birth fvs s i fl)
  then have "mach_ok (sy_mach s i)" by (simp add: sys_inv_def)
  from write_grows [OF this, of fl walls task birth fvs] rs_write(1) show ?case using inv_grows [OF rs_write(2)] by blast
next
  case (rs_give walls task birth fvs s i fl a)
  then have "mach_ok (sy_mach s i)" by (simp add: sys_inv_def)
  from give_grows [OF this, of fl walls task birth fvs a] rs_give(1) show ?case using inv_grows [OF rs_give(2)] by blast
next
  case (rs_ask s i)
  then show ?case using own_vector_ok [OF rs_ask, of i] by (auto simp: sys_inv_def post_msg_def everything_def)
next
  case (rs_answer i v s ds j fl os)
  then have "vector_ok (stored (sy_mach s i)) v" by (simp add: sys_inv_def)
  from answer_gapless [OF rs_answer(4) this rs_answer(3)] answer_round [OF rs_answer(4)] rs_answer(4) show ?case
    by (auto simp: sys_inv_def post_msg_def everything_def)
next
  case (rs_take i v s fl)
  then have "set (ops_of v) \<subseteq> everything s" "gapless (everything s) (set (ops_of v)) (stored (sy_mach s i))" by (simp_all add: sys_inv_def)
  then show ?case by (rule take_sound [OF rs_take(2)])
next
  case (rs_restart s i)
  then show ?case using restart_ok [of "sy_mach s i" i] stored_everything [of s i] by (intro inv_set) (auto simp: sys_inv_def)
qed

lemma sys_reach_inv: "rep_reach s \<Longrightarrow> sys_inv s"
proof (induction rule: rep_reach.induct)
  case rr_start
  show ?case by (simp add: sys_inv_def sys_start_def mach_ok_def everything_def gapless_def set_device_def replica_empty_def records_ok_empty seen_ok_def)
next
  case (rr_step s s')
  then show ?case using step_inv by blast
qed

end
