(* ===== verification/Rep_Converge.thy ===== *)
theory Rep_Converge
  imports Rep_System
begin

text \<open>
  What the replicated Shelf promises: records are what the operations stored say, machines that have nothing to send each other show the
  same, and a machine that keeps asking catches up.
\<close>

abbreviation no_faults :: faults where
  "no_faults \<equiv> \<lambda>_. None"

definition seen_devices :: "string list \<Rightarrow> machine \<Rightarrow> bool" where
  "seen_devices ds m \<longleftrightarrow> set ds = fst ` set (rp_seen (mc_rep m))"

text \<open>One exchange: ask, answer, take.\<close>

definition pull :: "string list \<Rightarrow> string \<Rightarrow> string \<Rightarrow> rep_sys \<Rightarrow> rep_sys" where
  "pull ds i j s =
     (let v = rep_vector (mc_rep (sy_mach s i)); s = post_msg (Vector_Of i v) s
      in case ops_after no_faults ds v (sy_mach s j) of
           Inl _ \<Rightarrow> s
         | Inr os \<Rightarrow> let s = post_msg (Ops_For i (ops_value os)) s in set_mach i (take_ops no_faults (ops_value os) (sy_mach s i)) s)"

subsection \<open>Nothing left to send\<close>

lemma not_unseen:
  assumes inv: "sys_inv s" and ds: "seen_devices ds (sy_mach s j)" and x: "x \<in> stored (sy_mach s j)" "x \<notin> unseen ds (rep_vector (mc_rep (sy_mach s i))) (stored (sy_mach s j))"
  shows "x \<in> stored (sy_mach s i)"
proof -
  have "device_of x \<in> fst ` set (rp_seen (mc_rep (sy_mach s j)))"
  proof (cases rule: seen_cases [OF inv, of j "device_of x"])
    case (2 t z)
    from map_of_SomeD [OF 2(1)] show ?thesis by force
  qed (use x(1) in blast)
  then have le: "op_time x \<le> vector_at (rep_vector (mc_rep (sy_mach s i))) (device_of x)" using x ds by (auto simp: unseen_def seen_devices_def)
  have "x \<in> everything s" using x(1) stored_everything by blast
  then have "op_wf x" using inv by (simp add: sys_inv_def)
  then have "vector_at (rep_vector (mc_rep (sy_mach s i))) (device_of x) \<noteq> nothing_seen" using wf_after_nothing le by (metis leD)
  then obtain z where "z \<in> stored (sy_mach s i)" "device_of z = device_of x" "op_time x \<le> op_time z" using own_vector_ok [OF inv, of i] le unfolding vector_ok_def by metis
  then show ?thesis using inv \<open>x \<in> everything s\<close> unfolding sys_inv_def gapless_def by auto
qed

lemma nothing_left:
  assumes "sys_inv s" "seen_devices ds (sy_mach s j)" "ops_after fl ds (rep_vector (mc_rep (sy_mach s i))) (sy_mach s j) = Inr []"
  shows "stored (sy_mach s j) \<subseteq> stored (sy_mach s i)"
  using sent(2) [OF assms(3)] not_unseen [OF assms(1,2)] by (auto simp: MAX_OPS_def)

lemma unseen_new: "sys_inv s \<Longrightarrow> unseen ds (rep_vector (mc_rep (sy_mach s i))) os \<inter> stored (sy_mach s i) = {}"
proof -
  assume inv: "sys_inv s"
  have "op_time x \<le> vector_at (rep_vector (mc_rep (sy_mach s i))) (device_of x)" if "x \<in> stored (sy_mach s i)" for x
    unfolding own_vector [OF inv] using that by (cases rule: seen_cases [OF inv, of i "device_of x"]) auto
  then show ?thesis by (auto simp: unseen_def dest: leD)
qed

subsection \<open>Catching up\<close>

lemma pull_step:
  assumes reach: "rep_reach s" and ds: "seen_devices ds (sy_mach s j)" and ij: "i \<noteq> j"
  shows "rep_reach (pull ds i j s) \<and> sy_mach (pull ds i j s) j = sy_mach s j \<and>
    (\<exists>new \<subseteq> stored (sy_mach s j). stored (sy_mach (pull ds i j s) i) = stored (sy_mach s i) \<union> new \<and>
       (stored (sy_mach s j) \<subseteq> stored (sy_mach s i) \<or> \<not> new \<subseteq> stored (sy_mach s i)))"
proof -
  have inv: "sys_inv s" by (rule sys_reach_inv [OF reach])
  let ?v = "rep_vector (mc_rep (sy_mach s i))"
  obtain os where os: "ops_after no_faults ds ?v (sy_mach s j) = Inr os" by (simp add: ops_after_def)
  let ?s1 = "post_msg (Vector_Of i ?v) s"
  let ?s2 = "post_msg (Ops_For i (ops_value os)) ?s1"
  have p: "pull ds i j s = set_mach i (take_ops no_faults (ops_value os) (sy_mach ?s2 i)) ?s2"
    using os by (simp add: pull_def Let_def post_msg_def)
  have "rep_reach ?s1" using reach rs_ask by (rule rr_step)
  then have "rep_reach ?s2" by (rule rr_step, intro rs_answer [where v = ?v and ds = ds and j = j and fl = no_faults]) (use os ds in \<open>auto simp: post_msg_def seen_devices_def\<close>)
  then have r: "rep_reach (pull ds i j s)" unfolding p by (rule rr_step, intro rs_take) (simp add: post_msg_def)
  have sub: "set os \<subseteq> stored (sy_mach s j)" using sent(1) [OF os] by (auto simp: unseen_def)
  then have "set os \<subseteq> everything s" using stored_everything by blast
  then have rd: "ops_of (ops_value os) = os" by (rule answer_round [OF inv])
  have "inj_on op_at (stored (sy_mach s i) \<union> set os)" using everything_inj [OF inv] stored_everything [of s i] \<open>set os \<subseteq> everything s\<close> by (meson inj_on_subset le_sup_iff)
  moreover have "mach_ok (sy_mach s i)" using inv by (simp add: sys_inv_def)
  ultimately have st: "stored (sy_mach (pull ds i j s) i) = stored (sy_mach s i) \<union> set os"
    unfolding p using apply_takes [of "sy_mach s i" os no_faults] rd by (auto simp: set_mach_def post_msg_def take_ops_def)
  have "\<not> set os \<subseteq> stored (sy_mach s i)" if "\<not> stored (sy_mach s j) \<subseteq> stored (sy_mach s i)"
  proof -
    have "os \<noteq> []" using nothing_left [OF inv ds, of no_faults i] os that by auto
    then obtain x where "x \<in> set os" by (cases os) auto
    then show ?thesis using sent(1) [OF os] unseen_new [OF inv, of ds i "stored (sy_mach s j)"] by blast
  qed
  then show ?thesis using r st sub ij unfolding p by (auto simp: set_mach_def post_msg_def)
qed

text \<open>
  C7. A machine that asks another often enough has all it had: after as many exchanges as operations are missing (each brings at
  least one and up to \<open>MAX_OPS\<close>), it has stored exactly what the two had.
\<close>

theorem pull_catches_up:
  assumes "rep_reach s" "seen_devices ds (sy_mach s j)" "i \<noteq> j" "card (stored (sy_mach s j) - stored (sy_mach s i)) \<le> n"
  shows "rep_reach ((pull ds i j ^^ n) s) \<and> stored (sy_mach ((pull ds i j ^^ n) s) i) = stored (sy_mach s i) \<union> stored (sy_mach s j)"
  using assms
proof (induction n arbitrary: s)
  case 0
  then show ?case by auto
next
  case (Suc n)
  let ?s = "pull ds i j s"
  obtain new where p: "rep_reach ?s" "sy_mach ?s j = sy_mach s j" "new \<subseteq> stored (sy_mach s j)" "stored (sy_mach ?s i) = stored (sy_mach s i) \<union> new"
    "stored (sy_mach s j) \<subseteq> stored (sy_mach s i) \<or> \<not> new \<subseteq> stored (sy_mach s i)" using pull_step [OF Suc.prems(1-3)] by blast
  have "card (stored (sy_mach ?s j) - stored (sy_mach ?s i)) \<le> n"
  proof (cases "stored (sy_mach s j) \<subseteq> stored (sy_mach s i)")
    case True
    then have "stored (sy_mach ?s j) - stored (sy_mach ?s i) = {}" using p by auto
    then show ?thesis by (metis card.empty zero_le)
  next
    case False
    then have "stored (sy_mach ?s j) - stored (sy_mach ?s i) \<subset> stored (sy_mach s j) - stored (sy_mach s i)" using p by auto
    then have "card (stored (sy_mach ?s j) - stored (sy_mach ?s i)) < card (stored (sy_mach s j) - stored (sy_mach s i))" by (intro psubset_card_mono) auto
    then show ?thesis using Suc.prems(4) by simp
  qed
  moreover have "seen_devices ds (sy_mach ?s j)" using Suc.prems(2) p(2) by simp
  ultimately show ?case using Suc.IH [OF p(1) _ Suc.prems(3)] p(2-4) by (auto simp: funpow_swap1)
qed

text \<open>
  C6. Whatever was lost, delayed or repeated on the way: two machines neither of which has anything to send the other have stored the
  same operations and show the same records.
\<close>

theorem replicas_converge:
  assumes "rep_reach s" "seen_devices ds (sy_mach s i)" "seen_devices es (sy_mach s j)"
    and "ops_after fl es (rep_vector (mc_rep (sy_mach s i))) (sy_mach s j) = Inr []" "ops_after gl ds (rep_vector (mc_rep (sy_mach s j))) (sy_mach s i) = Inr []"
  shows "stored (sy_mach s i) = stored (sy_mach s j) \<and> rp_records (mc_rep (sy_mach s i)) = rp_records (mc_rep (sy_mach s j))"
proof -
  have inv: "sys_inv s" by (rule sys_reach_inv [OF assms(1)])
  have eq: "stored (sy_mach s i) = stored (sy_mach s j)" using nothing_left [OF inv assms(3,4)] nothing_left [OF inv assms(2,5)] by auto
  have inj: "inj_on op_at (stored (sy_mach s j))" using inv by (simp add: sys_inv_def mach_ok_def distinct_map)
  have "records_ok (stored (sy_mach s j)) (rp_records (mc_rep (sy_mach s i)))" "records_ok (stored (sy_mach s j)) (rp_records (mc_rep (sy_mach s j)))"
    using inv eq unfolding sys_inv_def mach_ok_def by metis+
  then show ?thesis using eq records_unique [OF inj] by blast
qed


subsection \<open>An example\<close>

definition sample_write :: rep_sys where
  "sample_write = set_mach ''a'' (fst (rep_write no_faults [5] ''t'' ''5.0.a'' [(''name'', JString ''x'')] (sy_mach sys_start ''a''))) sys_start"

definition sample_pulled :: rep_sys where
  "sample_pulled = pull [''a''] ''b'' ''a'' sample_write"

lemma sample_op: "rd_ops (mc_db (sy_mach sample_write ''a'')) = [\<lparr>op_at = Hlc 5 0 ''a'', op_task = ''t'', op_birth = ''5.0.a'', op_field = ''name'', op_value = JString ''x''\<rparr>] \<and>
    rd_ops (mc_db (sy_mach sample_write ''b'')) = []"
  by code_simp

lemma sample_seen: "map fst (rp_seen (mc_rep (sy_mach sample_write ''a''))) = [''a''] \<and> map fst (rp_seen (mc_rep (sy_mach sample_pulled ''b''))) = [''a''] \<and>
    sy_mach sample_pulled ''a'' = sy_mach sample_write ''a''"
  by code_simp

lemma sample_settled: "ops_after no_faults [''a''] (rep_vector (mc_rep (sy_mach sample_pulled ''a''))) (sy_mach sample_pulled ''b'') = Inr [] \<and>
    ops_after no_faults [''a''] (rep_vector (mc_rep (sy_mach sample_pulled ''b''))) (sy_mach sample_pulled ''a'') = Inr []"
  by code_simp

lemma sample_rep_reach: "rep_reach sample_write"
  unfolding sample_write_def
proof (rule rr_step [OF rr_start rs_write])
  show "\<forall>x \<in> set (snd (rep_stage [5] ''t'' ''5.0.a'' [(''name'', JString ''x'')] (mc_rep (sy_mach sys_start ''a'')))). op_wf x" by code_simp
qed

lemma sample_devices: "seen_devices [''a''] (sy_mach sample_write ''a'')" "seen_devices [''a''] (sy_mach sample_pulled ''b'')" "seen_devices [''a''] (sy_mach sample_pulled ''a'')"
  unfolding seen_devices_def set_map [symmetric] using sample_seen by simp_all

lemma sample_pulled_reach: "rep_reach sample_pulled"
  unfolding sample_pulled_def using pull_step [OF sample_rep_reach sample_devices(1), of "''b''"] by simp

theorem pull_catches_up_witness:
  "rep_reach sample_write \<and> seen_devices [''a''] (sy_mach sample_write ''a'') \<and> stored (sy_mach sample_write ''b'') = {} \<and>
   stored (sy_mach ((pull [''a''] ''b'' ''a'' ^^ 1) sample_write) ''b'') = stored (sy_mach sample_write ''a'')"
proof -
  have "card (stored (sy_mach sample_write ''a'') - stored (sy_mach sample_write ''b'')) \<le> 1" using sample_op by simp
  from pull_catches_up [OF sample_rep_reach sample_devices(1) _ this] show ?thesis using sample_rep_reach sample_devices(1) sample_op by simp
qed

theorem replicas_converge_witness:
  "rep_reach sample_pulled \<and> stored (sy_mach sample_pulled ''a'') \<noteq> {} \<and>
   stored (sy_mach sample_pulled ''a'') = stored (sy_mach sample_pulled ''b'') \<and> rp_records (mc_rep (sy_mach sample_pulled ''a'')) = rp_records (mc_rep (sy_mach sample_pulled ''b''))"
proof -
  have "stored (sy_mach sample_pulled ''a'') \<noteq> {}" using sample_seen sample_op by simp
  then show ?thesis using replicas_converge [OF sample_pulled_reach sample_devices(3,2) conjunct1 [OF sample_settled] conjunct2 [OF sample_settled]] sample_pulled_reach by simp
qed


end
