(* ===== verification/Rep_Hold.thy ===== *)
theory Rep_Hold
  imports Rep_Machine
begin

text \<open>
  Permission to run a task (\<open>replica.rs\<close>): it is one token that moves with a growing epoch. The operations of the machines
  implement the token, whatever fails, is lost or comes again; so at most one machine may start a task. Taking over from a
  machine that was away for long (\<open>take\<close>) and taking back a failed move (\<open>reclaim\<close>) give it up on purpose and are left out.
\<close>

subsection \<open>The token\<close>

definition may_run :: "authority option \<Rightarrow> bool" where
  "may_run a = (case a of Some x \<Rightarrow> au_permit x = PReady \<or> au_permit x = PRunning | None \<Rightarrow> False)"

definition level :: "authority option \<Rightarrow> int" where
  "level a = (case a of Some x \<Rightarrow> au_epoch x | None \<Rightarrow> 0)"

type_synonym token = "(string \<Rightarrow> authority option) \<times> (int \<times> string) set"

inductive tok_step :: "token \<Rightarrow> token \<Rightarrow> bool" where
  t_stay: "tok_step t t"
| t_make: "\<forall>j. A j = None \<Longrightarrow> tok_step (A, {}) (A(i := Some \<lparr>au_epoch = 0, au_permit = p, au_to = None\<rparr>), {})"
| t_run: "A i = Some a \<Longrightarrow> au_permit a = PReady \<Longrightarrow> tok_step (A, G) (A(i := Some \<lparr>au_epoch = au_epoch a, au_permit = PRunning, au_to = None\<rparr>), G)"
| t_give: "A i = Some a \<Longrightarrow> may_run (Some a) \<Longrightarrow>
    tok_step (A, G) (A(i := Some \<lparr>au_epoch = au_epoch a + 1, au_permit = PSent, au_to = Some to\<rparr>), insert (au_epoch a + 1, to) G)"
| t_receive: "(e, i) \<in> G \<Longrightarrow> level (A i) < e \<Longrightarrow> tok_step (A, G) (A(i := Some \<lparr>au_epoch = e, au_permit = PReady, au_to = None\<rparr>), G)"
| t_ack: "A i = Some a \<Longrightarrow> au_permit a = PSent \<Longrightarrow> tok_step (A, G) (A(i := Some (a\<lparr>au_permit := PAcked\<rparr>)), G)"
| t_yield: "tok_step (A, G) (A(i := Some \<lparr>au_epoch = level (A i), au_permit = PAcked, au_to = to\<rparr>), G)"

definition tok_inv :: "token \<Rightarrow> bool" where
  "tok_inv t = (case t of (A, G) \<Rightarrow>
     (\<forall>i a. A i = Some a \<longrightarrow> 0 \<le> au_epoch a) \<and> (\<forall>g \<in> G. 0 < fst g) \<and>
     (\<forall>i j. may_run (A i) \<longrightarrow> may_run (A j) \<longrightarrow> i = j) \<and>
     (\<forall>i. may_run (A i) \<longrightarrow> (\<forall>g \<in> G. fst g \<le> level (A i)) \<and> (\<forall>j. level (A j) \<le> level (A i))) \<and>
     (\<forall>g \<in> G. \<forall>h \<in> G. fst g = fst h \<longrightarrow> g = h) \<and>
     (\<forall>g \<in> G. level (A (snd g)) < fst g \<longrightarrow> (\<forall>i. \<not> may_run (A i)) \<and> (\<forall>j. level (A j) \<le> fst g) \<and> (\<forall>h \<in> G. fst h \<le> fst g)))"

lemma may_run_simps: "\<not> may_run None" "may_run (Some a) \<longleftrightarrow> au_permit a = PReady \<or> au_permit a = PRunning"
  by (simp_all add: may_run_def)

lemma level_simps [simp]: "level None = 0" "level (Some a) = au_epoch a"
  by (simp_all add: level_def)

lemma tok_invI:
  assumes "\<And>i a. A i = Some a \<Longrightarrow> 0 \<le> au_epoch a" "\<And>g. g \<in> G \<Longrightarrow> 0 < fst g" "\<And>i j. may_run (A i) \<Longrightarrow> may_run (A j) \<Longrightarrow> i = j"
    "\<And>i g. may_run (A i) \<Longrightarrow> g \<in> G \<Longrightarrow> fst g \<le> level (A i)" "\<And>i j. may_run (A i) \<Longrightarrow> level (A j) \<le> level (A i)"
    "\<And>g h. g \<in> G \<Longrightarrow> h \<in> G \<Longrightarrow> fst g = fst h \<Longrightarrow> g = h"
    "\<And>g i. g \<in> G \<Longrightarrow> level (A (snd g)) < fst g \<Longrightarrow> \<not> may_run (A i)" "\<And>g j. g \<in> G \<Longrightarrow> level (A (snd g)) < fst g \<Longrightarrow> level (A j) \<le> fst g"
    "\<And>g h. g \<in> G \<Longrightarrow> h \<in> G \<Longrightarrow> level (A (snd g)) < fst g \<Longrightarrow> fst h \<le> fst g"
  shows "tok_inv (A, G)"
  unfolding tok_inv_def prod.case using assms by blast

lemma tok_invD:
  assumes "tok_inv (A, G)"
  shows "A i = Some a \<Longrightarrow> 0 \<le> au_epoch a" "g \<in> G \<Longrightarrow> 0 < fst g" "may_run (A i) \<Longrightarrow> may_run (A j) \<Longrightarrow> i = j"
    "may_run (A i) \<Longrightarrow> g \<in> G \<Longrightarrow> fst g \<le> level (A i)" "may_run (A i) \<Longrightarrow> level (A j) \<le> level (A i)"
    "g \<in> G \<Longrightarrow> h \<in> G \<Longrightarrow> fst g = fst h \<Longrightarrow> g = h"
    "g \<in> G \<Longrightarrow> level (A (snd g)) < fst g \<Longrightarrow> \<not> may_run (A i)" "g \<in> G \<Longrightarrow> level (A (snd g)) < fst g \<Longrightarrow> level (A j) \<le> fst g"
    "g \<in> G \<Longrightarrow> h \<in> G \<Longrightarrow> level (A (snd g)) < fst g \<Longrightarrow> fst h \<le> fst g"
  using assms unfolding tok_inv_def prod.case by (elim conjE; meson)+

lemma level_nonneg: "tok_inv (A, G) \<Longrightarrow> 0 \<le> level (A i)"
  by (cases "A i") (auto dest: tok_invD(1))

text \<open>A machine that does not run more than before and stays at its epoch changes nothing.\<close>

lemma tok_inv_less:
  assumes inv: "tok_inv (A, G)" and a: "au_epoch a = level (A i)" "may_run (Some a) \<Longrightarrow> may_run (A i)"
  shows "tok_inv (A(i := Some a), G)"
proof -
  note d = tok_invD [OF inv]
  have lv: "level ((A(i := Some a)) j) = level (A j)" for j using a(1) by simp
  have mr: "may_run ((A(i := Some a)) j) \<Longrightarrow> may_run (A j)" for j using a(2) by (cases "j = i") simp_all
  have nn: "0 \<le> au_epoch a" using a(1) level_nonneg [OF inv, of i] by simp
  show ?thesis
  proof (rule tok_invI, unfold lv)
    show "0 \<le> au_epoch b" if "(A(i := Some a)) j = Some b" for j b using that nn d(1) by (auto split: if_splits)
  qed (use mr d(2-9) in meson)+
qed

lemma tok_inv_give:
  assumes inv: "tok_inv (A, G)" and a: "A i = Some a" "may_run (A i)" and b: "au_epoch b = au_epoch a + 1" "\<not> may_run (Some b)"
  shows "tok_inv (A(i := Some b), insert (au_epoch a + 1, to) G)"
proof -
  note d = tok_invD [OF inv]
  let ?A = "A(i := Some b)"
  have top: "fst g \<le> au_epoch a" if "g \<in> G" for g using d(4) [OF a(2) that] a(1) by simp
  have below: "level (A j) \<le> au_epoch a" for j using d(5) [OF a(2)] a(1) by simp
  have none: "\<not> may_run (?A j)" for j using d(3) [OF a(2)] b(2) by (cases "j = i") auto
  have nn: "0 \<le> au_epoch a" using level_nonneg [OF inv, of i] a(1) by simp
  have lv: "level (?A j) \<le> au_epoch a + 1" for j using below [of j] b(1) by simp
  have up: "level (A j) \<le> level (?A j)" for j using a(1) b(1) by simp
  have pend: "\<not> level (?A (snd g)) < fst g" if "g \<in> G" for g
    using d(7) [OF that, of i] a(2) up [of "snd g"] by auto
  show ?thesis
  proof (rule tok_invI)
    show "0 \<le> au_epoch c" if "?A j = Some c" for j c using that nn b(1) d(1) by (auto split: if_splits)
    show "0 < fst g" if "g \<in> insert (au_epoch a + 1, to) G" for g using that nn d(2) [of g] by auto
    show "g = h" if "g \<in> insert (au_epoch a + 1, to) G" "h \<in> insert (au_epoch a + 1, to) G" "fst g = fst h" for g h
      using that top [of g] top [of h] d(6) [of g h] by auto
    show "level (?A j) \<le> fst g" if "g \<in> insert (au_epoch a + 1, to) G" "level (?A (snd g)) < fst g" for g j
      using that pend [of g] lv [of j] by auto
    show "fst h \<le> fst g" if "g \<in> insert (au_epoch a + 1, to) G" "h \<in> insert (au_epoch a + 1, to) G" "level (?A (snd g)) < fst g" for g h
      using that pend [of g] top [of h] by auto
  qed (use none in blast)+
qed

lemma tok_inv_receive:
  assumes inv: "tok_inv (A, G)" and g: "(e, i) \<in> G" "level (A i) < e" and b: "au_epoch b = e"
  shows "tok_inv (A(i := Some b), G)"
proof -
  note d = tok_invD [OF inv]
  let ?A = "A(i := Some b)"
  have pg: "level (A (snd (e, i))) < fst (e, i)" using g(2) by simp
  have none: "\<not> may_run (A j)" "level (A j) \<le> e" for j using d(7,8) [OF g(1) pg] by simp_all
  have top: "fst h \<le> e" if "h \<in> G" for h using d(9) [OF g(1) that pg] by simp
  have nn: "0 < e" using d(2) [OF g(1)] by simp
  have run: "j = i" if "may_run (?A j)" for j using that none(1) by (cases "j = i") auto
  have lv: "level (?A j) \<le> e" for j using none(2) b by simp
  have pend: "\<not> level (?A (snd h)) < fst h" if h: "h \<in> G" for h
  proof
    assume l: "level (?A (snd h)) < fst h"
    then have n: "snd h \<noteq> i" using top [OF h] b by auto
    then have "level (A (snd h)) < fst h" using l by simp
    from d(9) [OF h g(1) this] have "h = (e, i)" using d(6) [OF h g(1)] top [OF h] by simp
    then show False using n by simp
  qed
  show ?thesis
  proof (rule tok_invI)
    show "0 \<le> au_epoch c" if "?A j = Some c" for j c using that nn b d(1) by (auto split: if_splits)
    show "j = k" if "may_run (?A j)" "may_run (?A k)" for j k using run that by blast
    show "fst h \<le> level (?A j)" if "may_run (?A j)" "h \<in> G" for j h using run [OF that(1)] top [OF that(2)] b by simp
    show "level (?A k) \<le> level (?A j)" if "may_run (?A j)" for j k using run [OF that] lv [of k] b by simp
  qed (use d(2,6) pend in blast)+
qed

lemma tok_step_inv: "tok_step t t' \<Longrightarrow> tok_inv t \<Longrightarrow> tok_inv t'"
proof (induction rule: tok_step.induct)
  case (t_make A i p)
  then show ?case by (intro tok_invI) (auto simp: may_run_simps split: if_splits)
next
  case (t_receive e i G A)
  then show ?case by (intro tok_inv_receive) auto
next
  case (t_give A i a G to)
  then show ?case by (intro tok_inv_give) (auto simp: may_run_simps)
qed (auto intro!: tok_inv_less simp: may_run_simps)

subsection \<open>The machines implement it\<close>

text \<open>
  The machines and every grant a machine has committed (\<open>grant\<close>, \<open>hand\<close> and, after a restart, \<open>outbox\<close> give them out); a grant comes to
  the machine it names any number of times, in any order, or never. Every fault of a database is any fault. The permission for a new task is
  held in the transaction that stores it, under a birth no machine has used.
\<close>

record hold_sys =
  hy_mach :: "string \<Rightarrow> machine"
  hy_grants :: "grant set"

definition auth_at :: "string \<Rightarrow> string \<Rightarrow> hold_sys \<Rightarrow> string \<Rightarrow> authority option" where
  "auth_at t b s i = authority_of t b (mc_db (hy_mach s i))"

definition grants_of :: "string \<Rightarrow> string \<Rightarrow> grant set \<Rightarrow> (int \<times> string) set" where
  "grants_of t b G = (\<lambda>g. (gr_epoch g, gr_to g)) ` {g \<in> G. gr_task g = t \<and> gr_birth g = b}"

definition put_mach :: "string \<Rightarrow> machine \<Rightarrow> hold_sys \<Rightarrow> hold_sys" where
  "put_mach i m s = s\<lparr>hy_mach := (hy_mach s)(i := m)\<rparr>"

inductive hold_step :: "hold_sys \<Rightarrow> hold_sys \<Rightarrow> bool" where
  hs_make: "\<forall>j. auth_at t b s j = None \<Longrightarrow> grants_of t b (hy_grants s) = {} \<Longrightarrow>
    hold_step s (put_mach i ((hy_mach s i)\<lparr>mc_db := hold_unless_held t b p (mc_db (hy_mach s i))\<rparr>) s)"
| hs_start: "hold_step s (put_mach i (fst (rep_start fl t b (hy_mach s i))) s)"
| hs_grant: "rep_grant fl walls t b to (hy_mach s i) = (m, Inr g) \<Longrightarrow> hold_step s ((put_mach i m s)\<lparr>hy_grants := insert g (hy_grants s)\<rparr>)"
| hs_not_granted: "rep_grant fl walls t b to (hy_mach s i) = (m, Inl e) \<Longrightarrow> hold_step s (put_mach i m s)"
| hs_hand: "rep_hand fl walls t b to (hy_mach s i) = (m, Inr epoch) \<Longrightarrow>
    hold_step s ((put_mach i m s)\<lparr>hy_grants := insert \<lparr>gr_task = t, gr_birth = b, gr_epoch = epoch, gr_to = to\<rparr> (hy_grants s)\<rparr>)"
| hs_not_handed: "rep_hand fl walls t b to (hy_mach s i) = (m, Inl e) \<Longrightarrow> hold_step s (put_mach i m s)"
| hs_receive: "g \<in> hy_grants s \<Longrightarrow> hold_step s (put_mach (gr_to g) (fst (rep_receive fl walls (gr_task g) (gr_birth g) (gr_epoch g) (hy_mach s (gr_to g)))) s)"
| hs_acked: "hold_step s (put_mach i (fst (rep_acked fl t b epoch (hy_mach s i))) s)"
| hs_yielded: "hold_step s (put_mach i ((hy_mach s i)\<lparr>mc_db := yielded t b to (mc_db (hy_mach s i))\<rparr>) s)"
| hs_write: "hold_step s (put_mach i (fst (rep_write fl walls t b fvs (hy_mach s i))) s)"
| hs_apply: "hold_step s (put_mach i (fst (rep_apply fl os (hy_mach s i))) s)"
| hs_ran: "hold_step s (put_mach i (fst (rep_ran fl walls wall t b (hy_mach s i))) s)"
| hs_restart: "hold_step s (put_mach i (machine_restart i (hy_mach s i)) s)"

definition hold_start :: hold_sys where
  "hold_start = \<lparr>hy_mach = (\<lambda>i. \<lparr>mc_rep = set_device i replica_empty, mc_db = \<lparr>rd_ops = [], rd_auth = [], rd_clock = None\<rparr>\<rparr>), hy_grants = {}\<rparr>"

inductive hold_reach :: "hold_sys \<Rightarrow> bool" where
  hr_start: "hold_reach hold_start"
| hr_step: "hold_reach s \<Longrightarrow> hold_step s s' \<Longrightarrow> hold_reach s'"

definition token_of :: "string \<Rightarrow> string \<Rightarrow> hold_sys \<Rightarrow> token" where
  "token_of t b s = (auth_at t b s, grants_of t b (hy_grants s))"

lemma authority_set: "authority_of t b (set_authority t' b' a d) = (if t = t' \<and> b = b' then Some a else authority_of t b d)"
  by (auto simp: authority_of_def set_authority_def update_conv')

lemma authority_commit [simp]: "authority_of t b (fst (rep_commit os r d)) = authority_of t b d"
  by (simp add: authority_of_def rep_commit_def split: prod.split)

lemma commit_authority: "rep_commit os r d = (d', n) \<Longrightarrow> authority_of t b d' = authority_of t b d"
  using authority_commit [of t b os r d] by simp

lemma authority_give:
  "authority_of t b (mc_db (fst (give_on fl walls t' b' fvs a m))) = (if fl 0 = None \<and> t = t' \<and> b = b' then Some a else authority_of t b (mc_db m))"
  "isl (snd (give_on fl walls t' b' fvs a m)) \<longleftrightarrow> fl 0 \<noteq> None"
  by (auto simp: give_on_def authority_set split: prod.splits option.splits)

lemma token_put: "token_of t b (put_mach i m s) = ((auth_at t b s)(i := authority_of t b (mc_db m)), grants_of t b (hy_grants s))"
  by (auto simp: token_of_def auth_at_def put_mach_def fun_eq_iff)

lemma token_put_grant:
  "token_of t b ((put_mach i m s)\<lparr>hy_grants := insert g (hy_grants s)\<rparr>) =
     ((auth_at t b s)(i := authority_of t b (mc_db m)), (if gr_task g = t \<and> gr_birth g = b then insert (gr_epoch g, gr_to g) (grants_of t b (hy_grants s)) else grants_of t b (hy_grants s)))"
proof -
  have "grants_of t b (insert g G) = (if gr_task g = t \<and> gr_birth g = b then insert (gr_epoch g, gr_to g) (grants_of t b G) else grants_of t b G)" for G
    by (auto simp: grants_of_def)
  then show ?thesis by (auto simp: token_of_def auth_at_def put_mach_def fun_eq_iff)
qed

lemma token_unchanged:
  assumes "authority_of t b (mc_db m) = auth_at t b s i"
  shows "tok_step (token_of t b s) (token_of t b (put_mach i m s))"
proof -
  have "token_of t b (put_mach i m s) = token_of t b s" unfolding token_put assms by (simp add: token_of_def)
  then show ?thesis by (simp add: t_stay)
qed

lemma start_authority:
  "authority_of t b (mc_db (fst (rep_start fl t' b' m))) =
     (case authority_of t b (mc_db m) of
        Some a \<Rightarrow> if t = t' \<and> b = b' \<and> fl 0 = None \<and> fl 1 = None \<and> au_permit a = PReady then Some \<lparr>au_epoch = au_epoch a, au_permit = PRunning, au_to = None\<rparr> else Some a
      | None \<Rightarrow> None)"
  by (auto simp: rep_start_def rep_hold_def authority_set epoch_of_def split: option.splits)

lemma acked_authority:
  "authority_of t b (mc_db (fst (rep_acked fl t' b' e m))) =
     (case authority_of t b (mc_db m) of
        Some a \<Rightarrow> if t = t' \<and> b = b' \<and> fl 0 = None \<and> au_permit a = PSent \<and> au_epoch a = e then Some (a\<lparr>au_permit := PAcked\<rparr>) else Some a
      | None \<Rightarrow> None)"
  by (auto simp: rep_acked_def authority_set split: option.splits)

lemma receive_authority:
  "authority_of t b (mc_db (fst (rep_receive fl walls t' b' e m))) =
     (if t = t' \<and> b = b' \<and> fl 0 = None \<and> fl 1 = None \<and> (case authority_of t b (mc_db m) of Some a \<Rightarrow> au_epoch a < e | None \<Rightarrow> True)
      then Some \<lparr>au_epoch = e, au_permit = PReady, au_to = None\<rparr> else authority_of t b (mc_db m))"
proof -
  let ?g = "give_on (\<lambda>n. fl (Suc n)) walls t' b' [(''owner'', JString (rp_me (mc_rep m)))] \<lparr>au_epoch = e, au_permit = PReady, au_to = None\<rparr> m"
  have "fst (rep_receive fl walls t' b' e m) = (if fl 0 \<noteq> None \<or> (case authority_of t' b' (mc_db m) of Some a \<Rightarrow> au_epoch a \<ge> e | None \<Rightarrow> False) then m else fst ?g)"
    by (auto simp: rep_receive_def split: option.splits prod.splits sum.splits)
  then show ?thesis by (auto simp: authority_give split: option.splits)
qed

lemma give_result:
  "give_on fl walls t' b' fvs a m = (m', r) \<Longrightarrow> authority_of t b (mc_db m') = (if \<not> isl r \<and> t = t' \<and> b = b' then Some a else authority_of t b (mc_db m))"
  using authority_give(1) [of t b fl walls t' b' fvs a m] authority_give(2) [of fl walls t' b' fvs a m] by simp

text \<open>What \<open>grant\<close> and \<open>hand\<close> do: the permission goes with the next epoch, or nothing changes.\<close>

definition gave :: "string \<Rightarrow> string \<Rightarrow> string \<Rightarrow> machine \<Rightarrow> machine \<Rightarrow> int \<Rightarrow> bool" where
  "gave t b to m m' e \<longleftrightarrow> (\<exists>a. authority_of t b (mc_db m) = Some a \<and> may_run (Some a) \<and> e = au_epoch a + 1 \<and>
     (\<forall>t' b'. authority_of t' b' (mc_db m') = (if t' = t \<and> b' = b then Some \<lparr>au_epoch = e, au_permit = PSent, au_to = Some to\<rparr> else authority_of t' b' (mc_db m))))"

lemma granted:
  assumes "rep_grant fl walls t b to m = (m', r)"
  shows "case r of Inr g \<Rightarrow> gave t b to m m' (gr_epoch g) \<and> g = \<lparr>gr_task = t, gr_birth = b, gr_epoch = gr_epoch g, gr_to = to\<rparr>
    | Inl _ \<Rightarrow> \<forall>t' b'. authority_of t' b' (mc_db m') = authority_of t' b' (mc_db m)"
proof (cases "fl 0 = None \<and> (\<exists>a. authority_of t b (mc_db m) = Some a \<and> au_permit a = PReady)")
  case True
  then obtain a where a: "fl 0 = None" "authority_of t b (mc_db m) = Some a" "au_permit a = PReady" by blast
  obtain m2 r2 where g: "give_on (\<lambda>n. fl (Suc n)) walls t b [(''owner'', JString to)] \<lparr>au_epoch = au_epoch a + 1, au_permit = PSent, au_to = Some to\<rparr> m = (m2, r2)"
    by fastforce
  show ?thesis using assms a g give_result [OF g] by (cases r2) (auto simp: rep_grant_def gave_def may_run_simps)
next
  case False
  then show ?thesis using assms by (auto simp: rep_grant_def split: option.splits if_splits)
qed

lemma handed:
  assumes "rep_hand fl walls t b to m = (m', r)"
  shows "case r of Inr e \<Rightarrow> gave t b to m m' e | Inl _ \<Rightarrow> \<forall>t' b'. authority_of t' b' (mc_db m') = authority_of t' b' (mc_db m)"
proof (cases "fl 0 = None \<and> (\<exists>a. authority_of t b (mc_db m) = Some a \<and> may_run (Some a))")
  case True
  then obtain a where a: "fl 0 = None" "authority_of t b (mc_db m) = Some a" "may_run (Some a)" by blast
  obtain m2 r2 where g: "give_on (\<lambda>n. fl (Suc n)) walls t b [(''owner'', JString to)] \<lparr>au_epoch = au_epoch a + 1, au_permit = PSent, au_to = Some to\<rparr> m = (m2, r2)"
    by fastforce
  show ?thesis using assms a g give_result [OF g] by (cases r2) (auto simp: rep_hand_def gave_def may_run_simps split: if_splits)
next
  case False
  then show ?thesis using assms by (auto simp: rep_hand_def may_run_simps split: option.splits if_splits)
qed

lemma gave_step:
  assumes "gave t' b' to (hy_mach s i) m e"
  shows "tok_step (token_of t b s) (token_of t b ((put_mach i m s)\<lparr>hy_grants := insert \<lparr>gr_task = t', gr_birth = b', gr_epoch = e, gr_to = to\<rparr> (hy_grants s)\<rparr>))"
proof (cases "t = t' \<and> b = b'")
  case True
  obtain a where "auth_at t b s i = Some a" "may_run (Some a)" "e = au_epoch a + 1"
    "authority_of t b (mc_db m) = Some \<lparr>au_epoch = au_epoch a + 1, au_permit = PSent, au_to = Some to\<rparr>"
    using assms True by (auto simp: gave_def auth_at_def)
  then show ?thesis using True t_give [of "auth_at t b s" i a "grants_of t b (hy_grants s)" to] unfolding token_put_grant by (simp add: token_of_def)
next
  case False
  then have "authority_of t b (mc_db m) = auth_at t b s i" using assms by (auto simp: gave_def auth_at_def)
  then show ?thesis using False token_unchanged [of t b m s i] unfolding token_put_grant token_put by auto
qed

lemma write_authority: "authority_of t b (mc_db (fst (rep_write fl walls t' b' fvs m))) = authority_of t b (mc_db m)"
  by (auto simp: rep_write_def Let_def commit_authority split: prod.splits option.splits)

lemma apply_authority: "authority_of t b (mc_db (fst (rep_apply fl os m))) = authority_of t b (mc_db m)"
  by (auto simp: rep_apply_def Let_def commit_authority split: prod.splits option.splits)

lemma ran_authority: "authority_of t b (mc_db (fst (rep_ran fl walls wall t' b' m))) = authority_of t b (mc_db m)"
  by (auto simp: rep_ran_def Let_def write_authority split: option.splits)

theorem hold_simulates:
  assumes "hold_step s s'" "tok_inv (token_of t b s)"
  shows "tok_step (token_of t b s) (token_of t b s')"
  using assms
proof (induction rule: hold_step.induct)
  case (hs_make t' b' s i p)
  show ?case
  proof (cases "t = t' \<and> b = b'")
    case True
    then show ?thesis using hs_make t_make [of "auth_at t b s" i p]
      by (simp add: token_put hold_unless_held_def authority_set auth_at_def) (simp add: token_of_def auth_at_def)
  next
    case False
    then show ?thesis by (intro token_unchanged) (auto simp: hold_unless_held_def authority_set auth_at_def)
  qed
next
  case (hs_start s i fl t' b')
  show ?case
  proof (cases "t = t' \<and> b = b' \<and> fl 0 = None \<and> fl 1 = None \<and> (\<exists>a. auth_at t b s i = Some a \<and> au_permit a = PReady)")
    case True
    then obtain a where "auth_at t b s i = Some a" "au_permit a = PReady" by blast
    then show ?thesis using True t_run [of "auth_at t b s" i a] unfolding token_put start_authority by (simp add: auth_at_def) (simp add: token_of_def auth_at_def)
  next
    case False
    then show ?thesis by (intro token_unchanged) (auto simp: start_authority auth_at_def split: option.splits)
  qed
next
  case (hs_grant fl walls t' b' to s i m g)
  from granted [OF hs_grant(1)] show ?case using gave_step [of t' b' to s i m "gr_epoch g" t b] by simp
next
  case (hs_not_granted fl walls t' b' to s i m e)
  from granted [OF hs_not_granted(1)] show ?case by (intro token_unchanged) (simp add: auth_at_def)
next
  case (hs_hand fl walls t' b' to s i m epoch)
  from handed [OF hs_hand(1)] show ?case using gave_step [of t' b' to s i m epoch t b] by simp
next
  case (hs_not_handed fl walls t' b' to s i m e)
  from handed [OF hs_not_handed(1)] show ?case by (intro token_unchanged) (simp add: auth_at_def)
next
  case (hs_receive g s fl walls)
  let ?i = "gr_to g"
  have pos: "0 < gr_epoch g" if "t = gr_task g" "b = gr_birth g" using hs_receive that tok_invD(2) [of "auth_at t b s" _ "(gr_epoch g, gr_to g)"] by (auto simp: token_of_def grants_of_def)
  show ?case
  proof (cases "t = gr_task g \<and> b = gr_birth g \<and> fl 0 = None \<and> fl 1 = None \<and> level (auth_at t b s ?i) < gr_epoch g")
    case True
    then have "(gr_epoch g, ?i) \<in> grants_of t b (hy_grants s)" using hs_receive(1) by (auto simp: grants_of_def)
    from t_receive [of _ _ _ "auth_at t b s", OF this] True show ?thesis
      unfolding token_put receive_authority by (auto simp: token_of_def auth_at_def level_def split: option.splits)
  next
    case False
    then show ?thesis using pos by (intro token_unchanged) (auto simp: receive_authority auth_at_def level_def split: option.splits)
  qed
next
  case (hs_acked s i fl t' b' e)
  show ?case
  proof (cases "t = t' \<and> b = b' \<and> fl 0 = None \<and> (\<exists>a. auth_at t b s i = Some a \<and> au_permit a = PSent \<and> au_epoch a = e)")
    case True
    then obtain a where "auth_at t b s i = Some a" "au_permit a = PSent" "au_epoch a = e" by blast
    then show ?thesis using True t_ack [of "auth_at t b s" i a] unfolding token_put acked_authority by (simp add: auth_at_def) (simp add: token_of_def auth_at_def)
  next
    case False
    then show ?thesis by (intro token_unchanged) (auto simp: acked_authority auth_at_def split: option.splits)
  qed
next
  case (hs_yielded s i t' b' to)
  show ?case
  proof (cases "t = t' \<and> b = b'")
    case True
    then show ?thesis using t_yield [of "auth_at t b s" "grants_of t b (hy_grants s)" i "Some to"]
      by (simp add: token_put yielded_def authority_set epoch_of_def level_def auth_at_def) (simp add: token_of_def auth_at_def)
  next
    case False
    then show ?thesis by (intro token_unchanged) (auto simp: yielded_def authority_set auth_at_def)
  qed
next
  case (hs_restart s i)
  show ?case by (intro token_unchanged) (simp add: machine_restart_def auth_at_def)
qed (intro token_unchanged, simp add: auth_at_def write_authority apply_authority ran_authority)+

lemma hold_reach_inv: "hold_reach s \<Longrightarrow> tok_inv (token_of t b s)"
proof (induction rule: hold_reach.induct)
  case hr_start
  then show ?case by (auto intro!: tok_invI simp: token_of_def auth_at_def grants_of_def hold_start_def authority_of_def may_run_simps)
next
  case (hr_step s s')
  then show ?case using tok_step_inv hold_simulates by blast
qed

subsection \<open>One machine at a time\<close>

lemma started: "snd (rep_start fl t b m) = Inr () \<Longrightarrow> may_run (authority_of t b (mc_db m))"
  by (auto simp: rep_start_def may_run_simps split: option.splits if_splits)


lemma grant_goes:
  assumes "authority_of t b (mc_db m) = Some a" "au_permit a = PReady"
  shows "\<exists>m'. rep_grant (\<lambda>_. None) walls t b to m = (m', Inr \<lparr>gr_task = t, gr_birth = b, gr_epoch = au_epoch a + 1, gr_to = to\<rparr>)"
proof -
  obtain r os where "rep_stage walls t b [(''owner'', JString to)] (mc_rep m) = (r, os)" by fastforce
  then show ?thesis using assms by (simp add: rep_grant_def give_on_def)
qed

definition hold_sample :: hold_sys where
  "hold_sample =
     (let s = put_mach ''a'' ((hy_mach hold_start ''a'')\<lparr>mc_db := hold_unless_held ''task-1'' ''0.0.a'' PReady (mc_db (hy_mach hold_start ''a''))\<rparr>) hold_start;
          (m, r) = rep_grant (\<lambda>_. None) [7] ''task-1'' ''0.0.a'' ''b'' (hy_mach s ''a'');
          g = projr r;
          s = (put_mach ''a'' m s)\<lparr>hy_grants := insert g (hy_grants s)\<rparr>
      in put_mach ''b'' (fst (rep_receive (\<lambda>_. None) [8] ''task-1'' ''0.0.a'' 1 (hy_mach s ''b''))) s)"


end
