(* ===== verification/Runs_Model.thy ===== *)
theory Runs_Model
  imports Pipe_Load Mux_Json Kanna_BTree Kanna_Utf8
begin

text \<open>
  Runs of pipelines in the daemon (\<open>kanna-daemon/src/runs.rs\<close>): what a run keeps, how it is written to the database and read back, which
  stage comes next, and the texts a stage is given and leaves. Strings are bytes of UTF-8; regular expressions are arguments.
\<close>

subsection \<open>Constants\<close>

definition SCRATCH :: string where "SCRATCH = ''.kanna/tmp''"
definition FEEDBACK_LINES :: nat where "FEEDBACK_LINES = 80"
definition FEEDBACK_CHARS :: nat where "FEEDBACK_CHARS = 8000"
definition FAILURE_MARKS :: "string list" where
  "FAILURE_MARKS = [''FAILED'', ''error['', ''panic'', [CHR 0xE2, CHR 0x9C, CHR 0x97], ''failed'']"
definition ANSWER_CHARS :: nat where "ANSWER_CHARS = 65536"
definition SETTLE :: rat where "SETTLE = 10"
definition CARRY_ON :: string where "CARRY_ON = ''Carry on.''"
definition LIVE :: "string list" where "LIVE = [''running'', ''waiting'', ''paused'']"

subsection \<open>What a run keeps\<close>

record feedback =
  fb_stage :: string
  fb_text :: string
  fb_full :: string

record run_doc =
  ud_request :: string
  ud_file :: string
  ud_worker :: string
  ud_base :: string
  ud_revision :: int
  ud_taken :: "u32 list"
  ud_feedback :: "feedback option"
  ud_failures :: "(string, string list) btree"
  ud_starts :: "(string, string) btree"
  ud_answers :: "(string, string) btree"
  ud_sessions :: u32
  ud_visits :: u32
  ud_next :: "string option"
  ud_why :: "string option"
  ud_note :: "string option"

definition count_json :: "u32 \<Rightarrow> json" where
  "count_json n = JNumber (NInt (uint n))"

definition feedback_json :: "feedback option \<Rightarrow> json" where
  "feedback_json f = (case f of None \<Rightarrow> Null | Some x \<Rightarrow> JObject [(''stage'', JString (fb_stage x)), (''text'', JString (fb_text x)), (''full'', JString (fb_full x))])"

definition doc_to_value :: "run_doc \<Rightarrow> obj" where
  "doc_to_value d =
     [(''request'', JString (ud_request d)), (''file'', JString (ud_file d)), (''worker'', JString (ud_worker d)), (''base'', JString (ud_base d)),
      (''revision'', JNumber (NInt (ud_revision d))), (''taken'', JArray (map count_json (ud_taken d))), (''feedback'', feedback_json (ud_feedback d)),
      (''failures'', JObject (map (\<lambda>(k, l). (k, JArray (map JString l))) (ud_failures d))),
      (''starts'', JObject (map (\<lambda>(k, v). (k, JString v)) (ud_starts d))), (''answers'', JObject (map (\<lambda>(k, v). (k, JString v)) (ud_answers d))),
      (''sessions'', count_json (ud_sessions d)), (''visits'', count_json (ud_visits d)), (''next'', opt_json (ud_next d)), (''why'', opt_json (ud_why d)), (''note'', opt_json (ud_note d))]"

fun as_object :: "json \<Rightarrow> obj option" where
  "as_object (JObject fs) = Some fs" | "as_object _ = None"

definition bt_of :: "('k :: linorder \<times> 'v) list \<Rightarrow> ('k, 'v) btree" where
  "bt_of xs = foldl (\<lambda>m (k, v). bt_insert k v m) [] xs"

definition value_text :: "json \<Rightarrow> string \<Rightarrow> string" where
  "value_text v k = (case json_string v k of Some t \<Rightarrow> t | None \<Rightarrow> [])"

definition value_fields :: "json \<Rightarrow> string \<Rightarrow> obj" where
  "value_fields v k = (case Option.bind (jget v k) as_object of Some fs \<Rightarrow> fs | None \<Rightarrow> [])"

definition value_map :: "json \<Rightarrow> string \<Rightarrow> (string, string) btree" where
  "value_map v k = bt_of (List.map_filter (\<lambda>(k, x). map_option (\<lambda>t. (k, t)) (as_str x)) (value_fields v k))"

definition json_texts :: "json \<Rightarrow> string list" where
  "json_texts v = (case as_array v of Some xs \<Rightarrow> List.map_filter as_str xs | None \<Rightarrow> [])"

definition json_u32 :: "json \<Rightarrow> u32" where
  "json_u32 v = (case as_u64 v of Some n \<Rightarrow> word_of_nat n | None \<Rightarrow> 0)"

definition value_u32 :: "json \<Rightarrow> string \<Rightarrow> u32" where
  "value_u32 v k = (case jget v k of Some x \<Rightarrow> json_u32 x | None \<Rightarrow> 0)"

definition doc_from_value :: "json \<Rightarrow> run_doc" where
  "doc_from_value v =
     \<lparr>ud_request = value_text v ''request'', ud_file = value_text v ''file'', ud_worker = value_text v ''worker'', ud_base = value_text v ''base'',
      ud_revision = (case Option.bind (jget v ''revision'') as_i64 of Some n \<Rightarrow> n | None \<Rightarrow> 1),
      ud_taken = (case Option.bind (jget v ''taken'') as_array of Some l \<Rightarrow> map json_u32 l | None \<Rightarrow> []),
      ud_feedback = (case jget v ''feedback'' of Some (JObject f) \<Rightarrow> Some \<lparr>fb_stage = value_text (JObject f) ''stage'', fb_text = value_text (JObject f) ''text'', fb_full = value_text (JObject f) ''full''\<rparr> | _ \<Rightarrow> None),
      ud_failures = bt_of (map (\<lambda>(k, x). (k, json_texts x)) (value_fields v ''failures'')),
      ud_starts = value_map v ''starts'', ud_answers = value_map v ''answers'',
      ud_sessions = value_u32 v ''sessions'', ud_visits = value_u32 v ''visits'',
      ud_next = json_string v ''next'', ud_why = json_string v ''why'', ud_note = json_string v ''note''\<rparr>"

text \<open>\<open>json_patch\<close> of the statements that save a row: a field of the patch replaces, null removes, objects are patched.\<close>

fun json_patch :: "json \<Rightarrow> json \<Rightarrow> json" and patch_fields :: "obj \<Rightarrow> obj \<Rightarrow> obj" where
  "json_patch t (JObject ps) = JObject (patch_fields (case as_object t of Some fs \<Rightarrow> fs | None \<Rightarrow> []) ps)"
| "json_patch t p = p"
| "patch_fields fs [] = fs"
| "patch_fields fs ((k, v) # ps) =
     patch_fields (if v = Null then filter (\<lambda>f. fst f \<noteq> k) fs else oinsert k (json_patch (case map_of fs k of Some w \<Rightarrow> w | None \<Rightarrow> Null) v) fs) ps"

text \<open>\<open>patch\<close>: the same without descending, on a value in memory.\<close>

definition doc_patch :: "json \<Rightarrow> obj \<Rightarrow> json" where
  "doc_patch d ps =
     JObject (foldl (\<lambda>fs (k, v). if v = Null then filter (\<lambda>f. fst f \<noteq> k) fs else oinsert k v fs) (case as_object d of Some fs \<Rightarrow> fs | None \<Rightarrow> []) ps)"

subsection \<open>The next stage\<close>

datatype run_next = Next_Stage string bool | Next_Done | Next_Stuck

definition padded :: "pipeline \<Rightarrow> u32 list \<Rightarrow> u32 list" where
  "padded p taken = taken @ replicate (length (pi_arrows p) - length taken) 0"

definition is_stalled :: "run_doc \<Rightarrow> string \<Rightarrow> verdict option \<Rightarrow> string list option \<Rightarrow> bool" where
  "is_stalled d stage v failures \<longleftrightarrow> failures \<noteq> None \<and> v = Some Fail \<and> map_of (ud_failures d) stage = failures"

definition decide :: "pipeline \<Rightarrow> run_doc \<Rightarrow> string \<Rightarrow> verdict option \<Rightarrow> string list option \<Rightarrow> run_doc \<times> run_next" where
  "decide p d stage v failures =
     (let stalled = is_stalled d stage v failures;
          d = (case failures of Some now \<Rightarrow> d\<lparr>ud_failures := bt_insert stage now (ud_failures d)\<rparr> | None \<Rightarrow> d);
          d = d\<lparr>ud_taken := padded p (ud_taken d)\<rparr>
      in case pick p stage v (ud_taken d) stalled of
           None \<Rightarrow> (d, Next_Stuck)
         | Some (i, a) \<Rightarrow>
             (d\<lparr>ud_taken := (ud_taken d)[i := ud_taken d ! i + 1]\<rparr>, if ar_to a = DONE then Next_Done else Next_Stage (ar_to a) (ar_reset a)))"

fun pad2 :: "nat \<Rightarrow> string" where
  "pad2 n = (if n < 10 then ''0'' else []) @ dec n"

definition clock_text :: "nat \<Rightarrow> string" where
  "clock_text t =
     (let h = t div 3600; m = t mod 3600 div 60; s = t mod 60
      in if h = 0 \<and> m = 0 then dec s @ ''s'' else if h = 0 then dec m @ ''m '' @ pad2 s @ ''s'' else dec h @ ''h '' @ pad2 m @ ''m'')"

definition sizes_new :: sizes where "sizes_new = Map.empty"

definition over_time :: "budget \<Rightarrow> stage \<Rightarrow> rat \<Rightarrow> string option" where
  "over_time b s elapsed =
     (case bu_time b of
        Some time \<Rightarrow>
          if of_nat (unat time) \<le> elapsed
          then Some (''over budget: '' @ clock_text (nat \<lfloor>elapsed\<rfloor>) @ '' of '' @ clock_text (unat time) @ '' spent before '' @ st_name s)
          else None
      | None \<Rightarrow> None)"

text \<open>The time passed is a number of seconds, not negative.\<close>

definition over_budget :: "pipeline \<Rightarrow> run_doc \<Rightarrow> stage \<Rightarrow> rat \<Rightarrow> string option" where
  "over_budget p d s elapsed =
     (case pi_budget p of
        None \<Rightarrow> None
      | Some b \<Rightarrow>
          (let cost = stage_sessions sizes_new s
           in case bu_sessions b of
                Some most \<Rightarrow>
                  if 0 < cost \<and> most < ud_sessions d + cost
                  then Some (''over budget: '' @ st_name s @ '' would be session '' @ dec (unat (ud_sessions d + cost)) @ '' of '' @ dec (unat most))
                  else over_time b s elapsed
              | None \<Rightarrow> over_time b s elapsed))"

definition unbuilt_agent :: "pipe_agent \<Rightarrow> string list" where
  "unbuilt_agent a =
     (if ag_each a \<noteq> None then [''each''] else []) @ (if ag_attempts a \<noteq> None then [''xN by''] else []) @ (if ag_guard a \<noteq> None then [''guard''] else []) @
     (if ag_emits a then [''emits''] else []) @ (if ag_resume a \<noteq> None then [''resume''] else [])"

definition unbuilt_stage :: "stage \<Rightarrow> string list" where
  "unbuilt_stage s =
     (case st_kind s of KAgent a \<Rightarrow> unbuilt_agent a | KRun _ \<Rightarrow> [] | KAsk _ \<Rightarrow> [''ask''] | KMerge _ \<Rightarrow> [''merge STAGE'']) @
     (if st_on s \<noteq> None \<and> st_on s \<noteq> Some ''here'' then [''on (stages run here until machines are built)''] else [])"

definition unbuilt :: "pipeline \<Rightarrow> string list" where
  "unbuilt p = concat (map (\<lambda>s. map (\<lambda>what. dec (st_line s) @ '': '' @ st_name s @ '' uses '' @ what @ '', which runs can't do yet'') (unbuilt_stage s)) (pi_stages p))"

subsection \<open>Texts\<close>

definition utf8_trim_start :: "string \<Rightarrow> string" where
  "utf8_trim_start s = concat (dropWhile utf8_space (utf8_chars s))"

definition quoted_answer :: "(string, string) btree \<Rightarrow> string \<Rightarrow> string \<Rightarrow> string" where
  "quoted_answer answers stage key = (case map_of answers (if key = ''answer'' then stage else stage @ ''.'' @ key) of Some t \<Rightarrow> t | None \<Rightarrow> [])"

text \<open>\<open>named f text\<close> replaces every \<open>{{stage.key}}\<close> in the text by \<open>f stage key\<close>.\<close>

definition run_prompt :: "((string \<Rightarrow> string \<Rightarrow> string) \<Rightarrow> string \<Rightarrow> string) \<Rightarrow> stage \<Rightarrow> string \<Rightarrow> string \<Rightarrow> feedback option \<Rightarrow> (string, string) btree \<Rightarrow> string \<Rightarrow> string" where
  "run_prompt named s file request feedback answers answer =
     (let nl = [newline]; cli = ''`'' @ [quote] @ ''$KANNA_CLI'' @ [quote];
          out = utf8_trim_end (named (quoted_answer answers) file) @ nl @ nl @ ''# The task'' @ nl @ nl @ utf8_trim request @ nl;
          out = out @ (case feedback of Some f \<Rightarrow> nl @ ''# Feedback from '' @ fb_stage f @ nl @ nl @ utf8_trim_end (fb_text f) @ nl | None \<Rightarrow> []);
          fin = (if verdicts s then cli @ '' run done pass` if it passes, or '' @ cli @ '' run done fail` if it doesn't'' else cli @ '' run done`'')
      in out @ nl @ ''# When you're done'' @ nl @ nl @ ''Write your final answer to `'' @ answer @ ''`, then run '' @ fin @
         ''. Kanna ends this session once your turn ends. If you need something from the user before you can finish, run '' @ cli @ '' run need '' @ [quote] @ ''WHAT YOU NEED'' @ [quote] @
         ''` and end your turn: Kanna stops this session and resumes it with their answer.'' @ nl)"

definition is_fence :: "string \<Rightarrow> bool" where
  "is_fence l \<longleftrightarrow> starts_with ''```'' (utf8_trim_start l)"

definition output_key :: "string \<Rightarrow> string option" where
  "output_key l =
     (case strip_prefix ''```'' (utf8_trim_start l) of
        None \<Rightarrow> None
      | Some info \<Rightarrow> (case utf8_words info of w # ws \<Rightarrow> if w = ''json'' then (case List.map_filter (strip_prefix ''name='') ws of k # _ \<Rightarrow> Some k | [] \<Rightarrow> None) else None | [] \<Rightarrow> None))"

function output_lines :: "string list \<Rightarrow> (string \<times> string) list" where
  "output_lines [] = []"
| "output_lines (l # ls) =
     (case output_key l of
        None \<Rightarrow> output_lines ls
      | Some k \<Rightarrow> (let body = takeWhile (\<lambda>x. \<not> is_fence x) ls in (k, join [newline] body) # output_lines (drop (Suc (length body)) ls)))"
  by pat_completeness auto
termination by (relation "measure length") auto

definition outputs :: "string \<Rightarrow> (string \<times> string) list" where
  "outputs answer = output_lines (lines_str answer)"

definition is_failing :: "string \<Rightarrow> bool" where
  "is_failing l \<longleftrightarrow> list_ex (\<lambda>m. contains_str m l) FAILURE_MARKS"

definition tail_lines :: "(string \<Rightarrow> string) \<Rightarrow> string \<Rightarrow> string list" where
  "tail_lines plain output = (let ls = lines_str (plain output) in drop (length ls - FEEDBACK_LINES) ls)"

definition failure_lines :: "(string \<Rightarrow> string) \<Rightarrow> string \<Rightarrow> string list" where
  "failure_lines plain output = filter is_failing (tail_lines plain output)"

definition is_boundary :: "string \<Rightarrow> nat \<Rightarrow> bool" where
  "is_boundary s i \<longleftrightarrow> i = 0 \<or> i = length s \<or> i < length s \<and> \<not> (0x80 \<le> code (s ! i) \<and> code (s ! i) < 0xC0)"

fun cut_at :: "string \<Rightarrow> nat \<Rightarrow> nat" where
  "cut_at s 0 = 0"
| "cut_at s (Suc n) = (if is_boundary s (Suc n) then Suc n else cut_at s n)"

definition truncated :: "nat \<Rightarrow> string \<Rightarrow> string" where
  "truncated n s = (if n < length s then take (cut_at s n) s else s)"

definition command_feedback :: "(string \<Rightarrow> string) \<Rightarrow> string \<Rightarrow> string" where
  "command_feedback plain output =
     (let t = tail_lines plain output in truncated FEEDBACK_CHARS (join [newline] (filter is_failing t @ filter (\<lambda>l. \<not> is_failing l) t)))"

definition hash_nibble :: "int \<Rightarrow> char" where
  "hash_nibble n = ''0123456789abcdef'' ! nat (n mod 16)"

definition fnv_hash :: "string \<Rightarrow> string" where
  "fnv_hash t =
     (let h = foldl (\<lambda>(h :: 64 word) c. (xor h (word_of_int (int (code c)))) * 0x100000001b3) 0xcbf29ce484222325 t
      in map (\<lambda>i. hash_nibble (uint h div 16 ^ (15 - i))) [0 ..< 16])"

subsection \<open>How a stage ended\<close>

record ended =
  en_verdict :: "verdict option"
  en_shown :: string
  en_answer :: string
  en_feedback :: string
  en_full :: string
  en_failures :: "string list option"
  en_note :: "string option"

definition agent_ended :: "verdict option \<Rightarrow> string \<Rightarrow> ended" where
  "agent_ended v answer =
     \<lparr>en_verdict = v, en_shown = (case v of Some x \<Rightarrow> verdict_name x | None \<Rightarrow> ''done''), en_answer = answer, en_feedback = answer, en_full = [], en_failures = None, en_note = None\<rparr>"

definition reported_ended :: "json \<Rightarrow> ended" where
  "reported_ended v =
     agent_ended (if json_string v ''verdict'' = Some ''pass'' then Some Pass else if json_string v ''verdict'' = Some ''fail'' then Some Fail else None) (value_text v ''answer'')"

end
