(* ===== verification/Runs_Engine.thy ===== *)
theory Runs_Engine
  imports Runs_Model "HOL-Library.Product_Lexorder"
begin

text \<open>
  The engine that runs pipelines (\<open>kanna-daemon/src/runs.rs\<close>: \<open>Runs\<close>, and the tables of runs in \<open>db.rs\<close>). What it asks of others and is
  answered later (a terminal that opens, an agent that ends, a screen that is read) is a call in \<open>ru_calls\<close>, what it only tells them is in
  \<open>ru_out\<close>. An operation is given the time, the panes, the files and git as they are while it runs (\<open>run_env\<close>). The lines of commands
  that workers run are left out. The n-th statement sent to the database from now on fails when \<open>ru_fail n\<close> says why.
\<close>

subsection \<open>State\<close>

record run_row =
  rw_id :: string
  rw_task :: string
  rw_repo :: string
  rw_pipeline :: string
  rw_hash :: string
  rw_branch :: string
  rw_state :: string
  rw_started :: rat
  rw_ended :: "rat option"
  rw_outcome :: "string option"
  rw_doc :: json

record stage_row =
  sg_id :: nat
  sg_run :: string
  sg_stage :: string
  sg_visit :: nat
  sg_kind :: string
  sg_agent :: "string option"
  sg_machine :: string
  sg_started :: rat
  sg_ended :: "rat option"
  sg_verdict :: "string option"
  sg_session :: "string option"
  sg_terminal :: "string option"
  sg_worktree :: "string option"
  sg_branch :: "string option"
  sg_doc :: json

record run_event =
  re_run :: string
  re_at :: rat
  re_what :: string
  re_by :: "string option"
  re_doc :: json

record run_db =
  rb_runs :: "run_row list"
  rb_revs :: "(string \<times> json) list"
  rb_stages :: "stage_row list"
  rb_events :: "run_event list"

datatype work = Work_Agent string | Work_Command string string

record run_visit =
  vi_row :: stage_row
  vi_work :: work
  vi_within :: "seconds option"
  vi_opening :: bool
  vi_ending :: bool
  vi_reported :: "(ended \<times> rat) option"
  vi_needs :: "rat option"
  vi_paused :: bool

record live =
  lv_row :: run_row
  lv_doc :: run_doc
  lv_pipe :: pipeline
  lv_visit :: "run_visit option"

datatype run_call =
    Call_Open string "stage_row option"
  | Call_Quit string string ended
  | Call_Park string string
  | Call_Close string
  | Call_Screen string string string

datatype run_effect =
    Eff_Close string
  | Eff_Tell string string string string
  | Eff_Write string string
  | Eff_Remove string
  | Eff_Git string "string list"

record runs_state =
  ru_db :: run_db
  ru_live :: "live list"
  ru_soon :: bool
  ru_host :: string
  ru_calls :: "run_call list"
  ru_out :: "run_effect list"
  ru_fail :: "nat \<Rightarrow> string option"

record run_env =
  ev_now :: rat
  ev_pane :: "string \<Rightarrow> (bool \<times> int option) option"
  ev_file :: "string \<Rightarrow> string option"
  ev_unwritable :: "string \<Rightarrow> string option"
  ev_folder :: "string \<Rightarrow> bool"
  ev_head :: string
  ev_commits :: nat
  ev_session :: "string option"
  ev_plain :: "string \<Rightarrow> string"
  ev_named :: "(string \<Rightarrow> string \<Rightarrow> string) \<Rightarrow> string \<Rightarrow> string"

definition under :: "string \<Rightarrow> string \<Rightarrow> string" where
  "under dir path = dir @ ''/'' @ path"

definition waited :: "run_visit \<Rightarrow> rat" where
  "waited v = (case Option.bind (jget (sg_doc (vi_row v)) ''waited'') as_f64 of Some t \<Rightarrow> t | None \<Rightarrow> 0)"

definition due :: "run_visit \<Rightarrow> rat option" where
  "due v = map_option (\<lambda>w. sg_started (vi_row v) + waited v + of_nat (unat w)) (vi_within v)"

subsection \<open>The database\<close>

definition put_row :: "run_row \<Rightarrow> run_row list \<Rightarrow> run_row list" where
  "put_row r rs =
     (if list_ex (\<lambda>x. rw_id x = rw_id r) rs
      then map (\<lambda>x. if rw_id x = rw_id r
          then x\<lparr>rw_hash := rw_hash r, rw_state := rw_state r, rw_ended := rw_ended r, rw_outcome := rw_outcome r, rw_doc := json_patch (rw_doc x) (rw_doc r)\<rparr> else x) rs
      else rs @ [r])"

type_synonym event = "string \<times> string option \<times> json"

definition add_event :: "rat \<Rightarrow> string \<Rightarrow> event \<Rightarrow> run_db \<Rightarrow> run_db" where
  "add_event now run e d = (case e of (what, by, doc) \<Rightarrow> d\<lparr>rb_events := rb_events d @ [\<lparr>re_run = run, re_at = now, re_what = what, re_by = by, re_doc = doc\<rparr>]\<rparr>)"

text \<open>A statement: it fails and changes nothing, or is done.\<close>

definition next_fail :: "runs_state \<Rightarrow> runs_state" where
  "next_fail s = s\<lparr>ru_fail := (\<lambda>n. ru_fail s (Suc n))\<rparr>"

definition run_write :: "(run_db \<Rightarrow> run_db) \<Rightarrow> runs_state \<Rightarrow> runs_state \<times> string option" where
  "run_write f s = (case ru_fail s 0 of Some e \<Rightarrow> (next_fail s, Some e) | None \<Rightarrow> ((next_fail s)\<lparr>ru_db := f (ru_db s)\<rparr>, None))"

definition put_run :: "rat \<Rightarrow> run_row \<Rightarrow> event option \<Rightarrow> runs_state \<Rightarrow> runs_state \<times> string option" where
  "put_run now r ev s =
     run_write (\<lambda>d. (case ev of Some e \<Rightarrow> add_event now (rw_id r) e | None \<Rightarrow> (\<lambda>d. d)) (d\<lparr>rb_runs := put_row r (rb_runs d)\<rparr>)) s"

definition next_stage_id :: "stage_row list \<Rightarrow> nat" where
  "next_stage_id rs = Suc (foldr max (map sg_id rs) 0)"

definition set_stage :: "stage_row \<Rightarrow> stage_row list \<Rightarrow> stage_row list" where
  "set_stage r rs =
     map (\<lambda>x. if sg_id x = sg_id r
       then x\<lparr>sg_ended := sg_ended r, sg_verdict := sg_verdict r, sg_session := sg_session r, sg_terminal := sg_terminal r, sg_worktree := sg_worktree r, sg_branch := sg_branch r,
         sg_doc := json_patch (sg_doc x) (sg_doc r)\<rparr> else x) rs"

definition put_stage :: "stage_row \<Rightarrow> runs_state \<Rightarrow> runs_state \<times> nat option" where
  "put_stage r s =
     (if sg_id r = 0
      then (let i = next_stage_id (rb_stages (ru_db s)); (s, e) = run_write (\<lambda>d. d\<lparr>rb_stages := rb_stages d @ [r\<lparr>sg_id := i\<rparr>]\<rparr>) s in (s, if e = None then Some i else None))
      else (let (s, e) = run_write (\<lambda>d. d\<lparr>rb_stages := set_stage r (rb_stages d)\<rparr>) s in (s, if e = None then Some (sg_id r) else None)))"

definition add_revision :: "string \<Rightarrow> json \<Rightarrow> runs_state \<Rightarrow> runs_state \<times> string option" where
  "add_revision run doc s = run_write (\<lambda>d. d\<lparr>rb_revs := rb_revs d @ [(run, doc)]\<rparr>) s"

definition run_read :: "(run_db \<Rightarrow> 'a) \<Rightarrow> runs_state \<Rightarrow> runs_state \<times> 'a option" where
  "run_read f s = (next_fail s, case ru_fail s 0 of Some _ \<Rightarrow> None | None \<Rightarrow> Some (f (ru_db s)))"

definition db_stages :: "string \<Rightarrow> run_db \<Rightarrow> stage_row list" where
  "db_stages run d = filter (\<lambda>x. sg_run x = run) (rb_stages d)"

definition db_revisions :: "string \<Rightarrow> run_db \<Rightarrow> json list" where
  "db_revisions run d = map snd (filter (\<lambda>x. fst x = run) (rb_revs d))"

definition by_start :: "run_row list \<Rightarrow> run_row list" where
  "by_start rs = sort_key (\<lambda>r. (rw_started r, rw_id r)) rs"

definition db_live_runs :: "run_db \<Rightarrow> run_row list" where
  "db_live_runs d = by_start (filter (\<lambda>r. rw_state r \<in> set LIVE) (rb_runs d))"

definition db_runs_of :: "string \<Rightarrow> run_db \<Rightarrow> run_row list" where
  "db_runs_of task d = by_start (filter (\<lambda>r. rw_task r = task) (rb_runs d))"

subsection \<open>Live runs\<close>

fun edit_first :: "('a \<Rightarrow> bool) \<Rightarrow> ('a \<Rightarrow> 'a) \<Rightarrow> 'a list \<Rightarrow> 'a list" where
  "edit_first p f [] = []"
| "edit_first p f (x # xs) = (if p x then f x # xs else x # edit_first p f xs)"

definition live_of :: "string \<Rightarrow> runs_state \<Rightarrow> live option" where
  "live_of rid s = List.find (\<lambda>l. rw_id (lv_row l) = rid) (ru_live s)"

definition edit_live :: "string \<Rightarrow> (live \<Rightarrow> live) \<Rightarrow> runs_state \<Rightarrow> runs_state" where
  "edit_live rid f s = s\<lparr>ru_live := edit_first (\<lambda>l. rw_id (lv_row l) = rid) f (ru_live s)\<rparr>"

definition saved_live :: "live \<Rightarrow> live" where
  "saved_live l =
     (let doc = doc_to_value (lv_doc l); doc = (case jget (rw_doc (lv_row l)) ''budget'' of Some b \<Rightarrow> oinsert ''budget'' b doc | None \<Rightarrow> doc)
      in l\<lparr>lv_row := (lv_row l)\<lparr>rw_doc := JObject doc\<rparr>\<rparr>)"

definition run_update :: "rat \<Rightarrow> string \<Rightarrow> (live \<Rightarrow> live) \<Rightarrow> (live \<Rightarrow> event option) \<Rightarrow> runs_state \<Rightarrow> runs_state" where
  "run_update now rid edit ev s =
     (case live_of rid s of
        None \<Rightarrow> s
      | Some l \<Rightarrow> (let l' = saved_live (edit l) in fst (put_run now (lv_row l') (ev l) (edit_live rid (\<lambda>_. l') s))))"

definition on_visit :: "(run_visit \<Rightarrow> run_visit) \<Rightarrow> live \<Rightarrow> live" where
  "on_visit f l = l\<lparr>lv_visit := map_option f (lv_visit l)\<rparr>"

definition visit_of :: "string \<Rightarrow> runs_state \<Rightarrow> run_visit option" where
  "visit_of rid s = Option.bind (live_of rid s) lv_visit"

definition mark_ending :: "string \<Rightarrow> runs_state \<Rightarrow> runs_state \<times> bool" where
  "mark_ending rid s =
     (case visit_of rid s of
        None \<Rightarrow> (s, False)
      | Some v \<Rightarrow> if vi_ending v then (s, False) else (edit_live rid (on_visit (\<lambda>v. v\<lparr>vi_ending := True\<rparr>)) s, True))"

definition out :: "run_effect \<Rightarrow> runs_state \<Rightarrow> runs_state" where
  "out e s = s\<lparr>ru_out := ru_out s @ [e]\<rparr>"

definition call :: "run_call \<Rightarrow> runs_state \<Rightarrow> runs_state" where
  "call c s = s\<lparr>ru_calls := ru_calls s @ [c]\<rparr>"

definition set_soon :: "runs_state \<Rightarrow> runs_state" where
  "set_soon s = s\<lparr>ru_soon := True\<rparr>"

definition close_pane :: "string \<Rightarrow> runs_state \<Rightarrow> runs_state" where
  "close_pane pane = out (Eff_Close pane)"

definition run_tell :: "string \<Rightarrow> string \<Rightarrow> runs_state \<Rightarrow> runs_state" where
  "run_tell rid text s = (case live_of rid s of None \<Rightarrow> s | Some l \<Rightarrow> out (Eff_Tell (rw_task (lv_row l)) (rw_repo (lv_row l)) rid text) s)"

definition is_alive :: "run_env \<Rightarrow> string \<Rightarrow> bool" where
  "is_alive ev pane \<longleftrightarrow> (case ev_pane ev pane of Some (a, _) \<Rightarrow> a | None \<Rightarrow> False)"

subsection \<open>A run ends, waits or pauses\<close>

definition run_wait :: "run_env \<Rightarrow> string \<Rightarrow> string \<Rightarrow> runs_state \<Rightarrow> runs_state" where
  "run_wait ev rid why s =
     run_tell rid (''waiting: '' @ why @ ''. `kanna run show '' @ rid @ ''` says where it is; `kanna run stop '' @ rid @ ''` ends it.'')
       (run_update (ev_now ev) rid (\<lambda>l. l\<lparr>lv_row := (lv_row l)\<lparr>rw_state := ''waiting''\<rparr>, lv_doc := (lv_doc l)\<lparr>ud_why := Some why\<rparr>\<rparr>)
          (\<lambda>_. Some (''waiting'', Some ''daemon'', JObject [(''why'', JString why)])) s)"

definition visit_stage :: "live \<Rightarrow> string option" where
  "visit_stage l = map_option (\<lambda>v. sg_stage (vi_row v)) (lv_visit l)"

definition run_pause :: "run_env \<Rightarrow> string \<Rightarrow> string \<Rightarrow> string \<Rightarrow> string \<Rightarrow> runs_state \<Rightarrow> runs_state" where
  "run_pause ev rid why by text s =
     run_tell rid text
       (run_update (ev_now ev) rid (\<lambda>l. l\<lparr>lv_row := (lv_row l)\<lparr>rw_state := ''paused''\<rparr>, lv_doc := (lv_doc l)\<lparr>ud_why := Some why\<rparr>\<rparr>)
          (\<lambda>l. Some (''paused'', Some by, JObject [(''stage'', opt_json (visit_stage l)), (''why'', JString why)])) s)"

definition stop_visit :: "run_env \<Rightarrow> run_visit \<Rightarrow> runs_state \<Rightarrow> runs_state" where
  "stop_visit ev v s =
     (let row = vi_row v;
          s = (if sg_id row \<noteq> 0 then fst (put_stage (row\<lparr>sg_ended := Some (ev_now ev), sg_verdict := Some ''stopped''\<rparr>) s) else s)
      in case sg_terminal row of
           Some pane \<Rightarrow> if vi_ending v \<or> vi_paused v then s else (case vi_work v of Work_Agent _ \<Rightarrow> call (Call_Close pane) s | Work_Command _ _ \<Rightarrow> close_pane pane s)
         | None \<Rightarrow> s)"

definition run_stop :: "run_env \<Rightarrow> string \<Rightarrow> string \<Rightarrow> string option \<Rightarrow> bool \<Rightarrow> runs_state \<Rightarrow> runs_state" where
  "run_stop ev rid why by tell s =
     (let s = (case visit_of rid s of Some v \<Rightarrow> stop_visit ev v s | None \<Rightarrow> s);
          s = run_update (ev_now ev) rid
            (\<lambda>l. l\<lparr>lv_visit := None,
               lv_row := (lv_row l)\<lparr>rw_state := ''stopped'', rw_ended := Some (ev_now ev), rw_outcome := Some (if starts_with ''stuck'' why then ''stuck'' else ''stopped'')\<rparr>,
               lv_doc := (lv_doc l)\<lparr>ud_why := Some why, ud_next := None\<rparr>\<rparr>)
            (\<lambda>_. Some (''stopped'', by, JObject [(''why'', JString why)])) s
      in if tell
         then run_tell rid (why @ ''. The run's branch '' @ (case live_of rid s of Some l \<Rightarrow> rw_branch (lv_row l) | None \<Rightarrow> []) @ '' is kept for you to look at; `kanna run show '' @ rid @ ''` has its visits.'') s
         else s)"

definition hand_back_note :: "string \<Rightarrow> string" where
  "hand_back_note branch =
     branch @ '' is ready: take it with `git merge --ff-only '' @ branch @ ''` in your worktree, or look first with `git log HEAD..'' @ branch @ ''` and `git diff HEAD...'' @ branch @ ''`''"

definition remove_worktree :: "run_env \<Rightarrow> string \<Rightarrow> string list \<Rightarrow> string \<Rightarrow> runs_state \<Rightarrow> runs_state" where
  "remove_worktree ev repo flags worker s = (if ev_folder ev worker then out (Eff_Git repo ([''worktree'', ''remove''] @ flags @ [worker])) s else s)"

definition hand_back :: "run_env \<Rightarrow> string \<Rightarrow> runs_state \<Rightarrow> runs_state" where
  "hand_back ev rid s =
     (case live_of rid s of
        None \<Rightarrow> s
      | Some l \<Rightarrow>
          (let row = lv_row l; doc = lv_doc l; note = hand_back_note (rw_branch row);
               s = remove_worktree ev (rw_repo row) [] (ud_worker doc) s;
               (s, stages) = run_read (db_stages rid) s; stages = (case stages of Some x \<Rightarrow> x | None \<Rightarrow> []);
               summary = dec (length stages) @ '' visits of '' @ dec (length (bs_of (map sg_stage stages))) @ '' stages, '' @
                 clock_text (nat \<lfloor>max 0 (ev_now ev - rw_started row)\<rfloor>) @ '', '' @ dec (unat (ud_sessions doc)) @ '' sessions'';
               s = run_update (ev_now ev) rid
                 (\<lambda>l. l\<lparr>lv_row := (lv_row l)\<lparr>rw_state := ''done'', rw_ended := Some (ev_now ev), rw_outcome := Some ''handed back''\<rparr>, lv_doc := (lv_doc l)\<lparr>ud_note := Some note\<rparr>\<rparr>)
                 (\<lambda>_. None) s;
               s = fst (run_write (add_event (ev_now ev) rid (''handed_back'', Some ''daemon'', JObject [(''note'', JString note)])) s)
           in run_tell rid (''handed back: '' @ summary @ ''. '' @ note @ ''. `kanna run show '' @ rid @ ''` has its visits.'') s))"


text \<open>
  The stages of a run (\<open>kanna-daemon/src/runs.rs\<close>): how a visit begins, opens its terminal, is watched, parked, ended and concluded.
\<close>

subsection \<open>A visit ends\<close>

definition doc_answers :: "string \<Rightarrow> string \<Rightarrow> run_doc \<Rightarrow> run_doc" where
  "doc_answers stage answer d =
     d\<lparr>ud_answers := foldl (\<lambda>m (k, v). bt_insert (stage @ ''.'' @ k) v m) (bt_insert stage answer (ud_answers d)) (outputs answer)\<rparr>"

definition next_json :: "run_next \<Rightarrow> json" where
  "next_json n = (case n of Next_Stage name _ \<Rightarrow> JString name | Next_Done \<Rightarrow> JString DONE | Next_Stuck \<Rightarrow> Null)"

definition next_feedback :: "string \<Rightarrow> ended \<Rightarrow> run_next \<Rightarrow> feedback option" where
  "next_feedback stage e n =
     (case (n, en_verdict e) of
        (Next_Stage _ False, Some Fail) \<Rightarrow> Some \<lparr>fb_stage = stage, fb_text = en_feedback e, fb_full = en_full e\<rparr>
      | _ \<Rightarrow> None)"

definition next_name :: "run_next \<Rightarrow> string option" where
  "next_name n = (case n of Next_Stage name _ \<Rightarrow> Some name | _ \<Rightarrow> None)"

definition reset_worker :: "run_doc \<Rightarrow> stage_row \<Rightarrow> run_next \<Rightarrow> runs_state \<Rightarrow> runs_state" where
  "reset_worker d row n s =
     (case n of
        Next_Stage name True \<Rightarrow>
          (case map_of (ud_starts d) name of
             Some start \<Rightarrow>
               out (Eff_Git (ud_worker d) [''reset'', ''--hard'', start])
                 (out (Eff_Git (ud_worker d) [''branch'', (case sg_branch row of Some b \<Rightarrow> b | None \<Rightarrow> []) @ ''-reset-'' @ dec (unat (ud_visits d)), ''HEAD'']) s)
           | None \<Rightarrow> s)
      | _ \<Rightarrow> s)"

definition concluded_row :: "run_env \<Rightarrow> ended \<Rightarrow> stage_row \<Rightarrow> stage_row" where
  "concluded_row ev e row =
     row\<lparr>sg_ended := Some (ev_now ev), sg_verdict := Some (en_shown e),
       sg_doc := JObject [(''answer'', JString (truncated ANSWER_CHARS (en_answer e))), (''feedback'', JString (en_feedback e)),
         (''failures'', case en_failures e of Some fs \<Rightarrow> JArray (map JString fs) | None \<Rightarrow> Null), (''note'', opt_json (en_note e)), (''end'', JString (ev_head ev)),
         (''commits'', JNumber (NInt (if value_text (sg_doc row) ''start'' = [] \<or> ev_head ev = [] then 0 else int (ev_commits ev))))]\<rparr>"

definition conclude :: "run_env \<Rightarrow> string \<Rightarrow> ended \<Rightarrow> runs_state \<Rightarrow> runs_state" where
  "conclude ev rid e s =
     (case live_of rid s of
        None \<Rightarrow> s
      | Some l \<Rightarrow>
          (case lv_visit l of
             None \<Rightarrow> s
           | Some v \<Rightarrow>
               (let row = vi_row v; stage = sg_stage row; commits = jget (sg_doc (concluded_row ev e row)) ''commits'';
                    s = fst (put_stage (concluded_row ev e row) s);
                    doc = (if sg_kind row = ''agent'' then doc_answers stage (en_answer e) (lv_doc l) else lv_doc l);
                    (doc, nxt) = decide (lv_pipe l) doc stage (en_verdict e) (en_failures e);
                    doc = doc\<lparr>ud_feedback := next_feedback stage e nxt\<rparr>;
                    s = reset_worker doc row nxt s;
                    doc = doc\<lparr>ud_next := next_name nxt\<rparr>;
                    s = run_update (ev_now ev) rid (\<lambda>l. l\<lparr>lv_visit := None, lv_doc := doc\<rparr>)
                      (\<lambda>_. Some (''verdict'', Some ''daemon'', JObject [(''stage'', JString stage), (''visit'', JNumber (NInt (int (sg_visit row)))), (''verdict'', JString (en_shown e)),
                         (''next'', next_json nxt), (''commits'', the commits), (''note'', opt_json (en_note e))])) s
                in case nxt of
                     Next_Stage _ _ \<Rightarrow> set_soon s
                   | Next_Done \<Rightarrow> hand_back ev rid s
                   | Next_Stuck \<Rightarrow> run_stop ev rid (''stuck: no arrow leaves '' @ stage @ '' after '' @ en_shown e) (Some ''daemon'') True s)))"

definition interrupted :: "run_env \<Rightarrow> string \<Rightarrow> run_visit \<Rightarrow> runs_state \<Rightarrow> runs_state" where
  "interrupted ev rid v s =
     (let row = (vi_row v)\<lparr>sg_ended := Some (ev_now ev), sg_verdict := Some ''interrupted''\<rparr>;
          s = fst (put_stage row s);
          s = run_update (ev_now ev) rid (\<lambda>l. l\<lparr>lv_visit := None, lv_doc := (lv_doc l)\<lparr>ud_next := Some (sg_stage row)\<rparr>\<rparr>)
            (\<lambda>_. Some (''verdict'', Some ''daemon'', JObject [(''stage'', JString (sg_stage row)), (''visit'', JNumber (NInt (int (sg_visit row)))), (''verdict'', JString ''interrupted'')])) s
      in set_soon s)"

subsection \<open>A visit begins\<close>

definition TIMED_OUT :: int where "TIMED_OUT = 142"

definition stage_file :: "run_env \<Rightarrow> json \<Rightarrow> string \<Rightarrow> stage \<Rightarrow> string" where
  "stage_file ev prompts worker st =
     (case stage_prompt st of
        None \<Rightarrow> []
      | Some p \<Rightarrow> (case json_string prompts p of Some t \<Rightarrow> t | None \<Rightarrow> (case ev_file ev (under worker (''.kanna/prompts/'' @ p @ ''.md'')) of Some t \<Rightarrow> t | None \<Rightarrow> [])))"

definition new_stage_row :: "run_env \<Rightarrow> runs_state \<Rightarrow> live \<Rightarrow> string \<Rightarrow> nat \<Rightarrow> stage_row" where
  "new_stage_row ev s l name vnum =
     \<lparr>sg_id = 0, sg_run = rw_id (lv_row l), sg_stage = name, sg_visit = vnum, sg_kind = [], sg_agent = None, sg_machine = ru_host s, sg_started = ev_now ev, sg_ended = None,
      sg_verdict = None, sg_session = None, sg_terminal = None, sg_worktree = Some (ud_worker (lv_doc l)), sg_branch = Some (rw_branch (lv_row l)), sg_doc = Null\<rparr>"

definition open_visit :: "run_env \<Rightarrow> string \<Rightarrow> string \<Rightarrow> stage \<Rightarrow> u32 \<Rightarrow> work \<Rightarrow> u32 \<Rightarrow> stage_row \<Rightarrow> runs_state \<Rightarrow> runs_state" where
  "open_visit ev rid name st n w sessions row s =
     call (Call_Open rid (Some row))
       (run_update (ev_now ev) rid
          (\<lambda>l. l\<lparr>lv_doc := (lv_doc l)\<lparr>ud_starts := (case map_of (ud_starts (lv_doc l)) name of Some _ \<Rightarrow> ud_starts (lv_doc l) | None \<Rightarrow> bt_insert name (ev_head ev) (ud_starts (lv_doc l))),
                 ud_visits := n, ud_sessions := ud_sessions (lv_doc l) + sessions\<rparr>,
               lv_visit := Some \<lparr>vi_row = row, vi_work = w, vi_within = st_within st, vi_opening = True, vi_ending = False, vi_reported = None, vi_needs = None, vi_paused = False\<rparr>\<rparr>)
          (\<lambda>_. None) s)"

definition begin_agent :: "run_env \<Rightarrow> string \<Rightarrow> string \<Rightarrow> stage \<Rightarrow> pipe_agent \<Rightarrow> live \<Rightarrow> u32 \<Rightarrow> stage_row \<Rightarrow> runs_state \<Rightarrow> runs_state" where
  "begin_agent ev rid name st a l n row s =
     (let doc = lv_doc l; k = dec (unat n);
          (s, revs) = run_read (db_revisions rid) s;
          prompts = (case revs of Some (x # xs) \<Rightarrow> (case jget (last (x # xs)) ''prompts'' of Some p \<Rightarrow> p | None \<Rightarrow> Null) | _ \<Rightarrow> Null);
          text = run_prompt (ev_named ev) st (stage_file ev prompts (ud_worker doc) st) (ud_request doc) (ud_feedback doc) (ud_answers doc) (SCRATCH @ ''/answer-'' @ k @ ''.md'');
          path = under (under (ud_worker doc) SCRATCH) (''stage-'' @ k @ ''.md'')
      in case ev_unwritable ev path of
           Some e \<Rightarrow> run_stop ev rid (''can't write '' @ path @ '': '' @ e) (Some ''daemon'') True s
         | None \<Rightarrow>
             open_visit ev rid name st n (Work_Agent (ag_agent a)) (stage_sessions sizes_new st)
               (row\<lparr>sg_kind := ''agent'', sg_agent := Some (ag_agent a), sg_session := ev_session ev,
                  sg_doc := JObject [(''n'', count_json n), (''start'', JString (ev_head ev)), (''prompt'', JString path)]\<rparr>)
               (out (Eff_Write path text) s))"

definition begin_command :: "run_env \<Rightarrow> string \<Rightarrow> string \<Rightarrow> stage \<Rightarrow> live \<Rightarrow> u32 \<Rightarrow> stage_row \<Rightarrow> runs_state \<Rightarrow> runs_state" where
  "begin_command ev rid name st l n row s =
     (let doc = lv_doc l; k = dec (unat n); scratch = under (ud_worker doc) SCRATCH;
          logf = under scratch (''stage-'' @ k @ ''.log''); exitf = under scratch (''stage-'' @ k @ ''.exit'');
          previous = (case ud_feedback doc of Some f \<Rightarrow> (case ev_file ev (fb_full f) of Some t \<Rightarrow> t | None \<Rightarrow> fb_text f) | None \<Rightarrow> [])
      in open_visit ev rid name st n (Work_Command logf exitf) 0
           (row\<lparr>sg_kind := ''run'', sg_doc := JObject [(''n'', count_json n), (''start'', JString (ev_head ev)), (''log'', JString logf), (''exit'', JString exitf)]\<rparr>)
           (out (Eff_Write (under scratch (''feedback-'' @ k @ ''.txt'')) previous) (out (Eff_Remove exitf) s)))"

definition run_begin :: "run_env \<Rightarrow> string \<Rightarrow> string \<Rightarrow> runs_state \<Rightarrow> runs_state" where
  "run_begin ev rid name s =
     (case live_of rid s of
        None \<Rightarrow> s
      | Some l \<Rightarrow>
          (case stage_named (lv_pipe l) name of
             None \<Rightarrow> s
           | Some st \<Rightarrow>
               (case over_budget (lv_pipe l) (lv_doc l) st (max 0 (ev_now ev - rw_started (lv_row l))) of
                  Some why \<Rightarrow> run_wait ev rid why s
                | None \<Rightarrow>
                    (let n = ud_visits (lv_doc l) + 1; scratch = under (ud_worker (lv_doc l)) SCRATCH;
                         (s, stages) = run_read (db_stages rid) s;
                         vnum = (case stages of Some rows \<Rightarrow> length (filter (\<lambda>x. sg_stage x = name) rows) + 1 | None \<Rightarrow> 1);
                         row = new_stage_row ev s l name vnum
                     in case ev_unwritable ev scratch of
                          Some e \<Rightarrow> run_stop ev rid (''can't make '' @ scratch @ '': '' @ e) (Some ''daemon'') True s
                        | None \<Rightarrow>
                            (case st_kind st of
                               KAgent a \<Rightarrow> begin_agent ev rid name st a l n row s
                             | KRun _ \<Rightarrow> begin_command ev rid name st l n row s
                             | _ \<Rightarrow> run_stop ev rid (name @ '' is a kind of stage runs can't do yet'') (Some ''daemon'') True s)))))"

subsection \<open>Terminals open\<close>

definition opened_begin :: "run_env \<Rightarrow> string \<Rightarrow> stage_row \<Rightarrow> string \<Rightarrow> runs_state \<Rightarrow> runs_state" where
  "opened_begin ev rid row pane s =
     (let row = row\<lparr>sg_terminal := Some pane\<rparr>; (s, i) = put_stage row s; row = (case i of Some k \<Rightarrow> row\<lparr>sg_id := k\<rparr> | None \<Rightarrow> row)
      in run_update (ev_now ev) rid
           (\<lambda>l. on_visit (\<lambda>v. v\<lparr>vi_row := row, vi_opening := False\<rparr>) (l\<lparr>lv_doc := (lv_doc l)\<lparr>ud_next := None\<rparr>\<rparr>))
           (\<lambda>_. Some (''stage'', Some ''daemon'', JObject [(''stage'', JString (sg_stage row)), (''visit'', JNumber (NInt (int (sg_visit row)))), (''kind'', JString (sg_kind row)), (''terminal'', JString pane)])) s)"

definition opened_resume :: "run_env \<Rightarrow> string \<Rightarrow> string \<Rightarrow> runs_state \<Rightarrow> runs_state" where
  "opened_resume ev rid pane s =
     (let s = run_update (ev_now ev) rid (on_visit (\<lambda>v. v\<lparr>vi_row := (vi_row v)\<lparr>sg_terminal := Some pane\<rparr>, vi_opening := False\<rparr>)) (\<lambda>_. None) s
      in case visit_of rid s of
           Some v \<Rightarrow> (let row = vi_row v in fst (put_stage (row\<lparr>sg_doc := JObject (oinsert ''paused'' Null (case as_object (sg_doc row) of Some fs \<Rightarrow> fs | None \<Rightarrow> []))\<rparr>) s))
         | None \<Rightarrow> s)"

definition opened :: "run_env \<Rightarrow> string \<Rightarrow> stage_row option \<Rightarrow> string + string \<Rightarrow> runs_state \<Rightarrow> runs_state" where
  "opened ev rid row reply s =
     (case reply of
        Inl why \<Rightarrow>
          (let stage = (case visit_of rid s of Some v \<Rightarrow> sg_stage (vi_row v) | None \<Rightarrow> []);
               s = run_update (ev_now ev) rid (on_visit (\<lambda>v. v\<lparr>vi_ending := True\<rparr>)) (\<lambda>_. None) s
           in run_stop ev rid (''can't open a terminal for '' @ stage @ '': '' @ why) (Some ''daemon'') True s)
      | Inr pane \<Rightarrow> set_soon (case row of Some r \<Rightarrow> opened_begin ev rid r pane s | None \<Rightarrow> opened_resume ev rid pane s))"

subsection \<open>A visit is parked\<close>

definition parked :: "run_env \<Rightarrow> string \<Rightarrow> string option \<Rightarrow> run_visit \<Rightarrow> run_visit" where
  "parked ev pane said v =
     v\<lparr>vi_row := (vi_row v)\<lparr>sg_doc := doc_patch (sg_doc (vi_row v))
           [(''paused'', JObject [(''at'', JNumber (NFloat (ev_now ev))), (''session'', opt_json (case sg_session (vi_row v) of Some x \<Rightarrow> Some x | None \<Rightarrow> said))])]\<rparr>,
       vi_paused := True, vi_ending := False, vi_needs := None\<rparr>"

definition park_finish :: "run_env \<Rightarrow> string \<Rightarrow> string \<Rightarrow> string option \<Rightarrow> runs_state \<Rightarrow> runs_state" where
  "park_finish ev rid pane said s =
     (let s = close_pane pane s; s = run_update (ev_now ev) rid (on_visit (parked ev pane said)) (\<lambda>_. None) s
      in case visit_of rid s of Some v \<Rightarrow> fst (put_stage (vi_row v) s) | None \<Rightarrow> s)"

definition park :: "string \<Rightarrow> runs_state \<Rightarrow> runs_state" where
  "park rid s =
     (case visit_of rid s of
        None \<Rightarrow> s
      | Some v \<Rightarrow>
          (case (vi_work v, sg_terminal (vi_row v)) of
             (Work_Agent _, Some pane) \<Rightarrow>
               if vi_paused v \<or> vi_reported v \<noteq> None then s
               else (let (s, ok) = mark_ending rid s in if ok then call (Call_Park rid pane) s else s)
           | _ \<Rightarrow> s))"

subsection \<open>A visit is watched\<close>

definition timed_out_ended :: ended where
  "timed_out_ended = \<lparr>en_verdict = Some Fail, en_shown = ''fail'', en_answer = [], en_feedback = ''timed out'', en_full = [], en_failures = None, en_note = Some ''timed out''\<rparr>"

definition timed_out :: "run_env \<Rightarrow> string \<Rightarrow> string \<Rightarrow> runs_state \<Rightarrow> runs_state" where
  "timed_out ev rid pane s =
     (let (s, ok) = mark_ending rid s
      in if \<not> ok then s
         else case live_of rid s of
                None \<Rightarrow> s
              | Some l \<Rightarrow>
                  (case lv_visit l of
                     None \<Rightarrow> s
                   | Some v \<Rightarrow>
                       (let stage = sg_stage (vi_row v); start = value_text (sg_doc (vi_row v)) ''start'';
                            s = (if start = [] then s else out (Eff_Git (case sg_worktree (vi_row v) of Some w \<Rightarrow> w | None \<Rightarrow> []) [''reset'', ''--hard'', start]) s)
                        in if (case stage_named (lv_pipe l) stage of Some st \<Rightarrow> verdicts st | None \<Rightarrow> False) then call (Call_Quit rid pane timed_out_ended) s
                           else run_stop ev rid (stage @ '' timed out before its agent reported it was done'') (Some ''daemon'') True
                                  (run_update (ev_now ev) rid (on_visit (\<lambda>v. v\<lparr>vi_ending := True\<rparr>)) (\<lambda>_. None) (call (Call_Close pane) s)))))"

definition command_result :: "run_env \<Rightarrow> string \<Rightarrow> int \<Rightarrow> ended" where
  "command_result ev logf code1 =
     (let output = (case ev_file ev logf of Some t \<Rightarrow> t | None \<Rightarrow> []); feedback = command_feedback (ev_plain ev) output; late = (code1 = TIMED_OUT); v = (if code1 = 0 then Pass else Fail)
      in \<lparr>en_verdict = Some v, en_shown = verdict_name v, en_answer = [], en_feedback = (if late then ''timed out'' @ [newline] @ feedback else feedback), en_full = logf,
          en_failures = Some (failure_lines (ev_plain ev) output), en_note = (if late then Some ''timed out'' else None)\<rparr>)"

text \<open>While the pane is alive its end is waited for; otherwise the run goes on at once.\<close>

definition command_ended :: "run_env \<Rightarrow> string \<Rightarrow> string \<Rightarrow> string \<Rightarrow> int \<Rightarrow> runs_state \<Rightarrow> runs_state" where
  "command_ended ev rid pane logf code1 s =
     (let (s, ok) = mark_ending rid s
      in if \<not> ok then s
         else if is_alive ev pane then call (Call_Quit rid pane (command_result ev logf code1)) s
         else conclude ev rid (command_result ev logf code1) (close_pane pane s))"

definition parse_code :: "string \<Rightarrow> int" where
  "parse_code t = (case parse_i64 (utf8_trim t) of Some n \<Rightarrow> if - (2 ^ 31) \<le> n \<and> n < 2 ^ 31 then n else 1 | None \<Rightarrow> 1)"

definition step_agent :: "run_env \<Rightarrow> string \<Rightarrow> run_visit \<Rightarrow> string \<Rightarrow> runs_state \<Rightarrow> runs_state" where
  "step_agent ev rid v pane s =
     (case vi_reported v of
        Some (e, at1) \<Rightarrow>
          if SETTLE \<le> ev_now ev - at1 then (let (s, ok) = mark_ending rid s in if ok then call (Call_Quit rid pane e) s else s) else s
      | None \<Rightarrow>
          (case vi_needs v of
             Some at1 \<Rightarrow> if SETTLE \<le> ev_now ev - at1 then park rid s else s
           | None \<Rightarrow>
               if ev_pane ev pane = None then interrupted ev rid v s
               else if \<not> is_alive ev pane then
                 run_stop ev rid (sg_stage (vi_row v) @ [CHR 0x27] @ ''s agent exited without reporting it was done'') (Some ''daemon'') True (close_pane pane s)
               else if (case due v of Some d \<Rightarrow> d \<le> ev_now ev | None \<Rightarrow> False) then timed_out ev rid pane s
               else s))"

definition step_command :: "run_env \<Rightarrow> string \<Rightarrow> run_visit \<Rightarrow> string \<Rightarrow> string \<Rightarrow> string \<Rightarrow> runs_state \<Rightarrow> runs_state" where
  "step_command ev rid v pane logf exitf s =
     (case ev_file ev exitf of
        Some t \<Rightarrow> command_ended ev rid pane logf (parse_code t) s
      | None \<Rightarrow>
          (case ev_pane ev pane of
             None \<Rightarrow> interrupted ev rid v s
           | Some (alive, code1) \<Rightarrow>
               if alive then s
               else command_ended ev rid pane logf (if ev_unwritable ev exitf = None then (case code1 of Some c \<Rightarrow> c | None \<Rightarrow> 1) else 1) s))"

definition run_tend :: "run_env \<Rightarrow> string \<Rightarrow> runs_state \<Rightarrow> runs_state" where
  "run_tend ev rid s =
     (case live_of rid s of
        None \<Rightarrow> s
      | Some l \<Rightarrow>
          (case lv_visit l of
             None \<Rightarrow> (case ud_next (lv_doc l) of Some name \<Rightarrow> if rw_state (lv_row l) = ''running'' then run_begin ev rid name s else s | None \<Rightarrow> s)
           | Some v \<Rightarrow>
               if vi_opening v \<or> vi_ending v \<or> vi_paused v then s
               else (case sg_terminal (vi_row v) of
                       None \<Rightarrow> s
                     | Some pane \<Rightarrow> (case vi_work v of Work_Agent _ \<Rightarrow> step_agent ev rid v pane s | Work_Command logf exitf \<Rightarrow> step_command ev rid v pane logf exitf s))))"

end
