(* ===== verification/Runs_Serve.thy ===== *)
theory Runs_Serve
  imports Runs_Engine
begin

text \<open>
  What reaches the engine from outside (\<open>kanna-daemon/src/runs.rs\<close>): requests, the ticks of the daemon, the states agents report, the
  answers to its calls, and a restart. Which task a request comes from, and the worktree git makes, are arguments.
\<close>

subsection \<open>Reports of agents\<close>

definition agent_at :: "string \<Rightarrow> live \<Rightarrow> bool" where
  "agent_at pane l \<longleftrightarrow> (case lv_visit l of Some v \<Rightarrow> sg_terminal (vi_row v) = Some pane \<and> (case vi_work v of Work_Agent _ \<Rightarrow> True | _ \<Rightarrow> False) | None \<Rightarrow> False)"

definition not_a_stage :: kmux_error where
  "not_a_stage = kmux_err ''not_a_stage'' ''kanna run done and need are for a stage's agent, in its worker's terminal''"

definition bad_run :: "string \<Rightarrow> kmux_error" where
  "bad_run m = kmux_err ''bad_request'' m"

definition reporting :: "json \<Rightarrow> runs_state \<Rightarrow> kmux_error + string \<times> run_visit \<times> bool \<times> string" where
  "reporting args s =
     (case json_string args ''by'' of
        None \<Rightarrow> Inl not_a_stage
      | Some by \<Rightarrow>
          (case List.find (agent_at by) (ru_live s) of
             None \<Rightarrow> Inl not_a_stage
           | Some l \<Rightarrow>
               (case lv_visit l of
                  None \<Rightarrow> Inl not_a_stage
                | Some v \<Rightarrow>
                    if vi_ending v \<or> vi_reported v \<noteq> None \<or> vi_paused v then Inl (kmux_err ''ended'' (sg_stage (vi_row v) @ '' has reported already''))
                    else Inr (rw_id (lv_row l), v, (case stage_named (lv_pipe l) (sg_stage (vi_row v)) of Some st \<Rightarrow> verdicts st | None \<Rightarrow> False), rw_state (lv_row l)))))"

definition done_verdict :: "string \<Rightarrow> string option \<Rightarrow> bool \<Rightarrow> kmux_error + verdict option" where
  "done_verdict stage said gives =
     (if gives then
        (if said = Some ''pass'' then Inr (Some Pass) else if said = Some ''fail'' then Inr (Some Fail)
         else Inl (bad_run (stage @ '' gives a verdict: kanna run done pass, or kanna run done fail'')))
      else if said = None then Inr None else Inl (bad_run (stage @ '' gives no verdict: kanna run done'')))"

definition run_done :: "run_env \<Rightarrow> json \<Rightarrow> runs_state \<Rightarrow> runs_state \<times> (kmux_error + obj)" where
  "run_done ev args s =
     (case reporting args s of
        Inl e \<Rightarrow> (s, Inl e)
      | Inr (rid, v, gives, state) \<Rightarrow>
          (let stage = sg_stage (vi_row v) in
           case done_verdict stage (json_string args ''verdict'') gives of
             Inl e \<Rightarrow> (s, Inl e)
           | Inr verdict \<Rightarrow>
               (let e = agent_ended verdict (value_text args ''answer'');
                    s = fst (put_stage ((vi_row v)\<lparr>sg_doc := JObject [(''reported'', JObject [(''verdict'', JString (en_shown e)), (''answer'', JString (en_answer e))])]\<rparr>) s);
                    again = (state = ''waiting'' \<or> state = ''paused'');
                    s = run_update (ev_now ev) rid
                      (\<lambda>l. (let l = on_visit (\<lambda>v. v\<lparr>vi_reported := Some (e, ev_now ev), vi_needs := None\<rparr>) l
                            in if again then l\<lparr>lv_row := (lv_row l)\<lparr>rw_state := ''running''\<rparr>, lv_doc := (lv_doc l)\<lparr>ud_why := None\<rparr>\<rparr> else l))
                      (\<lambda>_. if again then Some (''resumed'', None, JObject [(''stage'', JString stage)]) else None) s
                in (set_soon s, Inr [(''run'', JString rid), (''stage'', JString stage), (''verdict'', JString (en_shown e))]))))"

definition ELLIPSIS :: string where "ELLIPSIS = [CHR 0xE2, CHR 0x80, CHR 0xA6]"

definition needed_text :: "json \<Rightarrow> string option" where
  "needed_text args = (case json_string args ''text'' of Some t \<Rightarrow> if utf8_trim t = [] then None else Some (utf8_trim t) | None \<Rightarrow> None)"

definition run_need :: "run_env \<Rightarrow> json \<Rightarrow> runs_state \<Rightarrow> runs_state \<times> (kmux_error + obj)" where
  "run_need ev args s =
     (case reporting args s of
        Inl e \<Rightarrow> (s, Inl e)
      | Inr (rid, v, _, _) \<Rightarrow>
          (case needed_text args of
             None \<Rightarrow> (s, Inl (bad_run ''say what you need: kanna run need TEXT''))
           | Some text \<Rightarrow>
               (let stage = sg_stage (vi_row v); pane = (case sg_terminal (vi_row v) of Some p \<Rightarrow> p | None \<Rightarrow> []);
                    s = run_update (ev_now ev) rid (on_visit (\<lambda>v. v\<lparr>vi_needs := Some (ev_now ev)\<rparr>)) (\<lambda>_. None) s;
                    s = run_pause ev rid (stage @ '' needs: '' @ text) pane
                      (stage @ '' needs you: '' @ text @ [newline] @ ''Its agent stops once its turn ends, and its session is kept: `kanna run resume '' @ rid @ '' '' @ [quote] @ ELLIPSIS @ [quote] @ ''` carries it on with your answer.'') s
                in (set_soon s, Inr [(''run'', JString rid), (''stage'', JString stage), (''state'', JString ''paused'')]))))"

definition too_old :: "run_env \<Rightarrow> string \<Rightarrow> string \<Rightarrow> runs_state \<Rightarrow> runs_state \<times> bool" where
  "too_old ev pane why s =
     (case List.find (agent_at pane) (ru_live s) of
        None \<Rightarrow> (s, False)
      | Some l \<Rightarrow> (run_stop ev (rw_id (lv_row l)) why (Some ''daemon'') True s, True))"

definition watched_at :: "string \<Rightarrow> live \<Rightarrow> bool" where
  "watched_at pane l \<longleftrightarrow> agent_at pane l \<and> (case lv_visit l of Some v \<Rightarrow> \<not> vi_opening v \<and> \<not> vi_ending v \<and> \<not> vi_paused v | None \<Rightarrow> False)"

definition run_status :: "string \<Rightarrow> bool \<Rightarrow> runs_state \<Rightarrow> runs_state" where
  "run_status pane turn_ended s =
     (if \<not> turn_ended then s
      else case List.find (watched_at pane) (ru_live s) of
             None \<Rightarrow> s
           | Some l \<Rightarrow>
               (case lv_visit l of
                  None \<Rightarrow> s
                | Some v \<Rightarrow>
                    (let rid = rw_id (lv_row l) in
                     case vi_reported v of
                       Some (e, _) \<Rightarrow> (let (s, ok) = mark_ending rid s in if ok then call (Call_Quit rid pane e) s else s)
                     | None \<Rightarrow>
                         if vi_needs v \<noteq> None then park rid s
                         else if rw_state (lv_row l) \<noteq> ''running'' then s
                         else call (Call_Screen rid (sg_stage (vi_row v)) pane) s)))"

definition screen_text :: "string \<Rightarrow> string" where
  "screen_text t = join [newline] (filter (\<lambda>l. l \<noteq> []) (map utf8_trim_end (lines_str t)))"

definition still_at :: "string \<Rightarrow> string \<Rightarrow> live \<Rightarrow> bool" where
  "still_at rid pane l \<longleftrightarrow> rw_id (lv_row l) = rid \<and>
     (case lv_visit l of Some v \<Rightarrow> sg_terminal (vi_row v) = Some pane \<and> vi_reported v = None \<and> vi_needs v = None \<and> \<not> vi_ending v \<and> \<not> vi_paused v | None \<Rightarrow> False)"

definition screened :: "run_env \<Rightarrow> string \<Rightarrow> string \<Rightarrow> string \<Rightarrow> string \<Rightarrow> runs_state \<Rightarrow> runs_state" where
  "screened ev rid stage pane shown s =
     (if \<not> list_ex (still_at rid pane) (ru_live s) then s
      else park rid (run_pause ev rid (stage @ '' stopped without reporting'') ''daemon''
        (stage @ [CHR 0x27] @ ''s turn ended without it reporting it was done or what it needs, so the run is paused and its session kept. Its screen ended:'' @ [newline, newline] @ screen_text shown @ [newline, newline] @
         ''`kanna run resume '' @ rid @ '' '' @ [quote] @ ELLIPSIS @ [quote] @ ''` carries it on with your answer.'') s))"

subsection \<open>Finding a run\<close>

definition failed_run :: "string \<Rightarrow> kmux_error" where
  "failed_run m = kmux_err ''failed'' m"

definition run_refers :: "string \<Rightarrow> run_row \<Rightarrow> bool" where
  "run_refers ref r \<longleftrightarrow> rw_id r = ref \<or> starts_with (case strip_prefix ''run-'' ref of Some b \<Rightarrow> b | None \<Rightarrow> ref) (drop 4 (rw_id r))"

definition find_run :: "string option \<Rightarrow> json \<Rightarrow> runs_state \<Rightarrow> runs_state \<times> (kmux_error + run_row)" where
  "find_run task args s =
     (case (case json_string args ''run'' of Some r \<Rightarrow> if r = [] then None else Some r | None \<Rightarrow> None) of
        Some ref \<Rightarrow>
          (next_fail s,
           case ru_fail s 0 of
             Some e \<Rightarrow> Inl (failed_run e)
           | None \<Rightarrow>
               (case filter (run_refers ref) (by_start (rb_runs (ru_db s))) of
                  [] \<Rightarrow> Inl (kmux_err ''not_found'' (''no run '' @ ref))
                | [r] \<Rightarrow> Inr r
                | rs \<Rightarrow> Inl (bad_run (ref @ '' could be '' @ dec (length rs) @ '' runs: give more of its ID''))))
      | None \<Rightarrow>
          (case task of
             None \<Rightarrow> (s, Inl (bad_run ''which run? give its ID, or run this in a task's terminal for the task's latest''))
           | Some t \<Rightarrow>
               (next_fail s,
                case ru_fail s 0 of
                  Some e \<Rightarrow> Inl (failed_run e)
                | None \<Rightarrow>
                    (let rows = db_runs_of t (ru_db s) in
                     case filter (\<lambda>r. rw_state r \<in> set LIVE) rows of
                       [] \<Rightarrow> if rows = [] then Inl (kmux_err ''not_found'' (t @ '' has no runs'')) else Inr (last rows)
                     | [r] \<Rightarrow> Inr r
                     | ls \<Rightarrow> Inl (kmux_err ''several'' (t @ '' has '' @ dec (length ls) @ '' live runs: say which ('' @ join '', '' (map rw_id ls) @ '')''))))))"

definition run_stop_cmd :: "run_env \<Rightarrow> string option \<Rightarrow> json \<Rightarrow> runs_state \<Rightarrow> runs_state \<times> (kmux_error + obj)" where
  "run_stop_cmd ev task args s =
     (case find_run task args s of
        (s, Inl e) \<Rightarrow> (s, Inl e)
      | (s, Inr row) \<Rightarrow>
          if rw_state row \<notin> set LIVE
          then (s, Inl (kmux_err ''ended'' (rw_id row @ '' has ended already ('' @ (case rw_outcome row of Some x \<Rightarrow> x | None \<Rightarrow> rw_state row) @ '')'')))
          else (run_stop ev (rw_id row) ''stopped'' (Some (case json_string args ''by'' of Some b \<Rightarrow> b | None \<Rightarrow> ''user'')) False s,
                Inr [(''run'', JString (rw_id row)), (''state'', JString ''stopped'')]))"

subsection \<open>Resuming\<close>

definition resumable :: "run_row \<Rightarrow> runs_state \<Rightarrow> kmux_error + live \<times> run_visit \<times> stage" where
  "resumable row s =
     (case live_of (rw_id row) s of
        None \<Rightarrow> Inl (kmux_err ''ended'' (rw_id row @ '' has ended ('' @ (case rw_outcome row of Some x \<Rightarrow> x | None \<Rightarrow> rw_state row) @ '')''))
      | Some l \<Rightarrow>
          (case (if rw_state (lv_row l) = ''paused'' then lv_visit l else None) of
             None \<Rightarrow> Inl (kmux_err ''not_paused'' (rw_id row @ '' isn't paused ('' @ rw_state (lv_row l) @ '')''))
           | Some v \<Rightarrow>
               if \<not> vi_paused v then Inl (kmux_err ''busy'' (sg_stage (vi_row v) @ [CHR 0x27] @ ''s agent is still stopping: try again in a moment''))
               else (case stage_named (lv_pipe l) (sg_stage (vi_row v)) of
                       None \<Rightarrow> Inl (failed_run (sg_stage (vi_row v) @ '' isn't in the pipeline any more''))
                     | Some st \<Rightarrow> (case st_kind st of KAgent _ \<Rightarrow> Inr (l, v, st) | _ \<Rightarrow> Inl (failed_run (st_name st @ '' isn't an agent stage''))))))"

definition doc_nat :: "json \<Rightarrow> string \<Rightarrow> nat option" where
  "doc_nat v k = Option.bind (jget v k) as_u64"

definition resume_visit :: "run_env \<Rightarrow> rat \<Rightarrow> nat \<Rightarrow> run_visit \<Rightarrow> run_visit" where
  "resume_visit ev paused_at replies v =
     v\<lparr>vi_row := (vi_row v)\<lparr>sg_doc := doc_patch (sg_doc (vi_row v))
           [(''paused'', Null), (''waited'', JNumber (NFloat (waited v + max 0 (ev_now ev - paused_at)))), (''replies'', JNumber (NInt (int replies)))]\<rparr>,
       vi_paused := False, vi_opening := True\<rparr>"

definition run_resume :: "run_env \<Rightarrow> string option \<Rightarrow> json \<Rightarrow> runs_state \<Rightarrow> runs_state \<times> (kmux_error + obj)" where
  "run_resume ev task args s =
     (case find_run task args s of
        (s, Inl e) \<Rightarrow> (s, Inl e)
      | (s, Inr row) \<Rightarrow>
          (case resumable row s of
             Inl e \<Rightarrow> (s, Inl e)
           | Inr (l, v, st) \<Rightarrow>
               (let text = (case needed_text args of Some t \<Rightarrow> t | None \<Rightarrow> CARRY_ON); rid = rw_id (lv_row l); vdoc = sg_doc (vi_row v);
                    n = (case doc_nat vdoc ''n'' of Some k \<Rightarrow> k | None \<Rightarrow> unat (ud_visits (lv_doc l)));
                    replies = (case doc_nat vdoc ''replies'' of Some k \<Rightarrow> k | None \<Rightarrow> 0) + 1;
                    reply = SCRATCH @ ''/reply-'' @ dec n @ ''-'' @ dec replies @ ''.md''; path = under (ud_worker (lv_doc l)) reply
                in case ev_unwritable ev path of
                     Some e \<Rightarrow> (s, Inl (failed_run (''can't write '' @ reply @ '': '' @ e)))
                   | None \<Rightarrow>
                       (let s = out (Eff_Write path text) s;
                            paused_at = (case Option.bind (Option.bind (jget vdoc ''paused'') (\<lambda>p. jget p ''at'')) as_f64 of Some t \<Rightarrow> t | None \<Rightarrow> ev_now ev);
                            s = run_update (ev_now ev) rid
                              (\<lambda>l. on_visit (resume_visit ev paused_at replies) (l\<lparr>lv_row := (lv_row l)\<lparr>rw_state := ''running''\<rparr>, lv_doc := (lv_doc l)\<lparr>ud_why := None\<rparr>\<rparr>))
                              (\<lambda>_. Some (''resumed'', Some (case json_string args ''by'' of Some b \<Rightarrow> b | None \<Rightarrow> ''user''), JObject [(''stage'', JString (st_name st)), (''reply'', JString text)])) s
                        in (call (Call_Open rid None) s, Inr [(''run'', JString rid), (''stage'', JString (st_name st)), (''state'', JString ''running'')])))))"

subsection \<open>Starting\<close>

record run_task =
  rt_id :: string
  rt_repo :: string
  rt_folder :: "string option"
  rt_message :: "string option"

record start_env =
  se_env :: run_env
  se_unread :: string
  se_prompts :: "(string, string) btree"
  se_base :: "string + string"
  se_add :: "nat \<Rightarrow> string + string \<times> string"
  se_ids :: "string list"

definition pipeline_file :: "string \<Rightarrow> string \<Rightarrow> string" where
  "pipeline_file folder named = (if ends_with ''.kojo'' named \<or> CHR ''/'' \<in> set named then named else under folder (''.kanna/pipelines/'' @ named @ ''.kojo''))"

definition file_stem :: "string \<Rightarrow> string" where
  "file_stem path =
     (let base = rev (takeWhile (\<lambda>c. c \<noteq> CHR ''/'') (rev path)); r = rev base; ext = takeWhile (\<lambda>c. c \<noteq> CHR ''.'') r
      in if length ext + 1 < length r then rev (drop (length ext + 1) r) else base)"

text \<open>The check of a pipeline has fuel; what the parser gives says how much is enough.\<close>

definition load_all :: "string \<Rightarrow> check_context \<Rightarrow> (pipe_error list + pipeline) option" where
  "load_all text cx = load (case parse text of Inr p \<Rightarrow> walk_fuel p | Inl _ \<Rightarrow> 0) text cx"

function add_from :: "(nat \<Rightarrow> string + string \<times> string) \<Rightarrow> nat \<Rightarrow> string + string \<times> string" where
  "add_from add n =
     (case add n of
        Inr made \<Rightarrow> Inr made
      | Inl e \<Rightarrow> if contains_str ''is there already'' e \<and> n < 1000 then add_from add (n + 1) else Inl (''can't make the run's worktree: '' @ e))"
  by pat_completeness auto
termination by (relation "measure (\<lambda>(_, n). 1000 - n)") auto

declare add_from.simps [simp del]

definition new_run_id :: "string list \<Rightarrow> run_db \<Rightarrow> string option" where
  "new_run_id ids d = List.find (\<lambda>i. i \<notin> rw_id ` set (rb_runs d)) (map (\<lambda>x. ''run-'' @ x) ids)"

definition budget_value :: "pipeline \<Rightarrow> json" where
  "budget_value p =
     (case pi_budget p of
        None \<Rightarrow> Null
      | Some b \<Rightarrow> JObject [(''sessions'', case bu_sessions b of Some n \<Rightarrow> count_json n | None \<Rightarrow> Null), (''seconds'', case bu_time b of Some t \<Rightarrow> JNumber (NInt (uint t)) | None \<Rightarrow> Null)])"

definition start_doc :: "string \<Rightarrow> string \<Rightarrow> string \<Rightarrow> string \<Rightarrow> pipeline \<Rightarrow> run_doc" where
  "start_doc request file worker base p =
     \<lparr>ud_request = request, ud_file = file, ud_worker = worker, ud_base = base, ud_revision = 1, ud_taken = replicate (length (pi_arrows p)) 0, ud_feedback = None, ud_failures = [],
      ud_starts = [], ud_answers = [], ud_sessions = 0, ud_visits = 0, ud_next = Some (pi_start p), ud_why = None, ud_note = None\<rparr>"

definition start_context :: "runs_state \<Rightarrow> start_env \<Rightarrow> check_context" where
  "start_context s se = \<lparr>cx_prompts = map_of (se_prompts se), cx_machine = Some (ru_host s), cx_machines = [], cx_roles = [], cx_sizes = Map.empty\<rparr>"

definition start_made :: "start_env \<Rightarrow> run_task \<Rightarrow> string \<Rightarrow> string \<Rightarrow> string \<Rightarrow> string \<Rightarrow> string \<Rightarrow> pipeline \<Rightarrow> string \<Rightarrow> string \<Rightarrow> string \<Rightarrow> string \<Rightarrow> runs_state \<Rightarrow> runs_state \<times> (kmux_error + obj)" where
  "start_made se t by name file text request p base worker branch rid s =
     (let now = ev_now (se_env se); doc = start_doc request file worker base p;
          row = \<lparr>rw_id = rid, rw_task = rt_id t, rw_repo = rt_repo t, rw_pipeline = name, rw_hash = fnv_hash text, rw_branch = branch, rw_state = ''running'', rw_started = now, rw_ended = None,
            rw_outcome = None, rw_doc = JObject (oinsert ''budget'' (budget_value p) (doc_to_value doc))\<rparr>
      in case put_run now row (Some (''started'', Some by, JObject [(''pipeline'', JString name), (''branch'', JString branch), (''base'', JString base)])) s of
           (s, Some e) \<Rightarrow> (s, Inl (failed_run e))
         | (s, None) \<Rightarrow>
             (case add_revision rid (JObject [(''text'', JString text), (''file'', JString file), (''prompts'', JObject (map (\<lambda>(k, v). (k, JString v)) (se_prompts se)))]) s of
                (s, Some e) \<Rightarrow> (s, Inl (failed_run e))
              | (s, None) \<Rightarrow>
                  (set_soon (s\<lparr>ru_live := ru_live s @ [\<lparr>lv_row = row, lv_doc = doc, lv_pipe = p, lv_visit = None\<rparr>]\<rparr>),
                   Inr [(''run'', JString rid), (''task'', JString (rt_id t)), (''pipeline'', JString name), (''branch'', JString branch), (''worktree'', JString worker),
                     (''worst'', case max_sessions (walk_fuel p) p sizes_new of Some n \<Rightarrow> count_json n | None \<Rightarrow> Null)])))"

definition run_start_cmd :: "start_env \<Rightarrow> run_task option \<Rightarrow> json \<Rightarrow> runs_state \<Rightarrow> runs_state \<times> (kmux_error + obj)" where
  "run_start_cmd se task args s =
     (case task of
        None \<Rightarrow> (s, Inl (kmux_err ''not_a_task'' ''kanna run start runs in a task's terminal: the run builds that task's change''))
      | Some t \<Rightarrow>
          (case rt_folder t of
             None \<Rightarrow> (s, Inl (kmux_err ''not_started'' (rt_id t @ '' has no worktree yet'')))
           | Some folder \<Rightarrow>
               (case (case json_string args ''pipeline'' of Some n \<Rightarrow> if n = [] then None else Some n | None \<Rightarrow> None) of
                  None \<Rightarrow> (s, Inl (bad_run ''say which pipeline: kanna run start NAME|FILE''))
                | Some named \<Rightarrow>
                    (let file = pipeline_file folder named in
                     case ev_file (se_env se) file of
                       None \<Rightarrow> (s, Inl (kmux_err ''not_found'' (''no pipeline '' @ named @ '': can't read '' @ file @ '' ('' @ se_unread se @ '')'')))
                     | Some text \<Rightarrow>
                         (case load_all text (start_context s se) of
                            None \<Rightarrow> (s, Inl (kmux_err ''panic'' []))
                          | Some (Inl es) \<Rightarrow> (s, Inl (kmux_err ''invalid'' (join [newline] (map (error_at file) es))))
                          | Some (Inr p) \<Rightarrow>
                              if unbuilt p \<noteq> [] then (s, Inl (kmux_err ''unsupported'' (join [newline] (map (\<lambda>u. file @ '':'' @ u) (unbuilt p)))))
                              else
                                (case se_base se of
                                   Inl e \<Rightarrow> (s, Inl (failed_run (''the task's branch has no commit to start from: '' @ e)))
                                 | Inr base \<Rightarrow>
                                     (case run_read (db_runs_of (rt_id t)) s of
                                        (s', None) \<Rightarrow> (s', Inl (failed_run (case ru_fail s 0 of Some e \<Rightarrow> e | None \<Rightarrow> [])))
                                      | (s, Some rows) \<Rightarrow>
                                          (case add_from (se_add se) (length rows + 1) of
                                             Inl e \<Rightarrow> (s, Inl (failed_run e))
                                           | Inr (worker, branch) \<Rightarrow>
                                               (case run_read (new_run_id (se_ids se)) s of
                                                  (s', None) \<Rightarrow> (s', Inl (failed_run (case ru_fail s 0 of Some e \<Rightarrow> e | None \<Rightarrow> [])))
                                                | (s, Some None) \<Rightarrow> (s, Inl (failed_run []))
                                                | (s, Some (Some rid)) \<Rightarrow>
                                                    start_made se t (case json_string args ''by'' of Some b \<Rightarrow> b | None \<Rightarrow> ''user'') (file_stem file) file text
                                                      (case json_string args ''request'' of Some r \<Rightarrow> if utf8_trim r = [] then (case rt_message t of Some m \<Rightarrow> m | None \<Rightarrow> []) else r
                                                       | None \<Rightarrow> (case rt_message t of Some m \<Rightarrow> m | None \<Rightarrow> []))
                                                      p base worker branch rid s)))))))))"


text \<open>
  The engine of runs as a system (\<open>kanna-daemon/src/runs.rs\<close>): ticks, closed tasks, the start of the daemon, and every input in any
  order. An answer to a call may come at any time, or never; the database may fail at any statement.
\<close>

definition close_run :: "run_env \<Rightarrow> string \<Rightarrow> string \<Rightarrow> string \<Rightarrow> string option \<Rightarrow> runs_state \<Rightarrow> runs_state" where
  "close_run ev rid repo worker terminal s =
     (let s = run_update (ev_now ev) rid (on_visit (\<lambda>v. v\<lparr>vi_ending := True\<rparr>)) (\<lambda>_. None) s;
          s = (case terminal of Some pane \<Rightarrow> close_pane pane s | None \<Rightarrow> s);
          s = run_stop ev rid ''the task was closed'' (Some ''daemon'') False s
      in remove_worktree ev repo [''--force''] worker s)"

definition task_closed :: "run_env \<Rightarrow> string \<Rightarrow> runs_state \<Rightarrow> runs_state" where
  "task_closed ev task s =
     foldl (\<lambda>s l. close_run ev (rw_id (lv_row l)) (rw_repo (lv_row l)) (ud_worker (lv_doc l)) (Option.bind (lv_visit l) (\<lambda>v. sg_terminal (vi_row v))) s) s
       (filter (\<lambda>l. rw_task (lv_row l) = task \<and> rw_state (lv_row l) \<in> set LIVE) (ru_live s))"

subsection \<open>Ticks\<close>

definition visit_deadline :: "run_visit \<Rightarrow> rat option" where
  "visit_deadline v =
     (if vi_opening v \<or> vi_ending v \<or> vi_paused v then None
      else case vi_reported v of
             Some (_, at1) \<Rightarrow> Some (at1 + SETTLE)
           | None \<Rightarrow> (case vi_needs v of Some at1 \<Rightarrow> Some (at1 + SETTLE) | None \<Rightarrow> due v))"

definition deadline :: "runs_state \<Rightarrow> rat option" where
  "deadline s =
     (case List.map_filter (\<lambda>l. Option.bind (lv_visit l) visit_deadline) (ru_live s) of [] \<Rightarrow> None | t # ts \<Rightarrow> Some (foldl min t ts))"

definition tended :: "live \<Rightarrow> bool" where
  "tended l \<longleftrightarrow> rw_state (lv_row l) = ''running'' \<or> (case lv_visit l of Some v \<Rightarrow> \<not> vi_paused v | None \<Rightarrow> False)"

definition tick_steps :: "run_env \<Rightarrow> runs_state \<Rightarrow> runs_state" where
  "tick_steps ev s =
     (let s = foldl (\<lambda>s rid. run_tend ev rid s) s (map (\<lambda>l. rw_id (lv_row l)) (filter tended (ru_live s)))
      in s\<lparr>ru_live := filter (\<lambda>l. rw_state (lv_row l) \<in> set LIVE) (ru_live s)\<rparr>)"

definition run_tick :: "run_env \<Rightarrow> runs_state \<Rightarrow> runs_state \<times> rat option" where
  "run_tick ev s =
     (let s' = s\<lparr>ru_soon := False\<rparr>;
          s' = (if ru_soon s \<or> (case deadline s of Some t \<Rightarrow> t \<le> ev_now ev | None \<Rightarrow> False) then tick_steps ev s' else s')
      in (s', if ru_soon s' then Some (ev_now ev) else map_option (\<lambda>t. max t (ev_now ev)) (deadline s')))"

definition pane_ended :: "string \<Rightarrow> runs_state \<Rightarrow> runs_state" where
  "pane_ended pane s =
     (if list_ex (\<lambda>l. case lv_visit l of Some v \<Rightarrow> sg_terminal (vi_row v) = Some pane | None \<Rightarrow> False) (ru_live s) then set_soon s else s)"

subsection \<open>The daemon starts\<close>

definition visit_from :: "run_env \<Rightarrow> string \<Rightarrow> pipeline \<Rightarrow> stage_row \<Rightarrow> run_visit" where
  "visit_from ev state p row =
     (let reported = (case jget (sg_doc row) ''reported'' of Some (JObject r) \<Rightarrow> Some (reported_ended (JObject r), ev_now ev) | _ \<Rightarrow> None);
          paused = (case jget (sg_doc row) ''paused'' of Some (JObject _) \<Rightarrow> True | _ \<Rightarrow> False)
      in \<lparr>vi_row = row,
          vi_work = (if sg_kind row = ''agent'' then Work_Agent (case sg_agent row of Some a \<Rightarrow> a | None \<Rightarrow> []) else Work_Command (value_text (sg_doc row) ''log'') (value_text (sg_doc row) ''exit'')),
          vi_within = Option.bind (stage_named p (sg_stage row)) st_within, vi_opening = False, vi_ending = False, vi_reported = reported,
          vi_needs = (if state = ''paused'' \<and> \<not> paused \<and> reported = None then Some (ev_now ev) else None), vi_paused = paused\<rparr>)"

definition open_row :: "stage_row list \<Rightarrow> stage_row option" where
  "open_row rows = (case filter (\<lambda>r. sg_ended r = None) rows of [] \<Rightarrow> None | rs \<Rightarrow> Some (last rs))"

definition revision_text :: "json list option \<Rightarrow> string" where
  "revision_text revs = (case revs of Some (x # xs) \<Rightarrow> value_text (last (x # xs)) ''text'' | _ \<Rightarrow> [])"

definition load_live :: "run_env \<Rightarrow> run_row \<Rightarrow> runs_state \<Rightarrow> runs_state" where
  "load_live ev row s =
     (let (s, revs) = run_read (db_revisions (rw_id row)) s in
      case parse (revision_text revs) of
        Inl _ \<Rightarrow> s
      | Inr p \<Rightarrow>
          (let (s, stages) = run_read (db_stages (rw_id row)) s;
               v = map_option (visit_from ev (rw_state row) p) (Option.bind stages open_row)
           in s\<lparr>ru_live := ru_live s @ [\<lparr>lv_row = row, lv_doc = doc_from_value (rw_doc row), lv_pipe = p, lv_visit = v\<rparr>]\<rparr>))"

definition run_open :: "run_env \<Rightarrow> string \<Rightarrow> (nat \<Rightarrow> string option) \<Rightarrow> run_db \<Rightarrow> runs_state" where
  "run_open ev host fl d =
     (let s = \<lparr>ru_db = d, ru_live = [], ru_soon = True, ru_host = host, ru_calls = [], ru_out = [], ru_fail = fl\<rparr>; (s, rows) = run_read db_live_runs s
      in foldl (\<lambda>s row. load_live ev row s) s (case rows of Some rs \<Rightarrow> rs | None \<Rightarrow> []))"

subsection \<open>Everything that can happen\<close>

record run_answer =
  an_open :: "string + string"
  an_said :: "string option"
  an_screen :: string

datatype run_input =
    In_Start start_env "run_task option" json
  | In_Stop run_env "string option" json
  | In_Resume run_env "string option" json
  | In_Done run_env json
  | In_Need run_env json
  | In_Tick run_env
  | In_Status string bool
  | In_Old run_env string string
  | In_Closed run_env string
  | In_Pane string
  | In_Answer nat run_env run_answer

fun run_answered :: "run_env \<Rightarrow> run_answer \<Rightarrow> run_call \<Rightarrow> runs_state \<Rightarrow> runs_state" where
  "run_answered ev an (Call_Open rid row) s = opened ev rid row (an_open an) s"
| "run_answered ev an (Call_Quit rid pane e) s = conclude ev rid e (close_pane pane s)"
| "run_answered ev an (Call_Park rid pane) s = park_finish ev rid pane (an_said an) s"
| "run_answered ev an (Call_Close pane) s = close_pane pane s"
| "run_answered ev an (Call_Screen rid stage pane) s = screened ev rid stage pane (an_screen an) s"

fun run_in :: "run_input \<Rightarrow> runs_state \<Rightarrow> runs_state" where
  "run_in (In_Start se task args) s = fst (run_start_cmd se task args s)"
| "run_in (In_Stop ev task args) s = fst (run_stop_cmd ev task args s)"
| "run_in (In_Resume ev task args) s = fst (run_resume ev task args s)"
| "run_in (In_Done ev args) s = fst (run_done ev args s)"
| "run_in (In_Need ev args) s = fst (run_need ev args s)"
| "run_in (In_Tick ev) s = fst (run_tick ev s)"
| "run_in (In_Status pane turn_ended) s = run_status pane turn_ended s"
| "run_in (In_Old ev pane why) s = fst (too_old ev pane why s)"
| "run_in (In_Closed ev task) s = task_closed ev task s"
| "run_in (In_Pane pane) s = pane_ended pane s"
| "run_in (In_Answer k ev an) s =
     (if k < length (ru_calls s) then run_answered ev an (ru_calls s ! k) (s\<lparr>ru_calls := take k (ru_calls s) @ drop (Suc k) (ru_calls s)\<rparr>) else s)"

definition empty_runs :: run_db where
  "empty_runs = \<lparr>rb_runs = [], rb_revs = [], rb_stages = [], rb_events = []\<rparr>"

text \<open>With any statement failing, and the daemon restarted at any time.\<close>

inductive runs_reach :: "runs_state \<Rightarrow> bool" where
  ra_start: "runs_reach (run_open ev host fl empty_runs)"
| ra_in: "runs_reach s \<Longrightarrow> runs_reach (run_in inp (s\<lparr>ru_fail := fl\<rparr>))"
| ra_restart: "runs_reach s \<Longrightarrow> runs_reach (run_open ev host fl (ru_db s))"

end
