(* ===== verification/Runs_Kept.thy ===== *)
theory Runs_Kept
  imports Runs_Serve Pipe_Carry
begin

text \<open>
  Limits and budgets of runs: whatever is asked, answered, fails or restarts, no arrow of a run is taken more often than its \<open>max\<close>, no
  run starts more sessions than its budget, and the stage a run goes to next is a stage of its pipeline.
\<close>

named_theorems run_kept \<open>operations that keep the invariant of runs\<close>

subsection \<open>What is saved is read back\<close>

lemma map_of_without: "map_of (filter (\<lambda>f. fst f \<noteq> k) fs) = (map_of fs)(k := None)"
  by (induction fs) (auto simp: fun_eq_iff)

lemma map_of_patch:
  "distinct (map fst ps) \<Longrightarrow> map_of (patch_fields fs ps) k =
     (case map_of ps k of
        None \<Rightarrow> map_of fs k
      | Some v \<Rightarrow> if v = Null then None else Some (json_patch (case map_of fs k of Some w \<Rightarrow> w | None \<Rightarrow> Null) v))"
proof (induction ps arbitrary: fs)
  case (Cons x ps)
  obtain k' v where x: "x = (k', v)" by (cases x)
  have "k' \<notin> fst ` set ps" "distinct (map fst ps)" using Cons.prems x by auto
  then have "map_of ps k' = None" by (simp add: map_of_eq_None_iff)
  then show ?case using Cons.IH [OF \<open>distinct (map fst ps)\<close>] x by (cases "k = k'") (auto simp: map_of_without split: option.splits)
qed simp

lemma json_count [simp]: "json_u32 (count_json n) = n"
proof -
  have "uint n < 2 ^ 32" using uint_lt2p [of n] by simp
  then show ?thesis by (simp add: json_u32_def count_json_def)
qed

lemma patch_count [simp]: "count_json n \<noteq> Null" "json_patch w (count_json n) = count_json n"
  by (simp_all add: count_json_def)

text \<open>What the next decision depends on.\<close>

definition same_spot :: "run_doc \<Rightarrow> run_doc \<Rightarrow> bool" where
  "same_spot d e \<longleftrightarrow> ud_taken d = ud_taken e \<and> ud_sessions d = ud_sessions e \<and> ud_next d = ud_next e"

definition saved_doc :: "json \<Rightarrow> run_doc \<Rightarrow> obj" where
  "saved_doc old d = (case jget old ''budget'' of Some b \<Rightarrow> oinsert ''budget'' b (doc_to_value d) | None \<Rightarrow> doc_to_value d)"

lemma saved_live_doc [simp]: "rw_doc (lv_row (saved_live l)) = JObject (saved_doc (rw_doc (lv_row l)) (lv_doc l))"
  "rw_id (lv_row (saved_live l)) = rw_id (lv_row l)" "rw_state (lv_row (saved_live l)) = rw_state (lv_row l)"
  "lv_doc (saved_live l) = lv_doc l" "lv_pipe (saved_live l) = lv_pipe l" "lv_visit (saved_live l) = lv_visit l"
  by (auto simp: saved_live_def saved_doc_def Let_def split: option.splits)

lemma distinct_doc: "distinct (map fst (doc_to_value d))"
  by (simp add: doc_to_value_def)

lemma distinct_saved: "distinct (map fst (saved_doc old d))"
  using distinct_oinsert [OF distinct_doc] distinct_doc by (simp add: saved_doc_def split: option.split)

lemma map_of_saved:
  "map_of (saved_doc old d) ''taken'' = Some (JArray (map count_json (ud_taken d)))"
  "map_of (saved_doc old d) ''sessions'' = Some (count_json (ud_sessions d))"
  "map_of (saved_doc old d) ''next'' = Some (opt_json (ud_next d))"
  by (simp_all add: saved_doc_def doc_to_value_def split: option.split)

lemma saved_fresh: "same_spot (doc_from_value (JObject (saved_doc old d))) d"
  by (cases "ud_next d") (auto simp: same_spot_def doc_from_value_def value_u32_def json_string_def map_of_saved comp_def)

lemma saved_patched: "same_spot (doc_from_value (json_patch before (JObject (saved_doc old d)))) d"
  by (cases "ud_next d") (auto simp: same_spot_def doc_from_value_def value_u32_def json_string_def map_of_patch [OF distinct_saved] map_of_saved comp_def)

subsection \<open>The invariant\<close>

definition accepted :: "pipeline \<Rightarrow> bool" where
  "accepted p \<longleftrightarrow> (\<exists>fuel text cx. load fuel text cx = Some (Inr p)) \<and> unbuilt p = []"

definition sessions_ok :: "pipeline \<Rightarrow> u32 \<Rightarrow> bool" where
  "sessions_ok p n \<longleftrightarrow> (case Option.bind (pi_budget p) bu_sessions of Some most \<Rightarrow> n \<le> most | None \<Rightarrow> True)"

definition next_ok :: "pipeline \<Rightarrow> string option \<Rightarrow> bool" where
  "next_ok p nxt \<longleftrightarrow> (case nxt of Some n \<Rightarrow> stage_named p n \<noteq> None | None \<Rightarrow> True)"

definition doc_ok :: "pipeline \<Rightarrow> run_doc \<Rightarrow> bool" where
  "doc_ok p d \<longleftrightarrow> counts_ok p (ud_taken d) \<and> sessions_ok p (ud_sessions d) \<and> next_ok p (ud_next d)"

definition pipe_of :: "string \<Rightarrow> run_db \<Rightarrow> pipeline option" where
  "pipe_of rid d = (case parse (revision_text (Some (db_revisions rid d))) of Inr p \<Rightarrow> Some p | Inl _ \<Rightarrow> None)"

definition run_ids :: "run_db \<Rightarrow> string set" where
  "run_ids d = rw_id ` set (rb_runs d)"

definition stage_row_ok :: "run_db \<Rightarrow> stage_row \<Rightarrow> bool" where
  "stage_row_ok d r \<longleftrightarrow> sg_run r \<in> run_ids d \<and> (\<forall>p. pipe_of (sg_run r) d = Some p \<longrightarrow> next_ok p (Some (sg_stage r)))"

definition live_ok :: "run_db \<Rightarrow> live \<Rightarrow> bool" where
  "live_ok d l \<longleftrightarrow> rw_id (lv_row l) \<in> run_ids d \<and> pipe_of (rw_id (lv_row l)) d = Some (lv_pipe l) \<and> doc_ok (lv_pipe l) (lv_doc l) \<and>
     (\<forall>v. lv_visit l = Some v \<longrightarrow> sg_run (vi_row v) = rw_id (lv_row l) \<and> stage_row_ok d (vi_row v))"

definition call_ok :: "run_db \<Rightarrow> run_call \<Rightarrow> bool" where
  "call_ok d c \<longleftrightarrow> (\<forall>rid r. c = Call_Open rid (Some r) \<longrightarrow> sg_id r = 0 \<and> sg_run r = rid \<and> stage_row_ok d r)"

definition rows_ok :: "run_db \<Rightarrow> bool" where
  "rows_ok d \<longleftrightarrow> (\<forall>r \<in> set (rb_runs d). \<forall>p. pipe_of (rw_id r) d = Some p \<longrightarrow> accepted p \<and> doc_ok p (doc_from_value (rw_doc r))) \<and>
     (\<forall>x \<in> set (rb_revs d). fst x \<in> run_ids d) \<and> (\<forall>r \<in> set (rb_stages d). stage_row_ok d r)"

definition run_inv :: "runs_state \<Rightarrow> bool" where
  "run_inv s \<longleftrightarrow> rows_ok (ru_db s) \<and> (\<forall>l \<in> set (ru_live s). live_ok (ru_db s) l) \<and> (\<forall>c \<in> set (ru_calls s). call_ok (ru_db s) c)"

lemma run_invD:
  assumes "run_inv s"
  shows "rows_ok (ru_db s)" "l \<in> set (ru_live s) \<Longrightarrow> live_ok (ru_db s) l" "c \<in> set (ru_calls s) \<Longrightarrow> call_ok (ru_db s) c"
  using assms by (auto simp: run_inv_def)

lemma doc_ok_same: "same_spot d e \<Longrightarrow> doc_ok p d \<longleftrightarrow> doc_ok p e"
  by (simp add: same_spot_def doc_ok_def)

lemma live_of_in: "live_of rid s = Some l \<Longrightarrow> l \<in> set (ru_live s) \<and> rw_id (lv_row l) = rid"
  by (auto simp: live_of_def dest: find_SomeD)

lemma live_accepted: "run_inv s \<Longrightarrow> l \<in> set (ru_live s) \<Longrightarrow> accepted (lv_pipe l)"
proof -
  assume a: "run_inv s" "l \<in> set (ru_live s)"
  then obtain r where "r \<in> set (rb_runs (ru_db s))" "rw_id (lv_row l) = rw_id r" "pipe_of (rw_id (lv_row l)) (ru_db s) = Some (lv_pipe l)"
    using run_invD(2) [OF a] by (auto simp: live_ok_def run_ids_def)
  then show ?thesis using run_invD(1) [OF a(1)] by (simp add: rows_ok_def)
qed

lemma live_of_ok:
  assumes "run_inv s" "live_of rid s = Some l"
  shows "rw_id (lv_row l) = rid" "live_ok (ru_db s) l" "accepted (lv_pipe l)" "doc_ok (lv_pipe l) (lv_doc l)"
    "lv_visit l = Some v \<Longrightarrow> sg_run (vi_row v) = rid \<and> stage_row_ok (ru_db s) (vi_row v) \<and> next_ok (lv_pipe l) (Some (sg_stage (vi_row v)))"
  using live_of_in [OF assms(2)] run_invD(2) [OF assms(1)] live_accepted [OF assms(1)] by (auto simp: live_ok_def stage_row_ok_def)

lemma visit_of_ok: "run_inv s \<Longrightarrow> visit_of rid s = Some v \<Longrightarrow> sg_run (vi_row v) = rid \<and> stage_row_ok (ru_db s) (vi_row v)"
  using live_of_ok(5) by (cases "live_of rid s") (auto simp: visit_of_def)

text \<open>All of it depends on the database by the runs there are and their revisions.\<close>

definition same_base :: "run_db \<Rightarrow> run_db \<Rightarrow> bool" where
  "same_base d e \<longleftrightarrow> run_ids d = run_ids e \<and> rb_revs d = rb_revs e"

lemma pipe_of_same: "rb_revs d = rb_revs e \<Longrightarrow> pipe_of rid d = pipe_of rid e"
  by (simp add: pipe_of_def db_revisions_def)

lemma base_same:
  assumes "same_base d e"
  shows "stage_row_ok d = stage_row_ok e" "live_ok d = live_ok e" "call_ok d = call_ok e"
proof -
  have p: "pipe_of rid d = pipe_of rid e" for rid by (rule pipe_of_same) (use assms in \<open>simp add: same_base_def\<close>)
  have i: "run_ids d = run_ids e" using assms by (simp add: same_base_def)
  show r: "stage_row_ok d = stage_row_ok e" by (simp add: fun_eq_iff stage_row_ok_def p i)
  show "live_ok d = live_ok e" "call_ok d = call_ok e" by (simp_all add: fun_eq_iff live_ok_def call_ok_def p i r)
qed

lemma set_edit_first: "y \<in> set (edit_first p f xs) \<Longrightarrow> y \<in> set xs \<or> (\<exists>x \<in> set xs. p x \<and> y = f x)"
  by (induction p f xs rule: edit_first.induct) (auto split: if_splits)

subsection \<open>What does not touch the documents\<close>

lemma run_inv_cong: "ru_db s' = ru_db s \<Longrightarrow> set (ru_live s') \<subseteq> set (ru_live s) \<Longrightarrow> set (ru_calls s') \<subseteq> set (ru_calls s) \<Longrightarrow> run_inv s \<Longrightarrow> run_inv s'"
  by (auto simp: run_inv_def)

lemma plain_parts [simp]:
  "ru_db (out e s) = ru_db s" "ru_db (call c s) = ru_db s" "ru_db (set_soon s) = ru_db s" "ru_db (next_fail s) = ru_db s" "ru_db (close_pane pane s) = ru_db s"
  "ru_db (run_tell rid t s) = ru_db s" "ru_db (edit_live rid f s) = ru_db s" "ru_db (remove_worktree ev repo flags worker s) = ru_db s"
  "ru_live (out e s) = ru_live s" "ru_live (call c s) = ru_live s" "ru_live (set_soon s) = ru_live s" "ru_live (next_fail s) = ru_live s" "ru_live (close_pane pane s) = ru_live s"
  "ru_live (run_tell rid t s) = ru_live s" "ru_live (remove_worktree ev repo flags worker s) = ru_live s"
  "ru_calls (out e s) = ru_calls s" "ru_calls (call c s) = ru_calls s @ [c]" "ru_calls (set_soon s) = ru_calls s" "ru_calls (next_fail s) = ru_calls s" "ru_calls (close_pane pane s) = ru_calls s"
  "ru_calls (run_tell rid t s) = ru_calls s" "ru_calls (edit_live rid f s) = ru_calls s" "ru_calls (remove_worktree ev repo flags worker s) = ru_calls s"
  by (simp_all add: out_def call_def set_soon_def next_fail_def close_pane_def run_tell_def edit_live_def remove_worktree_def split: option.split)

lemma plain_live [simp]:
  "live_of rid (out e s) = live_of rid s" "live_of rid (call c s) = live_of rid s" "live_of rid (set_soon s) = live_of rid s" "live_of rid (next_fail s) = live_of rid s"
  "live_of rid (close_pane pane s) = live_of rid s" "live_of rid (run_tell rid' t s) = live_of rid s" "live_of rid (remove_worktree ev repo flags worker s) = live_of rid s"
  by (simp_all add: live_of_def)

lemma plain_inv [run_kept]:
  "run_inv s \<Longrightarrow> run_inv (out e s)" "run_inv s \<Longrightarrow> run_inv (set_soon s)" "run_inv s \<Longrightarrow> run_inv (next_fail s)"
  "run_inv s \<Longrightarrow> run_inv (close_pane pane s)" "run_inv s \<Longrightarrow> run_inv (run_tell rid t s)" "run_inv s \<Longrightarrow> run_inv (remove_worktree ev repo flags worker s)"
  "run_inv s \<Longrightarrow> call_ok (ru_db s) c \<Longrightarrow> run_inv (call c s)"
  by (auto simp: run_inv_def)

lemma call_ok_simps [simp]: "call_ok d (Call_Quit rid pane e)" "call_ok d (Call_Park rid pane)" "call_ok d (Call_Close pane)" "call_ok d (Call_Screen rid stage pane)"
  "call_ok d (Call_Open rid None)" "call_ok d (Call_Open rid (Some r)) \<longleftrightarrow> sg_id r = 0 \<and> sg_run r = rid \<and> stage_row_ok d r"
  by (auto simp: call_ok_def)

lemma put_stage_parts [simp]:
  "ru_live (fst (put_stage r s)) = ru_live s" "rb_runs (ru_db (fst (put_stage r s))) = rb_runs (ru_db s)" "rb_revs (ru_db (fst (put_stage r s))) = rb_revs (ru_db s)"
  "ru_calls (fst (put_stage r s)) = ru_calls s" "live_of rid (fst (put_stage r s)) = live_of rid s"
  by (auto simp: put_stage_def run_write_def next_fail_def live_of_def Let_def split: option.splits)

lemma put_stage_stages:
  "rb_stages (ru_db (fst (put_stage r s))) =
     (if ru_fail s 0 \<noteq> None then rb_stages (ru_db s) else if sg_id r = 0 then rb_stages (ru_db s) @ [r\<lparr>sg_id := next_stage_id (rb_stages (ru_db s))\<rparr>] else set_stage r (rb_stages (ru_db s)))"
  by (auto simp: put_stage_def run_write_def next_fail_def Let_def split: option.splits)

lemma set_stage_rows: "x \<in> set (set_stage r rs) \<Longrightarrow> \<exists>y \<in> set rs. sg_run x = sg_run y \<and> sg_stage x = sg_stage y"
  by (auto simp: set_stage_def split: if_splits)

lemma put_stage_rows: "x \<in> set (rb_stages (ru_db (fst (put_stage r s)))) \<Longrightarrow> \<exists>y. (y \<in> set (rb_stages (ru_db s)) \<or> y = r) \<and> sg_run x = sg_run y \<and> sg_stage x = sg_stage y"
  using set_stage_rows [of x r "rb_stages (ru_db s)"] unfolding put_stage_stages by (auto split: if_splits)

lemma base_put_stage: "same_base (ru_db (fst (put_stage r s))) (ru_db s)"
  by (simp add: same_base_def run_ids_def)

lemma put_stage_inv [run_kept]: "run_inv s \<Longrightarrow> stage_row_ok (ru_db s) r \<Longrightarrow> run_inv (fst (put_stage r s))"
proof -
  assume a: "run_inv s" "stage_row_ok (ru_db s) r"
  note b = base_put_stage [of r s]
  have p: "pipe_of rid (ru_db (fst (put_stage r s))) = pipe_of rid (ru_db s)" for rid by (rule pipe_of_same) simp
  have i: "run_ids (ru_db (fst (put_stage r s))) = run_ids (ru_db s)" by (simp add: run_ids_def)
  have "stage_row_ok (ru_db s) x" if "x \<in> set (rb_stages (ru_db (fst (put_stage r s))))" for x
    using put_stage_rows [OF that] a run_invD(1) [OF a(1)] by (auto simp: rows_ok_def stage_row_ok_def)
  then have "rows_ok (ru_db (fst (put_stage r s)))" using run_invD(1) [OF a(1)] unfolding rows_ok_def base_same [OF b] p i by simp
  then show ?thesis using a(1) unfolding run_inv_def base_same [OF b] by simp
qed

lemma stage_row_ok_put [simp]: "stage_row_ok (ru_db (fst (put_stage r s))) = stage_row_ok (ru_db s)"
  by (rule base_same(1) [OF base_put_stage])

lemma run_read_parts [simp]: "fst (run_read f s) = next_fail s"
  by (simp add: run_read_def)

lemma stage_row_ok_frame: "sg_run r = sg_run r' \<Longrightarrow> sg_stage r = sg_stage r' \<Longrightarrow> stage_row_ok d r \<longleftrightarrow> stage_row_ok d r'"
  by (simp add: stage_row_ok_def)

definition keeps_row :: "(run_visit \<Rightarrow> run_visit) \<Rightarrow> bool" where
  "keeps_row f \<longleftrightarrow> (\<forall>v. sg_run (vi_row (f v)) = sg_run (vi_row v) \<and> sg_stage (vi_row (f v)) = sg_stage (vi_row v))"

lemma live_ok_visit: "keeps_row f \<Longrightarrow> live_ok d l \<Longrightarrow> live_ok d (on_visit f l)"
  unfolding live_ok_def on_visit_def keeps_row_def by (auto simp: stage_row_ok_def)

lemma edit_visit_inv [run_kept]: "keeps_row f \<Longrightarrow> run_inv s \<Longrightarrow> run_inv (edit_live rid (on_visit f) s)"
  unfolding run_inv_def by (auto simp: edit_live_def live_ok_visit dest!: set_edit_first)

lemma mark_ending_inv [run_kept]: "run_inv s \<Longrightarrow> run_inv (fst (mark_ending rid s))"
  by (auto simp: mark_ending_def keeps_row_def split: option.split intro: run_kept)

subsection \<open>Updates\<close>

lemma set_put_row: "r \<in> set (put_row row rs) \<Longrightarrow> r \<in> set rs \<and> rw_id r \<noteq> rw_id row \<or> rw_id r = rw_id row \<and> (rw_doc r = rw_doc row \<or> (\<exists>old. rw_doc r = json_patch old (rw_doc row)))"
  by (auto simp: put_row_def list_ex_iff split: if_splits)

lemma ids_put_row: "rw_id ` set (put_row row rs) = insert (rw_id row) (rw_id ` set rs)"
proof (cases "list_ex (\<lambda>x. rw_id x = rw_id row) rs")
  case True
  then obtain x where "x \<in> set rs" "rw_id row = rw_id x" unfolding list_ex_iff by metis
  then have "rw_id row \<in> rw_id ` set rs" by blast
  then have "insert (rw_id row) (rw_id ` set rs) = rw_id ` set rs" by auto
  moreover have "map rw_id (put_row row rs) = map rw_id rs" using True by (simp add: put_row_def)
  then have "rw_id ` set (put_row row rs) = rw_id ` set rs" by (metis set_map)
  ultimately show ?thesis by simp
qed (simp add: put_row_def)

lemma put_row_new: "rw_id row \<notin> rw_id ` set rs \<Longrightarrow> put_row row rs = rs @ [row]"
  by (auto simp: put_row_def list_ex_iff) (metis image_eqI)+

lemma put_run_parts [simp]:
  "ru_live (fst (put_run now row ev s)) = ru_live s" "ru_calls (fst (put_run now row ev s)) = ru_calls s"
  "rb_revs (ru_db (fst (put_run now row ev s))) = rb_revs (ru_db s)" "rb_stages (ru_db (fst (put_run now row ev s))) = rb_stages (ru_db s)"
  by (auto simp: put_run_def run_write_def next_fail_def add_event_def split: option.splits)

lemma put_run_runs: "rb_runs (ru_db (fst (put_run now row ev s))) = (if ru_fail s 0 = None then put_row row (rb_runs (ru_db s)) else rb_runs (ru_db s))"
  by (auto simp: put_run_def run_write_def next_fail_def add_event_def split: option.splits)

lemma update_calls [simp]: "ru_calls (run_update now rid edit ev s) = ru_calls s"
  by (simp add: run_update_def Let_def split: option.split)

lemma update_base: "run_inv s \<Longrightarrow> (\<And>l. live_of rid s = Some l \<Longrightarrow> rw_id (lv_row (edit l)) = rid) \<Longrightarrow> same_base (ru_db (run_update now rid edit ev s)) (ru_db s)"
proof (cases "live_of rid s")
  case (Some l)
  assume a: "run_inv s" "\<And>l. live_of rid s = Some l \<Longrightarrow> rw_id (lv_row (edit l)) = rid"
  have "rid \<in> run_ids (ru_db s)" using live_of_ok(1,2) [OF a(1) Some] by (simp add: live_ok_def)
  then have "insert rid (rw_id ` set (rb_runs (ru_db s))) = rw_id ` set (rb_runs (ru_db s))" by (auto simp: run_ids_def)
  then show ?thesis using Some a(2) [OF Some] by (simp add: same_base_def run_update_def Let_def put_run_runs run_ids_def ids_put_row)
qed (simp add: same_base_def run_update_def)

lemma run_update_inv:
  assumes inv: "run_inv s"
    and ed: "\<And>l. live_of rid s = Some l \<Longrightarrow> rw_id (lv_row (edit l)) = rid \<and> lv_pipe (edit l) = lv_pipe l \<and> doc_ok (lv_pipe l) (lv_doc (edit l)) \<and>
      (\<forall>v. lv_visit (edit l) = Some v \<longrightarrow> sg_run (vi_row v) = rid \<and> stage_row_ok (ru_db s) (vi_row v))"
  shows "run_inv (run_update now rid edit ev s)"
proof (cases "live_of rid s")
  case None
  then show ?thesis using inv by (simp add: run_update_def)
next
  case (Some l)
  let ?l = "saved_live (edit l)" and ?s = "run_update now rid edit ev s"
  have s: "?s = fst (put_run now (lv_row ?l) (ev l) (edit_live rid (\<lambda>_. ?l) s))" using Some by (simp add: run_update_def Let_def)
  have b: "same_base (ru_db ?s) (ru_db s)" using update_base [OF inv] ed by blast
  have p: "pipe_of r (ru_db ?s) = pipe_of r (ru_db s)" for r by (rule pipe_of_same) (use b in \<open>simp add: same_base_def\<close>)
  note l = live_of_ok [OF inv Some] and e = ed [OF Some]
  have lok: "live_ok (ru_db s) ?l" using l(1,2) e by (simp add: live_ok_def)
  have row: "accepted q \<and> doc_ok q (doc_from_value (rw_doc r))" if r: "r \<in> set (rb_runs (ru_db ?s))" and q: "pipe_of (rw_id r) (ru_db s) = Some q" for r q
  proof (cases "r \<in> set (rb_runs (ru_db s))")
    case True
    then show ?thesis using run_invD(1) [OF inv] q by (auto simp: rows_ok_def)
  next
    case False
    then have "r \<in> set (put_row (lv_row ?l) (rb_runs (ru_db s)))" using r unfolding s put_run_runs by (auto split: if_splits)
    from set_put_row [OF this] False have "rw_id r = rid \<and> (rw_doc r = rw_doc (lv_row ?l) \<or> (\<exists>old. rw_doc r = json_patch old (rw_doc (lv_row ?l))))" using e by auto
    then have "rw_id r = rid \<and> same_spot (doc_from_value (rw_doc r)) (lv_doc ?l)"
      unfolding saved_live_doc using saved_fresh saved_patched by (auto simp del: json_patch.simps)
    then show ?thesis using q lok l(1,3) e by (auto simp: doc_ok_same live_ok_def)
  qed
  have st: "rb_stages (ru_db ?s) = rb_stages (ru_db s)" "rb_revs (ru_db ?s) = rb_revs (ru_db s)" "run_ids (ru_db ?s) = run_ids (ru_db s)"
    using b unfolding s by (simp_all add: same_base_def)
  have "rows_ok (ru_db ?s)" using row run_invD(1) [OF inv] unfolding rows_ok_def p base_same [OF b] st by simp
  moreover have "live_ok (ru_db s) k" if k: "k \<in> set (ru_live ?s)" for k
    using k lok run_invD(2) [OF inv] unfolding s by (auto simp: edit_live_def dest!: set_edit_first)
  ultimately show ?thesis using inv unfolding run_inv_def base_same [OF b] by simp
qed

lemma update_visit_inv [run_kept]: "keeps_row f \<Longrightarrow> run_inv s \<Longrightarrow> run_inv (run_update now rid (on_visit f) ev s)"
proof (rule run_update_inv)
  fix l
  assume a: "keeps_row f" "run_inv s" "live_of rid s = Some l"
  then show "rw_id (lv_row (on_visit f l)) = rid \<and> lv_pipe (on_visit f l) = lv_pipe l \<and> doc_ok (lv_pipe l) (lv_doc (on_visit f l)) \<and>
      (\<forall>v. lv_visit (on_visit f l) = Some v \<longrightarrow> sg_run (vi_row v) = rid \<and> stage_row_ok (ru_db s) (vi_row v))"
    using live_of_ok(1,4) [OF a(2,3)] live_of_ok(5) [OF a(2,3)] unfolding keeps_row_def on_visit_def by (auto simp: stage_row_ok_def)
qed

subsection \<open>Decisions\<close>

lemma loaded_parts:
  assumes l: "load fuel t cx = Some (Inr p)"
  shows "parse t = Inr p" "check fuel p cx = Some (Inr ())"
proof -
  obtain q where q: "parse t = Inr q" using l by (auto simp: load_def split: sum.splits)
  with l obtain r where r: "check fuel q cx = Some r" "(case r of Inl es \<Rightarrow> Inl es | Inr _ \<Rightarrow> Inr q) = (Inr p :: pipe_error list + pipeline)"
    by (auto simp: load_def)
  then show "parse t = Inr p" "check fuel p cx = Some (Inr ())" using q by (cases r; auto)+
qed

lemma accepted_check: "accepted p \<Longrightarrow> \<exists>fuel cx. check fuel p cx = Some (Inr ())"
  unfolding accepted_def using loaded_parts(2) by blast

lemma arrow_target:
  assumes "accepted p" "a \<in> set (pi_arrows p)" "ar_to a \<noteq> DONE"
  shows "stage_named p (ar_to a) \<noteq> None"
proof -
  obtain fuel cx where "check fuel p cx = Some (Inr ())" using accepted_check [OF assms(1)] by blast
  from accepted_parts(1) [OF this] assms(2) have e: "check_arrow p a = []" by (simp add: check_arrows_def)
  then have "stage_map p (ar_to a) \<noteq> None" using assms(3) by (auto simp: check_arrow_def split: if_splits)
  then show ?thesis unfolding stage_map_Some by (auto simp: stage_named_def find_None_iff)
qed

lemma padded_same: "length taken = length (pi_arrows p) \<Longrightarrow> padded p taken = taken"
  by (simp add: padded_def)

lemma counts_taken:
  assumes "counts_ok p taken" "pick p stage v taken stalled = Some (i, a)"
  shows "counts_ok p (taken[i := taken ! i + 1])"
proof -
  have "taken ! i + 1 \<le> n" if "ar_max (pi_arrows p ! i) = Some n" for n
    using pick_Some [OF assms(2)] that assms(1) by (auto simp: may_take_def counts_ok_def intro: inc_le_u32)
  then have "taken[i := taken ! i + 1] ! j \<le> n" if "ar_max (pi_arrows p ! j) = Some n" "j < length taken" for j n
    using that assms(1) by (cases "i = j") (auto simp: counts_ok_def)
  with assms(1) show ?thesis by (auto simp: counts_ok_def split: option.splits)
qed

text \<open>What a decision leaves: a count that is one up for the arrow that was picked, and a stage that exists.\<close>

lemma decided:
  assumes "accepted p" "doc_ok p d" "decide p d stage v fails = (d', nxt)"
  shows "doc_ok p (d'\<lparr>ud_feedback := fb, ud_next := next_name nxt\<rparr>)"
proof -
  have len: "padded p (ud_taken d) = ud_taken d" using assms(2) by (simp add: doc_ok_def counts_ok_def padded_same)
  show ?thesis
  proof (cases "pick p stage v (ud_taken d) (is_stalled d stage v fails)")
    case None
    then have "ud_taken d' = ud_taken d" "ud_sessions d' = ud_sessions d" "nxt = Next_Stuck"
      using assms(3) None by (cases fails; auto simp: decide_def Let_def len)+
    then show ?thesis using assms(2) by (simp add: doc_ok_def next_name_def next_ok_def)
  next
    case (Some ia)
    obtain i a where ia: "ia = (i, a)" by (cases ia)
    have "ud_taken d' = (ud_taken d)[i := ud_taken d ! i + 1]" "ud_sessions d' = ud_sessions d" "nxt = (if ar_to a = DONE then Next_Done else Next_Stage (ar_to a) (ar_reset a))"
      using assms(3) Some ia by (cases fails; auto simp: decide_def Let_def len)+
    moreover have "a \<in> set (pi_arrows p)" using pick_Some [OF Some [unfolded ia]] by auto
    moreover have "counts_ok p ((ud_taken d)[i := ud_taken d ! i + 1])" using counts_taken [of p "ud_taken d"] Some ia assms(2) by (auto simp: doc_ok_def)
    ultimately show ?thesis using assms(2) arrow_target [OF assms(1)] by (auto simp: doc_ok_def next_name_def next_ok_def)
  qed
qed

lemma within_budget: "over_budget p d st elapsed = None \<Longrightarrow> doc_ok p d \<Longrightarrow> doc_ok p (d\<lparr>ud_sessions := ud_sessions d + stage_sessions sizes_new st\<rparr>)"
  by (auto simp: over_budget_def doc_ok_def sessions_ok_def Let_def not_less word_gt_0 split: option.splits if_splits)

lemma doc_ok_frame [simp]:
  "doc_ok p (d\<lparr>ud_why := w\<rparr>) = doc_ok p d" "doc_ok p (d\<lparr>ud_note := w\<rparr>) = doc_ok p d" "doc_ok p (d\<lparr>ud_answers := m\<rparr>) = doc_ok p d" "doc_ok p (d\<lparr>ud_starts := m\<rparr>) = doc_ok p d"
  "doc_ok p (d\<lparr>ud_visits := n\<rparr>) = doc_ok p d" "doc_ok p (doc_answers stage answer d) = doc_ok p d"
  by (simp_all add: doc_ok_def doc_answers_def)

end
