(* ===== verification/Runs_Limits.thy ===== *)
theory Runs_Limits
  imports Runs_Kept
begin

text \<open>
  Every operation of the engine keeps the invariant of \<open>Runs_Kept\<close>, whatever the database does; the limits and the budget of a run hold.
\<close>

subsection \<open>Ends, waits and pauses\<close>

lemma update_row_inv:
  assumes "run_inv s" "\<And>r. rw_id (f r) = rw_id r" "\<And>p d. doc_ok p d \<Longrightarrow> doc_ok p (g d)" "keeps_row h"
  shows "run_inv (run_update now rid (\<lambda>l. on_visit h (l\<lparr>lv_row := f (lv_row l), lv_doc := g (lv_doc l)\<rparr>)) ev s)"
proof (rule run_update_inv [OF assms(1)])
  fix l
  assume l: "live_of rid s = Some l"
  show "rw_id (lv_row (on_visit h (l\<lparr>lv_row := f (lv_row l), lv_doc := g (lv_doc l)\<rparr>))) = rid \<and>
      lv_pipe (on_visit h (l\<lparr>lv_row := f (lv_row l), lv_doc := g (lv_doc l)\<rparr>)) = lv_pipe l \<and>
      doc_ok (lv_pipe l) (lv_doc (on_visit h (l\<lparr>lv_row := f (lv_row l), lv_doc := g (lv_doc l)\<rparr>))) \<and>
      (\<forall>v. lv_visit (on_visit h (l\<lparr>lv_row := f (lv_row l), lv_doc := g (lv_doc l)\<rparr>)) = Some v \<longrightarrow> sg_run (vi_row v) = rid \<and> stage_row_ok (ru_db s) (vi_row v))"
    using assms(2-4) live_of_ok(1,4) [OF assms(1) l] live_of_ok(5) [OF assms(1) l] unfolding keeps_row_def on_visit_def by (auto simp: stage_row_ok_def)
qed

lemma on_visit_id: "on_visit (\<lambda>v. v) l = l"
  by (simp add: on_visit_def option.map_ident)

lemma update_plain_inv:
  assumes "run_inv s" "\<And>r. rw_id (f r) = rw_id r" "\<And>p d. doc_ok p d \<Longrightarrow> doc_ok p (g d)"
  shows "run_inv (run_update now rid (\<lambda>l. l\<lparr>lv_row := f (lv_row l), lv_doc := g (lv_doc l)\<rparr>) ev s)"
  using update_row_inv [of s f g "\<lambda>v. v" now rid ev] assms by (simp add: on_visit_id keeps_row_def)

lemma update_drop_inv:
  assumes "run_inv s" "\<And>l. live_of rid s = Some l \<Longrightarrow> rw_id (f (lv_row l)) = rw_id (lv_row l) \<and> doc_ok (lv_pipe l) (g (lv_doc l))"
  shows "run_inv (run_update now rid (\<lambda>l. l\<lparr>lv_visit := None, lv_row := f (lv_row l), lv_doc := g (lv_doc l)\<rparr>) ev s)"
  by (rule run_update_inv [OF assms(1)]) (use assms(2) live_of_ok(1) [OF assms(1)] in auto)

lemma doc_ok_no_next [simp]: "doc_ok p d \<Longrightarrow> doc_ok p (d\<lparr>ud_next := None\<rparr>)"
  by (simp add: doc_ok_def next_ok_def)

lemma wait_inv [run_kept]: "run_inv s \<Longrightarrow> run_inv (run_wait ev rid why s)"
  unfolding run_wait_def by (intro run_kept update_plain_inv) auto

lemma pause_inv [run_kept]: "run_inv s \<Longrightarrow> run_inv (run_pause ev rid why by t s)"
  unfolding run_pause_def by (intro run_kept update_plain_inv) auto

lemma stop_visit_inv: "run_inv s \<Longrightarrow> stage_row_ok (ru_db s) (vi_row v) \<Longrightarrow> run_inv (stop_visit ev v s)"
  by (auto simp: stop_visit_def Let_def stage_row_ok_frame [of "_\<lparr>sg_ended := _, sg_verdict := _\<rparr>" "vi_row v"] split: option.split work.split intro!: run_kept)

lemma stop_inv [run_kept]: "run_inv s \<Longrightarrow> run_inv (run_stop ev rid why by t s)"
proof -
  assume inv: "run_inv s"
  let ?s = "case visit_of rid s of Some v \<Rightarrow> stop_visit ev v s | None \<Rightarrow> s"
  have a: "run_inv ?s" using inv visit_of_ok [OF inv] by (auto split: option.split intro: stop_visit_inv)
  have u: "run_inv (run_update (ev_now ev) rid
      (\<lambda>l. l\<lparr>lv_visit := None, lv_row := (lv_row l)\<lparr>rw_state := x, rw_ended := y, rw_outcome := z\<rparr>, lv_doc := (lv_doc l)\<lparr>ud_why := w, ud_next := None\<rparr>\<rparr>) e ?s)" for x y z w e
    by (rule update_drop_inv [OF a]) (use live_of_ok(4) [OF a] in auto)
  show ?thesis unfolding run_stop_def Let_def using u by (cases t) (simp_all only: if_True if_False, auto intro: run_kept)
qed

lemma event_inv [run_kept]: "run_inv s \<Longrightarrow> run_inv (fst (run_write (add_event now rid e) s))"
  by (auto simp: run_write_def add_event_def next_fail_def run_inv_def rows_ok_def stage_row_ok_def live_ok_def call_ok_def pipe_of_def db_revisions_def run_ids_def split: option.splits prod.splits)

lemma hand_back_inv [run_kept]: "run_inv s \<Longrightarrow> run_inv (hand_back ev rid s)"
  unfolding hand_back_def Let_def by (auto split: option.split prod.split intro!: run_kept update_plain_inv simp: run_read_def)

subsection \<open>Visits end\<close>

lemma stage_row_ok_concluded [simp]: "stage_row_ok d (concluded_row ev e r) \<longleftrightarrow> stage_row_ok d r"
  by (rule stage_row_ok_frame) (simp_all add: concluded_row_def)

lemma reset_worker_inv [run_kept]: "run_inv s \<Longrightarrow> run_inv (reset_worker d r nxt s)"
  by (auto simp: reset_worker_def split: run_next.split bool.split option.split intro!: run_kept)

lemma reset_worker_live [simp]: "live_of rid (reset_worker d r nxt s) = live_of rid s"
  by (simp add: reset_worker_def split: run_next.split bool.split option.split)

definition visit_doc :: "live \<Rightarrow> run_visit \<Rightarrow> ended \<Rightarrow> run_doc" where
  "visit_doc l v e = (if sg_kind (vi_row v) = ''agent'' then doc_answers (sg_stage (vi_row v)) (en_answer e) (lv_doc l) else lv_doc l)"

lemma visit_doc_same: "ud_taken (visit_doc l v e) = ud_taken (lv_doc l)" "doc_ok p (visit_doc l v e) = doc_ok p (lv_doc l)"
  by (simp_all add: visit_doc_def) (simp add: doc_answers_def)

text \<open>The parts of \<open>conclude\<close>: the row, the worktree, the document, and what follows.\<close>

lemma conclude_unfold:
  assumes "live_of rid s = Some l" "lv_visit l = Some v" "decide (lv_pipe l) (visit_doc l v e) (sg_stage (vi_row v)) (en_verdict e) (en_failures e) = (d, nxt)"
  shows "\<exists>x. conclude ev rid e s = (let s = run_update (ev_now ev) rid (\<lambda>k. k\<lparr>lv_visit := None, lv_doc := d\<lparr>ud_feedback := next_feedback (sg_stage (vi_row v)) e nxt, ud_next := next_name nxt\<rparr>\<rparr>) x
        (reset_worker (d\<lparr>ud_feedback := next_feedback (sg_stage (vi_row v)) e nxt\<rparr>) (vi_row v) nxt (fst (put_stage (concluded_row ev e (vi_row v)) s)))
      in case nxt of Next_Stage _ _ \<Rightarrow> set_soon s | Next_Done \<Rightarrow> hand_back ev rid s
        | Next_Stuck \<Rightarrow> run_stop ev rid (''stuck: no arrow leaves '' @ sg_stage (vi_row v) @ '' after '' @ en_shown e) (Some ''daemon'') True s)"
  unfolding conclude_def assms(1,2) option.case Let_def visit_doc_def [symmetric] assms(3) prod.case by (rule exI) simp

lemma conclude_none: "visit_of rid s = None \<Longrightarrow> conclude ev rid e s = s"
  by (auto simp: conclude_def visit_of_def split: option.split)

lemma conclude_inv [run_kept]:
  assumes inv: "run_inv s"
  shows "run_inv (conclude ev rid e s)"
proof (cases "visit_of rid s")
  case (Some v)
  then obtain l where l: "live_of rid s = Some l" "lv_visit l = Some v" by (cases "live_of rid s") (auto simp: visit_of_def)
  note ok = live_of_ok [OF inv l(1)]
  obtain d nxt where d: "decide (lv_pipe l) (visit_doc l v e) (sg_stage (vi_row v)) (en_verdict e) (en_failures e) = (d, nxt)" by fastforce
  have "doc_ok (lv_pipe l) (visit_doc l v e)" using ok(4) by (simp add: visit_doc_same)
  from decided [OF ok(3) this d] have dok: "doc_ok (lv_pipe l) (d\<lparr>ud_feedback := fb, ud_next := next_name nxt\<rparr>)" for fb .
  define s1 where "s1 = reset_worker (d\<lparr>ud_feedback := next_feedback (sg_stage (vi_row v)) e nxt\<rparr>) (vi_row v) nxt (fst (put_stage (concluded_row ev e (vi_row v)) s))"
  have s1: "run_inv s1" "live_of rid s1 = Some l" unfolding s1_def using inv ok(5) [OF l(2)] l(1) by (auto intro!: run_kept)
  have u: "run_inv (run_update now rid (\<lambda>k. k\<lparr>lv_visit := None, lv_doc := d\<lparr>ud_feedback := fb, ud_next := next_name nxt\<rparr>\<rparr>) x s1)" for now fb x
    by (rule run_update_inv [OF s1(1)]) (use s1(2) ok(1) dok in auto)
  obtain x where c: "conclude ev rid e s = (let s = run_update (ev_now ev) rid (\<lambda>k. k\<lparr>lv_visit := None, lv_doc := d\<lparr>ud_feedback := next_feedback (sg_stage (vi_row v)) e nxt, ud_next := next_name nxt\<rparr>\<rparr>) x s1
      in case nxt of Next_Stage _ _ \<Rightarrow> set_soon s | Next_Done \<Rightarrow> hand_back ev rid s
        | Next_Stuck \<Rightarrow> run_stop ev rid (''stuck: no arrow leaves '' @ sg_stage (vi_row v) @ '' after '' @ en_shown e) (Some ''daemon'') True s)"
    using conclude_unfold [OF l d, of ev] unfolding s1_def by blast
  have fin: "run_inv r \<Longrightarrow> run_inv (case nxt of Next_Stage _ _ \<Rightarrow> set_soon r | Next_Done \<Rightarrow> hand_back ev rid r | Next_Stuck \<Rightarrow> run_stop ev rid why who t r)" for r why who t
    by (cases nxt) (simp_all add: run_kept)
  show ?thesis unfolding c Let_def by (rule fin [OF u])
qed (use inv conclude_none in simp)

lemma interrupted_inv [run_kept]:
  assumes inv: "run_inv s" and v: "sg_run (vi_row v) = rid" "stage_row_ok (ru_db s) (vi_row v)"
  shows "run_inv (interrupted ev rid v s)"
proof -
  let ?row = "(vi_row v)\<lparr>sg_ended := Some (ev_now ev), sg_verdict := Some ''interrupted''\<rparr>"
  have s1: "run_inv (fst (put_stage ?row s))" by (rule put_stage_inv [OF inv]) (use v(2) in \<open>simp add: stage_row_ok_def\<close>)
  have "run_inv (run_update now rid (\<lambda>l. l\<lparr>lv_visit := None, lv_doc := (lv_doc l)\<lparr>ud_next := Some (sg_stage ?row)\<rparr>\<rparr>) x (fst (put_stage ?row s)))" for now x
  proof (rule run_update_inv [OF s1])
    fix l
    assume "live_of rid (fst (put_stage ?row s)) = Some l"
    then have l: "live_of rid s = Some l" by simp
    have "pipe_of rid (ru_db s) = Some (lv_pipe l)" using live_of_ok(1,2) [OF inv l] by (simp add: live_ok_def)
    then have "next_ok (lv_pipe l) (Some (sg_stage (vi_row v)))" using v by (simp add: stage_row_ok_def)
    then show "rw_id (lv_row (l\<lparr>lv_visit := None, lv_doc := (lv_doc l)\<lparr>ud_next := Some (sg_stage ?row)\<rparr>\<rparr>)) = rid \<and>
        lv_pipe (l\<lparr>lv_visit := None, lv_doc := (lv_doc l)\<lparr>ud_next := Some (sg_stage ?row)\<rparr>\<rparr>) = lv_pipe l \<and>
        doc_ok (lv_pipe l) (lv_doc (l\<lparr>lv_visit := None, lv_doc := (lv_doc l)\<lparr>ud_next := Some (sg_stage ?row)\<rparr>\<rparr>)) \<and>
        (\<forall>w. lv_visit (l\<lparr>lv_visit := None, lv_doc := (lv_doc l)\<lparr>ud_next := Some (sg_stage ?row)\<rparr>\<rparr>) = Some w \<longrightarrow> sg_run (vi_row w) = rid \<and> stage_row_ok (ru_db (fst (put_stage ?row s))) (vi_row w))"
      using live_of_ok(1,4) [OF inv l] by (simp add: doc_ok_def)
  qed
  then show ?thesis by (simp add: interrupted_def Let_def plain_inv(2))
qed

subsection \<open>Visits begin\<close>

lemma open_visit_inv:
  assumes inv: "run_inv s" and r: "sg_id r = 0" "sg_run r = rid" "stage_row_ok (ru_db s) r"
    and d: "\<And>l. live_of rid s = Some l \<Longrightarrow> doc_ok (lv_pipe l) ((lv_doc l)\<lparr>ud_sessions := ud_sessions (lv_doc l) + sessions\<rparr>)"
  shows "run_inv (open_visit ev rid name st n w sessions r s)"
proof -
  let ?f = "\<lambda>l. l\<lparr>lv_doc := (lv_doc l)\<lparr>ud_starts := (case map_of (ud_starts (lv_doc l)) name of Some _ \<Rightarrow> ud_starts (lv_doc l) | None \<Rightarrow> bt_insert name (ev_head ev) (ud_starts (lv_doc l))),
                 ud_visits := n, ud_sessions := ud_sessions (lv_doc l) + sessions\<rparr>,
               lv_visit := Some \<lparr>vi_row = r, vi_work = w, vi_within = st_within st, vi_opening = True, vi_ending = False, vi_reported = None, vi_needs = None, vi_paused = False\<rparr>\<rparr>"
  have ed: "rw_id (lv_row (?f l)) = rid \<and> lv_pipe (?f l) = lv_pipe l \<and> doc_ok (lv_pipe l) (lv_doc (?f l)) \<and>
      (\<forall>v. lv_visit (?f l) = Some v \<longrightarrow> sg_run (vi_row v) = rid \<and> stage_row_ok (ru_db s) (vi_row v))" if l: "live_of rid s = Some l" for l
    using live_of_ok(1) [OF inv l] d [OF l] r by (auto simp: doc_ok_def)
  have b: "same_base (ru_db (run_update (ev_now ev) rid ?f (\<lambda>_. None) s)) (ru_db s)" by (rule update_base [OF inv]) (use ed in blast)
  show ?thesis unfolding open_visit_def
    by (intro plain_inv(7) run_update_inv [OF inv] ed) (use r base_same(1) [OF b] in simp)+
qed

lemma begin_inv [run_kept]:
  assumes inv: "run_inv s"
  shows "run_inv (run_begin ev rid name s)"
proof (cases "\<exists>l st. live_of rid s = Some l \<and> stage_named (lv_pipe l) name = Some st \<and> over_budget (lv_pipe l) (lv_doc l) st (max 0 (ev_now ev - rw_started (lv_row l))) = None")
  case True
  then obtain l st where l: "live_of rid s = Some l" "stage_named (lv_pipe l) name = Some st"
    "over_budget (lv_pipe l) (lv_doc l) st (max 0 (ev_now ev - rw_started (lv_row l))) = None" by blast
  note ok = live_of_ok [OF inv l(1)]
  have inv1: "run_inv (next_fail s)" "run_inv (next_fail (next_fail s))" using inv by (auto intro: run_kept)
  have row: "stage_row_ok (ru_db s) r" if "sg_run r = rid" "sg_stage r = name" for r
    using that ok(1,2) l(2) by (auto simp: stage_row_ok_def live_ok_def next_ok_def)
  have cost: "doc_ok (lv_pipe l) ((lv_doc l)\<lparr>ud_sessions := ud_sessions (lv_doc l) + stage_sessions sizes_new st\<rparr>)" by (rule within_budget [OF l(3) ok(4)])
  have agent: "run_inv (begin_agent ev rid name st a l n r (next_fail s))" if r: "sg_id r = 0" "sg_run r = rid" "sg_stage r = name" for a n r
  proof -
    have "run_inv (open_visit ev rid name st n w (stage_sessions sizes_new st) (r\<lparr>sg_kind := k, sg_agent := g, sg_session := x, sg_doc := j\<rparr>) (out o1 (next_fail (next_fail s))))" for w k g x j o1
      by (rule open_visit_inv) (use inv1 r row cost l(1) in \<open>auto intro: run_kept simp: stage_row_ok_def\<close>)
    then show ?thesis using inv1 by (auto simp: begin_agent_def Let_def run_read_def split: option.split intro!: run_kept)
  qed
  have command: "run_inv (begin_command ev rid name st l n r (next_fail s))" if r: "sg_id r = 0" "sg_run r = rid" "sg_stage r = name" for n r
    unfolding begin_command_def Let_def by (rule open_visit_inv) (use inv1 r row ok(4) l(1) in \<open>auto intro!: run_kept simp: stage_row_ok_def\<close>)
  have n: "sg_id (new_stage_row ev t l name k) = 0" "sg_run (new_stage_row ev t l name k) = rid" "sg_stage (new_stage_row ev t l name k) = name" for t k using ok(1) by (simp_all add: new_stage_row_def)
  show ?thesis unfolding run_begin_def l option.case Let_def run_read_def prod.case
    using inv1 agent command n by (auto split: option.split stage_kind.split intro!: run_kept)
next
  case False
  then show ?thesis using inv by (auto simp: run_begin_def split: option.split intro!: run_kept)
qed

lemma opened_begin_inv:
  assumes inv: "run_inv s" and r: "sg_run r = rid" "stage_row_ok (ru_db s) r"
  shows "run_inv (opened_begin ev rid r pane s)"
proof -
  let ?r = "r\<lparr>sg_terminal := Some pane\<rparr>"
  obtain s1 i where p: "put_stage ?r s = (s1, i)" by fastforce
  then have p1: "s1 = fst (put_stage ?r s)" by simp
  define r' where "r' = (case i of Some k \<Rightarrow> ?r\<lparr>sg_id := k\<rparr> | None \<Rightarrow> ?r)"
  have r': "sg_run r' = rid" "stage_row_ok (ru_db s) r'" using r by (auto simp: r'_def stage_row_ok_def split: option.split)
  have s1: "run_inv s1" unfolding p1 by (rule put_stage_inv [OF inv]) (use r in \<open>simp add: stage_row_ok_def\<close>)
  have "run_inv (run_update now rid (\<lambda>l. on_visit (\<lambda>v. v\<lparr>vi_row := r', vi_opening := False\<rparr>) (l\<lparr>lv_doc := (lv_doc l)\<lparr>ud_next := None\<rparr>\<rparr>)) x s1)" for now x
    by (rule run_update_inv [OF s1]) (use live_of_ok(1,4) [OF inv] r' in \<open>auto simp: on_visit_def p1\<close>)
  then show ?thesis unfolding opened_begin_def Let_def p prod.case r'_def [symmetric] by simp
qed

lemma opened_resume_inv [run_kept]: "run_inv s \<Longrightarrow> run_inv (opened_resume ev rid pane s)"
proof -
  assume inv: "run_inv s"
  let ?s = "run_update (ev_now ev) rid (on_visit (\<lambda>v. v\<lparr>vi_row := (vi_row v)\<lparr>sg_terminal := Some pane\<rparr>, vi_opening := False\<rparr>)) (\<lambda>_. None) s"
  have s1: "run_inv ?s" by (rule update_visit_inv [OF _ inv]) (simp add: keeps_row_def)
  have "run_inv (fst (put_stage ((vi_row v)\<lparr>sg_doc := j\<rparr>) ?s))" if "visit_of rid ?s = Some v" for v j
    by (rule put_stage_inv [OF s1]) (use visit_of_ok [OF s1 that] in \<open>auto simp: stage_row_ok_def\<close>)
  then show ?thesis using s1 unfolding opened_resume_def Let_def by (auto split: option.split)
qed

lemma opened_inv:
  assumes "run_inv s" "\<And>r. row = Some r \<Longrightarrow> sg_run r = rid \<and> stage_row_ok (ru_db s) r"
  shows "run_inv (opened ev rid row reply s)"
proof (cases reply)
  case (Inl why)
  have "run_inv (run_update (ev_now ev) rid (on_visit (\<lambda>v. v\<lparr>vi_ending := True\<rparr>)) (\<lambda>_. None) s)" by (rule update_visit_inv [OF _ assms(1)]) (simp add: keeps_row_def)
  then show ?thesis using Inl by (auto simp: opened_def Let_def intro!: run_kept)
next
  case (Inr pane)
  then show ?thesis using assms by (cases row) (auto simp: opened_def intro!: run_kept opened_begin_inv)
qed

subsection \<open>Visits are watched\<close>

lemma park_finish_inv [run_kept]: "run_inv s \<Longrightarrow> run_inv (park_finish ev rid pane said s)"
proof -
  assume "run_inv s"
  then have inv: "run_inv (close_pane pane s)" by (rule plain_inv)
  let ?s = "run_update (ev_now ev) rid (on_visit (parked ev pane said)) (\<lambda>_. None) (close_pane pane s)"
  have s1: "run_inv ?s" by (rule update_visit_inv [OF _ inv]) (simp add: keeps_row_def parked_def)
  have "run_inv (fst (put_stage (vi_row v) ?s))" if "visit_of rid ?s = Some v" for v by (rule put_stage_inv [OF s1]) (use visit_of_ok [OF s1 that] in simp)
  then show ?thesis using s1 unfolding park_finish_def Let_def by (auto split: option.split)
qed

lemma marked_inv: "run_inv s \<Longrightarrow> mark_ending rid s = (s', ok) \<Longrightarrow> run_inv s'"
  using mark_ending_inv [of s rid] by simp

lemma park_inv [run_kept]: "run_inv s \<Longrightarrow> run_inv (park rid s)"
  by (auto simp: park_def split: option.split work.split prod.split dest: marked_inv intro!: run_kept)

lemma update_ending_inv [run_kept]: "run_inv s \<Longrightarrow> run_inv (run_update now rid (on_visit (\<lambda>v. v\<lparr>vi_ending := True\<rparr>)) ev s)"
  by (rule update_visit_inv) (simp_all add: keeps_row_def)

lemma timed_out_inv [run_kept]: "run_inv s \<Longrightarrow> run_inv (timed_out ev rid pane s)"
  by (auto simp: timed_out_def Let_def split: option.split prod.split dest: marked_inv intro!: run_kept)

lemma command_ended_inv [run_kept]: "run_inv s \<Longrightarrow> run_inv (command_ended ev rid pane logf c s)"
  by (auto simp: command_ended_def split: prod.split dest: marked_inv intro!: run_kept)

lemma step_agent_inv: "run_inv s \<Longrightarrow> sg_run (vi_row v) = rid \<Longrightarrow> stage_row_ok (ru_db s) (vi_row v) \<Longrightarrow> run_inv (step_agent ev rid v pane s)"
  by (auto simp: step_agent_def split: option.split prod.split dest: marked_inv intro!: run_kept)

lemma step_command_inv: "run_inv s \<Longrightarrow> sg_run (vi_row v) = rid \<Longrightarrow> stage_row_ok (ru_db s) (vi_row v) \<Longrightarrow> run_inv (step_command ev rid v pane logf exitf s)"
  by (auto simp: step_command_def split: option.split prod.split intro!: run_kept)

lemma tend_inv [run_kept]:
  assumes "run_inv s"
  shows "run_inv (run_tend ev rid s)"
proof (cases "live_of rid s")
  case (Some l)
  show ?thesis
  proof (cases "lv_visit l")
    case None
    then show ?thesis using assms Some by (auto simp: run_tend_def split: option.split intro!: run_kept)
  next
    case v: (Some v)
    from live_of_ok(5) [OF assms Some v] show ?thesis
      using assms Some v by (auto simp: run_tend_def split: option.split work.split intro!: step_agent_inv step_command_inv)
  qed
qed (use assms in \<open>simp add: run_tend_def\<close>)

subsection \<open>Requests\<close>

lemma reporting_row:
  assumes "run_inv s" "reporting args s = Inr (rid, v, g, st)"
  shows "sg_run (vi_row v) = rid \<and> stage_row_ok (ru_db s) (vi_row v)"
proof -
  obtain l where "l \<in> set (ru_live s)" "lv_visit l = Some v" "rw_id (lv_row l) = rid"
    using assms(2) by (auto simp: reporting_def split: option.splits if_splits dest: find_SomeD)
  then show ?thesis using run_invD(2) [OF assms(1)] by (auto simp: live_ok_def)
qed

lemma done_inv:
  assumes inv: "run_inv s"
  shows "run_inv (fst (run_done ev args s))"
proof (cases "reporting args s")
  case (Inr r)
  obtain rid v g st where r: "r = (rid, v, g, st)" by (cases r)
  note row = reporting_row [OF inv Inr [unfolded r]]
  have s1: "run_inv (fst (put_stage ((vi_row v)\<lparr>sg_doc := j\<rparr>) s))" for j by (rule put_stage_inv [OF inv]) (use row in \<open>auto simp: stage_row_ok_def\<close>)
  have k: "keeps_row (\<lambda>v. v\<lparr>vi_reported := x, vi_needs := None\<rparr>)" for x by (simp add: keeps_row_def)
  have u: "run_inv (run_update now rid (\<lambda>l. let l = on_visit (\<lambda>v. v\<lparr>vi_reported := x, vi_needs := None\<rparr>) l
      in if c then l\<lparr>lv_row := (lv_row l)\<lparr>rw_state := ''running''\<rparr>, lv_doc := (lv_doc l)\<lparr>ud_why := None\<rparr>\<rparr> else l) y (fst (put_stage ((vi_row v)\<lparr>sg_doc := j\<rparr>) s)))" for now c x y j
    by (rule run_update_inv [OF s1]) (use live_of_ok(1,4) [OF inv] live_of_ok(5) [OF inv] in \<open>auto simp: on_visit_def Let_def\<close>)
  show ?thesis
  proof (cases "done_verdict (sg_stage (vi_row v)) (json_string args ''verdict'') g")
    case Inl
    then show ?thesis using inv by (simp add: run_done_def Inr r Let_def)
  next
    case w: (Inr w)
    show ?thesis unfolding run_done_def Inr r sum.case prod.case Let_def w fst_conv by (rule plain_inv(2), rule u [unfolded Let_def])
  qed
qed (use inv in \<open>simp add: run_done_def\<close>)

lemma need_inv: "run_inv s \<Longrightarrow> run_inv (fst (run_need ev args s))"
  unfolding run_need_def Let_def by (auto split: sum.split option.split intro!: run_kept simp: keeps_row_def)

lemma too_old_inv: "run_inv s \<Longrightarrow> run_inv (fst (too_old ev pane why s))"
  by (auto simp: too_old_def split: option.split intro!: run_kept)

lemma status_inv: "run_inv s \<Longrightarrow> run_inv (run_status pane t s)"
  by (auto simp: run_status_def Let_def split: option.split prod.split dest: marked_inv intro!: run_kept)

lemma screened_inv: "run_inv s \<Longrightarrow> run_inv (screened ev rid stage pane t s)"
  by (auto simp: screened_def intro!: run_kept)

lemma find_run_fst: "fst (find_run task args s) = s \<or> fst (find_run task args s) = next_fail s"
  by (auto simp: find_run_def split: option.splits)

lemma found_inv: "run_inv s \<Longrightarrow> find_run task args s = (s', r) \<Longrightarrow> run_inv s'"
  using find_run_fst [of task args s] by (auto intro: run_kept)

lemma stop_cmd_inv: "run_inv s \<Longrightarrow> run_inv (fst (run_stop_cmd ev task args s))"
  by (auto simp: run_stop_cmd_def split: prod.split sum.split dest: found_inv intro!: run_kept)

lemma resume_inv:
  assumes "run_inv s"
  shows "run_inv (fst (run_resume ev task args s))"
proof (cases "find_run task args s")
  case (Pair s1 r)
  have s1: "run_inv s1" by (rule found_inv [OF assms Pair])
  have u: "run_inv (run_update now rid (\<lambda>l. on_visit (resume_visit ev t k) (l\<lparr>lv_row := (lv_row l)\<lparr>rw_state := ''running''\<rparr>, lv_doc := (lv_doc l)\<lparr>ud_why := None\<rparr>\<rparr>)) x (out o1 s1))" for now rid t k x o1
    by (rule update_row_inv [where f = "\<lambda>r. r\<lparr>rw_state := ''running''\<rparr>" and g = "\<lambda>d. d\<lparr>ud_why := None\<rparr>"]) (use s1 in \<open>auto intro: run_kept simp: keeps_row_def resume_visit_def\<close>)
  show ?thesis using s1 u by (auto simp: run_resume_def Pair Let_def split: sum.split option.split intro!: run_kept)
qed

subsection \<open>A run starts\<close>

lemma next_ok_start:
  assumes "accepted p"
  shows "next_ok p (Some (pi_start p))"
proof -
  obtain fuel t cx where l: "load fuel t cx = Some (Inr p)" using assms by (auto simp: accepted_def)
  from accepted_check [OF assms] obtain fuel' cx' where c: "check fuel' p cx' = Some (Inr ())" by blast
  from parse_ok [OF loaded_parts(1) [OF l]] obtain a where a: "a \<in> set (pi_arrows p)" "ar_from a = pi_start p" by (auto simp: pipeline_ok_def)
  from accepted_parts(1) [OF c] a(1) have e: "check_arrow p a = []" by (simp add: check_arrows_def)
  then have "stage_map p (pi_start p) \<noteq> None" using a(2) by (auto simp: check_arrow_def split: if_splits)
  then show ?thesis unfolding stage_map_Some by (auto simp: next_ok_def stage_named_def find_None_iff)
qed

lemma start_doc_ok: "accepted p \<Longrightarrow> doc_ok p (start_doc request file worker base p)"
  using next_ok_start counts_start [of p] by (auto simp: doc_ok_def start_doc_def start_state_def sessions_ok_def split: option.split)

lemma parse_nothing: "\<exists>es. parse [] = Inl es"
proof -
  have "(case parse [] of Inl _ \<Rightarrow> True | Inr _ \<Rightarrow> False)" by code_simp
  then show ?thesis by (auto split: sum.splits)
qed

lemma no_revision: "(\<forall>x \<in> set (rb_revs d). fst x \<noteq> rid) \<Longrightarrow> pipe_of rid d = None"
proof -
  assume "\<forall>x \<in> set (rb_revs d). fst x \<noteq> rid"
  then have "db_revisions rid d = []" by (simp add: db_revisions_def)
  then show ?thesis using parse_nothing by (auto simp: pipe_of_def revision_text_def)
qed

text \<open>A row of a run that is new, then its revision.\<close>

lemma new_row_inv:
  assumes inv: "run_inv s" and r: "rw_id row \<notin> run_ids (ru_db s)"
  shows "run_inv (fst (put_run now row ev s))"
proof (cases "ru_fail s 0")
  case None
  let ?d = "ru_db (fst (put_run now row ev s))"
  have f: "put_row row (rb_runs (ru_db s)) = rb_runs (ru_db s) @ [row]" by (rule put_row_new) (use r in \<open>simp add: run_ids_def\<close>)
  have ids: "run_ids ?d = insert (rw_id row) (run_ids (ru_db s))" using None by (simp add: run_ids_def put_run_runs ids_put_row)
  have p: "pipe_of i ?d = pipe_of i (ru_db s)" for i by (rule pipe_of_same) simp
  have no: "pipe_of (rw_id row) (ru_db s) = None" by (rule no_revision) (use run_invD(1) [OF inv] r in \<open>auto simp: rows_ok_def\<close>)
  have row: "stage_row_ok (ru_db s) x \<Longrightarrow> stage_row_ok ?d x" for x by (auto simp: stage_row_ok_def p ids)
  have "rows_ok ?d" using run_invD(1) [OF inv] no row by (auto simp: rows_ok_def put_run_runs None f p ids)
  moreover have "live_ok (ru_db s) l \<Longrightarrow> live_ok ?d l" for l using row by (auto simp: live_ok_def p ids)
  moreover have "call_ok (ru_db s) c \<Longrightarrow> call_ok ?d c" for c using row by (auto simp: call_ok_def)
  ultimately show ?thesis using inv by (auto simp: run_inv_def)
next
  case (Some e)
  then have "fst (put_run now row ev s) = next_fail s" by (simp add: put_run_def run_write_def)
  then show ?thesis using inv by (auto intro: run_kept)
qed

lemma fresh_no_rows:
  assumes "run_inv s" "rid \<notin> run_ids (ru_db s)"
  shows "\<forall>r \<in> set (rb_stages (ru_db s)). sg_run r \<noteq> rid" "\<forall>l \<in> set (ru_live s). rw_id (lv_row l) \<noteq> rid" "\<forall>x \<in> set (rb_revs (ru_db s)). fst x \<noteq> rid"
  using run_invD [OF assms(1)] assms(2) by (auto simp: rows_ok_def stage_row_ok_def live_ok_def call_ok_def)

lemma start_made_inv:
  assumes inv: "run_inv s" and rid: "rid \<notin> run_ids (ru_db s)" and p: "accepted p" "parse t = Inr p"
  shows "run_inv (fst (start_made se tk by name file t request p base worker branch rid s))"
proof -
  let ?doc = "start_doc request file worker base p"
  define row where "row = \<lparr>rw_id = rid, rw_task = rt_id tk, rw_repo = rt_repo tk, rw_pipeline = name, rw_hash = fnv_hash t, rw_branch = branch, rw_state = ''running'', rw_started = ev_now (se_env se), rw_ended = None,
            rw_outcome = None, rw_doc = JObject (oinsert ''budget'' (budget_value p) (doc_to_value ?doc))\<rparr>"
  define j where "j = JObject [(''text'', JString t), (''file'', JString file), (''prompts'', JObject (map (\<lambda>(k, v). (k, JString v)) (se_prompts se)))]"
  obtain s1 e1 where 1: "put_run (ev_now (se_env se)) row (Some (''started'', Some by, JObject [(''pipeline'', JString name), (''branch'', JString branch), (''base'', JString base)])) s = (s1, e1)" by fastforce
  have s1: "run_inv s1" using new_row_inv [OF inv, of row] rid 1 by (simp add: row_def) (metis fst_conv)
  show ?thesis
  proof (cases e1)
    case None
    have f1: "ru_fail s 0 = None" "rb_revs (ru_db s1) = rb_revs (ru_db s)" "rb_stages (ru_db s1) = rb_stages (ru_db s)" "ru_live s1 = ru_live s" "ru_calls s1 = ru_calls s"
      "rb_runs (ru_db s1) = put_row row (rb_runs (ru_db s))"
      using 1 None by (auto simp: put_run_def run_write_def next_fail_def add_event_def split: option.splits)
    obtain s2 e2 where 2: "add_revision rid j s1 = (s2, e2)" by fastforce
    show ?thesis
    proof (cases e2)
      case e2: None
      let ?s = "s2\<lparr>ru_live := ru_live s2 @ [\<lparr>lv_row = row, lv_doc = ?doc, lv_pipe = p, lv_visit = None\<rparr>]\<rparr>"
      have f2: "rb_revs (ru_db s2) = rb_revs (ru_db s) @ [(rid, j)]" "rb_stages (ru_db s2) = rb_stages (ru_db s)" "ru_live s2 = ru_live s" "ru_calls s2 = ru_calls s"
        "rb_runs (ru_db s2) = rb_runs (ru_db s1)"
        using 2 e2 f1 by (auto simp: add_revision_def run_write_def next_fail_def split: option.splits)
      have ids: "run_ids (ru_db s2) = insert rid (run_ids (ru_db s))" "run_ids (ru_db s1) = insert rid (run_ids (ru_db s))"
        using f1(6) f2(5) by (simp_all add: run_ids_def ids_put_row row_def)
      have f: "rb_runs (ru_db s2) = rb_runs (ru_db s) @ [row]" using rid f1(6) f2(5) put_row_new [of row "rb_runs (ru_db s)"] by (simp add: run_ids_def row_def)
      have pn: "pipe_of i (ru_db s2) = pipe_of i (ru_db s)" if "i \<noteq> rid" for i using that by (simp add: pipe_of_def db_revisions_def f2(1))
      have "db_revisions rid (ru_db s2) = [j]" using fresh_no_rows(3) [OF inv rid] by (simp add: db_revisions_def f2(1) filter_empty_conv)
      then have pr: "pipe_of rid (ru_db s2) = Some p" using p(2) by (simp add: pipe_of_def revision_text_def value_text_def json_string_def j_def)
      have doc: "doc_ok p ?doc" by (rule start_doc_ok [OF p(1)])
      have dr: "doc_ok p (doc_from_value (rw_doc row))"
        using doc saved_fresh [of "JObject [(''budget'', budget_value p)]" ?doc] by (simp add: saved_doc_def row_def doc_ok_same)
      have rk: "stage_row_ok (ru_db s) x \<Longrightarrow> stage_row_ok (ru_db s2) x" for x
      proof -
        assume k: "stage_row_ok (ru_db s) x"
        then have "sg_run x \<noteq> rid" using rid by (auto simp: stage_row_ok_def)
        then show ?thesis using k pn by (simp add: stage_row_ok_def ids)
      qed
      have old: "rw_id r \<noteq> rid" if "r \<in> set (rb_runs (ru_db s))" for r using that rid by (auto simp: run_ids_def)
      have "rows_ok (ru_db s2)"
        unfolding rows_ok_def f f2(1,2) ids using run_invD(1) [OF inv] p(1) pr dr rk pn [OF old] by (auto simp: rows_ok_def row_def)
      moreover have "live_ok (ru_db s2) l" if "l \<in> set (ru_live ?s)" for l
      proof (cases "l \<in> set (ru_live s)")
        case True
        then have k: "live_ok (ru_db s) l" by (rule run_invD(2) [OF inv])
        then have "rw_id (lv_row l) \<noteq> rid" using rid by (auto simp: live_ok_def)
        then show ?thesis using k rk pn by (auto simp: live_ok_def ids)
      next
        case False
        then show ?thesis using that f2(3) doc pr by (auto simp: live_ok_def ids row_def)
      qed
      moreover have "call_ok (ru_db s2) c" if "c \<in> set (ru_calls ?s)" for c using that run_invD(3) [OF inv, of c] f2(4) rk by (auto simp: call_ok_def)
      ultimately have "run_inv (set_soon ?s)" by (intro plain_inv(2)) (simp add: run_inv_def)
      then show ?thesis unfolding start_made_def Let_def using 1 None 2 e2 by (simp add: row_def [symmetric] j_def [symmetric])
    next
      case (Some e)
      then have "s2 = next_fail s1" using 2 by (auto simp: add_revision_def run_write_def split: option.splits)
      then show ?thesis unfolding start_made_def Let_def using 1 None 2 Some s1 by (simp add: row_def [symmetric] j_def [symmetric] plain_inv(3))
    qed
  next
    case (Some e)
    then show ?thesis unfolding start_made_def Let_def using 1 s1 by (simp add: row_def [symmetric])
  qed
qed

lemma start_cmd_inv:
  assumes inv: "run_inv s"
  shows "run_inv (fst (run_start_cmd se task args s))"
proof -
  have n: "run_inv (next_fail s)" "run_inv (next_fail (next_fail s))" using inv by (auto intro: run_kept)
  have made: "run_inv (fst (start_made se tk u name fi t request p base worker branch rid (next_fail (next_fail s))))"
    if "load_all t (start_context s se) = Some (Inr p)" "unbuilt p = []" "new_run_id (se_ids se) (ru_db s) = Some rid" for tk u name fi t request p base worker branch rid
  proof (rule start_made_inv [OF n(2)])
    show "rid \<notin> run_ids (ru_db (next_fail (next_fail s)))" using that(3) by (auto simp: new_run_id_def run_ids_def dest!: find_SomeD)
    show "accepted p" "parse t = Inr p" using that(1,2) loaded_parts(1) unfolding load_all_def accepted_def by blast+
  qed
  show ?thesis unfolding run_start_cmd_def Let_def run_read_def
    using inv n made by (auto split: option.split sum.split prod.split)
qed

subsection \<open>Everything that can happen\<close>

lemma close_run_inv: "run_inv s \<Longrightarrow> run_inv (close_run ev rid repo worker terminal s)"
  unfolding close_run_def Let_def by (auto split: option.split intro!: run_kept)

lemma foldl_inv: "(\<And>x s. P s \<Longrightarrow> P (f s x)) \<Longrightarrow> P s \<Longrightarrow> P (foldl f s xs)"
  by (induction xs arbitrary: s) auto

lemma task_closed_inv: "run_inv s \<Longrightarrow> run_inv (task_closed ev task s)"
  unfolding task_closed_def by (rule foldl_inv) (auto intro: close_run_inv)

lemma tick_inv:
  assumes "run_inv s"
  shows "run_inv (fst (run_tick ev s))"
proof -
  have 0: "run_inv (s\<lparr>ru_soon := False\<rparr>)" using assms by (auto intro: run_inv_cong)
  have 1: "run_inv (tick_steps ev s)" if "run_inv s" for s
  proof -
    have "run_inv (foldl (\<lambda>s rid. run_tend ev rid s) s (map (\<lambda>l. rw_id (lv_row l)) (filter tended (ru_live s))))"
      by (rule foldl_inv) (use that in \<open>auto intro: run_kept\<close>)
    then show ?thesis unfolding tick_steps_def Let_def by (rule run_inv_cong [rotated 3]) auto
  qed
  show ?thesis using 0 1 [OF 0] by (simp add: run_tick_def Let_def)
qed

lemma load_live_inv:
  assumes inv: "run_inv s" and row: "row \<in> set (rb_runs (ru_db s))"
  shows "run_inv (load_live ev row s)"
proof -
  have n: "run_inv (next_fail s)" "run_inv (next_fail (next_fail s))" using inv by (auto intro: run_kept)
  let ?revs = "case ru_fail s 0 of Some _ \<Rightarrow> None | None \<Rightarrow> Some (db_revisions (rw_id row) (ru_db s))"
  show ?thesis
  proof (cases "parse (revision_text ?revs)")
    case (Inl es)
    then show ?thesis using n by (simp add: load_live_def run_read_def Let_def)
  next
    case (Inr p)
    then have "ru_fail s 0 = None" using parse_nothing by (auto simp: revision_text_def split: option.splits)
    then have p: "pipe_of (rw_id row) (ru_db s) = Some p" using Inr by (simp add: pipe_of_def)
    let ?v = "map_option (visit_from ev (rw_state row) p) (Option.bind (case ru_fail (next_fail s) 0 of Some _ \<Rightarrow> None | None \<Rightarrow> Some (db_stages (rw_id row) (ru_db s))) open_row)"
    have v: "sg_run (vi_row v) = rw_id row \<and> stage_row_ok (ru_db s) (vi_row v)" if "?v = Some v" for v
    proof -
      obtain r where r: "open_row (db_stages (rw_id row) (ru_db s)) = Some r" "v = visit_from ev (rw_state row) p r" using \<open>?v = Some v\<close> by (auto split: option.splits)
      from r(1) have "r \<in> set (filter (\<lambda>r. sg_ended r = None) (db_stages (rw_id row) (ru_db s)))" unfolding open_row_def by (cases "filter (\<lambda>r. sg_ended r = None) (db_stages (rw_id row) (ru_db s))") (auto split: if_splits)
      then have "r \<in> set (rb_stages (ru_db s))" "sg_run r = rw_id row" by (auto simp: db_stages_def)
      then show ?thesis using r(2) run_invD(1) [OF inv] by (auto simp: visit_from_def Let_def rows_ok_def)
    qed
    have d: "doc_ok p (doc_from_value (rw_doc row))" "rw_id row \<in> run_ids (ru_db s)" using run_invD(1) [OF inv] row p by (auto simp: rows_ok_def run_ids_def)
    have "live_ok (ru_db s) \<lparr>lv_row = row, lv_doc = doc_from_value (rw_doc row), lv_pipe = p, lv_visit = ?v\<rparr>" unfolding live_ok_def using p d v by simp
    then show ?thesis using Inr n(2) unfolding load_live_def run_read_def Let_def prod.case plain_parts by (simp add: run_inv_def)
  qed
qed

lemma load_live_db: "ru_db (load_live ev row s) = ru_db s"
  by (simp add: load_live_def run_read_def Let_def split: sum.split)

lemma load_lives_inv: "run_inv s \<Longrightarrow> set rows \<subseteq> set (rb_runs (ru_db s)) \<Longrightarrow> run_inv (foldl (\<lambda>s row. load_live ev row s) s rows)"
  by (induction rows arbitrary: s) (auto simp: load_live_inv load_live_db)

lemma open_inv:
  assumes "rows_ok d"
  shows "run_inv (run_open ev host fl d)"
proof -
  let ?s = "\<lparr>ru_db = d, ru_live = [], ru_soon = True, ru_host = host, ru_calls = [], ru_out = [], ru_fail = fl\<rparr>"
  have "run_inv (next_fail ?s)" by (rule plain_inv(3)) (simp add: run_inv_def assms)
  moreover have "set (db_live_runs d) \<subseteq> set (rb_runs d)" by (auto simp: db_live_runs_def by_start_def)
  ultimately show ?thesis unfolding run_open_def Let_def run_read_def prod.case by (intro load_lives_inv) (auto split: option.split)
qed

lemma answered_inv: "run_inv s \<Longrightarrow> call_ok (ru_db s) c \<Longrightarrow> run_inv (run_answered ev an c s)"
  by (cases c) (auto intro!: run_kept opened_inv screened_inv simp: call_ok_def)

lemma in_inv:
  assumes "run_inv s"
  shows "run_inv (run_in inp s)"
proof (cases inp)
  case (In_Answer k ev an)
  show ?thesis
  proof (cases "k < length (ru_calls s)")
    case True
    have "set (take k (ru_calls s) @ drop (Suc k) (ru_calls s)) \<subseteq> set (ru_calls s)" by (auto dest: in_set_takeD in_set_dropD)
    then have "run_inv (s\<lparr>ru_calls := take k (ru_calls s) @ drop (Suc k) (ru_calls s)\<rparr>)" by (intro run_inv_cong [OF _ _ _ assms]) simp_all
    then show ?thesis using In_Answer True run_invD(3) [OF assms, of "ru_calls s ! k"] answered_inv by simp
  qed (use assms In_Answer in simp)
qed (use assms start_cmd_inv stop_cmd_inv resume_inv done_inv need_inv tick_inv status_inv too_old_inv task_closed_inv in \<open>auto simp: pane_ended_def intro: run_kept\<close>)

lemma runs_reach_inv: "runs_reach s \<Longrightarrow> run_inv s"
proof (induction rule: runs_reach.induct)
  case (ra_start ev host fl)
  show ?case by (rule open_inv) (simp add: empty_runs_def rows_ok_def)
next
  case (ra_in s inp fl)
  then have "run_inv (s\<lparr>ru_fail := fl\<rparr>)" by (auto intro: run_inv_cong)
  then show ?case by (rule in_inv)
next
  case (ra_restart s ev host fl)
  then show ?case using open_inv run_invD(1) by blast
qed

subsection \<open>Every run keeps to its limits\<close>

text \<open>A number is in range for its width: the comparison on integers, which evaluates.\<close>

lemma parse_unsigned_code [code]:
  "parse_unsigned w s =
     (let d = (case s of c # r \<Rightarrow> if c = CHR ''+'' then r else s | [] \<Rightarrow> [])
      in if d \<noteq> [] \<and> list_all is_digit d \<and> int (digits_value d) < 2 ^ w then Some (digits_value d) else None)"
proof -
  have "int n < 2 ^ w \<longleftrightarrow> n < 2 ^ w" for n by (metis of_nat_less_iff of_nat_power of_nat_numeral)
  then show ?thesis by (simp only: parse_unsigned_def)
qed

definition looping :: string where
  "looping = ''check = run make'' @ [newline] @ ''check -[fail, max 2]-> check -> done'' @ [newline] @ ''budget = 3 sessions'' @ [newline]"

definition loop_env :: run_env where
  "loop_env = \<lparr>ev_now = 10, ev_pane = (\<lambda>_. Some (False, Some 2)), ev_file = (\<lambda>f. if ends_with ''.kojo'' f then Some looping else None), ev_unwritable = (\<lambda>_. None),
     ev_folder = (\<lambda>_. True), ev_head = ''c0'', ev_commits = 0, ev_session = None, ev_plain = (\<lambda>t. t), ev_named = (\<lambda>_ t. t)\<rparr>"

definition loop_start :: start_env where
  "loop_start = \<lparr>se_env = loop_env, se_unread = [], se_prompts = [], se_base = Inr ''c0'', se_add = (\<lambda>_. Inr (''/w'', ''task-1'')), se_ids = [''ab'']\<rparr>"

definition loop_task :: run_task where
  "loop_task = \<lparr>rt_id = ''t'', rt_repo = ''/r'', rt_folder = Some ''/f'', rt_message = Some ''go''\<rparr>"

definition loop_pipe :: pipeline where
  "loop_pipe = (case parse looping of Inr p \<Rightarrow> p | Inl _ \<Rightarrow> review_loop)"

definition loop_runs :: runs_state where
  "loop_runs = run_in (In_Start loop_start (Some loop_task) (JObject [(''pipeline'', JString ''loop'')])) (run_open loop_env ''here'' (\<lambda>_. None) empty_runs)"

lemma loop_open: "run_open loop_env ''here'' (\<lambda>_. None) empty_runs = \<lparr>ru_db = empty_runs, ru_live = [], ru_soon = True, ru_host = ''here'', ru_calls = [], ru_out = [], ru_fail = (\<lambda>_. None)\<rparr>"
  by (simp add: run_open_def run_read_def next_fail_def db_live_runs_def by_start_def empty_runs_def)

lemma loop_read: "ev_file loop_env (pipeline_file ''/f'' ''loop'') = Some looping"
  by code_simp

lemma loop_loads: "load_all looping \<lparr>cx_prompts = Map.empty, cx_machine = Some ''here'', cx_machines = [], cx_roles = [], cx_sizes = Map.empty\<rparr> = Some (Inr loop_pipe)" (is "load_all _ ?cx = _")
proof -
  have "map_option (map_sum (\<lambda>_. ()) (\<lambda>_. ())) (load_all looping ?cx) = Some (Inr ())" by code_simp
  then obtain p where p: "load_all looping ?cx = Some (Inr p)" by (cases "load_all looping ?cx"; cases "the (load_all looping ?cx)") auto
  then have "parse looping = Inr p" unfolding load_all_def using loaded_parts(1) by blast
  then show ?thesis using p by (simp add: loop_pipe_def)
qed

lemma loop_built: "unbuilt loop_pipe = []"
  by code_simp

lemma loop_live: "\<exists>l. ru_live loop_runs = [l] \<and> lv_pipe l = loop_pipe \<and> ud_next (lv_doc l) = Some ''check'' \<and> lv_visit l = None \<and> rw_state (lv_row l) = ''running''"
proof -
  have st: "pi_start loop_pipe = ''check''" by code_simp
  show ?thesis
    unfolding loop_runs_def run_in.simps run_start_cmd_def loop_open
    using loop_loads loop_built loop_read st
    by (simp add: loop_task_def Let_def start_context_def loop_start_def json_string_def run_read_def next_fail_def db_runs_of_def by_start_def empty_runs_def new_run_id_def add_from.simps
      start_made_def put_run_def run_write_def add_revision_def set_soon_def start_doc_def)
qed



end
